(* ===== verification/Prelude.thy ===== *)
theory Prelude
  imports Main "HOL-Library.Word"
begin

text \<open>
  Shared vocabulary of the development: the kernel's integer types and error codes, C strings,
  the decimal-number loop that several path builders of the kernel repeat, and the generic facts
  on words, lists and functions that the component theories use.

  A C string is the list of its bytes before the terminating NUL. A pointer that may be NULL is
  an option. A kernel \<open>int\<close> result code is an \<open>int\<close>: 0 for success, a negative \<open>OB_E...\<close> code for
  an error.
\<close>

unbundle bit_operations_syntax

named_theorems kernel_defs \<open>definitions of kernel constants that proofs unfold together\<close>
named_theorems frame_simps \<open>fields that an operation leaves unchanged\<close>

type_synonym u8 = "8 word"
type_synonym u16 = "16 word"
type_synonym u32 = "32 word"
type_synonym u64 = "64 word"

section \<open>Error codes (\<open>task.h\<close>, \<open>vfs.h\<close>, \<open>futex.h\<close>)\<close>

abbreviation OB_EPERM :: int where "OB_EPERM \<equiv> -1"
abbreviation OB_ENOENT :: int where "OB_ENOENT \<equiv> -2"
abbreviation OB_EIO :: int where "OB_EIO \<equiv> -5"
abbreviation OB_EBADF :: int where "OB_EBADF \<equiv> -9"
abbreviation OB_EAGAIN :: int where "OB_EAGAIN \<equiv> -11"
abbreviation OB_ENOMEM :: int where "OB_ENOMEM \<equiv> -12"
abbreviation OB_EACCES :: int where "OB_EACCES \<equiv> -13"
abbreviation OB_EFAULT :: int where "OB_EFAULT \<equiv> -14"
abbreviation OB_EEXIST :: int where "OB_EEXIST \<equiv> -17"
abbreviation OB_ENOTDIR :: int where "OB_ENOTDIR \<equiv> -20"
abbreviation OB_EISDIR :: int where "OB_EISDIR \<equiv> -21"
abbreviation OB_EINVAL :: int where "OB_EINVAL \<equiv> -22"
abbreviation OB_EROFS :: int where "OB_EROFS \<equiv> -30"
abbreviation OB_ENOSYS :: int where "OB_ENOSYS \<equiv> -38"
abbreviation OB_ENOTEMPTY :: int where "OB_ENOTEMPTY \<equiv> -39"
abbreviation OB_ENETUNREACH :: int where "OB_ENETUNREACH \<equiv> -101"
abbreviation OB_ETIMEDOUT :: int where "OB_ETIMEDOUT \<equiv> -110"

section \<open>C strings\<close>

text \<open>Reading the byte at an index: the terminating NUL where the string ends.\<close>

definition char_at :: "string \<Rightarrow> nat \<Rightarrow> char" where
  "char_at s i = (if i < length s then s ! i else CHR 0x00)"

text \<open>The loop of \<open>while (*a && *b) ...; return *a == 0 && *b == 0\<close>.\<close>

fun c_streq :: "string \<Rightarrow> string \<Rightarrow> bool" where
  "c_streq (a # as) (b # bs) = (if a \<noteq> b then False else c_streq as bs)"
| "c_streq as bs = (as = [] \<and> bs = [])"

lemma c_streq_iff [simp]: "c_streq a b \<longleftrightarrow> a = b"
  by (induction a b rule: c_streq.induct) auto

text \<open>The loop of \<open>while (*prefix) { if (*path != *prefix) return 0; ... } return 1\<close>.\<close>

fun c_prefix :: "string \<Rightarrow> string \<Rightarrow> bool" where
  "c_prefix path [] = True"
| "c_prefix [] (p # ps) = False"
| "c_prefix (c # cs) (p # ps) = (if c \<noteq> p then False else c_prefix cs ps)"

lemma c_prefix_iff: "c_prefix s p \<longleftrightarrow> (\<exists>r. s = p @ r)"
  by (induction s p rule: c_prefix.induct) auto

lemma c_prefix_append [simp]: "c_prefix (p @ r) p"
  by (auto simp: c_prefix_iff)

lemma c_prefix_cancel [simp]: "c_prefix (p @ s) (p @ q) = c_prefix s q"
  by (simp add: c_prefix_iff)

lemma char_at_append [simp]:
  "char_at (p @ r) (length p) = (case r of [] \<Rightarrow> CHR 0x00 | c # _ \<Rightarrow> c)"
  by (cases r) (auto simp: char_at_def)

section \<open>Decimal numbers\<close>

text \<open>
  Several path builders print a 64-bit number with the same loop:
  \<open>if (v == 0) num[nd++] = '0'; while (v && nd < 23) { num[nd++] = '0' + v % 10; v /= 10; }\<close>
  and then copy \<open>num\<close> backwards. \<open>num_loop\<close> is the \<open>while\<close> loop with the room left in the
  buffer, \<open>dec_string\<close> the reversed result.
\<close>

fun num_loop :: "nat \<Rightarrow> nat \<Rightarrow> string" where
  "num_loop 0 v = []"
| "num_loop (Suc room) v =
     (if v = 0 then [] else char_of (48 + v mod 10) # num_loop room (v div 10))"

definition num_digits :: "nat \<Rightarrow> string" where
  "num_digits v = (if v = 0 then ''0'' else num_loop 23 v)"

definition dec_string :: "nat \<Rightarrow> string" where
  "dec_string v = rev (num_digits v)"

fun num_value :: "string \<Rightarrow> nat" where
  "num_value [] = 0"
| "num_value (c # cs) = (of_char c - 48) + 10 * num_value cs"

lemma num_value_loop: "v < 10 ^ room \<Longrightarrow> num_value (num_loop room v) = v"
proof (induction room v rule: num_loop.induct)
  case (2 room v)
  have "of_char (char_of (48 + v mod 10) :: char) = (48 + v mod 10 :: nat)"
    by (simp add: of_char_of)
  moreover have "v div 10 < 10 ^ room"
    using "2.prems" by (simp add: less_mult_imp_div_less mult.commute)
  ultimately show ?case
    using "2.IH" by (cases "v = 0") auto
qed simp

lemma num_value_digits: "v < 10 ^ 23 \<Longrightarrow> num_value (num_digits v) = v"
  by (simp only: num_digits_def num_value_loop split: if_split) simp

lemma dec_string_inj:
  assumes "v < 10 ^ 23" "w < 10 ^ 23" "dec_string v = dec_string w"
  shows "v = w"
  using assms num_value_digits unfolding dec_string_def rev_is_rev_conv by metis

lemma num_loop_digits: "c \<in> set (num_loop room v) \<Longrightarrow> \<exists>d < 10. c = char_of (48 + d :: nat)"
  by (induction room v rule: num_loop.induct) (auto split: if_splits intro: exI [of _ "_ mod 10"])

definition is_digit :: "char \<Rightarrow> bool" where
  "is_digit c \<longleftrightarrow> 48 \<le> (of_char c :: nat) \<and> (of_char c :: nat) \<le> 57"

lemma dec_string_is_digit: "c \<in> set (dec_string v) \<Longrightarrow> is_digit c"
  by (auto simp: dec_string_def num_digits_def is_digit_def of_char_of split: if_splits
      dest!: num_loop_digits)

lemma is_digit_not [simp]: "\<not> is_digit CHR ''/''" "\<not> is_digit CHR ''_''" "\<not> is_digit CHR 0x00"
  by (simp_all add: is_digit_def)

lemma num_loop_not_Nil: "v \<noteq> 0 \<Longrightarrow> 0 < room \<Longrightarrow> num_loop room v \<noteq> []"
  by (cases room) auto

lemma dec_string_not_Nil [simp]: "dec_string v \<noteq> []"
  by (simp add: dec_string_def num_digits_def num_loop_not_Nil)

lemma num_loop_length: "length (num_loop room v) \<le> room"
  by (induction room v rule: num_loop.induct) auto

lemma dec_string_length: "length (dec_string v) \<le> 23"
  using num_loop_length [of 23 v] by (auto simp: dec_string_def num_digits_def)

text \<open>
  Two decimal numbers each followed by a non-digit (or the end) are equal when the strings are:
  what makes the kernel's per-process path prefixes unambiguous.
\<close>

lemma digits_split:
  assumes "\<forall>c \<in> set ds. is_digit c" "\<forall>c \<in> set es. is_digit c"
    and "r = [] \<or> \<not> is_digit (hd r)" "t = [] \<or> \<not> is_digit (hd t)"
    and "ds @ r = es @ t"
  shows "ds = es \<and> r = t"
  using assms
proof (induction ds arbitrary: es)
  case Nil
  then show ?case by (cases es) auto
next
  case (Cons d ds)
  then show ?case by (cases es) auto
qed

text \<open>Evaluation of decimal strings in the witnesses.\<close>

lemma num_loop_step:
  "0 < room \<Longrightarrow> num_loop room v =
     (if v = 0 then [] else char_of (48 + v mod 10) # num_loop (room - 1) (v div 10))"
  by (cases room) auto

lemma digit_chars:
  "char_of (48::nat) = CHR ''0''" "char_of (49::nat) = CHR ''1''" "char_of (50::nat) = CHR ''2''"
  "char_of (51::nat) = CHR ''3''" "char_of (52::nat) = CHR ''4''" "char_of (53::nat) = CHR ''5''"
  "char_of (54::nat) = CHR ''6''" "char_of (55::nat) = CHR ''7''" "char_of (56::nat) = CHR ''8''"
  "char_of (57::nat) = CHR ''9''"
  by (simp_all add: char_of_def bit_nat_iff bit_0)

lemmas dec_eval = dec_string_def num_digits_def num_loop_step digit_chars

end
