(* ===== verification/Pid.thy ===== *)
theory Pid
  imports Prelude
begin

text \<open>
  The PID bitmap (\<open>pid.c\<close>). The state is the byte array \<open>g_pid_bitmap\<close> (a function from byte
  index to byte; the array has 8192 bytes, one bit per PID 0..65535) and the flag
  \<open>g_pid_inited\<close>. PIDs are naturals: the code only compares and indexes with them.
  The set of used PIDs, \<open>pid_used\<close>, is the abstract state; every operation is specified on it,
  and the locale \<open>pid_allocator\<close> is what the task table relies on.
\<close>

section \<open>State and constants (\<open>pid.c\<close>, \<open>task.h\<close>)\<close>

definition PID_RESERVED_MAX :: nat where [kernel_defs]: "PID_RESERVED_MAX = 99"
definition PID_EXT_MIN :: nat where [kernel_defs]: "PID_EXT_MIN = 100"
definition PID_EXT_MAX :: nat where [kernel_defs]: "PID_EXT_MAX = 999"
definition PID_USER_MIN :: nat where [kernel_defs]: "PID_USER_MIN = 1000"
definition PID_MAX :: nat where [kernel_defs]: "PID_MAX = 65535"
definition PID_BITMAP_BYTES :: nat where [kernel_defs]: "PID_BITMAP_BYTES = 8192"

record pid_state =
  g_pid_bitmap :: "nat \<Rightarrow> u8"
  g_pid_inited :: bool

section \<open>Operations\<close>

definition bit_test :: "(nat \<Rightarrow> u8) \<Rightarrow> nat \<Rightarrow> bool" where
  "bit_test bm i = (drop_bit (i mod 8) (bm (i div 8)) AND 1 \<noteq> 0)"

definition bit_set :: "nat \<Rightarrow> (nat \<Rightarrow> u8) \<Rightarrow> nat \<Rightarrow> u8" where
  "bit_set i bm = bm(i div 8 := bm (i div 8) OR push_bit (i mod 8) 1)"

definition bit_clear :: "nat \<Rightarrow> (nat \<Rightarrow> u8) \<Rightarrow> nat \<Rightarrow> u8" where
  "bit_clear i bm = bm(i div 8 := bm (i div 8) AND NOT (push_bit (i mod 8) 1))"

definition pid_init :: "pid_state \<Rightarrow> pid_state" where
  "pid_init s =
     (if g_pid_inited s then s
      else s\<lparr>g_pid_bitmap :=
               bit_set 0 (\<lambda>i. if i < PID_BITMAP_BYTES then 0 else g_pid_bitmap s i),
             g_pid_inited := True\<rparr>)"

definition pid_is_reserved :: "nat \<Rightarrow> bool" where
  "pid_is_reserved pid = (pid \<le> PID_RESERVED_MAX)"

text \<open>The \<open>for\<close> loop of \<open>scan_and_claim\<close>: the first clear bit in \<open>[i, e]\<close>.\<close>

function scan_bits :: "(nat \<Rightarrow> u8) \<Rightarrow> nat \<Rightarrow> nat \<Rightarrow> nat option" where
  "scan_bits bm i e =
     (if i \<le> e then if \<not> bit_test bm i then Some i else scan_bits bm (Suc i) e else None)"
  by pat_completeness auto
termination
  by (relation "measure (\<lambda>(bm, i, e). Suc e - i)") auto

declare scan_bits.simps [simp del]

definition scan_and_claim :: "nat \<Rightarrow> nat \<Rightarrow> pid_state \<Rightarrow> int \<times> pid_state" where
  "scan_and_claim start e s =
     (let e = (if e > PID_MAX then PID_MAX else e) in
      if start > e then (-1, s)
      else case scan_bits (g_pid_bitmap s) start e of
        Some i \<Rightarrow> (int i, s\<lparr>g_pid_bitmap := bit_set i (g_pid_bitmap s)\<rparr>)
      | None \<Rightarrow> (-1, s))"

definition alloc_pid :: "nat \<Rightarrow> pid_state \<Rightarrow> int \<times> pid_state" where
  "alloc_pid requested s =
     (if requested \<noteq> 0 then
        if requested > PID_MAX then (OB_EINVAL, s)
        else if pid_is_reserved requested then (OB_EINVAL, s)
        else if bit_test (g_pid_bitmap s) requested then (OB_EAGAIN, s)
        else (int requested, s\<lparr>g_pid_bitmap := bit_set requested (g_pid_bitmap s)\<rparr>)
      else
        let (got, s) = scan_and_claim PID_USER_MIN PID_MAX s;
            (got, s) = (if got < 0 then scan_and_claim PID_EXT_MIN PID_EXT_MAX s else (got, s))
        in if got < 0 then (OB_EAGAIN, s) else (got, s))"

definition free_pid :: "nat \<Rightarrow> pid_state \<Rightarrow> int \<times> pid_state" where
  "free_pid pid s =
     (if pid = 0 then (0, s)
      else if pid_is_reserved pid then (-1, s)
      else if \<not> bit_test (g_pid_bitmap s) pid then (-1, s)
      else (0, s\<lparr>g_pid_bitmap := bit_clear pid (g_pid_bitmap s)\<rparr>))"

definition alloc_pid_kernel :: "nat \<Rightarrow> pid_state \<Rightarrow> int \<times> pid_state" where
  "alloc_pid_kernel requested s =
     (if requested = 0 \<or> requested > PID_RESERVED_MAX then (OB_EINVAL, s)
      else if bit_test (g_pid_bitmap s) requested then (OB_EAGAIN, s)
      else (int requested, s\<lparr>g_pid_bitmap := bit_set requested (g_pid_bitmap s)\<rparr>))"

section \<open>Bit operations\<close>

lemma bit_test_iff: "bit_test bm i \<longleftrightarrow> bit (bm (i div 8)) (i mod 8)"
proof -
  have "drop_bit (i mod 8) (bm (i div 8)) AND 1 = of_bool (bit (bm (i div 8)) (i mod 8))"
    by (simp add: and_one_eq mod2_eq_if bit_iff_odd_drop_bit)
  then show ?thesis by (simp add: bit_test_def)
qed

lemma same_bit_iff: "i div 8 = j div 8 \<and> i mod 8 = j mod 8 \<longleftrightarrow> i = (j::nat)"
  by (metis div_mult_mod_eq)

lemma bit_test_set [simp]: "bit_test (bit_set i bm) j \<longleftrightarrow> j = i \<or> bit_test bm j"
  using same_bit_iff [of i j]
  by (auto simp: bit_test_iff bit_set_def bit_simps)

lemma bit_test_clear [simp]: "bit_test (bit_clear i bm) j \<longleftrightarrow> j \<noteq> i \<and> bit_test bm j"
  using same_bit_iff [of i j]
  by (auto simp: bit_test_iff bit_clear_def bit_simps)

text \<open>Clearing a bit that was just set gives the original bitmap back, byte for byte.\<close>

lemma bit_clear_set: "\<not> bit_test bm i \<Longrightarrow> bit_clear i (bit_set i bm) = bm"
proof
  fix k assume "\<not> bit_test bm i"
  then have "\<not> bit (bm (i div 8)) (i mod 8)" by (simp add: bit_test_iff)
  then show "bit_clear i (bit_set i bm) k = bm k"
    by (auto simp: bit_clear_def bit_set_def intro!: bit_word_eqI)
      (auto simp: bit_simps)
qed

section \<open>Specification on the set of used PIDs\<close>

definition pid_used :: "pid_state \<Rightarrow> nat set" where
  "pid_used s = {i. bit_test (g_pid_bitmap s) i}"

lemma pid_used_set [simp]:
  "pid_used (s\<lparr>g_pid_bitmap := bit_set i (g_pid_bitmap s)\<rparr>) = insert i (pid_used s)"
  by (auto simp: pid_used_def)

lemma pid_used_clear [simp]:
  "pid_used (s\<lparr>g_pid_bitmap := bit_clear i (g_pid_bitmap s)\<rparr>) = pid_used s - {i}"
  by (auto simp: pid_used_def)

lemma bit_test_used: "bit_test (g_pid_bitmap s) i \<longleftrightarrow> i \<in> pid_used s"
  by (simp add: pid_used_def)

lemma scan_bits_Some:
  "scan_bits bm i e = Some k \<longleftrightarrow> i \<le> k \<and> k \<le> e \<and> \<not> bit_test bm k \<and> (\<forall>j. i \<le> j \<and> j < k \<longrightarrow> bit_test bm j)"
proof (induction bm i e rule: scan_bits.induct)
  case (1 bm i e)
  show ?case
  proof (cases "i \<le> e \<and> bit_test bm i")
    case True
    then have "scan_bits bm i e = scan_bits bm (Suc i) e" by (subst scan_bits.simps) simp
    moreover have "\<And>j. i \<le> j \<longleftrightarrow> j = i \<or> Suc i \<le> j" by auto
    ultimately show ?thesis using "1.IH" True by auto
  next
    case False
    then show ?thesis by (subst scan_bits.simps) (auto simp: not_less_eq_eq le_less)
  qed
qed

lemma scan_bits_None:
  "scan_bits bm i e = None \<longleftrightarrow> (\<forall>j. i \<le> j \<and> j \<le> e \<longrightarrow> bit_test bm j)"
proof (induction bm i e rule: scan_bits.induct)
  case (1 bm i e)
  have "(\<forall>j. i \<le> j \<and> j \<le> e \<longrightarrow> bit_test bm j) \<longleftrightarrow>
      (i \<le> e \<longrightarrow> bit_test bm i) \<and> (\<forall>j. Suc i \<le> j \<and> j \<le> e \<longrightarrow> bit_test bm j)"
    using le_trans Suc_le_eq le_less by metis
  with "1.IH" show ?case
    by (subst scan_bits.simps) auto
qed

lemma scan_and_claim_cases [consumes 2, case_names found full]:
  assumes "scan_and_claim a e s = (r, s')" "e \<le> PID_MAX"
  obtains (found) k where "r = int k" "a \<le> k" "k \<le> e" "k \<notin> pid_used s"
      "{a..<k} \<subseteq> pid_used s" "s' = s\<lparr>g_pid_bitmap := bit_set k (g_pid_bitmap s)\<rparr>"
  | (full) "r = -1" "s' = s" "{a..e} \<subseteq> pid_used s"
proof (cases "scan_bits (g_pid_bitmap s) a e")
  case None
  then have "{a..e} \<subseteq> pid_used s" by (auto simp: scan_bits_None bit_test_used)
  moreover from None assms have "r = -1 \<and> s' = s"
    by (auto simp: scan_and_claim_def Let_def split: if_splits)
  ultimately show ?thesis using full by blast
next
  case (Some k)
  then have k: "a \<le> k" "k \<le> e" "k \<notin> pid_used s" "{a..<k} \<subseteq> pid_used s"
    by (auto simp: scan_bits_Some bit_test_used)
  with Some assms have "r = int k" "s' = s\<lparr>g_pid_bitmap := bit_set k (g_pid_bitmap s)\<rparr>"
    by (auto simp: scan_and_claim_def Let_def split: if_splits)
  with k show ?thesis using found by blast
qed

text \<open>
  What \<open>alloc_pid\<close> returns in automatic mode, as a function of the used set: the least free PID
  of 1000..65535, failing that the least free one of 100..999.
\<close>

definition auto_pid :: "nat set \<Rightarrow> nat option" where
  "auto_pid U =
     (if {1000..65535} - U \<noteq> {} then Some (Min ({1000..65535} - U))
      else if {100..999} - U \<noteq> {} then Some (Min ({100..999} - U))
      else None)"

lemma least_free:
  fixes a k e :: nat
  assumes "a \<le> k" "k \<le> e" "k \<notin> U" "{a..<k} \<subseteq> U"
  shows "{a..e} - U \<noteq> {}" "Min ({a..e} - U) = k"
proof -
  show "{a..e} - U \<noteq> {}" using assms by auto
  have "finite ({a..e} - U)" by simp
  then show "Min ({a..e} - U) = k"
    by (rule Min_eqI) (use assms in \<open>auto simp: subset_eq not_less [symmetric]\<close>)
qed

lemma alloc_pid_auto:
  "alloc_pid 0 s =
     (case auto_pid (pid_used s) of
        None \<Rightarrow> (OB_EAGAIN, s)
      | Some k \<Rightarrow> (int k, s\<lparr>g_pid_bitmap := bit_set k (g_pid_bitmap s)\<rparr>))"
proof -
  obtain r1 s1 where c1: "scan_and_claim PID_USER_MIN PID_MAX s = (r1, s1)" by fastforce
  moreover have "PID_MAX \<le> PID_MAX" ..
  ultimately show ?thesis
  proof (cases rule: scan_and_claim_cases)
    case (found k)
    with least_free [of 1000 k 65535 "pid_used s"] c1 show ?thesis
      by (simp add: alloc_pid_def auto_pid_def kernel_defs)
  next
    case full
    obtain r2 s2 where c2: "scan_and_claim PID_EXT_MIN PID_EXT_MAX s = (r2, s2)" by fastforce
    from full have none: "{1000..65535} - pid_used s = {}" by (auto simp: kernel_defs)
    have "PID_EXT_MAX \<le> PID_MAX" by (simp add: kernel_defs)
    with c2 show ?thesis
    proof (cases rule: scan_and_claim_cases)
      case f2: (found k)
      with least_free [of 100 k 999 "pid_used s"] c1 c2 full none show ?thesis
        by (simp add: alloc_pid_def auto_pid_def kernel_defs)
    next
      case f2: full
      then have "{100..999} - pid_used s = {}" by (auto simp: kernel_defs)
      with f2 c1 c2 full none show ?thesis
        by (simp add: alloc_pid_def auto_pid_def kernel_defs)
    qed
  qed
qed

lemma auto_pid_Some: "auto_pid U = Some k \<Longrightarrow> k \<notin> U \<and> 100 \<le> k \<and> k \<le> 65535"
proof (cases "{1000..65535} - U = {}")
  case True
  assume a: "auto_pid U = Some k"
  with True have "{100..999} - U \<noteq> {}" "k = Min ({100..999} - U)"
    by (auto simp: auto_pid_def split: if_splits)
  then have "k \<in> {100..999} - U" using Min_in [of "{100..999} - U"] by simp
  then show ?thesis by auto
next
  case False
  assume "auto_pid U = Some k"
  with False have "k = Min ({1000..65535} - U)" by (simp add: auto_pid_def)
  then have "k \<in> {1000..65535} - U" using Min_in [of "{1000..65535} - U"] False by simp
  then show ?thesis by auto
qed

lemma auto_pid_None: "auto_pid U = None \<longleftrightarrow> {100..65535} \<subseteq> U"
proof -
  have "{100..65535::nat} = {1000..65535} \<union> {100..999}" by auto
  then show ?thesis by (auto simp: auto_pid_def split: if_splits)
qed

lemma alloc_pid_result:
  assumes "alloc_pid r s = (p, s')"
  shows "(0 \<le> p \<and> nat p \<notin> pid_used s \<and> 99 < nat p \<and> nat p \<le> 65535 \<and> (r \<noteq> 0 \<longrightarrow> nat p = r) \<and>
            s' = s\<lparr>g_pid_bitmap := bit_set (nat p) (g_pid_bitmap s)\<rparr>)
         \<or> (p < 0 \<and> s' = s)"
proof (cases "r = 0")
  case True
  with assms show ?thesis
    by (auto simp: alloc_pid_auto dest: auto_pid_Some split: option.splits)
next
  case False
  with assms show ?thesis
    by (auto simp: alloc_pid_def pid_is_reserved_def bit_test_used kernel_defs split: if_splits)
qed

lemma free_pid_result:
  "free_pid p s =
     (if p = 0 then (0, s)
      else if p \<le> 99 \<or> p \<notin> pid_used s then (-1, s)
      else (0, s\<lparr>g_pid_bitmap := bit_clear p (g_pid_bitmap s)\<rparr>))"
  by (simp add: free_pid_def pid_is_reserved_def bit_test_used kernel_defs)

lemma alloc_pid_kernel_result:
  "alloc_pid_kernel r s =
     (if r = 0 \<or> 99 < r then (OB_EINVAL, s)
      else if r \<in> pid_used s then (OB_EAGAIN, s)
      else (int r, s\<lparr>g_pid_bitmap := bit_set r (g_pid_bitmap s)\<rparr>))"
  by (simp add: alloc_pid_kernel_def bit_test_used kernel_defs)

lemma pid_used_init:
  assumes "\<not> g_pid_inited s" "\<forall>i \<ge> 8192. g_pid_bitmap s i = 0"
  shows "pid_used (pid_init s) = {0}"
  using assms by (auto simp: pid_init_def pid_used_def bit_test_iff kernel_defs bit_set_def
      bit_or_iff bit_push_bit_iff bit_1_iff split: if_splits)

section \<open>The allocator interface\<close>

text \<open>
  What the task table needs of the PID allocator. A successful allocation returns a PID that
  nobody holds; a failed one changes nothing; a free takes exactly one PID out of use.
\<close>

locale pid_allocator =
  fixes used :: "'s \<Rightarrow> nat set"
    and alloc :: "nat \<Rightarrow> 's \<Rightarrow> int \<times> 's"
    and alloc_kernel :: "nat \<Rightarrow> 's \<Rightarrow> int \<times> 's"
    and free :: "nat \<Rightarrow> 's \<Rightarrow> int \<times> 's"
  assumes alloc_ok: "alloc r s = (p, s') \<Longrightarrow> 0 \<le> p \<Longrightarrow>
      nat p \<notin> used s \<and> used s' = insert (nat p) (used s) \<and> 99 < nat p \<and> nat p \<le> 65535"
    and alloc_err: "alloc r s = (p, s') \<Longrightarrow> p < 0 \<Longrightarrow> s' = s"
    and kernel_ok: "alloc_kernel r s = (p, s') \<Longrightarrow> 0 \<le> p \<Longrightarrow>
      nat p \<notin> used s \<and> used s' = insert (nat p) (used s) \<and> 1 \<le> nat p \<and> nat p \<le> 99"
    and kernel_err: "alloc_kernel r s = (p, s') \<Longrightarrow> p < 0 \<Longrightarrow> s' = s"
    and free_used: "free q s = (rc, s') \<Longrightarrow> used s' = (if 99 < q then used s - {q} else used s)"
begin

text \<open>A table of processes whose PIDs are distinct and in use stays so.\<close>

definition pids_ok :: "nat list \<Rightarrow> 's \<Rightarrow> bool" where
  "pids_ok ps s \<longleftrightarrow> distinct ps \<and> set ps \<subseteq> used s"

lemma pids_ok_alloc:
  "pids_ok ps s \<Longrightarrow> alloc r s = (p, s') \<Longrightarrow> 0 \<le> p \<Longrightarrow> pids_ok (nat p # ps) s'"
  using alloc_ok [of r s p s'] by (auto simp: pids_ok_def)

lemma pids_ok_kernel:
  "pids_ok ps s \<Longrightarrow> alloc_kernel r s = (p, s') \<Longrightarrow> 0 \<le> p \<Longrightarrow> pids_ok (nat p # ps) s'"
  using kernel_ok [of r s p s'] by (auto simp: pids_ok_def)

lemma pids_ok_free:
  "pids_ok ps s \<Longrightarrow> free p s = (rc, s') \<Longrightarrow> pids_ok (remove1 p ps) s'"
  using free_used [of p s rc s'] set_remove1_subset [of p ps]
  by (auto simp: pids_ok_def)

lemma alloc_then_free:
  "alloc r s = (p, s') \<Longrightarrow> 0 \<le> p \<Longrightarrow> free (nat p) s' = (rc, s'') \<Longrightarrow> used s'' = used s"
  using alloc_ok [of r s p s'] free_used [of "nat p" s' rc s''] by auto

end

interpretation pids: pid_allocator pid_used alloc_pid alloc_pid_kernel free_pid
proof
  fix r p s s'
  show "alloc_pid r s = (p, s') \<Longrightarrow> 0 \<le> p \<Longrightarrow>
      nat p \<notin> pid_used s \<and> pid_used s' = insert (nat p) (pid_used s) \<and> 99 < nat p \<and> nat p \<le> 65535"
    by (drule alloc_pid_result) auto
  show "alloc_pid r s = (p, s') \<Longrightarrow> p < 0 \<Longrightarrow> s' = s"
    by (drule alloc_pid_result) auto
  show "alloc_pid_kernel r s = (p, s') \<Longrightarrow> 0 \<le> p \<Longrightarrow>
      nat p \<notin> pid_used s \<and> pid_used s' = insert (nat p) (pid_used s) \<and> 1 \<le> nat p \<and> nat p \<le> 99"
    by (auto simp: alloc_pid_kernel_result split: if_splits)
  show "alloc_pid_kernel r s = (p, s') \<Longrightarrow> p < 0 \<Longrightarrow> s' = s"
    by (auto simp: alloc_pid_kernel_result split: if_splits)
next
  fix p s s' and rc :: int
  show "free_pid p s = (rc, s') \<Longrightarrow> pid_used s' = (if 99 < p then pid_used s - {p} else pid_used s)"
    by (auto simp: free_pid_result split: if_splits)
qed

section \<open>Properties\<close>

text \<open>
  \<open>alloc_pid\<close>, on every branch: an explicit request gets exactly that PID or an error; an
  automatic one gets the least free PID of 1000..65535, failing that the least free one of
  100..999, and \<open>OB_EAGAIN\<close> with the bitmap untouched only when all of 100..65535 are in use.
\<close>

theorem alloc_pid_spec:
  "alloc_pid r s =
     (if r \<noteq> 0 then
        if r > 65535 \<or> r \<le> 99 then (OB_EINVAL, s)
        else if r \<in> pid_used s then (OB_EAGAIN, s)
        else (int r, s\<lparr>g_pid_bitmap := bit_set r (g_pid_bitmap s)\<rparr>)
      else if {1000..65535} - pid_used s \<noteq> {} then
        (int (Min ({1000..65535} - pid_used s)),
         s\<lparr>g_pid_bitmap := bit_set (Min ({1000..65535} - pid_used s)) (g_pid_bitmap s)\<rparr>)
      else if {100..999} - pid_used s \<noteq> {} then
        (int (Min ({100..999} - pid_used s)),
         s\<lparr>g_pid_bitmap := bit_set (Min ({100..999} - pid_used s)) (g_pid_bitmap s)\<rparr>)
      else (OB_EAGAIN, s))"
proof (cases "r = 0")
  case True
  then show ?thesis by (simp add: alloc_pid_auto auto_pid_def)
next
  case False
  then show ?thesis by (simp add: alloc_pid_def pid_is_reserved_def bit_test_used kernel_defs)
qed

text \<open>
  A PID that \<open>alloc_pid\<close> hands out was free, lies in 100..65535 and is the one asked for;
  \<open>free_pid\<close> takes it back with code 0 and restores the allocator state byte for byte, and a
  second \<open>free_pid\<close> of it is refused with -1.
\<close>

theorem alloc_free_pid_roundtrip:
  assumes "alloc_pid r s = (p, s')" "0 \<le> p"
  shows "nat p \<notin> pid_used s \<and> 100 \<le> p \<and> p \<le> 65535 \<and> (r \<noteq> 0 \<longrightarrow> p = int r) \<and>
    free_pid (nat p) s' = (0, s) \<and> free_pid (nat p) s = (-1, s)"
proof -
  have A: "nat p \<notin> pid_used s" "99 < nat p" "nat p \<le> 65535" "r \<noteq> 0 \<longrightarrow> nat p = r"
    "s' = s\<lparr>g_pid_bitmap := bit_set (nat p) (g_pid_bitmap s)\<rparr>"
    using alloc_pid_result [OF assms(1)] assms(2) by auto
  then have "bit_clear (nat p) (g_pid_bitmap s') = g_pid_bitmap s"
    by (simp add: bit_clear_set bit_test_used)
  with A show ?thesis by (auto simp: free_pid_result)
qed

lemma alloc_free_pid_roundtrip_witness:
  "free_pid 2000 (snd (alloc_pid 2000 \<lparr>g_pid_bitmap = (\<lambda>_. 0), g_pid_inited = True\<rparr>)) =
     (0, \<lparr>g_pid_bitmap = (\<lambda>_. 0), g_pid_inited = True\<rparr>)"
proof -
  let ?s = "\<lparr>g_pid_bitmap = (\<lambda>_. 0), g_pid_inited = True\<rparr>"
  have "alloc_pid 2000 ?s = (2000, snd (alloc_pid 2000 ?s))"
    by (simp add: alloc_pid_def pid_is_reserved_def bit_test_def kernel_defs)
  from alloc_free_pid_roundtrip [OF this] show ?thesis by simp
qed

end
