(* ===== verification/Pmm.thy ===== *)
theory Pmm
  imports Prelude
begin

text \<open>
  The physical page allocator (\<open>pmm.c\<close>): a binary buddy allocator over \<open>mem_map\<close>, one header per
  4 KiB frame, with one free list per order 0..9.

  A \<open>struct page *\<close> is the index of its header (its frame number, \<open>pfn_of\<close>); NULL is \<open>None\<close>. The
  intrusive chains \<open>free_lists[o] \<rightarrow> next \<rightarrow> ...\<close> are lists of frame numbers, so the header has no
  \<open>next\<close> field here. The 64-bit counters are words. The spin lock has no state: the model is of
  one CPU inside the lock. Log output is not modelled.
\<close>

section \<open>State\<close>

definition MAX_ORDER :: nat where [kernel_defs]: "MAX_ORDER = 10"
definition MAX_PAGES :: nat where [kernel_defs]: "MAX_PAGES = 131072"
definition PAGE_SIZE :: nat where [kernel_defs]: "PAGE_SIZE = 4096"

definition PG_FREE :: u8 where [kernel_defs]: "PG_FREE = 1"
definition PG_RESERVED :: u8 where [kernel_defs]: "PG_RESERVED = 2"
definition PG_SLAB :: u8 where [kernel_defs]: "PG_SLAB = 4"

text \<open>
  \<open>slab_cache\<close> is the number of the owning cache in \<open>g_cache_pool\<close>; \<open>slab_free\<close> the chain of free
  object addresses of a slab page.
\<close>

record page =
  pg_order :: nat
  pg_flags :: u8
  pg_refcount :: u32
  pg_slab_cache :: "nat option"
  pg_slab_free :: "nat list"

record pmm_state =
  mem_map :: "nat \<Rightarrow> page"
  free_lists :: "nat \<Rightarrow> nat list"
  total_pages :: u64
  free_count :: u64
  g_total_pages_snapshot :: u64
  g_pmm_corruption_logged :: bool
  g_reserved_free_rejected :: u64
  pmm_oom_marks :: nat \<comment> \<open>how often \<open>oom_mark_victim\<close> was called\<close>

definition upd_page :: "nat \<Rightarrow> (page \<Rightarrow> page) \<Rightarrow> pmm_state \<Rightarrow> pmm_state" where
  "upd_page p f s = s\<lparr>mem_map := (mem_map s)(p := f (mem_map s p))\<rparr>"

definition page_to_phys :: "nat \<Rightarrow> nat" where
  "page_to_phys p = p * PAGE_SIZE"

definition phys_to_page :: "nat \<Rightarrow> nat" where
  "phys_to_page phys = phys div PAGE_SIZE"

section \<open>Free lists\<close>

definition buddy_of :: "nat \<Rightarrow> nat \<Rightarrow> nat" where
  "buddy_of p order = p XOR 2 ^ order"

definition free_list_push :: "nat \<Rightarrow> nat \<Rightarrow> pmm_state \<Rightarrow> pmm_state" where
  "free_list_push order p s =
     (upd_page p (\<lambda>h. h\<lparr>pg_order := order, pg_flags := PG_FREE\<rparr>) s)
       \<lparr>free_lists := (free_lists s)(order := p # free_lists s order)\<rparr>"

text \<open>The loop of \<open>free_list_pop\<close>: heads that are not \<open>PG_FREE\<close> are dropped from the list.\<close>

fun free_list_scan :: "(nat \<Rightarrow> page) \<Rightarrow> nat list \<Rightarrow> nat option \<times> nat list" where
  "free_list_scan m [] = (None, [])"
| "free_list_scan m (p # ps) =
     (if pg_flags (m p) AND PG_FREE = 0 then free_list_scan m ps else (Some p, ps))"

definition free_list_pop :: "nat \<Rightarrow> pmm_state \<Rightarrow> nat option \<times> pmm_state" where
  "free_list_pop order s =
     (case free_list_scan (mem_map s) (free_lists s order) of
        (None, ps) \<Rightarrow> (None, s\<lparr>free_lists := (free_lists s)(order := ps)\<rparr>)
      | (Some p, ps) \<Rightarrow>
          (Some p, upd_page p (\<lambda>h. h\<lparr>pg_flags := 0\<rparr>)
                     (s\<lparr>free_lists := (free_lists s)(order := ps)\<rparr>)))"

section \<open>Registering usable memory\<close>

text \<open>The inner loop of \<open>mark_region_usable\<close>: the largest aligned order that fits.\<close>

fun region_order :: "nat \<Rightarrow> nat \<Rightarrow> nat \<Rightarrow> nat" where
  "region_order pfn end_pfn 0 = 0"
| "region_order pfn end_pfn (Suc order) =
     (if pfn AND (2 ^ Suc order - 1) = 0 \<and> pfn + 2 ^ Suc order \<le> end_pfn then Suc order
      else region_order pfn end_pfn order)"

definition fresh_page :: page where
  "fresh_page = \<lparr>pg_order = 0, pg_flags = 0, pg_refcount = 0, pg_slab_cache = None, pg_slab_free = []\<rparr>"

definition mark_block :: "nat \<Rightarrow> nat \<Rightarrow> pmm_state \<Rightarrow> pmm_state" where
  "mark_block pfn order s =
     (let s1 = s\<lparr>mem_map := (\<lambda>i. if pfn \<le> i \<and> i < pfn + 2 ^ order then fresh_page else mem_map s i)\<rparr>;
          s2 = free_list_push order pfn s1
      in s2\<lparr>free_count := free_count s2 + 2 ^ order, total_pages := total_pages s2 + 2 ^ order\<rparr>)"

function mark_loop :: "nat \<Rightarrow> nat \<Rightarrow> pmm_state \<Rightarrow> pmm_state" where
  "mark_loop pfn end_pfn s =
     (if pfn < end_pfn then
        let order = region_order pfn end_pfn (MAX_ORDER - 1)
        in mark_loop (pfn + 2 ^ order) end_pfn (mark_block pfn order s)
      else s)"
  by pat_completeness auto
termination
  by (relation "measure (\<lambda>(pfn, e, s). e - pfn)") (auto intro: diff_less_mono2)

declare mark_loop.simps [simp del]

definition mark_region_usable :: "u64 \<Rightarrow> u64 \<Rightarrow> pmm_state \<Rightarrow> pmm_state" where
  "mark_region_usable start_phys pages s =
     (let start_pfn = drop_bit 12 start_phys;
          end_pfn = start_pfn + pages;
          end_pfn = (if end_pfn > of_nat MAX_PAGES then of_nat MAX_PAGES else end_pfn)
      in if start_pfn \<ge> end_pfn then s
         else mark_loop (unat start_pfn) (unat end_pfn) s)"

record ob_memory_entry =
  e_type :: u32
  e_physical_start :: u64
  e_number_of_pages :: u64

record ob_boot_info =
  kernel_phys_start :: u64
  kernel_phys_end :: u64
  memory_map :: "ob_memory_entry list" \<comment> \<open>the first \<open>entry_count\<close> entries\<close>

definition MIN_KERNEL_END :: u64 where "MIN_KERNEL_END = 0x1000000"

text \<open>The physical range that \<open>pmm_init\<close> keeps out of the free lists.\<close>

definition kernel_range :: "ob_boot_info \<Rightarrow> u64 \<times> u64" where
  "kernel_range bi =
     (let kern_start = kernel_phys_start bi; kern_end = kernel_phys_end bi;
          (kern_start, kern_end) =
            (if kern_start = 0 \<or> kern_end \<le> kern_start then (0x200000, 0x400000)
             else (kern_start AND NOT 0xFFF, (kern_end + 0x1000 - 1) AND NOT 0xFFF))
      in (kern_start, if kern_end < MIN_KERNEL_END then MIN_KERNEL_END else kern_end))"

text \<open>One iteration of the loop over the UEFI memory map.\<close>

definition init_entry :: "u64 \<Rightarrow> u64 \<Rightarrow> ob_memory_entry \<Rightarrow> pmm_state \<Rightarrow> pmm_state" where
  "init_entry kern_start kern_end e s =
     (let phys = e_physical_start e; pages = e_number_of_pages e;
          usable = (e_type e = 7 \<or> e_type e = 3 \<or> e_type e = 4);
          skip_pages = (if phys < 0x100000 then (0x100000 - phys + 0x1000 - 1) div 0x1000 else 0)
      in if \<not> usable then s
         else if phys < 0x100000 \<and> skip_pages \<ge> pages then s
         else
           let phys = phys + skip_pages * 0x1000;
               pages = pages - skip_pages;
               region_start = phys;
               region_end = phys + pages * 0x1000
           in if region_end \<le> kern_start \<or> region_start \<ge> kern_end
              then mark_region_usable region_start pages s
              else
                let head_pages = (kern_start - region_start) div 0x1000;
                    s = (if region_start < kern_start \<and> head_pages > 0
                         then mark_region_usable region_start head_pages s else s);
                    tail_pages = (region_end - kern_end) div 0x1000
                in if region_end > kern_end \<and> tail_pages > 0
                   then mark_region_usable kern_end tail_pages s else s)"

definition reserved_page :: page where
  "reserved_page =
     \<lparr>pg_order = 0, pg_flags = PG_RESERVED, pg_refcount = 1, pg_slab_cache = None, pg_slab_free = []\<rparr>"

definition pmm_reset :: "pmm_state \<Rightarrow> pmm_state" where
  "pmm_reset s =
     s\<lparr>mem_map := (\<lambda>i. if i < MAX_PAGES then reserved_page else mem_map s i),
       free_lists := (\<lambda>o'. if o' < MAX_ORDER then [] else free_lists s o'),
       total_pages := 0, free_count := 0, g_total_pages_snapshot := 0,
       g_pmm_corruption_logged := False, g_reserved_free_rejected := 0\<rparr>"

definition pmm_init :: "ob_boot_info option \<Rightarrow> pmm_state \<Rightarrow> pmm_state" where
  "pmm_init bi s =
     (case bi of
        None \<Rightarrow> pmm_reset s
      | Some bi \<Rightarrow>
          let (kern_start, kern_end) = kernel_range bi;
              s = fold (init_entry kern_start kern_end) (memory_map bi) (pmm_reset s)
          in s\<lparr>g_total_pages_snapshot := total_pages s\<rparr>)"

section \<open>Allocation\<close>

text \<open>\<open>while (o < MAX_ORDER && !free_lists[o]) ++o;\<close>\<close>

function find_order :: "(nat \<Rightarrow> nat list) \<Rightarrow> nat \<Rightarrow> nat" where
  "find_order fl k = (if k < MAX_ORDER \<and> fl k = [] then find_order fl (Suc k) else k)"
  by pat_completeness auto
termination
  by (relation "measure (\<lambda>(fl, k). MAX_ORDER - k)") auto

declare find_order.simps [simp del]

text \<open>\<open>while (o > order) { --o; free_list_push(o, buddy_of(p, o)); }\<close>\<close>

fun split_loop :: "nat \<Rightarrow> nat \<Rightarrow> nat \<Rightarrow> pmm_state \<Rightarrow> pmm_state" where
  "split_loop p order 0 s = s"
| "split_loop p order (Suc k) s =
     (if Suc k > order then split_loop p order k (free_list_push k (buddy_of p k) s) else s)"

definition pmm_take :: "nat \<Rightarrow> nat \<Rightarrow> pmm_state \<Rightarrow> nat option \<times> pmm_state" where
  "pmm_take order k s =
     (case free_list_pop k s of
        (None, s) \<Rightarrow> (None, s)
      | (Some p, s) \<Rightarrow>
          if p \<ge> MAX_PAGES then (None, s)
          else
            let s = split_loop p order k s;
                s = upd_page p (\<lambda>h. h\<lparr>pg_order := order, pg_flags := 0, pg_refcount := 1,
                                      pg_slab_cache := None, pg_slab_free := []\<rparr>) s
            in (Some p, s\<lparr>free_count := free_count s - 2 ^ order\<rparr>))"

text \<open>
  When no list has a block, the code marks an out-of-memory victim (\<open>oom_mark_victim\<close>, which
  touches only the task table) and looks at the lists once more. Nothing else runs in between in
  this model, so the second look sees the same lists.
\<close>

definition pmm_alloc_pages :: "int \<Rightarrow> pmm_state \<Rightarrow> nat option \<times> pmm_state" where
  "pmm_alloc_pages order s =
     (if order < 0 \<or> order \<ge> int MAX_ORDER then (None, s)
      else
        let k = find_order (free_lists s) (nat order)
        in if k = MAX_ORDER then
             let s = s\<lparr>pmm_oom_marks := Suc (pmm_oom_marks s)\<rparr>;
                 k = find_order (free_lists s) (nat order)
             in if k = MAX_ORDER then (None, s) else pmm_take (nat order) k s
           else pmm_take (nat order) k s)"

section \<open>Release\<close>

text \<open>The coalescing loop of \<open>pmm_free_pages\<close>: the block grows while its buddy is free.\<close>

function merge_loop :: "nat \<Rightarrow> nat \<Rightarrow> pmm_state \<Rightarrow> nat \<times> nat \<times> pmm_state" where
  "merge_loop p order s =
     (if order < MAX_ORDER - 1 then
        let buddy = buddy_of p order in
        if pg_flags (mem_map s buddy) AND PG_FREE = 0 \<or> pg_order (mem_map s buddy) \<noteq> order
        then (p, order, s)
        else if buddy \<in> set (free_lists s order) then
          merge_loop (if buddy < p then buddy else p) (Suc order)
            (s\<lparr>free_lists := (free_lists s)(order := remove1 buddy (free_lists s order))\<rparr>)
        else (p, order, s)
      else (p, order, s))"
  by pat_completeness auto
termination
  by (relation "measure (\<lambda>(p, order, s). MAX_ORDER - order)") auto

declare merge_loop.simps [simp del]

definition pmm_release :: "nat \<Rightarrow> nat \<Rightarrow> pmm_state \<Rightarrow> pmm_state" where
  "pmm_release p original_order s =
     (let (p, order, s) = merge_loop p original_order s;
          s = free_list_push order p s;
          s = s\<lparr>free_count := free_count s + 2 ^ original_order\<rparr>
      in if free_count s > total_pages s
         then s\<lparr>free_count := free_count s - 2 ^ original_order\<rparr> else s)"

definition pmm_free_pages :: "nat option \<Rightarrow> int \<Rightarrow> pmm_state \<Rightarrow> pmm_state" where
  "pmm_free_pages p order s =
     (case p of
        None \<Rightarrow> s
      | Some p \<Rightarrow>
          if order < 0 \<or> order \<ge> int MAX_ORDER then s
          else if p \<ge> MAX_PAGES then s
          else if g_total_pages_snapshot s = 0 then s\<lparr>g_pmm_corruption_logged := True\<rparr>
          else if total_pages s \<noteq> g_total_pages_snapshot s then
            s\<lparr>g_pmm_corruption_logged := True, total_pages := g_total_pages_snapshot s\<rparr>
          else if pg_flags (mem_map s p) AND PG_RESERVED \<noteq> 0 then
            s\<lparr>g_reserved_free_rejected := g_reserved_free_rejected s + 1\<rparr>
          else if pg_flags (mem_map s p) AND PG_FREE \<noteq> 0 then s
          else if int (pg_order (mem_map s p)) \<noteq> order then s
          else pmm_release p (nat order) s)"

definition pmm_total_pages :: "pmm_state \<Rightarrow> u64" where
  "pmm_total_pages s = total_pages s"

definition pmm_free_pages_count :: "pmm_state \<Rightarrow> u64" where
  "pmm_free_pages_count s = free_count s"

end
