(* ===== verification/PmmCorrect.thy ===== *)
theory PmmCorrect
  imports Pmm
begin

text \<open>
  Correctness of the buddy allocator. The abstract state is the set \<open>free_frames\<close> of frame numbers
  covered by the blocks of the free lists, inside the set \<open>managed\<close> of frames that \<open>pmm_init\<close>
  handed to the allocator. The invariant \<open>pmm_inv\<close> says that the blocks are aligned, inside
  \<open>mem_map\<close>, marked as free heads, pairwise disjoint, and that the counters count them.
\<close>

section \<open>Blocks and the invariant\<close>

definition blk :: "nat \<Rightarrow> nat \<Rightarrow> nat set" where
  "blk p k = {p..<p + 2 ^ k}"

definition heads :: "(nat \<Rightarrow> nat list) \<Rightarrow> (nat \<times> nat) set" where
  "heads fl = {(k, p). k < MAX_ORDER \<and> p \<in> set (fl k)}"

definition frames :: "(nat \<Rightarrow> nat list) \<Rightarrow> nat set" where
  "frames fl = (\<Union>(k, p)\<in>heads fl. blk p k)"

definition head_ok :: "(nat \<Rightarrow> page) \<Rightarrow> nat \<Rightarrow> nat \<Rightarrow> bool" where
  "head_ok m k p \<longleftrightarrow>
     2 ^ k dvd p \<and> p + 2 ^ k \<le> MAX_PAGES \<and> pg_flags (m p) = PG_FREE \<and> pg_order (m p) = k"

definition lists_ok :: "(nat \<Rightarrow> nat list) \<Rightarrow> (nat \<Rightarrow> page) \<Rightarrow> bool" where
  "lists_ok fl m \<longleftrightarrow>
     (\<forall>k<MAX_ORDER. distinct (fl k)) \<and>
     (\<forall>(k, p) \<in> heads fl. head_ok m k p) \<and>
     (\<forall>a \<in> heads fl. \<forall>b \<in> heads fl. a \<noteq> b \<longrightarrow> blk (snd a) (fst a) \<inter> blk (snd b) (fst b) = {})"

definition free_frames :: "pmm_state \<Rightarrow> nat set" where
  "free_frames s = frames (free_lists s)"

definition managed :: "pmm_state \<Rightarrow> nat set" where
  "managed s = {f. f < MAX_PAGES \<and> pg_flags (mem_map s f) AND PG_RESERVED = 0}"

definition pmm_inv :: "pmm_state \<Rightarrow> bool" where
  "pmm_inv s \<longleftrightarrow>
     lists_ok (free_lists s) (mem_map s) \<and> free_frames s \<subseteq> managed s \<and>
     unat (free_count s) = card (free_frames s) \<and>
     unat (total_pages s) = card (managed s) \<and>
     g_total_pages_snapshot s = total_pages s"

text \<open>A block that a caller of the allocator may give back.\<close>

definition allocated :: "pmm_state \<Rightarrow> nat \<Rightarrow> nat \<Rightarrow> bool" where
  "allocated s p k \<longleftrightarrow>
     k < MAX_ORDER \<and> 2 ^ k dvd p \<and> p + 2 ^ k \<le> MAX_PAGES \<and>
     blk p k \<subseteq> managed s - free_frames s \<and>
     pg_order (mem_map s p) = k \<and> pg_flags (mem_map s p) AND PG_FREE = 0"

lemma blk_mem [simp]: "p \<in> blk p k"
  by (simp add: blk_def)

lemma card_blk [simp]: "card (blk p k) = 2 ^ k"
  by (simp add: blk_def)

lemma finite_blk [simp]: "finite (blk p k)"
  by (simp add: blk_def)

lemma finite_frames [simp]: "finite (frames fl)"
proof -
  have "heads fl = (SIGMA k:{..<MAX_ORDER}. set (fl k))" by (auto simp: heads_def)
  then show ?thesis by (auto simp: frames_def intro!: finite_SigmaI)
qed

lemma finite_managed [simp]: "finite (managed s)"
  by (rule finite_subset [of _ "{..<MAX_PAGES}"]) (auto simp: managed_def)

lemma PG_bits [simp]:
  "PG_FREE AND PG_RESERVED = 0" "PG_FREE AND PG_FREE \<noteq> 0" "PG_FREE \<noteq> 0"
  by (simp_all add: kernel_defs)

lemma in_frames: "(k, p) \<in> heads fl \<Longrightarrow> blk p k \<subseteq> frames fl"
  by (auto simp: frames_def)

lemma head_in_frames: "(k, p) \<in> heads fl \<Longrightarrow> p \<in> frames fl"
  using in_frames blk_mem by blast

lemma card_managed_bound: "card (managed s) \<le> MAX_PAGES"
proof -
  have "managed s \<subseteq> {..<MAX_PAGES}" by (auto simp: managed_def)
  then show ?thesis using card_mono [of "{..<MAX_PAGES}" "managed s"] by simp
qed

section \<open>Buddies\<close>

lemma xor_pow2:
  fixes p :: nat
  assumes "2 ^ k dvd p"
  shows "p XOR 2 ^ k = (if even (p div 2 ^ k) then p + 2 ^ k else p - 2 ^ k)"
proof -
  obtain c where c: "p = push_bit k c"
    using assms by (auto simp: dvd_def push_bit_eq_mult mult.commute)
  have "p XOR 2 ^ k = push_bit k (c XOR 1)"
    by (simp add: c push_bit_xor)
  moreover have "c XOR 1 = (if even c then c + 1 else c - 1)"
    by (simp add: xor_Suc_0_eq)
  ultimately show ?thesis
    by (auto simp: c push_bit_eq_mult algebra_simps diff_mult_distrib2)
qed

lemma buddy_cases:
  assumes "2 ^ k dvd p"
  obtains (up) "buddy_of p k = p + 2 ^ k" "2 ^ Suc k dvd p"
  | (down) "p = buddy_of p k + 2 ^ k" "2 ^ Suc k dvd buddy_of p k"
proof -
  obtain c where c: "p = 2 ^ k * c" using assms by (auto simp: dvd_def)
  show ?thesis
  proof (cases "even c")
    case True
    then have "buddy_of p k = p + 2 ^ k" using assms by (simp add: buddy_of_def xor_pow2 c)
    moreover have "2 ^ Suc k dvd p" using True by (auto simp: c mult.commute elim!: evenE)
    ultimately show ?thesis using up by blast
  next
    case False
    then obtain d where d: "c = 2 * d + 1" by (auto elim: oddE)
    have "buddy_of p k = p - 2 ^ k" using False assms by (simp add: buddy_of_def xor_pow2 c)
    then have "buddy_of p k = 2 ^ Suc k * d" by (simp add: c d algebra_simps)
    then show ?thesis using down by (simp add: c d algebra_simps)
  qed
qed

lemma buddy_props:
  assumes "2 ^ k dvd p" "k < MAX_ORDER - 1" "p + 2 ^ k \<le> MAX_PAGES"
  shows "2 ^ k dvd buddy_of p k" "buddy_of p k \<noteq> p" "blk p k \<inter> blk (buddy_of p k) k = {}"
    and "2 ^ Suc k dvd min p (buddy_of p k)"
    and "blk (min p (buddy_of p k)) (Suc k) = blk p k \<union> blk (buddy_of p k) k"
    and "min p (buddy_of p k) + 2 ^ Suc k \<le> MAX_PAGES"
proof -
  have div: "2 ^ Suc k dvd MAX_PAGES"
  proof -
    have "(2::nat) ^ Suc k dvd 2 ^ 17" using assms(2) by (intro le_imp_power_dvd) (simp add: kernel_defs)
    then show ?thesis by (simp add: kernel_defs)
  qed
  have bound: "x + 2 ^ Suc k \<le> MAX_PAGES" if x: "2 ^ Suc k dvd x" "x < MAX_PAGES" for x
  proof -
    obtain a where a: "x = 2 ^ Suc k * a" using x(1) by (elim dvdE)
    obtain b where b: "MAX_PAGES = 2 ^ Suc k * b" using div by (elim dvdE)
    have "a < b" using x(2) by (simp add: a b)
    then have "2 ^ Suc k * Suc a \<le> 2 ^ Suc k * b" by (intro mult_le_mono2) simp
    then show ?thesis by (simp add: a b algebra_simps)
  qed
  from assms(1)
  have "2 ^ k dvd buddy_of p k \<and> buddy_of p k \<noteq> p \<and> blk p k \<inter> blk (buddy_of p k) k = {} \<and>
      2 ^ Suc k dvd min p (buddy_of p k) \<and>
      blk (min p (buddy_of p k)) (Suc k) = blk p k \<union> blk (buddy_of p k) k"
    by (cases rule: buddy_cases) (auto simp: blk_def min_def dest: dvd_trans [rotated])
  then show "2 ^ k dvd buddy_of p k" "buddy_of p k \<noteq> p" "blk p k \<inter> blk (buddy_of p k) k = {}"
    and *: "2 ^ Suc k dvd min p (buddy_of p k)"
    and "blk (min p (buddy_of p k)) (Suc k) = blk p k \<union> blk (buddy_of p k) k"
    by auto
  have "0 < (2::nat) ^ k" by simp
  then have "p < MAX_PAGES" using assms(3) by linarith
  then show "min p (buddy_of p k) + 2 ^ Suc k \<le> MAX_PAGES"
    using bound [OF *] by linarith
qed

section \<open>Free-list updates\<close>

lemma heads_push: "k < MAX_ORDER \<Longrightarrow> heads (fl(k := p # fl k)) = insert (k, p) (heads fl)"
  by (auto simp: heads_def split: if_splits)

lemma heads_remove:
  "k < MAX_ORDER \<Longrightarrow> distinct (fl k) \<Longrightarrow>
   heads (fl(k := remove1 p (fl k))) = heads fl - {(k, p)}"
  by (auto simp: heads_def split: if_splits)

lemma frames_push: "k < MAX_ORDER \<Longrightarrow> frames (fl(k := p # fl k)) = frames fl \<union> blk p k"
  by (auto simp: frames_def heads_push)

lemma lists_ok_disjoint:
  assumes "lists_ok fl m" "(k, p) \<in> heads fl" "(j, q) \<in> heads fl" "(k, p) \<noteq> (j, q)"
  shows "blk p k \<inter> blk q j = {}"
proof -
  have "\<forall>b \<in> heads fl. (k, p) \<noteq> b \<longrightarrow> blk p k \<inter> blk (snd b) (fst b) = {}"
    using assms(1,2) by (fastforce simp: lists_ok_def)
  then show ?thesis using assms(3,4) by fastforce
qed

lemma lists_ok_head: "lists_ok fl m \<Longrightarrow> (k, p) \<in> heads fl \<Longrightarrow> head_ok m k p"
  by (auto simp: lists_ok_def)

lemma lists_ok_distinct: "lists_ok fl m \<Longrightarrow> k < MAX_ORDER \<Longrightarrow> distinct (fl k)"
  by (auto simp: lists_ok_def)

lemma frames_remove:
  assumes ok: "lists_ok fl m" and h: "(k, p) \<in> heads fl"
  shows "frames (fl(k := remove1 p (fl k))) = frames fl - blk p k"
proof -
  have k: "k < MAX_ORDER" using h by (simp add: heads_def)
  have eq: "heads (fl(k := remove1 p (fl k))) = heads fl - {(k, p)}"
    using k lists_ok_distinct [OF ok k] by (rule heads_remove)
  have sep: "blk q j \<inter> blk p k = {}" if "(j, q) \<in> heads fl - {(k, p)}" for j q
    using lists_ok_disjoint [OF ok _ h, of j q] that by auto
  have "frames fl = (\<Union>(j, q)\<in>heads fl - {(k, p)}. blk q j) \<union> blk p k"
    using h by (auto simp: frames_def)
  then show ?thesis using sep by (fastforce simp: frames_def eq)
qed

lemma lists_ok_remove:
  assumes ok: "lists_ok fl m" and k: "k < MAX_ORDER"
  shows "lists_ok (fl(k := remove1 p (fl k))) m"
proof -
  have "heads (fl(k := remove1 p (fl k))) = heads fl - {(k, p)}"
    using k lists_ok_distinct [OF ok k] by (rule heads_remove)
  then show ?thesis using ok unfolding lists_ok_def by auto
qed

lemma lists_ok_map_cong:
  assumes "lists_ok fl m" "\<And>f. f \<in> frames fl \<Longrightarrow> m' f = m f"
  shows "lists_ok fl m'"
proof -
  have "head_ok m' k p = head_ok m k p" if "(k, p) \<in> heads fl" for k p
    using assms(2) [OF head_in_frames [OF that]] by (simp add: head_ok_def)
  then show ?thesis using assms(1) unfolding lists_ok_def by fast
qed

lemma lists_ok_push:
  assumes ok: "lists_ok fl m" and k: "k < MAX_ORDER"
    and h: "head_ok (m(p := h)) k p" and sep: "blk p k \<inter> frames fl = {}"
  shows "lists_ok (fl(k := p # fl k)) (m(p := h))"
proof -
  have nin: "p \<notin> frames fl" using sep blk_mem by blast
  have "lists_ok fl (m(p := h))"
    by (rule lists_ok_map_cong [OF ok]) (use nin in auto)
  moreover have "blk p k \<inter> blk q j = {}" if "(j, q) \<in> heads fl" for q j
    using in_frames [OF that] sep by blast
  moreover have "(k, p) \<notin> heads fl" using nin head_in_frames by blast
  ultimately show ?thesis
    using k h unfolding lists_ok_def heads_push [OF k]
    by (auto simp: heads_def Int_commute)
qed

section \<open>Allocation\<close>

lemma upd_page_simps [simp]:
  "mem_map (upd_page p f s) = (mem_map s)(p := f (mem_map s p))"
  "free_lists (upd_page p f s) = free_lists s"
  "total_pages (upd_page p f s) = total_pages s"
  "free_count (upd_page p f s) = free_count s"
  "g_total_pages_snapshot (upd_page p f s) = g_total_pages_snapshot s"
  by (simp_all add: upd_page_def)

lemma push_simps [simp]:
  "free_lists (free_list_push k p s) = (free_lists s)(k := p # free_lists s k)"
  "mem_map (free_list_push k p s) =
     (mem_map s)(p := mem_map s p\<lparr>pg_order := k, pg_flags := PG_FREE\<rparr>)"
  "total_pages (free_list_push k p s) = total_pages s"
  "free_count (free_list_push k p s) = free_count s"
  "g_total_pages_snapshot (free_list_push k p s) = g_total_pages_snapshot s"
  by (simp_all add: free_list_push_def)

text \<open>The counters that only registration and the corruption check write.\<close>

definition same_counts :: "pmm_state \<Rightarrow> pmm_state \<Rightarrow> bool" where
  "same_counts s s' \<longleftrightarrow>
     total_pages s' = total_pages s \<and> g_total_pages_snapshot s' = g_total_pages_snapshot s"

lemma unat_pow2: "k < MAX_ORDER \<Longrightarrow> unat (2 ^ k :: u64) = 2 ^ k"
proof -
  assume "k < MAX_ORDER"
  then have "(2::nat) ^ k < 2 ^ 64" by (intro power_strict_increasing) (simp_all add: kernel_defs)
  then have "unat (of_nat (2 ^ k) :: u64) = 2 ^ k" by (simp only: unat_of_nat) simp
  then show ?thesis by simp
qed

lemma find_order_props:
  "j \<le> MAX_ORDER \<Longrightarrow> j \<le> find_order fl j \<and> find_order fl j \<le> MAX_ORDER \<and>
   (find_order fl j < MAX_ORDER \<longrightarrow> fl (find_order fl j) \<noteq> []) \<and>
   (\<forall>i. j \<le> i \<and> i < find_order fl j \<longrightarrow> fl i = [])"
proof (induction fl j rule: find_order.induct)
  case (1 fl k)
  show ?case
  proof (cases "k < MAX_ORDER \<and> fl k = []")
    case True
    then have "find_order fl k = find_order fl (Suc k)" by (subst find_order.simps) simp
    moreover have "\<And>i. k \<le> i \<longleftrightarrow> i = k \<or> Suc k \<le> i" by auto
    ultimately show ?thesis using "1.IH" True by auto
  next
    case False
    then have "find_order fl k = k" by (subst find_order.simps) auto
    with "1.prems" False show ?thesis by auto
  qed
qed

lemma split_loop_ok:
  assumes "lists_ok (free_lists s) (mem_map s)" "blk p k \<inter> free_frames s = {}"
    and "2 ^ k dvd p" "p + 2 ^ k \<le> MAX_PAGES" "order \<le> k" "k < MAX_ORDER"
  shows "lists_ok (free_lists (split_loop p order k s)) (mem_map (split_loop p order k s)) \<and>
    free_frames (split_loop p order k s) = free_frames s \<union> (blk p k - blk p order) \<and>
    (\<forall>f. f \<notin> blk p k - blk p order \<longrightarrow> mem_map (split_loop p order k s) f = mem_map s f) \<and>
    (\<forall>f. mem_map (split_loop p order k s) f = mem_map s f \<or>
         pg_flags (mem_map (split_loop p order k s) f) = PG_FREE) \<and>
    free_count (split_loop p order k s) = free_count s \<and> same_counts s (split_loop p order k s)"
  using assms
proof (induction p order k s rule: split_loop.induct)
  case (1 p order s)
  then show ?case by (simp add: same_counts_def)
next
  case (2 p order k s)
  show ?case
  proof (cases "Suc k > order")
    case False
    then have "order = Suc k" using "2.prems" by simp
    with "2.prems"(1) show ?thesis by (simp add: same_counts_def)
  next
    case True
    let ?b = "buddy_of p k" and ?s = "free_list_push k (buddy_of p k) s"
    have dvd_k: "2 ^ k dvd p" using "2.prems"(3) by (auto dest: dvd_mult_right)
    have b: "?b = p + 2 ^ k"
      using dvd_k
    proof (cases rule: buddy_cases)
      case down
      then have "2 ^ Suc k dvd (?b + 2 ^ k) - ?b"
        using "2.prems"(3) by (metis dvd_diff_nat)
      then show ?thesis by simp
    qed
    have cover: "blk p (Suc k) = blk p k \<union> blk ?b k" "blk p k \<inter> blk ?b k = {}"
      by (auto simp: b blk_def)
    have sub: "blk p order \<subseteq> blk p k"
      using True by (auto simp: blk_def intro: less_le_trans power_increasing)
    have ok: "lists_ok (free_lists ?s) (mem_map ?s)"
      unfolding push_simps
      by (rule lists_ok_push)
        (use "2.prems" dvd_k cover in \<open>auto simp: b head_ok_def free_frames_def\<close>)
    have fr: "free_frames ?s = free_frames s \<union> blk ?b k"
      using "2.prems"(6) by (simp add: free_frames_def frames_push)
    have IH: "lists_ok (free_lists (split_loop p order k ?s)) (mem_map (split_loop p order k ?s)) \<and>
      free_frames (split_loop p order k ?s) = free_frames ?s \<union> (blk p k - blk p order) \<and>
      (\<forall>f. f \<notin> blk p k - blk p order \<longrightarrow> mem_map (split_loop p order k ?s) f = mem_map ?s f) \<and>
      (\<forall>f. mem_map (split_loop p order k ?s) f = mem_map ?s f \<or>
         pg_flags (mem_map (split_loop p order k ?s) f) = PG_FREE) \<and>
      free_count (split_loop p order k ?s) = free_count ?s \<and> same_counts ?s (split_loop p order k ?s)"
    proof (rule "2.IH" [OF True ok])
      show "blk p k \<inter> free_frames ?s = {}" using "2.prems"(2) cover fr by auto
    qed (use True "2.prems" dvd_k in simp_all)
    have out: "f \<noteq> ?b" if "f \<notin> blk p (Suc k) - blk p order" for f
      using that cover sub by auto
    have un: "split_loop p order (Suc k) s = split_loop p order k ?s" using True by simp
    show ?thesis
      unfolding un
    proof (intro conjI allI impI)
      show "free_frames (split_loop p order k ?s) = free_frames s \<union> (blk p (Suc k) - blk p order)"
        using IH fr cover sub by auto
      fix f
      assume "f \<notin> blk p (Suc k) - blk p order"
      then show "mem_map (split_loop p order k ?s) f = mem_map s f"
        using IH out [of f] cover by auto
    next
      fix f
      show "mem_map (split_loop p order k ?s) f = mem_map s f \<or>
         pg_flags (mem_map (split_loop p order k ?s) f) = PG_FREE"
      proof -
        have "mem_map (split_loop p order k ?s) f = mem_map ?s f \<or>
          pg_flags (mem_map (split_loop p order k ?s) f) = PG_FREE"
          using IH by blast
        then show ?thesis by (cases "f = ?b") auto
      qed
    qed (use IH in \<open>auto simp: same_counts_def\<close>)
  qed
qed

lemma managed_cong:
  assumes "\<And>f. mem_map s' f = mem_map s f \<or>
      (pg_flags (mem_map s' f) AND PG_RESERVED = 0 \<and> f \<in> managed s)"
  shows "managed s' = managed s"
proof (rule set_eqI)
  show "f \<in> managed s' \<longleftrightarrow> f \<in> managed s" for f
    using assms [of f] by (auto simp: managed_def)
qed

text \<open>
  Taking a block of order \<open>k\<close> from a non-empty list and splitting it down to \<open>order\<close>: the caller
  gets an aligned block of exactly the requested size, cut out of the free frames; the headers of
  all other allocated frames are untouched.
\<close>

lemma pmm_take_ok:
  assumes inv: "pmm_inv s" and k: "order \<le> k" "k < MAX_ORDER" and ne: "free_lists s k \<noteq> []"
  shows "\<exists>p s'. pmm_take order k s = (Some p, s') \<and> pmm_inv s' \<and>
    2 ^ order dvd p \<and> p + 2 ^ order \<le> MAX_PAGES \<and> blk p order \<subseteq> free_frames s \<and>
    free_frames s' = free_frames s - blk p order \<and> managed s' = managed s \<and>
    (\<forall>f. f \<notin> free_frames s \<longrightarrow> mem_map s' f = mem_map s f) \<and>
    mem_map s' p = \<lparr>pg_order = order, pg_flags = 0, pg_refcount = 1, pg_slab_cache = None, pg_slab_free = []\<rparr>"
proof -
  obtain p ps where l: "free_lists s k = p # ps" using ne by (cases "free_lists s k") auto
  have ok: "lists_ok (free_lists s) (mem_map s)" using inv by (simp add: pmm_inv_def)
  have h: "(k, p) \<in> heads (free_lists s)" using k l by (simp add: heads_def)
  have hd: "2 ^ k dvd p" "p + 2 ^ k \<le> MAX_PAGES" "pg_flags (mem_map s p) = PG_FREE"
    using lists_ok_head [OF ok h] by (auto simp: head_ok_def)
  define s1 where "s1 = upd_page p (\<lambda>h. h\<lparr>pg_flags := 0\<rparr>) (s\<lparr>free_lists := (free_lists s)(k := ps)\<rparr>)"
  have pop: "free_list_pop k s = (Some p, s1)"
    by (simp add: free_list_pop_def l hd s1_def)
  have fl1: "free_lists s1 = (free_lists s)(k := remove1 p (free_lists s k))"
    by (simp add: s1_def l)
  have fr1: "free_frames s1 = free_frames s - blk p k"
    unfolding free_frames_def fl1 by (rule frames_remove [OF ok h])
  have ok1: "lists_ok (free_lists s1) (mem_map s1)"
  proof (rule lists_ok_map_cong)
    show "lists_ok (free_lists s1) (mem_map s)"
      unfolding fl1 by (rule lists_ok_remove [OF ok k(2)])
    fix f assume "f \<in> frames (free_lists s1)"
    then have "f \<noteq> p" using fr1 by (auto simp: free_frames_def)
    then show "mem_map s1 f = mem_map s f" by (simp add: s1_def)
  qed
  define s2 where "s2 = split_loop p order k s1"
  have sub: "blk p order \<subseteq> blk p k" using k by (auto simp: blk_def intro: less_le_trans power_increasing)
  have kfree: "blk p k \<subseteq> free_frames s" using in_frames [OF h] by (simp add: free_frames_def)
  have split: "lists_ok (free_lists s2) (mem_map s2)"
    "free_frames s2 = free_frames s - blk p order"
    "\<And>f. f \<notin> blk p k - blk p order \<Longrightarrow> mem_map s2 f = mem_map s1 f"
    "\<And>f. mem_map s2 f = mem_map s1 f \<or> pg_flags (mem_map s2 f) = PG_FREE"
    "free_count s2 = free_count s1" "same_counts s1 s2"
    using split_loop_ok [OF ok1 _ hd(1,2) k, folded s2_def] fr1 sub kfree by auto
  let ?h = "\<lparr>pg_order = order, pg_flags = 0, pg_refcount = 1, pg_slab_cache = None, pg_slab_free = []\<rparr>"
  define s3 where "s3 = (upd_page p (\<lambda>h. h\<lparr>pg_order := order, pg_flags := 0, pg_refcount := 1,
       pg_slab_cache := None, pg_slab_free := []\<rparr>) s2)\<lparr>free_count := free_count s2 - 2 ^ order\<rparr>"
  have "p < MAX_PAGES"
  proof -
    have "0 < (2::nat) ^ k" by simp
    then show ?thesis using hd(2) by linarith
  qed
  then have take: "pmm_take order k s = (Some p, s3)"
    by (simp add: pmm_take_def pop s2_def [symmetric] s3_def upd_page_def)
  have fr3: "free_frames s3 = free_frames s - blk p order"
    using split(2) by (simp add: s3_def free_frames_def)
  have m3: "mem_map s3 p = ?h" by (simp add: s3_def)
  have frame: "mem_map s3 f = mem_map s f" if "f \<notin> free_frames s" for f
  proof -
    have "f \<notin> blk p k" "f \<noteq> p" using that kfree blk_mem [of p k] by blast+
    then show ?thesis using split(3) [of f] by (simp add: s3_def s1_def)
  qed
  have ok3: "lists_ok (free_lists s3) (mem_map s3)"
  proof -
    have "lists_ok (free_lists s2) (mem_map s3)"
    proof (rule lists_ok_map_cong [OF split(1)])
      fix f assume "f \<in> frames (free_lists s2)"
      then have "f \<noteq> p" using split(2) blk_mem [of p order] by (auto simp: free_frames_def)
      then show "mem_map s3 f = mem_map s2 f" by (simp add: s3_def)
    qed
    then show ?thesis by (simp add: s3_def)
  qed
  have man: "managed s3 = managed s"
  proof (rule managed_cong)
    fix f
    have "f \<in> managed s" if "mem_map s3 f \<noteq> mem_map s f"
      using that frame inv by (auto simp: pmm_inv_def)
    then show "mem_map s3 f = mem_map s f \<or> pg_flags (mem_map s3 f) AND PG_RESERVED = 0 \<and> f \<in> managed s"
      using split(4) [of f] by (auto simp: s3_def s1_def split: if_splits)
  qed
  have cnt: "2 ^ order \<le> card (free_frames s)"
    using card_mono [of "free_frames s" "blk p order"] sub kfree by (auto simp: free_frames_def)
  then have "unat (free_count s3) = card (free_frames s) - 2 ^ order"
    using inv k split(5)
    by (simp add: s3_def s1_def pmm_inv_def unat_sub word_le_nat_alt unat_pow2)
  moreover have "card (free_frames s3) = card (free_frames s) - 2 ^ order"
    using sub kfree by (simp add: fr3 card_Diff_subset)
  moreover have "total_pages s3 = total_pages s" "g_total_pages_snapshot s3 = g_total_pages_snapshot s"
    using split(6) by (simp_all add: s3_def s1_def same_counts_def)
  ultimately have "pmm_inv s3"
    using inv ok3 fr3 man by (auto simp: pmm_inv_def)
  moreover have "2 ^ order dvd p" using hd(1) k(1) by (meson dvd_trans le_imp_power_dvd)
  moreover have "p + 2 ^ order \<le> MAX_PAGES"
    using hd(2) power_increasing [OF k(1), of "2::nat"] by linarith
  ultimately show ?thesis
    using take fr3 man frame m3 sub kfree by blast
qed

text \<open>The out-of-memory mark is the only change of a failed allocation.\<close>

definition oom_marked :: "pmm_state \<Rightarrow> pmm_state" where
  "oom_marked s = s\<lparr>pmm_oom_marks := Suc (pmm_oom_marks s)\<rparr>"

lemma oom_marked_simps [simp]:
  "mem_map (oom_marked s) = mem_map s" "free_lists (oom_marked s) = free_lists s"
  "free_frames (oom_marked s) = free_frames s" "managed (oom_marked s) = managed s"
  "pmm_inv (oom_marked s) = pmm_inv s"
  by (simp_all add: oom_marked_def free_frames_def managed_def pmm_inv_def)

lemma pmm_alloc_cases:
  assumes "0 \<le> order" "order < int MAX_ORDER"
  shows "pmm_alloc_pages order s =
    (let k = find_order (free_lists s) (nat order) in
     if k < MAX_ORDER then pmm_take (nat order) k s else (None, oom_marked s))"
proof -
  have "nat order \<le> MAX_ORDER" using assms by linarith
  then show ?thesis using assms find_order_props [of "nat order" "free_lists s"]
    by (auto simp: pmm_alloc_pages_def oom_marked_def Let_def)
qed

lemma pmm_alloc_Some:
  assumes "pmm_inv s" "0 \<le> order" "order < int MAX_ORDER" "pmm_alloc_pages order s = (Some p, s')"
  shows "pmm_inv s'" "2 ^ nat order dvd p" "p + 2 ^ nat order \<le> MAX_PAGES"
    "blk p (nat order) \<subseteq> free_frames s" "free_frames s' = free_frames s - blk p (nat order)"
    "managed s' = managed s" "\<And>f. f \<notin> free_frames s \<Longrightarrow> mem_map s' f = mem_map s f"
    "mem_map s' p =
       \<lparr>pg_order = nat order, pg_flags = 0, pg_refcount = 1, pg_slab_cache = None, pg_slab_free = []\<rparr>"
proof -
  let ?k = "find_order (free_lists s) (nat order)"
  have k: "nat order \<le> ?k" "?k < MAX_ORDER \<Longrightarrow> free_lists s ?k \<noteq> []"
    using find_order_props [of "nat order" "free_lists s"] assms(2,3) by auto
  have kl: "?k < MAX_ORDER" and t: "pmm_take (nat order) ?k s = (Some p, s')"
    using assms(4) pmm_alloc_cases [OF assms(2,3), of s] by (auto simp: Let_def split: if_splits)
  from pmm_take_ok [OF assms(1) k(1) kl k(2) [OF kl]] t
  show "pmm_inv s'" "2 ^ nat order dvd p" "p + 2 ^ nat order \<le> MAX_PAGES"
    "blk p (nat order) \<subseteq> free_frames s" "free_frames s' = free_frames s - blk p (nat order)"
    "managed s' = managed s" "\<And>f. f \<notin> free_frames s \<Longrightarrow> mem_map s' f = mem_map s f"
    "mem_map s' p =
       \<lparr>pg_order = nat order, pg_flags = 0, pg_refcount = 1, pg_slab_cache = None, pg_slab_free = []\<rparr>"
    by auto
qed

lemma pmm_alloc_None:
  assumes "pmm_inv s" "0 \<le> order" "order < int MAX_ORDER"
  shows "fst (pmm_alloc_pages order s) = None \<longleftrightarrow> (\<forall>k. nat order \<le> k \<and> k < MAX_ORDER \<longrightarrow> free_lists s k = [])"
    and "pmm_alloc_pages order s = (None, s') \<Longrightarrow> s' = oom_marked s"
proof -
  let ?k = "find_order (free_lists s) (nat order)"
  have "nat order \<le> MAX_ORDER" using assms(2,3) by linarith
  note F = find_order_props [OF this, of "free_lists s"]
  have take: "\<exists>p s'. pmm_take (nat order) ?k s = (Some p, s')" if "?k < MAX_ORDER"
  proof -
    have "nat order \<le> ?k" "free_lists s ?k \<noteq> []" using F assms(2,3) that by auto
    from pmm_take_ok [OF assms(1) this(1) that this(2)] show ?thesis by blast
  qed
  show "fst (pmm_alloc_pages order s) = None \<longleftrightarrow> (\<forall>k. nat order \<le> k \<and> k < MAX_ORDER \<longrightarrow> free_lists s k = [])"
    using take F assms(2,3) by (auto simp: pmm_alloc_cases Let_def not_less)
  show "pmm_alloc_pages order s = (None, s') \<Longrightarrow> s' = oom_marked s"
    using take F assms(2,3) by (auto simp: pmm_alloc_cases Let_def split: if_splits)
qed

section \<open>Release\<close>

lemma merge_loop_ok:
  assumes "lists_ok (free_lists s) (mem_map s)" "blk p k \<inter> free_frames s = {}"
    and "2 ^ k dvd p" "p + 2 ^ k \<le> MAX_PAGES" "k < MAX_ORDER"
    and "merge_loop p k s = (p', k', s')"
  shows "lists_ok (free_lists s') (mem_map s') \<and> blk p' k' \<inter> free_frames s' = {} \<and>
    2 ^ k' dvd p' \<and> p' + 2 ^ k' \<le> MAX_PAGES \<and> k' < MAX_ORDER \<and> k \<le> k' \<and>
    free_frames s' \<union> blk p' k' = free_frames s \<union> blk p k \<and> mem_map s' = mem_map s \<and>
    free_count s' = free_count s \<and> same_counts s s'"
  using assms
proof (induction p k s arbitrary: p' k' s' rule: merge_loop.induct)
  case (1 p k s)
  let ?b = "buddy_of p k"
  let ?s = "s\<lparr>free_lists := (free_lists s)(k := remove1 ?b (free_lists s k))\<rparr>"
  show ?case
  proof (cases "k < MAX_ORDER - 1 \<and>
      \<not> (pg_flags (mem_map s ?b) AND PG_FREE = 0 \<or> pg_order (mem_map s ?b) \<noteq> k) \<and>
      ?b \<in> set (free_lists s k)")
    case False
    then have "merge_loop p k s = (p, k, s)" by (subst merge_loop.simps) (auto simp: Let_def)
    with "1.prems" show ?thesis by (auto simp: same_counts_def)
  next
    case True
    let ?m = "if ?b < p then ?b else p"
    have m: "?m = min p ?b" by auto
    have un: "merge_loop p k s = merge_loop ?m (Suc k) ?s"
      using True by (subst merge_loop.simps) (auto simp: Let_def)
    note B = buddy_props [OF "1.prems"(3) _ "1.prems"(4)]
    have h: "(k, ?b) \<in> heads (free_lists s)" using True by (auto simp: heads_def)
    have fr: "free_frames ?s = free_frames s - blk ?b k"
      using frames_remove [OF "1.prems"(1) h] by (simp add: free_frames_def)
    have bsub: "blk ?b k \<subseteq> free_frames s" using in_frames [OF h] by (simp add: free_frames_def)
    have ok: "lists_ok (free_lists ?s) (mem_map ?s)"
      using lists_ok_remove [OF "1.prems"(1,5)] by simp
    have cover: "blk ?m (Suc k) = blk p k \<union> blk ?b k" unfolding m using B True by simp
    have "lists_ok (free_lists s') (mem_map s') \<and> blk p' k' \<inter> free_frames s' = {} \<and>
      2 ^ k' dvd p' \<and> p' + 2 ^ k' \<le> MAX_PAGES \<and> k' < MAX_ORDER \<and> Suc k \<le> k' \<and>
      free_frames s' \<union> blk p' k' = free_frames ?s \<union> blk ?m (Suc k) \<and> mem_map s' = mem_map ?s \<and>
      free_count s' = free_count ?s \<and> same_counts ?s s'"
    proof (rule "1.IH" [OF _ refl _ _ ok])
      show "blk ?m (Suc k) \<inter> free_frames ?s = {}"
        unfolding cover fr using "1.prems"(2) by blast
      show "2 ^ Suc k dvd ?m" "?m + 2 ^ Suc k \<le> MAX_PAGES" unfolding m using B True by simp_all
      show "merge_loop ?m (Suc k) ?s = (p', k', s')" using "1.prems"(6) un by simp
    qed (use True in auto)
    moreover have "free_frames ?s \<union> blk ?m (Suc k) = free_frames s \<union> blk p k"
      unfolding cover fr using bsub by blast
    ultimately show ?thesis by (auto simp: same_counts_def)
  qed
qed

lemma pmm_release_ok:
  assumes inv: "pmm_inv s" and al: "allocated s p k"
  shows "pmm_inv (pmm_release p k s)"
    "free_frames (pmm_release p k s) = free_frames s \<union> blk p k"
    "managed (pmm_release p k s) = managed s"
    "\<And>f. f \<notin> free_frames s \<union> blk p k \<Longrightarrow> mem_map (pmm_release p k s) f = mem_map s f"
proof -
  obtain p' k' s1 where ml: "merge_loop p k s = (p', k', s1)" by (metis surj_pair)
  have dis: "blk p k \<inter> free_frames s = {}" and sub: "blk p k \<subseteq> managed s"
    and k: "k < MAX_ORDER" using al by (auto simp: allocated_def)
  have ok: "lists_ok (free_lists s) (mem_map s)" using inv by (simp add: pmm_inv_def)
  have M: "lists_ok (free_lists s1) (mem_map s1)" "blk p' k' \<inter> free_frames s1 = {}"
    "2 ^ k' dvd p'" "p' + 2 ^ k' \<le> MAX_PAGES" "k' < MAX_ORDER"
    "free_frames s1 \<union> blk p' k' = free_frames s \<union> blk p k" "mem_map s1 = mem_map s"
    "free_count s1 = free_count s" "same_counts s s1"
    using merge_loop_ok [OF ok dis _ _ k ml] al by (auto simp: allocated_def)
  define s2 where "s2 = (free_list_push k' p' s1)\<lparr>free_count := free_count s + 2 ^ k\<rparr>"
  have ok2: "lists_ok (free_lists s2) (mem_map s2)"
    using lists_ok_push [OF M(1,5), of p'] M(2-4) by (simp add: s2_def head_ok_def free_frames_def)
  have fr2: "free_frames s2 = free_frames s \<union> blk p k"
    using M(5,6) by (simp add: s2_def free_frames_def frames_push)
  have frame: "mem_map s2 f = mem_map s f" if "f \<notin> free_frames s \<union> blk p k" for f
  proof -
    have "f \<noteq> p'" using that M(6) blk_mem [of p' k'] by blast
    then show ?thesis using M(7) by (simp add: s2_def)
  qed
  have p': "p' \<in> managed s" using M(6) sub inv blk_mem [of p' k'] by (auto simp: pmm_inv_def)
  have man: "managed s2 = managed s"
    by (rule managed_cong) (use p' M(7) in \<open>auto simp: s2_def\<close>)
  have card2: "card (free_frames s2) = card (free_frames s) + 2 ^ k"
    unfolding fr2 using dis by (subst card_Un_disjoint) (auto simp: free_frames_def)
  have bound: "card (free_frames s2) \<le> card (managed s)"
    using inv sub by (intro card_mono) (auto simp: fr2 pmm_inv_def)
  have small: "unat (free_count s) + unat (2 ^ k :: u64) < 2 ^ 64"
    using inv k card2 bound card_managed_bound [of s]
    by (simp add: pmm_inv_def unat_pow2 kernel_defs)
  have cnt: "unat (free_count s2) = card (free_frames s2)"
    using inv k card2 small by (simp add: s2_def pmm_inv_def unat_word_ariths unat_pow2)
  have tot: "total_pages s2 = total_pages s" "g_total_pages_snapshot s2 = g_total_pages_snapshot s"
    using M(9) by (auto simp: s2_def same_counts_def)
  have le: "\<not> free_count s2 > total_pages s2"
    using inv cnt bound tot by (simp add: word_less_nat_alt pmm_inv_def)
  have eq: "pmm_release p k s = s2"
    using le M(8) by (simp add: pmm_release_def ml s2_def Let_def)
  show "pmm_inv (pmm_release p k s)"
    using inv ok2 cnt tot sub man unfolding eq by (auto simp: pmm_inv_def fr2)
  show "free_frames (pmm_release p k s) = free_frames s \<union> blk p k" unfolding eq by (rule fr2)
  show "managed (pmm_release p k s) = managed s" unfolding eq by (rule man)
  show "\<And>f. f \<notin> free_frames s \<union> blk p k \<Longrightarrow> mem_map (pmm_release p k s) f = mem_map s f"
    unfolding eq by (rule frame)
qed

lemma pmm_free_allocated:
  assumes inv: "pmm_inv s" and al: "allocated s p k"
  shows "pmm_free_pages (Some p) (int k) s = pmm_release p k s"
proof -
  have p: "p \<in> managed s" using al blk_mem [of p k] unfolding allocated_def by blast
  then have "0 < card (managed s)" by (auto simp: card_gt_0_iff)
  then have "total_pages s \<noteq> 0" using inv by (auto simp: pmm_inv_def)
  with p inv al show ?thesis
    by (auto simp: pmm_free_pages_def allocated_def managed_def pmm_inv_def)
qed

lemma pmm_free_ok:
  assumes "pmm_inv s" "allocated s p k"
  shows "pmm_inv (pmm_free_pages (Some p) (int k) s)"
    "free_frames (pmm_free_pages (Some p) (int k) s) = free_frames s \<union> blk p k"
    "managed (pmm_free_pages (Some p) (int k) s) = managed s"
    "\<And>f. f \<notin> free_frames s \<union> blk p k \<Longrightarrow> mem_map (pmm_free_pages (Some p) (int k) s) f = mem_map s f"
  using pmm_release_ok [OF assms] pmm_free_allocated [OF assms] by simp_all

text \<open>What \<open>pmm_alloc_pages\<close> hands out can be handed back.\<close>

lemma pmm_alloc_allocated:
  assumes "pmm_inv s" "0 \<le> order" "order < int MAX_ORDER" "pmm_alloc_pages order s = (Some p, s')"
  shows "allocated s' p (nat order)"
  using pmm_alloc_Some [OF assms] assms(1-3) by (auto simp: allocated_def pmm_inv_def)

end
