(* ===== verification/PmmInit.thy ===== *)
theory PmmInit
  imports PmmCorrect
begin

text \<open>
  Registration of the usable memory (\<open>mark_region_usable\<close>, \<open>pmm_init\<close>): which frames become
  managed, that the kernel image and the first MiB never do, and that the invariant of the buddy
  allocator holds afterwards.
\<close>

section \<open>Cutting a region into aligned blocks\<close>

lemma and_mask_nat: "(p :: nat) AND (2 ^ k - 1) = p mod 2 ^ k"
  by (simp only: mask_eq_exp_minus_1 [symmetric] take_bit_eq_mask [symmetric] take_bit_eq_mod)

lemma region_order_props:
  "pfn < e \<Longrightarrow> region_order pfn e k \<le> k \<and> 2 ^ region_order pfn e k dvd pfn \<and>
   pfn + 2 ^ region_order pfn e k \<le> e"
  by (induction pfn e k rule: region_order.induct)
    (auto simp: and_mask_nat [simplified] dvd_eq_mod_eq_0 simp del: power_Suc)

text \<open>The state while memory is being registered: everything managed is free.\<close>

definition init_inv :: "pmm_state \<Rightarrow> bool" where
  "init_inv s \<longleftrightarrow>
     lists_ok (free_lists s) (mem_map s) \<and> free_frames s = managed s \<and>
     unat (free_count s) = card (managed s) \<and> total_pages s = free_count s"

lemma mark_block_sub:
  assumes "k < MAX_ORDER"
  shows "managed (mark_block p k s) \<subseteq> managed s \<union> blk p k"
    "free_frames (mark_block p k s) = free_frames s \<union> blk p k"
  using assms by (auto simp: mark_block_def Let_def managed_def free_frames_def frames_push blk_def
      split: if_splits)

lemma mark_block_ok:
  assumes inv: "init_inv s" and k: "k < MAX_ORDER" "2 ^ k dvd p" "p + 2 ^ k \<le> MAX_PAGES"
    and new: "blk p k \<inter> managed s = {}"
  shows "init_inv (mark_block p k s)" "managed (mark_block p k s) = managed s \<union> blk p k"
proof -
  let ?s = "mark_block p k s"
  let ?m = "\<lambda>i. if p \<le> i \<and> i < p + 2 ^ k then fresh_page else mem_map s i"
  have fl: "free_lists ?s = (free_lists s)(k := p # free_lists s k)"
    and mm: "mem_map ?s = ?m(p := ?m p\<lparr>pg_order := k, pg_flags := PG_FREE\<rparr>)"
    and cnt: "free_count ?s = free_count s + 2 ^ k" "total_pages ?s = total_pages s + 2 ^ k"
    by (simp_all add: mark_block_def Let_def)
  have sep: "blk p k \<inter> frames (free_lists s) = {}"
    using new inv by (simp add: init_inv_def free_frames_def)
  have "lists_ok (free_lists s) ?m"
  proof (rule lists_ok_map_cong)
    show "lists_ok (free_lists s) (mem_map s)" using inv by (simp add: init_inv_def)
    show "?m f = mem_map s f" if "f \<in> frames (free_lists s)" for f
      using that sep by (auto simp: blk_def)
  qed
  then have ok: "lists_ok (free_lists ?s) (mem_map ?s)"
    unfolding fl mm by (rule lists_ok_push) (use k sep in \<open>auto simp: head_ok_def\<close>)
  have res: "fresh_page \<lparr>pg_order := k, pg_flags := PG_FREE\<rparr> = h \<Longrightarrow> pg_flags h AND PG_RESERVED = 0"
    "pg_flags fresh_page AND PG_RESERVED = 0" for h
    by (auto simp: fresh_page_def)
  show man: "managed ?s = managed s \<union> blk p k"
    using k(3) by (auto simp: managed_def mm blk_def fresh_page_def)
  have fr: "free_frames ?s = managed ?s"
    unfolding man using mark_block_sub(2) [OF k(1)] inv by (simp add: init_inv_def)
  have card: "card (managed ?s) = card (managed s) + 2 ^ k"
    unfolding man using new by (subst card_Un_disjoint) auto
  have "unat (free_count s) + unat (2 ^ k :: u64) < 2 ^ 64"
    using inv card card_managed_bound [of ?s] unat_pow2 [OF k(1)]
    by (simp add: init_inv_def kernel_defs)
  then have "unat (free_count ?s) = card (managed ?s)"
    using inv card unat_pow2 [OF k(1)] by (simp add: cnt init_inv_def unat_word_ariths)
  then show "init_inv ?s" using ok fr inv by (simp add: init_inv_def cnt)
qed

lemma top_order: "MAX_ORDER - 1 = 9"
  by (simp add: kernel_defs)

lemma mark_loop_done: "\<not> p < e \<Longrightarrow> mark_loop p e s = s"
  by (subst mark_loop.simps) simp

lemma mark_loop_unfold:
  "p < e \<Longrightarrow> mark_loop p e s =
     mark_loop (p + 2 ^ region_order p e 9) e (mark_block p (region_order p e 9) s)"
  by (subst mark_loop.simps) (simp add: kernel_defs Let_def)

lemma mark_loop_sub:
  "managed (mark_loop p e s) \<subseteq> managed s \<union> {p..<e} \<and>
   free_frames (mark_loop p e s) \<subseteq> free_frames s \<union> {p..<e}"
proof (induction p e s rule: mark_loop.induct)
  case (1 p e s)
  show ?case
  proof (cases "p < e")
    case False
    then show ?thesis by (simp add: mark_loop_done)
  next
    case True
    let ?k = "region_order p e 9"
    have k: "?k < MAX_ORDER" "blk p ?k \<subseteq> {p..<e}"
      using region_order_props [OF True, of 9] by (auto simp: blk_def kernel_defs)
    have "managed (mark_loop p e s) \<subseteq> managed (mark_block p ?k s) \<union> {p + 2 ^ ?k..<e} \<and>
      free_frames (mark_loop p e s) \<subseteq> free_frames (mark_block p ?k s) \<union> {p + 2 ^ ?k..<e}"
      unfolding mark_loop_unfold [OF True] by (rule "1.IH" [OF True refl, unfolded top_order])
    moreover have "{p + 2 ^ ?k..<e} \<subseteq> {p..<e}" by auto
    ultimately show ?thesis using mark_block_sub [OF k(1), of p s] k(2) by blast
  qed
qed

lemma mark_loop_ok:
  "init_inv s \<Longrightarrow> e \<le> MAX_PAGES \<Longrightarrow> {p..<e} \<inter> managed s = {} \<Longrightarrow>
   init_inv (mark_loop p e s) \<and> managed (mark_loop p e s) = managed s \<union> {p..<e}"
proof (induction p e s rule: mark_loop.induct)
  case (1 p e s)
  show ?case
  proof (cases "p < e")
    case False
    then show ?thesis using "1.prems" by (simp add: mark_loop_done)
  next
    case True
    let ?k = "region_order p e 9"
    note R = region_order_props [OF True, of 9]
    have k: "?k < MAX_ORDER" using R by (simp add: kernel_defs)
    have split: "{p..<e} = blk p ?k \<union> {p + 2 ^ ?k..<e}" using R by (auto simp: blk_def)
    have mb: "init_inv (mark_block p ?k s)" "managed (mark_block p ?k s) = managed s \<union> blk p ?k"
    proof -
      have "blk p ?k \<inter> managed s = {}" using "1.prems"(3) unfolding split by blast
      moreover have "p + 2 ^ ?k \<le> MAX_PAGES" using R "1.prems"(2) by linarith
      ultimately show "init_inv (mark_block p ?k s)" "managed (mark_block p ?k s) = managed s \<union> blk p ?k"
        using mark_block_ok [OF "1.prems"(1) k] R by blast+
    qed
    have "init_inv (mark_loop (p + 2 ^ ?k) e (mark_block p ?k s)) \<and>
      managed (mark_loop (p + 2 ^ ?k) e (mark_block p ?k s)) =
        managed (mark_block p ?k s) \<union> {p + 2 ^ ?k..<e}"
    proof -
      have "{p + 2 ^ ?k..<e} \<inter> managed (mark_block p ?k s) = {}"
        using "1.prems"(3) unfolding split mb(2) by (auto simp: blk_def)
      then show ?thesis
        by (rule "1.IH" [OF True refl, unfolded top_order, OF mb(1) "1.prems"(2)])
    qed
    then show ?thesis unfolding mark_loop_unfold [OF True] mb split by blast
  qed
qed

section \<open>Regions of the memory map\<close>

text \<open>The frames of a region that starts at a physical address and has a number of pages.\<close>

definition region :: "u64 \<Rightarrow> u64 \<Rightarrow> nat set" where
  "region start_phys pages =
     {f. unat start_phys div PAGE_SIZE \<le> f \<and> f < unat start_phys div PAGE_SIZE + unat pages \<and> f < MAX_PAGES}"

definition no_wrap :: "u64 \<Rightarrow> u64 \<Rightarrow> bool" where
  "no_wrap start_phys pages \<longleftrightarrow> unat start_phys + unat pages * PAGE_SIZE < 2 ^ 64"

lemma unat_pfn: "unat (drop_bit 12 w :: u64) = unat w div PAGE_SIZE"
  by (simp add: drop_bit_eq_div kernel_defs unat_div)

lemma unat_clip:
  "unat (if w > of_nat MAX_PAGES then of_nat MAX_PAGES else w :: u64) = min (unat w) MAX_PAGES"
  by (auto simp: kernel_defs word_less_nat_alt min_def)

lemma mark_region_cases:
  "mark_region_usable a n s =
     (let e = min (unat (drop_bit 12 a + n)) MAX_PAGES in
      if e \<le> unat a div PAGE_SIZE then s else mark_loop (unat a div PAGE_SIZE) e s)"
  unfolding mark_region_usable_def Let_def unat_clip [symmetric] word_le_nat_alt unat_pfn
  by (rule refl)

lemma mark_region_sub:
  "managed (mark_region_usable a n s) \<subseteq> managed s \<union> region a n"
  "free_frames (mark_region_usable a n s) \<subseteq> free_frames s \<union> region a n"
proof -
  have "unat (drop_bit 12 a + n) \<le> unat a div PAGE_SIZE + unat n"
    using unat_word_ariths(1) [of "drop_bit 12 a" n] mod_less_eq_dividend by (metis unat_pfn)
  then have "{unat a div PAGE_SIZE..<min (unat (drop_bit 12 a + n)) MAX_PAGES} \<subseteq> region a n"
    by (auto simp: region_def)
  then show "managed (mark_region_usable a n s) \<subseteq> managed s \<union> region a n"
    "free_frames (mark_region_usable a n s) \<subseteq> free_frames s \<union> region a n"
    using mark_loop_sub [of "unat a div PAGE_SIZE" "min (unat (drop_bit 12 a + n)) MAX_PAGES" s]
    unfolding mark_region_cases Let_def by auto
qed

lemma mark_region_ok:
  assumes "init_inv s" "no_wrap a n" "region a n \<inter> managed s = {}"
  shows "init_inv (mark_region_usable a n s)"
    "managed (mark_region_usable a n s) = managed s \<union> region a n"
proof -
  have "unat a div PAGE_SIZE + unat n < 2 ^ 64"
    using assms(2) by (simp add: no_wrap_def kernel_defs)
  then have e: "unat (drop_bit 12 a + n) = unat a div PAGE_SIZE + unat n"
    by (simp add: unat_word_ariths unat_pfn)
  let ?e = "min (unat a div PAGE_SIZE + unat n) MAX_PAGES"
  have r: "region a n = {unat a div PAGE_SIZE..<?e}" by (auto simp: region_def)
  have L: "init_inv (mark_loop (unat a div PAGE_SIZE) ?e s) \<and>
      managed (mark_loop (unat a div PAGE_SIZE) ?e s) = managed s \<union> {unat a div PAGE_SIZE..<?e}"
    by (rule mark_loop_ok) (use assms r in auto)
  have "?e \<le> unat a div PAGE_SIZE \<Longrightarrow> region a n = {}" by (simp add: r)
  with L show "init_inv (mark_region_usable a n s)"
    "managed (mark_region_usable a n s) = managed s \<union> region a n"
    using assms(1) by (auto simp: mark_region_cases Let_def e r)
qed

abbreviation mark_regions :: "(u64 \<times> u64) list \<Rightarrow> pmm_state \<Rightarrow> pmm_state" where
  "mark_regions rs s \<equiv> fold (\<lambda>(a, n). mark_region_usable a n) rs s"

text \<open>
  The frames that \<open>pmm_init\<close> must keep out: the first MiB, and the kernel image with its BSS.
\<close>

definition excluded :: "u64 \<Rightarrow> u64 \<Rightarrow> nat set" where
  "excluded kern_start kern_end =
     {f. f < 256} \<union> {f. unat kern_start \<le> f * PAGE_SIZE \<and> f * PAGE_SIZE < unat kern_end}"

lemma skip_pages_nat:
  fixes phys :: u64
  assumes "phys < 0x100000"
  shows "unat ((0x100000 - phys + 0x1000 - 1) div 0x1000) = (0x100000 - unat phys + 0xFFF) div 0x1000"
proof -
  have "unat (0x100000 - phys) = 0x100000 - unat phys"
    using assms by (simp add: unat_sub word_less_nat_alt word_le_nat_alt)
  then have "unat ((0x100000 - phys) + 0xFFF) = (0x100000 - unat phys) + 0xFFF"
    by (simp only: unat_word_ariths) simp
  moreover have "0x100000 - phys + 0x1000 - 1 = (0x100000 - phys) + 0xFFF" by simp
  ultimately have "unat (0x100000 - phys + 0x1000 - 1) = (0x100000 - unat phys) + 0xFFF" by metis
  then show ?thesis by (simp only: unat_div) simp
qed

text \<open>Every iteration of \<open>pmm_init\<close> registers at most two regions, inside the entry and outside the
  excluded range.\<close>

definition entry_regions :: "u64 \<Rightarrow> u64 \<Rightarrow> ob_memory_entry \<Rightarrow> (u64 \<times> u64) list" where
  "entry_regions kern_start kern_end e =
     (let phys = e_physical_start e; pages = e_number_of_pages e;
          skip = (if phys < 0x100000 then (0x100000 - phys + 0x1000 - 1) div 0x1000 else 0);
          a = phys + skip * 0x1000; n = pages - skip; b = a + n * 0x1000
      in if \<not> (e_type e = 7 \<or> e_type e = 3 \<or> e_type e = 4) \<or> phys < 0x100000 \<and> skip \<ge> pages then []
         else if b \<le> kern_start \<or> a \<ge> kern_end then [(a, n)]
         else
           (if a < kern_start \<and> (kern_start - a) div 0x1000 > 0
            then [(a, (kern_start - a) div 0x1000)] else []) @
           (if b > kern_end \<and> (b - kern_end) div 0x1000 > 0
            then [(kern_end, (b - kern_end) div 0x1000)] else []))"

lemma init_entry_regions:
  "init_entry kern_start kern_end e s = mark_regions (entry_regions kern_start kern_end e) s"
proof -
  have core: "(if \<not> u then s else if c then s else if d then M a n s
       else if t then M b y (if h then M a x s else s) else (if h then M a x s else s)) =
      fold (\<lambda>(a, n). M a n) (if \<not> u \<or> c then [] else if d then [(a, n)]
         else (if h then [(a, x)] else []) @ (if t then [(b, y)] else [])) s"
    for u c d h t and M :: "u64 \<Rightarrow> u64 \<Rightarrow> pmm_state \<Rightarrow> pmm_state" and a n x b y
    by simp
  show ?thesis
    unfolding init_entry_def entry_regions_def Let_def by (rule core)
qed

lemma unat_times_page: "unat (w :: u64) * PAGE_SIZE < 2 ^ 64 \<Longrightarrow> unat (w * 0x1000) = unat w * PAGE_SIZE"
  by (simp add: unat_word_ariths kernel_defs)

lemma entry_base:
  fixes phys pages :: u64
  defines "skip \<equiv> (if phys < 0x100000 then (0x100000 - phys + 0x1000 - 1) div 0x1000 else 0 :: u64)"
  assumes nw: "no_wrap phys pages" and sk: "\<not> (phys < 0x100000 \<and> skip \<ge> pages)"
  shows "unat (phys + skip * 0x1000) = unat phys + unat skip * PAGE_SIZE"
    and "unat (pages - skip) = unat pages - unat skip" and "unat skip \<le> unat pages"
    and "0x100000 \<le> unat phys + unat skip * PAGE_SIZE"
    and "unat (phys + skip * 0x1000 + (pages - skip) * 0x1000) = unat phys + unat pages * PAGE_SIZE"
proof -
  have le: "unat skip \<le> unat pages"
    using sk by (auto simp: skip_def word_le_nat_alt split: if_splits)
  then show "unat skip \<le> unat pages" .
  have b: "unat phys + unat pages * PAGE_SIZE < 2 ^ 64" using nw by (simp add: no_wrap_def)
  then have b': "unat phys + unat skip * PAGE_SIZE < 2 ^ 64"
    using mult_le_mono1 [OF le, of PAGE_SIZE] by linarith
  have m: "unat (skip * 0x1000) = unat skip * PAGE_SIZE"
    using b' by (intro unat_times_page) linarith
  then show a: "unat (phys + skip * 0x1000) = unat phys + unat skip * PAGE_SIZE"
    using b' by (simp add: unat_word_ariths)
  show n: "unat (pages - skip) = unat pages - unat skip"
    using le by (simp add: unat_sub word_le_nat_alt)
  have "0x100000 \<le> unat phys + (0x100000 - unat phys + 0xFFF) div 0x1000 * 0x1000"
    if "unat phys < 0x100000"
    using that div_mult_mod_eq [of "0x100000 - unat phys + 0xFFF" "0x1000"]
      mod_less_divisor [of "0x1000" "0x100000 - unat phys + 0xFFF"] by linarith
  then show "0x100000 \<le> unat phys + unat skip * PAGE_SIZE"
    using skip_pages_nat [of phys]
    by (auto simp: skip_def kernel_defs word_less_nat_alt not_less)
  have e: "phys + skip * 0x1000 + (pages - skip) * 0x1000 = phys + pages * 0x1000"
    by (simp add: algebra_simps)
  have "unat (pages * 0x1000) = unat pages * PAGE_SIZE"
    using b by (intro unat_times_page) linarith
  then show "unat (phys + skip * 0x1000 + (pages - skip) * 0x1000) = unat phys + unat pages * PAGE_SIZE"
    unfolding e using b by (simp only: unat_word_ariths) simp
qed

text \<open>The arithmetic of one sub-region \<open>[a, a + n * 4096)\<close> of the entry \<open>[p, p + m * 4096)\<close>.\<close>

lemma subregion:
  assumes "unat p \<le> unat a" "unat a + unat n * PAGE_SIZE \<le> unat p + unat m * PAGE_SIZE"
    and "0x100000 \<le> unat a" "no_wrap p m"
    and "unat a + unat n * PAGE_SIZE \<le> unat ks \<or> (unat ke \<le> unat a \<and> PAGE_SIZE dvd unat ke)"
  shows "no_wrap a n \<and> region a n \<subseteq> region p m - excluded ks ke"
proof
  show "no_wrap a n" using assms by (simp add: no_wrap_def)
  show "region a n \<subseteq> region p m - excluded ks ke"
  proof
    fix f assume f: "f \<in> region a n"
    have pos: "0 < PAGE_SIZE" by (simp add: kernel_defs)
    have "unat a div PAGE_SIZE + unat n = (unat a + unat n * PAGE_SIZE) div PAGE_SIZE"
      using pos by simp
    also have "\<dots> \<le> (unat p + unat m * PAGE_SIZE) div PAGE_SIZE"
      using assms(2) by (rule div_le_mono)
    finally have le: "unat a div PAGE_SIZE + unat n \<le> unat p div PAGE_SIZE + unat m"
      using pos by simp
    have f_lo: "unat a div PAGE_SIZE \<le> f" and f_hi: "f < unat a div PAGE_SIZE + unat n"
      using f by (auto simp: region_def)
    have "unat p div PAGE_SIZE \<le> f" using div_le_mono [OF assms(1)] f_lo by (rule order_trans)
    then have "f \<in> region p m" using f le f_hi by (simp add: region_def)
    moreover have "256 \<le> f"
      using div_le_mono [OF assms(3), of PAGE_SIZE] f_lo by (simp add: kernel_defs)
    moreover have "unat ks \<le> f * PAGE_SIZE \<Longrightarrow> unat ke \<le> f * PAGE_SIZE"
    proof -
      have "unat a < Suc f * PAGE_SIZE"
        using f_lo pos by (simp only: less_Suc_eq_le [symmetric] div_less_iff_less_mult)
      moreover have "Suc f \<le> (unat a + unat n * PAGE_SIZE) div PAGE_SIZE" using f_hi pos by simp
      then have "Suc f * PAGE_SIZE \<le> unat a + unat n * PAGE_SIZE"
        using pos by (simp only: less_eq_div_iff_mult_less_eq)
      moreover have "unat ke \<le> f * PAGE_SIZE"
        if "unat ke < Suc f * PAGE_SIZE" and d: "PAGE_SIZE dvd unat ke"
      proof -
        obtain c where c: "unat ke = PAGE_SIZE * c" using d by (elim dvdE)
        with that(1) have "PAGE_SIZE * c < PAGE_SIZE * Suc f" by (simp add: mult.commute)
        then have "c \<le> f" by (simp only: mult_less_cancel1 less_Suc_eq_le)
        with c show ?thesis by (simp add: mult.commute)
      qed
      ultimately show "unat ks \<le> f * PAGE_SIZE \<Longrightarrow> unat ke \<le> f * PAGE_SIZE"
        using assms(5) pos by auto
    qed
    ultimately show "f \<in> region p m - excluded ks ke"
      by (auto simp: excluded_def)
  qed
qed

lemma entry_regions_ok:
  assumes nw: "no_wrap (e_physical_start e) (e_number_of_pages e)"
    and k: "PAGE_SIZE dvd unat ke" "ks \<le> ke"
  shows "\<forall>(a, n) \<in> set (entry_regions ks ke e).
      no_wrap a n \<and> region a n \<subseteq> region (e_physical_start e) (e_number_of_pages e) - excluded ks ke"
    and "sorted_wrt (\<lambda>(a, n) (b, m). region a n \<inter> region b m = {}) (entry_regions ks ke e)"
proof -
  define phys where "phys = e_physical_start e"
  define pages where "pages = e_number_of_pages e"
  define skip where "skip = (if phys < 0x100000 then (0x100000 - phys + 0x1000 - 1) div 0x1000 else 0 :: u64)"
  define a where "a = phys + skip * 0x1000"
  define n where "n = pages - skip"
  define b where "b = a + n * 0x1000"
  have er: "entry_regions ks ke e =
      (if \<not> (e_type e = 7 \<or> e_type e = 3 \<or> e_type e = 4) \<or> phys < 0x100000 \<and> skip \<ge> pages then []
       else if b \<le> ks \<or> a \<ge> ke then [(a, n)]
       else (if a < ks \<and> (ks - a) div 0x1000 > 0 then [(a, (ks - a) div 0x1000)] else []) @
            (if b > ke \<and> (b - ke) div 0x1000 > 0 then [(ke, (b - ke) div 0x1000)] else []))"
    unfolding entry_regions_def Let_def phys_def pages_def skip_def a_def n_def b_def by (rule refl)
  let ?good = "\<lambda>x m. no_wrap x m \<and> region x m \<subseteq> region phys pages - excluded ks ke"
  have "(\<forall>(a, n) \<in> set (entry_regions ks ke e). ?good a n) \<and>
    sorted_wrt (\<lambda>(a, n) (b, m). region a n \<inter> region b m = {}) (entry_regions ks ke e)"
  proof (cases "phys < 0x100000 \<and> skip \<ge> pages")
    case False
    have nw': "no_wrap phys pages" using nw by (simp add: phys_def pages_def)
    note B = entry_base [OF nw', folded skip_def, OF False, folded a_def n_def, folded b_def]
    have pos: "0 < PAGE_SIZE" by (simp add: kernel_defs)
    have ab: "unat a + unat n * PAGE_SIZE = unat b" "unat phys \<le> unat a"
      using B by (auto simp: diff_mult_distrib)
    have times: "unat (x div 0x1000) * PAGE_SIZE \<le> unat x" for x :: u64
      by (simp add: unat_div kernel_defs)
    have whole: "?good a n" if "b \<le> ks \<or> a \<ge> ke"
      by (rule subregion) (use B ab k that nw' in \<open>auto simp: word_le_nat_alt\<close>)
    have hd: "?good a ((ks - a) div 0x1000)" if "a < ks" "\<not> b \<le> ks"
    proof (rule subregion)
      have "unat (ks - a) = unat ks - unat a" "unat a \<le> unat ks"
        using that(1) by (auto simp: unat_sub word_less_nat_alt word_le_nat_alt)
      then have "unat a + unat ((ks - a) div 0x1000) * PAGE_SIZE \<le> unat ks"
        using times [of "ks - a"] by linarith
      moreover have "unat ks \<le> unat b" using that(2) by (simp add: word_le_nat_alt)
      ultimately show "unat a + unat ((ks - a) div 0x1000) * PAGE_SIZE \<le> unat phys + unat pages * PAGE_SIZE"
        "unat a + unat ((ks - a) div 0x1000) * PAGE_SIZE \<le> unat ks \<or> unat ke \<le> unat a \<and> PAGE_SIZE dvd unat ke"
        using B(5) by auto
    qed (use B ab nw' in auto)
    have tl: "?good ke ((b - ke) div 0x1000)" if "b > ke" "\<not> a \<ge> ke"
    proof (rule subregion)
      have "unat (b - ke) = unat b - unat ke" "unat ke \<le> unat b"
        using that(1) by (auto simp: unat_sub word_less_nat_alt word_le_nat_alt)
      then show "unat ke + unat ((b - ke) div 0x1000) * PAGE_SIZE \<le> unat phys + unat pages * PAGE_SIZE"
        using times [of "b - ke"] B(5) by linarith
      show "unat phys \<le> unat ke" "0x100000 \<le> unat ke"
        using that(2) ab(2) B(1,4) by (auto simp: word_le_nat_alt)
    qed (use k nw' in auto)
    have sep: "region a ((ks - a) div 0x1000) \<inter> region ke m = {}" if "a < ks" "\<not> b \<le> ks" for m
    proof -
      have "f \<notin> region ke m" if f: "f \<in> region a ((ks - a) div 0x1000)" for f
      proof
        assume "f \<in> region ke m"
        then have "unat ke \<le> f * PAGE_SIZE"
          using k(1) pos by (auto simp: region_def elim!: dvdE)
        moreover have "f * PAGE_SIZE < unat ke"
        proof -
          have "Suc f \<le> (unat a + unat ((ks - a) div 0x1000) * PAGE_SIZE) div PAGE_SIZE"
            using f pos by (simp add: region_def)
          then have "Suc f * PAGE_SIZE \<le> unat a + unat ((ks - a) div 0x1000) * PAGE_SIZE"
            using pos by (simp only: less_eq_div_iff_mult_less_eq)
          then have "f * PAGE_SIZE < unat a + unat ((ks - a) div 0x1000) * PAGE_SIZE"
            using pos by simp
          moreover have "unat (ks - a) = unat ks - unat a" "unat a \<le> unat ks"
            using that(1) \<open>a < ks\<close> by (auto simp: unat_sub word_less_nat_alt word_le_nat_alt)
          ultimately show ?thesis using times [of "ks - a"] k(2) by (simp add: word_le_nat_alt)
        qed
        ultimately show False by simp
      qed
      then show ?thesis by blast
    qed
    have "\<forall>(a, n) \<in> set (entry_regions ks ke e). ?good a n"
      using whole hd tl unfolding er by auto
    moreover have "sorted_wrt (\<lambda>(a, n) (b, m). region a n \<inter> region b m = {}) (entry_regions ks ke e)"
      using sep unfolding er by auto
    ultimately show ?thesis ..
  next
    case True
    then show ?thesis by (simp add: er)
  qed
  then show "\<forall>(a, n) \<in> set (entry_regions ks ke e).
      no_wrap a n \<and> region a n \<subseteq> region (e_physical_start e) (e_number_of_pages e) - excluded ks ke"
    and "sorted_wrt (\<lambda>(a, n) (b, m). region a n \<inter> region b m = {}) (entry_regions ks ke e)"
    unfolding phys_def pages_def by blast+
qed

section \<open>The kernel range\<close>

lemma unat_page_mask: "unat (w AND NOT 0xFFF :: u64) = unat w div PAGE_SIZE * PAGE_SIZE"
proof -
  have m: "(0xFFF :: u64) = mask 12" by (simp add: mask_eq_exp_minus_1)
  have "w AND NOT 0xFFF = push_bit 12 (drop_bit 12 w)"
    unfolding m by (rule bit_word_eqI) (auto simp: bit_simps)
  then have "unat (w AND NOT 0xFFF) = unat (drop_bit 12 w * 0x1000)"
    by (simp add: push_bit_eq_mult mult.commute)
  also have "\<dots> = unat w div PAGE_SIZE * PAGE_SIZE"
  proof -
    have "unat w div PAGE_SIZE * PAGE_SIZE \<le> unat w" by simp
    moreover have "unat w < 2 ^ 64" using unsigned_less [of w, where ?'a = nat] by simp
    ultimately have "unat (drop_bit 12 w) * PAGE_SIZE < 2 ^ 64"
      unfolding unat_pfn by linarith
    then show ?thesis using unat_times_page [of "drop_bit 12 w"] by (simp only: unat_pfn)
  qed
  finally show ?thesis .
qed

lemma kernel_range_props:
  assumes "kernel_range bi = (ks, ke)" "unat (kernel_phys_end bi) + 0xFFF < 2 ^ 64"
  shows "PAGE_SIZE dvd unat ke" "ks \<le> ke" "0x1000000 \<le> unat ke"
    and "0 < kernel_phys_start bi \<Longrightarrow> kernel_phys_start bi < kernel_phys_end bi \<Longrightarrow>
      unat ks = unat (kernel_phys_start bi) div PAGE_SIZE * PAGE_SIZE \<and>
      unat (kernel_phys_end bi) \<le> unat ke"
proof -
  let ?s = "kernel_phys_start bi" and ?e = "kernel_phys_end bi"
  let ?up = "(?e + 0x1000 - 1) AND NOT 0xFFF"
  have "?e + 0x1000 - 1 = ?e + 0xFFF" by simp
  then have up0: "unat (?e + 0x1000 - 1) = unat ?e + 0xFFF"
    using assms(2) by (simp add: unat_word_ariths)
  then have up: "unat ?up = (unat ?e + 0xFFF) div PAGE_SIZE * PAGE_SIZE"
    by (simp only: unat_page_mask)
  have ge: "unat ?e \<le> unat ?up"
    unfolding up using div_mult_mod_eq [of "unat ?e + 0xFFF" PAGE_SIZE]
      mod_less_divisor [of PAGE_SIZE "unat ?e + 0xFFF"]
    by (simp add: kernel_defs)
  define ue where "ue = ?up"
  define ls where "ls = ?s AND NOT 0xFFF"
  have ls: "unat ls = unat ?s div PAGE_SIZE * PAGE_SIZE" by (simp only: ls_def unat_page_mask)
  then have lo: "unat ls \<le> unat ?s" by simp
  have ue: "PAGE_SIZE dvd unat ue" "unat ?e \<le> unat ue"
    unfolding ue_def up using ge up by simp_all
  have const: "PAGE_SIZE dvd 0x1000000" "PAGE_SIZE dvd 0x400000" by (simp_all add: kernel_defs)
  consider (default) "?s = 0 \<or> ?e \<le> ?s" "ks = 0x200000" "ke = MIN_KERNEL_END"
    | (real) "\<not> (?s = 0 \<or> ?e \<le> ?s)" "ks = ls" "ke = (if ue < MIN_KERNEL_END then MIN_KERNEL_END else ue)"
    using assms(1) by (auto simp: kernel_range_def MIN_KERNEL_END_def Let_def ue_def ls_def split: if_splits)
  then have "PAGE_SIZE dvd unat ke \<and> ks \<le> ke \<and> 0x1000000 \<le> unat ke \<and>
    (?s \<noteq> 0 \<longrightarrow> ?s < ?e \<longrightarrow> unat ks = unat ?s div PAGE_SIZE * PAGE_SIZE \<and> unat ?e \<le> unat ke)"
  proof cases
    case default
    then show ?thesis using const by (auto simp: MIN_KERNEL_END_def)
  next
    case real
    have "unat ?s < unat ?e" using real(1) by (simp add: word_le_nat_alt)
    then have "unat ?s div PAGE_SIZE * PAGE_SIZE \<le> unat ue" using lo ue(2) ls by linarith
    then show ?thesis
      unfolding real(2,3) using const ue lo ls
      by (auto simp: MIN_KERNEL_END_def word_le_nat_alt word_less_nat_alt)
  qed
  then show "PAGE_SIZE dvd unat ke" "ks \<le> ke" "0x1000000 \<le> unat ke"
    and "0 < ?s \<Longrightarrow> ?s < ?e \<Longrightarrow> unat ks = unat ?s div PAGE_SIZE * PAGE_SIZE \<and> unat ?e \<le> unat ke"
    by (auto simp: word_gt_0)
qed

section \<open>The whole of pmm\_init\<close>

abbreviation entry_region :: "ob_memory_entry \<Rightarrow> nat set" where
  "entry_region e \<equiv> region (e_physical_start e) (e_number_of_pages e)"

abbreviation entry_no_wrap :: "ob_memory_entry \<Rightarrow> bool" where
  "entry_no_wrap e \<equiv> no_wrap (e_physical_start e) (e_number_of_pages e)"

lemma mark_regions_sub:
  "\<forall>(a, n) \<in> set rs. region a n \<subseteq> A \<Longrightarrow>
   managed (mark_regions rs s) \<subseteq> managed s \<union> A \<and> free_frames (mark_regions rs s) \<subseteq> free_frames s \<union> A"
proof (induction rs arbitrary: s)
  case (Cons r rs)
  obtain a n where r: "r = (a, n)" by (cases r)
  show ?case
    using Cons.IH [of "mark_region_usable a n s"] Cons.prems mark_region_sub [of a n s]
    unfolding r by auto
qed simp

lemma mark_regions_ok:
  "init_inv s \<Longrightarrow> \<forall>(a, n) \<in> set rs. no_wrap a n \<and> region a n \<subseteq> A \<Longrightarrow> A \<inter> managed s = {} \<Longrightarrow>
   sorted_wrt (\<lambda>(a, n) (b, m). region a n \<inter> region b m = {}) rs \<Longrightarrow>
   init_inv (mark_regions rs s) \<and> managed (mark_regions rs s) \<subseteq> managed s \<union> A"
proof (induction rs arbitrary: s A)
  case (Cons r rs)
  obtain a n where r: "r = (a, n)" by (cases r)
  let ?s = "mark_region_usable a n s"
  have M: "init_inv ?s" "managed ?s = managed s \<union> region a n"
  proof -
    have "no_wrap a n" "region a n \<inter> managed s = {}" using Cons.prems(2,3) unfolding r by auto
    from mark_region_ok [OF Cons.prems(1) this]
    show "init_inv ?s" "managed ?s = managed s \<union> region a n" .
  qed
  have "init_inv (mark_regions rs ?s) \<and> managed (mark_regions rs ?s) \<subseteq> managed ?s \<union> (A - region a n)"
  proof (rule Cons.IH [OF M(1)])
    show "\<forall>(b, m)\<in>set rs. no_wrap b m \<and> region b m \<subseteq> A - region a n"
      using Cons.prems(2,4) unfolding r by fastforce
    show "(A - region a n) \<inter> managed ?s = {}" using Cons.prems(3) M(2) by auto
    show "sorted_wrt (\<lambda>(a, n) (b, m). region a n \<inter> region b m = {}) rs"
      using Cons.prems(4) by simp
  qed
  then show ?case using Cons.prems(2) M(2) unfolding r by auto
qed simp

lemma init_entries_sub:
  assumes k: "PAGE_SIZE dvd unat ke" "ks \<le> ke"
  shows "\<forall>e \<in> set es. entry_no_wrap e \<Longrightarrow>
    managed (fold (init_entry ks ke) es s) \<subseteq> managed s \<union> (- excluded ks ke) \<and>
    free_frames (fold (init_entry ks ke) es s) \<subseteq> free_frames s \<union> (- excluded ks ke)"
proof (induction es arbitrary: s)
  case (Cons e es)
  have "\<forall>(a, n) \<in> set (entry_regions ks ke e). region a n \<subseteq> - excluded ks ke"
    using entry_regions_ok(1) [OF _ k, of e] Cons.prems by fastforce
  from mark_regions_sub [OF this, of s] Cons.IH [of "init_entry ks ke e s"] Cons.prems
  show ?case by (auto simp: init_entry_regions)
qed simp

lemma init_entries_ok:
  assumes k: "PAGE_SIZE dvd unat ke" "ks \<le> ke"
  shows "init_inv s \<Longrightarrow> \<forall>e \<in> set es. entry_no_wrap e \<and> entry_region e \<inter> managed s = {} \<Longrightarrow>
    sorted_wrt (\<lambda>e f. entry_region e \<inter> entry_region f = {}) es \<Longrightarrow>
    init_inv (fold (init_entry ks ke) es s)"
proof (induction es arbitrary: s)
  case (Cons e es)
  have er: "\<forall>(a, n) \<in> set (entry_regions ks ke e). no_wrap a n \<and> region a n \<subseteq> entry_region e"
    "sorted_wrt (\<lambda>(a, n) (b, m). region a n \<inter> region b m = {}) (entry_regions ks ke e)"
    using entry_regions_ok [OF _ k, of e] Cons.prems(2) by fastforce+
  have "init_inv (init_entry ks ke e s) \<and> managed (init_entry ks ke e s) \<subseteq> managed s \<union> entry_region e"
    unfolding init_entry_regions
    by (rule mark_regions_ok [OF Cons.prems(1) er(1) _ er(2)]) (use Cons.prems(2) in auto)
  moreover have "entry_region f \<inter> entry_region e = {}" if "f \<in> set es" for f
    using Cons.prems(3) that by auto
  ultimately show ?case using Cons.IH [of "init_entry ks ke e s"] Cons.prems by fastforce
qed simp

lemma pmm_reset_inv: "init_inv (pmm_reset s)" "managed (pmm_reset s) = {}"
proof -
  have "heads (free_lists (pmm_reset s)) = {}" by (auto simp: heads_def pmm_reset_def)
  moreover show m: "managed (pmm_reset s) = {}"
    by (auto simp: managed_def pmm_reset_def reserved_page_def kernel_defs)
  ultimately show "init_inv (pmm_reset s)"
    by (auto simp: init_inv_def lists_ok_def free_frames_def frames_def m)
      (simp_all add: pmm_reset_def)
qed

lemma pmm_init_Some:
  "pmm_init (Some bi) s =
     (let s' = fold (init_entry (fst (kernel_range bi)) (snd (kernel_range bi))) (memory_map bi) (pmm_reset s)
      in s'\<lparr>g_total_pages_snapshot := total_pages s'\<rparr>)"
  by (simp add: pmm_init_def split_beta Let_def)

lemma snapshot_simps [simp]:
  "managed (s\<lparr>g_total_pages_snapshot := x\<rparr>) = managed s"
  "free_frames (s\<lparr>g_total_pages_snapshot := x\<rparr>) = free_frames s"
  by (simp_all add: managed_def free_frames_def)

end
