(* ===== verification/PmmProps.thy ===== *)
theory PmmProps
  imports PmmInit
begin

text \<open>
  The frame-allocator interface that the slab allocator, the page tables and the memory domains
  use, its interpretation on the buddy allocator, runs of allocations and releases, and the
  properties of \<open>pmm.c\<close>.
\<close>

section \<open>The frame-allocator interface\<close>

locale frame_allocator =
  fixes ok :: "'s \<Rightarrow> bool"
    and avail :: "'s \<Rightarrow> nat set"
    and owned :: "'s \<Rightarrow> nat \<Rightarrow> nat \<Rightarrow> bool"
    and alloc :: "int \<Rightarrow> 's \<Rightarrow> nat option \<times> 's"
    and release :: "nat \<Rightarrow> nat \<Rightarrow> 's \<Rightarrow> 's"
  assumes owned_disjoint: "ok s \<Longrightarrow> owned s p k \<Longrightarrow> blk p k \<inter> avail s = {}"
    and alloc_Some: "ok s \<Longrightarrow> alloc order s = (Some p, s') \<Longrightarrow>
      ok s' \<and> owned s' p (nat order) \<and> blk p (nat order) \<subseteq> avail s \<and> avail s' = avail s - blk p (nat order)"
    and alloc_keeps: "ok s \<Longrightarrow> alloc order s = (Some p, s') \<Longrightarrow> owned s q j \<Longrightarrow> owned s' q j"
    and alloc_None: "ok s \<Longrightarrow> alloc order s = (None, s') \<Longrightarrow>
      ok s' \<and> avail s' = avail s \<and> (\<forall>q j. owned s q j \<longrightarrow> owned s' q j)"
    and release_ok: "ok s \<Longrightarrow> owned s p k \<Longrightarrow>
      ok (release p k s) \<and> avail (release p k s) = avail s \<union> blk p k"
    and release_keeps: "ok s \<Longrightarrow> owned s p k \<Longrightarrow> owned s q j \<Longrightarrow> blk p k \<inter> blk q j = {} \<Longrightarrow>
      owned (release p k s) q j"
begin

text \<open>
  The bookkeeping of a client: the list of blocks it holds. All are owned and they are pairwise
  disjoint; every operation keeps that.
\<close>

definition live_ok :: "'s \<Rightarrow> (nat \<times> nat) list \<Rightarrow> bool" where
  "live_ok s bs \<longleftrightarrow> ok s \<and> (\<forall>(p, k) \<in> set bs. owned s p k) \<and>
     sorted_wrt (\<lambda>(p, k) (q, j). blk p k \<inter> blk q j = {}) bs"

lemma live_alloc:
  assumes "live_ok s bs" "alloc order s = (Some p, s')"
  shows "live_ok s' ((p, nat order) # bs)"
proof -
  have s: "ok s" using assms(1) by (simp add: live_ok_def)
  note A = alloc_Some [OF s assms(2)]
  have "blk p (nat order) \<inter> blk q j = {}" if "(q, j) \<in> set bs" for q j
    using that A owned_disjoint [OF s, of q j] assms(1) by (auto simp: live_ok_def)
  then show ?thesis
    using A alloc_keeps [OF s assms(2)] assms(1) by (auto simp: live_ok_def)
qed

lemma live_alloc_None:
  "live_ok s bs \<Longrightarrow> alloc order s = (None, s') \<Longrightarrow> live_ok s' bs"
  using alloc_None [of s order s'] by (auto simp: live_ok_def)

lemma live_release:
  assumes "live_ok s (as @ (p, k) # bs)"
  shows "live_ok (release p k s) (as @ bs)"
proof -
  have s: "ok s" "owned s p k" using assms by (auto simp: live_ok_def)
  have dis: "blk p k \<inter> blk q j = {}" if "(q, j) \<in> set (as @ bs)" for q j
    using that assms by (auto simp: live_ok_def sorted_wrt_append)
  have "owned (release p k s) q j" if "(q, j) \<in> set (as @ bs)" for q j
    using release_keeps [OF s _ dis [OF that]] that assms by (auto simp: live_ok_def)
  then show ?thesis
    using release_ok [OF s] assms by (auto simp: live_ok_def sorted_wrt_append)
qed

lemma live_disjoint:
  assumes "live_ok s bs" "i < length bs" "j < length bs" "i \<noteq> j"
  shows "blk (fst (bs ! i)) (snd (bs ! i)) \<inter> blk (fst (bs ! j)) (snd (bs ! j)) = {}"
proof -
  have "blk (fst (bs ! m)) (snd (bs ! m)) \<inter> blk (fst (bs ! n)) (snd (bs ! n)) = {}"
    if "m < n" "n < length bs" for m n
  proof -
    have "(case bs ! m of (p, k) \<Rightarrow> \<lambda>(q, j). blk p k \<inter> blk q j = {}) (bs ! n)"
      using assms(1) that by (simp add: live_ok_def sorted_wrt_nth_less)
    then show ?thesis by (simp add: split_beta)
  qed
  then show ?thesis using assms(2-4) by (metis Int_commute linorder_neqE_nat)
qed

end

lemma allocated_keeps:
  assumes "allocated s q j" "managed s' = managed s" "blk q j \<inter> free_frames s' = {}"
    "mem_map s' q = mem_map s q"
  shows "allocated s' q j"
  using assms by (auto simp: allocated_def)

lemma pmm_alloc_invalid:
  "\<not> (0 \<le> order \<and> order < int MAX_ORDER) \<Longrightarrow> pmm_alloc_pages order s = (None, s)"
  by (auto simp: pmm_alloc_pages_def)

interpretation pmm: frame_allocator pmm_inv free_frames allocated pmm_alloc_pages
  "\<lambda>p k. pmm_free_pages (Some p) (int k)"
proof
  fix s s' p k q j order
  show "allocated s p k \<Longrightarrow> blk p k \<inter> free_frames s = {}" by (auto simp: allocated_def)
  show "pmm_inv s \<Longrightarrow> pmm_alloc_pages order s = (Some p, s') \<Longrightarrow>
      pmm_inv s' \<and> allocated s' p (nat order) \<and> blk p (nat order) \<subseteq> free_frames s \<and>
      free_frames s' = free_frames s - blk p (nat order)"
    using pmm_alloc_Some [of s order p s'] pmm_alloc_allocated [of s order p s'] pmm_alloc_invalid [of order s]
    by (cases "0 \<le> order \<and> order < int MAX_ORDER") auto
  show "pmm_inv s \<Longrightarrow> pmm_alloc_pages order s = (Some p, s') \<Longrightarrow> allocated s q j \<Longrightarrow> allocated s' q j"
  proof -
    assume a: "pmm_inv s" "pmm_alloc_pages order s = (Some p, s')" "allocated s q j"
    then have o: "0 \<le> order" "order < int MAX_ORDER" using pmm_alloc_invalid [of order s] by auto
    note A = pmm_alloc_Some [OF a(1) o a(2)]
    have "q \<notin> free_frames s" "blk q j \<inter> free_frames s = {}"
      using a(3) blk_mem [of q j] unfolding allocated_def by blast+
    with A show ?thesis by (intro allocated_keeps [OF a(3)]) auto
  qed
  show "pmm_inv s \<Longrightarrow> pmm_alloc_pages order s = (None, s') \<Longrightarrow>
      pmm_inv s' \<and> free_frames s' = free_frames s \<and> (\<forall>q j. allocated s q j \<longrightarrow> allocated s' q j)"
    using pmm_alloc_None(2) [of s order s'] pmm_alloc_invalid [of order s]
    by (cases "0 \<le> order \<and> order < int MAX_ORDER") (auto simp: allocated_def)
  show "pmm_inv s \<Longrightarrow> allocated s p k \<Longrightarrow>
      pmm_inv (pmm_free_pages (Some p) (int k) s) \<and>
      free_frames (pmm_free_pages (Some p) (int k) s) = free_frames s \<union> blk p k"
    using pmm_free_ok [of s p k] by simp
  show "pmm_inv s \<Longrightarrow> allocated s p k \<Longrightarrow> allocated s q j \<Longrightarrow> blk p k \<inter> blk q j = {} \<Longrightarrow>
      allocated (pmm_free_pages (Some p) (int k) s) q j"
  proof -
    assume a: "pmm_inv s" "allocated s p k" "allocated s q j" "blk p k \<inter> blk q j = {}"
    then have "q \<notin> free_frames s \<union> blk p k" "blk q j \<inter> free_frames s = {}"
      using blk_mem [of q j] unfolding allocated_def by blast+
    with a(4) show ?thesis
      using pmm_free_ok [OF a(1,2)] by (intro allocated_keeps [OF a(3)]) auto
  qed
qed

section \<open>Runs\<close>

text \<open>Any interleaving of allocations and of releases of blocks that are held.\<close>

inductive pmm_run :: "pmm_state \<Rightarrow> pmm_state \<times> (nat \<times> nat) list \<Rightarrow> bool" for s0 where
  start: "pmm_run s0 (s0, [])"
| alloc: "pmm_run s0 (s, bs) \<Longrightarrow> pmm_alloc_pages order s = (Some p, s') \<Longrightarrow>
    pmm_run s0 (s', (p, nat order) # bs)"
| alloc_fails: "pmm_run s0 (s, bs) \<Longrightarrow> pmm_alloc_pages order s = (None, s') \<Longrightarrow> pmm_run s0 (s', bs)"
| free: "pmm_run s0 (s, as @ (p, k) # bs) \<Longrightarrow>
    pmm_run s0 (pmm_free_pages (Some p) (int k) s, as @ bs)"

lemma pmm_run_live: "pmm_run s0 c \<Longrightarrow> pmm_inv s0 \<Longrightarrow> pmm.live_ok (fst c) (snd c)"
proof (induction rule: pmm_run.induct)
  case start
  then show ?case by (simp add: pmm.live_ok_def)
qed (auto intro: pmm.live_alloc pmm.live_alloc_None pmm.live_release)

section \<open>A small allocator state for the witnesses\<close>

text \<open>Four managed frames: 0 and 1 are held, 2 and 3 form one free block of order 1.\<close>

definition wit_pmm :: pmm_state where
  "wit_pmm =
     \<lparr>mem_map = (\<lambda>f. if f = 2 then fresh_page\<lparr>pg_order := 1, pg_flags := PG_FREE\<rparr>
                     else if f < 4 then fresh_page else reserved_page),
      free_lists = (\<lambda>k. if k = 1 then [2] else []),
      total_pages = 4, free_count = 2, g_total_pages_snapshot = 4,
      g_pmm_corruption_logged = False, g_reserved_free_rejected = 0, pmm_oom_marks = 0\<rparr>"

lemma wit_pmm_sel:
  "free_lists wit_pmm k = (if k = 1 then [2] else [])"
  "mem_map wit_pmm f = (if f = 2 then fresh_page\<lparr>pg_order := 1, pg_flags := PG_FREE\<rparr>
     else if f < 4 then fresh_page else reserved_page)"
  "total_pages wit_pmm = 4" "free_count wit_pmm = 2" "g_total_pages_snapshot wit_pmm = 4"
  by (simp_all add: wit_pmm_def)

lemma wit_pmm_heads: "heads (free_lists wit_pmm) = {(1, 2)}"
proof (rule set_eqI)
  fix x :: "nat \<times> nat"
  show "(x \<in> heads (free_lists wit_pmm)) = (x \<in> {(1, 2)})"
    by (cases x) (auto simp: heads_def wit_pmm_sel MAX_ORDER_def)
qed

lemma wit_pmm_free: "free_frames wit_pmm = {2, 3}"
  unfolding free_frames_def frames_def wit_pmm_heads by (auto simp: blk_def)

lemma wit_pmm_managed: "managed wit_pmm = {0, 1, 2, 3}"
proof (rule set_eqI)
  fix f :: nat
  show "(f \<in> managed wit_pmm) = (f \<in> {0, 1, 2, 3})"
    by (cases "f < 4")
      (auto simp: managed_def wit_pmm_sel fresh_page_def reserved_page_def PG_FREE_def PG_RESERVED_def MAX_PAGES_def)
qed

lemma wit_pmm_inv: "pmm_inv wit_pmm"
proof -
  have "lists_ok (free_lists wit_pmm) (mem_map wit_pmm)"
    unfolding lists_ok_def wit_pmm_heads
    by (simp add: head_ok_def wit_pmm_sel MAX_PAGES_def)
  then show ?thesis
    by (simp add: pmm_inv_def wit_pmm_free wit_pmm_managed wit_pmm_sel)
qed

lemma wit_pmm_held: "allocated wit_pmm 0 0" "allocated wit_pmm 1 0"
  by (auto simp: allocated_def wit_pmm_free wit_pmm_managed blk_def wit_pmm_sel fresh_page_def
      MAX_ORDER_def MAX_PAGES_def)

lemma wit_pmm_find: "find_order (free_lists wit_pmm) 0 = 1"
  by (subst find_order.simps, subst find_order.simps) (simp add: wit_pmm_sel MAX_ORDER_def)

lemma wit_pmm_alloc: "fst (pmm_alloc_pages 0 wit_pmm) = Some 2"
  by (simp add: pmm_alloc_pages_def pmm_take_def free_list_pop_def Let_def wit_pmm_find wit_pmm_sel
      MAX_ORDER_def MAX_PAGES_def PG_FREE_def)

text \<open>A boot memory map with one usable region below the kernel image's end and one above.\<close>

definition wit_boot :: ob_boot_info where
  "wit_boot = \<lparr>kernel_phys_start = 0x200000, kernel_phys_end = 0x300000,
     memory_map = [\<lparr>e_type = 7, e_physical_start = 0xFFF000, e_number_of_pages = 4\<rparr>,
                   \<lparr>e_type = 7, e_physical_start = 0x2000000, e_number_of_pages = 16\<rparr>]\<rparr>"

section \<open>Properties\<close>



text \<open>
  Whatever the firmware's memory map says, overlapping or not, \<open>pmm_init\<close> never puts a frame
  of the first MiB or of the kernel image (with the 16 MiB floor for its BSS) on a free list.
\<close>

theorem pmm_init_excludes_kernel:
  assumes "0 < kernel_phys_start bi" "kernel_phys_start bi < kernel_phys_end bi"
    and "unat (kernel_phys_end bi) + 0xFFF < 2 ^ 64"
    and "\<forall>e \<in> set (memory_map bi). entry_no_wrap e"
    and "f \<in> free_frames (pmm_init (Some bi) s)"
  shows "0x100000 \<le> f * PAGE_SIZE \<and>
    \<not> (unat (kernel_phys_start bi) \<le> f * PAGE_SIZE + 0xFFF \<and>
       f * PAGE_SIZE < max (unat (kernel_phys_end bi)) 0x1000000)"
proof -
  obtain ks ke where kr: "kernel_range bi = (ks, ke)" by fastforce
  note K = kernel_range_props [OF kr assms(3)]
  have ks: "unat ks = unat (kernel_phys_start bi) div PAGE_SIZE * PAGE_SIZE"
    and ke: "max (unat (kernel_phys_end bi)) 0x1000000 \<le> unat ke"
    using K(3) K(4) [OF assms(1,2)] by auto
  have "free_frames (pmm_reset s) = {}"
    using pmm_reset_inv [of s] by (simp add: init_inv_def)
  then have f: "f \<notin> excluded ks ke"
    using init_entries_sub [OF K(1,2) assms(4), of "pmm_reset s"] assms(5)
    by (auto simp: pmm_init_Some kr Let_def)
  have low: "unat ks \<le> f * PAGE_SIZE" if "unat (kernel_phys_start bi) \<le> f * PAGE_SIZE + 0xFFF"
  proof -
    have "unat (kernel_phys_start bi) div PAGE_SIZE \<le> (f * PAGE_SIZE + 0xFFF) div PAGE_SIZE"
      using that by (rule div_le_mono)
    also have "\<dots> = f" by (simp add: PAGE_SIZE_def)
    finally show ?thesis by (simp add: ks)
  qed
  have "256 * PAGE_SIZE \<le> f * PAGE_SIZE"
    using f by (intro mult_right_mono) (auto simp: excluded_def)
  then have "0x100000 \<le> f * PAGE_SIZE" by (simp add: PAGE_SIZE_def)
  moreover have "\<not> (unat ks \<le> f * PAGE_SIZE \<and> f * PAGE_SIZE < unat ke)"
    using f by (auto simp: excluded_def)
  ultimately show ?thesis using low ke by fastforce
qed

text \<open>The state of a booted machine with that map.\<close>

definition wit_booted :: pmm_state where
  "wit_booted = pmm_init (Some (wit_boot\<lparr>memory_map := [\<lparr>e_type = 7, e_physical_start = 0x2000000,
     e_number_of_pages = 1\<rparr>]\<rparr>)) wit_pmm"

lemma wit_booted_free: "0x2000 \<in> free_frames wit_booted"
proof -
  let ?e = "\<lparr>e_type = 7, e_physical_start = 0x2000000, e_number_of_pages = 1\<rparr> :: ob_memory_entry"
  have "init_entry 0x200000 0x1000000 ?e (pmm_reset wit_pmm) =
      mark_region_usable 0x2000000 1 (pmm_reset wit_pmm)"
    by (simp add: init_entry_def Let_def)
  moreover have "init_inv (mark_region_usable 0x2000000 1 (pmm_reset wit_pmm)) \<and>
      managed (mark_region_usable 0x2000000 1 (pmm_reset wit_pmm)) = region 0x2000000 1"
    using mark_region_ok [of "pmm_reset wit_pmm" "0x2000000" 1, OF pmm_reset_inv(1)]
    by (simp add: no_wrap_def pmm_reset_inv(2) PAGE_SIZE_def)
  moreover have "kernel_range (wit_boot\<lparr>memory_map := es\<rparr>) = (0x200000, 0x1000000)" for es
    by (simp add: kernel_range_def wit_boot_def MIN_KERNEL_END_def)
  ultimately show ?thesis
    by (simp add: wit_booted_def pmm_init_Some Let_def init_inv_def region_def PAGE_SIZE_def MAX_PAGES_def)
qed

lemma pmm_init_excludes_kernel_witness:
  "0x2000 \<in> free_frames wit_booted \<and>
   \<not> (0x200000 \<le> 0x2000 * PAGE_SIZE + 0xFFF \<and> 0x2000 * PAGE_SIZE < 0x1000000)"
proof -
  let ?b = "wit_boot\<lparr>memory_map := [\<lparr>e_type = 7, e_physical_start = 0x2000000, e_number_of_pages = 1\<rparr>]\<rparr>"
  have "0 < kernel_phys_start ?b" "kernel_phys_start ?b < kernel_phys_end ?b"
    "unat (kernel_phys_end ?b) + 0xFFF < 2 ^ 64" "\<forall>e \<in> set (memory_map ?b). entry_no_wrap e"
    by (simp_all add: wit_boot_def no_wrap_def PAGE_SIZE_def)
  from pmm_init_excludes_kernel [OF this wit_booted_free [unfolded wit_booted_def]] wit_booted_free
  show ?thesis by (simp add: wit_boot_def)
qed

text \<open>
  C2. \<open>pmm_alloc_pages\<close>, in a state that satisfies the invariant: it fails exactly when no list of
  the order or above has a block (and then only marks a victim); otherwise it returns an aligned block
  of \<open>2 ^ order\<close> frames that were all free, takes exactly these off the lists, keeps the invariant,
  touches no header of a frame that was not free, and leaves a block that can be released.
\<close>

theorem pmm_alloc_correct:
  assumes inv: "pmm_inv s" and o: "0 \<le> order" "order < int MAX_ORDER"
  shows "case pmm_alloc_pages order s of
      (None, s') \<Rightarrow> (\<forall>k. nat order \<le> k \<and> k < MAX_ORDER \<longrightarrow> free_lists s k = []) \<and>
        s' = s\<lparr>pmm_oom_marks := Suc (pmm_oom_marks s)\<rparr>
    | (Some p, s') \<Rightarrow> pmm_inv s' \<and> 2 ^ nat order dvd p \<and> blk p (nat order) \<subseteq> free_frames s \<and>
        free_frames s' = free_frames s - blk p (nat order) \<and> managed s' = managed s \<and>
        (\<forall>f. f \<notin> free_frames s \<longrightarrow> mem_map s' f = mem_map s f) \<and> allocated s' p (nat order)"
proof (cases "pmm_alloc_pages order s")
  case (Pair r s')
  show ?thesis
  proof (cases r)
    case None
    then show ?thesis
      using Pair pmm_alloc_None [OF inv o] by (simp add: oom_marked_def)
  next
    case (Some p)
    then have a: "pmm_alloc_pages order s = (Some p, s')" using Pair by simp
    show ?thesis
      using Pair Some pmm_alloc_Some [OF inv o a] pmm_alloc_allocated [OF inv o a] by simp
  qed
qed

lemma pmm_alloc_correct_witness:
  "pmm_inv wit_pmm \<and> pmm_inv (snd (pmm_alloc_pages 0 wit_pmm)) \<and>
   free_frames (snd (pmm_alloc_pages 0 wit_pmm)) = {3}"
proof -
  obtain s' where a: "pmm_alloc_pages 0 wit_pmm = (Some 2, s')"
    using wit_pmm_alloc by (metis prod.collapse)
  have "{2, 3} - blk 2 0 = {3}" by (auto simp: blk_def)
  then show ?thesis
    using pmm_alloc_correct [OF wit_pmm_inv, of 0] a by (simp add: wit_pmm_inv wit_pmm_free MAX_ORDER_def)
qed

text \<open>
  C3. \<open>pmm_free_pages\<close> of a held block, whatever coalescing it sets off: the invariant is kept,
  exactly the block's frames become free, and no header of another held frame changes.
\<close>

theorem pmm_free_correct:
  assumes "pmm_inv s" "allocated s p k"
  shows "pmm_inv (pmm_free_pages (Some p) (int k) s) \<and>
    free_frames (pmm_free_pages (Some p) (int k) s) = free_frames s \<union> blk p k \<and>
    managed (pmm_free_pages (Some p) (int k) s) = managed s \<and>
    (\<forall>f. f \<notin> free_frames s \<union> blk p k \<longrightarrow>
       mem_map (pmm_free_pages (Some p) (int k) s) f = mem_map s f)"
  using pmm_free_ok [OF assms] by simp

lemma pmm_free_correct_witness:
  "pmm_inv wit_pmm \<and> allocated wit_pmm 0 0 \<and>
   free_frames (pmm_free_pages (Some 0) 0 wit_pmm) = {0, 2, 3}"
  using pmm_free_correct [OF wit_pmm_inv wit_pmm_held(1)] wit_pmm_inv wit_pmm_held(1)
  by (auto simp: wit_pmm_free blk_def)

text \<open>
  C4. In every interleaving of allocations and releases that starts from a state satisfying the
  invariant (so, from boot), the blocks held are pairwise disjoint, and none of their frames is on a
  free list.
\<close>

theorem pmm_run_blocks_disjoint:
  assumes "pmm_run s0 (s, bs)" "pmm_inv s0"
    and "i < length bs" "j < length bs" "i \<noteq> j"
  shows "blk (fst (bs ! i)) (snd (bs ! i)) \<inter> blk (fst (bs ! j)) (snd (bs ! j)) = {} \<and>
    blk (fst (bs ! i)) (snd (bs ! i)) \<inter> free_frames s = {}"
proof -
  have L: "pmm.live_ok s bs" using pmm_run_live [OF assms(1,2)] by simp
  then have "allocated s (fst (bs ! i)) (snd (bs ! i))"
    using assms(3) by (auto simp: pmm.live_ok_def split_beta)
  with pmm.live_disjoint [OF L assms(3-5)] show ?thesis by (auto simp: allocated_def)
qed

lemma wit_pmm_run:
  obtains s' where "pmm_run wit_pmm (s', [(3, 0), (2, 0)])"
proof -
  obtain s1 where a: "pmm_alloc_pages 0 wit_pmm = (Some 2, s1)"
    using wit_pmm_alloc by (metis prod.collapse)
  have s1: "pmm_inv s1" "free_frames s1 = {3}"
    using pmm_alloc_correct_witness a by auto
  have "fst (pmm_alloc_pages 0 s1) \<noteq> None"
  proof
    assume "fst (pmm_alloc_pages 0 s1) = None"
    then have "\<forall>k < MAX_ORDER. free_lists s1 k = []"
      using pmm_alloc_None(1) [OF s1(1), of 0] by (simp add: MAX_ORDER_def)
    then have "free_frames s1 = {}" by (auto simp: free_frames_def frames_def heads_def)
    with s1(2) show False by simp
  qed
  then obtain p s2 where b: "pmm_alloc_pages 0 s1 = (Some p, s2)" by (cases "pmm_alloc_pages 0 s1") auto
  have "blk p 0 \<subseteq> {3}" using pmm_alloc_Some(4) [OF s1(1) _ _ b] s1(2) by (simp add: MAX_ORDER_def)
  then have "p = 3" by (simp add: blk_def)
  with b pmm_run.alloc [OF pmm_run.alloc [OF pmm_run.start a]] have "pmm_run wit_pmm (s2, [(3, 0), (2, 0)])"
    by fastforce
  then show ?thesis by (rule that)
qed

lemma pmm_run_blocks_disjoint_witness:
  "\<exists>s'. pmm_run wit_pmm (s', [(3, 0), (2, 0)]) \<and> blk 3 0 \<inter> blk 2 0 = {} \<and> blk 3 0 \<inter> free_frames s' = {}"
proof -
  obtain s' where r: "pmm_run wit_pmm (s', [(3, 0), (2, 0)])" by (rule wit_pmm_run)
  from pmm_run_blocks_disjoint [OF r wit_pmm_inv, of 0 1] r show ?thesis by auto
qed

end
