(* ===== verification/Slab.thy ===== *)
theory Slab
  imports PmmProps
begin

text \<open>
  The slab allocator (\<open>slab.c\<close>) and the general allocator on top of it (\<open>kmalloc.c\<close>).

  A cache is its index in \<open>g_cache_pool\<close>; the intrusive list \<open>c->partial\<close> of slab pages is a list
  of frame numbers, and the chain of free objects of a slab, threaded through the objects
  themselves, is the list \<open>pg_slab_free\<close> of their addresses. \<open>km_bytes\<close> is memory as the holders of
  the objects see it (only \<open>kzalloc\<close> writes it here). A \<open>size_t\<close> is a 64-bit word, so that the
  round-up wraps as in the code; an address is a natural number (physical memory ends at
  \<open>MAX_PAGES * PAGE_SIZE\<close>), 0 for NULL.
\<close>

section \<open>State\<close>

definition SLAB_MAX_NAME :: nat where [kernel_defs]: "SLAB_MAX_NAME = 32"
definition SLAB_MAX_CACHES :: nat where [kernel_defs]: "SLAB_MAX_CACHES = 64"
definition SLAB_MAGIC :: u32 where "SLAB_MAGIC = 0x534C4142"

record kmem_cache =
  c_name :: string
  c_object_size :: u64
  c_objects_per_slab :: u64
  c_slab_order :: nat
  c_partial :: "nat list"
  c_magic :: u32

record slab_state =
  km_pmm :: pmm_state
  g_cache_pool :: "nat \<Rightarrow> kmem_cache"
  g_cache_count :: nat
  g_slab_inited :: bool
  class_cache :: "nat \<Rightarrow> nat option"
  km_bytes :: "nat \<Rightarrow> u8"

definition upd_cache :: "nat \<Rightarrow> (kmem_cache \<Rightarrow> kmem_cache) \<Rightarrow> slab_state \<Rightarrow> slab_state" where
  "upd_cache c f s = s\<lparr>g_cache_pool := (g_cache_pool s)(c := f (g_cache_pool s c))\<rparr>"

definition upd_slab_page :: "nat \<Rightarrow> (page \<Rightarrow> page) \<Rightarrow> slab_state \<Rightarrow> slab_state" where
  "upd_slab_page pg f s = s\<lparr>km_pmm := upd_page pg f (km_pmm s)\<rparr>"

abbreviation page_of :: "slab_state \<Rightarrow> nat \<Rightarrow> page" where
  "page_of s pg \<equiv> mem_map (km_pmm s) pg"

section \<open>Caches\<close>

definition slab_init :: "slab_state \<Rightarrow> slab_state" where
  "slab_init s =
     (if g_slab_inited s then s
      else s\<lparr>g_cache_count := 0,
             g_cache_pool := (\<lambda>i. if i < SLAB_MAX_CACHES then (g_cache_pool s i)\<lparr>c_magic := 0\<rparr>
                                  else g_cache_pool s i),
             g_slab_inited := True\<rparr>)"

definition round_up :: "u64 \<Rightarrow> u64 \<Rightarrow> u64" where
  "round_up v a = (let a = (if a = 0 then 8 else a) in (v + a - 1) AND NOT (a - 1))"

text \<open>\<open>src\<close> is NULL or a string.\<close>

definition str_copy_trunc :: "string option \<Rightarrow> nat \<Rightarrow> string" where
  "str_copy_trunc src n = (case src of None \<Rightarrow> [] | Some cs \<Rightarrow> take (n - 1) cs)"

text \<open>The loop over the orders; \<open>None\<close> is the return value -1.\<close>

function layout_loop :: "u64 \<Rightarrow> nat \<Rightarrow> (u64 \<times> nat) option" where
  "layout_loop min_obj order =
     (if order < MAX_ORDER then
        let bytes = push_bit order (of_nat PAGE_SIZE :: u64); nobj = bytes div min_obj
        in if nobj \<ge> 2 then Some (nobj, order) else layout_loop min_obj (Suc order)
      else None)"
  by pat_completeness auto
termination
  by (relation "measure (\<lambda>(m, order). MAX_ORDER - order)") auto

declare layout_loop.simps [simp del]

definition calc_layout :: "u64 \<Rightarrow> (u64 \<times> nat) option" where
  "calc_layout obj_size = layout_loop (if obj_size < 8 then 8 else obj_size) 0"

definition kmem_cache_create :: "string option \<Rightarrow> u64 \<Rightarrow> u64 \<Rightarrow> slab_state \<Rightarrow> nat option \<times> slab_state" where
  "kmem_cache_create name sz align s =
     (let s = (if \<not> g_slab_inited s then slab_init s else s) in
      if sz = 0 then (None, s)
      else if g_cache_count s \<ge> SLAB_MAX_CACHES then (None, s)
      else
        let a = (if align < 8 then 8 else align);
            osz = round_up sz a;
            osz = (if osz < 8 then 8 else osz)
        in case calc_layout osz of
             None \<Rightarrow> (None, s)
           | Some (nobj, order) \<Rightarrow>
               let c = g_cache_count s
               in (Some c,
                   s\<lparr>g_cache_count := Suc c,
                     g_cache_pool := (g_cache_pool s)(c :=
                       \<lparr>c_name = str_copy_trunc name SLAB_MAX_NAME, c_object_size = osz,
                        c_objects_per_slab = nobj, c_slab_order = order, c_partial = [],
                        c_magic = SLAB_MAGIC\<rparr>)\<rparr>))"

section \<open>Objects\<close>

text \<open>The chain that \<open>slab_new\<close> threads through a fresh slab, from the first object to the last.\<close>

fun slab_chain :: "nat \<Rightarrow> nat \<Rightarrow> nat \<Rightarrow> nat list \<Rightarrow> nat list" where
  "slab_chain base osz 0 head = head"
| "slab_chain base osz (Suc i) head = slab_chain base osz i ((base + i * osz) # head)"

definition slab_new :: "nat \<Rightarrow> slab_state \<Rightarrow> nat option \<times> slab_state" where
  "slab_new c s =
     (let cc = g_cache_pool s c in
      case pmm_alloc_pages (int (c_slab_order cc)) (km_pmm s) of
        (None, m) \<Rightarrow> (None, s\<lparr>km_pmm := m\<rparr>)
      | (Some pg, m) \<Rightarrow>
          let head = slab_chain (page_to_phys pg) (unat (c_object_size cc)) (unat (c_objects_per_slab cc)) []
          in (Some pg, s\<lparr>km_pmm := upd_page pg
                (\<lambda>h. h\<lparr>pg_flags := pg_flags h OR PG_SLAB, pg_slab_cache := Some c, pg_slab_free := head,
                       pg_refcount := 0\<rparr>) m\<rparr>))"

definition partial_remove :: "nat \<Rightarrow> nat \<Rightarrow> slab_state \<Rightarrow> slab_state" where
  "partial_remove c pg s = upd_cache c (\<lambda>cc. cc\<lparr>c_partial := remove1 pg (c_partial cc)\<rparr>) s"

text \<open>
  Popping an object off the first partial slab. The code reads \<open>*(void **)obj\<close> of the head of the
  chain; a partial slab with an empty chain, which the invariant excludes, would be a NULL
  dereference and is not reached.
\<close>

definition slab_pop :: "nat \<Rightarrow> nat \<Rightarrow> slab_state \<Rightarrow> nat \<times> slab_state" where
  "slab_pop c pg s =
     (let obj = hd (pg_slab_free (page_of s pg));
          s = upd_slab_page pg (\<lambda>h. h\<lparr>pg_slab_free := tl (pg_slab_free h), pg_refcount := pg_refcount h + 1\<rparr>) s;
          s = (if ucast (pg_refcount (page_of s pg)) \<ge> c_objects_per_slab (g_cache_pool s c)
               then partial_remove c pg s else s)
      in (obj, s))"

definition kmem_cache_alloc :: "nat option \<Rightarrow> slab_state \<Rightarrow> nat \<times> slab_state" where
  "kmem_cache_alloc co s =
     (case co of
        None \<Rightarrow> (0, s)
      | Some c \<Rightarrow>
          if c_magic (g_cache_pool s c) \<noteq> SLAB_MAGIC then (0, s)
          else case c_partial (g_cache_pool s c) of
            pg # _ \<Rightarrow> slab_pop c pg s
          | [] \<Rightarrow>
              (case slab_new c s of
                 (None, s) \<Rightarrow> (0, s)
               | (Some pg, s) \<Rightarrow>
                   slab_pop c pg (upd_cache c (\<lambda>cc. cc\<lparr>c_partial := pg # c_partial cc\<rparr>) s)))"

text \<open>The page goes back to the buddy allocator (the last part of \<open>kmem_cache_free\<close> and of \<open>kmem_cache_destroy\<close>).\<close>

definition slab_release :: "nat \<Rightarrow> nat \<Rightarrow> slab_state \<Rightarrow> slab_state" where
  "slab_release c pg s =
     (let s = upd_slab_page pg (\<lambda>h. h\<lparr>pg_flags := pg_flags h AND NOT PG_SLAB, pg_slab_cache := None,
                                      pg_slab_free := [], pg_refcount := 0\<rparr>) s
      in s\<lparr>km_pmm := pmm_free_pages (Some pg) (int (c_slab_order (g_cache_pool s c))) (km_pmm s)\<rparr>)"

definition kmem_cache_free :: "nat option \<Rightarrow> nat \<Rightarrow> slab_state \<Rightarrow> slab_state" where
  "kmem_cache_free co obj s =
     (case co of
        None \<Rightarrow> s
      | Some c \<Rightarrow>
          if c_magic (g_cache_pool s c) \<noteq> SLAB_MAGIC \<or> obj = 0 then s
          else
            let pg = phys_to_page obj in
            if pg_flags (page_of s pg) AND PG_SLAB = 0 \<or> pg_slab_cache (page_of s pg) \<noteq> Some c then s
            else
              let was_full = (ucast (pg_refcount (page_of s pg)) \<ge> c_objects_per_slab (g_cache_pool s c));
                  s = upd_slab_page pg (\<lambda>h. h\<lparr>pg_slab_free := obj # pg_slab_free h,
                                              pg_refcount := pg_refcount h - 1\<rparr>) s;
                  s = (if was_full then upd_cache c (\<lambda>cc. cc\<lparr>c_partial := pg # c_partial cc\<rparr>) s else s)
              in if pg_refcount (page_of s pg) = 0 \<and> c_partial (g_cache_pool s c) \<noteq> [pg]
                 then slab_release c pg (partial_remove c pg s)
                 else s)"

definition kmem_cache_destroy :: "nat option \<Rightarrow> slab_state \<Rightarrow> slab_state" where
  "kmem_cache_destroy co s =
     (case co of
        None \<Rightarrow> s
      | Some c \<Rightarrow>
          if c_magic (g_cache_pool s c) \<noteq> SLAB_MAGIC then s
          else
            let pgs = c_partial (g_cache_pool s c);
                s = upd_cache c (\<lambda>cc. cc\<lparr>c_partial := []\<rparr>) s;
                s = fold (slab_release c) pgs s
            in upd_cache c (\<lambda>cc. cc\<lparr>c_magic := 0\<rparr>) s)"

definition slab_cache_count :: "slab_state \<Rightarrow> nat" where
  "slab_cache_count s = g_cache_count s"

text \<open>The caches that \<open>slab_walk\<close> hands to its callback, in order.\<close>

definition slab_walk :: "slab_state \<Rightarrow> kmem_cache list" where
  "slab_walk s = filter (\<lambda>c. c_magic c = SLAB_MAGIC) (map (g_cache_pool s) [0..<g_cache_count s])"

section \<open>\<open>kmalloc.c\<close>\<close>

definition class_sizes :: "u64 list" where
  "class_sizes = [8, 16, 32, 64, 128, 256, 512, 1024, 2048]"

definition NUM_CLASSES :: nat where "NUM_CLASSES = 9"

text \<open>The loop over the classes; \<open>None\<close> is the return value -1.\<close>

function class_loop :: "u64 \<Rightarrow> nat \<Rightarrow> nat option" where
  "class_loop sz i =
     (if i < NUM_CLASSES then if sz \<le> class_sizes ! i then Some i else class_loop sz (Suc i) else None)"
  by pat_completeness auto
termination
  by (relation "measure (\<lambda>(sz, i). NUM_CLASSES - i)") auto

declare class_loop.simps [simp del]

definition class_of :: "u64 \<Rightarrow> nat option" where
  "class_of sz = class_loop sz 0"

definition class_name :: "nat \<Rightarrow> string" where
  "class_name i = take (SLAB_MAX_NAME - 1) (''kmalloc-'' @ dec_string (unat (class_sizes ! i)))"

text \<open>The body of the loop of \<open>kmalloc_init\<close>.\<close>

definition class_create :: "nat \<Rightarrow> slab_state \<Rightarrow> slab_state" where
  "class_create i s =
     (let (c, s) = kmem_cache_create (Some (class_name i)) (class_sizes ! i) 8 s
      in s\<lparr>class_cache := (class_cache s)(i := c)\<rparr>)"

definition kmalloc_init :: "slab_state \<Rightarrow> slab_state" where
  "kmalloc_init s = fold class_create [0..<NUM_CLASSES] (slab_init s)"

text \<open>A whole page outside the slab system (\<open>kmalloc\<close> above 2048 bytes, \<open>kmalloc_aligned\<close>).\<close>

definition plain_page :: "slab_state \<Rightarrow> nat option \<times> slab_state" where
  "plain_page s =
     (case pmm_alloc_pages 0 (km_pmm s) of
        (None, m) \<Rightarrow> (None, s\<lparr>km_pmm := m\<rparr>)
      | (Some pg, m) \<Rightarrow>
          (Some pg, s\<lparr>km_pmm := upd_page pg (\<lambda>h. h\<lparr>pg_flags := pg_flags h AND NOT PG_SLAB,
                                  pg_slab_cache := None, pg_slab_free := []\<rparr>) m\<rparr>))"

definition kmalloc :: "u64 \<Rightarrow> slab_state \<Rightarrow> nat \<times> slab_state" where
  "kmalloc sz s =
     (if sz = 0 then (0, s)
      else case class_of sz of
        Some ci \<Rightarrow> kmem_cache_alloc (class_cache s ci) s
      | None \<Rightarrow>
          if sz > of_nat PAGE_SIZE then (0, s)
          else case plain_page s of
            (None, s) \<Rightarrow> (0, s)
          | (Some pg, s) \<Rightarrow> (page_to_phys pg, s))"

definition kzalloc :: "u64 \<Rightarrow> slab_state \<Rightarrow> nat \<times> slab_state" where
  "kzalloc sz s =
     (let (p, s) = kmalloc sz s in
      if p = 0 then (0, s)
      else (p, s\<lparr>km_bytes := (\<lambda>a. if p \<le> a \<and> a < p + unat sz then 0 else km_bytes s a)\<rparr>))"

definition kfree :: "nat \<Rightarrow> slab_state \<Rightarrow> slab_state" where
  "kfree ptr s =
     (if ptr = 0 then s
      else
        let pg = phys_to_page ptr in
        if pg_flags (page_of s pg) AND PG_SLAB \<noteq> 0 then
          case pg_slab_cache (page_of s pg) of
            None \<Rightarrow> s
          | Some c \<Rightarrow> kmem_cache_free (Some c) ptr s
        else s\<lparr>km_pmm := pmm_free_pages (Some pg) (int (pg_order (page_of s pg))) (km_pmm s)\<rparr>)"

definition kmalloc_aligned :: "u64 \<Rightarrow> u64 \<Rightarrow> slab_state \<Rightarrow> nat \<times> slab_state" where
  "kmalloc_aligned sz align s =
     (if align \<le> 16 then kmalloc sz s
      else if sz + align > of_nat PAGE_SIZE then (0, s)
      else case plain_page s of
        (None, s) \<Rightarrow> (0, s)
      | (Some pg, s) \<Rightarrow>
          (let phys = of_nat (page_to_phys pg) :: u64
           in (unat ((phys + align - 1) AND NOT (align - 1)), s)))"

end
