(* ===== verification/SlabCorrect.thy ===== *)
theory SlabCorrect
  imports Slab
begin

text \<open>
  Correctness of the slab allocator: the layout of a cache, the invariant that ties the slab pages,
  their chains of free objects and the partial lists to the buddy allocator, and the set of live
  objects as the abstract state.
\<close>

section \<open>Layout\<close>

definition layout_ok :: "kmem_cache \<Rightarrow> bool" where
  "layout_ok cc \<longleftrightarrow>
     c_slab_order cc < MAX_ORDER \<and> 8 \<le> unat (c_object_size cc) \<and> 2 \<le> unat (c_objects_per_slab cc) \<and>
     unat (c_objects_per_slab cc) * unat (c_object_size cc) \<le> PAGE_SIZE * 2 ^ c_slab_order cc"

definition objs :: "kmem_cache \<Rightarrow> nat \<Rightarrow> nat set" where
  "objs cc pg = (\<lambda>i. page_to_phys pg + i * unat (c_object_size cc)) ` {..<unat (c_objects_per_slab cc)}"

definition extent :: "kmem_cache \<Rightarrow> nat \<Rightarrow> nat set" where
  "extent cc a = {a..<a + unat (c_object_size cc)}"

lemma layout_objects: "layout_ok cc \<Longrightarrow> unat (c_objects_per_slab cc) < 2 ^ 32"
proof -
  assume a: "layout_ok cc"
  have "2 ^ c_slab_order cc \<le> (2::nat) ^ 9" using a by (intro power_increasing) (auto simp: layout_ok_def kernel_defs)
  then have "unat (c_objects_per_slab cc) * unat (c_object_size cc) \<le> 4096 * 512"
    using a by (simp add: layout_ok_def PAGE_SIZE_def)
  then have "unat (c_objects_per_slab cc) * unat (c_object_size cc) \<le> 2097152" by simp
  moreover have "(2097152::nat) < 2 ^ 32" by simp
  moreover have "unat (c_objects_per_slab cc) * 8 \<le> unat (c_objects_per_slab cc) * unat (c_object_size cc)"
    using a by (intro mult_left_mono) (simp_all add: layout_ok_def)
  ultimately show ?thesis by linarith
qed

lemma objs_in_block:
  assumes "layout_ok cc" "a \<in> objs cc pg"
  shows "page_to_phys pg \<le> a" "a + unat (c_object_size cc) \<le> page_to_phys (pg + 2 ^ c_slab_order cc)"
    "phys_to_page a \<in> blk pg (c_slab_order cc)"
proof -
  obtain i where i: "i < unat (c_objects_per_slab cc)" "a = page_to_phys pg + i * unat (c_object_size cc)"
    using assms(2) by (auto simp: objs_def)
  then show lo: "page_to_phys pg \<le> a" by simp
  have "Suc i * unat (c_object_size cc) \<le> unat (c_objects_per_slab cc) * unat (c_object_size cc)"
    using i by (intro mult_right_mono) auto
  then show hi: "a + unat (c_object_size cc) \<le> page_to_phys (pg + 2 ^ c_slab_order cc)"
    using assms(1) i by (simp add: layout_ok_def page_to_phys_def algebra_simps)
  have "a < page_to_phys (pg + 2 ^ c_slab_order cc)" using hi assms(1) by (simp add: layout_ok_def)
  then have "a div PAGE_SIZE < pg + 2 ^ c_slab_order cc"
    by (simp add: page_to_phys_def div_less_iff_less_mult PAGE_SIZE_def)
  moreover have "pg \<le> a div PAGE_SIZE"
    using div_le_mono [OF lo, of PAGE_SIZE] by (simp add: page_to_phys_def PAGE_SIZE_def)
  ultimately show "phys_to_page a \<in> blk pg (c_slab_order cc)"
    by (simp add: blk_def phys_to_page_def)
qed

lemma extents_disjoint_same:
  assumes "layout_ok cc" "a \<in> objs cc pg" "b \<in> objs cc pg" "a \<noteq> b"
  shows "extent cc a \<inter> extent cc b = {}"
proof -
  let ?z = "unat (c_object_size cc)"
  have *: "extent cc (p + i * ?z) \<inter> extent cc (p + j * ?z) = {}" if "i < j" for i j p
  proof -
    have "Suc i * ?z \<le> j * ?z" using that by (intro mult_right_mono) auto
    then show ?thesis by (auto simp: extent_def)
  qed
  obtain i j where ij: "a = page_to_phys pg + i * ?z" "b = page_to_phys pg + j * ?z"
    using assms(2,3) by (auto simp: objs_def)
  then have "i \<noteq> j" using assms(4) by auto
  then show ?thesis using * [of i j] * [of j i] ij by (metis Int_commute linorder_neqE_nat)
qed

lemma extents_disjoint_blocks:
  assumes "layout_ok cc" "layout_ok dd" "a \<in> objs cc pg" "b \<in> objs dd q"
    and "blk pg (c_slab_order cc) \<inter> blk q (c_slab_order dd) = {}"
  shows "extent cc a \<inter> extent dd b = {}"
proof -
  have "pg + 2 ^ c_slab_order cc \<le> q \<or> q + 2 ^ c_slab_order dd \<le> pg"
  proof (rule ccontr)
    assume n: "\<not> ?thesis"
    then have "max pg q \<in> blk pg (c_slab_order cc) \<inter> blk q (c_slab_order dd)" by (auto simp: blk_def max_def)
    then show False using assms(5) by blast
  qed
  then have "page_to_phys (pg + 2 ^ c_slab_order cc) \<le> page_to_phys q \<or>
      page_to_phys (q + 2 ^ c_slab_order dd) \<le> page_to_phys pg"
    unfolding page_to_phys_def by (auto intro: mult_right_mono)
  then show ?thesis
    using objs_in_block(1,2) [OF assms(1,3)] objs_in_block(1,2) [OF assms(2,4)]
    by (auto simp: extent_def)
qed

lemma slab_chain_eq:
  "slab_chain base osz n head = map (\<lambda>i. base + i * osz) [0..<n] @ head"
  by (induction n arbitrary: head) auto

lemma slab_chain_objs:
  assumes "layout_ok cc"
  shows "set (slab_chain (page_to_phys pg) (unat (c_object_size cc)) (unat (c_objects_per_slab cc)) []) = objs cc pg"
    "distinct (slab_chain (page_to_phys pg) (unat (c_object_size cc)) (unat (c_objects_per_slab cc)) [])"
    "length (slab_chain (page_to_phys pg) (unat (c_object_size cc)) (unat (c_objects_per_slab cc)) []) =
       unat (c_objects_per_slab cc)"
  using assms by (auto simp: slab_chain_eq objs_def distinct_map inj_on_def layout_ok_def atLeast0LessThan)

section \<open>What the buddy allocator does to page flags\<close>

lemma split_loop_flags:
  "mem_map (split_loop p k n m) f = mem_map m f \<or> pg_flags (mem_map (split_loop p k n m) f) = PG_FREE"
proof (induction n arbitrary: m)
  case (Suc n)
  show ?case
    using Suc.IH [of "free_list_push n (buddy_of p n) m"]
    by (auto simp: free_list_push_def upd_page_def split: if_splits)
qed simp

lemma free_list_pop_flags:
  "free_list_pop k m = (r, m') \<Longrightarrow> mem_map m' f = mem_map m f \<or> pg_flags (mem_map m' f) = 0"
  by (auto simp: free_list_pop_def upd_page_def split: option.splits prod.splits)

lemma pmm_take_flags:
  assumes "pmm_take order k m = (r, m')"
  shows "mem_map m' f = mem_map m f \<or> pg_flags (mem_map m' f) \<in> {0, PG_FREE}"
proof -
  obtain r1 m1 where p: "free_list_pop k m = (r1, m1)" by fastforce
  note F = free_list_pop_flags [OF p, of f]
  show ?thesis
  proof (cases r1)
    case None
    then show ?thesis using assms p F by (auto simp: pmm_take_def)
  next
    case (Some q)
    then show ?thesis using assms p F split_loop_flags [of q order k m1 f]
      by (auto simp: pmm_take_def Let_def upd_page_def split: if_splits)
  qed
qed

lemma pmm_alloc_flags:
  assumes "pmm_alloc_pages order m = (r, m')"
  shows "mem_map m' f = mem_map m f \<or> pg_flags (mem_map m' f) \<in> {0, PG_FREE}"
  using assms pmm_take_flags [of "nat order" "find_order (free_lists m) (nat order)" m r m' f]
    pmm_take_flags [of "nat order" "find_order (free_lists m) (nat order)"
        "m\<lparr>pmm_oom_marks := Suc (pmm_oom_marks m)\<rparr>" r m' f]
  by (auto simp: pmm_alloc_pages_def Let_def split: if_splits)

lemma merge_loop_map: "mem_map (snd (snd (merge_loop p k m))) = mem_map m"
proof (induction p k m rule: merge_loop.induct)
  case (1 p k m)
  show ?case
    by (subst merge_loop.simps) (use "1.IH" in \<open>auto simp: Let_def split: if_splits\<close>)
qed

lemma pmm_release_flags:
  "mem_map (pmm_release p k m) f = mem_map m f \<or> pg_flags (mem_map (pmm_release p k m) f) = PG_FREE"
  using merge_loop_map [of p k m]
  by (cases "merge_loop p k m")
    (auto simp: pmm_release_def Let_def free_list_push_def upd_page_def split: if_splits)

lemma pmm_free_flags:
  "mem_map (pmm_free_pages p k m) f = mem_map m f \<or> pg_flags (mem_map (pmm_free_pages p k m) f) = PG_FREE"
  using pmm_release_flags [of "the p" "nat k" m f]
  by (auto simp: pmm_free_pages_def split: option.splits)

text \<open>A header of a frame that is not free can change in the slab fields without the buddy allocator noticing.\<close>

definition slab_only :: "(page \<Rightarrow> page) \<Rightarrow> bool" where
  "slab_only f \<longleftrightarrow> (\<forall>h. pg_order (f h) = pg_order h \<and> pg_flags (f h) AND PG_FREE = pg_flags h AND PG_FREE \<and>
     pg_flags (f h) AND PG_RESERVED = pg_flags h AND PG_RESERVED)"

lemma upd_held [simp]:
  "free_frames (upd_page pg f m) = free_frames m"
  "free_lists (upd_page pg f m) = free_lists m"
  by (simp_all add: upd_page_def free_frames_def)

lemma upd_page_sel [simp]:
  "free_count (upd_page pg f m) = free_count m" "total_pages (upd_page pg f m) = total_pages m"
  "g_total_pages_snapshot (upd_page pg f m) = g_total_pages_snapshot m"
  "mem_map (upd_page pg f m) = (mem_map m)(pg := f (mem_map m pg))"
  by (simp_all add: upd_page_def)

lemma upd_held_managed: "slab_only f \<Longrightarrow> managed (upd_page pg f m) = managed m"
  by (auto simp: slab_only_def managed_def upd_page_def split: if_splits)

lemma upd_held_inv:
  assumes "pmm_inv m" "pg \<notin> free_frames m" "slab_only f"
  shows "pmm_inv (upd_page pg f m)"
proof -
  have "head_ok (mem_map (upd_page pg f m)) k p = head_ok (mem_map m) k p" if "(k, p) \<in> heads (free_lists m)" for k p
  proof -
    have "p \<in> free_frames m" using that by (auto simp: free_frames_def frames_def intro!: bexI [of _ "(k, p)"])
    then show ?thesis using assms(2) by (auto simp: head_ok_def upd_page_def)
  qed
  then have "lists_ok (free_lists m) (mem_map (upd_page pg f m))"
    using assms(1) by (auto simp: pmm_inv_def lists_ok_def)
  then show ?thesis
    using assms(1) upd_held_managed [OF assms(3), of pg m] by (simp add: pmm_inv_def)
qed

lemma upd_held_allocated:
  "slab_only f \<Longrightarrow> allocated (upd_page pg f m) q k = allocated m q k"
proof -
  assume f: "slab_only f"
  have "pg_order (mem_map (upd_page pg f m) q) = pg_order (mem_map m q)"
    "pg_flags (mem_map (upd_page pg f m) q) AND PG_FREE = pg_flags (mem_map m q) AND PG_FREE"
    using f by (simp_all add: slab_only_def)
  then show ?thesis using upd_held_managed [OF f, of pg m] by (simp only: allocated_def upd_held)
qed

lemma flags_slab_bits:
  "(x OR PG_SLAB) AND PG_FREE = x AND PG_FREE" "(x OR PG_SLAB) AND PG_RESERVED = x AND PG_RESERVED"
  "(x OR PG_SLAB) AND PG_SLAB \<noteq> 0"
  "(x AND NOT PG_SLAB) AND PG_FREE = x AND PG_FREE" "(x AND NOT PG_SLAB) AND PG_RESERVED = x AND PG_RESERVED"
  "(x AND NOT PG_SLAB) AND PG_SLAB = 0" "PG_FREE AND PG_SLAB = 0" "PG_SLAB \<noteq> 0"
proof -
  have d: "PG_SLAB AND PG_FREE = 0" "PG_SLAB AND PG_RESERVED = 0" "NOT PG_SLAB AND PG_FREE = PG_FREE"
    "NOT PG_SLAB AND PG_RESERVED = PG_RESERVED" "PG_SLAB \<noteq> 0"
    by (simp_all add: kernel_defs)
  show "(x OR PG_SLAB) AND PG_FREE = x AND PG_FREE" "(x OR PG_SLAB) AND PG_RESERVED = x AND PG_RESERVED"
    by (simp_all only: bit.conj_disj_distrib2 d or.right_neutral)
  show "(x AND NOT PG_SLAB) AND PG_FREE = x AND PG_FREE"
    "(x AND NOT PG_SLAB) AND PG_RESERVED = x AND PG_RESERVED"
    by (simp_all only: and.assoc d)
  show "(x AND NOT PG_SLAB) AND PG_SLAB = 0" by (simp add: and.assoc)
  show "(x OR PG_SLAB) AND PG_SLAB \<noteq> 0" using d(5) by (simp add: word_ao_absorbs)
  show "PG_FREE AND PG_SLAB = 0" using d(1) by (simp add: and.commute)
  show "PG_SLAB \<noteq> 0" by (rule d)
qed

section \<open>The invariant\<close>

definition slabs :: "pmm_state \<Rightarrow> nat set" where
  "slabs m = {pg. pg_flags (mem_map m pg) AND PG_SLAB \<noteq> 0}"

text \<open>A slab page: its block is held, its chain holds objects of the slab, and the others are counted.\<close>

definition slab_page_ok :: "(nat \<Rightarrow> kmem_cache) \<Rightarrow> nat \<Rightarrow> pmm_state \<Rightarrow> nat \<Rightarrow> bool" where
  "slab_page_ok pool n m pg \<longleftrightarrow>
     (case pg_slab_cache (mem_map m pg) of
        None \<Rightarrow> False
      | Some c \<Rightarrow> c < n \<and> allocated m pg (c_slab_order (pool c)) \<and>
          distinct (pg_slab_free (mem_map m pg)) \<and> set (pg_slab_free (mem_map m pg)) \<subseteq> objs (pool c) pg \<and>
          unat (pg_refcount (mem_map m pg)) + length (pg_slab_free (mem_map m pg)) =
            unat (c_objects_per_slab (pool c)))"

definition owner :: "pmm_state \<Rightarrow> nat \<Rightarrow> nat" where
  "owner m pg = the (pg_slab_cache (mem_map m pg))"

definition slab_blk :: "(nat \<Rightarrow> kmem_cache) \<Rightarrow> pmm_state \<Rightarrow> nat \<Rightarrow> nat set" where
  "slab_blk pool m pg = blk pg (c_slab_order (pool (owner m pg)))"

definition core_inv :: "(nat \<Rightarrow> kmem_cache) \<Rightarrow> nat \<Rightarrow> pmm_state \<Rightarrow> bool" where
  "core_inv pool n m \<longleftrightarrow>
     pmm_inv m \<and> 0 \<notin> managed m \<and> (\<forall>c<n. layout_ok (pool c)) \<and> (\<forall>pg \<in> slabs m. slab_page_ok pool n m pg) \<and>
     (\<forall>pg \<in> slabs m. \<forall>q \<in> slabs m. pg \<noteq> q \<longrightarrow> slab_blk pool m pg \<inter> slab_blk pool m q = {})"

text \<open>A partial list holds exactly the slabs of the cache that have a free object.\<close>

definition partial_inv :: "(nat \<Rightarrow> kmem_cache) \<Rightarrow> nat \<Rightarrow> pmm_state \<Rightarrow> bool" where
  "partial_inv pool n m \<longleftrightarrow>
     (\<forall>c<n. c_magic (pool c) = SLAB_MAGIC \<longrightarrow> distinct (c_partial (pool c)) \<and>
        set (c_partial (pool c)) =
          {pg \<in> slabs m. pg_slab_cache (mem_map m pg) = Some c \<and> pg_slab_free (mem_map m pg) \<noteq> []})"

definition slab_inv :: "slab_state \<Rightarrow> bool" where
  "slab_inv s \<longleftrightarrow> core_inv (g_cache_pool s) (g_cache_count s) (km_pmm s) \<and>
     partial_inv (g_cache_pool s) (g_cache_count s) (km_pmm s)"

text \<open>The abstract state: the objects that are handed out, with the cache they belong to.\<close>

definition live_in :: "(nat \<Rightarrow> kmem_cache) \<Rightarrow> pmm_state \<Rightarrow> (nat \<times> nat) set" where
  "live_in pool m = {(c, a). \<exists>pg \<in> slabs m. pg_slab_cache (mem_map m pg) = Some c \<and>
     a \<in> objs (pool c) pg \<and> a \<notin> set (pg_slab_free (mem_map m pg))}"

abbreviation live_objs :: "slab_state \<Rightarrow> (nat \<times> nat) set" where
  "live_objs s \<equiv> live_in (g_cache_pool s) (km_pmm s)"

definition same_layout :: "(nat \<Rightarrow> kmem_cache) \<Rightarrow> (nat \<Rightarrow> kmem_cache) \<Rightarrow> bool" where
  "same_layout pool pool' \<longleftrightarrow> (\<forall>c. c_slab_order (pool' c) = c_slab_order (pool c) \<and>
     c_object_size (pool' c) = c_object_size (pool c) \<and>
     c_objects_per_slab (pool' c) = c_objects_per_slab (pool c))"

lemma same_layout_cong:
  assumes "same_layout pool pool'"
  shows "core_inv pool' n m = core_inv pool n m" "live_in pool' m = live_in pool m"
proof -
  have o: "objs (pool' c) = objs (pool c)" "layout_ok (pool' c) = layout_ok (pool c)"
    "c_slab_order (pool' c) = c_slab_order (pool c)"
    "c_objects_per_slab (pool' c) = c_objects_per_slab (pool c)" for c
    using assms by (auto simp: same_layout_def objs_def layout_ok_def)
  have "slab_page_ok pool' n m pg = slab_page_ok pool n m pg" for pg
    by (cases "pg_slab_cache (mem_map m pg)") (simp_all add: slab_page_ok_def o)
  then show "core_inv pool' n m = core_inv pool n m"
    by (simp add: core_inv_def slab_blk_def o)
  show "live_in pool' m = live_in pool m" by (simp add: live_in_def o)
qed

lemma core_slab:
  assumes "core_inv pool n m" "pg \<in> slabs m"
  obtains c where "pg_slab_cache (mem_map m pg) = Some c" "c < n" "layout_ok (pool c)"
    "allocated m pg (c_slab_order (pool c))" "distinct (pg_slab_free (mem_map m pg))"
    "set (pg_slab_free (mem_map m pg)) \<subseteq> objs (pool c) pg"
    "unat (pg_refcount (mem_map m pg)) + length (pg_slab_free (mem_map m pg)) = unat (c_objects_per_slab (pool c))"
    "slab_blk pool m pg = blk pg (c_slab_order (pool c))"
  using assms by (auto simp: core_inv_def slab_page_ok_def slab_blk_def owner_def split: option.splits)

text \<open>Objects of the same address belong to the same slab.\<close>

lemma slab_obj_unique:
  assumes I: "core_inv pool n m" and pg: "pg \<in> slabs m" "pg_slab_cache (mem_map m pg) = Some c" "a \<in> objs (pool c) pg"
    and q: "q \<in> slabs m" "pg_slab_cache (mem_map m q) = Some d" "a \<in> objs (pool d) q"
  shows "q = pg"
proof (rule ccontr)
  assume "q \<noteq> pg"
  then have "slab_blk pool m pg \<inter> slab_blk pool m q = {}" using I pg(1) q(1) by (auto simp: core_inv_def)
  moreover have "layout_ok (pool c)" "layout_ok (pool d)"
    using core_slab [OF I pg(1)] core_slab [OF I q(1)] pg(2) q(2) by (metis option.inject)+
  then have "phys_to_page a \<in> blk pg (c_slab_order (pool c))" "phys_to_page a \<in> blk q (c_slab_order (pool d))"
    using objs_in_block(3) pg(3) q(3) by blast+
  ultimately show False using pg(2) q(2) by (auto simp: slab_blk_def owner_def)
qed

section \<open>Steps on the page headers\<close>

lemma slab_not_free:
  assumes "core_inv pool n m" "pg \<in> slabs m"
  shows "pg \<notin> free_frames m"
  by (rule core_slab [OF assms]) (use blk_mem [of pg] in \<open>auto simp: allocated_def\<close>)

text \<open>The chain and the count of a slab change; pushing and popping objects are the two uses.\<close>

lemma core_update_slab:
  assumes I: "core_inv pool n m" and pg: "pg \<in> slabs m" "pg_slab_cache (mem_map m pg) = Some c"
    and f: "slab_only f" "\<And>h. pg_flags (f h) = pg_flags h \<and> pg_slab_cache (f h) = pg_slab_cache h"
    and ch: "distinct (pg_slab_free (f (mem_map m pg)))" "set (pg_slab_free (f (mem_map m pg))) \<subseteq> objs (pool c) pg"
      "unat (pg_refcount (f (mem_map m pg))) + length (pg_slab_free (f (mem_map m pg))) =
         unat (c_objects_per_slab (pool c))"
  shows "core_inv pool n (upd_page pg f m)" "slabs (upd_page pg f m) = slabs m"
proof -
  let ?m = "upd_page pg f m"
  show sl: "slabs ?m = slabs m" using f by (auto simp: slabs_def)
  have ow: "pg_slab_cache (mem_map ?m q) = pg_slab_cache (mem_map m q)" for q using f by simp
  have c: "c < n" "allocated m pg (c_slab_order (pool c))"
    by (rule core_slab [OF I pg(1)]; use pg(2) in simp)+
  have "slab_page_ok pool n ?m q" if q: "q \<in> slabs m" for q
  proof (cases "q = pg")
    case True
    then show ?thesis using c ch pg f by (simp add: slab_page_ok_def upd_held_allocated)
  next
    case False
    have "slab_page_ok pool n m q" using I q by (simp add: core_inv_def)
    then show ?thesis using False f(1) by (simp add: slab_page_ok_def upd_held_allocated split: option.splits)
  qed
  moreover have "slab_blk pool ?m q = slab_blk pool m q" for q
    unfolding slab_blk_def owner_def ow ..
  ultimately show "core_inv pool n ?m"
    using I upd_held_inv [OF _ slab_not_free [OF I pg(1)] f(1)] upd_held_managed [OF f(1), of pg m]
    unfolding core_inv_def sl by simp
qed

text \<open>A fresh block becomes a slab with all its objects free.\<close>

lemma core_new_slab:
  assumes I: "core_inv pool n m" and c: "c < n"
    and al: "pmm_alloc_pages (int (c_slab_order (pool c))) m = (Some pg, m')"
    and f: "slab_only f" "pg_flags (f (mem_map m' pg)) AND PG_SLAB \<noteq> 0" "pg_slab_cache (f (mem_map m' pg)) = Some c"
    and ch: "distinct (pg_slab_free (f (mem_map m' pg)))" "set (pg_slab_free (f (mem_map m' pg))) \<subseteq> objs (pool c) pg"
      "unat (pg_refcount (f (mem_map m' pg))) + length (pg_slab_free (f (mem_map m' pg))) =
         unat (c_objects_per_slab (pool c))"
  shows "core_inv pool n (upd_page pg f m')" "slabs (upd_page pg f m') = insert pg (slabs m)"
    "pg \<notin> slabs m" "\<And>q. q \<in> slabs m \<Longrightarrow> mem_map (upd_page pg f m') q = mem_map m q"
proof -
  let ?k = "c_slab_order (pool c)" and ?m = "upd_page pg f m'"
  have inv: "pmm_inv m" and "layout_ok (pool c)" using I c by (auto simp: core_inv_def)
  then have k: "0 \<le> int ?k" "int ?k < int MAX_ORDER" by (auto simp: layout_ok_def)
  note A = pmm_alloc_Some [OF inv k al, simplified]
  have A': "allocated m' pg ?k" using pmm_alloc_allocated [OF inv k al] by simp
  have pgfree: "pg \<in> free_frames m" using A(4) by auto
  then show new: "pg \<notin> slabs m" using slab_not_free [OF I] by blast
  have old: "mem_map m' q = mem_map m q" if "q \<in> slabs m" for q
    using A(7) slab_not_free [OF I that] by blast
  then show oldm: "mem_map ?m q = mem_map m q" if "q \<in> slabs m" for q
    using that new by auto
  have "slabs m' \<subseteq> slabs m"
  proof
    fix q assume q: "q \<in> slabs m'"
    have "mem_map m' q = mem_map m q"
      using pmm_alloc_flags [OF al, of q] q by (auto simp: slabs_def flags_slab_bits)
    then show "q \<in> slabs m" using q by (simp add: slabs_def)
  qed
  then have slm: "slabs m' = slabs m" using old by (auto simp: slabs_def)
  then show sl: "slabs ?m = insert pg (slabs m)" using f(2) by (auto simp: slabs_def)
  have alk: "allocated ?m q j" if "allocated m q j" for q j
    using that pmm.alloc_keeps [OF inv al] upd_held_allocated [OF f(1)] by blast
  have ok: "slab_page_ok pool n ?m q" if q: "q \<in> insert pg (slabs m)" for q
  proof (cases "q = pg")
    case True
    then show ?thesis using c ch f A' upd_held_allocated [OF f(1)] by (simp add: slab_page_ok_def)
  next
    case False
    then have "slab_page_ok pool n m q" using I q by (simp add: core_inv_def)
    then show ?thesis using False oldm [of q] q alk by (auto simp: slab_page_ok_def split: option.splits)
  qed
  have blkold: "slab_blk pool ?m q = slab_blk pool m q" if "q \<in> slabs m" for q
    using oldm [OF that] by (simp add: slab_blk_def owner_def)
  have blknew: "slab_blk pool ?m pg = blk pg ?k" using f(3) by (simp add: slab_blk_def owner_def)
  have dis: "slab_blk pool ?m pg \<inter> slab_blk pool m q = {}" if "q \<in> slabs m" for q
    by (rule core_slab [OF I that]) (use A(4) blknew in \<open>auto simp: allocated_def\<close>)
  have "\<forall>p \<in> slabs ?m. \<forall>q \<in> slabs ?m. p \<noteq> q \<longrightarrow> slab_blk pool ?m p \<inter> slab_blk pool ?m q = {}"
    using I dis blkold unfolding sl core_inv_def by (auto simp: Int_commute)
  moreover have "pg \<notin> free_frames m'" using A(5) blk_mem [of pg ?k] by simp
  ultimately show "core_inv pool n ?m"
    using I ok upd_held_inv [OF A(1) _ f(1), of pg] upd_held_managed [OF f(1), of pg m'] A(6)
    unfolding core_inv_def sl by auto
qed

text \<open>A slab is turned into an ordinary block and handed back.\<close>

lemma core_release_slab:
  assumes I: "core_inv pool n m" and pg: "pg \<in> slabs m" "pg_slab_cache (mem_map m pg) = Some c"
    and f: "slab_only f" "pg_flags (f (mem_map m pg)) AND PG_SLAB = 0"
    and m': "m' = pmm_free_pages (Some pg) (int (c_slab_order (pool c))) (upd_page pg f m)"
  shows "core_inv pool n m'" "slabs m' = slabs m - {pg}"
    "\<And>q. q \<in> slabs m - {pg} \<Longrightarrow> mem_map m' q = mem_map m q"
proof -
  let ?k = "c_slab_order (pool c)" and ?m = "upd_page pg f m"
  have a: "allocated m pg ?k" and b: "slab_blk pool m pg = blk pg ?k"
    by (rule core_slab [OF I pg(1)]; use pg(2) in simp)+
  have a1: "allocated ?m pg ?k" using a upd_held_allocated [OF f(1)] by blast
  have inv: "pmm_inv ?m"
    using upd_held_inv [OF _ slab_not_free [OF I pg(1)] f(1)] I by (simp add: core_inv_def)
  note F = pmm_free_ok [OF inv a1, folded m']
  have qdis: "blk q j \<inter> blk pg ?k = {}" if "q \<in> slabs m - {pg}" "slab_blk pool m q = blk q j" for q j
  proof -
    have "slab_blk pool m q \<inter> slab_blk pool m pg = {}" using I that(1) pg(1) unfolding core_inv_def by blast
    then show ?thesis unfolding that(2) b .
  qed
  have keep: "mem_map m' q = mem_map m q" if q: "q \<in> slabs m - {pg}" for q
  proof -
    have "q \<notin> blk pg ?k" using qdis [OF q slab_blk_def] blk_mem [of q] by blast
    moreover have "q \<notin> free_frames m" using slab_not_free [OF I] q by blast
    ultimately show ?thesis using F(4) [of q] q by simp
  qed
  then show "\<And>q. q \<in> slabs m - {pg} \<Longrightarrow> mem_map m' q = mem_map m q" .
  have "slabs m' \<subseteq> slabs m - {pg}"
  proof
    fix q assume q: "q \<in> slabs m'"
    then have "mem_map m' q = mem_map ?m q"
      using pmm_free_flags [of "Some pg" "int ?k" ?m q, folded m'] by (auto simp: slabs_def flags_slab_bits)
    then show "q \<in> slabs m - {pg}" using q f(2) by (auto simp: slabs_def split: if_splits)
  qed
  then show sl: "slabs m' = slabs m - {pg}" using keep by (auto simp: slabs_def)
  have ok: "slab_page_ok pool n m' q" if q: "q \<in> slabs m - {pg}" for q
  proof (rule core_slab [OF I, of q])
    show "q \<in> slabs m" using q by simp
    fix d assume d: "pg_slab_cache (mem_map m q) = Some d" "allocated m q (c_slab_order (pool d))"
      "slab_blk pool m q = blk q (c_slab_order (pool d))"
    have "allocated ?m q (c_slab_order (pool d))" using d(2) upd_held_allocated [OF f(1)] by blast
    then have "allocated m' q (c_slab_order (pool d))"
      using pmm.release_keeps [OF inv a1 _, folded m'] qdis [OF q d(3)] by (simp add: Int_commute)
    moreover have "slab_page_ok pool n m q" using I q by (simp add: core_inv_def)
    ultimately show ?thesis using keep [OF q] d(1) by (simp add: slab_page_ok_def)
  qed
  have "slab_blk pool m' q = slab_blk pool m q" if "q \<in> slabs m - {pg}" for q
    using keep [OF that] by (simp add: slab_blk_def owner_def)
  then have "\<forall>p \<in> slabs m'. \<forall>q \<in> slabs m'. p \<noteq> q \<longrightarrow> slab_blk pool m' p \<inter> slab_blk pool m' q = {}"
    using I unfolding sl core_inv_def by auto
  then show "core_inv pool n m'"
    using I F(1,3) ok upd_held_managed [OF f(1), of pg m] unfolding core_inv_def sl by simp
qed

section \<open>Allocation and release of objects\<close>

lemma upd_slab_simps [simp]:
  "km_pmm (upd_cache c f s) = km_pmm s" "g_cache_count (upd_cache c f s) = g_cache_count s"
  "g_cache_pool (upd_cache c f s) = (g_cache_pool s)(c := f (g_cache_pool s c))"
  "km_pmm (upd_slab_page pg g s) = upd_page pg g (km_pmm s)"
  "g_cache_pool (upd_slab_page pg g s) = g_cache_pool s" "g_cache_count (upd_slab_page pg g s) = g_cache_count s"
  by (simp_all add: upd_cache_def upd_slab_page_def)

lemma same_layout_partial [simp]: "same_layout pool (pool(c := (pool c)\<lparr>c_partial := ps\<rparr>))"
  by (simp add: same_layout_def)

lemma refcount_full:
  assumes "unat (r :: u32) + length ch = unat n" "unat n < 2 ^ 32"
  shows "(ucast r :: u64) \<ge> n \<longleftrightarrow> ch = []"
proof -
  have "unat (ucast r :: u64) = unat r" by (simp add: unsigned_ucast_eq take_bit_nat_eq_self order_less_trans [OF unsigned_less])
  then show ?thesis using assms by (cases ch) (auto simp: word_le_nat_alt)
qed

lemma live_in_slab:
  assumes "core_inv pool n m" "pg \<in> slabs m" "pg_slab_cache (mem_map m pg) = Some c" "a \<in> objs (pool c) pg"
  shows "(c, a) \<in> live_in pool m \<longleftrightarrow> a \<notin> set (pg_slab_free (mem_map m pg))"
proof
  assume "(c, a) \<in> live_in pool m"
  then obtain q where q: "q \<in> slabs m" "pg_slab_cache (mem_map m q) = Some c" "a \<in> objs (pool c) q"
    "a \<notin> set (pg_slab_free (mem_map m q))" by (auto simp: live_in_def)
  then have "q = pg" by (intro slab_obj_unique [OF assms(1-4)])
  with q show "a \<notin> set (pg_slab_free (mem_map m pg))" by simp
next
  assume "a \<notin> set (pg_slab_free (mem_map m pg))"
  then show "(c, a) \<in> live_in pool m" using assms(2-4) unfolding live_in_def by blast
qed

text \<open>When one slab's chain changes, only the objects of that slab change sides.\<close>

lemma live_in_update:
  assumes I: "core_inv pool n m" and pg: "pg \<in> slabs m" "pg_slab_cache (mem_map m pg) = Some c"
    and sl: "slabs (upd_page pg f m) = slabs m" and f: "pg_slab_cache (f (mem_map m pg)) = Some c"
  shows "live_in pool (upd_page pg f m) =
    (live_in pool m - {c} \<times> objs (pool c) pg) \<union> {c} \<times> (objs (pool c) pg - set (pg_slab_free (f (mem_map m pg))))"
proof (rule set_eqI)
  fix x :: "nat \<times> nat"
  obtain d a where x: "x = (d, a)" by (cases x)
  let ?L = "\<lambda>q. q \<in> slabs m \<and> q \<noteq> pg \<and> pg_slab_cache (mem_map m q) = Some d \<and> a \<in> objs (pool d) q \<and>
      a \<notin> set (pg_slab_free (mem_map m q))"
  have "x \<in> live_in pool (upd_page pg f m) \<longleftrightarrow>
      (\<exists>q. ?L q) \<or> d = c \<and> a \<in> objs (pool c) pg \<and> a \<notin> set (pg_slab_free (f (mem_map m pg)))"
    using pg(1) f by (auto simp: x live_in_def sl)
  moreover have "x \<in> live_in pool m \<longleftrightarrow>
      (\<exists>q. ?L q) \<or> d = c \<and> a \<in> objs (pool c) pg \<and> a \<notin> set (pg_slab_free (mem_map m pg))"
    using pg by (auto simp: x live_in_def)
  moreover have "\<not> ?L q" if "d = c" "a \<in> objs (pool c) pg" for q
    using slab_obj_unique [OF I pg that(2), of q d] that by auto
  ultimately show "(x \<in> live_in pool (upd_page pg f m)) = (x \<in> (live_in pool m - {c} \<times> objs (pool c) pg) \<union>
      {c} \<times> (objs (pool c) pg - set (pg_slab_free (f (mem_map m pg)))))"
    unfolding x by blast
qed

text \<open>Popping the first object of a slab that is on its cache's partial list.\<close>

lemma slab_pop_ok:
  assumes I: "core_inv (g_cache_pool s) (g_cache_count s) (km_pmm s)"
    and P: "partial_inv (g_cache_pool s) (g_cache_count s) (km_pmm s)"
    and pg: "pg \<in> slabs (km_pmm s)" "pg_slab_cache (page_of s pg) = Some c" "pg_slab_free (page_of s pg) \<noteq> []"
    and mg: "c_magic (g_cache_pool s c) = SLAB_MAGIC"
    and r: "slab_pop c pg s = (obj, s')"
  shows "slab_inv s' \<and> obj \<in> objs (g_cache_pool s c) pg \<and> (c, obj) \<notin> live_objs s \<and>
    live_objs s' = insert (c, obj) (live_objs s) \<and> g_cache_count s' = g_cache_count s \<and>
    same_layout (g_cache_pool s) (g_cache_pool s') \<and> (\<forall>d. c_magic (g_cache_pool s' d) = c_magic (g_cache_pool s d))"
proof -
  let ?pool = "g_cache_pool s" and ?m = "km_pmm s" and ?n = "g_cache_count s"
  let ?f = "\<lambda>h. h\<lparr>pg_slab_free := tl (pg_slab_free h), pg_refcount := pg_refcount h + 1\<rparr>"
  let ?m' = "upd_page pg ?f ?m" and ?h = "mem_map ?m pg"
  obtain rest where ch: "pg_slab_free ?h = obj # rest"
    using pg(3) r by (cases "pg_slab_free ?h") (auto simp: slab_pop_def Let_def)
  obtain c: "c < ?n" "layout_ok (?pool c)" "distinct (obj # rest)" "set (obj # rest) \<subseteq> objs (?pool c) pg"
    "unat (pg_refcount ?h) + length (obj # rest) = unat (c_objects_per_slab (?pool c))"
    by (rule core_slab [OF I pg(1)]) (use pg(2) ch in auto)
  note small = layout_objects [OF c(2)]
  have cnt: "unat (pg_refcount ?h + 1) + length rest = unat (c_objects_per_slab (?pool c))"
    using c(5) small by (simp add: unat_word_ariths)
  have f: "slab_only ?f" by (simp add: slab_only_def)
  have C: "core_inv ?pool ?n ?m'" "slabs ?m' = slabs ?m"
    by (rule core_update_slab [OF I pg(1,2) f]; use c ch cnt in simp)+
  have full: "(ucast (pg_refcount ?h + 1) :: u64) \<ge> c_objects_per_slab (?pool c) \<longleftrightarrow> rest = []"
    by (rule refcount_full [OF cnt small])
  let ?s1 = "upd_slab_page pg ?f s"
  have s': "s' = (if rest = [] then partial_remove c pg ?s1 else ?s1)"
    using r full by (auto simp: slab_pop_def Let_def)
  have pool': "same_layout ?pool (g_cache_pool s')" "km_pmm s' = ?m'" "g_cache_count s' = ?n"
    and mag: "\<forall>d. c_magic (g_cache_pool s' d) = c_magic (?pool d)"
    by (simp_all add: s' partial_remove_def same_layout_def)
  have lv: "live_in ?pool ?m' = insert (c, obj) (live_in ?pool ?m)"
    using live_in_update [OF I pg(1,2) C(2)] live_in_slab [OF I pg(1,2)] c(3,4) ch pg(2) by auto
  have nl: "(c, obj) \<notin> live_in ?pool ?m"
    using live_in_slab [OF I pg(1,2), of obj] c(4) ch by simp
  have pi: "partial_inv (g_cache_pool s') ?n ?m'"
    unfolding partial_inv_def
  proof (intro allI impI)
    fix d assume d: "d < ?n" "c_magic (g_cache_pool s' d) = SLAB_MAGIC"
    then have old: "distinct (c_partial (?pool d))"
      "set (c_partial (?pool d)) = {q \<in> slabs ?m. pg_slab_cache (mem_map ?m q) = Some d \<and> pg_slab_free (mem_map ?m q) \<noteq> []}"
      using P mag by (auto simp: partial_inv_def)
    have e1: "c_partial (g_cache_pool s' d) =
        (if d = c \<and> rest = [] then remove1 pg (c_partial (?pool d)) else c_partial (?pool d))"
      by (simp add: s' partial_remove_def)
    have e2: "{q \<in> slabs ?m'. pg_slab_cache (mem_map ?m' q) = Some d \<and> pg_slab_free (mem_map ?m' q) \<noteq> []} =
        (if d = c \<and> rest = [] then set (c_partial (?pool d)) - {pg} else set (c_partial (?pool d)))"
      unfolding old(2) C(2) using pg ch by (intro set_eqI) (simp, fastforce)
    show "distinct (c_partial (g_cache_pool s' d)) \<and> set (c_partial (g_cache_pool s' d)) =
        {q \<in> slabs ?m'. pg_slab_cache (mem_map ?m' q) = Some d \<and> pg_slab_free (mem_map ?m' q) \<noteq> []}"
      unfolding e1 e2 using old(1) by (auto simp: set_remove1_eq)
  qed
  have ci: "core_inv (g_cache_pool s') ?n ?m'"
    unfolding same_layout_cong [OF pool'(1)] by (rule C(1))
  have lv': "live_objs s' = insert (c, obj) (live_objs s)"
    unfolding pool'(2) same_layout_cong [OF pool'(1)] by (rule lv)
  have "slab_inv s'" unfolding slab_inv_def pool'(2,3) using ci pi by (rule conjI)
  moreover have "obj \<in> objs (?pool c) pg" using c(4) by simp
  ultimately show ?thesis using nl lv' pool'(1,3) mag by blast
qed

text \<open>A new slab, put at the head of the partial list of its cache.\<close>

lemma slab_new_ok:
  assumes I: "core_inv (g_cache_pool s) (g_cache_count s) (km_pmm s)"
    and P: "partial_inv (g_cache_pool s) (g_cache_count s) (km_pmm s)"
    and c: "c < g_cache_count s" and em: "c_partial (g_cache_pool s c) = []"
    and r: "slab_new c s = (Some pg, s1)" "s2 = upd_cache c (\<lambda>cc. cc\<lparr>c_partial := pg # c_partial cc\<rparr>) s1"
  shows "core_inv (g_cache_pool s2) (g_cache_count s2) (km_pmm s2)"
    "partial_inv (g_cache_pool s2) (g_cache_count s2) (km_pmm s2)"
    "pg \<in> slabs (km_pmm s2)" "pg_slab_cache (page_of s2 pg) = Some c" "pg_slab_free (page_of s2 pg) \<noteq> []"
    "live_objs s2 = live_objs s" "g_cache_count s2 = g_cache_count s"
    "same_layout (g_cache_pool s) (g_cache_pool s2)" "\<And>d. c_magic (g_cache_pool s2 d) = c_magic (g_cache_pool s d)"
proof -
  let ?pool = "g_cache_pool s" and ?m = "km_pmm s" and ?n = "g_cache_count s"
  let ?head = "slab_chain (page_to_phys pg) (unat (c_object_size (?pool c))) (unat (c_objects_per_slab (?pool c))) []"
  let ?f = "\<lambda>h. h\<lparr>pg_flags := pg_flags h OR PG_SLAB, pg_slab_cache := Some c, pg_slab_free := ?head, pg_refcount := 0\<rparr>"
  obtain m' where al: "pmm_alloc_pages (int (c_slab_order (?pool c))) ?m = (Some pg, m')"
    and s1: "s1 = s\<lparr>km_pmm := upd_page pg ?f m'\<rparr>"
    using r(1) by (auto simp: slab_new_def Let_def split: prod.splits option.splits)
  have lay: "layout_ok (?pool c)" using I c by (simp add: core_inv_def)
  note ch = slab_chain_objs [OF lay, of pg]
  have f: "slab_only ?f" by (simp add: slab_only_def flags_slab_bits)
  have C: "core_inv ?pool ?n (upd_page pg ?f m')" "slabs (upd_page pg ?f m') = insert pg (slabs ?m)" "pg \<notin> slabs ?m"
    "\<And>q. q \<in> slabs ?m \<Longrightarrow> mem_map (upd_page pg ?f m') q = mem_map ?m q"
    by (rule core_new_slab [OF I c al f]; use ch in \<open>simp add: flags_slab_bits\<close>)+
  let ?m2 = "upd_page pg ?f m'"
  have s2: "km_pmm s2 = ?m2" "g_cache_pool s2 = ?pool(c := (?pool c)\<lparr>c_partial := [pg]\<rparr>)" "g_cache_count s2 = ?n"
    by (simp_all add: r(2) s1 em)
  show sl: "same_layout ?pool (g_cache_pool s2)" by (simp add: s2)
  show mg: "c_magic (g_cache_pool s2 d) = c_magic (?pool d)" for d by (simp add: s2)
  show "g_cache_count s2 = ?n" by (rule s2)
  show "core_inv (g_cache_pool s2) (g_cache_count s2) (km_pmm s2)"
    unfolding same_layout_cong [OF sl] unfolding s2 by (rule C(1))
  have h: "mem_map ?m2 pg = ?f (mem_map m' pg)" by simp
  show "pg \<in> slabs (km_pmm s2)" unfolding s2 C(2) by simp
  show "pg_slab_cache (page_of s2 pg) = Some c" unfolding s2 h by simp
  have "?head \<noteq> []" using ch(3) lay by (auto simp: layout_ok_def)
  then show ne: "pg_slab_free (page_of s2 pg) \<noteq> []" unfolding s2 h by simp
  have "live_in ?pool ?m2 = live_in ?pool ?m"
  proof (rule set_eqI)
    fix x :: "nat \<times> nat"
    obtain d a where x: "x = (d, a)" by (cases x)
    have "a \<in> objs (?pool d) pg \<Longrightarrow> d = c \<Longrightarrow> a \<in> set ?head" using ch(1) by simp
    then have "x \<in> live_in ?pool ?m2 \<longleftrightarrow> (\<exists>q \<in> slabs ?m. pg_slab_cache (mem_map ?m2 q) = Some d \<and>
        a \<in> objs (?pool d) q \<and> a \<notin> set (pg_slab_free (mem_map ?m2 q)))"
      unfolding x live_in_def C(2) using h by auto
    also have "\<dots> \<longleftrightarrow> x \<in> live_in ?pool ?m" unfolding x live_in_def using C(4) by auto
    finally show "(x \<in> live_in ?pool ?m2) = (x \<in> live_in ?pool ?m)" .
  qed
  then show "live_objs s2 = live_objs s" unfolding same_layout_cong [OF sl] unfolding s2 .
  show "partial_inv (g_cache_pool s2) (g_cache_count s2) (km_pmm s2)"
    unfolding partial_inv_def
  proof (intro allI impI)
    fix d assume d: "d < g_cache_count s2" "c_magic (g_cache_pool s2 d) = SLAB_MAGIC"
    let ?A = "\<lambda>m. {q \<in> slabs m. pg_slab_cache (mem_map m q) = Some d \<and> pg_slab_free (mem_map m q) \<noteq> []}"
    have old: "distinct (c_partial (?pool d))" "set (c_partial (?pool d)) = ?A ?m"
      using P d mg by (auto simp: partial_inv_def s2(3))
    have "?A ?m2 = (if d = c then insert pg (?A ?m) else ?A ?m)"
    proof (rule set_eqI)
      fix q
      show "(q \<in> ?A ?m2) = (q \<in> (if d = c then insert pg (?A ?m) else ?A ?m))"
      proof (cases "q = pg")
        case True
        then show ?thesis using C(2,3) ne unfolding s2(1) h by auto
      next
        case False
        then show ?thesis using C(2) C(4) [of q] by auto
      qed
    qed
    then have "set (c_partial (g_cache_pool s2 d)) = ?A ?m2" using old(2) em by (auto simp: s2(2))
    moreover have "distinct (c_partial (g_cache_pool s2 d))" using old(1) by (simp add: s2(2))
    ultimately show "distinct (c_partial (g_cache_pool s2 d)) \<and> set (c_partial (g_cache_pool s2 d)) = ?A (km_pmm s2)"
      unfolding s2(1) by (rule conjI [rotated])
  qed
qed

text \<open>Out of memory: nothing but the count of victims marked changes.\<close>

lemma slab_new_None:
  assumes "slab_inv s" "c < g_cache_count s" "slab_new c s = (None, s')"
  shows "slab_inv s'" "live_objs s' = live_objs s" "g_cache_pool s' = g_cache_pool s" "g_cache_count s' = g_cache_count s"
proof -
  obtain m' where al: "pmm_alloc_pages (int (c_slab_order (g_cache_pool s c))) (km_pmm s) = (None, m')"
    and s': "s' = s\<lparr>km_pmm := m'\<rparr>"
    using assms(3) by (auto simp: slab_new_def Let_def split: prod.splits option.splits)
  have inv: "pmm_inv (km_pmm s)" "layout_ok (g_cache_pool s c)"
    using assms(1,2) by (auto simp: slab_inv_def core_inv_def)
  then have "m' = oom_marked (km_pmm s)"
    using pmm_alloc_None(2) [OF inv(1) _ _ al] by (simp add: layout_ok_def)
  moreover have o: "slabs (oom_marked m) = slabs m" "allocated (oom_marked m) = allocated m" for m
    by (auto simp: slabs_def allocated_def fun_eq_iff)
  moreover have "slab_page_ok pool n (oom_marked m) pg = slab_page_ok pool n m pg" for pool n m pg
    by (cases "pg_slab_cache (mem_map m pg)") (simp_all add: slab_page_ok_def o)
  ultimately show "slab_inv s'" "live_objs s' = live_objs s" "g_cache_pool s' = g_cache_pool s"
    "g_cache_count s' = g_cache_count s"
    using assms(1)
    by (simp_all add: s' slab_inv_def core_inv_def partial_inv_def live_in_def slab_blk_def owner_def)
qed

lemma kmem_cache_alloc_ok:
  assumes I: "slab_inv s" and c: "c < g_cache_count s" and mg: "c_magic (g_cache_pool s c) = SLAB_MAGIC"
    and r: "kmem_cache_alloc (Some c) s = (obj, s')"
  shows "slab_inv s' \<and> g_cache_count s' = g_cache_count s \<and> same_layout (g_cache_pool s) (g_cache_pool s') \<and>
    (\<forall>d. c_magic (g_cache_pool s' d) = c_magic (g_cache_pool s d)) \<and>
    (obj = 0 \<and> live_objs s' = live_objs s \<and> c_partial (g_cache_pool s c) = [] \<and>
       fst (pmm_alloc_pages (int (c_slab_order (g_cache_pool s c))) (km_pmm s)) = None \<or>
     0 < obj \<and> (c, obj) \<notin> live_objs s \<and> live_objs s' = insert (c, obj) (live_objs s))"
proof -
  have I': "core_inv (g_cache_pool s) (g_cache_count s) (km_pmm s)" "partial_inv (g_cache_pool s) (g_cache_count s) (km_pmm s)"
    using I by (auto simp: slab_inv_def)
  have pos: "0 < a" if "core_inv pool n m" "pg \<in> slabs m" "pg_slab_cache (mem_map m pg) = Some d" "a \<in> objs (pool d) pg"
    for pool n m pg d a
  proof -
    have "pg \<in> managed m" by (rule core_slab [OF that(1,2)]) (use blk_mem [of pg] in \<open>auto simp: allocated_def\<close>)
    then have "pg \<noteq> 0" using that(1) by (auto simp: core_inv_def intro: gr0I)
    moreover have "page_to_phys pg \<le> a" using that(4) by (auto simp: objs_def)
    ultimately show ?thesis by (auto simp: page_to_phys_def PAGE_SIZE_def)
  qed
  show ?thesis
  proof (cases "c_partial (g_cache_pool s c)")
    case (Cons pg ps)
    have "set (c_partial (g_cache_pool s c)) =
        {q \<in> slabs (km_pmm s). pg_slab_cache (page_of s q) = Some c \<and> pg_slab_free (page_of s q) \<noteq> []}"
      using I'(2) c mg by (simp add: partial_inv_def)
    then have "pg \<in> {q \<in> slabs (km_pmm s). pg_slab_cache (page_of s q) = Some c \<and> pg_slab_free (page_of s q) \<noteq> []}"
      using Cons by (metis list.set_intros(1))
    then have pg: "pg \<in> slabs (km_pmm s)" "pg_slab_cache (page_of s pg) = Some c" "pg_slab_free (page_of s pg) \<noteq> []"
      by simp_all
    have "slab_pop c pg s = (obj, s')" using r mg Cons by (simp add: kmem_cache_alloc_def)
    from slab_pop_ok [OF I' pg mg this] pos [OF I'(1) pg(1,2)] show ?thesis by blast
  next
    case Nil
    show ?thesis
    proof (cases "slab_new c s")
      case (Pair q s1)
      show ?thesis
      proof (cases q)
        case None
        then have "fst (pmm_alloc_pages (int (c_slab_order (g_cache_pool s c))) (km_pmm s)) = None"
          using Pair by (auto simp: slab_new_def Let_def split: prod.splits option.splits)
        with None show ?thesis
          using r mg Nil Pair slab_new_None [OF I c, of s1] by (auto simp: kmem_cache_alloc_def same_layout_def)
      next
        case (Some pg)
        define s2 where "s2 = upd_cache c (\<lambda>cc. cc\<lparr>c_partial := pg # c_partial cc\<rparr>) s1"
        note N = slab_new_ok [OF I' c Nil Pair [unfolded Some] s2_def]
        have "slab_pop c pg s2 = (obj, s')" using r mg Nil Pair Some by (simp add: kmem_cache_alloc_def s2_def)
        from slab_pop_ok [OF N(1-5) _ this] mg N(9) have
          P: "slab_inv s' \<and> obj \<in> objs (g_cache_pool s2 c) pg \<and> (c, obj) \<notin> live_objs s2 \<and>
            live_objs s' = insert (c, obj) (live_objs s2) \<and> g_cache_count s' = g_cache_count s2 \<and>
            same_layout (g_cache_pool s2) (g_cache_pool s') \<and> (\<forall>d. c_magic (g_cache_pool s' d) = c_magic (g_cache_pool s2 d))"
          by simp
        have "same_layout (g_cache_pool s) (g_cache_pool s')"
          using N(8) P by (simp add: same_layout_def)
        moreover have "0 < obj" using pos [OF N(1,3,4)] P by blast
        ultimately show ?thesis using P N(6,7,9) by auto
      qed
    qed
  qed
qed

text \<open>The state after the object is back on the chain of its slab, before the slab itself is given up.\<close>

definition slab_push :: "nat \<Rightarrow> nat \<Rightarrow> nat \<Rightarrow> slab_state \<Rightarrow> slab_state" where
  "slab_push c pg obj s =
     (let s1 = upd_slab_page pg (\<lambda>h. h\<lparr>pg_slab_free := obj # pg_slab_free h, pg_refcount := pg_refcount h - 1\<rparr>) s
      in if ucast (pg_refcount (page_of s pg)) \<ge> c_objects_per_slab (g_cache_pool s c)
         then upd_cache c (\<lambda>cc. cc\<lparr>c_partial := pg # c_partial cc\<rparr>) s1 else s1)"

lemma kmem_cache_free_eq:
  assumes "c_magic (g_cache_pool s c) = SLAB_MAGIC" "obj \<noteq> 0"
    and "phys_to_page obj \<in> slabs (km_pmm s)" "pg_slab_cache (page_of s (phys_to_page obj)) = Some c"
  shows "kmem_cache_free (Some c) obj s =
    (let pg = phys_to_page obj; s2 = slab_push c pg obj s
     in if pg_refcount (page_of s2 pg) = 0 \<and> c_partial (g_cache_pool s2 c) \<noteq> [pg]
        then slab_release c pg (partial_remove c pg s2) else s2)"
  using assms by (simp add: kmem_cache_free_def slab_push_def slabs_def Let_def)

lemma slab_push_ok:
  assumes I: "core_inv (g_cache_pool s) (g_cache_count s) (km_pmm s)"
    and P: "partial_inv (g_cache_pool s) (g_cache_count s) (km_pmm s)"
    and pg: "pg \<in> slabs (km_pmm s)" "pg_slab_cache (page_of s pg) = Some c"
    and obj: "obj \<in> objs (g_cache_pool s c) pg" "(c, obj) \<in> live_objs s"
    and s': "s' = slab_push c pg obj s"
  shows "core_inv (g_cache_pool s') (g_cache_count s') (km_pmm s')"
    "partial_inv (g_cache_pool s') (g_cache_count s') (km_pmm s')"
    "pg \<in> slabs (km_pmm s')" "pg_slab_cache (page_of s' pg) = Some c"
    "live_objs s' = live_objs s - {(c, obj)}" "g_cache_count s' = g_cache_count s"
    "same_layout (g_cache_pool s) (g_cache_pool s')" "\<And>d. c_magic (g_cache_pool s' d) = c_magic (g_cache_pool s d)"
proof -
  let ?pool = "g_cache_pool s" and ?m = "km_pmm s" and ?n = "g_cache_count s"
  let ?f = "\<lambda>h. h\<lparr>pg_slab_free := obj # pg_slab_free h, pg_refcount := pg_refcount h - 1\<rparr>"
  let ?m' = "upd_page pg ?f ?m" and ?h = "mem_map ?m pg"
  obtain c: "c < ?n" "layout_ok (?pool c)" "distinct (pg_slab_free ?h)" "set (pg_slab_free ?h) \<subseteq> objs (?pool c) pg"
    "unat (pg_refcount ?h) + length (pg_slab_free ?h) = unat (c_objects_per_slab (?pool c))"
    by (rule core_slab [OF I pg(1)]) (use pg(2) in auto)
  have nf: "obj \<notin> set (pg_slab_free ?h)" using live_in_slab [OF I pg obj(1)] obj(2) by simp
  have "length (pg_slab_free ?h) < unat (c_objects_per_slab (?pool c))"
  proof -
    have "insert obj (set (pg_slab_free ?h)) \<subseteq> objs (?pool c) pg" using obj(1) c(4) by simp
    moreover have "finite (objs (?pool c) pg)" "card (objs (?pool c) pg) \<le> unat (c_objects_per_slab (?pool c))"
      using card_image_le [of "{..<unat (c_objects_per_slab (?pool c))}"] by (auto simp: objs_def)
    ultimately have "card (insert obj (set (pg_slab_free ?h))) \<le> unat (c_objects_per_slab (?pool c))"
      using card_mono by (metis order_trans)
    then show ?thesis using nf c(3) by (simp add: distinct_card)
  qed
  then have "pg_refcount ?h \<noteq> 0" using c(5) by (metis add_0 less_irrefl unat_0)
  then have "unat (pg_refcount ?h - 1) = unat (pg_refcount ?h) - 1" "0 < unat (pg_refcount ?h)"
    by (simp_all add: unat_minus_one unat_gt_0)
  then have cnt: "unat (pg_refcount ?h - 1) + Suc (length (pg_slab_free ?h)) = unat (c_objects_per_slab (?pool c))"
    using c(5) by simp
  have f: "slab_only ?f" by (simp add: slab_only_def)
  have C: "core_inv ?pool ?n ?m'" "slabs ?m' = slabs ?m"
    by (rule core_update_slab [OF I pg f]; use c nf obj(1) cnt in simp)+
  have full: "(ucast (pg_refcount ?h) :: u64) \<ge> c_objects_per_slab (?pool c) \<longleftrightarrow> pg_slab_free ?h = []"
    by (rule refcount_full [OF c(5) layout_objects [OF c(2)]])
  have s2: "km_pmm s' = ?m'" "g_cache_count s' = ?n"
    and pool': "g_cache_pool s' d = (if d = c \<and> pg_slab_free ?h = []
      then (?pool c)\<lparr>c_partial := pg # c_partial (?pool c)\<rparr> else ?pool d)" for d
    by (simp_all add: s' slab_push_def Let_def full)
  show sl: "same_layout ?pool (g_cache_pool s')" by (simp add: pool' same_layout_def)
  show mg: "c_magic (g_cache_pool s' d) = c_magic (?pool d)" for d by (simp add: pool')
  show "g_cache_count s' = ?n" by (rule s2)
  show "core_inv (g_cache_pool s') (g_cache_count s') (km_pmm s')"
    unfolding same_layout_cong [OF sl] unfolding s2 by (rule C(1))
  show "pg \<in> slabs (km_pmm s')" unfolding s2 C(2) by (rule pg)
  show "pg_slab_cache (page_of s' pg) = Some c" unfolding s2 using pg(2) by simp
  show "live_objs s' = live_objs s - {(c, obj)}"
    unfolding same_layout_cong [OF sl] unfolding s2
    using live_in_update [OF I pg C(2)] live_in_slab [OF I pg] pg(2) obj(1) by auto
  show "partial_inv (g_cache_pool s') (g_cache_count s') (km_pmm s')"
    unfolding partial_inv_def
  proof (intro allI impI)
    fix d assume d: "d < g_cache_count s'" "c_magic (g_cache_pool s' d) = SLAB_MAGIC"
    let ?A = "\<lambda>m. {q \<in> slabs m. pg_slab_cache (mem_map m q) = Some d \<and> pg_slab_free (mem_map m q) \<noteq> []}"
    have old: "distinct (c_partial (?pool d))" "set (c_partial (?pool d)) = ?A ?m"
      using P d mg by (auto simp: partial_inv_def s2)
    have new: "?A ?m' = (if d = c then insert pg (?A ?m) else ?A ?m)"
    proof (rule set_eqI)
      fix q
      show "(q \<in> ?A ?m') = (q \<in> (if d = c then insert pg (?A ?m) else ?A ?m))"
        unfolding C(2) using pg by (cases "q = pg") auto
    qed
    show "distinct (c_partial (g_cache_pool s' d)) \<and> set (c_partial (g_cache_pool s' d)) = ?A (km_pmm s')"
    proof (cases "d = c \<and> pg_slab_free ?h = []")
      case True
      then have "pg \<notin> set (c_partial (?pool d))" using old(2) by simp
      then show ?thesis unfolding s2 new using True old by (simp add: pool')
    next
      case False
      then have "d = c \<Longrightarrow> pg \<in> ?A ?m" using pg by simp
      then have "?A ?m' = ?A ?m" unfolding new by auto
      then show ?thesis unfolding s2 using False old by (simp only: pool' if_False simp_thms)
    qed
  qed
qed

text \<open>An empty slab leaves the partial list and goes back to the buddy allocator.\<close>

lemma slab_release_ok:
  assumes I: "core_inv (g_cache_pool s) (g_cache_count s) (km_pmm s)"
    and P: "partial_inv (g_cache_pool s) (g_cache_count s) (km_pmm s)"
    and pg: "pg \<in> slabs (km_pmm s)" "pg_slab_cache (page_of s pg) = Some c"
    and rc: "pg_refcount (page_of s pg) = 0"
    and s': "s' = slab_release c pg (partial_remove c pg s)"
  shows "slab_inv s'" "live_objs s' = live_objs s" "g_cache_count s' = g_cache_count s"
    "same_layout (g_cache_pool s) (g_cache_pool s')" "\<And>d. c_magic (g_cache_pool s' d) = c_magic (g_cache_pool s d)"
proof -
  let ?pool = "g_cache_pool s" and ?m = "km_pmm s" and ?n = "g_cache_count s" and ?h = "page_of s pg"
  let ?f = "\<lambda>h. h\<lparr>pg_flags := pg_flags h AND NOT PG_SLAB, pg_slab_cache := None, pg_slab_free := [], pg_refcount := 0\<rparr>"
  define m' where "m' = pmm_free_pages (Some pg) (int (c_slab_order (?pool c))) (upd_page pg ?f ?m)"
  have f: "slab_only ?f" "pg_flags (?f ?h) AND PG_SLAB = 0" by (simp_all add: slab_only_def flags_slab_bits)
  note C = core_release_slab [OF I pg f m'_def]
  have s2: "km_pmm s' = m'" "g_cache_count s' = ?n"
    "g_cache_pool s' = ?pool(c := (?pool c)\<lparr>c_partial := remove1 pg (c_partial (?pool c))\<rparr>)"
    by (simp_all add: s' slab_release_def partial_remove_def Let_def m'_def)
  show sl: "same_layout ?pool (g_cache_pool s')" by (simp add: s2)
  show mg: "c_magic (g_cache_pool s' d) = c_magic (?pool d)" for d by (simp add: s2)
  show "g_cache_count s' = ?n" by (rule s2)
  obtain c: "c < ?n" "distinct (pg_slab_free ?h)" "set (pg_slab_free ?h) \<subseteq> objs (?pool c) pg"
    "unat (pg_refcount ?h) + length (pg_slab_free ?h) = unat (c_objects_per_slab (?pool c))"
    by (rule core_slab [OF I pg(1)]) (use pg(2) in auto)
  have "card (objs (?pool c) pg) \<le> card (set (pg_slab_free ?h))"
    using c rc card_image_le [of "{..<unat (c_objects_per_slab (?pool c))}"] by (simp add: objs_def distinct_card)
  then have allfree: "set (pg_slab_free ?h) = objs (?pool c) pg"
    using c(3) by (intro card_seteq) (auto simp: objs_def)
  have "live_in ?pool m' = live_in ?pool ?m"
  proof (rule set_eqI)
    fix x :: "nat \<times> nat"
    obtain d a where x: "x = (d, a)" by (cases x)
    have "x \<in> live_in ?pool m' \<longleftrightarrow> (\<exists>q \<in> slabs ?m - {pg}. pg_slab_cache (mem_map ?m q) = Some d \<and>
        a \<in> objs (?pool d) q \<and> a \<notin> set (pg_slab_free (mem_map ?m q)))"
      unfolding x live_in_def C(2) using C(3) by auto
    also have "\<dots> \<longleftrightarrow> x \<in> live_in ?pool ?m"
      unfolding x live_in_def using pg(2) allfree by auto
    finally show "(x \<in> live_in ?pool m') = (x \<in> live_in ?pool ?m)" .
  qed
  then show "live_objs s' = live_objs s" unfolding same_layout_cong [OF sl] unfolding s2 .
  have "partial_inv (g_cache_pool s') ?n m'"
    unfolding partial_inv_def
  proof (intro allI impI)
    fix d assume d: "d < ?n" "c_magic (g_cache_pool s' d) = SLAB_MAGIC"
    let ?A = "\<lambda>m. {q \<in> slabs m. pg_slab_cache (mem_map m q) = Some d \<and> pg_slab_free (mem_map m q) \<noteq> []}"
    have old: "distinct (c_partial (?pool d))" "set (c_partial (?pool d)) = ?A ?m"
      using P d mg by (auto simp: partial_inv_def)
    have "?A m' = ?A ?m - {pg}" unfolding C(2) using C(3) by auto
    moreover have "pg \<notin> ?A ?m" if "d \<noteq> c" using pg(2) that by simp
    moreover have "c_partial (g_cache_pool s' d) = (if d = c then remove1 pg (c_partial (?pool d)) else c_partial (?pool d))"
      by (simp add: s2(3))
    ultimately show "distinct (c_partial (g_cache_pool s' d)) \<and> set (c_partial (g_cache_pool s' d)) = ?A m'"
      using old by (cases "d = c") (simp_all only: if_True if_False simp_thms set_remove1_eq distinct_remove1 Diff_insert0 Diff_empty not_False_eq_True)
  qed
  moreover have "core_inv (g_cache_pool s') ?n m'" unfolding same_layout_cong [OF sl] by (rule C(1))
  ultimately show "slab_inv s'" unfolding slab_inv_def s2(1,2) by (rule conjI [rotated])
qed

lemma kmem_cache_free_ok:
  assumes I: "slab_inv s" and live: "(c, obj) \<in> live_objs s" and mg: "c_magic (g_cache_pool s c) = SLAB_MAGIC"
    and head: "phys_to_page obj \<in> slabs (km_pmm s)"
  shows "slab_inv (kmem_cache_free (Some c) obj s)"
    "live_objs (kmem_cache_free (Some c) obj s) = live_objs s - {(c, obj)}"
    "g_cache_count (kmem_cache_free (Some c) obj s) = g_cache_count s"
    "same_layout (g_cache_pool s) (g_cache_pool (kmem_cache_free (Some c) obj s))"
    "\<And>d. c_magic (g_cache_pool (kmem_cache_free (Some c) obj s) d) = c_magic (g_cache_pool s d)"
proof -
  let ?pg = "phys_to_page obj"
  have I': "core_inv (g_cache_pool s) (g_cache_count s) (km_pmm s)" "partial_inv (g_cache_pool s) (g_cache_count s) (km_pmm s)"
    using I by (auto simp: slab_inv_def)
  obtain q where q: "q \<in> slabs (km_pmm s)" "pg_slab_cache (page_of s q) = Some c" "obj \<in> objs (g_cache_pool s c) q"
    using live by (auto simp: live_in_def)
  obtain "layout_ok (g_cache_pool s c)" and sb: "slab_blk (g_cache_pool s) (km_pmm s) q = blk q (c_slab_order (g_cache_pool s c))"
    and al: "allocated (km_pmm s) q (c_slab_order (g_cache_pool s c))"
    by (rule core_slab [OF I'(1) q(1)]) (use q(2) in auto)
  then have "?pg \<in> slab_blk (g_cache_pool s) (km_pmm s) q" using objs_in_block(3) q(3) by simp
  moreover have "?pg \<in> slab_blk (g_cache_pool s) (km_pmm s) ?pg" by (simp add: slab_blk_def)
  ultimately have qpg: "q = ?pg" using I'(1) q(1) head unfolding core_inv_def by blast
  then have pg: "?pg \<in> slabs (km_pmm s)" "pg_slab_cache (page_of s ?pg) = Some c" "obj \<in> objs (g_cache_pool s c) ?pg"
    using q by simp_all
  define s2 where "s2 = slab_push c ?pg obj s"
  note Q = slab_push_ok [OF I' pg live s2_def]
  have "q \<in> managed (km_pmm s)" using al blk_mem [of q] unfolding allocated_def by blast
  then have "?pg \<noteq> 0" using I'(1) qpg unfolding core_inv_def by metis
  then have "obj \<noteq> 0" by (cases obj) (simp_all add: phys_to_page_def)
  note F = kmem_cache_free_eq [OF mg this pg(1,2), unfolded Let_def, folded s2_def]
  have "slab_inv (kmem_cache_free (Some c) obj s) \<and>
    live_objs (kmem_cache_free (Some c) obj s) = live_objs s - {(c, obj)} \<and>
    g_cache_count (kmem_cache_free (Some c) obj s) = g_cache_count s \<and>
    same_layout (g_cache_pool s) (g_cache_pool (kmem_cache_free (Some c) obj s)) \<and>
    (\<forall>d. c_magic (g_cache_pool (kmem_cache_free (Some c) obj s) d) = c_magic (g_cache_pool s d))"
  proof (cases "pg_refcount (page_of s2 ?pg) = 0 \<and> c_partial (g_cache_pool s2 c) \<noteq> [?pg]")
    case True
    then have e: "kmem_cache_free (Some c) obj s = slab_release c ?pg (partial_remove c ?pg s2)" using F by simp
    show ?thesis
      using slab_release_ok [OF Q(1-4) conjunct1 [OF True] e] Q(5-8) by (auto simp: same_layout_def)
  next
    case False
    have e: "kmem_cache_free (Some c) obj s = s2" unfolding F using False by (rule if_not_P)
    show ?thesis unfolding e slab_inv_def using Q by blast
  qed
  then show "slab_inv (kmem_cache_free (Some c) obj s)"
    "live_objs (kmem_cache_free (Some c) obj s) = live_objs s - {(c, obj)}"
    "g_cache_count (kmem_cache_free (Some c) obj s) = g_cache_count s"
    "same_layout (g_cache_pool s) (g_cache_pool (kmem_cache_free (Some c) obj s))"
    "\<And>d. c_magic (g_cache_pool (kmem_cache_free (Some c) obj s) d) = c_magic (g_cache_pool s d)"
    by blast+
qed

text \<open>A slab of one page: every object lies in the page whose header is the slab's.\<close>

lemma order0_head:
  assumes I: "core_inv pool n m" and pg: "pg \<in> slabs m" "pg_slab_cache (mem_map m pg) = Some c" "a \<in> objs (pool c) pg"
    and "c_slab_order (pool c) = 0"
  shows "phys_to_page a = pg"
proof -
  have "layout_ok (pool c)" by (rule core_slab [OF I pg(1)]) (use pg(2) in auto)
  from objs_in_block(3) [OF this pg(3)] assms(5) show ?thesis by (simp add: blk_def)
qed

text \<open>
  A slab of several pages: only the header of its first page says that it is a slab, so an object
  in another page is not recognised and the release is refused: the object is lost.
\<close>

lemma kmem_cache_free_inner_page:
  assumes I: "slab_inv s" and pg: "pg \<in> slabs (km_pmm s)" "pg_slab_cache (page_of s pg) = Some c"
    "obj \<in> objs (g_cache_pool s c) pg" and inner: "phys_to_page obj \<noteq> pg"
  shows "kmem_cache_free (Some d) obj s = s"
proof -
  have I': "core_inv (g_cache_pool s) (g_cache_count s) (km_pmm s)" using I by (simp add: slab_inv_def)
  have lay: "layout_ok (g_cache_pool s c)" and sb: "slab_blk (g_cache_pool s) (km_pmm s) pg = blk pg (c_slab_order (g_cache_pool s c))"
    by (rule core_slab [OF I' pg(1)]; use pg(2) in simp)+
  let ?q = "phys_to_page obj"
  have "?q \<notin> slabs (km_pmm s)"
  proof
    assume q: "?q \<in> slabs (km_pmm s)"
    then have "slab_blk (g_cache_pool s) (km_pmm s) pg \<inter> slab_blk (g_cache_pool s) (km_pmm s) ?q = {}"
      using I' pg(1) inner unfolding core_inv_def by blast
    moreover have "?q \<in> slab_blk (g_cache_pool s) (km_pmm s) ?q" by (simp add: slab_blk_def)
    ultimately show False using objs_in_block(3) [OF lay pg(3)] sb by blast
  qed
  then show ?thesis by (simp add: kmem_cache_free_def slabs_def Let_def)
qed

text \<open>Objects that are handed out do not overlap.\<close>

lemma live_extents_disjoint:
  assumes I: "core_inv pool n m" and a: "(c, a) \<in> live_in pool m" and b: "(d, b) \<in> live_in pool m"
    and ne: "(c, a) \<noteq> (d, b)"
  shows "extent (pool c) a \<inter> extent (pool d) b = {}"
proof -
  obtain p where p: "p \<in> slabs m" "pg_slab_cache (mem_map m p) = Some c" "a \<in> objs (pool c) p"
    using a by (auto simp: live_in_def)
  obtain q where q: "q \<in> slabs m" "pg_slab_cache (mem_map m q) = Some d" "b \<in> objs (pool d) q"
    using b by (auto simp: live_in_def)
  have lay: "layout_ok (pool c)" "slab_blk pool m p = blk p (c_slab_order (pool c))"
    by (rule core_slab [OF I p(1)]; use p(2) in simp)+
  have layd: "layout_ok (pool d)" "slab_blk pool m q = blk q (c_slab_order (pool d))"
    by (rule core_slab [OF I q(1)]; use q(2) in simp)+
  show ?thesis
  proof (cases "p = q")
    case True
    then have "c = d" using p(2) q(2) by simp
    then show ?thesis using extents_disjoint_same [OF lay(1) p(3)] q(3) True ne by simp
  next
    case False
    then have "blk p (c_slab_order (pool c)) \<inter> blk q (c_slab_order (pool d)) = {}"
      using I p(1) q(1) lay(2) layd(2) unfolding core_inv_def by metis
    then show ?thesis by (rule extents_disjoint_blocks [OF lay(1) layd(1) p(3) q(3)])
  qed
qed

end
