(* ===== verification/KmallocCorrect.thy ===== *)
theory KmallocCorrect
  imports SlabCorrect
begin

text \<open>
  Cache creation, the size classes of \<open>kmalloc.c\<close> and the whole-page path: \<open>kmalloc_ready\<close> is what
  \<open>kmalloc_init\<close> establishes and every \<open>kmalloc\<close> and \<open>kfree\<close> keeps.
\<close>

section \<open>\<open>calc_layout\<close> and \<open>kmem_cache_create\<close>\<close>

lemma slab_bytes: "order < MAX_ORDER \<Longrightarrow> unat (push_bit order (of_nat PAGE_SIZE :: u64)) = PAGE_SIZE * 2 ^ order"
proof -
  assume o: "order < MAX_ORDER"
  then have "(2::nat) ^ order \<le> 2 ^ 9" by (intro power_increasing) (auto simp: kernel_defs)
  then have "PAGE_SIZE * 2 ^ order < 2 ^ 64" by (simp add: PAGE_SIZE_def)
  then show ?thesis
    using unat_pow2 [OF o] by (simp add: push_bit_eq_mult PAGE_SIZE_def unat_word_ariths)
qed

text \<open>The least order at which two objects fit, with as many objects as fit.\<close>

lemma layout_loop_Some:
  "layout_loop z k = Some (n, order) \<Longrightarrow> k \<le> order \<and> order < MAX_ORDER \<and>
     unat n = PAGE_SIZE * 2 ^ order div unat z \<and> 2 \<le> unat n \<and>
     (\<forall>j. k \<le> j \<and> j < order \<longrightarrow> PAGE_SIZE * 2 ^ j div unat z < 2)"
proof (induction z k rule: layout_loop.induct)
  case (1 z k)
  let ?b = "push_bit k (of_nat PAGE_SIZE :: u64)"
  have k: "k < MAX_ORDER" using "1.prems" by (subst (asm) layout_loop.simps) (auto split: if_splits)
  note b = slab_bytes [OF k]
  show ?case
  proof (cases "?b div z \<ge> 2")
    case True
    then have "layout_loop z k = Some (?b div z, k)" using k by (subst layout_loop.simps) (simp add: Let_def)
    then have "n = ?b div z \<and> order = k" using "1.prems" by simp
    moreover have "unat (?b div z) = PAGE_SIZE * 2 ^ k div unat z" using b by (simp add: unat_div)
    moreover have "2 \<le> unat (?b div z)" using True by (simp add: word_le_nat_alt)
    ultimately show ?thesis using k by auto
  next
    case False
    then have r: "layout_loop z (Suc k) = Some (n, order)" using "1.prems" k by (subst (asm) layout_loop.simps) (simp add: Let_def)
    have "PAGE_SIZE * 2 ^ k div unat z < 2" using False b by (simp add: word_le_nat_alt unat_div)
    then show ?thesis using "1.IH" [OF k refl refl False r] by (metis Suc_leD Suc_leI le_neq_implies_less)
  qed
qed

lemma layout_loop_None:
  "layout_loop z k = None \<longleftrightarrow> (\<forall>j. k \<le> j \<and> j < MAX_ORDER \<longrightarrow> PAGE_SIZE * 2 ^ j div unat z < 2)"
proof (induction z k rule: layout_loop.induct)
  case (1 z k)
  let ?b = "push_bit k (of_nat PAGE_SIZE :: u64)"
  show ?case
  proof (cases "k < MAX_ORDER")
    case False
    then show ?thesis by (subst layout_loop.simps) auto
  next
    case True
    have "2 \<le> ?b div z \<longleftrightarrow> \<not> PAGE_SIZE * 2 ^ k div unat z < 2"
      using slab_bytes [OF True] by (simp add: word_le_nat_alt unat_div not_less)
    moreover have "layout_loop z k = (if 2 \<le> ?b div z then Some (?b div z, k) else layout_loop z (Suc k))"
      using True by (subst layout_loop.simps) (simp add: Let_def)
    moreover have "(\<forall>j. k \<le> j \<and> j < MAX_ORDER \<longrightarrow> PAGE_SIZE * 2 ^ j div unat z < 2) \<longleftrightarrow>
        PAGE_SIZE * 2 ^ k div unat z < 2 \<and> (\<forall>j. Suc k \<le> j \<and> j < MAX_ORDER \<longrightarrow> PAGE_SIZE * 2 ^ j div unat z < 2)"
      using True by (metis Suc_leD Suc_leI le_neq_implies_less order_refl)
    ultimately show ?thesis using "1.IH" [OF True refl refl] by (cases "2 \<le> ?b div z") simp_all
  qed
qed

lemma calc_layout_ok:
  assumes "calc_layout z = Some (n, order)" "8 \<le> unat z"
  shows "order < MAX_ORDER \<and> 2 \<le> unat n \<and> unat n * unat z \<le> PAGE_SIZE * 2 ^ order"
proof -
  have "layout_loop z 0 = Some (n, order)" using assms by (simp add: calc_layout_def word_less_nat_alt)
  then show ?thesis using layout_loop_Some [of z 0 n order] by simp
qed

lemma slab_init_id: "g_slab_inited s \<Longrightarrow> slab_init s = s"
  by (simp add: slab_init_def)

lemma kmem_cache_create_ok:
  assumes I: "slab_inv s" and ini: "g_slab_inited s" and r: "kmem_cache_create name sz al s = (Some c, s')"
  shows "slab_inv s'" "live_objs s' = live_objs s" "c = g_cache_count s" "g_cache_count s' = Suc c"
    "\<And>d. d \<noteq> c \<Longrightarrow> g_cache_pool s' d = g_cache_pool s d" "c_magic (g_cache_pool s' c) = SLAB_MAGIC"
    "km_pmm s' = km_pmm s" "g_slab_inited s'" "class_cache s' = class_cache s" "c < SLAB_MAX_CACHES"
    "c_object_size (g_cache_pool s' c) =
       (let osz = round_up sz (if al < 8 then 8 else al) in if osz < 8 then 8 else osz)"
    "calc_layout (c_object_size (g_cache_pool s' c)) =
       Some (c_objects_per_slab (g_cache_pool s' c), c_slab_order (g_cache_pool s' c))"
proof -
  define osz where "osz = (let osz = round_up sz (if al < 8 then 8 else al) in if osz < 8 then 8 else osz)"
  obtain n order where lay: "calc_layout osz = Some (n, order)"
    and c: "c = g_cache_count s" "g_cache_count s < SLAB_MAX_CACHES"
    and s': "s' = s\<lparr>g_cache_count := Suc c, g_cache_pool := (g_cache_pool s)(c :=
       \<lparr>c_name = str_copy_trunc name SLAB_MAX_NAME, c_object_size = osz, c_objects_per_slab = n,
        c_slab_order = order, c_partial = [], c_magic = SLAB_MAGIC\<rparr>)\<rparr>"
    using r ini unfolding kmem_cache_create_def osz_def [symmetric] Let_def
    by (auto simp: osz_def Let_def split: if_splits option.splits prod.splits)
  show "c = g_cache_count s" "g_cache_count s' = Suc c" "\<And>d. d \<noteq> c \<Longrightarrow> g_cache_pool s' d = g_cache_pool s d"
    "c_magic (g_cache_pool s' c) = SLAB_MAGIC" "km_pmm s' = km_pmm s" "g_slab_inited s'" "class_cache s' = class_cache s"
    "c < SLAB_MAX_CACHES"
    "calc_layout (c_object_size (g_cache_pool s' c)) =
       Some (c_objects_per_slab (g_cache_pool s' c), c_slab_order (g_cache_pool s' c))"
    using c ini lay by (simp_all add: s')
  show "c_object_size (g_cache_pool s' c) =
       (let osz = round_up sz (if al < 8 then 8 else al) in if osz < 8 then 8 else osz)"
    by (simp add: s' osz_def)
  have "8 \<le> unat osz" by (auto simp: osz_def Let_def word_less_nat_alt not_less)
  then have newlay: "layout_ok (g_cache_pool s' c)"
    using calc_layout_ok [OF lay] by (simp add: s' layout_ok_def)
  have I': "core_inv (g_cache_pool s) c (km_pmm s)" "partial_inv (g_cache_pool s) c (km_pmm s)"
    using I c by (auto simp: slab_inv_def)
  have own: "\<exists>d<c. pg_slab_cache (page_of s pg) = Some d" if "pg \<in> slabs (km_pmm s)" for pg
    by (rule core_slab [OF I'(1) that]) auto
  have pool: "g_cache_pool s' d = g_cache_pool s d" if "d < c" for d using that by (simp add: s')
  have "slab_page_ok (g_cache_pool s') (Suc c) (km_pmm s) pg" if "pg \<in> slabs (km_pmm s)" for pg
  proof -
    have "slab_page_ok (g_cache_pool s) c (km_pmm s) pg" using I'(1) that by (simp add: core_inv_def)
    then show ?thesis using own [OF that] pool by (auto simp: slab_page_ok_def)
  qed
  moreover have "slab_blk (g_cache_pool s') (km_pmm s) pg = slab_blk (g_cache_pool s) (km_pmm s) pg"
    if "pg \<in> slabs (km_pmm s)" for pg using own [OF that] pool by (auto simp: slab_blk_def owner_def)
  moreover have "\<forall>d<Suc c. layout_ok (g_cache_pool s' d)"
    using I'(1) newlay pool by (auto simp: core_inv_def less_Suc_eq)
  ultimately have "core_inv (g_cache_pool s') (Suc c) (km_pmm s)" using I'(1) unfolding core_inv_def by simp
  moreover have "partial_inv (g_cache_pool s') (Suc c) (km_pmm s)"
    using I'(2) pool own unfolding partial_inv_def less_Suc_eq by (fastforce simp: s')
  ultimately show "slab_inv s'" unfolding slab_inv_def by (simp add: s')
  show "live_objs s' = live_objs s"
    using own pool by (fastforce simp: live_in_def s')
qed

section \<open>Size classes\<close>

text \<open>\<open>class_of\<close> picks the smallest class that is large enough, and none above 2048 bytes.\<close>

lemma class_of_cases:
  "class_of sz =
     (if sz \<le> 8 then Some 0 else if sz \<le> 16 then Some 1 else if sz \<le> 32 then Some 2
      else if sz \<le> 64 then Some 3 else if sz \<le> 128 then Some 4 else if sz \<le> 256 then Some 5
      else if sz \<le> 512 then Some 6 else if sz \<le> 1024 then Some 7 else if sz \<le> 2048 then Some 8 else None)"
proof -
  have u: "class_loop sz i = (if i < 9 then if sz \<le> class_sizes ! i then Some i else class_loop sz (Suc i) else None)" for i
    by (subst class_loop.simps) (simp add: NUM_CLASSES_def)
  have c: "class_loop sz 9 = None" by (subst u) simp
  have "class_loop sz 8 = (if sz \<le> 2048 then Some 8 else None)" by (subst u) (simp add: class_sizes_def c)
  then have "class_loop sz 7 = (if sz \<le> 1024 then Some 7 else if sz \<le> 2048 then Some 8 else None)"
    by (subst u) (simp add: class_sizes_def)
  then have "class_loop sz 6 = (if sz \<le> 512 then Some 6 else if sz \<le> 1024 then Some 7 else if sz \<le> 2048 then Some 8 else None)"
    by (subst u) (simp add: class_sizes_def)
  then have "class_loop sz 5 = (if sz \<le> 256 then Some 5 else if sz \<le> 512 then Some 6 else if sz \<le> 1024 then Some 7
      else if sz \<le> 2048 then Some 8 else None)"
    by (subst u) (simp add: class_sizes_def)
  then have "class_loop sz 4 = (if sz \<le> 128 then Some 4 else if sz \<le> 256 then Some 5 else if sz \<le> 512 then Some 6
      else if sz \<le> 1024 then Some 7 else if sz \<le> 2048 then Some 8 else None)"
    by (subst u) (simp add: class_sizes_def)
  then have "class_loop sz 3 = (if sz \<le> 64 then Some 3 else if sz \<le> 128 then Some 4 else if sz \<le> 256 then Some 5
      else if sz \<le> 512 then Some 6 else if sz \<le> 1024 then Some 7 else if sz \<le> 2048 then Some 8 else None)"
    by (subst u) (simp add: class_sizes_def)
  then have "class_loop sz 2 = (if sz \<le> 32 then Some 2 else if sz \<le> 64 then Some 3 else if sz \<le> 128 then Some 4
      else if sz \<le> 256 then Some 5 else if sz \<le> 512 then Some 6 else if sz \<le> 1024 then Some 7
      else if sz \<le> 2048 then Some 8 else None)"
    by (subst u) (simp add: class_sizes_def)
  then have "class_loop sz 1 = (if sz \<le> 16 then Some 1 else if sz \<le> 32 then Some 2 else if sz \<le> 64 then Some 3
      else if sz \<le> 128 then Some 4 else if sz \<le> 256 then Some 5 else if sz \<le> 512 then Some 6
      else if sz \<le> 1024 then Some 7 else if sz \<le> 2048 then Some 8 else None)"
    by (subst u) (simp add: class_sizes_def numeral_2_eq_2 [symmetric])
  then show ?thesis unfolding class_of_def by (subst u) (simp add: class_sizes_def)
qed

lemma class_of_props:
  "class_of sz = Some i \<Longrightarrow> i < 9 \<and> sz \<le> class_sizes ! i"
  "class_of sz = None \<longleftrightarrow> 2048 < sz"
proof -
  have "2048 < sz \<Longrightarrow> class_of sz = None"
    by (auto simp: class_of_cases word_le_nat_alt word_less_nat_alt)
  moreover have "\<not> 2048 < sz \<Longrightarrow> class_of sz \<noteq> None"
    by (auto simp: class_of_cases)
  ultimately show "class_of sz = None \<longleftrightarrow> 2048 < sz" by blast
  show "class_of sz = Some i \<Longrightarrow> i < 9 \<and> sz \<le> class_sizes ! i"
    by (auto simp: class_of_cases class_sizes_def split: if_splits)
qed

section \<open>The state \<open>kmalloc_init\<close> sets up\<close>

definition class_ok :: "slab_state \<Rightarrow> nat \<Rightarrow> bool" where
  "class_ok s i \<longleftrightarrow>
     (case class_cache s i of
        None \<Rightarrow> False
      | Some c \<Rightarrow> c < g_cache_count s \<and> c_magic (g_cache_pool s c) = SLAB_MAGIC \<and>
          c_object_size (g_cache_pool s c) = class_sizes ! i \<and> c_slab_order (g_cache_pool s c) = 0)"

definition kmalloc_ready :: "slab_state \<Rightarrow> bool" where
  "kmalloc_ready s \<longleftrightarrow> slab_inv s \<and> (\<forall>i<9. class_ok s i)"

lemma class_layout:
  "i < 9 \<Longrightarrow> round_up (class_sizes ! i) 8 = class_sizes ! i \<and> \<not> class_sizes ! i < 8 \<and>
    class_sizes ! i \<noteq> 0 \<and> calc_layout (class_sizes ! i) = Some (4096 div class_sizes ! i, 0)"
proof -
  assume "i < 9"
  then have "i \<in> {0,1,2,3,4,5,6,7,8}" by auto
  moreover have l: "2 \<le> (4096 :: u64) div z \<Longrightarrow> layout_loop z 0 = Some (4096 div z, 0)" for z
    by (subst layout_loop.simps) (simp add: Let_def kernel_defs)
  ultimately show ?thesis by (auto simp: class_sizes_def round_up_def calc_layout_def l)
qed

lemma class_create_ok:
  assumes I: "slab_inv s" and ini: "g_slab_inited s" and i: "i < 9" and cnt: "g_cache_count s < SLAB_MAX_CACHES"
    and s'_def: "s' = class_create i s"
  shows "slab_inv s'" "g_slab_inited s'" "g_cache_count s' = Suc (g_cache_count s)" "km_pmm s' = km_pmm s" "class_ok s' i"
    "\<And>j. j \<noteq> i \<Longrightarrow> class_ok s j \<Longrightarrow> class_ok s' j"
proof -
  note L = class_layout [OF i]
  let ?name = "Some (class_name i)"
  obtain c s1 where r: "kmem_cache_create ?name (class_sizes ! i) 8 s = (c, s1)" by fastforce
  have s': "s' = s1\<lparr>class_cache := (class_cache s1)(i := c)\<rparr>" by (simp add: s'_def class_create_def r)
  have "fst (kmem_cache_create ?name (class_sizes ! i) 8 s) = Some (g_cache_count s)"
    using ini cnt L by (simp add: kmem_cache_create_def Let_def)
  then have c: "c = Some (g_cache_count s)" using r by simp
  note C = kmem_cache_create_ok [OF I ini r [unfolded c]]
  have sz: "c_object_size (g_cache_pool s1 (g_cache_count s)) = class_sizes ! i"
    using C(11) L by (simp add: Let_def)
  have ord: "c_slab_order (g_cache_pool s1 (g_cache_count s)) = 0"
    using C(12) L unfolding sz by simp
  show "slab_inv s'" using C(1) by (simp add: s' slab_inv_def)
  show "g_slab_inited s'" "g_cache_count s' = Suc (g_cache_count s)" "km_pmm s' = km_pmm s"
    using C(4,7,8) by (simp_all add: s')
  show "class_ok s' i" using C(4,6) sz ord by (simp add: s' c class_ok_def)
  show "class_ok s' j" if "j \<noteq> i" "class_ok s j" for j
    using that C(4,5,9) by (auto simp: s' class_ok_def split: option.splits)
qed

lemma classes_ok:
  assumes "slab_inv s" "g_slab_inited s" "g_cache_count s = 0" "n \<le> 9"
  shows "slab_inv (fold class_create [0..<n] s) \<and> g_slab_inited (fold class_create [0..<n] s) \<and>
    g_cache_count (fold class_create [0..<n] s) = n \<and> km_pmm (fold class_create [0..<n] s) = km_pmm s \<and>
    (\<forall>i<n. class_ok (fold class_create [0..<n] s) i)"
  using assms(4)
proof (induction n)
  case 0
  then show ?case using assms(1-3) by simp
next
  case (Suc n)
  define t where "t = fold class_create [0..<n] s"
  have t: "slab_inv t" "g_slab_inited t" "g_cache_count t = n" "km_pmm t = km_pmm s" "\<forall>i<n. class_ok t i"
    using Suc unfolding t_def by simp_all
  have "n < 9" "g_cache_count t < SLAB_MAX_CACHES" using Suc.prems t(3) by (simp_all add: SLAB_MAX_CACHES_def)
  note C = class_create_ok [OF t(1,2) this refl]
  have "fold class_create [0..<Suc n] s = class_create n t" by (simp add: t_def)
  moreover have "\<forall>i<Suc n. class_ok (class_create n t) i" using C(5,6) t(5) by (auto simp: less_Suc_eq)
  ultimately show ?case using C(1-4) t(3,4) by (simp del: upt_Suc)
qed

lemma kmalloc_init_ready:
  assumes "pmm_inv (km_pmm s)" "0 \<notin> managed (km_pmm s)" "slabs (km_pmm s) = {}" "\<not> g_slab_inited s"
  shows "kmalloc_ready (kmalloc_init s)" "live_objs (kmalloc_init s) = {}" "km_pmm (kmalloc_init s) = km_pmm s"
proof -
  have "slab_inv (slab_init s)" "g_slab_inited (slab_init s)" "g_cache_count (slab_init s) = 0"
    "km_pmm (slab_init s) = km_pmm s"
    using assms by (auto simp: slab_init_def slab_inv_def core_inv_def partial_inv_def)
  with classes_ok [of "slab_init s" 9] show "kmalloc_ready (kmalloc_init s)" "km_pmm (kmalloc_init s) = km_pmm s"
    by (auto simp: kmalloc_init_def NUM_CLASSES_def kmalloc_ready_def)
  then show "live_objs (kmalloc_init s) = {}" using assms(3) by (simp add: live_in_def)
qed

section \<open>\<open>kmalloc\<close> and \<open>kfree\<close>\<close>

lemma same_class_ok:
  assumes "same_layout (g_cache_pool s) (g_cache_pool s')" "\<forall>d. c_magic (g_cache_pool s' d) = c_magic (g_cache_pool s d)"
    "g_cache_count s' = g_cache_count s" "class_cache s' = class_cache s"
  shows "class_ok s' i = class_ok s i"
  using assms by (cases "class_cache s i") (simp_all add: class_ok_def same_layout_def)

lemma class_cache_alloc [simp]: "class_cache (snd (kmem_cache_alloc c s)) = class_cache s"
  by (auto simp: kmem_cache_alloc_def slab_pop_def slab_new_def partial_remove_def upd_cache_def upd_slab_page_def
      Let_def split: option.splits list.splits prod.splits)

lemma class_cache_free [simp]: "class_cache (kmem_cache_free c obj s) = class_cache s"
  by (auto simp: kmem_cache_free_def slab_release_def partial_remove_def upd_cache_def upd_slab_page_def
      Let_def split: option.splits)

text \<open>A request served by a size class.\<close>

lemma kmalloc_class_ok:
  assumes R: "kmalloc_ready s" and sz: "sz \<noteq> 0" "sz \<le> 2048" and r: "kmalloc sz s = (p, s')"
  shows "kmalloc_ready s' \<and> (p = 0 \<and> live_objs s' = live_objs s \<and> fst (pmm_alloc_pages 0 (km_pmm s)) = None \<or>
    (\<exists>c. 0 < p \<and> (c, p) \<notin> live_objs s \<and> live_objs s' = insert (c, p) (live_objs s) \<and>
       unat sz \<le> unat (c_object_size (g_cache_pool s' c)) \<and> same_layout (g_cache_pool s) (g_cache_pool s') \<and>
       kmalloc_ready (kfree p s') \<and>
       live_objs (kfree p s') = live_objs s))"
proof -
  obtain i where i: "class_of sz = Some i" using class_of_props(2) [of sz] sz(2) by fastforce
  note ip = class_of_props(1) [OF i]
  then have ok: "class_ok s i" using R by (simp add: kmalloc_ready_def)
  then obtain c where c: "class_cache s i = Some c" "c < g_cache_count s" "c_magic (g_cache_pool s c) = SLAB_MAGIC"
    "c_object_size (g_cache_pool s c) = class_sizes ! i" "c_slab_order (g_cache_pool s c) = 0"
    by (auto simp: class_ok_def split: option.splits)
  have I: "slab_inv s" using R by (simp add: kmalloc_ready_def)
  have a: "kmem_cache_alloc (Some c) s = (p, s')" using r i c(1) sz(1) by (auto simp: kmalloc_def)
  note A = kmem_cache_alloc_ok [OF I c(2,3) a]
  have cc: "class_cache s' = class_cache s" using class_cache_alloc [of "Some c" s] a by simp
  have "kmalloc_ready s'"
    using A same_class_ok [of s s', OF _ _ _ cc] R by (simp add: kmalloc_ready_def)
  moreover have "kmalloc_ready (kfree p s') \<and> live_objs (kfree p s') = live_objs s"
    if l: "(c, p) \<notin> live_objs s" "live_objs s' = insert (c, p) (live_objs s)" "0 < p"
  proof -
    have I': "slab_inv s'" and lp: "(c, p) \<in> live_objs s'" and mg: "c_magic (g_cache_pool s' c) = SLAB_MAGIC"
      using A c(3) l by auto
    obtain pg where pg: "pg \<in> slabs (km_pmm s')" "pg_slab_cache (page_of s' pg) = Some c" "p \<in> objs (g_cache_pool s' c) pg"
      using lp by (auto simp: live_in_def)
    have h: "phys_to_page p = pg"
      using order0_head [of "g_cache_pool s'" "g_cache_count s'" "km_pmm s'" pg c p] pg I' A c(5)
      by (simp add: slab_inv_def same_layout_def)
    have e: "kfree p s' = kmem_cache_free (Some c) p s'"
      using pg(1,2) l(3) by (simp add: kfree_def h slabs_def)
    have hd: "phys_to_page p \<in> slabs (km_pmm s')" using h pg(1) by simp
    note F = kmem_cache_free_ok [OF I' lp mg hd]
    have "class_ok (kmem_cache_free (Some c) p s') j = class_ok s' j" for j
      by (rule same_class_ok) (use F(3-5) in simp_all)
    then show ?thesis unfolding e using F(1,2) l \<open>kmalloc_ready s'\<close> by (simp add: kmalloc_ready_def)
  qed
  moreover have "unat sz \<le> unat (c_object_size (g_cache_pool s' c))"
    using ip c(4) A by (simp add: word_le_nat_alt same_layout_def)
  ultimately show ?thesis using A c(5) by auto
qed

text \<open>A step of the buddy allocator that leaves every slab page alone.\<close>

definition keeps_slabs :: "(nat \<Rightarrow> kmem_cache) \<Rightarrow> pmm_state \<Rightarrow> pmm_state \<Rightarrow> bool" where
  "keeps_slabs pool m m' \<longleftrightarrow> pmm_inv m' \<and> managed m' = managed m \<and> slabs m' = slabs m \<and>
     (\<forall>pg \<in> slabs m. mem_map m' pg = mem_map m pg \<and>
        (\<forall>k. slab_blk pool m pg = blk pg k \<longrightarrow> allocated m pg k \<longrightarrow> allocated m' pg k))"

lemma keeps_slabs_inv:
  assumes I: "slab_inv s" and k: "keeps_slabs (g_cache_pool s) (km_pmm s) m'" and s': "s' = s\<lparr>km_pmm := m'\<rparr>"
  shows "slab_inv s'" "live_objs s' = live_objs s"
proof -
  let ?m = "km_pmm s" and ?pool = "g_cache_pool s" and ?n = "g_cache_count s"
  have I': "core_inv ?pool ?n ?m" "partial_inv ?pool ?n ?m" using I by (auto simp: slab_inv_def)
  have sl: "slabs m' = slabs ?m" and mm: "\<And>pg. pg \<in> slabs ?m \<Longrightarrow> mem_map m' pg = mem_map ?m pg"
    using k by (auto simp: keeps_slabs_def)
  have "slab_page_ok ?pool ?n m' pg" if pg: "pg \<in> slabs ?m" for pg
  proof (rule core_slab [OF I'(1) pg])
    fix c assume c: "pg_slab_cache (page_of s pg) = Some c" "allocated ?m pg (c_slab_order (?pool c))"
      "slab_blk ?pool ?m pg = blk pg (c_slab_order (?pool c))"
    then have "allocated m' pg (c_slab_order (?pool c))" using k pg by (simp add: keeps_slabs_def)
    moreover have "slab_page_ok ?pool ?n ?m pg" using I'(1) pg by (simp add: core_inv_def)
    ultimately show ?thesis using c(1) mm [OF pg] by (simp add: slab_page_ok_def)
  qed
  moreover have "slab_blk ?pool m' pg = slab_blk ?pool ?m pg" if "pg \<in> slabs ?m" for pg
    using mm [OF that] by (simp add: slab_blk_def owner_def)
  ultimately have "core_inv ?pool ?n m'"
    using I'(1) k unfolding core_inv_def keeps_slabs_def by simp
  moreover have "partial_inv ?pool ?n m'"
  proof -
    have "{pg \<in> slabs m'. pg_slab_cache (mem_map m' pg) = Some d \<and> pg_slab_free (mem_map m' pg) \<noteq> []} =
        {pg \<in> slabs ?m. pg_slab_cache (mem_map ?m pg) = Some d \<and> pg_slab_free (mem_map ?m pg) \<noteq> []}" for d
      unfolding sl using mm by auto
    then show ?thesis using I'(2) unfolding partial_inv_def by simp
  qed
  ultimately show "slab_inv s'" by (simp add: slab_inv_def s')
  show "live_objs s' = live_objs s" unfolding live_in_def s' using sl mm by auto
qed

lemma keeps_ready:
  assumes "kmalloc_ready s" "keeps_slabs (g_cache_pool s) (km_pmm s) m'"
  shows "kmalloc_ready (s\<lparr>km_pmm := m'\<rparr>)" "live_objs (s\<lparr>km_pmm := m'\<rparr>) = live_objs s"
proof -
  have "class_ok (s\<lparr>km_pmm := m'\<rparr>) i = class_ok s i" for i
    by (rule same_class_ok) (simp_all add: same_layout_def)
  then show "kmalloc_ready (s\<lparr>km_pmm := m'\<rparr>)" "live_objs (s\<lparr>km_pmm := m'\<rparr>) = live_objs s"
    using keeps_slabs_inv [OF _ assms(2) refl] assms(1) by (auto simp: kmalloc_ready_def)
qed

lemma plain_page_ok:
  assumes R: "kmalloc_ready s" and r: "plain_page s = (Some pg, s')"
  shows "kmalloc_ready s'" "live_objs s' = live_objs s" "allocated (km_pmm s') pg 0" "pg \<noteq> 0" "pg \<notin> slabs (km_pmm s')"
    "\<And>q. q \<in> slabs (km_pmm s) \<Longrightarrow> pg \<notin> slab_blk (g_cache_pool s) (km_pmm s) q"
    "g_cache_pool s' = g_cache_pool s"
    "\<And>q. q \<in> slabs (km_pmm s') \<Longrightarrow> q \<in> slabs (km_pmm s) \<and> page_of s' q = page_of s q"
proof -
  let ?f = "\<lambda>h. h\<lparr>pg_flags := pg_flags h AND NOT PG_SLAB, pg_slab_cache := None, pg_slab_free := []\<rparr>"
  let ?m = "km_pmm s" and ?pool = "g_cache_pool s"
  obtain m1 where al: "pmm_alloc_pages 0 ?m = (Some pg, m1)" and s': "s' = s\<lparr>km_pmm := upd_page pg ?f m1\<rparr>"
    using r by (auto simp: plain_page_def split: prod.splits option.splits)
  have I': "core_inv ?pool (g_cache_count s) ?m" using R by (simp add: kmalloc_ready_def slab_inv_def)
  then have inv: "pmm_inv ?m" "0 \<notin> managed ?m" by (auto simp: core_inv_def)
  have o: "0 \<le> (0::int)" "0 < int MAX_ORDER" by (simp_all add: MAX_ORDER_def)
  note A = pmm_alloc_Some [OF inv(1) o al, simplified]
  have free: "pg \<in> free_frames ?m" using A(4) by auto
  have "pg \<in> managed ?m" using inv(1) free by (auto simp: pmm_inv_def)
  then show "pg \<noteq> 0" using inv(2) by metis
  have nsl: "pg \<notin> slabs ?m" using slab_not_free [OF I'] free by blast
  have f: "slab_only ?f" by (simp add: slab_only_def flags_slab_bits)
  have old: "mem_map m1 q = mem_map ?m q" if "q \<in> slabs ?m" for q
    using A(7) slab_not_free [OF I' that] by blast
  have "slabs m1 \<subseteq> slabs ?m"
  proof
    fix q assume q: "q \<in> slabs m1"
    have "mem_map m1 q = mem_map ?m q"
      using pmm_alloc_flags [OF al, of q] q by (auto simp: slabs_def flags_slab_bits)
    then show "q \<in> slabs ?m" using q by (simp add: slabs_def)
  qed
  then have "slabs (upd_page pg ?f m1) = slabs ?m"
    using old nsl by (auto simp: slabs_def flags_slab_bits split: if_splits)
  moreover have "pg \<notin> free_frames m1" using A(5) blk_mem [of pg 0] by simp
  ultimately have k: "keeps_slabs ?pool ?m (upd_page pg ?f m1)"
    using upd_held_inv [OF A(1) _ f] upd_held_managed [OF f, of pg m1] A(6) old nsl
      upd_held_allocated [OF f] pmm.alloc_keeps [OF inv(1) al]
    unfolding keeps_slabs_def by fastforce
  from keeps_ready [OF R this] show "kmalloc_ready s'" "live_objs s' = live_objs s" by (simp_all only: s')
  show "allocated (km_pmm s') pg 0"
    using pmm_alloc_allocated [OF inv(1) o al] upd_held_allocated [OF f] by (simp add: s')
  show "pg \<notin> slabs (km_pmm s')" using nsl k by (simp add: s' keeps_slabs_def)
  show "pg \<notin> slab_blk ?pool ?m q" if "q \<in> slabs ?m" for q
    by (rule core_slab [OF I' that]) (use free in \<open>auto simp: allocated_def\<close>)
  show "g_cache_pool s' = ?pool" by (simp add: s')
  show "q \<in> slabs ?m \<and> page_of s' q = page_of s q" if "q \<in> slabs (km_pmm s')" for q
    using that k by (simp add: s' keeps_slabs_def)
qed

text \<open>Releasing a whole page that no slab covers.\<close>

lemma kfree_plain_ok:
  assumes R: "kmalloc_ready s" and a: "allocated (km_pmm s) pg 0" "pg \<noteq> 0" "pg \<notin> slabs (km_pmm s)"
    and dis: "\<And>q. q \<in> slabs (km_pmm s) \<Longrightarrow> pg \<notin> slab_blk (g_cache_pool s) (km_pmm s) q"
  shows "kmalloc_ready (kfree (page_to_phys pg) s)" "live_objs (kfree (page_to_phys pg) s) = live_objs s"
    "free_frames (km_pmm (kfree (page_to_phys pg) s)) = insert pg (free_frames (km_pmm s))"
proof -
  let ?m = "km_pmm s" and ?m' = "pmm_free_pages (Some pg) (int 0) (km_pmm s)"
  have I': "core_inv (g_cache_pool s) (g_cache_count s) ?m" using R by (simp add: kmalloc_ready_def slab_inv_def)
  then have inv: "pmm_inv ?m" by (simp add: core_inv_def)
  have h: "phys_to_page (page_to_phys pg) = pg" by (simp add: phys_to_page_def page_to_phys_def PAGE_SIZE_def)
  have "page_to_phys pg \<noteq> 0" using a(2) by (simp add: page_to_phys_def PAGE_SIZE_def)
  moreover have "pg_order (mem_map ?m pg) = 0" using a(1) by (simp add: allocated_def)
  ultimately have e: "kfree (page_to_phys pg) s = s\<lparr>km_pmm := ?m'\<rparr>"
    using a(3) by (simp add: kfree_def h slabs_def)
  note F = pmm_free_ok [OF inv a(1)]
  have old: "mem_map ?m' q = mem_map ?m q" if "q \<in> slabs ?m" for q
    using F(4) [of q] slab_not_free [OF I' that] a(3) that by (auto simp: blk_def)
  have "slabs ?m' \<subseteq> slabs ?m"
  proof
    fix q assume q: "q \<in> slabs ?m'"
    have "mem_map ?m' q = mem_map ?m q"
      using pmm_free_flags [of "Some pg" "int 0" ?m q] q by (auto simp: slabs_def flags_slab_bits)
    then show "q \<in> slabs ?m" using q by (simp add: slabs_def)
  qed
  then have sl: "slabs ?m' = slabs ?m" using old by (auto simp: slabs_def)
  have "allocated ?m' q k" if "q \<in> slabs ?m" "slab_blk (g_cache_pool s) ?m q = blk q k" "allocated ?m q k" for q k
  proof (rule pmm.release_keeps [OF inv a(1) that(3)])
    show "blk pg 0 \<inter> blk q k = {}" using dis [OF that(1)] that(2) by (auto simp: blk_def)
  qed
  then have "keeps_slabs (g_cache_pool s) ?m ?m'"
    using F(1,3) sl old unfolding keeps_slabs_def by blast
  from keeps_ready [OF R this] show "kmalloc_ready (kfree (page_to_phys pg) s)" "live_objs (kfree (page_to_phys pg) s) = live_objs s"
    by (simp_all only: e)
  show "free_frames (km_pmm (kfree (page_to_phys pg) s)) = insert pg (free_frames ?m)"
    using F(2) by (simp add: e blk_def)
qed

end
