(* ===== verification/SlabProps.thy ===== *)
theory SlabProps
  imports KmallocCorrect
begin

text \<open>The properties of \<open>slab.c\<close> and \<open>kmalloc.c\<close>, and a small machine for their witnesses.\<close>

section \<open>A small machine\<close>

text \<open>Frames 4..7 are managed and form one free block; no cache exists yet.\<close>

definition wit_km :: slab_state where
  "wit_km =
     \<lparr>km_pmm = \<lparr>mem_map = (\<lambda>f. if f = 4 then fresh_page\<lparr>pg_order := 2, pg_flags := PG_FREE\<rparr>
                     else if 4 \<le> f \<and> f < 8 then fresh_page else reserved_page),
        free_lists = (\<lambda>k. if k = 2 then [4] else []),
        total_pages = 4, free_count = 4, g_total_pages_snapshot = 4,
        g_pmm_corruption_logged = False, g_reserved_free_rejected = 0, pmm_oom_marks = 0\<rparr>,
      g_cache_pool = (\<lambda>_. \<lparr>c_name = [], c_object_size = 0, c_objects_per_slab = 0, c_slab_order = 0,
        c_partial = [], c_magic = 0\<rparr>),
      g_cache_count = 0, g_slab_inited = False, class_cache = (\<lambda>_. None), km_bytes = (\<lambda>_. 0)\<rparr>"

lemma wit_km_sel:
  "free_lists (km_pmm wit_km) k = (if k = 2 then [4] else [])"
  "page_of wit_km f = (if f = 4 then fresh_page\<lparr>pg_order := 2, pg_flags := PG_FREE\<rparr>
     else if 4 \<le> f \<and> f < 8 then fresh_page else reserved_page)"
  "total_pages (km_pmm wit_km) = 4" "free_count (km_pmm wit_km) = 4" "g_total_pages_snapshot (km_pmm wit_km) = 4"
  "\<not> g_slab_inited wit_km"
  by (simp_all add: wit_km_def)

lemma wit_km_heads: "heads (free_lists (km_pmm wit_km)) = {(2, 4)}"
proof (rule set_eqI)
  fix x :: "nat \<times> nat"
  show "(x \<in> heads (free_lists (km_pmm wit_km))) = (x \<in> {(2, 4)})"
    by (cases x) (auto simp: heads_def wit_km_sel MAX_ORDER_def)
qed

lemma wit_km_frames: "free_frames (km_pmm wit_km) = {4..<8}" "managed (km_pmm wit_km) = {4..<8}"
proof -
  show "free_frames (km_pmm wit_km) = {4..<8}"
    unfolding free_frames_def frames_def wit_km_heads by (auto simp: blk_def)
  show "managed (km_pmm wit_km) = {4..<8}"
  proof (rule set_eqI)
    fix f :: nat
    show "(f \<in> managed (km_pmm wit_km)) = (f \<in> {4..<8})"
      by (cases "4 \<le> f \<and> f < 8")
        (auto simp: managed_def wit_km_sel fresh_page_def reserved_page_def PG_FREE_def PG_RESERVED_def MAX_PAGES_def)
  qed
qed

lemma wit_km_start:
  "pmm_inv (km_pmm wit_km)" "0 \<notin> managed (km_pmm wit_km)" "slabs (km_pmm wit_km) = {}" "\<not> g_slab_inited wit_km"
proof -
  have "lists_ok (free_lists (km_pmm wit_km)) (page_of wit_km)"
    unfolding lists_ok_def wit_km_heads
    by (simp add: head_ok_def wit_km_sel MAX_PAGES_def)
  moreover have "unat (free_count (km_pmm wit_km)) = card {4..<8::nat}"
    "unat (total_pages (km_pmm wit_km)) = card {4..<8::nat}"
    "g_total_pages_snapshot (km_pmm wit_km) = total_pages (km_pmm wit_km)" by (simp_all add: wit_km_sel)
  ultimately show "pmm_inv (km_pmm wit_km)" unfolding pmm_inv_def wit_km_frames by blast
  show "0 \<notin> managed (km_pmm wit_km)" by (simp add: wit_km_frames)
  show "slabs (km_pmm wit_km) = {}"
    by (auto simp: slabs_def wit_km_sel fresh_page_def reserved_page_def PG_FREE_def PG_RESERVED_def PG_SLAB_def)
  show "\<not> g_slab_inited wit_km" by (rule wit_km_sel)
qed

lemma wit_km_alloc: "fst (pmm_alloc_pages 0 (km_pmm wit_km)) \<noteq> None"
proof -
  have "free_lists (km_pmm wit_km) 2 \<noteq> []" by (simp add: wit_km_sel)
  then show ?thesis
    using pmm_alloc_None(1) [OF wit_km_start(1), of 0] by (force simp: MAX_ORDER_def)
qed

section \<open>Properties\<close>

text \<open>
  From a booted page allocator, \<open>kmalloc_init\<close> sets up the nine size classes: the slab
  invariant holds, class \<open>i\<close> is served by a live cache of one-page slabs whose objects have exactly
  the class size, no object is handed out, and no page has been taken.
\<close>

theorem kmalloc_init_sets_up:
  assumes "pmm_inv (km_pmm s)" "0 \<notin> managed (km_pmm s)" "slabs (km_pmm s) = {}" "\<not> g_slab_inited s"
  shows "kmalloc_ready (kmalloc_init s) \<and> live_objs (kmalloc_init s) = {} \<and> km_pmm (kmalloc_init s) = km_pmm s"
  using kmalloc_init_ready [OF assms] by simp

lemma kmalloc_init_sets_up_witness:
  "kmalloc_ready (kmalloc_init wit_km) \<and> km_pmm (kmalloc_init wit_km) = km_pmm wit_km"
  using kmalloc_init_sets_up [OF wit_km_start] by simp


lemma wit_km_ready: "kmalloc_ready (kmalloc_init wit_km)"
  using kmalloc_init_ready [OF wit_km_start] by simp




end
