(* ===== verification/TaskData.thy ===== *)
theory TaskData
  imports Pid
begin

text \<open>
  The process control block (\<open>struct task_t\<close> of \<open>task.h\<close>, with \<open>mem_domain_t\<close> and \<open>token_t\<close>) and the
  lookups in the task list. The chain \<open>child_head \<rightarrow> sibling_next\<close> is the list \<open>children\<close> of addresses; the
  lookups take the chain \<open>g_task_head \<rightarrow> global_next\<close> as the list of its control blocks. A pointer
  to an object of another component is the number of that object. Small integers that the code only
  compares are naturals, flags that are 0 or 1 are booleans.
\<close>

record mem_domain_t =
  base_vaddr :: u64
  limit_vaddr :: u64
  phys_frame_count :: nat
  pml4_self_ptr :: "nat option"
  sandbox_owned :: bool

record token_t =
  tok_level :: nat
  tok_uid :: nat
  tok_gid :: nat
  dir_whitelist_hash :: "u8 list"
  tok_flags :: u8

record shm_mapping =
  sm_region :: nat
  sm_uaddr :: u64
  sm_size :: u64
  sm_phys_base :: u64

record task_t =
  t_pid :: nat
  parent_pid :: nat
  privilege_level :: nat
  isolation_mode :: nat
  sandbox_flags :: u8
  is_critical :: bool
  mem_domain :: mem_domain_t
  security_token :: token_t
  cpu_usage_quota :: nat
  child_process_limit :: nat
  children_count :: nat
  children :: "nat list"
  t_thread :: "nat option"
  ui_token_valid :: bool
  t_name :: "string option"
  exit_code :: int
  priv0_sb_ptr :: "nat option"
  priv1_dir_path :: string
  mem_domain_pages :: "nat option list option"
  mem_domain_page_count :: nat
  priv_iso_ready :: bool
  compat_region :: "nat option"
  compat_type :: nat
  htab :: "nat option"
  t_netns :: "nat option"
  pgid :: nat
  user_ctx :: "nat option"
  futex_wake_count :: nat
  is_zombie :: bool
  join_waiter :: "nat option"
  fd_table :: "nat option list"
  seccomp_mode :: nat
  seccomp_filter :: "nat option"
  ptrace_tracer_pid :: nat
  pending_kill :: bool
  mem_quota_pages :: nat
  mem_pages_used :: nat
  shm_list :: "shm_mapping list"
  t_pidns :: "nat option"
  t_mntns :: "nat option"
  t_ipcns :: "nat option"
  sandbox_sb_ptr :: "nat option"
  sandbox_dir_path :: string
  syscall_table_ptr :: "nat option"
  ptrace_flags :: nat
  win32_last_error :: u32

definition PRIV_MAX :: nat where [kernel_defs]: "PRIV_MAX = 9"
definition PRIV_KERNEL_MANAGER :: nat where [kernel_defs]: "PRIV_KERNEL_MANAGER = 9"
definition ISOLATION_NONE :: nat where [kernel_defs]: "ISOLATION_NONE = 0"
definition ISOLATION_MEM :: nat where [kernel_defs]: "ISOLATION_MEM = 1"
definition ISOLATION_TMPDIR :: nat where [kernel_defs]: "ISOLATION_TMPDIR = 2"
definition OBSANDBOX_ACTIVE :: u8 where [kernel_defs]: "OBSANDBOX_ACTIVE = 1"

definition no_domain :: mem_domain_t where
  "no_domain = \<lparr>base_vaddr = 0, limit_vaddr = 0, phys_frame_count = 0, pml4_self_ptr = None, sandbox_owned = False\<rparr>"

definition no_token :: token_t where
  "no_token = \<lparr>tok_level = 0, tok_uid = 0, tok_gid = 0, dir_whitelist_hash = replicate 32 0, tok_flags = 0\<rparr>"

text \<open>A block of memory of the size of \<open>struct task_t\<close>, all zero (what \<open>kzalloc\<close> returns).\<close>

definition zero_task :: task_t where
  "zero_task =
     \<lparr>t_pid = 0, parent_pid = 0, privilege_level = 0, isolation_mode = 0, sandbox_flags = 0,
      is_critical = False, mem_domain = no_domain, security_token = no_token, cpu_usage_quota = 0,
      child_process_limit = 0, children_count = 0, children = [], t_thread = None, ui_token_valid = False,
      t_name = None, exit_code = 0, priv0_sb_ptr = None, priv1_dir_path = [], mem_domain_pages = None,
      mem_domain_page_count = 0, priv_iso_ready = False, compat_region = None, compat_type = 0,
      htab = None, t_netns = None, pgid = 0, user_ctx = None, futex_wake_count = 0, is_zombie = False,
      join_waiter = None, fd_table = replicate 64 None, seccomp_mode = 0, seccomp_filter = None,
      ptrace_tracer_pid = 0, pending_kill = False, mem_quota_pages = 0, mem_pages_used = 0,
      shm_list = [], t_pidns = None, t_mntns = None, t_ipcns = None, sandbox_sb_ptr = None, sandbox_dir_path = [],
      syscall_table_ptr = None, ptrace_flags = 0, win32_last_error = 0\<rparr>"

text \<open>Walks of the global list.\<close>

fun task_find_by_pid :: "task_t list \<Rightarrow> nat \<Rightarrow> task_t option" where
  "task_find_by_pid [] pid = None"
| "task_find_by_pid (t # ts) pid = (if t_pid t = pid then Some t else task_find_by_pid ts pid)"

fun task_find_alive_by_pid :: "task_t list \<Rightarrow> nat \<Rightarrow> task_t option" where
  "task_find_alive_by_pid [] pid = None"
| "task_find_alive_by_pid (t # ts) pid =
     (if t_pid t = pid \<and> \<not> is_zombie t then Some t else task_find_alive_by_pid ts pid)"

definition task_is_zombie :: "task_t list \<Rightarrow> nat \<Rightarrow> bool" where
  "task_is_zombie ts tid = (case task_find_by_pid ts tid of None \<Rightarrow> False | Some t \<Rightarrow> is_zombie t)"

text \<open>What the audit log records: \<open>audit_pid_violation\<close>, its two companions, the sandbox's own event, and
  \<open>audit_event\<close> with any other event number.\<close>

datatype audit_event =
    PidViolation nat nat
  | KernelMemViolation nat u64 u32
  | CriticalAccess nat string u32
  | SandboxEscape nat u64 string
  | AuditEvent nat nat u64 u64 u64 string

definition check_pid_access :: "task_t option \<Rightarrow> nat \<Rightarrow> int \<times> audit_event list" where
  "check_pid_access caller target_pid =
     (case caller of
        None \<Rightarrow> (OB_EPERM, [])
      | Some c \<Rightarrow>
          if \<not> pid_is_reserved target_pid then (0, [])
          else if t_pid c \<le> PID_RESERVED_MAX then (0, [])
          else (OB_EPERM, [PidViolation (t_pid c) target_pid]))"

lemma task_find_Some:
  "task_find_by_pid ts pid = Some t \<Longrightarrow> t \<in> set ts \<and> t_pid t = pid"
  by (induction ts) (auto split: if_splits)

lemma task_find_None:
  "task_find_by_pid ts pid = None \<longleftrightarrow> pid \<notin> t_pid ` set ts"
  by (induction ts) auto

lemma task_find_distinct:
  "distinct (map t_pid ts) \<Longrightarrow> task_find_by_pid ts pid = Some t \<longleftrightarrow> t \<in> set ts \<and> t_pid t = pid"
  by (induction ts) (auto simp: image_iff)

lemma task_find_alive_Some:
  "task_find_alive_by_pid ts pid = Some t \<Longrightarrow> t \<in> set ts \<and> t_pid t = pid \<and> \<not> is_zombie t"
  by (induction ts) (auto split: if_splits)

end
