(* ===== verification/Permission.thy ===== *)
theory Permission
  imports TaskData
begin

text \<open>
  Access control: \<open>permission.c\<close>, \<open>critical.c\<close> (the check), the path functions of \<open>priv_iso.c\<close> and
  \<open>mem_domain_contains\<close>. A check returns its code and the audit events it writes. The hash that
  \<open>priv1_path_allowed\<close> compares is a parameter \<open>sha384\<close>: only its first 32 bytes are used, and the
  path decision does not depend on what it computes.
\<close>

section \<open>Constants\<close>

definition OB_ACCESS_READ :: u32 where [kernel_defs]: "OB_ACCESS_READ = 1"
definition OB_ACCESS_WRITE :: u32 where [kernel_defs]: "OB_ACCESS_WRITE = 2"
definition OB_ACCESS_EXEC :: u32 where [kernel_defs]: "OB_ACCESS_EXEC = 4"
definition OB_ACCESS_DELETE :: u32 where [kernel_defs]: "OB_ACCESS_DELETE = 8"

definition KERNEL_SPACE_START :: u64 where "KERNEL_SPACE_START = 0xFFFF800000000000"

section \<open>Paths\<close>

definition path_starts_with :: "string option \<Rightarrow> string \<Rightarrow> bool" where
  "path_starts_with path prefix = (case path of None \<Rightarrow> False | Some p \<Rightarrow> c_prefix p prefix)"

definition path_is_kernel_protected :: "string option \<Rightarrow> bool" where
  "path_is_kernel_protected path =
     (case path of
        None \<Rightarrow> False
      | Some p \<Rightarrow>
          if c_prefix p ''/kernel'' \<and> (char_at p 7 = CHR 0x00 \<or> char_at p 7 = CHR ''/'') then True
          else if c_prefix p ''/system/kernel'' \<and> (char_at p 14 = CHR 0x00 \<or> char_at p 14 = CHR ''/'') then True
          else False)"

definition CRITICAL_PATH :: string where "CRITICAL_PATH = ''/system/critical''"

definition path_is_critical_exact :: "string option \<Rightarrow> bool" where
  "path_is_critical_exact path = (case path of None \<Rightarrow> False | Some p \<Rightarrow> c_streq p CRITICAL_PATH)"

definition path_is_critical_path :: "string option \<Rightarrow> bool" where
  "path_is_critical_path path =
     (case path of
        None \<Rightarrow> False
      | Some p \<Rightarrow>
          if \<not> c_prefix p CRITICAL_PATH then False
          else char_at p 16 = CHR 0x00 \<or> char_at p 16 = CHR ''/'')"

definition path_is_critical_dir :: "string option \<Rightarrow> bool" where
  "path_is_critical_dir path = path_is_critical_path path"

definition vaddr_is_kernel :: "u64 \<Rightarrow> bool" where
  "vaddr_is_kernel vaddr = (vaddr \<ge> KERNEL_SPACE_START)"

text \<open>The second loop of \<open>priv0_mount_path\<close>: the digits go into the buffer while there is room.\<close>

fun put_digits :: "nat \<Rightarrow> string \<Rightarrow> string \<Rightarrow> string option" where
  "put_digits out_size out [] = Some out"
| "put_digits out_size out (d # ds) =
     (if length out \<ge> out_size - 2 then None else put_digits out_size (out @ [d]) ds)"

definition priv0_mount_path :: "nat \<Rightarrow> nat \<Rightarrow> int + string" where
  "priv0_mount_path pid out_size =
     (if out_size < 16 then Inl OB_EINVAL
      else case put_digits out_size (take (out_size - 2) ''/priv0/'') (dec_string pid) of
        None \<Rightarrow> Inl OB_EINVAL
      | Some out \<Rightarrow> if length out \<ge> out_size - 1 then Inl OB_EINVAL else Inr out)"

definition priv1_legacy_prefix_match :: "task_t \<Rightarrow> string \<Rightarrow> bool" where
  "priv1_legacy_prefix_match cur path =
     (let prefix = take 40 ''/tmp/priv1_'';
          prefix = prefix @ take (60 - length prefix) (dec_string (t_pid cur));
          prefix = (if length prefix < 62 then prefix @ ''_'' else prefix)
      in path_starts_with (Some path) prefix)"

text \<open>
  \<open>ct_mem_eq32\<close> accumulates the XOR of 32 bytes. \<open>full\<close> is a buffer of 130 bytes, \<open>priv1_dir_path\<close> one
  of 128, so the copy never stops early.
\<close>

definition ct_mem_eq32 :: "u8 list \<Rightarrow> u8 list \<Rightarrow> bool" where
  "ct_mem_eq32 a b = (fold (\<lambda>i acc. acc OR (a ! i XOR b ! i)) [0..<32] 0 = 0)"

definition priv1_path_allowed :: "(string \<Rightarrow> u8 list) \<Rightarrow> task_t option \<Rightarrow> string option \<Rightarrow> bool" where
  "priv1_path_allowed sha384 to path =
     (case (to, path) of
        (Some t, Some p) \<Rightarrow>
          let prefix = priv1_dir_path t in
          if prefix = [] then False
          else if \<not> c_prefix p prefix then False
          else if char_at p (length prefix) \<noteq> CHR ''/'' \<and> char_at p (length prefix) \<noteq> CHR 0x00 then False
          else
            let full = take 128 prefix;
                full = (if full = [] \<or> last full \<noteq> CHR ''/'' then full @ ''/'' else full)
            in ct_mem_eq32 (sha384 full) (dir_whitelist_hash (security_token t))
      | _ \<Rightarrow> False)"

section \<open>\<open>mem_domain_contains\<close>, \<open>critical_check_access\<close>\<close>

definition mem_domain_contains :: "task_t option \<Rightarrow> u64 \<Rightarrow> bool" where
  "mem_domain_contains to vaddr =
     (case to of
        None \<Rightarrow> False
      | Some t \<Rightarrow>
          if limit_vaddr (mem_domain t) = 0 then False
          else vaddr \<ge> base_vaddr (mem_domain t) \<and> vaddr < limit_vaddr (mem_domain t))"

definition critical_check_access :: "task_t option \<Rightarrow> string option \<Rightarrow> u32 \<Rightarrow> int \<times> audit_event list" where
  "critical_check_access cur path access_mode =
     (case path of
        None \<Rightarrow> (0, [])
      | Some p \<Rightarrow>
          if \<not> path_is_critical_path path then (0, [])
          else case cur of
            None \<Rightarrow> if access_mode AND (OB_ACCESS_WRITE OR OB_ACCESS_DELETE) \<noteq> 0 then (OB_EPERM, []) else (0, [])
          | Some c \<Rightarrow>
              if sandbox_flags c \<noteq> 0 then (OB_EPERM, [CriticalAccess (t_pid c) p access_mode])
              else if t_pid c \<ge> 1 \<and> t_pid c \<le> 99 then (0, [])
              else if privilege_level c = 9 \<and> ui_token_valid c then (0, [])
              else (OB_EPERM, [CriticalAccess (t_pid c) p access_mode]))"

section \<open>\<open>permission.c\<close>\<close>

definition permission_check_process ::
    "task_t list \<Rightarrow> task_t option \<Rightarrow> nat \<Rightarrow> int \<times> audit_event list" where
  "permission_check_process tasks cur target_pid =
     (case cur of
        None \<Rightarrow> (OB_EPERM, [])
      | Some c \<Rightarrow>
          if privilege_level c = 0 then
            if target_pid \<noteq> t_pid c then (OB_EPERM, []) else (0, [])
          else if privilege_level c = 1 then
            if target_pid = t_pid c then (0, [])
            else (case task_find_by_pid tasks target_pid of
                Some target \<Rightarrow> if parent_pid target = t_pid c then (0, []) else (OB_EPERM, [])
              | None \<Rightarrow> (OB_EPERM, []))
          else case check_pid_access cur target_pid of (rc, ev) \<Rightarrow>
            if rc \<noteq> 0 then (rc, ev)
            else if target_pid = t_pid c then (0, ev)
            else if privilege_level c \<ge> 6 then (0, ev)
            else (OB_EPERM, ev))"

definition permission_check_memory :: "task_t option \<Rightarrow> u64 \<Rightarrow> u32 \<Rightarrow> int \<times> audit_event list" where
  "permission_check_memory cur vaddr mode =
     (case cur of
        None \<Rightarrow> (OB_EPERM, [])
      | Some c \<Rightarrow>
          if vaddr_is_kernel vaddr then (OB_EPERM, [KernelMemViolation (t_pid c) vaddr mode])
          else if (privilege_level c = 0 \<or> privilege_level c = 1) \<and> pml4_self_ptr (mem_domain c) \<noteq> None \<and>
              \<not> mem_domain_contains cur vaddr
          then (OB_EPERM, [CriticalAccess (t_pid c) ''(mem-outside-domain)'' mode])
          else (0, []))"

definition permission_check_file ::
    "(string \<Rightarrow> u8 list) \<Rightarrow> task_t option \<Rightarrow> string option \<Rightarrow> u32 \<Rightarrow> int \<times> audit_event list" where
  "permission_check_file sha384 cur path mode =
     (case (cur, path) of
        (None, _) \<Rightarrow> (OB_EPERM, [])
      | (Some c, None) \<Rightarrow> (0, [])
      | (Some c, Some p) \<Rightarrow>
          if path_is_kernel_protected path then (OB_EPERM, [CriticalAccess (t_pid c) p mode])
          else if path_is_critical_dir path then critical_check_access cur path mode
          else if privilege_level c = 0 then
            if \<not> priv_iso_ready c then (OB_ENOSYS, [])
            else (case priv0_mount_path (t_pid c) 64 of
                Inl rc \<Rightarrow> (OB_EPERM, [])
              | Inr prefix \<Rightarrow>
                  if \<not> path_starts_with path prefix then (OB_EPERM, [])
                  else if char_at p (length prefix) \<noteq> CHR ''/'' \<and> char_at p (length prefix) \<noteq> CHR 0x00
                  then (OB_EPERM, [])
                  else (0, []))
          else if privilege_level c = 1 then
            if \<not> priv_iso_ready c then
              if \<not> priv1_legacy_prefix_match c p then (OB_EPERM, []) else (0, [])
            else if \<not> priv1_path_allowed sha384 cur path then (OB_EPERM, [])
            else (0, [])
          else if privilege_level c < 3 then
            if mode AND (OB_ACCESS_WRITE OR OB_ACCESS_DELETE) \<noteq> 0 then (OB_EPERM, []) else (0, [])
          else if privilege_level c < 5 then
            if mode AND (OB_ACCESS_WRITE OR OB_ACCESS_DELETE) \<noteq> 0 \<and>
                \<not> path_starts_with path ''/tmp/'' \<and> \<not> path_starts_with path ''/home/''
            then (OB_EPERM, []) else (0, [])
          else (0, []))"

definition permission_check_ipc :: "task_t option \<Rightarrow> int" where
  "permission_check_ipc cur =
     (case cur of
        None \<Rightarrow> OB_EPERM
      | Some c \<Rightarrow>
          if privilege_level c = 0 then OB_EPERM
          else if privilege_level c = 1 then OB_EPERM
          else OB_ENOSYS)"

definition permission_check_config :: "task_t option \<Rightarrow> u32 \<Rightarrow> string option \<Rightarrow> int \<times> audit_event list" where
  "permission_check_config cur mode hint =
     (case cur of
        None \<Rightarrow> (OB_EPERM, [])
      | Some c \<Rightarrow>
          if privilege_level c \<le> 5 then
            if mode AND (OB_ACCESS_WRITE OR OB_ACCESS_DELETE) \<noteq> 0 then (OB_EPERM, []) else (0, [])
          else if privilege_level c = 6 then
            if mode AND (OB_ACCESS_WRITE OR OB_ACCESS_DELETE) \<noteq> 0
            then (OB_EPERM, [CriticalAccess (t_pid c) (case hint of Some h \<Rightarrow> h | None \<Rightarrow> ''(config)'') mode])
            else (0, [])
          else (0, []))"

text \<open>The dispatch. \<open>res_id\<close> is an address or a PID.\<close>

definition check_permission ::
    "(string \<Rightarrow> u8 list) \<Rightarrow> task_t list \<Rightarrow> task_t option \<Rightarrow> int \<Rightarrow> u64 \<Rightarrow> u32 \<Rightarrow> string option \<Rightarrow>
       int \<times> audit_event list" where
  "check_permission sha384 tasks cur res_type res_id access_mode path_hint =
     (case cur of
        None \<Rightarrow> (OB_EPERM, [])
      | Some c \<Rightarrow>
          if res_type = 0 then permission_check_file sha384 cur path_hint access_mode
          else if res_type = 1 then permission_check_memory cur res_id access_mode
          else if res_type = 2 then permission_check_process tasks cur (unat res_id)
          else if res_type = 3 then (permission_check_ipc cur, [])
          else if res_type = 4 then permission_check_config cur access_mode path_hint
          else (OB_EPERM, []))"

end
