(* ===== verification/PermissionProps.thy ===== *)
theory PermissionProps
  imports Permission
begin

text \<open>Lemmas on the path checks and the properties of access control.\<close>

section \<open>Prefixes\<close>

lemma put_digits_room:
  "length out + length ds \<le> out_size - 2 \<Longrightarrow> put_digits out_size out ds = Some (out @ ds)"
  by (induction ds arbitrary: out) auto

definition priv0_prefix :: "nat \<Rightarrow> string" where
  "priv0_prefix pid = ''/priv0/'' @ dec_string pid"

lemma priv0_mount_path_64: "priv0_mount_path pid 64 = Inr (priv0_prefix pid)"
proof -
  have "length (''/priv0/'' :: string) + length (dec_string pid) \<le> 64 - 2"
    using dec_string_length [of pid] by simp
  then show ?thesis
    using dec_string_length [of pid]
    by (simp add: priv0_mount_path_def put_digits_room priv0_prefix_def)
qed

text \<open>A path is below a directory when it is the directory or continues with a slash.\<close>

definition below :: "string \<Rightarrow> string \<Rightarrow> bool" where
  "below dir p \<longleftrightarrow> p = dir \<or> (\<exists>r. p = dir @ ''/'' @ r)"

lemma below_check:
  assumes "CHR 0x00 \<notin> set p"
  shows "c_prefix p dir \<and> (char_at p (length dir) = CHR ''/'' \<or> char_at p (length dir) = CHR 0x00) \<longleftrightarrow> below dir p"
proof
  assume a: "c_prefix p dir \<and> (char_at p (length dir) = CHR ''/'' \<or> char_at p (length dir) = CHR 0x00)"
  then obtain r where r: "p = dir @ r" by (auto simp: c_prefix_iff)
  then show "below dir p"
    using a assms by (cases r) (auto simp: below_def)
next
  assume "below dir p"
  then show "c_prefix p dir \<and> (char_at p (length dir) = CHR ''/'' \<or> char_at p (length dir) = CHR 0x00)"
    by (auto simp: below_def c_prefix_iff char_at_def nth_append)
qed

lemma below_unique:
  assumes "below (d @ dec_string v) p" "below (d @ dec_string w) p" "v < 10 ^ 23" "w < 10 ^ 23"
  shows "v = w"
proof -
  obtain r where r: "p = d @ dec_string v @ r" "r = [] \<or> hd r = CHR ''/''"
    using assms(1) by (auto simp: below_def)
  obtain t where t: "p = d @ dec_string w @ t" "t = [] \<or> hd t = CHR ''/''"
    using assms(2) by (auto simp: below_def)
  have "dec_string v = dec_string w \<and> r = t"
    by (rule digits_split) (use r t dec_string_is_digit in auto)
  then show ?thesis using dec_string_inj assms(3,4) by blast
qed

lemma protected_lengths:
  "length CRITICAL_PATH = 16" "length ''/kernel'' = 7" "length ''/system/kernel'' = 14"
  by (simp_all add: CRITICAL_PATH_def)

lemma critical_below:
  "CHR 0x00 \<notin> set p \<Longrightarrow> path_is_critical_path (Some p) \<longleftrightarrow> below CRITICAL_PATH p"
  using below_check [of p CRITICAL_PATH, unfolded protected_lengths]
  by (simp add: path_is_critical_path_def) blast

lemma kernel_below:
  "CHR 0x00 \<notin> set p \<Longrightarrow>
   path_is_kernel_protected (Some p) \<longleftrightarrow> below ''/kernel'' p \<or> below ''/system/kernel'' p"
  using below_check [of p "''/kernel''", unfolded protected_lengths]
    below_check [of p "''/system/kernel''", unfolded protected_lengths]
  by (simp only: path_is_kernel_protected_def option.case if_bool_eq_disj) blast

lemma kernel_not_critical: "below ''/kernel'' p \<or> below ''/system/kernel'' p \<Longrightarrow> \<not> below CRITICAL_PATH p"
  by (auto simp: below_def CRITICAL_PATH_def)

section \<open>Witness tasks\<close>

text \<open>A process of privilege 0 with PID 1200 and one of privilege 7 with PID 1201, both isolated or not in need of it.\<close>

definition wit_task0 :: task_t where
  "wit_task0 = zero_task\<lparr>t_pid := 1200, privilege_level := 0, priv_iso_ready := True\<rparr>"

definition wit_task7 :: task_t where
  "wit_task7 = zero_task\<lparr>t_pid := 1201, privilege_level := 7\<rparr>"

section \<open>Properties\<close>

text \<open>
  C7. The protected trees, for every task: a path below \<open>/kernel\<close> or \<open>/system/kernel\<close> is always
  refused; a path below \<open>/system/critical\<close> is granted exactly to a task that is not sandboxed and
  either has a reserved PID or has privilege 9 with a valid UI token; every refusal is audited.
\<close>

theorem protected_trees:
  assumes "CHR 0x00 \<notin> set p"
  shows "(below ''/kernel'' p \<or> below ''/system/kernel'' p \<longrightarrow>
      check_permission sha384 tasks (Some c) 0 rid mode (Some p) = (OB_EPERM, [CriticalAccess (t_pid c) p mode])) \<and>
    (below ''/system/critical'' p \<longrightarrow>
      check_permission sha384 tasks (Some c) 0 rid mode (Some p) =
        (if sandbox_flags c = 0 \<and> (1 \<le> t_pid c \<and> t_pid c \<le> 99 \<or> privilege_level c = 9 \<and> ui_token_valid c)
         then (0, []) else (OB_EPERM, [CriticalAccess (t_pid c) p mode])))"
  using kernel_below [OF assms] critical_below [OF assms] kernel_not_critical [of p]
  by (auto simp: check_permission_def permission_check_file_def path_is_critical_dir_def
      critical_check_access_def CRITICAL_PATH_def)

lemma protected_trees_witness:
  "check_permission (\<lambda>_. []) [] (Some wit_task7) 0 0 OB_ACCESS_READ (Some ''/system/critical/keys'') =
     (OB_EPERM, [CriticalAccess 1201 ''/system/critical/keys'' OB_ACCESS_READ])"
  using protected_trees [of "''/system/critical/keys''" "\<lambda>_. []" "[]" wit_task7 0 OB_ACCESS_READ]
  by (simp add: below_def wit_task7_def zero_task_def)

text \<open>
  Kernel memory: no task may access an address of the kernel half, whatever its privilege, and
  the attempt is audited; a task of privilege 0 or 1 that has a memory domain may access exactly the
  addresses of its domain below the kernel half.
\<close>

theorem memory_confinement:
  "check_permission sha384 tasks (Some c) 1 vaddr mode hint =
     (if vaddr \<ge> 0xFFFF800000000000 then (OB_EPERM, [KernelMemViolation (t_pid c) vaddr mode])
      else if privilege_level c \<le> 1 \<and> pml4_self_ptr (mem_domain c) \<noteq> None \<and>
          \<not> (limit_vaddr (mem_domain c) \<noteq> 0 \<and> base_vaddr (mem_domain c) \<le> vaddr \<and>
              vaddr < limit_vaddr (mem_domain c))
      then (OB_EPERM, [CriticalAccess (t_pid c) ''(mem-outside-domain)'' mode])
      else (0, []))"
proof -
  have "(privilege_level c = 0 \<or> privilege_level c = 1) = (privilege_level c \<le> 1)" by auto
  then show ?thesis
    unfolding check_permission_def permission_check_memory_def vaddr_is_kernel_def KERNEL_SPACE_START_def
      mem_domain_contains_def by (cases "pml4_self_ptr (mem_domain c)") (simp_all add: not_le not_less)
qed

text \<open>
  C8. Privilege 0 is confined to its own tree, textually: outside \<open>/system/critical\<close>, a path that
  \<open>check_permission\<close> grants to an isolated task of privilege 0 is \<open>/priv0/<pid>\<close> or below it, so two such
  tasks with different PIDs are never granted the same path (\<open>/priv0/12\<close> is not below \<open>/priv0/1\<close>).
\<close>

theorem priv0_isolation:
  assumes "privilege_level c = 0" "priv_iso_ready c" "privilege_level d = 0" "priv_iso_ready d"
    and "t_pid c \<noteq> t_pid d" "t_pid c < 2 ^ 64" "t_pid d < 2 ^ 64"
    and "CHR 0x00 \<notin> set p" "\<not> below ''/system/critical'' p"
    and "fst (check_permission sha384 tasks (Some c) 0 rid mode (Some p)) = 0"
  shows "below (priv0_prefix (t_pid c)) p \<and>
    fst (check_permission sha384 tasks (Some d) 0 rid mode (Some p)) \<noteq> 0"
proof -
  have nc: "\<not> path_is_critical_path (Some p)"
    using critical_below assms(8,9) by (simp add: CRITICAL_PATH_def)
  have chk: "below (priv0_prefix (t_pid e)) p"
    if "privilege_level e = 0" "priv_iso_ready e" "fst (check_permission sha384 tasks (Some e) 0 rid mode (Some p)) = 0" for e
    using that nc below_check [OF assms(8), of "priv0_prefix (t_pid e)"]
    by (auto simp: check_permission_def permission_check_file_def path_is_critical_dir_def priv0_mount_path_64
        path_starts_with_def split: if_splits)
  have "(2::nat) ^ 64 < 10 ^ 23" by simp
  then have "t_pid c < 10 ^ 23" "t_pid d < 10 ^ 23" using assms(6,7) by linarith+
  then have "\<not> below (priv0_prefix (t_pid d)) p" if "below (priv0_prefix (t_pid c)) p"
    using below_unique that assms(5) unfolding priv0_prefix_def by blast
  then show ?thesis using chk assms(1-4,10) by blast
qed

lemma priv0_isolation_witness:
  "fst (check_permission (\<lambda>_. []) [] (Some wit_task0) 0 0 OB_ACCESS_WRITE (Some ''/priv0/1200/a'')) = 0 \<and>
   fst (check_permission (\<lambda>_. []) [] (Some (wit_task0\<lparr>t_pid := 120\<rparr>)) 0 0 OB_ACCESS_WRITE (Some ''/priv0/1200/a'')) \<noteq> 0"
proof -
  have b: "below (priv0_prefix 1200) ''/priv0/1200/a''"
    by (simp add: below_def priv0_prefix_def dec_eval)
  have nc: "\<not> path_is_critical_path (Some ''/priv0/1200/a'')" by (simp add: path_is_critical_path_def CRITICAL_PATH_def)
  have nk: "\<not> path_is_kernel_protected (Some ''/priv0/1200/a'')" by (simp add: path_is_kernel_protected_def)
  have ok: "fst (check_permission (\<lambda>_. []) [] (Some wit_task0) 0 0 OB_ACCESS_WRITE (Some ''/priv0/1200/a'')) = 0"
    using b below_check [of "''/priv0/1200/a''" "priv0_prefix 1200"] nc nk
    by (simp add: check_permission_def permission_check_file_def path_is_critical_dir_def priv0_mount_path_64
        path_starts_with_def wit_task0_def zero_task_def)
  have "\<not> below ''/system/critical'' ''/priv0/1200/a''" by (simp add: below_def)
  then show ?thesis
    using priv0_isolation [of wit_task0 "wit_task0\<lparr>t_pid := 120\<rparr>" "''/priv0/1200/a''" "\<lambda>_. []" "[]" 0 OB_ACCESS_WRITE] ok
    by (simp add: wit_task0_def zero_task_def)
qed

text \<open>
  Above the isolated levels, more privilege never loses an access: whatever resource, mode and
  path are granted to a task of level 2 or more are granted to the same task at any higher level.
\<close>

theorem check_permission_mono:
  assumes "2 \<le> privilege_level c" "privilege_level c \<le> k" "k \<le> 9"
    and "fst (check_permission sha384 tasks (Some c) rt rid mode hint) = 0"
  shows "fst (check_permission sha384 tasks (Some (c\<lparr>privilege_level := k\<rparr>)) rt rid mode hint) = 0"
proof -
  let ?d = "c\<lparr>privilege_level := k\<rparr>"
  have fil: "fst (permission_check_file sha384 (Some ?d) hint mode) = 0"
    if "fst (permission_check_file sha384 (Some c) hint mode) = 0"
    using that assms(1-3)
    by (auto simp: permission_check_file_def critical_check_access_def split: option.splits if_splits)
  have memory: "fst (permission_check_memory (Some ?d) rid mode) = 0"
    if "fst (permission_check_memory (Some c) rid mode) = 0"
    using that assms(1-3) by (auto simp: permission_check_memory_def mem_domain_contains_def split: if_splits)
  have process: "fst (permission_check_process tasks (Some ?d) (unat rid)) = 0"
    if "fst (permission_check_process tasks (Some c) (unat rid)) = 0"
    using that assms(1-3) by (auto simp: permission_check_process_def check_pid_access_def split: if_splits)
  have config: "fst (permission_check_config (Some ?d) mode hint) = 0"
    if "fst (permission_check_config (Some c) mode hint) = 0"
    using that assms(1-3) by (auto simp: permission_check_config_def split: if_splits)
  show ?thesis
    using assms(4) fil memory process config assms(1)
    by (auto simp: check_permission_def permission_check_ipc_def split: if_splits)
qed

lemma check_permission_mono_witness:
  "fst (check_permission (\<lambda>_. []) [] (Some wit_task7) 0 0 OB_ACCESS_WRITE (Some ''/etc/motd'')) = 0 \<and>
   fst (check_permission (\<lambda>_. []) [] (Some (wit_task7\<lparr>privilege_level := 9\<rparr>)) 0 0 OB_ACCESS_WRITE (Some ''/etc/motd'')) = 0"
proof -
  have "fst (check_permission (\<lambda>_. []) [] (Some wit_task7) 0 0 OB_ACCESS_WRITE (Some ''/etc/motd'')) = 0"
    by (simp add: check_permission_def permission_check_file_def path_is_kernel_protected_def
        path_is_critical_dir_def path_is_critical_path_def CRITICAL_PATH_def wit_task7_def)
  with check_permission_mono [of wit_task7 9 "\<lambda>_. []" "[]" 0 0 OB_ACCESS_WRITE "Some ''/etc/motd''"]
  show ?thesis by (simp add: wit_task7_def)
qed

end
