(* ===== verification/Vfs.thy ===== *)
theory Vfs
  imports PermissionProps
begin

text \<open>
  The VFS layer (\<open>vfs.c\<close>): the mount table, path resolution and the calls that dispatch to a file
  system. The file systems' own state is a parameter type \<open>'w\<close>; \<open>struct vfs_operations\<close> is a record
  of optional functions on it (a NULL entry is \<open>None\<close>), and \<open>vfs_env\<close> gives the fields of an inode
  that the VFS reads (\<open>mode\<close>, \<open>ops\<close>) and the kernel heap. An inode is named by a number. Paths are
  strings or NULL. The locale \<open>file_system\<close> states what the VFS theorems use of a file system;
  \<open>TmpfsProps\<close> interprets it on tmpfs.
\<close>

section \<open>Modes and flags\<close>

definition VFS_S_IFMT :: u16 where [kernel_defs]: "VFS_S_IFMT = 0xF000"
definition VFS_S_IFREG :: u16 where [kernel_defs]: "VFS_S_IFREG = 0x8000"
definition VFS_S_IFDIR :: u16 where [kernel_defs]: "VFS_S_IFDIR = 0x4000"
definition VFS_NAME_MAX :: nat where [kernel_defs]: "VFS_NAME_MAX = 256"
definition VFS_PATH_MAX :: nat where [kernel_defs]: "VFS_PATH_MAX = 512"
definition VFS_PATH_MAX_DEPTH :: nat where [kernel_defs]: "VFS_PATH_MAX_DEPTH = 32"

definition VFS_O_WRONLY :: u32 where [kernel_defs]: "VFS_O_WRONLY = 2"
definition VFS_O_CREAT :: u32 where [kernel_defs]: "VFS_O_CREAT = 0x10"
definition VFS_O_EXCL :: u32 where [kernel_defs]: "VFS_O_EXCL = 0x20"

definition VFS_S_ISDIR :: "u16 \<Rightarrow> bool" where
  "VFS_S_ISDIR m = (m AND VFS_S_IFMT = VFS_S_IFDIR)"

definition vfs_mode_to_dt :: "u16 \<Rightarrow> nat" where
  "vfs_mode_to_dt mode =
     (let t = mode AND VFS_S_IFMT in
      if t = 0x8000 then 1 else if t = 0x4000 then 2 else if t = 0xA000 then 7 else if t = 0x2000 then 3
      else if t = 0x6000 then 4 else if t = 0x1000 then 5 else if t = 0xC000 then 6 else 0)"

section \<open>Data\<close>

record vfs_superblock =
  sb_id :: nat
  sb_root :: "nat option"
  sb_ops :: bool \<comment> \<open>\<open>sb->ops\<close> is not NULL\<close>
  mount_path :: string

record vfs_file =
  f_pos :: u64
  f_flags :: u32
  f_inode :: "nat option"

record vfs_dirent =
  d_ino :: nat
  d_type :: nat
  d_name :: string

record 'w vfs_operations =
  op_lookup :: "(nat \<Rightarrow> string \<Rightarrow> 'w \<Rightarrow> int \<times> nat option \<times> 'w) option"
  op_create :: "(nat \<Rightarrow> string \<Rightarrow> u16 \<Rightarrow> 'w \<Rightarrow> int \<times> nat option \<times> 'w) option"
  op_unlink :: "(nat \<Rightarrow> string \<Rightarrow> 'w \<Rightarrow> int \<times> 'w) option"
  op_mkdir :: "(nat \<Rightarrow> string \<Rightarrow> u16 \<Rightarrow> 'w \<Rightarrow> int \<times> nat option \<times> 'w) option"
  op_rmdir :: "(nat \<Rightarrow> string \<Rightarrow> 'w \<Rightarrow> int \<times> 'w) option"
  op_read :: "(vfs_file \<Rightarrow> u64 \<Rightarrow> 'w \<Rightarrow> int \<times> u8 list \<times> vfs_file \<times> 'w) option"
  op_write :: "(vfs_file \<Rightarrow> u8 list \<Rightarrow> 'w \<Rightarrow> int \<times> vfs_file \<times> 'w) option"
  op_readdir :: "(nat \<Rightarrow> nat \<Rightarrow> 'w \<Rightarrow> int \<times> vfs_dirent option) option"
  op_open :: "(nat \<Rightarrow> vfs_file \<Rightarrow> 'w \<Rightarrow> int \<times> 'w) option"
  op_close :: "(vfs_file \<Rightarrow> 'w \<Rightarrow> int \<times> 'w) option"
  op_destroy_sb :: "(nat \<Rightarrow> 'w \<Rightarrow> 'w) option"

record 'w vfs_env =
  env_mode :: "'w \<Rightarrow> nat \<Rightarrow> u16"
  env_ops :: "'w \<Rightarrow> nat \<Rightarrow> 'w vfs_operations option"
  env_sb_ops :: "'w vfs_operations"
  env_kzalloc :: "'w \<Rightarrow> bool \<times> 'w"

record 'w vfs_state =
  g_mounts :: "vfs_superblock list"
  v_fs :: 'w
  v_audit :: "audit_event list"

section \<open>Mount table\<close>

definition path_eq :: "string \<Rightarrow> string \<Rightarrow> bool" where
  "path_eq a b = c_streq a b"

definition vfs_init :: "'w vfs_state \<Rightarrow> 'w vfs_state" where
  "vfs_init s = s\<lparr>g_mounts := []\<rparr>"

definition vfs_mount :: "string option \<Rightarrow> vfs_superblock option \<Rightarrow> 'w vfs_state \<Rightarrow> int \<times> 'w vfs_state" where
  "vfs_mount path sb s =
     (case (path, sb) of
        (Some p, Some b) \<Rightarrow>
          if char_at p 0 \<noteq> CHR ''/'' then (OB_EINVAL, s)
          else if sb_root b = None \<or> \<not> sb_ops b then (OB_EINVAL, s)
          else if \<exists>m \<in> set (g_mounts s). path_eq (mount_path m) p then (OB_EAGAIN, s)
          else (0, s\<lparr>g_mounts := b\<lparr>mount_path := take (VFS_PATH_MAX - 1) p\<rparr> # g_mounts s\<rparr>)
      | _ \<Rightarrow> (OB_EINVAL, s))"

text \<open>The first mount with that path leaves the list, and the file system is destroyed.\<close>

fun mount_remove :: "string \<Rightarrow> vfs_superblock list \<Rightarrow> (vfs_superblock \<times> vfs_superblock list) option" where
  "mount_remove p [] = None"
| "mount_remove p (m # ms) =
     (if path_eq (mount_path m) p then Some (m, ms)
      else case mount_remove p ms of None \<Rightarrow> None | Some (b, ms') \<Rightarrow> Some (b, m # ms'))"

definition vfs_umount :: "'w vfs_env \<Rightarrow> string option \<Rightarrow> 'w vfs_state \<Rightarrow> int \<times> 'w vfs_state" where
  "vfs_umount env path s =
     (case path of
        None \<Rightarrow> (OB_EINVAL, s)
      | Some p \<Rightarrow>
          (case mount_remove p (g_mounts s) of
             None \<Rightarrow> (OB_ENOENT, s)
           | Some (b, ms) \<Rightarrow>
               let s = s\<lparr>g_mounts := ms\<rparr>
               in (0, if sb_ops b then
                        case op_destroy_sb (env_sb_ops env) of
                          Some destroy \<Rightarrow> s\<lparr>v_fs := destroy (sb_id b) (v_fs s)\<rparr>
                        | None \<Rightarrow> s
                      else s)))"

definition vfs_mount_count :: "'w vfs_state \<Rightarrow> nat" where
  "vfs_mount_count s = length (g_mounts s)"

definition vfs_is_mounted :: "string option \<Rightarrow> 'w vfs_state \<Rightarrow> bool" where
  "vfs_is_mounted path s =
     (case path of None \<Rightarrow> False | Some p \<Rightarrow> \<exists>m \<in> set (g_mounts s). path_eq (mount_path m) p)"

text \<open>One step of the loop of \<open>find_mount_for\<close>: the longest mount path that matches on a component boundary.\<close>

definition mount_matches :: "string \<Rightarrow> vfs_superblock \<Rightarrow> bool" where
  "mount_matches path m =
     (let mp = mount_path m; len = length mp in
      if len = 0 then False
      else if \<not> c_prefix path mp then False
      else if mp ! (len - 1) \<noteq> CHR ''/'' \<and> char_at path len \<noteq> CHR 0x00 \<and> char_at path len \<noteq> CHR ''/'' then False
      else True)"

definition mount_step :: "string \<Rightarrow> vfs_superblock \<Rightarrow> vfs_superblock option \<times> nat \<Rightarrow> vfs_superblock option \<times> nat" where
  "mount_step path m best =
     (if mount_matches path m \<and> length (mount_path m) \<ge> snd best then (Some m, length (mount_path m)) else best)"

definition find_mount_for :: "string \<Rightarrow> vfs_superblock list \<Rightarrow> vfs_superblock option" where
  "find_mount_for path mounts = fst (fold (mount_step path) mounts (None, 0))"

section \<open>Path resolution\<close>

text \<open>
  The inner scan of \<open>vfs_lookup\<close>: skip slashes, then copy a name of at most 255 characters. The names
  do not depend on the file system, so the loop is split into the list of names and the walk.
\<close>

definition next_name :: "string \<Rightarrow> string \<times> string" where
  "next_name p =
     (let q = dropWhile (\<lambda>c. c = CHR ''/'') p;
          name = take (VFS_NAME_MAX - 1) (takeWhile (\<lambda>c. c \<noteq> CHR ''/'') q)
      in (name, drop (length name) q))"

lemma next_name_shorter:
  assumes "next_name p = (n, r)" "n \<noteq> []"
  shows "length r < length p"
proof -
  let ?q = "dropWhile (\<lambda>c. c = CHR ''/'') p"
  have r: "r = drop (length n) ?q" and n: "n = take 255 (takeWhile (\<lambda>c. c \<noteq> CHR ''/'') ?q)"
    using assms(1) by (auto simp: next_name_def Let_def VFS_NAME_MAX_def)
  have "?q \<noteq> []"
  proof
    assume e: "?q = []"
    show False using assms(2) unfolding n e by simp
  qed
  then have "0 < length ?q" by (rule length_greater_0_conv [THEN iffD2])
  moreover have "0 < length n" using assms(2) by (rule length_greater_0_conv [THEN iffD2])
  moreover have "length r = length ?q - length n" unfolding r by (rule length_drop)
  ultimately have "length r < length ?q" by linarith
  then show ?thesis using length_dropWhile_le [of "\<lambda>c. c = CHR ''/''" p] by linarith
qed

function components :: "string \<Rightarrow> string list" where
  "components p = (case next_name p of (name, rest) \<Rightarrow> if name = [] then [] else name # components rest)"
  by pat_completeness auto
termination
  by (relation "measure length") (simp_all add: next_name_shorter [OF sym])

declare components.simps [simp del]

text \<open>
  The loop of \<open>vfs_lookup\<close>: the current inode, the stack of its ancestors, the state of the file
  systems. An ancestor is remembered only while the stack has room.
\<close>

fun walk :: "'w vfs_env \<Rightarrow> string list \<Rightarrow> nat \<Rightarrow> nat list \<Rightarrow> 'w \<Rightarrow> int \<times> nat option \<times> 'w" where
  "walk env [] cur stack w = (0, Some cur, w)"
| "walk env (name # names) cur stack w =
     (if name = ''.'' then walk env names cur stack w
      else if name = ''..'' then
        (case stack of [] \<Rightarrow> walk env names cur stack w | a # as \<Rightarrow> walk env names a as w)
      else if \<not> VFS_S_ISDIR (env_mode env w cur) then (OB_ENOTDIR, None, w)
      else case env_ops env w cur of
          None \<Rightarrow> (OB_ENOSYS, None, w)
        | Some ops \<Rightarrow>
            (case op_lookup ops of
               None \<Rightarrow> (OB_ENOSYS, None, w)
             | Some lookup \<Rightarrow>
                 (case lookup cur name w of
                    (rc, next, w) \<Rightarrow>
                      if rc \<noteq> 0 then (rc, None, w)
                      else case next of
                          None \<Rightarrow> (OB_ENOENT, None, w)
                        | Some n \<Rightarrow>
                            walk env names n (if length stack < VFS_PATH_MAX_DEPTH then cur # stack else stack) w)))"

definition audit :: "audit_event \<Rightarrow> 'w vfs_state \<Rightarrow> 'w vfs_state" where
  "audit e s = s\<lparr>v_audit := v_audit s @ [e]\<rparr>"

definition vfs_lookup :: "'w vfs_env \<Rightarrow> string option \<Rightarrow> 'w vfs_state \<Rightarrow> int \<times> nat option \<times> 'w vfs_state" where
  "vfs_lookup env path s =
     (case path of
        None \<Rightarrow> (OB_EINVAL, None, s)
      | Some p \<Rightarrow>
          if path_is_kernel_protected path then (OB_EPERM, None, audit (CriticalAccess 0 p OB_ACCESS_READ) s)
          else if char_at p 0 \<noteq> CHR ''/'' then (OB_EINVAL, None, s)
          else case find_mount_for p (g_mounts s) of
              None \<Rightarrow> (OB_ENOENT, None, s)
            | Some sb \<Rightarrow>
                (case sb_root sb of
                   None \<Rightarrow> (OB_EIO, None, s)
                 | Some root \<Rightarrow>
                     (case walk env (components (drop (length (mount_path sb)) p)) root [] (v_fs s) of
                        (rc, r, w) \<Rightarrow> (rc, r, s\<lparr>v_fs := w\<rparr>))))"

text \<open>\<open>split_parent\<close>: trailing slashes go, the last component is the name, the rest the parent.\<close>

function strip_slashes :: "string \<Rightarrow> string" where
  "strip_slashes p = (if 1 < length p \<and> last p = CHR ''/'' then strip_slashes (butlast p) else p)"
  by pat_completeness auto
termination
  by (relation "measure length") auto

declare strip_slashes.simps [simp del]

definition split_parent :: "string \<Rightarrow> nat \<Rightarrow> nat \<Rightarrow> (string \<times> string) option" where
  "split_parent path psz nsz =
     (if char_at path 0 \<noteq> CHR ''/'' then None
      else
        let body = strip_slashes path;
            name = rev (takeWhile (\<lambda>c. c \<noteq> CHR ''/'') (rev body));
            slash = length body - length name
        in if length name = 0 \<or> length name \<ge> nsz then None
           else
             let parent = strip_slashes (take (if slash = 0 then 1 else slash) path)
             in if length parent = 0 \<or> length parent \<ge> psz then None
                else Some (parent, name))"

section \<open>Open, read, write, close\<close>

definition vfs_open_file ::
    "'w vfs_env \<Rightarrow> nat \<Rightarrow> u32 \<Rightarrow> 'w vfs_state \<Rightarrow> int \<times> vfs_file option \<times> 'w vfs_state" where
  "vfs_open_file env ino flags s =
     (if VFS_S_ISDIR (env_mode env (v_fs s) ino) \<and> flags AND VFS_O_WRONLY \<noteq> 0 then (OB_EISDIR, None, s)
      else case env_kzalloc env (v_fs s) of
        (ok, w) \<Rightarrow>
          let s = s\<lparr>v_fs := w\<rparr> in
          if \<not> ok then (OB_ENOMEM, None, s)
          else
            let f = \<lparr>f_pos = 0, f_flags = flags, f_inode = Some ino\<rparr>
            in case (case env_ops env w ino of None \<Rightarrow> None | Some ops \<Rightarrow> op_open ops) of
                 None \<Rightarrow> (0, Some f, s)
               | Some opn \<Rightarrow>
                   (case opn ino f w of
                      (rc, w) \<Rightarrow> if rc \<noteq> 0 then (rc, None, s\<lparr>v_fs := w\<rparr>) else (0, Some f, s\<lparr>v_fs := w\<rparr>)))"

text \<open>The parent directory of a path and the table of its operations, or the error of the caller.\<close>

definition with_parent ::
    "'w vfs_env \<Rightarrow> string \<Rightarrow> 'w vfs_state \<Rightarrow>
       (nat \<Rightarrow> string \<Rightarrow> 'w vfs_operations option \<Rightarrow> 'w vfs_state \<Rightarrow> 'a) \<Rightarrow> (int \<Rightarrow> 'w vfs_state \<Rightarrow> 'a) \<Rightarrow> 'a" where
  "with_parent env p s k err =
     (case split_parent p VFS_PATH_MAX VFS_NAME_MAX of
        None \<Rightarrow> err OB_EINVAL s
      | Some (parent, name) \<Rightarrow>
          (case vfs_lookup env (Some parent) s of
             (rc, dir, s) \<Rightarrow>
               if rc \<noteq> 0 then err rc s
               else case dir of
                   None \<Rightarrow> err OB_ENOENT s
                 | Some d \<Rightarrow>
                     if \<not> VFS_S_ISDIR (env_mode env (v_fs s) d) then err OB_ENOTDIR s
                     else k d name (env_ops env (v_fs s) d) s))"

definition vfs_open ::
    "'w vfs_env \<Rightarrow> string option \<Rightarrow> u32 \<Rightarrow> 'w vfs_state \<Rightarrow> int \<times> vfs_file option \<times> 'w vfs_state" where
  "vfs_open env path flags s =
     (case path of
        None \<Rightarrow> (OB_EINVAL, None, s)
      | Some p \<Rightarrow>
          if path_is_kernel_protected path then
            (OB_EPERM, None,
             audit (CriticalAccess 0 p (if flags AND VFS_O_WRONLY \<noteq> 0 then OB_ACCESS_WRITE else OB_ACCESS_READ)) s)
          else case vfs_lookup env path s of
            (rc, ino, s) \<Rightarrow>
              let want_create = (flags AND VFS_O_CREAT \<noteq> 0) in
              if rc = 0 \<and> ino \<noteq> None then
                if want_create \<and> flags AND VFS_O_EXCL \<noteq> 0 then (OB_EEXIST, None, s)
                else vfs_open_file env (the ino) flags s
              else if rc = OB_ENOENT \<and> want_create then
                with_parent env p s
                  (\<lambda>d name ops s.
                     case (case ops of None \<Rightarrow> None | Some t \<Rightarrow> op_create t) of
                       None \<Rightarrow> (OB_EROFS, None, s)
                     | Some create \<Rightarrow>
                         (case create d name (VFS_S_IFREG OR 0x1A4) (v_fs s) of
                            (rc, ino, w) \<Rightarrow>
                              let s = s\<lparr>v_fs := w\<rparr> in
                              if rc \<noteq> 0 then (rc, None, s)
                              else case ino of
                                  None \<Rightarrow> (OB_ENOENT, None, s)
                                | Some i \<Rightarrow> vfs_open_file env i flags s))
                  (\<lambda>rc s. (rc, None, s))
              else if rc = 0 then (0, None, s)
              else (rc, None, s))"

text \<open>
  A result \<open>rc > 0\<close> of a file system that did not move the position moves it here. The bytes read are
  returned.
\<close>

definition vfs_read ::
    "'w vfs_env \<Rightarrow> vfs_file option \<Rightarrow> u64 \<Rightarrow> 'w vfs_state \<Rightarrow> int \<times> u8 list \<times> vfs_file option \<times> 'w vfs_state" where
  "vfs_read env fo count s =
     (case fo of
        None \<Rightarrow> (OB_EINVAL, [], fo, s)
      | Some f \<Rightarrow>
          (case f_inode f of
             None \<Rightarrow> (OB_EINVAL, [], fo, s)
           | Some ino \<Rightarrow>
               (case (case env_ops env (v_fs s) ino of None \<Rightarrow> None | Some ops \<Rightarrow> op_read ops) of
                  None \<Rightarrow> (OB_ENOSYS, [], fo, s)
                | Some rd \<Rightarrow>
                    (case rd f count (v_fs s) of
                       (rc, bytes, f', w) \<Rightarrow>
                         (rc, bytes,
                          Some (if rc > 0 \<and> f_pos f' = f_pos f then f'\<lparr>f_pos := f_pos f + of_int rc\<rparr> else f'),
                          s\<lparr>v_fs := w\<rparr>)))))"

definition vfs_write ::
    "'w vfs_env \<Rightarrow> vfs_file option \<Rightarrow> u8 list \<Rightarrow> 'w vfs_state \<Rightarrow> int \<times> vfs_file option \<times> 'w vfs_state" where
  "vfs_write env fo buf s =
     (case fo of
        None \<Rightarrow> (OB_EINVAL, fo, s)
      | Some f \<Rightarrow>
          (case f_inode f of
             None \<Rightarrow> (OB_EINVAL, fo, s)
           | Some ino \<Rightarrow>
               (case (case env_ops env (v_fs s) ino of None \<Rightarrow> None | Some ops \<Rightarrow> op_write ops) of
                  None \<Rightarrow> (OB_ENOSYS, fo, s)
                | Some wr \<Rightarrow>
                    (case wr f buf (v_fs s) of
                       (rc, f', w) \<Rightarrow>
                         (rc,
                          Some (if rc > 0 \<and> f_pos f' = f_pos f then f'\<lparr>f_pos := f_pos f + of_int rc\<rparr> else f'),
                          s\<lparr>v_fs := w\<rparr>)))))"

text \<open>The result of the file system's \<open>close\<close> is ignored; the file object is freed.\<close>

definition vfs_close :: "'w vfs_env \<Rightarrow> vfs_file option \<Rightarrow> 'w vfs_state \<Rightarrow> int \<times> 'w vfs_state" where
  "vfs_close env fo s =
     (case fo of
        None \<Rightarrow> (OB_EINVAL, s)
      | Some f \<Rightarrow>
          (case f_inode f of
             None \<Rightarrow> (0, s)
           | Some ino \<Rightarrow>
               (case (case env_ops env (v_fs s) ino of None \<Rightarrow> None | Some ops \<Rightarrow> op_close ops) of
                  None \<Rightarrow> (0, s)
                | Some cl \<Rightarrow> (0, s\<lparr>v_fs := snd (cl f (v_fs s))\<rparr>))))"

section \<open>Directory operations\<close>

definition vfs_mkdir :: "'w vfs_env \<Rightarrow> string option \<Rightarrow> u16 \<Rightarrow> 'w vfs_state \<Rightarrow> int \<times> 'w vfs_state" where
  "vfs_mkdir env path mode s =
     (case path of
        None \<Rightarrow> (OB_EINVAL, s)
      | Some p \<Rightarrow>
          if path_is_kernel_protected path then (OB_EPERM, audit (CriticalAccess 0 p OB_ACCESS_WRITE) s)
          else with_parent env p s
            (\<lambda>d name ops s.
               case (case ops of None \<Rightarrow> None | Some t \<Rightarrow> op_mkdir t) of
                 None \<Rightarrow> (OB_EROFS, s)
               | Some mkdir \<Rightarrow>
                   (case mkdir d name (VFS_S_IFDIR OR (mode AND 0x0FFF)) (v_fs s) of
                      (rc, _, w) \<Rightarrow> (rc, s\<lparr>v_fs := w\<rparr>)))
            (\<lambda>rc s. (rc, s)))"

definition vfs_unlink :: "'w vfs_env \<Rightarrow> string option \<Rightarrow> 'w vfs_state \<Rightarrow> int \<times> 'w vfs_state" where
  "vfs_unlink env path s =
     (case path of
        None \<Rightarrow> (OB_EINVAL, s)
      | Some p \<Rightarrow>
          if path_is_kernel_protected path then (OB_EPERM, audit (CriticalAccess 0 p OB_ACCESS_DELETE) s)
          else with_parent env p s
            (\<lambda>d name ops s.
               case (case ops of None \<Rightarrow> None | Some t \<Rightarrow> op_unlink t) of
                 None \<Rightarrow> (OB_EROFS, s)
               | Some unlink \<Rightarrow> (case unlink d name (v_fs s) of (rc, w) \<Rightarrow> (rc, s\<lparr>v_fs := w\<rparr>)))
            (\<lambda>rc s. (rc, s)))"

definition vfs_rmdir :: "'w vfs_env \<Rightarrow> string option \<Rightarrow> 'w vfs_state \<Rightarrow> int \<times> 'w vfs_state" where
  "vfs_rmdir env path s =
     (case path of
        None \<Rightarrow> (OB_EINVAL, s)
      | Some p \<Rightarrow>
          if path_is_kernel_protected path then (OB_EPERM, audit (CriticalAccess 0 p OB_ACCESS_DELETE) s)
          else with_parent env p s
            (\<lambda>d name ops s.
               case (case ops of None \<Rightarrow> None | Some t \<Rightarrow> op_rmdir t) of
                 None \<Rightarrow> (OB_EROFS, s)
               | Some rmdir \<Rightarrow> (case rmdir d name (v_fs s) of (rc, w) \<Rightarrow> (rc, s\<lparr>v_fs := w\<rparr>)))
            (\<lambda>rc s. (rc, s)))"

definition vfs_readdir :: "'w vfs_env \<Rightarrow> nat option \<Rightarrow> nat \<Rightarrow> 'w vfs_state \<Rightarrow> int \<times> vfs_dirent option" where
  "vfs_readdir env dir index s =
     (case dir of
        None \<Rightarrow> (OB_EINVAL, None)
      | Some d \<Rightarrow>
          if \<not> VFS_S_ISDIR (env_mode env (v_fs s) d) then (OB_ENOTDIR, None)
          else case (case env_ops env (v_fs s) d of None \<Rightarrow> None | Some ops \<Rightarrow> op_readdir ops) of
              None \<Rightarrow> (OB_ENOSYS, None)
            | Some rd \<Rightarrow> rd d index (v_fs s))"

end
