(* ===== verification/VfsCorrect.thy ===== *)
theory VfsCorrect
  imports Vfs
begin

text \<open>
  Path resolution and the mount table, and the interface \<open>file_system\<close>: what the VFS theorems use of
  a file system, with the theorems about \<open>vfs_lookup\<close>, \<open>vfs_mkdir\<close> and \<open>vfs_unlink\<close> proved from it.
\<close>

section \<open>Components of a path\<close>

lemma components_Nil_iff: "components p = [] \<longleftrightarrow> set p \<subseteq> {CHR ''/''}"
proof -
  have "fst (next_name p) = [] \<longleftrightarrow> dropWhile (\<lambda>c. c = CHR ''/'') p = []"
  proof (cases "dropWhile (\<lambda>c. c = CHR ''/'') p")
    case (Cons c cs)
    then have "c \<noteq> CHR ''/''" using hd_dropWhile [of "\<lambda>c. c = CHR ''/''" p] by simp
    then show ?thesis by (simp add: next_name_def Let_def VFS_NAME_MAX_def Cons)
  next
    case Nil
    show ?thesis unfolding next_name_def Let_def Nil by simp
  qed
  also have "\<dots> \<longleftrightarrow> set p \<subseteq> {CHR ''/''}" by auto
  finally show ?thesis by (subst components.simps) (auto simp: split_beta)
qed

lemma dropWhile_append_out: "\<not> set a \<subseteq> {x. P x} \<Longrightarrow> dropWhile P (a @ b) = dropWhile P a @ b"
  by (induction a) auto

lemma takeWhile_append_out: "\<not> P c \<Longrightarrow> takeWhile P (a @ c # b) = takeWhile P a"
  by (induction a) auto

text \<open>A slash separates: what is before it and after it are cut into names independently.\<close>

lemma components_slash: "components (a @ CHR ''/'' # b) = components a @ components b"
proof (induction a rule: components.induct)
  case (1 a)
  show ?case
  proof (cases "set a \<subseteq> {CHR ''/''}")
    case True
    have "dropWhile (\<lambda>c. c = CHR ''/'') (a @ CHR ''/'' # b) = dropWhile (\<lambda>c. c = CHR ''/'') b"
      using True by (induction a) auto
    then have "next_name (a @ CHR ''/'' # b) = next_name b" by (simp add: next_name_def)
    then show ?thesis
      using components_Nil_iff [of a] True by (subst components.simps) (simp add: components.simps [of b])
  next
    case False
    let ?q = "dropWhile (\<lambda>c. c = CHR ''/'') a"
    let ?n = "take 255 (takeWhile (\<lambda>c. c \<noteq> CHR ''/'') ?q)"
    have q: "dropWhile (\<lambda>c. c = CHR ''/'') (a @ CHR ''/'' # b) = ?q @ CHR ''/'' # b"
      using dropWhile_append_out [of a "\<lambda>c. c = CHR ''/''" "CHR ''/'' # b"] False by auto
    have a: "next_name a = (?n, drop (length ?n) ?q)" by (simp add: next_name_def Let_def VFS_NAME_MAX_def)
    have len: "length ?n \<le> length ?q"
      using length_takeWhile_le [of "\<lambda>c. c \<noteq> CHR ''/''" ?q] by simp
    have ab: "next_name (a @ CHR ''/'' # b) = (?n, drop (length ?n) ?q @ CHR ''/'' # b)"
      using len by (simp add: next_name_def Let_def VFS_NAME_MAX_def q takeWhile_append_out)
    have ne: "?n \<noteq> []"
      using False components_Nil_iff [of a] a by (subst (asm) components.simps) (auto split: if_splits)
    have "components (drop (length ?n) ?q @ CHR ''/'' # b) = components (drop (length ?n) ?q) @ components b"
      using "1.IH" [OF a [symmetric] ne] .
    then show ?thesis
      using ne by (subst (1 2) components.simps) (simp only: a ab prod.case if_False append_Cons)
  qed
qed

lemma components_name: "n \<noteq> [] \<Longrightarrow> CHR ''/'' \<notin> set n \<Longrightarrow> length n \<le> 255 \<Longrightarrow> components n = [n]"
proof -
  assume n: "n \<noteq> []" "CHR ''/'' \<notin> set n" "length n \<le> 255"
  then have dw: "dropWhile (\<lambda>c. c = CHR ''/'') n = n" by (cases n) auto
  have tw: "takeWhile (\<lambda>c. c \<noteq> CHR ''/'') n = n" using n(2) by (auto intro: takeWhile_eq_all_conv [THEN iffD2])
  have "next_name n = (take 255 n, drop (length (take 255 n)) n)"
    unfolding next_name_def Let_def dw tw VFS_NAME_MAX_def by simp
  then have "next_name n = (n, [])" using n(3) by simp
  moreover have "components [] = []" by (simp add: components_Nil_iff)
  ultimately show ?thesis using n(1) by (subst components.simps) simp
qed

lemma components_slashes: "set sl \<subseteq> {CHR ''/''} \<Longrightarrow> components (a @ sl) = components a"
proof (induction sl arbitrary: a rule: rev_induct)
  case (snoc x sl)
  then have "components ((a @ sl) @ CHR ''/'' # []) = components (a @ sl) @ components []"
    by (simp only: components_slash)
  then show ?case using snoc by (simp add: components_Nil_iff)
qed simp

lemma components_lead: "set sl \<subseteq> {CHR ''/''} \<Longrightarrow> components (sl @ a) = components a"
proof (induction sl)
  case (Cons x sl)
  then have "components ([] @ CHR ''/'' # (sl @ a)) = components [] @ components (sl @ a)"
    by (simp only: components_slash)
  then show ?case using Cons by (simp add: components_Nil_iff)
qed simp

lemma strip_slashes_split:
  "\<exists>sl. p = strip_slashes p @ sl \<and> set sl \<subseteq> {CHR ''/''} \<and>
     (length (strip_slashes p) \<le> 1 \<or> last (strip_slashes p) \<noteq> CHR ''/'') \<and> (p \<noteq> [] \<longrightarrow> strip_slashes p \<noteq> [])"
proof (induction p rule: strip_slashes.induct)
  case (1 p)
  show ?case
  proof (cases "1 < length p \<and> last p = CHR ''/''")
    case False
    then show ?thesis by (subst (1 2 3 4) strip_slashes.simps) auto
  next
    case True
    then have s: "strip_slashes p = strip_slashes (butlast p)" by (subst strip_slashes.simps) simp
    obtain sl where sl: "butlast p = strip_slashes (butlast p) @ sl" "set sl \<subseteq> {CHR ''/''}"
      "length (strip_slashes (butlast p)) \<le> 1 \<or> last (strip_slashes (butlast p)) \<noteq> CHR ''/''"
      "butlast p \<noteq> [] \<longrightarrow> strip_slashes (butlast p) \<noteq> []" using "1.IH" [OF True] by blast
    have p: "p = butlast p @ [CHR ''/'']" using True by (metis append_butlast_last_id length_0_conv not_less0)
    then have "p = strip_slashes p @ (sl @ [CHR ''/''])" using sl(1) s by (metis append.assoc)
    moreover have "butlast p \<noteq> []" using True by (cases p) auto
    ultimately show ?thesis using sl s by (intro exI [of _ "sl @ [CHR ''/'']"]) auto
  qed
qed

text \<open>
  What \<open>split_parent\<close> returns: the path is the parent, slashes, the name, slashes; the parent is \<open>/\<close> or
  is followed by at least one slash.
\<close>

lemma split_parent_Some:
  assumes "split_parent p psz nsz = Some (parent, name)"
  obtains s1 s2 where "p = parent @ s1 @ name @ s2" "set s1 \<subseteq> {CHR ''/''}" "set s2 \<subseteq> {CHR ''/''}"
    "name \<noteq> []" "CHR ''/'' \<notin> set name" "length name < nsz" "parent \<noteq> []" "char_at p 0 = CHR ''/''"
    "parent = ''/'' \<or> s1 \<noteq> []"
proof -
  define body where "body = strip_slashes p"
  define nm where "nm = rev (takeWhile (\<lambda>c. c \<noteq> CHR ''/'') (rev body))"
  define slash where "slash = length body - length nm"
  have c0: "char_at p 0 = CHR ''/''" and nm: "name = nm" "nm \<noteq> []" "length nm < nsz"
    and par: "parent = strip_slashes (take (if slash = 0 then 1 else slash) p)" "parent \<noteq> []"
    using assms by (auto simp: split_parent_def Let_def body_def nm_def slash_def split: if_splits)
  obtain s2 where s2: "p = body @ s2" "set s2 \<subseteq> {CHR ''/''}" using strip_slashes_split [of p] by (auto simp: body_def)
  define pre where "pre = rev (dropWhile (\<lambda>c. c \<noteq> CHR ''/'') (rev body))"
  have body: "body = pre @ nm"
    unfolding pre_def nm_def rev_append [symmetric] takeWhile_dropWhile_id by simp
  have slash: "slash = length pre" by (simp add: slash_def body)
  have noslash: "CHR ''/'' \<notin> set nm" by (auto simp: nm_def dest: set_takeWhileD)
  have "pre \<noteq> []"
  proof
    assume "pre = []"
    then have "p = nm @ s2" using s2 body by simp
    then have "char_at p 0 = hd nm" using nm(2) by (cases nm) (auto simp: char_at_def)
    then show False using c0 noslash nm(2) by (metis hd_in_set)
  qed
  then have "dropWhile (\<lambda>c. c \<noteq> CHR ''/'') (rev body) \<noteq> []" by (simp add: pre_def)
  from hd_dropWhile [OF this] have hd: "last pre = CHR ''/''" by (simp only: pre_def last_rev not_not)
  have "take slash p = pre" by (simp add: s2 body slash)
  then have p1: "parent = strip_slashes pre" using par(1) \<open>pre \<noteq> []\<close> slash by simp
  obtain s1 where s1: "pre = parent @ s1" "set s1 \<subseteq> {CHR ''/''}" "length parent \<le> 1 \<or> last parent \<noteq> CHR ''/''"
    using strip_slashes_split [of pre] p1 by auto
  have "parent = ''/'' \<or> s1 \<noteq> []"
  proof (rule ccontr)
    assume n: "\<not> ?thesis"
    then have "last parent = CHR ''/''" using s1(1) hd by simp
    then show False using n s1(3) par(2) by (cases parent) auto
  qed
  then show ?thesis
    using that [of s1 s2] s1 s2 body nm noslash par(2) c0 by auto
qed

section \<open>The mount table\<close>

lemma mount_fold:
  assumes "fst b = None \<and> snd b = 0 \<or>
    (\<exists>m. fst b = Some m \<and> mount_matches p m \<and> snd b = length (mount_path m))"
  shows "case fold (mount_step p) ms b of
      (None, n) \<Rightarrow> n = 0 \<and> fst b = None \<and> (\<forall>m \<in> set ms. \<not> mount_matches p m)
    | (Some m, n) \<Rightarrow> mount_matches p m \<and> n = length (mount_path m) \<and> snd b \<le> n \<and> (m \<in> set ms \<or> fst b = Some m) \<and>
        (\<forall>m' \<in> set ms. mount_matches p m' \<longrightarrow> length (mount_path m') \<le> n)"
  using assms
proof (induction ms arbitrary: b)
  case Nil
  then show ?case by (cases b; cases "fst b") auto
next
  case (Cons a ms)
  let ?b = "mount_step p a b"
  have b: "fst ?b = None \<and> snd ?b = 0 \<or> (\<exists>m. fst ?b = Some m \<and> mount_matches p m \<and> snd ?b = length (mount_path m))"
    using Cons.prems by (auto simp: mount_step_def)
  have st: "fst ?b = None \<longrightarrow> fst b = None \<and> \<not> mount_matches p a"
    "snd b \<le> snd ?b" "mount_matches p a \<longrightarrow> length (mount_path a) \<le> snd ?b"
    "\<And>m. fst ?b = Some m \<Longrightarrow> m = a \<or> fst b = Some m"
    using Cons.prems by (auto simp: mount_step_def split: if_splits)
  show ?case
    using Cons.IH [OF b] st b
    by (cases "fold (mount_step p) ms ?b"; cases "fst (fold (mount_step p) ms ?b)") (fastforce simp: st(4))+
qed

text \<open>The mount found is a longest one that matches.\<close>

lemma find_mount_Some:
  assumes "find_mount_for p ms = Some m"
  shows "m \<in> set ms" "mount_matches p m" "\<And>m'. m' \<in> set ms \<Longrightarrow> mount_matches p m' \<Longrightarrow> length (mount_path m') \<le> length (mount_path m)"
  using mount_fold [of "(None, 0)" p ms] assms
  by (auto simp: find_mount_for_def split: prod.splits)

lemma find_mount_None: "find_mount_for p ms = None \<Longrightarrow> m \<in> set ms \<Longrightarrow> \<not> mount_matches p m"
  using mount_fold [of "(None, 0)" p ms]
  by (auto simp: find_mount_for_def split: prod.splits)

section \<open>Dots\<close>

lemma walk_dots [case_names dots name]:
  obtains (dots) cur' stack' where "\<And>names w. walk env (a # names) cur stack w = walk env names cur' stack' w"
      "cur' \<in> insert cur (set stack)" "set stack' \<subseteq> set stack"
  | (name) "a \<noteq> ''.''" "a \<noteq> ''..''"
proof -
  consider "a = ''.''" | "a = ''..''" "stack = []" | b bs where "a = ''..''" "stack = b # bs"
    | "a \<noteq> ''.''" "a \<noteq> ''..''"
    by (cases stack) auto
  then show ?thesis
  proof cases
    case 1
    then show ?thesis by (intro dots [of cur stack]) auto
  next
    case 2
    then show ?thesis by (intro dots [of cur stack]) auto
  next
    case (3 b bs)
    then show ?thesis by (intro dots [of b bs]) auto
  next
    case 4
    then show ?thesis by (rule name)
  qed
qed

section \<open>The file-system interface\<close>

text \<open>
  \<open>entry w d n\<close> is the inode that directory \<open>d\<close> has under name \<open>n\<close>. A file system that keeps the laws
  gives the VFS a tree it can resolve paths in: looking up reads the table and changes nothing, making
  an entry adds exactly one fresh inode, and removing one removes exactly that entry.
\<close>

locale file_system =
  fixes env :: "'w vfs_env"
    and ok :: "'w \<Rightarrow> bool"
    and live :: "'w \<Rightarrow> nat set"
    and entry :: "'w \<Rightarrow> nat \<Rightarrow> string \<Rightarrow> nat option"
    and ops :: "'w vfs_operations"
    and fs_lookup :: "nat \<Rightarrow> string \<Rightarrow> 'w \<Rightarrow> int \<times> nat option \<times> 'w"
    and fs_mkdir :: "nat \<Rightarrow> string \<Rightarrow> u16 \<Rightarrow> 'w \<Rightarrow> int \<times> nat option \<times> 'w"
    and fs_unlink :: "nat \<Rightarrow> string \<Rightarrow> 'w \<Rightarrow> int \<times> 'w"
  assumes table: "op_lookup ops = Some fs_lookup" "op_mkdir ops = Some fs_mkdir" "op_unlink ops = Some fs_unlink"
    and dispatch: "ok w \<Longrightarrow> d \<in> live w \<Longrightarrow> env_ops env w d = Some ops"
    and lookup_dir: "ok w \<Longrightarrow> d \<in> live w \<Longrightarrow> VFS_S_ISDIR (env_mode env w d) \<Longrightarrow>
      fs_lookup d n w = (case entry w d n of Some i \<Rightarrow> (0, Some i, w) | None \<Rightarrow> (OB_ENOENT, None, w))"
    and entry_live: "ok w \<Longrightarrow> entry w d n = Some i \<Longrightarrow> i \<in> live w"
    and mkdir_ok: "ok w \<Longrightarrow> d \<in> live w \<Longrightarrow> length n \<le> 255 \<Longrightarrow> fs_mkdir d n m w = (0, r, w') \<Longrightarrow>
      \<exists>i. r = Some i \<and> i \<notin> live w \<and> ok w' \<and> live w' = insert i (live w) \<and> entry w d n = None \<and>
        entry w' = (entry w)(d := (entry w d)(n \<mapsto> i)) \<and>
        (\<forall>j \<in> live w. env_mode env w' j = env_mode env w j) \<and> VFS_S_ISDIR (env_mode env w' i)"
    and unlink_ok: "ok w \<Longrightarrow> d \<in> live w \<Longrightarrow> fs_unlink d n w = (0, w') \<Longrightarrow>
      \<exists>i. entry w d n = Some i \<and> i \<noteq> d \<and> ok w' \<and> live w' = live w - {i} \<and>
        entry w' = (entry w)(d := (entry w d)(n := None)) \<and>
        (\<forall>j \<in> live w'. env_mode env w' j = env_mode env w j)"
begin

text \<open>One step of the walk, with the operations table resolved.\<close>

lemma walk_step:
  assumes "ok w" "cur \<in> live w" "name \<noteq> ''.''" "name \<noteq> ''..''"
  shows "walk env (name # names) cur stack w =
    (if \<not> VFS_S_ISDIR (env_mode env w cur) then (OB_ENOTDIR, None, w)
     else case entry w cur name of
         None \<Rightarrow> (OB_ENOENT, None, w)
       | Some i \<Rightarrow> walk env names i (if length stack < VFS_PATH_MAX_DEPTH then cur # stack else stack) w)"
  using assms dispatch [OF assms(1,2)] lookup_dir [OF assms(1,2), of name]
  by (simp add: table split: option.splits)

text \<open>The walk changes nothing and stays within the live inodes.\<close>

lemma walk_pure:
  assumes "ok w"
  shows "cur \<in> live w \<Longrightarrow> set stack \<subseteq> live w \<Longrightarrow>
    snd (snd (walk env names cur stack w)) = w \<and>
    (\<forall>i. fst (snd (walk env names cur stack w)) = Some i \<longrightarrow> i \<in> live w \<and> fst (walk env names cur stack w) = 0) \<and>
    (fst (walk env names cur stack w) = 0 \<longrightarrow> fst (snd (walk env names cur stack w)) \<noteq> None)"
proof (induction names arbitrary: cur stack)
  case (Cons a names)
  show ?case
  proof (cases rule: walk_dots [where env = env and a = a and cur = cur and stack = stack])
    case (dots cur' stack')
    have "cur' \<in> live w" "set stack' \<subseteq> live w" using Cons.prems dots(2,3) by auto
    from Cons.IH [OF this] show ?thesis unfolding dots(1) .
  next
    case name
    have n: "set (if length stack < VFS_PATH_MAX_DEPTH then cur # stack else stack) \<subseteq> live w"
      using Cons.prems by auto
    show ?thesis
      unfolding walk_step [OF assms Cons.prems(1) name]
      using Cons.IH [OF entry_live [OF assms] n] by (auto split: option.splits)
  qed
qed simp

lemma walk_live: "ok w \<Longrightarrow> cur \<in> live w \<Longrightarrow> walk env names cur [] w = (0, Some i, w') \<Longrightarrow> i \<in> live w"
  using walk_pure [of w cur "[]" names] by simp

text \<open>The last component is looked up in the directory that the others lead to.\<close>

lemma walk_snoc:
  assumes "ok w" "n \<noteq> ''.''" "n \<noteq> ''..''"
  shows "cur \<in> live w \<Longrightarrow> set stack \<subseteq> live w \<Longrightarrow>
    walk env (names @ [n]) cur stack w =
      (case walk env names cur stack w of
         (rc, None, w) \<Rightarrow> (rc, None, w)
       | (rc, Some d, w) \<Rightarrow>
           if \<not> VFS_S_ISDIR (env_mode env w d) then (OB_ENOTDIR, None, w)
           else case entry w d n of None \<Rightarrow> (OB_ENOENT, None, w) | Some i \<Rightarrow> (0, Some i, w))"
proof (induction names arbitrary: cur stack)
  case Nil
  then show ?case using walk_step [OF assms(1) Nil(1) assms(2,3), of "[]" stack]
    by (auto split: option.splits)
next
  case (Cons a names)
  show ?case
  proof (cases rule: walk_dots [where env = env and a = a and cur = cur and stack = stack])
    case (dots cur' stack')
    have "cur' \<in> live w" "set stack' \<subseteq> live w" using Cons.prems dots(2,3) by auto
    from Cons.IH [OF this] show ?thesis unfolding append_Cons dots(1) .
  next
    case name
    have n: "set (if length stack < VFS_PATH_MAX_DEPTH then cur # stack else stack) \<subseteq> live w"
      using Cons.prems by auto
    note ws = walk_step [OF assms(1) Cons.prems(1) name]
    show ?thesis
    proof (cases "VFS_S_ISDIR (env_mode env w cur)")
      case False
      then show ?thesis unfolding append_Cons ws by simp
    next
      case True
      show ?thesis
      proof (cases "entry w cur a")
        case None
        then show ?thesis unfolding append_Cons ws using True by simp
      next
        case (Some j)
        show ?thesis
          unfolding append_Cons ws Some using True Cons.IH [OF entry_live [OF assms(1) Some] n]
          by (simp only: option.case if_False not_True_eq_False)
      qed
    qed
  qed
qed

text \<open>A walk that succeeds goes the same way in any state that has all the old entries.\<close>

lemma walk_extends:
  assumes "ok w" "ok w'" "live w \<subseteq> live w'" "\<And>d n i. entry w d n = Some i \<Longrightarrow> entry w' d n = Some i"
    and "\<And>j. j \<in> live w \<Longrightarrow> env_mode env w' j = env_mode env w j"
  shows "cur \<in> live w \<Longrightarrow> set stack \<subseteq> live w \<Longrightarrow> walk env names cur stack w = (0, Some i, w) \<Longrightarrow>
    walk env names cur stack w' = (0, Some i, w')"
proof (induction names arbitrary: cur stack)
  case (Cons a names)
  show ?case
  proof (cases rule: walk_dots [where env = env and a = a and cur = cur and stack = stack])
    case (dots cur' stack')
    have "cur' \<in> live w" "set stack' \<subseteq> live w" using Cons.prems dots(2,3) by auto
    from Cons.IH [OF this] Cons.prems(3) show ?thesis unfolding dots(1) .
  next
    case name
    then have st: "VFS_S_ISDIR (env_mode env w cur)" "\<exists>j. entry w cur a = Some j \<and>
        walk env names j (if length stack < VFS_PATH_MAX_DEPTH then cur # stack else stack) w = (0, Some i, w)"
      using Cons.prems(3) walk_step [OF assms(1) Cons.prems(1), of a names stack]
      by (auto split: if_splits option.splits)
    then obtain j where j: "entry w cur a = Some j"
      "walk env names j (if length stack < VFS_PATH_MAX_DEPTH then cur # stack else stack) w = (0, Some i, w)" by blast
    have "walk env names j (if length stack < VFS_PATH_MAX_DEPTH then cur # stack else stack) w' = (0, Some i, w')"
      by (rule Cons.IH [OF entry_live [OF assms(1) j(1)] _ j(2)]) (use Cons.prems in auto)
    moreover have "cur \<in> live w'" using Cons.prems(1) assms(3) by blast
    ultimately show ?thesis
      using walk_step [OF assms(2) _ name, of cur names stack] assms(4) [OF j(1)] assms(5) [OF Cons.prems(1)] st(1)
      by simp
  qed
qed simp

text \<open>After the removal of one entry a walk either goes the same way or ends at the removed entry.\<close>

lemma walk_removed:
  assumes "ok w" "ok w'" "live w' \<subseteq> live w" "entry w' = (entry w)(d := (entry w d)(n := None))"
    and "\<And>j. j \<in> live w' \<Longrightarrow> env_mode env w' j = env_mode env w j"
  shows "cur \<in> live w' \<Longrightarrow> set stack \<subseteq> live w' \<Longrightarrow> walk env names cur stack w = (0, Some i, w) \<Longrightarrow>
    walk env names cur stack w' = (0, Some i, w') \<or> walk env names cur stack w' = (OB_ENOENT, None, w')"
proof (induction names arbitrary: cur stack)
  case (Cons a names)
  show ?case
  proof (cases rule: walk_dots [where env = env and a = a and cur = cur and stack = stack])
    case (dots cur' stack')
    have "cur' \<in> live w'" "set stack' \<subseteq> live w'" using Cons.prems dots(2,3) by auto
    from Cons.IH [OF this] Cons.prems(3) show ?thesis unfolding dots(1) .
  next
    case name
    have curw: "cur \<in> live w" using Cons.prems(1) assms(3) by blast
    have st: "VFS_S_ISDIR (env_mode env w cur)" "\<exists>j. entry w cur a = Some j \<and>
        walk env names j (if length stack < VFS_PATH_MAX_DEPTH then cur # stack else stack) w = (0, Some i, w)"
      using name Cons.prems(3) walk_step [OF assms(1) curw, of a names stack]
      by (auto split: if_splits option.splits)
    then obtain j where j: "entry w cur a = Some j"
      "walk env names j (if length stack < VFS_PATH_MAX_DEPTH then cur # stack else stack) w = (0, Some i, w)" by blast
    have dir: "VFS_S_ISDIR (env_mode env w' cur)" using st(1) assms(5) Cons.prems(1) by simp
    have ws: "walk env (a # names) cur stack w' =
        (case entry w' cur a of None \<Rightarrow> (OB_ENOENT, None, w')
         | Some i \<Rightarrow> walk env names i (if length stack < VFS_PATH_MAX_DEPTH then cur # stack else stack) w')"
      using dir walk_step [OF assms(2) Cons.prems(1) name, of names stack] by simp
    show ?thesis
    proof (cases "cur = d \<and> a = n")
      case True
      then show ?thesis using ws by (simp add: assms(4))
    next
      case ne: False
      then have e: "entry w' cur a = Some j" using j(1) by (auto simp: assms(4))
      have "walk env names j (if length stack < VFS_PATH_MAX_DEPTH then cur # stack else stack) w' = (0, Some i, w') \<or>
          walk env names j (if length stack < VFS_PATH_MAX_DEPTH then cur # stack else stack) w' = (OB_ENOENT, None, w')"
        by (rule Cons.IH [OF entry_live [OF assms(2) e] _ j(2)]) (use Cons.prems in auto)
      then show ?thesis using ws e by simp
    qed
  qed
qed simp

text \<open>The inodes below a directory. A walk from it never leaves them, dots or not.\<close>

inductive_set tree :: "'w \<Rightarrow> nat \<Rightarrow> nat set" for w root where
  root: "root \<in> tree w root"
| child: "d \<in> tree w root \<Longrightarrow> entry w d n = Some i \<Longrightarrow> i \<in> tree w root"

lemma walk_in_tree:
  assumes "ok w"
  shows "cur \<in> live w \<Longrightarrow> set stack \<subseteq> live w \<Longrightarrow> cur \<in> tree w root \<Longrightarrow> set stack \<subseteq> tree w root \<Longrightarrow>
    fst (snd (walk env names cur stack w)) = Some i \<Longrightarrow> i \<in> tree w root"
proof (induction names arbitrary: cur stack)
  case (Cons a names)
  show ?case
  proof (cases rule: walk_dots [where env = env and a = a and cur = cur and stack = stack])
    case (dots cur' stack')
    have "cur' \<in> live w" "set stack' \<subseteq> live w" "cur' \<in> tree w root" "set stack' \<subseteq> tree w root"
      using Cons.prems(1-4) dots(2,3) by auto
    from Cons.IH [OF this] Cons.prems(5) show ?thesis unfolding dots(1) .
  next
    case name
    obtain j where j: "entry w cur a = Some j"
      "fst (snd (walk env names j (if length stack < VFS_PATH_MAX_DEPTH then cur # stack else stack) w)) = Some i"
      using Cons.prems(5) walk_step [OF assms Cons.prems(1) name, of names stack]
      by (auto split: if_splits option.splits)
    show ?thesis
      by (rule Cons.IH [OF entry_live [OF assms j(1)] _ _ _ j(2)]) (use Cons.prems j(1) tree.child in auto)
  qed
qed auto

text \<open>Going down two directories and back up twice is going nowhere.\<close>

lemma walk_down_up:
  assumes "ok w" "root \<in> live w" "VFS_S_ISDIR (env_mode env w root)" "entry w root a = Some i"
    and "VFS_S_ISDIR (env_mode env w i)" "entry w i b = Some j"
    and "a \<noteq> ''.''" "a \<noteq> ''..''" "b \<noteq> ''.''" "b \<noteq> ''..''"
  shows "walk env (a # b # ''..'' # ''..'' # names) root [] w = walk env names root [] w"
proof -
  have d: "length ([] :: nat list) < VFS_PATH_MAX_DEPTH" "length [root] < VFS_PATH_MAX_DEPTH"
    by (simp_all add: VFS_PATH_MAX_DEPTH_def)
  have "walk env (a # b # ''..'' # ''..'' # names) root [] w = walk env (b # ''..'' # ''..'' # names) i [root] w"
    unfolding walk_step [OF assms(1,2,7,8)] by (simp only: assms(3,4) d not_True_eq_False if_False if_True option.case)
  also have "\<dots> = walk env (''..'' # ''..'' # names) j [i, root] w"
    unfolding walk_step [OF assms(1) entry_live [OF assms(1,4)] assms(9,10)]
    by (simp only: assms(5,6) d not_True_eq_False if_False if_True option.case)
  also have "\<dots> = walk env names root [] w" by simp
  finally show ?thesis .
qed

section \<open>\<open>vfs_lookup\<close>, \<open>vfs_mkdir\<close> and \<open>vfs_unlink\<close> on a file system\<close>

text \<open>All mounts are roots of this file system.\<close>

definition vfs_ok :: "'w vfs_state \<Rightarrow> bool" where
  "vfs_ok s \<longleftrightarrow> ok (v_fs s) \<and> (\<forall>m \<in> set (g_mounts s). \<forall>r. sb_root m = Some r \<longrightarrow> r \<in> live (v_fs s))"

lemma mount_root_live: "vfs_ok s \<Longrightarrow> find_mount_for p (g_mounts s) = Some m \<Longrightarrow> sb_root m = Some r \<Longrightarrow> r \<in> live (v_fs s)"
  using find_mount_Some(1) [of p "g_mounts s" m] by (auto simp: vfs_ok_def)

lemma vfs_lookup_state:
  assumes "vfs_ok s" "vfs_lookup env path s = (rc, r, s')"
  shows "v_fs s' = v_fs s" "g_mounts s' = g_mounts s"
proof -
  have "v_fs s' = v_fs s \<and> g_mounts s' = g_mounts s"
  proof (cases path)
    case None
    then show ?thesis using assms(2) by (simp add: vfs_lookup_def)
  next
    case (Some p)
    show ?thesis
    proof (cases "find_mount_for p (g_mounts s)")
      case None
      then show ?thesis using assms(2) Some by (auto simp: vfs_lookup_def audit_def split: if_splits)
    next
      case m: (Some m)
      show ?thesis
      proof (cases "sb_root m")
        case None
        then show ?thesis using assms(2) Some m by (auto simp: vfs_lookup_def audit_def split: if_splits)
      next
        case rt: (Some root)
        have "snd (snd (walk env (components (drop (length (mount_path m)) p)) root [] (v_fs s))) = v_fs s"
          using walk_pure mount_root_live [OF assms(1) m rt] assms(1) by (simp add: vfs_ok_def)
        then show ?thesis
          using assms(2) Some m rt by (auto simp: vfs_lookup_def audit_def split: if_splits prod.splits)
      qed
    qed
  qed
  then show "v_fs s' = v_fs s" "g_mounts s' = g_mounts s" by auto
qed

text \<open>A successful lookup is a walk in the mount that serves the path.\<close>

lemma vfs_lookup_walk:
  assumes "vfs_ok s"
  shows "vfs_lookup env (Some p) s = (0, Some i, s') \<longleftrightarrow>
    \<not> path_is_kernel_protected (Some p) \<and> char_at p 0 = CHR ''/'' \<and> s' = s \<and>
    (\<exists>m root. find_mount_for p (g_mounts s) = Some m \<and> sb_root m = Some root \<and> root \<in> live (v_fs s) \<and>
       walk env (components (drop (length (mount_path m)) p)) root [] (v_fs s) = (0, Some i, v_fs s))"
proof (cases "find_mount_for p (g_mounts s)")
  case None
  then show ?thesis by (auto simp: vfs_lookup_def)
next
  case (Some m)
  show ?thesis
  proof (cases "sb_root m")
    case None
    then show ?thesis using Some by (auto simp: vfs_lookup_def)
  next
    case r: (Some root)
    then have "root \<in> live (v_fs s)" using assms find_mount_Some(1) [OF Some] by (auto simp: vfs_ok_def)
    moreover have "ok (v_fs s)" using assms by (simp add: vfs_ok_def)
    ultimately show ?thesis
      using Some r walk_pure [of "v_fs s" root "[]" "components (drop (length (mount_path m)) p)"]
      by (auto simp: vfs_lookup_def split: prod.splits)
  qed
qed

text \<open>The names of a path are those of its parent and the last one, when one mount serves both.\<close>

lemma split_components:
  assumes "split_parent p psz nsz = Some (parent, name)" "nsz \<le> 256"
    and "find_mount_for parent ms = Some m"
  shows "components (drop (length (mount_path m)) p) = components (drop (length (mount_path m)) parent) @ [name]"
proof (rule split_parent_Some [OF assms(1)])
  fix s1 s2
  assume a: "p = parent @ s1 @ name @ s2" "set s1 \<subseteq> {CHR ''/''}" "set s2 \<subseteq> {CHR ''/''}" "name \<noteq> []"
    "CHR ''/'' \<notin> set name" "length name < nsz" "parent = ''/'' \<or> s1 \<noteq> []"
  have mm: "mount_path m \<noteq> []" "c_prefix parent (mount_path m)"
    using find_mount_Some(2) [OF assms(3)] by (auto simp: mount_matches_def Let_def split: if_splits)
  then obtain r where r: "parent = mount_path m @ r" by (auto simp: c_prefix_iff)
  have nm: "components (name @ s2) = [name]"
    using components_slashes [OF a(3)] components_name a(4-6) assms(2) by simp
  have "components (r @ s1 @ name @ s2) = components r @ components (name @ s2)"
  proof (cases s1)
    case Nil
    then have "r = []" using a(7) r mm(1) by (cases "mount_path m") auto
    then show ?thesis using Nil by (simp add: components_Nil_iff)
  next
    case (Cons x s1')
    then have "components (r @ CHR ''/'' # (s1' @ name @ s2)) = components r @ components (s1' @ name @ s2)"
      by (simp only: components_slash)
    then show ?thesis using Cons a(2) components_lead [of s1' "name @ s2"] by simp
  qed
  then show ?thesis using nm by (simp add: a(1) r)
qed

lemma protected_parent:
  assumes "split_parent p psz nsz = Some (parent, name)"
  shows "char_at p 0 = CHR ''/''"
  by (rule split_parent_Some [OF assms])

text \<open>\<open>vfs_mkdir\<close>: the new directory is found under its path, and everything else stays where it was.\<close>

lemma vfs_mkdir_then_lookup:
  assumes ok: "vfs_ok s" and r: "vfs_mkdir env (Some p) mode s = (0, s')"
    and sp: "split_parent p VFS_PATH_MAX VFS_NAME_MAX = Some (parent, name)" "name \<noteq> ''.''" "name \<noteq> ''..''"
    and mnt: "find_mount_for p (g_mounts s) = find_mount_for parent (g_mounts s)"
  shows "vfs_ok s' \<and>
    (\<exists>i. i \<notin> live (v_fs s) \<and> vfs_lookup env (Some p) s' = (0, Some i, s') \<and> VFS_S_ISDIR (env_mode env (v_fs s') i)) \<and>
    (\<forall>q j. vfs_lookup env (Some q) s = (0, Some j, s) \<longrightarrow> vfs_lookup env (Some q) s' = (0, Some j, s'))"
proof -
  have np: "\<not> path_is_kernel_protected (Some p)" using r by (auto simp: vfs_mkdir_def)
  obtain rc dir s1 where l: "vfs_lookup env (Some parent) s = (rc, dir, s1)" by (metis surj_pair)
  note st = vfs_lookup_state [OF ok l]
  obtain d where d: "rc = 0" "dir = Some d" "VFS_S_ISDIR (env_mode env (v_fs s) d)"
    and mk: "(case (case env_ops env (v_fs s) d of None \<Rightarrow> None | Some t \<Rightarrow> op_mkdir t) of
        None \<Rightarrow> (OB_EROFS, s1)
      | Some mkdir \<Rightarrow> (case mkdir d name (VFS_S_IFDIR OR (mode AND 0x0FFF)) (v_fs s) of (rc, _, w) \<Rightarrow> (rc, s1\<lparr>v_fs := w\<rparr>))) = (0, s')"
    using r np l st by (auto simp: vfs_mkdir_def with_parent_def sp split: if_splits option.splits)
  from vfs_lookup_walk [OF ok, of parent d s1] l d obtain m root where
    w: "s1 = s" "find_mount_for parent (g_mounts s) = Some m" "sb_root m = Some root" "root \<in> live (v_fs s)"
      "walk env (components (drop (length (mount_path m)) parent)) root [] (v_fs s) = (0, Some d, v_fs s)" by auto
  have okw: "ok (v_fs s)" using ok by (simp add: vfs_ok_def)
  have dl: "d \<in> live (v_fs s)" by (rule walk_live [OF okw w(4,5)])
  obtain r' w' where mk': "fs_mkdir d name (VFS_S_IFDIR OR (mode AND 0x0FFF)) (v_fs s) = (0, r', w')" "s' = s\<lparr>v_fs := w'\<rparr>"
    using mk dispatch [OF okw dl] by (auto simp: table w(1) split: prod.splits)
  have "length name \<le> 255" by (rule split_parent_Some [OF sp(1)]) (simp add: VFS_NAME_MAX_def)
  from mkdir_ok [OF okw dl this mk'(1)] obtain i where
    i: "i \<notin> live (v_fs s)" "ok w'" "live w' = insert i (live (v_fs s))" "entry (v_fs s) d name = None"
      "entry w' = (entry (v_fs s))(d := (entry (v_fs s) d)(name \<mapsto> i))"
      "\<forall>j \<in> live (v_fs s). env_mode env w' j = env_mode env (v_fs s) j" "VFS_S_ISDIR (env_mode env w' i)" by blast
  have ok': "vfs_ok s'" using ok i(2,3) by (auto simp: vfs_ok_def mk'(2))
  have ext: "walk env names c [] w' = (0, Some j, w')"
    if "walk env names c [] (v_fs s) = (0, Some j, v_fs s)" "c \<in> live (v_fs s)" for names c j
    by (rule walk_extends [OF okw i(2) _ _ _ that(2) _ that(1)]) (use i(3-6) in auto)
  have frame: "vfs_lookup env (Some q) s' = (0, Some j, s')" if "vfs_lookup env (Some q) s = (0, Some j, s)" for q j
    using that unfolding vfs_lookup_walk [OF ok] vfs_lookup_walk [OF ok'] by (fastforce simp: mk'(2) i(3) intro: ext)
  have cp: "components (drop (length (mount_path m)) p) = components (drop (length (mount_path m)) parent) @ [name]"
    by (rule split_components [OF sp(1) _ w(2)]) (simp add: VFS_NAME_MAX_def)
  have rl: "root \<in> live w'" using w(4) i(3) by simp
  have "walk env (components (drop (length (mount_path m)) p)) root [] w' = (0, Some i, w')"
    unfolding cp walk_snoc [OF i(2) sp(2,3) rl, of "[]", simplified]
    using ext [OF w(5,4)] i(5,6) dl d(3) by simp
  then have "vfs_lookup env (Some p) s' = (0, Some i, s')"
    unfolding vfs_lookup_walk [OF ok'] using np protected_parent [OF sp(1)] mnt w(2,3) rl by (auto simp: mk'(2))
  then show ?thesis using ok' i(1,7) frame by (auto simp: mk'(2))
qed

text \<open>\<open>vfs_unlink\<close>: the path is gone, its inode is freed, and every other live path is untouched or was below it.\<close>

lemma vfs_unlink_then_lookup:
  assumes ok: "vfs_ok s" and r: "vfs_unlink env (Some p) s = (0, s')" and lk: "vfs_lookup env (Some p) s = (0, Some i, s)"
    and roots: "\<forall>m \<in> set (g_mounts s). sb_root m \<noteq> Some i"
    and sp: "split_parent p VFS_PATH_MAX VFS_NAME_MAX = Some (parent, name)" "name \<noteq> ''.''" "name \<noteq> ''..''"
    and mnt: "find_mount_for p (g_mounts s) = find_mount_for parent (g_mounts s)"
  shows "vfs_ok s' \<and> i \<notin> live (v_fs s') \<and> vfs_lookup env (Some p) s' = (OB_ENOENT, None, s')"
proof -
  have np: "\<not> path_is_kernel_protected (Some p)" using r by (auto simp: vfs_unlink_def)
  obtain rc dir s1 where l: "vfs_lookup env (Some parent) s = (rc, dir, s1)" by (metis surj_pair)
  note st = vfs_lookup_state [OF ok l]
  obtain d where d: "rc = 0" "dir = Some d" "VFS_S_ISDIR (env_mode env (v_fs s) d)"
    and mk: "(case (case env_ops env (v_fs s) d of None \<Rightarrow> None | Some t \<Rightarrow> op_unlink t) of
        None \<Rightarrow> (OB_EROFS, s1)
      | Some unlink \<Rightarrow> (case unlink d name (v_fs s) of (rc, w) \<Rightarrow> (rc, s1\<lparr>v_fs := w\<rparr>))) = (0, s')"
    using r np l st by (auto simp: vfs_unlink_def with_parent_def sp split: if_splits option.splits)
  from vfs_lookup_walk [OF ok, of parent d s1] l d obtain m root where
    w: "s1 = s" "find_mount_for parent (g_mounts s) = Some m" "sb_root m = Some root" "root \<in> live (v_fs s)"
      "walk env (components (drop (length (mount_path m)) parent)) root [] (v_fs s) = (0, Some d, v_fs s)" by auto
  have okw: "ok (v_fs s)" using ok by (simp add: vfs_ok_def)
  have dl: "d \<in> live (v_fs s)" by (rule walk_live [OF okw w(4,5)])
  obtain w' where mk': "fs_unlink d name (v_fs s) = (0, w')" "s' = s\<lparr>v_fs := w'\<rparr>"
    using mk dispatch [OF okw dl] by (auto simp: table w(1) split: prod.splits)
  from unlink_ok [OF okw dl mk'(1)] obtain k where
    k: "entry (v_fs s) d name = Some k" "k \<noteq> d" "ok w'" "live w' = live (v_fs s) - {k}"
      "entry w' = (entry (v_fs s))(d := (entry (v_fs s) d)(name := None))"
      "\<forall>j \<in> live w'. env_mode env w' j = env_mode env (v_fs s) j" by blast
  have cp: "components (drop (length (mount_path m)) p) = components (drop (length (mount_path m)) parent) @ [name]"
    by (rule split_components [OF sp(1) _ w(2)]) (simp add: VFS_NAME_MAX_def)
  have "walk env (components (drop (length (mount_path m)) p)) root [] (v_fs s) = (0, Some i, v_fs s)"
    using lk mnt w(2,3) unfolding vfs_lookup_walk [OF ok] by auto
  then have ki: "k = i"
    unfolding cp walk_snoc [OF okw sp(2,3) w(4), of "[]", simplified] using w(5) d(3) k(1) by simp
  have rt: "root \<noteq> i" using roots find_mount_Some(1) [OF w(2)] w(3) by auto
  then have rl: "root \<in> live w'" using w(4) k(4) ki by simp
  have ok': "vfs_ok s'" using ok k(3,4) roots ki by (auto simp: vfs_ok_def mk'(2))
  have wp: "walk env (components (drop (length (mount_path m)) parent)) root [] w' = (0, Some d, w') \<or>
      walk env (components (drop (length (mount_path m)) parent)) root [] w' = (OB_ENOENT, None, w')"
    by (rule walk_removed [OF okw k(3) _ k(5) _ rl _ w(5)]) (use k(4,6) in auto)
  have "walk env (components (drop (length (mount_path m)) p)) root [] w' = (OB_ENOENT, None, w')"
  proof (cases "walk env (components (drop (length (mount_path m)) parent)) root [] w' = (OB_ENOENT, None, w')")
    case True
    then show ?thesis unfolding cp walk_snoc [OF k(3) sp(2,3) rl, of "[]", simplified] by simp
  next
    case False
    have "d \<in> live w'" using dl k(2,4) by simp
    then show ?thesis
      using False wp k(5,6) d(3) unfolding cp walk_snoc [OF k(3) sp(2,3) rl, of "[]", simplified] by simp
  qed
  then have "vfs_lookup env (Some p) s' = (OB_ENOENT, None, s')"
    using np protected_parent [OF sp(1)] mnt w(2,3) by (simp add: vfs_lookup_def mk'(2))
  then show ?thesis using ok' k(4) ki by (simp add: mk'(2))
qed

end

end
