(* ===== verification/Kheap.thy ===== *)
theory Kheap
  imports Pmm
begin

text \<open>
  The kernel heap as the other components see it: through its results. The \<open>n\<close>-th allocation succeeds
  when \<open>h_outcome n\<close> says so (any behaviour of \<open>kmalloc\<close> is some such function), never above a page
  (\<open>kmalloc.c\<close>), and \<open>h_garbage n\<close> is what \<open>kmalloc\<close> leaves in the memory it returns. An object is named
  by the number of the allocation that made it. How \<open>kmalloc\<close> works is the theory \<open>Slab\<close>.
\<close>

record kheap =
  h_outcome :: "nat \<Rightarrow> bool"
  h_calls :: nat
  h_garbage :: "nat \<Rightarrow> nat \<Rightarrow> u8"

definition kzalloc_obj :: "kheap \<Rightarrow> nat option \<times> kheap" where
  "kzalloc_obj h = (if h_outcome h (h_calls h) then Some (h_calls h) else None, h\<lparr>h_calls := Suc (h_calls h)\<rparr>)"

definition kmalloc_buf :: "u64 \<Rightarrow> kheap \<Rightarrow> (nat \<Rightarrow> u8) option \<times> kheap" where
  "kmalloc_buf sz h =
     (if sz = 0 \<or> sz > of_nat PAGE_SIZE then (None, h)
      else (if h_outcome h (h_calls h) then Some (h_garbage h (h_calls h)) else None,
            h\<lparr>h_calls := Suc (h_calls h)\<rparr>))"

end
