(* ===== verification/Tmpfs.thy ===== *)
theory Tmpfs
  imports Vfs Kheap
begin

text \<open>
  The memory file system (\<open>tmpfs.c\<close>). \<open>struct vfs_inode\<close> and its \<open>tmpfs_inode_info\<close> are allocated
  and freed together, so they are one record; an inode is named by the number of the allocation that
  made it, and a freed inode is absent from the store. The chain of \<open>tmpfs_node\<close>s of a directory is a
  list of names and inodes.
\<close>

section \<open>State\<close>

record tmpfs_inode =
  i_ino :: nat
  i_mode :: u16
  i_size :: u64
  i_blocks :: u64
  i_sb :: nat
  ti_children :: "(string \<times> nat) list"
  ti_parent_ino :: nat
  ti_data :: "(nat \<Rightarrow> u8) option"
  ti_capacity :: u64
  ti_size :: u64

record tmpfs_sb =
  sbi_max_size :: u64
  sbi_next_ino :: nat
  sbi_root :: nat

record tmpfs_state =
  t_heap :: kheap
  t_inodes :: "nat \<Rightarrow> tmpfs_inode option"
  t_sbs :: "nat \<Rightarrow> tmpfs_sb option"
  t_oob :: bool \<comment> \<open>a write went past the end of a file's buffer\<close>

definition upd_inode :: "nat \<Rightarrow> (tmpfs_inode \<Rightarrow> tmpfs_inode) \<Rightarrow> tmpfs_state \<Rightarrow> tmpfs_state" where
  "upd_inode i f w = w\<lparr>t_inodes := (t_inodes w)(i := map_option f (t_inodes w i))\<rparr>"

text \<open>\<open>kzalloc\<close> in a file-system state.\<close>

definition kz :: "tmpfs_state \<Rightarrow> nat option \<times> tmpfs_state" where
  "kz w = (case kzalloc_obj (t_heap w) of (r, h) \<Rightarrow> (r, w\<lparr>t_heap := h\<rparr>))"

section \<open>Inodes\<close>

text \<open>The inode and its info; when the second allocation fails the first is freed.\<close>

definition tmpfs_alloc_inode :: "nat \<Rightarrow> u16 \<Rightarrow> nat \<Rightarrow> tmpfs_state \<Rightarrow> nat option \<times> tmpfs_state" where
  "tmpfs_alloc_inode sb mode parent_ino w =
     (case t_sbs w sb of
        None \<Rightarrow> (None, w)
      | Some sbi \<Rightarrow>
          (case kz w of
             (None, w) \<Rightarrow> (None, w)
           | (Some i, w) \<Rightarrow>
               (case kz w of
                  (None, w) \<Rightarrow> (None, w)
                | (Some _, w) \<Rightarrow>
                    (Some i,
                     w\<lparr>t_inodes := (t_inodes w)(i \<mapsto>
                         \<lparr>i_ino = sbi_next_ino sbi, i_mode = mode, i_size = 0, i_blocks = 0, i_sb = sb,
                          ti_children = [], ti_parent_ino = parent_ino, ti_data = None, ti_capacity = 0, ti_size = 0\<rparr>),
                       t_sbs := (t_sbs w)(sb \<mapsto> sbi\<lparr>sbi_next_ino := Suc (sbi_next_ino sbi)\<rparr>)\<rparr>))))"

text \<open>
  The recursion over the children; the fuel bounds its depth. A child's allocation is later than its
  parent's, so the number of allocations made is enough.
\<close>

fun tmpfs_free_inode :: "nat \<Rightarrow> nat \<Rightarrow> tmpfs_state \<Rightarrow> tmpfs_state" where
  "tmpfs_free_inode 0 i w = w"
| "tmpfs_free_inode (Suc fuel) i w =
     (case t_inodes w i of
        None \<Rightarrow> w
      | Some nd \<Rightarrow>
          let w = fold (\<lambda>(_, c) w. tmpfs_free_inode fuel c w) (ti_children nd) w
          in w\<lparr>t_inodes := (t_inodes w)(i := None)\<rparr>)"

abbreviation free_fuel :: "tmpfs_state \<Rightarrow> nat" where
  "free_fuel w \<equiv> Suc (h_calls (t_heap w))"

fun tmpfs_find_child :: "(string \<times> nat) list \<Rightarrow> string \<Rightarrow> nat option" where
  "tmpfs_find_child [] name = None"
| "tmpfs_find_child ((n, i) # ns) name = (if c_streq n name then Some i else tmpfs_find_child ns name)"

fun tmpfs_remove_child :: "(string \<times> nat) list \<Rightarrow> string \<Rightarrow> (string \<times> nat) list" where
  "tmpfs_remove_child [] name = []"
| "tmpfs_remove_child ((n, i) # ns) name = (if c_streq n name then ns else (n, i) # tmpfs_remove_child ns name)"

definition tmpfs_add_child :: "nat \<Rightarrow> string \<Rightarrow> nat \<Rightarrow> tmpfs_state \<Rightarrow> int \<times> tmpfs_state" where
  "tmpfs_add_child d name i w =
     (case kz w of
        (None, w) \<Rightarrow> (OB_ENOMEM, w)
      | (Some _, w) \<Rightarrow>
          (0, upd_inode d (\<lambda>nd. nd\<lparr>ti_children := ti_children nd @ [(take (VFS_NAME_MAX - 1) name, i)]\<rparr>) w))"

section \<open>Directory operations\<close>

definition tmpfs_lookup :: "nat \<Rightarrow> string \<Rightarrow> tmpfs_state \<Rightarrow> int \<times> nat option \<times> tmpfs_state" where
  "tmpfs_lookup d name w =
     (case t_inodes w d of
        None \<Rightarrow> (OB_EINVAL, None, w)
      | Some dir \<Rightarrow>
          if \<not> VFS_S_ISDIR (i_mode dir) then (OB_ENOTDIR, None, w)
          else case tmpfs_find_child (ti_children dir) name of
              None \<Rightarrow> (OB_ENOENT, None, w)
            | Some i \<Rightarrow> (0, Some i, w))"

text \<open>The common tail of \<open>tmpfs_create\<close> and \<open>tmpfs_mkdir\<close>: a new inode, linked into the directory.\<close>

definition tmpfs_new_entry :: "nat \<Rightarrow> string \<Rightarrow> u16 \<Rightarrow> tmpfs_inode \<Rightarrow> tmpfs_state \<Rightarrow> int \<times> nat option \<times> tmpfs_state" where
  "tmpfs_new_entry d name mode dir w =
     (case tmpfs_alloc_inode (i_sb dir) mode (i_ino dir) w of
        (None, w) \<Rightarrow> (OB_ENOMEM, None, w)
      | (Some i, w) \<Rightarrow>
          (case tmpfs_add_child d name i w of
             (rc, w) \<Rightarrow> if rc \<noteq> 0 then (rc, None, tmpfs_free_inode (free_fuel w) i w) else (0, Some i, w)))"

definition tmpfs_create :: "nat \<Rightarrow> string \<Rightarrow> u16 \<Rightarrow> tmpfs_state \<Rightarrow> int \<times> nat option \<times> tmpfs_state" where
  "tmpfs_create d name mode w =
     (case t_inodes w d of
        None \<Rightarrow> (OB_EINVAL, None, w)
      | Some dir \<Rightarrow>
          if \<not> VFS_S_ISDIR (i_mode dir) then (OB_ENOTDIR, None, w)
          else if name = [] then (OB_EINVAL, None, w)
          else if tmpfs_find_child (ti_children dir) name \<noteq> None then (OB_EEXIST, None, w)
          else
            let ftype = mode AND VFS_S_IFMT; ftype = (if ftype = 0 then VFS_S_IFREG else ftype)
            in if ftype \<noteq> VFS_S_IFREG then (OB_EINVAL, None, w)
               else tmpfs_new_entry d name mode dir w)"

definition tmpfs_mkdir :: "nat \<Rightarrow> string \<Rightarrow> u16 \<Rightarrow> tmpfs_state \<Rightarrow> int \<times> nat option \<times> tmpfs_state" where
  "tmpfs_mkdir d name mode w =
     (case t_inodes w d of
        None \<Rightarrow> (OB_EINVAL, None, w)
      | Some dir \<Rightarrow>
          if \<not> VFS_S_ISDIR (i_mode dir) then (OB_ENOTDIR, None, w)
          else if name = [] then (OB_EINVAL, None, w)
          else if tmpfs_find_child (ti_children dir) name \<noteq> None then (OB_EEXIST, None, w)
          else tmpfs_new_entry d name (VFS_S_IFDIR OR (mode AND 0x0FFF)) dir w)"

definition tmpfs_detach :: "nat \<Rightarrow> string \<Rightarrow> nat \<Rightarrow> tmpfs_state \<Rightarrow> tmpfs_state" where
  "tmpfs_detach d name i w =
     (let w = upd_inode d (\<lambda>nd. nd\<lparr>ti_children := tmpfs_remove_child (ti_children nd) name\<rparr>) w
      in tmpfs_free_inode (free_fuel w) i w)"

definition tmpfs_unlink :: "nat \<Rightarrow> string \<Rightarrow> tmpfs_state \<Rightarrow> int \<times> tmpfs_state" where
  "tmpfs_unlink d name w =
     (case t_inodes w d of
        None \<Rightarrow> (OB_EINVAL, w)
      | Some dir \<Rightarrow>
          if \<not> VFS_S_ISDIR (i_mode dir) then (OB_ENOTDIR, w)
          else case tmpfs_find_child (ti_children dir) name of
              None \<Rightarrow> (OB_ENOENT, w)
            | Some i \<Rightarrow>
                (case t_inodes w i of
                   None \<Rightarrow> (OB_EIO, w)
                 | Some nd \<Rightarrow> if VFS_S_ISDIR (i_mode nd) then (OB_EISDIR, w) else (0, tmpfs_detach d name i w)))"

definition tmpfs_rmdir :: "nat \<Rightarrow> string \<Rightarrow> tmpfs_state \<Rightarrow> int \<times> tmpfs_state" where
  "tmpfs_rmdir d name w =
     (case t_inodes w d of
        None \<Rightarrow> (OB_EINVAL, w)
      | Some dir \<Rightarrow>
          if \<not> VFS_S_ISDIR (i_mode dir) then (OB_ENOTDIR, w)
          else case tmpfs_find_child (ti_children dir) name of
              None \<Rightarrow> (OB_ENOENT, w)
            | Some i \<Rightarrow>
                (case t_inodes w i of
                   None \<Rightarrow> (OB_EIO, w)
                 | Some nd \<Rightarrow>
                     if \<not> VFS_S_ISDIR (i_mode nd) then (OB_ENOTDIR, w)
                     else if ti_children nd \<noteq> [] then (OB_ENOTEMPTY, w)
                     else (0, tmpfs_detach d name i w)))"

definition tmpfs_readdir :: "nat \<Rightarrow> nat \<Rightarrow> tmpfs_state \<Rightarrow> int \<times> vfs_dirent option" where
  "tmpfs_readdir d index w =
     (case t_inodes w d of
        None \<Rightarrow> (OB_EINVAL, None)
      | Some dir \<Rightarrow>
          if \<not> VFS_S_ISDIR (i_mode dir) then (OB_ENOTDIR, None)
          else if index < length (ti_children dir) then
            let (name, i) = ti_children dir ! index
            in (0, Some \<lparr>d_ino = (case t_inodes w i of Some nd \<Rightarrow> i_ino nd | None \<Rightarrow> 0),
                         d_type = (case t_inodes w i of Some nd \<Rightarrow> vfs_mode_to_dt (i_mode nd) | None \<Rightarrow> 0),
                         d_name = name\<rparr>)
          else (OB_ENOENT, None))"

section \<open>Data\<close>

definition tmpfs_file_read :: "vfs_file \<Rightarrow> u64 \<Rightarrow> tmpfs_state \<Rightarrow> int \<times> u8 list \<times> vfs_file \<times> tmpfs_state" where
  "tmpfs_file_read f count w =
     (case f_inode f of
        None \<Rightarrow> (OB_EINVAL, [], f, w)
      | Some i \<Rightarrow>
          (case t_inodes w i of
             None \<Rightarrow> (OB_EIO, [], f, w)
           | Some nd \<Rightarrow>
               let pos = f_pos f; sz = ti_size nd in
               if pos \<ge> sz then (0, [], f, w)
               else
                 let avail = sz - pos; count = (if count > avail then avail else count) in
                 if count = 0 then (0, [], f, w)
                 else (sint count,
                       map (\<lambda>k. (case ti_data nd of Some d \<Rightarrow> d | None \<Rightarrow> (\<lambda>_. 0)) (unat pos + k)) [0..<unat count],
                       f\<lparr>f_pos := pos + count\<rparr>, w)))"

text \<open>
  \<open>while (newcap < need) newcap *= 2;\<close> on naturals: \<open>need\<close> is at most \<open>max_size\<close>, so the doubling stays
  below \<open>2 * max_size\<close> and does not wrap for any file system of at most \<open>2 ^ 63\<close> bytes.
\<close>

function grow_cap :: "nat \<Rightarrow> nat \<Rightarrow> nat" where
  "grow_cap newcap need = (if 0 < newcap \<and> newcap < need then grow_cap (2 * newcap) need else newcap)"
  by pat_completeness auto
termination
  by (relation "measure (\<lambda>(c, n). n - c)") auto

declare grow_cap.simps [simp del]

text \<open>The buffer a write of \<open>need\<close> bytes goes to: the file's own, or a larger copy.\<close>

definition tmpfs_reserve :: "u64 \<Rightarrow> u64 \<Rightarrow> tmpfs_inode \<Rightarrow> tmpfs_state \<Rightarrow> (tmpfs_inode option) \<times> tmpfs_state" where
  "tmpfs_reserve max_size need nd w =
     (if need > ti_capacity nd then
        let newcap = of_nat (grow_cap (if ti_capacity nd \<noteq> 0 then unat (ti_capacity nd) else 64) (unat need)) :: u64;
            newcap = (if newcap > max_size then max_size else newcap)
        in if newcap < need then (None, w)
           else case kmalloc_buf newcap (t_heap w) of
             (None, h) \<Rightarrow> (None, w\<lparr>t_heap := h\<rparr>)
           | (Some buf, h) \<Rightarrow>
               (Some (nd\<lparr>ti_data := Some (\<lambda>k. if k < unat (ti_size nd)
                                             then (case ti_data nd of Some od \<Rightarrow> od k | None \<Rightarrow> 0) else buf k),
                         ti_capacity := newcap\<rparr>),
                w\<lparr>t_heap := h\<rparr>)
      else (Some nd, w))"

definition tmpfs_file_write :: "vfs_file \<Rightarrow> u8 list \<Rightarrow> tmpfs_state \<Rightarrow> int \<times> vfs_file \<times> tmpfs_state" where
  "tmpfs_file_write f buf w =
     (case f_inode f of
        None \<Rightarrow> (OB_EINVAL, f, w)
      | Some i \<Rightarrow>
          (case t_inodes w i of
             None \<Rightarrow> (OB_EIO, f, w)
           | Some nd \<Rightarrow>
               (case t_sbs w (i_sb nd) of
                  None \<Rightarrow> (OB_EIO, f, w)
                | Some sbi \<Rightarrow>
                    let pos = f_pos f; count = of_nat (length buf); need = pos + count in
                    if need > sbi_max_size sbi then (OB_ENOMEM, f, w)
                    else case tmpfs_reserve (sbi_max_size sbi) need nd w of
                        (None, w) \<Rightarrow> (OB_ENOMEM, f, w)
                      | (Some nd, w) \<Rightarrow>
                          let d0 = (case ti_data nd of Some d \<Rightarrow> d | None \<Rightarrow> (\<lambda>_. 0));
                              d1 = (\<lambda>k. if unat (ti_size nd) \<le> k \<and> k < unat pos then 0 else d0 k);
                              d2 = (\<lambda>k. if unat pos \<le> k \<and> k < unat pos + length buf then buf ! (k - unat pos) else d1 k);
                              oob = (unat (ti_size nd) < unat pos \<and> unat (ti_capacity nd) < unat pos \<or>
                                     buf \<noteq> [] \<and> unat (ti_capacity nd) < unat pos + length buf);
                              nsize = (if need > ti_size nd then need else ti_size nd)
                          in (sint count, f\<lparr>f_pos := need\<rparr>,
                              w\<lparr>t_inodes := (t_inodes w)(i \<mapsto>
                                  nd\<lparr>ti_data := (if ti_data nd = None then None else Some d2), ti_size := nsize,
                                     i_size := nsize, i_blocks := (nsize + 511) div 512\<rparr>),
                                t_oob := t_oob w \<or> oob\<rparr>))))"

definition tmpfs_truncate :: "nat \<Rightarrow> u64 \<Rightarrow> tmpfs_state \<Rightarrow> int \<times> tmpfs_state" where
  "tmpfs_truncate i sz w =
     (case t_inodes w i of
        None \<Rightarrow> (OB_EIO, w)
      | Some nd \<Rightarrow>
          if sz > ti_capacity nd then (OB_ENOMEM, w)
          else (0, upd_inode i (\<lambda>nd. nd\<lparr>ti_size := sz, i_size := sz, i_blocks := (sz + 511) div 512\<rparr>) w))"

definition tmpfs_open :: "nat \<Rightarrow> vfs_file \<Rightarrow> tmpfs_state \<Rightarrow> int \<times> tmpfs_state" where
  "tmpfs_open i f w = (0, w)"

definition tmpfs_close :: "vfs_file \<Rightarrow> tmpfs_state \<Rightarrow> int \<times> tmpfs_state" where
  "tmpfs_close f w = (0, w)"

section \<open>Super blocks\<close>

definition tmpfs_evict_inode :: "nat \<Rightarrow> tmpfs_state \<Rightarrow> tmpfs_state" where
  "tmpfs_evict_inode i w = tmpfs_free_inode (free_fuel w) i w"

definition tmpfs_destroy_sb :: "nat \<Rightarrow> tmpfs_state \<Rightarrow> tmpfs_state" where
  "tmpfs_destroy_sb sb w =
     (case t_sbs w sb of
        None \<Rightarrow> w
      | Some sbi \<Rightarrow>
          let w = tmpfs_free_inode (free_fuel w) (sbi_root sbi) w
          in w\<lparr>t_sbs := (t_sbs w)(sb := None)\<rparr>)"

text \<open>Four allocations: super block, its info, the root inode, the root's info.\<close>

definition tmpfs_mount :: "u64 \<Rightarrow> tmpfs_state \<Rightarrow> vfs_superblock option \<times> tmpfs_state" where
  "tmpfs_mount max_size w =
     (case kz w of
        (None, w) \<Rightarrow> (None, w)
      | (Some sb, w) \<Rightarrow>
          (case kz w of
             (None, w) \<Rightarrow> (None, w)
           | (Some _, w) \<Rightarrow>
               (case kz w of
                  (None, w) \<Rightarrow> (None, w)
                | (Some root, w) \<Rightarrow>
                    (case kz w of
                       (None, w) \<Rightarrow> (None, w)
                     | (Some _, w) \<Rightarrow>
                         (Some \<lparr>sb_id = sb, sb_root = Some root, sb_ops = True, mount_path = []\<rparr>,
                          w\<lparr>t_inodes := (t_inodes w)(root \<mapsto>
                              \<lparr>i_ino = 1, i_mode = VFS_S_IFDIR OR 0x1ED, i_size = 0, i_blocks = 0, i_sb = sb,
                               ti_children = [], ti_parent_ino = 1, ti_data = None, ti_capacity = 0, ti_size = 0\<rparr>),
                            t_sbs := (t_sbs w)(sb \<mapsto>
                              \<lparr>sbi_max_size = (if max_size \<noteq> 0 then max_size else 64 * 1024 * 1024),
                               sbi_next_ino = 2, sbi_root = root\<rparr>)\<rparr>)))))"

definition tmpfs_umount :: "vfs_superblock \<Rightarrow> tmpfs_state \<Rightarrow> tmpfs_state" where
  "tmpfs_umount sb w = tmpfs_destroy_sb (sb_id sb) w"

definition tmpfs_ops :: "tmpfs_state vfs_operations" where
  "tmpfs_ops =
     \<lparr>op_lookup = Some tmpfs_lookup, op_create = Some tmpfs_create, op_unlink = Some tmpfs_unlink,
      op_mkdir = Some tmpfs_mkdir, op_rmdir = Some tmpfs_rmdir, op_read = Some tmpfs_file_read,
      op_write = Some tmpfs_file_write, op_readdir = Some tmpfs_readdir, op_open = Some tmpfs_open,
      op_close = Some tmpfs_close, op_destroy_sb = Some tmpfs_destroy_sb\<rparr>"

definition tmpfs_env :: "tmpfs_state vfs_env" where
  "tmpfs_env =
     \<lparr>env_mode = (\<lambda>w i. case t_inodes w i of Some nd \<Rightarrow> i_mode nd | None \<Rightarrow> 0),
      env_ops = (\<lambda>w i. if t_inodes w i = None then None else Some tmpfs_ops),
      env_sb_ops = tmpfs_ops,
      env_kzalloc = (\<lambda>w. case kz w of (r, w) \<Rightarrow> (r \<noteq> None, w))\<rparr>"

end
