(* ===== verification/TmpfsCorrect.thy ===== *)
theory TmpfsCorrect
  imports VfsCorrect Tmpfs
begin

text \<open>
  The tree invariant of tmpfs and the interpretation of \<open>file_system\<close> on its operations.
\<close>

section \<open>The tree\<close>

definition tmpfs_live :: "tmpfs_state \<Rightarrow> nat set" where
  "tmpfs_live w = {i. t_inodes w i \<noteq> None}"

definition tmpfs_entry :: "tmpfs_state \<Rightarrow> nat \<Rightarrow> string \<Rightarrow> nat option" where
  "tmpfs_entry w d n = (case t_inodes w d of None \<Rightarrow> None | Some nd \<Rightarrow> tmpfs_find_child (ti_children nd) n)"

text \<open>
  Inodes come from past allocations; the entries of a directory have different names and lead to live
  inodes; an inode has one entry at most; only directories have entries.
\<close>

definition tmpfs_ok :: "tmpfs_state \<Rightarrow> bool" where
  "tmpfs_ok w \<longleftrightarrow>
     (\<forall>i \<in> tmpfs_live w. i < h_calls (t_heap w)) \<and>
     (\<forall>d nd. t_inodes w d = Some nd \<longrightarrow>
        distinct (map fst (ti_children nd)) \<and> snd ` set (ti_children nd) \<subseteq> tmpfs_live w \<and>
        (\<not> VFS_S_ISDIR (i_mode nd) \<longrightarrow> ti_children nd = [])) \<and>
     (\<forall>d n d' n' c. tmpfs_entry w d n = Some c \<longrightarrow> tmpfs_entry w d' n' = Some c \<longrightarrow> d = d' \<and> n = n')"

lemma find_child_map_of: "tmpfs_find_child ns n = map_of ns n"
  by (induction ns n rule: tmpfs_find_child.induct) auto

lemma remove_child_find:
  "distinct (map fst ns) \<Longrightarrow>
   tmpfs_find_child (tmpfs_remove_child ns n) = (tmpfs_find_child ns)(n := None) \<and>
   set (tmpfs_remove_child ns n) \<subseteq> set ns \<and> distinct (map fst (tmpfs_remove_child ns n))"
proof (induction ns n rule: tmpfs_remove_child.induct)
  case (2 a i ns name)
  have sub: "set (tmpfs_remove_child ns name) \<subseteq> set ns" if "distinct (map fst ns)"
    using 2 that by (cases "a = name") (auto, induction ns name rule: tmpfs_remove_child.induct, auto split: if_splits)
  show ?case
  proof (cases "a = name")
    case True
    have "tmpfs_find_child ns name = None"
      using "2.prems" True by (auto simp: find_child_map_of map_of_eq_None_iff)
    then show ?thesis using True "2.prems" by (auto simp: fun_eq_iff)
  next
    case False
    then have IH: "tmpfs_find_child (tmpfs_remove_child ns name) = (tmpfs_find_child ns)(name := None)"
      "set (tmpfs_remove_child ns name) \<subseteq> set ns" "distinct (map fst (tmpfs_remove_child ns name))"
      using 2 by auto
    have "a \<notin> fst ` set (tmpfs_remove_child ns name)" using IH(2) "2.prems" by force
    then show ?thesis using False IH by (auto simp: fun_eq_iff)
  qed
qed (auto simp: fun_eq_iff)

lemma entry_child: "tmpfs_entry w d n = Some c \<Longrightarrow> \<exists>nd. t_inodes w d = Some nd \<and> (n, c) \<in> set (ti_children nd)"
  by (auto simp: tmpfs_entry_def find_child_map_of dest: map_of_SomeD split: option.splits)

lemma entry_live_tmpfs: "tmpfs_ok w \<Longrightarrow> tmpfs_entry w d n = Some c \<Longrightarrow> c \<in> tmpfs_live w"
  using entry_child [of w d n c] by (force simp: tmpfs_ok_def)

section \<open>Making an entry\<close>

lemma kz_Some: "kz w = (Some i, w') \<Longrightarrow> i = h_calls (t_heap w) \<and> t_inodes w' = t_inodes w \<and> t_sbs w' = t_sbs w \<and>
    h_calls (t_heap w') = Suc (h_calls (t_heap w)) \<and> t_oob w' = t_oob w"
  by (auto simp: kz_def kzalloc_obj_def split: if_splits)

lemma kz_step: "kz w = (r, w') \<Longrightarrow> t_inodes w' = t_inodes w \<and> h_calls (t_heap w') = Suc (h_calls (t_heap w))"
  by (auto simp: kz_def kzalloc_obj_def)

text \<open>What a successful \<open>tmpfs_new_entry\<close> does to the store.\<close>

definition new_inode :: "nat \<Rightarrow> u16 \<Rightarrow> tmpfs_inode \<Rightarrow> tmpfs_inode" where
  "new_inode ino mode dir =
     \<lparr>i_ino = ino, i_mode = mode, i_size = 0, i_blocks = 0, i_sb = i_sb dir, ti_children = [],
      ti_parent_ino = i_ino dir, ti_data = None, ti_capacity = 0, ti_size = 0\<rparr>"

lemma new_entry_ok:
  assumes "tmpfs_new_entry d n mode dir w = (0, r, w')" "t_inodes w d = Some dir" "tmpfs_ok w" "length n \<le> 255"
  shows "\<exists>i ino. r = Some i \<and> h_calls (t_heap w) = i \<and> i < h_calls (t_heap w') \<and>
    t_inodes w' = (t_inodes w)(i \<mapsto> new_inode ino mode dir, d \<mapsto> dir\<lparr>ti_children := ti_children dir @ [(n, i)]\<rparr>) \<and>
    d \<noteq> i"
proof -
  have fresh: "d < h_calls (t_heap w)" using assms(2,3) by (auto simp: tmpfs_ok_def tmpfs_live_def)
  obtain i w1 where al: "tmpfs_alloc_inode (i_sb dir) mode (i_ino dir) w = (Some i, w1)"
    using assms(1) by (auto simp: tmpfs_new_entry_def split: prod.splits option.splits)
  obtain w2 where ad: "tmpfs_add_child d n i w1 = (0, w2)" "r = Some i" "w' = w2"
    using assms(1) al by (auto simp: tmpfs_new_entry_def split: prod.splits if_splits)
  obtain sbi where sbi: "t_sbs w (i_sb dir) = Some sbi"
    using al by (auto simp: tmpfs_alloc_inode_def split: option.splits)
  obtain wa ra where ka: "kz w = (ra, wa)" by fastforce
  then have ra: "ra = Some i" using al sbi by (auto simp: tmpfs_alloc_inode_def split: option.splits prod.splits)
  obtain rb wb where kb: "kz wa = (Some rb, wb)"
    using al sbi ka ra by (auto simp: tmpfs_alloc_inode_def split: option.splits prod.splits)
  note A = kz_Some [OF ka [unfolded ra]] and B = kz_Some [OF kb]
  have w1: "w1 = wb\<lparr>t_inodes := (t_inodes wb)(i \<mapsto> new_inode (sbi_next_ino sbi) mode dir),
      t_sbs := (t_sbs wb)(i_sb dir \<mapsto> sbi\<lparr>sbi_next_ino := Suc (sbi_next_ino sbi)\<rparr>)\<rparr>"
    using al sbi ka ra kb by (simp add: tmpfs_alloc_inode_def new_inode_def)
  obtain rc wc where kc: "kz w1 = (Some rc, wc)"
    using ad(1) by (auto simp: tmpfs_add_child_def split: option.splits prod.splits)
  note C = kz_Some [OF kc]
  have w2: "w2 = upd_inode d (\<lambda>nd. nd\<lparr>ti_children := ti_children nd @ [(n, i)]\<rparr>) wc"
    using ad(1) kc assms(4) by (simp add: tmpfs_add_child_def VFS_NAME_MAX_def)
  have "d \<noteq> i" using fresh A by simp
  then have "t_inodes w' = (t_inodes w)(i \<mapsto> new_inode (sbi_next_ino sbi) mode dir,
      d \<mapsto> dir\<lparr>ti_children := ti_children dir @ [(n, i)]\<rparr>)"
    using A B C assms(2) by (simp add: ad(3) w2 upd_inode_def w1)
  moreover have "h_calls (t_heap w) = i \<and> i < h_calls (t_heap w')"
    using A B C by (simp add: ad(3) w2 upd_inode_def w1)
  ultimately show ?thesis using ad(2) \<open>d \<noteq> i\<close> by blast
qed

text \<open>The store after an entry was added still is a tree.\<close>

lemma new_entry_tree:
  assumes ok: "tmpfs_ok w" and d: "t_inodes w d = Some dir" "VFS_S_ISDIR (i_mode dir)"
    and nf: "tmpfs_find_child (ti_children dir) n = None" and i: "i = h_calls (t_heap w)" "i < h_calls (t_heap w')" "d \<noteq> i"
    and w': "t_inodes w' = (t_inodes w)(i \<mapsto> new_inode ino mode dir, d \<mapsto> dir\<lparr>ti_children := ti_children dir @ [(n, i)]\<rparr>)"
  shows "tmpfs_ok w'" "i \<notin> tmpfs_live w" "tmpfs_live w' = insert i (tmpfs_live w)"
    "tmpfs_entry w' = (tmpfs_entry w)(d := (tmpfs_entry w d)(n \<mapsto> i))"
proof -
  have lt: "j < i" if "j \<in> tmpfs_live w" for j using ok that i(1) by (auto simp: tmpfs_ok_def)
  then show new: "i \<notin> tmpfs_live w" by blast
  show live': "tmpfs_live w' = insert i (tmpfs_live w)" using d by (auto simp: tmpfs_live_def w')
  have fa: "tmpfs_find_child (ti_children dir @ [(n, i)]) = (tmpfs_find_child (ti_children dir))(n \<mapsto> i)"
    using nf by (auto simp: fun_eq_iff find_child_map_of map_add_def split: option.splits)
  show e: "tmpfs_entry w' = (tmpfs_entry w)(d := (tmpfs_entry w d)(n \<mapsto> i))"
  proof (intro ext)
    fix d' n'
    have "t_inodes w i = None" using new by (simp add: tmpfs_live_def)
    then show "tmpfs_entry w' d' n' = ((tmpfs_entry w)(d := (tmpfs_entry w d)(n \<mapsto> i))) d' n'"
      using d(1) i(3) fa by (auto simp: tmpfs_entry_def w' new_inode_def)
  qed
  have ne: "tmpfs_entry w j m \<noteq> Some i" for j m
    using entry_live_tmpfs [OF ok] new by blast
  have "distinct (map fst (ti_children nd)) \<and> snd ` set (ti_children nd) \<subseteq> tmpfs_live w' \<and>
        (\<not> VFS_S_ISDIR (i_mode nd) \<longrightarrow> ti_children nd = [])" if j: "t_inodes w' j = Some nd" for j nd
  proof (cases "j = d")
    case True
    have "n \<notin> fst ` set (ti_children dir)" using nf by (simp add: find_child_map_of map_of_eq_None_iff)
    moreover have "distinct (map fst (ti_children dir))" "snd ` set (ti_children dir) \<subseteq> tmpfs_live w"
      using ok d(1) by (simp_all add: tmpfs_ok_def)
    moreover have "nd = dir\<lparr>ti_children := ti_children dir @ [(n, i)]\<rparr>" using j True by (simp only: w' fun_upd_same option.inject)
    ultimately show ?thesis using d(2) unfolding live' by auto
  next
    case False
    have "t_inodes w' j = (if j = i then Some (new_inode ino mode dir) else t_inodes w j)"
      unfolding w' using False by simp
    then have "nd = new_inode ino mode dir \<or> t_inodes w j = Some nd" using j by (auto split: if_splits)
    then consider "nd = new_inode ino mode dir" | "t_inodes w j = Some nd" by blast
    then show ?thesis
    proof cases
      case 2
      then have "distinct (map fst (ti_children nd))" "snd ` set (ti_children nd) \<subseteq> tmpfs_live w"
        "\<not> VFS_S_ISDIR (i_mode nd) \<longrightarrow> ti_children nd = []"
        using ok by (simp_all add: tmpfs_ok_def)
      then show ?thesis unfolding live' by blast
    qed (simp add: new_inode_def)
  qed
  moreover have "d1 = d2 \<and> n1 = n2" if "tmpfs_entry w' d1 n1 = Some c" "tmpfs_entry w' d2 n2 = Some c" for d1 n1 d2 n2 c
    using that ok ne unfolding e by (auto simp: tmpfs_ok_def split: if_splits)
  moreover have "\<forall>j \<in> tmpfs_live w'. j < h_calls (t_heap w')" unfolding live' using lt i(1,2) by force
  ultimately show "tmpfs_ok w'" unfolding tmpfs_ok_def by blast
qed

section \<open>Removing an entry\<close>

lemma free_leaf: "t_inodes w i = Some nd \<Longrightarrow> ti_children nd = [] \<Longrightarrow>
    tmpfs_free_inode (Suc k) i w = w\<lparr>t_inodes := (t_inodes w)(i := None)\<rparr>"
  by simp

lemma detach_ok:
  assumes ok: "tmpfs_ok w" and d: "t_inodes w d = Some dir" and c: "tmpfs_find_child (ti_children dir) n = Some i"
    and leaf: "t_inodes w i = Some nd" "ti_children nd = []" and ne: "i \<noteq> d"
  shows "tmpfs_ok (tmpfs_detach d n i w)" "tmpfs_live (tmpfs_detach d n i w) = tmpfs_live w - {i}"
    "tmpfs_entry (tmpfs_detach d n i w) = (tmpfs_entry w)(d := (tmpfs_entry w d)(n := None))"
    "\<And>j. j \<noteq> i \<Longrightarrow> j \<noteq> d \<Longrightarrow> t_inodes (tmpfs_detach d n i w) j = t_inodes w j"
    "t_inodes (tmpfs_detach d n i w) d = Some (dir\<lparr>ti_children := tmpfs_remove_child (ti_children dir) n\<rparr>)"
proof -
  let ?w1 = "upd_inode d (\<lambda>nd. nd\<lparr>ti_children := tmpfs_remove_child (ti_children nd) n\<rparr>) w"
  let ?w = "tmpfs_detach d n i w"
  have dis: "distinct (map fst (ti_children dir))" using ok d by (auto simp: tmpfs_ok_def)
  note R = remove_child_find [OF dis, of n]
  have "t_inodes ?w1 i = Some nd" using leaf(1) ne by (simp add: upd_inode_def)
  then have w': "t_inodes ?w = (t_inodes w)(d \<mapsto> dir\<lparr>ti_children := tmpfs_remove_child (ti_children dir) n\<rparr>, i := None)"
    using leaf(2) d by (simp add: tmpfs_detach_def Let_def upd_inode_def)
  have hp: "t_heap ?w = t_heap w"
    using \<open>t_inodes ?w1 i = Some nd\<close> leaf(2) by (simp add: tmpfs_detach_def Let_def upd_inode_def)
  show "\<And>j. j \<noteq> i \<Longrightarrow> j \<noteq> d \<Longrightarrow> t_inodes ?w j = t_inodes w j"
    "t_inodes ?w d = Some (dir\<lparr>ti_children := tmpfs_remove_child (ti_children dir) n\<rparr>)" using ne by (simp_all add: w')
  show live': "tmpfs_live ?w = tmpfs_live w - {i}" using d ne by (auto simp: tmpfs_live_def w')
  show e: "tmpfs_entry ?w = (tmpfs_entry w)(d := (tmpfs_entry w d)(n := None))"
  proof (intro ext)
    fix d' n'
    show "tmpfs_entry ?w d' n' = ((tmpfs_entry w)(d := (tmpfs_entry w d)(n := None))) d' n'"
      using d leaf ne R by (auto simp: tmpfs_entry_def w')
  qed
  have di: "tmpfs_entry w d n = Some i" using d c by (simp add: tmpfs_entry_def)
  have gone: "tmpfs_entry ?w j m \<noteq> Some i" for j m
    using ok di unfolding e by (auto simp: tmpfs_ok_def)
  have "distinct (map fst (ti_children nd)) \<and> snd ` set (ti_children nd) \<subseteq> tmpfs_live ?w \<and>
        (\<not> VFS_S_ISDIR (i_mode nd) \<longrightarrow> ti_children nd = [])" if j: "t_inodes ?w j = Some nd" for j nd
  proof -
    obtain nd0 where nd0: "t_inodes w j = Some nd0" "set (ti_children nd) \<subseteq> set (ti_children nd0)" "i_mode nd = i_mode nd0"
      using j R d by (auto simp: w' split: if_splits)
    have dj: "distinct (map fst (ti_children nd))"
      using j R ok by (auto simp: w' tmpfs_ok_def split: if_splits)
    have "c' \<noteq> i" if m: "(m, c') \<in> set (ti_children nd)" for m c'
    proof -
      have "tmpfs_entry ?w j m = Some c'" using j m dj by (simp add: tmpfs_entry_def find_child_map_of)
      then show ?thesis using gone by blast
    qed
    then have "i \<notin> snd ` set (ti_children nd)" by force
    moreover have "snd ` set (ti_children nd0) \<subseteq> tmpfs_live w" "\<not> VFS_S_ISDIR (i_mode nd0) \<longrightarrow> ti_children nd0 = []"
      using ok nd0(1) by (simp_all add: tmpfs_ok_def)
    moreover have "snd ` set (ti_children nd) \<subseteq> snd ` set (ti_children nd0)" using nd0(2) by (rule image_mono)
    moreover have "ti_children nd0 = [] \<Longrightarrow> ti_children nd = []" using nd0(2) by simp
    ultimately have "snd ` set (ti_children nd) \<subseteq> tmpfs_live ?w" "\<not> VFS_S_ISDIR (i_mode nd0) \<longrightarrow> ti_children nd = []"
      unfolding live' by blast+
    then show ?thesis using dj nd0(3) by simp
  qed
  moreover have "d1 = d2 \<and> n1 = n2" if "tmpfs_entry ?w d1 n1 = Some x" "tmpfs_entry ?w d2 n2 = Some x" for d1 n1 d2 n2 x
    using that ok unfolding e by (auto simp: tmpfs_ok_def split: if_splits)
  moreover have "\<forall>j \<in> tmpfs_live ?w. j < h_calls (t_heap ?w)" using ok unfolding live' hp by (auto simp: tmpfs_ok_def)
  ultimately show "tmpfs_ok ?w" unfolding tmpfs_ok_def by blast
qed

section \<open>The interpretation\<close>

lemma tmpfs_mode: "t_inodes w i = Some nd \<Longrightarrow> env_mode tmpfs_env w i = i_mode nd"
  by (simp add: tmpfs_env_def)

lemma dir_mode: "VFS_S_ISDIR (VFS_S_IFDIR OR (m AND 0x0FFF))"
proof -
  have "(VFS_S_IFDIR OR (m AND 0x0FFF)) AND VFS_S_IFMT = VFS_S_IFDIR AND VFS_S_IFMT OR (m AND (0x0FFF AND VFS_S_IFMT))"
    by (simp only: bit.conj_disj_distrib2 and.assoc)
  also have "0x0FFF AND VFS_S_IFMT = 0" by (simp add: VFS_S_IFMT_def)
  finally show ?thesis by (simp add: VFS_S_ISDIR_def VFS_S_IFDIR_def VFS_S_IFMT_def)
qed

interpretation tmpfs: file_system tmpfs_env tmpfs_ok tmpfs_live tmpfs_entry tmpfs_ops tmpfs_lookup tmpfs_mkdir tmpfs_unlink
proof
  show "op_lookup tmpfs_ops = Some tmpfs_lookup" "op_mkdir tmpfs_ops = Some tmpfs_mkdir"
    "op_unlink tmpfs_ops = Some tmpfs_unlink" by (simp_all add: tmpfs_ops_def)
  fix w w' d n i m r
  show "tmpfs_ok w \<Longrightarrow> d \<in> tmpfs_live w \<Longrightarrow> env_ops tmpfs_env w d = Some tmpfs_ops"
    by (simp add: tmpfs_env_def tmpfs_live_def)
  show "tmpfs_ok w \<Longrightarrow> d \<in> tmpfs_live w \<Longrightarrow> VFS_S_ISDIR (env_mode tmpfs_env w d) \<Longrightarrow>
      tmpfs_lookup d n w = (case tmpfs_entry w d n of Some i \<Rightarrow> (0, Some i, w) | None \<Rightarrow> (OB_ENOENT, None, w))"
    by (auto simp: tmpfs_live_def tmpfs_lookup_def tmpfs_entry_def tmpfs_mode split: option.splits)
  show "tmpfs_ok w \<Longrightarrow> tmpfs_entry w d n = Some i \<Longrightarrow> i \<in> tmpfs_live w" by (rule entry_live_tmpfs)
  show "\<exists>i. r = Some i \<and> i \<notin> tmpfs_live w \<and> tmpfs_ok w' \<and> tmpfs_live w' = insert i (tmpfs_live w) \<and>
        tmpfs_entry w d n = None \<and> tmpfs_entry w' = (tmpfs_entry w)(d := (tmpfs_entry w d)(n \<mapsto> i)) \<and>
        (\<forall>j \<in> tmpfs_live w. env_mode tmpfs_env w' j = env_mode tmpfs_env w j) \<and> VFS_S_ISDIR (env_mode tmpfs_env w' i)"
    if ok: "tmpfs_ok w" and dl: "d \<in> tmpfs_live w" and n: "length n \<le> 255" and mk: "tmpfs_mkdir d n m w = (0, r, w')"
  proof -
    obtain dir where dir: "t_inodes w d = Some dir" using dl by (auto simp: tmpfs_live_def)
    then have m: "VFS_S_ISDIR (i_mode dir)" "tmpfs_find_child (ti_children dir) n = None"
      "tmpfs_new_entry d n (VFS_S_IFDIR OR (m AND 0x0FFF)) dir w = (0, r, w')"
      using mk by (auto simp: tmpfs_mkdir_def split: if_splits)
    from new_entry_ok [OF m(3) dir ok n] obtain i ino where
      i: "r = Some i" "h_calls (t_heap w) = i" "i < h_calls (t_heap w')" "d \<noteq> i"
        "t_inodes w' = (t_inodes w)(i \<mapsto> new_inode ino (VFS_S_IFDIR OR (m AND 0x0FFF)) dir,
           d \<mapsto> dir\<lparr>ti_children := ti_children dir @ [(n, i)]\<rparr>)" by blast
    note T = new_entry_tree [OF ok dir m(1,2) i(2) [symmetric] i(3,4,5)]
    have "env_mode tmpfs_env w' j = env_mode tmpfs_env w j" if "j \<in> tmpfs_live w" for j
      using that T(2) dir i(5) by (auto simp: tmpfs_env_def tmpfs_live_def)
    moreover have "VFS_S_ISDIR (env_mode tmpfs_env w' i)"
      using i(4,5) dir_mode [of m] by (simp add: tmpfs_env_def new_inode_def)
    moreover have "tmpfs_entry w d n = None" using dir m(2) by (simp add: tmpfs_entry_def)
    ultimately show ?thesis using i(1) T by blast
  qed
  show "\<exists>i. tmpfs_entry w d n = Some i \<and> i \<noteq> d \<and> tmpfs_ok w' \<and> tmpfs_live w' = tmpfs_live w - {i} \<and>
        tmpfs_entry w' = (tmpfs_entry w)(d := (tmpfs_entry w d)(n := None)) \<and>
        (\<forall>j \<in> tmpfs_live w'. env_mode tmpfs_env w' j = env_mode tmpfs_env w j)"
    if ok: "tmpfs_ok w" and dl: "d \<in> tmpfs_live w" and un: "tmpfs_unlink d n w = (0, w')"
  proof -
    obtain dir where dir: "t_inodes w d = Some dir" using dl by (auto simp: tmpfs_live_def)
    then obtain i nd where m: "VFS_S_ISDIR (i_mode dir)" "tmpfs_find_child (ti_children dir) n = Some i"
      "t_inodes w i = Some nd" "\<not> VFS_S_ISDIR (i_mode nd)" "w' = tmpfs_detach d n i w"
      using un by (auto simp: tmpfs_unlink_def split: if_splits option.splits)
    have ch: "ti_children nd = []" using ok m(3,4) by (auto simp: tmpfs_ok_def)
    have ne: "i \<noteq> d" using m dir by auto
    note D = detach_ok [OF ok dir m(2,3) ch ne]
    have "env_mode tmpfs_env w' j = env_mode tmpfs_env w j" if "j \<in> tmpfs_live w'" for j
      using that D(2,4,5) dir m(5) by (cases "j = d") (auto simp: tmpfs_env_def)
    then show ?thesis using D(1-3) m(2,5) dir ne by (auto simp: tmpfs_entry_def)
  qed
qed

end
