(* ===== verification/TmpfsProps.thy ===== *)
theory TmpfsProps
  imports TmpfsCorrect
begin

text \<open>
  The properties of the VFS on tmpfs: making and removing entries, reading back what was written, and
  where a path that the permission check grants can lead. They rest on the interpretation \<open>tmpfs\<close> of
  \<open>file_system\<close>.
\<close>

section \<open>Reachable states\<close>

definition vfs_tmpfs_ok :: "tmpfs_state vfs_state \<Rightarrow> bool" where
  "vfs_tmpfs_ok s \<longleftrightarrow> tmpfs_ok (v_fs s) \<and>
     (\<forall>m \<in> set (g_mounts s). \<forall>r. sb_root m = Some r \<longrightarrow> t_inodes (v_fs s) r \<noteq> None)"

lemma vfs_tmpfs_ok_iff: "vfs_tmpfs_ok s = tmpfs.vfs_ok s"
  by (simp add: vfs_tmpfs_ok_def tmpfs.vfs_ok_def tmpfs_live_def)

section \<open>Contents of a file\<close>

text \<open>The bytes of a file, and what a write at a position makes of them.\<close>

definition file_bytes :: "tmpfs_inode \<Rightarrow> u8 list" where
  "file_bytes nd = map (case ti_data nd of Some d \<Rightarrow> d | None \<Rightarrow> (\<lambda>_. 0)) [0..<unat (ti_size nd)]"

definition overlay :: "nat \<Rightarrow> u8 list \<Rightarrow> u8 list \<Rightarrow> u8 list" where
  "overlay pos buf c = take pos c @ replicate (pos - length c) 0 @ buf @ drop (pos + length buf) c"

text \<open>A file's size is within its buffer, and the buffer exists when it has a size.\<close>

definition file_ok :: "tmpfs_inode \<Rightarrow> bool" where
  "file_ok nd \<longleftrightarrow> ti_size nd \<le> ti_capacity nd \<and> (ti_data nd = None \<longrightarrow> ti_capacity nd = 0)"

lemma length_file_bytes [simp]: "length (file_bytes nd) = unat (ti_size nd)"
  by (simp add: file_bytes_def)

lemma nth_file_bytes: "k < unat (ti_size nd) \<Longrightarrow> ti_data nd = Some d \<Longrightarrow> file_bytes nd ! k = d k"
  by (simp add: file_bytes_def)

lemma length_overlay: "length (overlay pos buf c) = max (length c) (pos + length buf)"
  by (auto simp: overlay_def)

lemma nth_overlay:
  "k < max (length c) (pos + length buf) \<Longrightarrow> overlay pos buf c ! k =
     (if pos \<le> k \<and> k < pos + length buf then buf ! (k - pos)
      else if k < length c then c ! k else 0)"
  by (auto simp: overlay_def nth_append min_def)

text \<open>The buffer that \<open>tmpfs_reserve\<close> provides.\<close>

lemma tmpfs_reserve_ok:
  assumes "tmpfs_reserve mx need nd w = (Some nd', w')" "file_ok nd"
  shows "need \<le> ti_capacity nd'" "ti_size nd' = ti_size nd" "i_mode nd' = i_mode nd" "i_sb nd' = i_sb nd"
    "ti_children nd' = ti_children nd"
    "t_inodes w' = t_inodes w" "t_sbs w' = t_sbs w" "t_oob w' = t_oob w"
    "need \<noteq> 0 \<Longrightarrow> ti_data nd' \<noteq> None" "file_ok nd'" "file_bytes nd' = file_bytes nd"
proof -
  have "need \<le> ti_capacity nd' \<and> ti_size nd' = ti_size nd \<and> i_mode nd' = i_mode nd \<and> i_sb nd' = i_sb nd \<and>
    ti_children nd' = ti_children nd \<and>
    t_inodes w' = t_inodes w \<and> t_sbs w' = t_sbs w \<and> t_oob w' = t_oob w \<and>
    (need \<noteq> 0 \<longrightarrow> ti_data nd' \<noteq> None) \<and> file_ok nd' \<and> file_bytes nd' = file_bytes nd"
  proof (cases "need > ti_capacity nd")
    case False
    then have "nd' = nd \<and> w' = w" using assms(1) by (simp add: tmpfs_reserve_def)
    moreover have "ti_data nd \<noteq> None" if "need \<noteq> 0"
      using that False assms(2) by (auto simp: file_ok_def word_gt_0)
    ultimately show ?thesis using False assms(2) by auto
  next
    case True
    define newcap :: u64 where
      "newcap = (let n = of_nat (grow_cap (if ti_capacity nd \<noteq> 0 then unat (ti_capacity nd) else 64) (unat need))
                 in if n > mx then mx else n)"
    have nc: "\<not> newcap < need" and h: "\<exists>buf h. kmalloc_buf newcap (t_heap w) = (Some buf, h) \<and>
        nd' = nd\<lparr>ti_data := Some (\<lambda>k. if k < unat (ti_size nd) then (case ti_data nd of Some od \<Rightarrow> od k | None \<Rightarrow> 0) else buf k),
                 ti_capacity := newcap\<rparr> \<and> w' = w\<lparr>t_heap := h\<rparr>"
      using assms(1) True
      by (auto simp: tmpfs_reserve_def Let_def newcap_def split: option.splits prod.splits if_splits)
    have "ti_size nd \<le> newcap" using nc True assms(2) unfolding file_ok_def by (meson le_less_trans not_less order.trans less_imp_le)
    then show ?thesis using nc h by (auto simp: file_ok_def file_bytes_def split: option.splits)
  qed
  then show "need \<le> ti_capacity nd'" "ti_size nd' = ti_size nd" "i_mode nd' = i_mode nd" "i_sb nd' = i_sb nd"
    "ti_children nd' = ti_children nd"
    "t_inodes w' = t_inodes w" "t_sbs w' = t_sbs w" "t_oob w' = t_oob w"
    "need \<noteq> 0 \<Longrightarrow> ti_data nd' \<noteq> None" "file_ok nd'" "file_bytes nd' = file_bytes nd" by auto
qed

section \<open>Writing\<close>

text \<open>A write that is accepted: what it leaves in the inode.\<close>

lemma tmpfs_file_write_ok:
  assumes f: "f_inode f = Some i" and nd: "t_inodes w i = Some nd" "file_ok nd" and sb: "t_sbs w (i_sb nd) = Some sbi"
    and mx: "unat (f_pos f) + length buf \<le> unat (sbi_max_size sbi)" "sbi_max_size sbi < 2 ^ 63"
    and wr: "tmpfs_file_write f buf w = (rc, f', w')"
  shows "rc = OB_ENOMEM \<and> f' = f \<and> t_inodes w' = t_inodes w \<and> t_sbs w' = t_sbs w \<and> t_oob w' = t_oob w \<or>
    rc = int (length buf) \<and> f' = f\<lparr>f_pos := f_pos f + of_nat (length buf)\<rparr> \<and> t_oob w' = t_oob w \<and> t_sbs w' = t_sbs w \<and>
    (\<exists>nd'. t_inodes w' = (t_inodes w)(i \<mapsto> nd') \<and> file_ok nd' \<and>
       file_bytes nd' = overlay (unat (f_pos f)) buf (file_bytes nd) \<and> i_size nd' = ti_size nd' \<and>
       i_mode nd' = i_mode nd \<and> ti_children nd' = ti_children nd \<and> i_sb nd' = i_sb nd)"
proof -
  let ?pos = "f_pos f" and ?n = "of_nat (length buf) :: u64"
  have M: "unat (sbi_max_size sbi) < 2 ^ 63" using mx(2) by (simp add: word_less_nat_alt)
  have n: "unat ?n = length buf" using mx(1) M by (simp add: unat_of_nat take_bit_nat_eq_self_iff)
  have need: "unat (?pos + ?n) = unat ?pos + length buf"
    using mx(1) M n by (subst unat_add_lem [THEN iffD1]) simp_all
  have sn: "sint ?n = int (length buf)"
    using mx(1) M by (simp add: signed_of_nat signed_take_bit_int_eq_self)
  have le: "\<not> ?pos + ?n > sbi_max_size sbi" using need mx(1) by (simp add: word_less_nat_alt)
  obtain r w1 where rs: "tmpfs_reserve (sbi_max_size sbi) (?pos + ?n) nd w = (r, w1)" by fastforce
  show ?thesis
  proof (cases r)
    case None
    then have "t_inodes w1 = t_inodes w" "t_sbs w1 = t_sbs w" "t_oob w1 = t_oob w"
      using rs by (auto simp: tmpfs_reserve_def Let_def split: if_splits option.splits prod.splits)
    then show ?thesis using wr f nd(1) sb le rs None by (simp add: tmpfs_file_write_def Let_def)
  next
    case (Some nr)
    note R = tmpfs_reserve_ok [OF rs [unfolded Some] nd(2)]
    define d0 where "d0 = (case ti_data nr of Some d \<Rightarrow> d | None \<Rightarrow> (\<lambda>_. 0))"
    define d2 where "d2 = (\<lambda>k. if unat ?pos \<le> k \<and> k < unat ?pos + length buf then buf ! (k - unat ?pos)
       else if unat (ti_size nr) \<le> k \<and> k < unat ?pos then 0 else d0 k)"
    define nsize where "nsize = (if ?pos + ?n > ti_size nr then ?pos + ?n else ti_size nr)"
    define nd' where "nd' = nr\<lparr>ti_data := (if ti_data nr = None then None else Some d2), ti_size := nsize,
       i_size := nsize, i_blocks := (nsize + 511) div 512\<rparr>"
    have oob: "\<not> (unat (ti_size nr) < unat ?pos \<and> unat (ti_capacity nr) < unat ?pos \<or>
        buf \<noteq> [] \<and> unat (ti_capacity nr) < unat ?pos + length buf)"
      using R(1) need by (auto simp: word_le_nat_alt)
    have step: "tmpfs_file_write f buf w = (sint ?n, f\<lparr>f_pos := ?pos + ?n\<rparr>,
        w1\<lparr>t_inodes := (t_inodes w1)(i \<mapsto> nd'), t_oob := t_oob w1 \<or>
          (unat (ti_size nr) < unat ?pos \<and> unat (ti_capacity nr) < unat ?pos \<or>
           buf \<noteq> [] \<and> unat (ti_capacity nr) < unat ?pos + length buf)\<rparr>)"
      by (simp only: tmpfs_file_write_def f nd(1) sb option.case Let_def le if_False rs Some prod.case
          nd'_def nsize_def d2_def d0_def)
    have w': "rc = sint ?n" "f' = f\<lparr>f_pos := ?pos + ?n\<rparr>" "t_inodes w' = (t_inodes w1)(i \<mapsto> nd')" "t_oob w' = t_oob w1"
        "t_sbs w' = t_sbs w1"
      using step wr oob by simp_all
    have ns: "unat nsize = max (unat (ti_size nr)) (unat ?pos + length buf)"
      using need by (auto simp: nsize_def word_less_nat_alt)
    have dat: "ti_data nr = None \<Longrightarrow> nsize = 0"
      using R(1,9,10) by (auto simp: file_ok_def nsize_def)
    have ok': "file_ok nd'" using R(1,10) by (auto simp: file_ok_def nd'_def nsize_def)
    have "file_bytes nd' = overlay (unat ?pos) buf (file_bytes nr)"
    proof (rule nth_equalityI)
      show "length (file_bytes nd') = length (overlay (unat ?pos) buf (file_bytes nr))"
        by (simp add: length_overlay nd'_def ns)
      fix k assume k: "k < length (file_bytes nd')"
      then have "nsize \<noteq> 0" by (auto simp: nd'_def)
      then have "ti_data nr \<noteq> None" using dat by blast
      then obtain d where d: "ti_data nr = Some d" by blast
      then have "file_bytes nd' ! k = d2 k" using k by (intro nth_file_bytes) (simp_all add: nd'_def)
      also have "\<dots> = overlay (unat ?pos) buf (file_bytes nr) ! k"
        using k d by (subst nth_overlay) (auto simp: nd'_def ns d2_def d0_def nth_file_bytes)
      finally show "file_bytes nd' ! k = overlay (unat ?pos) buf (file_bytes nr) ! k" .
    qed
    then show ?thesis using w' R sn ok' by (auto simp: nd'_def)
  qed
qed

section \<open>A concrete state\<close>

text \<open>
  A root file system with the directory \<open>/tmp/p1\<close> and the empty file \<open>/f\<close>, and the private file system
  of process 1200 mounted on \<open>/priv0/1200\<close>, with the file \<open>a\<close>.
\<close>

definition wit_node :: "nat \<Rightarrow> u16 \<Rightarrow> nat \<Rightarrow> (string \<times> nat) list \<Rightarrow> tmpfs_inode" where
  "wit_node ino mode sb ch =
     \<lparr>i_ino = ino, i_mode = mode, i_size = 0, i_blocks = 0, i_sb = sb, ti_children = ch, ti_parent_ino = 1,
      ti_data = None, ti_capacity = 0, ti_size = 0\<rparr>"

definition wit_tmpfs :: tmpfs_state where
  "wit_tmpfs =
     \<lparr>t_heap = \<lparr>h_outcome = (\<lambda>_. True), h_calls = 30, h_garbage = (\<lambda>_ _. 0xCC)\<rparr>,
      t_inodes = [2 \<mapsto> wit_node 1 0x41ED 0 [(''tmp'', 4), (''f'', 6)], 4 \<mapsto> wit_node 2 0x41ED 0 [(''p1'', 8)],
        6 \<mapsto> wit_node 3 0x81A4 0 [], 8 \<mapsto> wit_node 4 0x41ED 0 [],
        22 \<mapsto> wit_node 1 0x41ED 20 [(''a'', 24)], 24 \<mapsto> wit_node 2 0x81A4 20 []],
      t_sbs = [0 \<mapsto> \<lparr>sbi_max_size = 0x4000000, sbi_next_ino = 5, sbi_root = 2\<rparr>,
        20 \<mapsto> \<lparr>sbi_max_size = 0x4000000, sbi_next_ino = 3, sbi_root = 22\<rparr>],
      t_oob = False\<rparr>"

definition wit_vfs :: "tmpfs_state vfs_state" where
  "wit_vfs =
     \<lparr>g_mounts = [\<lparr>sb_id = 20, sb_root = Some 22, sb_ops = True, mount_path = ''/priv0/1200''\<rparr>,
        \<lparr>sb_id = 0, sb_root = Some 2, sb_ops = True, mount_path = ''/''\<rparr>],
      v_fs = wit_tmpfs, v_audit = []\<rparr>"

lemma wit_nodes:
  "t_inodes wit_tmpfs i = Some nd \<longleftrightarrow>
     i = 2 \<and> nd = wit_node 1 0x41ED 0 [(''tmp'', 4), (''f'', 6)] \<or> i = 4 \<and> nd = wit_node 2 0x41ED 0 [(''p1'', 8)] \<or>
     i = 6 \<and> nd = wit_node 3 0x81A4 0 [] \<or> i = 8 \<and> nd = wit_node 4 0x41ED 0 [] \<or>
     i = 22 \<and> nd = wit_node 1 0x41ED 20 [(''a'', 24)] \<or> i = 24 \<and> nd = wit_node 2 0x81A4 20 []"
  by (auto simp: wit_tmpfs_def)

lemma wit_live: "tmpfs_live wit_tmpfs = {2, 4, 6, 8, 22, 24}"
  by (auto simp: tmpfs_live_def wit_nodes)

lemma wit_entry:
  "tmpfs_entry wit_tmpfs d n = Some c \<longleftrightarrow>
     d = 2 \<and> n = ''tmp'' \<and> c = 4 \<or> d = 2 \<and> n = ''f'' \<and> c = 6 \<or> d = 4 \<and> n = ''p1'' \<and> c = 8 \<or> d = 22 \<and> n = ''a'' \<and> c = 24"
  unfolding tmpfs_entry_def by (auto simp: wit_tmpfs_def wit_node_def split: if_splits)

lemma wit_tmpfs_ok: "tmpfs_ok wit_tmpfs"
  unfolding tmpfs_ok_def
proof (intro conjI)
  show "\<forall>i \<in> tmpfs_live wit_tmpfs. i < h_calls (t_heap wit_tmpfs)" unfolding wit_live by (simp add: wit_tmpfs_def)
  show "\<forall>d nd. t_inodes wit_tmpfs d = Some nd \<longrightarrow> distinct (map fst (ti_children nd)) \<and>
      snd ` set (ti_children nd) \<subseteq> tmpfs_live wit_tmpfs \<and> (\<not> VFS_S_ISDIR (i_mode nd) \<longrightarrow> ti_children nd = [])"
    by (auto simp: wit_nodes wit_live wit_node_def VFS_S_ISDIR_def kernel_defs)
  show "\<forall>d n d' n' c. tmpfs_entry wit_tmpfs d n = Some c \<longrightarrow> tmpfs_entry wit_tmpfs d' n' = Some c \<longrightarrow> d = d' \<and> n = n'"
    by (auto simp: wit_entry)
qed

lemma wit_vfs_ok: "vfs_tmpfs_ok wit_vfs"
  using wit_tmpfs_ok by (auto simp: vfs_tmpfs_ok_def wit_vfs_def wit_tmpfs_def)

section \<open>Properties\<close>

text \<open>
  C9. Reading back what was written: a write through an open file either fails for lack of memory and
  changes no file, or writes all the bytes at the file's position, fills a gap after the old end with
  zeros whatever the new buffer held, keeps every other byte and every other file, stays within the
  buffer, and a read at the same position returns the bytes.
\<close>

theorem tmpfs_write_read:
  assumes "f_inode f = Some i" "t_inodes (v_fs s) i = Some nd" "file_ok nd" "t_sbs (v_fs s) (i_sb nd) = Some sbi"
    and "unat (f_pos f) + length buf \<le> unat (sbi_max_size sbi)" "sbi_max_size sbi < 2 ^ 63"
    and "vfs_write tmpfs_env (Some f) buf s = (rc, fo, s')"
  shows "rc = OB_ENOMEM \<and> fo = Some f \<and> t_inodes (v_fs s') = t_inodes (v_fs s) \<or>
    rc = int (length buf) \<and> fo = Some (f\<lparr>f_pos := f_pos f + of_nat (length buf)\<rparr>) \<and> t_oob (v_fs s') = t_oob (v_fs s) \<and>
    (\<exists>nd'. t_inodes (v_fs s') = (t_inodes (v_fs s))(i \<mapsto> nd') \<and> file_ok nd' \<and>
       file_bytes nd' = overlay (unat (f_pos f)) buf (file_bytes nd)) \<and>
    vfs_read tmpfs_env (Some f) (of_nat (length buf)) s' = (int (length buf), buf, fo, s')"
proof -
  obtain rc1 f1 w1 where wr: "tmpfs_file_write f buf (v_fs s) = (rc1, f1, w1)" by (metis surj_pair)
  have st: "rc = rc1" "s' = s\<lparr>v_fs := w1\<rparr>" "fo = Some (if rc1 > 0 \<and> f_pos f1 = f_pos f then f1\<lparr>f_pos := f_pos f + of_int rc1\<rparr> else f1)"
    using assms(7) by (auto simp: vfs_write_def assms(1,2) tmpfs_env_def tmpfs_ops_def wr)
  from tmpfs_file_write_ok [OF assms(1-6) wr]
  consider (fail) "rc1 = OB_ENOMEM" "f1 = f" "t_inodes w1 = t_inodes (v_fs s)"
    | (ok) nd' where "rc1 = int (length buf)" "f1 = f\<lparr>f_pos := f_pos f + of_nat (length buf)\<rparr>" "t_oob w1 = t_oob (v_fs s)"
      "t_inodes w1 = (t_inodes (v_fs s))(i \<mapsto> nd')" "file_ok nd'"
      "file_bytes nd' = overlay (unat (f_pos f)) buf (file_bytes nd)" by blast
  then show ?thesis
  proof cases
    case fail
    then show ?thesis using st by simp
  next
    case (ok nd')
    have M: "unat (sbi_max_size sbi) < 2 ^ 63" using assms(6) by (simp add: word_less_nat_alt)
    let ?n = "of_nat (length buf) :: u64"
    have n: "unat ?n = length buf" using assms(5) M by (simp add: unat_of_nat take_bit_nat_eq_self_iff)
    have sn: "sint ?n = int (length buf)" using assms(5) M by (simp add: signed_of_nat signed_take_bit_int_eq_self)
    have fo: "fo = Some f1" using st(3) ok(1,2) n by (cases buf) auto
    have len: "unat (ti_size nd') = max (unat (ti_size nd)) (unat (f_pos f) + length buf)"
      using arg_cong [OF ok(6), of length] by (simp add: length_overlay)
    have rd: "tmpfs_file_read f ?n w1 = (int (length buf), buf, f1, w1)"
    proof (cases "buf = []")
      case True
      then show ?thesis using ok(2,4) assms(1) by (simp add: tmpfs_file_read_def Let_def)
    next
      case False
      have lt: "f_pos f < ti_size nd'" using len False by (cases buf) (auto simp: word_less_nat_alt)
      have av: "\<not> ?n > ti_size nd' - f_pos f"
        using lt len n by (simp add: word_less_nat_alt unat_sub word_le_nat_alt)
      have nz: "?n \<noteq> 0" using n False by (metis length_0_conv unat_0)
      have rb: "map (\<lambda>k. (case ti_data nd' of Some d \<Rightarrow> d | None \<Rightarrow> (\<lambda>_. 0)) (unat (f_pos f) + k)) [0..<length buf] = buf"
      proof (rule nth_equalityI)
        fix k assume "k < length (map (\<lambda>k. (case ti_data nd' of Some d \<Rightarrow> d | None \<Rightarrow> (\<lambda>_. 0)) (unat (f_pos f) + k)) [0..<length buf])"
        then have k: "k < length buf" by simp
        have "(case ti_data nd' of Some d \<Rightarrow> d | None \<Rightarrow> (\<lambda>_. 0)) (unat (f_pos f) + k) = file_bytes nd' ! (unat (f_pos f) + k)"
          using k len by (simp add: file_bytes_def)
        also have "\<dots> = buf ! k" using k unfolding ok(6) by (subst nth_overlay) auto
        finally show "map (\<lambda>k. (case ti_data nd' of Some d \<Rightarrow> d | None \<Rightarrow> (\<lambda>_. 0)) (unat (f_pos f) + k)) [0..<length buf] ! k = buf ! k"
          using k by simp
      qed simp
      have in1: "t_inodes w1 i = Some nd'" using ok(4) by simp
      have "\<not> f_pos f \<ge> ti_size nd'" using lt by simp
      then show ?thesis
        unfolding tmpfs_file_read_def assms(1) option.case in1 Let_def using av nz n sn rb ok(2) by simp
    qed
    have "vfs_read tmpfs_env (Some f) ?n s' = (int (length buf), buf, fo, s')"
      using rd st(2) fo ok(2,4) n by (auto simp: vfs_read_def assms(1) tmpfs_env_def tmpfs_ops_def)
    then show ?thesis using st ok fo by auto
  qed
qed

lemma tmpfs_write_read_witness:
  "\<exists>fo s'. vfs_write tmpfs_env (Some \<lparr>f_pos = 3, f_flags = 2, f_inode = Some 6\<rparr>) [1, 2, 3] wit_vfs = (3, fo, s') \<and>
     vfs_read tmpfs_env (Some \<lparr>f_pos = 3, f_flags = 2, f_inode = Some 6\<rparr>) 3 s' = (3, [1, 2, 3], fo, s')"
proof -
  let ?f = "\<lparr>f_pos = 3, f_flags = 2, f_inode = Some 6\<rparr> :: vfs_file"
  have "fst (vfs_write tmpfs_env (Some ?f) [1, 2, 3] wit_vfs) = 3" by code_simp
  then obtain fo s' where wr: "vfs_write tmpfs_env (Some ?f) [1, 2, 3] wit_vfs = (3, fo, s')" by (metis prod.collapse)
  have nd: "t_inodes (v_fs wit_vfs) 6 = Some (wit_node 3 0x81A4 0 [])" "file_ok (wit_node 3 0x81A4 0 [])"
    "t_sbs (v_fs wit_vfs) (i_sb (wit_node 3 0x81A4 0 [])) = Some \<lparr>sbi_max_size = 0x4000000, sbi_next_ino = 5, sbi_root = 2\<rparr>"
    by (simp_all add: wit_vfs_def wit_tmpfs_def wit_node_def file_ok_def)
  have "vfs_read tmpfs_env (Some ?f) (of_nat (length [1, 2, 3 :: u8])) s' = (3, [1, 2, 3], fo, s')"
    using tmpfs_write_read [OF _ nd _ _ wr] by simp
  then show ?thesis using wr by auto
qed

text \<open>
  Making a directory: after \<open>vfs_mkdir\<close> succeeds the path resolves to a new directory, and every
  path that resolved before still resolves to the same inode (for a name that is not a dot name, in a
  directory served by the mount that serves the path).
\<close>

theorem vfs_mkdir_makes_dir:
  assumes "vfs_tmpfs_ok s" "vfs_mkdir tmpfs_env (Some p) mode s = (0, s')"
    and "split_parent p VFS_PATH_MAX VFS_NAME_MAX = Some (parent, name)" "name \<noteq> ''.''" "name \<noteq> ''..''"
    and "find_mount_for p (g_mounts s) = find_mount_for parent (g_mounts s)"
  shows "vfs_tmpfs_ok s' \<and>
    (\<exists>i. t_inodes (v_fs s) i = None \<and> vfs_lookup tmpfs_env (Some p) s' = (0, Some i, s') \<and>
       VFS_S_ISDIR (env_mode tmpfs_env (v_fs s') i)) \<and>
    (\<forall>q j. vfs_lookup tmpfs_env (Some q) s = (0, Some j, s) \<longrightarrow> vfs_lookup tmpfs_env (Some q) s' = (0, Some j, s'))"
  using tmpfs.vfs_mkdir_then_lookup [OF _ assms(2-6)] assms(1) by (auto simp: vfs_tmpfs_ok_iff tmpfs_live_def)

lemma vfs_mkdir_makes_dir_witness:
  "\<exists>s' i. vfs_mkdir tmpfs_env (Some ''/tmp/d'') 0x1ED wit_vfs = (0, s') \<and>
     vfs_lookup tmpfs_env (Some ''/tmp/d'') s' = (0, Some i, s')"
proof -
  have "fst (vfs_mkdir tmpfs_env (Some ''/tmp/d'') 0x1ED wit_vfs) = 0" by code_simp
  then obtain s' where r: "vfs_mkdir tmpfs_env (Some ''/tmp/d'') 0x1ED wit_vfs = (0, s')" by (metis prod.collapse)
  have sp: "split_parent ''/tmp/d'' VFS_PATH_MAX VFS_NAME_MAX = Some (''/tmp'', ''d'')"
    and m: "find_mount_for ''/tmp/d'' (g_mounts wit_vfs) = find_mount_for ''/tmp'' (g_mounts wit_vfs)" by code_simp+
  show ?thesis using vfs_mkdir_makes_dir [OF wit_vfs_ok r sp _ _ m] r by auto
qed

text \<open>
  Removing a file: after \<open>vfs_unlink\<close> succeeds the path resolves to nothing and its inode is freed
  at once. No count of open files is kept, so a file object opened before still holds the freed inode:
  every operation on it, \<open>vfs_read\<close> first, then reads freed memory (which the model shows as an inode
  without operations).
\<close>

theorem vfs_unlink_frees_inode:
  assumes "vfs_tmpfs_ok s" "vfs_unlink tmpfs_env (Some p) s = (0, s')" "vfs_lookup tmpfs_env (Some p) s = (0, Some i, s)"
    and "\<forall>m \<in> set (g_mounts s). sb_root m \<noteq> Some i"
    and "split_parent p VFS_PATH_MAX VFS_NAME_MAX = Some (parent, name)" "name \<noteq> ''.''" "name \<noteq> ''..''"
    and "find_mount_for p (g_mounts s) = find_mount_for parent (g_mounts s)"
    and "f_inode f = Some i"
  shows "vfs_tmpfs_ok s' \<and> vfs_lookup tmpfs_env (Some p) s' = (OB_ENOENT, None, s') \<and> t_inodes (v_fs s') i = None \<and>
    vfs_read tmpfs_env (Some f) count s' = (OB_ENOSYS, [], Some f, s')"
proof -
  have "vfs_tmpfs_ok s' \<and> t_inodes (v_fs s') i = None \<and> vfs_lookup tmpfs_env (Some p) s' = (OB_ENOENT, None, s')"
    using tmpfs.vfs_unlink_then_lookup [OF _ assms(2-8)] assms(1) by (auto simp: vfs_tmpfs_ok_iff tmpfs_live_def)
  moreover from this have "vfs_read tmpfs_env (Some f) count s' = (OB_ENOSYS, [], Some f, s')"
    by (simp add: vfs_read_def assms(9) tmpfs_env_def)
  ultimately show ?thesis by blast
qed

lemma vfs_unlink_frees_inode_witness:
  "\<exists>s'. vfs_unlink tmpfs_env (Some ''/f'') wit_vfs = (0, s') \<and> t_inodes (v_fs s') 6 = None \<and>
     vfs_read tmpfs_env (Some \<lparr>f_pos = 0, f_flags = 1, f_inode = Some 6\<rparr>) 8 s' =
       (OB_ENOSYS, [], Some \<lparr>f_pos = 0, f_flags = 1, f_inode = Some 6\<rparr>, s')"
proof -
  have "fst (vfs_unlink tmpfs_env (Some ''/f'') wit_vfs) = 0" by code_simp
  then obtain s' where r: "vfs_unlink tmpfs_env (Some ''/f'') wit_vfs = (0, s')" by (metis prod.collapse)
  have "fst (snd (vfs_lookup tmpfs_env (Some ''/f'') wit_vfs)) = Some 6" "fst (vfs_lookup tmpfs_env (Some ''/f'') wit_vfs) = 0"
    by code_simp+
  then obtain s1 where "vfs_lookup tmpfs_env (Some ''/f'') wit_vfs = (0, Some 6, s1)" by (metis prod.collapse)
  then have l: "vfs_lookup tmpfs_env (Some ''/f'') wit_vfs = (0, Some 6, wit_vfs)"
    using tmpfs.vfs_lookup_walk wit_vfs_ok unfolding vfs_tmpfs_ok_iff by blast
  have sp: "split_parent ''/f'' VFS_PATH_MAX VFS_NAME_MAX = Some (''/'', ''f'')"
    and m: "find_mount_for ''/f'' (g_mounts wit_vfs) = find_mount_for ''/'' (g_mounts wit_vfs)"
    and rt: "\<forall>m \<in> set (g_mounts wit_vfs). sb_root m \<noteq> Some 6" by code_simp+
  show ?thesis
    using vfs_unlink_frees_inode [OF wit_vfs_ok r l rt sp _ _ m, of "\<lparr>f_pos = 0, f_flags = 1, f_inode = Some 6\<rparr>" 8] r by auto
qed



lemma ct_mem_eq32_refl: "ct_mem_eq32 a a"
proof -
  have "fold (\<lambda>i acc. acc OR (a ! i XOR a ! i)) xs 0 = 0" for xs by (induction xs) auto
  then show ?thesis by (simp add: ct_mem_eq32_def)
qed

text \<open>
  C11. Privilege 1 can leave its directory: the check compares the path as it is written, so a path that
  starts with the private directory and continues with \<open>/../../\<close> is granted in every mode, and the VFS
  resolves it from the root of the mount that holds the directory: it reaches every file of that mount.
\<close>

theorem priv1_dotdot_escape:
  assumes "vfs_tmpfs_ok s" "privilege_level c = 1" "priv_iso_ready c"
    and dir: "priv1_dir_path c = ''/tmp/'' @ b" "b \<noteq> []" "CHR ''/'' \<notin> set b" "b \<noteq> ''.''" "b \<noteq> ''..''" "length b \<le> 120"
    and hash: "ct_mem_eq32 (sha384 (priv1_dir_path c @ ''/'')) (dir_whitelist_hash (security_token c))"
    and mnt: "find_mount_for (priv1_dir_path c @ ''/../../'' @ rest) (g_mounts s) = Some m"
      "find_mount_for (''/'' @ rest) (g_mounts s) = Some m" "mount_path m = ''/''" "sb_root m = Some root"
    and tree: "VFS_S_ISDIR (env_mode tmpfs_env (v_fs s) root)" "tmpfs_entry (v_fs s) root ''tmp'' = Some t"
      "VFS_S_ISDIR (env_mode tmpfs_env (v_fs s) t)" "tmpfs_entry (v_fs s) t b = Some d"
    and lk: "vfs_lookup tmpfs_env (Some (''/'' @ rest)) s = (0, Some i, s)"
  shows "check_permission sha384 tasks (Some c) 0 rid mode (Some (priv1_dir_path c @ ''/../../'' @ rest)) = (0, []) \<and>
    vfs_lookup tmpfs_env (Some (priv1_dir_path c @ ''/../../'' @ rest)) s = (0, Some i, s)"
proof
  let ?p = "priv1_dir_path c @ ''/../../'' @ rest"
  have np: "\<not> path_is_kernel_protected (Some ?p)" "\<not> path_is_critical_path (Some ?p)"
    by (simp_all add: dir path_is_kernel_protected_def path_is_critical_path_def CRITICAL_PATH_def)
  have lb: "last b \<noteq> CHR ''/''" using dir(2,3) by (metis last_in_set)
  have ca: "char_at ?p (length (priv1_dir_path c)) = CHR ''/''" unfolding char_at_append by simp
  have "priv1_path_allowed sha384 (Some c) (Some ?p)"
    using lb ca dir(1,2,6) hash by (simp add: priv1_path_allowed_def Let_def)
  then show "check_permission sha384 tasks (Some c) 0 rid mode (Some ?p) = (0, [])"
    using np assms(2,3) by (simp add: check_permission_def permission_check_file_def path_is_critical_dir_def)
  have ok: "tmpfs.vfs_ok s" "tmpfs_ok (v_fs s)" using assms(1) by (simp_all add: vfs_tmpfs_ok_iff tmpfs.vfs_ok_def)
  have rl: "root \<in> tmpfs_live (v_fs s)" using tmpfs.mount_root_live [OF ok(1) mnt(1,4)] .
  have w: "walk tmpfs_env (components rest) root [] (v_fs s) = (0, Some i, v_fs s)"
    using lk mnt(2-4) unfolding tmpfs.vfs_lookup_walk [OF ok(1)] by simp
  have "components (drop 1 ?p) = components (''tmp'' @ CHR ''/'' # (b @ CHR ''/'' # (''..'' @ CHR ''/'' # (''..'' @ CHR ''/'' # rest))))"
    by (simp add: dir)
  also have "\<dots> = ''tmp'' # b # ''..'' # ''..'' # components rest"
    using dir(2,3,6) components_name [of "''tmp''"] components_name [of b] components_name [of "''..''"]
    by (simp only: components_slash) simp
  finally have cp: "components (drop (length (mount_path m)) ?p) = ''tmp'' # b # ''..'' # ''..'' # components rest"
    by (simp add: mnt(3))
  have "walk tmpfs_env (components (drop (length (mount_path m)) ?p)) root [] (v_fs s) = (0, Some i, v_fs s)"
    unfolding cp by (subst tmpfs.walk_down_up [OF ok(2) rl tree]) (use dir(4,5) w in auto)
  then show "vfs_lookup tmpfs_env (Some ?p) s = (0, Some i, s)"
    using np mnt rl unfolding tmpfs.vfs_lookup_walk [OF ok(1)] by (auto simp: dir char_at_def)
qed

lemma priv1_dotdot_escape_witness:
  "\<exists>c. privilege_level c = 1 \<and> priv1_dir_path c = ''/tmp/p1'' \<and>
     check_permission (\<lambda>_. []) [] (Some c) 0 0 OB_ACCESS_WRITE (Some ''/tmp/p1/../../f'') = (0, []) \<and>
     vfs_lookup tmpfs_env (Some ''/tmp/p1/../../f'') wit_vfs = (0, Some 6, wit_vfs)"
proof -
  define c where "c = zero_task\<lparr>privilege_level := 1, priv_iso_ready := True, priv1_dir_path := ''/tmp/p1'',
    security_token := (security_token zero_task)\<lparr>dir_whitelist_hash := []\<rparr>\<rparr>"
  have c: "privilege_level c = 1" "priv_iso_ready c" "priv1_dir_path c = ''/tmp/'' @ ''p1''"
    "dir_whitelist_hash (security_token c) = []" by (simp_all add: c_def)
  let ?m = "\<lparr>sb_id = 0, sb_root = Some 2, sb_ops = True, mount_path = ''/''\<rparr>"
  have m: "find_mount_for (priv1_dir_path c @ ''/../../'' @ ''f'') (g_mounts wit_vfs) = Some ?m"
    "find_mount_for (''/'' @ ''f'') (g_mounts wit_vfs) = Some ?m" unfolding c by code_simp+
  have l: "vfs_lookup tmpfs_env (Some (''/'' @ ''f'')) wit_vfs = (0, Some 6, wit_vfs)"
  proof -
    have "fst (snd (vfs_lookup tmpfs_env (Some (''/'' @ ''f'')) wit_vfs)) = Some 6"
      "fst (vfs_lookup tmpfs_env (Some (''/'' @ ''f'')) wit_vfs) = 0" by code_simp+
    then obtain s1 where "vfs_lookup tmpfs_env (Some (''/'' @ ''f'')) wit_vfs = (0, Some 6, s1)" by (metis prod.collapse)
    then show ?thesis using tmpfs.vfs_lookup_walk wit_vfs_ok unfolding vfs_tmpfs_ok_iff by blast
  qed
  have t: "VFS_S_ISDIR (env_mode tmpfs_env (v_fs wit_vfs) 2)" "VFS_S_ISDIR (env_mode tmpfs_env (v_fs wit_vfs) 4)" by code_simp+
  have e: "tmpfs_entry (v_fs wit_vfs) 2 ''tmp'' = Some 4" "tmpfs_entry (v_fs wit_vfs) 4 ''p1'' = Some 8"
    by (simp_all add: wit_vfs_def wit_entry)
  have "check_permission (\<lambda>_. []) [] (Some c) 0 0 OB_ACCESS_WRITE (Some (priv1_dir_path c @ ''/../../'' @ ''f'')) = (0, []) \<and>
     vfs_lookup tmpfs_env (Some (priv1_dir_path c @ ''/../../'' @ ''f'')) wit_vfs = (0, Some 6, wit_vfs)"
    by (rule priv1_dotdot_escape [OF wit_vfs_ok c(1,2,3) _ _ _ _ _ _ m _ _ t(1) e(1) t(2) e(2) l]) (simp_all add: c(4) ct_mem_eq32_refl)
  then show ?thesis using c by (intro exI [of _ c]) simp
qed

end
