(* ===== verification/Sched.thy ===== *)
theory Sched
  imports TaskData Kheap
begin

text \<open>
  The scheduler (\<open>sched.c\<close>): three FIFO run queues, doubly linked through the threads themselves, and
  the choice of the next thread. A thread is named by the number of its allocation; pointers between
  threads are such numbers or NULL. \<open>context_switch\<close> and the switch of the page tables are hardware
  operations: \<open>schedule\<close> returns the pair of threads it passes to them. Locks are not modelled: each
  definition is one critical section, and the steps of an operation that leaves its critical section
  are separate definitions.
\<close>

section \<open>State\<close>

datatype thread_state = THREAD_STATE_READY | THREAD_STATE_RUNNING | THREAD_STATE_BLOCKED | THREAD_STATE_DEAD

definition SCHED_NUM_QUEUES :: nat where [kernel_defs]: "SCHED_NUM_QUEUES = 3"
definition SCHED_Q_LOW :: nat where [kernel_defs]: "SCHED_Q_LOW = 0"
definition SCHED_Q_MID :: nat where [kernel_defs]: "SCHED_Q_MID = 1"
definition SCHED_Q_HIGH :: nat where [kernel_defs]: "SCHED_Q_HIGH = 2"
definition SCHED_SLICE_LOW_TICKS :: u64 where [kernel_defs]: "SCHED_SLICE_LOW_TICKS = 2"
definition SCHED_SLICE_MID_TICKS :: u64 where [kernel_defs]: "SCHED_SLICE_MID_TICKS = 5"
definition SCHED_SLICE_HIGH_TICKS :: u64 where [kernel_defs]: "SCHED_SLICE_HIGH_TICKS = 8"
definition THREAD_KSTACK_SIZE :: nat where [kernel_defs]: "THREAD_KSTACK_SIZE = 16 * 1024"
definition DIRECTMAP_BASE :: nat where [kernel_defs]: "DIRECTMAP_BASE = 0xFFFF800000000000"

record thread =
  tid :: nat
  th_state :: thread_state
  th_priority :: int
  th_queue :: nat
  slice_remaining :: u64
  total_ticks :: u64
  th_next :: "nat option"
  th_prev :: "nat option"
  th_name :: "string option"
  th_task :: "nat option"
  th_futex_waiter :: "nat option"
  kstack_base :: nat
  kstack_size :: nat
  kstack_order :: int
  th_g_next :: "nat option"
  in_rq :: bool

text \<open>A thread's memory after \<open>kzalloc\<close> (all bytes zero: state READY, NULL pointers).\<close>

definition zero_thread :: thread where
  "zero_thread =
     \<lparr>tid = 0, th_state = THREAD_STATE_READY, th_priority = 0, th_queue = 0, slice_remaining = 0, total_ticks = 0,
      th_next = None, th_prev = None, th_name = None, th_task = None, th_futex_waiter = None, kstack_base = 0,
      kstack_size = 0, kstack_order = 0, th_g_next = None, in_rq = False\<rparr>"

record sched_state =
  threads :: "nat \<Rightarrow> thread option" \<comment> \<open>\<open>None\<close>: not allocated\<close>
  rq_head :: "nat \<Rightarrow> nat option"
  rq_tail :: "nat \<Rightarrow> nat option"
  g_current :: "nat option"
  g_idle :: "nat option"
  g_all :: "nat option"
  g_next_tid :: nat
  g_bootstrap_used :: bool

text \<open>The static \<open>g_bootstrap\<close> has an address no allocation returns; allocations start at 1 here.\<close>

definition g_bootstrap :: nat where "g_bootstrap = 0"

text \<open>Reading and writing through a thread pointer. No correct state reads an unallocated thread.\<close>

definition thr :: "sched_state \<Rightarrow> nat \<Rightarrow> thread" where
  "thr s t = (case threads s t of Some x \<Rightarrow> x | None \<Rightarrow> zero_thread)"

definition upd_thread :: "nat \<Rightarrow> (thread \<Rightarrow> thread) \<Rightarrow> sched_state \<Rightarrow> sched_state" where
  "upd_thread t f s = s\<lparr>threads := (threads s)(t := map_option f (threads s t))\<rparr>"

section \<open>Queues\<close>

definition prio_to_queue :: "int \<Rightarrow> nat" where
  "prio_to_queue prio = (if prio < 3 then SCHED_Q_LOW else if prio < 6 then SCHED_Q_MID else SCHED_Q_HIGH)"

definition queue_slice :: "nat \<Rightarrow> u64" where
  "queue_slice q =
     (if q = SCHED_Q_LOW then SCHED_SLICE_LOW_TICKS
      else if q = SCHED_Q_MID then SCHED_SLICE_MID_TICKS
      else if q = SCHED_Q_HIGH then SCHED_SLICE_HIGH_TICKS
      else SCHED_SLICE_LOW_TICKS)"

text \<open>The loop of \<open>size_to_order\<close>: \<open>room\<close> is \<open>MAX_ORDER - order\<close>.\<close>

fun order_loop :: "nat \<Rightarrow> nat \<Rightarrow> nat \<Rightarrow> nat" where
  "order_loop 0 order pages = order"
| "order_loop (Suc room) order pages = (if 2 ^ order < pages then order_loop room (Suc order) pages else order)"

definition size_to_order :: "nat \<Rightarrow> nat" where
  "size_to_order sz = order_loop MAX_ORDER 0 ((sz + PAGE_SIZE - 1) div PAGE_SIZE)"

definition rq_push :: "nat \<Rightarrow> nat \<Rightarrow> sched_state \<Rightarrow> sched_state" where
  "rq_push q t s =
     (if in_rq (thr s t) then s
      else
        let s = upd_thread t (\<lambda>x. x\<lparr>th_next := None, th_prev := rq_tail s q, th_queue := q, in_rq := True\<rparr>) s;
            s = (case rq_tail s q of
                   Some l \<Rightarrow> upd_thread l (\<lambda>x. x\<lparr>th_next := Some t\<rparr>) s
                 | None \<Rightarrow> s\<lparr>rq_head := (rq_head s)(q := Some t)\<rparr>)
        in s\<lparr>rq_tail := (rq_tail s)(q := Some t)\<rparr>)"

definition rq_pop :: "nat \<Rightarrow> sched_state \<Rightarrow> nat option \<times> sched_state" where
  "rq_pop q s =
     (case rq_head s q of
        None \<Rightarrow> (None, s)
      | Some t \<Rightarrow>
          let h = th_next (thr s t);
              s = s\<lparr>rq_head := (rq_head s)(q := h)\<rparr>;
              s = (case h of
                     Some n \<Rightarrow> upd_thread n (\<lambda>x. x\<lparr>th_prev := None\<rparr>) s
                   | None \<Rightarrow> s\<lparr>rq_tail := (rq_tail s)(q := None)\<rparr>)
          in (Some t, upd_thread t (\<lambda>x. x\<lparr>th_next := None, th_prev := None, in_rq := False\<rparr>) s))"

definition rq_remove :: "nat \<Rightarrow> nat option \<Rightarrow> sched_state \<Rightarrow> int \<times> sched_state" where
  "rq_remove q to s =
     (case to of
        None \<Rightarrow> (-1, s)
      | Some t \<Rightarrow>
          if \<not> in_rq (thr s t) then (-1, s)
          else
            let s = (case th_prev (thr s t) of
                       Some p \<Rightarrow> upd_thread p (\<lambda>x. x\<lparr>th_next := th_next (thr s t)\<rparr>) s
                     | None \<Rightarrow> s\<lparr>rq_head := (rq_head s)(q := th_next (thr s t))\<rparr>);
                s = (case th_next (thr s t) of
                       Some n \<Rightarrow> upd_thread n (\<lambda>x. x\<lparr>th_prev := th_prev (thr s t)\<rparr>) s
                     | None \<Rightarrow> s\<lparr>rq_tail := (rq_tail s)(q := th_prev (thr s t))\<rparr>)
            in (0, upd_thread t (\<lambda>x. x\<lparr>th_next := None, th_prev := None, in_rq := False\<rparr>) s))"

section \<open>Initialisation, creation\<close>

definition sched_init :: "sched_state \<Rightarrow> sched_state" where
  "sched_init s =
     (let s = s\<lparr>rq_head := (\<lambda>i. if i < SCHED_NUM_QUEUES then None else rq_head s i),
               rq_tail := (\<lambda>i. if i < SCHED_NUM_QUEUES then None else rq_tail s i),
               g_current := None, g_idle := None, g_all := None, g_next_tid := 1\<rparr>;
          s = (if \<not> g_bootstrap_used s then
                 s\<lparr>threads := (threads s)(g_bootstrap \<mapsto>
                     zero_thread\<lparr>th_state := THREAD_STATE_DEAD, th_priority := 5, th_queue := SCHED_Q_MID,
                                 th_name := Some ''bootstrap''\<rparr>),
                   g_bootstrap_used := True\<rparr>
               else s)
      in s\<lparr>g_current := Some g_bootstrap\<rparr>)"

text \<open>
  The thread block and its stack are allocated before the critical section. The initial contents of
  the stack (the frame that \<open>context_switch\<close> pops) are read by assembly only and left out.
\<close>

definition thread_create ::
    "string option \<Rightarrow> bool \<Rightarrow> int \<Rightarrow> kheap \<times> pmm_state \<times> sched_state \<Rightarrow> nat option \<times> kheap \<times> pmm_state \<times> sched_state" where
  "thread_create name has_entry priority k =
     (case k of (h, p, s) \<Rightarrow>
        if \<not> has_entry then (None, h, p, s)
        else case kzalloc_obj h of
            (None, h) \<Rightarrow> (None, h, p, s)
          | (Some t, h) \<Rightarrow>
              let order = size_to_order THREAD_KSTACK_SIZE in
              if order \<ge> MAX_ORDER then (None, h, p, s)
              else case pmm_alloc_pages (int order) p of
                  (None, p) \<Rightarrow> (None, h, p, s)
                | (Some pg, p) \<Rightarrow>
                    let prio = (if priority < 0 then 0 else if priority > 9 then 9 else priority);
                        q = prio_to_queue prio;
                        x = zero_thread\<lparr>th_state := THREAD_STATE_READY, th_priority := prio, th_queue := q,
                              slice_remaining := queue_slice q, th_name := name,
                              kstack_base := DIRECTMAP_BASE + page_to_phys pg,
                              kstack_size := 2 ^ (order + 12), kstack_order := int order\<rparr>;
                        s = s\<lparr>threads := (threads s)(t \<mapsto> x\<lparr>tid := g_next_tid s, th_g_next := g_all s\<rparr>),
                              g_next_tid := Suc (g_next_tid s), g_all := Some t\<rparr>
                    in (Some t, h, p, rq_push q t s))"

section \<open>Choosing a thread\<close>

text \<open>
  \<open>while ((next = rq_pop(q)) != 0) { if (next->state != DEAD) break; }\<close>: it ends because the list does,
  so a list with a cycle would not let it end.
\<close>

partial_function (option) pop_live :: "nat \<Rightarrow> sched_state \<Rightarrow> (nat option \<times> sched_state) option" where
  "pop_live q s =
     (case rq_pop q s of (to, s) \<Rightarrow>
        (case to of
           None \<Rightarrow> Some (None, s)
         | Some t \<Rightarrow> if th_state (thr s t) \<noteq> THREAD_STATE_DEAD then Some (Some t, s) else pop_live q s))"

declare pop_live.simps [code]

fun pick_next :: "nat list \<Rightarrow> sched_state \<Rightarrow> (nat option \<times> sched_state) option" where
  "pick_next [] s = Some (None, s)"
| "pick_next (q # qs) s =
     (case pop_live q s of
        None \<Rightarrow> None
      | Some (Some t, s) \<Rightarrow> Some (Some t, s)
      | Some (None, s) \<Rightarrow> pick_next qs s)"

definition set_state :: "thread_state \<Rightarrow> nat option \<Rightarrow> sched_state \<Rightarrow> sched_state" where
  "set_state st to s = (case to of None \<Rightarrow> s | Some t \<Rightarrow> upd_thread t (\<lambda>x. x\<lparr>th_state := st\<rparr>) s)"

text \<open>The thread that runs keeps the CPU while it has slice and no higher queue has a thread.\<close>

definition keeps_cpu :: "nat \<Rightarrow> sched_state \<Rightarrow> bool" where
  "keeps_cpu c s \<longleftrightarrow> slice_remaining (thr s c) > 0 \<and>
     (\<forall>q \<in> set [Suc (th_queue (thr s c))..<SCHED_NUM_QUEUES]. rq_head s q = None)"

text \<open>\<open>None\<close>: it does not end. The second result is the pair passed to \<open>context_switch\<close>, if it gets there.\<close>

definition schedule :: "sched_state \<Rightarrow> (sched_state \<times> (nat option \<times> nat option) option) option" where
  "schedule s =
     (let prev = g_current s;
          running = (case prev of
                       None \<Rightarrow> None
                     | Some c \<Rightarrow> if prev \<noteq> g_idle s \<and> th_state (thr s c) = THREAD_STATE_RUNNING then Some c else None)
      in if (case running of None \<Rightarrow> False | Some c \<Rightarrow> keeps_cpu c s) then Some (s, None)
         else
           let s = (case running of
                      None \<Rightarrow> s
                    | Some c \<Rightarrow>
                        let q = th_queue (thr s c);
                            s = upd_thread c (\<lambda>x. x\<lparr>th_state := THREAD_STATE_READY, slice_remaining := queue_slice q\<rparr>) s
                        in rq_push q c s)
           in case pick_next [2, 1, 0] s of
                None \<Rightarrow> None
              | Some (next, s) \<Rightarrow>
                  let next = (case next of None \<Rightarrow> g_idle s | Some t \<Rightarrow> Some t)
                  in if prev = next then Some (set_state THREAD_STATE_RUNNING next s, None)
                     else Some (set_state THREAD_STATE_RUNNING next (s\<lparr>g_current := next\<rparr>), Some (prev, next)))"

text \<open>The address space that \<open>schedule\<close> loads for the next thread: its domain, its user context, the kernel's.\<close>

definition next_pml4 :: "task_t option \<Rightarrow> nat option \<Rightarrow> nat option \<Rightarrow> nat option" where
  "next_pml4 next_task uc_pml4 kpml4 =
     (case (case next_task of
              None \<Rightarrow> None
            | Some t \<Rightarrow>
                if priv_iso_ready t \<and> pml4_self_ptr (mem_domain t) \<noteq> None then pml4_self_ptr (mem_domain t)
                else uc_pml4) of
        Some p \<Rightarrow> Some p
      | None \<Rightarrow> kpml4)"

section \<open>Ticks and the other entry points\<close>

definition sched_get_tick :: "sched_state \<Rightarrow> u64" where
  "sched_get_tick s = (case g_current s of Some c \<Rightarrow> total_ticks (thr s c) | None \<Rightarrow> 0)"

text \<open>The quota step of \<open>sched_tick\<close>; \<open>quota\<close> is that of the current thread's task.\<close>

definition tick_quota :: "nat option \<Rightarrow> nat \<Rightarrow> sched_state \<Rightarrow> sched_state" where
  "tick_quota quota c s =
     (case quota of
        None \<Rightarrow> s
      | Some k \<Rightarrow>
          if 0 < k \<and> k < 100 then
            let used = unat (total_ticks (thr s c)) mod 100 in
            if used > k \<and> th_queue (thr s c) \<noteq> SCHED_Q_LOW then
              let s = snd (rq_remove (th_queue (thr s c)) (Some c) s);
                  s = upd_thread c (\<lambda>x. x\<lparr>th_queue := SCHED_Q_LOW\<rparr>) s
              in rq_push SCHED_Q_LOW c s
            else if used = 1 \<and> th_queue (thr s c) = SCHED_Q_LOW then
              let s = upd_thread c (\<lambda>x. x\<lparr>th_queue := prio_to_queue (th_priority x)\<rparr>) s;
                  s = snd (rq_remove SCHED_Q_LOW (Some c) s)
              in rq_push (th_queue (thr s c)) c s
            else s
          else s)"

text \<open>
  \<open>sched_tick\<close> after \<open>futex_tick\<close> and \<open>oom_tick_reap\<close> and without \<open>net_tick\<close>: the state, and whether
  \<open>schedule\<close> is called.
\<close>

definition sched_tick_account :: "(nat \<Rightarrow> task_t option) \<Rightarrow> sched_state \<Rightarrow> sched_state \<times> bool" where
  "sched_tick_account task_of s =
     (case g_current s of
        None \<Rightarrow> (s, False)
      | Some c \<Rightarrow>
          if g_current s = g_idle s then (s, \<exists>q \<in> set [0..<SCHED_NUM_QUEUES]. rq_head s q \<noteq> None)
          else
            let s = upd_thread c (\<lambda>x. x\<lparr>slice_remaining := (if slice_remaining x > 0 then slice_remaining x - 1 else 0),
                                        total_ticks := total_ticks x + 1\<rparr>) s;
                tk = (case th_task (thr s c) of None \<Rightarrow> None | Some a \<Rightarrow> task_of a);
                s = tick_quota (map_option cpu_usage_quota tk) c s
            in (s, slice_remaining (thr s c) = 0))"

definition thread_yield :: "sched_state \<Rightarrow> (sched_state \<times> (nat option \<times> nat option) option) option" where
  "thread_yield s =
     schedule (case g_current s of None \<Rightarrow> s | Some c \<Rightarrow> upd_thread c (\<lambda>x. x\<lparr>slice_remaining := 0\<rparr>) s)"

definition thread_exit :: "sched_state \<Rightarrow> (sched_state \<times> (nat option \<times> nat option) option) option" where
  "thread_exit s =
     schedule (if g_current s \<noteq> None \<and> g_current s \<noteq> g_idle s then set_state THREAD_STATE_DEAD (g_current s) s else s)"

definition sched_remove_from_queue :: "nat option \<Rightarrow> sched_state \<Rightarrow> int \<times> sched_state" where
  "sched_remove_from_queue th s =
     (case th of
        None \<Rightarrow> (-1, s)
      | Some t \<Rightarrow> (0, set_state THREAD_STATE_DEAD th (snd (rq_remove (th_queue (thr s t)) th s))))"

definition sched_enqueue_thread :: "nat option \<Rightarrow> sched_state \<Rightarrow> sched_state" where
  "sched_enqueue_thread th s =
     (case th of
        None \<Rightarrow> s
      | Some t \<Rightarrow>
          if th_state (thr s t) = THREAD_STATE_DEAD then s
          else if \<not> in_rq (thr s t) then
            let q = th_queue (thr s t);
                s = upd_thread t (\<lambda>x. x\<lparr>th_state := THREAD_STATE_READY, slice_remaining := queue_slice q\<rparr>) s
            in rq_push q t s
          else s)"

definition sched_start :: "sched_state \<Rightarrow> (sched_state \<times> (nat option \<times> nat option) option) option" where
  "sched_start s = schedule s"

end
