(* ===== verification/SchedCorrect.thy ===== *)
theory SchedCorrect
  imports Sched
begin

text \<open>
  The run queues are lists: the relation \<open>rq_links\<close> between the pointers and three lists of threads, and
  what \<open>rq_push\<close>, \<open>rq_pop\<close> and \<open>rq_remove\<close> do to the lists. The locale \<open>run_queues\<close> states this contract;
  the choice of the next thread is proved from it.
\<close>

section \<open>Doubly linked segments\<close>

definition links :: "(nat \<Rightarrow> thread option) \<Rightarrow> nat \<Rightarrow> (nat option \<times> nat option) option" where
  "links h t = map_option (\<lambda>x. (th_next x, th_prev x)) (h t)"

text \<open>
  \<open>lseg h fp pv ts nx lst\<close>: from the pointer \<open>fp\<close> the \<open>next\<close> pointers run through \<open>ts\<close> to \<open>nx\<close>, the \<open>prev\<close>
  pointers run back to \<open>pv\<close>, and \<open>lst\<close> points to the last thread (to \<open>pv\<close> when there is none).
\<close>

fun lseg :: "(nat \<Rightarrow> thread option) \<Rightarrow> nat option \<Rightarrow> nat option \<Rightarrow> nat list \<Rightarrow> nat option \<Rightarrow> nat option \<Rightarrow> bool" where
  "lseg h fp pv [] nx lst \<longleftrightarrow> fp = nx \<and> lst = pv"
| "lseg h fp pv (t # ts) nx lst \<longleftrightarrow> fp = Some t \<and> (\<exists>n. links h t = Some (n, pv) \<and> lseg h n (Some t) ts nx lst)"

lemma lseg_cong: "\<forall>t \<in> set ts. links h' t = links h t \<Longrightarrow> lseg h' fp pv ts nx lst = lseg h fp pv ts nx lst"
  by (induction ts arbitrary: fp pv) auto

lemma lseg_append:
  "lseg h fp pv (as @ bs) nx lst \<longleftrightarrow> (\<exists>m l. lseg h fp pv as m l \<and> lseg h m l bs nx lst)"
  by (induction as arbitrary: fp pv) auto

lemma lseg_last: "lseg h fp pv ts nx lst \<Longrightarrow> lst = (if ts = [] then pv else Some (last ts))"
  by (induction ts arbitrary: fp pv) auto

lemma lseg_hd: "lseg h fp pv ts nx lst \<Longrightarrow> fp = (case ts of [] \<Rightarrow> nx | t # _ \<Rightarrow> Some t)"
  by (cases ts) auto

lemma lseg_alloc: "lseg h fp pv ts nx lst \<Longrightarrow> t \<in> set ts \<Longrightarrow> links h t \<noteq> None"
  by (induction ts arbitrary: fp pv) auto

text \<open>Redirecting the \<open>next\<close> pointer of the last thread, or the \<open>prev\<close> pointer of the first.\<close>

lemma lseg_set_last:
  assumes "lseg h fp pv (as @ [t]) nx lst" "distinct (as @ [t])"
    and "links h' t = Some (nx', (case links h t of Some (n, p) \<Rightarrow> p | None \<Rightarrow> None))"
    and "\<forall>u \<in> set as. links h' u = links h u"
  shows "lseg h' fp pv (as @ [t]) nx' lst"
  using assms by (auto simp: lseg_append lseg_cong [OF assms(4)])

lemma lseg_set_first:
  assumes "lseg h fp pv (t # bs) nx lst" "distinct (t # bs)"
    and "links h' t = Some ((case links h t of Some (n, p) \<Rightarrow> n | None \<Rightarrow> None), pv')"
    and "\<forall>u \<in> set bs. links h' u = links h u"
  shows "lseg h' fp pv' (t # bs) nx lst"
  using assms by (auto simp: lseg_cong [OF assms(4)])

section \<open>The queues of a state\<close>

definition rq_links :: "sched_state \<Rightarrow> (nat \<Rightarrow> nat list) \<Rightarrow> bool" where
  "rq_links s Q \<longleftrightarrow>
     (\<forall>q < 3. lseg (threads s) (rq_head s q) None (Q q) None (rq_tail s q) \<and> distinct (Q q)) \<and>
     (\<forall>q < 3. \<forall>q' < 3. q \<noteq> q' \<longrightarrow> set (Q q) \<inter> set (Q q') = {}) \<and>
     (\<forall>t. (\<exists>x. threads s t = Some x \<and> in_rq x) \<longleftrightarrow> (\<exists>q < 3. t \<in> set (Q q)))"

text \<open>A thread without its queue pointers, and the rest of a state.\<close>

definition erase :: "thread \<Rightarrow> thread" where
  "erase x = x\<lparr>th_next := None, th_prev := None, in_rq := False\<rparr>"

lemma erase_simps [simp]:
  "erase (x\<lparr>th_next := n\<rparr>) = erase x" "erase (x\<lparr>th_prev := n\<rparr>) = erase x" "erase (x\<lparr>in_rq := b\<rparr>) = erase x"
  "erase (x\<lparr>th_next := n, th_prev := m, th_queue := q\<rparr>) = erase (x\<lparr>th_queue := q\<rparr>)"
  "erase (x\<lparr>th_prev := m, th_queue := q\<rparr>) = erase (x\<lparr>th_queue := q\<rparr>)"
  "erase (x\<lparr>th_next := n, th_queue := q\<rparr>) = erase (x\<lparr>th_queue := q\<rparr>)"
  by (simp_all add: erase_def)

definition cores :: "sched_state \<Rightarrow> nat \<Rightarrow> thread option" where
  "cores s t = map_option erase (threads s t)"

definition globals :: "sched_state \<Rightarrow> nat option \<times> nat option \<times> nat option \<times> nat \<times> bool" where
  "globals s = (g_current s, g_idle s, g_all s, g_next_tid s, g_bootstrap_used s)"

lemma cores_alloc: "cores s t = None \<longleftrightarrow> threads s t = None"
  by (simp add: cores_def)

text \<open>A field that \<open>erase\<close> keeps can be read from the core.\<close>

lemma core_fields:
  assumes "cores s' t = cores s t"
  shows "th_state (thr s' t) = th_state (thr s t)" "th_queue (thr s' t) = th_queue (thr s t)"
    "slice_remaining (thr s' t) = slice_remaining (thr s t)" "total_ticks (thr s' t) = total_ticks (thr s t)"
    "th_priority (thr s' t) = th_priority (thr s t)" "th_task (thr s' t) = th_task (thr s t)"
    "th_futex_waiter (thr s' t) = th_futex_waiter (thr s t)"
proof -
  obtain f where f: "\<And>x. f (erase x) = (th_state x, th_queue x, slice_remaining x, total_ticks x, th_priority x, th_task x, th_futex_waiter x)"
    by (rule that [of "\<lambda>x. (th_state x, th_queue x, slice_remaining x, total_ticks x, th_priority x, th_task x, th_futex_waiter x)"])
      (simp add: erase_def)
  have *: "map_option erase (threads s' t) = map_option erase (threads s t)" using assms by (simp add: cores_def)
  have e: "erase (thr s' t) = erase (thr s t)"
    using * by (cases "threads s t"; cases "threads s' t") (auto simp: thr_def)
  have "f (erase (thr s' t)) = f (erase (thr s t))" using e by simp
  then show "th_state (thr s' t) = th_state (thr s t)" "th_queue (thr s' t) = th_queue (thr s t)"
    "slice_remaining (thr s' t) = slice_remaining (thr s t)" "total_ticks (thr s' t) = total_ticks (thr s t)"
    "th_priority (thr s' t) = th_priority (thr s t)" "th_task (thr s' t) = th_task (thr s t)"
    "th_futex_waiter (thr s' t) = th_futex_waiter (thr s t)"
    unfolding f by simp_all
qed

lemma rq_links_mem: "rq_links s Q \<Longrightarrow> q < 3 \<Longrightarrow> t \<in> set (Q q) \<Longrightarrow> \<exists>x. threads s t = Some x \<and> in_rq x"
  unfolding rq_links_def by blast

lemma rq_links_head: "rq_links s Q \<Longrightarrow> q < 3 \<Longrightarrow> rq_head s q = (case Q q of [] \<Rightarrow> None | t # _ \<Rightarrow> Some t)"
  using lseg_hd [of "threads s" "rq_head s q" None "Q q" None "rq_tail s q"] by (simp add: rq_links_def)

text \<open>A change of a thread outside its queue pointers keeps the queues.\<close>

lemma rq_links_upd:
  assumes "rq_links s Q" "\<And>x. th_next (f x) = th_next x" "\<And>x. th_prev (f x) = th_prev x" "\<And>x. in_rq (f x) = in_rq x"
  shows "rq_links (upd_thread t f s) Q"
proof -
  have l: "links (threads (upd_thread t f s)) u = links (threads s) u" for u
    using assms(2,3) by (auto simp: links_def upd_thread_def option.map_comp o_def)
  have m: "(\<exists>x. threads (upd_thread t f s) u = Some x \<and> in_rq x) \<longleftrightarrow> (\<exists>x. threads s u = Some x \<and> in_rq x)" for u
    using assms(4) by (auto simp: upd_thread_def)
  have h: "rq_head (upd_thread t f s) = rq_head s" "rq_tail (upd_thread t f s) = rq_tail s"
    by (simp_all add: upd_thread_def)
  show ?thesis
    using assms(1) lseg_cong [of _ "threads (upd_thread t f s)" "threads s"] l
    unfolding rq_links_def m h by blast
qed

lemma links_upd: "links (threads (upd_thread t f s)) u =
    (if u = t then map_option (\<lambda>x. (th_next (f x), th_prev (f x))) (threads s t) else links (threads s) u)"
  by (auto simp: links_def upd_thread_def option.map_comp o_def)

lemma upd_thread_simps [simp]:
  "rq_head (upd_thread t f s) = rq_head s" "rq_tail (upd_thread t f s) = rq_tail s"
  "g_current (upd_thread t f s) = g_current s" "g_idle (upd_thread t f s) = g_idle s"
  "g_all (upd_thread t f s) = g_all s" "g_next_tid (upd_thread t f s) = g_next_tid s"
  "g_bootstrap_used (upd_thread t f s) = g_bootstrap_used s"
  "threads (upd_thread t f s) u = (if u = t then map_option f (threads s t) else threads s u)"
  by (simp_all add: upd_thread_def)

text \<open>Membership tests of the queues after a change of queue \<open>q\<close>.\<close>

lemma rq_linksI:
  assumes "rq_links s Q" "q < 3"
    and "\<And>q'. q' \<noteq> q \<Longrightarrow> rq_head s' q' = rq_head s q'" "\<And>q'. q' \<noteq> q \<Longrightarrow> rq_tail s' q' = rq_tail s q'"
    and "\<And>q' u. q' < 3 \<Longrightarrow> q' \<noteq> q \<Longrightarrow> u \<in> set (Q q') \<Longrightarrow> links (threads s') u = links (threads s) u"
    and "lseg (threads s') (rq_head s' q) None ts None (rq_tail s' q)" "distinct ts"
    and "\<And>q'. q' < 3 \<Longrightarrow> q' \<noteq> q \<Longrightarrow> set ts \<inter> set (Q q') = {}"
    and "\<And>u. (\<exists>x. threads s' u = Some x \<and> in_rq x) \<longleftrightarrow> u \<in> set ts \<or> (\<exists>q' < 3. q' \<noteq> q \<and> u \<in> set (Q q'))"
  shows "rq_links s' (Q(q := ts))"
  unfolding rq_links_def
proof (intro conjI allI impI)
  fix q' :: nat assume q': "q' < 3"
  have old: "lseg (threads s) (rq_head s q') None (Q q') None (rq_tail s q')" "distinct (Q q')"
    using assms(1) q' by (simp_all add: rq_links_def)
  have "lseg (threads s') (rq_head s q') None (Q q') None (rq_tail s q')" if "q' \<noteq> q"
    by (subst lseg_cong [of _ "threads s'" "threads s"]) (use assms(5) [OF q' that] old in auto)
  then show "lseg (threads s') (rq_head s' q') None ((Q(q := ts)) q') None (rq_tail s' q')" "distinct ((Q(q := ts)) q')"
    using assms(3,4,6,7) old(2) by (cases "q' = q"; simp)+
  fix r :: nat assume r: "r < 3" "q' \<noteq> r"
  show "set ((Q(q := ts)) q') \<inter> set ((Q(q := ts)) r) = {}"
    using assms(1) assms(8) [of r] assms(8) [of q'] q' r unfolding rq_links_def by (cases "q' = q"; cases "r = q") auto
next
  fix u
  show "(\<exists>x. threads s' u = Some x \<and> in_rq x) \<longleftrightarrow> (\<exists>r < 3. u \<in> set ((Q(q := ts)) r))"
    unfolding assms(9) using assms(2) by auto
qed

lemma rq_push_links:
  assumes rl: "rq_links s Q" and x: "threads s t = Some x" "\<not> in_rq x" and q: "q < 3"
  shows "rq_links (rq_push q t s) (Q(q := Q q @ [t]))"
    "cores (rq_push q t s) = (cores s)(t \<mapsto> erase (x\<lparr>th_queue := q\<rparr>))" "globals (rq_push q t s) = globals s"
proof -
  let ?s = "rq_push q t s"
  have seg: "lseg (threads s) (rq_head s q) None (Q q) None (rq_tail s q)" "distinct (Q q)"
    and dis: "\<And>q'. q' < 3 \<Longrightarrow> q' \<noteq> q \<Longrightarrow> set (Q q) \<inter> set (Q q') = {}"
    and mem: "\<And>u. (\<exists>x. threads s u = Some x \<and> in_rq x) \<longleftrightarrow> (\<exists>q < 3. u \<in> set (Q q))"
    using rl q unfolding rq_links_def by auto
  have nt: "t \<notin> set (Q q')" if "q' < 3" for q' using x mem that by force
  have nin: "\<not> in_rq (thr s t)" using x by (simp add: thr_def)
  note tl = lseg_last [OF seg(1)]
  show "globals ?s = globals s"
    using nin by (simp add: rq_push_def globals_def Let_def split: option.split)
  show "cores ?s = (cores s)(t \<mapsto> erase (x\<lparr>th_queue := q\<rparr>))"
    using nin x by (auto simp: rq_push_def cores_def Let_def fun_eq_iff option.map_comp o_def split: option.split)
  have th: "threads ?s u = (if u = t then Some ((if rq_tail s q = Some t then (\<lambda>x. x\<lparr>th_next := Some t\<rparr>) else id)
        (x\<lparr>th_next := None, th_prev := rq_tail s q, th_queue := q, in_rq := True\<rparr>))
      else if rq_tail s q = Some u then map_option (\<lambda>x. x\<lparr>th_next := Some t\<rparr>) (threads s u) else threads s u)" for u
    using nin x by (auto simp: rq_push_def Let_def split: option.split)
  have tnt: "rq_tail s q \<noteq> Some t" using tl nt [OF q] by (metis last_in_set option.distinct(1) option.inject)
  have hd: "rq_tail ?s = (rq_tail s)(q := Some t)"
    "rq_head ?s = (if rq_tail s q = None then (rq_head s)(q := Some t) else rq_head s)"
    using nin by (simp_all add: rq_push_def Let_def split: option.split)
  show "rq_links ?s (Q(q := Q q @ [t]))"
  proof (rule rq_linksI [OF rl q])
    show "distinct (Q q @ [t])" using seg(2) nt [OF q] by simp
    show "set (Q q @ [t]) \<inter> set (Q q') = {}" if "q' < 3" "q' \<noteq> q" for q' using dis [OF that] nt [OF that(1)] by auto
    have "in_rq (f x) = in_rq x" if "f = (\<lambda>x. x\<lparr>th_next := Some t\<rparr>)" for f and x :: thread using that by simp
    have "(\<exists>x. threads ?s u = Some x \<and> in_rq x) \<longleftrightarrow> u = t \<or> (\<exists>x. threads s u = Some x \<and> in_rq x)" for u
      unfolding th using tnt by auto
    then show "(\<exists>x. threads ?s u = Some x \<and> in_rq x) \<longleftrightarrow> u \<in> set (Q q @ [t]) \<or> (\<exists>q' < 3. q' \<noteq> q \<and> u \<in> set (Q q'))" for u
      unfolding mem using q by auto
    show "links (threads ?s) u = links (threads s) u" if "q' < 3" "q' \<noteq> q" "u \<in> set (Q q')" for q' u
    proof -
      have "u \<noteq> t" using nt [OF that(1)] that(3) by blast
      moreover have "rq_tail s q \<noteq> Some u"
        using tl dis [OF that(1,2)] that(3) by (metis disjoint_iff last_in_set option.distinct(1) option.inject)
      ultimately show ?thesis by (simp add: links_def th)
    qed
    show "lseg (threads ?s) (rq_head ?s q) None (Q q @ [t]) None (rq_tail ?s q)"
    proof (cases "Q q" rule: rev_cases)
      case Nil
      then show ?thesis using tl seg(1) by (simp add: hd links_def th)
    next
      case (snoc as l)
      have l: "rq_tail s q = Some l" "l \<noteq> t" using tl snoc nt [OF q] by auto
      have fr: "\<forall>u \<in> set as. links (threads ?s) u = links (threads s) u"
        using seg(2) snoc nt [OF q] l by (auto simp: links_def th)
      have ll: "links (threads ?s) l = Some (Some t, (case links (threads s) l of Some (n, p) \<Rightarrow> p | None \<Rightarrow> None))"
        using lseg_alloc [OF seg(1), of l] snoc l by (auto simp: links_def th)
      have "lseg (threads ?s) (rq_head s q) None (as @ [l]) (Some t) (rq_tail s q)"
        by (rule lseg_set_last [OF seg(1) [unfolded snoc] seg(2) [unfolded snoc] ll fr])
      then show ?thesis unfolding snoc lseg_append [of _ _ _ "as @ [l]"] using l
        by (intro exI [of _ "Some t"] exI [of _ "Some l"]) (simp add: hd links_def th)
    qed
  qed (simp_all add: hd)
qed

lemma rq_push_in: "in_rq (thr s t) \<Longrightarrow> rq_push q t s = s"
  by (simp add: rq_push_def)

lemma rq_remove_links:
  assumes rl: "rq_links s Q" and q: "q < 3" and tq: "t \<in> set (Q q)"
  defines "s' \<equiv> snd (rq_remove q (Some t) s)"
  shows "rq_links s' (Q(q := remove1 t (Q q)))" "cores s' = cores s" "globals s' = globals s"
    "fst (rq_remove q (Some t) s) = 0"
proof -
  have seg: "lseg (threads s) (rq_head s q) None (Q q) None (rq_tail s q)" "distinct (Q q)"
    and dis: "\<And>q'. q' < 3 \<Longrightarrow> q' \<noteq> q \<Longrightarrow> set (Q q) \<inter> set (Q q') = {}"
    and mem: "\<And>u. (\<exists>x. threads s u = Some x \<and> in_rq x) \<longleftrightarrow> (\<exists>q < 3. u \<in> set (Q q))"
    using rl q unfolding rq_links_def by auto
  obtain as bs where ab: "Q q = as @ t # bs" using tq by (metis split_list)
  have d: "distinct (as @ t # bs)" using seg(2) ab by simp
  obtain x where x: "threads s t = Some x" "in_rq x" using mem tq q by blast
  then have thr: "thr s t = x" by (simp add: thr_def)
  obtain m l where ml: "lseg (threads s) (rq_head s q) None as m l" "lseg (threads s) m l (t # bs) None (rq_tail s q)"
    using seg(1) unfolding ab lseg_append by blast
  then have m: "m = Some t" and lx: "th_prev x = l" and bs: "lseg (threads s) (th_next x) (Some t) bs None (rq_tail s q)"
    using x(1) by (auto simp: links_def)
  have l: "l = (if as = [] then None else Some (last as))" using lseg_last [OF ml(1)] .
  have n: "th_next x = (case bs of [] \<Rightarrow> None | b # _ \<Rightarrow> Some b)" using lseg_hd [OF bs] .
  define n where "n = th_next x"
  have lt: "l \<noteq> Some t" using l d by (auto split: if_splits)
  have ntt: "n \<noteq> Some t" using n d by (auto simp: n_def split: list.splits)
  have def': "rq_remove q (Some t) s = (0, s')"
    unfolding s'_def by (simp add: rq_remove_def thr x Let_def)
  then show "fst (rq_remove q (Some t) s) = 0" by simp
  define e where "e = upd_thread t (\<lambda>x. x\<lparr>th_next := None, th_prev := None, in_rq := False\<rparr>)"
  have step: "s' = e (case n of Some b \<Rightarrow> upd_thread b (\<lambda>x. x\<lparr>th_prev := l\<rparr>) (case l of Some p \<Rightarrow> upd_thread p (\<lambda>x. x\<lparr>th_next := n\<rparr>) s
          | None \<Rightarrow> s\<lparr>rq_head := (rq_head s)(q := n)\<rparr>)
        | None \<Rightarrow> (case l of Some p \<Rightarrow> upd_thread p (\<lambda>x. x\<lparr>th_next := n\<rparr>) s
          | None \<Rightarrow> s\<lparr>rq_head := (rq_head s)(q := n)\<rparr>)\<lparr>rq_tail := (rq_tail s)(q := l)\<rparr>)"
  proof (cases l)
    case None
    then have "thr (s\<lparr>rq_head := (rq_head s)(q := n)\<rparr>) t = x" using x by (simp add: thr_def)
    then show ?thesis using x lx None unfolding s'_def e_def
      by (cases n) (simp_all add: rq_remove_def thr Let_def n_def)
  next
    case (Some p)
    then have "thr (upd_thread p (\<lambda>x. x\<lparr>th_next := n\<rparr>) s) t = x" using x lt by (auto simp: thr_def)
    then show ?thesis using x lx Some unfolding s'_def e_def
      by (cases n) (simp_all add: rq_remove_def thr Let_def n_def)
  qed
  have th: "threads s' u = (if u = t then Some (x\<lparr>th_next := None, th_prev := None, in_rq := False\<rparr>)
      else map_option (\<lambda>y. (if n = Some u then (\<lambda>y. y\<lparr>th_prev := l\<rparr>) else id)
             ((if l = Some u then (\<lambda>y. y\<lparr>th_next := n\<rparr>) else id) y)) (threads s u))" for u
    using lt ntt x(1) step
    by (cases l; cases n; cases "u = t") (auto simp: e_def option.map_comp o_def option.map_ident option.map_id)
  have hd: "rq_head s' = (if l = None then (rq_head s)(q := n) else rq_head s)"
    "rq_tail s' = (if n = None then (rq_tail s)(q := l) else rq_tail s)"
    using step by (cases l; cases n; simp add: e_def)+
  show "globals s' = globals s"
    using step by (cases l; cases n; simp add: e_def globals_def)
  show "cores s' = cores s"
  proof
    fix u show "cores s' u = cores s u"
      unfolding cores_def th using x by (cases "threads s u") auto
  qed
  have rm: "remove1 t (Q q) = as @ bs" using d ab by (simp add: remove1_append)
  have frame: "links (threads s') u = links (threads s) u" if "u \<noteq> t" "l \<noteq> Some u" "n \<noteq> Some u" for u
    using that by (simp add: links_def th option.map_ident)
  show "rq_links s' (Q(q := remove1 t (Q q)))"
    unfolding rm
  proof (rule rq_linksI [OF rl q])
    show "distinct (as @ bs)" using d by auto
    show "set (as @ bs) \<inter> set (Q q') = {}" if "q' < 3" "q' \<noteq> q" for q' using dis [OF that] ab by auto
    have "(\<exists>x. threads s' u = Some x \<and> in_rq x) \<longleftrightarrow> u \<noteq> t \<and> (\<exists>x. threads s u = Some x \<and> in_rq x)" for u
      unfolding th by auto
    moreover have "t \<notin> set (Q q')" if "q' < 3" "q' \<noteq> q" for q' using dis [OF that] tq by blast
    moreover have "u \<in> set (Q q) \<longleftrightarrow> u = t \<or> u \<in> set (as @ bs)" for u using ab by auto
    moreover have "t \<notin> set (as @ bs)" using d by simp
    ultimately show "(\<exists>x. threads s' u = Some x \<and> in_rq x) \<longleftrightarrow> u \<in> set (as @ bs) \<or> (\<exists>q' < 3. q' \<noteq> q \<and> u \<in> set (Q q'))" for u
      unfolding mem using q by metis
    show "links (threads s') u = links (threads s) u" if "q' < 3" "q' \<noteq> q" "u \<in> set (Q q')" for q' u
    proof (rule frame)
      have u: "u \<notin> set (Q q)" using dis [OF that(1,2)] that(3) by blast
      then show "u \<noteq> t" using tq by blast
      show "l \<noteq> Some u" using l u ab by auto
      show "n \<noteq> Some u" using n u ab by (auto simp: n_def split: list.splits)
    qed
    have lbs: "l \<noteq> Some u" if "u \<in> set bs" for u
    proof
      assume "l = Some u"
      then have "u \<in> set as" using l by (metis last_in_set option.distinct(1) option.inject)
      then show False using d that by auto
    qed
    have nas: "n \<noteq> Some u" if "u \<in> set as" for u
      using n d that by (auto simp: n_def split: list.splits)
    have A: "lseg (threads s') (if as = [] then n else rq_head s q) None as n l"
    proof (cases as rule: rev_cases)
      case Nil
      then show ?thesis using l by simp
    next
      case (snoc as0 a)
      have la: "l = Some a" using l snoc by simp
      have na: "n \<noteq> Some a" "a \<noteq> t" using n d snoc by (auto simp: n_def split: list.splits)
      have "\<forall>u \<in> set as0. links (threads s') u = links (threads s) u"
        using d snoc n la by (auto intro!: frame simp: n_def split: list.splits)
      moreover have "links (threads s') a = Some (n, (case links (threads s) a of Some (n, p) \<Rightarrow> p | None \<Rightarrow> None))"
        using lseg_alloc [OF ml(1), of a] snoc la na by (auto simp: links_def th)
      ultimately show ?thesis
        using lseg_set_last [of "threads s" _ _ as0 a m l "threads s'" n] ml(1) d snoc by auto
    qed
    have B: "lseg (threads s') n l bs None (if bs = [] then l else rq_tail s q)"
    proof (cases bs)
      case Nil
      then show ?thesis using n by (simp add: n_def)
    next
      case (Cons b bs0)
      have nb: "n = Some b" using n Cons by (simp add: n_def)
      have lb: "l \<noteq> Some b" "b \<noteq> t" using l d Cons by (auto split: if_splits)
      have "\<forall>u \<in> set bs0. links (threads s') u = links (threads s) u"
        using d Cons lbs nb by (auto intro!: frame)
      moreover have "links (threads s') b = Some ((case links (threads s) b of Some (n, p) \<Rightarrow> n | None \<Rightarrow> None), l)"
        using lseg_alloc [OF bs, of b] Cons nb lb by (auto simp: links_def th)
      ultimately show ?thesis
        using lseg_set_first [of "threads s" _ _ b bs0 None _ "threads s'" l] bs d Cons by (auto simp: n_def)
    qed
    have h1: "rq_head s' q = (if as = [] then n else rq_head s q)" using l by (simp add: hd)
    have h2: "rq_tail s' q = (if bs = [] then l else rq_tail s q)" using n by (auto simp: hd n_def split: list.splits)
    show "lseg (threads s') (rq_head s' q) None (as @ bs) None (rq_tail s' q)"
      unfolding lseg_append h1 h2 using A B by blast
  qed (simp_all add: hd)
qed

lemma rq_pop_links:
  assumes rl: "rq_links s Q" and q: "q < 3"
  shows "Q q = [] \<Longrightarrow> rq_pop q s = (None, s)"
    "Q q = t # ts \<Longrightarrow> \<exists>s'. rq_pop q s = (Some t, s') \<and> rq_links s' (Q(q := ts)) \<and> cores s' = cores s \<and> globals s' = globals s"
proof -
  show "rq_pop q s = (None, s)" if "Q q = []" using rq_links_head [OF rl q] that by (simp add: rq_pop_def)
  assume Q: "Q q = t # ts"
  have hd: "rq_head s q = Some t" using rq_links_head [OF rl q] Q by simp
  obtain x where x: "threads s t = Some x" "in_rq x" using rq_links_mem [OF rl q, of t] Q by auto
  have "lseg (threads s) (rq_head s q) None (t # ts) None (rq_tail s q)" using rl q Q unfolding rq_links_def by auto
  then have pv: "th_prev x = None" using x by (auto simp: links_def)
  have "rq_pop q s = (Some t, snd (rq_remove q (Some t) s))"
    using hd x pv by (cases "th_next x") (simp_all add: rq_pop_def rq_remove_def thr_def Let_def)
  then show "\<exists>s'. rq_pop q s = (Some t, s') \<and> rq_links s' (Q(q := ts)) \<and> cores s' = cores s \<and> globals s' = globals s"
    using rq_remove_links [OF rl q, of t] Q by simp
qed

section \<open>The interface of a set of run queues\<close>

text \<open>
  \<open>queues s Q\<close>: the state holds the lists \<open>Q\<close>. A client that only pushes and pops sees FIFO lists.
\<close>

locale run_queues =
  fixes queues :: "'s \<Rightarrow> (nat \<Rightarrow> nat list) \<Rightarrow> bool"
    and runnable :: "'s \<Rightarrow> nat \<Rightarrow> bool"
    and push :: "nat \<Rightarrow> nat \<Rightarrow> 's \<Rightarrow> 's"
    and pop :: "nat \<Rightarrow> 's \<Rightarrow> nat option \<times> 's"
    and remove :: "nat \<Rightarrow> nat option \<Rightarrow> 's \<Rightarrow> int \<times> 's"
  assumes push_law: "queues s Q \<Longrightarrow> runnable s t \<Longrightarrow> q < 3 \<Longrightarrow> queues (push q t s) (Q(q := Q q @ [t]))"
    and pop_Nil: "queues s Q \<Longrightarrow> q < 3 \<Longrightarrow> Q q = [] \<Longrightarrow> pop q s = (None, s)"
    and pop_Cons: "queues s Q \<Longrightarrow> q < 3 \<Longrightarrow> Q q = t # ts \<Longrightarrow> \<exists>s'. pop q s = (Some t, s') \<and> queues s' (Q(q := ts))"
    and remove_law: "queues s Q \<Longrightarrow> q < 3 \<Longrightarrow> t \<in> set (Q q) \<Longrightarrow>
      queues (snd (remove q (Some t) s)) (Q(q := remove1 t (Q q)))"
begin

lemma pops:
  assumes "queues s Q" "q < 3" "Q q = ts @ us"
  shows "queues (((\<lambda>s. snd (pop q s)) ^^ length ts) s) (Q(q := us))"
  using assms
proof (induction ts arbitrary: s Q)
  case (Cons t ts)
  have "Q q = t # (ts @ us)" using Cons.prems(3) by simp
  from pop_Cons [OF Cons.prems(1,2) this]
  obtain s' where s': "pop q s = (Some t, s')" "queues s' (Q(q := ts @ us))" by blast
  have "queues (((\<lambda>s. snd (pop q s)) ^^ length ts) s') ((Q(q := ts @ us))(q := us))"
    by (rule Cons.IH [OF s'(2) Cons.prems(2)]) simp
  then show ?case by (simp only: fun_upd_upd length_Cons funpow_Suc_right o_apply s'(1) snd_conv)
qed (simp add: fun_upd_idem)

text \<open>A pushed thread is popped after exactly the threads that were in its queue before it.\<close>

lemma fifo:
  assumes "queues s Q" "q < 3" "runnable s t"
  shows "fst (pop q (((\<lambda>s. snd (pop q s)) ^^ length (Q q)) (push q t s))) = Some t"
proof -
  have "queues (((\<lambda>s. snd (pop q s)) ^^ length (Q q)) (push q t s)) ((Q(q := Q q @ [t]))(q := [t]))"
    by (rule pops [OF push_law [OF assms(1,3,2)] assms(2)]) simp
  from pop_Cons [OF this assms(2), of t "[]"] show ?thesis by auto
qed

lemma remove_only:
  assumes "queues s Q" "q < 3" "Q q = [t]"
  shows "fst (pop q (snd (remove q (Some t) s))) = None"
  using pop_Nil [OF remove_law [OF assms(1,2)] assms(2), of t] assms(3) by simp

end

definition idle_thread :: "sched_state \<Rightarrow> nat \<Rightarrow> bool" where
  "idle_thread s t \<longleftrightarrow> (\<exists>x. threads s t = Some x \<and> \<not> in_rq x)"

interpretation rq: run_queues rq_links idle_thread rq_push rq_pop rq_remove
proof
  fix s Q q t ts
  show "rq_links s Q \<Longrightarrow> idle_thread s t \<Longrightarrow> q < 3 \<Longrightarrow> rq_links (rq_push q t s) (Q(q := Q q @ [t]))"
    using rq_push_links(1) unfolding idle_thread_def by blast
  show "rq_links s Q \<Longrightarrow> q < 3 \<Longrightarrow> Q q = [] \<Longrightarrow> rq_pop q s = (None, s)" by (rule rq_pop_links(1))
  show "rq_links s Q \<Longrightarrow> q < 3 \<Longrightarrow> Q q = t # ts \<Longrightarrow> \<exists>s'. rq_pop q s = (Some t, s') \<and> rq_links s' (Q(q := ts))"
    using rq_pop_links(2) by blast
  show "rq_links s Q \<Longrightarrow> q < 3 \<Longrightarrow> t \<in> set (Q q) \<Longrightarrow> rq_links (snd (rq_remove q (Some t) s)) (Q(q := remove1 t (Q q)))"
    by (rule rq_remove_links(1))
qed

section \<open>Choosing a thread\<close>

text \<open>The choice on lists: from the first queue that has a live thread, after dropping the dead ones.\<close>

fun select_next :: "(nat \<Rightarrow> bool) \<Rightarrow> nat list \<Rightarrow> (nat \<Rightarrow> nat list) \<Rightarrow> nat option \<times> (nat \<Rightarrow> nat list)" where
  "select_next dead [] Q = (None, Q)"
| "select_next dead (q # qs) Q =
     (case dropWhile dead (Q q) of
        [] \<Rightarrow> select_next dead qs (Q(q := []))
      | t # ts \<Rightarrow> (Some t, Q(q := ts)))"

abbreviation is_dead :: "sched_state \<Rightarrow> nat \<Rightarrow> bool" where
  "is_dead s t \<equiv> th_state (thr s t) = THREAD_STATE_DEAD"

lemma is_dead_cores: "cores s' = cores s \<Longrightarrow> is_dead s' = is_dead s"
  using core_fields(1) by metis

lemma pop_live_links:
  assumes "rq_links s Q" "q < 3"
  shows "\<exists>s'. pop_live q s = Some (case dropWhile (is_dead s) (Q q) of [] \<Rightarrow> None | t # _ \<Rightarrow> Some t, s') \<and>
    rq_links s' (Q(q := tl (dropWhile (is_dead s) (Q q)))) \<and> cores s' = cores s \<and> globals s' = globals s"
  using assms
proof (induction "Q q" arbitrary: s Q)
  case Nil
  then have "rq_pop q s = (None, s)" "Q(q := []) = Q" using rq_pop_links(1) [OF Nil.prems] by auto
  then show ?case using Nil by (subst pop_live.simps) (auto intro!: exI [of _ s])
next
  case (Cons t ts)
  obtain s1 where s1: "rq_pop q s = (Some t, s1)" "rq_links s1 (Q(q := ts))" "cores s1 = cores s" "globals s1 = globals s"
    using rq_pop_links(2) [OF Cons.prems] Cons.hyps(2) by metis
  have d: "is_dead s1 = is_dead s" by (rule is_dead_cores [OF s1(3)])
  show ?case
  proof (cases "is_dead s t")
    case False
    then show ?thesis
      using s1 d Cons.hyps(2) [symmetric] by (subst pop_live.simps) (auto intro!: exI [of _ s1] dest: fun_cong [of _ _ t])
  next
    case True
    have "ts = (Q(q := ts)) q" by simp
    from Cons.hyps(1) [OF this s1(2) Cons.prems(2)]
    obtain s' where "pop_live q s1 = Some (case dropWhile (is_dead s) ts of [] \<Rightarrow> None | t # _ \<Rightarrow> Some t, s')"
      "rq_links s' (Q(q := tl (dropWhile (is_dead s) ts)))" "cores s' = cores s" "globals s' = globals s"
      using d s1(3,4) by auto
    then show ?thesis
      using True s1(1) d Cons.hyps(2) [symmetric] by (subst pop_live.simps) (auto dest: fun_cong [of _ _ t])
  qed
qed

lemma pick_next_links:
  assumes "rq_links s Q" "\<forall>q \<in> set qs. q < 3"
  shows "\<exists>s'. pick_next qs s = Some (fst (select_next (is_dead s) qs Q), s') \<and>
    rq_links s' (snd (select_next (is_dead s) qs Q)) \<and> cores s' = cores s \<and> globals s' = globals s"
  using assms
proof (induction qs arbitrary: s Q)
  case (Cons q qs)
  then have q: "q < 3" by simp
  obtain s1 where s1: "pop_live q s = Some (case dropWhile (is_dead s) (Q q) of [] \<Rightarrow> None | t # _ \<Rightarrow> Some t, s1)"
    "rq_links s1 (Q(q := tl (dropWhile (is_dead s) (Q q))))" "cores s1 = cores s" "globals s1 = globals s"
    using pop_live_links [OF Cons.prems(1) q] by blast
  show ?case
  proof (cases "dropWhile (is_dead s) (Q q)")
    case Nil
    have "rq_links s1 (Q(q := []))" using s1(2) Nil by simp
    moreover have "select_next (is_dead s) (q # qs) Q = select_next (is_dead s) qs (Q(q := []))"
      by (simp only: select_next.simps Nil list.case)
    moreover have "pick_next (q # qs) s = pick_next qs s1" using s1(1) by (simp only: pick_next.simps Nil list.case option.case prod.case)
    moreover have "\<exists>s'. pick_next qs s1 = Some (fst (select_next (is_dead s1) qs (Q(q := []))), s') \<and>
        rq_links s' (snd (select_next (is_dead s1) qs (Q(q := [])))) \<and> cores s' = cores s1 \<and> globals s' = globals s1"
    proof (rule Cons.IH)
      show "rq_links s1 (Q(q := []))" by fact
      show "\<forall>q \<in> set qs. q < 3" using Cons.prems(2) by simp
    qed
    ultimately show ?thesis unfolding is_dead_cores [OF s1(3)] s1(3,4) by (simp only:)
  next
    case c: (Cons t ts)
    have "rq_links s1 (Q(q := ts))" using s1(2) unfolding c list.sel .
    moreover have "pick_next (q # qs) s = Some (Some t, s1)" using s1(1) by (simp only: pick_next.simps c list.case option.case prod.case)
    moreover have "select_next (is_dead s) (q # qs) Q = (Some t, Q(q := ts))" by (simp only: select_next.simps c list.case)
    ultimately show ?thesis using s1(3,4) by (simp only: fst_conv snd_conv simp_thms option.inject prod.inject)
  qed
qed auto

end
