(* ===== verification/SchedProps.thy ===== *)
theory SchedProps
  imports SchedCorrect
begin

text \<open>
  The scheduler's invariant over every sequence of its operations, the thread it chooses, and what the
  quota step does to a running thread.
\<close>

section \<open>The invariant\<close>

text \<open>
  The three lists, with every queued thread in the queue its \<open>queue\<close> field names; \<open>g_idle\<close> is never set.
\<close>

definition sched_rep :: "sched_state \<Rightarrow> (nat \<Rightarrow> nat list) \<Rightarrow> bool" where
  "sched_rep s Q \<longleftrightarrow> rq_links s Q \<and> (\<forall>q < 3. \<forall>t \<in> set (Q q). th_queue (thr s t) = q) \<and>
     (\<forall>t x. threads s t = Some x \<longrightarrow> th_queue x < 3) \<and> g_idle s = None \<and>
     (\<forall>c. g_current s = Some c \<longrightarrow> threads s c \<noteq> None)"

definition sched_ok :: "sched_state \<Rightarrow> bool" where
  "sched_ok s \<longleftrightarrow> (\<exists>Q. sched_rep s Q)"

lemma thr_upd: "thr (upd_thread t f s) u = (if u = t \<and> threads s t \<noteq> None then f (thr s t) else thr s u)"
  by (auto simp: thr_def split: option.splits)

lemma sched_rep_upd:
  assumes "sched_rep s Q" "\<And>x. th_next (f x) = th_next x" "\<And>x. th_prev (f x) = th_prev x" "\<And>x. in_rq (f x) = in_rq x"
    "\<And>x. th_queue (f x) = th_queue x"
  shows "sched_rep (upd_thread t f s) Q"
  using assms(1) rq_links_upd [OF _ assms(2-4), of s Q t] assms(5)
  by (auto simp: sched_rep_def thr_upd)

lemma sched_rep_mem: "sched_rep s Q \<Longrightarrow> in_rq (thr s t) \<Longrightarrow> t \<in> set (Q (th_queue (thr s t))) \<and> th_queue (thr s t) < 3"
proof -
  assume r: "sched_rep s Q" "in_rq (thr s t)"
  then obtain x where x: "threads s t = Some x" "in_rq x" by (auto simp: thr_def zero_thread_def split: option.splits)
  then obtain q where "q < 3" "t \<in> set (Q q)" using r(1) unfolding sched_rep_def rq_links_def by blast
  then show ?thesis using r(1) by (auto simp: sched_rep_def)
qed

text \<open>Reading \<open>globals\<close> and \<open>cores\<close> apart.\<close>

lemma same_alloc: "cores s' = cores s \<Longrightarrow> threads s' t = None \<longleftrightarrow> threads s t = None"
  using cores_alloc by metis

lemma sched_rep_frame:
  assumes "sched_rep s Q" "cores s' = cores s" "globals s' = globals s" "rq_links s' Q'" "\<And>q. q < 3 \<Longrightarrow> set (Q' q) \<subseteq> set (Q q)"
  shows "sched_rep s' Q'"
proof -
  have "th_queue (thr s' t) = th_queue (thr s t)" for t by (rule core_fields(2)) (simp add: assms(2))
  moreover have "th_queue x < 3" if "threads s' t = Some x" for t x
  proof -
    have "threads s t \<noteq> None" using same_alloc [OF assms(2)] that by (metis option.distinct(1))
    then have "th_queue (thr s t) < 3" using assms(1) by (auto simp: sched_rep_def thr_def)
    moreover have "thr s' t = x" using that by (simp add: thr_def)
    ultimately show ?thesis using core_fields(2) [of s' t s] assms(2) by auto
  qed
  ultimately show ?thesis
    using assms(1,3,4,5) same_alloc [OF assms(2)] unfolding sched_rep_def globals_def by (simp add: subset_iff)
qed

lemma sched_rep_push:
  assumes "sched_rep s Q" "threads s t = Some x" "\<not> in_rq x" "q < 3"
  shows "sched_rep (rq_push q t s) (Q(q := Q q @ [t]))"
proof -
  note P = rq_push_links [OF _ assms(2-4), of Q]
  have rl: "rq_links s Q" using assms(1) by (simp add: sched_rep_def)
  let ?s = "rq_push q t s"
  have c: "cores ?s u = cores s u" if "u \<noteq> t" for u using P(2) [OF rl] that by simp
  have tq: "th_queue (thr ?s u) = (if u = t then q else th_queue (thr s u))" for u
  proof (cases "u = t")
    case True
    have "cores ?s t = Some (erase (x\<lparr>th_queue := q\<rparr>))" using P(2) [OF rl] by simp
    then obtain y where "threads ?s t = Some y" "erase y = erase (x\<lparr>th_queue := q\<rparr>)" by (auto simp: cores_def)
    then have "th_queue (erase y) = th_queue (erase (x\<lparr>th_queue := q\<rparr>))" by simp
    then have "th_queue y = q" by (simp add: erase_def)
    then show ?thesis using True \<open>threads ?s t = Some y\<close> by (simp add: thr_def)
  qed (simp add: core_fields(2) [OF c])
  have al: "threads ?s u = None \<longleftrightarrow> threads s u = None" for u
    using P(2) [OF rl] assms(2) by (cases "u = t") (auto simp: cores_alloc [symmetric])
  have lt: "th_queue y < 3" if y: "threads ?s u = Some y" for u y
  proof -
    have "thr ?s u = y" using y by (simp add: thr_def)
    then have "th_queue y = (if u = t then q else th_queue (thr s u))" using tq [of u] by simp
    moreover obtain z where "threads s u = Some z" using al [of u] y by (cases "threads s u") auto
    ultimately show ?thesis using assms(1,4) by (auto simp: sched_rep_def thr_def)
  qed
  have nt: "t \<notin> set (Q r)" if "r < 3" for r using rq_links_mem [OF rl that, of t] assms(2,3) by auto
  have "g_idle ?s = g_idle s" "g_current ?s = g_current s" using P(3) [OF rl] by (simp_all add: globals_def)
  then show ?thesis
    using P(1) [OF rl] assms(1) tq lt al nt unfolding sched_rep_def by auto
qed

lemma sched_ok_push:
  assumes "sched_ok s" "threads s t \<noteq> None" "q < 3"
  shows "sched_ok (rq_push q t s)"
proof (cases "in_rq (thr s t)")
  case True
  then show ?thesis using assms(1) by (simp add: rq_push_in)
next
  case False
  obtain Q x where "sched_rep s Q" "threads s t = Some x" using assms(1,2) by (auto simp: sched_ok_def)
  then show ?thesis using sched_rep_push [of s Q t x q] False assms(3) by (auto simp: sched_ok_def thr_def)
qed

lemma sched_ok_upd:
  assumes "sched_ok s" "\<And>x. th_next (f x) = th_next x" "\<And>x. th_prev (f x) = th_prev x" "\<And>x. in_rq (f x) = in_rq x"
    "\<And>x. th_queue (f x) = th_queue x"
  shows "sched_ok (upd_thread t f s)"
  using sched_rep_upd [OF _ assms(2-5)] assms(1) by (auto simp: sched_ok_def)

lemma sched_ok_set_state: "sched_ok s \<Longrightarrow> sched_ok (set_state st to s)"
  by (auto simp: set_state_def intro: sched_ok_upd split: option.split)

lemma sched_ok_remove: "sched_ok s \<Longrightarrow> sched_ok (snd (rq_remove (th_queue (thr s t)) (Some t) s))"
proof (cases "in_rq (thr s t)")
  case True
  assume "sched_ok s"
  then obtain Q where Q: "sched_rep s Q" by (auto simp: sched_ok_def)
  note M = sched_rep_mem [OF Q True]
  have rl: "rq_links s Q" using Q by (simp add: sched_rep_def)
  note R = rq_remove_links [OF rl _ M [THEN conjunct1]]
  show ?thesis unfolding sched_ok_def
    by (rule exI, rule sched_rep_frame [OF Q R(2,3,1)]) (use M in \<open>auto dest: subsetD [OF set_remove1_subset] split: if_splits\<close>)
qed (simp add: rq_remove_def)

section \<open>Preservation\<close>

lemma rq_push_frame: "g_current (rq_push q t s) = g_current s" "g_idle (rq_push q t s) = g_idle s"
    "threads (rq_push q t s) u = None \<longleftrightarrow> threads s u = None"
  by (auto simp: rq_push_def Let_def split: option.split)

lemma rq_remove_frame: "g_current (snd (rq_remove q to s)) = g_current s" "g_idle (snd (rq_remove q to s)) = g_idle s"
    "threads (snd (rq_remove q to s)) u = None \<longleftrightarrow> threads s u = None"
  by (auto simp: rq_remove_def Let_def split: option.split)

lemma erase_queue: "erase (x\<lparr>th_queue := q\<rparr>) = (erase x)\<lparr>th_queue := q\<rparr>"
  by (cases x) (simp add: erase_def)

lemma cores_links_upd: "(\<And>x. erase (f x) = erase x) \<Longrightarrow> cores (upd_thread t f s) = cores s"
  by (auto simp: cores_def option.map_comp o_def fun_eq_iff)

lemma rq_remove_cores: "cores (snd (rq_remove q to s)) = cores s"
proof -
  have h: "cores (s\<lparr>rq_head := a\<rparr>) = cores s" "cores (s\<lparr>rq_tail := a\<rparr>) = cores s" for a s
    by (simp_all add: cores_def fun_eq_iff)
  show ?thesis by (auto simp: rq_remove_def Let_def h cores_links_upd split: option.split)
qed

text \<open>
  Moving a thread to another queue: out of the queue it is in, if it is in one, its \<open>queue\<close> field to the
  new one before or after that, and in at the end of the new one.
\<close>

lemma sched_ok_move:
  assumes ok: "sched_ok s" and q: "q < 3"
    and s1: "s1 = upd_thread t (\<lambda>x. x\<lparr>th_queue := q\<rparr>) (snd (rq_remove (th_queue (thr s t)) (Some t) s)) \<or>
      s1 = snd (rq_remove (th_queue (thr s t)) (Some t) (upd_thread t (\<lambda>x. x\<lparr>th_queue := q\<rparr>) s))"
    and al: "threads s t \<noteq> None"
  shows "sched_ok (rq_push q t s1)"
proof -
  obtain Q where Q: "sched_rep s Q" using ok by (auto simp: sched_ok_def)
  then have rl: "rq_links s Q" by (simp add: sched_rep_def)
  obtain x where x: "threads s t = Some x" using al by blast
  let ?u = "upd_thread t (\<lambda>x. x\<lparr>th_queue := q\<rparr>)"
  let ?r = "\<lambda>s. snd (rq_remove (th_queue x) (Some t) s)"
  have thr: "thr s t = x" using x by (simp add: thr_def)
  have rlu: "rq_links (?u s) Q" by (rule rq_links_upd [OF rl]) simp_all
  define Q1 where "Q1 = (if in_rq x then Q(th_queue x := remove1 t (Q (th_queue x))) else Q)"
  have r1: "rq_links (?r s) Q1 \<and> cores (?r s) = cores s" and r2: "rq_links (?r (?u s)) Q1 \<and> cores (?r (?u s)) = cores (?u s)"
  proof -
    have "rq_links (?r s) Q1 \<and> cores (?r s) = cores s \<and> rq_links (?r (?u s)) Q1 \<and> cores (?r (?u s)) = cores (?u s)"
    proof (cases "in_rq x")
      case True
      then have m: "t \<in> set (Q (th_queue x))" "th_queue x < 3" using sched_rep_mem [OF Q] thr by auto
      show ?thesis
        using rq_remove_links(1,2) [OF rl m(2,1)] rq_remove_links(1,2) [OF rlu m(2,1)] True by (simp add: Q1_def)
    next
      case False
      then show ?thesis using rl rlu x by (simp add: Q1_def rq_remove_def thr thr_upd)
    qed
    then show "rq_links (?r s) Q1 \<and> cores (?r s) = cores s" "rq_links (?r (?u s)) Q1 \<and> cores (?r (?u s)) = cores (?u s)" by auto
  qed
  have cu: "cores (?u s') v = (if v = t then map_option (\<lambda>y. y\<lparr>th_queue := q\<rparr>) (cores s' t) else cores s' v)" for s' v
    by (simp add: cores_def option.map_comp o_def erase_queue)
  have rl1: "rq_links s1 Q1" using s1 r1 r2 rq_links_upd [of "?r s" Q1 "\<lambda>x. x\<lparr>th_queue := q\<rparr>" t] thr by auto
  have c1: "cores s1 v = (if v = t then map_option (\<lambda>y. y\<lparr>th_queue := q\<rparr>) (cores s t) else cores s v)" for v
  proof -
    have "cores s1 = cores (?u (?r s)) \<or> cores s1 = cores (?u s)" using s1 r2 thr by auto
    then show ?thesis using cu [of "?r s"] cu [of s] r1 by auto
  qed
  have nt: "t \<notin> set (Q1 q')" if "q' < 3" for q'
  proof (cases "in_rq x")
    case True
    then have m: "t \<in> set (Q (th_queue x))" "th_queue x < 3" using sched_rep_mem [OF Q] thr by auto
    then show ?thesis
      using rl True that unfolding rq_links_def Q1_def by (cases "q' = th_queue x") auto
  next
    case False
    then show ?thesis using rq_links_mem [OF rl that, of t] x by (auto simp: Q1_def)
  qed
  have sub: "set (Q1 q') \<subseteq> set (Q q')" for q' using set_remove1_subset [of t "Q q'"] by (auto simp: Q1_def)
  have al1: "threads s1 v = None \<longleftrightarrow> threads s v = None" for v
    using c1 [of v] by (auto simp: cores_alloc [symmetric])
  have q1: "th_queue (thr s1 v) = (if v = t then q else th_queue (thr s v))" for v
  proof (cases "v = t")
    case True
    obtain y where y: "threads s1 t = Some y" using al1 [of t] x by (cases "threads s1 t") auto
    then have "erase y = (erase x)\<lparr>th_queue := q\<rparr>" using c1 [of t] x by (simp add: cores_def)
    then have "th_queue (erase y) = q" by simp
    then show ?thesis using y True by (simp add: thr_def erase_def)
  next
    case False
    then show ?thesis using core_fields(2) [of s1 v s] c1 [of v] by simp
  qed
  have rep1: "sched_rep s1 Q1"
    unfolding sched_rep_def
  proof (intro conjI allI impI ballI)
    show "rq_links s1 Q1" by (rule rl1)
    show "th_queue (thr s1 v) = q'" if "q' < 3" "v \<in> set (Q1 q')" for q' v
      using that nt [OF that(1)] sub Q unfolding q1 sched_rep_def by auto
    show "th_queue y < 3" if y: "threads s1 v = Some y" for v y
    proof -
      obtain z where z: "threads s v = Some z" using al1 [of v] y by (cases "threads s v") auto
      then have "th_queue (thr s v) < 3" using Q by (simp add: sched_rep_def thr_def)
      moreover have "th_queue y = th_queue (thr s1 v)" using y by (simp add: thr_def)
      ultimately show ?thesis using q1 [of v] q by (auto split: if_splits)
    qed
    show "threads s1 c \<noteq> None" if "g_current s1 = Some c" for c
      using that s1 Q al1 [of c] by (auto simp: rq_remove_frame sched_rep_def)
    show "g_idle s1 = None" using s1 Q by (auto simp: rq_remove_frame sched_rep_def)
  qed
  then show ?thesis
    using sched_ok_push [of s1 t q] al1 [of t] al q by (auto simp: sched_ok_def)
qed

lemma prio_to_queue_lt [simp]: "prio_to_queue p < 3"
  by (simp add: prio_to_queue_def kernel_defs)

lemma sched_ok_tick_quota:
  assumes "sched_ok s" "threads s c \<noteq> None"
  shows "sched_ok (tick_quota quota c s)"
proof -
  obtain x where x: "threads s c = Some x" using assms(2) by blast
  have thr: "thr s c = x" using x by (simp add: thr_def)
  have demote: "sched_ok (rq_push 0 c (upd_thread c (\<lambda>x. x\<lparr>th_queue := 0\<rparr>) (snd (rq_remove (th_queue x) (Some c) s))))"
    by (rule sched_ok_move [OF assms(1)]) (use thr assms(2) in auto)
  have restore: "sched_ok (rq_push (prio_to_queue (th_priority x)) c
      (snd (rq_remove (th_queue x) (Some c) (upd_thread c (\<lambda>x. x\<lparr>th_queue := prio_to_queue (th_priority x)\<rparr>) s))))"
  proof -
    have "upd_thread c (\<lambda>x. x\<lparr>th_queue := prio_to_queue (th_priority x)\<rparr>) s = upd_thread c (\<lambda>y. y\<lparr>th_queue := prio_to_queue (th_priority x)\<rparr>) s"
      using x by (simp add: upd_thread_def)
    then show ?thesis using sched_ok_move [OF assms(1) prio_to_queue_lt [of "th_priority x"] disjI2 [OF refl] assms(2)] thr by simp
  qed
  have qq: "th_queue (thr (snd (rq_remove 0 (Some c) (upd_thread c (\<lambda>x. x\<lparr>th_queue := prio_to_queue (th_priority x)\<rparr>) s))) c)
      = prio_to_queue (th_priority x)"
    using core_fields(2) [OF fun_cong [OF rq_remove_cores]] x by (simp add: thr_upd thr)
  show ?thesis
    using assms(1) demote restore qq
    by (auto simp: tick_quota_def Let_def thr SCHED_Q_LOW_def split: option.split)
qed

text \<open>\<open>schedule\<close> ends, and keeps the invariant. What it chooses, on the lists.\<close>

definition requeue :: "sched_state \<Rightarrow> sched_state" where
  "requeue s =
     (case g_current s of
        None \<Rightarrow> s
      | Some c \<Rightarrow>
          if th_state (thr s c) = THREAD_STATE_RUNNING then
            rq_push (th_queue (thr s c)) c
              (upd_thread c (\<lambda>x. x\<lparr>th_state := THREAD_STATE_READY, slice_remaining := queue_slice (th_queue (thr s c))\<rparr>) s)
          else s)"

lemma schedule_cases:
  assumes "g_idle s = None"
  shows "schedule s =
    (if (\<exists>c. g_current s = Some c \<and> th_state (thr s c) = THREAD_STATE_RUNNING \<and> keeps_cpu c s) then Some (s, None)
     else case pick_next [2, 1, 0] (requeue s) of
         None \<Rightarrow> None
       | Some (next, s') \<Rightarrow>
           let next = (case next of None \<Rightarrow> g_idle s' | Some t \<Rightarrow> Some t)
           in if g_current s = next then Some (set_state THREAD_STATE_RUNNING next s', None)
              else Some (set_state THREAD_STATE_RUNNING next (s'\<lparr>g_current := next\<rparr>), Some (g_current s, next)))"
  using assms unfolding schedule_def requeue_def Let_def by (cases "g_current s") simp_all

lemma sched_ok_requeue: "sched_ok s \<Longrightarrow> sched_ok (requeue s)"
proof (cases "g_current s")
  case (Some c)
  assume ok: "sched_ok s"
  then have a: "threads s c \<noteq> None" "th_queue (thr s c) < 3"
    using Some by (auto simp: sched_ok_def sched_rep_def thr_def split: option.splits)
  show ?thesis
    using Some ok a sched_ok_push [OF sched_ok_upd [OF ok]] by (auto simp: requeue_def)
qed (simp add: requeue_def)

lemma requeue_frame: "g_current (requeue s) = g_current s" "g_idle (requeue s) = g_idle s"
  by (simp_all add: requeue_def rq_push_frame split: option.split)

lemma select_next_Nil: "dropWhile d (Q q) = [] \<Longrightarrow> select_next d (q # qs) Q = select_next d qs (Q(q := []))"
  by (simp only: select_next.simps list.case)

lemma select_next_Cons: "dropWhile d (Q q) = t # ts \<Longrightarrow> select_next d (q # qs) Q = (Some t, Q(q := ts))"
  by (simp only: select_next.simps list.case)

lemma dropWhile_Cons_mem: "dropWhile d xs = t # ts \<Longrightarrow> t \<in> set xs \<and> \<not> d t \<and> set ts \<subseteq> set xs"
  using set_dropWhileD [of _ d xs] hd_dropWhile [of d xs] by (metis list.distinct(1) list.sel(1) list.set_intros subsetI)

lemma select_next_sub:
  "set (snd (select_next d qs Q) q) \<subseteq> set (Q q) \<and>
   (\<forall>t. fst (select_next d qs Q) = Some t \<longrightarrow> (\<exists>q \<in> set qs. t \<in> set (Q q) \<and> \<not> d t))"
proof (induction qs arbitrary: Q)
  case (Cons q0 qs)
  show ?case
  proof (cases "dropWhile d (Q q0)")
    case Nil
    define Q0 where "Q0 = Q(q0 := [])"
    have IH: "set (snd (select_next d qs Q0) q) \<subseteq> set (Q0 q)"
      "\<forall>t. fst (select_next d qs Q0) = Some t \<longrightarrow> (\<exists>q \<in> set qs. t \<in> set (Q0 q) \<and> \<not> d t)"
      using Cons.IH by blast+
    have sub: "set (Q0 r) \<subseteq> set (Q r)" for r by (simp add: Q0_def)
    show ?thesis
      unfolding select_next_Nil [of d Q q0, OF Nil] Q0_def [symmetric] using IH sub by fastforce
  next
    case c: (Cons t ts)
    from dropWhile_Cons_mem [OF c] show ?thesis unfolding select_next_Cons [of d Q q0, OF c] by auto
  qed
qed simp

lemma schedule_ok:
  assumes "sched_ok s"
  shows "\<exists>s' sw. schedule s = Some (s', sw) \<and> sched_ok s'"
proof -
  have idle: "g_idle s = None" using assms by (auto simp: sched_ok_def sched_rep_def)
  obtain Q where Q: "sched_rep (requeue s) Q" using sched_ok_requeue [OF assms] by (auto simp: sched_ok_def)
  then have rl: "rq_links (requeue s) Q" by (simp add: sched_rep_def)
  obtain n Q' where sel: "select_next (is_dead (requeue s)) [2, 1, 0] Q = (n, Q')" by fastforce
  obtain s' where s': "pick_next [2, 1, 0] (requeue s) = Some (n, s')" "rq_links s' Q'"
    "cores s' = cores (requeue s)" "globals s' = globals (requeue s)"
    using pick_next_links [OF rl, of "[2, 1, 0]", unfolded sel fst_conv snd_conv] by auto
  note sub = select_next_sub [of "is_dead (requeue s)" "[2, 1, 0]" Q, unfolded sel fst_conv snd_conv]
  have rep: "sched_rep s' Q'"
    by (rule sched_rep_frame [OF Q s'(3,4,2)]) (rule sub [THEN conjunct1])
  have idle': "g_idle s' = None" using rep by (simp add: sched_rep_def)
  have cur: "sched_ok (s'\<lparr>g_current := n\<rparr>)"
  proof -
    have "threads s' t \<noteq> None" if n: "n = Some t" for t
    proof -
      obtain q where "q \<in> {2, 1, 0}" "t \<in> set (Q q)"
        using sub n by auto
      then have "threads (requeue s) t \<noteq> None" using rq_links_mem [OF rl, of q t] by auto
      then show ?thesis using same_alloc [OF s'(3), of t] by simp
    qed
    then have "sched_rep (s'\<lparr>g_current := n\<rparr>) Q'"
      using rep by (auto simp: sched_rep_def rq_links_def thr_def)
    then show ?thesis by (auto simp: sched_ok_def)
  qed
  have r: "sched_ok s'" using rep by (auto simp: sched_ok_def)
  show ?thesis
    unfolding schedule_cases [OF idle] s'(1) using assms cur r idle'
    by (cases n) (auto simp: Let_def intro: sched_ok_set_state)
qed

section \<open>Every operation, in any order\<close>

lemma sched_ok_current: "sched_ok s \<Longrightarrow> g_current s = Some c \<Longrightarrow> threads s c \<noteq> None"
  by (auto simp: sched_ok_def sched_rep_def)

lemma sched_ok_queue: "sched_ok s \<Longrightarrow> th_queue (thr s t) < 3"
  by (auto simp: sched_ok_def sched_rep_def thr_def zero_thread_def split: option.split)

lemma sched_ok_tick:
  assumes "sched_ok s"
  shows "sched_ok (fst (sched_tick_account tasks s))"
proof (cases "g_current s")
  case (Some c)
  let ?s = "upd_thread c (\<lambda>x. x\<lparr>slice_remaining := (if slice_remaining x > 0 then slice_remaining x - 1 else 0),
      total_ticks := total_ticks x + 1\<rparr>) s"
  have "sched_ok ?s" by (rule sched_ok_upd [OF assms]) simp_all
  moreover have "threads ?s c \<noteq> None" using sched_ok_current [OF assms Some] by simp
  ultimately have "sched_ok (tick_quota k c ?s)" for k by (rule sched_ok_tick_quota)
  then show ?thesis using Some assms by (auto simp: sched_tick_account_def Let_def)
qed (simp add: sched_tick_account_def assms)

lemma sched_ok_enqueue:
  assumes "sched_ok s" "threads s t \<noteq> None"
  shows "sched_ok (sched_enqueue_thread (Some t) s)"
proof -
  let ?s = "upd_thread t (\<lambda>x. x\<lparr>th_state := THREAD_STATE_READY, slice_remaining := queue_slice (th_queue (thr s t))\<rparr>) s"
  have "sched_ok ?s" by (rule sched_ok_upd [OF assms(1)]) simp_all
  then have "sched_ok (rq_push (th_queue (thr s t)) t ?s)"
    by (rule sched_ok_push) (use assms sched_ok_queue in auto)
  then show ?thesis using assms(1) by (simp add: sched_enqueue_thread_def Let_def)
qed

lemma sched_ok_init:
  assumes "threads s = (\<lambda>_. None)" "\<not> g_bootstrap_used s"
  shows "sched_ok (sched_init s)"
  unfolding sched_ok_def sched_rep_def rq_links_def
  by (rule exI [of _ "\<lambda>_. []"]) (use assms in \<open>auto simp: sched_init_def kernel_defs zero_thread_def\<close>)

text \<open>The threads of a kernel state come from its past allocations.\<close>

fun kernel_ok :: "kheap \<times> pmm_state \<times> sched_state \<Rightarrow> bool" where
  "kernel_ok (h, p, s) \<longleftrightarrow> sched_ok s \<and> (\<forall>t. threads s t \<noteq> None \<longrightarrow> t < h_calls h)"

lemma sched_ok_new:
  assumes "sched_ok s" "threads s t = None" "\<not> in_rq x" "th_queue x < 3"
  shows "sched_ok (s\<lparr>threads := (threads s)(t \<mapsto> x), g_next_tid := n, g_all := a\<rparr>)"
proof -
  obtain Q where Q: "sched_rep s Q" using assms(1) by (auto simp: sched_ok_def)
  have nt: "t \<notin> set (Q q)" if "q < 3" for q
    using Q that assms(2) rq_links_mem [of s Q q t] by (auto simp: sched_rep_def)
  let ?s = "s\<lparr>threads := (threads s)(t \<mapsto> x), g_next_tid := n, g_all := a\<rparr>"
  have "lseg (threads ?s) (rq_head s q) None (Q q) None (rq_tail s q)" if "q < 3" for q
    using Q nt [OF that] that lseg_cong [of "Q q" "threads ?s" "threads s"]
    by (auto simp: sched_rep_def rq_links_def links_def)
  moreover have "(\<exists>y. threads ?s u = Some y \<and> in_rq y) \<longleftrightarrow> (\<exists>y. threads s u = Some y \<and> in_rq y)" for u
    using assms(2,3) by auto
  ultimately have "rq_links ?s Q" using Q unfolding sched_rep_def rq_links_def by simp
  then have "sched_rep ?s Q"
    using Q assms(2,4) nt unfolding sched_rep_def by (auto simp: thr_def)
  then show ?thesis by (auto simp: sched_ok_def)
qed

lemma kernel_ok_create:
  assumes "kernel_ok (h, p, s)" "thread_create name e prio (h, p, s) = (r, k')"
  shows "kernel_ok k'"
proof -
  have h: "kzalloc_obj h = (if h_outcome h (h_calls h) then Some (h_calls h) else None, h\<lparr>h_calls := Suc (h_calls h)\<rparr>)"
    by (simp add: kzalloc_obj_def)
  have nw: "threads s (h_calls h) = None" using assms(1) by (auto simp: not_less_iff_gr_or_eq)
  have mono: "threads s t \<noteq> None \<longrightarrow> t < Suc (h_calls h)" for t using assms(1) by (auto intro: less_SucI)
  let ?t = "h_calls h"
  let ?q = "prio_to_queue (if prio < 0 then 0 else if prio > 9 then 9 else prio)"
  have "kernel_ok (h\<lparr>h_calls := Suc ?t\<rparr>, p', rq_push ?q ?t (s\<lparr>threads := (threads s)(?t \<mapsto> x), g_next_tid := n, g_all := a\<rparr>))"
    if "\<not> in_rq x" "th_queue x < 3" for x n a p'
  proof -
    have ok: "sched_ok (s\<lparr>threads := (threads s)(?t \<mapsto> x), g_next_tid := n, g_all := a\<rparr>)"
      using sched_ok_new [where s = s and t = ?t and x = x and n = n and a = a] assms(1) nw that by simp
    show ?thesis using sched_ok_push [OF ok, of ?t ?q] mono by (auto simp: rq_push_frame less_Suc_eq)
  qed
  note push = this
  have z: "\<not> in_rq zero_thread" by (simp add: zero_thread_def)
  consider "k' = (h, p, s)" | p' where "k' = (h\<lparr>h_calls := Suc ?t\<rparr>, p', s)"
    | x n a p' where "k' = (h\<lparr>h_calls := Suc ?t\<rparr>, p', rq_push ?q ?t (s\<lparr>threads := (threads s)(?t \<mapsto> x), g_next_tid := n, g_all := a\<rparr>))"
      "\<not> in_rq x" "th_queue x < 3"
    using assms(2) z by (auto simp: thread_create_def h Let_def split: if_splits option.splits prod.splits)
  then show ?thesis using assms(1) mono push by cases auto
qed

text \<open>
  The operations the rest of the kernel calls, and the assignment \<open>state = THREAD_STATE_BLOCKED\<close> that
  \<open>futex_wait\<close> and \<open>task_join\<close> make before they call \<open>schedule\<close>.
\<close>

inductive sched_step :: "kheap \<times> pmm_state \<times> sched_state \<Rightarrow> kheap \<times> pmm_state \<times> sched_state \<Rightarrow> bool" where
  create: "thread_create name e prio k = (r, k') \<Longrightarrow> sched_step k k'"
| resched: "schedule s = Some (s', sw) \<Longrightarrow> sched_step (h, p, s) (h, p, s')"
| yield: "thread_yield s = Some (s', sw) \<Longrightarrow> sched_step (h, p, s) (h, p, s')"
| exit: "thread_exit s = Some (s', sw) \<Longrightarrow> sched_step (h, p, s) (h, p, s')"
| tick: "sched_tick_account tasks s = (s', need) \<Longrightarrow> sched_step (h, p, s) (h, p, s')"
| block: "g_current s = Some c \<Longrightarrow> sched_step (h, p, s) (h, p, set_state THREAD_STATE_BLOCKED (Some c) s)"
| wake: "threads s t \<noteq> None \<Longrightarrow> sched_step (h, p, s) (h, p, sched_enqueue_thread (Some t) s)"
| kill: "sched_remove_from_queue (Some t) s = (rc, s') \<Longrightarrow> sched_step (h, p, s) (h, p, s')"

lemma schedule_same_alloc:
  assumes "sched_ok s" "schedule s = Some (s', sw)"
  shows "threads s' t = None \<longleftrightarrow> threads s t = None"
proof -
  have idle: "g_idle s = None" using assms(1) by (auto simp: sched_ok_def sched_rep_def)
  obtain Q where Q: "sched_rep (requeue s) Q" using sched_ok_requeue [OF assms(1)] by (auto simp: sched_ok_def)
  then have rl: "rq_links (requeue s) Q" by (simp add: sched_rep_def)
  obtain n s1 where s1: "pick_next [2, 1, 0] (requeue s) = Some (n, s1)" "cores s1 = cores (requeue s)"
    using pick_next_links [OF rl, of "[2, 1, 0]"] by auto
  have "threads (requeue s) t = None \<longleftrightarrow> threads s t = None"
    by (auto simp: requeue_def rq_push_frame split: option.split)
  then have "threads s1 t = None \<longleftrightarrow> threads s t = None" using same_alloc [OF s1(2), of t] by simp
  then show ?thesis
    using assms(2) unfolding schedule_cases [OF idle] s1(1)
    by (auto simp: Let_def set_state_def split: if_splits option.splits)
qed

lemma kernel_ok_step: "sched_step k k' \<Longrightarrow> kernel_ok k \<Longrightarrow> kernel_ok k'"
proof (induction rule: sched_step.induct)
  case (create name e prio k r k')
  then show ?case by (cases k) (auto intro: kernel_ok_create)
next
  case (resched s s' sw h p)
  then show ?case using schedule_ok [of s] schedule_same_alloc [of s s' sw] by auto
next
  case (yield s s' sw h p)
  let ?s = "case g_current s of None \<Rightarrow> s | Some c \<Rightarrow> upd_thread c (\<lambda>x. x\<lparr>slice_remaining := 0\<rparr>) s"
  have "sched_ok ?s" using yield(2) by (auto intro: sched_ok_upd split: option.split)
  moreover have "threads ?s t = None \<longleftrightarrow> threads s t = None" for t by (auto split: option.split)
  ultimately show ?case
    using yield schedule_ok [of ?s] schedule_same_alloc [of ?s s' sw] by (auto simp: thread_yield_def)
next
  case (exit s s' sw h p)
  let ?s = "if g_current s \<noteq> None \<and> g_current s \<noteq> g_idle s then set_state THREAD_STATE_DEAD (g_current s) s else s"
  have "sched_ok ?s" using exit(2) by (auto intro: sched_ok_set_state)
  moreover have "threads ?s t = None \<longleftrightarrow> threads s t = None" for t by (auto simp: set_state_def split: option.split)
  ultimately show ?case
    using exit schedule_ok [of ?s] schedule_same_alloc [of ?s s' sw] by (auto simp: thread_exit_def)
next
  case (tick tasks s s' need h p)
  have "threads s' t = None \<longleftrightarrow> threads s t = None" for t
    using tick(1) by (auto simp: sched_tick_account_def tick_quota_def Let_def rq_push_frame rq_remove_frame
        split: option.splits if_splits)
  then show ?case using tick sched_ok_tick [of s tasks] by auto
next
  case (block s c h p)
  have "threads (set_state THREAD_STATE_BLOCKED (Some c) s) t = None \<longleftrightarrow> threads s t = None" for t
    by (simp add: set_state_def)
  then show ?case using block sched_ok_set_state by simp
next
  case (wake s t h p)
  have "threads (sched_enqueue_thread (Some t) s) u = None \<longleftrightarrow> threads s u = None" for u
    by (simp add: sched_enqueue_thread_def Let_def rq_push_frame)
  then show ?case using wake sched_ok_enqueue by simp
next
  case (kill t s rc s' h p)
  have "threads s' u = None \<longleftrightarrow> threads s u = None" for u
    using kill(1) by (auto simp: sched_remove_from_queue_def set_state_def rq_remove_frame split: if_splits)
  then show ?case
    using kill by (auto simp: sched_remove_from_queue_def intro: sched_ok_set_state sched_ok_remove)
qed

lemma kernel_ok_run: "sched_step\<^sup>*\<^sup>* k k' \<Longrightarrow> kernel_ok k \<Longrightarrow> kernel_ok k'"
  by (induction rule: rtranclp_induct) (auto intro: kernel_ok_step)

lemma create_step: "sched_step k (snd (thread_create name e prio k))"
  by (rule sched_step.create [where r = "fst (thread_create name e prio k)"]) simp

lemma rq_push_state: "th_state (thr (rq_push q t s) u) = th_state (thr s u)"
proof (cases "in_rq (thr s t)")
  case False
  have h: "cores (s\<lparr>rq_head := a\<rparr>) = cores s" "cores (s\<lparr>rq_tail := a\<rparr>) = cores s" for a s
    by (simp_all add: cores_def fun_eq_iff)
  let ?s = "upd_thread t (\<lambda>x. x\<lparr>th_next := None, th_prev := rq_tail s q, th_queue := q, in_rq := True\<rparr>) s"
  have "cores (rq_push q t s) = cores ?s"
    using False by (auto simp: rq_push_def Let_def h cores_links_upd split: option.split)
  then have "th_state (thr (rq_push q t s) u) = th_state (thr ?s u)" by (intro core_fields(1)) simp
  then show ?thesis by (simp add: thr_upd)
qed (simp add: rq_push_in)

lemma dropWhile_split: "dropWhile d xs = t # ts \<Longrightarrow> \<exists>ds. xs = ds @ t # ts \<and> (\<forall>u \<in> set ds. d u) \<and> \<not> d t"
  using takeWhile_dropWhile_id [of d xs] set_takeWhileD [of _ d xs] hd_dropWhile [of d xs] by (metis list.distinct(1) list.sel(1))

lemma dropWhile_all: "dropWhile d xs = [] \<Longrightarrow> u \<in> set xs \<Longrightarrow> d u"
  by (simp add: dropWhile_eq_Nil_conv)

text \<open>The thread that \<open>select_next\<close> takes from the three queues.\<close>

lemma select_next_first:
  assumes "fst (select_next d [2, 1, 0] Q) = Some t"
  shows "\<exists>q < 3. (\<exists>ds ts. Q q = ds @ t # ts \<and> (\<forall>u \<in> set ds. d u)) \<and> \<not> d t \<and> (\<forall>r < 3. q < r \<longrightarrow> (\<forall>u \<in> set (Q r). d u))"
proof -
  have pick: "\<exists>ds. Q q = ds @ t # ts \<and> (\<forall>u \<in> set ds. d u) \<and> \<not> d t" if "dropWhile d (Q q) = t # ts" for q ts
    by (rule dropWhile_split [OF that])
  have lt: "r < 3 \<longleftrightarrow> r = 0 \<or> r = 1 \<or> r = 2" for r :: nat by auto
  consider ts where "dropWhile d (Q 2) = t # ts"
    | ts where "dropWhile d (Q 2) = []" "dropWhile d (Q 1) = t # ts"
    | ts where "dropWhile d (Q 2) = []" "dropWhile d (Q 1) = []" "dropWhile d (Q 0) = t # ts"
    using assms
    by (cases "dropWhile d (Q 2)"; cases "dropWhile d (Q 1)"; cases "dropWhile d (Q 0)")
      (auto simp del: dropWhile_eq_Nil_conv)
  then show ?thesis
  proof cases
    case 1
    then show ?thesis using pick [OF 1] by (intro exI [of _ 2]) auto
  next
    case 2
    then show ?thesis using pick [OF 2(2)] dropWhile_all [OF 2(1)] by (intro exI [of _ 1]) (auto simp: lt)
  next
    case 3
    then show ?thesis using pick [OF 3(3)] dropWhile_all [OF 3(1)] dropWhile_all [OF 3(2)] by (intro exI [of _ 0]) (auto simp: lt)
  qed
qed

section \<open>Properties\<close>

text \<open>
  C12. Whatever the order of thread creations, ticks, quota changes, blocks, wake-ups, exits and kills
  since \<open>sched_init\<close>: the three run queues are well-formed doubly linked lists, no thread is in two
  places, \<open>in_rq\<close> says exactly which threads are queued, each thread is in the queue its \<open>queue\<close> field
  names, and \<open>schedule\<close> ends.
\<close>

theorem sched_invariant:
  assumes "sched_step\<^sup>*\<^sup>* (h, p, sched_init s0) (h', p', s)"
    and "threads s0 = (\<lambda>_. None)" "\<not> g_bootstrap_used s0" "0 < h_calls h"
  shows "sched_ok s \<and> (\<exists>s' sw. schedule s = Some (s', sw) \<and> sched_ok s')"
proof -
  have "kernel_ok (h, p, sched_init s0)"
    using sched_ok_init [OF assms(2,3)] assms(2-4)
    by (auto simp: sched_init_def g_bootstrap_def split: if_splits)
  then have "kernel_ok (h', p', s)" using kernel_ok_run [OF assms(1)] by blast
  then show ?thesis using schedule_ok by simp
qed

definition wit_sched0 :: sched_state where
  "wit_sched0 =
     \<lparr>threads = (\<lambda>_. None), rq_head = (\<lambda>_. None), rq_tail = (\<lambda>_. None), g_current = None, g_idle = None,
      g_all = None, g_next_tid = 0, g_bootstrap_used = False\<rparr>"

definition wit_heap :: kheap where
  "wit_heap = \<lparr>h_outcome = (\<lambda>_. True), h_calls = 1, h_garbage = (\<lambda>_ _. 0)\<rparr>"

definition wit_frames :: pmm_state where
  "wit_frames =
     \<lparr>mem_map = (\<lambda>f. fresh_page\<lparr>pg_flags := PG_FREE\<rparr>), free_lists = (\<lambda>k. if k = 2 then [4, 8, 12] else []),
      total_pages = 12, free_count = 12, g_total_pages_snapshot = 12, g_pmm_corruption_logged = False,
      g_reserved_free_rejected = 0, pmm_oom_marks = 0\<rparr>"


text \<open>One thread, of priority 5, is created while the bootstrap thread runs.\<close>

definition wit_kernel :: "kheap \<times> pmm_state \<times> sched_state" where
  "wit_kernel = snd (thread_create (Some ''A'') True 5 (wit_heap, wit_frames, sched_init wit_sched0))"

lemma wit_frames_alloc: "\<exists>p. pmm_alloc_pages 2 wit_frames = (Some 4, p)"
proof -
  have "find_order (free_lists wit_frames) 2 = 2"
    by (subst find_order.simps) (simp add: wit_frames_def MAX_ORDER_def)
  then show ?thesis
    by (simp add: pmm_alloc_pages_def pmm_take_def free_list_pop_def Let_def wit_frames_def MAX_ORDER_def MAX_PAGES_def
        PG_FREE_def)
qed

lemma wit_kernel_queue: "rq_head (snd (snd wit_kernel)) 1 = Some 1"
proof -
  have order: "size_to_order THREAD_KSTACK_SIZE = 2" by code_simp
  obtain p where "pmm_alloc_pages 2 wit_frames = (Some 4, p)" using wit_frames_alloc by blast
  then show ?thesis
    by (simp add: wit_kernel_def thread_create_def order kzalloc_obj_def wit_heap_def MAX_ORDER_def prio_to_queue_def
        wit_sched0_def sched_init_def Let_def rq_push_def thr_def upd_thread_def zero_thread_def g_bootstrap_def SCHED_Q_MID_def)
qed

lemma sched_invariant_witness: "sched_ok (snd (snd wit_kernel)) \<and> rq_head (snd (snd wit_kernel)) 1 = Some 1"
proof -
  let ?k0 = "(wit_heap, wit_frames, sched_init wit_sched0)"
  obtain h p s where k: "wit_kernel = (h, p, s)" by (metis surj_pair)
  have "sched_step ?k0 wit_kernel" unfolding wit_kernel_def by (rule create_step)
  then have "sched_step\<^sup>*\<^sup>* ?k0 wit_kernel" by (rule r_into_rtranclp)
  then have "sched_ok s"
    using sched_invariant [of wit_heap wit_frames wit_sched0 h p s] k by (simp add: wit_sched0_def wit_heap_def)
  then show ?thesis using wit_kernel_queue by (simp add: k)
qed

text \<open>
  C13. Strict priority: when \<open>schedule\<close> switches, it goes to the first live thread of the highest queue that has
  one (a running thread that gives up the CPU is first put at the end of its own queue), that thread
  is \<open>RUNNING\<close> and the current one afterwards.
\<close>

theorem schedule_strict_priority:
  assumes "sched_rep s Q" "g_current s = Some c" "\<not> in_rq (thr s c)"
    and "schedule s = Some (s', Some (Some c, Some t))"
  defines "Q0 \<equiv> (if th_state (thr s c) = THREAD_STATE_RUNNING then Q(th_queue (thr s c) := Q (th_queue (thr s c)) @ [c]) else Q)"
  shows "g_current s' = Some t \<and> th_state (thr s' t) = THREAD_STATE_RUNNING \<and> th_state (thr s t) \<noteq> THREAD_STATE_DEAD \<and>
    (\<exists>q < 3. (\<exists>ds ts. Q0 q = ds @ t # ts \<and> (\<forall>d \<in> set ds. th_state (thr s d) = THREAD_STATE_DEAD)) \<and>
       (\<forall>r < 3. q < r \<longrightarrow> (\<forall>d \<in> set (Q0 r). th_state (thr s d) = THREAD_STATE_DEAD)))"
proof -
  have ok: "sched_ok s" using assms(1) by (auto simp: sched_ok_def)
  have idle: "g_idle s = None" using assms(1) by (simp add: sched_rep_def)
  obtain x where x: "threads s c = Some x" using sched_ok_current [OF ok assms(2)] by blast
  have thr: "thr s c = x" using x by (simp add: thr_def)
  have rl: "rq_links (requeue s) Q0"
  proof (cases "th_state x = THREAD_STATE_RUNNING")
    case True
    let ?s = "upd_thread c (\<lambda>y. y\<lparr>th_state := THREAD_STATE_READY, slice_remaining := queue_slice (th_queue x)\<rparr>) s"
    have "rq_links ?s Q" by (rule rq_links_upd) (use assms(1) in \<open>simp_all add: sched_rep_def\<close>)
    moreover have "idle_thread ?s c" using x assms(3) by (simp add: idle_thread_def thr)
    moreover have "th_queue x < 3" using sched_ok_queue [OF ok, of c] thr by simp
    ultimately have "rq_links (rq_push (th_queue x) c ?s) (Q(th_queue x := Q (th_queue x) @ [c]))" by (rule rq.push_law)
    then show ?thesis using True assms(2) by (simp add: requeue_def thr Q0_def)
  next
    case False
    then show ?thesis using assms(1,2) by (simp add: requeue_def thr Q0_def sched_rep_def)
  qed
  have dead: "is_dead (requeue s) d \<longleftrightarrow> is_dead s d" for d
  proof (cases "d = c \<and> th_state x = THREAD_STATE_RUNNING")
    case True
    have "th_state (thr (requeue s) c) = THREAD_STATE_READY"
    proof -
      let ?s = "upd_thread c (\<lambda>y. y\<lparr>th_state := THREAD_STATE_READY, slice_remaining := queue_slice (th_queue x)\<rparr>) s"
      have "th_state (thr (rq_push q c ?s) c) = th_state (thr ?s c)" for q by (rule rq_push_state)
      then show ?thesis using True assms(2) x by (simp add: requeue_def thr thr_upd)
    qed
    then show ?thesis using True thr by simp
  next
    case False
    then have "th_state (thr (requeue s) d) = th_state (thr s d)"
      using assms(2) by (auto simp: requeue_def thr rq_push_state thr_upd)
    then show ?thesis by simp
  qed
  have dd: "is_dead (requeue s) = is_dead s" using dead by blast
  obtain n Q' where sel: "select_next (is_dead s) [2, 1, 0] Q0 = (n, Q')" by fastforce
  obtain s1 where s1: "pick_next [2, 1, 0] (requeue s) = Some (n, s1)" "cores s1 = cores (requeue s)" "globals s1 = globals (requeue s)"
    using pick_next_links [OF rl, of "[2, 1, 0]", unfolded dd sel fst_conv snd_conv] by auto
  have "g_idle s1 = None" using s1(3) idle by (simp add: globals_def requeue_frame)
  then have nt: "n = Some t" "s' = set_state THREAD_STATE_RUNNING (Some t) (s1\<lparr>g_current := Some t\<rparr>)"
    using assms(4) unfolding schedule_cases [OF idle] s1(1) by (auto simp: Let_def split: if_splits option.splits)
  from select_next_first [of "is_dead s" Q0 t] sel nt(1)
  have first: "\<exists>q < 3. (\<exists>ds ts. Q0 q = ds @ t # ts \<and> (\<forall>d \<in> set ds. is_dead s d)) \<and> \<not> is_dead s t \<and>
      (\<forall>r < 3. q < r \<longrightarrow> (\<forall>d \<in> set (Q0 r). is_dead s d))" by simp
  then obtain q where "q < 3" "t \<in> set (Q0 q)" by auto
  then have "threads (requeue s) t \<noteq> None" using rq_links_mem [OF rl] by blast
  then have "threads s1 t \<noteq> None" using same_alloc [OF s1(2), of t] by simp
  then have "th_state (thr s' t) = THREAD_STATE_RUNNING" by (auto simp: nt(2) set_state_def thr_def)
  then show ?thesis using first by (auto simp: nt(2) set_state_def)
qed

text \<open>A running thread at the end of its slice and, in the queue above, a dead and a ready one.\<close>

definition wit_thread :: thread where
  "wit_thread = zero_thread\<lparr>th_state := THREAD_STATE_READY, th_queue := SCHED_Q_HIGH, in_rq := True\<rparr>"

definition wit_run :: sched_state where
  "wit_run = wit_sched0\<lparr>
     threads := [0 \<mapsto> zero_thread\<lparr>th_state := THREAD_STATE_RUNNING, th_queue := SCHED_Q_MID\<rparr>,
                 1 \<mapsto> wit_thread\<lparr>th_state := THREAD_STATE_DEAD, th_next := Some 2\<rparr>,
                 2 \<mapsto> wit_thread\<lparr>th_prev := Some 1\<rparr>],
     rq_head := (\<lambda>q. if q = 2 then Some 1 else None), rq_tail := (\<lambda>q. if q = 2 then Some 2 else None),
     g_current := Some 0\<rparr>"

lemma wit_run_rep: "sched_rep wit_run (\<lambda>q. if q = 2 then [1, 2] else [])"
proof -
  have lt: "(\<exists>q < 3. q = 2 \<and> P q) \<longleftrightarrow> P 2" for P :: "nat \<Rightarrow> bool" by auto
  have "rq_links wit_run (\<lambda>q. if q = 2 then [1, 2] else [])"
    by (auto simp: rq_links_def links_def wit_run_def wit_thread_def zero_thread_def wit_sched0_def SCHED_Q_HIGH_def)
  then show ?thesis
    by (auto simp: sched_rep_def wit_run_def wit_thread_def wit_sched0_def thr_def zero_thread_def kernel_defs
        split: if_splits)
qed

lemma schedule_strict_priority_witness:
  "\<exists>s'. schedule wit_run = Some (s', Some (Some 0, Some 2)) \<and> g_current s' = Some 2"
proof -
  have "map_option snd (schedule wit_run) = Some (Some (Some 0, Some 2))" by code_simp
  then obtain s' where s': "schedule wit_run = Some (s', Some (Some 0, Some 2))" by (auto simp: map_option_eq_Some)
  have "g_current wit_run = Some 0" "\<not> in_rq (thr wit_run 0)"
    by (simp_all add: wit_run_def thr_def zero_thread_def)
  then show ?thesis using schedule_strict_priority [OF wit_run_rep _ _ s'] s' by blast
qed

text \<open>
  A thread over its CPU quota is moved to the low queue while it runs: after that tick it is \<open>RUNNING\<close> and
  queued at once, and when it then blocks with no other thread ready, \<open>schedule\<close> finds it in the queue and
  sets it running again, so the wait it asked for does not happen.
\<close>

theorem quota_demote_runs_blocked:
  assumes "sched_rep s (\<lambda>_. [])" "g_current s = Some c" "th_state (thr s c) = THREAD_STATE_RUNNING"
    and "th_task (thr s c) = Some a" "tasks a = Some tk" "0 < cpu_usage_quota tk" "cpu_usage_quota tk < 100"
    and "th_queue (thr s c) \<noteq> SCHED_Q_LOW" "cpu_usage_quota tk < unat (total_ticks (thr s c) + 1) mod 100"
  shows "\<exists>s1 need s2. sched_tick_account tasks s = (s1, need) \<and> in_rq (thr s1 c) \<and> th_state (thr s1 c) = THREAD_STATE_RUNNING \<and>
    schedule (set_state THREAD_STATE_BLOCKED (Some c) s1) = Some (s2, None) \<and>
    g_current s2 = Some c \<and> th_state (thr s2 c) = THREAD_STATE_RUNNING"
proof -
  have idle: "g_idle s = None" using assms(1) by (simp add: sched_rep_def)
  obtain x where x: "threads s c = Some x" using assms(1,2) by (auto simp: sched_rep_def)
  have thr: "thr s c = x" using x by (simp add: thr_def)
  have nq: "\<not> in_rq x" using assms(1) x unfolding sched_rep_def rq_links_def by (metis empty_iff empty_set)
  let ?f = "\<lambda>x. x\<lparr>slice_remaining := (if slice_remaining x > 0 then slice_remaining x - 1 else 0),
                    total_ticks := total_ticks x + 1\<rparr>"
  define s0 where "s0 = upd_thread c (\<lambda>x. x\<lparr>th_queue := SCHED_Q_LOW\<rparr>) (upd_thread c ?f s)"
  define s1 where "s1 = rq_push SCHED_Q_LOW c s0"
  have t0: "threads s0 c = Some ((?f x)\<lparr>th_queue := SCHED_Q_LOW\<rparr>)" by (simp add: s0_def x)
  have "rq_links s0 (\<lambda>_. [])" unfolding s0_def
    by (intro rq_links_upd) (use assms(1) in \<open>simp_all add: sched_rep_def\<close>)
  moreover have "idle_thread s0 c" using t0 nq by (simp add: idle_thread_def)
  ultimately have rl1: "rq_links s1 ((\<lambda>_. [])(0 := [c]))"
    using rq.push_law [of s0 "\<lambda>_. []" c 0] by (simp add: s1_def SCHED_Q_LOW_def)
  have f0: "g_current s0 = Some c" "g_idle s0 = None" by (simp_all add: s0_def assms(2) idle)
  have f1: "g_current s1 = Some c" "g_idle s1 = None" "threads s1 c \<noteq> None"
    using f0 t0 by (simp_all add: s1_def rq_push_frame)
  have run1: "th_state (thr s1 c) = THREAD_STATE_RUNNING"
    unfolding s1_def rq_push_state using assms(3) t0 thr by (simp add: thr_def)
  have "\<exists>q::nat. q < 3 \<and> c \<in> set (((\<lambda>_. [])(0 := [c])) q)" by (rule exI [of _ 0]) simp
  then have "\<exists>y. threads s1 c = Some y \<and> in_rq y" using rl1 unfolding rq_links_def by blast
  then have q1: "in_rq (thr s1 c)" by (auto simp: thr_def)
  define s' where "s' = upd_thread c ?f s"
  have t': "thr s' c = ?f x" by (simp add: s'_def thr_upd thr x)
  have tot: "total_ticks (?f x) = total_ticks x + 1" "th_queue (?f x) = th_queue x" "th_task (?f x) = th_task x"
    "in_rq (?f x) = in_rq x" by simp_all
  have quota: "tick_quota (Some (cpu_usage_quota tk)) c s' = s1"
  proof -
    have "snd (rq_remove q (Some c) s') = s'" for q using nq by (simp add: rq_remove_def t')
    moreover have "upd_thread c (\<lambda>x. x\<lparr>th_queue := SCHED_Q_LOW\<rparr>) s' = s0" by (simp add: s0_def s'_def)
    ultimately show ?thesis using assms(6-9) by (simp add: tick_quota_def Let_def t' thr s1_def)
  qed
  have "sched_tick_account tasks s = (s1, slice_remaining (thr s1 c) = 0)"
    using assms(2,4,5) idle quota unfolding sched_tick_account_def Let_def
    by (simp add: s'_def [symmetric] t' thr)
  then have acc: "fst (sched_tick_account tasks s) = s1" by simp
  define sb where "sb = set_state THREAD_STATE_BLOCKED (Some c) s1"
  have rlb: "rq_links sb ((\<lambda>_. [])(0 := [c]))"
    unfolding sb_def set_state_def option.case by (rule rq_links_upd [OF rl1]) simp_all
  have fb: "g_current sb = Some c" "g_idle sb = None" "th_state (thr sb c) = THREAD_STATE_BLOCKED"
    using f1 by (simp_all add: sb_def set_state_def thr_upd)
  have rqb: "requeue sb = sb" using fb by (simp add: requeue_def)
  have sel: "fst (select_next (is_dead sb) [2, 1, 0] ((\<lambda>_. [])(0 := [c]))) = Some c" using fb by simp
  obtain s2 where s2: "pick_next [2, 1, 0] sb = Some (Some c, s2)" "cores s2 = cores sb" "globals s2 = globals sb"
    using pick_next_links [OF rlb, of "[2, 1, 0]"] sel by auto
  have "schedule sb = Some (set_state THREAD_STATE_RUNNING (Some c) s2, None)"
    unfolding schedule_cases [OF fb(2)] rqb s2(1) using fb by simp
  moreover have "threads s2 c \<noteq> None" using same_alloc [OF s2(2), of c] f1(3) by (simp add: sb_def set_state_def)
  moreover have "g_current s2 = Some c" using s2(3) fb(1) by (simp add: globals_def)
  ultimately show ?thesis using acc q1 run1 unfolding sb_def
    by (cases "sched_tick_account tasks s") (auto simp: set_state_def thr_upd)
qed

definition wit_task :: task_t where
  "wit_task = zero_task\<lparr>cpu_usage_quota := 1\<rparr>"

definition wit_quota :: sched_state where
  "wit_quota = wit_sched0\<lparr>
     threads := [0 \<mapsto> zero_thread\<lparr>th_state := THREAD_STATE_RUNNING, th_queue := SCHED_Q_MID, th_task := Some 9,
                              total_ticks := 1, slice_remaining := 3\<rparr>],
     g_current := Some 0\<rparr>"

lemma wit_quota_rep: "sched_rep wit_quota (\<lambda>_. [])"
  by (simp add: sched_rep_def rq_links_def wit_quota_def wit_sched0_def zero_thread_def thr_def kernel_defs)

lemma quota_demote_runs_blocked_witness:
  "\<exists>s1 need s2. sched_tick_account [9 \<mapsto> wit_task] wit_quota = (s1, need) \<and> in_rq (thr s1 0) \<and>
    th_state (thr s1 0) = THREAD_STATE_RUNNING \<and>
    schedule (set_state THREAD_STATE_BLOCKED (Some 0) s1) = Some (s2, None) \<and>
    g_current s2 = Some 0 \<and> th_state (thr s2 0) = THREAD_STATE_RUNNING"
  by (rule quota_demote_runs_blocked [OF wit_quota_rep, where a = 9 and tk = wit_task])
    (simp_all add: wit_quota_def wit_sched0_def wit_task_def thr_def zero_thread_def kernel_defs)

end
