(* ===== verification/Vmm.thy ===== *)
theory Vmm
  imports PmmProps
begin

text \<open>
  The page tables (\<open>vmm.c\<close>). A physical page is named by its frame number, a page table is a frame
  read as 512 words: the pointer \<open>DIRECTMAP_BASE + pa\<close> to a table is the frame of \<open>pa\<close>. CR3 is a
  field of the state; \<open>printk\<close> and the TLB flush leave nothing in it. The tables that the kernel image
  holds (\<open>g_pml4\<close>, \<open>g_pd_low\<close>, ...) lie at frames that the linker chooses: a parameter of \<open>vmm_init\<close>.
\<close>

section \<open>State and constants\<close>

definition USER_SPACE_END :: u64 where [kernel_defs]: "USER_SPACE_END = 0x00007FFFFFFFFFFF"
definition OB_KERNEL_LMA :: u64 where [kernel_defs]: "OB_KERNEL_LMA = 0x200000"
definition PTE_PRESENT :: u64 where [kernel_defs]: "PTE_PRESENT = 1"
definition PTE_WRITABLE :: u64 where [kernel_defs]: "PTE_WRITABLE = 2"
definition PTE_USER :: u64 where [kernel_defs]: "PTE_USER = 4"
definition PTE_HUGE :: u64 where [kernel_defs]: "PTE_HUGE = 128"
definition PTE_NX :: u64 where [kernel_defs]: "PTE_NX = 0x8000000000000000"
definition PTE_ADDR_MASK :: u64 where [kernel_defs]: "PTE_ADDR_MASK = 0x000FFFFFFFFFF000"
definition PMM_PHYS_LOW_LIMIT :: u64 where [kernel_defs]: "PMM_PHYS_LOW_LIMIT = 0x100000"
definition PMM_PHYS_HIGH_LIMIT :: u64 where [kernel_defs]: "PMM_PHYS_HIGH_LIMIT = of_nat (MAX_PAGES * PAGE_SIZE)"
definition ANY_OWNER :: u32 where [kernel_defs]: "ANY_OWNER = 0xFFFFFFFF"

definition PML4_INDEX :: "u64 \<Rightarrow> nat" where "PML4_INDEX v = unat (drop_bit 39 v AND 0x1FF)"
definition PDPT_INDEX :: "u64 \<Rightarrow> nat" where "PDPT_INDEX v = unat (drop_bit 30 v AND 0x1FF)"
definition PD_INDEX :: "u64 \<Rightarrow> nat" where "PD_INDEX v = unat (drop_bit 21 v AND 0x1FF)"
definition PT_INDEX :: "u64 \<Rightarrow> nat" where "PT_INDEX v = unat (drop_bit 12 v AND 0x1FF)"

record vmm_state =
  pt_mem :: "nat \<Rightarrow> nat \<Rightarrow> u64" \<comment> \<open>frame, index\<close>
  g_pt_bitmap :: "nat \<Rightarrow> u8"
  g_pt_owner :: "nat \<Rightarrow> u32"
  g_kernel_pml4 :: "nat option"
  cr3 :: u64
  cr4 :: u64
  g_smep_enabled :: bool
  g_smap_enabled :: bool
  v_pmm :: pmm_state

text \<open>The table an entry points to, and whether a flag is set in it.\<close>

definition entry_frame :: "u64 \<Rightarrow> nat" where
  "entry_frame e = unat (drop_bit 12 (e AND PTE_ADDR_MASK))"

abbreviation has_flag :: "u64 \<Rightarrow> u64 \<Rightarrow> bool" where
  "has_flag e fl \<equiv> e AND fl \<noteq> 0"

definition set_entry :: "nat \<Rightarrow> nat \<Rightarrow> u64 \<Rightarrow> vmm_state \<Rightarrow> vmm_state" where
  "set_entry f i e v = v\<lparr>pt_mem := (pt_mem v)(f := (pt_mem v f)(i := e))\<rparr>"

definition zero_page :: "nat \<Rightarrow> vmm_state \<Rightarrow> vmm_state" where
  "zero_page f v = v\<lparr>pt_mem := (pt_mem v)(f := (\<lambda>i. if i < 512 then 0 else pt_mem v f i))\<rparr>"

definition frame_pa :: "nat \<Rightarrow> u64" where
  "frame_pa f = of_nat (page_to_phys f)"

section \<open>Which pages are page tables\<close>

definition pt_pfn :: "u64 \<Rightarrow> nat" where "pt_pfn pa = unat (drop_bit 12 pa)"

definition pt_bit_test :: "u64 \<Rightarrow> vmm_state \<Rightarrow> bool" where
  "pt_bit_test pa v =
     (if pt_pfn pa \<ge> MAX_PAGES then False else drop_bit (pt_pfn pa mod 8) (g_pt_bitmap v (pt_pfn pa div 8)) AND 1 = 1)"

definition pt_bit_set :: "u64 \<Rightarrow> vmm_state \<Rightarrow> vmm_state" where
  "pt_bit_set pa v =
     (if pt_pfn pa \<ge> MAX_PAGES then v
      else v\<lparr>g_pt_bitmap := (g_pt_bitmap v)(pt_pfn pa div 8 := g_pt_bitmap v (pt_pfn pa div 8) OR push_bit (pt_pfn pa mod 8) 1)\<rparr>)"

definition pt_bit_clear :: "u64 \<Rightarrow> vmm_state \<Rightarrow> vmm_state" where
  "pt_bit_clear pa v =
     (if pt_pfn pa \<ge> MAX_PAGES then v
      else v\<lparr>g_pt_bitmap := (g_pt_bitmap v)(pt_pfn pa div 8 := g_pt_bitmap v (pt_pfn pa div 8) AND NOT (push_bit (pt_pfn pa mod 8) 1))\<rparr>)"

definition pt_owner_get :: "u64 \<Rightarrow> vmm_state \<Rightarrow> u32" where
  "pt_owner_get pa v = (if pt_pfn pa \<ge> MAX_PAGES then 0xFFFFFFFF else g_pt_owner v (pt_pfn pa))"

definition pt_owner_set :: "u64 \<Rightarrow> u32 \<Rightarrow> vmm_state \<Rightarrow> vmm_state" where
  "pt_owner_set pa tag v = (if pt_pfn pa \<ge> MAX_PAGES then v else v\<lparr>g_pt_owner := (g_pt_owner v)(pt_pfn pa := tag)\<rparr>)"

definition vmm_is_pt_page_strict :: "u64 \<Rightarrow> vmm_state \<Rightarrow> bool" where
  "vmm_is_pt_page_strict pa v =
     (if pa AND 0xFFF \<noteq> 0 then False
      else if pa < PMM_PHYS_LOW_LIMIT then False
      else if pa \<ge> PMM_PHYS_HIGH_LIMIT then False
      else if \<not> pt_bit_test pa v then False
      else if pg_flags (mem_map (v_pmm v) (phys_to_page (unat pa))) AND PG_RESERVED \<noteq> 0 then False
      else True)"

definition vmm_is_pt_page :: "u64 \<Rightarrow> vmm_state \<Rightarrow> bool" where
  "vmm_is_pt_page pa v =
     (if pa AND 0xFFF \<noteq> 0 then False
      else if pa < PMM_PHYS_LOW_LIMIT then False
      else if pa \<ge> PMM_PHYS_HIGH_LIMIT then False
      else pt_bit_test pa v)"

definition vmm_is_pt_page_strict_pub :: "u64 \<Rightarrow> vmm_state \<Rightarrow> bool" where
  "vmm_is_pt_page_strict_pub pa v = vmm_is_pt_page_strict pa v"

definition vmm_alloc_pt_page :: "vmm_state \<Rightarrow> nat option \<times> vmm_state" where
  "vmm_alloc_pt_page v =
     (case pmm_alloc_pages 0 (v_pmm v) of
        (None, p) \<Rightarrow> (None, v\<lparr>v_pmm := p\<rparr>)
      | (Some pg, p) \<Rightarrow>
          let v = v\<lparr>v_pmm := p\<rparr>; pa = frame_pa pg in
          if pa AND 0xFFF \<noteq> 0 then (None, v\<lparr>v_pmm := pmm_free_pages (Some pg) 0 (v_pmm v)\<rparr>)
          else if pa < PMM_PHYS_LOW_LIMIT then (None, v\<lparr>v_pmm := pmm_free_pages (Some pg) 0 (v_pmm v)\<rparr>)
          else if pa \<ge> PMM_PHYS_HIGH_LIMIT then (None, v\<lparr>v_pmm := pmm_free_pages (Some pg) 0 (v_pmm v)\<rparr>)
          else (Some pg, pt_bit_set pa (pt_owner_set pa 0 (zero_page pg v))))"

definition vmm_free_pt_page_ex :: "u64 \<Rightarrow> u32 \<Rightarrow> vmm_state \<Rightarrow> int \<times> vmm_state" where
  "vmm_free_pt_page_ex pa owner v =
     (let pg = phys_to_page (unat pa); fl = pg_flags (mem_map (v_pmm v) pg) in
      if pa AND 0xFFF \<noteq> 0 then (-1, v)
      else if pa < PMM_PHYS_LOW_LIMIT then (-1, v)
      else if pa \<ge> PMM_PHYS_HIGH_LIMIT then (-1, v)
      else if \<not> vmm_is_pt_page_strict pa v then (-1, v)
      else if owner \<noteq> ANY_OWNER \<and> pt_owner_get pa v \<noteq> owner then (-1, v)
      else if fl AND PG_RESERVED \<noteq> 0 then (-1, pt_owner_set pa 0 (pt_bit_clear pa v))
      else if fl AND PG_SLAB \<noteq> 0 then (-1, pt_owner_set pa 0 (pt_bit_clear pa v))
      else if fl AND PG_FREE \<noteq> 0 then (-1, pt_owner_set pa 0 (pt_bit_clear pa v))
      else
        let v = pt_owner_set pa 0 (pt_bit_clear pa (zero_page pg v))
        in (0, v\<lparr>v_pmm := pmm_free_pages (Some pg) 0 (v_pmm v)\<rparr>))"

section \<open>Walks and mappings\<close>

definition vmm_current_pml4 :: "vmm_state \<Rightarrow> nat" where
  "vmm_current_pml4 v = entry_frame (cr3 v)"

text \<open>The result is the place of the entry: its table and index.\<close>

definition vmm_get_pte :: "nat \<Rightarrow> u64 \<Rightarrow> vmm_state \<Rightarrow> (nat \<times> nat) option" where
  "vmm_get_pte pml4 virt v =
     (let e4 = pt_mem v pml4 (PML4_INDEX virt) in
      if \<not> has_flag e4 PTE_PRESENT then None
      else let e3 = pt_mem v (entry_frame e4) (PDPT_INDEX virt) in
        if \<not> has_flag e3 PTE_PRESENT then None
        else let e2 = pt_mem v (entry_frame e3) (PD_INDEX virt) in
          if \<not> has_flag e2 PTE_PRESENT then None
          else if has_flag e2 PTE_HUGE then None
          else Some (entry_frame e2, PT_INDEX virt))"

definition vmm_map_2mb :: "nat \<Rightarrow> u64 \<Rightarrow> u64 \<Rightarrow> u64 \<Rightarrow> vmm_state \<Rightarrow> int \<times> vmm_state" where
  "vmm_map_2mb pml4 virt phys flags v =
     (let e4 = pt_mem v pml4 (PML4_INDEX virt) in
      if \<not> has_flag e4 PTE_PRESENT then (-1, v)
      else let e3 = pt_mem v (entry_frame e4) (PDPT_INDEX virt) in
        if \<not> has_flag e3 PTE_PRESENT then (-1, v)
        else let pd = entry_frame e3 in
          if has_flag (pt_mem v pd (PD_INDEX virt)) PTE_PRESENT then (-2, v)
          else (0, set_entry pd (PD_INDEX virt) ((phys AND NOT 0x1FFFFF) OR flags) v))"

text \<open>
  \<open>if (!(tab[i] & PTE_PRESENT)) { pg = vmm_alloc_pt_page(); if (!pg) return -1; tab[i] = ...; }\<close>, the step
  that \<open>vmm_map_page\<close> makes at three levels; the result is the next table.
\<close>

definition pt_ensure :: "nat \<Rightarrow> nat \<Rightarrow> u64 \<Rightarrow> vmm_state \<Rightarrow> nat option \<times> vmm_state" where
  "pt_ensure tab i user_flag v =
     (if has_flag (pt_mem v tab i) PTE_PRESENT then (Some (entry_frame (pt_mem v tab i)), v)
      else case vmm_alloc_pt_page v of
          (None, v) \<Rightarrow> (None, v)
        | (Some pg, v) \<Rightarrow>
            let v = set_entry tab i (frame_pa pg OR PTE_PRESENT OR PTE_WRITABLE OR user_flag) v
            in (Some (entry_frame (pt_mem v tab i)), v))"

definition vmm_map_page :: "nat \<Rightarrow> u64 \<Rightarrow> u64 \<Rightarrow> u64 \<Rightarrow> vmm_state \<Rightarrow> int \<times> vmm_state" where
  "vmm_map_page pml4 virt phys flags v =
     (let user_flag = (if has_flag flags PTE_USER then PTE_USER else 0) in
      case pt_ensure pml4 (PML4_INDEX virt) user_flag v of
        (None, v) \<Rightarrow> (-1, v)
      | (Some pdpt, v) \<Rightarrow>
        (case pt_ensure pdpt (PDPT_INDEX virt) user_flag v of
           (None, v) \<Rightarrow> (-1, v)
         | (Some pd, v) \<Rightarrow>
             if has_flag (pt_mem v pd (PD_INDEX virt)) PTE_HUGE then (-2, v)
             else (case pt_ensure pd (PD_INDEX virt) user_flag v of
                 (None, v) \<Rightarrow> (-1, v)
               | (Some pt, v) \<Rightarrow>
                   if has_flag (pt_mem v pt (PT_INDEX virt)) PTE_PRESENT then (-2, v)
                   else (0, set_entry pt (PT_INDEX virt) ((phys AND PTE_ADDR_MASK) OR flags) v))))"

definition vmm_unmap_page :: "nat \<Rightarrow> u64 \<Rightarrow> vmm_state \<Rightarrow> int \<times> vmm_state" where
  "vmm_unmap_page pml4 virt v =
     (case vmm_get_pte pml4 virt v of
        None \<Rightarrow> (-1, v)
      | Some (pt, i) \<Rightarrow> if \<not> has_flag (pt_mem v pt i) PTE_PRESENT then (-1, v) else (0, set_entry pt i 0 v))"

section \<open>Address spaces\<close>

definition vmm_copy_kernel_mappings :: "nat option \<Rightarrow> nat option \<Rightarrow> vmm_state \<Rightarrow> vmm_state" where
  "vmm_copy_kernel_mappings dst src v =
     (case (dst, src) of
        (Some d, Some s) \<Rightarrow>
          let v = set_entry d 0 (pt_mem v s 0) v; v = set_entry d 256 (pt_mem v s 256) v
          in set_entry d 511 (pt_mem v s 511) v
      | _ \<Rightarrow> v)"

definition vmm_create_address_space :: "vmm_state \<Rightarrow> nat option \<times> vmm_state" where
  "vmm_create_address_space v =
     (case vmm_alloc_pt_page v of
        (None, v) \<Rightarrow> (None, v)
      | (Some pg, v) \<Rightarrow>
          let v = zero_page pg v;
              cur = vmm_current_pml4 v;
              v = set_entry pg 0 (pt_mem v cur 0) v;
              v = set_entry pg 256 (pt_mem v cur 256) v;
              v = set_entry pg 511 (pt_mem v cur 511) v
          in (Some pg, v))"

definition vmm_destroy_address_space :: "nat option \<Rightarrow> vmm_state \<Rightarrow> vmm_state" where
  "vmm_destroy_address_space pml4 v =
     (case pml4 of
        None \<Rightarrow> v
      | Some f \<Rightarrow>
          if pml4 = g_kernel_pml4 v then v
          else if \<not> vmm_is_pt_page_strict (frame_pa f) v then v
          else snd (vmm_free_pt_page_ex (frame_pa f) ANY_OWNER v))"

definition vmm_switch_address_space :: "nat option \<Rightarrow> vmm_state \<Rightarrow> vmm_state" where
  "vmm_switch_address_space pml4 v = (case pml4 of None \<Rightarrow> v | Some f \<Rightarrow> v\<lparr>cr3 := frame_pa f\<rparr>)"

text \<open>One level of \<open>vmm_setup_user_space\<close>: an entry that is no page table's is dropped, a missing table allocated.\<close>

definition setup_entry :: "nat \<Rightarrow> nat \<Rightarrow> vmm_state \<Rightarrow> nat option \<times> vmm_state" where
  "setup_entry tab i v =
     (let v = (if has_flag (pt_mem v tab i) PTE_PRESENT then
                 if \<not> vmm_is_pt_page_strict (pt_mem v tab i AND PTE_ADDR_MASK) v then set_entry tab i 0 v else v
               else v)
      in pt_ensure tab i PTE_USER v)"

text \<open>The body of its loop at the address \<open>a\<close> (below \<open>2 ^ 48\<close>, where nothing wraps).\<close>

definition setup_step :: "nat \<Rightarrow> nat \<Rightarrow> vmm_state \<Rightarrow> int \<times> vmm_state" where
  "setup_step pml4 a v =
     (if PML4_INDEX (of_nat a) \<ge> 256 then (-1, v)
      else case setup_entry pml4 (PML4_INDEX (of_nat a)) v of
          (None, v) \<Rightarrow> (-1, v)
        | (Some pdpt, v) \<Rightarrow>
          (case setup_entry pdpt (PDPT_INDEX (of_nat a)) v of
             (None, v) \<Rightarrow> (-1, v)
           | (Some pd, v) \<Rightarrow>
               if has_flag (pt_mem v pd (PD_INDEX (of_nat a))) PTE_HUGE then (-1, v)
               else case setup_entry pd (PD_INDEX (of_nat a)) v of
                   (None, v) \<Rightarrow> (-1, v)
                 | (Some _, v) \<Rightarrow> (0, v)))"

function setup_loop :: "nat \<Rightarrow> nat \<Rightarrow> nat \<Rightarrow> vmm_state \<Rightarrow> int \<times> vmm_state" where
  "setup_loop pml4 a limit v =
     (if a < limit then
        (case setup_step pml4 a v of
           (rc, v) \<Rightarrow>
             if rc \<noteq> 0 then (rc, v)
             else
               let nxt = a div 2 ^ 21 * 2 ^ 21 + 2 ^ 21;
                   nxt = (if nxt > limit then limit else nxt)
               in setup_loop pml4 nxt limit v)
      else (0, v))"
  by pat_completeness auto
termination
proof (relation "measure (\<lambda>(pml4, a, limit, v). limit - a)", goal_cases)
  case (2 pml4 a limit v)
  have "0 < (2::nat) ^ 21" by simp
  then have "a < a div 2 ^ 21 * 2 ^ 21 + 2 ^ 21"
    using div_mult_mod_eq [of a "2 ^ 21"] mod_less_divisor [of "2 ^ 21" a] by linarith
  then show ?case using 2 by (auto simp: diff_less_mono2)
qed simp

declare setup_loop.simps [simp del]

definition vmm_setup_user_space :: "nat option \<Rightarrow> u64 \<Rightarrow> u64 \<Rightarrow> vmm_state \<Rightarrow> int \<times> vmm_state" where
  "vmm_setup_user_space pml4 base limit v =
     (case pml4 of
        None \<Rightarrow> (-1, v)
      | Some f \<Rightarrow>
          if base \<ge> limit then (-1, v)
          else if limit > USER_SPACE_END + 1 then (-1, v)
          else setup_loop f (unat base) (unat limit) v)"

text \<open>The three nested loops of \<open>vmm_free_user_pagetables\<close>.\<close>

definition free_pde :: "nat \<Rightarrow> nat \<Rightarrow> vmm_state \<Rightarrow> vmm_state" where
  "free_pde pd i v =
     (let pde = pt_mem v pd i in
      if \<not> has_flag pde PTE_PRESENT then v
      else
        let v = set_entry pd i 0 v in
        if has_flag pde PTE_HUGE then v
        else if \<not> has_flag pde PTE_USER then v
        else if \<not> vmm_is_pt_page_strict (pde AND PTE_ADDR_MASK) v then v
        else snd (vmm_free_pt_page_ex (pde AND PTE_ADDR_MASK) 0 v))"

definition free_pdpte :: "nat \<Rightarrow> nat \<Rightarrow> vmm_state \<Rightarrow> vmm_state" where
  "free_pdpte pdpt i v =
     (let pdpte = pt_mem v pdpt i in
      if \<not> has_flag pdpte PTE_PRESENT then v
      else
        let v = set_entry pdpt i 0 v in
        if has_flag pdpte PTE_HUGE then v
        else if \<not> has_flag pdpte PTE_USER then v
        else if \<not> vmm_is_pt_page_strict (pdpte AND PTE_ADDR_MASK) v then v
        else
          let v = fold (free_pde (entry_frame pdpte)) [0..<512] v
          in snd (vmm_free_pt_page_ex (pdpte AND PTE_ADDR_MASK) 0 v))"

definition free_pml4e :: "nat \<Rightarrow> nat \<Rightarrow> vmm_state \<Rightarrow> vmm_state" where
  "free_pml4e pml4 i v =
     (let e = pt_mem v pml4 i in
      if \<not> has_flag e PTE_PRESENT then v
      else
        let v = set_entry pml4 i 0 v in
        if \<not> has_flag e PTE_USER then v
        else if \<not> vmm_is_pt_page_strict (e AND PTE_ADDR_MASK) v then v
        else
          let v = fold (free_pdpte (entry_frame e)) [0..<512] v
          in snd (vmm_free_pt_page_ex (e AND PTE_ADDR_MASK) 0 v))"

definition vmm_free_user_pagetables :: "nat option \<Rightarrow> vmm_state \<Rightarrow> vmm_state" where
  "vmm_free_user_pagetables pml4 v =
     (case pml4 of
        None \<Rightarrow> v
      | Some f \<Rightarrow> if pml4 = g_kernel_pml4 v then v else fold (free_pml4e f) [0..<256] v)"

section \<open>Initialisation\<close>

text \<open>The frames of the tables in the kernel image.\<close>

record kernel_tables =
  kt_pml4 :: nat
  kt_pdpt_low :: nat
  kt_pd_low :: "nat \<Rightarrow> nat"
  kt_pdpt_direct :: nat
  kt_pd_direct :: "nat \<Rightarrow> nat"
  kt_pdpt_kern :: nat
  kt_pd_kern :: nat

text \<open>The 512 huge entries of one page directory: \<open>base + (i << 21)\<close>.\<close>

definition fill_pd :: "nat \<Rightarrow> u64 \<Rightarrow> u64 \<Rightarrow> vmm_state \<Rightarrow> vmm_state" where
  "fill_pd pd base flags = fold (\<lambda>i. set_entry pd i ((base + push_bit 21 (of_nat i)) OR flags)) [0..<512]"

definition vmm_init :: "kernel_tables \<Rightarrow> vmm_state \<Rightarrow> vmm_state" where
  "vmm_init k v =
     (let v = v\<lparr>g_pt_bitmap := (\<lambda>i. if i < (MAX_PAGES + 7) div 8 then 0 else g_pt_bitmap v i),
                g_pt_owner := (\<lambda>i. if i < MAX_PAGES then 0 else g_pt_owner v i)\<rparr>;
          v = zero_page (kt_pml4 k) v;
          v = zero_page (kt_pdpt_low k) v;
          v = zero_page (kt_pdpt_direct k) v;
          v = zero_page (kt_pdpt_kern k) v;
          v = fold (\<lambda>i v. zero_page (kt_pd_direct k i) (zero_page (kt_pd_low k i) v)) [0..<4] v;
          v = zero_page (kt_pd_kern k) v;
          RW = PTE_PRESENT OR PTE_WRITABLE;
          RWH = RW OR PTE_HUGE;
          RWHN = RWH OR PTE_NX;
          v = set_entry (kt_pml4 k) 0 (frame_pa (kt_pdpt_low k) OR RW) v;
          v = fold (\<lambda>gb v. fill_pd (kt_pd_low k gb) (push_bit 30 (of_nat gb)) RWH
                             (set_entry (kt_pdpt_low k) gb (frame_pa (kt_pd_low k gb) OR RW) v)) [0..<4] v;
          v = set_entry (kt_pml4 k) 256 (frame_pa (kt_pdpt_direct k) OR RW) v;
          v = fold (\<lambda>gb v. fill_pd (kt_pd_direct k gb) (push_bit 30 (of_nat gb)) RWHN
                             (set_entry (kt_pdpt_direct k) gb (frame_pa (kt_pd_direct k gb) OR RW) v)) [0..<4] v;
          v = set_entry (kt_pml4 k) 511 (frame_pa (kt_pdpt_kern k) OR RW) v;
          v = set_entry (kt_pdpt_kern k) 510 (frame_pa (kt_pd_kern k) OR RW) v;
          v = fill_pd (kt_pd_kern k) OB_KERNEL_LMA RWH v;
          v = v\<lparr>cr3 := frame_pa (kt_pml4 k)\<rparr>
      in v\<lparr>g_kernel_pml4 := Some (vmm_current_pml4 v)\<rparr>)"

text \<open>\<open>ebx\<close> is what \<open>cpuid(7, 0)\<close> returns there.\<close>

definition vmm_enable_smep_smap :: "u32 \<Rightarrow> vmm_state \<Rightarrow> vmm_state" where
  "vmm_enable_smep_smap ebx v =
     (let has_smep = (drop_bit 7 ebx AND 1 = 1); has_smap = (drop_bit 20 ebx AND 1 = 1);
          c = cr4 v;
          (c, v) = (if has_smep then (c OR push_bit 20 1, v\<lparr>g_smep_enabled := True\<rparr>) else (c, v));
          (c, v) = (if has_smap then (c OR push_bit 21 1, v\<lparr>g_smap_enabled := True\<rparr>) else (c, v))
      in v\<lparr>cr4 := c\<rparr>)"

definition vmm_smep_enabled :: "vmm_state \<Rightarrow> bool" where "vmm_smep_enabled v = g_smep_enabled v"
definition vmm_smap_enabled :: "vmm_state \<Rightarrow> bool" where "vmm_smap_enabled v = g_smap_enabled v"
definition vmm_kernel_pml4 :: "vmm_state \<Rightarrow> nat option" where "vmm_kernel_pml4 v = g_kernel_pml4 v"

end
