(* ===== verification/VmmCorrect.thy ===== *)
theory VmmCorrect
  imports Vmm
begin

text \<open>
  The trees of page tables below a set of roots: no table has two places, in one address space or in
  two, and every table is a page the frame allocator has handed out. What every operation of \<open>vmm.c\<close>
  does to the translations of all the address spaces follows from it.
\<close>

section \<open>Addresses and entries\<close>

lemma unat_mask9: "unat (x AND 0x1FF :: u64) = unat x mod 512"
proof -
  have "x AND 0x1FF = take_bit 9 x" by (simp add: take_bit_eq_mask mask_eq_exp_minus_1)
  then show ?thesis by (simp add: take_bit_eq_mod unat_mod)
qed

lemma index_nat:
  "PML4_INDEX v = unat v div 2 ^ 39 mod 512" "PDPT_INDEX v = unat v div 2 ^ 30 mod 512"
  "PD_INDEX v = unat v div 2 ^ 21 mod 512" "PT_INDEX v = unat v div 2 ^ 12 mod 512"
  by (simp_all add: PML4_INDEX_def PDPT_INDEX_def PD_INDEX_def PT_INDEX_def unat_mask9 unat_drop_bit_eq drop_bit_eq_div unat_div)

lemma index_bounds [simp]:
  "PML4_INDEX v < 512" "PDPT_INDEX v < 512" "PD_INDEX v < 512" "PT_INDEX v < 512"
  by (simp_all add: index_nat)

lemma unat_frame: "f < MAX_PAGES \<Longrightarrow> unat (frame_pa f) = f * 4096"
  unfolding frame_pa_def page_to_phys_def PAGE_SIZE_def MAX_PAGES_def by (simp only: unat_of_nat) simp

lemma frame_pa_push: "frame_pa f = push_bit 12 (of_nat f)"
  by (simp add: frame_pa_def page_to_phys_def PAGE_SIZE_def push_bit_eq_mult)

lemma pt_pfn_frame_pa: "f < MAX_PAGES \<Longrightarrow> pt_pfn (frame_pa f) = f"
  by (simp add: pt_pfn_def drop_bit_eq_div unat_div unat_frame)

lemma frame_pa_aligned: "frame_pa f AND 0xFFF = 0"
proof -
  have "frame_pa f AND mask 12 = 0" unfolding frame_pa_push by (rule bit_word_eqI) (auto simp: bit_simps)
  then show ?thesis by (simp add: mask_eq_exp_minus_1)
qed

lemma frame_pa_range:
  assumes "f < MAX_PAGES"
  shows "frame_pa f < PMM_PHYS_LOW_LIMIT \<longleftrightarrow> f < 0x100" "frame_pa f < PMM_PHYS_HIGH_LIMIT" "phys_to_page (unat (frame_pa f)) = f"
  using assms by (simp_all add: word_less_nat_alt unat_frame PMM_PHYS_LOW_LIMIT_def PMM_PHYS_HIGH_LIMIT_def MAX_PAGES_def
      PAGE_SIZE_def phys_to_page_def)

lemma entry_frame_mk:
  assumes "f < MAX_PAGES" "fl = 0 \<or> fl = PTE_USER"
  defines "e \<equiv> frame_pa f OR PTE_PRESENT OR PTE_WRITABLE OR fl"
  shows "entry_frame e = f" "has_flag e PTE_PRESENT" "\<not> has_flag e PTE_HUGE" "has_flag e PTE_USER \<longleftrightarrow> fl = PTE_USER"
    "e AND PTE_ADDR_MASK = frame_pa f"
proof -
  have x: "of_nat f < (2 ^ 17 :: u64)" using assms(1) by (simp add: word_less_nat_alt MAX_PAGES_def unat_of_nat)
  have lo: "frame_pa f AND m = 0" if "m = PTE_PRESENT \<or> m = PTE_HUGE \<or> m = PTE_USER" for m
  proof -
    have "0xFFF AND m = m" using that by (auto simp: kernel_defs)
    then have "frame_pa f AND m = (frame_pa f AND 0xFFF) AND m" by (simp only: and.assoc)
    then show ?thesis by (simp only: frame_pa_aligned and_zero_eq zero_and_eq)
  qed
  have e: "e = frame_pa f OR (if fl = PTE_USER then 7 else 3)"
    using assms(2) by (auto simp: e_def kernel_defs or.assoc)
  have m: "e AND m = (if fl = PTE_USER then 7 else 3) AND m" if "m = PTE_PRESENT \<or> m = PTE_HUGE \<or> m = PTE_USER" for m
    unfolding e bit.conj_disj_distrib2 lo [OF that] by simp
  show "has_flag e PTE_PRESENT" "\<not> has_flag e PTE_HUGE" "has_flag e PTE_USER \<longleftrightarrow> fl = PTE_USER"
    unfolding m [of PTE_PRESENT, simplified] m [of PTE_HUGE, simplified] m [of PTE_USER, simplified]
    by (simp_all add: kernel_defs)
  have "frame_pa f AND PTE_ADDR_MASK = frame_pa f"
  proof -
    have "PTE_ADDR_MASK = push_bit 12 (mask 40)" by (simp add: kernel_defs mask_eq_exp_minus_1)
    moreover have "take_bit 40 (of_nat f :: u64) = of_nat f"
      using assms(1) by (simp add: word_unat_eq_iff MAX_PAGES_def unat_of_nat unat_mod take_bit_eq_mod)
    ultimately show ?thesis unfolding frame_pa_push by (metis push_bit_and take_bit_eq_mask)
  qed
  then show a: "e AND PTE_ADDR_MASK = frame_pa f"
    by (simp add: e bit.conj_disj_distrib2 kernel_defs)
  then show "entry_frame e = f" using pt_pfn_frame_pa [OF assms(1)] by (simp add: entry_frame_def pt_pfn_def)
qed

lemma user_index: "v \<le> USER_SPACE_END \<Longrightarrow> PML4_INDEX v < 256"
  by (simp add: index_nat word_le_nat_alt USER_SPACE_END_def)

lemma same_page_iff:
  assumes "v \<le> USER_SPACE_END" "w \<le> USER_SPACE_END"
  shows "drop_bit 12 v = drop_bit 12 w \<longleftrightarrow>
    PML4_INDEX v = PML4_INDEX w \<and> PDPT_INDEX v = PDPT_INDEX w \<and> PD_INDEX v = PD_INDEX w \<and> PT_INDEX v = PT_INDEX w"
proof -
  have digits: "a div 512 = b div 512 \<and> a mod 512 = b mod 512 \<longleftrightarrow> a = b" for a b :: nat
    by (metis div_mult_mod_eq)
  have top: "unat u div 2 ^ 39 mod 512 = unat u div 2 ^ 39" if "u \<le> USER_SPACE_END" for u :: u64
    using that by (simp add: word_le_nat_alt USER_SPACE_END_def)
  have s: "n div 2 ^ 39 = n div 2 ^ 30 div 512" "n div 2 ^ 30 = n div 2 ^ 21 div 512" "n div 2 ^ 21 = n div 2 ^ 12 div 512" for n :: nat
    by (simp_all flip: div_mult2_eq)
  have i4: "PML4_INDEX u = unat u div 2 ^ 12 div 512 div 512 div 512" if "u \<le> USER_SPACE_END" for u
    unfolding index_nat top [OF that] by (simp only: s)
  have "drop_bit 12 v = drop_bit 12 w \<longleftrightarrow> unat v div 2 ^ 12 = unat w div 2 ^ 12"
    by (simp add: word_unat_eq_iff drop_bit_eq_div unat_div)
  also have "\<dots> \<longleftrightarrow> PML4_INDEX v = PML4_INDEX w \<and> PDPT_INDEX v = PDPT_INDEX w \<and> PD_INDEX v = PD_INDEX w \<and> PT_INDEX v = PT_INDEX w"
    unfolding i4 [OF assms(1)] i4 [OF assms(2)] index_nat(2-4) s using digits by metis
  finally show ?thesis .
qed

section \<open>Page-table pages\<close>

text \<open>A page that \<open>vmm_alloc_pt_page\<close> has handed out and nobody has given back.\<close>

definition pt_page :: "vmm_state \<Rightarrow> nat \<Rightarrow> bool" where
  "pt_page v f \<longleftrightarrow> allocated (v_pmm v) f 0 \<and> pg_flags (mem_map (v_pmm v) f) = 0 \<and> 0x100 \<le> f \<and> pt_bit_test (frame_pa f) v"

lemma allocated_facts: "allocated s f k \<Longrightarrow> f < MAX_PAGES \<and> f \<notin> free_frames s \<and> pg_flags (mem_map s f) AND PG_RESERVED = 0"
  using blk_mem [of f k] by (auto simp: allocated_def managed_def dest!: subsetD)

lemma pt_page_max: "pt_page v f \<Longrightarrow> f < MAX_PAGES"
  using allocated_facts by (auto simp: pt_page_def)

lemma pt_page_strict: "pt_page v f \<Longrightarrow> vmm_is_pt_page_strict (frame_pa f) v"
  using pt_page_max [of v f] frame_pa_range [of f]
  by (auto simp: vmm_is_pt_page_strict_def pt_page_def frame_pa_aligned not_less)

lemma low_bit: "drop_bit n (w :: u8) AND 1 = 1 \<longleftrightarrow> bit w n"
  by (simp add: bit_iff_odd_drop_bit and_one_eq odd_iff_mod_2_eq_one)

lemma div_mod8: "a div 8 = b div 8 \<Longrightarrow> a mod 8 = b mod 8 \<Longrightarrow> a = b" for a b :: nat
  by (metis div_mult_mod_eq)

lemma pt_bit_test_set:
  assumes "f < MAX_PAGES" "g < MAX_PAGES"
  shows "pt_bit_test (frame_pa g) (pt_bit_set (frame_pa f) v) \<longleftrightarrow> g = f \<or> pt_bit_test (frame_pa g) v"
proof -
  have "f mod 8 < 8" "g mod 8 < 8" by simp_all
  then show ?thesis using assms div_mod8 [of g f] pt_pfn_frame_pa [OF assms(1)] pt_pfn_frame_pa [OF assms(2)]
    by (auto simp: pt_bit_test_def low_bit pt_bit_set_def bit_simps)
qed

lemma pt_bit_test_clear:
  assumes "f < MAX_PAGES" "g < MAX_PAGES"
  shows "pt_bit_test (frame_pa g) (pt_bit_clear (frame_pa f) v) \<longleftrightarrow> g \<noteq> f \<and> pt_bit_test (frame_pa g) v"
proof -
  have "f mod 8 < 8" "g mod 8 < 8" by simp_all
  then show ?thesis using assms div_mod8 [of g f] pt_pfn_frame_pa [OF assms(1)] pt_pfn_frame_pa [OF assms(2)]
    by (auto simp: pt_bit_test_def low_bit pt_bit_clear_def bit_simps)
qed

lemma pt_bit_test_cong: "g_pt_bitmap v' = g_pt_bitmap v \<Longrightarrow> pt_bit_test pa v' = pt_bit_test pa v"
  by (simp add: pt_bit_test_def)

lemma pt_update_fields [simp]:
  "pt_mem (pt_bit_set pa v) = pt_mem v" "v_pmm (pt_bit_set pa v) = v_pmm v"
  "pt_mem (pt_bit_clear pa v) = pt_mem v" "v_pmm (pt_bit_clear pa v) = v_pmm v"
  "pt_mem (pt_owner_set pa t v) = pt_mem v" "v_pmm (pt_owner_set pa t v) = v_pmm v"
  "g_pt_bitmap (pt_owner_set pa t v) = g_pt_bitmap v" "g_pt_bitmap (zero_page f v) = g_pt_bitmap v"
  "v_pmm (zero_page f v) = v_pmm v" "v_pmm (set_entry f i e v) = v_pmm v"
  "g_pt_bitmap (set_entry f i e v) = g_pt_bitmap v" "cr3 (set_entry f i e v) = cr3 v"
  "g_kernel_pml4 (set_entry f i e v) = g_kernel_pml4 v" "cr3 (zero_page f v) = cr3 v"
  "cr3 (pt_bit_set pa v) = cr3 v" "cr3 (pt_owner_set pa t v) = cr3 v"
  by (simp_all add: pt_bit_set_def pt_bit_clear_def pt_owner_set_def zero_page_def set_entry_def)

lemma pt_mem_set_entry: "pt_mem (set_entry f i e v) g j = (if g = f \<and> j = i then e else pt_mem v g j)"
  by (simp add: set_entry_def)

lemma pt_mem_zero_page: "pt_mem (zero_page f v) g j = (if g = f \<and> j < 512 then 0 else pt_mem v g j)"
  by (simp add: zero_page_def)

lemma pt_page_set_entry [simp]: "pt_page (set_entry f i e v) g = pt_page v g"
  by (simp add: pt_page_def pt_bit_test_def)

text \<open>What an allocation of a page table changes: one fresh page, all zero.\<close>

lemma vmm_alloc_Some:
  assumes "pmm_inv (v_pmm v)" "vmm_alloc_pt_page v = (Some f, v')"
  shows "pmm_inv (v_pmm v')" "pt_page v' f" "\<not> pt_page v f" "cr3 v' = cr3 v"
    "\<And>g j. pt_mem v' g j = (if g = f \<and> j < 512 then 0 else pt_mem v g j)"
    "\<And>g. pt_page v g \<Longrightarrow> pt_page v' g"
    "f \<in> free_frames (v_pmm v)" "\<And>g. allocated (v_pmm v) g 0 \<Longrightarrow> allocated (v_pmm v') g 0"
    "free_frames (v_pmm v') \<subseteq> free_frames (v_pmm v)"
    "\<And>g. g < MAX_PAGES \<Longrightarrow> pt_bit_test (frame_pa g) v' \<longleftrightarrow> g = f \<or> pt_bit_test (frame_pa g) v"
    "(\<forall>g. g_pt_owner v g = 0) \<Longrightarrow> g_pt_owner v' g = 0" "g_kernel_pml4 v' = g_kernel_pml4 v"
proof -
  obtain p where a: "pmm_alloc_pages 0 (v_pmm v) = (Some f, p)" and ge: "\<not> frame_pa f < PMM_PHYS_LOW_LIMIT"
    and v': "v' = pt_bit_set (frame_pa f) (pt_owner_set (frame_pa f) 0 (zero_page f (v\<lparr>v_pmm := p\<rparr>)))"
    using assms(2) by (auto simp: vmm_alloc_pt_page_def Let_def split: prod.splits option.splits if_splits)
  have o: "(0::int) < int MAX_ORDER" by (simp add: MAX_ORDER_def)
  note A = pmm_alloc_Some [OF assms(1) order_refl o a, simplified]
  have fm: "f < MAX_PAGES" using A(3) by simp
  have free: "f \<in> free_frames (v_pmm v)" using A(4) by (simp add: blk_def)
  show "pmm_inv (v_pmm v')" "cr3 v' = cr3 v" using A(1) by (simp_all add: v')
  show "f \<in> free_frames (v_pmm v)" by (rule free)
  show nf: "\<not> pt_page v f" using free allocated_facts by (auto simp: pt_page_def)
  show "allocated (v_pmm v) g 0 \<Longrightarrow> allocated (v_pmm v') g 0" for g using pmm.alloc_keeps [OF assms(1) a] by (simp add: v')
  show "free_frames (v_pmm v') \<subseteq> free_frames (v_pmm v)" using A(5) by (auto simp: v')
  show "pt_bit_test (frame_pa g) v' \<longleftrightarrow> g = f \<or> pt_bit_test (frame_pa g) v" if "g < MAX_PAGES" for g
  proof -
    have "pt_bit_test (frame_pa g) (pt_owner_set (frame_pa f) 0 (zero_page f (v\<lparr>v_pmm := p\<rparr>))) = pt_bit_test (frame_pa g) v"
      by (rule pt_bit_test_cong) simp
    then show ?thesis using that fm by (simp add: v' pt_bit_test_set)
  qed
  show "(\<forall>g. g_pt_owner v g = 0) \<Longrightarrow> g_pt_owner v' g = 0"
    by (simp add: v' pt_bit_set_def pt_owner_set_def zero_page_def)
  show "g_kernel_pml4 v' = g_kernel_pml4 v" by (simp add: v' pt_bit_set_def pt_owner_set_def zero_page_def)
  have "allocated p f 0" using pmm_alloc_allocated [OF assms(1) order_refl o a] by simp
  then show "pt_page v' f" using A(8) ge frame_pa_range(1) [OF fm] fm by (simp add: pt_page_def v' pt_bit_test_set)
  show "pt_mem v' g j = (if g = f \<and> j < 512 then 0 else pt_mem v g j)" for g j
    by (simp add: v' pt_mem_zero_page)
  show "pt_page v' g" if "pt_page v g" for g
  proof -
    have "allocated p g 0" using pmm.alloc_keeps [OF assms(1) a] that by (simp add: pt_page_def)
    moreover have "mem_map p g = mem_map (v_pmm v) g"
      using A(7) that allocated_facts by (auto simp: pt_page_def)
    moreover have "pt_bit_test (frame_pa g) v'"
    proof -
      have "pt_bit_test (frame_pa g) (pt_owner_set (frame_pa f) 0 (zero_page f (v\<lparr>v_pmm := p\<rparr>))) = pt_bit_test (frame_pa g) v"
        by (rule pt_bit_test_cong) simp
      then show ?thesis using that pt_page_max [OF that] fm by (simp add: v' pt_bit_test_set pt_page_def)
    qed
    ultimately show ?thesis using that by (simp add: pt_page_def v')
  qed
qed

lemma vmm_alloc_None:
  assumes "pmm_inv (v_pmm v)" "vmm_alloc_pt_page v = (None, v')"
  shows "pmm_inv (v_pmm v')" "pt_mem v' = pt_mem v" "\<And>g. pt_page v g \<Longrightarrow> pt_page v' g" "cr3 v' = cr3 v"
    "free_frames (v_pmm v') = free_frames (v_pmm v)" "\<And>g. allocated (v_pmm v) g 0 \<Longrightarrow> allocated (v_pmm v') g 0"
    "g_pt_bitmap v' = g_pt_bitmap v" "g_pt_owner v' = g_pt_owner v" "g_kernel_pml4 v' = g_kernel_pml4 v"
proof -
  have o: "(0::int) < int MAX_ORDER" by (simp add: MAX_ORDER_def)
  have cases: "\<exists>p. (pmm_alloc_pages 0 (v_pmm v) = (None, p) \<and> v' = v\<lparr>v_pmm := p\<rparr>) \<or>
      (\<exists>f. pmm_alloc_pages 0 (v_pmm v) = (Some f, p) \<and> v' = v\<lparr>v_pmm := pmm_free_pages (Some f) 0 p\<rparr>)"
    using assms(2) by (auto simp: vmm_alloc_pt_page_def Let_def split: prod.splits option.splits if_splits)
  have goal: "pmm_inv p \<and> free_frames p = free_frames (v_pmm v) \<and>
      (\<forall>g. allocated (v_pmm v) g 0 \<longrightarrow> allocated p g 0 \<and> mem_map p g = mem_map (v_pmm v) g)"
    if "v' = v\<lparr>v_pmm := p\<rparr>" for p
    using cases
  proof (elim exE disjE conjE)
    fix p' assume a: "pmm_alloc_pages 0 (v_pmm v) = (None, p')" "v' = v\<lparr>v_pmm := p'\<rparr>"
    then have "p' = p" using arg_cong [OF that, of v_pmm] arg_cong [OF a(2), of v_pmm] by simp
    then show ?thesis
      using pmm.alloc_None [OF assms(1) a(1)] pmm_alloc_None(2) [OF assms(1) order_refl o, of p'] a(1)
      by (simp add: oom_marked_def)
  next
    fix p' f assume a: "pmm_alloc_pages 0 (v_pmm v) = (Some f, p')" "v' = v\<lparr>v_pmm := pmm_free_pages (Some f) 0 p'\<rparr>"
    then have p: "p = pmm_free_pages (Some f) (int 0) p'"
      using arg_cong [OF that, of v_pmm] arg_cong [OF a(2), of v_pmm] by simp
    note A = pmm_alloc_Some [OF assms(1) order_refl o a(1), simplified]
    have al: "allocated p' f 0" using pmm_alloc_allocated [OF assms(1) order_refl o a(1)] by simp
    note F = pmm_free_ok [OF A(1) al]
    have f: "f \<in> free_frames (v_pmm v)" "blk f 0 = {f}" using A(4) by (auto simp: blk_def)
    have keep: "allocated p g 0 \<and> mem_map p g = mem_map (v_pmm v) g" if g: "allocated (v_pmm v) g 0" for g
    proof -
      have gf: "g \<notin> free_frames (v_pmm v)" using allocated_facts [OF g] by simp
      then have "blk f 0 \<inter> blk g 0 = {}" using f by (auto simp: blk_def)
      moreover have "allocated p' g 0" using pmm.alloc_keeps [OF assms(1) a(1) g] .
      ultimately have "allocated p g 0" unfolding p using pmm.release_keeps [OF A(1) al] by simp
      moreover have "mem_map p g = mem_map (v_pmm v) g" unfolding p using F(4) [of g] A(5,7) gf f by auto
      ultimately show ?thesis ..
    qed
    have "free_frames p = free_frames (v_pmm v)" unfolding p F(2) using A(5) f by auto
    then show ?thesis using F(1) keep unfolding p by blast
  qed
  obtain p where p: "v' = v\<lparr>v_pmm := p\<rparr>" using cases by blast
  note G = goal [OF p]
  show "pmm_inv (v_pmm v')" "pt_mem v' = pt_mem v" "cr3 v' = cr3 v" "free_frames (v_pmm v') = free_frames (v_pmm v)"
    "g_pt_bitmap v' = g_pt_bitmap v" "g_pt_owner v' = g_pt_owner v" "g_kernel_pml4 v' = g_kernel_pml4 v"
    using G by (simp_all add: p)
  show "allocated (v_pmm v) g 0 \<Longrightarrow> allocated (v_pmm v') g 0" for g using G by (simp add: p)
  show "pt_page v' g" if "pt_page v g" for g
    using that G pt_bit_test_cong [of v' v] by (simp add: pt_page_def p)
qed

section \<open>Trees\<close>

text \<open>The table an entry leads to, and the table at the end of a list of indices.\<close>

definition next_table :: "vmm_state \<Rightarrow> nat \<Rightarrow> nat \<Rightarrow> nat option" where
  "next_table v t i =
     (let e = pt_mem v t i in if has_flag e PTE_PRESENT \<and> \<not> has_flag e PTE_HUGE then Some (entry_frame e) else None)"

fun table_at :: "vmm_state \<Rightarrow> nat \<Rightarrow> nat list \<Rightarrow> nat option" where
  "table_at v t [] = Some t"
| "table_at v t (i # is) = (case next_table v t i of None \<Rightarrow> None | Some u \<Rightarrow> table_at v u is)"

lemma table_at_append: "table_at v t (p @ q) = (case table_at v t p of None \<Rightarrow> None | Some u \<Rightarrow> table_at v u q)"
  by (induction p arbitrary: t) (auto split: option.split)

lemma table_at_snoc: "table_at v t (p @ [i]) = (case table_at v t p of None \<Rightarrow> None | Some u \<Rightarrow> next_table v u i)"
  by (auto simp: table_at_append split: option.split)

text \<open>The places of tables in the user half of an address space.\<close>

definition upath :: "nat list \<Rightarrow> bool" where
  "upath p \<longleftrightarrow> length p \<le> 3 \<and> set p \<subseteq> {..<512} \<and> (p \<noteq> [] \<longrightarrow> hd p < 256)"

definition spaces_ok :: "vmm_state \<Rightarrow> nat set \<Rightarrow> bool" where
  "spaces_ok v R \<longleftrightarrow> pmm_inv (v_pmm v) \<and>
     (\<forall>r \<in> R. \<forall>r' \<in> R. \<forall>p q f. upath p \<and> upath q \<and> table_at v r p = Some f \<and> table_at v r' q = Some f \<longrightarrow> r = r' \<and> p = q) \<and>
     (\<forall>r \<in> R. \<forall>p f. upath p \<and> table_at v r p = Some f \<longrightarrow> pt_page v f) \<and>
     (\<forall>r \<in> R. \<forall>p i f. upath (p @ [i]) \<and> length p \<le> 1 \<and> table_at v r p = Some f \<and> has_flag (pt_mem v f i) PTE_PRESENT \<longrightarrow>
        \<not> has_flag (pt_mem v f i) PTE_HUGE)"

lemma upath_snoc: "upath (p @ [i]) \<Longrightarrow> upath p"
  by (cases p) (auto simp: upath_def)

lemma spaces_inj:
  "spaces_ok v R \<Longrightarrow> r \<in> R \<Longrightarrow> r' \<in> R \<Longrightarrow> upath p \<Longrightarrow> upath q \<Longrightarrow> table_at v r p = Some f \<Longrightarrow> table_at v r' q = Some f \<Longrightarrow>
   r = r' \<and> p = q"
  unfolding spaces_ok_def by blast

lemma spaces_page: "spaces_ok v R \<Longrightarrow> r \<in> R \<Longrightarrow> upath p \<Longrightarrow> table_at v r p = Some f \<Longrightarrow> pt_page v f"
  unfolding spaces_ok_def by blast

text \<open>A fresh empty table is hung below the table at \<open>p\<close>, as entry \<open>i\<close>.\<close>

lemma table_at_extend:
  assumes ok: "spaces_ok v R" and r: "r \<in> R" and p: "upath (p @ [i])" "table_at v r p = Some t"
    and np: "\<not> has_flag (pt_mem v t i) PTE_PRESENT" and f: "\<not> pt_page v f"
    and mem: "\<And>g j. j < 512 \<Longrightarrow> pt_mem v' g j = (if g = t \<and> j = i then e else if g = f then 0 else pt_mem v g j)"
    and e: "has_flag e PTE_PRESENT" "\<not> has_flag e PTE_HUGE" "entry_frame e = f"
    and r': "r' \<in> R" and q: "upath q"
  shows "table_at v' r' q = (if r' = r \<and> q = p @ [i] then Some f else table_at v r' q)"
  using q
proof (induction q rule: rev_induct)
  case (snoc j q)
  have uq: "upath q" by (rule upath_snoc [OF snoc.prems])
  have j: "j < 512" using snoc.prems by (simp add: upath_def)
  have nt: "table_at v r (p @ [i]) = None" using p(2) np by (simp add: table_at_snoc next_table_def)
  show ?case
  proof (cases "r' = r \<and> q = p @ [i]")
    case True
    have "f \<noteq> t" using spaces_page [OF ok r upath_snoc [OF p(1)] p(2)] f by blast
    then have "next_table v' f j = None" using mem [OF j, of f] by (simp add: next_table_def)
    then have "table_at v' r' (q @ [j]) = None" using True snoc.IH [OF uq] unfolding table_at_snoc by simp
    moreover have "table_at v r' (q @ [j]) = None" using True nt unfolding table_at_snoc [of v r' q j] by simp
    ultimately show ?thesis using True by simp
  next
    case False
    then have ih: "table_at v' r' q = table_at v r' q" using snoc.IH [OF uq] by auto
    show ?thesis
    proof (cases "table_at v r' q")
      case None
      have "\<not> (r' = r \<and> q = p)" using None p(2) by auto
      then show ?thesis using ih None by (auto simp: table_at_snoc)
    next
      case (Some u)
      have pu: "pt_page v u" by (rule spaces_page [OF ok r' uq Some])
      then have uf: "u \<noteq> f" using f by blast
      show ?thesis
      proof (cases "u = t")
        case True
        then have rq: "r' = r" "q = p" using spaces_inj [OF ok r' r uq upath_snoc [OF p(1)] Some] p(2) by auto
        show ?thesis
        proof (cases "j = i")
          case True
          then show ?thesis using rq ih Some p(2) mem [OF j, of t] e by (simp add: table_at_snoc next_table_def)
        next
          case False
          then show ?thesis using rq ih Some \<open>u = t\<close> uf mem [OF j, of t] by (simp add: table_at_snoc next_table_def)
        qed
      next
        case False
        then have "\<not> (r' = r \<and> q = p)" using Some p(2) by auto
        moreover have "next_table v' u j = next_table v u j" using False uf mem [OF j, of u] by (simp add: next_table_def)
        ultimately show ?thesis using ih Some by (auto simp: table_at_snoc)
      qed
    qed
  qed
qed simp


lemma spaces_ok_extend:
  assumes ok: "spaces_ok v R" and r: "r \<in> R" and p: "upath (p @ [i])" "table_at v r p = Some t"
    and np: "\<not> has_flag (pt_mem v t i) PTE_PRESENT" and f: "\<not> pt_page v f" "pt_page v' f"
    and mem: "\<And>g j. j < 512 \<Longrightarrow> pt_mem v' g j = (if g = t \<and> j = i then e else if g = f then 0 else pt_mem v g j)"
    and e: "has_flag e PTE_PRESENT" "\<not> has_flag e PTE_HUGE" "entry_frame e = f"
    and keep: "pmm_inv (v_pmm v')" "\<And>g. pt_page v g \<Longrightarrow> pt_page v' g"
  shows "spaces_ok v' R"
proof -
  have T: "table_at v' r' q = (if r' = r \<and> q = p @ [i] then Some f else table_at v r' q)" if "r' \<in> R" "upath q" for r' q
    by (rule table_at_extend [OF ok r p np f(1) _ e that]) (rule mem)
  have old: "table_at v r' q \<noteq> Some f" if "r' \<in> R" "upath q" for r' q
    using spaces_page [OF ok that] f(1) by blast
  have "r1 = r2 \<and> q1 = q2"
    if h: "r1 \<in> R" "r2 \<in> R" "upath q1" "upath q2" "table_at v' r1 q1 = Some g" "table_at v' r2 q2 = Some g" for r1 r2 q1 q2 g
  proof (cases "g = f")
    case True
    then show ?thesis using h(5,6) old [OF h(1,3)] old [OF h(2,4)]
      unfolding T [OF h(1,3)] T [OF h(2,4)] by (auto split: if_splits)
  next
    case False
    then have "table_at v r1 q1 = Some g" "table_at v r2 q2 = Some g"
      using h(5,6) unfolding T [OF h(1,3)] T [OF h(2,4)] by (auto split: if_splits)
    then show ?thesis using spaces_inj [OF ok h(1-4)] by blast
  qed
  moreover have "pt_page v' g" if h: "r' \<in> R" "upath q" "table_at v' r' q = Some g" for r' q g
    using h(3) spaces_page [OF ok h(1,2)] f(2) keep(2) unfolding T [OF h(1,2)] by (auto split: if_splits)
  moreover have "\<not> has_flag (pt_mem v' g j) PTE_HUGE"
    if h: "r' \<in> R" "upath (q @ [j])" "length q \<le> 1" "table_at v' r' q = Some g" "has_flag (pt_mem v' g j) PTE_PRESENT" for r' q j g
  proof -
    have j: "j < 512" using h(2) by (simp add: upath_def)
    have uq: "upath q" by (rule upath_snoc [OF h(2)])
    show ?thesis
    proof (cases "g = f")
      case True
      have "f \<noteq> t" using spaces_page [OF ok r upath_snoc [OF p(1)] p(2)] f(1) by blast
      then show ?thesis using True h(5) mem [OF j, of g] by simp
    next
      case False
      then have "table_at v r' q = Some g" using h(4) unfolding T [OF h(1) uq] by (auto split: if_splits)
      then have "has_flag (pt_mem v g j) PTE_PRESENT \<Longrightarrow> \<not> has_flag (pt_mem v g j) PTE_HUGE"
        using ok h(1-3) unfolding spaces_ok_def by blast
      then show ?thesis using h(5) mem [OF j, of g] False e(2) by (auto split: if_splits)
    qed
  qed
  ultimately show ?thesis using keep(1) unfolding spaces_ok_def by blast
qed

text \<open>The last-level entry for a user address: 0 where there is no table for it.\<close>

definition upath_of :: "u64 \<Rightarrow> nat list" where
  "upath_of va = [PML4_INDEX va, PDPT_INDEX va, PD_INDEX va]"

definition leaf :: "vmm_state \<Rightarrow> nat \<Rightarrow> u64 \<Rightarrow> u64" where
  "leaf v r va = (case table_at v r (upath_of va) of None \<Rightarrow> 0 | Some t \<Rightarrow> pt_mem v t (PT_INDEX va))"

lemma upath_of_ok [simp]: "va \<le> USER_SPACE_END \<Longrightarrow> upath (upath_of va)"
  by (simp add: upath_def upath_of_def user_index)

text \<open>No page directory of \<open>r\<close> maps a large page.\<close>

definition no_huge :: "vmm_state \<Rightarrow> nat \<Rightarrow> bool" where
  "no_huge v r \<longleftrightarrow> (\<forall>q j t. upath (q @ [j]) \<and> length q = 2 \<and> table_at v r q = Some t \<longrightarrow> \<not> has_flag (pt_mem v t j) PTE_HUGE)"

text \<open>Only pages that are handed out are marked as page tables, and all belong to owner 0.\<close>

definition bits_ok :: "vmm_state \<Rightarrow> bool" where
  "bits_ok v \<longleftrightarrow> (\<forall>g < MAX_PAGES. pt_bit_test (frame_pa g) v \<longrightarrow> allocated (v_pmm v) g 0) \<and> (\<forall>g. g_pt_owner v g = 0)"

text \<open>A page table that belongs to none of the address spaces.\<close>

definition stray :: "vmm_state \<Rightarrow> nat set \<Rightarrow> nat \<Rightarrow> bool" where
  "stray v R g \<longleftrightarrow> pt_page v g \<and> (\<forall>r \<in> R. \<forall>q. upath q \<longrightarrow> table_at v r q \<noteq> Some g)"

text \<open>Nothing that a process can see has changed in the address spaces \<open>R\<close>.\<close>

definition spaces_kept :: "vmm_state \<Rightarrow> vmm_state \<Rightarrow> nat set \<Rightarrow> bool" where
  "spaces_kept v v' R \<longleftrightarrow> spaces_ok v' R \<and>
     (\<forall>r \<in> R. (\<forall>va \<le> USER_SPACE_END. leaf v' r va = leaf v r va) \<and>
               (\<forall>j. 256 \<le> j \<and> j < 512 \<longrightarrow> pt_mem v' r j = pt_mem v r j) \<and>
               (\<forall>q t. upath q \<and> table_at v r q = Some t \<longrightarrow> table_at v' r q = Some t) \<and>
               (no_huge v r \<longrightarrow> no_huge v' r)) \<and>
     (\<forall>g. pt_page v g \<longrightarrow> pt_page v' g) \<and> (\<forall>g. allocated (v_pmm v) g 0 \<longrightarrow> allocated (v_pmm v') g 0) \<and>
     free_frames (v_pmm v') \<subseteq> free_frames (v_pmm v) \<and> cr3 v' = cr3 v \<and>
     g_kernel_pml4 v' = g_kernel_pml4 v \<and> (bits_ok v \<longrightarrow> bits_ok v') \<and>
     (\<forall>g. stray v R g \<longrightarrow> stray v' R g \<and> (\<forall>j < 512. pt_mem v' g j = pt_mem v g j))"

lemma spaces_kept_refl: "spaces_ok v R \<Longrightarrow> spaces_kept v v R"
  by (simp add: spaces_kept_def)

lemma spaces_kept_trans: "spaces_kept v v' R \<Longrightarrow> spaces_kept v' v'' R \<Longrightarrow> spaces_kept v v'' R"
  unfolding spaces_kept_def by (simp add: Ball_def) blast

lemma pt_ensure_kept:
  assumes ok: "spaces_ok v R" and r: "r \<in> R" and p: "upath (p @ [i])" "table_at v r p = Some t"
    and huge: "length p = 2 \<Longrightarrow> \<not> has_flag (pt_mem v t i) PTE_HUGE"
    and uf: "uf = 0 \<or> uf = PTE_USER" and run: "pt_ensure t i uf v = (res, v')"
  shows "spaces_kept v v' R \<and> (\<forall>u. res = Some u \<longrightarrow> table_at v' r (p @ [i]) = Some u)"
proof (cases "has_flag (pt_mem v t i) PTE_PRESENT")
  case True
  then have e: "v' = v" "res = Some (entry_frame (pt_mem v t i))" using run by (auto simp: pt_ensure_def)
  have "\<not> has_flag (pt_mem v t i) PTE_HUGE"
  proof (cases "length p = 2")
    case False
    then have "length p \<le> 1" using p(1) by (auto simp: upath_def)
    then show ?thesis using ok r p True unfolding spaces_ok_def by blast
  qed (rule huge)
  then show ?thesis unfolding e using True ok p(2) by (simp add: spaces_kept_refl table_at_snoc next_table_def)
next
  case np: False
  show ?thesis
  proof (cases "vmm_alloc_pt_page v")
    case (Pair a v1)
    have inv: "pmm_inv (v_pmm v)" using ok by (simp add: spaces_ok_def)
    show ?thesis
    proof (cases a)
      case None
      note N = vmm_alloc_None [OF inv, of v1]
      have e: "res = None" "v' = v1" using run np Pair None by (simp_all add: pt_ensure_def)
      have m: "pt_mem v1 = pt_mem v" "pmm_inv (v_pmm v1)" "\<And>g. pt_page v g \<Longrightarrow> pt_page v1 g" "cr3 v1 = cr3 v"
        "\<And>g. allocated (v_pmm v) g 0 \<Longrightarrow> allocated (v_pmm v1) g 0" "free_frames (v_pmm v1) \<subseteq> free_frames (v_pmm v)"
        "g_pt_bitmap v1 = g_pt_bitmap v" "g_pt_owner v1 = g_pt_owner v" "g_kernel_pml4 v1 = g_kernel_pml4 v"
        using N Pair None by simp_all
      have nt: "next_table v1 = next_table v" by (simp add: next_table_def m(1) fun_eq_iff)
      have ta: "table_at v1 r' q = table_at v r' q" for r' q by (induction q arbitrary: r') (auto simp: nt split: option.split)
      have "spaces_ok v1 R" using ok m(2,3) unfolding spaces_ok_def ta m(1) by blast
      moreover have bo: "bits_ok v \<Longrightarrow> bits_ok v1" using m(5,8) pt_bit_test_cong [OF m(7)] by (simp add: bits_ok_def)
      ultimately have "spaces_ok v1 R" by simp
      then show ?thesis using e(1) m(3-6,9) bo unfolding spaces_kept_def no_huge_def leaf_def e(2) stray_def ta m(1) by simp
    next
      case (Some f)
      note A = vmm_alloc_Some [OF inv, of f v1]
      have al: "pmm_inv (v_pmm v1)" "pt_page v1 f" "\<not> pt_page v f" "\<And>g. pt_page v g \<Longrightarrow> pt_page v1 g"
        "\<And>g j. pt_mem v1 g j = (if g = f \<and> j < 512 then 0 else pt_mem v g j)" "cr3 v1 = cr3 v"
        "\<And>g. allocated (v_pmm v) g 0 \<Longrightarrow> allocated (v_pmm v1) g 0" "free_frames (v_pmm v1) \<subseteq> free_frames (v_pmm v)"
        "\<And>g. g < MAX_PAGES \<Longrightarrow> pt_bit_test (frame_pa g) v1 \<longleftrightarrow> g = f \<or> pt_bit_test (frame_pa g) v"
        "\<And>g. (\<forall>g. g_pt_owner v g = 0) \<Longrightarrow> g_pt_owner v1 g = 0" "g_kernel_pml4 v1 = g_kernel_pml4 v"
        using A Pair Some by simp_all
      define e where "e = frame_pa f OR PTE_PRESENT OR PTE_WRITABLE OR uf"
      note E = entry_frame_mk [OF pt_page_max [OF al(2)] uf, folded e_def]
      have res: "v' = set_entry t i e v1" "res = Some f"
        using run np Pair Some E(1) by (auto simp: pt_ensure_def Let_def e_def pt_mem_set_entry)
      have mem: "pt_mem v' g j = (if g = t \<and> j = i then e else if g = f then 0 else pt_mem v g j)" if "j < 512" for g j
        using that al(5) by (simp add: res(1) pt_mem_set_entry)
      have ok': "spaces_ok v' R"
        by (rule spaces_ok_extend [OF ok r p np al(3) _ mem E(2,3,1)]) (use al res in simp_all)
      have T: "table_at v' r' q = (if r' = r \<and> q = p @ [i] then Some f else table_at v r' q)" if "r' \<in> R" "upath q" for r' q
        by (rule table_at_extend [OF ok r p np al(3) _ E(2,3,1) that]) (rule mem)
      have tf: "t \<noteq> f" using spaces_page [OF ok r upath_snoc [OF p(1)] p(2)] al(3) by blast
      have i: "i < 512" "p = [] \<Longrightarrow> i < 256" using p(1) by (auto simp: upath_def)
      have lp: "length p \<le> 2" using p(1) by (simp add: upath_def)
      have none: "table_at v r (p @ [i]) = None" using p(2) np by (simp add: table_at_snoc next_table_def)
      have "leaf v' r' va = leaf v r' va" if h: "r' \<in> R" "va \<le> USER_SPACE_END" for r' va
      proof (cases "r' = r \<and> upath_of va = p @ [i]")
        case True
        then show ?thesis using T [OF r p(1)] none mem [of "PT_INDEX va" f] tf by (simp add: leaf_def)
      next
        case False
        then have ta: "table_at v' r' (upath_of va) = table_at v r' (upath_of va)" using T [OF h(1), of "upath_of va"] h(2) by auto
        show ?thesis
        proof (cases "table_at v r' (upath_of va)")
          case (Some g)
          then have "g \<noteq> f" using spaces_page [OF ok h(1) upath_of_ok [OF h(2)]] al(3) by blast
          moreover have "g \<noteq> t"
          proof
            assume "g = t"
            then have "upath_of va = p"
              using spaces_inj [OF ok h(1) r upath_of_ok [OF h(2)] upath_snoc [OF p(1)] Some] p(2) by simp
            then show False using lp by (auto simp: upath_of_def)
          qed
          ultimately show ?thesis using ta Some mem [of "PT_INDEX va" g] by (simp add: leaf_def)
        qed (use ta in \<open>simp add: leaf_def\<close>)
      qed
      moreover have "pt_mem v' r' j = pt_mem v r' j" if h: "r' \<in> R" "256 \<le> j" "j < 512" for r' j
      proof -
        have "pt_page v r'" by (rule spaces_page [OF ok h(1), of "[]"]) (simp_all add: upath_def)
        then have "r' \<noteq> f" using al(3) by blast
        moreover have "\<not> (r' = t \<and> j = i)"
        proof
          assume a: "r' = t \<and> j = i"
          then have "[] = p" using spaces_inj [OF ok h(1) r _ upath_snoc [OF p(1)], of "[]" t] p(2) by (simp add: upath_def)
          then show False using i(2) a h(2) by simp
        qed
        ultimately show ?thesis using mem [OF h(3), of r'] by auto
      qed
      moreover have "table_at v' r' q = Some g" if h: "r' \<in> R" "upath q" "table_at v r' q = Some g" for r' q g
        using T [OF h(1,2)] h(3) none by auto
      moreover have "no_huge v' r'" if h: "r' \<in> R" "no_huge v r'" for r'
      proof -
        have "\<not> has_flag (pt_mem v' g j) PTE_HUGE" if q: "upath (q @ [j])" "length q = 2" "table_at v' r' q = Some g" for q j g
        proof (cases "g = f")
          case True
          then show ?thesis using q(1) mem [of j g] tf by (simp add: upath_def)
        next
          case False
          then have "table_at v r' q = Some g" using T [OF h(1) upath_snoc [OF q(1)]] q(3) by (auto split: if_splits)
          then have "\<not> has_flag (pt_mem v g j) PTE_HUGE" using h(2) q(1,2) by (simp add: no_huge_def)
          then show ?thesis using q(1) mem [of j g] False E(3) by (simp add: upath_def)
        qed
        then show ?thesis unfolding no_huge_def by blast
      qed
      moreover have "table_at v' r (p @ [i]) = Some f" using T [OF r p(1)] by simp
      moreover have "bits_ok v'" if "bits_ok v"
      proof -
        have "pt_bit_test (frame_pa g) v' = pt_bit_test (frame_pa g) v1" for g by (rule pt_bit_test_cong) (simp add: res(1))
        then show ?thesis using that al(2,7,9,10) by (auto simp: bits_ok_def res(1) pt_page_def) (simp add: set_entry_def)
      qed
      moreover have "stray v' R g \<and> (\<forall>j < 512. pt_mem v' g j = pt_mem v g j)" if g: "stray v R g" for g
      proof -
        have "g \<noteq> f" "g \<noteq> t" using g al(3) r upath_snoc [OF p(1)] p(2) by (auto simp: stray_def)
        moreover have "table_at v' r' q \<noteq> Some g" if "r' \<in> R" "upath q" for r' q
          using T [OF that] g that \<open>g \<noteq> f\<close> by (auto simp: stray_def)
        moreover have "pt_page v' g" using g al(4) by (simp add: stray_def res(1))
        ultimately show ?thesis using mem by (simp add: stray_def)
      qed
      ultimately show ?thesis using ok' al(4,6-8,11) res by (simp add: spaces_kept_def)
    qed
  qed
qed


section \<open>Mapping and unmapping\<close>

lemma set_leaf:
  assumes ok: "spaces_ok v R" and r: "r \<in> R" and p: "upath p" "length p = 3" "table_at v r p = Some t"
  shows "\<And>r' q. r' \<in> R \<Longrightarrow> upath q \<Longrightarrow> table_at (set_entry t i e v) r' q = table_at v r' q"
    "spaces_ok (set_entry t i e v) R"
proof -
  let ?v = "set_entry t i e v"
  have T: "table_at ?v r' q = table_at v r' q" if "r' \<in> R" "upath q" for r' q
    using that(2)
  proof (induction q rule: rev_induct)
    case (snoc j q)
    have uq: "upath q" by (rule upath_snoc [OF snoc.prems])
    show ?case
    proof (cases "table_at v r' q")
      case (Some u)
      have "u \<noteq> t"
      proof
        assume "u = t"
        then have "q = p" using spaces_inj [OF ok that(1) r uq p(1) Some] p(3) by simp
        then show False using snoc.prems p(2) by (simp add: upath_def)
      qed
      then show ?thesis using Some snoc.IH [OF uq] by (simp add: table_at_snoc next_table_def pt_mem_set_entry)
    qed (use snoc.IH [OF uq] in \<open>simp add: table_at_snoc\<close>)
  qed simp
  then show "\<And>r' q. r' \<in> R \<Longrightarrow> upath q \<Longrightarrow> table_at ?v r' q = table_at v r' q" .
  have huge: "\<not> has_flag (pt_mem ?v g j) PTE_HUGE"
    if h: "r' \<in> R" "upath (q @ [j])" "length q \<le> 1" "table_at ?v r' q = Some g" "has_flag (pt_mem ?v g j) PTE_PRESENT" for r' q j g
  proof -
    have g: "table_at v r' q = Some g" using h(4) T [OF h(1) upath_snoc [OF h(2)]] by simp
    have "g \<noteq> t"
    proof
      assume "g = t"
      then have "q = p" using spaces_inj [OF ok h(1) r upath_snoc [OF h(2)] p(1) g] p(3) by simp
      then show False using h(3) p(2) by simp
    qed
    then show ?thesis using ok h(1-3,5) g unfolding spaces_ok_def by (auto simp: pt_mem_set_entry)
  qed
  have "\<forall>r \<in> R. \<forall>r' \<in> R. \<forall>p q f. upath p \<and> upath q \<and> table_at ?v r p = Some f \<and> table_at ?v r' q = Some f \<longrightarrow> r = r' \<and> p = q"
    using spaces_inj [OF ok] T by (metis (no_types))
  moreover have "\<forall>r \<in> R. \<forall>p f. upath p \<and> table_at ?v r p = Some f \<longrightarrow> pt_page ?v f"
    using spaces_page [OF ok] T by (metis pt_page_set_entry)
  moreover have "pmm_inv (v_pmm ?v)" using ok by (simp add: spaces_ok_def)
  ultimately show "spaces_ok ?v R" using huge unfolding spaces_ok_def by blast
qed

text \<open>What a write of the last-level entry of \<open>virt\<close> in \<open>r\<close> does to every address in every address space.\<close>

lemma leaf_set:
  assumes ok: "spaces_ok v R" and r: "r \<in> R" and p: "virt \<le> USER_SPACE_END" "table_at v r (upath_of virt) = Some t"
    and r': "r' \<in> R" and va: "va \<le> USER_SPACE_END"
  shows "leaf (set_entry t (PT_INDEX virt) e v) r' va =
    (if r' = r \<and> drop_bit 12 va = drop_bit 12 virt then e else leaf v r' va)"
proof -
  let ?v = "set_entry t (PT_INDEX virt) e v"
  have T: "table_at ?v r' (upath_of va) = table_at v r' (upath_of va)"
    by (rule set_leaf(1) [OF ok r upath_of_ok [OF p(1)] _ p(2) r' upath_of_ok [OF va]]) (simp add: upath_of_def)
  show ?thesis
  proof (cases "table_at v r' (upath_of va)")
    case None
    have "upath_of va = upath_of virt" if "drop_bit 12 va = drop_bit 12 virt"
      using that same_page_iff [OF va p(1)] by (simp add: upath_of_def)
    then have "\<not> (r' = r \<and> drop_bit 12 va = drop_bit 12 virt)" using p(2) None by auto
    then show ?thesis using T None by (auto simp: leaf_def)
  next
    case (Some g)
    have "g = t \<longleftrightarrow> r' = r \<and> upath_of va = upath_of virt"
      using spaces_inj [OF ok r' r upath_of_ok [OF va] upath_of_ok [OF p(1)] Some] p(2) Some by auto
    then show ?thesis using T Some same_page_iff [OF va p(1)] by (auto simp: leaf_def pt_mem_set_entry upath_of_def)
  qed
qed

lemma upath_pre: "virt \<le> USER_SPACE_END \<Longrightarrow> upath ([] @ [PML4_INDEX virt])"
    "virt \<le> USER_SPACE_END \<Longrightarrow> upath ([PML4_INDEX virt] @ [PDPT_INDEX virt])"
    "virt \<le> USER_SPACE_END \<Longrightarrow> upath ([PML4_INDEX virt, PDPT_INDEX virt] @ [PD_INDEX virt])"
  by (simp_all add: upath_def user_index)

lemma map_page_spec:
  assumes ok: "spaces_ok v R" and r: "r \<in> R" and virt: "virt \<le> USER_SPACE_END"
    and run: "vmm_map_page r virt phys flags v = (rc, v')"
  shows "\<exists>v1. spaces_kept v v1 R \<and>
    (rc = 0 \<longrightarrow> \<not> has_flag (leaf v r virt) PTE_PRESENT \<and>
       (\<exists>t. table_at v1 r (upath_of virt) = Some t \<and> v' = set_entry t (PT_INDEX virt) ((phys AND PTE_ADDR_MASK) OR flags) v1)) \<and>
    (rc \<noteq> 0 \<longrightarrow> v' = v1) \<and> rc \<in> {0, -1, -2}"
proof -
  define uf where "uf = (if has_flag flags PTE_USER then PTE_USER else 0)"
  have uf: "uf = 0 \<or> uf = PTE_USER" by (simp add: uf_def)
  note run' = run [unfolded vmm_map_page_def Let_def, folded uf_def]
  have root: "table_at v r [] = Some r" by simp
  obtain a v1 where p1: "pt_ensure r (PML4_INDEX virt) uf v = (a, v1)" by fastforce
  have k1: "spaces_kept v v1 R" "\<And>u. a = Some u \<Longrightarrow> table_at v1 r [PML4_INDEX virt] = Some u"
    using pt_ensure_kept [OF ok r upath_pre(1) [OF virt] root _ uf p1] by auto
  show ?thesis
  proof (cases a)
    case None
    then show ?thesis using run' p1 k1(1) by auto
  next
    case (Some pdpt)
    have ok1: "spaces_ok v1 R" using k1(1) by (simp add: spaces_kept_def)
    note t1 = k1(2) [OF Some]
    obtain b v2 where p2: "pt_ensure pdpt (PDPT_INDEX virt) uf v1 = (b, v2)" by fastforce
    have k2: "spaces_kept v1 v2 R" "\<And>u. b = Some u \<Longrightarrow> table_at v2 r [PML4_INDEX virt, PDPT_INDEX virt] = Some u"
      using pt_ensure_kept [OF ok1 r upath_pre(2) [OF virt] t1 _ uf p2] by auto
    note k12 = spaces_kept_trans [OF k1(1) k2(1)]
    show ?thesis
    proof (cases b)
      case None
      then show ?thesis using run' p1 p2 Some k12 by auto
    next
      case (Some pd)
      have ok2: "spaces_ok v2 R" using k2(1) by (simp add: spaces_kept_def)
      note t2 = k2(2) [OF Some]
      show ?thesis
      proof (cases "has_flag (pt_mem v2 pd (PD_INDEX virt)) PTE_HUGE")
        case True
        then show ?thesis using run' p1 p2 \<open>a = Some pdpt\<close> Some k12 by auto
      next
        case False
        obtain c v3 where p3: "pt_ensure pd (PD_INDEX virt) uf v2 = (c, v3)" by fastforce
        have k3: "spaces_kept v2 v3 R" "\<And>u. c = Some u \<Longrightarrow> table_at v3 r (upath_of virt) = Some u"
          using pt_ensure_kept [OF ok2 r upath_pre(3) [OF virt] t2 False uf p3] by (auto simp: upath_of_def)
        note k13 = spaces_kept_trans [OF k12 k3(1)]
        show ?thesis
        proof (cases c)
          case None
          then show ?thesis using run' p1 p2 p3 \<open>a = Some pdpt\<close> Some False k13 by auto
        next
          case (Some pt)
          note t3 = k3(2) [OF Some]
          have "leaf v r virt = pt_mem v3 pt (PT_INDEX virt)"
          proof -
            have "leaf v3 r virt = leaf v r virt" using k13 r virt by (simp add: spaces_kept_def)
            then show ?thesis using t3 by (simp add: leaf_def)
          qed
          then show ?thesis using run' p1 p2 p3 \<open>a = Some pdpt\<close> \<open>b = Some pd\<close> Some False k13 t3 by (auto split: if_splits)
        qed
      qed
    qed
  qed
qed


lemma get_pte_table_at:
  assumes ok: "spaces_ok v R" and r: "r \<in> R" and virt: "virt \<le> USER_SPACE_END"
  shows "vmm_get_pte r virt v = map_option (\<lambda>t. (t, PT_INDEX virt)) (table_at v r (upath_of virt))"
proof -
  let ?e4 = "pt_mem v r (PML4_INDEX virt)"
  let ?e3 = "pt_mem v (entry_frame ?e4) (PDPT_INDEX virt)"
  have huge: "upath (p @ [i]) \<Longrightarrow> length p \<le> 1 \<Longrightarrow> table_at v r p = Some f \<Longrightarrow> has_flag (pt_mem v f i) PTE_PRESENT \<Longrightarrow>
      \<not> has_flag (pt_mem v f i) PTE_HUGE" for p i f
    using ok r unfolding spaces_ok_def by blast
  have n4: "next_table v r (PML4_INDEX virt) = (if has_flag ?e4 PTE_PRESENT then Some (entry_frame ?e4) else None)"
    using huge [OF upath_pre(1) [OF virt], of r] by (simp add: next_table_def)
  have n3: "next_table v (entry_frame ?e4) (PDPT_INDEX virt) = (if has_flag ?e3 PTE_PRESENT then Some (entry_frame ?e3) else None)"
    if "has_flag ?e4 PTE_PRESENT"
    using huge [OF upath_pre(2) [OF virt], of "entry_frame ?e4"] n4 that by (simp add: next_table_def)
  show ?thesis
    using n3 by (simp add: vmm_get_pte_def upath_of_def n4 Let_def next_table_def [of v "entry_frame ?e3"])
qed

lemma unmap_page_spec:
  assumes ok: "spaces_ok v R" and r: "r \<in> R" and virt: "virt \<le> USER_SPACE_END"
    and run: "vmm_unmap_page r virt v = (rc, v')"
  shows "(rc = 0 \<longleftrightarrow> has_flag (leaf v r virt) PTE_PRESENT) \<and> rc \<in> {0, -1} \<and>
    (if rc = 0 then \<exists>t. table_at v r (upath_of virt) = Some t \<and> v' = set_entry t (PT_INDEX virt) 0 v else v' = v)"
  using run get_pte_table_at [OF ok r virt]
  by (auto simp: vmm_unmap_page_def leaf_def split: option.splits if_splits)

section \<open>New address spaces\<close>

text \<open>
  The tables of the user half of \<open>r\<close> are all below entry 0 only if the current address space has one
  there; \<open>vmm_create_address_space\<close> copies that entry.
\<close>

lemma create_spec:
  assumes ok: "pmm_inv (v_pmm v)" and run: "vmm_create_address_space v = (Some f, v')"
  shows "pmm_inv (v_pmm v')" "pt_page v' f" "\<not> pt_page v f" "cr3 v' = cr3 v" "\<And>g. pt_page v g \<Longrightarrow> pt_page v' g"
    "\<And>g j. j < 512 \<Longrightarrow> pt_mem v' g j =
       (if g = f then if j = 0 \<or> j = 256 \<or> j = 511 then if vmm_current_pml4 v = f then 0 else pt_mem v (vmm_current_pml4 v) j
                      else 0
        else pt_mem v g j)"
    "\<And>g. allocated (v_pmm v) g 0 \<Longrightarrow> allocated (v_pmm v') g 0" "free_frames (v_pmm v') \<subseteq> free_frames (v_pmm v)"
proof -
  obtain v1 where a: "vmm_alloc_pt_page v = (Some f, v1)"
    using run by (auto simp: vmm_create_address_space_def Let_def split: prod.splits option.splits)
  note A = vmm_alloc_Some [OF ok a]
  let ?c = "entry_frame (cr3 v1)"
  have v': "v' = (let v = zero_page f v1; v = set_entry f 0 (pt_mem v ?c 0) v; v = set_entry f 256 (pt_mem v ?c 256) v
      in set_entry f 511 (pt_mem v ?c 511) v)"
    using run a by (simp add: vmm_create_address_space_def vmm_current_pml4_def Let_def)
  show "pmm_inv (v_pmm v')" "cr3 v' = cr3 v" using A(1,4) by (simp_all add: v' Let_def)
  show "allocated (v_pmm v) g 0 \<Longrightarrow> allocated (v_pmm v') g 0" for g using A(8) by (simp add: v' Let_def)
  show "free_frames (v_pmm v') \<subseteq> free_frames (v_pmm v)" using A(9) by (simp add: v' Let_def)
  have pg: "pt_page v' g = pt_page v1 g" for g
    using pt_bit_test_cong [of "zero_page f v1" v1] by (simp add: v' Let_def) (simp add: pt_page_def)
  show "pt_page v' f" "\<not> pt_page v f" "pt_page v g \<Longrightarrow> pt_page v' g" for g using A(2,3,6) pg by simp_all
  show "pt_mem v' g j = (if g = f then if j = 0 \<or> j = 256 \<or> j = 511 then if vmm_current_pml4 v = f then 0 else pt_mem v (vmm_current_pml4 v) j
                      else 0 else pt_mem v g j)" if "j < 512" for g j
    using A(4,5) that by (auto simp: v' Let_def pt_mem_set_entry pt_mem_zero_page vmm_current_pml4_def)
qed


lemma frame_pa_entry_frame: "frame_pa (entry_frame e) = e AND PTE_ADDR_MASK"
proof -
  have m: "PTE_ADDR_MASK = push_bit 12 (mask 40)" by (simp add: kernel_defs mask_eq_exp_minus_1)
  have "frame_pa (entry_frame e) = push_bit 12 (drop_bit 12 (e AND PTE_ADDR_MASK))"
    by (simp add: frame_pa_push entry_frame_def)
  also have "\<dots> = e AND PTE_ADDR_MASK"
    unfolding m by (rule bit_word_eqI) (auto simp: bit_simps)
  finally show ?thesis .
qed

lemma table_at_same:
  assumes ok: "spaces_ok v R" and f: "\<not> pt_page v f"
    and mem: "\<And>g j. j < 512 \<Longrightarrow> g \<noteq> f \<Longrightarrow> pt_mem v' g j = pt_mem v g j"
    and r: "r \<in> R" and q: "upath q"
  shows "table_at v' r q = table_at v r q"
  using q
proof (induction q rule: rev_induct)
  case (snoc j q)
  have j: "j < 512" "upath q" using snoc.prems upath_snoc by (auto simp: upath_def)
  show ?case
  proof (cases "table_at v r q")
    case (Some u)
    then have "u \<noteq> f" using spaces_page [OF ok r j(2)] f by blast
    then show ?thesis using snoc.IH [OF j(2)] Some mem [OF j(1)] by (simp add: table_at_snoc next_table_def)
  qed (use snoc.IH [OF j(2)] in \<open>simp add: table_at_snoc\<close>)
qed simp

text \<open>A root whose user half is empty joins the address spaces.\<close>

lemma spaces_ok_insert:
  assumes ok: "spaces_ok v R" and f: "\<not> pt_page v f" "pt_page v' f"
    and mem: "\<And>g j. j < 512 \<Longrightarrow> g \<noteq> f \<Longrightarrow> pt_mem v' g j = pt_mem v g j"
    and empty: "\<And>j. j < 256 \<Longrightarrow> \<not> has_flag (pt_mem v' f j) PTE_PRESENT"
    and keep: "pmm_inv (v_pmm v')" "\<And>g. pt_page v g \<Longrightarrow> pt_page v' g"
  shows "spaces_ok v' (insert f R)"
    "\<And>r q. r \<in> R \<Longrightarrow> upath q \<Longrightarrow> table_at v' r q = table_at v r q"
    "\<And>q. upath q \<Longrightarrow> table_at v' f q = (if q = [] then Some f else None)"
proof -
  have old: "table_at v r q \<noteq> Some f" if "r \<in> R" "upath q" for r q
    using spaces_page [OF ok that] f(1) by blast
  have T: "table_at v' r q = table_at v r q" if "r \<in> R" "upath q" for r q
    by (rule table_at_same [OF ok f(1) _ that]) (rule mem)
  have F: "table_at v' f q = (if q = [] then Some f else None)" if "upath q" for q
    using that empty by (cases q) (auto simp: upath_def next_table_def)
  have fR: "f \<notin> R" using old [of f "[]"] by (auto simp: upath_def)
  have inj: "r1 = r2 \<and> q1 = q2"
    if h: "r1 \<in> insert f R" "r2 \<in> insert f R" "upath q1" "upath q2" "table_at v' r1 q1 = Some g" "table_at v' r2 q2 = Some g"
    for r1 r2 q1 q2 g
  proof (cases "g = f")
    case True
    then have "r1 = f" "r2 = f" using h old T by (metis insertE)+
    then show ?thesis using h(3-6) F by (auto split: if_splits)
  next
    case False
    then have "r1 \<noteq> f" "r2 \<noteq> f" using h(3-6) F by (auto split: if_splits)
    then show ?thesis using h spaces_inj [OF ok, of r1 r2 q1 q2 g] T by auto
  qed
  have page: "pt_page v' g" if h: "r \<in> insert f R" "upath q" "table_at v' r q = Some g" for r q g
    using h F [OF h(2)] T [of r q] spaces_page [OF ok, of r q g] f(2) keep(2) by (auto split: if_splits)
  have huge: "\<not> has_flag (pt_mem v' g j) PTE_HUGE"
    if h: "r \<in> insert f R" "upath (q @ [j])" "length q \<le> 1" "table_at v' r q = Some g" "has_flag (pt_mem v' g j) PTE_PRESENT" for r q j g
  proof (cases "r = f")
    case True
    then have "q = []" "g = f" using h(4) F [OF upath_snoc [OF h(2)]] by (auto split: if_splits)
    then show ?thesis using h(2,5) empty [of j] by (simp add: upath_def)
  next
    case False
    then have g: "r \<in> R" "table_at v r q = Some g" using h(1,4) T [of r q] upath_snoc [OF h(2)] by auto
    then have "g \<noteq> f" using old [OF g(1) upath_snoc [OF h(2)]] by blast
    moreover have "j < 512" using h(2) by (simp add: upath_def)
    ultimately have "pt_mem v' g j = pt_mem v g j" using mem by blast
    then show ?thesis using ok g h(2,3,5) unfolding spaces_ok_def by auto
  qed
  show "spaces_ok v' (insert f R)" unfolding spaces_ok_def
  proof (intro conjI ballI allI impI, goal_cases)
    case (5 r p i g)
    then show ?case by (intro huge [of r p i g]) blast+
  qed (use keep(1) inj page in blast)+
  show "\<And>r q. r \<in> R \<Longrightarrow> upath q \<Longrightarrow> table_at v' r q = table_at v r q" by (rule T)
  show "\<And>q. upath q \<Longrightarrow> table_at v' f q = (if q = [] then Some f else None)" by (rule F)
qed

text \<open>At least \<open>k\<close> free frames, none below 1 MB (\<open>pmm_init\<close> registers none there).\<close>

definition room :: "vmm_state \<Rightarrow> nat \<Rightarrow> bool" where
  "room v k \<longleftrightarrow> k \<le> card (free_frames (v_pmm v)) \<and> (\<forall>f \<in> free_frames (v_pmm v). 0x100 \<le> f)"

lemma room_less: "room v m \<Longrightarrow> k \<le> m \<Longrightarrow> room v k"
  by (simp add: room_def)

lemma pmm_alloc_room:
  assumes "pmm_inv s" "free_frames s \<noteq> {}"
  shows "\<exists>pg p. pmm_alloc_pages 0 s = (Some pg, p) \<and> pg \<in> free_frames s \<and> free_frames p = free_frames s - {pg}"
proof -
  have o: "(0::int) < int MAX_ORDER" by (simp add: MAX_ORDER_def)
  have "\<not> (\<forall>k. nat 0 \<le> k \<and> k < MAX_ORDER \<longrightarrow> free_lists s k = [])"
    using assms(2) by (auto simp: free_frames_def frames_def heads_def)
  then obtain pg p where a: "pmm_alloc_pages 0 s = (Some pg, p)"
    using pmm_alloc_None(1) [OF assms(1) order_refl o] by (cases "pmm_alloc_pages 0 s") auto
  moreover have "blk pg 0 = {pg}" by (auto simp: blk_def)
  ultimately show ?thesis using pmm_alloc_Some(4,5) [OF assms(1) order_refl o a] by auto
qed

lemma vmm_alloc_room:
  assumes "pmm_inv (v_pmm v)" "room v (Suc k)"
  shows "\<exists>f v'. vmm_alloc_pt_page v = (Some f, v') \<and> room v' k"
proof -
  have "free_frames (v_pmm v) \<noteq> {}" using assms(2) by (auto simp: room_def)
  then obtain pg p where a: "pmm_alloc_pages 0 (v_pmm v) = (Some pg, p)" "pg \<in> free_frames (v_pmm v)"
    "free_frames p = free_frames (v_pmm v) - {pg}" using pmm_alloc_room [OF assms(1)] by blast
  have "pg < MAX_PAGES" using assms(1) a(2) by (auto simp: pmm_inv_def managed_def)
  then have "\<not> frame_pa pg < PMM_PHYS_LOW_LIMIT" "frame_pa pg < PMM_PHYS_HIGH_LIMIT"
    using frame_pa_range [of pg] assms(2) a(2) by (auto simp: room_def)
  then show ?thesis using a assms(2) by (auto simp: vmm_alloc_pt_page_def Let_def frame_pa_aligned room_def not_le)
qed

lemma pt_ensure_room:
  assumes "pmm_inv (v_pmm v)" "room v (Suc k)" "pt_ensure t i uf v = (res, v')"
  shows "res \<noteq> None \<and> room v' k"
proof -
  obtain f v1 where "vmm_alloc_pt_page v = (Some f, v1)" "room v1 k" using vmm_alloc_room [OF assms(1,2)] by blast
  then show ?thesis using assms(2,3) room_less [OF assms(2), of k]
    by (auto simp: pt_ensure_def Let_def room_def split: if_splits)
qed

text \<open>In address spaces that are in order no entry is dropped.\<close>

lemma setup_entry_ensure:
  assumes ok: "spaces_ok v R" and r: "r \<in> R" and p: "upath (p @ [i])" "table_at v r p = Some t"
    and huge: "length p = 2 \<Longrightarrow> \<not> has_flag (pt_mem v t i) PTE_HUGE"
  shows "setup_entry t i v = pt_ensure t i PTE_USER v"
proof -
  have "vmm_is_pt_page_strict (pt_mem v t i AND PTE_ADDR_MASK) v" if pr: "has_flag (pt_mem v t i) PTE_PRESENT"
  proof -
    have "\<not> has_flag (pt_mem v t i) PTE_HUGE"
    proof (cases "length p = 2")
      case False
      then have "length p \<le> 1" using p(1) by (auto simp: upath_def)
      then show ?thesis using ok r p pr unfolding spaces_ok_def by blast
    qed (rule huge)
    then have "table_at v r (p @ [i]) = Some (entry_frame (pt_mem v t i))"
      using p(2) pr by (simp add: table_at_snoc next_table_def)
    then show ?thesis using pt_page_strict [OF spaces_page [OF ok r p(1)]] by (simp add: frame_pa_entry_frame)
  qed
  then show ?thesis by (simp add: setup_entry_def)
qed

lemma setup_step_kept:
  assumes ok: "spaces_ok v R" and r: "r \<in> R" and a: "a < 2 ^ 47" and run: "setup_step r a v = (rc, v')"
  shows "spaces_kept v v' R \<and> (rc = 0 \<or> rc = -1) \<and> (rc = 0 \<longrightarrow> table_at v' r (upath_of (of_nat a)) \<noteq> None) \<and>
    (room v (Suc (Suc (Suc k))) \<and> no_huge v r \<longrightarrow> rc = 0 \<and> room v' k)"
proof -
  have rm: "room v (Suc n) \<Longrightarrow> pt_ensure t i uf v = (x, w) \<Longrightarrow> x \<noteq> None \<and> room w n" if "spaces_ok v R" for v n t i uf x w
    using pt_ensure_room [of v n t i uf x w] that by (simp add: spaces_ok_def)
  let ?a = "of_nat a :: u64"
  have ua: "?a \<le> USER_SPACE_END" using a by (simp add: word_le_nat_alt USER_SPACE_END_def unat_of_nat)
  have root: "table_at v r [] = Some r" by simp
  have E1: "setup_entry r (PML4_INDEX ?a) v = pt_ensure r (PML4_INDEX ?a) PTE_USER v"
    by (rule setup_entry_ensure [OF ok r upath_pre(1) [OF ua] root]) simp
  obtain x v1 where p1: "pt_ensure r (PML4_INDEX ?a) PTE_USER v = (x, v1)" by fastforce
  have k1: "spaces_kept v v1 R" "\<And>u. x = Some u \<Longrightarrow> table_at v1 r [PML4_INDEX ?a] = Some u"
    using pt_ensure_kept [OF ok r upath_pre(1) [OF ua] root _ _ p1] by auto
  have ok1: "spaces_ok v1 R" using k1(1) by (simp add: spaces_kept_def)
  note run' = run [unfolded setup_step_def E1 p1 prod.case]
  show ?thesis
  proof (cases x)
    case None
    then show ?thesis using run' user_index [OF ua] k1(1) rm [OF ok _ p1] by auto
  next
    case x: (Some pdpt)
    note t1 = k1(2) [OF x]
    have E2: "setup_entry pdpt (PDPT_INDEX ?a) v1 = pt_ensure pdpt (PDPT_INDEX ?a) PTE_USER v1"
      by (rule setup_entry_ensure [OF ok1 r upath_pre(2) [OF ua] t1]) simp
    obtain y v2 where p2: "pt_ensure pdpt (PDPT_INDEX ?a) PTE_USER v1 = (y, v2)" by fastforce
    have k2: "spaces_kept v1 v2 R" "\<And>u. y = Some u \<Longrightarrow> table_at v2 r [PML4_INDEX ?a, PDPT_INDEX ?a] = Some u"
      using pt_ensure_kept [OF ok1 r upath_pre(2) [OF ua] t1 _ _ p2] by auto
    have ok2: "spaces_ok v2 R" using k2(1) by (simp add: spaces_kept_def)
    note k12 = spaces_kept_trans [OF k1(1) k2(1)]
    show ?thesis
    proof (cases y)
      case None
      then show ?thesis using run' user_index [OF ua] x E2 p2 k12 rm [OF ok _ p1] rm [OF ok1 _ p2] by auto
    next
      case y: (Some pd)
      note t2 = k2(2) [OF y]
      show ?thesis
      proof (cases "has_flag (pt_mem v2 pd (PD_INDEX ?a)) PTE_HUGE")
        case True
        have "no_huge v r \<Longrightarrow> no_huge v2 r" using k12 r by (simp add: spaces_kept_def)
        moreover have "\<not> no_huge v2 r"
        proof
          assume "no_huge v2 r"
          then show False using upath_pre(3) [OF ua] t2 True unfolding no_huge_def
            by (metis One_nat_def Suc_1 length_Cons list.size(3))
        qed
        ultimately show ?thesis using run' user_index [OF ua] x y E2 p2 k12 True by auto
      next
        case False
        have E3: "setup_entry pd (PD_INDEX ?a) v2 = pt_ensure pd (PD_INDEX ?a) PTE_USER v2"
          by (rule setup_entry_ensure [OF ok2 r upath_pre(3) [OF ua] t2 False])
        obtain z v3 where p3: "pt_ensure pd (PD_INDEX ?a) PTE_USER v2 = (z, v3)" by fastforce
        have k3: "spaces_kept v2 v3 R" "\<And>u. z = Some u \<Longrightarrow> table_at v3 r (upath_of ?a) = Some u"
          using pt_ensure_kept [OF ok2 r upath_pre(3) [OF ua] t2 False _ p3] by (auto simp: upath_of_def)
        note k13 = spaces_kept_trans [OF k12 k3(1)]
        have Z: "room v3 k \<and> z \<noteq> None" if "room v (Suc (Suc (Suc k)))"
        proof -
          have "room v1 (Suc (Suc k))" using rm [OF ok that p1] by simp
          then have "room v2 (Suc k)" using rm [OF ok1 _ p2] by simp
          then show ?thesis using rm [OF ok2 _ p3] by simp
        qed
        have "\<not> PML4_INDEX ?a \<ge> 256" using user_index [OF ua] by simp
        note run4 = run' [unfolded x y option.case E2 p2 E3 p3 prod.case if_not_P [OF this] if_not_P [OF False]]
        show ?thesis
        proof (cases z)
          case None
          then have "rc = -1" "v' = v3" using run4 by simp_all
          then show ?thesis using k13 Z None by auto
        next
          case (Some u)
          then have "rc = 0" "v' = v3" using run4 by simp_all
          then show ?thesis using k13 Z k3(2) [OF Some] by simp
        qed
      qed
    qed
  qed
qed

lemma setup_loop_kept:
  assumes "spaces_ok v R" "r \<in> R" "limit \<le> 2 ^ 47" "setup_loop r a limit v = (rc, v')"
  shows "spaces_kept v v' R \<and> (rc = 0 \<or> rc = -1) \<and> (a < limit \<and> rc = 0 \<longrightarrow> table_at v' r (upath_of (of_nat a)) \<noteq> None) \<and>
    ((a mod 2 ^ 21 = 0 \<or> limit \<le> a) \<and> limit - a \<le> m * 2 ^ 21 \<and> no_huge v r \<and> room v (k + 3 * m) \<longrightarrow> rc = 0 \<and> room v' k)"
  using assms
proof (induction r a limit v arbitrary: rc v' m rule: setup_loop.induct)
  case (1 r a limit v)
  show ?case
  proof (cases "a < limit")
    case True
    obtain c w where s: "setup_step r a v = (c, w)" by fastforce
    have K: "spaces_kept v w R" "c = 0 \<or> c = -1" "c = 0 \<longrightarrow> table_at w r (upath_of (of_nat a)) \<noteq> None"
      and Km: "\<And>k. room v (Suc (Suc (Suc k))) \<and> no_huge v r \<longrightarrow> c = 0 \<and> room w k"
      using setup_step_kept [OF 1(2,3) _ s] True 1(4) by auto
    let ?n = "a div 2 ^ 21 * 2 ^ 21 + 2 ^ 21" let ?n' = "if limit < ?n then limit else ?n"
    have "room v (k + 3 * m) \<Longrightarrow> limit - a \<le> m * 2 ^ 21 \<Longrightarrow> \<exists>m'. m = Suc m' \<and> room v (Suc (Suc (Suc (k + 3 * m'))))"
      using True by (cases m) (auto simp: numeral_3_eq_3)
    then have Kr: "room v (k + 3 * m) \<and> limit - a \<le> m * 2 ^ 21 \<and> no_huge v r \<Longrightarrow>
        c = 0 \<and> (\<exists>m'. m = Suc m' \<and> room w (k + 3 * m'))" using Km by blast
    show ?thesis
    proof (cases "c = 0")
      case False
      have "setup_loop r a limit v = (c, w)" using True s False by (subst setup_loop.simps) simp
      then show ?thesis using 1(5) K Kr False by auto
    next
      case c: True
      have "setup_loop r a limit v = setup_loop r ?n' limit w" using True s c by (subst setup_loop.simps) (simp add: Let_def)
      then have run: "setup_loop r ?n' limit w = (rc, v')" using 1(5) by simp
      have okw: "spaces_ok w R" using K(1) by (simp add: spaces_kept_def)
      have "\<not> c \<noteq> 0" using c by simp
      note IH = 1(1) [OF True s [symmetric] this refl refl okw 1(3,4) run]
      have I: "spaces_kept w v' R" "rc = 0 \<or> rc = -1" using IH [of 0] by simp_all
      note K' = spaces_kept_trans [OF K(1) I(1)]
      have tab: "table_at v' r (upath_of (of_nat a)) \<noteq> None"
      proof -
        have "(of_nat a :: u64) \<le> USER_SPACE_END" using True 1(4) by (simp add: word_le_nat_alt USER_SPACE_END_def unat_of_nat)
        then show ?thesis using I(1) K(3) c 1(3) unfolding spaces_kept_def by (metis not_None_eq upath_of_ok)
      qed
      have fin: "(a mod 2 ^ 21 = 0 \<or> limit \<le> a) \<and> limit - a \<le> m * 2 ^ 21 \<and> no_huge v r \<and> room v (k + 3 * m) \<longrightarrow>
          rc = 0 \<and> room v' k"
      proof (intro impI, elim conjE)
        assume h: "a mod 2 ^ 21 = 0 \<or> limit \<le> a" "limit - a \<le> m * 2 ^ 21" "no_huge v r" "room v (k + 3 * m)"
        obtain m' where m': "m = Suc m'" "room w (k + 3 * m')" using Kr h by blast
        have "a mod 2 ^ 21 = 0" using h(1) True by simp
        then have n: "?n = a + 2 ^ 21" using div_mult_mod_eq [of a "2 ^ 21"] by simp
        have "no_huge w r" using K(1) 1(3) h(3) by (simp add: spaces_kept_def)
        moreover have "?n' mod 2 ^ 21 = 0 \<or> limit \<le> ?n'" using \<open>a mod 2 ^ 21 = 0\<close> n by auto
        moreover have "limit - ?n' \<le> m' * 2 ^ 21" using h(2) n m'(1) by auto
        ultimately show "rc = 0 \<and> room v' k"
          using conjunct2 [OF conjunct2 [OF conjunct2 [OF IH [of m']]]] m'(2) by (simp only: simp_thms)
      qed
      show ?thesis using K' I(2) tab fin by simp
    qed
  next
    case False
    then have "setup_loop r a limit v = (0, v)" by (subst setup_loop.simps) simp
    then show ?thesis using 1(2,5) False room_less [of v "k + 3 * m" k] by (auto simp: spaces_kept_refl)
  qed
qed

text \<open>Mapping where the tables exist takes no frame.\<close>

lemma pt_ensure_present:
  "table_at v r p = Some t \<Longrightarrow> table_at v r (p @ [i]) = Some u \<Longrightarrow> pt_ensure t i uf v = (Some u, v) \<and> \<not> has_flag (pt_mem v t i) PTE_HUGE"
  by (auto simp: table_at_snoc next_table_def pt_ensure_def Let_def split: if_splits)

lemma map_page_present:
  assumes "table_at v r (upath_of virt) = Some t" "\<not> has_flag (leaf v r virt) PTE_PRESENT"
  shows "vmm_map_page r virt phys flags v = (0, set_entry t (PT_INDEX virt) ((phys AND PTE_ADDR_MASK) OR flags) v)"
proof -
  obtain u3 u2 where u: "table_at v r [PML4_INDEX virt] = Some u3" "table_at v r [PML4_INDEX virt, PDPT_INDEX virt] = Some u2"
    using assms(1) by (auto simp: upath_of_def split: option.splits)
  note P = pt_ensure_present [of v r "[]" r "PML4_INDEX virt" u3] pt_ensure_present [of v r "[PML4_INDEX virt]" u3 "PDPT_INDEX virt" u2]
    pt_ensure_present [of v r "[PML4_INDEX virt, PDPT_INDEX virt]" u2 "PD_INDEX virt" t]
  have "pt_mem v t (PT_INDEX virt) = leaf v r virt" using assms(1) by (simp add: leaf_def)
  then show ?thesis using P u assms by (simp add: vmm_map_page_def Let_def upath_of_def del: table_at.simps(2))
qed

end
