(* ===== verification/VmmInit.thy ===== *)
theory VmmInit
  imports VmmCorrect
begin

text \<open>The page table that \<open>vmm_init\<close> builds, and what the processor reads in it.\<close>

lemma fill_pd_mem:
  "pt_mem (fill_pd pd base fl v) g j =
     (if g = pd \<and> j < 512 then (base + push_bit 21 (of_nat j)) OR fl else pt_mem v g j)"
proof -
  have "pt_mem (fold (\<lambda>i. set_entry pd i (E i)) [0..<n] v) g j = (if g = pd \<and> j < n then E j else pt_mem v g j)" for E n
    by (induction n) (auto simp: pt_mem_set_entry less_Suc_eq)
  then show ?thesis by (simp add: fill_pd_def)
qed

lemma fill_pd_fields [simp]: "cr3 (fill_pd pd base fl v) = cr3 v" "v_pmm (fill_pd pd base fl v) = v_pmm v"
proof -
  have "cr3 (fold (\<lambda>i. set_entry pd i (E i)) xs v) = cr3 v \<and> v_pmm (fold (\<lambda>i. set_entry pd i (E i)) xs v) = v_pmm v" for E xs
    by (induction xs arbitrary: v) simp_all
  then show "cr3 (fill_pd pd base fl v) = cr3 v" "v_pmm (fill_pd pd base fl v) = v_pmm v" by (simp_all add: fill_pd_def)
qed

text \<open>The frames of the 14 static tables.\<close>

definition static_frames :: "kernel_tables \<Rightarrow> nat list" where
  "static_frames k = kt_pml4 k # kt_pdpt_low k # kt_pdpt_direct k # kt_pdpt_kern k # kt_pd_kern k #
     map (kt_pd_low k) [0..<4] @ map (kt_pd_direct k) [0..<4]"

lemma four: "[0..<4] = [0, 1, 2, 3 :: nat]"
  by (simp add: upt_rec)

lemma lt4: "gb < 4 \<longleftrightarrow> gb = 0 \<or> gb = 1 \<or> gb = 2 \<or> gb = (3::nat)"
  by auto

text \<open>What the processor does with an address: the walk down to a 2 MB or a 4 KB page.\<close>

definition hw_translate :: "vmm_state \<Rightarrow> nat \<Rightarrow> u64 \<Rightarrow> (u64 \<times> u64) option" where
  "hw_translate v root va =
     (let e4 = pt_mem v root (PML4_INDEX va); e3 = pt_mem v (entry_frame e4) (PDPT_INDEX va);
          e2 = pt_mem v (entry_frame e3) (PD_INDEX va); e1 = pt_mem v (entry_frame e2) (PT_INDEX va) in
      if \<not> has_flag e4 PTE_PRESENT \<or> \<not> has_flag e3 PTE_PRESENT \<or> \<not> has_flag e2 PTE_PRESENT then None
      else if has_flag e2 PTE_HUGE then Some ((e2 AND 0x000FFFFFFFE00000) + (va AND 0x1FFFFF), e2)
      else if \<not> has_flag e1 PTE_PRESENT then None
      else Some ((e1 AND PTE_ADDR_MASK) + (va AND 0xFFF), e1))"

lemma vmm_init_mem:
  fixes v :: vmm_state
  assumes d: "distinct (static_frames k)"
  defines "v' \<equiv> vmm_init k v" and "RW \<equiv> PTE_PRESENT OR PTE_WRITABLE"
  shows "pt_mem v' (kt_pml4 k) 0 = frame_pa (kt_pdpt_low k) OR RW" "pt_mem v' (kt_pml4 k) 256 = frame_pa (kt_pdpt_direct k) OR RW"
    "pt_mem v' (kt_pml4 k) 511 = frame_pa (kt_pdpt_kern k) OR RW" "pt_mem v' (kt_pdpt_kern k) 510 = frame_pa (kt_pd_kern k) OR RW"
    "\<And>gb. gb < 4 \<Longrightarrow> pt_mem v' (kt_pdpt_low k) gb = frame_pa (kt_pd_low k gb) OR RW"
    "\<And>gb. gb < 4 \<Longrightarrow> pt_mem v' (kt_pdpt_direct k) gb = frame_pa (kt_pd_direct k gb) OR RW"
    "\<And>gb i. gb < 4 \<Longrightarrow> i < 512 \<Longrightarrow> pt_mem v' (kt_pd_low k gb) i = (push_bit 30 (of_nat gb) + push_bit 21 (of_nat i)) OR (RW OR PTE_HUGE)"
    "\<And>gb i. gb < 4 \<Longrightarrow> i < 512 \<Longrightarrow>
       pt_mem v' (kt_pd_direct k gb) i = (push_bit 30 (of_nat gb) + push_bit 21 (of_nat i)) OR (RW OR PTE_HUGE OR PTE_NX)"
    "\<And>i. i < 512 \<Longrightarrow> pt_mem v' (kt_pd_kern k) i = (OB_KERNEL_LMA + push_bit 21 (of_nat i)) OR (RW OR PTE_HUGE)"
proof -
  have d': "distinct (rev (static_frames k))" using d by simp
  note ne = d [unfolded static_frames_def four, simplified] d' [unfolded static_frames_def four, simplified]
  note M = pt_mem_set_entry fill_pd_mem pt_mem_zero_page
  have v': "v' = vmm_init k v" by (simp add: v'_def)
  note E = v' vmm_init_def Let_def four fold_simps
  show "pt_mem v' (kt_pml4 k) 0 = frame_pa (kt_pdpt_low k) OR RW" unfolding E by (simp add: M ne RW_def)
  show "pt_mem v' (kt_pml4 k) 256 = frame_pa (kt_pdpt_direct k) OR RW" unfolding E by (simp add: M ne RW_def)
  show "pt_mem v' (kt_pml4 k) 511 = frame_pa (kt_pdpt_kern k) OR RW" unfolding E by (simp add: M ne RW_def)
  show "pt_mem v' (kt_pdpt_kern k) 510 = frame_pa (kt_pd_kern k) OR RW" unfolding E by (simp add: M ne RW_def)
  show "pt_mem v' (kt_pdpt_low k) gb = frame_pa (kt_pd_low k gb) OR RW" if "gb < 4" for gb
    using that unfolding lt4 E by (elim disjE) (simp_all add: M ne RW_def)
  show "pt_mem v' (kt_pdpt_direct k) gb = frame_pa (kt_pd_direct k gb) OR RW" if "gb < 4" for gb
    using that unfolding lt4 E by (elim disjE) (simp_all add: M ne RW_def)
  show "pt_mem v' (kt_pd_low k gb) i = (push_bit 30 (of_nat gb) + push_bit 21 (of_nat i)) OR (RW OR PTE_HUGE)"
    if "gb < 4" "i < 512" for gb i
    using that unfolding lt4 E by (elim disjE) (simp_all add: M ne RW_def)
  show "pt_mem v' (kt_pd_direct k gb) i = (push_bit 30 (of_nat gb) + push_bit 21 (of_nat i)) OR (RW OR PTE_HUGE OR PTE_NX)"
    if "gb < 4" "i < 512" for gb i
    using that unfolding lt4 E by (elim disjE) (simp_all add: M ne RW_def or.assoc)
  show "pt_mem v' (kt_pd_kern k) i = (OB_KERNEL_LMA + push_bit 21 (of_nat i)) OR (RW OR PTE_HUGE)" if "i < 512" for i
    using that unfolding E by (simp add: M ne RW_def)
qed


lemma index_split:
  assumes "unat va = T * 2 ^ 39 + G * 2 ^ 30 + I * 2 ^ 21 + off" "G < 512" "I < 512" "off < 2 ^ 21"
  shows "PML4_INDEX va = T mod 512" "PDPT_INDEX va = G" "PD_INDEX va = I" "unat (va AND 0x1FFFFF) = off"
proof -
  have n: "unat va = ((T * 512 + G) * 512 + I) * 2 ^ 21 + off" using assms(1) by simp
  have d: "unat va div 2 ^ 21 = (T * 512 + G) * 512 + I" using n assms(4) by simp
  have d30: "unat va div 2 ^ 30 = T * 512 + G"
  proof -
    have "unat va div 2 ^ 30 = unat va div 2 ^ 21 div 512" by (simp flip: div_mult2_eq)
    then show ?thesis using d assms(3) by simp
  qed
  have d39: "unat va div 2 ^ 39 = T"
  proof -
    have "unat va div 2 ^ 39 = unat va div 2 ^ 30 div 512" by (simp flip: div_mult2_eq)
    then show ?thesis using d30 assms(2) by simp
  qed
  show "PML4_INDEX va = T mod 512" "PDPT_INDEX va = G" "PD_INDEX va = I"
    unfolding index_nat d d30 d39 using mod_mult_self3 [of "T * 512 + G" 512 I] mod_mult_self3 [of T 512 G] assms(2,3)
    by (simp_all only: mod_less)
  have "va AND 0x1FFFFF = take_bit 21 va" by (simp add: take_bit_eq_mask mask_eq_exp_minus_1)
  moreover have "unat va mod 2 ^ 21 = off"
    unfolding n using mod_mult_self3 [of "(T * 512 + G) * 512 + I" "2 ^ 21" off] assms(4) by (simp only: mod_less)
  ultimately show "unat (va AND 0x1FFFFF) = off" by (simp add: take_bit_eq_mod unat_mod)
qed

lemma huge_entry:
  assumes "y < 2 ^ 31" "fl AND 0x000FFFFFFFE00000 = 0"
  shows "(push_bit 21 (of_nat y) OR fl) AND 0x000FFFFFFFE00000 = (push_bit 21 (of_nat y) :: u64)"
proof -
  have m: "(0x000FFFFFFFE00000 :: u64) = push_bit 21 (mask 31)" by (simp add: mask_eq_exp_minus_1)
  have "take_bit 31 (of_nat y :: u64) = of_nat y"
    using assms(1) by (simp add: word_unat_eq_iff unat_of_nat unat_mod take_bit_eq_mod)
  then have "push_bit 21 (of_nat y :: u64) AND 0x000FFFFFFFE00000 = push_bit 21 (of_nat y)"
    unfolding m by (metis push_bit_and take_bit_eq_mask)
  then show ?thesis using assms(2) by (simp add: bit.conj_disj_distrib2)
qed

lemma low_flag: "fl AND 0x1FFFFF = fl \<Longrightarrow> (push_bit 21 (of_nat y) OR w) AND fl = (w AND fl :: u64)"
proof -
  assume f: "fl AND 0x1FFFFF = fl"
  have "push_bit 21 (of_nat y) AND (mask 21 :: u64) = 0" by (rule bit_word_eqI) (auto simp: bit_simps)
  then have "push_bit 21 (of_nat y) AND (0x1FFFFF :: u64) = 0" by (simp add: mask_eq_exp_minus_1)
  then have "(push_bit 21 (of_nat y) AND 0x1FFFFF) AND fl = 0" by (simp only: zero_and_eq)
  then have "push_bit 21 (of_nat y) AND fl = 0" unfolding and.assoc using f by (simp only: and.commute)
  then show ?thesis by (simp add: bit.conj_disj_distrib2)
qed

text \<open>One translation through three tables whose last entry is \<open>(y << 21) | flags\<close>.\<close>

lemma hw_translate_huge:
  assumes "unat va = T * 2 ^ 39 + G * 2 ^ 30 + I * 2 ^ 21 + off" "G < 512" "I < 512" "off < 2 ^ 21"
    and "pt_mem v root (T mod 512) = frame_pa f3 OR (PTE_PRESENT OR PTE_WRITABLE)" "f3 < MAX_PAGES"
    and "pt_mem v f3 G = frame_pa f2 OR (PTE_PRESENT OR PTE_WRITABLE)" "f2 < MAX_PAGES"
    and "pt_mem v f2 I = push_bit 21 (of_nat y) OR fl" "y < 2 ^ 31" "fl = (PTE_PRESENT OR PTE_WRITABLE OR PTE_HUGE) \<or> fl = (PTE_PRESENT OR PTE_WRITABLE OR PTE_HUGE OR PTE_NX)"
  shows "hw_translate v root va = Some (push_bit 21 (of_nat y) + of_nat off, push_bit 21 (of_nat y) OR fl)"
    "(push_bit 21 (of_nat y) OR fl) AND PTE_USER = 0"
proof -
  note X = index_split [OF assms(1-4)]
  have e: "entry_frame (frame_pa f OR (PTE_PRESENT OR PTE_WRITABLE)) = f" "has_flag (frame_pa f OR (PTE_PRESENT OR PTE_WRITABLE)) PTE_PRESENT"
    if "f < MAX_PAGES" for f
    using entry_frame_mk(1,2) [OF that, of 0] by (simp_all add: or.assoc)
  have fl: "fl AND 0x000FFFFFFFE00000 = 0" "fl AND PTE_PRESENT = 1" "fl AND PTE_HUGE = 128" "fl AND PTE_USER = 0"
    using assms(11) by (auto simp: kernel_defs)
  have flags: "(push_bit 21 (of_nat y) OR fl) AND PTE_PRESENT = 1" "(push_bit 21 (of_nat y) OR fl) AND PTE_HUGE = 128"
      "(push_bit 21 (of_nat y) OR fl) AND PTE_USER = 0"
    using low_flag [of PTE_PRESENT y fl] low_flag [of PTE_HUGE y fl] low_flag [of PTE_USER y fl] fl(2-4) by (simp_all add: kernel_defs)
  have off: "va AND 0x1FFFFF = of_nat off" using assms(4) by (simp add: word_unat_eq_iff X(4) unat_of_nat)
  show "(push_bit 21 (of_nat y) OR fl) AND PTE_USER = 0" by (rule flags(3))
  show "hw_translate v root va = Some (push_bit 21 (of_nat y) + of_nat off, push_bit 21 (of_nat y) OR fl)"
    unfolding hw_translate_def Let_def X(1-3) assms(5) e(1) [OF assms(6)] assms(7) e(1) [OF assms(8)] assms(9) off huge_entry [OF assms(10) fl(1)]
    using e(2) [OF assms(6)] e(2) [OF assms(8)] flags by simp
qed


text \<open>
  C14. After \<open>vmm_init\<close> the processor's walk of the running page table gives: every address of the low 4 GB
  itself; \<open>DIRECTMAP_BASE + pa\<close> the physical address \<open>pa\<close> of the low 4 GB, not executable; and the kernel's
  1 GB from \<open>KERNEL_VMA_BASE\<close> on the memory from \<open>OB_KERNEL_LMA\<close> on. No user access anywhere.
\<close>

theorem vmm_init_translates:
  fixes v :: vmm_state
  assumes "distinct (static_frames k)" "\<forall>f \<in> set (static_frames k). f < MAX_PAGES"
  defines "v' \<equiv> vmm_init k v"
  shows "vmm_current_pml4 v' = kt_pml4 k \<and> g_kernel_pml4 v' = Some (kt_pml4 k) \<and>
    (\<forall>pa < 2 ^ 32. \<exists>e. hw_translate v' (kt_pml4 k) pa = Some (pa, e) \<and> \<not> has_flag e PTE_USER) \<and>
    (\<forall>pa < 2 ^ 32. \<exists>e. hw_translate v' (kt_pml4 k) (0xFFFF800000000000 + pa) = Some (pa, e) \<and> \<not> has_flag e PTE_USER \<and> has_flag e PTE_NX) \<and>
    (\<forall>x < 2 ^ 30. \<exists>e. hw_translate v' (kt_pml4 k) (0xFFFFFFFF80000000 + x) = Some (OB_KERNEL_LMA + x, e) \<and> \<not> has_flag e PTE_USER)"
proof -
  note M = vmm_init_mem [OF assms(1), where v = v, folded v'_def]
  have fr: "kt_pml4 k < MAX_PAGES" "kt_pdpt_low k < MAX_PAGES" "kt_pdpt_direct k < MAX_PAGES" "kt_pdpt_kern k < MAX_PAGES" "kt_pd_kern k < MAX_PAGES"
    "\<And>gb. gb < 4 \<Longrightarrow> kt_pd_low k gb < MAX_PAGES" "\<And>gb. gb < 4 \<Longrightarrow> kt_pd_direct k gb < MAX_PAGES"
    using assms(2) by (auto simp: static_frames_def)
  have cur: "vmm_current_pml4 v' = kt_pml4 k" "g_kernel_pml4 v' = Some (kt_pml4 k)"
  proof -
    have "entry_frame (frame_pa (kt_pml4 k)) = kt_pml4 k"
    proof -
      have "frame_pa (kt_pml4 k) AND PTE_ADDR_MASK = frame_pa (kt_pml4 k)"
        using entry_frame_mk(5) [OF fr(1), of 0] by (metis and.idem and.left_commute and.commute)
      then show ?thesis using pt_pfn_frame_pa [OF fr(1)] by (simp add: entry_frame_def pt_pfn_def)
    qed
    then show "vmm_current_pml4 v' = kt_pml4 k" "g_kernel_pml4 v' = Some (kt_pml4 k)"
      by (simp_all add: v'_def vmm_init_def Let_def vmm_current_pml4_def)
  qed
  have split: "unat w = (unat w div 2 ^ 30) * 2 ^ 30 + (unat w div 2 ^ 21 mod 512) * 2 ^ 21 + unat w mod 2 ^ 21" for w :: u64
  proof -
    have "unat w div 2 ^ 30 = unat w div 2 ^ 21 div 512" by (simp flip: div_mult2_eq)
    moreover have "q * 2 ^ 21 = q div 512 * 2 ^ 30 + q mod 512 * 2 ^ 21" for q :: nat
    proof -
      have "q * 2 ^ 21 = (q div 512 * 512 + q mod 512) * 2 ^ 21" by (simp only: div_mult_mod_eq)
      also have "\<dots> = q div 512 * 2 ^ 30 + q mod 512 * 2 ^ 21" by (subst distrib_right) simp
      finally show ?thesis .
    qed
    ultimately show ?thesis using div_mult_mod_eq [of "unat w" "2 ^ 21"] by metis
  qed
  have pair: "push_bit 30 (of_nat G) + push_bit 21 (of_nat I) = (push_bit 21 (of_nat (G * 512 + I)) :: u64)" for G I
    by (simp add: push_bit_eq_mult algebra_simps)
  have addr: "push_bit 21 (of_nat y) + of_nat off = (of_nat (y * 2 ^ 21 + off) :: u64)" for y off
    by (simp add: push_bit_eq_mult algebra_simps)
  let ?RWH = "PTE_PRESENT OR PTE_WRITABLE OR PTE_HUGE" let ?RWHN = "PTE_PRESENT OR PTE_WRITABLE OR PTE_HUGE OR PTE_NX"
  have low: "\<exists>e. hw_translate v' (kt_pml4 k) pa = Some (pa, e) \<and> \<not> has_flag e PTE_USER"
    "\<exists>e. hw_translate v' (kt_pml4 k) (0xFFFF800000000000 + pa) = Some (pa, e) \<and> \<not> has_flag e PTE_USER \<and> has_flag e PTE_NX"
    if "pa < 2 ^ 32" for pa
  proof -
    define G I off where "G = unat pa div 2 ^ 30" and "I = unat pa div 2 ^ 21 mod 512" and "off = unat pa mod 2 ^ 21"
    have pa: "unat pa < 2 ^ 32" using that by (simp add: word_less_nat_alt)
    then have G: "G < 4" by (simp add: G_def)
    have b: "G < 512" "I < 512" "off < 2 ^ 21" "G * 512 + I < 2 ^ 31" using G by (auto simp: I_def off_def)
    have u: "unat pa = G * 2 ^ 30 + I * 2 ^ 21 + off" using split [of pa] by (simp add: G_def I_def off_def)
    have sum: "push_bit 21 (of_nat (G * 512 + I)) + of_nat off = pa"
    proof -
      have "(G * 512 + I) * 2 ^ 21 + off = unat pa" using u by (simp add: algebra_simps)
      then show ?thesis unfolding addr by simp
    qed
    have u1: "unat pa = 0 * 2 ^ 39 + G * 2 ^ 30 + I * 2 ^ 21 + off" using u by simp
    have u2: "unat (0xFFFF800000000000 + pa) = 33554176 * 2 ^ 39 + G * 2 ^ 30 + I * 2 ^ 21 + off"
      using u pa by (simp add: unat_word_ariths)
    have m: "(0::nat) mod 512 = 0" "(33554176::nat) mod 512 = 256" by simp_all
    note H1 = hw_translate_huge [OF u1 b(1-3), unfolded m, OF M(1) fr(2) M(5) [OF G] fr(6) [OF G] M(7) [OF G b(2), unfolded pair or.assoc] b(4), simplified]
    show "\<exists>e. hw_translate v' (kt_pml4 k) pa = Some (pa, e) \<and> \<not> has_flag e PTE_USER" using H1 sum by auto
    note H2 = hw_translate_huge [OF u2 b(1-3), unfolded m, OF M(2) fr(3) M(6) [OF G] fr(7) [OF G] M(8) [OF G b(2), unfolded pair or.assoc] b(4), simplified]
    have "has_flag (w OR (PTE_PRESENT OR PTE_WRITABLE OR PTE_HUGE OR PTE_NX)) PTE_NX" for w
    proof
      assume "(w OR ?RWHN) AND PTE_NX = 0"
      then have "(w AND PTE_NX) OR (?RWHN AND PTE_NX) = 0" by (simp add: bit.conj_disj_distrib2)
      then have "?RWHN AND PTE_NX = 0" by (simp only: or_eq_0_iff)
      then show False by (simp add: kernel_defs)
    qed
    then show "\<exists>e. hw_translate v' (kt_pml4 k) (0xFFFF800000000000 + pa) = Some (pa, e) \<and> \<not> has_flag e PTE_USER \<and> has_flag e PTE_NX"
      using H2 sum by auto
  qed
  have kern: "\<exists>e. hw_translate v' (kt_pml4 k) (0xFFFFFFFF80000000 + x) = Some (OB_KERNEL_LMA + x, e) \<and> \<not> has_flag e PTE_USER"
    if "x < 2 ^ 30" for x
  proof -
    define I off where "I = unat x div 2 ^ 21" and "off = unat x mod 2 ^ 21"
    have x: "unat x < 2 ^ 30" using that by (simp add: word_less_nat_alt)
    then have b: "I < 512" "off < 2 ^ 21" "I + 1 < 2 ^ 31" by (auto simp: I_def off_def)
    have u: "unat x = I * 2 ^ 21 + off" by (simp add: I_def off_def)
    have u3: "unat (0xFFFFFFFF80000000 + x) = 33554431 * 2 ^ 39 + 510 * 2 ^ 30 + I * 2 ^ 21 + off"
      using u x by (simp add: unat_word_ariths)
    have m: "(33554431::nat) mod 512 = 511" by simp
    have pt: "OB_KERNEL_LMA + push_bit 21 (of_nat I) = push_bit 21 (of_nat (I + 1))"
      by (simp add: push_bit_eq_mult OB_KERNEL_LMA_def algebra_simps)
    have sum: "push_bit 21 (of_nat (I + 1)) + of_nat off = OB_KERNEL_LMA + x"
    proof -
      have e: "(I + 1) * 2 ^ 21 + off = 0x200000 + unat x" using u by simp
      have "of_nat (0x200000 + unat x) = OB_KERNEL_LMA + x" by (simp add: OB_KERNEL_LMA_def)
      then show ?thesis unfolding addr e .
    qed
    note H = hw_translate_huge [OF u3 _ b(1,2), unfolded m, OF _ M(3) fr(4) M(4) fr(5) M(9) [OF b(1), unfolded pt or.assoc] b(3), simplified]
    then show ?thesis using sum by auto
  qed
  show ?thesis using cur low kern by blast
qed

definition wit_tables :: kernel_tables where
  "wit_tables = \<lparr>kt_pml4 = 0x300, kt_pdpt_low = 0x301, kt_pd_low = (\<lambda>i. 0x302 + i), kt_pdpt_direct = 0x306,
     kt_pd_direct = (\<lambda>i. 0x307 + i), kt_pdpt_kern = 0x30B, kt_pd_kern = 0x30C\<rparr>"

definition wit_no_vmm :: vmm_state where
  "wit_no_vmm = \<lparr>pt_mem = (\<lambda>_ _. 0), g_pt_bitmap = (\<lambda>_. 0), g_pt_owner = (\<lambda>_. 0), g_kernel_pml4 = None, cr3 = 0, cr4 = 0,
     g_smep_enabled = False, g_smap_enabled = False, v_pmm = pmm_reset wit_pmm\<rparr>"

lemma vmm_init_translates_witness:
  "\<exists>e. hw_translate (vmm_init wit_tables wit_no_vmm) 0x300 (0xFFFF800000000000 + 0xFEE00000) = Some (0xFEE00000, e)"
proof -
  have d: "distinct (static_frames wit_tables)" "\<forall>f \<in> set (static_frames wit_tables). f < MAX_PAGES"
    by (simp_all add: static_frames_def wit_tables_def four MAX_PAGES_def)
  have "(0xFEE00000 :: u64) < 2 ^ 32" by simp
  then show ?thesis using vmm_init_translates [OF d, of wit_no_vmm] by (simp only: wit_tables_def kernel_tables.select_convs) blast
qed

end
