(* ===== verification/MemDomain.thy ===== *)
theory MemDomain
  imports Permission Kheap VmmCorrect
begin

text \<open>
  The private memory of the processes of privilege 0 and 1 (\<open>mem_domain.c\<close>): their page table, and the
  frames mapped in it from the base address on. The pointer to a task is an option, its PML4 is a frame.
  The array of frames is a list of \<open>MEM_DOMAIN_MAX_PAGES\<close> pointers; \<open>kfree\<close> of it leaves nothing in the
  state. \<open>serial_printf\<close> is left out.
\<close>

definition MEM_DOMAIN_PRIV0_MAX_PAGES :: u64 where [kernel_defs]: "MEM_DOMAIN_PRIV0_MAX_PAGES = 16"
definition MEM_DOMAIN_PRIV1_MAX_PAGES :: u64 where [kernel_defs]: "MEM_DOMAIN_PRIV1_MAX_PAGES = 64"
definition MEM_DOMAIN_PRIV0_INIT_PAGES :: u64 where [kernel_defs]: "MEM_DOMAIN_PRIV0_INIT_PAGES = 4"
definition MEM_DOMAIN_PRIV1_INIT_PAGES :: u64 where [kernel_defs]: "MEM_DOMAIN_PRIV1_INIT_PAGES = 8"
definition MEM_DOMAIN_PRIV0_BASE_VADDR :: u64 where [kernel_defs]: "MEM_DOMAIN_PRIV0_BASE_VADDR = 0x400000"
definition MEM_DOMAIN_PRIV0_LIMIT_VADDR :: u64 where [kernel_defs]: "MEM_DOMAIN_PRIV0_LIMIT_VADDR = 0x800000"
definition MEM_DOMAIN_PRIV1_BASE_VADDR :: u64 where [kernel_defs]: "MEM_DOMAIN_PRIV1_BASE_VADDR = 0x400000"
definition MEM_DOMAIN_PRIV1_LIMIT_VADDR :: u64 where [kernel_defs]: "MEM_DOMAIN_PRIV1_LIMIT_VADDR = 0x1000000"
definition MEM_DOMAIN_MAX_PAGES :: nat where [kernel_defs]: "MEM_DOMAIN_MAX_PAGES = 64"

definition domain_max_pages :: "nat \<Rightarrow> u64" where
  "domain_max_pages priv =
     (if priv = 0 then MEM_DOMAIN_PRIV0_MAX_PAGES else if priv = 1 then MEM_DOMAIN_PRIV1_MAX_PAGES else 0)"

definition domain_init_pages :: "nat \<Rightarrow> u64" where
  "domain_init_pages priv =
     (if priv = 0 then MEM_DOMAIN_PRIV0_INIT_PAGES else if priv = 1 then MEM_DOMAIN_PRIV1_INIT_PAGES else 0)"

definition mem_domain_used_pages :: "task_t option \<Rightarrow> u64" where
  "mem_domain_used_pages t = (case t of None \<Rightarrow> 0 | Some t \<Rightarrow> of_nat (mem_domain_page_count t))"

text \<open>The address of the \<open>i\<close>-th page of a domain.\<close>

definition domain_va :: "u64 \<Rightarrow> nat \<Rightarrow> u64" where
  "domain_va base i = base + of_nat i * of_nat PAGE_SIZE"

text \<open>
  The loop of \<open>mem_domain_grow\<close> with \<open>k\<close> iterations left; the result is the \<open>i\<close> at which it stopped.
\<close>

fun grow_loop :: "nat \<Rightarrow> u64 \<Rightarrow> nat \<Rightarrow> nat \<Rightarrow> nat \<Rightarrow> nat option list \<Rightarrow> vmm_state \<Rightarrow> nat \<times> nat option list \<times> vmm_state" where
  "grow_loop pml4 base start 0 i arr v = (i, arr, v)"
| "grow_loop pml4 base start (Suc k) i arr v =
     (case pmm_alloc_pages 0 (v_pmm v) of
        (None, p) \<Rightarrow> (i, arr, v\<lparr>v_pmm := p\<rparr>)
      | (Some pg, p) \<Rightarrow>
          (case vmm_map_page pml4 (domain_va base (start + i)) (frame_pa pg) (PTE_PRESENT OR PTE_WRITABLE OR PTE_USER)
                  (v\<lparr>v_pmm := p\<rparr>) of
             (rc, v) \<Rightarrow>
               if rc \<noteq> 0 then (i, arr, v\<lparr>v_pmm := pmm_free_pages (Some pg) 0 (v_pmm v)\<rparr>)
               else grow_loop pml4 base start k (Suc i) (arr[start + i := Some pg]) v))"

definition release_page :: "nat \<Rightarrow> u64 \<Rightarrow> nat \<Rightarrow> nat option list \<times> vmm_state \<Rightarrow> nat option list \<times> vmm_state" where
  "release_page pml4 base i av =
     (case av of (arr, v) \<Rightarrow>
        case arr ! i of
          None \<Rightarrow> (arr, v)
        | Some pg \<Rightarrow>
            let v = snd (vmm_unmap_page pml4 (domain_va base i) v)
            in (arr[i := None], v\<lparr>v_pmm := pmm_free_pages (Some pg) 0 (v_pmm v)\<rparr>))"

text \<open>The roll-back unmaps before it looks at the array.\<close>

definition rollback_page :: "nat \<Rightarrow> u64 \<Rightarrow> nat \<Rightarrow> nat option list \<times> vmm_state \<Rightarrow> nat option list \<times> vmm_state" where
  "rollback_page pml4 base i av =
     (case av of (arr, v) \<Rightarrow>
        let v = snd (vmm_unmap_page pml4 (domain_va base i) v) in
        case arr ! i of
          None \<Rightarrow> (arr, v)
        | Some pg \<Rightarrow> (arr[i := None], v\<lparr>v_pmm := pmm_free_pages (Some pg) 0 (v_pmm v)\<rparr>))"

definition mem_domain_grow :: "task_t option \<Rightarrow> u64 \<Rightarrow> vmm_state \<Rightarrow> int \<times> task_t option \<times> vmm_state" where
  "mem_domain_grow t n v =
     (case t of
        None \<Rightarrow> (OB_EINVAL, t, v)
      | Some tk \<Rightarrow>
          (case (pml4_self_ptr (mem_domain tk), mem_domain_pages tk) of
             (Some pml4, Some arr) \<Rightarrow>
               if n = 0 then (0, t, v)
               else
                 let maxp = domain_max_pages (privilege_level tk);
                     cur = of_nat (mem_domain_page_count tk)
                 in if cur + n > maxp then (OB_ENOMEM, t, v)
                    else if cur + n > of_nat MEM_DOMAIN_MAX_PAGES then (OB_ENOMEM, t, v)
                    else
                      let start = mem_domain_page_count tk; base = base_vaddr (mem_domain tk) in
                      (case grow_loop pml4 base start (unat n) 0 arr v of
                         (i, arr, v) \<Rightarrow>
                           if i < unat n then
                             (case fold (\<lambda>j. rollback_page pml4 base (start + j)) [0..<i] (arr, v) of
                                (arr, v) \<Rightarrow> (OB_ENOMEM, Some (tk\<lparr>mem_domain_pages := Some arr\<rparr>), v))
                           else
                             let c = start + unat n
                             in (0, Some (tk\<lparr>mem_domain_pages := Some arr, mem_domain_page_count := c,
                                            mem_domain := (mem_domain tk)\<lparr>phys_frame_count := c\<rparr>\<rparr>), v))
           | _ \<Rightarrow> (OB_EINVAL, t, v)))"

text \<open>What the failure paths of \<open>mem_domain_create\<close> do with the new address space.\<close>

definition drop_space :: "nat \<Rightarrow> vmm_state \<Rightarrow> vmm_state" where
  "drop_space pml4 v = vmm_destroy_address_space (Some pml4) (vmm_free_user_pagetables (Some pml4) v)"

definition mem_domain_create :: "task_t option \<Rightarrow> kheap \<times> vmm_state \<Rightarrow> int \<times> task_t option \<times> kheap \<times> vmm_state" where
  "mem_domain_create t hv =
     (case hv of (h, v) \<Rightarrow>
      case t of
        None \<Rightarrow> (OB_EINVAL, t, h, v)
      | Some tk \<Rightarrow>
          if privilege_level tk > 1 then (OB_EINVAL, t, h, v)
          else if priv_iso_ready tk then (OB_EAGAIN, t, h, v)
          else if pml4_self_ptr (mem_domain tk) \<noteq> None then (OB_EAGAIN, t, h, v)
          else
            let tk = (if privilege_level tk = 0 then
                        tk\<lparr>isolation_mode := ISOLATION_MEM,
                           mem_domain := (mem_domain tk)\<lparr>base_vaddr := MEM_DOMAIN_PRIV0_BASE_VADDR,
                                                         limit_vaddr := MEM_DOMAIN_PRIV0_LIMIT_VADDR\<rparr>\<rparr>
                      else
                        tk\<lparr>isolation_mode := ISOLATION_TMPDIR,
                           mem_domain := (mem_domain tk)\<lparr>base_vaddr := MEM_DOMAIN_PRIV1_BASE_VADDR,
                                                         limit_vaddr := MEM_DOMAIN_PRIV1_LIMIT_VADDR\<rparr>\<rparr>)
            in case vmm_create_address_space v of
                 (None, v) \<Rightarrow> (OB_ENOMEM, Some tk, h, v)
               | (Some pml4, v) \<Rightarrow>
                   (case vmm_setup_user_space (Some pml4) (base_vaddr (mem_domain tk)) (limit_vaddr (mem_domain tk)) v of
                      (rc, v) \<Rightarrow>
                        if rc \<noteq> 0 then (OB_ENOMEM, Some tk, h, drop_space pml4 v)
                        else case kzalloc_obj h of
                            (None, h) \<Rightarrow> (OB_ENOMEM, Some tk, h, drop_space pml4 v)
                          | (Some _, h) \<Rightarrow>
                              let tk = tk\<lparr>mem_domain_pages := Some (replicate MEM_DOMAIN_MAX_PAGES None),
                                         mem_domain_page_count := 0,
                                         mem_domain := (mem_domain tk)\<lparr>pml4_self_ptr := Some pml4, phys_frame_count := 0,
                                                                      sandbox_owned := False\<rparr>\<rparr>;
                                  n = domain_init_pages (privilege_level tk)
                              in if n > 0 then
                                   (case mem_domain_grow (Some tk) n v of
                                      (rc, t', v) \<Rightarrow>
                                        if rc \<noteq> 0 then
                                          (rc, map_option (\<lambda>tk. tk\<lparr>mem_domain_pages := None,
                                                 mem_domain := (mem_domain tk)\<lparr>pml4_self_ptr := None\<rparr>\<rparr>) t',
                                           h, drop_space pml4 v)
                                        else (0, t', h, v))
                                 else (0, Some tk, h, v)))"

definition mem_domain_destroy :: "task_t option \<Rightarrow> vmm_state \<Rightarrow> task_t option \<times> vmm_state" where
  "mem_domain_destroy t v =
     (case t of
        None \<Rightarrow> (None, v)
      | Some tk \<Rightarrow>
          (case pml4_self_ptr (mem_domain tk) of
             None \<Rightarrow>
               (Some (tk\<lparr>mem_domain_pages := None, mem_domain_page_count := 0,
                        mem_domain := (mem_domain tk)\<lparr>phys_frame_count := 0\<rparr>, isolation_mode := ISOLATION_NONE\<rparr>), v)
           | Some pml4 \<Rightarrow>
               let v = (if vmm_current_pml4 v = pml4 then vmm_switch_address_space (vmm_kernel_pml4 v) v else v);
                   v = (case mem_domain_pages tk of
                          None \<Rightarrow> v
                        | Some arr \<Rightarrow>
                            snd (fold (release_page pml4 (base_vaddr (mem_domain tk))) [0..<mem_domain_page_count tk] (arr, v)));
                   v = vmm_free_user_pagetables (Some pml4) v;
                   v = vmm_destroy_address_space (Some pml4) v
               in (Some (tk\<lparr>mem_domain_pages := None, mem_domain_page_count := 0, isolation_mode := ISOLATION_NONE,
                           mem_domain := (mem_domain tk)\<lparr>pml4_self_ptr := None, phys_frame_count := 0,
                                                         base_vaddr := 0, limit_vaddr := 0\<rparr>\<rparr>), v)))"

definition mem_domain_map_page :: "task_t option \<Rightarrow> u64 \<Rightarrow> u64 \<Rightarrow> u64 \<Rightarrow> vmm_state \<Rightarrow> int \<times> vmm_state" where
  "mem_domain_map_page t vaddr phys flags v =
     (case t of
        None \<Rightarrow> (OB_EINVAL, v)
      | Some tk \<Rightarrow>
          (case pml4_self_ptr (mem_domain tk) of
             None \<Rightarrow> (OB_EINVAL, v)
           | Some pml4 \<Rightarrow>
               if \<not> mem_domain_contains t vaddr then (OB_EINVAL, v)
               else vmm_map_page pml4 vaddr phys (flags OR PTE_USER) v))"

end
