(* ===== verification/MemDomainProps.thy ===== *)
theory MemDomainProps
  imports MemDomain
begin

text \<open>
  The properties of the page tables and of the memory domains: what a mapping changes, that a domain
  shares nothing with any other process, and what happens when a process that runs in a domain of its own
  creates one for a child.
\<close>

section \<open>Growing a domain\<close>

lemma pmm_alloc_kept:
  assumes ok: "spaces_ok v R" and a: "pmm_alloc_pages 0 (v_pmm v) = (r, p)"
  shows "spaces_kept v (v\<lparr>v_pmm := p\<rparr>) R"
    "\<And>pg. r = Some pg \<Longrightarrow> pg \<in> free_frames (v_pmm v) \<and> allocated p pg 0 \<and>
      free_frames p = free_frames (v_pmm v) - {pg}"
proof -
  let ?v = "v\<lparr>v_pmm := p\<rparr>"
  have inv: "pmm_inv (v_pmm v)" using ok by (simp add: spaces_ok_def)
  have o: "(0::int) < int MAX_ORDER" by (simp add: MAX_ORDER_def)
  have nt: "next_table ?v = next_table v" by (simp add: next_table_def fun_eq_iff)
  have ta: "table_at ?v r' q = table_at v r' q" for r' q by (induction q arbitrary: r') (auto simp: nt split: option.split)
  have bit: "pt_bit_test pa ?v = pt_bit_test pa v" for pa by (rule pt_bit_test_cong) simp
  have keep: "pmm_inv p \<and> free_frames p \<subseteq> free_frames (v_pmm v) \<and>
      (\<forall>g. allocated (v_pmm v) g 0 \<longrightarrow> allocated p g 0 \<and> mem_map p g = mem_map (v_pmm v) g)"
  proof (cases r)
    case None
    then show ?thesis using pmm.alloc_None [OF inv, of 0 p] pmm_alloc_None(2) [OF inv order_refl o, of p] a
      by (simp add: oom_marked_def)
  next
    case (Some pg)
    note A = pmm_alloc_Some [OF inv order_refl o a [unfolded Some]]
    have "allocated p g 0 \<and> mem_map p g = mem_map (v_pmm v) g" if "allocated (v_pmm v) g 0" for g
      using pmm.alloc_keeps [OF inv a [unfolded Some] that] A(7) [of g] allocated_facts [OF that] by blast
    then show ?thesis using A(1,5) by auto
  qed
  have pg: "pt_page ?v g" if "pt_page v g" for g using that keep bit by (simp add: pt_page_def)
  have "spaces_ok ?v R" using ok keep pg unfolding spaces_ok_def ta by auto
  moreover have "bits_ok ?v" if "bits_ok v" using that keep bit by (simp add: bits_ok_def)
  ultimately show "spaces_kept v ?v R"
    using keep pg by (simp add: spaces_kept_def ta leaf_def no_huge_def stray_def split: option.split)
  show "pg \<in> free_frames (v_pmm v) \<and> allocated p pg 0 \<and> free_frames p = free_frames (v_pmm v) - {pg}" if "r = Some pg" for pg
  proof -
    note A = pmm_alloc_Some [OF inv order_refl o a [unfolded that]]
    have "blk pg 0 = {pg}" by (auto simp: blk_def)
    then show ?thesis using A(4,5) pmm_alloc_allocated [OF inv order_refl o a [unfolded that]] by auto
  qed
qed

lemma unat_domain_va: "unat base + i * 4096 < 2 ^ 64 \<Longrightarrow> unat (domain_va base i) = unat base + i * 4096"
  by (simp add: domain_va_def PAGE_SIZE_def unat_word_ariths unat_of_nat)

text \<open>The entry of a page of a domain.\<close>

definition domain_entry :: "nat \<Rightarrow> u64" where
  "domain_entry pg = (frame_pa pg AND PTE_ADDR_MASK) OR (PTE_PRESENT OR PTE_WRITABLE OR PTE_USER)"

text \<open>
  What the loop has done when it stops at \<open>m\<close>: the pages from \<open>i\<close> on are mapped to frames that were free,
  no two to the same, and nothing else has changed.
\<close>

definition grown :: "nat \<Rightarrow> u64 \<Rightarrow> nat \<Rightarrow> nat \<Rightarrow> nat \<Rightarrow> nat option list \<Rightarrow> nat option list \<Rightarrow> vmm_state \<Rightarrow> vmm_state \<Rightarrow> nat set \<Rightarrow> bool" where
  "grown f base start i m arr arr' v v' R \<longleftrightarrow> spaces_ok v' R \<and> length arr' = length arr \<and>
     (\<forall>j. i \<le> j \<and> j < m \<longrightarrow> (\<exists>pg. arr' ! (start + j) = Some pg \<and> leaf v' f (domain_va base (start + j)) = domain_entry pg \<and>
        pg \<in> free_frames (v_pmm v) \<and> allocated (v_pmm v') pg 0)) \<and>
     (\<forall>j k. i \<le> j \<and> j < k \<and> k < m \<longrightarrow> arr' ! (start + j) \<noteq> arr' ! (start + k)) \<and>
     (\<forall>j. \<not> (start + i \<le> j \<and> j < start + m) \<longrightarrow> arr' ! j = arr ! j) \<and>
     (\<forall>r \<in> R. \<forall>va \<le> USER_SPACE_END.
        (r = f \<longrightarrow> (\<forall>j. i \<le> j \<and> j < m \<longrightarrow> drop_bit 12 va \<noteq> drop_bit 12 (domain_va base (start + j)))) \<longrightarrow>
        leaf v' r va = leaf v r va) \<and>
     (\<forall>g. allocated (v_pmm v) g 0 \<longrightarrow> allocated (v_pmm v') g 0) \<and> free_frames (v_pmm v') \<subseteq> free_frames (v_pmm v) \<and> cr3 v' = cr3 v"

lemma grownD:
  assumes "grown f base start i m arr arr' v v' R"
  shows "spaces_ok v' R"
    "\<And>j. i \<le> j \<Longrightarrow> j < m \<Longrightarrow> \<exists>pg. arr' ! (start + j) = Some pg \<and> leaf v' f (domain_va base (start + j)) = domain_entry pg \<and>
        pg \<in> free_frames (v_pmm v) \<and> allocated (v_pmm v') pg 0"
    "\<And>j k. i \<le> j \<Longrightarrow> j < k \<Longrightarrow> k < m \<Longrightarrow> arr' ! (start + j) \<noteq> arr' ! (start + k)"
    "\<And>r va. r \<in> R \<Longrightarrow> va \<le> USER_SPACE_END \<Longrightarrow>
       (r = f \<longrightarrow> (\<forall>j. i \<le> j \<and> j < m \<longrightarrow> drop_bit 12 va \<noteq> drop_bit 12 (domain_va base (start + j)))) \<Longrightarrow> leaf v' r va = leaf v r va"
    "cr3 v' = cr3 v"
  using assms unfolding grown_def by simp_all

lemma domain_va_page:
  assumes "unat base mod 4096 = 0" "unat base + i * 4096 < 2 ^ 64" "unat base + j * 4096 < 2 ^ 64"
  shows "drop_bit 12 (domain_va base i) = drop_bit 12 (domain_va base j) \<longleftrightarrow> i = j"
  using assms by (auto simp: word_unat_eq_iff drop_bit_eq_div unat_div unat_domain_va)

lemma grow_loop_bound: "grow_loop f base start k i arr v = (m, arr', v') \<Longrightarrow> m \<le> i + k"
proof (induction k arbitrary: i arr v)
  case (Suc k)
  then show ?case by (fastforce split: option.splits prod.splits if_splits dest: Suc.IH)
qed simp

lemma grow_loop_grown:
  assumes "spaces_ok v R" "f \<in> R" "unat base mod 4096 = 0" "unat base + (start + i + k) * 4096 \<le> 2 ^ 47"
    "start + i + k \<le> length arr" "grow_loop f base start k i arr v = (i + k, arr', v')"
  shows "grown f base start i (i + k) arr arr' v v' R"
  using assms
proof (induction k arbitrary: i arr v)
  case 0
  then show ?case by (auto simp: grown_def)
next
  case (Suc k)
  obtain a p where al: "pmm_alloc_pages 0 (v_pmm v) = (a, p)" by fastforce
  show ?case
  proof (cases a)
    case None
    then show ?thesis using Suc.prems(6) al by simp
  next
    case (Some pg)
    define v1 where "v1 = v\<lparr>v_pmm := p\<rparr>"
    have K1: "spaces_kept v v1 R" and pg: "pg \<in> free_frames (v_pmm v)" "allocated p pg 0" "pg \<notin> free_frames p"
      using pmm_alloc_kept [OF Suc.prems(1) al] Some by (auto simp: v1_def)
    have ok1: "spaces_ok v1 R" using K1 by (simp add: spaces_kept_def)
    let ?va = "domain_va base (start + i)"
    have va: "?va \<le> USER_SPACE_END"
      using unat_domain_va [of base "start + i"] Suc.prems(4) by (simp add: word_le_nat_alt USER_SPACE_END_def)
    obtain rc v2 where m: "vmm_map_page f ?va (frame_pa pg) (PTE_PRESENT OR PTE_WRITABLE OR PTE_USER) v1 = (rc, v2)" by fastforce
    have rc: "rc = 0" using Suc.prems(6) al Some m by (auto simp: v1_def split: if_splits)
    then have run: "grow_loop f base start k (Suc i) (arr[start + i := Some pg]) v2 = (Suc i + k, arr', v')"
      using Suc.prems(6) al Some m by (simp add: v1_def)
    obtain w t where K2: "spaces_kept v1 w R" and t: "table_at w f (upath_of ?va) = Some t"
      and v2: "v2 = set_entry t (PT_INDEX ?va) (domain_entry pg) w"
      using map_page_spec [OF ok1 Suc.prems(2) va m] rc by (auto simp: domain_entry_def)
    have okw: "spaces_ok w R" using K2 by (simp add: spaces_kept_def)
    have ok2: "spaces_ok v2 R" unfolding v2
      by (rule set_leaf(2) [OF okw Suc.prems(2) upath_of_ok [OF va] _ t]) (simp add: upath_of_def)
    note K = spaces_kept_trans [OF K1 K2]
    have leaf2: "leaf v2 r u = (if r = f \<and> drop_bit 12 u = drop_bit 12 ?va then domain_entry pg else leaf v r u)"
      if "r \<in> R" "u \<le> USER_SPACE_END" for r u
      using leaf_set [OF okw Suc.prems(2) va t that] K that by (simp add: v2 spaces_kept_def)
    have G: "grown f base start (Suc i) (Suc i + k) (arr[start + i := Some pg]) arr' v2 v' R"
      using Suc.IH [OF ok2 Suc.prems(2,3) _ _ run] Suc.prems(4,5) by simp
    have pm: "v_pmm v2 = v_pmm w" "cr3 v2 = cr3 w" by (simp_all add: v2)
    have fr: "free_frames (v_pmm v2) \<subseteq> free_frames p" "\<And>g. allocated p g 0 \<Longrightarrow> allocated (v_pmm v2) g 0"
      using K2 by (simp_all add: pm spaces_kept_def v1_def)
    note G' = G [unfolded grown_def]
    have frv: "free_frames p \<subseteq> free_frames (v_pmm v)" using K1 by (simp add: spaces_kept_def v1_def)
    have at_i: "arr' ! (start + i) = Some pg" using G' Suc.prems(5) by auto
    have page_ne: "drop_bit 12 ?va \<noteq> drop_bit 12 (domain_va base (start + j))" if "Suc i \<le> j" "j < Suc i + k" for j
      using domain_va_page [OF Suc.prems(3), of "start + i" "start + j"] Suc.prems(4) that by simp
    have later: "\<exists>pg'. arr' ! (start + j) = Some pg' \<and> leaf v' f (domain_va base (start + j)) = domain_entry pg' \<and>
        pg' \<in> free_frames (v_pmm v2) \<and> allocated (v_pmm v') pg' 0" if "Suc i \<le> j" "j < Suc i + k" for j
      using G' that by blast
    have leaf': "leaf v' r u = leaf v2 r u" if "r \<in> R" "u \<le> USER_SPACE_END"
        "r = f \<longrightarrow> (\<forall>j. Suc i \<le> j \<and> j < Suc i + k \<longrightarrow> drop_bit 12 u \<noteq> drop_bit 12 (domain_va base (start + j)))" for r u
      using G' that by blast
    show ?thesis unfolding grown_def
    proof (intro conjI allI impI ballI)
      show "spaces_ok v' R" "length arr' = length arr" using G' by simp_all
    next
      fix j assume j: "i \<le> j \<and> j < i + Suc k"
      show "\<exists>pg. arr' ! (start + j) = Some pg \<and> leaf v' f (domain_va base (start + j)) = domain_entry pg \<and>
          pg \<in> free_frames (v_pmm v) \<and> allocated (v_pmm v') pg 0"
      proof (cases "j = i")
        case True
        have "leaf v' f ?va = domain_entry pg"
          using leaf' [OF Suc.prems(2) va] page_ne leaf2 [OF Suc.prems(2) va] by simp
        moreover have "allocated (v_pmm v') pg 0" using fr(2) [OF pg(2)] G' by blast
        ultimately show ?thesis using True at_i pg(1) by blast
      next
        case False
        then obtain pg' where "arr' ! (start + j) = Some pg'" "leaf v' f (domain_va base (start + j)) = domain_entry pg'"
          "pg' \<in> free_frames (v_pmm v2)" "allocated (v_pmm v') pg' 0" using later [of j] j by auto
        then show ?thesis using fr(1) frv by blast
      qed
    next
      fix j l assume jl: "i \<le> j \<and> j < l \<and> l < i + Suc k"
      show "arr' ! (start + j) \<noteq> arr' ! (start + l)"
      proof (cases "j = i")
        case True
        obtain pg' where "arr' ! (start + l) = Some pg'" "pg' \<in> free_frames (v_pmm v2)" using later [of l] jl True by auto
        then show ?thesis using at_i fr(1) pg(3) True by auto
      next
        case False
        then show ?thesis using G' jl by simp
      qed
    next
      fix j assume "\<not> (start + i \<le> j \<and> j < start + (i + Suc k))"
      then have "j \<noteq> start + i" "\<not> (start + Suc i \<le> j \<and> j < start + (Suc i + k))" by auto
      then show "arr' ! j = arr ! j" using G' by simp
    next
      fix r u assume h: "r \<in> R" "u \<le> USER_SPACE_END"
        "r = f \<longrightarrow> (\<forall>j. i \<le> j \<and> j < i + Suc k \<longrightarrow> drop_bit 12 u \<noteq> drop_bit 12 (domain_va base (start + j)))"
      then show "leaf v' r u = leaf v r u" using leaf' [OF h(1,2)] leaf2 [OF h(1,2)] by auto
    next
      fix g assume "allocated (v_pmm v) g 0"
      then show "allocated (v_pmm v') g 0" using K G' by (simp add: spaces_kept_def pm)
    next
      show "free_frames (v_pmm v') \<subseteq> free_frames (v_pmm v)" using G' fr(1) frv by blast
      show "cr3 v' = cr3 v" using G' K by (simp add: spaces_kept_def pm)
    qed
  qed
qed


section \<open>A new address space\<close>

lemma is_pt_page_alloc:
  assumes "vmm_alloc_pt_page v = (Some f, v')" "vmm_is_pt_page pa v'" "pt_pfn pa \<noteq> f" "f < MAX_PAGES"
  shows "vmm_is_pt_page pa v"
proof -
  obtain p where v': "v' = pt_bit_set (frame_pa f) (pt_owner_set (frame_pa f) 0 (zero_page f (v\<lparr>v_pmm := p\<rparr>)))"
    using assms(1) by (auto simp: vmm_alloc_pt_page_def Let_def split: prod.splits option.splits if_splits)
  have g: "pt_pfn pa < MAX_PAGES" "frame_pa (pt_pfn pa) = pa"
  proof -
    show "pt_pfn pa < MAX_PAGES" using assms(2) by (auto simp: vmm_is_pt_page_def pt_bit_test_def split: if_splits)
    have "pa AND 0xFFF = 0" using assms(2) by (auto simp: vmm_is_pt_page_def split: if_splits)
    then have "take_bit 12 pa = 0" by (simp add: take_bit_eq_mask mask_eq_exp_minus_1)
    then have "push_bit 12 (drop_bit 12 pa) = pa" by (metis add.right_neutral push_bit_eq_mult drop_bit_eq_div bits_ident)
    then show "frame_pa (pt_pfn pa) = pa" by (simp add: frame_pa_push pt_pfn_def)
  qed
  have "pt_bit_test pa v' = pt_bit_test pa v"
  proof -
    have "pt_bit_test (frame_pa (pt_pfn pa)) v' \<longleftrightarrow> pt_bit_test (frame_pa (pt_pfn pa)) (pt_owner_set (frame_pa f) 0 (zero_page f (v\<lparr>v_pmm := p\<rparr>)))"
      unfolding v' using pt_bit_test_set [OF assms(4) g(1)] assms(3) by simp
    also have "\<dots> \<longleftrightarrow> pt_bit_test (frame_pa (pt_pfn pa)) v" by (rule arg_cong [OF pt_bit_test_cong]) simp
    finally show ?thesis using g(2) by simp
  qed
  then show ?thesis using assms(2) by (simp add: vmm_is_pt_page_def split: if_splits)
qed

lemma strict_is_pt_page: "vmm_is_pt_page_strict pa v \<Longrightarrow> vmm_is_pt_page pa v"
  by (simp add: vmm_is_pt_page_strict_def vmm_is_pt_page_def split: if_splits)

lemma is_pt_page_create:
  assumes "vmm_create_address_space v = (Some f, v')" "vmm_is_pt_page pa v'" "pt_pfn pa \<noteq> f" "f < MAX_PAGES"
  shows "vmm_is_pt_page pa v"
proof -
  obtain v1 where a: "vmm_alloc_pt_page v = (Some f, v1)" and b: "g_pt_bitmap v' = g_pt_bitmap v1"
    using assms(1) by (auto simp: vmm_create_address_space_def Let_def split: prod.splits option.splits)
  have "vmm_is_pt_page pa v1" using assms(2) pt_bit_test_cong [OF b, of pa] by (simp add: vmm_is_pt_page_def split: if_splits)
  then show ?thesis by (rule is_pt_page_alloc [OF a _ assms(3,4)])
qed

text \<open>The entry 0 that \<open>vmm_create_address_space\<close> copies is the kernel's own and not a page table of \<open>vmm.c\<close>.\<close>

definition kernel_slot0 :: "vmm_state \<Rightarrow> bool" where
  "kernel_slot0 v \<longleftrightarrow>
     (let e = pt_mem v (vmm_current_pml4 v) 0 in
      has_flag e PTE_PRESENT \<longrightarrow> \<not> vmm_is_pt_page (e AND PTE_ADDR_MASK) v \<and> entry_frame e \<notin> free_frames (v_pmm v))"

text \<open>The setup of a new address space behaves as if its user half had been empty.\<close>

lemma fresh_space:
  assumes ok: "spaces_ok v R" and k0: "kernel_slot0 v" and cr: "vmm_create_address_space v = (Some f, v1)"
    and base: "base < limit" "limit \<le> 2 ^ 39"
  shows "f \<notin> R" "\<exists>w. setup_loop f base limit v1 = setup_loop f base limit w \<and> spaces_ok w (insert f R) \<and> no_huge w f \<and>
      (\<forall>va \<le> USER_SPACE_END. leaf w f va = 0) \<and> (\<forall>r \<in> R. \<forall>va \<le> USER_SPACE_END. leaf w r va = leaf v r va) \<and>
      v_pmm w = v_pmm v1 \<and> cr3 w = cr3 v"
proof -
  have inv: "pmm_inv (v_pmm v)" using ok by (simp add: spaces_ok_def)
  note C = create_spec [OF inv cr]
  have fm: "f < MAX_PAGES" by (rule pt_page_max [OF C(2)])
  have ff: "f \<in> free_frames (v_pmm v)"
  proof -
    obtain v0 where "vmm_alloc_pt_page v = (Some f, v0)"
      using cr by (auto simp: vmm_create_address_space_def Let_def split: prod.splits option.splits)
    then show ?thesis using vmm_alloc_Some(7) [OF inv] by blast
  qed
  show fR: "f \<notin> R"
  proof
    assume "f \<in> R"
    then have "pt_page v f" using spaces_page [OF ok, of f "[]" f] by (simp add: upath_def)
    then show False using C(3) by blast
  qed
  define w where "w = (if has_flag (pt_mem v1 f 0) PTE_PRESENT then set_entry f 0 0 v1 else v1)"
  have i0: "PML4_INDEX (of_nat base) = 0" using base by (simp add: index_nat unat_of_nat)
  have drop: "\<not> vmm_is_pt_page_strict (pt_mem v1 f 0 AND PTE_ADDR_MASK) v1" if pr: "has_flag (pt_mem v1 f 0) PTE_PRESENT"
  proof
    let ?e = "pt_mem v (vmm_current_pml4 v) 0"
    assume st: "vmm_is_pt_page_strict (pt_mem v1 f 0 AND PTE_ADDR_MASK) v1"
    have e: "pt_mem v1 f 0 = ?e" using C(6) [of 0 f] pr by (auto split: if_splits)
    have "pt_pfn (?e AND PTE_ADDR_MASK) = entry_frame ?e" by (simp add: pt_pfn_def entry_frame_def)
    moreover have "entry_frame ?e \<noteq> f" using k0 pr e ff by (auto simp: kernel_slot0_def Let_def)
    ultimately have "vmm_is_pt_page (?e AND PTE_ADDR_MASK) v"
      using is_pt_page_create [OF cr _ _ fm] strict_is_pt_page [OF st] e by simp
    then show False using k0 pr e by (simp add: kernel_slot0_def Let_def)
  qed
  have entry: "setup_entry f 0 v1 = setup_entry f 0 w"
    using drop by (auto simp: setup_entry_def w_def pt_mem_set_entry)
  have step: "setup_step f base v1 = setup_step f base w" by (simp add: setup_step_def i0 entry)
  have run_w: "setup_loop f base limit v1 = setup_loop f base limit w"
    using base(1) by (subst (1 2) setup_loop.simps) (simp add: step)
  have pw: "v_pmm w = v_pmm v1" "cr3 w = cr3 v1" "\<And>g. pt_page w g = pt_page v1 g" by (simp_all add: w_def)
  have mw: "pt_mem w g j = pt_mem v g j" if "j < 512" "g \<noteq> f" for g j
    using C(6) [OF that(1), of g] that(2) by (simp add: w_def pt_mem_set_entry)
  have ew: "\<not> has_flag (pt_mem w f j) PTE_PRESENT" if "j < 256" for j
    using C(6) [of j f] that by (auto simp: w_def pt_mem_set_entry)
  note I = spaces_ok_insert [OF ok C(3), of w, OF _ mw ew]
  have okw: "spaces_ok w (insert f R)" by (rule I(1)) (use C in \<open>simp_all add: pw\<close>)
  have Tw: "table_at w r q = table_at v r q" if "r \<in> R" "upath q" for r q
    by (rule I(2)) (use C that in \<open>simp_all add: pw\<close>)
  have Fw: "table_at w f q = (if q = [] then Some f else None)" if "upath q" for q
    by (rule I(3)) (use C that in \<open>simp_all add: pw\<close>)
  have lw: "leaf w f va = 0" if "va \<le> USER_SPACE_END" for va
    using Fw [OF upath_of_ok [OF that]] by (simp add: leaf_def upath_of_def)
  have lr: "leaf w r va = leaf v r va" if "r \<in> R" "va \<le> USER_SPACE_END" for r va
  proof (cases "table_at v r (upath_of va)")
    case (Some g)
    then have "g \<noteq> f" using spaces_page [OF ok that(1) upath_of_ok [OF that(2)]] C(3) by blast
    then show ?thesis using Tw [OF that(1) upath_of_ok [OF that(2)]] Some mw by (simp add: leaf_def)
  qed (use Tw [OF that(1) upath_of_ok [OF that(2)]] in \<open>simp add: leaf_def\<close>)
  have "no_huge w f" unfolding no_huge_def
  proof (intro allI impI, elim conjE)
    fix q j t assume "upath (q @ [j])" "length q = 2" "table_at w f q = Some t"
    then show "\<not> has_flag (pt_mem w t j) PTE_HUGE" using Fw [OF upath_snoc] by (auto split: if_splits)
  qed
  then show "\<exists>w. setup_loop f base limit v1 = setup_loop f base limit w \<and> spaces_ok w (insert f R) \<and> no_huge w f \<and>
      (\<forall>va \<le> USER_SPACE_END. leaf w f va = 0) \<and> (\<forall>r \<in> R. \<forall>va \<le> USER_SPACE_END. leaf w r va = leaf v r va) \<and>
      v_pmm w = v_pmm v1 \<and> cr3 w = cr3 v"
    using run_w okw lw lr pw(1,2) C(4) by (intro exI [of _ w]) simp
qed

lemma setup_fresh:
  assumes ok: "spaces_ok v R" and k0: "kernel_slot0 v" and cr: "vmm_create_address_space v = (Some f, v1)"
    and base: "base < limit" "limit \<le> 2 ^ 39" and run: "setup_loop f base limit v1 = (0, v2)"
  shows "f \<notin> R" "spaces_ok v2 (insert f R)" "\<And>va. va \<le> USER_SPACE_END \<Longrightarrow> leaf v2 f va = 0"
    "\<And>r va. r \<in> R \<Longrightarrow> va \<le> USER_SPACE_END \<Longrightarrow> leaf v2 r va = leaf v r va"
    "free_frames (v_pmm v2) \<subseteq> free_frames (v_pmm v)"
    "table_at v2 f (upath_of (of_nat base)) \<noteq> None"
proof -
  note C = create_spec [OF _ cr]
  have inv: "pmm_inv (v_pmm v)" using ok by (simp add: spaces_ok_def)
  show "f \<notin> R" by (rule fresh_space(1) [OF ok k0 cr base])
  obtain w where w: "setup_loop f base limit v1 = setup_loop f base limit w" "spaces_ok w (insert f R)"
    "\<forall>va \<le> USER_SPACE_END. leaf w f va = 0" "\<forall>r \<in> R. \<forall>va \<le> USER_SPACE_END. leaf w r va = leaf v r va" "v_pmm w = v_pmm v1"
    using fresh_space(2) [OF ok k0 cr base] by blast
  have run_w: "setup_loop f base limit w = (0, v2)" using run w(1) by simp
  note S = setup_loop_kept [OF w(2) _ _ run_w, of 0 0]
  have K: "spaces_kept w v2 (insert f R)" and tab: "table_at v2 f (upath_of (of_nat base)) \<noteq> None" using S base by simp_all
  show "table_at v2 f (upath_of (of_nat base)) \<noteq> None" by (rule tab)
  show "spaces_ok v2 (insert f R)" using K by (simp add: spaces_kept_def)
  show "leaf v2 f va = 0" if "va \<le> USER_SPACE_END" for va using K w(3) that by (simp add: spaces_kept_def)
  show "leaf v2 r va = leaf v r va" if "r \<in> R" "va \<le> USER_SPACE_END" for r va
    using K w(4) that by (simp add: spaces_kept_def)
  show "free_frames (v_pmm v2) \<subseteq> free_frames (v_pmm v)" using K C(8) [OF inv] w(5) by (auto simp: spaces_kept_def)
qed

section \<open>Enough free frames\<close>

lemma grow_loop_succeeds:
  assumes "spaces_ok v R" "f \<in> R" "unat base mod 4096 = 0" "unat base + (start + i + k) * 4096 \<le> 2 ^ 47" "room v k"
    and "\<And>j. i \<le> j \<Longrightarrow> j < i + k \<Longrightarrow> leaf v f (domain_va base (start + j)) = 0 \<and>
      table_at v f (upath_of (domain_va base (start + j))) \<noteq> None"
  shows "\<exists>arr' v'. grow_loop f base start k i arr v = (i + k, arr', v')"
  using assms
proof (induction k arbitrary: i arr v)
  case (Suc k)
  have inv: "pmm_inv (v_pmm v)" using Suc.prems(1) by (simp add: spaces_ok_def)
  have ne: "free_frames (v_pmm v) \<noteq> {}" using Suc.prems(5) by (auto simp: room_def)
  obtain pg p where al: "pmm_alloc_pages 0 (v_pmm v) = (Some pg, p)" "pg \<in> free_frames (v_pmm v)"
    "free_frames p = free_frames (v_pmm v) - {pg}" using pmm_alloc_room [OF inv ne] by blast
  define v1 where "v1 = v\<lparr>v_pmm := p\<rparr>"
  have K: "spaces_kept v v1 R" using pmm_alloc_kept(1) [OF Suc.prems(1) al(1)] by (simp add: v1_def)
  have ok1: "spaces_ok v1 R" using K by (simp add: spaces_kept_def)
  have va: "domain_va base (start + j) \<le> USER_SPACE_END" if "j < i + Suc k" for j
  proof -
    have "Suc (start + j) * 4096 \<le> (start + i + Suc k) * 4096" by (rule mult_le_mono1) (use that in simp)
    then show ?thesis using unat_domain_va [of base "start + j"] Suc.prems(4)
      by (simp add: word_le_nat_alt USER_SPACE_END_def)
  qed
  let ?va = "domain_va base (start + i)"
  obtain t where t: "table_at v f (upath_of ?va) = Some t" using Suc.prems(6) [of i] by auto
  have t1: "table_at v1 f (upath_of ?va) = Some t" "leaf v1 f ?va = 0"
    using K t Suc.prems(2) Suc.prems(6) [of i] va [of i] upath_of_ok [OF va [of i]] by (simp_all add: spaces_kept_def)
  define v2 where "v2 = set_entry t (PT_INDEX ?va) ((frame_pa pg AND PTE_ADDR_MASK) OR (PTE_PRESENT OR PTE_WRITABLE OR PTE_USER)) v1"
  have map: "vmm_map_page f ?va (frame_pa pg) (PTE_PRESENT OR PTE_WRITABLE OR PTE_USER) v1 = (0, v2)"
    unfolding v2_def by (rule map_page_present [OF t1(1)]) (simp add: t1(2))
  have ok2: "spaces_ok v2 R" unfolding v2_def
    by (rule set_leaf(2) [OF ok1 Suc.prems(2) upath_of_ok [OF va] _ t1(1)]) (simp_all add: upath_of_def)
  have room2: "room v2 k"
  proof -
    have "finite (free_frames (v_pmm v))" by (simp add: free_frames_def)
    then show ?thesis using Suc.prems(5) al(2,3) by (auto simp: room_def v2_def v1_def)
  qed
  have next_va: "leaf v2 f (domain_va base (start + j)) = 0 \<and> table_at v2 f (upath_of (domain_va base (start + j))) \<noteq> None"
    if j: "Suc i \<le> j" "j < Suc i + k" for j
  proof -
    have u: "domain_va base (start + j) \<le> USER_SPACE_END" using va [of j] j by simp
    have "drop_bit 12 (domain_va base (start + j)) \<noteq> drop_bit 12 ?va"
      using domain_va_page [OF Suc.prems(3), of "start + j" "start + i"] Suc.prems(4) j by simp
    then have "leaf v2 f (domain_va base (start + j)) = leaf v1 f (domain_va base (start + j))"
      using leaf_set [OF ok1 Suc.prems(2) va [of i] t1(1) Suc.prems(2) u] by (simp add: v2_def)
    moreover have "table_at v2 f (upath_of (domain_va base (start + j))) = table_at v1 f (upath_of (domain_va base (start + j)))"
      unfolding v2_def by (rule set_leaf(1) [OF ok1 Suc.prems(2) upath_of_ok [OF va [of i]] _ t1(1) Suc.prems(2) upath_of_ok [OF u]])
        (simp_all add: upath_of_def)
    ultimately show ?thesis using K Suc.prems(2) Suc.prems(6) [of j] j u upath_of_ok [OF u] unfolding spaces_kept_def by auto
  qed
  have "\<exists>arr' v'. grow_loop f base start k (Suc i) (arr[start + i := Some pg]) v2 = (Suc i + k, arr', v')"
    by (rule Suc.IH [OF ok2 Suc.prems(2,3) _ room2 next_va]) (use Suc.prems(4) in simp_all)
  then show ?case using al(1) map by (simp add: v1_def)
qed simp

lemma create_succeeds:
  assumes "spaces_ok v R" "kernel_slot0 v" "room v 32" "h_outcome h (h_calls h)"
    and "privilege_level tk \<le> 1" "\<not> priv_iso_ready tk" "pml4_self_ptr (mem_domain tk) = None"
  shows "fst (mem_domain_create (Some tk) (h, v)) = 0"
proof -
  define tk1 where "tk1 = (if privilege_level tk = 0 then
      tk\<lparr>isolation_mode := ISOLATION_MEM, mem_domain := (mem_domain tk)\<lparr>base_vaddr := MEM_DOMAIN_PRIV0_BASE_VADDR,
           limit_vaddr := MEM_DOMAIN_PRIV0_LIMIT_VADDR\<rparr>\<rparr>
      else tk\<lparr>isolation_mode := ISOLATION_TMPDIR, mem_domain := (mem_domain tk)\<lparr>base_vaddr := MEM_DOMAIN_PRIV1_BASE_VADDR,
           limit_vaddr := MEM_DOMAIN_PRIV1_LIMIT_VADDR\<rparr>\<rparr>)"
  define limit where "limit = limit_vaddr (mem_domain tk1)"
  have tk1: "base_vaddr (mem_domain tk1) = 0x400000" "privilege_level tk1 = privilege_level tk" "0x400000 < limit" "limit \<le> 0x1000000"
    by (simp_all add: tk1_def limit_def kernel_defs)
  have inv: "pmm_inv (v_pmm v)" using assms(1) by (simp add: spaces_ok_def)
  obtain f v1 where cr: "vmm_create_address_space v = (Some f, v1)" and room1: "room v1 31"
  proof -
    obtain f w where "vmm_alloc_pt_page v = (Some f, w)" "room w 31" using vmm_alloc_room [OF inv, of 31] assms(3) by auto
    then show ?thesis using that by (auto simp: vmm_create_address_space_def Let_def room_def)
  qed
  have range: "unat (0x400000::u64) < unat limit" "unat limit \<le> 2 ^ 39" "unat limit \<le> 2 ^ 24"
    using tk1(3,4) by (simp_all add: word_less_nat_alt word_le_nat_alt)
  obtain w where w: "setup_loop f (unat (0x400000::u64)) (unat limit) v1 = setup_loop f (unat (0x400000::u64)) (unat limit) w"
    "spaces_ok w (insert f R)" "no_huge w f" "v_pmm w = v_pmm v1"
    using fresh_space(2) [OF assms(1,2) cr range(1,2)] by blast
  obtain c v2 where sl: "setup_loop f (unat (0x400000::u64)) (unat limit) v1 = (c, v2)" by fastforce
  have "c = 0 \<and> room v2 10"
  proof -
    have "room w (10 + 3 * 7)" using room1 w(4) by (simp add: room_def)
    moreover have "unat (0x400000::u64) mod 2 ^ 21 = 0" "unat limit - unat (0x400000::u64) \<le> 7 * 2 ^ 21" using range(3) by simp_all
    ultimately show ?thesis
      using setup_loop_kept [OF w(2) _ _ sl [unfolded w(1)], of 7 10] w(3) range(2) by simp
  qed
  then have c: "c = 0" and room2: "room v2 10" by simp_all
  have st: "vmm_setup_user_space (Some f) 0x400000 limit v1 = (0, v2)"
    using sl c tk1(3,4) by (simp add: vmm_setup_user_space_def USER_SPACE_END_def word_le_nat_alt word_less_nat_alt not_le not_less)
  note S = setup_fresh [OF assms(1,2) cr range(1,2) sl [unfolded c]]
  define tk2 where "tk2 = tk1\<lparr>mem_domain_pages := Some (replicate MEM_DOMAIN_MAX_PAGES None), mem_domain_page_count := 0,
      mem_domain := (mem_domain tk1)\<lparr>pml4_self_ptr := Some f, phys_frame_count := 0, sandbox_owned := False\<rparr>\<rparr>"
  define n where "n = (if privilege_level tk = 0 then 4 else 8 :: nat)"
  have n: "domain_init_pages (privilege_level tk2) = of_nat n" "n \<le> 8" "unat (of_nat n :: u64) = n" "(of_nat n :: u64) \<noteq> 0"
      "\<not> (of_nat n :: u64) > domain_max_pages (privilege_level tk2)" "\<not> (of_nat n :: u64) > of_nat MEM_DOMAIN_MAX_PAGES"
    using assms(5) tk1(2) by (auto simp: tk2_def n_def domain_init_pages_def domain_max_pages_def kernel_defs)
  have va: "unat (domain_va 0x400000 j) = 0x400000 + j * 4096" if "j < n" for j
    using unat_domain_va [of "0x400000" j] that n(2) by simp
  have path: "upath_of (domain_va 0x400000 j) = upath_of 0x400000" if "j < n" for j
    using va [OF that] that n(2) by (simp add: upath_of_def index_nat)
  have pages: "leaf v2 f (domain_va 0x400000 (0 + j)) = 0 \<and> table_at v2 f (upath_of (domain_va 0x400000 (0 + j))) \<noteq> None"
    if j: "0 \<le> j" "j < 0 + n" for j
  proof -
    have "domain_va 0x400000 j \<le> USER_SPACE_END" using va [of j] j n(2) by (simp add: word_le_nat_alt USER_SPACE_END_def)
    then show ?thesis using S(3,6) path [of j] j by simp
  qed
  have "\<exists>arr' v'. grow_loop f 0x400000 0 n 0 (replicate MEM_DOMAIN_MAX_PAGES None) v2 = (0 + n, arr', v')"
    by (rule grow_loop_succeeds [OF S(2) insertI1 _ _ room_less [OF room2] pages]) (use n(2) in simp_all)
  then obtain arr' v3 where gl: "grow_loop f 0x400000 0 n 0 (replicate MEM_DOMAIN_MAX_PAGES None) v2 = (0 + n, arr', v3)"
    by blast
  have gr: "fst (mem_domain_grow (Some tk2) (of_nat n) v2) = 0"
    using n gl tk1(1) by (simp add: mem_domain_grow_def tk2_def Let_def)
  have h: "kzalloc_obj h = (Some (h_calls h), h\<lparr>h_calls := Suc (h_calls h)\<rparr>)" using assms(4) by (simp add: kzalloc_obj_def)
  have n0: "(0::u64) < of_nat n" by (simp add: n_def)
  show ?thesis
    using assms(5-7) gr n0 by (cases "mem_domain_grow (Some tk2) (of_nat n) v2") (simp add: mem_domain_create_def tk1_def [symmetric] cr st [folded limit_def] tk1(1) limit_def [symmetric]
        h tk2_def [symmetric] n(1) split: prod.split)
qed

section \<open>Properties\<close>

text \<open>
  C15. \<open>vmm_map_page\<close> and what the processes see. In page tables that are in order (no table shared, every
  table an allocated page), mapping a user page either fails and changes no translation, or gives
  exactly that page of exactly that address space the new entry, where none was present before; every other
  page of it, and every page of every other address space, translates as before, the kernel half is
  untouched, and the tables are in order again, tables allocated on the way included.
\<close>

theorem vmm_map_page_isolated:
  assumes "spaces_ok v R" "r \<in> R" "virt \<le> USER_SPACE_END" "vmm_map_page r virt phys flags v = (rc, v')"
  shows "spaces_ok v' R \<and> rc \<in> {0, -1, -2} \<and>
    (rc = 0 \<longrightarrow> \<not> has_flag (leaf v r virt) PTE_PRESENT \<and> leaf v' r virt = (phys AND PTE_ADDR_MASK) OR flags) \<and>
    (\<forall>r' \<in> R. \<forall>va \<le> USER_SPACE_END.
       rc \<noteq> 0 \<or> r' \<noteq> r \<or> drop_bit 12 va \<noteq> drop_bit 12 virt \<longrightarrow> leaf v' r' va = leaf v r' va) \<and>
    (\<forall>r' \<in> R. \<forall>j. 256 \<le> j \<and> j < 512 \<longrightarrow> pt_mem v' r' j = pt_mem v r' j)"
proof -
  obtain w where w: "spaces_kept v w R" "rc \<noteq> 0 \<longrightarrow> v' = w" "rc \<in> {0, -1, -2}"
    "rc = 0 \<longrightarrow> \<not> has_flag (leaf v r virt) PTE_PRESENT \<and>
       (\<exists>t. table_at w r (upath_of virt) = Some t \<and> v' = set_entry t (PT_INDEX virt) ((phys AND PTE_ADDR_MASK) OR flags) w)"
    using map_page_spec [OF assms] by blast
  have okw: "spaces_ok w R" using w(1) by (simp add: spaces_kept_def)
  show ?thesis
  proof (cases "rc = 0")
    case False
    then show ?thesis using w by (simp add: spaces_kept_def)
  next
    case True
    then obtain t where t: "table_at w r (upath_of virt) = Some t"
      "v' = set_entry t (PT_INDEX virt) ((phys AND PTE_ADDR_MASK) OR flags) w" using w(4) by blast
    have "t \<noteq> r'" if "r' \<in> R" for r'
      using spaces_inj [OF okw assms(2) that upath_of_ok [OF assms(3)], of "[]" t] t(1)
      by (auto simp: upath_def upath_of_def)
    moreover have "spaces_ok v' R" unfolding t(2)
      by (rule set_leaf(2) [OF okw assms(2) upath_of_ok [OF assms(3)] _ t(1)]) (simp add: upath_of_def)
    ultimately show ?thesis
      using w(1,3,4) True leaf_set [OF okw assms(2,3) t(1)] assms(2,3) by (auto simp: t(2) spaces_kept_def pt_mem_set_entry)
  qed
qed

text \<open>
  C16. A memory domain is private: when the running address space has the kernel's entry 0, a successful
  \<open>mem_domain_create\<close> gives the process a page table that shares no table with any other process, with 4
  pages (privilege 0) or 8 (privilege 1) mapped writable from the base address, each to a frame of its own
  that was free, and nothing else mapped; no other address space changes.
\<close>

theorem mem_domain_create_private:
  assumes "spaces_ok v R" "kernel_slot0 v" "mem_domain_create (Some tk) (h, v) = (0, t', h', v')"
  defines "n \<equiv> (if privilege_level tk = 0 then 4 else 8)"
  shows "\<exists>f arr tk'. t' = Some tk' \<and> pml4_self_ptr (mem_domain tk') = Some f \<and> f \<notin> R \<and> spaces_ok v' (insert f R) \<and>
    mem_domain_pages tk' = Some arr \<and> mem_domain_page_count tk' = n \<and>
    (\<forall>j < n. \<exists>pg. arr ! j = Some pg \<and> pg \<in> free_frames (v_pmm v) \<and> allocated (v_pmm v') pg 0 \<and>
       leaf v' f (domain_va 0x400000 j) = domain_entry pg) \<and>
    (\<forall>j k. j < k \<and> k < n \<longrightarrow> arr ! j \<noteq> arr ! k) \<and>
    (\<forall>va \<le> USER_SPACE_END. (\<forall>j < n. drop_bit 12 va \<noteq> drop_bit 12 (domain_va 0x400000 j)) \<longrightarrow> leaf v' f va = 0) \<and>
    (\<forall>r \<in> R. \<forall>va \<le> USER_SPACE_END. leaf v' r va = leaf v r va)"
proof -
  define tk1 where "tk1 = (if privilege_level tk = 0 then
      tk\<lparr>isolation_mode := ISOLATION_MEM, mem_domain := (mem_domain tk)\<lparr>base_vaddr := MEM_DOMAIN_PRIV0_BASE_VADDR,
           limit_vaddr := MEM_DOMAIN_PRIV0_LIMIT_VADDR\<rparr>\<rparr>
      else tk\<lparr>isolation_mode := ISOLATION_TMPDIR, mem_domain := (mem_domain tk)\<lparr>base_vaddr := MEM_DOMAIN_PRIV1_BASE_VADDR,
           limit_vaddr := MEM_DOMAIN_PRIV1_LIMIT_VADDR\<rparr>\<rparr>)"
  have tk1: "base_vaddr (mem_domain tk1) = 0x400000" "privilege_level tk1 = privilege_level tk"
    "0x400000 < limit_vaddr (mem_domain tk1)" "limit_vaddr (mem_domain tk1) \<le> 0x1000000"
    by (simp_all add: tk1_def kernel_defs)
  note run = assms(3) [unfolded mem_domain_create_def prod.case option.case Let_def, folded tk1_def]
  have priv: "privilege_level tk \<le> 1" using run by (auto split: if_splits)
  obtain f v1 where cr: "vmm_create_address_space v = (Some f, v1)"
    using run by (cases "vmm_create_address_space v") (auto split: if_splits option.splits)
  note run2 = run [unfolded cr prod.case option.case]
  obtain c v2 where st: "vmm_setup_user_space (Some f) (base_vaddr (mem_domain tk1)) (limit_vaddr (mem_domain tk1)) v1 = (c, v2)"
    by fastforce
  note run3 = run2 [unfolded st prod.case]
  have c: "c = 0" using run3 by (auto split: if_splits)
  obtain i h2 where kz: "kzalloc_obj h = (Some i, h2)"
    using run3 c by (cases "kzalloc_obj h") (auto split: if_splits option.splits)
  define tk2 where "tk2 = tk1\<lparr>mem_domain_pages := Some (replicate MEM_DOMAIN_MAX_PAGES None), mem_domain_page_count := 0,
      mem_domain := (mem_domain tk1)\<lparr>pml4_self_ptr := Some f, phys_frame_count := 0, sandbox_owned := False\<rparr>\<rparr>"
  have n: "domain_init_pages (privilege_level tk2) = of_nat n" "0 < n" "n \<le> 8"
    using priv tk1(2) by (auto simp: tk2_def n_def domain_init_pages_def kernel_defs)
  note run4 = run3 [unfolded kz prod.case option.case, folded tk2_def]
  have "(0::u64) < of_nat n" by (simp add: n_def)
  then have gr: "mem_domain_grow (Some tk2) (of_nat n) v2 = (0, t', v')"
    using run4 priv c n by (auto split: if_splits prod.splits)
  define arr0 where "arr0 = (replicate 64 None :: nat option list)"
  have tk2: "pml4_self_ptr (mem_domain tk2) = Some f" "mem_domain_pages tk2 = Some arr0" "mem_domain_page_count tk2 = 0"
    "base_vaddr (mem_domain tk2) = 0x400000"
    using tk1(1) by (simp_all add: tk2_def arr0_def MEM_DOMAIN_MAX_PAGES_def)
  have un: "unat (of_nat n :: u64) = n" "(of_nat n :: u64) \<noteq> 0" "\<not> (of_nat n :: u64) > domain_max_pages (privilege_level tk2)"
      "\<not> (of_nat n :: u64) > of_nat MEM_DOMAIN_MAX_PAGES"
    using tk1(2) priv by (auto simp: n_def tk2_def domain_max_pages_def kernel_defs)
  obtain m arr' w where gl: "grow_loop f 0x400000 0 n 0 arr0 v2 = (m, arr', w)" by (cases "grow_loop f 0x400000 0 n 0 arr0 v2") auto
  have m: "m = n" and t': "t' = Some (tk2\<lparr>mem_domain_pages := Some arr', mem_domain_page_count := n,
      mem_domain := (mem_domain tk2)\<lparr>phys_frame_count := n\<rparr>\<rparr>)" "v' = w"
    using gr un gl grow_loop_bound [OF gl] by (auto simp: mem_domain_grow_def tk2 Let_def split: if_splits prod.splits)
  have sl: "setup_loop f (unat (0x400000::u64)) (unat (limit_vaddr (mem_domain tk1))) v1 = (0, v2)"
    using st c tk1 by (auto simp: vmm_setup_user_space_def split: if_splits)
  have range: "unat (0x400000::u64) < unat (limit_vaddr (mem_domain tk1))" "unat (limit_vaddr (mem_domain tk1)) \<le> 2 ^ 39"
    using tk1(3,4) by (simp_all add: word_less_nat_alt word_le_nat_alt)
  note S = setup_fresh [OF assms(1,2) cr range sl]
  note fR = S(1) and ok2 = S(2) and lf = S(3) and lr = S(4) and fr = S(5)
  have G: "grown f 0x400000 0 0 (0 + n) arr0 arr' v2 v' (insert f R)"
  proof (rule grow_loop_grown [OF ok2])
    show "grow_loop f 0x400000 0 n 0 arr0 v2 = (0 + n, arr', v')" using gl by (simp only: m t'(2) add_0)
    show "unat (0x400000::u64) + (0 + 0 + n) * 4096 \<le> 2 ^ 47" using n(3) by simp
    show "0 + 0 + n \<le> length arr0" using n(3) by (simp add: arr0_def)
  qed simp_all
  note G' = grownD [OF G, unfolded add_0]
  have page: "\<exists>pg. arr' ! j = Some pg \<and> pg \<in> free_frames (v_pmm v) \<and> allocated (v_pmm v') pg 0 \<and>
       leaf v' f (domain_va 0x400000 j) = domain_entry pg" if j: "j < n" for j
    using G'(2) [OF le0 j] fr by (elim exE conjE) (intro exI conjI, assumption, erule (1) subsetD, assumption+)
  show ?thesis
  proof (intro exI conjI)
    show "t' = Some (tk2\<lparr>mem_domain_pages := Some arr', mem_domain_page_count := n,
        mem_domain := (mem_domain tk2)\<lparr>phys_frame_count := n\<rparr>\<rparr>)" by (rule t'(1))
    show "spaces_ok v' (insert f R)" by (rule G'(1))
    show "\<forall>j < n. \<exists>pg. arr' ! j = Some pg \<and> pg \<in> free_frames (v_pmm v) \<and> allocated (v_pmm v') pg 0 \<and>
       leaf v' f (domain_va 0x400000 j) = domain_entry pg" using page by simp
    show "\<forall>j k. j < k \<and> k < n \<longrightarrow> arr' ! j \<noteq> arr' ! k" using G'(3) by simp
    show "\<forall>va \<le> USER_SPACE_END. (\<forall>j < n. drop_bit 12 va \<noteq> drop_bit 12 (domain_va 0x400000 j)) \<longrightarrow> leaf v' f va = 0"
      using G'(4) [of f] lf by simp
    show "\<forall>r \<in> R. \<forall>va \<le> USER_SPACE_END. leaf v' r va = leaf v r va"
    proof (intro ballI allI impI)
      fix r va assume r: "r \<in> R" "va \<le> USER_SPACE_END"
      then have "r \<noteq> f" using fR by blast
      then show "leaf v' r va = leaf v r va" using G'(4) [of r va] lr [OF r] r by simp
    qed
  qed (simp_all add: tk2 fR)
qed


text \<open>64 free frames from 1 MB on; four are handed out, frame 512 as an empty page table in \<open>wit_space\<close>.\<close>

definition wit_vmm :: vmm_state where
  "wit_vmm =
     \<lparr>pt_mem = (\<lambda>_ _. 0), g_pt_bitmap = (\<lambda>_. 0), g_pt_owner = (\<lambda>_. 0), g_kernel_pml4 = Some 0, cr3 = 0, cr4 = 0,
      g_smep_enabled = False, g_smap_enabled = False,
      v_pmm = \<lparr>mem_map = (\<lambda>f. if 256 \<le> f \<and> f < 320 then fresh_page\<lparr>pg_flags := PG_FREE\<rparr> else if 512 \<le> f \<and> f < 516 then fresh_page else reserved_page),
               free_lists = (\<lambda>k. if k = 0 then [256..<320] else []),
               total_pages = 68, free_count = 64, g_total_pages_snapshot = 68,
               g_pmm_corruption_logged = False, g_reserved_free_rejected = 0, pmm_oom_marks = 0\<rparr>\<rparr>"

definition wit_space :: vmm_state where
  "wit_space = wit_vmm\<lparr>g_pt_bitmap := (\<lambda>_. 0)(64 := 1)\<rparr>"

definition wit_domain_heap :: kheap where
  "wit_domain_heap = \<lparr>h_outcome = (\<lambda>_. True), h_calls = 1, h_garbage = (\<lambda>_ _. 0)\<rparr>"

lemma wit_vmm_heads: "heads (free_lists (v_pmm wit_vmm)) = {0} \<times> {256..<320}"
  by (auto simp: heads_def wit_vmm_def MAX_ORDER_def simp del: upt_rec_numeral split: if_splits)

lemma wit_vmm_free: "free_frames (v_pmm wit_vmm) = {256..<320}"
  unfolding free_frames_def frames_def wit_vmm_heads by (auto simp: blk_def)

lemma wit_vmm_managed: "managed (v_pmm wit_vmm) = {256..<320} \<union> {512..<516}"
  by (auto simp: managed_def wit_vmm_def fresh_page_def reserved_page_def PG_FREE_def PG_RESERVED_def MAX_PAGES_def split: if_splits)

lemma wit_vmm_inv: "pmm_inv (v_pmm wit_vmm)"
proof -
  have "lists_ok (free_lists (v_pmm wit_vmm)) (mem_map (v_pmm wit_vmm))"
    unfolding lists_ok_def wit_vmm_heads
    by (auto simp: head_ok_def blk_def wit_vmm_def fresh_page_def MAX_PAGES_def simp del: upt_rec_numeral)
  moreover have "card ({256..<320::nat} \<union> {512..<516}) = 68" by (subst card_Un_disjoint) auto
  ultimately show ?thesis unfolding pmm_inv_def wit_vmm_free wit_vmm_managed by (simp add: wit_vmm_def del: upt_rec_numeral)
qed

lemma wit_vmm_ok: "spaces_ok wit_vmm {}" "kernel_slot0 wit_vmm" "room wit_vmm 32"
  by (simp_all add: spaces_ok_def wit_vmm_inv room_def wit_vmm_free) (simp add: kernel_slot0_def wit_vmm_def)

lemma wit_vmm_held: "512 \<le> f \<Longrightarrow> f < 516 \<Longrightarrow> allocated (v_pmm wit_vmm) f 0"
  unfolding allocated_def wit_vmm_free wit_vmm_managed by (auto simp: blk_def wit_vmm_def fresh_page_def MAX_ORDER_def MAX_PAGES_def)

lemma wit_space_ok: "spaces_ok wit_space {512}"
proof -
  have al: "allocated (v_pmm wit_vmm) 512 0" by (rule wit_vmm_held) simp_all
  have bit: "pt_bit_test (frame_pa 512) wit_vmm = False" "pt_bit_test (frame_pa 512) wit_space = True"
    using pt_pfn_frame_pa [of 512] by (simp_all add: pt_bit_test_def wit_space_def wit_vmm_def MAX_PAGES_def)
  have eq: "v_pmm wit_space = v_pmm wit_vmm" "pt_mem wit_space = (\<lambda>_ _. 0)" by (simp_all add: wit_space_def wit_vmm_def)
  have none: "\<not> pt_page wit_vmm g" for g by (simp add: pt_page_def pt_bit_test_def wit_vmm_def)
  have "pt_page wit_space 512"
    using al bit(2) by (simp add: pt_page_def eq) (simp add: wit_vmm_def fresh_page_def)
  then show ?thesis
    using spaces_ok_insert(1) [OF wit_vmm_ok(1) none, where f = 512 and v' = wit_space] none wit_vmm_inv
    by (simp add: eq) (simp add: wit_vmm_def)
qed

lemma vmm_map_page_isolated_witness:
  "spaces_ok (snd (vmm_map_page 512 0x400000 0x300000 7 wit_space)) {512}"
proof -
  obtain rc v' where m: "vmm_map_page 512 0x400000 0x300000 7 wit_space = (rc, v')" by fastforce
  have "0x400000 \<le> USER_SPACE_END" by (simp add: USER_SPACE_END_def)
  from vmm_map_page_isolated [OF wit_space_ok insertI1 this m] show ?thesis by (simp add: m)
qed


lemma mem_domain_create_private_witness:
  "\<exists>f v'. snd (snd (snd (mem_domain_create (Some zero_task) (wit_domain_heap, wit_vmm)))) = v' \<and> spaces_ok v' {f} \<and>
     (\<exists>pg. pg \<in> {256..<320} \<and> leaf v' f (domain_va 0x400000 3) = domain_entry pg)"
proof -
  have "fst (mem_domain_create (Some zero_task) (wit_domain_heap, wit_vmm)) = 0"
    by (rule create_succeeds [OF wit_vmm_ok]) (simp_all add: wit_domain_heap_def zero_task_def no_domain_def)
  then obtain t' h' v' where r: "mem_domain_create (Some zero_task) (wit_domain_heap, wit_vmm) = (0, t', h', v')"
    by (cases "mem_domain_create (Some zero_task) (wit_domain_heap, wit_vmm)") auto
  have "(3::nat) < (if privilege_level zero_task = 0 then 4 else 8)" by simp
  then show ?thesis using mem_domain_create_private [OF wit_vmm_ok(1,2) r] unfolding r wit_vmm_free by (simp only: snd_conv) metis
qed

end
