(* ===== verification/MemDomainNested.thy ===== *)
theory MemDomainNested
  imports MemDomainProps
begin

text \<open>
  What \<open>vmm_free_user_pagetables\<close> frees, and what happens when a process that runs in a domain of its own
  creates a domain for a child: \<open>vmm_create_address_space\<close> copies entry 0 of the running page table,
  the setup takes the copied tables for its own, and the clean-up after the failure frees them.
\<close>

section \<open>Freeing page tables\<close>

text \<open>
  From \<open>v0\<close> on, only zeros have been written, and only to the tables \<open>W\<close>; only pages of \<open>F\<close> have been freed.
\<close>

definition shrunk :: "nat set \<Rightarrow> nat set \<Rightarrow> vmm_state \<Rightarrow> vmm_state \<Rightarrow> bool" where
  "shrunk W F v0 v \<longleftrightarrow> pmm_inv (v_pmm v) \<and> bits_ok v \<and> free_frames (v_pmm v0) \<subseteq> free_frames (v_pmm v) \<and>
     (\<forall>g j. j < 512 \<longrightarrow> pt_mem v g j = pt_mem v0 g j \<or> (g \<in> W \<and> pt_mem v g j = 0)) \<and>
     (\<forall>g. pt_page v0 g \<and> g \<notin> F \<longrightarrow> pt_page v g)"

lemma shrunk_refl: "pmm_inv (v_pmm v) \<Longrightarrow> bits_ok v \<Longrightarrow> shrunk W F v v"
  by (simp add: shrunk_def)

lemma shrunk_mem: "shrunk W F v0 v \<Longrightarrow> j < 512 \<Longrightarrow> pt_mem v g j = pt_mem v0 g j \<or> (g \<in> W \<and> pt_mem v g j = 0)"
  by (simp add: shrunk_def)

lemma shrunk_trans: "shrunk W F v0 v1 \<Longrightarrow> shrunk W F v1 v2 \<Longrightarrow> shrunk W F v0 v2"
  unfolding shrunk_def by (intro conjI allI impI) (auto, metis+)

lemma bits_ok_set_entry: "bits_ok v \<Longrightarrow> bits_ok (set_entry t i e v)"
proof -
  have "pt_bit_test pa (set_entry t i e v) = pt_bit_test pa v" for pa by (rule pt_bit_test_cong) simp
  then show "bits_ok v \<Longrightarrow> bits_ok (set_entry t i e v)" by (simp add: bits_ok_def) (simp add: set_entry_def)
qed

lemma shrunk_clear: "shrunk W F v0 v \<Longrightarrow> t \<in> W \<Longrightarrow> shrunk W F v0 (set_entry t i 0 v)"
  using bits_ok_set_entry by (auto simp: shrunk_def pt_mem_set_entry)

text \<open>Releasing a page table: all of it happens or nothing.\<close>

lemma free_pt_page:
  fixes ow :: u32
  assumes inv: "pmm_inv (v_pmm v)" and bits: "bits_ok v" and g: "g < MAX_PAGES"
  defines "v' \<equiv> snd (vmm_free_pt_page_ex (frame_pa g) ow v)"
  shows "pmm_inv (v_pmm v')" "bits_ok v'" "free_frames (v_pmm v) \<subseteq> free_frames (v_pmm v')"
    "\<And>f j. j < 512 \<Longrightarrow> pt_mem v' f j = pt_mem v f j \<or> (f = g \<and> pt_mem v' f j = 0)"
    "\<And>f. pt_page v f \<Longrightarrow> f \<noteq> g \<Longrightarrow> pt_page v' f"
    "pt_page v g \<Longrightarrow> ow = 0 \<or> ow = ANY_OWNER \<Longrightarrow> g \<in> free_frames (v_pmm v')"
proof -
  let ?c = "pt_owner_set (frame_pa g) 0 (pt_bit_clear (frame_pa g) v)"
  let ?z = "pt_owner_set (frame_pa g) 0 (pt_bit_clear (frame_pa g) (zero_page g v))"
  let ?f = "?z\<lparr>v_pmm := pmm_free_pages (Some g) 0 (v_pmm ?z)\<rparr>"
  have pg: "phys_to_page (unat (frame_pa g)) = g" by (rule frame_pa_range(3) [OF g])
  have cases: "v' = v \<or> v' = ?c \<or> (v' = ?f \<and> pt_bit_test (frame_pa g) v)"
    by (auto simp: v'_def vmm_free_pt_page_ex_def vmm_is_pt_page_strict_def Let_def pg split: if_splits)
  have mem: "pt_mem v' f j = pt_mem v f j \<or> (f = g \<and> pt_mem v' f j = 0)" if "j < 512" for f j
    using cases that by (auto simp: pt_mem_zero_page split: if_splits)
  have bit: "pt_bit_test (frame_pa h) w = (h \<noteq> g \<and> pt_bit_test (frame_pa h) v)" if "h < MAX_PAGES" "w = ?c \<or> w = ?f" for h w
  proof -
    have "pt_bit_test (frame_pa h) w = pt_bit_test (frame_pa h) (pt_bit_clear (frame_pa g) v)"
      by (rule pt_bit_test_cong) (use that(2) in \<open>auto simp: pt_bit_clear_def\<close>)
    then show ?thesis using pt_bit_test_clear [OF g that(1)] by simp
  qed
  have owners: "g_pt_owner w h = 0" if "w = ?c \<or> w = ?f" for w h
    using that bits by (auto simp: bits_ok_def pt_owner_set_def pt_bit_clear_def zero_page_def)
  have free: "pmm_inv (v_pmm ?f) \<and> free_frames (v_pmm ?f) = free_frames (v_pmm v) \<union> {g} \<and>
      (\<forall>h. allocated (v_pmm v) h 0 \<and> h \<noteq> g \<longrightarrow> allocated (v_pmm ?f) h 0 \<and> mem_map (v_pmm ?f) h = mem_map (v_pmm v) h)"
    if "pt_bit_test (frame_pa g) v"
  proof -
    have al: "allocated (v_pmm v) g 0" using bits g that by (simp add: bits_ok_def)
    have blk: "blk h 0 = {h}" for h by (auto simp: blk_def)
    have "allocated (v_pmm ?f) h 0 \<and> mem_map (v_pmm ?f) h = mem_map (v_pmm v) h" if h: "allocated (v_pmm v) h 0" "h \<noteq> g" for h
      using pmm.release_keeps [OF inv al h(1)] pmm_free_ok(4) [OF inv al, of h] h(2) allocated_facts [OF h(1)] by (simp add: blk)
    then show ?thesis using pmm_free_ok(1,2) [OF inv al] by (simp add: blk)
  qed
  show "\<And>f j. j < 512 \<Longrightarrow> pt_mem v' f j = pt_mem v f j \<or> (f = g \<and> pt_mem v' f j = 0)" by (rule mem)
  show "pmm_inv (v_pmm v')" "free_frames (v_pmm v) \<subseteq> free_frames (v_pmm v')" using cases inv free by auto
  show "bits_ok v'"
  proof (cases "v' = v")
    case False
    then have w: "v' = ?c \<or> v' = ?f" using cases by blast
    have "allocated (v_pmm v') h 0" if h: "h < MAX_PAGES" "pt_bit_test (frame_pa h) v'" for h
    proof -
      have "h \<noteq> g" "pt_bit_test (frame_pa h) v" using bit [OF h(1) w] h(2) by simp_all
      then show ?thesis using cases free bits h(1) by (auto simp: bits_ok_def)
    qed
    then show ?thesis using owners [OF w] by (simp add: bits_ok_def)
  qed (use bits in simp)
  show "pt_page v' f" if "pt_page v f" "f \<noteq> g" for f
  proof (cases "v' = v")
    case False
    then have w: "v' = ?c \<or> v' = ?f" using cases by blast
    then show ?thesis using that bit [OF pt_page_max [OF that(1)] w] cases free by (auto simp: pt_page_def)
  qed (use that in simp)
  show "g \<in> free_frames (v_pmm v')" if p: "pt_page v g" and ow: "ow = 0 \<or> ow = ANY_OWNER"
  proof -
    have "pt_owner_get (frame_pa g) v = 0"
      using bits g by (simp add: pt_owner_get_def pt_pfn_frame_pa bits_ok_def)
    then have "v' = ?f"
      using p ow g frame_pa_range [OF g] pt_page_strict [OF p]
      by (auto simp: v'_def vmm_free_pt_page_ex_def pt_page_def frame_pa_aligned Let_def pg)
    then show ?thesis using free p by (auto simp: pt_page_def)
  qed
qed

lemma shrunk_free:
  assumes "shrunk W F v0 v" "entry_frame e \<in> W" "entry_frame e \<in> F"
  shows "shrunk W F v0 (snd (vmm_free_pt_page_ex (e AND PTE_ADDR_MASK) ow v))"
proof (cases "entry_frame e < MAX_PAGES")
  case True
  note A = free_pt_page [OF _ _ True, where v = v and ow = ow, unfolded frame_pa_entry_frame]
  have i: "pmm_inv (v_pmm v)" "bits_ok v" using assms(1) by (simp_all add: shrunk_def)
  let ?v = "snd (vmm_free_pt_page_ex (e AND PTE_ADDR_MASK) ow v)"
  have "pt_mem ?v g j = pt_mem v0 g j \<or> (g \<in> W \<and> pt_mem ?v g j = 0)" if "j < 512" for g j
    using A(4) [OF i that, of g] assms(2) shrunk_mem [OF assms(1) that, of g] by metis
  moreover have "pt_page ?v g" if "pt_page v0 g" "g \<notin> F" for g
    using A(5) [OF i, of g] assms(1,3) that by (auto simp: shrunk_def)
  ultimately show ?thesis using A(1-3) [OF i] assms(1) by (auto simp: shrunk_def)
next
  case False
  have "snd (vmm_free_pt_page_ex (e AND PTE_ADDR_MASK) ow v) = v"
    using False by (simp add: vmm_free_pt_page_ex_def vmm_is_pt_page_strict_def pt_bit_test_def pt_pfn_def entry_frame_def Let_def)
  then show ?thesis using assms(1) by simp
qed

lemma fold_shrunk:
  assumes "\<And>i v. i \<in> set xs \<Longrightarrow> shrunk W F v0 v \<Longrightarrow> shrunk W F v0 (step i v)" "shrunk W F v0 v"
  shows "shrunk W F v0 (fold step xs v)"
  using assms by (induction xs arbitrary: v) auto

text \<open>A non-zero entry is still the one of \<open>v0\<close>.\<close>

lemma shrunk_entry: "shrunk W F v0 v \<Longrightarrow> j < 512 \<Longrightarrow> has_flag (pt_mem v t j) PTE_PRESENT \<Longrightarrow> pt_mem v t j = pt_mem v0 t j"
  using shrunk_mem [of W F v0 v j t] by auto

lemma free_pde_shrunk:
  assumes "shrunk W F v0 v" "pd \<in> W" "i < 512" "\<And>u. next_table v0 pd i = Some u \<Longrightarrow> u \<in> W \<and> u \<in> F"
  shows "shrunk W F v0 (free_pde pd i v)"
proof (cases "has_flag (pt_mem v pd i) PTE_PRESENT \<and> \<not> has_flag (pt_mem v pd i) PTE_HUGE")
  case True
  then have "next_table v0 pd i = Some (entry_frame (pt_mem v pd i))"
    using shrunk_entry [OF assms(1,3), of pd] by (simp add: next_table_def)
  then show ?thesis
    using assms(4) shrunk_free [OF shrunk_clear [OF assms(1,2)]] shrunk_clear [OF assms(1,2)] True
    by (auto simp: free_pde_def Let_def)
next
  case False
  then show ?thesis using shrunk_clear [OF assms(1,2)] assms(1) by (auto simp: free_pde_def Let_def)
qed

lemma free_pdpte_shrunk:
  assumes "shrunk W F v0 v" "pdpt \<in> W" "i < 512" "\<And>u. next_table v0 pdpt i = Some u \<Longrightarrow> u \<in> W \<and> u \<in> F"
    and "\<And>u j w. next_table v0 pdpt i = Some u \<Longrightarrow> j < 512 \<Longrightarrow> next_table v0 u j = Some w \<Longrightarrow> w \<in> W \<and> w \<in> F"
  shows "shrunk W F v0 (free_pdpte pdpt i v)"
proof (cases "has_flag (pt_mem v pdpt i) PTE_PRESENT \<and> \<not> has_flag (pt_mem v pdpt i) PTE_HUGE")
  case True
  let ?e = "pt_mem v pdpt i"
  have n: "next_table v0 pdpt i = Some (entry_frame ?e)"
    using True shrunk_entry [OF assms(1,3), of pdpt] by (simp add: next_table_def)
  note C = shrunk_clear [OF assms(1,2), of i]
  have "shrunk W F v0 (fold (free_pde (entry_frame ?e)) [0..<512] (set_entry pdpt i 0 v))"
    by (rule fold_shrunk [OF _ C], rule free_pde_shrunk) (use assms(4,5) n in auto)
  then show ?thesis using shrunk_free assms(4) [OF n] C True by (auto simp: free_pdpte_def Let_def)
next
  case False
  then show ?thesis using shrunk_clear [OF assms(1,2)] assms(1) by (auto simp: free_pdpte_def Let_def)
qed


text \<open>
  Clearing out a page table \<open>f\<close> whose only user entry leads to the table \<open>P\<close> frees \<open>P\<close>, whoever else uses it.
\<close>

lemma drop_space_frees:
  assumes inv: "pmm_inv (v_pmm v)" and bits: "bits_ok v"
    and e: "has_flag (pt_mem v f 0) PTE_PRESENT" "has_flag (pt_mem v f 0) PTE_USER" "entry_frame (pt_mem v f 0) = P"
    and empty: "\<And>i. 0 < i \<Longrightarrow> i < 256 \<Longrightarrow> \<not> has_flag (pt_mem v f i) PTE_PRESENT"
    and P: "pt_page v P" and fP: "f \<noteq> P" and f: "f < MAX_PAGES" and k: "g_kernel_pml4 v \<noteq> Some f"
    and tree: "\<And>i u. i < 512 \<Longrightarrow> next_table v P i = Some u \<Longrightarrow> u \<noteq> P \<and> u \<noteq> f \<and> u \<noteq> c"
      "\<And>i u j w. i < 512 \<Longrightarrow> next_table v P i = Some u \<Longrightarrow> j < 512 \<Longrightarrow> next_table v u j = Some w \<Longrightarrow> w \<noteq> P \<and> w \<noteq> f \<and> w \<noteq> c"
    and c: "c \<noteq> f" "c \<noteq> P"
  shows "P \<in> free_frames (v_pmm (drop_space f v)) \<and> (\<forall>j < 512. pt_mem (drop_space f v) c j = pt_mem v c j)"
proof -
  define W where "W = {g. g \<noteq> f \<and> g \<noteq> c}"
  define F where "F = {g. g \<noteq> P}"
  have Pm: "P < MAX_PAGES" by (rule pt_page_max [OF P])
  let ?e = "pt_mem v f 0"
  have pa: "?e AND PTE_ADDR_MASK = frame_pa P" using frame_pa_entry_frame [of ?e] e(3) by simp
  define v1 where "v1 = set_entry f 0 0 v"
  have next1: "next_table v1 t i = next_table v t i" if "t \<noteq> f" for t i
    using that by (simp add: next_table_def v1_def pt_mem_set_entry)
  have S1: "shrunk W F v1 v1" using inv bits_ok_set_entry [OF bits] by (intro shrunk_refl) (simp_all add: v1_def)
  define v2 where "v2 = fold (free_pdpte P) [0..<512] v1"
  have S2: "shrunk W F v1 v2" unfolding v2_def
  proof (rule fold_shrunk [OF _ S1])
    fix i w assume i: "i \<in> set [0..<512]" and S: "shrunk W F v1 w"
    show "shrunk W F v1 (free_pdpte P i w)"
    proof (rule free_pdpte_shrunk [OF S])
      show "P \<in> W" using fP c by (auto simp: W_def)
      show "i < 512" using i by simp
      show "u \<in> W \<and> u \<in> F" if "next_table v1 P i = Some u" for u
        using tree(1) [of i u] that i fP by (simp add: next1 W_def F_def)
      show "w \<in> W \<and> w \<in> F" if "next_table v1 P i = Some u" "j < 512" "next_table v1 u j = Some w" for u j w
        using tree(1) [of i u] tree(2) [of i u j w] that i fP by (simp add: next1 W_def F_def)
    qed
  qed
  have strict: "vmm_is_pt_page_strict (?e AND PTE_ADDR_MASK) v1"
    unfolding pa by (rule pt_page_strict) (use P in \<open>simp add: v1_def\<close>)
  define v3 where "v3 = snd (vmm_free_pt_page_ex (frame_pa P) 0 v2)"
  have step0: "free_pml4e f 0 v = v3"
    using e strict by (simp add: free_pml4e_def Let_def v1_def [symmetric] v2_def [symmetric] v3_def pa)
  have ok2: "pmm_inv (v_pmm v2)" "bits_ok v2" and P2: "pt_page v2 P"
    using S2 P by (simp_all add: shrunk_def F_def v1_def)
  note A = free_pt_page [OF ok2 Pm, where ow = 0, folded v3_def]
  have mem3: "pt_mem v3 g j = pt_mem v1 g j" if "g = f \<or> g = c" "j < 512" for g j
    using shrunk_mem [OF S2 that(2), of g] A(4) [OF that(2), of g] that(1) fP c by (auto simp: W_def)
  have P3: "P \<in> free_frames (v_pmm v3)" using A(6) P2 by simp
  have rest: "fold (free_pml4e f) [1..<256] v3 = v3"
  proof -
    have "free_pml4e f i v3 = v3" if "i \<in> set [1..<256]" for i
      using that mem3 [of f i] empty [of i] by (simp add: free_pml4e_def Let_def v1_def pt_mem_set_entry)
    then have "fold (free_pml4e f) xs v3 = v3" if "set xs \<subseteq> set [1..<256]" for xs
      using that by (induction xs) auto
    then show ?thesis by blast
  qed
  have "[0..<256] = 0 # [1..<256]" by (simp add: upt_conv_Cons del: upt_rec_numeral)
  then have all: "vmm_free_user_pagetables (Some f) v = v3"
    using k step0 rest by (simp add: vmm_free_user_pagetables_def del: upt_rec_numeral)
  have inv3: "pmm_inv (v_pmm v3)" "bits_ok v3" using A(1,2) .
  note D = free_pt_page [OF inv3 f, where ow = ANY_OWNER]
  have drop: "drop_space f v = v3 \<or> drop_space f v = snd (vmm_free_pt_page_ex (frame_pa f) ANY_OWNER v3)"
    by (simp add: drop_space_def all vmm_destroy_address_space_def)
  then have "free_frames (v_pmm v3) \<subseteq> free_frames (v_pmm (drop_space f v))" using D(3) by auto
  moreover have "pt_mem (drop_space f v) c j = pt_mem v3 c j" if "j < 512" for j
    using drop D(4) [OF that, of c] c by auto
  ultimately show ?thesis using P3 mem3 [of c] c by (auto simp: v1_def pt_mem_set_entry)
qed


section \<open>A domain inside a domain\<close>

lemma create_kept:
  assumes ok: "spaces_ok v R" and cr: "vmm_create_address_space v = (Some f, v')"
  shows "spaces_kept v v' R" "stray v' R f"
proof -
  have inv: "pmm_inv (v_pmm v)" using ok by (simp add: spaces_ok_def)
  note C = create_spec [OF inv cr]
  have mem: "pt_mem v' g j = pt_mem v g j" if "j < 512" "g \<noteq> f" for g j using C(6) [OF that(1)] that(2) by simp
  have T: "table_at v' r q = table_at v r q" if "r \<in> R" "upath q" for r q
    by (rule table_at_same [OF ok C(3) _ that]) (rule mem)
  have page: "u \<noteq> f" if "r \<in> R" "upath q" "table_at v r q = Some u" for r q u
    using spaces_page [OF ok that] C(3) by blast
  have ok': "spaces_ok v' R"
    unfolding spaces_ok_def
  proof (intro conjI ballI allI impI, goal_cases)
    case (5 r p i g)
    then have p: "upath p" using upath_snoc by blast
    have g: "table_at v r p = Some g" using 5 T [OF _ p] by simp
    have "i < 512" using 5 by (simp add: upath_def)
    then have "pt_mem v' g i = pt_mem v g i" using mem page [OF _ p g] 5 by blast
    then show ?case using ok g 5 unfolding spaces_ok_def by auto
  qed (use C(1,5) T spaces_inj [OF ok] spaces_page [OF ok] in auto)
  obtain v1 where a: "vmm_alloc_pt_page v = (Some f, v1)" and b: "g_pt_bitmap v' = g_pt_bitmap v1" "g_pt_owner v' = g_pt_owner v1"
    "v_pmm v' = v_pmm v1" "g_kernel_pml4 v' = g_kernel_pml4 v1"
    using cr by (auto simp: vmm_create_address_space_def Let_def set_entry_def zero_page_def split: prod.splits option.splits)
  note A = vmm_alloc_Some [OF inv a]
  have bits: "bits_ok v'" if "bits_ok v"
    using that A(8,10,11) pt_bit_test_cong [OF b(1)] A(2) by (auto simp: bits_ok_def b(2,3) pt_page_def)
  have leaf: "leaf v' r va = leaf v r va" if "r \<in> R" "va \<le> USER_SPACE_END" for r va
    using T [OF that(1) upath_of_ok [OF that(2)]] page [OF that(1) upath_of_ok [OF that(2)]] mem
    by (auto simp: leaf_def split: option.split)
  have root: "r \<noteq> f" if "r \<in> R" for r using page [OF that, of "[]" r] by (simp add: upath_def)
  have nh: "no_huge v' r" if "r \<in> R" "no_huge v r" for r
    unfolding no_huge_def
  proof (intro allI impI, elim conjE)
    fix q j t assume q: "upath (q @ [j])" "length q = 2" "table_at v' r q = Some t"
    then have t: "table_at v r q = Some t" using T [OF that(1) upath_snoc] by simp
    have "pt_mem v' t j = pt_mem v t j" using mem page [OF that(1) upath_snoc [OF q(1)] t] q(1) by (simp add: upath_def)
    then show "\<not> has_flag (pt_mem v' t j) PTE_HUGE" using that(2) q t unfolding no_huge_def by metis
  qed
  have str: "stray v' R g \<and> (\<forall>j < 512. pt_mem v' g j = pt_mem v g j)" if "stray v R g" for g
  proof -
    have "g \<noteq> f" using that C(3) by (auto simp: stray_def)
    then show ?thesis using that mem C(5) T by (auto simp: stray_def)
  qed
  show "spaces_kept v v' R"
    unfolding spaces_kept_def
    using ok' leaf mem root T nh C(4,5,7,8) bits str A(12) b(4) by (simp add: T)
  show "stray v' R f" unfolding stray_def using C(2) T page by metis
qed


text \<open>
  The address space \<open>f\<close> whose entry 0 is the one of \<open>c\<close>: every operation below it is the one below \<open>c\<close>.
\<close>

definition shares :: "vmm_state \<Rightarrow> nat set \<Rightarrow> nat \<Rightarrow> nat \<Rightarrow> u64 \<Rightarrow> nat \<Rightarrow> bool" where
  "shares v R c f e P \<longleftrightarrow> spaces_ok v R \<and> c \<in> R \<and> stray v R f \<and> pt_mem v f 0 = e \<and> table_at v c [0] = Some P \<and>
     has_flag e PTE_PRESENT \<and> entry_frame e = P"

lemma upath0: "upath [0]" "upath ([] @ [0])"
  by (simp_all add: upath_def)

lemma shares_kept: "shares v R c f e P \<Longrightarrow> spaces_kept v v' R \<Longrightarrow> shares v' R c f e P"
  using upath0(1) unfolding shares_def spaces_kept_def by (auto simp del: table_at.simps(2))

lemma shares_ensure:
  assumes "shares v R c f e P"
  shows "pt_ensure f 0 uf v = (Some P, v)" "pt_ensure c 0 uf v = (Some P, v)"
    "setup_entry f 0 v = (Some P, v)" "setup_entry c 0 v = (Some P, v)"
proof -
  have P: "pt_page v P" using assms spaces_page [of v R c "[0]" P] upath0(1) by (simp add: shares_def)
  show f: "pt_ensure f 0 uf v = (Some P, v)" for uf using assms by (simp add: shares_def pt_ensure_def)
  show c: "pt_ensure c 0 uf v = (Some P, v)" for uf using assms pt_ensure_present [of v c "[]" c 0 P] by (simp add: shares_def)
  have "vmm_is_pt_page_strict (e AND PTE_ADDR_MASK) v"
    using pt_page_strict [OF P] assms by (simp add: shares_def flip: frame_pa_entry_frame)
  then show "setup_entry f 0 v = (Some P, v)" using f assms by (simp add: setup_entry_def shares_def)
  show "setup_entry c 0 v = (Some P, v)"
    using c assms setup_entry_ensure [of v R c "[]" 0 c] upath0(2) by (simp add: shares_def)
qed

lemma shares_step:
  assumes "shares v R c f e P" "a < 2 ^ 39"
  shows "setup_step f a v = setup_step c a v"
proof -
  have "PML4_INDEX (of_nat a) = 0" using assms(2) by (simp add: index_nat unat_of_nat)
  then show ?thesis by (simp add: setup_step_def shares_ensure [OF assms(1)])
qed

lemma shares_loop:
  assumes "shares v R c f e P" "limit \<le> 2 ^ 39"
  shows "setup_loop f a limit v = setup_loop c a limit v"
  using assms
proof (induction c a limit v rule: setup_loop.induct)
  case (1 c a limit v)
  show ?case
  proof (cases "a < limit")
    case True
    obtain rc w where s: "setup_step c a v = (rc, w)" by fastforce
    have sf: "setup_step f a v = (rc, w)" using shares_step [OF 1(2)] True 1(3) s by simp
    show ?thesis
    proof (cases "rc = 0")
      case False
      then show ?thesis using True s sf by (subst (1 2) setup_loop.simps) simp
    next
      case z: True
      have "spaces_kept v w R" using setup_step_kept [of v R c a rc w 0] 1(2,3) True s by (simp add: shares_def)
      then have sh: "shares w R c f e P" by (rule shares_kept [OF 1(2)])
      note IH = 1(1) [OF True s [symmetric] _ refl refl sh 1(3)]
      have "setup_loop f a limit v = setup_loop f (if a div 2 ^ 21 * 2 ^ 21 + 2 ^ 21 > limit then limit else a div 2 ^ 21 * 2 ^ 21 + 2 ^ 21) limit w"
        using True sf z by (subst setup_loop.simps) (simp add: Let_def)
      also have "\<dots> = setup_loop c (if a div 2 ^ 21 * 2 ^ 21 + 2 ^ 21 > limit then limit else a div 2 ^ 21 * 2 ^ 21 + 2 ^ 21) limit w"
        using IH z by simp
      also have "\<dots> = setup_loop c a limit v" using True s z by (subst (2) setup_loop.simps) (simp add: Let_def)
      finally show ?thesis .
    qed
  qed (subst (1 2) setup_loop.simps, simp)
qed

lemma map_page_mapped:
  assumes "table_at v r (upath_of virt) = Some t" "has_flag (leaf v r virt) PTE_PRESENT"
  shows "vmm_map_page r virt phys flags v = (-2, v)"
proof -
  obtain u3 u2 where u: "table_at v r [PML4_INDEX virt] = Some u3" "table_at v r [PML4_INDEX virt, PDPT_INDEX virt] = Some u2"
    using assms(1) by (auto simp: upath_of_def split: option.splits)
  note P = pt_ensure_present [of v r "[]" r "PML4_INDEX virt" u3] pt_ensure_present [of v r "[PML4_INDEX virt]" u3 "PDPT_INDEX virt" u2]
    pt_ensure_present [of v r "[PML4_INDEX virt, PDPT_INDEX virt]" u2 "PD_INDEX virt" t]
  have "pt_mem v t (PT_INDEX virt) = leaf v r virt" using assms(1) by (simp add: leaf_def)
  then show ?thesis using P u assms by (simp add: vmm_map_page_def Let_def upath_of_def del: table_at.simps(2))
qed

lemma shares_map:
  assumes "shares v R c f e P" "virt < 2 ^ 39"
  shows "vmm_map_page f virt phys flags v = vmm_map_page c virt phys flags v"
proof -
  have "PML4_INDEX virt = 0" using assms(2) by (simp add: index_nat word_less_nat_alt)
  then show ?thesis by (simp add: vmm_map_page_def shares_ensure(1,2) [OF assms(1)] Let_def)
qed

text \<open>Taking a frame and giving it back.\<close>

lemma alloc_free_kept:
  assumes ok: "spaces_ok v R" and a: "pmm_alloc_pages 0 (v_pmm v) = (Some pg, p)"
  shows "spaces_kept v (v\<lparr>v_pmm := pmm_free_pages (Some pg) 0 p\<rparr>) R"
proof -
  let ?v = "v\<lparr>v_pmm := pmm_free_pages (Some pg) 0 p\<rparr>"
  have inv: "pmm_inv (v_pmm v)" using ok by (simp add: spaces_ok_def)
  have o: "(0::int) < int MAX_ORDER" by (simp add: MAX_ORDER_def)
  note A = pmm_alloc_Some [OF inv order_refl o a, simplified]
  have al: "allocated p pg 0" using pmm_alloc_allocated [OF inv order_refl o a] by simp
  note F = pmm_free_ok [OF A(1) al, simplified]
  have blk: "blk h 0 = {h}" for h by (auto simp: blk_def)
  have pg: "pg \<in> free_frames (v_pmm v)" using A(4) by (simp add: blk)
  have keep: "allocated (v_pmm ?v) g 0 \<and> mem_map (v_pmm ?v) g = mem_map (v_pmm v) g" if g: "allocated (v_pmm v) g 0" for g
  proof -
    have "g \<notin> free_frames (v_pmm v)" using allocated_facts [OF g] by simp
    then have "g \<noteq> pg" using pg by blast
    then show ?thesis
      using pmm.release_keeps [OF A(1) al pmm.alloc_keeps [OF inv a g]] F(4) [of g] A(5) A(7) [of g] allocated_facts [OF g]
      by (simp add: blk)
  qed
  have nt: "next_table ?v = next_table v" by (simp add: next_table_def fun_eq_iff)
  have ta: "table_at ?v r' q = table_at v r' q" for r' q by (induction q arbitrary: r') (auto simp: nt split: option.split)
  have bit: "pt_bit_test pa ?v = pt_bit_test pa v" for pa by (rule pt_bit_test_cong) simp
  have page: "pt_page ?v g" if "pt_page v g" for g using that keep bit by (simp add: pt_page_def)
  have "spaces_ok ?v R" using ok page F(1) unfolding spaces_ok_def ta by auto
  moreover have "bits_ok ?v" if "bits_ok v" using that keep bit by (simp add: bits_ok_def)
  moreover have "free_frames (v_pmm ?v) \<subseteq> free_frames (v_pmm v)" using F(2) A(5) pg by (auto simp: blk)
  ultimately show ?thesis
    using keep page by (simp add: spaces_kept_def ta leaf_def no_huge_def stray_def split: option.split)
qed


text \<open>Whatever the clean-up of \<open>f\<close> is called on, it frees the table of \<open>c\<close>.\<close>

lemma shares_drop:
  assumes sh: "shares v R c f e P" and bits: "bits_ok v" and u: "has_flag e PTE_USER"
    and empty: "\<And>i. 0 < i \<Longrightarrow> i < 256 \<Longrightarrow> \<not> has_flag (pt_mem v f i) PTE_PRESENT" and k: "g_kernel_pml4 v \<noteq> Some f"
  shows "P \<in> free_frames (v_pmm (drop_space f v)) \<and> has_flag (pt_mem (drop_space f v) c 0) PTE_PRESENT \<and>
    entry_frame (pt_mem (drop_space f v) c 0) = P"
proof -
  have ok: "spaces_ok v R" and c: "c \<in> R" and str: "stray v R f" and P: "table_at v c [0] = Some P"
    using sh by (simp_all add: shares_def)
  have inj: "table_at v c p = Some g \<Longrightarrow> table_at v c q = Some g \<Longrightarrow> upath p \<Longrightarrow> upath q \<Longrightarrow> p = q" for p q g
    using spaces_inj [OF ok c c] by blast
  have up: "upath [0, i]" if "i < 512" for i using that by (simp add: upath_def)
  have up2: "upath [0, i, j]" if "i < 512" "j < 512" for i j using that by (simp add: upath_def)
  have nil: "upath []" "table_at v c [] = Some c" by (simp_all add: upath_def)
  have ne: "g \<noteq> P \<and> g \<noteq> f \<and> g \<noteq> c" if "table_at v c q = Some g" "upath q" "length q \<ge> 2" for g q
  proof -
    have "g \<noteq> P" using inj [OF that(1) _ that(2) upath0(1)] P that(3) by auto
    moreover have "g \<noteq> c" using inj [OF that(1) _ that(2) nil(1)] nil(2) that(3) by auto
    moreover have "g \<noteq> f" using str c that by (auto simp: stray_def)
    ultimately show ?thesis by blast
  qed
  have t2: "table_at v c [0, i] = next_table v P i" for i using P by (auto split: option.splits)
  have t3: "table_at v c [0, i, j] = Some w" if "next_table v P i = Some g" "next_table v g j = Some w" for i j g w
    using P that by (auto split: option.splits)
  have fP: "f \<noteq> P" "c \<noteq> f" "c \<noteq> P"
  proof -
    have "table_at v c q \<noteq> Some f" if "upath q" for q using str c that by (simp add: stray_def)
    then show "f \<noteq> P" "c \<noteq> f" using P nil upath0(1) by metis+
    show "c \<noteq> P" using inj [OF P _ upath0(1) nil(1)] nil(2) by auto
  qed
  have "P \<in> free_frames (v_pmm (drop_space f v)) \<and> (\<forall>j < 512. pt_mem (drop_space f v) c j = pt_mem v c j)"
  proof (rule drop_space_frees [OF _ bits _ _ _ empty _ fP(1) _ k _ _ fP(2,3)])
    show "pmm_inv (v_pmm v)" using ok by (simp add: spaces_ok_def)
    show "has_flag (pt_mem v f 0) PTE_PRESENT" "has_flag (pt_mem v f 0) PTE_USER" "entry_frame (pt_mem v f 0) = P"
      using sh u by (simp_all add: shares_def)
    show "pt_page v P" by (rule spaces_page [OF ok c upath0(1) P])
    show "f < MAX_PAGES" using str pt_page_max [of v f] by (simp add: stray_def)
    show "g \<noteq> P \<and> g \<noteq> f \<and> g \<noteq> c" if "i < 512" "next_table v P i = Some g" for i g
      by (rule ne [of "[0, i]"]) (use t2 that up in simp_all)
    show "w \<noteq> P \<and> w \<noteq> f \<and> w \<noteq> c" if "i < 512" "next_table v P i = Some g" "j < 512" "next_table v g j = Some w" for i g j w
      by (rule ne [OF t3 [OF that(2,4)] up2 [OF that(1,3)]]) simp
  qed
  moreover have "next_table v c 0 = Some P" using P by (auto split: option.splits)
  ultimately show ?thesis by (auto simp: next_table_def Let_def split: if_splits)
qed

text \<open>
  C18. A process that runs in a domain of its own cannot give a child one, and loses its page tables in the
  attempt: if the running address space has a user table at entry 0 and a page mapped at the base address,
  \<open>mem_domain_create\<close> fails, and then the running page table still points to a page-table page that is on the free
  list of the frame allocator.
\<close>

theorem nested_domain_frees_parent:
  assumes "spaces_ok v R" "bits_ok v" "vmm_current_pml4 v = c" "c \<in> R" "room v 1"
    and "g_kernel_pml4 v = Some k" "k \<notin> free_frames (v_pmm v)"
    and "has_flag (pt_mem v c 0) PTE_USER" "has_flag (leaf v c 0x400000) PTE_PRESENT"
    and "privilege_level tk \<le> 1" "\<not> priv_iso_ready tk" "pml4_self_ptr (mem_domain tk) = None"
    and "mem_domain_create (Some tk) (h, v) = (rc, t', h', v')"
  shows "rc = OB_ENOMEM \<and> has_flag (pt_mem v' c 0) PTE_PRESENT \<and> entry_frame (pt_mem v' c 0) \<in> free_frames (v_pmm v')"
proof -
  let ?va = "0x400000 :: u64"
  have va: "?va \<le> USER_SPACE_END" "PML4_INDEX ?va = 0" by (simp_all add: USER_SPACE_END_def index_nat)
  have inv: "pmm_inv (v_pmm v)" using assms(1) by (simp add: spaces_ok_def)
  obtain t where t: "table_at v c (upath_of ?va) = Some t" using assms(9) by (auto simp: leaf_def split: option.splits)
  then obtain P where P: "table_at v c [0] = Some P" by (auto simp: upath_of_def va split: option.splits)
  have e: "has_flag (pt_mem v c 0) PTE_PRESENT" "entry_frame (pt_mem v c 0) = P"
    using P by (auto simp: next_table_def Let_def split: option.splits if_splits)
  obtain f v1 where cr: "vmm_create_address_space v = (Some f, v1)"
  proof -
    obtain f w where "vmm_alloc_pt_page v = (Some f, w)" using vmm_alloc_room [OF inv, of 0] assms(5) by auto
    then show ?thesis using that by (auto simp: vmm_create_address_space_def Let_def)
  qed
  note C = create_spec [OF inv cr]
  note K1 = create_kept [OF assms(1) cr]
  have cf: "c \<noteq> f" using K1(2) assms(4) C(3) spaces_page [OF assms(1,4), of "[]" c] by (auto simp: upath_def)
  have f0: "pt_mem v1 f 0 = pt_mem v c 0" "\<And>i. 0 < i \<Longrightarrow> i < 256 \<Longrightarrow> pt_mem v1 f i = 0"
    using C(6) [of _ f] assms(3) cf by auto
  have sh1: "shares v1 R c f (pt_mem v c 0) P"
    using K1 assms(4) e f0(1) P upath0(1) by (auto simp: shares_def spaces_kept_def simp del: table_at.simps(2))
  have ff: "f \<in> free_frames (v_pmm v)"
  proof -
    obtain v0 where "vmm_alloc_pt_page v = (Some f, v0)"
      using cr by (auto simp: vmm_create_address_space_def Let_def split: prod.splits option.splits)
    then show ?thesis using vmm_alloc_Some(7) [OF inv] by blast
  qed
  have bad: "has_flag (pt_mem (drop_space f w) c 0) PTE_PRESENT \<and>
      entry_frame (pt_mem (drop_space f w) c 0) \<in> free_frames (v_pmm (drop_space f w))" if w: "spaces_kept v1 w R" for w
  proof -
    have "bits_ok w" using assms(2) K1(1) w by (simp add: spaces_kept_def)
    moreover have "\<not> has_flag (pt_mem w f i) PTE_PRESENT" if "0 < i" "i < 256" for i
      using w K1(2) f0(2) [OF that] that by (simp add: spaces_kept_def)
    moreover have "g_kernel_pml4 w \<noteq> Some f" using w K1(1) assms(6,7) ff by (auto simp: spaces_kept_def)
    ultimately show ?thesis using shares_drop [OF shares_kept [OF sh1 w] _ assms(8)] by blast
  qed
  define tk1 where "tk1 = (if privilege_level tk = 0 then
      tk\<lparr>isolation_mode := ISOLATION_MEM, mem_domain := (mem_domain tk)\<lparr>base_vaddr := MEM_DOMAIN_PRIV0_BASE_VADDR,
           limit_vaddr := MEM_DOMAIN_PRIV0_LIMIT_VADDR\<rparr>\<rparr>
      else tk\<lparr>isolation_mode := ISOLATION_TMPDIR, mem_domain := (mem_domain tk)\<lparr>base_vaddr := MEM_DOMAIN_PRIV1_BASE_VADDR,
           limit_vaddr := MEM_DOMAIN_PRIV1_LIMIT_VADDR\<rparr>\<rparr>)"
  define limit where "limit = limit_vaddr (mem_domain tk1)"
  have tk1: "base_vaddr (mem_domain tk1) = ?va" "privilege_level tk1 = privilege_level tk" "?va < limit" "limit \<le> 0x1000000"
    by (simp_all add: tk1_def limit_def kernel_defs)
  obtain c2 v2 where st: "setup_loop f (unat ?va) (unat limit) v1 = (c2, v2)" by fastforce
  have range: "unat limit \<le> 2 ^ 39" using tk1(4) by (simp add: word_le_nat_alt)
  have st': "vmm_setup_user_space (Some f) ?va limit v1 = (c2, v2)"
    using st tk1(3,4) by (simp add: vmm_setup_user_space_def USER_SPACE_END_def word_le_nat_alt word_less_nat_alt not_le not_less)
  have "setup_loop c (unat ?va) (unat limit) v1 = (c2, v2)" using shares_loop [OF sh1 range] st by simp
  then have K2: "spaces_kept v1 v2 R"
    using setup_loop_kept [of v1 R c "unat limit" "unat ?va" c2 v2 0 0] sh1 range by (simp add: shares_def)
  have sh2: "shares v2 R c f (pt_mem v c 0) P" by (rule shares_kept [OF sh1 K2])
  note run = assms(13) [unfolded mem_domain_create_def prod.case option.case Let_def, folded tk1_def, unfolded cr prod.case option.case tk1(1),
      folded limit_def, unfolded st' prod.case]
  show ?thesis
  proof (cases "c2 = 0")
    case False
    then show ?thesis using run assms(10-12) bad [OF K2] by auto
  next
    case c2: True
    show ?thesis
    proof (cases "kzalloc_obj h")
      case (Pair a h2)
      show ?thesis
      proof (cases a)
        case None
        then show ?thesis using run assms(10-12) bad [OF K2] c2 Pair by auto
      next
        case (Some a')
        define tk2 where "tk2 = tk1\<lparr>mem_domain_pages := Some (replicate MEM_DOMAIN_MAX_PAGES None), mem_domain_page_count := 0,
            mem_domain := (mem_domain tk1)\<lparr>pml4_self_ptr := Some f, phys_frame_count := 0, sandbox_owned := False\<rparr>\<rparr>"
        define n where "n = (if privilege_level tk = 0 then 4 else 8 :: nat)"
        have n: "domain_init_pages (privilege_level tk2) = of_nat n" "unat (of_nat n :: u64) = n" "(of_nat n :: u64) \<noteq> 0" "0 < n"
            "\<not> (of_nat n :: u64) > domain_max_pages (privilege_level tk2)" "\<not> (of_nat n :: u64) > of_nat MEM_DOMAIN_MAX_PAGES"
          using assms(10) tk1(2) by (auto simp: tk2_def n_def domain_init_pages_def domain_max_pages_def kernel_defs)
        obtain m where m: "n = Suc m" using n(4) by (cases n) auto
        have "\<exists>v3. grow_loop f ?va 0 n 0 (replicate MEM_DOMAIN_MAX_PAGES None) v2 = (0, replicate MEM_DOMAIN_MAX_PAGES None, v3) \<and> spaces_kept v2 v3 R"
        proof (cases "pmm_alloc_pages 0 (v_pmm v2)")
          case pa: (Pair b p)
          have ok2: "spaces_ok v2 R" using K2 by (simp add: spaces_kept_def)
          show ?thesis
          proof (cases b)
            case None
            then show ?thesis using pa pmm_alloc_kept(1) [OF ok2 pa] by (simp add: m)
          next
            case (Some pg)
            define w where "w = v2\<lparr>v_pmm := p\<rparr>"
            have Kw: "spaces_kept v2 w R" using pmm_alloc_kept(1) [OF ok2 pa] by (simp add: w_def)
            note Kvw = spaces_kept_trans [OF spaces_kept_trans [OF K1(1) K2] Kw]
            have shw: "shares w R c f (pt_mem v c 0) P" by (rule shares_kept [OF sh2 Kw])
            have tw: "table_at w c (upath_of ?va) = Some t" "has_flag (leaf w c ?va) PTE_PRESENT"
              using Kvw assms(4,9) t va(1) upath_of_ok [OF va(1)] by (simp_all add: spaces_kept_def)
            have "domain_va ?va (0 + 0) = ?va" by (simp add: domain_va_def)
            moreover have "vmm_map_page f ?va ph fl w = (-2, w)" for ph fl
              using shares_map [OF shw, of ?va] map_page_mapped [OF tw] by simp
            ultimately have "grow_loop f ?va 0 n 0 (replicate MEM_DOMAIN_MAX_PAGES None) v2 =
                (0, replicate MEM_DOMAIN_MAX_PAGES None, v2\<lparr>v_pmm := pmm_free_pages (Some pg) 0 p\<rparr>)"
              using pa Some by (simp add: m w_def)
            then show ?thesis using alloc_free_kept [OF ok2 pa [unfolded Some]] by blast
          qed
        qed
        then obtain v3 where g: "grow_loop f ?va 0 n 0 (replicate MEM_DOMAIN_MAX_PAGES None) v2 = (0, replicate MEM_DOMAIN_MAX_PAGES None, v3)"
          "spaces_kept v2 v3 R" by blast
        have gr: "\<exists>t2. mem_domain_grow (Some tk2) (of_nat n) v2 = (OB_ENOMEM, t2, v3)"
          using n g(1) tk1(1) by (simp add: mem_domain_grow_def tk2_def Let_def)
        have n0: "(0::u64) < of_nat n" by (simp add: n_def)
        have "rc = OB_ENOMEM \<and> v' = drop_space f v3"
          using run assms(10-12) c2 Pair Some gr n0 by (auto simp: tk2_def [symmetric] n(1))
        then show ?thesis using bad [OF spaces_kept_trans [OF K2 g(2)]] by simp
      qed
    qed
  qed
qed


text \<open>A running domain: root 512, tables 513 to 515, one page mapped at the base address.\<close>

definition wit_running :: vmm_state where
  "wit_running = wit_vmm\<lparr>g_pt_bitmap := (\<lambda>_. 0)(64 := 0xF), cr3 := 0x200000,
     pt_mem := (\<lambda>f i. if f = 512 \<and> i = 0 then 0x201007 else if f = 513 \<and> i = 0 then 0x202007
                       else if f = 514 \<and> i = 2 then 0x203007 else if f = 515 \<and> i = 0 then 0x300007 else 0)\<rparr>"

lemma wit_running_next:
  "next_table wit_running t i = (if t = 512 \<and> i = 0 then Some 513 else if t = 513 \<and> i = 0 then Some 514
     else if t = 514 \<and> i = 2 then Some 515 else if t = 515 \<and> i = 0 then Some 768 else None)"
  by (simp add: next_table_def wit_running_def kernel_defs entry_frame_def Let_def)

lemma wit_running_paths:
  "upath q \<and> table_at wit_running 512 q = Some f \<longleftrightarrow> (q = [] \<and> f = 512) \<or> (q = [0] \<and> f = 513) \<or> (q = [0, 0] \<and> f = 514) \<or> (q = [0, 0, 2] \<and> f = 515)"
proof
  assume "upath q \<and> table_at wit_running 512 q = Some f"
  then have q: "length q \<le> 3" "table_at wit_running 512 q = Some f" by (simp_all add: upath_def)
  then consider "q = []" | i where "q = [i]" | i j where "q = [i, j]" | i j k where "q = [i, j, k]"
    by (cases q; cases "tl q"; cases "tl (tl q)") auto
  then show "(q = [] \<and> f = 512) \<or> (q = [0] \<and> f = 513) \<or> (q = [0, 0] \<and> f = 514) \<or> (q = [0, 0, 2] \<and> f = 515)"
    using q(2) by cases (auto simp: wit_running_next split: if_splits)
qed (auto simp: wit_running_next upath_def)

lemma wit_running_pages: "512 \<le> f \<Longrightarrow> f < 516 \<Longrightarrow> pt_page wit_running f"
proof -
  assume f: "512 \<le> f" "f < 516"
  then consider "f = 512" | "f = 513" | "f = 514" | "f = 515" by linarith
  then have "pt_bit_test (frame_pa f) wit_running"
    by cases (simp_all add: pt_bit_test_def pt_pfn_frame_pa MAX_PAGES_def wit_running_def)
  moreover have "v_pmm wit_running = v_pmm wit_vmm" by (simp add: wit_running_def)
  ultimately show ?thesis using wit_vmm_held [OF f] f by (simp add: pt_page_def) (simp add: wit_vmm_def fresh_page_def)
qed

lemma wit_running_ok: "spaces_ok wit_running {512}" "bits_ok wit_running"
proof -
  have pm: "v_pmm wit_running = v_pmm wit_vmm" by (simp add: wit_running_def)
  note W = wit_running_paths
  show "spaces_ok wit_running {512}" unfolding spaces_ok_def
  proof (intro conjI ballI allI impI, goal_cases)
    case 1
    show ?case using wit_vmm_inv by (simp add: pm)
  next
    case (2 r r' p q f)
    then show ?case by simp
  next
    case (3 r r' p q f)
    then show ?case using W [of p f] W [of q f] by auto
  next
    case (4 r p f)
    then show ?case using W [of p f] wit_running_pages by auto
  next
    case (5 r p i f)
    then show ?case by (auto simp: wit_running_def kernel_defs)
  qed
  show "bits_ok wit_running" unfolding bits_ok_def
  proof (intro conjI allI impI)
    fix g assume g: "g < MAX_PAGES" "pt_bit_test (frame_pa g) wit_running"
    then have "g div 8 = 64" "bit (0xF :: u8) (g mod 8)"
      by (auto simp: pt_bit_test_def pt_pfn_frame_pa low_bit wit_running_def split: if_splits)
    moreover have "\<not> bit (0xF :: u8) n" if "4 \<le> n" for n
    proof -
      have "(0xF :: u8) = mask 4" by (simp add: mask_eq_exp_minus_1)
      then show ?thesis using that by (simp only: bit_mask_iff) simp
    qed
    ultimately have "g div 8 = 64" "g mod 8 < 4" by (auto simp: not_le [symmetric])
    then have "512 \<le> g" "g < 516" by presburger+
    then show "allocated (v_pmm wit_running) g 0" using wit_vmm_held by (simp add: pm)
  qed (simp add: wit_running_def wit_vmm_def)
qed

lemma nested_domain_frees_parent_witness:
  "\<exists>rc v'. fst (mem_domain_create (Some zero_task) (wit_domain_heap, wit_running)) = rc \<and> rc = OB_ENOMEM \<and>
     snd (snd (snd (mem_domain_create (Some zero_task) (wit_domain_heap, wit_running)))) = v' \<and>
     entry_frame (pt_mem v' 512 0) \<in> free_frames (v_pmm v')"
proof -
  obtain rc t' h' v' where r: "mem_domain_create (Some zero_task) (wit_domain_heap, wit_running) = (rc, t', h', v')" by (metis surj_pair)
  have pm: "v_pmm wit_running = v_pmm wit_vmm" by (simp add: wit_running_def)
  have "table_at wit_running 512 (upath_of 0x400000) = Some 515" by (simp add: upath_of_def index_nat wit_running_next)
  then have "has_flag (leaf wit_running 512 0x400000) PTE_PRESENT" by (simp add: leaf_def index_nat wit_running_def kernel_defs)
  moreover have "vmm_current_pml4 wit_running = 512" by (simp add: vmm_current_pml4_def wit_running_def entry_frame_def kernel_defs)
  moreover have "has_flag (pt_mem wit_running 512 0) PTE_USER" by (simp add: wit_running_def kernel_defs)
  moreover have "g_kernel_pml4 wit_running = Some 0" "room wit_running 1" "0 \<notin> free_frames (v_pmm wit_running)"
    by (simp_all add: room_def pm wit_vmm_free) (simp add: wit_running_def wit_vmm_def)
  ultimately have "rc = OB_ENOMEM \<and> has_flag (pt_mem v' 512 0) PTE_PRESENT \<and> entry_frame (pt_mem v' 512 0) \<in> free_frames (v_pmm v')"
    by (intro nested_domain_frees_parent [OF wit_running_ok _ _ _ _ _ _ _ _ _ _ r]) (simp_all add: zero_task_def no_domain_def)
  then show ?thesis by (simp add: r)
qed

end
