(* ===== verification/Futex.thy ===== *)
theory Futex
  imports Sched Vmm
begin

text \<open>
  Futexes (\<open>futex.c\<close>, \<open>futex.h\<close>): 64 buckets of waiters. A waiter lives on the stack of the thread that
  waits and is named by a number; \<open>fx_waiters\<close> maps the number to its contents while the frame exists.
  The chain \<open>g_buckets[b] \<rightarrow> next\<close> is the list \<open>g_buckets fx b\<close>. Each definition is the code between two
  points where another thread or the timer can run: \<open>futex_wait\<close> is the check, the insertion, the
  switch, and the part after the switch.
\<close>

section \<open>State\<close>

definition FUTEX_MAX_BUCKETS :: nat where [kernel_defs]: "FUTEX_MAX_BUCKETS = 64"

record futex_waiter =
  w_th :: "nat option"
  w_uaddr :: u64
  w_pid :: nat
  wake_deadline :: u64
  woken :: bool

record futex_state =
  fx_waiters :: "nat \<Rightarrow> futex_waiter option"
  g_buckets :: "nat \<Rightarrow> nat list"
  g_futex_tick :: u64
  g_futex_inited :: bool

definition futex_init :: "futex_state \<Rightarrow> futex_state" where
  "futex_init fx =
     (if g_futex_inited fx then fx
      else fx\<lparr>g_buckets := (\<lambda>b. if b < FUTEX_MAX_BUCKETS then [] else g_buckets fx b),
              g_futex_tick := 0, g_futex_inited := True\<rparr>)"

definition bucket_of :: "u64 \<Rightarrow> nat" where
  "bucket_of uaddr = unat uaddr mod FUTEX_MAX_BUCKETS"

text \<open>Reading through a waiter pointer; no correct state reads a waiter whose frame is gone.\<close>

definition wtr :: "futex_state \<Rightarrow> nat \<Rightarrow> futex_waiter" where
  "wtr fx w = (case fx_waiters fx w of Some x \<Rightarrow> x
                 | None \<Rightarrow> \<lparr>w_th = None, w_uaddr = 0, w_pid = 0, wake_deadline = 0, woken = False\<rparr>)"

definition set_woken :: "bool \<Rightarrow> nat \<Rightarrow> futex_state \<Rightarrow> futex_state" where
  "set_woken b w fx = fx\<lparr>fx_waiters := (fx_waiters fx)(w := map_option (\<lambda>x. x\<lparr>woken := b\<rparr>) (fx_waiters fx w))\<rparr>"

definition set_bucket :: "nat \<Rightarrow> nat list \<Rightarrow> futex_state \<Rightarrow> futex_state" where
  "set_bucket b ws fx = fx\<lparr>g_buckets := (g_buckets fx)(b := ws)\<rparr>"

text \<open>\<open>if (w->th) w->th->futex_waiter = 0;\<close>\<close>

definition clear_waiter :: "nat option \<Rightarrow> sched_state \<Rightarrow> sched_state" where
  "clear_waiter to s = (case to of None \<Rightarrow> s | Some t \<Rightarrow> upd_thread t (\<lambda>x. x\<lparr>th_futex_waiter := None\<rparr>) s)"

section \<open>Waiting\<close>

text \<open>\<open>task_from_thread(sched_current())\<close>; \<open>tasks\<close> are the task blocks.\<close>

definition current_task :: "(nat \<Rightarrow> task_t option) \<Rightarrow> sched_state \<Rightarrow> task_t option" where
  "current_task tasks s =
     (case g_current s of
        None \<Rightarrow> None
      | Some c \<Rightarrow> (case th_task (thr s c) of None \<Rightarrow> None | Some a \<Rightarrow> tasks a))"

text \<open>The physical address behind the user address; \<open>uc_pml4\<close> gives the page table of a user context.\<close>

definition futex_user_ptr ::
    "(nat \<Rightarrow> task_t option) \<Rightarrow> (nat \<Rightarrow> nat option) \<Rightarrow> vmm_state \<Rightarrow> sched_state \<Rightarrow> u64 \<Rightarrow> u64 option" where
  "futex_user_ptr tasks uc_pml4 v s uaddr =
     (case current_task tasks s of
        None \<Rightarrow> None
      | Some cur \<Rightarrow>
          (case (if priv_iso_ready cur \<and> pml4_self_ptr (mem_domain cur) \<noteq> None then pml4_self_ptr (mem_domain cur)
                 else case user_ctx cur of None \<Rightarrow> None | Some uc \<Rightarrow> uc_pml4 uc) of
             None \<Rightarrow> None
           | Some pml4 \<Rightarrow>
               (case vmm_get_pte pml4 uaddr v of
                  None \<Rightarrow> None
                | Some (pt, i) \<Rightarrow>
                    if \<not> has_flag (pt_mem v pt i) PTE_PRESENT \<or> \<not> has_flag (pt_mem v pt i) PTE_USER then None
                    else Some ((pt_mem v pt i AND PTE_ADDR_MASK) + (uaddr AND 0xFFF)))))"

text \<open>Up to the comparison: a result, or none when the thread goes on to wait. \<open>word_at\<close> reads memory.\<close>

definition futex_wait_check ::
    "(nat \<Rightarrow> task_t option) \<Rightarrow> (nat \<Rightarrow> nat option) \<Rightarrow> vmm_state \<Rightarrow> (u64 \<Rightarrow> u32) \<Rightarrow> u64 \<Rightarrow> u32 \<Rightarrow> sched_state \<Rightarrow> int option"
  where
  "futex_wait_check tasks uc_pml4 v word_at uaddr expected s =
     (if g_current s = None then Some (-1)
      else if current_task tasks s = None then Some (-1)
      else case futex_user_ptr tasks uc_pml4 v s uaddr of
        None \<Rightarrow> Some (-1)
      | Some p \<Rightarrow> if word_at p \<noteq> expected then Some 0 else None)"

text \<open>The waiter \<open>w\<close> of the frame is filled in and put at the head of its bucket.\<close>

definition futex_wait_enqueue :: "nat \<Rightarrow> nat \<Rightarrow> nat \<Rightarrow> u64 \<Rightarrow> u64 \<Rightarrow> futex_state \<times> sched_state \<Rightarrow> futex_state \<times> sched_state" where
  "futex_wait_enqueue w self pid uaddr timeout_ticks k =
     (case k of (fx, s) \<Rightarrow>
        let x = \<lparr>w_th = Some self, w_uaddr = uaddr, w_pid = pid,
                 wake_deadline = (if timeout_ticks \<noteq> 0 then g_futex_tick fx + timeout_ticks else 0), woken = False\<rparr>;
            b = bucket_of uaddr;
            fx = fx\<lparr>fx_waiters := (fx_waiters fx)(w \<mapsto> x)\<rparr>
        in (set_bucket b (w # g_buckets fx b) fx, upd_thread self (\<lambda>x. x\<lparr>th_futex_waiter := Some w\<rparr>) s))"

definition futex_wait_block :: "nat \<Rightarrow> sched_state \<Rightarrow> (sched_state \<times> (nat option \<times> nat option) option) option" where
  "futex_wait_block self s = schedule (set_state THREAD_STATE_BLOCKED (Some self) s)"

text \<open>After the switch back: the result is read before the bucket is locked; the frame ends with the call.\<close>

definition futex_wait_finish :: "nat \<Rightarrow> nat \<Rightarrow> futex_state \<times> sched_state \<Rightarrow> int \<times> futex_state \<times> sched_state" where
  "futex_wait_finish w self k =
     (case k of (fx, s) \<Rightarrow>
        let result = (if woken (wtr fx w) then 0 else OB_ETIMEDOUT);
            b = bucket_of (w_uaddr (wtr fx w));
            fx = set_bucket b (remove1 w (g_buckets fx b)) fx
        in (result, fx\<lparr>fx_waiters := (fx_waiters fx)(w := None)\<rparr>,
            upd_thread self (\<lambda>x. x\<lparr>th_futex_waiter := None\<rparr>) s))"

text \<open>
  The system call runs with interrupts masked until \<open>schedule\<close> switches away, so on the one processor
  the three steps are one: either a result, or the state in which the next thread runs.
\<close>

definition futex_wait ::
    "(nat \<Rightarrow> task_t option) \<Rightarrow> (nat \<Rightarrow> nat option) \<Rightarrow> vmm_state \<Rightarrow> (u64 \<Rightarrow> u32) \<Rightarrow> nat \<Rightarrow> u64 \<Rightarrow> u32 \<Rightarrow> u64 \<Rightarrow>
     futex_state \<times> sched_state \<Rightarrow> int + (futex_state \<times> sched_state) option" where
  "futex_wait tasks uc_pml4 v word_at w uaddr expected timeout_ticks k =
     (case (futex_wait_check tasks uc_pml4 v word_at uaddr expected (snd k), g_current (snd k), current_task tasks (snd k)) of
        (None, Some self, Some cur) \<Rightarrow>
          (case futex_wait_enqueue w self (t_pid cur) uaddr timeout_ticks k of
             (fx, s) \<Rightarrow> Inr (map_option (\<lambda>r. (fx, fst r)) (futex_wait_block self s)))
      | (Some rc, _, _) \<Rightarrow> Inl rc
      | _ \<Rightarrow> Inl (-1))"

section \<open>Waking\<close>

text \<open>\<open>futex_wake_one_locked\<close>, the unlinking apart (\<open>wake_loop\<close> drops the waiter from the list it rebuilds).\<close>

definition futex_wake_one_locked :: "nat \<Rightarrow> futex_state \<times> sched_state \<Rightarrow> futex_state \<times> sched_state" where
  "futex_wake_one_locked w k =
     (case k of (fx, s) \<Rightarrow>
        (set_woken True w fx, sched_enqueue_thread (w_th (wtr fx w)) (clear_waiter (w_th (wtr fx w)) s)))"

fun wake_loop ::
    "u64 \<Rightarrow> nat \<Rightarrow> u32 \<Rightarrow> nat list \<Rightarrow> nat \<Rightarrow> futex_state \<times> sched_state \<Rightarrow> nat list \<times> nat \<times> futex_state \<times> sched_state" where
  "wake_loop uaddr self_pid count [] n k = ([], n, k)"
| "wake_loop uaddr self_pid count (w # ws) n k =
     (if (w_uaddr (wtr (fst k) w) = uaddr \<and> w_pid (wtr (fst k) w) = self_pid) \<and> (count = 0 \<or> of_nat n < count)
      then wake_loop uaddr self_pid count ws (Suc n) (futex_wake_one_locked w k)
      else case wake_loop uaddr self_pid count ws n k of (rest, n, k) \<Rightarrow> (w # rest, n, k))"

definition futex_wake_locked :: "u64 \<Rightarrow> nat \<Rightarrow> u32 \<Rightarrow> futex_state \<times> sched_state \<Rightarrow> nat \<times> futex_state \<times> sched_state" where
  "futex_wake_locked uaddr self_pid count k =
     (let b = bucket_of uaddr
      in case wake_loop uaddr self_pid count (g_buckets (fst k) b) 0 k of
           (ws, n, fx, s) \<Rightarrow> (n, set_bucket b ws fx, s))"

definition futex_wake ::
    "(nat \<Rightarrow> task_t option) \<Rightarrow> u64 \<Rightarrow> u32 \<Rightarrow> futex_state \<times> sched_state \<Rightarrow> nat \<times> futex_state \<times> sched_state" where
  "futex_wake tasks uaddr count k =
     futex_wake_locked uaddr (case current_task tasks (snd k) of Some cur \<Rightarrow> t_pid cur | None \<Rightarrow> 0) count k"

text \<open>One bucket of \<open>futex_wake_all_for_thread\<close>.\<close>

fun drop_loop :: "nat \<Rightarrow> nat list \<Rightarrow> futex_state \<times> sched_state \<Rightarrow> nat list \<times> futex_state \<times> sched_state" where
  "drop_loop th [] k = ([], k)"
| "drop_loop th (w # ws) k =
     (if w_th (wtr (fst k) w) = Some th
      then drop_loop th ws (set_woken False w (fst k), clear_waiter (Some th) (snd k))
      else case drop_loop th ws k of (rest, k) \<Rightarrow> (w # rest, k))"

definition drop_bucket :: "nat \<Rightarrow> nat \<Rightarrow> futex_state \<times> sched_state \<Rightarrow> futex_state \<times> sched_state" where
  "drop_bucket th b k = (case drop_loop th (g_buckets (fst k) b) k of (ws, fx, s) \<Rightarrow> (set_bucket b ws fx, s))"

definition futex_wake_all_for_thread :: "nat option \<Rightarrow> futex_state \<times> sched_state \<Rightarrow> futex_state \<times> sched_state" where
  "futex_wake_all_for_thread th k =
     (case th of None \<Rightarrow> k | Some t \<Rightarrow> fold (drop_bucket t) [0..<FUTEX_MAX_BUCKETS] k)"

text \<open>The waiter of a thread that waits for a task to end is in no bucket: it is only marked by the caller.\<close>

definition futex_wake_waiter :: "nat option \<Rightarrow> futex_state \<times> sched_state \<Rightarrow> futex_state \<times> sched_state" where
  "futex_wake_waiter wo k =
     (case wo of
        None \<Rightarrow> k
      | Some w \<Rightarrow>
          (case k of (fx, s) \<Rightarrow>
             let th = w_th (wtr fx w);
                 b = bucket_of (w_uaddr (wtr fx w));
                 (fx, s) = (if w \<in> set (g_buckets fx b) then
                              (set_woken True w (set_bucket b (remove1 w (g_buckets fx b)) fx), clear_waiter th s)
                            else (fx, s))
             in (fx, sched_enqueue_thread th s)))"

section \<open>Time-outs\<close>

definition expired :: "futex_state \<Rightarrow> nat \<Rightarrow> bool" where
  "expired fx w \<longleftrightarrow> wake_deadline (wtr fx w) \<noteq> 0 \<and> g_futex_tick fx \<ge> wake_deadline (wtr fx w)"

text \<open>The third phase: up to \<open>count\<close> expired waiters are unlinked, their threads collected.\<close>

fun collect_loop :: "nat \<Rightarrow> nat list \<Rightarrow> futex_state \<times> sched_state \<Rightarrow> nat list \<times> nat option list \<times> futex_state \<times> sched_state" where
  "collect_loop room [] k = ([], [], k)"
| "collect_loop 0 ws k = (ws, [], k)"
| "collect_loop (Suc room) (w # ws) k =
     (if expired (fst k) w then
        let th = w_th (wtr (fst k) w) in
        case collect_loop room ws (set_woken False w (fst k), clear_waiter th (snd k)) of
          (rest, batch, k) \<Rightarrow> (rest, th # batch, k)
      else case collect_loop (Suc room) ws k of (rest, batch, k) \<Rightarrow> (w # rest, batch, k))"

text \<open>
  Without memory for the batch: \<open>pre\<close> is the part of the chain before \<open>pp\<close>. After a thread has been
  woken the code looks for the first waiter of the \<^emph>\<open>same\<close> thread and goes on from there.
\<close>

function retry_loop :: "nat list \<Rightarrow> nat list \<Rightarrow> futex_state \<times> sched_state \<Rightarrow> nat list \<times> futex_state \<times> sched_state" where
  "retry_loop pre [] k = (pre, k)"
| "retry_loop pre (w # ws) k =
     (if expired (fst k) w then
        let th = w_th (wtr (fst k) w);
            k = (set_woken False w (fst k), sched_enqueue_thread th (clear_waiter th (snd k)));
            chain = pre @ ws;
            other = (\<lambda>u. w_th (wtr (fst k) u) \<noteq> th)
        in retry_loop (takeWhile other chain) (dropWhile other chain) k
      else retry_loop (pre @ [w]) ws k)"
  by pat_completeness auto
termination
proof (relation "measures [\<lambda>(pre, ws, k). length pre + length ws, \<lambda>(pre, ws, k). length ws]", goal_cases)
  case (2 pre w ws k th k' chain other)
  have "length (takeWhile other chain) + length (dropWhile other chain) = length chain"
    by (metis length_append takeWhile_dropWhile_id)
  then show ?case using 2 by simp
qed auto

definition tick_bucket :: "nat \<Rightarrow> kheap \<times> futex_state \<times> sched_state \<Rightarrow> kheap \<times> futex_state \<times> sched_state" where
  "tick_bucket b hk =
     (case hk of (h, fx, s) \<Rightarrow>
        let count = length (filter (expired fx) (g_buckets fx b)) in
        if count = 0 then (h, fx, s)
        else case kmalloc_buf (of_nat (count * 8)) h of
            (None, h) \<Rightarrow> (case retry_loop [] (g_buckets fx b) (fx, s) of (ws, fx, s) \<Rightarrow> (h, set_bucket b ws fx, s))
          | (Some _, h) \<Rightarrow>
              (case collect_loop count (g_buckets fx b) (fx, s) of
                 (ws, batch, fx, s) \<Rightarrow> (h, set_bucket b ws fx, fold sched_enqueue_thread batch s)))"

definition futex_tick :: "kheap \<times> futex_state \<times> sched_state \<Rightarrow> kheap \<times> futex_state \<times> sched_state" where
  "futex_tick hk =
     (case hk of (h, fx, s) \<Rightarrow>
        fold tick_bucket [0..<FUTEX_MAX_BUCKETS] (h, fx\<lparr>g_futex_tick := g_futex_tick fx + 1\<rparr>, s))"

end
