(* ===== verification/FutexCorrect.thy ===== *)
theory FutexCorrect
  imports Futex SchedProps
begin

text \<open>
  What waking, timing out and waiting do to the buckets and to the threads: an exact description of each
  loop, what all the ways of waking have in common, and the invariant that every operation keeps.
\<close>

section \<open>Threads\<close>

definition runnable :: "sched_state \<Rightarrow> nat \<Rightarrow> bool" where
  "runnable s t \<longleftrightarrow> th_state (thr s t) = THREAD_STATE_DEAD \<or> in_rq (thr s t)"

lemma thr_ends [simp]: "thr (s\<lparr>rq_head := h\<rparr>) u = thr s u" "thr (s\<lparr>rq_tail := h\<rparr>) u = thr s u"
  by (simp_all add: thr_def)

lemma rq_push_futex [simp]: "th_futex_waiter (thr (rq_push q t s) u) = th_futex_waiter (thr s u)"
  by (auto simp: rq_push_def Let_def thr_upd split: option.splits)

lemma rq_push_alloc [simp]: "threads (rq_push q t s) u = None \<longleftrightarrow> threads s u = None"
  by (auto simp: rq_push_def Let_def split: option.splits)

lemma rq_push_in_rq [simp]: "in_rq (thr (rq_push q t s) u) \<longleftrightarrow> in_rq (thr s u) \<or> u = t \<and> threads s t \<noteq> None"
  by (auto simp: rq_push_def Let_def thr_upd split: option.splits)

lemma enqueue_frame [simp]:
  "th_futex_waiter (thr (sched_enqueue_thread to s) u) = th_futex_waiter (thr s u)"
  "threads (sched_enqueue_thread to s) u = None \<longleftrightarrow> threads s u = None"
  by (auto simp: sched_enqueue_thread_def Let_def thr_upd split: option.splits)

lemma enqueue_runnable:
  "runnable s u \<Longrightarrow> runnable (sched_enqueue_thread to s) u"
  "threads s t \<noteq> None \<Longrightarrow> runnable (sched_enqueue_thread (Some t) s) t"
  by (auto simp: sched_enqueue_thread_def runnable_def Let_def thr_upd rq_push_state split: option.splits)

lemma clear_waiter_frame [simp]:
  "threads (clear_waiter to s) u = None \<longleftrightarrow> threads s u = None"
  "th_futex_waiter (thr (clear_waiter to s) u) = (if to = Some u then None else th_futex_waiter (thr s u))"
  "runnable (clear_waiter to s) u = runnable s u"
  by (auto simp: clear_waiter_def runnable_def thr_upd thr_def zero_thread_def split: option.splits)

lemma sched_ok_clear: "sched_ok s \<Longrightarrow> sched_ok (clear_waiter to s)"
  by (auto simp: clear_waiter_def split: option.splits intro!: sched_ok_upd)

lemma sched_ok_enqueue': "sched_ok s \<Longrightarrow> (\<And>t. to = Some t \<Longrightarrow> threads s t \<noteq> None) \<Longrightarrow> sched_ok (sched_enqueue_thread to s)"
  by (cases to) (auto simp: sched_ok_enqueue, simp add: sched_enqueue_thread_def)

text \<open>Waking a list of threads: each one's link to its waiter is cleared and it is put in its run queue.\<close>

definition wake_thread :: "nat option \<Rightarrow> sched_state \<Rightarrow> sched_state" where
  "wake_thread to s = sched_enqueue_thread to (clear_waiter to s)"

text \<open>What all the ways of unlinking and of waking the threads \<open>T\<close> have in common.\<close>

definition threads_unlinked :: "nat set \<Rightarrow> sched_state \<Rightarrow> sched_state \<Rightarrow> bool" where
  "threads_unlinked T s s' \<longleftrightarrow> (sched_ok s \<longrightarrow> sched_ok s') \<and> (\<forall>t. threads s' t = None \<longleftrightarrow> threads s t = None) \<and>
     (\<forall>t. th_futex_waiter (thr s' t) = (if t \<in> T then None else th_futex_waiter (thr s t))) \<and>
     (\<forall>t. runnable s t \<longrightarrow> runnable s' t)"

definition threads_woken :: "nat set \<Rightarrow> sched_state \<Rightarrow> sched_state \<Rightarrow> bool" where
  "threads_woken T s s' \<longleftrightarrow> threads_unlinked T s s' \<and> (\<forall>t \<in> T. runnable s' t)"

lemmas threads_defs = threads_woken_def threads_unlinked_def

lemma threads_woken_refl: "threads_woken {} s s"
  by (simp add: threads_defs)

lemma threads_woken_trans:
  "threads_woken T s s' \<Longrightarrow> threads_woken U s' s'' \<Longrightarrow> threads_woken (T \<union> U) s s''"
  by (auto simp: threads_defs)

lemma threads_woken_one: "threads s t \<noteq> None \<Longrightarrow> threads_woken {t} s (wake_thread (Some t) s)"
  by (auto simp: threads_defs wake_thread_def sched_ok_clear sched_ok_enqueue enqueue_runnable)

lemma threads_woken_fold:
  assumes "\<And>t. t \<in> set ts \<Longrightarrow> threads s t \<noteq> None"
  shows "threads_woken (set ts) s (fold (\<lambda>t. wake_thread (Some t)) ts s)"
  using assms
proof (induction ts rule: rev_induct)
  case (snoc t ts)
  then have IH: "threads_woken (set ts) s (fold (\<lambda>t. wake_thread (Some t)) ts s)" by simp
  moreover have "threads_woken {t} (fold (\<lambda>t. wake_thread (Some t)) ts s) (wake_thread (Some t) (fold (\<lambda>t. wake_thread (Some t)) ts s))"
    by (rule threads_woken_one) (use IH snoc.prems in \<open>auto simp: threads_defs\<close>)
  ultimately show ?case using threads_woken_trans by fastforce
qed (simp add: threads_woken_refl)

text \<open>The timer clears all the links first.\<close>

lemma threads_woken_batch:
  assumes "\<And>t. t \<in> set ts \<Longrightarrow> threads s t \<noteq> None"
  shows "threads_woken (set ts) s (fold sched_enqueue_thread (map Some ts) (fold (\<lambda>t. clear_waiter (Some t)) ts s))"
proof -
  let ?c = "fold (\<lambda>t. clear_waiter (Some t)) ts s"
  have c: "(sched_ok s \<longrightarrow> sched_ok ?c) \<and> (\<forall>t. threads ?c t = None \<longleftrightarrow> threads s t = None) \<and>
     (\<forall>t. th_futex_waiter (thr ?c t) = (if t \<in> set ts then None else th_futex_waiter (thr s t))) \<and>
     (\<forall>t. runnable ?c t \<longleftrightarrow> runnable s t)"
    by (induction ts rule: rev_induct) (auto simp: sched_ok_clear)
  have e: "(sched_ok ?c \<longrightarrow> sched_ok (fold sched_enqueue_thread (map Some us) ?c)) \<and>
     (\<forall>t. threads (fold sched_enqueue_thread (map Some us) ?c) t = None \<longleftrightarrow> threads ?c t = None) \<and>
     (\<forall>t. th_futex_waiter (thr (fold sched_enqueue_thread (map Some us) ?c) t) = th_futex_waiter (thr ?c t)) \<and>
     (\<forall>t. runnable ?c t \<longrightarrow> runnable (fold sched_enqueue_thread (map Some us) ?c) t) \<and>
     (\<forall>t \<in> set us. runnable (fold sched_enqueue_thread (map Some us) ?c) t)"
    if "set us \<subseteq> set ts" for us
    using that
  proof (induction us rule: rev_induct)
    case (snoc u us)
    then show ?case using assms c by (auto simp: sched_ok_enqueue enqueue_runnable)
  qed simp
  show ?thesis using c e [of ts] by (auto simp: threads_defs)
qed

section \<open>Waiters\<close>

lemma wtr_set_woken: "wtr (set_woken b w fx) u = (if u = w \<and> fx_waiters fx w \<noteq> None then (wtr fx w)\<lparr>woken := b\<rparr> else wtr fx u)"
  by (auto simp: wtr_def set_woken_def split: option.splits)

lemma set_woken_frame [simp]:
  "g_buckets (set_woken b w fx) = g_buckets fx" "g_futex_tick (set_woken b w fx) = g_futex_tick fx"
  "fx_waiters (set_woken b w fx) u = None \<longleftrightarrow> fx_waiters fx u = None"
  "w_th (wtr (set_woken b w fx) u) = w_th (wtr fx u)" "w_uaddr (wtr (set_woken b w fx) u) = w_uaddr (wtr fx u)"
  "w_pid (wtr (set_woken b w fx) u) = w_pid (wtr fx u)" "wake_deadline (wtr (set_woken b w fx) u) = wake_deadline (wtr fx u)"
  "expired (set_woken b w fx) u = expired fx u"
proof -
  have h: "wake_deadline (wtr (set_woken b w fx) u) = wake_deadline (wtr fx u)" for u by (simp add: wtr_set_woken)
  have g: "g_futex_tick (set_woken b w fx) = g_futex_tick fx" by (simp add: set_woken_def)
  show "expired (set_woken b w fx) u = expired fx u" by (simp add: expired_def h g)
qed (simp_all add: wtr_set_woken, auto simp: set_woken_def)

lemma set_bucket_frame [simp]:
  "g_buckets (set_bucket b ws fx) = (g_buckets fx)(b := ws)" "g_futex_tick (set_bucket b ws fx) = g_futex_tick fx"
  "fx_waiters (set_bucket b ws fx) = fx_waiters fx" "wtr (set_bucket b ws fx) = wtr fx"
  "expired (set_bucket b ws fx) = expired fx"
  by (auto simp: set_bucket_def wtr_def expired_def fun_eq_iff)

text \<open>Marking a list of waiters.\<close>

lemma mark_frame [simp]:
  "g_buckets (fold (set_woken b) W fx) = g_buckets fx" "g_futex_tick (fold (set_woken b) W fx) = g_futex_tick fx"
  "fx_waiters (fold (set_woken b) W fx) u = None \<longleftrightarrow> fx_waiters fx u = None"
  "w_th (wtr (fold (set_woken b) W fx) u) = w_th (wtr fx u)" "w_uaddr (wtr (fold (set_woken b) W fx) u) = w_uaddr (wtr fx u)"
  "w_pid (wtr (fold (set_woken b) W fx) u) = w_pid (wtr fx u)" "wake_deadline (wtr (fold (set_woken b) W fx) u) = wake_deadline (wtr fx u)"
  by (induction W arbitrary: fx) auto

lemma mark_expired [simp]: "expired (fold (set_woken b) W fx) = expired fx"
  by (simp add: expired_def fun_eq_iff)

lemma mark_woken: "fx_waiters fx u \<noteq> None \<Longrightarrow> woken (wtr (fold (set_woken b) W fx) u) = (if u \<in> set W then b else woken (wtr fx u))"
  by (induction W rule: rev_induct) (auto simp add: wtr_set_woken simp del: not_None_eq)

definition owner :: "futex_state \<Rightarrow> nat \<Rightarrow> nat" where
  "owner fx w = (case w_th (wtr fx w) of Some t \<Rightarrow> t | None \<Rightarrow> 0)"

text \<open>
  The invariant: a waiter in a bucket has a live frame, hashes to that bucket, and its thread exists and
  points back to it, so that no thread waits twice.
\<close>

definition waiter_ok :: "futex_state \<Rightarrow> sched_state \<Rightarrow> nat \<Rightarrow> nat \<Rightarrow> bool" where
  "waiter_ok fx s b w \<longleftrightarrow> fx_waiters fx w \<noteq> None \<and> bucket_of (w_uaddr (wtr fx w)) = b \<and>
     w_th (wtr fx w) = Some (owner fx w) \<and> threads s (owner fx w) \<noteq> None \<and>
     th_futex_waiter (thr s (owner fx w)) = Some w"

definition futex_inv :: "futex_state \<times> sched_state \<Rightarrow> bool" where
  "futex_inv k \<longleftrightarrow> sched_ok (snd k) \<and> (\<forall>b. distinct (g_buckets (fst k) b)) \<and>
     (\<forall>b. \<forall>w \<in> set (g_buckets (fst k) b). waiter_ok (fst k) (snd k) b w)"

lemma futex_invD:
  assumes "futex_inv (fx, s)"
  shows "sched_ok s" "distinct (g_buckets fx b)" "w \<in> set (g_buckets fx b) \<Longrightarrow> waiter_ok fx s b w"
  using assms by (auto simp: futex_inv_def)

lemma waiters_Some:
  assumes "futex_inv (fx, s)" "set W \<subseteq> set (g_buckets fx b)"
  shows "map (w_th \<circ> wtr fx) W = map Some (map (owner fx) W)"
    "t \<in> set (map (owner fx) W) \<Longrightarrow> threads s t \<noteq> None"
  using assms by (force simp: futex_inv_def waiter_ok_def)+

lemma owner_inj:
  "futex_inv (fx, s) \<Longrightarrow> w \<in> set (g_buckets fx b) \<Longrightarrow> w' \<in> set (g_buckets fx b') \<Longrightarrow> owner fx w = owner fx w' \<Longrightarrow> w = w'"
  using futex_invD(3) [of fx s] unfolding waiter_ok_def by (metis option.inject)

text \<open>\<open>W\<close> leaves the bucket \<open>b\<close>, its waiters marked with \<open>v\<close>.\<close>

definition unlinked :: "bool \<Rightarrow> nat list \<Rightarrow> nat \<Rightarrow> futex_state \<Rightarrow> futex_state" where
  "unlinked v W b fx = set_bucket b (filter (\<lambda>w. w \<notin> set W) (g_buckets fx b)) (fold (set_woken v) W fx)"

lemma unlinked_frame [simp]:
  "g_buckets (unlinked v W b fx) = (g_buckets fx)(b := filter (\<lambda>w. w \<notin> set W) (g_buckets fx b))"
  "g_futex_tick (unlinked v W b fx) = g_futex_tick fx" "expired (unlinked v W b fx) = expired fx"
  "fx_waiters (unlinked v W b fx) u = None \<longleftrightarrow> fx_waiters fx u = None"
  "w_th (wtr (unlinked v W b fx) u) = w_th (wtr fx u)" "w_uaddr (wtr (unlinked v W b fx) u) = w_uaddr (wtr fx u)"
  "w_pid (wtr (unlinked v W b fx) u) = w_pid (wtr fx u)" "wake_deadline (wtr (unlinked v W b fx) u) = wake_deadline (wtr fx u)"
  "owner (unlinked v W b fx) = owner fx"
  by (simp_all add: unlinked_def owner_def fun_eq_iff)

lemma futex_inv_unlinked:
  assumes "futex_inv (fx, s)" "set W \<subseteq> set (g_buckets fx b)" "threads_unlinked (owner fx ` set W) s s'"
  shows "futex_inv (unlinked v W b fx, s')"
proof -
  have "waiter_ok (unlinked v W b fx) s' c w" if "w \<in> set (g_buckets (unlinked v W b fx) c)" for c w
  proof -
    have w: "w \<in> set (g_buckets fx c)" "c = b \<longrightarrow> w \<notin> set W" using that by (auto split: if_splits)
    have ok: "waiter_ok fx s c w" by (rule futex_invD(3) [OF assms(1) w(1)])
    have "w \<notin> set W"
    proof
      assume "w \<in> set W"
      then have "waiter_ok fx s b w" using futex_invD(3) [OF assms(1)] assms(2) by blast
      then show False using ok w(2) \<open>w \<in> set W\<close> by (simp add: waiter_ok_def)
    qed
    then have "owner fx w \<notin> owner fx ` set W" using owner_inj [OF assms(1) w(1)] assms(2) by blast
    then show ?thesis using ok assms(3) by (simp add: waiter_ok_def threads_unlinked_def)
  qed
  then show ?thesis using futex_invD [OF assms(1)] assms(3) by (simp add: futex_inv_def threads_unlinked_def)
qed

section \<open>The loops\<close>

text \<open>The waiters on an address, by key.\<close>

definition on_key :: "futex_state \<Rightarrow> u64 \<Rightarrow> nat \<Rightarrow> nat \<Rightarrow> bool" where
  "on_key fx uaddr pid w \<longleftrightarrow> w_uaddr (wtr fx w) = uaddr \<and> w_pid (wtr fx w) = pid"

definition waiting :: "u64 \<Rightarrow> nat \<Rightarrow> futex_state \<Rightarrow> nat list" where
  "waiting uaddr pid fx = filter (on_key fx uaddr pid) (g_buckets fx (bucket_of uaddr))"

lemma on_key_frame [simp]: "on_key (set_woken b w fx) uaddr pid = on_key fx uaddr pid"
  "on_key (unlinked v W c fx) uaddr pid = on_key fx uaddr pid" "on_key (set_bucket c ws fx) uaddr pid = on_key fx uaddr pid"
  by (simp_all add: on_key_def fun_eq_iff)

text \<open>The waiters a wake-up takes from those on its key when \<open>n\<close> are already woken; a count of 0 takes all.\<close>

definition taken :: "u32 \<Rightarrow> nat \<Rightarrow> nat list \<Rightarrow> nat list" where
  "taken count n ws = (if count = 0 then ws else take (unat count - n) ws)"

lemma taken_Cons: "count = 0 \<or> n < unat count \<Longrightarrow> taken count n (w # ws) = w # taken count (Suc n) ws"
  by (auto simp: taken_def take_Cons' Suc_diff_Suc)

lemma taken_done: "count \<noteq> 0 \<Longrightarrow> taken count (unat count) ws = []"
  by (simp add: taken_def)

lemma set_taken: "w \<in> set (taken count n ws) \<Longrightarrow> w \<in> set ws"
  by (auto simp: taken_def dest: in_set_takeD split: if_splits)

lemma wake_loop_spec:
  fixes fx :: futex_state and uaddr :: u64 and pid :: nat
  assumes "distinct ws" "count = 0 \<or> n \<le> unat count"
  defines "W \<equiv> taken count n (filter (on_key fx uaddr pid) ws)"
  shows "wake_loop uaddr pid count ws n (fx, s) =
    (filter (\<lambda>w. w \<notin> set W) ws, n + length W, fold (set_woken True) W fx, fold wake_thread (map (w_th \<circ> wtr fx) W) s)"
  using assms(1,2) unfolding W_def
proof (induction ws arbitrary: n fx s)
  case (Cons w ws)
  let ?fx = "set_woken True w fx" and ?s = "wake_thread (w_th (wtr fx w)) s"
  have w: "w \<notin> set ws" "distinct ws" using Cons.prems by auto
  have th: "w_th \<circ> wtr ?fx = w_th \<circ> wtr fx" by (simp add: fun_eq_iff)
  have drop: "filter (\<lambda>u. u \<noteq> w \<and> P u) ws = filter P ws" for P
    by (rule filter_cong) (use w in auto)
  have keep: "w \<notin> set (taken count m (filter P ws))" for m P using w(1) by (auto dest: set_taken)
  have lt: "of_nat n < count \<longleftrightarrow> n < unat count" if "count \<noteq> 0"
    using that Cons.prems(2) by (metis le_unat_uoi word_less_nat_alt)
  consider (go) "on_key fx uaddr pid w" "count = 0 \<or> n < unat count"
    | (skip) "\<not> on_key fx uaddr pid w" | (stop) "on_key fx uaddr pid w" "count \<noteq> 0" "n = unat count"
    using Cons.prems(2) by linarith
  then show ?case
  proof cases
    case go
    have g: "count = 0 \<or> Suc n \<le> unat count" using go(2) by auto
    have "wake_loop uaddr pid count (w # ws) n (fx, s) = wake_loop uaddr pid count ws (Suc n) (?fx, ?s)"
      using go lt by (auto simp: on_key_def futex_wake_one_locked_def wake_thread_def)
    also have "\<dots> = (filter (\<lambda>u. u \<notin> set (taken count (Suc n) (filter (on_key fx uaddr pid) ws))) ws,
        Suc n + length (taken count (Suc n) (filter (on_key fx uaddr pid) ws)),
        fold (set_woken True) (taken count (Suc n) (filter (on_key fx uaddr pid) ws)) ?fx,
        fold wake_thread (map (w_th \<circ> wtr fx) (taken count (Suc n) (filter (on_key fx uaddr pid) ws))) ?s)"
      using Cons.IH [OF w(2) g, of ?fx ?s] by (simp add: o_def)
    finally show ?thesis using go by (simp add: taken_Cons drop o_def del: wake_loop.simps)
  next
    case skip
    then have "\<not> (w_uaddr (wtr fx w) = uaddr \<and> w_pid (wtr fx w) = pid)" by (simp add: on_key_def)
    then show ?thesis using Cons.IH [OF w(2) Cons.prems(2), of fx s] keep skip by auto
  next
    case stop
    then show ?thesis using Cons.IH [OF w(2), of n fx s] lt by (simp add: taken_done)
  qed
qed (simp add: taken_def)

lemma futex_wake_locked_spec:
  fixes count :: u32 and uaddr :: u64 and pid :: nat and fx :: futex_state
  assumes "futex_inv (fx, s)"
  defines "W \<equiv> taken count 0 (waiting uaddr pid fx)"
  shows "\<exists>s'. futex_wake_locked uaddr pid count (fx, s) = (length W, unlinked True W (bucket_of uaddr) fx, s') \<and>
    threads_woken (owner fx ` set W) s s'"
proof -
  let ?b = "bucket_of uaddr"
  let ?s = "fold wake_thread (map (w_th \<circ> wtr fx) W) s"
  have "set W \<subseteq> set (g_buckets fx ?b)"
    unfolding W_def waiting_def by (auto dest: set_taken)
  note ts = waiters_Some [OF assms(1) this]
  have "threads_woken (set (map (owner fx) W)) s ?s"
    using threads_woken_fold [of "map (owner fx) W" s] ts(2) unfolding ts(1) by (simp add: fold_map o_def)
  moreover have "wake_loop uaddr pid count (g_buckets fx ?b) 0 (fx, s) =
    (filter (\<lambda>w. w \<notin> set W) (g_buckets fx ?b), length W, fold (set_woken True) W fx, ?s)"
    using wake_loop_spec [OF futex_invD(2) [OF assms(1)], where count = count and n = 0 and fx = fx and uaddr = uaddr and pid = pid and s = s]
    unfolding W_def waiting_def by simp
  ultimately show ?thesis by (auto simp: futex_wake_locked_def unlinked_def Let_def)
qed

lemma drop_loop_spec:
  fixes fx :: futex_state and th :: nat
  assumes "distinct ws"
  defines "W \<equiv> filter (\<lambda>w. w_th (wtr fx w) = Some th) ws"
  shows "drop_loop th ws (fx, s) = (filter (\<lambda>w. w \<notin> set W) ws, fold (set_woken False) W fx, fold (\<lambda>_. clear_waiter (Some th)) W s)"
  using assms(1) unfolding W_def
proof (induction ws arbitrary: fx s)
  case (Cons w ws)
  let ?fx = "set_woken False w fx"
  have drop: "filter (\<lambda>u. u \<noteq> w \<and> P u) ws = filter P ws" for P using Cons.prems by (intro filter_cong) auto
  show ?case
  proof (cases "w_th (wtr fx w) = Some th")
    case True
    then show ?thesis using Cons.IH [of ?fx "clear_waiter (Some th) s"] Cons.prems drop by simp
  next
    case False
    then show ?thesis using Cons.IH [of fx s] Cons.prems by simp
  qed
qed simp

lemma collect_loop_spec:
  fixes fx :: futex_state
  assumes "distinct ws" "length (filter (expired fx) ws) \<le> room"
  defines "W \<equiv> filter (expired fx) ws"
  shows "collect_loop room ws (fx, s) =
    (filter (\<lambda>w. w \<notin> set W) ws, map (w_th \<circ> wtr fx) W, fold (set_woken False) W fx, fold clear_waiter (map (w_th \<circ> wtr fx) W) s)"
  using assms(1,2) unfolding W_def
proof (induction ws arbitrary: room fx s)
  case (Cons w ws)
  let ?fx = "set_woken False w fx"
  have th: "w_th \<circ> wtr ?fx = w_th \<circ> wtr fx" "expired ?fx = expired fx" by (simp_all add: fun_eq_iff)
  have drop: "filter (\<lambda>u. u \<noteq> w \<and> P u) ws = filter P ws" for P using Cons.prems(1) by (intro filter_cong) auto
  show ?case
  proof (cases "expired fx w")
    case True
    then obtain m where m: "room = Suc m" using Cons.prems(2) by (cases room) auto
    show ?thesis using True m Cons.IH [of ?fx m "clear_waiter (w_th (wtr fx w)) s"] Cons.prems drop
      by (simp add: th Let_def)
  next
    case False
    then show ?thesis using Cons.IH [of fx room s] Cons.prems by (cases room) auto
  qed
qed simp

text \<open>The scan for another waiter of the same thread finds none and ends the loop after one thread.\<close>

lemma retry_loop_spec:
  assumes "distinct (map (w_th \<circ> wtr fx) (pre @ ws))" "filter (expired fx) pre = []" "filter (expired fx) ws = w # es"
  shows "retry_loop pre ws (fx, s) = (filter (\<lambda>u. u \<noteq> w) (pre @ ws), set_woken False w fx, wake_thread (w_th (wtr fx w)) s)"
  using assms
proof (induction ws arbitrary: pre)
  case (Cons u ws)
  show ?case
  proof (cases "expired fx u")
    case True
    then have u: "u = w" using Cons.prems(3) by simp
    have d: "w_th (wtr fx v) \<noteq> w_th (wtr fx u)" if "v \<in> set (pre @ ws)" for v
      using Cons.prems(1) that by (auto simp: image_iff)
    then have nm: "filter (\<lambda>v. v \<noteq> u) (pre @ ws) = pre @ ws" by (intro filter_True ballI) blast
    have tw: "takeWhile (\<lambda>v. w_th (wtr fx v) \<noteq> w_th (wtr fx u)) (pre @ ws) = pre @ ws"
      "dropWhile (\<lambda>v. w_th (wtr fx v) \<noteq> w_th (wtr fx u)) (pre @ ws) = []"
      using d by (auto simp: takeWhile_eq_all_conv dropWhile_eq_Nil_conv)
    show ?thesis using True nm unfolding u [symmetric] by (simp add: Let_def wake_thread_def tw)
  next
    case False
    then have "retry_loop (pre @ [u]) ws (fx, s) =
      (filter (\<lambda>v. v \<noteq> w) ((pre @ [u]) @ ws), set_woken False w fx, wake_thread (w_th (wtr fx w)) s)"
      using Cons.prems by (intro Cons.IH) auto
    then show ?thesis using False by simp
  qed
qed simp

text \<open>
  One bucket at a tick: all its expired waiters leave it when there is memory to collect their threads, the
  first of them otherwise.
\<close>

definition due :: "bool \<Rightarrow> futex_state \<Rightarrow> nat \<Rightarrow> nat list" where
  "due mem fx b = (if mem then filter (expired fx) (g_buckets fx b) else take 1 (filter (expired fx) (g_buckets fx b)))"

lemma tick_bucket_spec:
  assumes "futex_inv (fx, s)"
  shows "\<exists>mem h' s'. tick_bucket b (h, fx, s) = (h', unlinked False (due mem fx b) b fx, s') \<and>
    threads_woken (owner fx ` set (due mem fx b)) s s' \<and>
    ((\<forall>n. h_outcome h n) \<and> length (g_buckets fx b) \<le> 512 \<longrightarrow> mem) \<and> h_outcome h' = h_outcome h"
proof (cases "filter (expired fx) (g_buckets fx b) = []")
  case True
  moreover have "unlinked False [] b fx = fx" by (simp add: unlinked_def set_bucket_def)
  ultimately show ?thesis
    by (intro exI [of _ True] exI [of _ h] exI [of _ s]) (simp add: tick_bucket_def due_def threads_woken_refl)
next
  case False
  let ?E = "filter (expired fx) (g_buckets fx b)"
  obtain w es where E: "?E = w # es" using False by (cases ?E) auto
  have sub: "set ?E \<subseteq> set (g_buckets fx b)" by auto
  note ts = waiters_Some [OF assms sub]
  show ?thesis
  proof (cases "kmalloc_buf (of_nat (length ?E * 8)) h")
    case (Pair m h')
    have h': "h_outcome h' = h_outcome h" using Pair by (auto simp: kmalloc_buf_def split: if_splits)
    show ?thesis
    proof (cases m)
      case None
      have d: "distinct (map (w_th \<circ> wtr fx) ([] @ g_buckets fx b))"
        using futex_invD(2) [OF assms, of b] owner_inj [OF assms] waiters_Some(1) [OF assms, of "g_buckets fx b" b]
        by (auto simp: distinct_map inj_on_def)
      have "retry_loop [] (g_buckets fx b) (fx, s) = (filter (\<lambda>u. u \<noteq> w) (g_buckets fx b), set_woken False w fx, wake_thread (w_th (wtr fx w)) s)"
        using retry_loop_spec [OF d _ E] by simp
      moreover have "due False fx b = [w]" using E by (simp add: due_def)
      moreover have "threads_woken {owner fx w} s (wake_thread (w_th (wtr fx w)) s)"
        using ts E threads_woken_one [of s "owner fx w"] by simp
      moreover have "\<not> ((\<forall>n. h_outcome h n) \<and> length (g_buckets fx b) \<le> 512)"
      proof
        assume *: "(\<forall>n. h_outcome h n) \<and> length (g_buckets fx b) \<le> 512"
        have "length ?E \<le> 512" using * length_filter_le [of "expired fx" "g_buckets fx b"] by linarith
        moreover have "length ?E > 0" using E by simp
        moreover have "unat (of_nat (length ?E * 8) :: u64) = length ?E * 8"
          by (rule of_nat_inverse [OF refl]) (use \<open>length ?E \<le> 512\<close> in simp)
        ultimately
 have "(of_nat (length ?E * 8) :: u64) \<noteq> 0 \<and> \<not> (of_nat (length ?E * 8) :: u64) > of_nat PAGE_SIZE"
          by (simp only: word_less_nat_alt PAGE_SIZE_def unat_eq_0 [symmetric]) simp
        then show False using Pair None * by (simp add: kmalloc_buf_def)
      qed
      ultimately show ?thesis using Pair None h' E
        by (intro exI [of _ False] exI [of _ h'] exI [of _ "wake_thread (w_th (wtr fx w)) s"])
          (simp add: tick_bucket_def unlinked_def)
    next
      case (Some r)
      have "collect_loop (length ?E) (g_buckets fx b) (fx, s) =
        (filter (\<lambda>w. w \<notin> set ?E) (g_buckets fx b), map (w_th \<circ> wtr fx) ?E, fold (set_woken False) ?E fx,
         fold clear_waiter (map (w_th \<circ> wtr fx) ?E) s)"
        by (rule collect_loop_spec [OF futex_invD(2) [OF assms]]) simp
      moreover have "threads_woken (set (map (owner fx) ?E)) s
          (fold sched_enqueue_thread (map (w_th \<circ> wtr fx) ?E) (fold clear_waiter (map (w_th \<circ> wtr fx) ?E) s))"
        using threads_woken_batch [of "map (owner fx) ?E" s] ts(2) unfolding ts(1) by (simp add: fold_map o_def)
      ultimately show ?thesis using Pair Some h' E
        by (intro exI [of _ True] exI [of _ h'] exI [of _ "fold sched_enqueue_thread (map (w_th \<circ> wtr fx) ?E) (fold clear_waiter (map (w_th \<circ> wtr fx) ?E) s)"])
          (simp add: tick_bucket_def unlinked_def due_def)
    qed
  qed
qed

text \<open>A pass over the buckets \<open>bs\<close>; \<open>mem b\<close> tells whether bucket \<open>b\<close> got memory for its batch.\<close>

lemma woken_unlinked: "fx_waiters fx u \<noteq> None \<Longrightarrow> woken (wtr (unlinked v W b fx) u) = (if u \<in> set W then v else woken (wtr fx u))"
  unfolding unlinked_def set_bucket_frame by (rule mark_woken)

lemma due_sub: "w \<in> set (due m fx b) \<Longrightarrow> w \<in> set (g_buckets fx b) \<and> expired fx w"
  by (auto simp: due_def dest: in_set_takeD split: if_splits)

definition timed_out :: "(nat \<Rightarrow> bool) \<Rightarrow> nat list \<Rightarrow> kheap \<times> futex_state \<times> sched_state \<Rightarrow> kheap \<times> futex_state \<times> sched_state \<Rightarrow> bool" where
  "timed_out mem bs k k' \<longleftrightarrow> (case (k, k') of ((h, fx, s), (h', fx', s')) \<Rightarrow>
     futex_inv (fx', s') \<and> h_outcome h' = h_outcome h \<and>
     (\<forall>b. g_buckets fx' b = (if b \<in> set bs then filter (\<lambda>w. w \<notin> set (due (mem b) fx b)) (g_buckets fx b) else g_buckets fx b)) \<and>
     expired fx' = expired fx \<and> owner fx' = owner fx \<and> (\<forall>w. fx_waiters fx' w = None \<longleftrightarrow> fx_waiters fx w = None) \<and>
     (\<forall>w. fx_waiters fx w \<noteq> None \<longrightarrow>
        woken (wtr fx' w) = (woken (wtr fx w) \<and> (\<forall>b \<in> set bs. w \<notin> set (due (mem b) fx b)))) \<and>
     threads_woken (owner fx ` (\<Union>b \<in> set bs. set (due (mem b) fx b))) s s' \<and>
     ((\<forall>n. h_outcome h n) \<longrightarrow> (\<forall>b \<in> set bs. length (g_buckets fx b) \<le> 512 \<longrightarrow> mem b)))"

lemma timed_out_fold:
  assumes "futex_inv (fx, s)" "distinct bs"
  shows "\<exists>mem. timed_out mem bs (h, fx, s) (fold tick_bucket bs (h, fx, s))"
  using assms(2)
proof (induction bs rule: rev_induct)
  case Nil
  show ?case using assms(1) by (simp add: timed_out_def threads_woken_refl)
next
  case (snoc b bs)
  obtain h1 fx1 s1 where k1: "fold tick_bucket bs (h, fx, s) = (h1, fx1, s1)" by (metis prod_cases3)
  from snoc obtain mem where IH: "timed_out mem bs (h, fx, s) (h1, fx1, s1)" unfolding k1 by auto
  have inv: "futex_inv (fx1, s1)" and same: "g_buckets fx1 b = g_buckets fx b" "expired fx1 = expired fx"
    "owner fx1 = owner fx" "\<And>w. fx_waiters fx1 w = None \<longleftrightarrow> fx_waiters fx w = None" "h_outcome h1 = h_outcome h"
    using IH snoc.prems by (auto simp: timed_out_def)
  obtain m h2 s2 where k2: "tick_bucket b (h1, fx1, s1) = (h2, unlinked False (due m fx1 b) b fx1, s2)"
    and th: "threads_woken (owner fx ` set (due m fx b)) s1 s2" and h2: "h_outcome h2 = h_outcome h"
    and m: "(\<forall>n. h_outcome h n) \<and> length (g_buckets fx b) \<le> 512 \<longrightarrow> m"
    using tick_bucket_spec [OF inv, of b h1] unfolding due_def same by auto
  have due: "due m' fx1 b = due m' fx b" for m' by (simp add: due_def same)
  let ?mem = "mem(b := m)"
  have mem: "mem c = ?mem c" if "c \<in> set bs" for c using that snoc.prems by auto
  have "futex_inv (unlinked False (due m fx b) b fx1, s2)"
    by (rule futex_inv_unlinked [OF inv]) (use due_sub th same in \<open>force simp: threads_woken_def\<close>)+
  moreover have "threads_woken (owner fx ` (\<Union>c \<in> set (bs @ [b]). set (due (?mem c) fx c))) s s2"
  proof -
    have "threads_woken (owner fx ` (\<Union>c \<in> set bs. set (due (mem c) fx c))) s s1" using IH by (simp add: timed_out_def)
    from threads_woken_trans [OF this th] show ?thesis using mem by (simp add: image_Un [symmetric] Un_commute)
  qed
  moreover have "woken (wtr (unlinked False (due m fx b) b fx1) w) =
      (woken (wtr fx w) \<and> (\<forall>c \<in> set (bs @ [b]). w \<notin> set (due (?mem c) fx c)))" if "fx_waiters fx w \<noteq> None" for w
    using that IH mem by (auto simp: woken_unlinked same timed_out_def)
  moreover have "g_buckets (unlinked False (due m fx b) b fx1) c =
      (if c \<in> set (bs @ [b]) then filter (\<lambda>w. w \<notin> set (due (?mem c) fx c)) (g_buckets fx c) else g_buckets fx c)" for c
    using IH mem snoc.prems by (auto simp: timed_out_def)
  ultimately have "timed_out ?mem (bs @ [b]) (h, fx, s) (h2, unlinked False (due m fx b) b fx1, s2)"
    using IH h2 m mem unfolding timed_out_def prod.case by (simp add: same)
  then show ?case using k1 k2 due by auto
qed

section \<open>The other operations keep the invariant\<close>

lemma futex_inv_frame:
  assumes "futex_inv (fx, s)" "sched_ok s'" "\<And>t. threads s' t = None \<longleftrightarrow> threads s t = None"
    "\<And>t. th_futex_waiter (thr s' t) = th_futex_waiter (thr s t)"
  shows "futex_inv (fx, s')"
  using assms by (simp add: futex_inv_def waiter_ok_def)

lemma futex_inv_enqueue:
  assumes "futex_inv (fx, s)" "threads s self \<noteq> None" "fx_waiters fx w = None" "th_futex_waiter (thr s self) = None"
  shows "futex_inv (futex_wait_enqueue w self pid uaddr timeout (fx, s))"
proof -
  obtain fx' s' where k: "futex_wait_enqueue w self pid uaddr timeout (fx, s) = (fx', s')" by fastforce
  have s': "s' = upd_thread self (\<lambda>x. x\<lparr>th_futex_waiter := Some w\<rparr>) s"
    and fx': "g_buckets fx' = (g_buckets fx)(bucket_of uaddr := w # g_buckets fx (bucket_of uaddr))"
      "\<And>u. fx_waiters fx' u = None \<longleftrightarrow> u \<noteq> w \<and> fx_waiters fx u = None" "\<And>u. u \<noteq> w \<Longrightarrow> wtr fx' u = wtr fx u"
      "w_th (wtr fx' w) = Some self" "w_uaddr (wtr fx' w) = uaddr"
    using k by (auto simp: futex_wait_enqueue_def Let_def wtr_def set_bucket_def split: if_splits)
  have fresh: "w \<notin> set (g_buckets fx b)" for b
    using futex_invD(3) [OF assms(1), of w b] assms(3) by (auto simp: waiter_ok_def)
  have "waiter_ok fx' s' b u" if "u \<in> set (g_buckets fx' b)" for b u
  proof (cases "u = w")
    case True
    then have "b = bucket_of uaddr" using that fresh fx'(1) by (auto split: if_splits)
    then show ?thesis using True fx' assms(2) by (simp add: waiter_ok_def owner_def s' thr_upd)
  next
    case False
    then have "waiter_ok fx s b u" using that fx'(1) futex_invD(3) [OF assms(1)] by (auto split: if_splits)
    then show ?thesis using False fx' assms(4) by (auto simp: waiter_ok_def owner_def s' thr_upd)
  qed
  moreover have "sched_ok s'" unfolding s' by (rule sched_ok_upd) (use futex_invD(1) [OF assms(1)] in simp_all)
  ultimately show ?thesis using futex_invD(2) [OF assms(1)] fresh fx'(1) unfolding k by (simp add: futex_inv_def)
qed

lemma schedule_futex:
  assumes "sched_ok s" "schedule s = Some (s', sw)"
  shows "th_futex_waiter (thr s' t) = th_futex_waiter (thr s t)"
proof -
  have idle: "g_idle s = None" using assms(1) by (auto simp: sched_ok_def sched_rep_def)
  obtain Q where Q: "sched_rep (requeue s) Q" using sched_ok_requeue [OF assms(1)] by (auto simp: sched_ok_def)
  then have rl: "rq_links (requeue s) Q" by (simp add: sched_rep_def)
  obtain n s1 where s1: "pick_next [2, 1, 0] (requeue s) = Some (n, s1)" "cores s1 = cores (requeue s)"
    using pick_next_links [OF rl, of "[2, 1, 0]"] by auto
  have "th_futex_waiter (thr (requeue s) t) = th_futex_waiter (thr s t)"
    by (auto simp: requeue_def thr_upd split: option.split)
  then have s1t: "th_futex_waiter (thr s1 t) = th_futex_waiter (thr s t)" using core_fields(7) [of s1 t "requeue s"] s1(2) by simp
  have st: "th_futex_waiter (thr (set_state st n' x) t) = th_futex_waiter (thr x t)"
    "thr (x\<lparr>g_current := n'\<rparr>) t = thr x t" for st n' x
    by (auto simp: set_state_def thr_upd thr_def split: option.split)
  show ?thesis
    using assms(2) s1t unfolding schedule_cases [OF idle] s1(1)
    by (auto simp: Let_def st split: if_splits option.splits)
qed

lemma futex_inv_schedule:
  assumes "futex_inv (fx, s)" "schedule s = Some (s', sw)"
  shows "futex_inv (fx, s')"
proof (rule futex_inv_frame [OF assms(1)])
  have ok: "sched_ok s" by (rule futex_invD(1) [OF assms(1)])
  then show "sched_ok s'" using schedule_ok [OF ok] assms(2) by auto
  show "threads s' t = None \<longleftrightarrow> threads s t = None" for t by (rule schedule_same_alloc [OF ok assms(2)])
  show "th_futex_waiter (thr s' t) = th_futex_waiter (thr s t)" for t by (rule schedule_futex [OF ok assms(2)])
qed

lemma futex_inv_set_state:
  assumes "futex_inv (fx, s)"
  shows "futex_inv (fx, set_state st to s)"
proof (rule futex_inv_frame [OF assms])
  show "sched_ok (set_state st to s)" by (rule sched_ok_set_state [OF futex_invD(1) [OF assms]])
qed (auto simp: set_state_def thr_upd split: option.split)

lemma futex_inv_block: "futex_inv (fx, s) \<Longrightarrow> futex_wait_block self s = Some (s', sw) \<Longrightarrow> futex_inv (fx, s')"
  unfolding futex_wait_block_def by (rule futex_inv_schedule [OF futex_inv_set_state])

lemma futex_inv_finish:
  assumes "futex_inv (fx, s)" "fx_waiters fx w \<noteq> None" "w_th (wtr fx w) = Some self" "th_futex_waiter (thr s self) \<in> {None, Some w}"
  shows "futex_inv (snd (futex_wait_finish w self (fx, s)))"
proof -
  let ?b = "bucket_of (w_uaddr (wtr fx w))"
  obtain rc fx' s' where k: "futex_wait_finish w self (fx, s) = (rc, fx', s')" by (metis prod_cases3)
  have s': "s' = upd_thread self (\<lambda>x. x\<lparr>th_futex_waiter := None\<rparr>) s"
    and fx': "g_buckets fx' = (g_buckets fx)(?b := remove1 w (g_buckets fx ?b))" "fx_waiters fx' = (fx_waiters fx)(w := None)"
    using k by (auto simp: futex_wait_finish_def Let_def)
  have "waiter_ok fx' s' b u" if "u \<in> set (g_buckets fx' b)" for b u
  proof -
    have u: "u \<in> set (g_buckets fx b)" "b = ?b \<longrightarrow> u \<noteq> w"
      using that fx'(1) futex_invD(2) [OF assms(1), of ?b] by (auto split: if_splits)
    then have ok: "waiter_ok fx s b u" using futex_invD(3) [OF assms(1)] by blast
    then have "u \<noteq> w" using u(2) by (auto simp: waiter_ok_def)
    then have "owner fx u \<noteq> self" using ok assms(4) by (auto simp: waiter_ok_def)
    moreover have "wtr fx' u = wtr fx u" using \<open>u \<noteq> w\<close> by (simp add: wtr_def fx'(2))
    ultimately show ?thesis using ok \<open>u \<noteq> w\<close> by (simp add: waiter_ok_def owner_def fx'(2) s' thr_upd)
  qed
  moreover have "sched_ok s'" unfolding s' by (rule sched_ok_upd) (use futex_invD(1) [OF assms(1)] in simp_all)
  ultimately show ?thesis using futex_invD(2) [OF assms(1)] fx'(1) unfolding k by (simp add: futex_inv_def)
qed

lemma futex_inv_wake: "futex_inv k \<Longrightarrow> futex_inv (snd (futex_wake_locked uaddr pid count k))"
proof (cases k)
  case (Pair fx s)
  assume inv: "futex_inv k"
  let ?W = "taken count 0 (waiting uaddr pid fx)"
  obtain s' where s': "futex_wake_locked uaddr pid count (fx, s) = (length ?W, unlinked True ?W (bucket_of uaddr) fx, s')"
    "threads_woken (owner fx ` set ?W) s s'"
    using futex_wake_locked_spec inv unfolding Pair by blast
  have "futex_inv (unlinked True ?W (bucket_of uaddr) fx, s')"
    by (rule futex_inv_unlinked) (use inv s'(2) Pair in \<open>auto simp: waiting_def threads_woken_def dest: set_taken\<close>)
  then show ?thesis unfolding Pair s'(1) by simp
qed

lemma clear_all: "threads_unlinked (if W = [] then {} else {t}) s (fold (\<lambda>_. clear_waiter (Some t)) W s)"
  by (induction W rule: rev_induct) (auto simp: threads_unlinked_def sched_ok_clear)

lemma futex_inv_drop_bucket:
  assumes "futex_inv k"
  shows "futex_inv (drop_bucket t b k)"
proof (cases k)
  case (Pair fx s)
  let ?W = "filter (\<lambda>w. w_th (wtr fx w) = Some t) (g_buckets fx b)"
  have inv: "futex_inv (fx, s)" using assms Pair by simp
  have d: "drop_bucket t b k = (unlinked False ?W b fx, fold (\<lambda>_. clear_waiter (Some t)) ?W s)"
    using drop_loop_spec [OF futex_invD(2) [OF inv], where th = t and fx = fx and s = s] by (simp add: drop_bucket_def unlinked_def Pair)
  have "owner fx ` set ?W = (if ?W = [] then {} else {t})"
    by (auto simp: owner_def filter_empty_conv)
  then show ?thesis unfolding d using clear_all [of ?W t s] by (intro futex_inv_unlinked [OF inv]) auto
qed

lemma futex_inv_drop_all: "futex_inv k \<Longrightarrow> futex_inv (futex_wake_all_for_thread th k)"
proof -
  have "futex_inv k \<Longrightarrow> futex_inv (fold (drop_bucket t) bs k)" for t bs
    by (induction bs arbitrary: k) (auto simp: futex_inv_drop_bucket)
  then show "futex_inv k \<Longrightarrow> ?thesis" by (simp add: futex_wake_all_for_thread_def split: option.split)
qed

end
