(* ===== verification/FutexProps.thy ===== *)
theory FutexProps
  imports FutexCorrect
begin

text \<open>
  The futex's invariant over every sequence of steps, and its contract: a waiter set is read off its bucket
  by key, the pair of address and process; the interface \<open>wait_queues\<close> states what the operations promise
  over keys, and the code's buckets provide it.
\<close>

section \<open>Every operation, in any order\<close>

text \<open>
  \<open>enqueue\<close> and \<open>finish\<close> carry what the call \<open>futex_wait\<close> gives them: its frame is new when it starts,
  its thread is in one call at a time. Between two steps any other thread or the timer may run.
\<close>

inductive futex_step :: "kheap \<times> futex_state \<times> sched_state \<Rightarrow> kheap \<times> futex_state \<times> sched_state \<Rightarrow> bool" where
  enqueue: "g_current s = Some self \<Longrightarrow> fx_waiters fx w = None \<Longrightarrow> th_futex_waiter (thr s self) = None \<Longrightarrow>
    futex_step (h, fx, s) (h, futex_wait_enqueue w self pid uaddr timeout (fx, s))"
| block: "g_current s = Some self \<Longrightarrow> futex_wait_block self s = Some (s', sw) \<Longrightarrow> futex_step (h, fx, s) (h, fx, s')"
| finish: "g_current s = Some self \<Longrightarrow> fx_waiters fx w \<noteq> None \<Longrightarrow> w_th (wtr fx w) = Some self \<Longrightarrow>
    th_futex_waiter (thr s self) \<in> {None, Some w} \<Longrightarrow> futex_step (h, fx, s) (h, snd (futex_wait_finish w self (fx, s)))"
| wake: "futex_wake tasks uaddr count (fx, s) = (n, k') \<Longrightarrow> futex_step (h, fx, s) (h, k')"
| drop_all: "futex_step (h, fx, s) (h, futex_wake_all_for_thread th (fx, s))"
| tick: "futex_step k (futex_tick k)"
| resched: "schedule s = Some (s', sw) \<Longrightarrow> futex_step (h, fx, s) (h, fx, s')"

lemma expired_tick: "futex_inv (fx, s) \<Longrightarrow> futex_inv (fx\<lparr>g_futex_tick := n\<rparr>, s)"
  by (simp add: futex_inv_def waiter_ok_def wtr_def owner_def)

lemma tick_spec:
  assumes "futex_inv (fx, s)"
  shows "\<exists>mem. timed_out mem [0..<64] (h, fx\<lparr>g_futex_tick := g_futex_tick fx + 1\<rparr>, s) (futex_tick (h, fx, s))"
  using timed_out_fold [OF expired_tick [OF assms], of "[0..<64]"] by (simp add: futex_tick_def FUTEX_MAX_BUCKETS_def)

lemma timed_out_inv: "timed_out mem bs k k' \<Longrightarrow> futex_inv (snd k')"
  by (cases k; cases k') (simp add: timed_out_def split: prod.splits)

lemma futex_inv_step: "futex_step k k' \<Longrightarrow> futex_inv (snd k) \<Longrightarrow> futex_inv (snd k')"
proof (induction rule: futex_step.induct)
  case (enqueue s self fx w h pid uaddr timeout)
  then show ?case
    using futex_inv_enqueue [of fx s self w] sched_ok_current [OF futex_invD(1)] by simp
next
  case (tick k)
  then show ?case
    using tick_spec [of "fst (snd k)" "snd (snd k)" "fst k"] by (auto dest: timed_out_inv)
next
  case (wake tasks uaddr count fx s n k' h)
  then show ?case using futex_inv_wake [of "(fx, s)"] by (metis futex_wake_def snd_conv)
qed (auto intro: futex_inv_block futex_inv_finish futex_inv_drop_all futex_inv_schedule)

lemma futex_inv_run: "futex_step\<^sup>*\<^sup>* k k' \<Longrightarrow> futex_inv (snd k) \<Longrightarrow> futex_inv (snd k')"
  by (induction rule: rtranclp_induct) (auto intro: futex_inv_step)

section \<open>The interface\<close>

text \<open>
  What the callers of a set of wait queues rely on: a queue per key, to whose head a waiter is added, and
  from whose head a wake-up takes up to \<open>n\<close> waiters (all of them for 0), each key on its own.
\<close>

locale wait_queues =
  fixes ok :: "'s \<Rightarrow> bool"
    and queue :: "'k \<Rightarrow> 's \<Rightarrow> 'w list"
    and can_add :: "'a \<Rightarrow> 's \<Rightarrow> bool"
    and name :: "'a \<Rightarrow> 'w"
    and add :: "'k \<Rightarrow> 'a \<Rightarrow> 's \<Rightarrow> 's"
    and wake :: "'k \<Rightarrow> nat \<Rightarrow> 's \<Rightarrow> 's"
  assumes add_ok: "ok s \<Longrightarrow> can_add a s \<Longrightarrow> ok (add k a s)"
    and add_queue: "ok s \<Longrightarrow> can_add a s \<Longrightarrow> queue k' (add k a s) = (if k' = k then name a # queue k s else queue k' s)"
    and wake_ok: "ok s \<Longrightarrow> ok (wake k n s)"
    and wake_queue: "ok s \<Longrightarrow> n < 2 ^ 32 \<Longrightarrow>
      queue k' (wake k n s) = (if k' = k then (if n = 0 then [] else drop n (queue k s)) else queue k' s)"
begin

lemma last_in_first_out:
  assumes "ok s" "can_add a s"
  shows "ok (wake k 1 (add k a s)) \<and> queue k' (wake k 1 (add k a s)) = queue k' s"
  using assms by (simp add: add_ok add_queue wake_ok wake_queue)

text \<open>As long as a newcomer arrives before each wake-up, those who wait already stay.\<close>

lemma starvation:
  assumes "ok s" "\<forall>i < length as. can_add (as ! i) (fold (\<lambda>a s. wake k 1 (add k a s)) (take i as) s)"
  shows "queue k' (fold (\<lambda>a s. wake k 1 (add k a s)) as s) = queue k' s"
proof -
  have "ok (fold (\<lambda>a s. wake k 1 (add k a s)) as s) \<and> queue k' (fold (\<lambda>a s. wake k 1 (add k a s)) as s) = queue k' s"
    using assms(2)
  proof (induction as rule: rev_induct)
    case (snoc a as)
    have "can_add a (fold (\<lambda>a s. wake k 1 (add k a s)) as s)"
      using snoc.prems [rule_format, of "length as"] by simp
    moreover have "\<forall>i < length as. can_add (as ! i) (fold (\<lambda>a s. wake k 1 (add k a s)) (take i as) s)"
    proof (intro allI impI)
      fix i assume "i < length as"
      then show "can_add (as ! i) (fold (\<lambda>a s. wake k 1 (add k a s)) (take i as) s)"
        using snoc.prems [rule_format, of i] by (simp add: nth_append)
    qed
    ultimately show ?case using snoc.IH last_in_first_out by simp
  qed (use assms(1) in simp)
  then show ?thesis by blast
qed

lemma broadcast: "ok s \<Longrightarrow> queue k (wake k 0 s) = []"
  by (simp add: wake_queue)

lemma other_key: "ok s \<Longrightarrow> n < 2 ^ 32 \<Longrightarrow> k' \<noteq> k \<Longrightarrow> queue k' (wake k n s) = queue k' s"
  by (simp add: wake_queue)

end

text \<open>The code's buckets: the key is the address and the process, the newcomer a frame, its thread and a time-out.\<close>

definition futex_queue :: "u64 \<times> nat \<Rightarrow> futex_state \<times> sched_state \<Rightarrow> nat list" where
  "futex_queue key k = waiting (fst key) (snd key) (fst k)"

definition can_wait :: "nat \<times> nat \<times> u64 \<Rightarrow> futex_state \<times> sched_state \<Rightarrow> bool" where
  "can_wait a k \<longleftrightarrow> (case a of (w, self, timeout) \<Rightarrow>
     fx_waiters (fst k) w = None \<and> threads (snd k) self \<noteq> None \<and> th_futex_waiter (thr (snd k) self) = None)"

definition wait_on :: "u64 \<times> nat \<Rightarrow> nat \<times> nat \<times> u64 \<Rightarrow> futex_state \<times> sched_state \<Rightarrow> futex_state \<times> sched_state" where
  "wait_on key a = (case a of (w, self, timeout) \<Rightarrow> futex_wait_enqueue w self (snd key) (fst key) timeout)"

definition wake_on :: "u64 \<times> nat \<Rightarrow> nat \<Rightarrow> futex_state \<times> sched_state \<Rightarrow> futex_state \<times> sched_state" where
  "wake_on key n k = snd (futex_wake_locked (fst key) (snd key) (of_nat n) k)"

lemma waiting_enqueue:
  assumes "futex_inv (fx, s)" "fx_waiters fx w = None"
  shows "waiting u p (fst (futex_wait_enqueue w self pid uaddr timeout (fx, s))) =
    (if (u, p) = (uaddr, pid) then w # waiting uaddr pid fx else waiting u p fx)"
proof -
  have fresh: "w \<notin> set (g_buckets fx b)" for b
    using futex_invD(3) [OF assms(1), of w b] assms(2) by (auto simp: waiter_ok_def)
  have "filter (on_key (fst (futex_wait_enqueue w self pid uaddr timeout (fx, s))) u p) (g_buckets fx b) =
      filter (on_key fx u p) (g_buckets fx b)" for b
    by (rule filter_cong) (use fresh in \<open>auto simp: futex_wait_enqueue_def Let_def on_key_def wtr_def\<close>)
  moreover have "g_buckets (fst (futex_wait_enqueue w self pid uaddr timeout (fx, s))) =
      (g_buckets fx)(bucket_of uaddr := w # g_buckets fx (bucket_of uaddr))"
    by (simp add: futex_wait_enqueue_def Let_def)
  moreover have "on_key (fst (futex_wait_enqueue w self pid uaddr timeout (fx, s))) u p w \<longleftrightarrow> (u, p) = (uaddr, pid)"
    by (auto simp: futex_wait_enqueue_def Let_def on_key_def wtr_def)
  ultimately show ?thesis by (auto simp: waiting_def)
qed

lemma filter_not_take: "distinct L \<Longrightarrow> filter (\<lambda>w. w \<notin> set (take n L)) L = drop n L"
proof -
  assume d: "distinct L"
  have "filter (\<lambda>w. w \<notin> set (take n L)) L = filter (\<lambda>w. w \<notin> set (take n L)) (take n L) @ filter (\<lambda>w. w \<notin> set (take n L)) (drop n L)"
    by (metis append_take_drop_id filter_append)
  moreover have "filter (\<lambda>w. w \<notin> set (take n L)) (drop n L) = drop n L"
    by (rule filter_True) (use set_take_disj_set_drop_if_distinct [OF d, of n n] in auto)
  ultimately show ?thesis by (simp add: filter_empty_conv)
qed

lemma waiting_unlinked:
  fixes count :: u32 and uaddr :: u64 and pid :: nat and fx :: futex_state
  assumes "futex_inv (fx, s)"
  defines "W \<equiv> taken count 0 (waiting uaddr pid fx)"
  shows "waiting u p (unlinked v W (bucket_of uaddr) fx) =
    (if (u, p) = (uaddr, pid) then drop (length W) (waiting uaddr pid fx) else waiting u p fx)"
proof (cases "(u, p) = (uaddr, pid)")
  case True
  have d: "distinct (waiting uaddr pid fx)" using futex_invD(2) [OF assms(1)] by (simp add: waiting_def)
  have W: "W = take (length W) (waiting uaddr pid fx)" by (simp add: W_def taken_def min_def)
  have "waiting uaddr pid (unlinked v W (bucket_of uaddr) fx) = filter (\<lambda>w. w \<notin> set W) (waiting uaddr pid fx)"
    by (simp add: waiting_def conj_commute)
  also have "\<dots> = drop (length W) (waiting uaddr pid fx)" using filter_not_take [OF d, of "length W"] W by simp
  finally show ?thesis using True by simp
next
  case False
  have "w \<notin> set W" if "on_key fx u p w" for w
    using False that by (auto simp: W_def waiting_def on_key_def dest!: set_taken)
  then have "filter (\<lambda>w. on_key fx u p w \<and> w \<notin> set W) ws = filter (on_key fx u p) ws" for ws
    by (intro filter_cong) auto
  then have "waiting u p (unlinked v W (bucket_of uaddr) fx) = waiting u p fx" by (simp add: waiting_def conj_commute)
  then show ?thesis using False by auto
qed

interpretation fq: wait_queues futex_inv futex_queue can_wait fst wait_on wake_on
proof
  fix k :: "futex_state \<times> sched_state" and a :: "nat \<times> nat \<times> u64" and key key' :: "u64 \<times> nat" and n :: nat
  assume ok: "futex_inv k"
  obtain fx s where k: "k = (fx, s)" by fastforce
  obtain w self timeout where a: "a = (w, self, timeout)" by (metis prod_cases3)
  show "futex_inv (wait_on key a k)" if "can_wait a k"
    using that ok by (simp add: a k can_wait_def wait_on_def futex_inv_enqueue)
  show "futex_queue key' (wait_on key a k) = (if key' = key then fst a # futex_queue key k else futex_queue key' k)"
    if "can_wait a k"
    using that ok waiting_enqueue [of fx s w "fst key'" "snd key'" self "snd key" "fst key" timeout]
    by (cases key; cases key') (simp add: a k can_wait_def wait_on_def futex_queue_def)
  show "futex_inv (wake_on key n k)" using ok futex_inv_wake by (simp add: wake_on_def)
  show "futex_queue key' (wake_on key n k) = (if key' = key then (if n = 0 then [] else drop n (futex_queue key k)) else futex_queue key' k)"
    if n: "n < 2 ^ 32"
  proof -
    obtain u p u' p' where keys: "key = (u, p)" "key' = (u', p')" by fastforce
    let ?W = "taken (of_nat n) 0 (waiting u p fx)"
    obtain s' where s': "futex_wake_locked u p (of_nat n) (fx, s) = (length ?W, unlinked True ?W (bucket_of u) fx, s')"
      using futex_wake_locked_spec ok unfolding k by blast
    have un: "unat (of_nat n :: u32) = n" by (rule of_nat_inverse [OF refl]) (use n in simp)
    then have "(of_nat n :: u32) = 0 \<longleftrightarrow> n = 0" by (metis unat_0 unat_eq_zero)
    then have W: "?W = (if n = 0 then waiting u p fx else take n (waiting u p fx))" by (simp add: taken_def un)
    have "drop (length ?W) (waiting u p fx) = (if n = 0 then [] else drop n (waiting u p fx))"
      unfolding W by (simp add: min_def)
    then show ?thesis
      using waiting_unlinked [of fx s u' p' True "of_nat n" u p] ok by (simp add: wake_on_def futex_queue_def k keys s')
  qed
qed

section \<open>Properties\<close>

text \<open>
  C19. Waking: of the waiters of the caller's process on the address, \<open>futex_wake\<close> wakes the \<open>count\<close> that came
  last (all of them for 0), and it returns how many. Each one's thread is runnable and will see
  \<open>woken = 1\<close>; the rest of the queue, every other address, and every other process that waits on the same
  address are untouched.
\<close>

theorem futex_wake_correct:
  assumes "futex_inv (fx, s)" "futex_wake tasks uaddr count (fx, s) = (n, fx', s')" "current_task tasks s = Some cur"
  defines "L \<equiv> waiting uaddr (t_pid cur) fx"
  shows "n = (if count = 0 then length L else min (length L) (unat count)) \<and>
    waiting uaddr (t_pid cur) fx' = drop n L \<and>
    (\<forall>u p. (u, p) \<noteq> (uaddr, t_pid cur) \<longrightarrow> waiting u p fx' = waiting u p fx) \<and>
    (\<forall>w \<in> set (take n L). woken (wtr fx' w) \<and> (\<exists>t. w_th (wtr fx w) = Some t \<and> runnable s' t \<and> th_futex_waiter (thr s' t) = None)) \<and>
    futex_inv (fx', s')"
proof -
  let ?W = "taken count 0 L"
  have W: "?W = take (length ?W) L" "length ?W = (if count = 0 then length L else min (length L) (unat count))"
    by (simp_all add: taken_def min_def)
  from futex_wake_locked_spec [OF assms(1), of uaddr "t_pid cur" count] assms(2,3)
  have r: "n = length ?W" "fx' = unlinked True ?W (bucket_of uaddr) fx" and th: "threads_woken (owner fx ` set ?W) s s'"
    unfolding L_def by (auto simp: futex_wake_def)
  have sub: "w \<in> set (g_buckets fx (bucket_of uaddr))" if "w \<in> set ?W" for w
    using set_taken [OF that] by (simp add: L_def waiting_def)
  have "woken (wtr fx' w) \<and> (\<exists>t. w_th (wtr fx w) = Some t \<and> runnable s' t \<and> th_futex_waiter (thr s' t) = None)" if "w \<in> set ?W" for w
    using futex_invD(3) [OF assms(1) sub [OF that]] that th by (auto simp: r(2) woken_unlinked waiter_ok_def threads_defs)
  moreover have "futex_inv (fx', s')" using futex_inv_wake [OF assms(1)] assms(2) by (metis futex_wake_def snd_conv)
  ultimately show ?thesis
    using waiting_unlinked [OF assms(1), where count = count and uaddr = uaddr and pid = "t_pid cur" and v = True] W
    unfolding r(2) r(1) L_def by simp
qed

text \<open>
  The buckets are stacks: as long as a new waiter arrives on the address before each wake-up of one,
  the queue that was there does not move, however many wake-ups there are.
\<close>

theorem futex_newest_first:
  assumes "futex_inv k" "\<forall>i < length as. can_wait (as ! i) (fold (\<lambda>a k. wake_on (uaddr, pid) 1 (wait_on (uaddr, pid) a k)) (take i as) k)"
  shows "waiting uaddr pid (fst (fold (\<lambda>a k. wake_on (uaddr, pid) 1 (wait_on (uaddr, pid) a k)) as k)) = waiting uaddr pid (fst k)"
  using fq.starvation [OF assms, of "(uaddr, pid)"] by (simp add: futex_queue_def)

text \<open>
  C21. Time-outs: a tick unlinks no waiter whose time has not come, and of those whose time has come it
  unlinks all where there is memory for the list of their threads (and they are at most 512) and the first
  one of each bucket in any case, so that every one is unlinked sooner or later; each thread that is
  unlinked is runnable and will return \<open>OB_ETIMEDOUT\<close>.
\<close>

theorem futex_tick_times_out:
  assumes "futex_inv (fx, s)" "futex_tick (h, fx, s) = (h', fx', s')" "b < 64"
  defines "late \<equiv> expired (fx\<lparr>g_futex_tick := g_futex_tick fx + 1\<rparr>)"
  shows "filter (\<lambda>w. \<not> late w) (g_buckets fx' b) = filter (\<lambda>w. \<not> late w) (g_buckets fx b) \<and>
    (\<forall>w es. filter late (g_buckets fx b) = w # es \<longrightarrow> w \<notin> set (g_buckets fx' b)) \<and>
    ((\<forall>n. h_outcome h n) \<and> length (g_buckets fx b) \<le> 512 \<longrightarrow> filter late (g_buckets fx' b) = []) \<and>
    (\<forall>w \<in> set (g_buckets fx b) - set (g_buckets fx' b).
       fst (futex_wait_finish w (owner fx w) (fx', s')) = OB_ETIMEDOUT \<and> runnable s' (owner fx w))"
proof -
  let ?fx = "fx\<lparr>g_futex_tick := g_futex_tick fx + 1\<rparr>"
  obtain mem where t: "timed_out mem [0..<64] (h, ?fx, s) (h', fx', s')" using tick_spec [OF assms(1)] assms(2) by metis
  have same: "wtr ?fx = wtr fx" "owner ?fx = owner fx" "g_buckets ?fx = g_buckets fx" "fx_waiters ?fx = fx_waiters fx"
    by (simp_all add: wtr_def owner_def fun_eq_iff)
  let ?D = "due (mem b) ?fx b"
  have b: "g_buckets fx' b = filter (\<lambda>w. w \<notin> set ?D) (g_buckets fx b)"
    using t assms(3) unfolding timed_out_def prod.case same by simp
  have late: "late w" if "w \<in> set ?D" for w using due_sub [OF that] by (simp add: late_def)
  have "filter (\<lambda>w. \<not> late w) (g_buckets fx' b) = filter (\<lambda>w. \<not> late w) (g_buckets fx b)"
    unfolding b filter_filter by (rule filter_cong) (use late in auto)
  moreover have "\<forall>w es. filter late (g_buckets fx b) = w # es \<longrightarrow> w \<notin> set (g_buckets fx' b)"
  proof (intro allI impI)
    fix w es assume e: "filter late (g_buckets fx b) = w # es"
    then have "w \<in> set (filter late (g_buckets fx b))" by simp
    then have "late w" by simp
    then have "w \<in> set ?D" using e by (auto simp: due_def late_def same)
    then show "w \<notin> set (g_buckets fx' b)" by (simp add: b)
  qed
  moreover have "(\<forall>n. h_outcome h n) \<and> length (g_buckets fx b) \<le> 512 \<longrightarrow> filter late (g_buckets fx' b) = []"
  proof
    assume "(\<forall>n. h_outcome h n) \<and> length (g_buckets fx b) \<le> 512"
    moreover have "(\<forall>n. h_outcome h n) \<longrightarrow> (\<forall>b \<in> set [0..<64]. length (g_buckets fx b) \<le> 512 \<longrightarrow> mem b)"
      using t unfolding timed_out_def prod.case same by blast
    ultimately have "mem b" using assms(3) by simp
    then show "filter late (g_buckets fx' b) = []" unfolding b by (auto simp: due_def late_def same filter_empty_conv)
  qed
  moreover have "fst (futex_wait_finish w (owner fx w) (fx', s')) = OB_ETIMEDOUT \<and> runnable s' (owner fx w)"
    if "w \<in> set (g_buckets fx b) - set (g_buckets fx' b)" for w
  proof -
    have w: "w \<in> set ?D" "fx_waiters fx w \<noteq> None" using that b futex_invD(3) [OF assms(1), of w b] by (auto simp: waiter_ok_def)
    have "woken (wtr fx' w) = (woken (wtr fx w) \<and> (\<forall>b \<in> set [0..<64]. w \<notin> set (due (mem b) ?fx b)))"
      using t w(2) unfolding timed_out_def prod.case same by blast
    then have "\<not> woken (wtr fx' w)" using w(1) assms(3) by auto
    moreover have "runnable s' (owner fx w)"
      using t w(1) assms(3) unfolding timed_out_def prod.case same threads_woken_def by auto
    ultimately show ?thesis by (simp add: futex_wait_finish_def Let_def)
  qed
  ultimately show ?thesis by blast
qed

text \<open>A blocked thread that gives up the CPU is neither chosen nor queued.\<close>

lemma schedule_blocked:
  assumes "sched_ok s" "g_current s = Some c" "th_state (thr s c) = THREAD_STATE_BLOCKED" "\<not> in_rq (thr s c)"
  shows "\<exists>s' sw. schedule s = Some (s', sw) \<and> g_current s' \<noteq> Some c \<and> th_state (thr s' c) = THREAD_STATE_BLOCKED \<and> \<not> in_rq (thr s' c)"
proof -
  obtain Q where Q: "sched_rep s Q" using assms(1) by (auto simp: sched_ok_def)
  have rl: "rq_links s Q" and idle: "g_idle s = None" using Q by (simp_all add: sched_rep_def)
  have rq: "requeue s = s" using assms(2,3) by (simp add: requeue_def)
  obtain n Q' where sel: "select_next (is_dead s) [2, 1, 0] Q = (n, Q')" by fastforce
  obtain s1 where s1: "pick_next [2, 1, 0] s = Some (n, s1)" "rq_links s1 Q'" "cores s1 = cores s" "globals s1 = globals s"
    using pick_next_links [OF rl, of "[2, 1, 0]", unfolded sel fst_conv snd_conv] by auto
  note sub = select_next_sub [of "is_dead s" "[2, 1, 0]" Q, unfolded sel fst_conv snd_conv]
  obtain x where x: "threads s c = Some x" using sched_ok_current [OF assms(1,2)] by blast
  have nq: "c \<notin> set (Q q)" if "q < 3" for q
    using rq_links_mem [OF rl that, of c] assms(4) x by (auto simp: thr_def)
  then have n: "n \<noteq> Some c" using sub by auto
  have "c \<notin> set (Q' q)" if "q < 3" for q using sub nq [OF that] that by blast
  moreover have "(\<exists>x. threads s1 c = Some x \<and> in_rq x) \<longleftrightarrow> (\<exists>q < 3. c \<in> set (Q' q))"
    using s1(2) unfolding rq_links_def by blast
  ultimately have "\<not> (\<exists>x. threads s1 c = Some x \<and> in_rq x)" by blast
  then have nin: "\<not> in_rq (thr s1 c)" by (auto simp: thr_def zero_thread_def split: option.splits)
  have st: "th_state (thr s1 c) = THREAD_STATE_BLOCKED" using core_fields(1) [of s1 c s] s1(3) assms(3) by simp
  have g: "g_idle s1 = None" using s1(4) idle by (simp add: globals_def)
  have frame: "thr (set_state r n (s1\<lparr>g_current := n\<rparr>)) c = thr s1 c" "g_current (set_state r n (s1\<lparr>g_current := n\<rparr>)) = n" for r
    using n by (auto simp: set_state_def thr_def split: option.split)
  have "schedule s = Some (set_state THREAD_STATE_RUNNING n (s1\<lparr>g_current := n\<rparr>), Some (Some c, n))"
    unfolding schedule_cases [OF idle] rq s1(1) using assms(2,3) n g by (cases n) (auto simp: Let_def)
  then show ?thesis using frame n nin st by simp
qed


section \<open>Witnesses\<close>

text \<open>Thread 0 runs; threads 1 and 2 wait on the address 64 for the process 7, the waiter 11 since a time-out of 1.\<close>

definition wit_ftask :: task_t where
  "wit_ftask = zero_task\<lparr>t_pid := 7, priv_iso_ready := True, mem_domain := no_domain\<lparr>pml4_self_ptr := Some 5\<rparr>\<rparr>"

definition wit_fsched :: sched_state where
  "wit_fsched = wit_sched0\<lparr>
     threads := [0 \<mapsto> zero_thread\<lparr>th_state := THREAD_STATE_RUNNING, th_task := Some 0\<rparr>,
                 1 \<mapsto> zero_thread\<lparr>th_state := THREAD_STATE_BLOCKED, th_futex_waiter := Some 11\<rparr>,
                 2 \<mapsto> zero_thread\<lparr>th_state := THREAD_STATE_BLOCKED, th_futex_waiter := Some 12\<rparr>],
     rq_head := (\<lambda>_. None), rq_tail := (\<lambda>_. None), g_current := Some 0, g_idle := None\<rparr>"

definition wit_futex :: futex_state where
  "wit_futex =
     \<lparr>fx_waiters = [11 \<mapsto> \<lparr>w_th = Some 1, w_uaddr = 64, w_pid = 7, wake_deadline = 1, woken = False\<rparr>,
                    12 \<mapsto> \<lparr>w_th = Some 2, w_uaddr = 64, w_pid = 7, wake_deadline = 0, woken = False\<rparr>],
      g_buckets = (\<lambda>b. if b = 0 then [12, 11] else []), g_futex_tick = 0, g_futex_inited = True\<rparr>"

lemma wit_futex_inv: "futex_inv (wit_futex, wit_fsched)"
proof -
  have "rq_links wit_fsched (\<lambda>_. [])"
    by (auto simp: rq_links_def wit_fsched_def zero_thread_def wit_sched0_def split: if_splits)
  then have "sched_rep wit_fsched (\<lambda>_. [])"
    by (auto simp: sched_rep_def wit_fsched_def zero_thread_def wit_sched0_def split: if_splits)
  then have "sched_ok wit_fsched" by (auto simp: sched_ok_def)
  then show ?thesis
    by (auto simp: futex_inv_def waiter_ok_def wit_futex_def wit_fsched_def owner_def wtr_def thr_def bucket_of_def
        FUTEX_MAX_BUCKETS_def split: if_splits)
qed

lemma wit_futex_waiting: "waiting 64 7 wit_futex = [12, 11]"
  by (simp add: waiting_def on_key_def wit_futex_def wtr_def bucket_of_def FUTEX_MAX_BUCKETS_def)

lemma futex_wake_correct_witness:
  "\<exists>fx' s'. futex_wake (\<lambda>_. Some wit_ftask) 64 1 (wit_futex, wit_fsched) = (1, fx', s') \<and> waiting 64 7 fx' = [11] \<and> runnable s' 2"
proof -
  obtain n fx' s' where k: "futex_wake (\<lambda>_. Some wit_ftask) 64 1 (wit_futex, wit_fsched) = (n, fx', s')" by (metis prod_cases3)
  have cur: "current_task (\<lambda>_. Some wit_ftask) wit_fsched = Some wit_ftask"
    by (simp add: current_task_def wit_fsched_def thr_def)
  have p: "t_pid wit_ftask = 7" by (simp add: wit_ftask_def)
  have w: "w_th (wtr wit_futex 12) = Some 2" by (simp add: wtr_def wit_futex_def)
  note r = futex_wake_correct [OF wit_futex_inv k cur, unfolded p wit_futex_waiting]
  then have "n = 1" by simp
  with r w show ?thesis using k by simp
qed

lemma futex_newest_first_witness:
  "waiting 64 7 (fst (wake_on (64, 7) 1 (wait_on (64, 7) (13, 0, 0) (wit_futex, wit_fsched)))) = [12, 11]"
proof -
  have "can_wait (13, 0, 0) (wit_futex, wit_fsched)"
    by (simp add: can_wait_def wit_futex_def wit_fsched_def thr_def zero_thread_def)
  then show ?thesis
    using futex_newest_first [OF wit_futex_inv, of "[(13, 0, 0)]" 64 7] wit_futex_waiting by simp
qed

lemma futex_tick_times_out_witness:
  "\<exists>h' fx' s'. futex_tick (wit_heap, wit_futex, wit_fsched) = (h', fx', s') \<and> 11 \<notin> set (g_buckets fx' 0) \<and>
     12 \<in> set (g_buckets fx' 0) \<and> fst (futex_wait_finish 11 1 (fx', s')) = OB_ETIMEDOUT"
proof -
  obtain h' fx' s' where k: "futex_tick (wit_heap, wit_futex, wit_fsched) = (h', fx', s')" by (metis prod_cases3)
  let ?late = "expired (wit_futex\<lparr>g_futex_tick := g_futex_tick wit_futex + 1\<rparr>)"
  have late: "?late 11" "\<not> ?late 12" by (simp_all add: expired_def wtr_def wit_futex_def)
  have b: "g_buckets wit_futex 0 = [12, 11]" by (simp add: wit_futex_def)
  have o: "owner wit_futex 11 = 1" by (simp add: owner_def wtr_def wit_futex_def)
  note r = futex_tick_times_out [OF wit_futex_inv k zero_less_numeral]
  note last = r [THEN conjunct2, THEN conjunct2, THEN conjunct2]
  have f: "filter (\<lambda>w. \<not> ?late w) (g_buckets fx' 0) = [12]" "11 \<notin> set (g_buckets fx' 0)"
    using r late by (simp_all add: b)
  have "12 \<in> set (filter (\<lambda>w. \<not> ?late w) (g_buckets fx' 0))" unfolding f(1) by simp
  then have "12 \<in> set (g_buckets fx' 0)" by simp
  moreover have "fst (futex_wait_finish 11 1 (fx', s')) = OB_ETIMEDOUT"
    using last [rule_format, of 11] f(2) unfolding o by (simp add: b)
  ultimately show ?thesis using k f(2) by blast
qed


end
