(* ===== verification/UserMem.thy ===== *)
theory UserMem
  imports TaskData Kheap Vmm
begin

text \<open>
  User address spaces (\<open>user/user.c\<close>, the parts that build, copy and take down the memory of a process, and
  the signal slot that goes with it, \<open>user/signal.c\<close>). A user context is named by the number of its
  allocation. The contents of a frame are the 512 words \<open>pt_mem v f\<close>, whether it is a page table or data.
\<close>

section \<open>State\<close>

definition USER_STACK_TOP :: u64 where [kernel_defs]: "USER_STACK_TOP = 0x00007FFFFFFF0000"
definition USER_STACK_SIZE :: u64 where [kernel_defs]: "USER_STACK_SIZE = 0x10000"
definition USER_STACK_BOTTOM :: u64 where [kernel_defs]: "USER_STACK_BOTTOM = USER_STACK_TOP - USER_STACK_SIZE"
definition USER_STACK_PAGES :: nat where [kernel_defs]: "USER_STACK_PAGES = 16"
definition USER_TLS_BASE :: u64 where [kernel_defs]: "USER_TLS_BASE = 0x00007FFFFE000000"
definition USER_IMAGE_BASE :: u64 where [kernel_defs]: "USER_IMAGE_BASE = 0x0000008000000000"
definition USER_IMAGE_MAX :: u64 where [kernel_defs]: "USER_IMAGE_MAX = 256 * 1024 * 1024"
definition USER_SIGTRAMP_ADDR :: u64 where [kernel_defs]: "USER_SIGTRAMP_ADDR = 0x00007FFFFFFFE000"
definition USER_SPACE_START :: u64 where [kernel_defs]: "USER_SPACE_START = 0"
definition SIG_TASK_MAX :: nat where [kernel_defs]: "SIG_TASK_MAX = 256"
definition OB_NSIG :: nat where [kernel_defs]: "OB_NSIG = 32"

record user_ctx =
  c_entry :: u64
  c_stack_top :: u64
  c_stack_bottom :: u64
  c_stack_phys :: "u64 list"
  c_tls_base :: u64
  c_tls_phys :: u64
  c_pml4 :: "nat option"
  c_heap_cur :: u64
  c_heap_end :: u64
  c_heap_page_count :: nat
  c_owns_pml4 :: bool
  c_is_thread :: bool
  c_thread_stack_base :: u64
  c_thread_stack_pages :: nat
  c_thread_tls_phys :: u64
  c_thread_stack_owned_phys :: "u64 list" \<comment> \<open>the first \<open>thread_stack_owned_count\<close> entries\<close>

record ob_sigaction =
  sa_handler :: u64
  sa_mask :: u64
  sa_flags :: u32

record user_regs =
  u_r15 :: u64
  u_r14 :: u64
  u_r13 :: u64
  u_r12 :: u64
  u_r11 :: u64
  u_r10 :: u64
  u_r9 :: u64
  u_r8 :: u64
  u_rsi :: u64
  u_rdi :: u64
  u_rbp :: u64
  u_rdx :: u64
  u_rcx :: u64
  u_rbx :: u64
  u_rax :: u64
  u_rip :: u64
  u_cs :: u64
  u_rflags :: u64
  u_rsp :: u64
  u_ss :: u64

definition zero_regs :: user_regs where
  "zero_regs =
     \<lparr>u_r15 = 0, u_r14 = 0, u_r13 = 0, u_r12 = 0, u_r11 = 0, u_r10 = 0, u_r9 = 0, u_r8 = 0,
      u_rsi = 0, u_rdi = 0, u_rbp = 0, u_rdx = 0, u_rcx = 0, u_rbx = 0, u_rax = 0, u_rip = 0,
      u_cs = 0, u_rflags = 0, u_rsp = 0, u_ss = 0\<rparr>"

record sig_state =
  sg_actions :: "nat \<Rightarrow> ob_sigaction"
  sg_pending :: u64
  sg_blocked :: u64
  sg_in_handler :: u64
  sg_fault_rip :: u64
  sg_fault_insn_len :: u32
  sg_resume :: user_regs
  sg_handler_regs :: user_regs
  sg_valid :: bool

record user_mem =
  um_heap :: kheap
  um_ctx :: "nat \<Rightarrow> user_ctx option"
  um_vmm :: vmm_state
  g_sig :: "nat \<Rightarrow> sig_state"

definition zero_ctx :: user_ctx where
  "zero_ctx =
     \<lparr>c_entry = 0, c_stack_top = 0, c_stack_bottom = 0, c_stack_phys = replicate USER_STACK_PAGES 0, c_tls_base = 0,
      c_tls_phys = 0, c_pml4 = None, c_heap_cur = 0, c_heap_end = 0, c_heap_page_count = 0, c_owns_pml4 = False,
      c_is_thread = False, c_thread_stack_base = 0, c_thread_stack_pages = 0, c_thread_tls_phys = 0,
      c_thread_stack_owned_phys = []\<rparr>"

definition user_get_ctx :: "task_t \<Rightarrow> user_mem \<Rightarrow> user_ctx option" where
  "user_get_ctx t m = (case user_ctx t of None \<Rightarrow> None | Some c \<Rightarrow> um_ctx m c)"

definition user_task_pml4 :: "task_t \<Rightarrow> user_mem \<Rightarrow> nat option" where
  "user_task_pml4 t m = (case user_get_ctx t m of None \<Rightarrow> None | Some c \<Rightarrow> c_pml4 c)"

definition upd_ctx :: "task_t \<Rightarrow> (user_ctx \<Rightarrow> user_ctx) \<Rightarrow> user_mem \<Rightarrow> user_mem" where
  "upd_ctx t f m =
     (case user_ctx t of None \<Rightarrow> m | Some c \<Rightarrow> m\<lparr>um_ctx := (um_ctx m)(c := map_option f (um_ctx m c))\<rparr>)"

definition ctx_alloc :: "task_t \<Rightarrow> user_mem \<Rightarrow> bool \<times> task_t \<times> user_mem" where
  "ctx_alloc t m =
     (if user_ctx t \<noteq> None then (True, t, m)
      else case kzalloc_obj (um_heap m) of
          (None, h) \<Rightarrow> (False, t, m\<lparr>um_heap := h\<rparr>)
        | (Some c, h) \<Rightarrow> (True, t\<lparr>user_ctx := Some c\<rparr>, m\<lparr>um_heap := h, um_ctx := (um_ctx m)(c \<mapsto> zero_ctx)\<rparr>))"

definition ctx_free :: "task_t \<Rightarrow> user_mem \<Rightarrow> task_t \<times> user_mem" where
  "ctx_free t m =
     (case user_ctx t of
        None \<Rightarrow> (t, m)
      | Some c \<Rightarrow> (t\<lparr>user_ctx := None\<rparr>, m\<lparr>um_ctx := (um_ctx m)(c := None)\<rparr>))"

section \<open>Quota, ranges\<close>

definition user_quota_alloc :: "task_t option \<Rightarrow> nat \<Rightarrow> int" where
  "user_quota_alloc to n =
     (case to of
        None \<Rightarrow> 0
      | Some t \<Rightarrow>
          if mem_quota_pages t = 0 then 0
          else if mem_pages_used t + n > mem_quota_pages t then OB_ENOMEM else 0)"

definition user_quota_commit :: "nat \<Rightarrow> task_t \<Rightarrow> task_t" where
  "user_quota_commit n t = t\<lparr>mem_pages_used := mem_pages_used t + n\<rparr>"

definition user_quota_release :: "nat \<Rightarrow> task_t \<Rightarrow> task_t" where
  "user_quota_release n t =
     (if mem_pages_used t \<ge> n then t\<lparr>mem_pages_used := mem_pages_used t - n\<rparr> else t\<lparr>mem_pages_used := 0\<rparr>)"

definition user_range_ok :: "u64 \<Rightarrow> u64 \<Rightarrow> bool" where
  "user_range_ok vaddr sz =
     (if sz = 0 then True
      else let e = vaddr + sz in
        if e < vaddr then False
        else if vaddr < USER_SPACE_START then False
        else if e - 1 > USER_SPACE_END then False
        else True)"

section \<open>The signal slot of a process\<close>

definition signal_init_task :: "task_t \<Rightarrow> user_mem \<Rightarrow> user_mem" where
  "signal_init_task t m =
     (let k = t_pid t mod SIG_TASK_MAX
      in m\<lparr>g_sig := (g_sig m)(k := (g_sig m k)\<lparr>
             sg_actions := (\<lambda>i. if i < OB_NSIG then \<lparr>sa_handler = 0, sa_mask = 0, sa_flags = 0\<rparr> else sg_actions (g_sig m k) i),
             sg_pending := 0, sg_blocked := 0, sg_in_handler := 0, sg_fault_rip := 0, sg_fault_insn_len := 0,
             sg_valid := True\<rparr>)\<rparr>)"

definition signal_free_task :: "task_t \<Rightarrow> user_mem \<Rightarrow> user_mem" where
  "signal_free_task t m =
     (let k = t_pid t mod SIG_TASK_MAX in m\<lparr>g_sig := (g_sig m)(k := (g_sig m k)\<lparr>sg_valid := False\<rparr>)\<rparr>)"

section \<open>Building an address space\<close>

text \<open>A frame filled with zeros and then with bytes, eight to a word.\<close>

definition le_word :: "u8 list \<Rightarrow> u64" where
  "le_word bs = foldr (\<lambda>b acc. ucast b OR push_bit 8 acc) bs 0"

definition fill_page :: "nat \<Rightarrow> u8 list \<Rightarrow> vmm_state \<Rightarrow> vmm_state" where
  "fill_page f bs v =
     v\<lparr>pt_mem := (pt_mem v)(f := (\<lambda>i. if i < 512 then le_word (take 8 (drop (8 * i) bs)) else pt_mem v f i))\<rparr>"

definition tramp_code :: "u8 list" where
  "tramp_code =
     [0x48, 0xC7, 0xC0, 0x33, 0x01, 0x00, 0x00, 0x0F, 0x05, 0x48, 0xC7, 0xC0, 0x30, 0x01, 0x00, 0x00,
      0x48, 0x31, 0xFF, 0x0F, 0x05, 0xF4, 0xEB, 0xFE]"

definition thread_exit_code :: "u8 list" where
  "thread_exit_code = [0x48, 0x89, 0xC7, 0x48, 0xC7, 0xC0, 0x30, 0x01, 0x00, 0x00, 0x0F, 0x05, 0xF4, 0xEB, 0xFE]"

text \<open>A new frame mapped at \<open>va\<close>; the frame goes back when the mapping fails.\<close>

definition map_new_page :: "nat \<Rightarrow> u64 \<Rightarrow> u64 \<Rightarrow> vmm_state \<Rightarrow> nat option \<times> vmm_state" where
  "map_new_page pml4 va flags v =
     (case pmm_alloc_pages 0 (v_pmm v) of
        (None, p) \<Rightarrow> (None, v\<lparr>v_pmm := p\<rparr>)
      | (Some pg, p) \<Rightarrow>
          (case vmm_map_page pml4 va (frame_pa pg) flags (v\<lparr>v_pmm := p\<rparr>) of
             (rc, v) \<Rightarrow> if rc \<noteq> 0 then (None, v\<lparr>v_pmm := pmm_free_pages (Some pg) 0 (v_pmm v)\<rparr>) else (Some pg, v)))"

text \<open>The stack loop: \<open>i\<close> pages are mapped, \<open>k\<close> to go; the physical addresses are kept in the context.\<close>

fun stack_loop :: "nat \<Rightarrow> nat \<Rightarrow> nat \<Rightarrow> u64 list \<Rightarrow> vmm_state \<Rightarrow> bool \<times> u64 list \<times> vmm_state" where
  "stack_loop pml4 0 i ph v = (True, ph, v)"
| "stack_loop pml4 (Suc k) i ph v =
     (case map_new_page pml4 (USER_STACK_BOTTOM + of_nat i * of_nat PAGE_SIZE) (PTE_PRESENT OR PTE_WRITABLE OR PTE_USER) v of
        (None, v) \<Rightarrow> (False, ph, v)
      | (Some pg, v) \<Rightarrow> stack_loop pml4 k (Suc i) (ph[i := frame_pa pg]) v)"

definition setup_user_memory :: "user_ctx \<Rightarrow> vmm_state \<Rightarrow> int \<times> user_ctx \<times> vmm_state" where
  "setup_user_memory c v =
     (case c_pml4 c of
        None \<Rightarrow> (-1, c, v)
      | Some pml4 \<Rightarrow>
          (case stack_loop pml4 USER_STACK_PAGES 0 (c_stack_phys c) v of
             (ok, ph, v) \<Rightarrow>
               let c = c\<lparr>c_stack_phys := ph\<rparr> in
               if \<not> ok then (-1, c, v)
               else
                 let c = c\<lparr>c_stack_bottom := USER_STACK_BOTTOM, c_stack_top := USER_STACK_TOP\<rparr>
                 in case map_new_page pml4 USER_TLS_BASE (PTE_PRESENT OR PTE_WRITABLE OR PTE_USER) v of
                      (None, v) \<Rightarrow> (-1, c, v)
                    | (Some tpg, v) \<Rightarrow>
                        let c = c\<lparr>c_tls_base := USER_TLS_BASE, c_tls_phys := frame_pa tpg\<rparr>;
                            v = set_entry tpg 0 USER_TLS_BASE (zero_page tpg v)
                        in case map_new_page pml4 USER_SIGTRAMP_ADDR (PTE_PRESENT OR PTE_USER) v of
                             (None, v) \<Rightarrow> (-1, c, v)
                           | (Some spg, v) \<Rightarrow>
                               let v = fill_page spg (tramp_code @ replicate (0x20 - length tramp_code) 0 @ thread_exit_code) v
                               in (0, c\<lparr>c_heap_cur := USER_IMAGE_BASE + USER_IMAGE_MAX div 2,
                                        c_heap_end := USER_IMAGE_BASE + USER_IMAGE_MAX, c_heap_page_count := 0\<rparr>, v)))"

section \<open>Taking it down\<close>

text \<open>The loops of \<open>free_user_pages\<close>, innermost first; the count of pages of the task goes down with each one freed.\<close>

definition free_user_pte :: "nat \<Rightarrow> nat \<Rightarrow> task_t \<times> vmm_state \<Rightarrow> task_t \<times> vmm_state" where
  "free_user_pte pt i tv =
     (case tv of (t, v) \<Rightarrow>
        let pte = pt_mem v pt i; pa = pte AND PTE_ADDR_MASK; pg = phys_to_page (unat pa) in
        if \<not> has_flag pte PTE_PRESENT then (t, v)
        else if \<not> has_flag pte PTE_USER then (t, v)
        else
          let v = set_entry pt i 0 v in
          if pa = 0 then (t, v)
          else if pa < 0x100000 \<or> pa \<ge> push_bit 12 (of_nat MAX_PAGES) then (t, v)
          else if pa AND 0xFFF \<noteq> 0 then (t, v)
          else if vmm_is_pt_page_strict_pub pa v then (t, v)
          else if pg \<ge> MAX_PAGES then (t, v)
          else if pg_flags (mem_map (v_pmm v) pg) AND PG_RESERVED \<noteq> 0 then (t, v)
          else if pg_flags (mem_map (v_pmm v) pg) AND PG_SLAB \<noteq> 0 then (t, v)
          else (if mem_pages_used t > 0 then t\<lparr>mem_pages_used := mem_pages_used t - 1\<rparr> else t,
                v\<lparr>v_pmm := pmm_free_pages (Some pg) 0 (v_pmm v)\<rparr>))"

text \<open>Whether a loop of the three upper levels goes into the table behind an entry.\<close>

definition user_table :: "u64 \<Rightarrow> vmm_state \<Rightarrow> bool" where
  "user_table e v \<longleftrightarrow> has_flag e PTE_PRESENT \<and> has_flag e PTE_USER \<and> e AND PTE_ADDR_MASK \<noteq> 0 \<and>
     vmm_is_pt_page_strict_pub (e AND PTE_ADDR_MASK) v"

definition free_user_pde :: "nat \<Rightarrow> nat \<Rightarrow> task_t \<times> vmm_state \<Rightarrow> task_t \<times> vmm_state" where
  "free_user_pde pd i tv =
     (let e = pt_mem (snd tv) pd i in
      if \<not> has_flag e PTE_HUGE \<and> user_table e (snd tv) then fold (free_user_pte (entry_frame e)) [0..<512] tv else tv)"

definition free_user_pdpte :: "nat \<Rightarrow> nat \<Rightarrow> task_t \<times> vmm_state \<Rightarrow> task_t \<times> vmm_state" where
  "free_user_pdpte pdpt i tv =
     (let e = pt_mem (snd tv) pdpt i in
      if \<not> has_flag e PTE_HUGE \<and> user_table e (snd tv) then fold (free_user_pde (entry_frame e)) [0..<512] tv else tv)"

definition free_user_pml4e :: "nat \<Rightarrow> nat \<Rightarrow> task_t \<times> vmm_state \<Rightarrow> task_t \<times> vmm_state" where
  "free_user_pml4e pml4 i tv =
     (let e = pt_mem (snd tv) pml4 i in
      if user_table e (snd tv) then fold (free_user_pdpte (entry_frame e)) [0..<512] tv else tv)"

definition free_user_pages :: "nat option \<Rightarrow> task_t \<times> vmm_state \<Rightarrow> task_t \<times> vmm_state" where
  "free_user_pages pml4 tv = (case pml4 of None \<Rightarrow> tv | Some f \<Rightarrow> fold (free_user_pml4e f) [1..<256] tv)"

definition user_setup :: "task_t option \<Rightarrow> u64 \<Rightarrow> user_mem \<Rightarrow> int \<times> task_t option \<times> user_mem" where
  "user_setup to entry_va m =
     (case to of
        None \<Rightarrow> (-1, to, m)
      | Some t \<Rightarrow>
          (case ctx_alloc t m of
             (ok, t, m) \<Rightarrow>
               if \<not> ok then (-1, Some t, m)
               else case vmm_create_address_space (um_vmm m) of
                   (None, v) \<Rightarrow> (case ctx_free t (m\<lparr>um_vmm := v\<rparr>) of (t, m) \<Rightarrow> (-1, Some t, m))
                 | (Some pml4, v) \<Rightarrow>
                     let m = upd_ctx t (\<lambda>c. c\<lparr>c_entry := entry_va, c_pml4 := Some pml4\<rparr>) m;
                         c = (case user_get_ctx t m of Some c \<Rightarrow> c | None \<Rightarrow> zero_ctx)
                     in case setup_user_memory c v of
                          (rc, c, v) \<Rightarrow>
                            if rc \<noteq> 0 then
                              (case free_user_pages (Some pml4) (t, v) of
                                 (t, v) \<Rightarrow>
                                   (case ctx_free t (m\<lparr>um_vmm :=
                                       vmm_destroy_address_space (Some pml4) (vmm_free_user_pagetables (Some pml4) v)\<rparr>) of
                                      (t, m) \<Rightarrow> (-1, Some t, m)))
                            else
                              let c = c\<lparr>c_owns_pml4 := True, c_is_thread := False, c_thread_stack_base := 0,
                                        c_thread_stack_pages := 0, c_thread_tls_phys := 0\<rparr>;
                                  m = upd_ctx t (\<lambda>_. c) (m\<lparr>um_vmm := v\<rparr>)
                              in (0, Some t, signal_init_task t m)))"

text \<open>
  The thread branch of \<open>user_teardown\<close>: the page-table entry of a page of its own stack is looked for by
  physical address among the stack's addresses, then the page is freed.
\<close>

fun clear_stack_pte :: "nat \<Rightarrow> u64 \<Rightarrow> u64 \<Rightarrow> nat list \<Rightarrow> vmm_state \<Rightarrow> vmm_state" where
  "clear_stack_pte pml4 bottom pa [] v = v"
| "clear_stack_pte pml4 bottom pa (p # ps) v =
     (case vmm_get_pte pml4 (bottom + of_nat p * of_nat PAGE_SIZE) v of
        None \<Rightarrow> clear_stack_pte pml4 bottom pa ps v
      | Some (pt, i) \<Rightarrow>
          if has_flag (pt_mem v pt i) PTE_PRESENT \<and> pt_mem v pt i AND PTE_ADDR_MASK = pa then set_entry pt i 0 v
          else clear_stack_pte pml4 bottom pa ps v)"

definition free_own_page :: "u64 \<Rightarrow> task_t \<times> vmm_state \<Rightarrow> task_t \<times> vmm_state" where
  "free_own_page pa tv =
     (case tv of (t, v) \<Rightarrow>
        let pg = phys_to_page (unat pa) in
        if pg_flags (mem_map (v_pmm v) pg) AND PG_RESERVED = 0 \<and> pg_flags (mem_map (v_pmm v) pg) AND PG_SLAB = 0 then
          (if mem_pages_used t > 0 then t\<lparr>mem_pages_used := mem_pages_used t - 1\<rparr> else t,
           v\<lparr>v_pmm := pmm_free_pages (Some pg) 0 (v_pmm v)\<rparr>)
        else (t, v))"

definition free_thread_stack :: "nat \<Rightarrow> user_ctx \<Rightarrow> task_t \<times> vmm_state \<Rightarrow> task_t \<times> vmm_state" where
  "free_thread_stack pml4 c =
     fold (\<lambda>pa tv. if pa = 0 then tv
                  else free_own_page pa (fst tv, clear_stack_pte pml4 (c_stack_bottom c) pa [0..<USER_STACK_PAGES] (snd tv)))
       (c_thread_stack_owned_phys c)"

definition free_thread_tls :: "nat \<Rightarrow> user_ctx \<Rightarrow> task_t \<times> vmm_state \<Rightarrow> task_t \<times> vmm_state" where
  "free_thread_tls pml4 c tv =
     (if c_thread_tls_phys c = 0 then tv
      else free_own_page (c_thread_tls_phys c)
             (fst tv, case vmm_get_pte pml4 (c_tls_base c) (snd tv) of None \<Rightarrow> snd tv | Some (pt, i) \<Rightarrow> set_entry pt i 0 (snd tv)))"

definition user_teardown :: "task_t option \<Rightarrow> user_mem \<Rightarrow> task_t option \<times> user_mem" where
  "user_teardown to m =
     (case to of
        None \<Rightarrow> (to, m)
      | Some t \<Rightarrow>
          (case user_get_ctx t m of
             None \<Rightarrow> (to, m)
           | Some c \<Rightarrow>
               let v = um_vmm m;
                   kpml4 = vmm_kernel_pml4 v;
                   v = (if kpml4 \<noteq> None \<and> c_pml4 c \<noteq> None \<and> c_pml4 c \<noteq> kpml4 then vmm_switch_address_space kpml4 v else v);
                   (t, v) = (case c_pml4 c of
                       None \<Rightarrow> (t, v)
                     | Some pml4 \<Rightarrow>
                         if c_is_thread c then free_thread_tls pml4 c (free_thread_stack pml4 c (t, v))
                         else case free_user_pages (Some pml4) (t, v) of
                             (t, v) \<Rightarrow> (t, vmm_destroy_address_space (Some pml4) (vmm_free_user_pagetables (Some pml4) v)));
                   m = (if c_is_thread c then m else upd_ctx t (\<lambda>c. c\<lparr>c_pml4 := None\<rparr>) m);
                   m = signal_free_task t (m\<lparr>um_vmm := v\<rparr>);
                   (t, m) = ctx_free t m
               in (Some t, m)))"

section \<open>Fork\<close>

text \<open>A loop that stops at the first failure (\<open>goto rollback\<close>).\<close>

primrec until_fail :: "('a \<Rightarrow> 's \<Rightarrow> bool \<times> 's) \<Rightarrow> 'a list \<Rightarrow> 's \<Rightarrow> bool \<times> 's" where
  "until_fail f [] s = (True, s)"
| "until_fail f (x # xs) s = (case f x s of (ok, s) \<Rightarrow> if ok then until_fail f xs s else (False, s))"

definition copy_page :: "nat \<Rightarrow> nat \<Rightarrow> vmm_state \<Rightarrow> vmm_state" where
  "copy_page src dst v = v\<lparr>pt_mem := (pt_mem v)(dst := (\<lambda>i. if i < 512 then pt_mem v src i else pt_mem v dst i))\<rparr>"

text \<open>A new table, taken from the page allocator directly, put into the entry \<open>i\<close> of \<open>dst\<close>.\<close>

definition fork_table :: "nat \<Rightarrow> nat \<Rightarrow> vmm_state \<Rightarrow> nat option \<times> vmm_state" where
  "fork_table dst i v =
     (case pmm_alloc_pages 0 (v_pmm v) of
        (None, p) \<Rightarrow> (None, v\<lparr>v_pmm := p\<rparr>)
      | (Some pg, p) \<Rightarrow>
          (Some pg, set_entry dst i (frame_pa pg OR PTE_PRESENT OR PTE_WRITABLE OR PTE_USER) (zero_page pg (v\<lparr>v_pmm := p\<rparr>))))"

definition fork_pte :: "nat \<Rightarrow> nat \<Rightarrow> nat \<Rightarrow> vmm_state \<Rightarrow> bool \<times> vmm_state" where
  "fork_pte src dst i v =
     (let pte = pt_mem v src i in
      if \<not> has_flag pte PTE_PRESENT \<or> \<not> has_flag pte PTE_USER \<or> pte AND PTE_ADDR_MASK = 0 then (True, v)
      else case pmm_alloc_pages 0 (v_pmm v) of
          (None, p) \<Rightarrow> (False, v\<lparr>v_pmm := p\<rparr>)
        | (Some np, p) \<Rightarrow>
            (True, set_entry dst i (frame_pa np OR ((pte AND NOT PTE_ADDR_MASK) OR PTE_USER))
                     (copy_page (entry_frame pte) np (v\<lparr>v_pmm := p\<rparr>))))"

text \<open>The entries that the three upper loops follow (here an address of 0 is not looked at apart).\<close>

definition forkable :: "u64 \<Rightarrow> vmm_state \<Rightarrow> bool" where
  "forkable e v \<longleftrightarrow> has_flag e PTE_PRESENT \<and> has_flag e PTE_USER \<and> vmm_is_pt_page_strict_pub (e AND PTE_ADDR_MASK) v"

definition fork_pde :: "nat \<Rightarrow> nat \<Rightarrow> nat \<Rightarrow> vmm_state \<Rightarrow> bool \<times> vmm_state" where
  "fork_pde src dst i v =
     (let e = pt_mem v src i in
      if \<not> forkable e v \<or> has_flag e PTE_HUGE then (True, v)
      else case fork_table dst i v of
          (None, v) \<Rightarrow> (False, v)
        | (Some pt, v) \<Rightarrow> until_fail (fork_pte (entry_frame e) pt) [0..<512] v)"

definition fork_pdpte :: "nat \<Rightarrow> nat \<Rightarrow> nat \<Rightarrow> vmm_state \<Rightarrow> bool \<times> vmm_state" where
  "fork_pdpte src dst i v =
     (let e = pt_mem v src i in
      if \<not> forkable e v \<or> has_flag e PTE_HUGE then (True, v)
      else case fork_table dst i v of
          (None, v) \<Rightarrow> (False, v)
        | (Some pd, v) \<Rightarrow> until_fail (fork_pde (entry_frame e) pd) [0..<512] v)"

definition fork_pml4e :: "nat \<Rightarrow> nat \<Rightarrow> nat \<Rightarrow> vmm_state \<Rightarrow> bool \<times> vmm_state" where
  "fork_pml4e src dst i v =
     (let e = pt_mem v src i in
      if \<not> forkable e v then (True, v)
      else case fork_table dst i v of
          (None, v) \<Rightarrow> (False, v)
        | (Some pdpt, v) \<Rightarrow> until_fail (fork_pdpte (entry_frame e) pdpt) [0..<512] v)"

definition user_fork_address_space :: "task_t option \<Rightarrow> task_t option \<Rightarrow> user_mem \<Rightarrow> int \<times> task_t option \<times> user_mem" where
  "user_fork_address_space parent child m =
     (case (parent, child) of
        (Some p, Some ch) \<Rightarrow>
          (case user_get_ctx p m of
             None \<Rightarrow> (OB_EPERM, child, m)
           | Some pc \<Rightarrow>
               (case c_pml4 pc of
                  None \<Rightarrow> (OB_EPERM, child, m)
                | Some src \<Rightarrow>
                    (case kzalloc_obj (um_heap m) of
                       (None, h) \<Rightarrow> (OB_ENOMEM, child, m\<lparr>um_heap := h\<rparr>)
                     | (Some cc, h) \<Rightarrow>
                         (case vmm_create_address_space (um_vmm m) of
                            (None, v) \<Rightarrow> (OB_ENOMEM, child, m\<lparr>um_heap := h, um_vmm := v\<rparr>)
                          | (Some dst, v) \<Rightarrow>
                              (case until_fail (fork_pml4e src dst) [1..<256] v of
                                 (ok, v) \<Rightarrow>
                                   if ok then
                                     (0, Some (ch\<lparr>user_ctx := Some cc\<rparr>),
                                      m\<lparr>um_heap := h, um_vmm := v,
                                        um_ctx := (um_ctx m)(cc \<mapsto> pc\<lparr>c_pml4 := Some dst, c_owns_pml4 := True\<rparr>)\<rparr>)
                                   else
                                     (OB_ENOMEM, child,
                                      m\<lparr>um_heap := h,
                                        um_vmm := vmm_destroy_address_space (Some dst) (vmm_free_user_pagetables (Some dst) v)\<rparr>))))))
      | _ \<Rightarrow> (OB_EINVAL, child, m))"

end
