(* ===== verification/ForkProps.thy ===== *)
theory ForkProps
  imports UserMem MemDomainNested
begin

text \<open>
  What becomes of the memory of a forked process. The tables that \<open>user_fork_address_space\<close> builds come from
  the page allocator directly and are not marked as page tables, and every later walk follows marked
  tables only.
\<close>

section \<open>What the copy changes\<close>

definition forked :: "nat set \<Rightarrow> vmm_state \<Rightarrow> vmm_state \<Rightarrow> bool" where
  "forked X v v' \<longleftrightarrow> pmm_inv (v_pmm v') \<and> free_frames (v_pmm v') \<subseteq> free_frames (v_pmm v) \<and>
     g_pt_bitmap v' = g_pt_bitmap v \<and> g_pt_owner v' = g_pt_owner v \<and> g_kernel_pml4 v' = g_kernel_pml4 v \<and> cr3 v' = cr3 v \<and>
     (\<forall>g. allocated (v_pmm v) g 0 \<longrightarrow> allocated (v_pmm v') g 0) \<and>
     (\<forall>f. f \<notin> free_frames (v_pmm v) \<longrightarrow> mem_map (v_pmm v') f = mem_map (v_pmm v) f) \<and>
     (\<forall>f. f \<notin> X \<longrightarrow> f \<notin> free_frames (v_pmm v) \<longrightarrow> pt_mem v' f = pt_mem v f)"

lemma forked_refl: "pmm_inv (v_pmm v) \<Longrightarrow> forked X v v"
  by (simp add: forked_def)

lemma forked_trans: "forked X v v' \<Longrightarrow> forked X v' v'' \<Longrightarrow> forked X v v''"
  unfolding forked_def by (intro conjI) (auto simp: subset_iff)

lemma forked_weaken: "forked X v v' \<Longrightarrow> X \<subseteq> Y \<union> free_frames (v_pmm v) \<Longrightarrow> forked Y v v'"
  unfolding forked_def by blast

lemma forkedD:
  assumes "forked X v v'"
  shows "pmm_inv (v_pmm v')" "free_frames (v_pmm v') \<subseteq> free_frames (v_pmm v)" "g_pt_bitmap v' = g_pt_bitmap v"
    "f \<notin> X \<Longrightarrow> f \<notin> free_frames (v_pmm v) \<Longrightarrow> pt_mem v' f = pt_mem v f"
  using assms by (auto simp: forked_def)

lemma until_fail_forked:
  assumes "\<And>x v. pmm_inv (v_pmm v) \<Longrightarrow> forked X v (snd (f x v))" "pmm_inv (v_pmm v)"
  shows "forked X v (snd (until_fail f xs v))"
  using assms(2)
proof (induction xs arbitrary: v)
  case (Cons x xs)
  obtain ok v1 where s: "f x v = (ok, v1)" by fastforce
  have F: "forked X v v1" using assms(1) [OF Cons.prems, of x] by (simp add: s)
  show ?case
  proof (cases ok)
    case True
    then show ?thesis using Cons.IH [OF forkedD(1) [OF F]] forked_trans [OF F] by (simp add: s)
  qed (simp add: s F)
qed (simp add: forked_refl)

text \<open>A frame taken and then written to.\<close>

lemma forked_alloc:
  assumes inv: "pmm_inv (v_pmm v)" and a: "pmm_alloc_pages 0 (v_pmm v) = (Some pg, p)"
  shows "pg \<in> free_frames (v_pmm v)" "pg \<notin> free_frames p" "pg < MAX_PAGES" "free_frames p \<subseteq> free_frames (v_pmm v)" "allocated p pg 0"
    "\<And>m. (\<And>f. f \<noteq> pg \<Longrightarrow> f \<notin> X \<Longrightarrow> m f = pt_mem v f) \<Longrightarrow> forked X v (v\<lparr>v_pmm := p, pt_mem := m\<rparr>)"
proof -
  have o: "(0::int) < int MAX_ORDER" by (simp add: MAX_ORDER_def)
  note A = pmm_alloc_Some [OF inv order_refl o a, simplified]
  have b: "blk pg 0 = {pg}" by (auto simp: blk_def)
  show pg: "pg \<in> free_frames (v_pmm v)" "pg \<notin> free_frames p" "pg < MAX_PAGES" "free_frames p \<subseteq> free_frames (v_pmm v)"
    using A b by auto
  show "allocated p pg 0" using pmm_alloc_allocated [OF inv order_refl o a] by simp
  show "forked X v (v\<lparr>v_pmm := p, pt_mem := m\<rparr>)" if "\<And>f. f \<noteq> pg \<Longrightarrow> f \<notin> X \<Longrightarrow> m f = pt_mem v f" for m
  proof -
    have "f \<noteq> pg" if "f \<notin> free_frames (v_pmm v)" for f using that pg(1) by auto
    moreover have "mem_map p f = mem_map (v_pmm v) f" if "f \<notin> free_frames (v_pmm v)" for f
      using A(7) [of f] that by simp
    ultimately show ?thesis
      unfolding forked_def using A(1) pg(4) that pmm.alloc_keeps [OF inv a] by (intro conjI) auto
  qed
qed

lemma forked_alloc_None:
  assumes "pmm_inv (v_pmm v)" "pmm_alloc_pages 0 (v_pmm v) = (None, p)"
  shows "forked X v (v\<lparr>v_pmm := p\<rparr>)"
proof -
  have o: "(0::int) < int MAX_ORDER" by (simp add: MAX_ORDER_def)
  show ?thesis
    using pmm.alloc_None [OF assms] pmm_alloc_None(2) [OF assms(1) order_refl o, of p] assms(2)
    by (simp add: forked_def oom_marked_def)
qed

lemma fork_pte_forked: "pmm_inv (v_pmm v) \<Longrightarrow> forked {dst} v (snd (fork_pte src dst i v))"
proof (cases "pmm_alloc_pages 0 (v_pmm v)")
  case (Pair r p)
  assume inv: "pmm_inv (v_pmm v)"
  show ?thesis
  proof (cases r)
    case None
    then show ?thesis using forked_alloc_None [OF inv] forked_refl [OF inv] Pair by (simp add: fork_pte_def Let_def)
  next
    case (Some np)
    let ?e = "pt_mem v src i"
    let ?w = "set_entry dst i (frame_pa np OR ((?e AND NOT PTE_ADDR_MASK) OR PTE_USER)) (copy_page (entry_frame ?e) np (v\<lparr>v_pmm := p\<rparr>))"
    have "?w = v\<lparr>v_pmm := p, pt_mem := pt_mem ?w\<rparr>" by (simp add: set_entry_def copy_page_def)
    moreover have "forked {dst} v (v\<lparr>v_pmm := p, pt_mem := pt_mem ?w\<rparr>)"
      by (rule forked_alloc(6) [OF inv]) (use Pair Some in \<open>auto simp: set_entry_def copy_page_def\<close>)
    ultimately have "forked {dst} v ?w" by simp
    then show ?thesis using Pair Some forked_refl [OF inv] by (simp add: fork_pte_def Let_def)
  qed
qed

lemma fork_table_None: "pmm_inv (v_pmm v) \<Longrightarrow> fork_table dst i v = (None, v') \<Longrightarrow> forked {dst} v v'"
  using forked_alloc_None by (auto simp: fork_table_def split: prod.splits option.splits)

lemma fork_table_Some:
  assumes "pmm_inv (v_pmm v)" "fork_table dst i v = (Some pg, v')"
  shows "forked {dst} v v'" "pg \<in> free_frames (v_pmm v)" "pg \<notin> free_frames (v_pmm v')" "pg < MAX_PAGES"
    "dst \<noteq> pg \<Longrightarrow> pt_mem v' dst = (pt_mem v dst)(i := frame_pa pg OR PTE_PRESENT OR PTE_WRITABLE OR PTE_USER)"
proof -
  obtain p where a: "pmm_alloc_pages 0 (v_pmm v) = (Some pg, p)"
    and v': "v' = set_entry dst i (frame_pa pg OR PTE_PRESENT OR PTE_WRITABLE OR PTE_USER) (zero_page pg (v\<lparr>v_pmm := p\<rparr>))"
    using assms(2) by (auto simp: fork_table_def split: prod.splits option.splits)
  have "v' = v\<lparr>v_pmm := p, pt_mem := pt_mem v'\<rparr>" by (simp add: v' set_entry_def zero_page_def)
  moreover have "forked {dst} v (v\<lparr>v_pmm := p, pt_mem := pt_mem v'\<rparr>)"
    by (rule forked_alloc(6) [OF assms(1) a]) (simp add: v' set_entry_def zero_page_def)
  ultimately show "forked {dst} v v'" by simp
  show "pg \<in> free_frames (v_pmm v)" "pg < MAX_PAGES" by (rule forked_alloc [OF assms(1) a])+
  show "pg \<notin> free_frames (v_pmm v')" using forked_alloc(2) [OF assms(1) a] by (simp add: v' set_entry_def zero_page_def)
  show "pt_mem v' dst = (pt_mem v dst)(i := frame_pa pg OR PTE_PRESENT OR PTE_WRITABLE OR PTE_USER)" if "dst \<noteq> pg"
    using that by (simp add: v' set_entry_def zero_page_def)
qed

text \<open>Each level: the table at \<open>dst\<close>, then only frames that were free.\<close>

lemma fork_level_forked:
  assumes "pmm_inv (v_pmm v)" "\<And>t v. pmm_inv (v_pmm v) \<Longrightarrow> forked {t} v (snd (g t v))"
  shows "forked {dst} v (snd (case fork_table dst i v of (None, v) \<Rightarrow> (False, v) | (Some t, v) \<Rightarrow> g t v))"
proof (cases "fork_table dst i v")
  case (Pair r v1)
  show ?thesis
  proof (cases r)
    case None
    then show ?thesis using fork_table_None [OF assms(1)] Pair by simp
  next
    case (Some t)
    note T = fork_table_Some [OF assms(1) Pair [unfolded Some]]
    have "forked {t} v1 (snd (g t v1))" by (rule assms(2) [OF forkedD(1) [OF T(1)]])
    then have "forked (insert dst {t}) v1 (snd (g t v1))" by (rule forked_weaken) auto
    moreover have "forked (insert dst {t}) v v1" by (rule forked_weaken [OF T(1)]) auto
    ultimately have "forked (insert dst {t}) v (snd (g t v1))" using forked_trans by blast
    then have "forked {dst} v (snd (g t v1))" by (rule forked_weaken) (use T(2) in auto)
    then show ?thesis using Pair Some by simp
  qed
qed

lemma fork_pde_forked: "pmm_inv (v_pmm v) \<Longrightarrow> forked {dst} v (snd (fork_pde src dst i v))"
  unfolding fork_pde_def Let_def
  by (auto intro!: forked_refl fork_level_forked until_fail_forked fork_pte_forked)

lemma fork_pdpte_forked: "pmm_inv (v_pmm v) \<Longrightarrow> forked {dst} v (snd (fork_pdpte src dst i v))"
  unfolding fork_pdpte_def Let_def
  by (auto intro!: forked_refl fork_level_forked until_fail_forked fork_pde_forked)

lemma fork_pml4e_forked: "pmm_inv (v_pmm v) \<Longrightarrow> forked {dst} v (snd (fork_pml4e src dst i v))"
  unfolding fork_pml4e_def Let_def
  by (auto intro!: forked_refl fork_level_forked until_fail_forked fork_pdpte_forked)


section \<open>Unmarked tables\<close>

text \<open>An entry that is zero or names a page in use that is not marked as a page table.\<close>

definition plain :: "vmm_state \<Rightarrow> u64 \<Rightarrow> bool" where
  "plain v e \<longleftrightarrow> e = 0 \<or> (entry_frame e < MAX_PAGES \<and> entry_frame e \<notin> free_frames (v_pmm v) \<and> \<not> pt_bit_test (e AND PTE_ADDR_MASK) v)"

definition plain_user :: "vmm_state \<Rightarrow> nat \<Rightarrow> bool" where
  "plain_user v f \<longleftrightarrow> (\<forall>i < 256. plain v (pt_mem v f i))"

lemma plain_strict: "plain v e \<Longrightarrow> \<not> vmm_is_pt_page_strict (e AND PTE_ADDR_MASK) v"
  by (auto simp: plain_def vmm_is_pt_page_strict_def kernel_defs)

lemma plain_skipped: "plain v e \<Longrightarrow> \<not> forkable e v" "plain v e \<Longrightarrow> \<not> user_table e v"
  using plain_strict by (auto simp: forkable_def user_table_def vmm_is_pt_page_strict_pub_def)

lemma plain_forked: "forked X v v' \<Longrightarrow> plain v e \<Longrightarrow> plain v' e"
  using pt_bit_test_cong [of v' v] by (auto simp: plain_def forked_def)

lemma bits_ok_forked: "forked X v v' \<Longrightarrow> bits_ok v \<Longrightarrow> bits_ok v'"
  using pt_bit_test_cong [of v' v] by (auto simp: bits_ok_def forked_def)

lemma plain_new:
  assumes "bits_ok v" "pg \<in> free_frames (v_pmm v)" "pg < MAX_PAGES" "pg \<notin> free_frames (v_pmm v')" "g_pt_bitmap v' = g_pt_bitmap v"
  shows "plain v' (frame_pa pg OR PTE_PRESENT OR PTE_WRITABLE OR PTE_USER)"
proof -
  note E = entry_frame_mk [OF assms(3), of PTE_USER, simplified]
  have "\<not> pt_bit_test (frame_pa pg) v" using assms(1,2,3) allocated_facts by (auto simp: bits_ok_def)
  then show ?thesis using assms(3,4) E(1,5) pt_bit_test_cong [OF assms(5)] by (simp add: plain_def)
qed

lemma fork_pml4e_plain:
  assumes inv: "pmm_inv (v_pmm v)" and bits: "bits_ok v" and d: "dst \<notin> free_frames (v_pmm v)" and p: "plain_user v dst"
  shows "plain_user (snd (fork_pml4e src dst i v)) dst"
proof (cases "forkable (pt_mem v src i) v")
  case False
  then show ?thesis using p by (simp add: fork_pml4e_def Let_def)
next
  case True
  let ?e = "pt_mem v src i"
  obtain r v1 where t: "fork_table dst i v = (r, v1)" by fastforce
  have keep: "plain_user v2 dst" if "forked X v v2" "pt_mem v2 dst = pt_mem v dst" for X v2
    using p that plain_forked [OF that(1)] by (simp add: plain_user_def)
  show ?thesis
  proof (cases r)
    case None
    have F: "forked {} v v1"
      using t None forked_alloc_None [OF inv] by (auto simp: fork_table_def split: prod.splits option.splits)
    have "plain_user v1 dst" by (rule keep [OF F forkedD(4) [OF F _ d]]) simp
    then show ?thesis using True t None by (simp add: fork_pml4e_def Let_def)
  next
    case (Some pg)
    note T = fork_table_Some [OF inv t [unfolded Some]]
    define v2 where "v2 = snd (until_fail (fork_pdpte (entry_frame ?e) pg) [0..<512] v1)"
    have F2: "forked {pg} v1 v2" unfolding v2_def
      by (rule until_fail_forked [OF fork_pdpte_forked forkedD(1) [OF T(1)]])
    have dp: "dst \<noteq> pg" "dst \<notin> free_frames (v_pmm v1)" using d T(2) forkedD(2) [OF T(1)] by auto
    have m2: "pt_mem v2 dst = (pt_mem v dst)(i := frame_pa pg OR PTE_PRESENT OR PTE_WRITABLE OR PTE_USER)"
      using forkedD(4) [OF F2 _ dp(2)] T(5) dp(1) by simp
    have n: "plain v2 (frame_pa pg OR PTE_PRESENT OR PTE_WRITABLE OR PTE_USER)"
      by (rule plain_new [OF bits T(2,4)]) (use T(3) forkedD(2,3) [OF F2] forkedD(3) [OF T(1)] in auto)
    have "plain v2 (pt_mem v dst j)" if "j < 256" for j
      using p that plain_forked [OF F2 plain_forked [OF T(1)]] by (simp add: plain_user_def)
    then have "plain_user v2 dst" using n by (simp add: plain_user_def m2)
    then show ?thesis using True t Some by (simp add: fork_pml4e_def Let_def v2_def)
  qed
qed

lemma fork_loop_plain:
  assumes "pmm_inv (v_pmm v)" "bits_ok v" "dst \<notin> free_frames (v_pmm v)" "plain_user v dst"
  shows "plain_user (snd (until_fail (fork_pml4e src dst) is v)) dst"
  using assms
proof (induction "is" arbitrary: v)
  case (Cons i "is")
  obtain ok v1 where s: "fork_pml4e src dst i v = (ok, v1)" by fastforce
  note F = fork_pml4e_forked [OF Cons.prems(1), of dst src i, unfolded s snd_conv]
  have "plain_user v1 dst" using fork_pml4e_plain [OF Cons.prems, of src i] s by simp
  moreover have "dst \<notin> free_frames (v_pmm v1)" using Cons.prems(3) forkedD(2) [OF F] by auto
  ultimately show ?case
    using Cons.IH [OF forkedD(1) [OF F] bits_ok_forked [OF F Cons.prems(2)]] by (simp add: s)
qed simp

section \<open>Walks over unmarked tables\<close>

lemma free_user_pages_plain: "plain_user v f \<Longrightarrow> free_user_pages (Some f) (t, v) = (t, v)"
proof -
  assume p: "plain_user v f"
  have "fold (free_user_pml4e f) is (t, v) = (t, v)" if "set is \<subseteq> {1..<256}" for "is"
    using that
  proof (induction "is")
    case (Cons i "is")
    then have "free_user_pml4e f i (t, v) = (t, v)"
      using p plain_skipped(2) by (auto simp: free_user_pml4e_def plain_user_def Let_def)
    then show ?case using Cons by simp
  qed simp
  then show ?thesis by (simp add: free_user_pages_def)
qed

lemma fork_plain: "plain_user v f \<Longrightarrow> set is \<subseteq> {1..<256} \<Longrightarrow> until_fail (fork_pml4e f d) is v = (True, v)"
proof (induction "is")
  case (Cons i "is")
  then have "fork_pml4e f d i v = (True, v)" using plain_skipped(1) by (auto simp: fork_pml4e_def plain_user_def Let_def)
  then show ?case using Cons by simp
qed simp

lemma strict_zero: "\<not> vmm_is_pt_page_strict 0 v"
  by (simp add: vmm_is_pt_page_strict_def PMM_PHYS_LOW_LIMIT_def)

lemma free_pml4e_plain:
  assumes "\<not> vmm_is_pt_page_strict (pt_mem v f i AND PTE_ADDR_MASK) v"
  shows "free_pml4e f i v = v \<or> free_pml4e f i v = set_entry f i 0 v"
proof -
  have "vmm_is_pt_page_strict pa (set_entry f i 0 v) = vmm_is_pt_page_strict pa v" for pa
    using pt_bit_test_cong [of "set_entry f i 0 v" v] by (simp add: vmm_is_pt_page_strict_def)
  then show ?thesis using assms by (auto simp: free_pml4e_def Let_def)
qed

lemma free_user_pagetables_plain:
  assumes "\<And>i. i < 256 \<Longrightarrow> \<not> vmm_is_pt_page_strict (pt_mem v f i AND PTE_ADDR_MASK) v"
  shows "\<exists>m. vmm_free_user_pagetables (Some f) v = v\<lparr>pt_mem := m\<rparr>"
proof -
  have "\<exists>m. fold (free_pml4e f) is w = w\<lparr>pt_mem := m\<rparr>"
    if "\<And>i. i < 256 \<Longrightarrow> \<not> vmm_is_pt_page_strict (pt_mem w f i AND PTE_ADDR_MASK) w" "set is \<subseteq> {..<256}" for "is" w
    using that
  proof (induction "is" arbitrary: w)
    case Nil
    show ?case by (rule exI [of _ "pt_mem w"]) simp
  next
    case (Cons i "is")
    let ?w = "free_pml4e f i w"
    have c: "?w = w \<or> ?w = set_entry f i 0 w" using free_pml4e_plain Cons.prems by simp
    have s: "vmm_is_pt_page_strict pa (set_entry f i 0 w) = vmm_is_pt_page_strict pa w" for pa
      using pt_bit_test_cong [of "set_entry f i 0 w" w] by (simp add: vmm_is_pt_page_strict_def)
    have "\<exists>m. fold (free_pml4e f) is ?w = ?w\<lparr>pt_mem := m\<rparr>"
    proof (rule Cons.IH)
      show "\<not> vmm_is_pt_page_strict (pt_mem ?w f j AND PTE_ADDR_MASK) ?w" if "j < 256" for j
        using c Cons.prems(1) [OF that] s strict_zero by (cases "j = i") (auto simp: pt_mem_set_entry)
    qed (use Cons.prems(2) in simp)
    moreover have "\<exists>m. ?w = w\<lparr>pt_mem := m\<rparr>"
      using c by (metis (no_types, lifting) set_entry_def vmm_state.surjective vmm_state.update_convs(1))
    ultimately show ?case by force
  qed
  then have F: "\<exists>m. fold (free_pml4e f) [0..<256] v = v\<lparr>pt_mem := m\<rparr>" using assms by (simp add: lessThan_atLeast0)
  have "\<exists>m. v = v\<lparr>pt_mem := m\<rparr>" by (rule exI [of _ "pt_mem v"]) simp
  then show ?thesis using F by (simp add: vmm_free_user_pagetables_def del: upt_rec_numeral)
qed


section \<open>The address space after a fork\<close>

lemma create_unmarked:
  assumes inv: "pmm_inv (v_pmm v)" and run: "vmm_create_address_space v = (Some f, v')" and bits: "bits_ok v"
  shows "f \<in> free_frames (v_pmm v)" "bits_ok v'" "g_kernel_pml4 v' = g_kernel_pml4 v" "f \<notin> free_frames (v_pmm v')"
    "\<And>e. plain v e \<Longrightarrow> plain v' e"
proof -
  obtain v1 where a: "vmm_alloc_pt_page v = (Some f, v1)"
    using run by (auto simp: vmm_create_address_space_def Let_def split: prod.splits option.splits)
  note A = vmm_alloc_Some [OF inv a]
  have v': "g_pt_bitmap v' = g_pt_bitmap v1" "g_pt_owner v' = g_pt_owner v1" "v_pmm v' = v_pmm v1" "g_kernel_pml4 v' = g_kernel_pml4 v1"
    using run a by (auto simp: vmm_create_address_space_def Let_def set_entry_def zero_page_def)
  have bit: "pt_bit_test (frame_pa g) v' \<longleftrightarrow> g = f \<or> pt_bit_test (frame_pa g) v" if "g < MAX_PAGES" for g
    using A(10) [OF that] pt_bit_test_cong [OF v'(1)] by simp
  have al: "allocated (v_pmm v') f 0" using A(2) by (simp add: pt_page_def v'(3))
  show "f \<in> free_frames (v_pmm v)" by (rule A(7))
  show "g_kernel_pml4 v' = g_kernel_pml4 v" using A(12) v'(4) by simp
  show "f \<notin> free_frames (v_pmm v')" using allocated_facts [OF al] by simp
  show "bits_ok v'" unfolding bits_ok_def
  proof (intro conjI allI impI)
    show "allocated (v_pmm v') g 0" if "g < MAX_PAGES" "pt_bit_test (frame_pa g) v'" for g
      using bit [OF that(1)] that al bits A(8) by (auto simp: bits_ok_def v'(3))
    show "g_pt_owner v' g = 0" for g using A(11) bits by (simp add: bits_ok_def v'(2))
  qed
  show "plain v' e" if "plain v e" for e
    using that bit [of "entry_frame e"] A(7,9) frame_pa_entry_frame [of e] by (auto simp: plain_def v'(3))
qed

lemma fork_create:
  assumes inv: "pmm_inv (v_pmm v)" and bits: "bits_ok v" and cr: "vmm_create_address_space v = (Some dst, v1)"
    and loop: "until_fail (fork_pml4e src dst) [1..<256] v1 = (ok, v2)"
    and slot: "plain v (pt_mem v (vmm_current_pml4 v) 0)"
  shows "pmm_inv (v_pmm v2)" "bits_ok v2" "pt_page v2 dst" "plain_user v2 dst" "g_kernel_pml4 v2 = g_kernel_pml4 v"
proof -
  note C = create_spec [OF inv cr]
  note U = create_unmarked [OF inv cr bits]
  have "plain v1 0" by (simp add: plain_def)
  then have z: "plain_user v1 dst" using C(6) [of _ dst] U(5) [OF slot] by (auto simp: plain_user_def)
  have F: "forked {dst} v1 v2"
    using until_fail_forked [where f = "fork_pml4e src dst", OF fork_pml4e_forked C(1), of "[1..<256]"] unfolding loop snd_conv .
  show "pmm_inv (v_pmm v2)" by (rule forkedD(1) [OF F])
  show "bits_ok v2" by (rule bits_ok_forked [OF F U(2)])
  show "plain_user v2 dst" using fork_loop_plain [OF C(1) U(2,4) z, of src "[1..<256]"] unfolding loop snd_conv .
  show "g_kernel_pml4 v2 = g_kernel_pml4 v" using F U(3) by (simp add: forked_def)
  show "pt_page v2 dst"
    using C(2) F U(4) pt_bit_test_cong [of v2 v1] by (auto simp: pt_page_def forked_def)
qed

definition fork_ready :: "vmm_state \<Rightarrow> bool" where
  "fork_ready v \<longleftrightarrow> pmm_inv (v_pmm v) \<and> bits_ok v \<and> plain v (pt_mem v (vmm_current_pml4 v) 0) \<and>
     (\<exists>k. g_kernel_pml4 v = Some k \<and> k \<notin> free_frames (v_pmm v))"

lemma user_fork_cases:
  assumes "user_fork_address_space (Some p) (Some ch) m = (0, ch', m')" "user_get_ctx p m = Some pc"
  obtains src cc dst v1 where "c_pml4 pc = Some src" "vmm_create_address_space (um_vmm m) = (Some dst, v1)"
    "until_fail (fork_pml4e src dst) [1..<256] v1 = (True, um_vmm m')" "ch' = Some (ch\<lparr>user_ctx := Some cc\<rparr>)"
    "um_ctx m' cc = Some (pc\<lparr>c_pml4 := Some dst, c_owns_pml4 := True\<rparr>)"
  using assms
  by (auto simp: user_fork_address_space_def kernel_defs simp del: upt_rec_numeral
      split: option.splits prod.splits if_splits)

lemma destroy_frees:
  assumes "pmm_inv (v_pmm v)" "pt_page v f" "g_kernel_pml4 v \<noteq> Some f"
  shows "free_frames (v_pmm (vmm_destroy_address_space (Some f) v)) = insert f (free_frames (v_pmm v))"
proof -
  have al: "allocated (v_pmm v) f 0" "pg_flags (mem_map (v_pmm v) f) = 0" and f: "f < MAX_PAGES"
    using assms(2) pt_page_max by (auto simp: pt_page_def)
  have "free_frames (pmm_free_pages (Some f) (int 0) (v_pmm v)) = insert f (free_frames (v_pmm v))"
    using pmm_free_ok(2) [OF assms(1) al(1)] by (auto simp: blk_def)
  moreover have "v_pmm (vmm_destroy_address_space (Some f) v) = pmm_free_pages (Some f) (int 0) (v_pmm v)"
    using assms(3) pt_page_strict [OF assms(2)] al(2) frame_pa_range [OF f] 
    by (auto simp: vmm_destroy_address_space_def vmm_free_pt_page_ex_def Let_def frame_pa_aligned vmm_is_pt_page_strict_def
        split: if_splits)
  ultimately show ?thesis by simp
qed

lemma teardown_plain:
  assumes "user_get_ctx t m = Some c" "c_pml4 c = Some f" "\<not> c_is_thread c" "plain_user (um_vmm m) f" "pt_page (um_vmm m) f"
    "pmm_inv (v_pmm (um_vmm m))" "g_kernel_pml4 (um_vmm m) = Some k" "k \<noteq> f"
  shows "free_frames (v_pmm (um_vmm (snd (user_teardown (Some t) m)))) = insert f (free_frames (v_pmm (um_vmm m)))"
proof -
  let ?v = "(um_vmm m)\<lparr>cr3 := frame_pa k\<rparr>"
  have bit: "pt_bit_test pa ?v = pt_bit_test pa (um_vmm m)" for pa by (rule pt_bit_test_cong) simp
  have pl: "plain_user ?v f" using assms(4) by (simp add: plain_user_def plain_def bit)
  obtain mem where r: "vmm_free_user_pagetables (Some f) ?v = ?v\<lparr>pt_mem := mem\<rparr>"
    using free_user_pagetables_plain [of ?v f] pl plain_strict by (auto simp: plain_user_def)
  have "pt_page (?v\<lparr>pt_mem := mem\<rparr>) f"
    using assms(5) pt_bit_test_cong [of "?v\<lparr>pt_mem := mem\<rparr>" "um_vmm m"] by (simp add: pt_page_def)
  then have "free_frames (v_pmm (vmm_destroy_address_space (Some f) (?v\<lparr>pt_mem := mem\<rparr>))) = insert f (free_frames (v_pmm (um_vmm m)))"
    using destroy_frees [of "?v\<lparr>pt_mem := mem\<rparr>" f] assms(6-8) by simp
  moreover have "um_vmm (snd (user_teardown (Some t) m)) = vmm_destroy_address_space (Some f) (?v\<lparr>pt_mem := mem\<rparr>)"
    using assms(1-3,7,8) free_user_pages_plain [OF pl] r
    by (auto simp: user_teardown_def vmm_kernel_pml4_def vmm_switch_address_space_def upd_ctx_def signal_free_task_def
        ctx_free_def Let_def split: option.splits)
  ultimately show ?thesis by simp
qed

text \<open>
  C22. The memory of a forked process is lost. When \<open>user_fork_address_space\<close> succeeds, the walk that gives the
  child's pages back finds nothing, taking the child down frees one frame, its top-level table, out of all those
  that the fork took, and a process forked from the child gets an empty address space.
\<close>

theorem fork_loses_memory:
  assumes "fork_ready (um_vmm m)" "user_get_ctx p m = Some pc" "\<not> c_is_thread pc"
    "user_fork_address_space (Some p) (Some ch) m = (0, ch', m')"
  shows "\<exists>c dst. ch' = Some c \<and> user_task_pml4 c m' = Some dst \<and> dst \<in> free_frames (v_pmm (um_vmm m)) \<and>
    free_user_pages (Some dst) (c, um_vmm m') = (c, um_vmm m') \<and>
    free_frames (v_pmm (um_vmm (snd (user_teardown (Some c) m')))) = insert dst (free_frames (v_pmm (um_vmm m'))) \<and>
    (\<forall>d d' m''. user_fork_address_space (Some c) (Some d) m' = (0, Some d', m'') \<longrightarrow>
       (\<exists>q. user_task_pml4 d' m'' = Some q \<and> (\<forall>i. 1 \<le> i \<and> i < 256 \<longrightarrow> pt_mem (um_vmm m'') q i = 0)))"
proof -
  let ?v = "um_vmm m" and ?v' = "um_vmm m'"
  from assms(1) obtain k where inv: "pmm_inv (v_pmm ?v)" and bits: "bits_ok ?v" and slot: "plain ?v (pt_mem ?v (vmm_current_pml4 ?v) 0)"
    and k: "g_kernel_pml4 ?v = Some k" "k \<notin> free_frames (v_pmm ?v)" by (auto simp: fork_ready_def)
  obtain src cc dst v1 where r: "c_pml4 pc = Some src" "vmm_create_address_space ?v = (Some dst, v1)"
      "until_fail (fork_pml4e src dst) [1..<256] v1 = (True, ?v')" "ch' = Some (ch\<lparr>user_ctx := Some cc\<rparr>)"
      "um_ctx m' cc = Some (pc\<lparr>c_pml4 := Some dst, c_owns_pml4 := True\<rparr>)"
    by (rule user_fork_cases [OF assms(4,2)])
  let ?c = "ch\<lparr>user_ctx := Some cc\<rparr>" and ?cc = "pc\<lparr>c_pml4 := Some dst, c_owns_pml4 := True\<rparr>"
  note K = fork_create [OF inv bits r(2,3) slot]
  have ctx: "user_get_ctx ?c m' = Some ?cc" using r(5) by (simp add: user_get_ctx_def)
  have dk: "k \<noteq> dst" using create_unmarked(1) [OF inv r(2) bits] k(2) by auto
  have again: "\<exists>q. user_task_pml4 d' m'' = Some q \<and> (\<forall>i. 1 \<le> i \<and> i < 256 \<longrightarrow> pt_mem (um_vmm m'') q i = 0)"
    if f: "user_fork_address_space (Some ?c) (Some d) m' = (0, Some d', m'')" for d d' m''
  proof -
    obtain src2 c2 q v2 where s: "c_pml4 ?cc = Some src2" "vmm_create_address_space ?v' = (Some q, v2)"
        "until_fail (fork_pml4e src2 q) [1..<256] v2 = (True, um_vmm m'')" "Some d' = Some (d\<lparr>user_ctx := Some c2\<rparr>)"
        "um_ctx m'' c2 = Some (?cc\<lparr>c_pml4 := Some q, c_owns_pml4 := True\<rparr>)"
      by (rule user_fork_cases [OF f ctx])
    note C = create_spec [OF K(1) s(2)] and U = create_unmarked [OF K(1) s(2) K(2)]
    have "dst \<noteq> q" using K(3) C(3) by auto
    then have "plain_user v2 dst" using K(4) U(5) C(6) by (auto simp: plain_user_def)
    then have "um_vmm m'' = v2" using fork_plain [of v2 dst "[1..<256]" q] s(1,3) by (simp del: upt_rec_numeral)
    then show ?thesis using s(4,5) C(6) by (simp add: user_task_pml4_def user_get_ctx_def)
  qed
  have td: "free_frames (v_pmm (um_vmm (snd (user_teardown (Some ?c) m')))) = insert dst (free_frames (v_pmm ?v'))"
    by (rule teardown_plain [OF ctx _ _ K(4,3,1) _ dk]) (use K(5) k(1) assms(3) in simp_all)
  show ?thesis
    using r(4) ctx create_unmarked(1) [OF inv r(2) bits] free_user_pages_plain [OF K(4)] td again
    by (intro exI [of _ ?c] exI [of _ dst]) (simp add: user_task_pml4_def)
qed


section \<open>A process with one page\<close>

text \<open>Root 512, tables 513 to 515 behind entry 1, the page in frame 768.\<close>

definition wit_fork :: vmm_state where
  "wit_fork = wit_running\<lparr>cr3 := 0,
     pt_mem := (\<lambda>f i. if f = 512 \<and> i = 1 then 0x201007 else if f = 513 \<and> i = 0 then 0x202007
                       else if f = 514 \<and> i = 2 then 0x203007 else if f = 515 \<and> i = 0 then 0x300007 else 0)\<rparr>"

definition wit_tables :: "nat \<Rightarrow> vmm_state \<Rightarrow> bool" where
  "wit_tables n w \<longleftrightarrow> pmm_inv (v_pmm w) \<and> room w n \<and> (\<forall>f \<in> {512..515}. pt_page w f \<and> (\<forall>i < 512. pt_mem w f i = pt_mem wit_fork f i))"

lemma until_fail_once:
  assumes "a \<in> set xs" "distinct xs" "\<And>x w. x \<in> set xs \<Longrightarrow> x \<noteq> a \<Longrightarrow> S w \<Longrightarrow> f x w = (True, w)"
    "S v" "f a v = (True, v')" "S v'"
  shows "until_fail f xs v = (True, v')"
proof -
  have rest: "until_fail f ys w = (True, w)" if "a \<notin> set ys" "set ys \<subseteq> set xs" "S w" for ys w
    using that
  proof (induction ys)
    case (Cons y ys)
    then have "f y w = (True, w)" by (intro assms(3)) auto
    then show ?case using Cons by simp
  qed simp
  have "until_fail f ys v = (True, v')" if "a \<in> set ys" "distinct ys" "set ys \<subseteq> set xs" for ys
    using that
  proof (induction ys)
    case (Cons y ys)
    show ?case
    proof (cases "y = a")
      case True
      then show ?thesis using Cons.prems assms(5,6) rest by simp
    next
      case False
      then have "f y v = (True, v)" using assms(3,4) Cons.prems by simp
      then show ?thesis using Cons False by simp
    qed
  qed simp
  then show ?thesis using assms(1,2) by blast
qed

lemma wit_tables_forked:
  assumes "wit_tables (Suc n) w" "forked {d} w w'" "d \<notin> {512..515}" "free_frames (v_pmm w') = free_frames (v_pmm w) - {pg}"
  shows "wit_tables n w'"
proof -
  have nf: "f \<notin> free_frames (v_pmm w)" if "pt_page w f" for f using that allocated_facts by (auto simp: pt_page_def)
  have "pt_page w' f \<and> pt_mem w' f = pt_mem w f" if "f \<in> {512..515}" "pt_page w f" for f
    using assms(2,3) that nf [OF that(2)] pt_bit_test_cong [of w' w] by (auto simp: forked_def pt_page_def)
  moreover have "finite (free_frames (v_pmm w))" "pmm_inv (v_pmm w')"
    using assms(1,2) by (auto simp: wit_tables_def forked_def room_def intro: card_ge_0_finite)
  then have "room w' n" using assms(1,4) by (auto simp: wit_tables_def room_def card_Diff_singleton_if)
  ultimately show ?thesis using assms(1) \<open>pmm_inv (v_pmm w')\<close> by (auto simp: wit_tables_def)
qed

lemma wit_table:
  assumes "wit_tables (Suc n) w" "d \<notin> {512..515}"
  shows "\<exists>pg w'. fork_table d i w = (Some pg, w') \<and> wit_tables n w' \<and> pg \<notin> {512..515}"
    "\<exists>w'. fork_pte 515 d 0 w = (True, w') \<and> wit_tables n w'"
proof -
  have inv: "pmm_inv (v_pmm w)" and room: "room w (Suc n)" using assms(1) by (simp_all add: wit_tables_def)
  then have "free_frames (v_pmm w) \<noteq> {}" by (auto simp: room_def)
  then obtain pg p where a: "pmm_alloc_pages 0 (v_pmm w) = (Some pg, p)" "pg \<in> free_frames (v_pmm w)"
    "free_frames p = free_frames (v_pmm w) - {pg}" using pmm_alloc_room [OF inv] by auto
  have "allocated (v_pmm w) pg 0" if "pg \<in> {512..515}" using assms(1) that by (simp add: wit_tables_def pt_page_def)
  then have pg: "pg \<notin> {512..515}" using a(2) allocated_facts by blast
  obtain w1 where t: "fork_table d i w = (Some pg, w1)" "v_pmm w1 = p" by (auto simp: fork_table_def a(1) set_entry_def zero_page_def)
  have "wit_tables n w1"
    by (rule wit_tables_forked [OF assms(1) fork_table_Some(1) [OF inv t(1)] assms(2)]) (simp add: t(2) a(3))
  then show "\<exists>pg w'. fork_table d i w = (Some pg, w') \<and> wit_tables n w' \<and> pg \<notin> {512..515}" using t(1) pg by blast
  have e: "pt_mem w 515 0 = 0x300007" using assms(1) by (simp add: wit_tables_def wit_fork_def)
  obtain w2 where u: "fork_pte 515 d 0 w = (True, w2)" "v_pmm w2 = p"
    by (auto simp: fork_pte_def a(1) e kernel_defs set_entry_def copy_page_def)
  have "wit_tables n w2"
    by (rule wit_tables_forked [OF assms(1) _ assms(2)]) (use fork_pte_forked [OF inv, of d 515 0] u a(3) in simp_all)
  then show "\<exists>w'. fork_pte 515 d 0 w = (True, w') \<and> wit_tables n w'" using u(1) by blast
qed


text \<open>A part of the copy that succeeds with \<open>k\<close> free frames.\<close>

definition wit_copies :: "nat \<Rightarrow> (nat \<Rightarrow> vmm_state \<Rightarrow> bool \<times> vmm_state) \<Rightarrow> bool" where
  "wit_copies k F \<longleftrightarrow> (\<forall>n d w. wit_tables (k + n) w \<and> d \<notin> {512..515} \<longrightarrow> (\<exists>w'. F d w = (True, w') \<and> wit_tables n w'))"

lemma wit_copies_cong:
  "wit_copies k F \<Longrightarrow> (\<And>n d w. wit_tables n w \<Longrightarrow> G d w = F d w) \<Longrightarrow> wit_copies k G"
  unfolding wit_copies_def by metis

lemma wit_copies_loop:
  fixes f :: "nat \<Rightarrow> nat \<Rightarrow> vmm_state \<Rightarrow> bool \<times> vmm_state"
  assumes "wit_copies k (\<lambda>d. f d a)" "a \<in> set xs" "distinct xs"
    "\<And>d x w n. x \<in> set xs \<Longrightarrow> x \<noteq> a \<Longrightarrow> wit_tables n w \<Longrightarrow> f d x w = (True, w)"
  shows "wit_copies k (\<lambda>d. until_fail (f d) xs)"
  unfolding wit_copies_def
proof (intro allI impI, elim conjE)
  fix n d :: nat and w assume w: "wit_tables (k + n) w" "d \<notin> {512..515}"
  then obtain w' where w': "f d a w = (True, w')" "wit_tables n w'" using assms(1) unfolding wit_copies_def by blast
  have "until_fail (f d) xs w = (True, w')"
    by (rule until_fail_once [where S = "\<lambda>w. \<exists>n. wit_tables n w" and f = "f d", OF assms(2,3) _ _ w'(1)]) (use assms(4) w w'(2) in auto)
  then show "\<exists>w'. until_fail (f d) xs w = (True, w') \<and> wit_tables n w'" using w'(2) by blast
qed

lemma wit_copies_table:
  assumes "wit_copies k F"
  shows "wit_copies (Suc k) (\<lambda>d w. case fork_table d i w of (None, v) \<Rightarrow> (False, v) | (Some t, v) \<Rightarrow> F t v)"
  unfolding wit_copies_def
proof (intro allI impI, elim conjE)
  fix n d :: nat and w assume w: "wit_tables (Suc k + n) w" "d \<notin> {512..515}"
  then obtain pg w1 where "fork_table d i w = (Some pg, w1)" "wit_tables (k + n) w1" "pg \<notin> {512..515}"
    using wit_table(1) [of "k + n" w d i] by auto
  then show "\<exists>w'. (case fork_table d i w of (None, v) \<Rightarrow> (False, v) | (Some t, v) \<Rightarrow> F t v) = (True, w') \<and> wit_tables n w'"
    using assms by (auto simp: wit_copies_def)
qed

lemma wit_fork_entry:
  assumes "wit_tables n w"
  shows "i < 512 \<Longrightarrow> pt_mem w 512 i = (if i = 1 then 0x201007 else 0)" "i < 512 \<Longrightarrow> pt_mem w 513 i = (if i = 0 then 0x202007 else 0)"
    "i < 512 \<Longrightarrow> pt_mem w 514 i = (if i = 2 then 0x203007 else 0)" "i < 512 \<Longrightarrow> pt_mem w 515 i = (if i = 0 then 0x300007 else 0)"
    "forkable 0x201007 w" "forkable 0x202007 w" "forkable 0x203007 w" "\<not> forkable 0 w"
proof -
  have p: "pt_page w f" if "f \<in> {512..515}" for f using assms that by (simp add: wit_tables_def)
  have fr: "frame_pa 513 = 0x201000" "frame_pa 514 = 0x202000" "frame_pa 515 = 0x203000" by (simp_all add: frame_pa_def page_to_phys_def PAGE_SIZE_def)
  show "forkable 0x201007 w" "forkable 0x202007 w" "forkable 0x203007 w"
    using pt_page_strict [OF p, of 513] pt_page_strict [OF p, of 514] pt_page_strict [OF p, of 515]
    by (simp_all add: forkable_def vmm_is_pt_page_strict_pub_def fr kernel_defs)
  show "\<not> forkable 0 w" by (simp add: forkable_def)
qed (use assms in \<open>simp_all add: wit_tables_def wit_fork_def\<close>)

lemma wit_fork_copies: "wit_copies 4 (\<lambda>d. until_fail (fork_pml4e 512 d) [1..<256])"
proof -
  have fr: "entry_frame 0x201007 = 513" "entry_frame 0x202007 = 514" "entry_frame 0x203007 = 515"
    by (simp_all add: entry_frame_def kernel_defs)
  have h: "\<not> has_flag 0x201007 PTE_HUGE" "\<not> has_flag 0x202007 PTE_HUGE" "\<not> has_flag 0x203007 PTE_HUGE" by (simp_all add: PTE_HUGE_def)
  have n: "Suc 1 = 2" "Suc 2 = 3" "Suc 3 = 4" by simp_all
  have 1: "wit_copies 1 (\<lambda>d. until_fail (fork_pte 515 d) [0..<512])"
  proof (rule wit_copies_loop [where a = 0])
    show "wit_copies 1 (\<lambda>d. fork_pte 515 d 0)" using wit_table(2) by (simp add: wit_copies_def)
    show "fork_pte 515 d x w = (True, w)" if "x \<in> set [0..<512]" "x \<noteq> 0" "wit_tables n w" for d x w n
      using that wit_fork_entry(4) [OF that(3), of x] by (simp add: fork_pte_def)
  qed simp_all
  have 2: "wit_copies 2 (\<lambda>d. until_fail (fork_pde 514 d) [0..<512])"
  proof (rule wit_copies_loop [where a = 2])
    show "wit_copies 2 (\<lambda>d. fork_pde 514 d 2)"
      by (rule wit_copies_cong [OF wit_copies_table [OF 1, of 2, unfolded n]]) (simp add: fork_pde_def h fr wit_fork_entry del: upt_rec_numeral One_nat_def split: option.split prod.split)
    show "fork_pde 514 d x w = (True, w)" if "x \<in> set [0..<512]" "x \<noteq> 2" "wit_tables n w" for d x w n
      using that wit_fork_entry(3,8) [OF that(3)] by (simp add: fork_pde_def)
  qed simp_all
  have 3: "wit_copies 3 (\<lambda>d. until_fail (fork_pdpte 513 d) [0..<512])"
  proof (rule wit_copies_loop [where a = 0])
    show "wit_copies 3 (\<lambda>d. fork_pdpte 513 d 0)"
      by (rule wit_copies_cong [OF wit_copies_table [OF 2, of 0, unfolded n]]) (simp add: fork_pdpte_def h fr wit_fork_entry del: upt_rec_numeral One_nat_def split: option.split prod.split)
    show "fork_pdpte 513 d x w = (True, w)" if "x \<in> set [0..<512]" "x \<noteq> 0" "wit_tables n w" for d x w n
      using that wit_fork_entry(2,8) [OF that(3)] by (simp add: fork_pdpte_def)
  qed simp_all
  show ?thesis
  proof (rule wit_copies_loop [where a = 1])
    show "wit_copies 4 (\<lambda>d. fork_pml4e 512 d 1)"
      by (rule wit_copies_cong [OF wit_copies_table [OF 3, of 1, unfolded n]]) (simp add: fork_pml4e_def h fr wit_fork_entry del: upt_rec_numeral One_nat_def split: option.split prod.split)
    show "fork_pml4e 512 d x w = (True, w)" if "x \<in> set [1..<256]" "x \<noteq> 1" "wit_tables n w" for d x w n
      using that wit_fork_entry(1,8) [OF that(3)] by (simp add: fork_pml4e_def)
  qed simp_all
qed


definition wit_parent :: user_mem where
  "wit_parent = \<lparr>um_heap = wit_domain_heap, um_ctx = [0 \<mapsto> zero_ctx\<lparr>c_pml4 := Some 512, c_owns_pml4 := True\<rparr>], um_vmm = wit_fork,
     g_sig = (\<lambda>_. \<lparr>sg_actions = (\<lambda>_. \<lparr>sa_handler = 0, sa_mask = 0, sa_flags = 0\<rparr>), sg_pending = 0, sg_blocked = 0,
        sg_in_handler = 0, sg_fault_rip = 0, sg_fault_insn_len = 0, sg_resume = zero_regs, sg_handler_regs = zero_regs, sg_valid = False\<rparr>)\<rparr>"

lemma wit_fork_ready: "fork_ready wit_fork" "room wit_fork 5" "\<And>f. 512 \<le> f \<Longrightarrow> f \<le> 515 \<Longrightarrow> pt_page wit_fork f"
proof -
  have eq: "v_pmm wit_fork = v_pmm wit_vmm" "g_pt_bitmap wit_fork = g_pt_bitmap wit_running" "g_pt_owner wit_fork = g_pt_owner wit_running"
    by (simp_all add: wit_fork_def wit_running_def)
  have pm: "v_pmm wit_running = v_pmm wit_vmm" by (simp add: wit_running_def)
  have bit: "pt_bit_test pa wit_fork = pt_bit_test pa wit_running" for pa by (rule pt_bit_test_cong) (rule eq(2))
  have "pmm_inv (v_pmm wit_fork)" "bits_ok wit_fork" using wit_vmm_inv wit_running_ok(2) by (simp_all add: eq bits_ok_def bit pm)
  moreover have "plain wit_fork (pt_mem wit_fork (vmm_current_pml4 wit_fork) 0)"
    by (simp add: plain_def wit_fork_def vmm_current_pml4_def entry_frame_def)
  moreover have "g_kernel_pml4 wit_fork = Some 0" "0 \<notin> free_frames (v_pmm wit_fork)"
    by (simp_all add: eq wit_vmm_free) (simp add: wit_fork_def wit_running_def wit_vmm_def)
  ultimately show "fork_ready wit_fork" by (simp add: fork_ready_def)
  show "room wit_fork 5" by (simp add: room_def eq wit_vmm_free)
  show "pt_page wit_fork f" if "512 \<le> f" "f \<le> 515" for f
    using wit_running_pages [of f] that by (simp add: pt_page_def eq bit pm)
qed

lemma fork_loses_memory_witness:
  "\<exists>c dst m'. snd (snd (user_fork_address_space (Some (zero_task\<lparr>user_ctx := Some 0\<rparr>)) (Some zero_task) wit_parent)) = m' \<and>
     free_user_pages (Some dst) (c, um_vmm m') = (c, um_vmm m') \<and>
     free_frames (v_pmm (um_vmm (snd (user_teardown (Some c) m')))) = insert dst (free_frames (v_pmm (um_vmm m')))"
proof -
  let ?p = "zero_task\<lparr>user_ctx := Some 0\<rparr>"
  have um: "um_vmm wit_parent = wit_fork" by (simp add: wit_parent_def)
  have r: "fork_ready wit_fork" by (rule wit_fork_ready)
  then have inv: "pmm_inv (v_pmm wit_fork)" and bits: "bits_ok wit_fork" by (simp_all add: fork_ready_def)
  obtain dst v0 where al: "vmm_alloc_pt_page wit_fork = (Some dst, v0)" "room v0 4"
    using vmm_alloc_room [OF inv, of 4] wit_fork_ready(2) by auto
  obtain v1 where cr: "vmm_create_address_space wit_fork = (Some dst, v1)" "v_pmm v1 = v_pmm v0"
    by (simp add: vmm_create_address_space_def al(1) Let_def)
  note C = create_spec [OF inv cr(1)]
  have d: "dst \<notin> {512..515}" using C(3) wit_fork_ready(3) by auto
  have "wit_tables 4 v1"
    using C(1,5,6) al(2) cr(2) d wit_fork_ready(3) by (auto simp: wit_tables_def room_def)
  then obtain v2 where l: "until_fail (fork_pml4e 512 dst) [1..<256] v1 = (True, v2)"
    using wit_fork_copies d unfolding wit_copies_def by (metis add_0_right)
  have kz: "kzalloc_obj wit_domain_heap = (Some 1, wit_domain_heap\<lparr>h_calls := 2\<rparr>)" by (simp add: kzalloc_obj_def wit_domain_heap_def)
  obtain pc where pc: "user_get_ctx ?p wit_parent = Some pc" "\<not> c_is_thread pc" "c_pml4 pc = Some 512"
    by (simp add: user_get_ctx_def wit_parent_def zero_ctx_def)
  have h: "um_heap wit_parent = wit_domain_heap" by (simp add: wit_parent_def)
  obtain ch' m' where f: "user_fork_address_space (Some ?p) (Some zero_task) wit_parent = (0, ch', m')"
    using l by (simp add: user_fork_address_space_def pc um h kz cr(1) del: upt_rec_numeral One_nat_def)
  obtain c dst' where "free_user_pages (Some dst') (c, um_vmm m') = (c, um_vmm m')"
    "free_frames (v_pmm (um_vmm (snd (user_teardown (Some c) m')))) = insert dst' (free_frames (v_pmm (um_vmm m')))"
    using fork_loses_memory [OF _ pc(1,2) f] r um by auto
  then show ?thesis unfolding f by auto
qed

end
