(* ===== verification/Sha.thy ===== *)
theory Sha
  imports Prelude
begin

text \<open>
  The hash functions (\<open>sha256.c\<close>, \<open>sha512.c\<close>, \<open>sha384.c\<close>). The three files have the same shape: a context with the
  chaining words, the number of bits seen and a buffer of one block (one record, polymorphic in the word
  and in the bit counter). The number of bytes in the buffer is kept at its 32 bits: \<open>space\<close> wraps as it does
  in C, and the loop ends from every context.
\<close>

section \<open>The context\<close>

record ('w, 'b) sha_ctx =
  h_state :: "'w list"
  bitlen :: 'b
  buffer :: "u8 list"
  buffer_len :: u32

type_synonym sha256_ctx = "(u32, u64) sha_ctx"
type_synonym sha512_ctx = "(u64, u64 \<times> u64) sha_ctx" \<comment> \<open>low, high\<close>

text \<open>\<open>for (i = 0; i < n; ++i) buf[at + i] = p[i]\<close>\<close>

definition put_bytes :: "nat \<Rightarrow> u8 list \<Rightarrow> u8 list \<Rightarrow> u8 list" where
  "put_bytes at p buf = fold (\<lambda>i b. b[at + i := p ! i]) [0..<length p] buf"

text \<open>\<open>while (buffer_len < n) buffer[buffer_len++] = 0\<close>\<close>

function zero_to :: "u32 \<Rightarrow> ('w, 'b) sha_ctx \<Rightarrow> ('w, 'b) sha_ctx" where
  "zero_to n ctx =
     (if buffer_len ctx < n then
        zero_to n (ctx\<lparr>buffer := (buffer ctx)[unat (buffer_len ctx) := 0], buffer_len := buffer_len ctx + 1\<rparr>)
      else ctx)"
  by pat_completeness auto
termination
proof (relation "measure (\<lambda>(n, ctx). unat n - unat (buffer_len ctx))", goal_cases)
  case (2 n ctx)
  have n: "unat n < 2 ^ 32" using unsigned_less [of n] by simp
  have "unat (buffer_len ctx + 1) = (unat (buffer_len ctx) + 1) mod 2 ^ 32" by (simp add: unat_word_ariths)
  also have "\<dots> = unat (buffer_len ctx) + 1" using 2 n by (intro mod_less) (simp add: word_less_nat_alt)
  finally show ?case using 2 by (simp add: word_less_nat_alt)
qed simp

declare zero_to.simps [simp del]

definition CH :: "'w::len word \<Rightarrow> 'w word \<Rightarrow> 'w word \<Rightarrow> 'w word" where "CH x y z = (x AND y) XOR (NOT x AND z)"
definition MAJ :: "'w::len word \<Rightarrow> 'w word \<Rightarrow> 'w word \<Rightarrow> 'w word" where
  "MAJ x y z = (x AND y) XOR (x AND z) XOR (y AND z)"

text \<open>
  What the loop of the three \<open>update\<close> functions decreases: the bytes left, or a full buffer that is processed
  without a byte copied.
\<close>

definition absorb_measure :: "u32 \<Rightarrow> ('w, 'b) sha_ctx \<Rightarrow> u8 list \<Rightarrow> nat" where
  "absorb_measure B ctx p = 2 * length p + (if buffer_len ctx = B then 1 else 0)"

lemma absorb_measure_less:
  fixes ctx ctx' :: "('w, 'b) sha_ctx"
  assumes "p \<noteq> []" "B \<noteq> 0"
  defines "copy \<equiv> (if length p < unat (B - buffer_len ctx) then of_nat (length p) else B - buffer_len ctx)"
  assumes "buffer_len ctx' = (if buffer_len ctx + copy = B then 0 else buffer_len ctx + copy)"
  shows "absorb_measure B ctx' (drop (unat copy) p) < absorb_measure B ctx p"
proof (cases "buffer_len ctx = B")
  case True
  then show ?thesis using assms(1,2,4) by (simp add: absorb_measure_def copy_def)
next
  case False
  have "copy \<noteq> 0"
  proof (cases "length p < unat (B - buffer_len ctx)")
    case True
    have n: "unat (B - buffer_len ctx) < 2 ^ 32" using unsigned_less [of "B - buffer_len ctx"] by simp
    then have "unat (of_nat (length p) :: u32) = length p"
      using True by (simp add: unat_of_nat)
    then show ?thesis using True assms(1) by (auto simp: copy_def)
  qed (use False in \<open>simp add: copy_def\<close>)
  then have "0 < unat copy" by (simp add: unat_gt_0)
  moreover have "0 < length p" using assms(1) by simp
  moreover have "buffer_len ctx' \<noteq> B" using assms(2,4) by auto
  ultimately show ?thesis using False by (auto simp: absorb_measure_def)
qed

section \<open>\<open>sha256.c\<close>\<close>

definition K256 :: "u32 list" where
  "K256 =
     [0x428a2f98, 0x71374491, 0xb5c0fbcf, 0xe9b5dba5, 0x3956c25b, 0x59f111f1,
      0x923f82a4, 0xab1c5ed5, 0xd807aa98, 0x12835b01, 0x243185be, 0x550c7dc3,
      0x72be5d74, 0x80deb1fe, 0x9bdc06a7, 0xc19bf174, 0xe49b69c1, 0xefbe4786,
      0x0fc19dc6, 0x240ca1cc, 0x2de92c6f, 0x4a7484aa, 0x5cb0a9dc, 0x76f988da,
      0x983e5152, 0xa831c66d, 0xb00327c8, 0xbf597fc7, 0xc6e00bf3, 0xd5a79147,
      0x06ca6351, 0x14292967, 0x27b70a85, 0x2e1b2138, 0x4d2c6dfc, 0x53380d13,
      0x650a7354, 0x766a0abb, 0x81c2c92e, 0x92722c85, 0xa2bfe8a1, 0xa81a664b,
      0xc24b8b70, 0xc76c51a3, 0xd192e819, 0xd6990624, 0xf40e3585, 0x106aa070,
      0x19a4c116, 0x1e376c08, 0x2748774c, 0x34b0bcb5, 0x391c0cb3, 0x4ed8aa4a,
      0x5b9cca4f, 0x682e6ff3, 0x748f82ee, 0x78a5636f, 0x84c87814, 0x8cc70208,
      0x90befffa, 0xa4506ceb, 0xbef9a3f7, 0xc67178f2]"

definition IV256 :: "u32 list" where
  "IV256 =
     [0x6a09e667, 0xbb67ae85, 0x3c6ef372, 0xa54ff53a, 0x510e527f, 0x9b05688c,
      0x1f83d9ab, 0x5be0cd19]"

definition ROTR32 :: "u32 \<Rightarrow> nat \<Rightarrow> u32" where "ROTR32 x n = drop_bit n x OR push_bit (32 - n) x"
definition BSIG0_32 :: "u32 \<Rightarrow> u32" where "BSIG0_32 x = ROTR32 x 2 XOR ROTR32 x 13 XOR ROTR32 x 22"
definition BSIG1_32 :: "u32 \<Rightarrow> u32" where "BSIG1_32 x = ROTR32 x 6 XOR ROTR32 x 11 XOR ROTR32 x 25"
definition SSIG0_32 :: "u32 \<Rightarrow> u32" where "SSIG0_32 x = ROTR32 x 7 XOR ROTR32 x 18 XOR drop_bit 3 x"
definition SSIG1_32 :: "u32 \<Rightarrow> u32" where "SSIG1_32 x = ROTR32 x 17 XOR ROTR32 x 19 XOR drop_bit 10 x"

definition sha256_init :: sha256_ctx where
  "sha256_init = \<lparr>h_state = IV256, bitlen = 0, buffer = replicate 64 0, buffer_len = 0\<rparr>"

definition sha256_load :: "u8 list \<Rightarrow> nat \<Rightarrow> u32" where
  "sha256_load block i =
     push_bit 24 (ucast (block ! (i * 4 + 0))) OR push_bit 16 (ucast (block ! (i * 4 + 1))) OR push_bit 8 (ucast (block ! (i * 4 + 2))) OR ucast (block ! (i * 4 + 3))"

definition sha256_schedule :: "u8 list \<Rightarrow> u32 list" where
  "sha256_schedule block =
     fold (\<lambda>i w. w @ [SSIG1_32 (w ! (i - 2)) + w ! (i - 7) + SSIG0_32 (w ! (i - 15)) + w ! (i - 16)]) [16..<64]
       (map (sha256_load block) [0..<16])"

definition sha256_round :: "u32 list \<Rightarrow> nat \<Rightarrow> u32 \<times> u32 \<times> u32 \<times> u32 \<times> u32 \<times> u32 \<times> u32 \<times> u32 \<Rightarrow> u32 \<times> u32 \<times> u32 \<times> u32 \<times> u32 \<times> u32 \<times> u32 \<times> u32" where
  "sha256_round w i st =
     (case st of (a, b, c, d, e, f, g, h) \<Rightarrow>
        let t1 = h + BSIG1_32 e + CH e f g + K256 ! i + w ! i; t2 = BSIG0_32 a + MAJ a b c
        in (t1 + t2, a, b, c, d + t1, e, f, g))"

definition sha256_process_block :: "u32 list \<Rightarrow> u8 list \<Rightarrow> u32 list" where
  "sha256_process_block st block =
     (case fold (sha256_round (sha256_schedule block)) [0..<64] (st ! 0, st ! 1, st ! 2, st ! 3, st ! 4, st ! 5, st ! 6, st ! 7) of
        (a, b, c, d, e, f, g, h) \<Rightarrow> [st ! 0 + a, st ! 1 + b, st ! 2 + c, st ! 3 + d, st ! 4 + e, st ! 5 + f, st ! 6 + g, st ! 7 + h])"

function sha256_absorb :: "sha256_ctx \<Rightarrow> u8 list \<Rightarrow> sha256_ctx" where
  "sha256_absorb ctx p =
     (if p = [] then ctx
      else
        let space = 64 - buffer_len ctx;
            copy = (if length p < unat space then of_nat (length p) else space);
            ctx = ctx\<lparr>buffer := put_bytes (unat (buffer_len ctx)) (take (unat copy) p) (buffer ctx),
                      buffer_len := buffer_len ctx + copy\<rparr>;
            ctx' = (if buffer_len ctx = 64 then ctx\<lparr>h_state := sha256_process_block (h_state ctx) (buffer ctx), buffer_len := 0\<rparr> else ctx)
        in sha256_absorb ctx' (drop (unat copy) p))"
  by pat_completeness auto
termination
proof (relation "measure (\<lambda>(ctx, p). absorb_measure 64 ctx p)", goal_cases)
  case (2 ctx p space copy c1 c2)
  show ?case unfolding in_measure prod.case 2(3) 2(2)
    by (rule absorb_measure_less) (use 2(1) in \<open>simp_all add: 2(2-)\<close>)
qed simp

declare sha256_absorb.simps [simp del]

definition sha256_update :: "sha256_ctx \<Rightarrow> u8 list \<Rightarrow> sha256_ctx" where
  "sha256_update ctx data = sha256_absorb (ctx\<lparr>bitlen := bitlen ctx + push_bit 3 (of_nat (length data))\<rparr>) data"

definition sha256_pad :: "sha256_ctx \<Rightarrow> sha256_ctx" where
  "sha256_pad ctx =
     (let len = map (\<lambda>i. ucast (drop_bit (56 - i * 8) (bitlen ctx))) [0..<8];
          ctx = ctx\<lparr>buffer := (buffer ctx)[unat (buffer_len ctx) := 0x80], buffer_len := buffer_len ctx + 1\<rparr>;
          ctx = (if buffer_len ctx > 56 then
                   (let c = zero_to 64 ctx in c\<lparr>h_state := sha256_process_block (h_state c) (buffer c), buffer_len := 0\<rparr>)
                 else ctx);
          ctx = zero_to 56 ctx;
          ctx = ctx\<lparr>buffer := put_bytes 56 len (buffer ctx)\<rparr>
      in ctx\<lparr>h_state := sha256_process_block (h_state ctx) (buffer ctx), buffer_len := 0\<rparr>)"

definition sha256_out :: "u32 list \<Rightarrow> u8 list" where
  "sha256_out st = concat (map (\<lambda>i. let x = st ! i in [ucast (drop_bit 24 x), ucast (drop_bit 16 x), ucast (drop_bit 8 x), ucast x]) [0..<8])"

definition sha256_final :: "sha256_ctx \<Rightarrow> u8 list" where
  "sha256_final ctx = sha256_out (h_state (sha256_pad ctx))"

definition sha256 :: "u8 list \<Rightarrow> u8 list" where
  "sha256 data = sha256_final (sha256_update sha256_init data)"

section \<open>\<open>sha512.c\<close>\<close>

definition K512 :: "u64 list" where
  "K512 =
     [0x428a2f98d728ae22, 0x7137449123ef65cd, 0xb5c0fbcfec4d3b2f, 0xe9b5dba58189dbbc,
      0x3956c25bf348b538, 0x59f111f1b605d019, 0x923f82a4af194f9b, 0xab1c5ed5da6d8118,
      0xd807aa98a3030242, 0x12835b0145706fbe, 0x243185be4ee4b28c, 0x550c7dc3d5ffb4e2,
      0x72be5d74f27b896f, 0x80deb1fe3b1696b1, 0x9bdc06a725c71235, 0xc19bf174cf692694,
      0xe49b69c19ef14ad2, 0xefbe4786384f25e3, 0x0fc19dc68b8cd5b5, 0x240ca1cc77ac9c65,
      0x2de92c6f592b0275, 0x4a7484aa6ea6e483, 0x5cb0a9dcbd41fbd4, 0x76f988da831153b5,
      0x983e5152ee66dfab, 0xa831c66d2db43210, 0xb00327c898fb213f, 0xbf597fc7beef0ee4,
      0xc6e00bf33da88fc2, 0xd5a79147930aa725, 0x06ca6351e003826f, 0x142929670a0e6e70,
      0x27b70a8546d22ffc, 0x2e1b21385c26c926, 0x4d2c6dfc5ac42aed, 0x53380d139d95b3df,
      0x650a73548baf63de, 0x766a0abb3c77b2a8, 0x81c2c92e47edaee6, 0x92722c851482353b,
      0xa2bfe8a14cf10364, 0xa81a664bbc423001, 0xc24b8b70d0f89791, 0xc76c51a30654be30,
      0xd192e819d6ef5218, 0xd69906245565a910, 0xf40e35855771202a, 0x106aa07032bbd1b8,
      0x19a4c116b8d2d0c8, 0x1e376c085141ab53, 0x2748774cdf8eeb99, 0x34b0bcb5e19b48a8,
      0x391c0cb3c5c95a63, 0x4ed8aa4ae3418acb, 0x5b9cca4f7763e373, 0x682e6ff3d6b2b8a3,
      0x748f82ee5defb2fc, 0x78a5636f43172f60, 0x84c87814a1f0ab72, 0x8cc702081a6439ec,
      0x90befffa23631e28, 0xa4506cebde82bde9, 0xbef9a3f7b2c67915, 0xc67178f2e372532b,
      0xca273eceea26619c, 0xd186b8c721c0c207, 0xeada7dd6cde0eb1e, 0xf57d4f7fee6ed178,
      0x06f067aa72176fba, 0x0a637dc5a2c898a6, 0x113f9804bef90dae, 0x1b710b35131c471b,
      0x28db77f523047d84, 0x32caab7b40c72493, 0x3c9ebe0a15c9bebc, 0x431d67c49c100d4c,
      0x4cc5d4becb3e42b6, 0x597f299cfc657e2a, 0x5fcb6fab3ad6faec, 0x6c44198c4a475817]"

definition IV512 :: "u64 list" where
  "IV512 =
     [0x6a09e667f3bcc908, 0xbb67ae8584caa73b, 0x3c6ef372fe94f82b, 0xa54ff53a5f1d36f1,
      0x510e527fade682d1, 0x9b05688c2b3e6c1f, 0x1f83d9abfb41bd6b, 0x5be0cd19137e2179]"

definition ROTR64 :: "u64 \<Rightarrow> nat \<Rightarrow> u64" where "ROTR64 x n = drop_bit n x OR push_bit (64 - n) x"
definition BSIG0_64 :: "u64 \<Rightarrow> u64" where "BSIG0_64 x = ROTR64 x 28 XOR ROTR64 x 34 XOR ROTR64 x 39"
definition BSIG1_64 :: "u64 \<Rightarrow> u64" where "BSIG1_64 x = ROTR64 x 14 XOR ROTR64 x 18 XOR ROTR64 x 41"
definition SSIG0_64 :: "u64 \<Rightarrow> u64" where "SSIG0_64 x = ROTR64 x 1 XOR ROTR64 x 8 XOR drop_bit 7 x"
definition SSIG1_64 :: "u64 \<Rightarrow> u64" where "SSIG1_64 x = ROTR64 x 19 XOR ROTR64 x 61 XOR drop_bit 6 x"

definition sha512_init :: sha512_ctx where
  "sha512_init = \<lparr>h_state = IV512, bitlen = (0, 0), buffer = replicate 128 0, buffer_len = 0\<rparr>"

definition sha512_load :: "u8 list \<Rightarrow> nat \<Rightarrow> u64" where
  "sha512_load block i =
     push_bit 56 (ucast (block ! (i * 8 + 0))) OR push_bit 48 (ucast (block ! (i * 8 + 1))) OR push_bit 40 (ucast (block ! (i * 8 + 2))) OR push_bit 32 (ucast (block ! (i * 8 + 3)))
      OR push_bit 24 (ucast (block ! (i * 8 + 4))) OR push_bit 16 (ucast (block ! (i * 8 + 5))) OR push_bit 8 (ucast (block ! (i * 8 + 6))) OR ucast (block ! (i * 8 + 7))"

definition sha512_schedule :: "u8 list \<Rightarrow> u64 list" where
  "sha512_schedule block =
     fold (\<lambda>i w. w @ [SSIG1_64 (w ! (i - 2)) + w ! (i - 7) + SSIG0_64 (w ! (i - 15)) + w ! (i - 16)]) [16..<80]
       (map (sha512_load block) [0..<16])"

definition sha512_round :: "u64 list \<Rightarrow> nat \<Rightarrow> u64 \<times> u64 \<times> u64 \<times> u64 \<times> u64 \<times> u64 \<times> u64 \<times> u64 \<Rightarrow> u64 \<times> u64 \<times> u64 \<times> u64 \<times> u64 \<times> u64 \<times> u64 \<times> u64" where
  "sha512_round w i st =
     (case st of (a, b, c, d, e, f, g, h) \<Rightarrow>
        let t1 = h + BSIG1_64 e + CH e f g + K512 ! i + w ! i; t2 = BSIG0_64 a + MAJ a b c
        in (t1 + t2, a, b, c, d + t1, e, f, g))"

definition sha512_process_block :: "u64 list \<Rightarrow> u8 list \<Rightarrow> u64 list" where
  "sha512_process_block st block =
     (case fold (sha512_round (sha512_schedule block)) [0..<80] (st ! 0, st ! 1, st ! 2, st ! 3, st ! 4, st ! 5, st ! 6, st ! 7) of
        (a, b, c, d, e, f, g, h) \<Rightarrow> [st ! 0 + a, st ! 1 + b, st ! 2 + c, st ! 3 + d, st ! 4 + e, st ! 5 + f, st ! 6 + g, st ! 7 + h])"

function sha512_absorb :: "sha512_ctx \<Rightarrow> u8 list \<Rightarrow> sha512_ctx" where
  "sha512_absorb ctx p =
     (if p = [] then ctx
      else
        let space = 128 - buffer_len ctx;
            copy = (if length p < unat space then of_nat (length p) else space);
            ctx = ctx\<lparr>buffer := put_bytes (unat (buffer_len ctx)) (take (unat copy) p) (buffer ctx),
                      buffer_len := buffer_len ctx + copy\<rparr>;
            ctx' = (if buffer_len ctx = 128 then ctx\<lparr>h_state := sha512_process_block (h_state ctx) (buffer ctx), buffer_len := 0\<rparr> else ctx)
        in sha512_absorb ctx' (drop (unat copy) p))"
  by pat_completeness auto
termination
proof (relation "measure (\<lambda>(ctx, p). absorb_measure 128 ctx p)", goal_cases)
  case (2 ctx p space copy c1 c2)
  show ?case unfolding in_measure prod.case 2(3) 2(2)
    by (rule absorb_measure_less) (use 2(1) in \<open>simp_all add: 2(2-)\<close>)
qed simp

declare sha512_absorb.simps [simp del]

definition sha512_update :: "sha512_ctx \<Rightarrow> u8 list \<Rightarrow> sha512_ctx" where
  "sha512_update ctx data =
     (let len = of_nat (length data) :: u64; old_lo = fst (bitlen ctx);
          lo = old_lo + push_bit 3 len;
          hi = (if lo < old_lo then snd (bitlen ctx) + 1 else snd (bitlen ctx)) + drop_bit 61 len
      in sha512_absorb (ctx\<lparr>bitlen := (lo, hi)\<rparr>) data)"

definition sha512_pad :: "sha512_ctx \<Rightarrow> sha512_ctx" where
  "sha512_pad ctx =
     (let len = map (\<lambda>i. ucast (drop_bit (56 - i * 8) (snd (bitlen ctx)))) [0..<8] @
                 map (\<lambda>i. ucast (drop_bit (56 - i * 8) (fst (bitlen ctx)))) [0..<8];
          ctx = ctx\<lparr>buffer := (buffer ctx)[unat (buffer_len ctx) := 0x80], buffer_len := buffer_len ctx + 1\<rparr>;
          ctx = (if buffer_len ctx > 112 then
                   (let c = zero_to 128 ctx in c\<lparr>h_state := sha512_process_block (h_state c) (buffer c), buffer_len := 0\<rparr>)
                 else ctx);
          ctx = zero_to 112 ctx;
          ctx = ctx\<lparr>buffer := put_bytes 112 len (buffer ctx)\<rparr>
      in ctx\<lparr>h_state := sha512_process_block (h_state ctx) (buffer ctx), buffer_len := 0\<rparr>)"

definition sha512_out :: "u64 list \<Rightarrow> u8 list" where
  "sha512_out st = concat (map (\<lambda>i. let x = st ! i in [ucast (drop_bit 56 x), ucast (drop_bit 48 x), ucast (drop_bit 40 x), ucast (drop_bit 32 x), ucast (drop_bit 24 x), ucast (drop_bit 16 x), ucast (drop_bit 8 x), ucast x]) [0..<8])"

definition sha512_final :: "sha512_ctx \<Rightarrow> u8 list" where
  "sha512_final ctx = sha512_out (h_state (sha512_pad ctx))"

definition sha512 :: "u8 list \<Rightarrow> u8 list" where
  "sha512 data = sha512_final (sha512_update sha512_init data)"

section \<open>\<open>sha384.c\<close>\<close>

definition K384 :: "u64 list" where
  "K384 =
     [0x428a2f98d728ae22, 0x7137449123ef65cd, 0xb5c0fbcfec4d3b2f, 0xe9b5dba58189dbbc,
      0x3956c25bf348b538, 0x59f111f1b605d019, 0x923f82a4af194f9b, 0xab1c5ed5da6d8118,
      0xd807aa98a3030242, 0x12835b0145706fbe, 0x243185be4ee4b28c, 0x550c7dc3d5ffb4e2,
      0x72be5d74f27b896f, 0x80deb1fe3b1696b1, 0x9bdc06a725c71235, 0xc19bf174cf692694,
      0xe49b69c19ef14ad2, 0xefbe4786384f25e3, 0x0fc19dc68b8cd5b5, 0x240ca1cc77ac9c65,
      0x2de92c6f592b0275, 0x4a7484aa6ea6e483, 0x5cb0a9dcbd41fbd4, 0x76f988da831153b5,
      0x983e5152ee66dfab, 0xa831c66d2db43210, 0xb00327c898fb213f, 0xbf597fc7beef0ee4,
      0xc6e00bf33da88fc2, 0xd5a79147930aa725, 0x06ca6351e003826f, 0x142929670a0e6e70,
      0x27b70a8546d22ffc, 0x2e1b21385c26c926, 0x4d2c6dfc5ac42aed, 0x53380d139d95b3df,
      0x650a73548baf63de, 0x766a0abb3c77b2a8, 0x81c2c92e47edaee6, 0x92722c851482353b,
      0xa2bfe8a14cf10364, 0xa81a664bbc423001, 0xc24b8b70d0f89791, 0xc76c51a30654be30,
      0xd192e819d6ef5218, 0xd69906245565a910, 0xf40e35855771202a, 0x106aa07032bbd1b8,
      0x19a4c116b8d2d0c8, 0x1e376c085141ab53, 0x2748774cdf8eeb99, 0x34b0bcb5e19b48a8,
      0x391c0cb3c5c95a63, 0x4ed8aa4ae3418acb, 0x5b9cca4f7763e373, 0x682e6ff3d6b2b8a3,
      0x748f82ee5defb2fc, 0x78a5636f43172f60, 0x84c87814a1f0ab72, 0x8cc702081a6439ec,
      0x90befffa23631e28, 0xa4506cebde82bde9, 0xbef9a3f7b2c67915, 0xc67178f2e372532b,
      0xca273eceea26619c, 0xd186b8c721c0c207, 0xeada7dd6cde0eb1e, 0xf57d4f7fee6ed178,
      0x06f067aa72176fba, 0x0a637dc5a2c898a6, 0x113f9804bef90dae, 0x1b710b35131c471b,
      0x28db77f523047d84, 0x32caab7b40c72493, 0x3c9ebe0a15c9bebc, 0x431d67c49c100d4c,
      0x4cc5d4becb3e42b6, 0x597f299cfc657e2a, 0x5fcb6fab3ad6faec, 0x6c44198c4a475817]"

definition H384 :: "u64 list" where
  "H384 =
     [0xcbbb9d5dc1059ed8, 0x629a292a367cd507, 0x9159015a3070dd17, 0x152fecd8f70e5939,
      0x67332667ffc00b31, 0x8eb44a8768581511, 0xdb0c2e0d64f98fa7, 0x47b5481dbefa4fa4]"

definition sha384_init :: sha512_ctx where
  "sha384_init = \<lparr>h_state = H384, bitlen = (0, 0), buffer = replicate 128 0, buffer_len = 0\<rparr>"

definition sha384_load :: "u8 list \<Rightarrow> nat \<Rightarrow> u64" where
  "sha384_load block i =
     push_bit 56 (ucast (block ! (i * 8 + 0))) OR push_bit 48 (ucast (block ! (i * 8 + 1))) OR push_bit 40 (ucast (block ! (i * 8 + 2))) OR push_bit 32 (ucast (block ! (i * 8 + 3)))
      OR push_bit 24 (ucast (block ! (i * 8 + 4))) OR push_bit 16 (ucast (block ! (i * 8 + 5))) OR push_bit 8 (ucast (block ! (i * 8 + 6))) OR ucast (block ! (i * 8 + 7))"

definition sha384_schedule :: "u8 list \<Rightarrow> u64 list" where
  "sha384_schedule block =
     fold (\<lambda>i w. w @ [SSIG1_64 (w ! (i - 2)) + w ! (i - 7) + SSIG0_64 (w ! (i - 15)) + w ! (i - 16)]) [16..<80]
       (map (sha384_load block) [0..<16])"

definition sha384_round :: "u64 list \<Rightarrow> nat \<Rightarrow> u64 \<times> u64 \<times> u64 \<times> u64 \<times> u64 \<times> u64 \<times> u64 \<times> u64 \<Rightarrow> u64 \<times> u64 \<times> u64 \<times> u64 \<times> u64 \<times> u64 \<times> u64 \<times> u64" where
  "sha384_round w i st =
     (case st of (a, b, c, d, e, f, g, h) \<Rightarrow>
        let t1 = h + BSIG1_64 e + CH e f g + K384 ! i + w ! i; t2 = BSIG0_64 a + MAJ a b c
        in (t1 + t2, a, b, c, d + t1, e, f, g))"

definition sha384_process_block :: "u64 list \<Rightarrow> u8 list \<Rightarrow> u64 list" where
  "sha384_process_block st block =
     (case fold (sha384_round (sha384_schedule block)) [0..<80] (st ! 0, st ! 1, st ! 2, st ! 3, st ! 4, st ! 5, st ! 6, st ! 7) of
        (a, b, c, d, e, f, g, h) \<Rightarrow> [st ! 0 + a, st ! 1 + b, st ! 2 + c, st ! 3 + d, st ! 4 + e, st ! 5 + f, st ! 6 + g, st ! 7 + h])"

function sha384_absorb :: "sha512_ctx \<Rightarrow> u8 list \<Rightarrow> sha512_ctx" where
  "sha384_absorb ctx p =
     (if p = [] then ctx
      else
        let space = 128 - buffer_len ctx;
            copy = (if length p < unat space then of_nat (length p) else space);
            ctx = ctx\<lparr>buffer := put_bytes (unat (buffer_len ctx)) (take (unat copy) p) (buffer ctx),
                      buffer_len := buffer_len ctx + copy\<rparr>;
            ctx' = (if buffer_len ctx = 128 then ctx\<lparr>h_state := sha384_process_block (h_state ctx) (buffer ctx), buffer_len := 0\<rparr> else ctx)
        in sha384_absorb ctx' (drop (unat copy) p))"
  by pat_completeness auto
termination
proof (relation "measure (\<lambda>(ctx, p). absorb_measure 128 ctx p)", goal_cases)
  case (2 ctx p space copy c1 c2)
  show ?case unfolding in_measure prod.case 2(3) 2(2)
    by (rule absorb_measure_less) (use 2(1) in \<open>simp_all add: 2(2-)\<close>)
qed simp

declare sha384_absorb.simps [simp del]

definition sha384_update :: "sha512_ctx \<Rightarrow> u8 list \<Rightarrow> sha512_ctx" where
  "sha384_update ctx data =
     (let len = of_nat (length data) :: u64; old_lo = fst (bitlen ctx);
          lo = old_lo + push_bit 3 len;
          hi = (if lo < old_lo then snd (bitlen ctx) + 1 else snd (bitlen ctx)) + drop_bit 61 len
      in sha384_absorb (ctx\<lparr>bitlen := (lo, hi)\<rparr>) data)"

definition sha384_pad :: "sha512_ctx \<Rightarrow> sha512_ctx" where
  "sha384_pad ctx =
     (let len = map (\<lambda>i. ucast (drop_bit (56 - i * 8) (snd (bitlen ctx)))) [0..<8] @
                 map (\<lambda>i. ucast (drop_bit (56 - i * 8) (fst (bitlen ctx)))) [0..<8];
          ctx = ctx\<lparr>buffer := (buffer ctx)[unat (buffer_len ctx) := 0x80], buffer_len := buffer_len ctx + 1\<rparr>;
          ctx = (if buffer_len ctx > 112 then
                   (let c = zero_to 128 ctx in c\<lparr>h_state := sha384_process_block (h_state c) (buffer c), buffer_len := 0\<rparr>)
                 else ctx);
          ctx = zero_to 112 ctx;
          ctx = ctx\<lparr>buffer := put_bytes 112 len (buffer ctx)\<rparr>
      in ctx\<lparr>h_state := sha384_process_block (h_state ctx) (buffer ctx), buffer_len := 0\<rparr>)"

definition sha384_out :: "u64 list \<Rightarrow> u8 list" where
  "sha384_out st = concat (map (\<lambda>i. let x = st ! i in [ucast (drop_bit 56 x), ucast (drop_bit 48 x), ucast (drop_bit 40 x), ucast (drop_bit 32 x), ucast (drop_bit 24 x), ucast (drop_bit 16 x), ucast (drop_bit 8 x), ucast x]) [0..<6])"

definition sha384_final :: "sha512_ctx \<Rightarrow> u8 list" where
  "sha384_final ctx = sha384_out (h_state (sha384_pad ctx))"

definition sha384 :: "u8 list \<Rightarrow> u8 list" where
  "sha384 data = sha384_final (sha384_update sha384_init data)"

end
