(* ===== verification/ShaProps.thy ===== *)
theory ShaProps
  imports Sha
begin

text \<open>
  The hash functions against the standard. The specification pads the whole message and folds the block function over
  its blocks; the locale \<open>stream_hash\<close> holds what the three implementations have in common, and the proof
  that the buffering contexts compute the specification is made once, inside it.
\<close>

section \<open>Specification\<close>

text \<open>The blocks of a message folded into the state, with the bytes that are left.\<close>

function hash_blocks :: "nat \<Rightarrow> ('s \<Rightarrow> u8 list \<Rightarrow> 's) \<Rightarrow> 's \<Rightarrow> u8 list \<Rightarrow> 's \<times> u8 list" where
  "hash_blocks B f st m = (if B = 0 \<or> length m < B then (st, m) else hash_blocks B f (f st (take B m)) (drop B m))"
  by pat_completeness auto
termination by (relation "measure (\<lambda>(B, f, st, m). length m)") auto

declare hash_blocks.simps [simp del]

definition be_bytes :: "nat \<Rightarrow> nat \<Rightarrow> u8 list" where
  "be_bytes n x = map (\<lambda>i. of_nat (x div 256 ^ (n - 1 - i))) [0..<n]"

text \<open>FIPS 180-4, 5.1: a one bit, zeros, the length in bits as \<open>L\<close> bytes, up to a multiple of the block.\<close>

definition sha_padded :: "nat \<Rightarrow> nat \<Rightarrow> u8 list \<Rightarrow> u8 list" where
  "sha_padded B L m = m @ [0x80] @ replicate ((B - (length m + 1 + L) mod B) mod B) 0 @ be_bytes L (8 * length m)"

definition sha_spec :: "nat \<Rightarrow> nat \<Rightarrow> ('w list \<Rightarrow> u8 list \<Rightarrow> 'w list) \<Rightarrow> 'w list \<Rightarrow> u8 list \<Rightarrow> 'w list" where
  "sha_spec B L f iv m = fst (hash_blocks B f iv (sha_padded B L m))"

lemma hash_blocks_short [simp]: "length m < B \<Longrightarrow> hash_blocks B f st m = (st, m)"
  by (simp add: hash_blocks.simps)

lemma hash_blocks_block: "length b = B \<Longrightarrow> 0 < B \<Longrightarrow> hash_blocks B f st (b @ m) = hash_blocks B f (f st b) m"
  by (subst hash_blocks.simps) simp

lemma hash_blocks_append:
  "hash_blocks B f st (m @ p) = (case hash_blocks B f st m of (st', r) \<Rightarrow> hash_blocks B f st' (r @ p))"
proof (induction B f st m rule: hash_blocks.induct)
  case (1 B f st m)
  show ?case
  proof (cases "B = 0 \<or> length m < B")
    case False
    then have "hash_blocks B f st (m @ p) = hash_blocks B f (f st (take B m)) (drop B m @ p)"
      using hash_blocks_block [of "take B m" B f st "drop B m @ p"] by (simp flip: append_assoc)
    then show ?thesis using 1 [OF False] False by (subst (2) hash_blocks.simps) simp
  qed (auto simp: hash_blocks.simps [of B f st m])
qed

lemma hash_blocks_left: "0 < B \<Longrightarrow> length (snd (hash_blocks B f st m)) = length m mod B"
proof (induction B f st m rule: hash_blocks.induct)
  case (1 B f st m)
  then show ?case by (subst hash_blocks.simps) (simp add: le_mod_geq not_less)
qed

section \<open>Buffers\<close>

lemma length_put_bytes [simp]: "length (put_bytes a p buf) = length buf"
proof -
  have "length (fold (\<lambda>i b. b[a + i := p ! i]) xs buf) = length buf" for xs
    by (induction xs arbitrary: buf) simp_all
  then show ?thesis by (simp add: put_bytes_def)
qed

lemma put_bytes_eq: "a + length p \<le> length buf \<Longrightarrow> put_bytes a p buf = take a buf @ p @ drop (a + length p) buf"
proof -
  assume le: "a + length p \<le> length buf"
  have "fold (\<lambda>i b. b[a + i := p ! i]) [0..<k] buf = take a buf @ take k p @ drop (a + k) buf" if "k \<le> length p" for k
    using that
  proof (induction k)
    case (Suc k)
    then have "drop (a + k) buf = buf ! (a + k) # drop (a + Suc k) buf" using le by (simp add: Cons_nth_drop_Suc)
    then show ?case using Suc le by (simp add: list_update_append take_Suc_conv_app_nth)
  qed simp
  then show ?thesis by (simp add: put_bytes_def)
qed

lemma zero_to_eq:
  assumes "buffer_len ctx \<le> n" "unat n \<le> length (buffer ctx)"
  shows "zero_to n ctx = ctx\<lparr>buffer := take (unat (buffer_len ctx)) (buffer ctx) @ replicate (unat n - unat (buffer_len ctx)) 0 @
           drop (unat n) (buffer ctx), buffer_len := n\<rparr>"
  using assms
proof (induction n ctx rule: zero_to.induct)
  case (1 n ctx)
  show ?case
  proof (cases "buffer_len ctx < n")
    case True
    let ?l = "unat (buffer_len ctx)"
    have l: "?l < unat n" using True by (simp add: word_less_nat_alt)
    have u: "unat (buffer_len ctx + 1) = Suc ?l"
    proof -
      have "unat n < 2 ^ 32" using unsigned_less [of n] by simp
      then have "(?l + 1) mod 2 ^ 32 = ?l + 1" using l by (intro mod_less) simp
      then show ?thesis by (simp add: unat_word_ariths)
    qed
    let ?c = "ctx\<lparr>buffer := (buffer ctx)[?l := 0], buffer_len := buffer_len ctx + 1\<rparr>"
    have "zero_to n ?c = ?c\<lparr>buffer := take (unat (buffer_len ?c)) (buffer ?c) @ replicate (unat n - unat (buffer_len ?c)) 0 @
           drop (unat n) (buffer ?c), buffer_len := n\<rparr>"
      by (rule 1(1) [OF True]) (use l u 1(3) in \<open>simp_all add: word_le_nat_alt\<close>)
    moreover have "take (Suc ?l) ((buffer ctx)[?l := 0]) = take ?l (buffer ctx) @ [0]"
      using l 1(3) by (simp add: take_Suc_conv_app_nth)
    moreover have "replicate (unat n - ?l) (0 :: u8) = 0 # replicate (unat n - Suc ?l) 0"
      using l by (metis Suc_diff_Suc replicate_Suc)
    ultimately show ?thesis using True l u by (simp add: zero_to.simps [of n ctx])
  next
    case False
    then have "buffer_len ctx = n" using 1(2) by simp
    then show ?thesis by (simp add: zero_to.simps [of n ctx])
  qed
qed

section \<open>What the three contexts have in common\<close>

locale stream_hash =
  fixes B L :: nat and process :: "'w list \<Rightarrow> u8 list \<Rightarrow> 'w list"
    and absorb :: "('w, 'b) sha_ctx \<Rightarrow> u8 list \<Rightarrow> ('w, 'b) sha_ctx"
    and pad :: "('w, 'b) sha_ctx \<Rightarrow> ('w, 'b) sha_ctx" and field :: "'b \<Rightarrow> u8 list"
  assumes block: "0 < L" "L < B" "B \<le> 1024"
    and field_length: "length (field b) = L"
    and absorb_step: "p \<noteq> [] \<Longrightarrow> absorb ctx p =
       (let copy = (if length p < unat (of_nat B - buffer_len ctx) then of_nat (length p) else of_nat B - buffer_len ctx);
            ctx = ctx\<lparr>buffer := put_bytes (unat (buffer_len ctx)) (take (unat copy) p) (buffer ctx), buffer_len := buffer_len ctx + copy\<rparr>
        in absorb (if buffer_len ctx = of_nat B then ctx\<lparr>h_state := process (h_state ctx) (buffer ctx), buffer_len := 0\<rparr> else ctx)
             (drop (unat copy) p))"
    and absorb_done: "absorb ctx [] = ctx"
    and pad_step: "pad ctx =
       (let len = field (bitlen ctx);
            ctx = ctx\<lparr>buffer := (buffer ctx)[unat (buffer_len ctx) := 0x80], buffer_len := buffer_len ctx + 1\<rparr>;
            ctx = (if buffer_len ctx > of_nat (B - L) then
                     (let c = zero_to (of_nat B) ctx in c\<lparr>h_state := process (h_state c) (buffer c), buffer_len := 0\<rparr>)
                   else ctx);
            ctx = zero_to (of_nat (B - L)) ctx;
            ctx = ctx\<lparr>buffer := put_bytes (B - L) len (buffer ctx)\<rparr>
        in ctx\<lparr>h_state := process (h_state ctx) (buffer ctx), buffer_len := 0\<rparr>)"
begin

definition ok :: "('w, 'b) sha_ctx \<Rightarrow> bool" where
  "ok ctx \<longleftrightarrow> length (buffer ctx) = B \<and> unat (buffer_len ctx) < B"

definition pending :: "('w, 'b) sha_ctx \<Rightarrow> u8 list" where
  "pending ctx = take (unat (buffer_len ctx)) (buffer ctx)"

lemma unat_B: "x \<le> B \<Longrightarrow> unat (of_nat x :: u32) = x"
  using block by (intro of_nat_inverse [OF refl]) simp

lemma absorb_ok:
  "ok ctx \<Longrightarrow> ok (absorb ctx p) \<and> bitlen (absorb ctx p) = bitlen ctx \<and>
     (h_state (absorb ctx p), pending (absorb ctx p)) = hash_blocks B process (h_state ctx) (pending ctx @ p)"
proof (induction p arbitrary: ctx rule: length_induct)
  case (1 p)
  let ?l = "unat (buffer_len ctx)"
  have l: "?l < B" "length (buffer ctx) = B" using 1(2) by (simp_all add: ok_def)
  have len: "length (pending ctx) = ?l" using l by (simp add: pending_def)
  show ?case
  proof (cases "p = []")
    case True
    then show ?thesis using 1(2) len l by (simp add: absorb_done)
  next
    case False
    define copy where "copy = (if length p < unat (of_nat B - buffer_len ctx) then of_nat (length p) else of_nat B - buffer_len ctx)"
    define k where "k = min (length p) (B - ?l)"
    have space: "unat (of_nat B - buffer_len ctx) = B - ?l"
      using l unat_B [of B] by (simp add: unat_sub_if' word_le_nat_alt)
    have k: "unat copy = k" "0 < k" "k \<le> length p" "?l + k \<le> B"
      using space l False unat_B [of "length p"] by (auto simp: copy_def k_def min_def)
    have bl: "unat (buffer_len ctx + copy) = ?l + k"
    proof -
      have "(?l + k) mod 2 ^ 32 = ?l + k" using k(4) block by (intro mod_less) simp
      then show ?thesis using k(1) by (simp add: unat_word_ariths)
    qed
    have full: "buffer_len ctx + copy = of_nat B \<longleftrightarrow> ?l + k = B" using bl unat_B [of B] by (simp add: word_unat_eq_iff)
    define buf where "buf = put_bytes ?l (take k p) (buffer ctx)"
    have buf: "buf = pending ctx @ take k p @ drop (?l + k) (buffer ctx)" "length buf = B"
      using put_bytes_eq [of ?l "take k p" "buffer ctx"] l k by (simp_all add: buf_def pending_def)
    let ?c = "ctx\<lparr>buffer := buf, buffer_len := buffer_len ctx + copy\<rparr>"
    have step: "absorb ctx p = absorb (if ?l + k = B then ?c\<lparr>h_state := process (h_state ctx) buf, buffer_len := 0\<rparr> else ?c) (drop k p)"
      unfolding absorb_step [OF False] by (simp add: copy_def [symmetric] k(1) buf_def full)
    have shorter: "length (drop k p) < length p" using k False by simp
    show ?thesis
    proof (cases "?l + k = B")
      case True
      let ?c' = "?c\<lparr>h_state := process (h_state ctx) buf, buffer_len := 0\<rparr>"
      have "ok ?c'" using buf block by (simp add: ok_def)
      note IH = 1(1) [rule_format, OF shorter this]
      have "hash_blocks B process (h_state ctx) (pending ctx @ p) = hash_blocks B process (process (h_state ctx) buf) (drop k p)"
      proof -
        have "length (pending ctx @ take k p) = B" using len k True by simp
        moreover have "buf = pending ctx @ take k p" using buf True l by simp
        ultimately show ?thesis
          using hash_blocks_block [of "pending ctx @ take k p" B process "h_state ctx" "drop k p"] block by simp
      qed
      then show ?thesis using IH True by (simp add: step pending_def)
    next
      case False
      then have "k = length p" using k by (auto simp: k_def min_def split: if_splits)
      then show ?thesis using False k l buf bl len by (simp add: step absorb_done ok_def pending_def)
    qed
  qed
qed

text \<open>What \<open>final\<close> appends.\<close>

definition padding :: "nat \<Rightarrow> u8 list \<Rightarrow> u8 list" where
  "padding n len = [0x80] @ replicate ((B - (n + 1 + L) mod B) mod B) 0 @ len"

lemma padding_zeros: "n < B \<Longrightarrow> (B - (n + 1 + L) mod B) mod B = (if n + 1 \<le> B - L then B - L - (n + 1) else B - (n + 1) + (B - L))"
proof (cases "n + 1 \<le> B - L")
  case True
  then show ?thesis using block by (cases "n + 1 + L = B") auto
next
  case False
  assume "n < B"
  then have "(n + 1 + L) mod B = n + 1 + L - B" using False block by (simp add: mod_if)
  then show ?thesis using False block \<open>n < B\<close> by simp
qed

lemma pad_ok:
  assumes "ok ctx"
  shows "(h_state (pad ctx), []) =
    hash_blocks B process (h_state ctx) (pending ctx @ padding (length (pending ctx)) (field (bitlen ctx)))"
proof -
  let ?l = "unat (buffer_len ctx)"
  have l: "?l < B" "length (buffer ctx) = B" using assms by (simp_all add: ok_def)
  have len: "length (pending ctx) = ?l" using l by (simp add: pending_def)
  have B: "unat (of_nat B :: u32) = B" "unat (of_nat (B - L) :: u32) = B - L" by (rule unat_B; simp)+
  have bl: "unat (buffer_len ctx + 1) = Suc ?l"
  proof -
    have "(?l + 1) mod 2 ^ 32 = ?l + 1" using l block by (intro mod_less) simp
    then show ?thesis by (simp add: unat_word_ariths)
  qed
  define f where "f = field (bitlen ctx)"
  define c1 where "c1 = ctx\<lparr>buffer := (buffer ctx)[?l := 0x80], buffer_len := buffer_len ctx + 1\<rparr>"
  have b1: "take (Suc ?l) (buffer c1) = pending ctx @ [0x80]" "length (buffer c1) = B" "unat (buffer_len c1) = Suc ?l"
    using l bl by (simp_all add: c1_def pending_def take_Suc_conv_app_nth)
  define c2 where "c2 = (if buffer_len c1 > of_nat (B - L) then
      (let c = zero_to (of_nat B) c1 in c\<lparr>h_state := process (h_state c) (buffer c), buffer_len := 0\<rparr>) else c1)"
  define c3 where "c3 = zero_to (of_nat (B - L)) c2"
  have pad: "pad ctx = (let c = c3\<lparr>buffer := put_bytes (B - L) f (buffer c3)\<rparr> in c\<lparr>h_state := process (h_state c) (buffer c), buffer_len := 0\<rparr>)"
    unfolding pad_step Let_def c3_def c2_def c1_def f_def ..
  have fl: "length f = L" by (simp add: f_def field_length)
  define x where "x = (if Suc ?l \<le> B - L then pending ctx @ [0x80] else [])"
  define st where "st = (if Suc ?l \<le> B - L then h_state ctx else process (h_state ctx) (pending ctx @ [0x80] @ replicate (B - Suc ?l) 0))"
  have big: "buffer_len c1 > of_nat (B - L) \<longleftrightarrow> \<not> Suc ?l \<le> B - L" using b1(3) B(2) by (auto simp: word_less_nat_alt)
  have c2: "take (unat (buffer_len c2)) (buffer c2) = x" "unat (buffer_len c2) = length x" "length (buffer c2) = B" "h_state c2 = st" "length x \<le> B - L"
  proof -
    have "zero_to (of_nat B) c1 = c1\<lparr>buffer := pending ctx @ [0x80] @ replicate (B - Suc ?l) 0, buffer_len := of_nat B\<rparr>"
      using zero_to_eq [of c1 "of_nat B"] b1 B l by (simp add: word_le_nat_alt)
    then show "take (unat (buffer_len c2)) (buffer c2) = x" "unat (buffer_len c2) = length x" "length (buffer c2) = B" "h_state c2 = st" "length x \<le> B - L"
      using big b1 len l by (auto simp: c2_def x_def st_def c1_def Let_def)
  qed
  have c3: "c3 = c2\<lparr>buffer := x @ replicate (B - L - length x) 0 @ drop (B - L) (buffer c2), buffer_len := of_nat (B - L)\<rparr>"
    using zero_to_eq [of c2 "of_nat (B - L)"] c2 B(2) block by (simp add: c3_def word_le_nat_alt)
  have "put_bytes (B - L) f (buffer c3) = x @ replicate (B - L - length x) 0 @ f"
    using put_bytes_eq [of "B - L" f "buffer c3"] c2 fl block by (simp add: c3)
  then have h: "h_state (pad ctx) = process st (x @ replicate (B - L - length x) 0 @ f)" by (simp add: pad c3 c2 Let_def)
  have full: "length (x @ replicate (B - L - length x) 0 @ f) = B" using c2(5) fl block by simp
  have "hash_blocks B process (h_state ctx) (pending ctx @ padding ?l f) = (h_state (pad ctx), [])"
  proof (cases "Suc ?l \<le> B - L")
    case True
    then have "pending ctx @ padding ?l f = (x @ replicate (B - L - length x) 0 @ f) @ []"
      using padding_zeros [OF l(1)] len by (simp add: padding_def x_def)
    then show ?thesis using hash_blocks_block [OF full, of process "h_state ctx" "[]"] True h block by (simp add: st_def)
  next
    case False
    let ?b = "pending ctx @ [0x80] @ replicate (B - Suc ?l) 0"
    have e: "pending ctx @ padding ?l f = ?b @ (x @ replicate (B - L - length x) 0 @ f) @ []"
      using padding_zeros [OF l(1)] len False by (simp add: padding_def x_def replicate_add)
    have "length ?b = B" using len l by simp
    then show ?thesis unfolding e using hash_blocks_block [OF full, of process "process (h_state ctx) ?b" "[]"] False h block
      by (simp only: hash_blocks_block st_def if_False) simp
  qed
  then show ?thesis by (simp add: len f_def)
qed

text \<open>A run from the empty context: any way of cutting the message gives the same hash.\<close>

lemma fold_absorb:
  assumes upd: "\<And>ctx p. \<exists>b. upd ctx p = absorb (ctx\<lparr>bitlen := b\<rparr>) p"
    and "ok ctx"
  shows "ok (fold (\<lambda>p c. upd c p) ps ctx)"
    "(h_state (fold (\<lambda>p c. upd c p) ps ctx), pending (fold (\<lambda>p c. upd c p) ps ctx)) =
       hash_blocks B process (h_state ctx) (pending ctx @ concat ps)"
  using assms(2)
proof (induction ps arbitrary: ctx)
  case Nil
  case 1
  then show ?case by simp
  case 2
  then show ?case by (simp add: ok_def pending_def)
next
  case (Cons p ps)
  have pb: "pending (ctx\<lparr>bitlen := b\<rparr>) = pending ctx" "ok ctx \<Longrightarrow> ok (ctx\<lparr>bitlen := b\<rparr>)" for ctx b by (simp_all add: pending_def ok_def)
  have A: "ok (upd ctx p) \<and> (h_state (upd ctx p), pending (upd ctx p)) = hash_blocks B process (h_state ctx) (pending ctx @ p)"
    if o: "ok ctx" for ctx
  proof -
    obtain b where u: "upd ctx p = absorb (ctx\<lparr>bitlen := b\<rparr>) p" using upd by blast
    show ?thesis using absorb_ok [OF pb(2) [OF o, of b], of p] by (simp add: u pb(1))
  qed
  case 1
  show ?case using Cons.IH(1) [OF conjunct1 [OF A [OF 1]]] by simp
  case 2
  show ?case using Cons.IH(2) [OF conjunct1 [OF A [OF 2]]] conjunct2 [OF A [OF 2], symmetric] hash_blocks_append [of B process "h_state ctx" "pending ctx @ p" "concat ps"]
    by simp
qed

lemma streamed:
  assumes "\<And>ctx p. \<exists>b. upd ctx p = absorb (ctx\<lparr>bitlen := b\<rparr>) p"
    and "buffer_len ctx = 0" "length (buffer ctx) = B"
    and "field (bitlen (fold (\<lambda>p c. upd c p) ps ctx)) = be_bytes L (8 * length (concat ps))"
  shows "h_state (pad (fold (\<lambda>p c. upd c p) ps ctx)) = sha_spec B L process (h_state ctx) (concat ps)"
proof -
  let ?m = "concat ps" and ?c = "fold (\<lambda>p c. upd c p) ps ctx"
  have ok: "ok ctx" and pe: "pending ctx = []" using assms(2,3) block by (simp_all add: ok_def pending_def)
  note F = fold_absorb [of upd, OF assms(1) ok, of ps, unfolded pe append_Nil]
  have n: "length (pending ?c) = length ?m mod B"
    using hash_blocks_left [of B process "h_state ctx" ?m] block by (simp flip: F(2))
  have "(h_state (pad ?c), []) = hash_blocks B process (h_state ctx) (?m @ padding (length (pending ?c)) (field (bitlen ?c)))"
    using pad_ok [OF F(1)] by (simp only: hash_blocks_append [of B process "h_state ctx" ?m] F(2) [symmetric] prod.case)
  moreover have "?m @ padding (length (pending ?c)) (field (bitlen ?c)) = sha_padded B L ?m"
  proof -
    have "(length ?m mod B + 1 + L) mod B = (length ?m + 1 + L) mod B" by (simp only: add.assoc mod_add_left_eq)
    then show ?thesis by (simp only: padding_def sha_padded_def n assms(4))
  qed
  ultimately show ?thesis by (metis sha_spec_def fst_conv)
qed

end

section \<open>The three implementations\<close>

definition be64 :: "u64 \<Rightarrow> u8 list" where "be64 x = map (\<lambda>i. ucast (drop_bit (56 - i * 8) x)) [0..<8]"

lemma length_be64 [simp]: "length (be64 x) = 8" by (simp add: be64_def)

interpretation s256: stream_hash 64 8 sha256_process_block sha256_absorb sha256_pad be64
proof (unfold_locales, goal_cases)
  case (5 p ctx)
  then show ?case by (subst sha256_absorb.simps) (simp add: Let_def)
next
  case (7 ctx)
  show ?case by (simp add: sha256_pad_def be64_def Let_def)
qed (simp_all add: sha256_absorb.simps)

interpretation s512: stream_hash 128 16 sha512_process_block sha512_absorb sha512_pad "\<lambda>b. be64 (snd b) @ be64 (fst b)"
proof (unfold_locales, goal_cases)
  case (5 p ctx)
  then show ?case by (subst sha512_absorb.simps) (simp add: Let_def)
next
  case (7 ctx)
  show ?case by (simp add: sha512_pad_def be64_def Let_def)
qed (simp_all add: sha512_absorb.simps)

interpretation s384: stream_hash 128 16 sha384_process_block sha384_absorb sha384_pad "\<lambda>b. be64 (snd b) @ be64 (fst b)"
proof (unfold_locales, goal_cases)
  case (5 p ctx)
  then show ?case by (subst sha384_absorb.simps) (simp add: Let_def)
next
  case (7 ctx)
  show ?case by (simp add: sha384_pad_def be64_def Let_def)
qed (simp_all add: sha384_absorb.simps)

section \<open>The length field\<close>

lemma unat_of_nat64: "unat (of_nat n :: u64) = n mod 2 ^ 64"
  by (simp add: unat_of_nat)

lemma mod_mult_div: "0 < b \<Longrightarrow> n mod (b * c) div b = n div b mod c" for n b c :: nat
  by (simp add: mod_mult2_eq)

lemma be64_byte: "i < 8 \<Longrightarrow> ucast (drop_bit (56 - i * 8) (of_nat n :: u64)) = (of_nat (n div 256 ^ (7 - i)) :: u8)"
proof -
  assume i: "i < 8"
  have k: "56 - i * 8 = 8 * (7 - i)" by simp
  have e: "(256::nat) ^ (7 - i) = 2 ^ (56 - i * 8)" by (simp add: k power_mult)
  have "n mod 2 ^ 64 div 2 ^ (56 - i * 8) mod 2 ^ 8 = n div 2 ^ (56 - i * 8) mod 2 ^ 8"
  proof -
    have e: "(2::nat) ^ 64 = 2 ^ (56 - i * 8) * 2 ^ (8 + i * 8)" using i by (simp flip: power_add)
    have "n mod 2 ^ 64 div 2 ^ (56 - i * 8) = n div 2 ^ (56 - i * 8) mod 2 ^ (8 + i * 8)"
      unfolding e by (rule mod_mult_div) simp
    then show ?thesis by (simp add: power_add mod_mod_cancel)
  qed
  moreover have d: "unat (drop_bit (56 - i * 8) (of_nat n :: u64)) = n mod 2 ^ 64 div 2 ^ (56 - i * 8)"
    unfolding unat_drop_bit_eq unat_of_nat64 by (rule drop_bit_eq_div)
  ultimately have "unat (ucast (drop_bit (56 - i * 8) (of_nat n :: u64)) :: u8) = unat (of_nat (n div 256 ^ (7 - i)) :: u8)"
    using d by (simp add: unsigned_ucast_eq unat_of_nat e take_bit_eq_mod)
  then show ?thesis by (simp add: word_unat_eq_iff)
qed

lemma be64_of_nat: "be64 (of_nat n) = be_bytes 8 n"
  unfolding be64_def be_bytes_def by (rule map_cong) (simp_all add: be64_byte)

lemma be64_pair: "be64 (of_nat (n div 2 ^ 64)) @ be64 (of_nat n) = be_bytes 16 n"
proof -
  have "be_bytes 16 n = map (\<lambda>i. of_nat (n div 256 ^ (15 - i))) [0..<8] @ map (\<lambda>i. of_nat (n div 256 ^ (15 - i))) [8..<16]"
  proof -
    have "[0..<16] = [0..<8] @ [8..<16 :: nat]" by (simp add: upt_rec)
    then show ?thesis by (simp only: be_bytes_def map_append) simp
  qed
  moreover have "map (\<lambda>i. of_nat (n div 256 ^ (15 - i)) :: u8) [8..<16] = be_bytes 8 n"
    by (simp add: be_bytes_def upt_rec)
  moreover have "map (\<lambda>i. of_nat (n div 256 ^ (15 - i)) :: u8) [0..<8] = be_bytes 8 (n div 2 ^ 64)"
    by (simp add: be_bytes_def upt_rec flip: div_mult2_eq)
  ultimately show ?thesis by (simp only: be64_of_nat)
qed

lemma sha256_bits: "bitlen (fold (\<lambda>p c. sha256_update c p) ps ctx) = bitlen ctx + of_nat (8 * length (concat ps))"
proof (induction ps arbitrary: ctx)
  case (Cons p ps)
  have "bitlen (sha256_update ctx p) = bitlen ctx + push_bit 3 (of_nat (length p))"
  proof -
    have "bitlen (sha256_absorb c p) = bitlen c" for c
      by (induction c p rule: sha256_absorb.induct) (subst sha256_absorb.simps, simp add: Let_def)
    then show ?thesis by (simp add: sha256_update_def)
  qed
  then show ?case by (simp add: Cons.IH push_bit_eq_mult algebra_simps)
qed simp

text \<open>One step of the two-word counter.\<close>

lemma add_carry:
  fixes a b M :: nat
  assumes "a < M" "b < M"
  shows "(a + b) mod M = (if M \<le> a + b then a + b - M else a + b)" "(a + b) div M = (if M \<le> a + b then 1 else 0)"
  using assms by (simp_all add: le_mod_geq le_div_geq)

lemma bit_counter_step:
  fixes len :: u64
  assumes "lo = (of_nat n :: u64)" "hi = (of_nat (n div 2 ^ 64) :: u64)" "k < 2 ^ 64" "len = of_nat k"
  defines "lo' \<equiv> lo + push_bit 3 len"
  shows "lo' = of_nat (n + 8 * k)"
    "(if lo' < lo then hi + 1 else hi) + drop_bit 61 len = of_nat ((n + 8 * k) div 2 ^ 64)"
proof -
  show l: "lo' = of_nat (n + 8 * k)" by (simp add: lo'_def assms(1,4) push_bit_eq_mult)
  define M where "M = (2::nat) ^ 64"
  have M: "0 < M" by (simp add: M_def)
  have "8 * k div M = 8 * k div (8 * 2 ^ 61)" by (simp add: M_def)
  also have "\<dots> = k div 2 ^ 61" by (rule div_mult_mult1) simp
  finally have e: "8 * k div M = k div 2 ^ 61" .
  have uk: "unat len = k" using assms(3) by (simp only: assms(4) unat_of_nat64 mod_less)
  have "unat (drop_bit 61 len) = k div 2 ^ 61" unfolding unat_drop_bit_eq uk by (rule drop_bit_eq_div)
  moreover have "k div 2 ^ 61 < 2 ^ 64" by (rule le_less_trans [OF div_le_dividend assms(3)])
  ultimately have d: "drop_bit 61 len = of_nat (8 * k div M)"
    by (simp only: word_unat_eq_iff e unat_of_nat64 mod_less)
  have c: "lo' < lo \<longleftrightarrow> M \<le> n mod M + 8 * k mod M"
  proof -
    have r: "n mod M < M" "8 * k mod M < M" using M by simp_all
    have "(n + 8 * k) mod M = (n mod M + 8 * k mod M) mod M" by (simp add: mod_add_eq)
    also have "\<dots> = (if M \<le> n mod M + 8 * k mod M then n mod M + 8 * k mod M - M else n mod M + 8 * k mod M)"
      using add_carry(1) [OF r] .
    finally have "(n + 8 * k) mod M < n mod M \<longleftrightarrow> M \<le> n mod M + 8 * k mod M" using r by auto
    then show ?thesis unfolding l assms(1) by (simp only: word_less_nat_alt unat_of_nat64 M_def)
  qed
  have "(n mod M + 8 * k mod M) div M = (if M \<le> n mod M + 8 * k mod M then 1 else 0)"
    by (rule add_carry(2)) (simp_all add: M)
  then have "(n + 8 * k) div M = n div M + 8 * k div M + (if M \<le> n mod M + 8 * k mod M then 1 else 0)"
    by (simp add: div_add1_eq [of n "8 * k" M])
  then show "(if lo' < lo then hi + 1 else hi) + drop_bit 61 len = of_nat ((n + 8 * k) div 2 ^ 64)"
    unfolding c d assms(2) M_def [symmetric] by simp
qed

lemma sha512_bits:
  assumes "\<forall>p \<in> set ps. length p < 2 ^ 64" "bitlen ctx = (of_nat n, of_nat (n div 2 ^ 64))"
  shows "bitlen (fold (\<lambda>p c. sha512_update c p) ps ctx) =
    (of_nat (n + 8 * length (concat ps)), of_nat ((n + 8 * length (concat ps)) div 2 ^ 64))"
  using assms
proof (induction ps arbitrary: ctx n)
  case (Cons p ps)
  have "bitlen (sha512_absorb c p) = bitlen c" for c
    by (induction c p rule: sha512_absorb.induct) (subst sha512_absorb.simps, simp add: Let_def)
  then have "bitlen (sha512_update ctx p) = (of_nat (n + 8 * length p), of_nat ((n + 8 * length p) div 2 ^ 64))"
    using bit_counter_step [OF refl refl _ refl, of "length p" n] Cons.prems by (simp add: sha512_update_def Let_def cong: if_cong)
  from Cons.IH [OF _ this] Cons.prems show ?case by (simp add: algebra_simps)
qed simp

lemma sha384_bits:
  assumes "\<forall>p \<in> set ps. length p < 2 ^ 64" "bitlen ctx = (of_nat n, of_nat (n div 2 ^ 64))"
  shows "bitlen (fold (\<lambda>p c. sha384_update c p) ps ctx) =
    (of_nat (n + 8 * length (concat ps)), of_nat ((n + 8 * length (concat ps)) div 2 ^ 64))"
  using assms
proof (induction ps arbitrary: ctx n)
  case (Cons p ps)
  have "bitlen (sha384_absorb c p) = bitlen c" for c
    by (induction c p rule: sha384_absorb.induct) (subst sha384_absorb.simps, simp add: Let_def)
  then have "bitlen (sha384_update ctx p) = (of_nat (n + 8 * length p), of_nat ((n + 8 * length p) div 2 ^ 64))"
    using bit_counter_step [OF refl refl _ refl, of "length p" n] Cons.prems by (simp add: sha384_update_def Let_def cong: if_cong)
  from Cons.IH [OF _ this] Cons.prems show ?case by (simp add: algebra_simps)
qed simp

section \<open>Properties\<close>


text \<open>The test vector of the standard, in two pieces.\<close>

lemma sha256_abc_block:
  "sha256_process_block IV256 ([0x61, 0x62, 0x63, 0x80] @ replicate 59 0 @ [24]) =
     [0xba7816bf, 0x8f01cfea, 0x414140de, 0x5dae2223, 0xb00361a3, 0x96177a9c, 0xb410ff61, 0xf20015ad]"
  by code_simp


end
