(* ===== verification/CompatHandle.thy ===== *)
theory CompatHandle
  imports PmmProps
begin

text \<open>
  The handle table of the compatibility layer (\<open>compat_handle.c\<close>): an array of 256 slots with a rotating
  search position. The table is identified by the page it starts at.
\<close>

section \<open>State\<close>

definition COMPAT_HANDLE_MAX :: nat where [kernel_defs]: "COMPAT_HANDLE_MAX = 256"
definition COMPAT_HANDLE_BASE :: u32 where [kernel_defs]: "COMPAT_HANDLE_BASE = 0x100"
definition COMPAT_INVALID_HANDLE :: u32 where [kernel_defs]: "COMPAT_INVALID_HANDLE = 0xFFFFFFFF"

record compat_handle_entry =
  ch_handle :: u32
  ch_kernel_handle :: u64
  ch_type :: u32
  ch_flags :: u32
  ch_in_use :: bool

record compat_handle_table =
  ch_entries :: "compat_handle_entry list"
  ch_next_handle :: u32
  ch_count :: u32

text \<open>The size of the C structure: 256 entries of 32 bytes, two counters, the lock, rounded up to 8 bytes.\<close>

definition handle_table_bytes :: nat where "handle_table_bytes = 256 * 32 + 4 + 4 + 8"

fun order_for :: "nat \<Rightarrow> nat \<Rightarrow> nat \<Rightarrow> nat" where
  "order_for fuel pages order =
     (case fuel of 0 \<Rightarrow> order | Suc n \<Rightarrow> if order < MAX_ORDER \<and> 2 ^ order < pages then order_for n pages (Suc order) else order)"

definition htab_order :: int where
  "htab_order =
     (let pages = (handle_table_bytes + PAGE_SIZE - 1) div PAGE_SIZE; order = order_for MAX_ORDER pages 0
      in if order \<ge> MAX_ORDER then -1 else int order)"

definition blank_entry :: compat_handle_entry where
  "blank_entry = \<lparr>ch_handle = 0, ch_kernel_handle = 0, ch_type = 0, ch_flags = 0, ch_in_use = False\<rparr>"

section \<open>Operations\<close>

definition compat_handle_table_create :: "pmm_state \<Rightarrow> (nat \<times> compat_handle_table) option \<times> pmm_state" where
  "compat_handle_table_create p =
     (if htab_order < 0 then (None, p)
      else case pmm_alloc_pages htab_order p of
          (None, p) \<Rightarrow> (None, p)
        | (Some pg, p) \<Rightarrow>
            let std = (\<lambda>k. \<lparr>ch_handle = of_nat k, ch_kernel_handle = of_nat k, ch_type = 0, ch_flags = 0, ch_in_use = True\<rparr>);
                ht = \<lparr>ch_entries = replicate COMPAT_HANDLE_MAX blank_entry, ch_next_handle = COMPAT_HANDLE_BASE, ch_count = 0\<rparr>
            in (Some (pg, ht\<lparr>ch_entries := (ch_entries ht)[0 := std 0, 1 := std 1, 2 := std 2], ch_count := 3\<rparr>), p))"

text \<open>After it the page is not used again; the counters are cleared first.\<close>

definition compat_handle_table_destroy :: "(nat \<times> compat_handle_table) option \<Rightarrow> pmm_state \<Rightarrow> pmm_state" where
  "compat_handle_table_destroy ht p =
     (case ht of None \<Rightarrow> p | Some (pg, _) \<Rightarrow> if htab_order < 0 then p else pmm_free_pages (Some pg) htab_order p)"

text \<open>The scan from the search position: \<open>n\<close> attempts are left.\<close>

fun handle_scan :: "nat \<Rightarrow> u64 \<Rightarrow> u32 \<Rightarrow> u32 \<Rightarrow> compat_handle_table \<Rightarrow> u32 \<times> compat_handle_table" where
  "handle_scan 0 kh ty fl ht = (COMPAT_INVALID_HANDLE, ht)"
| "handle_scan (Suc n) kh ty fl ht =
     (let idx = unat (ch_next_handle ht mod of_nat COMPAT_HANDLE_MAX);
          ht = ht\<lparr>ch_next_handle := ch_next_handle ht + 1\<rparr>
      in if \<not> ch_in_use (ch_entries ht ! idx) then
           let handle = (if idx = 0 then 0 else if idx = 1 then 1 else if idx = 2 then 2 else COMPAT_HANDLE_BASE + of_nat idx)
           in (handle, ht\<lparr>ch_entries := (ch_entries ht)[idx := \<lparr>ch_handle = handle, ch_kernel_handle = kh, ch_type = ty,
                 ch_flags = fl, ch_in_use = True\<rparr>], ch_count := ch_count ht + 1\<rparr>)
         else handle_scan n kh ty fl ht)"

definition compat_handle_alloc :: "compat_handle_table option \<Rightarrow> u64 \<Rightarrow> u32 \<Rightarrow> u32 \<Rightarrow> u32 \<times> compat_handle_table option" where
  "compat_handle_alloc ht kh ty fl =
     (case ht of
        None \<Rightarrow> (COMPAT_INVALID_HANDLE, None)
      | Some ht \<Rightarrow> (case handle_scan COMPAT_HANDLE_MAX kh ty fl ht of (h, ht) \<Rightarrow> (h, Some ht)))"

text \<open>The first slot in use with the handle, as both loops below look for it.\<close>

definition handle_find :: "u32 \<Rightarrow> compat_handle_table \<Rightarrow> nat option" where
  "handle_find h ht = List.find (\<lambda>i. ch_in_use (ch_entries ht ! i) \<and> ch_handle (ch_entries ht ! i) = h) [0..<COMPAT_HANDLE_MAX]"

definition compat_handle_free :: "compat_handle_table option \<Rightarrow> u32 \<Rightarrow> int \<times> compat_handle_table option" where
  "compat_handle_free ht h =
     (case ht of
        None \<Rightarrow> (-1, None)
      | Some ht \<Rightarrow>
          (case handle_find h ht of
             None \<Rightarrow> (-1, Some ht)
           | Some i \<Rightarrow>
               (0, Some (ht\<lparr>ch_entries := (ch_entries ht)[i := (ch_entries ht ! i)\<lparr>ch_in_use := False, ch_kernel_handle := 0,
                      ch_flags := 0\<rparr>], ch_count := (if ch_count ht > 0 then ch_count ht - 1 else ch_count ht)\<rparr>))))"

definition compat_handle_lookup :: "compat_handle_table option \<Rightarrow> u32 \<Rightarrow> int \<times> compat_handle_entry option" where
  "compat_handle_lookup ht h =
     (case ht of
        None \<Rightarrow> (-1, None)
      | Some ht \<Rightarrow> (case handle_find h ht of None \<Rightarrow> (-1, None) | Some i \<Rightarrow> (0, Some (ch_entries ht ! i))))"

definition compat_handle_count :: "compat_handle_table option \<Rightarrow> u32" where
  "compat_handle_count ht = (case ht of None \<Rightarrow> 0 | Some ht \<Rightarrow> ch_count ht)"

section \<open>The table as a finite map\<close>

text \<open>The handle that a slot gives out; the map from handles to what they stand for.\<close>

definition slot_handle :: "nat \<Rightarrow> u32" where
  "slot_handle i = (if i < 3 then of_nat i else COMPAT_HANDLE_BASE + of_nat i)"

definition handle_map :: "compat_handle_table \<Rightarrow> u32 \<Rightarrow> (u64 \<times> u32 \<times> u32) option" where
  "handle_map ht h = map_option (\<lambda>i. let e = ch_entries ht ! i in (ch_kernel_handle e, ch_type e, ch_flags e)) (handle_find h ht)"

definition used_slots :: "compat_handle_table \<Rightarrow> nat set" where
  "used_slots ht = {i. i < COMPAT_HANDLE_MAX \<and> ch_in_use (ch_entries ht ! i)}"

definition handles_ok :: "compat_handle_table \<Rightarrow> bool" where
  "handles_ok ht \<longleftrightarrow> length (ch_entries ht) = COMPAT_HANDLE_MAX \<and> (\<forall>i \<in> used_slots ht. ch_handle (ch_entries ht ! i) = slot_handle i) \<and>
     unat (ch_count ht) = card (used_slots ht)"

lemma slot_handle_inj: "i < 256 \<Longrightarrow> j < 256 \<Longrightarrow> slot_handle i = slot_handle j \<longleftrightarrow> i = j"
proof -
  have u: "unat (slot_handle i) = (if i < 3 then i else 256 + i)" if "i < 256" for i
  proof (cases "i < 3")
    case False
    have "unat (slot_handle i) = unat (of_nat (256 + i) :: u32)" using False by (simp add: slot_handle_def COMPAT_HANDLE_BASE_def)
    also have "\<dots> = 256 + i" using that by (intro of_nat_inverse [OF refl]) simp
    finally show ?thesis using False by simp
  qed (use that in \<open>simp add: slot_handle_def of_nat_inverse\<close>)
  assume "i < 256" "j < 256"
  then have "slot_handle i = slot_handle j \<Longrightarrow> (if i < 3 then i else 256 + i) = (if j < 3 then j else 256 + j)" using u by metis
  then show "slot_handle i = slot_handle j \<longleftrightarrow> i = j" by (auto split: if_splits)
qed

lemma handle_find_Some:
  assumes "handles_ok ht"
  shows "handle_find h ht = Some i \<longleftrightarrow> i \<in> used_slots ht \<and> h = slot_handle i"
proof
  assume "handle_find h ht = Some i"
  then show "i \<in> used_slots ht \<and> h = slot_handle i"
    using assms by (auto simp: handle_find_def find_Some_iff handles_ok_def used_slots_def simp del: upt_rec_numeral)
next
  assume i: "i \<in> used_slots ht \<and> h = slot_handle i"
  then have e: "ch_in_use (ch_entries ht ! i) \<and> ch_handle (ch_entries ht ! i) = h" "i < 256"
    using assms by (auto simp: handles_ok_def used_slots_def COMPAT_HANDLE_MAX_def)
  then obtain j where j: "handle_find h ht = Some j"
    by (cases "handle_find h ht") (auto simp: handle_find_def find_None_iff COMPAT_HANDLE_MAX_def simp del: upt_rec_numeral)
  then have "j < 256" "ch_in_use (ch_entries ht ! j)" "ch_handle (ch_entries ht ! j) = h"
    by (auto simp: handle_find_def find_Some_iff COMPAT_HANDLE_MAX_def simp del: upt_rec_numeral)
  then have "h = slot_handle j" using assms by (auto simp: handles_ok_def used_slots_def COMPAT_HANDLE_MAX_def)
  then show "handle_find h ht = Some i" using i j e(2) \<open>j < 256\<close> slot_handle_inj by auto
qed

lemma handle_find_None: "handles_ok ht \<Longrightarrow> handle_find h ht = None \<longleftrightarrow> (\<forall>i \<in> used_slots ht. h \<noteq> slot_handle i)"
  using handle_find_Some by (metis not_None_eq)


text \<open>The scan looks at the slots in rotation and stops at the first one that is not in use.\<close>

definition scan_slot :: "u32 \<Rightarrow> nat \<Rightarrow> nat" where "scan_slot s k = (unat s + k) mod 256"

lemma scan_slot_0: "unat (s mod of_nat COMPAT_HANDLE_MAX) = scan_slot s 0"
  by (simp add: scan_slot_def COMPAT_HANDLE_MAX_def unat_mod)

lemma scan_slot_Suc: "scan_slot (s + 1) k = scan_slot s (Suc k)"
proof -
  have "unat (s + 1) mod 256 = (unat s + 1) mod 2 ^ 32 mod 256" by (simp add: unat_word_ariths)
  also have "\<dots> = (unat s + 1) mod 256" using le_imp_power_dvd [of 8 32 "2 :: nat"] by (intro mod_mod_cancel) simp
  finally have "(unat (s + 1) + k) mod 256 = (unat s + 1 + k) mod 256" by (metis mod_add_left_eq)
  then show ?thesis by (simp add: scan_slot_def)
qed

lemma scan_slot_all: "i < 256 \<Longrightarrow> \<exists>k < 256. scan_slot s k = i"
proof -
  assume i: "i < 256"
  let ?k = "(i + 256 - unat s mod 256) mod 256"
  have "(unat s mod 256 + (i + 256 - unat s mod 256)) mod 256 = i"
    using i mod_less_divisor [of 256 "unat s"] by (simp add: less_imp_le)
  moreover have "scan_slot s ?k = (unat s mod 256 + (i + 256 - unat s mod 256)) mod 256"
    by (simp only: scan_slot_def mod_add_left_eq mod_add_right_eq)
  ultimately have "scan_slot s ?k = i" by simp
  then show ?thesis by (intro exI [of _ ?k]) simp
qed

lemma handle_scan_spec:
  "(\<forall>k < n. ch_in_use (ch_entries ht ! scan_slot (ch_next_handle ht) k)) \<and>
     handle_scan n kh ty fl ht = (COMPAT_INVALID_HANDLE, ht\<lparr>ch_next_handle := ch_next_handle ht + of_nat n\<rparr>) \<or>
   (\<exists>k < n. let i = scan_slot (ch_next_handle ht) k in \<not> ch_in_use (ch_entries ht ! i) \<and>
      handle_scan n kh ty fl ht = (slot_handle i, ht\<lparr>ch_next_handle := ch_next_handle ht + of_nat (Suc k),
        ch_entries := (ch_entries ht)[i := \<lparr>ch_handle = slot_handle i, ch_kernel_handle = kh, ch_type = ty, ch_flags = fl,
          ch_in_use = True\<rparr>], ch_count := ch_count ht + 1\<rparr>))"
proof (induction n arbitrary: ht)
  case (Suc n)
  let ?i = "scan_slot (ch_next_handle ht) 0" and ?h = "ht\<lparr>ch_next_handle := ch_next_handle ht + 1\<rparr>"
  have lt: "?i < 256" by (simp add: scan_slot_def)
  show ?case
  proof (cases "ch_in_use (ch_entries ht ! ?i)")
    case False
    have "slot_handle ?i = (if ?i = 0 then 0 else if ?i = 1 then 1 else if ?i = 2 then 2 else COMPAT_HANDLE_BASE + of_nat ?i)"
      by (auto simp: slot_handle_def)
    then show ?thesis using False by (intro disjI2 exI [of _ 0]) (simp add: scan_slot_0 Let_def)
  next
    case True
    have step: "handle_scan (Suc n) kh ty fl ht = handle_scan n kh ty fl ?h" using True by (simp add: scan_slot_0 Let_def)
    have next_slot: "scan_slot (ch_next_handle ?h) k = scan_slot (ch_next_handle ht) (Suc k)" for k by (simp add: scan_slot_Suc)
    from Suc.IH [of ?h, unfolded next_slot Let_def] show ?thesis
    proof (elim disjE exE conjE)
      assume a: "\<forall>k < n. ch_in_use (ch_entries ?h ! scan_slot (ch_next_handle ht) (Suc k))"
        "handle_scan n kh ty fl ?h = (COMPAT_INVALID_HANDLE, ?h\<lparr>ch_next_handle := ch_next_handle ?h + of_nat n\<rparr>)"
      have "\<forall>k < Suc n. ch_in_use (ch_entries ht ! scan_slot (ch_next_handle ht) k)"
        using a(1) True by (simp add: All_less_Suc2)
      then show ?thesis using a(2) by (simp add: step add.assoc del: handle_scan.simps)
    next
      fix k assume "k < n" "\<not> ch_in_use (ch_entries ?h ! scan_slot (ch_next_handle ht) (Suc k))"
        "handle_scan n kh ty fl ?h = (slot_handle (scan_slot (ch_next_handle ht) (Suc k)),
           ?h\<lparr>ch_next_handle := ch_next_handle ?h + of_nat (Suc k),
             ch_entries := (ch_entries ?h)[scan_slot (ch_next_handle ht) (Suc k) := \<lparr>ch_handle = slot_handle (scan_slot (ch_next_handle ht) (Suc k)),
               ch_kernel_handle = kh, ch_type = ty, ch_flags = fl, ch_in_use = True\<rparr>], ch_count := ch_count ?h + 1\<rparr>)"
      then show ?thesis by (intro disjI2 exI [of _ "Suc k"]) (simp add: step add.assoc Let_def del: handle_scan.simps)
    qed
  qed
qed simp

lemma used_slots_update:
  assumes "length (ch_entries ht) = COMPAT_HANDLE_MAX" "i < 256"
  shows "used_slots (ht\<lparr>ch_next_handle := nx, ch_entries := (ch_entries ht)[i := e], ch_count := c\<rparr>) =
    (if ch_in_use e then insert i (used_slots ht) else used_slots ht - {i})"
  using assms by (auto simp: used_slots_def COMPAT_HANDLE_MAX_def nth_list_update)

lemma finite_used_slots [simp]: "finite (used_slots ht)" by (simp add: used_slots_def)

lemma card_used_slots: "card (used_slots ht) \<le> 256"
  using card_mono [of "{..<256}" "used_slots ht"] by (auto simp: used_slots_def COMPAT_HANDLE_MAX_def)

text \<open>Filling a free slot.\<close>

lemma fill_slot:
  fixes nx fl ty :: u32 and kh :: u64
  assumes ok: "handles_ok ht" and i: "i < 256" "i \<notin> used_slots ht"
  defines "ht' \<equiv> ht\<lparr>ch_next_handle := nx, ch_entries := (ch_entries ht)[i := \<lparr>ch_handle = slot_handle i, ch_kernel_handle = kh,
      ch_type = ty, ch_flags = fl, ch_in_use = True\<rparr>], ch_count := ch_count ht + 1\<rparr>"
  shows "handles_ok ht'" "handle_map ht (slot_handle i) = None" "handle_map ht' = (handle_map ht)(slot_handle i \<mapsto> (kh, ty, fl))"
proof -
  have len: "length (ch_entries ht) = 256" using ok by (simp add: handles_ok_def COMPAT_HANDLE_MAX_def)
  have us: "used_slots ht' = insert i (used_slots ht)" using used_slots_update [of ht i] len i by (simp add: ht'_def COMPAT_HANDLE_MAX_def)
  have sub: "used_slots ht \<subseteq> {..<256}" by (auto simp: used_slots_def COMPAT_HANDLE_MAX_def)
  have n: "card (used_slots ht) < 256" using psubset_card_mono [of "{..<256}" "used_slots ht"] sub i by auto
  have "unat (ch_count ht + 1) = (unat (ch_count ht) + 1) mod 2 ^ 32" by (simp add: unat_word_ariths)
  also have "\<dots> = unat (ch_count ht) + 1" using ok n by (intro mod_less) (simp add: handles_ok_def)
  finally show ok': "handles_ok ht'"
    using ok us i n len by (auto simp: handles_ok_def ht'_def COMPAT_HANDLE_MAX_def nth_list_update)
  show new: "handle_map ht (slot_handle i) = None"
    using handle_find_None [OF ok] i(2) slot_handle_inj i(1) by (auto simp: handle_map_def used_slots_def COMPAT_HANDLE_MAX_def)
  have "handle_map ht' h = ((handle_map ht)(slot_handle i \<mapsto> (kh, ty, fl))) h" for h
  proof (cases "handle_find h ht")
    case None
    then show ?thesis
    proof (cases "h = slot_handle i")
      case True
      then have "handle_find h ht' = Some i" using handle_find_Some [OF ok'] us by simp
      then show ?thesis using True i len by (simp add: handle_map_def ht'_def Let_def)
    next
      case False
      then have "handle_find h ht' = None" using None handle_find_None [OF ok] handle_find_None [OF ok'] us by simp
      then show ?thesis using False None by (simp add: handle_map_def)
    qed
  next
    case (Some j)
    then have j: "j \<in> used_slots ht" "h = slot_handle j" "j \<noteq> i" using handle_find_Some [OF ok] i by auto
    then have "handle_find h ht' = Some j" using handle_find_Some [OF ok'] us by simp
    moreover have "h \<noteq> slot_handle i" using j i slot_handle_inj sub by auto
    ultimately show ?thesis using Some j(3) by (simp add: handle_map_def ht'_def Let_def)
  qed
  then show "handle_map ht' = (handle_map ht)(slot_handle i \<mapsto> (kh, ty, fl))" by (rule ext)
qed

text \<open>Emptying one.\<close>

lemma clear_slot:
  assumes ok: "handles_ok ht" and f: "handle_find h ht = Some i"
  defines "ht' \<equiv> ht\<lparr>ch_entries := (ch_entries ht)[i := (ch_entries ht ! i)\<lparr>ch_in_use := False, ch_kernel_handle := 0, ch_flags := 0\<rparr>],
      ch_count := (if ch_count ht > 0 then ch_count ht - 1 else ch_count ht)\<rparr>"
  shows "handles_ok ht'" "handle_map ht' = (handle_map ht)(h := None)"
proof -
  have i: "i \<in> used_slots ht" "h = slot_handle i" using handle_find_Some [OF ok] f by auto
  have len: "length (ch_entries ht) = 256" and sub: "used_slots ht \<subseteq> {..<256}"
    using ok by (auto simp: handles_ok_def used_slots_def COMPAT_HANDLE_MAX_def)
  have us: "used_slots ht' = used_slots ht - {i}"
    using used_slots_update [of ht i] len i sub by (auto simp: ht'_def COMPAT_HANDLE_MAX_def used_slots_def nth_list_update)
  have n: "0 < card (used_slots ht)" using i(1) by (auto simp: card_gt_0_iff)
  then have c: "0 < ch_count ht" "unat (ch_count ht - 1) = unat (ch_count ht) - 1"
    using ok by (auto simp: handles_ok_def word_less_nat_alt unat_sub_if' word_le_nat_alt)
  show ok': "handles_ok ht'"
    using ok us i(1) len c by (auto simp: handles_ok_def ht'_def COMPAT_HANDLE_MAX_def nth_list_update)
  have "handle_map ht' g = ((handle_map ht)(h := None)) g" for g
  proof (cases "handle_find g ht")
    case None
    then have "handle_find g ht' = None" using handle_find_None [OF ok] handle_find_None [OF ok'] us by simp
    then show ?thesis using None by (simp add: handle_map_def)
  next
    case (Some j)
    then have j: "j \<in> used_slots ht" "g = slot_handle j" using handle_find_Some [OF ok] by auto
    show ?thesis
    proof (cases "j = i")
      case True
      then have "handle_find g ht' = None" using handle_find_None [OF ok'] us j i slot_handle_inj [of _ i] sub by (metis DiffE lessThan_iff singletonI subsetD)
      then show ?thesis using True j i by (simp add: handle_map_def)
    next
      case False
      then have "handle_find g ht' = Some j" using handle_find_Some [OF ok'] us j by simp
      moreover have "g \<noteq> h" using False j i slot_handle_inj sub by auto
      ultimately show ?thesis using Some False by (simp add: handle_map_def ht'_def Let_def)
    qed
  qed
  then show "handle_map ht' = (handle_map ht)(h := None)" by (rule ext)
qed


section \<open>Properties\<close>


definition wit_handles :: compat_handle_table where
  "wit_handles = \<lparr>ch_entries = replicate 256 blank_entry, ch_next_handle = 0x100, ch_count = 0\<rparr>"


end
