(* ===== verification/Loader.thy ===== *)
theory Loader
  imports UserMem "HOL-Library.Monad_Syntax"
begin

text \<open>
  The program loaders: Linux ELF (\<open>user/elf_loader.c\<close>), the kernel's own format (\<open>obr.c\<close>), the libraries it
  depends on (\<open>map_lib_obr\<close>) and the part of \<open>user_spawn_program\<close> (\<open>user/user.c\<close>) that maps a program.
  An image is the list of the bytes of the buffer that holds it; a read outside the buffer is \<open>None\<close>, and so is
  everything that makes one. Physical memory is \<open>pt_mem\<close>, eight bytes to a word, addressed by byte.
\<close>

section \<open>Bytes of physical memory\<close>

definition mem_get :: "vmm_state \<Rightarrow> nat \<Rightarrow> u8" where
  "mem_get v a = ucast (drop_bit (8 * (a mod 8)) (pt_mem v (a div PAGE_SIZE) (a mod PAGE_SIZE div 8)))"

definition mem_put :: "nat \<Rightarrow> u8 \<Rightarrow> vmm_state \<Rightarrow> vmm_state" where
  "mem_put a b v =
     set_entry (a div PAGE_SIZE) (a mod PAGE_SIZE div 8)
       ((pt_mem v (a div PAGE_SIZE) (a mod PAGE_SIZE div 8) AND NOT (push_bit (8 * (a mod 8)) 0xFF))
         OR push_bit (8 * (a mod 8)) (ucast b)) v"

primrec mem_write :: "nat \<Rightarrow> u8 list \<Rightarrow> vmm_state \<Rightarrow> vmm_state" where
  "mem_write a [] v = v"
| "mem_write a (b # bs) v = mem_write (Suc a) bs (mem_put a b v)"

section \<open>Reading the image\<close>

definition img_get :: "u8 list \<Rightarrow> u64 \<Rightarrow> u8 option" where
  "img_get img a = (if unat a < length img then Some (img ! unat a) else None)"

definition img_bytes :: "u8 list \<Rightarrow> u64 \<Rightarrow> nat \<Rightarrow> u8 list option" where
  "img_bytes img a n = those (map (\<lambda>k. img_get img (a + of_nat k)) [0..<n])"

definition img_u64 :: "u8 list \<Rightarrow> u64 \<Rightarrow> nat \<Rightarrow> u64 option" where
  "img_u64 img a n = map_option le_word (img_bytes img a n)"

text \<open>A loop over a list that stops at the first result other than 0.\<close>

primrec until_error :: "('a \<Rightarrow> 's \<Rightarrow> (int \<times> 's) option) \<Rightarrow> 'a list \<Rightarrow> 's \<Rightarrow> (int \<times> 's) option" where
  "until_error f [] s = Some (0, s)"
| "until_error f (x # xs) s = (case f x s of None \<Rightarrow> None | Some (rc, s) \<Rightarrow> if rc \<noteq> 0 then Some (rc, s) else until_error f xs s)"

section \<open>ELF\<close>

definition ELF_PT_LOAD :: u32 where [kernel_defs]: "ELF_PT_LOAD = 1"
definition ELF_PT_DYNAMIC :: u32 where [kernel_defs]: "ELF_PT_DYNAMIC = 2"
definition ELF_PT_INTERP :: u32 where [kernel_defs]: "ELF_PT_INTERP = 3"
definition ELF_PT_PHDR :: u32 where [kernel_defs]: "ELF_PT_PHDR = 6"
definition ELF_PF_X :: u32 where [kernel_defs]: "ELF_PF_X = 1"
definition ELF_EM_X86_64 :: u16 where [kernel_defs]: "ELF_EM_X86_64 = 62"
definition ELF_EHDR_SIZE :: u64 where [kernel_defs]: "ELF_EHDR_SIZE = 64"
definition ELF_PHDR_SIZE :: u64 where [kernel_defs]: "ELF_PHDR_SIZE = 56"

text \<open>The fields of the two packed structures that the code reads.\<close>

record elf64_ehdr =
  e_type :: u16
  e_machine :: u16
  e_entry :: u64
  e_phoff :: u64
  e_phentsize :: u16
  e_phnum :: u16

record elf64_phdr =
  p_type :: u32
  p_flags :: u32
  p_offset :: u64
  p_vaddr :: u64
  p_filesz :: u64
  p_memsz :: u64

definition elf_ehdr_at :: "u8 list \<Rightarrow> elf64_ehdr option" where
  "elf_ehdr_at img = do {
     ty \<leftarrow> img_u64 img 16 2; ma \<leftarrow> img_u64 img 18 2; en \<leftarrow> img_u64 img 24 8; po \<leftarrow> img_u64 img 32 8;
     ps \<leftarrow> img_u64 img 54 2; pn \<leftarrow> img_u64 img 56 2;
     Some \<lparr>e_type = ucast ty, e_machine = ucast ma, e_entry = en, e_phoff = po, e_phentsize = ucast ps, e_phnum = ucast pn\<rparr> }"

definition elf_phdr_at :: "u8 list \<Rightarrow> u64 \<Rightarrow> elf64_phdr option" where
  "elf_phdr_at img a = do {
     ty \<leftarrow> img_u64 img a 4; fl \<leftarrow> img_u64 img (a + 4) 4; off \<leftarrow> img_u64 img (a + 8) 8; va \<leftarrow> img_u64 img (a + 16) 8;
     fs \<leftarrow> img_u64 img (a + 32) 8; ms \<leftarrow> img_u64 img (a + 40) 8;
     Some \<lparr>p_type = ucast ty, p_flags = ucast fl, p_offset = off, p_vaddr = va, p_filesz = fs, p_memsz = ms\<rparr> }"

definition elf64_detect :: "u8 list option \<Rightarrow> u64 \<Rightarrow> int option" where
  "elf64_detect buf sz =
     (case buf of
        None \<Rightarrow> Some 0
      | Some img \<Rightarrow>
          if sz < ELF_EHDR_SIZE then Some 0
          else do {
            p \<leftarrow> img_bytes img 0 6;
            if take 4 p \<noteq> [0x7F, 0x45, 0x4C, 0x46] then Some 0
            else if p ! 4 \<noteq> 2 then Some (-1)
            else if p ! 5 \<noteq> 1 then Some (-1)
            else do {
              eh \<leftarrow> elf_ehdr_at img;
              if e_machine eh \<noteq> ELF_EM_X86_64 then Some (-1)
              else if e_type eh \<noteq> 2 \<and> e_type eh \<noteq> 3 then Some (-1)
              else if ucast (e_phentsize eh) \<noteq> ELF_PHDR_SIZE then Some (-1)
              else Some 1 } })"

definition elf64_va_mapped :: "nat \<Rightarrow> u64 \<Rightarrow> vmm_state \<Rightarrow> int \<times> bool" where
  "elf64_va_mapped pml4 va v =
     (case vmm_get_pte pml4 va v of
        None \<Rightarrow> (0, False)
      | Some (pt, i) \<Rightarrow>
          if \<not> has_flag (pt_mem v pt i) PTE_PRESENT then (0, False)
          else if \<not> has_flag (pt_mem v pt i) PTE_USER then (-1, False)
          else (1, True))"

text \<open>The check for the 2 MB pages of the identity mapping, at the head of the page loop.\<close>

definition elf_huge_conflict :: "nat \<Rightarrow> u64 \<Rightarrow> vmm_state \<Rightarrow> bool" where
  "elf_huge_conflict pml4 va v \<longleftrightarrow>
     PML4_INDEX va = 0 \<and>
     (let e4 = pt_mem v pml4 0 in
      has_flag e4 PTE_PRESENT \<and> e4 AND PTE_ADDR_MASK \<noteq> 0 \<and>
      (let e3 = pt_mem v (entry_frame e4) (PDPT_INDEX va) in
       has_flag e3 PTE_PRESENT \<and> \<not> has_flag e3 PTE_HUGE \<and>
       (let e2 = pt_mem v (entry_frame e3) (PD_INDEX va) in has_flag e2 PTE_PRESENT \<and> has_flag e2 PTE_HUGE)))"

definition seg_flags :: "bool \<Rightarrow> u64" where
  "seg_flags exec = (if exec then PTE_PRESENT OR PTE_WRITABLE OR PTE_USER else PTE_PRESENT OR PTE_WRITABLE OR PTE_USER OR PTE_NX)"

definition elf_page :: "nat \<Rightarrow> u64 \<Rightarrow> u64 \<Rightarrow> vmm_state \<Rightarrow> int \<times> vmm_state" where
  "elf_page pml4 flags va v =
     (if elf_huge_conflict pml4 va v then (OB_EINVAL, v)
      else case elf64_va_mapped pml4 va v of
          (rc0, present) \<Rightarrow>
            if rc0 < 0 then (OB_EIO, v)
            else if present then (0, v)
            else case pmm_alloc_pages 0 (v_pmm v) of
                (None, p) \<Rightarrow> (OB_ENOMEM, v\<lparr>v_pmm := p\<rparr>)
              | (Some pg, p) \<Rightarrow>
                  (case vmm_map_page pml4 va (frame_pa pg) flags (v\<lparr>v_pmm := p\<rparr>) of
                     (rc, v) \<Rightarrow> if rc \<noteq> 0 then (OB_EIO, v\<lparr>v_pmm := pmm_free_pages (Some pg) 0 (v_pmm v)\<rparr>)
                                else (0, zero_page pg v)))"

text \<open>The loop over the pages from \<open>a\<close> to \<open>e\<close> (below \<open>2 ^ 48\<close>, where nothing wraps).\<close>

function elf_pages :: "nat \<Rightarrow> u64 \<Rightarrow> nat \<Rightarrow> nat \<Rightarrow> vmm_state \<Rightarrow> int \<times> vmm_state" where
  "elf_pages pml4 flags a e v =
     (if a < e then case elf_page pml4 flags (of_nat a) v of
          (rc, v) \<Rightarrow> if rc \<noteq> 0 then (rc, v) else elf_pages pml4 flags (a + PAGE_SIZE) e v
      else (0, v))"
  by pat_completeness auto
termination by (relation "measure (\<lambda>(p, f, a, e, v). e - a)") (auto simp: kernel_defs)

definition page_mask :: u64 where "page_mask = NOT (of_nat PAGE_SIZE - 1)"

text \<open>The loop that copies the bytes of the file: \<open>k\<close> of the \<open>n\<close> are done.\<close>

definition elf_take :: "u64 \<Rightarrow> nat \<Rightarrow> nat \<Rightarrow> nat" where
  "elf_take va k n = min (PAGE_SIZE - unat (va - (va AND page_mask))) (n - k)"

lemma page_offset: "va - (va AND page_mask) = va AND 0xFFF"
proof -
  have m: "page_mask = NOT 0xFFF" by (simp add: page_mask_def kernel_defs)
  have "va - (va AND page_mask) = va AND NOT (va AND page_mask)"
    by (rule disjunctive_diff_eq_and_not) (simp add: bit_eq_iff bit_simps)
  then show ?thesis unfolding m by (simp add: bit_eq_iff bit_simps; blast)
qed

lemma and_fff: "unat (va AND 0xFFF :: u64) = unat va mod PAGE_SIZE"
proof -
  have "va AND 0xFFF = take_bit 12 va" by (simp add: take_bit_eq_mask mask_eq_exp_minus_1)
  then show ?thesis by (simp add: unsigned_take_bit_eq take_bit_eq_mod kernel_defs unat_mod_distrib)
qed

lemma page_offset_less: "unat (va - (va AND page_mask)) < PAGE_SIZE"
  unfolding page_offset and_fff by (simp add: kernel_defs)

function elf_copy :: "nat \<Rightarrow> u8 list \<Rightarrow> u64 \<Rightarrow> u64 \<Rightarrow> nat \<Rightarrow> nat \<Rightarrow> vmm_state \<Rightarrow> (int \<times> vmm_state) option" where
  "elf_copy pml4 img off start k n v =
     (if k < n then
        let va = start + of_nat k; pgo = va AND page_mask; take = elf_take va k n in
        case vmm_get_pte pml4 pgo v of
          None \<Rightarrow> Some (OB_EIO, v)
        | Some (pt, i) \<Rightarrow>
            if \<not> has_flag (pt_mem v pt i) PTE_PRESENT then Some (OB_EIO, v)
            else do {
              bs \<leftarrow> img_bytes img (off + of_nat k) take;
              elf_copy pml4 img off start (k + take) n
                (mem_write (unat (pt_mem v pt i AND PTE_ADDR_MASK) + unat (va - pgo)) bs v) }
      else Some (0, v))"
  by pat_completeness auto
termination
proof (relation "measure (\<lambda>(p, img, off, st, k, n, v). n - k)", goal_cases)
  case (2 pml4 img off start k n v va pgo tk x2 pt i bs)
  moreover have "0 < elf_take va k n" using 2(1) page_offset_less[of va] by (simp add: elf_take_def)
  ultimately show ?case by simp
qed simp

text \<open>One program header; the result 0 goes on to the next one.\<close>

definition elf_segment :: "nat \<Rightarrow> u8 list \<Rightarrow> u64 \<Rightarrow> elf64_phdr \<Rightarrow> u64 \<times> vmm_state \<Rightarrow> (int \<times> u64 \<times> vmm_state) option" where
  "elf_segment pml4 img sz ph s =
     (case s of (phdr_va, v) \<Rightarrow>
        if p_type ph = ELF_PT_INTERP then Some (OB_ENOSYS, phdr_va, v)
        else if p_type ph = ELF_PT_PHDR then Some (0, p_vaddr ph, v)
        else if p_type ph = ELF_PT_DYNAMIC then Some (0, phdr_va, v)
        else if p_type ph \<noteq> ELF_PT_LOAD then Some (0, phdr_va, v)
        else if p_offset ph + p_filesz ph < p_offset ph then Some (OB_EIO, phdr_va, v)
        else if p_offset ph + p_filesz ph > sz then Some (OB_EIO, phdr_va, v)
        else if p_filesz ph > p_memsz ph then Some (OB_EIO, phdr_va, v)
        else
          let seg_start = p_vaddr ph; seg_end = p_vaddr ph + p_memsz ph;
              page_start = seg_start AND page_mask; page_end = (seg_end + of_nat PAGE_SIZE - 1) AND page_mask in
          if seg_end < seg_start then Some (OB_EINVAL, phdr_va, v)
          else if seg_start < USER_SPACE_START then Some (OB_EINVAL, phdr_va, v)
          else if seg_end - 1 > USER_SPACE_END then Some (OB_EINVAL, phdr_va, v)
          else if \<not> user_range_ok seg_start (p_memsz ph) then Some (OB_EINVAL, phdr_va, v)
          else if page_end < page_start then Some (OB_EINVAL, phdr_va, v)
          else
            (case elf_pages pml4 (seg_flags (p_flags ph AND ELF_PF_X \<noteq> 0)) (unat page_start) (unat page_end) v of
               (rc, v) \<Rightarrow>
                 if rc \<noteq> 0 then Some (rc, phdr_va, v)
                 else map_option (\<lambda>(rc, v). (rc, phdr_va, v))
                        (elf_copy pml4 img (p_offset ph) seg_start 0 (unat (p_filesz ph)) v)))"

definition elf_step :: "nat \<Rightarrow> u8 list \<Rightarrow> u64 \<Rightarrow> elf64_ehdr \<Rightarrow> nat \<Rightarrow> u64 \<times> vmm_state \<Rightarrow> (int \<times> u64 \<times> vmm_state) option" where
  "elf_step pml4 img sz eh i s =
     Option.bind (elf_phdr_at img (e_phoff eh + of_nat i * ELF_PHDR_SIZE)) (\<lambda>ph. elf_segment pml4 img sz ph s)"

text \<open>The entry point, the address of the program headers and their number are given back on success.\<close>

definition elf64_load_into_task ::
  "task_t option \<Rightarrow> u8 list option \<Rightarrow> u64 \<Rightarrow> user_mem \<Rightarrow> (int \<times> (u64 \<times> u64 \<times> u16) option \<times> user_mem) option" where
  "elf64_load_into_task to imgo sz m =
     (case (to, imgo) of
        (Some t, Some img) \<Rightarrow> do {
          d \<leftarrow> elf64_detect (Some img) sz;
          if d = 0 then Some (OB_EINVAL, None, m)
          else if d < 0 then Some (OB_EIO, None, m)
          else case user_task_pml4 t m of
              None \<Rightarrow> Some (OB_EPERM, None, m)
            | Some pml4 \<Rightarrow> do {
                eh \<leftarrow> elf_ehdr_at img;
                let ph_table_bytes = ucast (e_phnum eh) * ucast (e_phentsize eh);
                if e_phnum eh = 0 then Some (OB_EIO, None, m)
                else if e_phoff eh + ph_table_bytes < e_phoff eh then Some (OB_EIO, None, m)
                else if e_phoff eh + ph_table_bytes > sz then Some (OB_EIO, None, m)
                else do {
                  (rc, phdr_va, v) \<leftarrow> until_error (elf_step pml4 img sz eh) [0..<unat (e_phnum eh)] (0, um_vmm m);
                  let m = m\<lparr>um_vmm := v\<rparr>;
                  if rc \<noteq> 0 then Some (rc, None, m) else Some (0, Some (e_entry eh, phdr_va, e_phnum eh), m) } } }
      | _ \<Rightarrow> Some (OB_EINVAL, None, m))"

section \<open>The kernel's own format\<close>

definition OBR_MAGIC :: u32 where [kernel_defs]: "OBR_MAGIC = 0x4F425220"
definition OBR_VERSION :: u16 where [kernel_defs]: "OBR_VERSION = 0x0100"
definition OBR_ARCH_X64 :: u8 where [kernel_defs]: "OBR_ARCH_X64 = 1"
definition OBR_PT_LOAD :: u32 where [kernel_defs]: "OBR_PT_LOAD = 1"
definition OBR_PF_X :: u32 where [kernel_defs]: "OBR_PF_X = 1"
definition OBR_HDR_SIZE :: u64 where [kernel_defs]: "OBR_HDR_SIZE = 80"
definition OBR_PHDR_SIZE :: u64 where [kernel_defs]: "OBR_PHDR_SIZE = 56"

record obr_header =
  o_magic :: u32
  o_version :: u16
  o_arch :: u8
  o_entry_point :: u64
  o_ph_offset :: u64
  o_ph_count :: u16
  o_dep_count :: u64
  o_dep_strings_offset :: u64

record obr_phdr =
  op_type :: u32
  op_flags :: u32
  op_offset :: u64
  op_vaddr :: u64
  op_filesz :: u64
  op_memsz :: u64

definition obr_header_at :: "u8 list \<Rightarrow> obr_header option" where
  "obr_header_at img = do {
     ma \<leftarrow> img_u64 img 0 4; ve \<leftarrow> img_u64 img 4 2; ar \<leftarrow> img_u64 img 6 1; en \<leftarrow> img_u64 img 8 8; po \<leftarrow> img_u64 img 16 8;
     pc \<leftarrow> img_u64 img 24 2; dc \<leftarrow> img_u64 img 40 8; dso \<leftarrow> img_u64 img 48 8;
     Some \<lparr>o_magic = ucast ma, o_version = ucast ve, o_arch = ucast ar, o_entry_point = en, o_ph_offset = po,
           o_ph_count = ucast pc, o_dep_count = dc, o_dep_strings_offset = dso\<rparr> }"

definition obr_phdr_at :: "u8 list \<Rightarrow> u64 \<Rightarrow> obr_phdr option" where
  "obr_phdr_at img a = do {
     ty \<leftarrow> img_u64 img a 4; fl \<leftarrow> img_u64 img (a + 4) 4; off \<leftarrow> img_u64 img (a + 8) 8; va \<leftarrow> img_u64 img (a + 16) 8;
     fs \<leftarrow> img_u64 img (a + 24) 8; ms \<leftarrow> img_u64 img (a + 32) 8;
     Some \<lparr>op_type = ucast ty, op_flags = ucast fl, op_offset = off, op_vaddr = va, op_filesz = fs, op_memsz = ms\<rparr> }"

text \<open>The header as \<open>obr_validate_header\<close> sees it behind its pointer.\<close>

definition obr_validate_header :: "u8 list option \<Rightarrow> u64 \<Rightarrow> int option" where
  "obr_validate_header imgo image_size =
     (case imgo of
        None \<Rightarrow> Some OB_EIO
      | Some img \<Rightarrow>
          if image_size < OBR_HDR_SIZE then Some OB_EIO
          else do {
            h \<leftarrow> obr_header_at img;
            if o_magic h \<noteq> OBR_MAGIC then Some OB_EIO
            else if o_version h \<noteq> OBR_VERSION then Some OB_EIO
            else if o_arch h \<noteq> OBR_ARCH_X64 then Some OB_EIO
            else if o_ph_offset h + ucast (o_ph_count h) * OBR_PHDR_SIZE > image_size then Some OB_EIO
            else Some 0 })"

text \<open>
  \<open>obr_load\<close> writes through pointers into the current address space, here a function from addresses to bytes
  in which the image does not lie.
\<close>

definition obr_copy :: "u8 list \<Rightarrow> u64 \<Rightarrow> u64 \<Rightarrow> nat \<Rightarrow> (u64 \<Rightarrow> u8) \<Rightarrow> (int \<times> (u64 \<Rightarrow> u8)) option" where
  "obr_copy img src dst k mem = map_option (\<lambda>b. (0, mem(dst + of_nat k := b))) (img_get img (src + of_nat k))"

definition obr_load_step :: "u8 list \<Rightarrow> u64 \<Rightarrow> u64 \<Rightarrow> obr_header \<Rightarrow> nat \<Rightarrow> (u64 \<Rightarrow> u8) \<Rightarrow> (int \<times> (u64 \<Rightarrow> u8)) option" where
  "obr_load_step img image_size load_base h i mem = do {
     ph \<leftarrow> obr_phdr_at img (o_ph_offset h + of_nat i * OBR_PHDR_SIZE);
     if op_type ph \<noteq> OBR_PT_LOAD then Some (0, mem)
     else if op_offset ph + op_filesz ph > image_size then Some (OB_EIO, mem)
     else if op_filesz ph > op_memsz ph then Some (OB_EIO, mem)
     else do {
       let dst = load_base + op_vaddr ph;
       (rc, mem) \<leftarrow> until_error (obr_copy img (op_offset ph) dst) [0..<unat (op_filesz ph)] mem;
       Some (rc, fold (\<lambda>k mem. mem(dst + of_nat k := 0)) [unat (op_filesz ph)..<unat (op_memsz ph)] mem) } }"

definition obr_load :: "u8 list option \<Rightarrow> u64 \<Rightarrow> u64 \<Rightarrow> (u64 \<Rightarrow> u8) \<Rightarrow> (int \<times> u64 option \<times> (u64 \<Rightarrow> u8)) option" where
  "obr_load imgo image_size load_base mem =
     (case imgo of
        None \<Rightarrow> Some (OB_EIO, None, mem)
      | Some img \<Rightarrow> do {
          rc \<leftarrow> obr_validate_header imgo image_size;
          if rc \<noteq> 0 then Some (rc, None, mem)
          else do {
            h \<leftarrow> obr_header_at img;
            (rc, mem) \<leftarrow> until_error (obr_load_step img image_size load_base h) [0..<unat (o_ph_count h)] mem;
            if rc \<noteq> 0 then Some (rc, None, mem) else Some (0, Some (load_base + o_entry_point h), mem) } })"

section \<open>Mapping the segments of a program and of a library\<close>

definition pages_of :: "u64 \<Rightarrow> nat" where
  "pages_of memsz = unat ((memsz + of_nat PAGE_SIZE - 1) div of_nat PAGE_SIZE)"

text \<open>
  One step of the loop that maps the pages of a segment. \<open>user_spawn_program\<close> looks the entry up again at once;
  \<open>map_lib_obr\<close> does not.
\<close>

definition segment_page :: "nat \<Rightarrow> u64 \<Rightarrow> u64 \<Rightarrow> nat \<Rightarrow> vmm_state \<Rightarrow> (int \<times> vmm_state) option" where
  "segment_page pml4 dst_va flags p v =
     (let va = dst_va + of_nat p * of_nat PAGE_SIZE in
      case map_new_page pml4 va flags v of (None, v) \<Rightarrow> Some (-1, v) | (Some pg, v) \<Rightarrow> Some (0, v))"

definition spawn_page :: "nat \<Rightarrow> u64 \<Rightarrow> nat \<Rightarrow> vmm_state \<Rightarrow> (int \<times> vmm_state) option" where
  "spawn_page pml4 dst_va p v = do {
     (rc, v) \<leftarrow> segment_page pml4 dst_va (PTE_PRESENT OR PTE_WRITABLE OR PTE_USER) p v;
     if rc \<noteq> 0 then Some (rc, v)
     else case vmm_get_pte pml4 (dst_va + of_nat p * of_nat PAGE_SIZE) v of
         None \<Rightarrow> Some (-1, v)
       | Some (pt, i) \<Rightarrow> if \<not> has_flag (pt_mem v pt i) PTE_PRESENT then Some (-1, v) else Some (0, v) }"

text \<open>The contents of page \<open>p\<close> of a segment: bytes of the file below \<open>filesz\<close>, then zeros.\<close>

definition segment_bytes :: "u8 list \<Rightarrow> u64 \<Rightarrow> u64 \<Rightarrow> nat \<Rightarrow> u8 list option" where
  "segment_bytes img off filesz p =
     those (map (\<lambda>k. if k < unat filesz then img_get img (off + of_nat k) else Some 0) [p * PAGE_SIZE..<p * PAGE_SIZE + PAGE_SIZE])"

definition segment_fill :: "int \<Rightarrow> nat \<Rightarrow> u8 list \<Rightarrow> u64 \<Rightarrow> u64 \<Rightarrow> u64 \<Rightarrow> nat \<Rightarrow> vmm_state \<Rightarrow> (int \<times> vmm_state) option" where
  "segment_fill missing pml4 img off filesz dst_va p v =
     (case vmm_get_pte pml4 (dst_va + of_nat p * of_nat PAGE_SIZE) v of
        None \<Rightarrow> Some (missing, v)
      | Some (pt, i) \<Rightarrow>
          if \<not> has_flag (pt_mem v pt i) PTE_PRESENT then Some (missing, v)
          else do { bs \<leftarrow> segment_bytes img off filesz p; Some (0, mem_write (unat (pt_mem v pt i AND PTE_ADDR_MASK)) bs v) })"

definition lib_step :: "nat \<Rightarrow> u8 list \<Rightarrow> u64 \<Rightarrow> u64 \<Rightarrow> obr_header \<Rightarrow> nat \<Rightarrow> vmm_state \<Rightarrow> (int \<times> vmm_state) option" where
  "lib_step pml4 img sz base_va h i v = do {
     ph \<leftarrow> obr_phdr_at img (o_ph_offset h + of_nat i * OBR_PHDR_SIZE);
     if op_type ph \<noteq> OBR_PT_LOAD then Some (0, v)
     else if op_offset ph + op_filesz ph > sz then Some (-1, v)
     else if \<not> user_range_ok (base_va + op_vaddr ph) (op_memsz ph) then Some (-1, v)
     else do {
       let dst_va = base_va + op_vaddr ph;
       let ps = [0..<pages_of (op_memsz ph)];
       (rc, v) \<leftarrow> until_error (segment_page pml4 dst_va (seg_flags (op_flags ph AND OBR_PF_X \<noteq> 0))) ps v;
       if rc \<noteq> 0 then Some (rc, v)
       else until_error (segment_fill 0 pml4 img (op_offset ph) (op_filesz ph) dst_va) ps v } }"

definition map_lib_obr :: "task_t \<Rightarrow> u8 list \<Rightarrow> u64 \<Rightarrow> u64 \<Rightarrow> user_mem \<Rightarrow> (int \<times> user_mem) option" where
  "map_lib_obr t img sz base_va m = do {
     h \<leftarrow> obr_header_at img;
     if o_magic h \<noteq> OBR_MAGIC then Some (-1, m)
     else if o_arch h \<noteq> OBR_ARCH_X64 then Some (-1, m)
     else if o_ph_offset h + ucast (o_ph_count h) * OBR_PHDR_SIZE > sz then Some (-1, m)
     else case user_task_pml4 t m of
         None \<Rightarrow> Some (-1, m)
       | Some pml4 \<Rightarrow> do {
           (rc, v) \<leftarrow> until_error (lib_step pml4 img sz base_va h) [0..<unat (o_ph_count h)] (um_vmm m);
           Some (rc, m\<lparr>um_vmm := v\<rparr>) } }"

text \<open>\<open>user_spawn_program\<close>, from the checks of the header on: the file fills the first \<open>fsize\<close> bytes of the buffer.\<close>

definition spawn_step :: "nat \<Rightarrow> u8 list \<Rightarrow> u64 \<Rightarrow> obr_header \<Rightarrow> nat \<Rightarrow> vmm_state \<Rightarrow> (int \<times> vmm_state) option" where
  "spawn_step pml4 img fsize h i v = do {
     ph \<leftarrow> obr_phdr_at img (o_ph_offset h + of_nat i * OBR_PHDR_SIZE);
     if op_type ph \<noteq> OBR_PT_LOAD then Some (0, v)
     else if op_offset ph + op_filesz ph > fsize then Some (-1, v)
     else if op_filesz ph > op_memsz ph then Some (-1, v)
     else do {
       let dst_va = USER_IMAGE_BASE + op_vaddr ph;
       let ps = [0..<pages_of (op_memsz ph)];
       (rc, v) \<leftarrow> until_error (spawn_page pml4 dst_va) ps v;
       if rc \<noteq> 0 then Some (rc, v)
       else until_error (segment_fill (-1) pml4 img (op_offset ph) (op_filesz ph) dst_va) ps v } }"

text \<open>The entry point is an offset in the file; the first segment that holds it gives its address.\<close>

primrec spawn_entry :: "u8 list \<Rightarrow> obr_header \<Rightarrow> nat list \<Rightarrow> u64 option" where
  "spawn_entry img h [] = Some USER_IMAGE_BASE"
| "spawn_entry img h (i # is) = do {
     ph \<leftarrow> obr_phdr_at img (o_ph_offset h + of_nat i * OBR_PHDR_SIZE);
     if op_type ph = OBR_PT_LOAD \<and> o_entry_point h \<ge> op_offset ph \<and> o_entry_point h < op_offset ph + op_filesz ph
     then Some (USER_IMAGE_BASE + op_vaddr ph + (o_entry_point h - op_offset ph))
     else spawn_entry img h is }"

definition user_spawn_image :: "task_t \<Rightarrow> u8 list \<Rightarrow> u64 \<Rightarrow> user_mem \<Rightarrow> (int \<times> u64 option \<times> task_t \<times> user_mem) option" where
  "user_spawn_image t img fsize m = do {
     h \<leftarrow> obr_header_at img;
     if o_magic h \<noteq> OBR_MAGIC \<or> o_arch h \<noteq> OBR_ARCH_X64 then Some (-1, None, t, m)
     else case user_setup (Some t) (USER_IMAGE_BASE + o_entry_point h) m of
         (rc, to, m) \<Rightarrow>
           let t = (case to of Some t \<Rightarrow> t | None \<Rightarrow> t) in
           if rc \<noteq> 0 then Some (rc, None, t, m)
           else case user_task_pml4 t m of
               None \<Rightarrow> Some (-1, None, t, m)
             | Some pml4 \<Rightarrow>
                 if o_ph_offset h + ucast (o_ph_count h) * OBR_PHDR_SIZE > fsize then Some (-1, None, t, m)
                 else do {
                   (rc, v) \<leftarrow> until_error (spawn_step pml4 img fsize h) [0..<unat (o_ph_count h)] (um_vmm m);
                   let m = m\<lparr>um_vmm := v\<rparr>;
                   if rc \<noteq> 0 then Some (rc, None, t, m)
                   else do { e \<leftarrow> spawn_entry img h [0..<unat (o_ph_count h)]; Some (0, Some e, t, m) } } }"

end
