(* ===== verification/LoaderProps.thy ===== *)
theory LoaderProps
  imports Loader
begin

text \<open>
  What the loaders read: the ELF loader stays inside the image it is given, whatever the image says; the loader
  of the kernel's own format does not.
\<close>

section \<open>Reads that succeed\<close>

lemma those_total: "(\<forall>x\<in>set xs. x \<noteq> None) \<Longrightarrow> those xs \<noteq> None"
  by (induction xs) (auto split: option.split)

lemma those_None: "None \<in> set xs \<Longrightarrow> those xs = None"
  by (induction xs) (auto split: option.split)

lemma unat_add_le: "unat (a + of_nat k :: 'a::len word) \<le> unat a + k"
proof -
  have "unat (a + of_nat k) \<le> unat a + unat (of_nat k :: 'a word)" by (simp add: unat_word_ariths)
  also have "unat (of_nat k :: 'a word) \<le> k" by (simp add: unat_of_nat)
  finally show ?thesis by simp
qed

lemma img_bytes_total: "unat a + n \<le> length img \<Longrightarrow> img_bytes img a n \<noteq> None"
  unfolding img_bytes_def
  by (rule those_total) (auto simp: img_get_def intro: le_less_trans [OF unat_add_le])

lemma img_u64_total: "unat a + n \<le> length img \<Longrightarrow> \<exists>w. img_u64 img a n = Some w"
  using img_bytes_total [of a n img] by (auto simp: img_u64_def)

lemma img_field_total:
  assumes "unat a + (k + n) \<le> length img"
  shows "\<exists>w. img_u64 img (a + of_nat k) n = Some w"
  using assms unat_add_le [of a k] by (intro img_u64_total) simp

lemma elf_phdr_at_total:
  assumes "unat a + 56 \<le> length img"
  shows "\<exists>ph. elf_phdr_at img a = Some ph"
proof -
  have "\<exists>w. img_u64 img a 4 = Some w" "\<exists>w. img_u64 img (a + 4) 4 = Some w" "\<exists>w. img_u64 img (a + 8) 8 = Some w"
    "\<exists>w. img_u64 img (a + 16) 8 = Some w" "\<exists>w. img_u64 img (a + 32) 8 = Some w" "\<exists>w. img_u64 img (a + 40) 8 = Some w"
    using assms img_field_total [of a 0 4 img] img_field_total [of a 4 4 img] img_field_total [of a 8 8 img]
      img_field_total [of a 16 8 img] img_field_total [of a 32 8 img] img_field_total [of a 40 8 img] by auto
  then show ?thesis by (auto simp: elf_phdr_at_def)
qed

lemma elf_ehdr_at_total:
  assumes "64 \<le> length img"
  shows "\<exists>eh. elf_ehdr_at img = Some eh"
proof -
  have "\<exists>w. img_u64 img 16 2 = Some w" "\<exists>w. img_u64 img 18 2 = Some w" "\<exists>w. img_u64 img 24 8 = Some w"
    "\<exists>w. img_u64 img 32 8 = Some w" "\<exists>w. img_u64 img 54 2 = Some w" "\<exists>w. img_u64 img 56 2 = Some w"
    using assms by (auto intro!: img_u64_total)
  then show ?thesis by (auto simp: elf_ehdr_at_def)
qed

lemma until_error_total:
  "(\<And>x s. x \<in> set xs \<Longrightarrow> f x s \<noteq> None) \<Longrightarrow> until_error f xs s \<noteq> None"
  by (induction xs arbitrary: s) (force split: option.split)+

lemma until_error_all:
  assumes "until_error f xs s = Some (0, s')" and "x \<in> set xs"
  shows "\<exists>t t'. f x t = Some (0, t')"
  using assms
proof (induction xs arbitrary: s)
  case (Cons a xs)
  from Cons.prems(1) obtain s1 where "f a s = Some (0, s1)" "until_error f xs s1 = Some (0, s')"
    by (auto split: option.splits if_splits)
  with Cons.IH Cons.prems(2) show ?case by auto
qed simp

lemma unat_add_no_wrap:
  assumes "\<not> (a + b :: u64) < a" shows "unat (a + b) = unat a + unat b"
proof (rule ccontr)
  assume n: "unat (a + b) \<noteq> unat a + unat b"
  have "unat a + unat b \<ge> 2 ^ 64" using n by (auto simp: unat_word_ariths not_le intro: mod_less)
  moreover have "unat a < 2 ^ 64" "unat b < 2 ^ 64" using unsigned_less [of a] unsigned_less [of b] by simp_all
  ultimately have "unat (a + b) = unat a + unat b - 2 ^ 64" by (simp add: unat_word_ariths le_mod_geq)
  with \<open>unat b < 2 ^ 64\<close> \<open>unat a + unat b \<ge> 2 ^ 64\<close> assms show False by (simp add: word_less_nat_alt)
qed

section \<open>ELF\<close>

lemma elf_copy_total:
  "unat off + n \<le> length img \<Longrightarrow> elf_copy pml4 img off start k n v \<noteq> None"
proof (induction pml4 img off start k n v rule: elf_copy.induct)
  case (1 pml4 img off start k n v)
  have tk: "k < n \<Longrightarrow> k + elf_take (start + of_nat k) k n \<le> n" by (simp add: elf_take_def)
  have "k < n \<Longrightarrow> img_bytes img (off + of_nat k) (elf_take (start + of_nat k) k n) \<noteq> None"
    using 1(2) tk unat_add_le [of off k] by (intro img_bytes_total) simp
  then show ?case
    using 1 by (subst elf_copy.simps) (auto simp del: elf_copy.simps simp: Let_def split: option.split)
qed

lemma elf_segment_total:
  assumes "unat sz \<le> length img"
  shows "elf_segment pml4 img sz ph s \<noteq> None"
proof -
  have "elf_copy pml4 img (p_offset ph) st 0 (unat (p_filesz ph)) v \<noteq> None"
    if "\<not> p_offset ph + p_filesz ph < p_offset ph" "\<not> p_offset ph + p_filesz ph > sz" for st v
    using that assms unat_add_no_wrap [OF that(1)] by (intro elf_copy_total) (simp add: word_less_nat_alt)
  then show ?thesis
    by (auto simp: elf_segment_def Let_def simp del: elf_copy.simps elf_pages.simps split: prod.split)
qed

lemma elf_load_step_total:
  assumes "unat sz \<le> length img" and "ucast (e_phentsize eh) = ELF_PHDR_SIZE"
    and "\<not> e_phoff eh + ucast (e_phnum eh) * ucast (e_phentsize eh) < e_phoff eh"
    and "\<not> e_phoff eh + ucast (e_phnum eh) * ucast (e_phentsize eh) > sz"
    and "i < unat (e_phnum eh)"
  shows "elf_step pml4 img sz eh i s \<noteq> None"
proof -
  have n: "unat (e_phnum eh) < 2 ^ 16" using unsigned_less [of "e_phnum eh"] by simp
  have t: "unat (ucast (e_phnum eh) * ELF_PHDR_SIZE :: u64) = unat (e_phnum eh) * 56"
    using n by (simp add: unat_word_ariths unsigned_ucast_eq take_bit_nat_eq_self kernel_defs)
  have "unat (e_phoff eh) + unat (e_phnum eh) * 56 \<le> unat sz"
    using assms(3,4) unat_add_no_wrap [OF assms(3)] t unfolding assms(2) by (simp add: word_less_nat_alt)
  moreover have "unat (e_phoff eh + of_nat i * ELF_PHDR_SIZE) \<le> unat (e_phoff eh) + i * 56"
    using unat_add_le [of "e_phoff eh" "i * 56"] by (simp add: kernel_defs)
  ultimately have "unat (e_phoff eh + of_nat i * ELF_PHDR_SIZE) + 56 \<le> length img"
    using assms(1,5) by linarith
  then obtain ph where "elf_phdr_at img (e_phoff eh + of_nat i * ELF_PHDR_SIZE) = Some ph"
    using elf_phdr_at_total by blast
  then show ?thesis using elf_segment_total [OF assms(1)] by (simp add: elf_step_def)
qed

lemma elf64_detect_total:
  assumes "unat sz \<le> length img" shows "elf64_detect (Some img) sz \<noteq> None"
proof (cases "sz < ELF_EHDR_SIZE")
  case False
  then have "64 \<le> length img" using assms by (simp add: word_less_nat_alt kernel_defs)
  then show ?thesis
    using False elf_ehdr_at_total [of img] img_bytes_total [of 0 6 img] by (auto simp: elf64_detect_def)
qed (simp add: elf64_detect_def)

lemma elf64_detect_accepts:
  assumes "elf64_detect (Some img) sz = Some 1"
  obtains eh where "elf_ehdr_at img = Some eh" and "ucast (e_phentsize eh) = ELF_PHDR_SIZE"
  using assms by (auto simp: elf64_detect_def bind_eq_Some_conv split: if_splits)

lemma elf64_detect_result: "elf64_detect (Some img) sz = Some d \<Longrightarrow> d = 1 \<or> d = 0 \<or> d = -1"
  by (auto simp: elf64_detect_def bind_eq_Some_conv split: if_splits)

lemma elf_segment_accepts:
  assumes "elf_segment pml4 img sz ph s = Some (0, s')" and "p_type ph = ELF_PT_LOAD"
  shows "unat (p_offset ph) + unat (p_filesz ph) \<le> unat sz \<and> p_filesz ph \<le> p_memsz ph \<and>
         (p_memsz ph \<noteq> 0 \<longrightarrow> unat (p_vaddr ph) + unat (p_memsz ph) \<le> 2 ^ 47)"
proof -
  have c: "\<not> p_offset ph + p_filesz ph < p_offset ph" "\<not> p_offset ph + p_filesz ph > sz" "\<not> p_filesz ph > p_memsz ph"
    "\<not> p_vaddr ph + p_memsz ph < p_vaddr ph" "\<not> p_vaddr ph + p_memsz ph - 1 > USER_SPACE_END"
    using assms by (auto simp: elf_segment_def Let_def kernel_defs split: prod.splits if_splits)
  have "p_memsz ph \<noteq> 0 \<longrightarrow> unat (p_vaddr ph) + unat (p_memsz ph) \<le> 2 ^ 47"
  proof
    assume "p_memsz ph \<noteq> 0"
    then have "0 < unat (p_vaddr ph + p_memsz ph)" using unat_add_no_wrap [OF c(4)] by (simp add: unat_gt_0)
    then have "unat (p_vaddr ph + p_memsz ph - 1) = unat (p_vaddr ph + p_memsz ph) - 1"
      by (metis unat_gt_0 unat_minus_one)
    then show "unat (p_vaddr ph) + unat (p_memsz ph) \<le> 2 ^ 47"
      using c(5) unat_add_no_wrap [OF c(4)] by (simp add: word_less_nat_alt kernel_defs)
  qed
  with c(2,3) unat_add_no_wrap [OF c(1)] show ?thesis by (simp add: word_less_nat_alt word_le_nat_alt not_less)
qed

text \<open>C25. The ELF loader is safe on every image, however malformed: it never reads a byte outside the buffer, and when it
  accepts an image every loadable segment lies within the file and within the user half of the address space, without
  the sums having wrapped around.\<close>

theorem elf64_load_in_bounds:
  assumes "unat sz \<le> length img"
  shows "\<exists>rc out m'. elf64_load_into_task to (Some img) sz m = Some (rc, out, m') \<and>
    (rc = 0 \<longrightarrow> (\<exists>eh. elf_ehdr_at img = Some eh \<and> (\<exists>pv. out = Some (e_entry eh, pv, e_phnum eh)) \<and>
      (\<forall>i < unat (e_phnum eh). \<exists>ph. elf_phdr_at img (e_phoff eh + of_nat i * ELF_PHDR_SIZE) = Some ph \<and>
         (p_type ph = ELF_PT_LOAD \<longrightarrow>
            unat (p_offset ph) + unat (p_filesz ph) \<le> unat sz \<and> p_filesz ph \<le> p_memsz ph \<and>
            (p_memsz ph \<noteq> 0 \<longrightarrow> unat (p_vaddr ph) + unat (p_memsz ph) \<le> 2 ^ 47)))))"
proof -
  obtain d where d: "elf64_detect (Some img) sz = Some d" using elf64_detect_total [OF assms] by blast
  show ?thesis
  proof (cases "\<exists>t pml4. to = Some t \<and> d = 1 \<and> user_task_pml4 t m = Some pml4")
    case False
    then show ?thesis using d elf64_detect_result [OF d]
      by (auto simp: elf64_load_into_task_def split: option.split)
  next
    case True
    then obtain t pml4 where t: "to = Some t" "d = 1" "user_task_pml4 t m = Some pml4" by blast
    from d t(2) obtain eh where eh: "elf_ehdr_at img = Some eh" "ucast (e_phentsize eh) = ELF_PHDR_SIZE"
      by (auto elim: elf64_detect_accepts)
    define tab :: u64 where "tab = e_phoff eh + ucast (e_phnum eh) * ucast (e_phentsize eh)"
    let ?run = "until_error (elf_step pml4 img sz eh) [0..<unat (e_phnum eh)] (0, um_vmm m)"
    show ?thesis
    proof (cases "e_phnum eh = 0 \<or> tab < e_phoff eh \<or> tab > sz")
      case True
      then show ?thesis using d t eh by (auto simp: elf64_load_into_task_def tab_def Let_def)
    next
      case False
      then have "?run \<noteq> None"
        using elf_load_step_total [OF assms eh(2)] unfolding tab_def by (intro until_error_total) auto
      then obtain rc pv v where r: "?run = Some (rc, pv, v)" by auto
      have "\<exists>ph. elf_phdr_at img (e_phoff eh + of_nat i * ELF_PHDR_SIZE) = Some ph \<and>
         (p_type ph = ELF_PT_LOAD \<longrightarrow>
            unat (p_offset ph) + unat (p_filesz ph) \<le> unat sz \<and> p_filesz ph \<le> p_memsz ph \<and>
            (p_memsz ph \<noteq> 0 \<longrightarrow> unat (p_vaddr ph) + unat (p_memsz ph) \<le> 2 ^ 47))"
        if "rc = 0" "i < unat (e_phnum eh)" for i
        using until_error_all [OF r [unfolded that(1)], of i] that(2) elf_segment_accepts
        by (auto simp: elf_step_def bind_eq_Some_conv)
      then show ?thesis using d t eh False r by (auto simp: elf64_load_into_task_def tab_def Let_def)
    qed
  qed
qed

text \<open>An ELF image whose only segment claims bytes at an offset that wraps around.\<close>

definition evil_elf :: "u8 list" where
  "evil_elf =
     [0x7F, 0x45, 0x4C, 0x46, 2, 1, 1] @ replicate 9 0 @ [2, 0, 62, 0, 1, 0, 0, 0] @ replicate 8 0 @
     [64, 0, 0, 0, 0, 0, 0, 0] @ replicate 8 0 @ [0, 0, 0, 0, 64, 0, 56, 0, 1, 0, 0, 0, 0, 0, 0, 0] @
     [1, 0, 0, 0, 5, 0, 0, 0, 0xF0, 0xFF, 0xFF, 0xFF, 0xFF, 0xFF, 0xFF, 0xFF] @ replicate 16 0 @
     [32, 0, 0, 0, 0, 0, 0, 0, 32, 0, 0, 0, 0, 0, 0, 0] @ replicate 8 0"

lemma evil_elf_detect: "length evil_elf = 120 \<and> elf64_detect (Some evil_elf) 120 = Some 1"
  by code_simp

theorem elf64_load_in_bounds_witness:
  "elf64_detect (Some evil_elf) 120 = Some 1 \<and>
   (\<forall>m. \<exists>rc out m'. elf64_load_into_task (Some zero_task) (Some evil_elf) 120 m = Some (rc, out, m'))"
proof (intro conjI allI)
  show "elf64_detect (Some evil_elf) 120 = Some 1" by (rule conjunct2 [OF evil_elf_detect])
  have "unat (120 :: u64) \<le> length evil_elf" using conjunct1 [OF evil_elf_detect] by simp
  from elf64_load_in_bounds [OF this]
  show "\<exists>rc out m'. elf64_load_into_task (Some zero_task) (Some evil_elf) 120 m = Some (rc, out, m')" for m by blast
qed

section \<open>The kernel's own format\<close>

lemma until_error_first: "f 0 s = None \<Longrightarrow> 0 < n \<Longrightarrow> until_error f [0..<n] s = None"
  by (simp add: upt_conv_Cons)

lemma segment_bytes_outside:
  "0 < unat filesz \<Longrightarrow> length img \<le> unat off \<Longrightarrow> segment_bytes img off filesz 0 = None"
  unfolding segment_bytes_def
  by (rule those_None) (auto simp: image_iff img_get_def kernel_defs intro!: exI [of _ 0])

text \<open>C26. The loaders of the kernel's own format read outside the image: an image whose first segment has an offset
  beyond the image and a length that makes the sum wrap around passes every check, and both \<open>obr_load\<close> and the loader of
  \<open>user_spawn_program\<close> (once it has mapped the page) then copy bytes from outside the image into the program.\<close>

theorem obr_segment_escapes:
  assumes "obr_validate_header (Some img) sz = Some 0"
    and "obr_header_at img = Some h" and "o_ph_count h \<noteq> 0" and "obr_phdr_at img (o_ph_offset h) = Some ph"
    and "op_type ph = OBR_PT_LOAD" and "length img \<le> unat (op_offset ph)" and "op_offset ph + op_filesz ph \<le> sz"
    and "0 < op_filesz ph" and "op_filesz ph \<le> op_memsz ph" and "op_memsz ph \<le> of_nat PAGE_SIZE"
  shows "obr_load (Some img) sz base mem = None \<and>
    (\<forall>pml4 v v'. spawn_page pml4 (USER_IMAGE_BASE + op_vaddr ph) 0 v = Some (0, v') \<longrightarrow> spawn_step pml4 img sz h 0 v = None)"
proof (intro conjI allI impI)
  have "0 < unat (op_filesz ph)" using assms(8) by (simp add: word_less_nat_alt)
  note f = this
  have "img_get img (op_offset ph) = None" using assms(6) by (simp add: img_get_def)
  then have "obr_load_step img sz base h 0 mem = None"
    using assms(4-9) until_error_first [of "obr_copy img (op_offset ph) (base + op_vaddr ph)", OF _ f]
    by (simp add: obr_load_step_def obr_copy_def not_less [symmetric] del: until_error.simps)
  moreover have "0 < unat (o_ph_count h)" using assms(3) by (simp add: unat_gt_0)
  ultimately show "obr_load (Some img) sz base mem = None"
    using assms(1,2) by (simp add: obr_load_def until_error_first)
next
  fix pml4 v v' assume sp: "spawn_page pml4 (USER_IMAGE_BASE + op_vaddr ph) 0 v = Some (0, v')"
  have f: "0 < unat (op_filesz ph)" using assms(8) by (simp add: word_less_nat_alt)
  have "unat (op_memsz ph + of_nat PAGE_SIZE - 1) = unat (op_memsz ph) + 4095"
    using assms(10) unat_add_no_wrap [of "op_memsz ph" 4095] by (simp add: word_less_nat_alt word_le_nat_alt unat_word_ariths kernel_defs)
  moreover have "0 < unat (op_memsz ph)" "unat (op_memsz ph) \<le> 4096"
    using f assms(9,10) by (auto simp: word_le_nat_alt kernel_defs)
  ultimately have one: "pages_of (op_memsz ph) = 1"
    by (simp add: pages_of_def unat_div kernel_defs)
  from sp obtain pt i where "vmm_get_pte pml4 (USER_IMAGE_BASE + op_vaddr ph) v' = Some (pt, i)" "has_flag (pt_mem v' pt i) PTE_PRESENT"
    by (auto simp: spawn_page_def bind_eq_Some_conv split: if_splits option.splits)
  then show "spawn_step pml4 img sz h 0 v = None"
    using assms(4-9) sp one segment_bytes_outside [OF f assms(6)]
    by (simp add: spawn_step_def segment_fill_def not_less [symmetric])
qed

definition evil_obr :: "u8 list" where
  "evil_obr =
     [0x20, 0x52, 0x42, 0x4F, 0, 1, 1, 0] @ replicate 8 0 @ [80, 0, 0, 0, 0, 0, 0, 0, 1, 0] @ replicate 54 0 @
     [1, 0, 0, 0, 5, 0, 0, 0, 0xF0, 0xFF, 0xFF, 0xFF, 0xFF, 0xFF, 0xFF, 0xFF] @ replicate 8 0 @
     [32, 0, 0, 0, 0, 0, 0, 0, 32, 0, 0, 0, 0, 0, 0, 0] @ replicate 16 0"

definition evil_header :: obr_header where
  "evil_header = \<lparr>o_magic = OBR_MAGIC, o_version = OBR_VERSION, o_arch = 1, o_entry_point = 0, o_ph_offset = 80, o_ph_count = 1,
     o_dep_count = 0, o_dep_strings_offset = 0\<rparr>"

definition evil_phdr :: obr_phdr where
  "evil_phdr = \<lparr>op_type = 1, op_flags = 5, op_offset = 0xFFFFFFFFFFFFFFF0, op_vaddr = 0, op_filesz = 32, op_memsz = 32\<rparr>"

lemma evil_obr_valid: "length evil_obr = 136 \<and> obr_validate_header (Some evil_obr) 136 = Some 0"
  by code_simp

lemma evil_obr_headers: "obr_header_at evil_obr = Some evil_header \<and> obr_phdr_at evil_obr 80 = Some evil_phdr"
  by code_simp

theorem obr_segment_escapes_witness:
  "obr_validate_header (Some evil_obr) 136 = Some 0 \<and> (\<forall>base mem. obr_load (Some evil_obr) 136 base mem = None)"
  using evil_obr_valid evil_obr_headers obr_segment_escapes [of evil_obr 136 evil_header evil_phdr]
  by (simp add: evil_header_def evil_phdr_def kernel_defs)

end
