(* ===== verification/LinuxStack.thy ===== *)
theory LinuxStack
  imports Loader
begin

text \<open>
  Initial stacks: \<open>user_stack_write\<close> and \<open>user_build_argv\<close> (\<open>user/user.c\<close>) and \<open>linux_build_stack\<close>
  (\<open>user/elf_loader.c\<close>). The loops that go down from the last argument to the first are recursions that
  treat the tail of the list before its head.
\<close>

section \<open>Writing to the user stack\<close>

function stack_write_loop :: "user_ctx \<Rightarrow> nat \<Rightarrow> u8 list \<Rightarrow> vmm_state \<Rightarrow> int \<times> vmm_state" where
  "stack_write_loop c off bs v =
     (if bs = [] then (0, v)
      else let page = off div PAGE_SIZE; within = off mod PAGE_SIZE in
        if page \<ge> USER_STACK_PAGES then (-1, v)
        else let chunk = min (PAGE_SIZE - within) (length bs) in
          stack_write_loop c (off + chunk) (drop chunk bs) (mem_write (unat (c_stack_phys c ! page) + within) (take chunk bs) v))"
  by pat_completeness auto
termination by (relation "measure (\<lambda>(c, off, bs, v). length bs)") (auto simp: kernel_defs)

declare stack_write_loop.simps [simp del]

definition user_stack_write :: "user_ctx \<Rightarrow> u64 \<Rightarrow> u8 list \<Rightarrow> vmm_state \<Rightarrow> int \<times> vmm_state" where
  "user_stack_write c uva bs v =
     (if uva < c_stack_bottom c \<or> uva + of_nat (length bs) > c_stack_top c then (-1, v)
      else stack_write_loop c (unat (uva - c_stack_bottom c)) bs v)"

text \<open>The bytes \<open>s[0] .. s[len]\<close>, where \<open>len\<close> stops at the NUL or at \<open>lim\<close>.\<close>

definition c_copy :: "nat \<Rightarrow> string \<Rightarrow> u8 list" where
  "c_copy lim s = map (\<lambda>i. of_char (char_at s i)) [0..<Suc (min (length s) lim)]"

definition le_bytes :: "u64 \<Rightarrow> u8 list" where
  "le_bytes w = map (\<lambda>i. ucast (drop_bit (8 * i) w)) [0..<8]"

text \<open>The argument \<open>i\<close> of an array that may be NULL and may hold NULL.\<close>

definition arg_at :: "(nat \<Rightarrow> string option) option \<Rightarrow> nat \<Rightarrow> string" where
  "arg_at argv i = (case argv of None \<Rightarrow> [] | Some f \<Rightarrow> (case f i of None \<Rightarrow> [] | Some s \<Rightarrow> s))"

definition clamp :: "int \<Rightarrow> int \<Rightarrow> nat" where
  "clamp hi n = nat (if n < 0 then 0 else if n > hi then hi else n)"

section \<open>Native programs\<close>

text \<open>Here the results of the writes are ignored.\<close>

definition argv_push :: "user_ctx \<Rightarrow> u8 list \<Rightarrow> u64 \<times> vmm_state \<Rightarrow> u64 \<times> vmm_state" where
  "argv_push c bs s = (let sp = (fst s - of_nat (length bs)) AND NOT 0xF in (sp, snd (user_stack_write c sp bs (snd s))))"

primrec argv_strings :: "user_ctx \<Rightarrow> string list \<Rightarrow> u64 \<times> vmm_state \<Rightarrow> u64 list \<times> u64 \<times> vmm_state" where
  "argv_strings c [] s = ([], s)"
| "argv_strings c (x # xs) s =
     (case argv_strings c xs s of (ptrs, s) \<Rightarrow> (case argv_push c (c_copy 511 x) s of (sp, v) \<Rightarrow> (sp # ptrs, sp, v)))"

definition user_build_argv :: "user_ctx \<Rightarrow> int \<Rightarrow> (nat \<Rightarrow> string option) option \<Rightarrow> vmm_state \<Rightarrow> u64 \<times> vmm_state" where
  "user_build_argv c argc argv v =
     (let n = clamp 16 argc in
      case argv_strings c (map (arg_at argv) [0..<n]) (c_stack_top c, v) of
        (ptrs, sp, v) \<Rightarrow>
          let sp = (sp - (of_nat n + 1) * 8) AND NOT 0xF;
              v = fold (\<lambda>i v. snd (user_stack_write c (sp + of_nat i * 8) (le_bytes (ptrs ! i)) v)) [0..<n] v;
              v = snd (user_stack_write c (sp + of_nat n * 8) (le_bytes 0) v);
              sp = (sp - 16) AND NOT 0xF
          in (sp, snd (user_stack_write c sp (le_bytes (sp + 16) @ le_bytes (of_nat n)) v)))"

section \<open>Linux programs\<close>

text \<open>A step that may fail: no result, and the function returns 0 with the state it has reached.\<close>

definition and_then :: "'a option \<times> 's \<Rightarrow> ('a \<Rightarrow> 's \<Rightarrow> 'b option \<times> 's) \<Rightarrow> 'b option \<times> 's" where
  "and_then r f = (case r of (None, s) \<Rightarrow> (None, s) | (Some x, s) \<Rightarrow> f x s)"

definition push :: "user_ctx \<Rightarrow> u8 list \<Rightarrow> u64 \<times> vmm_state \<Rightarrow> u64 option \<times> u64 \<times> vmm_state" where
  "push c bs s =
     (let sp = (fst s - of_nat (length bs)) AND NOT 0xF in
      case user_stack_write c sp bs (snd s) of (rc, v) \<Rightarrow> (if rc \<noteq> 0 then None else Some sp, sp, v))"

primrec push_list :: "user_ctx \<Rightarrow> u8 list list \<Rightarrow> u64 \<times> vmm_state \<Rightarrow> u64 list option \<times> u64 \<times> vmm_state" where
  "push_list c [] s = (Some [], s)"
| "push_list c (b # bs) s =
     and_then (push_list c bs s) (\<lambda>ptrs s. and_then (push c b s) (\<lambda>p s. (Some (p # ptrs), s)))"

definition auxv :: "u64 \<Rightarrow> u64 \<Rightarrow> u16 \<Rightarrow> u64 \<Rightarrow> u64 \<Rightarrow> (u64 \<times> u64) list" where
  "auxv entry_va phdr_va phnum rand_va execfn_va =
     [(6, 4096), (9, entry_va), (3, phdr_va), (5, ucast phnum), (4, ELF_PHDR_SIZE), (11, 0), (12, 0), (13, 0), (14, 0),
      (17, 100), (25, rand_va), (31, execfn_va), (0, 0)]"

text \<open>The 16 random bytes, or the fixed pattern when the generator fails.\<close>

definition at_random :: "u8 list option \<Rightarrow> u8 list" where
  "at_random rnd = (case rnd of Some r \<Rightarrow> r | None \<Rightarrow> map (\<lambda>i. of_nat (i * 7 + 3)) [0..<16])"

definition build_linux :: "user_ctx \<Rightarrow> u8 list option \<Rightarrow> nat \<Rightarrow> (nat \<Rightarrow> string) \<Rightarrow> nat \<Rightarrow> (nat \<Rightarrow> string) \<Rightarrow>
    (u64 \<Rightarrow> u64 \<Rightarrow> (u64 \<times> u64) list) \<Rightarrow> string option \<Rightarrow> vmm_state \<Rightarrow> u64 option \<times> u64 \<times> vmm_state" where
  "build_linux c rnd argc argv envc envp aux execfn v =
     and_then (push c (at_random rnd) (c_stack_top c, v)) (\<lambda>rand_va s.
     and_then (case execfn of Some (x # xs) \<Rightarrow> push c (c_copy 255 (x # xs)) s | _ \<Rightarrow> (Some 0, s)) (\<lambda>execfn_va s.
     and_then (push_list c (map (\<lambda>i. c_copy 511 (envp i)) [0..<envc]) s) (\<lambda>env_ptrs s.
     and_then (push_list c (map (\<lambda>i. c_copy 511 (argv i)) [0..<argc]) s) (\<lambda>arg_ptrs s.
     and_then (push_list c (map (\<lambda>(t, x). le_bytes t @ le_bytes x) (aux rand_va execfn_va)) s) (\<lambda>_ s.
     and_then (push c (le_bytes 0) s) (\<lambda>_ s.
     and_then (push_list c (map le_bytes env_ptrs) s) (\<lambda>_ s.
     and_then (push c (le_bytes 0) s) (\<lambda>_ s.
     and_then (push_list c (map le_bytes arg_ptrs) s) (\<lambda>_ s.
     push c (le_bytes (of_nat argc)) s)))))))))"

definition linux_build_stack :: "task_t \<Rightarrow> u8 list option \<Rightarrow> int \<Rightarrow> (nat \<Rightarrow> string option) option \<Rightarrow>
    int \<Rightarrow> (nat \<Rightarrow> string option) option \<Rightarrow> u64 \<Rightarrow> u64 \<Rightarrow> u16 \<Rightarrow> string option \<Rightarrow> user_mem \<Rightarrow> u64 \<times> user_mem" where
  "linux_build_stack t rnd argc argv envc envp entry_va phdr_va phnum execfn m =
     (case user_get_ctx t m of
        None \<Rightarrow> (0, m)
      | Some c \<Rightarrow>
          (case build_linux c rnd (clamp 32 argc) (arg_at argv) (clamp 32 envc) (arg_at envp)
                  (auxv entry_va phdr_va phnum) execfn (um_vmm m) of
             (None, sp, v) \<Rightarrow> (0, m\<lparr>um_vmm := v\<rparr>)
           | (Some rsp, sp, v) \<Rightarrow> (rsp, m\<lparr>um_vmm := v\<rparr>)))"

end
