(* ===== verification/LinuxStackProps.thy ===== *)
theory LinuxStackProps
  imports LinuxStack
begin

text \<open>
  The contents of a stack as a function from offsets to bytes, what a write to it does, and where
  \<open>linux_build_stack\<close> puts the arguments.
\<close>

section \<open>Bytes of memory\<close>

lemma byte_of_word:
  fixes w :: u64
  assumes "i < 8" and "j < 8"
  shows "ucast (drop_bit (8 * i) ((w AND NOT (push_bit (8 * j) 0xFF)) OR push_bit (8 * j) (ucast (b :: u8)))) =
         (if i = j then b else (ucast (drop_bit (8 * i) w) :: u8))"
proof (rule bit_word_eqI)
  fix n assume "n < LENGTH(8)"
  then have n: "n < 8" by simp
  have m: "(0xFF :: u64) = mask 8" by (simp add: mask_eq_exp_minus_1)
  consider "i = j" | "i < j" | "j < i" by linarith
  then show "bit (ucast (drop_bit (8 * i) ((w AND NOT (push_bit (8 * j) 0xFF)) OR push_bit (8 * j) (ucast b))) :: u8) n =
      bit (if i = j then b else (ucast (drop_bit (8 * i) w) :: u8)) n"
  proof cases
    case 1 then show ?thesis using n assms unfolding m by (auto simp: bit_simps)
  next
    case 2
    then have "\<not> 8 * j \<le> 8 * i + n" using n by linarith
    then show ?thesis using n assms 2 unfolding m by (auto simp: bit_simps)
  next
    case 3
    then have "8 \<le> 8 * i + n - 8 * j" by linarith
    then show ?thesis using n assms 3 bit_imp_le_length [of b "8 * i + n - 8 * j"] unfolding m by (auto simp: bit_simps)
  qed
qed

lemma mem_put_get:
  "mem_get (mem_put a b v) x = (if x = a then b else mem_get v x)"
proof (cases "x div PAGE_SIZE = a div PAGE_SIZE \<and> x mod PAGE_SIZE div 8 = a mod PAGE_SIZE div 8")
  case False
  then show ?thesis by (auto simp: mem_get_def mem_put_def set_entry_def)
next
  case True
  have "x = a \<longleftrightarrow> x mod 8 = a mod 8"
  proof
    assume e: "x mod 8 = a mod 8"
    have "x mod 4096 mod 8 = x mod 8" "a mod 4096 mod 8 = a mod 8" by (simp_all add: mod_mod_cancel)
    with e True have "x mod 4096 = a mod 4096"
      unfolding kernel_defs by (metis div_mult_mod_eq)
    with True show "x = a" unfolding kernel_defs by (metis div_mult_mod_eq)
  qed simp
  then show ?thesis using True byte_of_word [of "x mod 8" "a mod 8" _ b]
    by (simp add: mem_get_def mem_put_def set_entry_def)
qed

lemma mem_write_get:
  "mem_get (mem_write a bs v) x = (if a \<le> x \<and> x < a + length bs then bs ! (x - a) else mem_get v x)"
  by (induction bs arbitrary: a v) (auto simp: mem_put_get nth_Cons')

section \<open>The stack of a process\<close>

text \<open>A context as \<open>setup_user_memory\<close> leaves it: sixteen different frames. The byte at an offset from the bottom.\<close>

definition stack_ok :: "user_ctx \<Rightarrow> bool" where
  "stack_ok c \<longleftrightarrow> c_stack_bottom c = USER_STACK_BOTTOM \<and> c_stack_top c = USER_STACK_TOP \<and> length (c_stack_phys c) = USER_STACK_PAGES \<and>
     distinct (c_stack_phys c) \<and> (\<forall>p \<in> set (c_stack_phys c). unat p mod PAGE_SIZE = 0)"

definition stk :: "user_ctx \<Rightarrow> vmm_state \<Rightarrow> nat \<Rightarrow> u8" where
  "stk c v a = mem_get v (unat (c_stack_phys c ! (a div PAGE_SIZE)) + a mod PAGE_SIZE)"

lemma stack_addr_inj:
  assumes "stack_ok c" and "a < 65536" and "b < 65536"
    and "unat (c_stack_phys c ! (a div PAGE_SIZE)) + x = unat (c_stack_phys c ! (b div PAGE_SIZE)) + y" and "x < PAGE_SIZE" and "y < PAGE_SIZE"
  shows "a div PAGE_SIZE = b div PAGE_SIZE \<and> x = y"
proof -
  let ?p = "unat (c_stack_phys c ! (a div PAGE_SIZE))" and ?q = "unat (c_stack_phys c ! (b div PAGE_SIZE))"
  have l: "a div PAGE_SIZE < length (c_stack_phys c)" "b div PAGE_SIZE < length (c_stack_phys c)"
    using assms(1-3) by (simp_all add: stack_ok_def kernel_defs)
  then have "?p mod PAGE_SIZE = 0" "?q mod PAGE_SIZE = 0" using assms(1) by (auto simp: stack_ok_def)
  then have "(?p + x) mod PAGE_SIZE = x" "(?q + y) mod PAGE_SIZE = y"
    using assms(5,6) by (simp_all add: mod_add_left_eq [symmetric, of ?p] mod_add_left_eq [symmetric, of ?q])
  with assms(4) have "x = y" by simp
  with assms(4) have "c_stack_phys c ! (a div PAGE_SIZE) = c_stack_phys c ! (b div PAGE_SIZE)" by (simp add: word_unat_eq_iff)
  with l assms(1) \<open>x = y\<close> show ?thesis by (simp add: stack_ok_def nth_eq_iff_index_eq)
qed

lemma same_page:
  assumes "off \<le> a" and "a < off + n" and "off mod PAGE_SIZE + n \<le> PAGE_SIZE"
  shows "a div PAGE_SIZE = off div PAGE_SIZE"
proof (rule div_nat_eqI)
  have e: "off = PAGE_SIZE * (off div PAGE_SIZE) + off mod PAGE_SIZE" by simp
  then show "PAGE_SIZE * (off div PAGE_SIZE) \<le> a" using assms(1) by linarith
  have "a < PAGE_SIZE * (off div PAGE_SIZE) + PAGE_SIZE" using assms(2,3) e by linarith
  then show "a < PAGE_SIZE * Suc (off div PAGE_SIZE)" by simp
qed

lemma stk_write_page:
  assumes "stack_ok c" and "off < 65536" and "off mod PAGE_SIZE + length bs \<le> PAGE_SIZE" and "a < 65536"
  shows "stk c (mem_write (unat (c_stack_phys c ! (off div PAGE_SIZE)) + off mod PAGE_SIZE) bs v) a =
         (if off \<le> a \<and> a < off + length bs then bs ! (a - off) else stk c v a)"
proof -
  let ?p = "unat (c_stack_phys c ! (off div PAGE_SIZE))" and ?q = "unat (c_stack_phys c ! (a div PAGE_SIZE))"
  have P: "PAGE_SIZE = 4096" by (simp add: kernel_defs)
  have iff: "(?p + off mod PAGE_SIZE \<le> ?q + a mod PAGE_SIZE \<and> ?q + a mod PAGE_SIZE < ?p + off mod PAGE_SIZE + length bs) \<longleftrightarrow>
      (off \<le> a \<and> a < off + length bs)"
  proof
    assume h: "?p + off mod PAGE_SIZE \<le> ?q + a mod PAGE_SIZE \<and> ?q + a mod PAGE_SIZE < ?p + off mod PAGE_SIZE + length bs"
    define x where "x = ?q + a mod PAGE_SIZE - ?p"
    have "x < PAGE_SIZE" "?p + x = ?q + a mod PAGE_SIZE" using h assms(3) by (auto simp: x_def)
    then have e: "off div PAGE_SIZE = a div PAGE_SIZE \<and> x = a mod PAGE_SIZE"
      using stack_addr_inj [OF assms(1,2,4), of x "a mod PAGE_SIZE"] by (simp add: P)
    then have "?p = ?q" by simp
    then have "off mod PAGE_SIZE \<le> a mod PAGE_SIZE" "a mod PAGE_SIZE < off mod PAGE_SIZE + length bs" using h by auto
    moreover have "off = off div PAGE_SIZE * PAGE_SIZE + off mod PAGE_SIZE" "a = off div PAGE_SIZE * PAGE_SIZE + a mod PAGE_SIZE"
      using e by (metis div_mult_mod_eq)+
    ultimately show "off \<le> a \<and> a < off + length bs" by linarith
  next
    assume h: "off \<le> a \<and> a < off + length bs"
    have "a div PAGE_SIZE = off div PAGE_SIZE" using h assms(3) same_page by blast
    moreover have "a = a div PAGE_SIZE * PAGE_SIZE + a mod PAGE_SIZE" "off = off div PAGE_SIZE * PAGE_SIZE + off mod PAGE_SIZE"
      by simp_all
    ultimately show "?p + off mod PAGE_SIZE \<le> ?q + a mod PAGE_SIZE \<and> ?q + a mod PAGE_SIZE < ?p + off mod PAGE_SIZE + length bs"
      using h by (simp; linarith)
  qed
  have idx: "?q + a mod PAGE_SIZE - (?p + off mod PAGE_SIZE) = a - off" if "off \<le> a \<and> a < off + length bs"
  proof -
    have "off div PAGE_SIZE = a div PAGE_SIZE"
      using that assms(3) same_page by metis
    then show ?thesis by (metis add_diff_cancel_left div_mult_mod_eq)
  qed
  show ?thesis unfolding stk_def mem_write_get iff using idx by simp
qed

lemma stack_write_loop_spec:
  "stack_ok c \<Longrightarrow> off + length bs \<le> 65536 \<Longrightarrow> \<exists>v'. stack_write_loop c off bs v = (0, v') \<and>
           (\<forall>a<65536. stk c v' a = (if off \<le> a \<and> a < off + length bs then bs ! (a - off) else stk c v a))"
proof (induction c off bs v rule: stack_write_loop.induct)
  case (1 c off bs v)
  show ?case
  proof (cases "bs = []")
    case False
    have P: "PAGE_SIZE = 4096" "USER_STACK_PAGES = 16" by (simp_all add: kernel_defs)
    define chunk where "chunk = min (PAGE_SIZE - off mod PAGE_SIZE) (length bs)"
    define w where "w = mem_write (unat (c_stack_phys c ! (off div PAGE_SIZE)) + off mod PAGE_SIZE) (take chunk bs) v"
    have page: "\<not> off div PAGE_SIZE \<ge> USER_STACK_PAGES" using 1(3) False unfolding P by (cases bs) simp_all
    have ch: "chunk \<le> length bs" "off mod PAGE_SIZE + chunk \<le> PAGE_SIZE" unfolding chunk_def P by auto
    have "\<exists>v'. stack_write_loop c (off + chunk) (drop chunk bs) w = (0, v') \<and>
        (\<forall>a<65536. stk c v' a = (if off + chunk \<le> a \<and> a < off + chunk + length (drop chunk bs)
           then drop chunk bs ! (a - (off + chunk)) else stk c w a))"
      unfolding w_def chunk_def
      by (rule 1(1) [OF False refl refl page refl]) (use 1(2,3) ch in \<open>auto simp: chunk_def\<close>)
    then obtain v' where v': "stack_write_loop c (off + chunk) (drop chunk bs) w = (0, v')"
      and b: "\<And>a. a < 65536 \<Longrightarrow> stk c v' a = (if off + chunk \<le> a \<and> a < off + chunk + length (drop chunk bs)
           then drop chunk bs ! (a - (off + chunk)) else stk c w a)" by blast
    have "stk c w a = (if off \<le> a \<and> a < off + chunk then bs ! (a - off) else stk c v a)" if "a < 65536" for a
      unfolding w_def using stk_write_page [of c off "take chunk bs" a v] 1(2,3) that False ch
      by (cases bs) (auto simp: min_absorb2)
    then have "\<forall>a<65536. stk c v' a = (if off \<le> a \<and> a < off + length bs then bs ! (a - off) else stk c v a)"
      using b ch(1) by (auto simp: not_le)
    moreover have "stack_write_loop c off bs v = (0, v')"
      using False page v' by (subst stack_write_loop.simps) (simp add: Let_def w_def chunk_def)
    ultimately show ?thesis by blast
  next
    case True then show ?thesis by (auto simp: stack_write_loop.simps)
  qed
qed

text \<open>An address of the stack by its offset.\<close>

definition sp_at :: "nat \<Rightarrow> u64" where "sp_at o' = USER_STACK_BOTTOM + of_nat o'"

lemma sp_at_unat: "o' \<le> 65536 \<Longrightarrow> unat (sp_at o') = 0x7FFFFFFE0000 + o'"
proof -
  assume "o' \<le> 65536"
  then have "unat (of_nat o' :: u64) = o'" by (simp add: unat_of_nat)
  then show ?thesis using \<open>o' \<le> 65536\<close> unfolding sp_at_def kernel_defs by (simp add: unat_word_ariths)
qed

lemma user_stack_write_spec:
  assumes "stack_ok c" and "o' + length bs \<le> 65536"
  obtains v' where "user_stack_write c (sp_at o') bs v = (0, v')"
    and "\<And>a. a < 65536 \<Longrightarrow> stk c v' a = (if o' \<le> a \<and> a < o' + length bs then bs ! (a - o') else stk c v a)"
proof -
  have "sp_at o' + of_nat (length bs) = sp_at (o' + length bs)" by (simp add: sp_at_def add.assoc)
  then have "\<not> (sp_at o' < c_stack_bottom c \<or> sp_at o' + of_nat (length bs) > c_stack_top c)"
    using assms sp_at_unat [of o'] sp_at_unat [of "o' + length bs"]
    by (simp add: stack_ok_def word_less_nat_alt kernel_defs)
  moreover have "unat (sp_at o' - c_stack_bottom c) = o'"
    using assms by (simp add: sp_at_def stack_ok_def unat_of_nat)
  ultimately have "user_stack_write c (sp_at o') bs v = stack_write_loop c o' bs v" by (simp add: user_stack_write_def)
  with stack_write_loop_spec [OF assms] that show thesis by metis
qed

section \<open>Pushing\<close>

definition align16 :: "nat \<Rightarrow> nat" where "align16 n = (n + 15) div 16 * 16"

lemma align16_ge: "n \<le> align16 n" and align16_mod [simp]: "align16 n mod 16 = 0"
  unfolding align16_def by presburger simp

lemma unat_and_not_f: "unat (x AND NOT 0xF :: u64) = unat x - unat x mod 16"
proof -
  have "x AND NOT 0xF = x - (x AND 0xF)"
    by (subst disjunctive_diff_eq_and_not) (auto simp: bit_eq_iff bit_simps)
  moreover have "unat (x AND 0xF) = unat x mod 16"
  proof -
    have "x AND 0xF = take_bit 4 x" by (simp add: take_bit_eq_mask mask_eq_exp_minus_1)
    then show ?thesis by (simp add: unsigned_take_bit_eq take_bit_eq_mod unat_mod_distrib)
  qed
  ultimately show ?thesis by (simp add: unat_sub word_le_nat_alt)
qed

lemma sub_mod16: "a mod 16 = 0 \<Longrightarrow> b mod 16 = 0 \<Longrightarrow> (a - b :: nat) mod 16 = 0"
  by (auto simp: mod_eq_0_iff_dvd)

lemma mod16_split: "c mod 16 = 0 \<Longrightarrow> d < 16 \<Longrightarrow> (c + d :: nat) mod 16 = d"
  by (metis add_0 mod_add_left_eq mod_less)

lemma push_sp:
  assumes "o' mod 16 = 0" and "o' \<le> 65536" and "align16 n \<le> o'"
  shows "(sp_at o' - of_nat n) AND NOT 0xF = sp_at (o' - align16 n)"
proof (rule word_unat_eq_iff [THEN iffD2])
  have n: "n \<le> o'" using assms(3) align16_ge [of n] by linarith
  then have "sp_at o' - of_nat n = sp_at (o' - n)" by (simp add: sp_at_def of_nat_diff)
  then have "unat ((sp_at o' - of_nat n) AND NOT 0xF) = 0x7FFFFFFE0000 + (o' - n) - (0x7FFFFFFE0000 + (o' - n)) mod 16"
    unfolding unat_and_not_f using assms(2) sp_at_unat [of "o' - n"] by simp
  also have "\<dots> = 0x7FFFFFFE0000 + (o' - align16 n)"
  proof -
    let ?m = "align16 n"
    have m: "n \<le> ?m" "?m < n + 16" unfolding align16_def by presburger+
    have "(0x7FFFFFFE0000 + (o' - ?m)) mod 16 = 0"
      using sub_mod16 [OF assms(1), of ?m] by (simp add: mod_add_eq [symmetric])
    moreover have e: "0x7FFFFFFE0000 + (o' - n) = (0x7FFFFFFE0000 + (o' - ?m)) + (?m - n)" using m assms(3) by linarith
    ultimately have "(0x7FFFFFFE0000 + (o' - n)) mod 16 = ?m - n"
      unfolding e by (intro mod16_split) (use m in linarith)+
    then show ?thesis using e by linarith
  qed
  finally show "unat ((sp_at o' - of_nat n) AND NOT 0xF) = unat (sp_at (o' - align16 n))"
    using assms(2) sp_at_unat [of "o' - align16 n"] by simp
qed

text \<open>Nothing outside the offsets from \<open>q\<close> to \<open>o'\<close> has changed.\<close>

definition keeps :: "user_ctx \<Rightarrow> nat \<Rightarrow> nat \<Rightarrow> vmm_state \<Rightarrow> vmm_state \<Rightarrow> bool" where
  "keeps c q o' v v' \<longleftrightarrow> (\<forall>a<65536. a < q \<or> o' \<le> a \<longrightarrow> stk c v' a = stk c v a)"

lemma keeps_trans: "keeps c q1 o1 v v' \<Longrightarrow> keeps c q2 o2 v' v'' \<Longrightarrow> q2 \<le> q1 \<Longrightarrow> o2 \<le> o1 \<Longrightarrow> keeps c q2 o1 v v''"
  by (auto simp: keeps_def)

lemma keeps_refl [simp]: "keeps c q o' v v" by (simp add: keeps_def)

text \<open>The bytes found at an offset.\<close>

definition holds :: "user_ctx \<Rightarrow> vmm_state \<Rightarrow> nat \<Rightarrow> u8 list \<Rightarrow> bool" where
  "holds c v o' bs \<longleftrightarrow> (\<forall>k < length bs. stk c v (o' + k) = bs ! k)"

lemma holds_keeps: "holds c v o' bs \<Longrightarrow> keeps c q o1 v v' \<Longrightarrow> o1 \<le> o' \<Longrightarrow> o' + length bs \<le> 65536 \<Longrightarrow> holds c v' o' bs"
  by (simp add: holds_def keeps_def)

lemma push_spec:
  assumes "stack_ok c" and "o' mod 16 = 0" and "o' \<le> 65536" and "align16 (length bs) \<le> o'"
  obtains v' where "push c bs (sp_at o', v) = (Some (sp_at (o' - align16 (length bs))), sp_at (o' - align16 (length bs)), v')"
    and "keeps c (o' - align16 (length bs)) o' v v'" and "holds c v' (o' - align16 (length bs)) bs"
    and "\<And>a. a < o' \<Longrightarrow> \<not> (o' - align16 (length bs) \<le> a \<and> a < o' - align16 (length bs) + length bs) \<Longrightarrow> stk c v' a = stk c v a"
proof -
  define q where "q = o' - align16 (length bs)"
  have q: "q + length bs \<le> o'" using assms(4) align16_ge [of "length bs"] unfolding q_def by linarith
  then have "q + length bs \<le> 65536" using assms(3) by linarith
  with user_stack_write_spec [OF assms(1)] obtain v' where w: "user_stack_write c (sp_at q) bs v = (0, v')"
    and b: "\<And>a. a < 65536 \<Longrightarrow> stk c v' a = (if q \<le> a \<and> a < q + length bs then bs ! (a - q) else stk c v a)" by blast
  show thesis
  proof (rule that [folded q_def])
    show "push c bs (sp_at o', v) = (Some (sp_at q), sp_at q, v')"
      using push_sp [OF assms(2-4)] w by (simp add: push_def q_def Let_def)
    show "keeps c q o' v v'" unfolding keeps_def using b q by auto
    show "holds c v' q bs" unfolding holds_def using b \<open>q + length bs \<le> 65536\<close> by simp
    show "a < o' \<Longrightarrow> \<not> (q \<le> a \<and> a < q + length bs) \<Longrightarrow> stk c v' a = stk c v a" for a
      using b assms(3) by auto
  qed
qed

definition pushed_size :: "u8 list list \<Rightarrow> nat" where
  "pushed_size bss = sum_list (map (\<lambda>bs. align16 (length bs)) bss)"

lemma pushed_size_mod [simp]: "pushed_size bss mod 16 = 0"
  by (induction bss) (simp_all add: pushed_size_def mod_add_eq [symmetric])

text \<open>A list of pushes: the first item ends up lowest, each at a multiple of 16.\<close>

lemma push_list_spec:
  assumes "stack_ok c" and "o' mod 16 = 0" and "o' \<le> 65536"
  shows "pushed_size bss \<le> o' \<Longrightarrow> \<exists>v'. push_list c bss (sp_at o', v) =
            (Some (map (\<lambda>i. sp_at (o' - pushed_size (drop i bss))) [0..<length bss]), sp_at (o' - pushed_size bss), v') \<and>
          keeps c (o' - pushed_size bss) o' v v' \<and> (\<forall>i < length bss. holds c v' (o' - pushed_size (drop i bss)) (bss ! i))"
proof (induction bss)
  case Nil then show ?case by (simp add: pushed_size_def)
next
  case (Cons b bss)
  have sz: "pushed_size (b # bss) = align16 (length b) + pushed_size bss" by (simp add: pushed_size_def)
  let ?o = "o' - pushed_size bss"
  from Cons sz obtain v1 where v1: "push_list c bss (sp_at o', v) =
            (Some (map (\<lambda>i. sp_at (o' - pushed_size (drop i bss))) [0..<length bss]), sp_at ?o, v1)"
    and k1: "keeps c ?o o' v v1" and h1: "\<forall>i < length bss. holds c v1 (o' - pushed_size (drop i bss)) (bss ! i)" by auto
  have "?o mod 16 = 0" "?o \<le> 65536" "align16 (length b) \<le> ?o"
    using assms(2,3) Cons.prems sz by (auto intro: sub_mod16)
  then obtain v2 where v2: "push c b (sp_at ?o, v1) = (Some (sp_at (?o - align16 (length b))), sp_at (?o - align16 (length b)), v2)"
    and k2: "keeps c (?o - align16 (length b)) ?o v1 v2" and h2: "holds c v2 (?o - align16 (length b)) b"
    by (rule push_spec [OF assms(1)])
  have e: "?o - align16 (length b) = o' - pushed_size (b # bss)" using sz by simp
  have "holds c v2 (o' - pushed_size (drop i bss)) (bss ! i)" if i: "i < length bss" for i
  proof (rule holds_keeps [OF _ k2])
    show "holds c v1 (o' - pushed_size (drop i bss)) (bss ! i)" using h1 i by blast
    have "pushed_size (drop i bss) \<le> pushed_size bss"
      by (metis append_take_drop_id le_add2 map_append pushed_size_def sum_list_append)
    then show "?o \<le> o' - pushed_size (drop i bss)" by simp
    have "pushed_size (drop i bss) = align16 (length (bss ! i)) + pushed_size (drop (Suc i) bss)"
      using i by (simp add: Cons_nth_drop_Suc [symmetric] pushed_size_def)
    then have "length (bss ! i) \<le> pushed_size (drop i bss)" using align16_ge [of "length (bss ! i)"] by linarith
    moreover have "pushed_size (drop i bss) \<le> o'"
      using \<open>pushed_size (drop i bss) \<le> pushed_size bss\<close> Cons.prems sz by linarith
    ultimately show "o' - pushed_size (drop i bss) + length (bss ! i) \<le> 65536" using assms(3) by linarith
  qed
  then have "\<forall>i < length (b # bss). holds c v2 (o' - pushed_size (drop i (b # bss))) ((b # bss) ! i)"
    using h2 unfolding e by (auto simp: less_Suc_eq_0_disj)
  moreover have "keeps c (o' - pushed_size (b # bss)) o' v v2" by (rule keeps_trans [OF k1 k2, unfolded e]) (simp_all add: sz)
  moreover have "push_list c (b # bss) (sp_at o', v) =
      (Some (map (\<lambda>i. sp_at (o' - pushed_size (drop i (b # bss)))) [0..<length (b # bss)]), sp_at (o' - pushed_size (b # bss)), v2)"
    using v1 v2 by (simp add: and_then_def sz add.commute [of _ "pushed_size bss"] map_upt_Suc del: upt_Suc)
  ultimately show ?case by blast
qed

lemma pushed_const: "(\<And>b. b \<in> set bss \<Longrightarrow> align16 (length b) = k) \<Longrightarrow> pushed_size bss = k * length bss"
  by (induction bss) (simp_all add: pushed_size_def)

lemma push_words_spec:
  assumes "stack_ok c" and "o' mod 16 = 0" and "o' \<le> 65536" and "\<And>b. b \<in> set bss \<Longrightarrow> align16 (length b) = 16"
    and "16 * length bss \<le> o'"
  obtains v' where "push_list c bss (sp_at o', v) =
       (Some (map (\<lambda>i. sp_at (o' - 16 * length bss + 16 * i)) [0..<length bss]), sp_at (o' - 16 * length bss), v')"
    and "keeps c (o' - 16 * length bss) o' v v'" and "\<And>i. i < length bss \<Longrightarrow> holds c v' (o' - 16 * length bss + 16 * i) (bss ! i)"
proof -
  have p: "pushed_size bss = 16 * length bss" using assms(4) by (rule pushed_const)
  have q: "pushed_size (drop i bss) = 16 * (length bss - i)" for i
    using pushed_const [of "drop i bss" 16] assms(4) in_set_dropD [of _ i bss] by fastforce
  have e: "o' - pushed_size (drop i bss) = o' - 16 * length bss + 16 * i" if "i < length bss" for i
    using that assms(5) by (simp add: q diff_mult_distrib2)
  have m: "map (\<lambda>i. sp_at (o' - pushed_size (drop i bss))) [0..<length bss] = map (\<lambda>i. sp_at (o' - 16 * length bss + 16 * i)) [0..<length bss]"
    using e by simp
  from push_list_spec [OF assms(1-3), of bss v] assms(5) obtain v' where
    "push_list c bss (sp_at o', v) = (Some (map (\<lambda>i. sp_at (o' - pushed_size (drop i bss))) [0..<length bss]), sp_at (o' - pushed_size bss), v')"
    "keeps c (o' - pushed_size bss) o' v v'" "\<forall>i < length bss. holds c v' (o' - pushed_size (drop i bss)) (bss ! i)"
    unfolding p by blast
  with that [of v'] show thesis unfolding m p using e by simp
qed

section \<open>Words of the stack\<close>

definition stk_word :: "user_ctx \<Rightarrow> vmm_state \<Rightarrow> nat \<Rightarrow> u64" where
  "stk_word c v a = le_word (map (\<lambda>k. stk c v (a + k)) [0..<8])"

lemma le_bytes_length [simp]: "length (le_bytes w) = 8" by (simp add: le_bytes_def)

lemma le_word_bytes: "le_word (le_bytes w) = w"
proof (rule bit_word_eqI)
  fix n assume "n < LENGTH(64)"
  then have n: "n < 64" by simp
  have b: "[0..<8] = [0, 1, 2, 3, 4, 5, 6, 7 :: nat]" by (simp add: upt_rec)
  have "n < 8 \<or> (8 \<le> n \<and> n < 16) \<or> (16 \<le> n \<and> n < 24) \<or> (24 \<le> n \<and> n < 32) \<or> (32 \<le> n \<and> n < 40) \<or> (40 \<le> n \<and> n < 48) \<or>
      (48 \<le> n \<and> n < 56) \<or> 56 \<le> n" by linarith
  then show "bit (le_word (le_bytes w)) n = bit w n"
    using n unfolding le_word_def le_bytes_def b
    by (elim disjE conjE) (auto simp: bit_simps)
qed

lemma holds_word: "holds c v a (le_bytes w) \<Longrightarrow> stk_word c v a = w"
proof -
  assume "holds c v a (le_bytes w)"
  then have "map (\<lambda>k. stk c v (a + k)) [0..<8] = le_bytes w"
    by (intro nth_equalityI) (simp_all add: holds_def del: upt_rec_numeral)
  then show ?thesis by (simp add: stk_word_def le_word_bytes del: upt_rec_numeral)
qed

lemma holds_pair: "holds c v a (le_bytes w @ le_bytes x) \<Longrightarrow> stk_word c v a = w \<and> stk_word c v (a + 8) = x"
proof -
  assume h: "holds c v a (le_bytes w @ le_bytes x)"
  have "stk c v (a + 8 + k) = (le_bytes x) ! k" if "k < 8" for k
    using h [unfolded holds_def, rule_format, of "8 + k"] that by (simp add: nth_append add.assoc)
  moreover have "stk c v (a + k) = (le_bytes w) ! k" if "k < 8" for k
    using h [unfolded holds_def, rule_format, of k] that by (simp add: nth_append)
  ultimately show ?thesis by (auto intro!: holds_word simp: holds_def)
qed

section \<open>The stack of a Linux program\<close>

lemma c_copy_length: "length (c_copy lim s) = Suc (min (length s) lim)"
  by (simp add: c_copy_def)

lemma align16_mono: "a \<le> b \<Longrightarrow> align16 a \<le> align16 b"
  by (simp add: align16_def div_le_mono)

lemma align16_word: "align16 8 = 16" "align16 16 = 16" by (simp_all add: align16_def)

lemma strings_size: "pushed_size (map (\<lambda>i. c_copy 511 (f i)) [0..<n]) \<le> 512 * n"
proof (induction n)
  case (Suc n)
  have "align16 (length (c_copy 511 (f n))) \<le> align16 512" by (rule align16_mono) (simp add: c_copy_length)
  with Suc show ?case by (simp add: pushed_size_def align16_def)
qed (simp add: pushed_size_def)

lemma push_strings_spec:
  assumes "stack_ok c" and "o' mod 16 = 0" and "o' \<le> 65536" and "512 * n \<le> o'"
  obtains q ptrs v' where "push_list c (map (\<lambda>i. c_copy 511 (f i)) [0..<n]) (sp_at o', v) = (Some ptrs, sp_at q, v')"
    and "q mod 16 = 0" and "q \<le> o'" and "o' \<le> q + 512 * n" and "keeps c q o' v v'" and "length ptrs = n"
    and "\<And>i. i < n \<Longrightarrow> \<exists>p. ptrs ! i = sp_at p \<and> q \<le> p \<and> p + length (c_copy 511 (f i)) \<le> o' \<and> holds c v' p (c_copy 511 (f i))"
proof -
  let ?b = "map (\<lambda>i. c_copy 511 (f i)) [0..<n]" and ?q = "o' - pushed_size (map (\<lambda>i. c_copy 511 (f i)) [0..<n])"
  have sz: "pushed_size ?b \<le> o'" using strings_size [of f n] assms(4) by linarith
  from push_list_spec [OF assms(1-3) sz, of v] obtain v' where
    1: "push_list c ?b (sp_at o', v) = (Some (map (\<lambda>i. sp_at (o' - pushed_size (drop i ?b))) [0..<n]), sp_at ?q, v')"
    and 2: "keeps c ?q o' v v'" and 3: "\<And>i. i < n \<Longrightarrow> holds c v' (o' - pushed_size (drop i ?b)) (?b ! i)" by auto
  show thesis
  proof (rule that [OF 1 _ _ _ 2])
    show "?q mod 16 = 0" using sub_mod16 [OF assms(2)] by simp
    show "?q \<le> o'" "o' \<le> ?q + 512 * n" using strings_size [of f n] sz by linarith+
    fix i assume i: "i < n"
    have "pushed_size (drop i ?b) \<le> pushed_size ?b"
      by (metis append_take_drop_id le_add2 map_append pushed_size_def sum_list_append)
    moreover have "length (?b ! i) \<le> pushed_size (drop i ?b)"
      using i align16_ge [of "length (?b ! i)"]
        Cons_nth_drop_Suc [of i ?b, symmetric] by (simp add: pushed_size_def)
    ultimately have "?q \<le> o' - pushed_size (drop i ?b)" "o' - pushed_size (drop i ?b) + length (c_copy 511 (f i)) \<le> o'"
      using sz i by auto
    with 3 [OF i] i show "\<exists>p. map (\<lambda>i. sp_at (o' - pushed_size (drop i ?b))) [0..<n] ! i = sp_at p \<and> ?q \<le> p \<and>
       p + length (c_copy 511 (f i)) \<le> o' \<and> holds c v' p (c_copy 511 (f i))" by auto
  qed simp
qed

lemma and_then_simps [simp]: "and_then (Some x, s) f = f x s" "and_then (None, s) f = (None, s)"
  by (simp_all add: and_then_def)

lemma push_word_spec:
  assumes "stack_ok c" and "o' mod 16 = 0" and "o' \<le> 65536" and "16 \<le> o'"
  obtains v' where "push c (le_bytes w) (sp_at o', v) = (Some (sp_at (o' - 16)), sp_at (o' - 16), v')"
    and "keeps c (o' - 16) o' v v'" and "holds c v' (o' - 16) (le_bytes w)"
    and "\<And>k. k < 8 \<Longrightarrow> stk c v' (o' - 16 + 8 + k) = stk c v (o' - 16 + 8 + k)"
proof -
  have "align16 (length (le_bytes w)) = 16" by (simp add: align16_word)
  with push_spec [OF assms(1-3), of "le_bytes w" v] assms(4) obtain v' where
    1: "push c (le_bytes w) (sp_at o', v) = (Some (sp_at (o' - 16)), sp_at (o' - 16), v')"
    and 2: "keeps c (o' - 16) o' v v'" and 3: "holds c v' (o' - 16) (le_bytes w)"
    and 4: "\<And>a. a < o' \<Longrightarrow> \<not> (o' - 16 \<le> a \<and> a < o' - 16 + 8) \<Longrightarrow> stk c v' a = stk c v a"
    by (metis le_bytes_length)
  show thesis
  proof (rule that [OF 1 2 3])
    fix k :: nat assume k: "k < 8"
    show "stk c v' (o' - 16 + 8 + k) = stk c v (o' - 16 + 8 + k)"
      by (rule 4) (use assms(4) k in linarith)+
  qed
qed

text \<open>The table below the strings: what each slot of 16 bytes holds, counted from the final stack pointer.\<close>

definition table_at :: "user_ctx \<Rightarrow> vmm_state \<Rightarrow> nat \<Rightarrow> u64 \<Rightarrow> u64 list \<Rightarrow> u64 list \<Rightarrow> (u64 \<times> u64) list \<Rightarrow> bool" where
  "table_at c v q argc args envs aux \<longleftrightarrow>
     stk_word c v q = argc \<and>
     (\<forall>i < length args. stk_word c v (q + 16 * (1 + i)) = args ! i) \<and>
     stk_word c v (q + 16 * (1 + length args)) = 0 \<and>
     (\<forall>i < length envs. stk_word c v (q + 16 * (2 + length args + i)) = envs ! i) \<and>
     stk_word c v (q + 16 * (2 + length args + length envs)) = 0 \<and>
     (\<forall>i < length aux. stk_word c v (q + 16 * (3 + length args + length envs + i)) = fst (aux ! i) \<and>
        stk_word c v (q + 16 * (3 + length args + length envs + i) + 8) = snd (aux ! i))"

lemma table_spec:
  assumes ok: "stack_ok c" and m: "o' mod 16 = 0" and le: "o' \<le> 65536"
    and sz: "o' = q + 16 * (3 + length args + length envs + length aux)"
  obtains v' where "and_then (push_list c (map (\<lambda>(t, x). le_bytes t @ le_bytes x) aux) (sp_at o', v)) (\<lambda>_ s.
     and_then (push c (le_bytes 0) s) (\<lambda>_ s. and_then (push_list c (map le_bytes envs) s) (\<lambda>_ s.
     and_then (push c (le_bytes 0) s) (\<lambda>_ s. and_then (push_list c (map le_bytes args) s) (\<lambda>_ s.
     push c (le_bytes argc) s))))) = (Some (sp_at q), sp_at q, v')"
    and "keeps c q o' v v'" and "table_at c v' q argc args envs aux"
    and "\<And>k. k < 8 \<Longrightarrow> stk c v' (q + 8 + k) = stk c v (q + 8 + k)"
proof -
  let ?A = "length args" and ?E = "length envs" and ?X = "length aux"
  define o1 where "o1 = q + 16 * (3 + ?A + ?E)"
  define o2 where "o2 = q + 16 * (2 + ?A + ?E)"
  define o3 where "o3 = q + 16 * (2 + ?A)"
  define o4 where "o4 = q + 16 * (1 + ?A)"
  define o5 where "o5 = q + 16"
  have q: "q mod 16 = 0" using m unfolding sz mod_mult_self2 .
  have mods: "o1 mod 16 = 0" "o2 mod 16 = 0" "o3 mod 16 = 0" "o4 mod 16 = 0" "o5 mod 16 = 0"
    using q mod_mult_self2 [of q 16 1] unfolding o1_def o2_def o3_def o4_def o5_def mod_mult_self2 by simp_all
  have les: "o1 \<le> 65536" "o2 \<le> 65536" "o3 \<le> 65536" "o4 \<le> 65536" "o5 \<le> 65536"
    using sz le unfolding o1_def o2_def o3_def o4_def o5_def by simp_all
  have s1: "o' - 16 * length (map (\<lambda>(t, x). le_bytes t @ le_bytes x) aux) = o1" and s2: "o1 - 16 = o2"
    and s3: "o2 - 16 * length (map le_bytes envs) = o3" and s4: "o3 - 16 = o4"
    and s5: "o4 - 16 * length (map le_bytes args) = o5" and s6: "o5 - 16 = q"
    unfolding sz o1_def o2_def o3_def o4_def o5_def by simp_all
  obtain v1 where 1: "push_list c (map (\<lambda>(t, x). le_bytes t @ le_bytes x) aux) (sp_at o', v) =
      (Some (map (\<lambda>i. sp_at (o1 + 16 * i)) [0..<length (map (\<lambda>(t, x). le_bytes t @ le_bytes x) aux)]), sp_at o1, v1)"
    and k1: "keeps c o1 o' v v1"
    and h1: "\<And>i. i < ?X \<Longrightarrow> holds c v1 (o1 + 16 * i) (le_bytes (fst (aux ! i)) @ le_bytes (snd (aux ! i)))"
    by (rule push_words_spec [OF ok m le, of "map (\<lambda>(t, x). le_bytes t @ le_bytes x) aux" v, unfolded s1])
      (auto simp: align16_word sz case_prod_beta)
  obtain v2 where 2: "push c (le_bytes 0) (sp_at o1, v1) = (Some (sp_at o2), sp_at o2, v2)" and k2: "keeps c o2 o1 v1 v2"
    and h2: "holds c v2 o2 (le_bytes 0)"
    by (rule push_word_spec [OF ok mods(1) les(1), of 0 v1, unfolded s2]) (simp_all add: o1_def)
  obtain v3 where 3: "push_list c (map le_bytes envs) (sp_at o2, v2) =
      (Some (map (\<lambda>i. sp_at (o3 + 16 * i)) [0..<length (map le_bytes envs)]), sp_at o3, v3)" and k3: "keeps c o3 o2 v2 v3"
    and h3: "\<And>i. i < ?E \<Longrightarrow> holds c v3 (o3 + 16 * i) (le_bytes (envs ! i))"
    by (rule push_words_spec [OF ok mods(2) les(2), of "map le_bytes envs" v2, unfolded s3]) (auto simp: align16_word o2_def)
  obtain v4 where 4: "push c (le_bytes 0) (sp_at o3, v3) = (Some (sp_at o4), sp_at o4, v4)" and k4: "keeps c o4 o3 v3 v4"
    and h4: "holds c v4 o4 (le_bytes 0)"
    by (rule push_word_spec [OF ok mods(3) les(3), of 0 v3, unfolded s4]) (simp_all add: o3_def)
  obtain v5 where 5: "push_list c (map le_bytes args) (sp_at o4, v4) =
      (Some (map (\<lambda>i. sp_at (o5 + 16 * i)) [0..<length (map le_bytes args)]), sp_at o5, v5)" and k5: "keeps c o5 o4 v4 v5"
    and h5: "\<And>i. i < ?A \<Longrightarrow> holds c v5 (o5 + 16 * i) (le_bytes (args ! i))"
    by (rule push_words_spec [OF ok mods(4) les(4), of "map le_bytes args" v4, unfolded s5]) (auto simp: align16_word o4_def)
  obtain v6 where 6: "push c (le_bytes argc) (sp_at o5, v5) = (Some (sp_at q), sp_at q, v6)" and k6: "keeps c q o5 v5 v6"
    and h6: "holds c v6 q (le_bytes argc)" and g6: "\<And>k. k < 8 \<Longrightarrow> stk c v6 (q + 8 + k) = stk c v5 (q + 8 + k)"
    by (rule push_word_spec [OF ok mods(5) les(5), of argc v5, unfolded s6]) (simp_all add: o5_def)
  have ord: "q \<le> o5" "o5 \<le> o4" "o4 \<le> o3" "o3 \<le> o2" "o2 \<le> o1" "o1 \<le> o'"
    using sz unfolding o1_def o2_def o3_def o4_def o5_def by simp_all
  note k56 = keeps_trans [OF k5 k6 ord(1,2)]
  note k46 = keeps_trans [OF k4 k56]
  have k46: "keeps c q o3 v3 v6" by (rule k46) (use ord in linarith)+
  have k36: "keeps c q o2 v2 v6" by (rule keeps_trans [OF k3 k46]) (use ord in linarith)+
  have k26: "keeps c q o1 v1 v6" by (rule keeps_trans [OF k2 k36]) (use ord in linarith)+
  have k16: "keeps c q o' v v6" by (rule keeps_trans [OF k1 k26]) (use ord in linarith)+
  have k15: "keeps c o5 o' v v5"
    by (rule keeps_trans [OF keeps_trans [OF keeps_trans [OF keeps_trans [OF k1 k2] k3] k4] k5]) (use ord in linarith)+
  show thesis
  proof (rule that)
    show "and_then (push_list c (map (\<lambda>(t, x). le_bytes t @ le_bytes x) aux) (sp_at o', v)) (\<lambda>_ s.
       and_then (push c (le_bytes 0) s) (\<lambda>_ s. and_then (push_list c (map le_bytes envs) s) (\<lambda>_ s.
       and_then (push c (le_bytes 0) s) (\<lambda>_ s. and_then (push_list c (map le_bytes args) s) (\<lambda>_ s.
       push c (le_bytes argc) s))))) = (Some (sp_at q), sp_at q, v6)"
      by (simp only: 1 2 3 4 5 6 and_then_simps)
    show "keeps c q o' v v6" by (rule k16)
    show "stk c v6 (q + 8 + k) = stk c v (q + 8 + k)" if "k < 8" for k
      using g6 [OF that] k15 that les(5) unfolding keeps_def o5_def by simp
    have w6: "stk_word c v6 q = argc" by (rule holds_word [OF h6])
    have w5: "stk_word c v6 (o5 + 16 * i) = args ! i" if "i < ?A" for i
      by (rule holds_word, rule holds_keeps [OF h5 [OF that] k6]) (use that les in \<open>simp_all add: o4_def o5_def\<close>)
    have w4: "stk_word c v6 o4 = 0"
      by (rule holds_word, rule holds_keeps [OF h4 k56]) (use les in \<open>simp_all add: o3_def o4_def\<close>)
    have w3: "stk_word c v6 (o3 + 16 * i) = envs ! i" if "i < ?E" for i
      by (rule holds_word, rule holds_keeps [OF h3 [OF that] k46]) (use that les in \<open>simp_all add: o2_def o3_def\<close>)
    have w2: "stk_word c v6 o2 = 0"
      by (rule holds_word, rule holds_keeps [OF h2 k36]) (use les in \<open>simp_all add: o1_def o2_def\<close>)
    have w1: "stk_word c v6 (o1 + 16 * i) = fst (aux ! i) \<and> stk_word c v6 (o1 + 16 * i + 8) = snd (aux ! i)" if "i < ?X" for i
      by (rule holds_pair, rule holds_keeps [OF h1 [OF that] k26]) (use that le in \<open>simp_all add: sz o1_def\<close>)
    show "table_at c v6 q argc args envs aux"
      unfolding table_at_def using w1 w2 w3 w4 w5 w6 unfolding o1_def o2_def o3_def o4_def o5_def
      by (simp add: algebra_simps)
  qed
qed

lemma clamp_le: "0 \<le> hi \<Longrightarrow> clamp hi n \<le> nat hi" by (auto simp: clamp_def intro: nat_mono)

lemma execfn_spec:
  assumes "stack_ok c" and "o' mod 16 = 0" and "o' \<le> 65536" and "256 \<le> o'"
  obtains q x v' where "(case execfn of Some (y # ys) \<Rightarrow> push c (c_copy 255 (y # ys)) (sp_at o', v) | _ \<Rightarrow> (Some 0, sp_at o', v)) =
       (Some x, sp_at q, v')"
    and "q mod 16 = 0" and "q \<le> o'" and "o' \<le> q + 256" and "keeps c q o' v v'"
proof (cases "\<exists>y ys. execfn = Some (y # ys)")
  case True
  then obtain y ys where e: "execfn = Some (y # ys)" by blast
  have b: "align16 (length (c_copy 255 (y # ys))) \<le> 256"
    using align16_mono [of "length (c_copy 255 (y # ys))" 256] by (simp add: c_copy_length align16_def)
  with assms(4) have "align16 (length (c_copy 255 (y # ys))) \<le> o'" by linarith
  then obtain v' where
    "push c (c_copy 255 (y # ys)) (sp_at o', v) = (Some (sp_at (o' - align16 (length (c_copy 255 (y # ys))))),
       sp_at (o' - align16 (length (c_copy 255 (y # ys)))), v')" "keeps c (o' - align16 (length (c_copy 255 (y # ys)))) o' v v'"
    by (rule push_spec [OF assms(1-3), of "c_copy 255 (y # ys)" v])
  with b show thesis
    by (intro that [of "sp_at (o' - align16 (length (c_copy 255 (y # ys))))" "o' - align16 (length (c_copy 255 (y # ys)))" v'])
      (simp_all add: e sub_mod16 [OF assms(2)])
next
  case False
  then show thesis using assms(2) by (intro that [of 0 o' v]) (auto split: option.split list.split)
qed

text \<open>C27. \<open>linux_build_stack\<close> never fails on a stack set up by the kernel: it returns an aligned stack pointer at which
  \<open>argc\<close> lies, followed by the pointers to the arguments, a zero, the pointers to the environment, a zero and the auxiliary
  vector, each pointer leading to the text of its string. But the entries are 16 bytes apart, not 8: where the x86-64 ABI
  has the first argument pointer, at the stack pointer plus 8, the stack still has what it had before the call.\<close>

theorem linux_stack_layout:
  assumes "user_get_ctx t m = Some c" and "stack_ok c" and "\<forall>r. rnd = Some r \<longrightarrow> length r = 16"
  shows "\<exists>q m' args envs rand_va execfn_va.
     linux_build_stack t rnd argc argv envc envp entry_va phdr_va phnum execfn m = (sp_at q, m') \<and> q mod 16 = 0 \<and>
     length args = clamp 32 argc \<and> length envs = clamp 32 envc \<and>
     table_at c (um_vmm m') q (of_nat (clamp 32 argc)) args envs (auxv entry_va phdr_va phnum rand_va execfn_va) \<and>
     (\<forall>i < clamp 32 argc. \<exists>p. args ! i = sp_at p \<and> holds c (um_vmm m') p (c_copy 511 (arg_at argv i))) \<and>
     (\<forall>i < clamp 32 envc. \<exists>p. envs ! i = sp_at p \<and> holds c (um_vmm m') p (c_copy 511 (arg_at envp i))) \<and>
     (\<forall>k<8. stk c (um_vmm m') (q + 8 + k) = stk c (um_vmm m) (q + 8 + k))"
proof -
  note ok = assms(2)
  let ?v = "um_vmm m" and ?A = "clamp 32 argc" and ?E = "clamp 32 envc"
  have AE: "?A \<le> 32" "?E \<le> 32" using clamp_le [of 32] by simp_all
  have top: "c_stack_top c = sp_at 65536" using ok by (simp add: stack_ok_def sp_at_def kernel_defs)
  have r: "align16 (length (at_random rnd)) = 16"
    using assms(3) by (auto simp: at_random_def align16_def split: option.split)
  obtain v1 where 1: "push c (at_random rnd) (sp_at 65536, ?v) = (Some (sp_at 65520), sp_at 65520, v1)"
    and k1: "keeps c 65520 65536 ?v v1"
    by (rule push_spec [OF ok, of 65536 "at_random rnd" ?v, unfolded r]) simp_all
  obtain q2 x2 v2 where 2: "(case execfn of Some (y # ys) \<Rightarrow> push c (c_copy 255 (y # ys)) (sp_at 65520, v1) | _ \<Rightarrow> (Some 0, sp_at 65520, v1)) =
       (Some x2, sp_at q2, v2)" and q2: "q2 mod 16 = 0" "q2 \<le> 65520" "65520 \<le> q2 + 256" and k2: "keeps c q2 65520 v1 v2"
    by (rule execfn_spec [OF ok, where o' = 65520 and execfn = execfn and v = v1]) simp_all
  have "q2 \<le> 65536" "512 * ?E \<le> q2" using q2 AE by linarith+
  then obtain q3 envs v3 where 3: "push_list c (map (\<lambda>i. c_copy 511 (arg_at envp i)) [0..<?E]) (sp_at q2, v2) = (Some envs, sp_at q3, v3)"
    and q3: "q3 mod 16 = 0" "q3 \<le> q2" "q2 \<le> q3 + 512 * ?E" and k3: "keeps c q3 q2 v2 v3" and l3: "length envs = ?E"
    and h3: "\<And>i. i < ?E \<Longrightarrow> \<exists>p. envs ! i = sp_at p \<and> q3 \<le> p \<and> p + length (c_copy 511 (arg_at envp i)) \<le> q2 \<and>
        holds c v3 p (c_copy 511 (arg_at envp i))"
    by (rule push_strings_spec [OF ok q2(1), of ?E "arg_at envp" v2]) (rule that)
  have "q3 \<le> 65536" "512 * ?A \<le> q3" using q2 q3 AE by linarith+
  then obtain q4 args v4 where 4: "push_list c (map (\<lambda>i. c_copy 511 (arg_at argv i)) [0..<?A]) (sp_at q3, v3) = (Some args, sp_at q4, v4)"
    and q4: "q4 mod 16 = 0" "q4 \<le> q3" "q3 \<le> q4 + 512 * ?A" and k4: "keeps c q4 q3 v3 v4" and l4: "length args = ?A"
    and h4: "\<And>i. i < ?A \<Longrightarrow> \<exists>p. args ! i = sp_at p \<and> q4 \<le> p \<and> p + length (c_copy 511 (arg_at argv i)) \<le> q3 \<and>
        holds c v4 p (c_copy 511 (arg_at argv i))"
    by (rule push_strings_spec [OF ok q3(1), of ?A "arg_at argv" v3]) (rule that)
  let ?aux = "auxv entry_va phdr_va phnum (sp_at 65520) x2"
  define q where "q = q4 - 16 * (3 + length args + length envs + length ?aux)"
  have x: "length ?aux = 13" by (simp add: auxv_def)
  have q: "q4 = q + 16 * (3 + length args + length envs + length ?aux)"
  proof -
    have "16 * (3 + ?A + ?E + 13) \<le> q4" using q2 q3 q4 AE by simp
    then show ?thesis unfolding q_def l3 l4 x by simp
  qed
  have q4le: "q4 \<le> 65536" using q2 q3 q4 by linarith
  obtain v5 where 5: "and_then (push_list c (map (\<lambda>(t, x). le_bytes t @ le_bytes x) ?aux) (sp_at q4, v4)) (\<lambda>_ s.
     and_then (push c (le_bytes 0) s) (\<lambda>_ s. and_then (push_list c (map le_bytes envs) s) (\<lambda>_ s.
     and_then (push c (le_bytes 0) s) (\<lambda>_ s. and_then (push_list c (map le_bytes args) s) (\<lambda>_ s.
     push c (le_bytes (of_nat ?A)) s))))) = (Some (sp_at q), sp_at q, v5)"
    and k5: "keeps c q q4 v4 v5" and t5: "table_at c v5 q (of_nat ?A) args envs ?aux"
    and g5: "\<And>k. k < 8 \<Longrightarrow> stk c v5 (q + 8 + k) = stk c v4 (q + 8 + k)"
    by (rule table_spec [OF ok q4(1) q4le q, where v = v4 and argc = "of_nat ?A"]) (rule that)
  have b: "build_linux c rnd ?A (arg_at argv) ?E (arg_at envp) (auxv entry_va phdr_va phnum) execfn ?v = (Some (sp_at q), sp_at q, v5)"
    unfolding build_linux_def top 1 and_then_simps 2 3 4 by (rule 5)
  have k14: "keeps c q4 65536 ?v v4"
    by (rule keeps_trans [OF keeps_trans [OF keeps_trans [OF k1 k2] k3] k4]) (use q2 q3 q4 in linarith)+
  have k35: "keeps c q q3 v3 v5" by (rule keeps_trans [OF k4 k5]) (use q q4 in linarith)+
  have gap: "stk c v5 (q + 8 + k) = stk c ?v (q + 8 + k)" if "k < 8" for k
    using g5 [OF that] k14 q q4le that unfolding keeps_def by simp
  have A: "\<exists>p. args ! i = sp_at p \<and> holds c v5 p (c_copy 511 (arg_at argv i))" if "i < ?A" for i
  proof -
    from h4 [OF that] obtain p where p: "args ! i = sp_at p" "q4 \<le> p" "p + length (c_copy 511 (arg_at argv i)) \<le> q3"
      and h: "holds c v4 p (c_copy 511 (arg_at argv i))" by blast
    have "holds c v5 p (c_copy 511 (arg_at argv i))" by (rule holds_keeps [OF h k5 p(2)]) (use p(3) q2 q3 in linarith)
    with p(1) show ?thesis by blast
  qed
  have E: "\<exists>p. envs ! i = sp_at p \<and> holds c v5 p (c_copy 511 (arg_at envp i))" if "i < ?E" for i
  proof -
    from h3 [OF that] obtain p where p: "envs ! i = sp_at p" "q3 \<le> p" "p + length (c_copy 511 (arg_at envp i)) \<le> q2"
      and h: "holds c v3 p (c_copy 511 (arg_at envp i))" by blast
    have "holds c v5 p (c_copy 511 (arg_at envp i))" by (rule holds_keeps [OF h k35 p(2)]) (use p(3) q2 in linarith)
    with p(1) show ?thesis by blast
  qed
  have q16: "q mod 16 = 0" using q4(1) unfolding q mod_mult_self2 .
  have "linux_build_stack t rnd argc argv envc envp entry_va phdr_va phnum execfn m = (sp_at q, m\<lparr>um_vmm := v5\<rparr>)"
    using assms(1) b by (simp add: linux_build_stack_def)
  then show ?thesis using l3 l4 t5 A E gap q16
    by (intro exI [of _ q] exI [of _ "m\<lparr>um_vmm := v5\<rparr>"] exI [of _ args] exI [of _ envs] exI [of _ "sp_at 65520"] exI [of _ x2]) simp
qed

definition wit_stack :: user_ctx where
  "wit_stack = zero_ctx\<lparr>c_stack_bottom := USER_STACK_BOTTOM, c_stack_top := USER_STACK_TOP,
     c_stack_phys := map (\<lambda>k. of_nat ((0x400 + k) * PAGE_SIZE)) [0..<16]\<rparr>"

definition wit_mem :: "user_mem \<Rightarrow> user_mem" where
  "wit_mem m = m\<lparr>um_ctx := (\<lambda>_. Some wit_stack)\<rparr>"

lemma wit_stack_ok: "stack_ok wit_stack"
proof -
  have b: "[0..<16] = [0, 1, 2, 3, 4, 5, 6, 7, 8, 9, 10, 11, 12, 13, 14, 15 :: nat]" by (simp add: upt_rec)
  show ?thesis unfolding stack_ok_def wit_stack_def b by (simp add: kernel_defs)
qed

theorem linux_stack_layout_witness:
  "\<forall>m. \<exists>q p m'. linux_build_stack (zero_task\<lparr>user_ctx := Some 0\<rparr>) None 1 (Some (\<lambda>_. Some ''hi'')) 0 None 0x8000001000 0 3 None (wit_mem m) = (sp_at q, m') \<and>
     stk_word wit_stack (um_vmm m') q = 1 \<and> stk_word wit_stack (um_vmm m') (q + 16) = sp_at p \<and>
     holds wit_stack (um_vmm m') p [0x68, 0x69, 0]"
proof
  fix m
  have c: "user_get_ctx (zero_task\<lparr>user_ctx := Some 0\<rparr>) (wit_mem m) = Some wit_stack"
    by (simp add: user_get_ctx_def wit_mem_def)
  have cl: "clamp 32 1 = 1" by (simp add: clamp_def)
  have hi: "c_copy 511 (arg_at (Some (\<lambda>_. Some ''hi'')) 0) = [0x68, 0x69, 0]" by code_simp
  from linux_stack_layout [OF c wit_stack_ok, where rnd = None and argc = 1 and argv = "Some (\<lambda>_. Some ''hi'')" and envc = 0
      and envp = None and entry_va = "0x8000001000" and phdr_va = 0 and phnum = 3 and execfn = None]
  obtain q m' args envs r e p where
    "linux_build_stack (zero_task\<lparr>user_ctx := Some 0\<rparr>) None 1 (Some (\<lambda>_. Some ''hi'')) 0 None 0x8000001000 0 3 None (wit_mem m) = (sp_at q, m')"
    and l: "length args = 1" and t: "table_at wit_stack (um_vmm m') q 1 args envs (auxv 0x8000001000 0 3 r e)"
    and "args ! 0 = sp_at p" and "holds wit_stack (um_vmm m') p [0x68, 0x69, 0]"
    unfolding cl by (auto simp: hi)
  moreover from t l have "stk_word wit_stack (um_vmm m') q = 1" "stk_word wit_stack (um_vmm m') (q + 16) = args ! 0"
    unfolding table_at_def by (blast, force)
  ultimately show "\<exists>q p m'. linux_build_stack (zero_task\<lparr>user_ctx := Some 0\<rparr>) None 1 (Some (\<lambda>_. Some ''hi'')) 0 None 0x8000001000 0 3 None (wit_mem m) = (sp_at q, m') \<and>
     stk_word wit_stack (um_vmm m') q = 1 \<and> stk_word wit_stack (um_vmm m') (q + 16) = sp_at p \<and>
     holds wit_stack (um_vmm m') p [0x68, 0x69, 0]" by metis
qed

end
