(* ===== verification/Block.thy ===== *)
theory Block
  imports Pmm
begin

text \<open>
  The block layer (\<open>block/block.c\<close>), the page cache (\<open>block/page_cache.c\<close>) and the journal
  (\<open>block/journal.c\<close>). A device is named by a number. Behind the function pointers of a device there is a disk,
  an array of bytes that carries out a write one sector of 512 bytes after the other and may refuse a request with an
  error code; the codes of the coming requests are part of the state, none left meaning success. The disk keeps a
  log of the sectors written, so that the contents after a crash are the old contents with a prefix of the log.
\<close>

abbreviation OB_ENODEV :: int where "OB_ENODEV \<equiv> -19"

definition BLOCK_SECTOR_SIZE :: nat where [kernel_defs]: "BLOCK_SECTOR_SIZE = 512"
definition BLOCK_MAX_DEVICES :: nat where [kernel_defs]: "BLOCK_MAX_DEVICES = 8"
definition PCACHE_MAX_ENTRIES :: nat where [kernel_defs]: "PCACHE_MAX_ENTRIES = 256"
definition JNL_MAX_TXN_BLOCKS :: nat where [kernel_defs]: "JNL_MAX_TXN_BLOCKS = 64"
definition JNL_MAGIC :: u32 where [kernel_defs]: "JNL_MAGIC = 0x4A524E4C"
definition JNL_BLOCK_SECTORS :: nat where [kernel_defs]: "JNL_BLOCK_SECTORS = PAGE_SIZE div BLOCK_SECTOR_SIZE"

section \<open>State\<close>

record block_device =
  d_name :: string
  d_sector_size :: u32
  d_total_sectors :: u64
  d_has_read :: bool
  d_has_write :: bool
  d_registered :: bool
  d_index :: u32
  d_bytes :: "nat \<Rightarrow> u8"
  d_log :: "(nat \<times> u8 list) list"
  d_faults :: "int list"

text \<open>The data page of a slot: its frame and its contents.\<close>

record pcache_slot =
  ps_dev :: "nat option"
  ps_block_no :: u64
  ps_data :: "(nat \<times> u8 list) option"
  ps_dirty :: bool
  ps_valid :: bool
  ps_last_used_tick :: u64

record journal_entry =
  je_target_lba :: u64
  je_pad :: u64
  je_data :: "u8 list"

record journal_txn =
  jt_entries :: "journal_entry list"  \<comment> \<open>the first \<open>used\<close> entries\<close>

record journal =
  j_dev :: nat
  j_start_block :: u64
  j_size_blocks :: u32
  j_head :: u32
  j_ready :: bool
  j_active :: bool

record storage =
  g_devices :: "nat list"
  b_dev :: "nat \<Rightarrow> block_device"
  g_device_count :: nat
  g_next_index :: u32
  g_block_inited :: bool
  g_cache :: "pcache_slot list"
  g_tick :: u64
  g_hits :: u32
  g_misses :: u32
  g_pc_inited :: bool
  s_pmm :: pmm_state
  g_jnl_crash_stage :: int

definition upd_dev :: "nat \<Rightarrow> (block_device \<Rightarrow> block_device) \<Rightarrow> storage \<Rightarrow> storage" where
  "upd_dev d f s = s\<lparr>b_dev := (b_dev s)(d := f (b_dev s d))\<rparr>"

section \<open>Devices\<close>

definition block_init :: "storage \<Rightarrow> storage" where
  "block_init s =
     (if g_block_inited s then s
      else s\<lparr>g_block_inited := True, g_devices := [], g_device_count := 0, g_next_index := 0\<rparr>)"

text \<open>The comparison of two names of at most 16 characters.\<close>

definition name_eq16 :: "string \<Rightarrow> string \<Rightarrow> bool" where
  "name_eq16 a b = (take 16 a = take 16 b)"

definition block_register_device :: "nat option \<Rightarrow> storage \<Rightarrow> int \<times> storage" where
  "block_register_device dev s =
     (case dev of
        None \<Rightarrow> (OB_EINVAL, s)
      | Some d \<Rightarrow>
          if \<not> d_has_read (b_dev s d) \<or> \<not> d_has_write (b_dev s d) then (OB_EINVAL, s)
          else if d_sector_size (b_dev s d) \<noteq> of_nat BLOCK_SECTOR_SIZE then (OB_EINVAL, s)
          else if g_device_count s \<ge> BLOCK_MAX_DEVICES then (OB_ENOMEM, s)
          else if \<exists>e \<in> set (g_devices s). name_eq16 (d_name (b_dev s e)) (d_name (b_dev s d)) then (OB_EEXIST, s)
          else (0, (upd_dev d (\<lambda>v. v\<lparr>d_index := g_next_index s, d_registered := True\<rparr>) s)
                     \<lparr>g_next_index := g_next_index s + 1, g_devices := d # g_devices s, g_device_count := g_device_count s + 1\<rparr>))"

definition block_unregister_device :: "nat option \<Rightarrow> storage \<Rightarrow> int \<times> storage" where
  "block_unregister_device dev s =
     (case dev of
        None \<Rightarrow> (OB_EINVAL, s)
      | Some d \<Rightarrow>
          if d \<notin> set (g_devices s) then (OB_ENODEV, s)
          else (0, (upd_dev d (\<lambda>v. v\<lparr>d_registered := False\<rparr>) s)
                     \<lparr>g_devices := remove1 d (g_devices s),
                      g_device_count := (if g_device_count s > 0 then g_device_count s - 1 else g_device_count s)\<rparr>))"

definition block_lookup :: "string option \<Rightarrow> storage \<Rightarrow> nat option" where
  "block_lookup name s =
     (case name of None \<Rightarrow> None | Some n \<Rightarrow> List.find (\<lambda>d. name_eq16 (d_name (b_dev s d)) n) (g_devices s))"

definition block_device_count :: "storage \<Rightarrow> nat" where "block_device_count s = g_device_count s"

section \<open>Reading and writing\<close>

definition bytes_put :: "nat \<Rightarrow> u8 list \<Rightarrow> (nat \<Rightarrow> u8) \<Rightarrow> nat \<Rightarrow> u8" where
  "bytes_put a bs f = (\<lambda>x. if a \<le> x \<and> x < a + length bs then bs ! (x - a) else f x)"

definition bytes_get :: "nat \<Rightarrow> nat \<Rightarrow> (nat \<Rightarrow> u8) \<Rightarrow> u8 list" where
  "bytes_get a n f = map (\<lambda>k. f (a + k)) [0..<n]"

definition sector_put :: "nat \<times> u8 list \<Rightarrow> (nat \<Rightarrow> u8) \<Rightarrow> nat \<Rightarrow> u8" where
  "sector_put w f = bytes_put (fst w * BLOCK_SECTOR_SIZE) (snd w) f"

definition sectors_of :: "nat \<Rightarrow> nat \<Rightarrow> u8 list \<Rightarrow> (nat \<times> u8 list) list" where
  "sectors_of lba count bs = map (\<lambda>k. (lba + k, take BLOCK_SECTOR_SIZE (drop (k * BLOCK_SECTOR_SIZE) bs))) [0..<count]"

text \<open>The driver: the result code of the request, and for a write the sectors that reach the disk.\<close>

definition driver_rc :: "block_device \<Rightarrow> int" where
  "driver_rc v = (case d_faults v of [] \<Rightarrow> 0 | rc # _ \<Rightarrow> rc)"

definition driver_write :: "nat \<Rightarrow> nat \<Rightarrow> u8 list \<Rightarrow> block_device \<Rightarrow> block_device" where
  "driver_write lba count bs v =
     v\<lparr>d_bytes := fold sector_put (sectors_of lba count bs) (d_bytes v), d_log := d_log v @ sectors_of lba count bs\<rparr>"

definition io_refused :: "nat option \<Rightarrow> bool \<Rightarrow> u64 \<Rightarrow> u32 \<Rightarrow> storage \<Rightarrow> bool" where
  "io_refused dev has lba count s \<longleftrightarrow>
     (case dev of None \<Rightarrow> True | Some d \<Rightarrow> \<not> has \<or> count = 0 \<or> lba + ucast count > d_total_sectors (b_dev s d))"

definition block_read :: "nat option \<Rightarrow> u64 \<Rightarrow> u32 \<Rightarrow> storage \<Rightarrow> int \<times> u8 list \<times> storage" where
  "block_read dev lba count s =
     (case dev of
        None \<Rightarrow> (OB_EINVAL, [], s)
      | Some d \<Rightarrow>
          if io_refused dev (d_has_read (b_dev s d)) lba count s then (OB_EINVAL, [], s)
          else (driver_rc (b_dev s d),
                bytes_get (unat lba * BLOCK_SECTOR_SIZE) (unat count * BLOCK_SECTOR_SIZE) (d_bytes (b_dev s d)),
                upd_dev d (\<lambda>v. v\<lparr>d_faults := tl (d_faults v)\<rparr>) s))"

definition block_write :: "nat option \<Rightarrow> u64 \<Rightarrow> u32 \<Rightarrow> u8 list \<Rightarrow> storage \<Rightarrow> int \<times> storage" where
  "block_write dev lba count bs s =
     (case dev of
        None \<Rightarrow> (OB_EINVAL, s)
      | Some d \<Rightarrow>
          if io_refused dev (d_has_write (b_dev s d)) lba count s then (OB_EINVAL, s)
          else let rc = driver_rc (b_dev s d) in
            (rc, upd_dev d (\<lambda>v. (if rc = 0 then driver_write (unat lba) (unat count) bs v else v)\<lparr>d_faults := tl (d_faults v)\<rparr>) s))"

text \<open>The buffers for the disk: the smallest order that holds the pages, at most \<open>MAX_ORDER\<close>.\<close>

fun dma_order :: "nat \<Rightarrow> nat \<Rightarrow> nat \<Rightarrow> nat" where
  "dma_order 0 pages order = order"
| "dma_order (Suc n) pages order = (if 2 ^ order < pages then dma_order n pages (Suc order) else order)"

definition block_dma_alloc :: "nat \<Rightarrow> storage \<Rightarrow> nat option \<times> storage" where
  "block_dma_alloc pages s =
     (if pages = 0 \<or> pages > 2 ^ MAX_ORDER then (None, s)
      else let order = dma_order MAX_ORDER pages 0 in
        if order \<ge> MAX_ORDER then (None, s)
        else case pmm_alloc_pages (int order) (s_pmm s) of (pg, p) \<Rightarrow> (pg, s\<lparr>s_pmm := p\<rparr>))"

definition block_dma_free :: "nat option \<Rightarrow> nat \<Rightarrow> storage \<Rightarrow> storage" where
  "block_dma_free pg pages s =
     (if pg = None \<or> pages = 0 then s
      else let order = dma_order MAX_ORDER pages 0 in
        if order \<ge> MAX_ORDER then s else s\<lparr>s_pmm := pmm_free_pages pg (int order) (s_pmm s)\<rparr>)"

end
