(* ===== verification/PageCache.thy ===== *)
theory PageCache
  imports Block
begin

text \<open>
  The page cache (\<open>block/page_cache.c\<close>): 256 slots searched in order; the least recently used clean slot is
  given up when none is free. What the callers do with the page behind a slot is the function \<open>pcache_store\<close>.
\<close>

definition empty_slot :: pcache_slot where
  "empty_slot = \<lparr>ps_dev = None, ps_block_no = 0, ps_data = None, ps_dirty = False, ps_valid = False, ps_last_used_tick = 0\<rparr>"

definition pcache_init :: "storage \<Rightarrow> storage" where
  "pcache_init s =
     (if g_pc_inited s then s
      else s\<lparr>g_cache := replicate PCACHE_MAX_ENTRIES empty_slot, g_tick := 0, g_hits := 0, g_misses := 0, g_pc_inited := True\<rparr>)"

definition upd_slot :: "nat \<Rightarrow> (pcache_slot \<Rightarrow> pcache_slot) \<Rightarrow> storage \<Rightarrow> storage" where
  "upd_slot i f s = s\<lparr>g_cache := (g_cache s)[i := f (g_cache s ! i)]\<rparr>"

definition slot_holds :: "nat \<Rightarrow> u64 \<Rightarrow> pcache_slot \<Rightarrow> bool" where
  "slot_holds dev block_no c \<longleftrightarrow> ps_valid c \<and> ps_dev c = Some dev \<and> ps_block_no c = block_no"

definition pc_find_locked :: "nat \<Rightarrow> u64 \<Rightarrow> storage \<Rightarrow> nat option \<times> storage" where
  "pc_find_locked dev block_no s =
     (case List.find (\<lambda>i. slot_holds dev block_no (g_cache s ! i)) [0..<PCACHE_MAX_ENTRIES] of
        None \<Rightarrow> (None, s)
      | Some i \<Rightarrow> (Some i, upd_slot i (\<lambda>c. c\<lparr>ps_last_used_tick := g_tick s + 1\<rparr>) (s\<lparr>g_tick := g_tick s + 1\<rparr>)))"

text \<open>The loop over the slots: the best clean one so far and its tick.\<close>

fun pc_evict_loop :: "pcache_slot list \<Rightarrow> nat list \<Rightarrow> nat option \<Rightarrow> u64 \<Rightarrow> nat option" where
  "pc_evict_loop cs [] best best_tick = best"
| "pc_evict_loop cs (i # is) best best_tick =
     (if \<not> ps_valid (cs ! i) then Some i
      else if ps_dirty (cs ! i) then pc_evict_loop cs is best best_tick
      else if ps_last_used_tick (cs ! i) < best_tick then pc_evict_loop cs is (Some i) (ps_last_used_tick (cs ! i))
      else pc_evict_loop cs is best best_tick)"

definition pc_evict_locked :: "storage \<Rightarrow> nat option" where
  "pc_evict_locked s = pc_evict_loop (g_cache s) [0..<PCACHE_MAX_ENTRIES] None (-1)"

definition slot_bytes :: "pcache_slot \<Rightarrow> u8 list" where
  "slot_bytes c = (case ps_data c of Some (_, bs) \<Rightarrow> bs | None \<Rightarrow> [])"

definition slot_page :: "pcache_slot \<Rightarrow> nat option" where
  "slot_page c = map_option fst (ps_data c)"

text \<open>The result is the slot whose page the caller may now read.\<close>

definition pcache_get :: "nat option \<Rightarrow> u64 \<Rightarrow> bool \<Rightarrow> storage \<Rightarrow> int \<times> nat option \<times> storage" where
  "pcache_get devo block_no for_write s =
     (case devo of
        None \<Rightarrow> (OB_EINVAL, None, s)
      | Some dev \<Rightarrow>
          (case pc_find_locked dev block_no s of
             (Some i, s) \<Rightarrow>
               (0, Some i, upd_slot i (\<lambda>c. if for_write then c\<lparr>ps_dirty := True\<rparr> else c) (s\<lparr>g_hits := g_hits s + 1\<rparr>))
           | (None, s) \<Rightarrow>
               let s = s\<lparr>g_misses := g_misses s + 1\<rparr> in
               (case pc_evict_locked s of
                  None \<Rightarrow> (OB_ENOMEM, None, s)
                | Some i \<Rightarrow>
                    let s = upd_slot i (\<lambda>c. c\<lparr>ps_data := None\<rparr>) (block_dma_free (slot_page (g_cache s ! i)) 1 s) in
                    (case block_dma_alloc 1 s of
                       (None, s) \<Rightarrow> (OB_ENOMEM, None, upd_slot i (\<lambda>c. c\<lparr>ps_valid := False\<rparr>) s)
                     | (Some pg, s) \<Rightarrow>
                         let s = upd_slot i (\<lambda>c. \<lparr>ps_dev = Some dev, ps_block_no = block_no, ps_data = Some (pg, replicate PAGE_SIZE 0),
                                   ps_dirty = False, ps_valid = True, ps_last_used_tick = g_tick s + 1\<rparr>) (s\<lparr>g_tick := g_tick s + 1\<rparr>)
                         in case block_read (Some dev) (block_no * of_nat JNL_BLOCK_SECTORS) (of_nat JNL_BLOCK_SECTORS) s of
                              (rc, bs, s) \<Rightarrow>
                                if rc \<noteq> 0 then (rc, None, upd_slot i (\<lambda>c. c\<lparr>ps_valid := False\<rparr>) s)
                                else (0, Some i, upd_slot i (\<lambda>c. c\<lparr>ps_data := Some (pg, bs), ps_dirty := for_write\<rparr>) s)))))"

text \<open>A caller writes the page behind a slot.\<close>

definition pcache_store :: "nat \<Rightarrow> u8 list \<Rightarrow> storage \<Rightarrow> storage" where
  "pcache_store i bs s = upd_slot i (\<lambda>c. c\<lparr>ps_data := map_option (\<lambda>(pg, _). (pg, bs)) (ps_data c)\<rparr>) s"

definition pcache_mark_dirty :: "nat option \<Rightarrow> u64 \<Rightarrow> storage \<Rightarrow> int \<times> storage" where
  "pcache_mark_dirty devo block_no s =
     (case devo of
        None \<Rightarrow> (OB_EINVAL, s)
      | Some dev \<Rightarrow>
          (case pc_find_locked dev block_no s of
             (None, s) \<Rightarrow> (OB_EIO, s)
           | (Some i, s) \<Rightarrow> (0, upd_slot i (\<lambda>c. c\<lparr>ps_dirty := True\<rparr>) s)))"

definition pcache_writeback :: "nat option \<Rightarrow> u64 \<Rightarrow> storage \<Rightarrow> int \<times> storage" where
  "pcache_writeback devo block_no s =
     (case devo of
        None \<Rightarrow> (OB_EINVAL, s)
      | Some dev \<Rightarrow>
          (case pc_find_locked dev block_no s of
             (None, s) \<Rightarrow> (0, s)
           | (Some i, s) \<Rightarrow>
               if \<not> ps_dirty (g_cache s ! i) then (0, s)
               else block_write (Some dev) (block_no * of_nat JNL_BLOCK_SECTORS) (of_nat JNL_BLOCK_SECTORS) (slot_bytes (g_cache s ! i))
                      (upd_slot i (\<lambda>c. c\<lparr>ps_dirty := False\<rparr>) s)))"

definition sync_slot :: "nat \<Rightarrow> int \<times> storage \<Rightarrow> int \<times> storage" where
  "sync_slot i es =
     (case es of (err, s) \<Rightarrow>
        let c = g_cache s ! i in
        if \<not> ps_valid c \<or> \<not> ps_dirty c then (err, s)
        else case block_write (ps_dev c) (ps_block_no c * of_nat JNL_BLOCK_SECTORS) (of_nat JNL_BLOCK_SECTORS) (slot_bytes c)
                    (upd_slot i (\<lambda>c. c\<lparr>ps_dirty := False\<rparr>) s) of
             (rc, s) \<Rightarrow> (if rc \<noteq> 0 then rc else err, s))"

definition pcache_sync :: "storage \<Rightarrow> int \<times> storage" where
  "pcache_sync s = fold sync_slot [0..<PCACHE_MAX_ENTRIES] (0, s)"

definition pcache_hit_count :: "storage \<Rightarrow> u32" where "pcache_hit_count s = g_hits s"
definition pcache_miss_count :: "storage \<Rightarrow> u32" where "pcache_miss_count s = g_misses s"

definition pcache_dirty_count :: "storage \<Rightarrow> nat" where
  "pcache_dirty_count s = length (filter (\<lambda>i. ps_valid (g_cache s ! i) \<and> ps_dirty (g_cache s ! i)) [0..<PCACHE_MAX_ENTRIES])"

definition pcache_invalidate :: "nat \<Rightarrow> u64 \<Rightarrow> storage \<Rightarrow> storage" where
  "pcache_invalidate dev block_no s =
     (case pc_find_locked dev block_no s of
        (None, s) \<Rightarrow> s
      | (Some i, s) \<Rightarrow>
          let c = g_cache s ! i; s = upd_slot i (\<lambda>c. c\<lparr>ps_valid := False, ps_dirty := False\<rparr>) s
          in if ps_data c = None then s
             else upd_slot i (\<lambda>c. c\<lparr>ps_data := None\<rparr>) (block_dma_free (slot_page c) 1 s))"

end
