(* ===== verification/Journal.thy ===== *)
theory Journal
  imports PageCache
begin

text \<open>
  The journal (\<open>block/journal.c\<close>). The header of 24 bytes and the entries of 4112 bytes are handed to the block
  layer as blocks of 4096 bytes: of a header the block holds the bytes that follow it on the stack too, of an entry it
  holds the first 4080 data bytes only, and an entry that is read back keeps what the stack held in its last 16 bytes.
  These bytes of the stack are the record \<open>stack_bytes\<close>. (Reading a block into a header also writes beyond it; the
  model takes this write to have no effect.)
\<close>

record journal_header =
  jh_magic :: u32
  jh_seq :: u32
  jh_count :: u32
  jh_checksum :: u32
  jh_commit :: u32
  jh_pad :: u32

record stack_bytes =
  sb_header :: journal_header  \<comment> \<open>the fields of \<open>h\<close> before they are set\<close>
  sb_after :: "u8 list"  \<comment> \<open>the 4072 bytes after the header\<close>
  sb_tail :: "u8 list"  \<comment> \<open>the last 16 bytes of \<open>e\<close> in \<open>journal_recover\<close>\<close>

definition le32 :: "u32 \<Rightarrow> u8 list" where "le32 w = map (\<lambda>i. ucast (drop_bit (8 * i) w)) [0, 1, 2, 3]"
definition le64 :: "u64 \<Rightarrow> u8 list" where "le64 w = map (\<lambda>i. ucast (drop_bit (8 * i) w)) [0, 1, 2, 3, 4, 5, 6, 7]"

definition un32 :: "u8 list \<Rightarrow> u32" where
  "un32 b = ucast (b ! 0) OR push_bit 8 (ucast (b ! 1)) OR push_bit 16 (ucast (b ! 2)) OR push_bit 24 (ucast (b ! 3))"

definition un64 :: "u8 list \<Rightarrow> u64" where
  "un64 b = ucast (b ! 0) OR push_bit 8 (ucast (b ! 1)) OR push_bit 16 (ucast (b ! 2)) OR push_bit 24 (ucast (b ! 3)) OR
     push_bit 32 (ucast (b ! 4)) OR push_bit 40 (ucast (b ! 5)) OR push_bit 48 (ucast (b ! 6)) OR push_bit 56 (ucast (b ! 7))"

definition header_bytes :: "journal_header \<Rightarrow> u8 list" where
  "header_bytes h = le32 (jh_magic h) @ le32 (jh_seq h) @ le32 (jh_count h) @ le32 (jh_checksum h) @ le32 (jh_commit h) @ le32 (jh_pad h)"

definition header_of :: "u8 list \<Rightarrow> journal_header" where
  "header_of b = \<lparr>jh_magic = un32 b, jh_seq = un32 (drop 4 b), jh_count = un32 (drop 8 b), jh_checksum = un32 (drop 12 b),
     jh_commit = un32 (drop 16 b), jh_pad = un32 (drop 20 b)\<rparr>"

definition zero_header :: journal_header where
  "zero_header = \<lparr>jh_magic = 0, jh_seq = 0, jh_count = 0, jh_checksum = 0, jh_commit = 0, jh_pad = 0\<rparr>"

definition entry_bytes :: "journal_entry \<Rightarrow> u8 list" where
  "entry_bytes e = le64 (je_target_lba e) @ le64 (je_pad e) @ je_data e"

definition journal_set_crash_stage :: "int \<Rightarrow> storage \<Rightarrow> storage" where
  "journal_set_crash_stage n s = s\<lparr>g_jnl_crash_stage := n\<rparr>"

definition journal_init :: "storage \<Rightarrow> storage \<times> journal_txn" where
  "journal_init s = (s\<lparr>g_jnl_crash_stage := 0\<rparr>, \<lparr>jt_entries = []\<rparr>)"

definition journal_open :: "nat option \<Rightarrow> u64 \<Rightarrow> u32 \<Rightarrow> journal \<Rightarrow> int \<times> journal" where
  "journal_open dev start_block size_blocks j =
     (case dev of
        None \<Rightarrow> (OB_EINVAL, j)
      | Some d \<Rightarrow>
          if size_blocks < 2 \<or> size_blocks > 4096 then (OB_EINVAL, j)
          else (0, \<lparr>j_dev = d, j_start_block = start_block, j_size_blocks = size_blocks, j_head = 0, j_ready = True, j_active = False\<rparr>))"

definition journal_begin :: "journal option \<Rightarrow> journal_txn option \<times> journal option" where
  "journal_begin jo =
     (case jo of
        None \<Rightarrow> (None, jo)
      | Some j \<Rightarrow>
          if \<not> j_ready j then (None, jo) else if j_active j then (None, jo)
          else (Some \<lparr>jt_entries = []\<rparr>, Some (j\<lparr>j_active := True\<rparr>)))"

text \<open>Only the target and the data of an entry are set; the padding keeps the value \<open>pad\<close> of the static pool.\<close>

definition journal_add :: "u64 \<Rightarrow> journal_txn option \<Rightarrow> u64 \<Rightarrow> u8 list option \<Rightarrow> int \<times> journal_txn option" where
  "journal_add pad txno target_block data =
     (case (txno, data) of
        (Some txn, Some bs) \<Rightarrow>
          if length (jt_entries txn) \<ge> JNL_MAX_TXN_BLOCKS then (OB_ENOMEM, txno)
          else (0, Some (txn\<lparr>jt_entries := jt_entries txn @ [\<lparr>je_target_lba = target_block, je_pad = pad, je_data = take PAGE_SIZE bs\<rparr>]\<rparr>))
      | _ \<Rightarrow> (OB_EINVAL, txno))"

definition checksum_step :: "u8 \<Rightarrow> u32 \<Rightarrow> u32" where
  "checksum_step b acc = (acc XOR ucast b) * 16777619"

definition jnl_checksum :: "journal_header \<Rightarrow> journal_entry list \<Rightarrow> u32" where
  "jnl_checksum h es = fold checksum_step (header_bytes h @ concat (map entry_bytes es)) 0x811C9DC5"

definition write_block :: "nat \<Rightarrow> u64 \<Rightarrow> u8 list \<Rightarrow> storage \<Rightarrow> int \<times> storage" where
  "write_block d blk bs s = block_write (Some d) (blk * of_nat JNL_BLOCK_SECTORS) (of_nat JNL_BLOCK_SECTORS) (take PAGE_SIZE bs) s"

definition journal_abort :: "journal \<Rightarrow> journal" where
  "journal_abort j = j\<lparr>j_active := False\<rparr>"

text \<open>The loop that writes the entries into the journal.\<close>

fun commit_entries :: "journal \<Rightarrow> nat \<Rightarrow> journal_entry list \<Rightarrow> storage \<Rightarrow> int \<times> storage" where
  "commit_entries j i [] s = (0, s)"
| "commit_entries j i (e # es) s =
     (let blk = j_start_block j + 1 + of_nat i in
      if blk \<ge> j_start_block j + ucast (j_size_blocks j) then (OB_ENOMEM, s)
      else case write_block (j_dev j) blk (entry_bytes e) s of
          (rc, s) \<Rightarrow> if rc \<noteq> 0 then (rc, s) else commit_entries j (Suc i) es s)"

text \<open>The loop that writes the data to its place; the results of the writes are not looked at.\<close>

definition apply_entry :: "nat \<Rightarrow> journal_entry \<Rightarrow> storage \<Rightarrow> storage" where
  "apply_entry d e s = pcache_invalidate d (je_target_lba e) (snd (write_block d (je_target_lba e) (je_data e) s))"

definition crash_if :: "int \<Rightarrow> storage \<Rightarrow> bool" where
  "crash_if stage s \<longleftrightarrow> g_jnl_crash_stage s = stage"

text \<open>No result code means that the machine has stopped at the crash stage.\<close>

definition journal_commit :: "stack_bytes \<Rightarrow> journal option \<Rightarrow> journal_txn option \<Rightarrow> storage \<Rightarrow> int option \<times> journal option \<times> storage" where
  "journal_commit sb jo txno s =
     (case (jo, txno) of
        (Some j, Some txn) \<Rightarrow>
          let es = jt_entries txn; n = length es in
          if \<not> j_ready j then (Some OB_EINVAL, jo, s)
          else if n = 0 then (Some 0, Some (journal_abort j), s)
          else
            let h = (sb_header sb)\<lparr>jh_magic := JNL_MAGIC, jh_seq := j_head j + 1, jh_count := of_nat n\<rparr>;
                h = h\<lparr>jh_checksum := jnl_checksum h es, jh_commit := 0, jh_pad := 0\<rparr> in
            (case write_block (j_dev j) (j_start_block j) (header_bytes h @ sb_after sb) s of
               (rc, s) \<Rightarrow>
                 if rc \<noteq> 0 then (Some rc, Some (journal_abort j), s)
                 else if crash_if 1 s then (None, jo, s)
                 else case commit_entries j 0 es s of
                     (rc, s) \<Rightarrow>
                       if rc \<noteq> 0 then (Some rc, Some (journal_abort j), s)
                       else if crash_if 2 s then (None, jo, s)
                       else
                         let h = h\<lparr>jh_commit := 1\<rparr>; h = h\<lparr>jh_checksum := jnl_checksum h es\<rparr> in
                         (case write_block (j_dev j) (j_start_block j) (header_bytes h @ sb_after sb) s of
                            (rc, s) \<Rightarrow>
                              if rc \<noteq> 0 then (Some rc, Some (journal_abort j), s)
                              else if crash_if 3 s then (None, jo, s)
                              else let s = apply_entry (j_dev j) (hd es) s in
                                if crash_if 4 s then (None, jo, s)
                                else let s = fold (apply_entry (j_dev j)) (tl es) s;
                                         s = snd (write_block (j_dev j) (j_start_block j) (header_bytes zero_header @ sb_after sb) s)
                                     in (Some 0, Some (j\<lparr>j_head := (j_head j + of_nat n + 1) mod (j_size_blocks j - 1), j_active := False\<rparr>), s)))
      | _ \<Rightarrow> (Some OB_EINVAL, jo, s))"

definition read_block :: "nat \<Rightarrow> u64 \<Rightarrow> storage \<Rightarrow> int \<times> u8 list \<times> storage" where
  "read_block d blk s = block_read (Some d) (blk * of_nat JNL_BLOCK_SECTORS) (of_nat JNL_BLOCK_SECTORS) s"

text \<open>The loop that replays entries \<open>i\<close> and following, \<open>n\<close> of them.\<close>

fun recover_loop :: "stack_bytes \<Rightarrow> journal \<Rightarrow> nat \<Rightarrow> nat \<Rightarrow> storage \<Rightarrow> int \<times> storage" where
  "recover_loop sb j i 0 s = (0, s)"
| "recover_loop sb j i (Suc n) s =
     (case read_block (j_dev j) (j_start_block j + 1 + of_nat i) s of
        (rc, b, s) \<Rightarrow>
          if rc \<noteq> 0 then (rc, s)
          else let target = un64 b; data = drop 16 b @ sb_tail sb in
            (case write_block (j_dev j) target data s of
               (rc, s) \<Rightarrow> if rc \<noteq> 0 then (rc, s) else recover_loop sb j (Suc i) n (pcache_invalidate (j_dev j) target s)))"

definition journal_recover :: "stack_bytes \<Rightarrow> journal option \<Rightarrow> storage \<Rightarrow> int \<times> storage" where
  "journal_recover sb jo s =
     (case jo of
        None \<Rightarrow> (OB_EINVAL, s)
      | Some j \<Rightarrow>
          if \<not> j_ready j then (OB_EINVAL, s)
          else case read_block (j_dev j) (j_start_block j) s of
              (rc, b, s) \<Rightarrow>
                if rc \<noteq> 0 then (rc, s)
                else let h = header_of b; clean = header_bytes zero_header @ sb_after sb in
                  if jh_magic h \<noteq> JNL_MAGIC then (0, s)
                  else if jh_commit h \<noteq> 1 then (0, snd (write_block (j_dev j) (j_start_block j) clean s))
                  else if jh_count h = 0 \<or> jh_count h > of_nat JNL_MAX_TXN_BLOCKS then (OB_EIO, s)
                  else case recover_loop sb j 0 (unat (jh_count h)) s of
                      (rc, s) \<Rightarrow>
                        if rc \<noteq> 0 then (rc, s) else (0, snd (write_block (j_dev j) (j_start_block j) clean s)))"

end
