(* ===== verification/JournalProps.thy ===== *)
theory JournalProps
  imports Journal
begin

text \<open>
  Crash safety of the journal: what is on the disk after \<open>journal_commit\<close> has been interrupted between any two
  sectors it writes and \<open>journal_recover\<close> has run.
\<close>

section \<open>Sectors and blocks\<close>

lemma take_sectors: "m \<le> n \<Longrightarrow> take m (sectors_of lba n bs) = sectors_of lba m bs"
  by (simp add: sectors_of_def take_map take_upt)

lemma bytes_put_nil [simp]: "bytes_put a [] f = f" by (rule ext) (auto simp: bytes_put_def)

lemma bytes_put_append:
  "bytes_put (a + length xs) ys (bytes_put a xs f) = bytes_put a (xs @ ys) f"
  by (rule ext) (auto simp: bytes_put_def nth_append)

lemma sector_put_pair: "sector_put (l, xs) = bytes_put (l * 512) xs"
  by (rule ext)+ (simp add: sector_put_def kernel_defs)

lemma fold_sectors:
  "n * 512 \<le> length bs \<Longrightarrow> fold sector_put (sectors_of lba n bs) f = bytes_put (lba * 512) (take (n * 512) bs) f"
proof (induction n)
  case (Suc n)
  have "fold sector_put (sectors_of lba (Suc n) bs) f =
      bytes_put ((lba + n) * 512) (take 512 (drop (n * 512) bs)) (bytes_put (lba * 512) (take (n * 512) bs) f)"
    using Suc sector_put_pair by (simp add: sectors_of_def BLOCK_SECTOR_SIZE_def)
  also have "\<dots> = bytes_put (lba * 512) (take (n * 512) bs @ take 512 (drop (n * 512) bs)) f"
    using Suc.prems bytes_put_append [of "lba * 512" "take (n * 512) bs"] by (simp add: distrib_right)
  also have "take (n * 512) bs @ take 512 (drop (n * 512) bs) = take (Suc n * 512) bs"
    by (simp add: take_add [symmetric] add.commute)
  finally show ?case .
qed (simp add: sectors_of_def)

definition W :: "nat \<Rightarrow> u8 list \<Rightarrow> (nat \<times> u8 list) list" where "W b bs = sectors_of (8 * b) 8 bs"

lemma W_length [simp]: "length (W b bs) = 8" by (simp add: W_def sectors_of_def)

lemma fold_W: "length bs = 4096 \<Longrightarrow> fold sector_put (W b bs) f = bytes_put (b * 4096) bs f"
  unfolding W_def by (subst fold_sectors) (simp_all add: mult.commute [of 4096])

lemma fold_take_W:
  "length bs = 4096 \<Longrightarrow> m \<le> 8 \<Longrightarrow> fold sector_put (take m (W b bs)) f = bytes_put (b * 4096) (take (m * 512) bs) f"
  unfolding W_def by (subst take_sectors, simp, subst fold_sectors) (simp_all add: mult.commute [of 4096])

definition in_block :: "nat \<Rightarrow> nat \<Rightarrow> bool" where "in_block x b \<longleftrightarrow> x div 4096 = b"

lemma bytes_put_outside: "length bs \<le> 4096 \<Longrightarrow> \<not> in_block x b \<Longrightarrow> bytes_put (b * 4096) bs f x = f x"
  unfolding bytes_put_def in_block_def by (auto simp: div_nat_eqI)

lemma bytes_put_inside: "length bs = 4096 \<Longrightarrow> in_block x b \<Longrightarrow> bytes_put (b * 4096) bs f x = bytes_put (b * 4096) bs g x"
  unfolding bytes_put_def in_block_def by (auto simp: dividend_less_div_times not_less)

lemma bytes_get_put: "length bs = n \<Longrightarrow> bytes_get a n (bytes_put a bs f) = bs"
  by (auto simp: bytes_get_def bytes_put_def intro!: nth_equalityI)

lemma bytes_get_cong: "(\<And>x. a \<le> x \<Longrightarrow> x < a + n \<Longrightarrow> f x = g x) \<Longrightarrow> bytes_get a n f = bytes_get a n g"
  by (auto simp: bytes_get_def)

lemma bytes_get_put_other:
  "length bs \<le> 4096 \<Longrightarrow> b \<noteq> c \<Longrightarrow> bytes_get (c * 4096) 4096 (bytes_put (b * 4096) bs f) = bytes_get (c * 4096) 4096 f"
  by (rule bytes_get_cong, rule bytes_put_outside) (auto simp: in_block_def div_nat_eqI)

section \<open>What an operation has written\<close>

definition dw :: "(nat \<times> u8 list) list \<Rightarrow> block_device \<Rightarrow> block_device" where
  "dw ws v = v\<lparr>d_bytes := fold sector_put ws (d_bytes v), d_log := d_log v @ ws\<rparr>"

lemma dw_append: "dw ws2 (dw ws1 v) = dw (ws1 @ ws2) v" by (simp add: dw_def)

definition wrote :: "nat \<Rightarrow> storage \<Rightarrow> (nat \<times> u8 list) list \<Rightarrow> storage \<Rightarrow> bool" where
  "wrote d s ws s' \<longleftrightarrow> b_dev s' d = dw ws (b_dev s d) \<and> g_jnl_crash_stage s' = g_jnl_crash_stage s"

lemma wrote_trans: "wrote d s ws s' \<Longrightarrow> wrote d s' ws' s'' \<Longrightarrow> wrote d s (ws @ ws') s''"
  by (simp add: wrote_def dw_append)

lemma wrote_refl: "wrote d s [] s" by (simp add: wrote_def dw_def)

text \<open>A working device: both operations are there and no request fails.\<close>

definition dev_ok :: "nat \<Rightarrow> storage \<Rightarrow> bool" where
  "dev_ok d s \<longleftrightarrow> d_has_read (b_dev s d) \<and> d_has_write (b_dev s d) \<and> d_faults (b_dev s d) = []"

definition fits :: "nat \<Rightarrow> storage \<Rightarrow> nat \<Rightarrow> bool" where
  "fits d s b \<longleftrightarrow> 8 * (b + 1) \<le> unat (d_total_sectors (b_dev s d))"

lemma wrote_dev: "wrote d s ws s' \<Longrightarrow> dev_ok d s' = dev_ok d s \<and> fits d s' b = fits d s b"
  by (simp add: wrote_def dev_ok_def fits_def dw_def)

lemma block_lba:
  assumes "fits d s (unat blk)"
  shows "unat (blk * of_nat JNL_BLOCK_SECTORS :: u64) = 8 * unat blk"
    and "\<not> blk * of_nat JNL_BLOCK_SECTORS + ucast (of_nat JNL_BLOCK_SECTORS :: u32) > d_total_sectors (b_dev s d)"
proof -
  have lt: "unat (d_total_sectors (b_dev s d)) < 2 ^ 64" using unsigned_less [of "d_total_sectors (b_dev s d)"] by simp
  then have "8 * unat blk + 8 < 2 ^ 64" using assms by (simp add: fits_def)
  then show 1: "unat (blk * of_nat JNL_BLOCK_SECTORS :: u64) = 8 * unat blk"
    by (simp add: unat_word_ariths kernel_defs)
  then have "unat (blk * of_nat JNL_BLOCK_SECTORS + ucast (of_nat JNL_BLOCK_SECTORS :: u32)) = 8 * unat blk + 8"
    using \<open>8 * unat blk + 8 < 2 ^ 64\<close> by (simp add: unat_word_ariths kernel_defs)
  then show "\<not> blk * of_nat JNL_BLOCK_SECTORS + ucast (of_nat JNL_BLOCK_SECTORS :: u32) > d_total_sectors (b_dev s d)"
    using assms by (simp add: word_less_nat_alt fits_def)
qed

lemma write_block_ok:
  assumes "dev_ok d s" and "fits d s (unat blk)"
  obtains s' where "write_block d blk bs s = (0, s')" and "wrote d s (W (unat blk) (take PAGE_SIZE bs)) s'"
proof -
  have c: "(of_nat JNL_BLOCK_SECTORS :: u32) \<noteq> 0" "unat (of_nat JNL_BLOCK_SECTORS :: u32) = 8" by (simp_all add: kernel_defs)
  define s' where "s' = upd_dev d (\<lambda>v. (driver_write (8 * unat blk) 8 (take PAGE_SIZE bs) v)\<lparr>d_faults := tl (d_faults v)\<rparr>) s"
  show thesis
  proof (rule that)
    show "write_block d blk bs s = (0, s')"
      using assms(1) block_lba [OF assms(2)] c
      by (simp add: write_block_def block_write_def io_refused_def dev_ok_def driver_rc_def s'_def)
    show "wrote d s (W (unat blk) (take PAGE_SIZE bs)) s'"
      using assms(1) by (simp add: wrote_def s'_def upd_dev_def dev_ok_def driver_write_def dw_def W_def)
  qed
qed

lemma read_block_ok:
  assumes "dev_ok d s" and "fits d s (unat blk)"
  obtains s' where "read_block d blk s = (0, bytes_get (unat blk * 4096) 4096 (d_bytes (b_dev s d)), s')" and "wrote d s [] s'"
proof -
  have c: "(of_nat JNL_BLOCK_SECTORS :: u32) \<noteq> 0" "unat (of_nat JNL_BLOCK_SECTORS :: u32) = 8" by (simp_all add: kernel_defs)
  show thesis
  proof (rule that)
    show "read_block d blk s = (0, bytes_get (unat blk * 4096) 4096 (d_bytes (b_dev s d)),
        upd_dev d (\<lambda>v. v\<lparr>d_faults := tl (d_faults v)\<rparr>) s)"
      using assms(1) block_lba [OF assms(2)] c
      by (simp add: read_block_def block_read_def io_refused_def dev_ok_def driver_rc_def kernel_defs(1) BLOCK_SECTOR_SIZE_def mult.commute)
    show "wrote d s [] (upd_dev d (\<lambda>v. v\<lparr>d_faults := tl (d_faults v)\<rparr>) s)"
      using assms(1) by (simp add: wrote_def upd_dev_def dev_ok_def dw_def)
  qed
qed

lemma pc_find_dev: "pc_find_locked d b s = (i, s') \<Longrightarrow> b_dev s' = b_dev s \<and> g_jnl_crash_stage s' = g_jnl_crash_stage s"
  by (auto simp: pc_find_locked_def upd_slot_def split: option.splits)

lemma dma_free_dev [simp]: "b_dev (block_dma_free pg n s) = b_dev s" "g_jnl_crash_stage (block_dma_free pg n s) = g_jnl_crash_stage s"
  by (simp_all add: block_dma_free_def Let_def)

lemma invalidate_dev [simp]:
  "b_dev (pcache_invalidate d b s) = b_dev s" "g_jnl_crash_stage (pcache_invalidate d b s) = g_jnl_crash_stage s"
proof -
  obtain i s' where f: "pc_find_locked d b s = (i, s')" by fastforce
  show "b_dev (pcache_invalidate d b s) = b_dev s" "g_jnl_crash_stage (pcache_invalidate d b s) = g_jnl_crash_stage s"
    using pc_find_dev [OF f] by (simp_all add: pcache_invalidate_def f Let_def upd_slot_def split: option.split)
qed

section \<open>Encodings\<close>

lemma un32_le32: "un32 (le32 w @ r) = w"
proof (rule bit_word_eqI)
  fix n assume "n < LENGTH(32)"
  then have n: "n < 32" by simp
  have "n < 8 \<or> (8 \<le> n \<and> n < 16) \<or> (16 \<le> n \<and> n < 24) \<or> 24 \<le> n" by linarith
  then show "bit (un32 (le32 w @ r)) n = bit w n"
    using n unfolding un32_def le32_def by (elim disjE conjE) (auto simp: bit_simps)
qed

lemma un64_le64: "un64 (le64 w @ r) = w"
proof (rule bit_word_eqI)
  fix n assume "n < LENGTH(64)"
  then have n: "n < 64" by simp
  have "n < 8 \<or> (8 \<le> n \<and> n < 16) \<or> (16 \<le> n \<and> n < 24) \<or> (24 \<le> n \<and> n < 32) \<or> (32 \<le> n \<and> n < 40) \<or> (40 \<le> n \<and> n < 48) \<or>
      (48 \<le> n \<and> n < 56) \<or> 56 \<le> n" by linarith
  then show "bit (un64 (le64 w @ r)) n = bit w n"
    using n unfolding un64_def le64_def by (elim disjE conjE) (auto simp: bit_simps)
qed

lemma le_length [simp]: "length (le32 w) = 4" "length (le64 x) = 8" by (simp_all add: le32_def le64_def)

lemma header_length [simp]: "length (header_bytes h) = 24" by (simp add: header_bytes_def)

lemma header_of_bytes: "header_of (header_bytes h @ r) = h"
  by (simp add: header_of_def header_bytes_def un32_le32 drop_append)

lemma entry_length: "length (je_data e) = 4096 \<Longrightarrow> length (entry_bytes e) = 4112" by (simp add: entry_bytes_def)

text \<open>What the journal block of an entry gives back.\<close>

lemma entry_block:
  assumes "length (je_data e) = 4096"
  shows "un64 (take 4096 (entry_bytes e)) = je_target_lba e" and "drop 16 (take 4096 (entry_bytes e)) = take 4080 (je_data e)"
  by (simp_all add: entry_bytes_def un64_le64 take_append drop_append)

section \<open>What \<open>journal_commit\<close> writes\<close>

text \<open>A transaction that can be committed.\<close>

definition txn_ok :: "nat \<Rightarrow> storage \<Rightarrow> journal \<Rightarrow> journal_entry list \<Rightarrow> bool" where
  "txn_ok d s j es \<longleftrightarrow> j_dev j = d \<and> j_ready j \<and> es \<noteq> [] \<and> length es \<le> JNL_MAX_TXN_BLOCKS \<and>
     length es < unat (j_size_blocks j) \<and> 8 * (unat (j_start_block j) + unat (j_size_blocks j)) \<le> unat (d_total_sectors (b_dev s d)) \<and>
     (\<forall>e \<in> set es. length (je_data e) = PAGE_SIZE \<and> fits d s (unat (je_target_lba e)) \<and>
        \<not> (unat (j_start_block j) \<le> unat (je_target_lba e) \<and> unat (je_target_lba e) < unat (j_start_block j) + unat (j_size_blocks j)))"

lemma journal_block:
  assumes "8 * (unat (j_start_block j) + unat (j_size_blocks j)) \<le> unat (d_total_sectors (b_dev s d))" and "i + 1 < unat (j_size_blocks j)"
  shows "unat (j_start_block j + 1 + of_nat i) = unat (j_start_block j) + 1 + i"
    and "fits d s (unat (j_start_block j + 1 + of_nat i))"
    and "\<not> j_start_block j + 1 + of_nat i \<ge> j_start_block j + ucast (j_size_blocks j)"
proof -
  have lt: "unat (d_total_sectors (b_dev s d)) < 2 ^ 64" using unsigned_less [of "d_total_sectors (b_dev s d)"] by simp
  have sz: "unat (j_size_blocks j) < 2 ^ 32" using unsigned_less [of "j_size_blocks j"] by simp
  have i: "unat (of_nat i :: u64) = i" using assms(2) sz by (simp add: unat_of_nat)
  show 1: "unat (j_start_block j + 1 + of_nat i) = unat (j_start_block j) + 1 + i"
    using assms lt i by (simp add: unat_word_ariths)
  then show "fits d s (unat (j_start_block j + 1 + of_nat i))" using assms by (simp add: fits_def)
  have "unat (ucast (j_size_blocks j) :: u64) = unat (j_size_blocks j)" 
    using sz by (simp add: unsigned_ucast_eq take_bit_nat_eq_self)
  then have "unat (j_start_block j + ucast (j_size_blocks j)) = unat (j_start_block j) + unat (j_size_blocks j)"
    using assms lt by (simp add: unat_word_ariths)
  then show "\<not> j_start_block j + 1 + of_nat i \<ge> j_start_block j + ucast (j_size_blocks j)"
    using 1 assms(2) by (simp add: word_le_nat_alt)
qed

definition entries_log :: "nat \<Rightarrow> nat \<Rightarrow> journal_entry list \<Rightarrow> (nat \<times> u8 list) list" where
  "entries_log st i es = concat (map (\<lambda>k. W (st + 1 + i + k) (take PAGE_SIZE (entry_bytes (es ! k)))) [0..<length es])"

lemma entries_log_Cons: "entries_log st i (e # es) = W (st + 1 + i) (take PAGE_SIZE (entry_bytes e)) @ entries_log st (Suc i) es"
  by (simp add: entries_log_def upt_conv_Cons map_Suc_upt [symmetric] del: upt_Suc map_Suc_upt) (simp add: o_def)

definition targets_log :: "journal_entry list \<Rightarrow> (nat \<times> u8 list) list" where
  "targets_log es = concat (map (\<lambda>e. W (unat (je_target_lba e)) (take PAGE_SIZE (je_data e))) es)"

lemma commit_entries_log:
  assumes "dev_ok d s" and "j_dev j = d" and "8 * (unat (j_start_block j) + unat (j_size_blocks j)) \<le> unat (d_total_sectors (b_dev s d))"
    and "i + length es < unat (j_size_blocks j)"
  shows "\<exists>s'. commit_entries j i es s = (0, s') \<and> wrote d s (entries_log (unat (j_start_block j)) i es) s'"
  using assms
proof (induction es arbitrary: i s)
  case Nil then show ?case by (simp add: entries_log_def wrote_refl)
next
  case (Cons e es)
  have i: "i + 1 < unat (j_size_blocks j)" using Cons.prems(4) by simp
  note b = journal_block [OF Cons.prems(3) i]
  obtain s1 where 1: "write_block d (j_start_block j + 1 + of_nat i) (entry_bytes e) s = (0, s1)"
    and w1: "wrote d s (W (unat (j_start_block j) + 1 + i) (take PAGE_SIZE (entry_bytes e))) s1"
    using write_block_ok [OF Cons.prems(1) b(2)] unfolding b(1) by blast
  have "dev_ok d s1" "8 * (unat (j_start_block j) + unat (j_size_blocks j)) \<le> unat (d_total_sectors (b_dev s1 d))"
    using w1 Cons.prems(1,3) by (auto simp: wrote_def dw_def dev_ok_def)
  then obtain s2 where "commit_entries j (Suc i) es s1 = (0, s2)" "wrote d s1 (entries_log (unat (j_start_block j)) (Suc i) es) s2"
    using Cons.IH [of s1 "Suc i"] Cons.prems(2,4) by auto
  then show ?case using 1 b(3) Cons.prems(2) wrote_trans [OF w1]
    by (auto simp: entries_log_Cons Let_def)
qed

lemma apply_entry_log:
  assumes "dev_ok d s" and "fits d s (unat (je_target_lba e))"
  shows "wrote d s (W (unat (je_target_lba e)) (take PAGE_SIZE (je_data e))) (apply_entry d e s)"
proof -
  obtain s' where "write_block d (je_target_lba e) (je_data e) s = (0, s')"
    and "wrote d s (W (unat (je_target_lba e)) (take PAGE_SIZE (je_data e))) s'" by (rule write_block_ok [OF assms])
  then show ?thesis by (simp add: apply_entry_def wrote_def)
qed

lemma apply_log:
  "dev_ok d s \<Longrightarrow> \<forall>e \<in> set es. fits d s (unat (je_target_lba e)) \<Longrightarrow> wrote d s (targets_log es) (fold (apply_entry d) es s)"
proof (induction es arbitrary: s)
  case (Cons e es)
  then have 1: "wrote d s (W (unat (je_target_lba e)) (take PAGE_SIZE (je_data e))) (apply_entry d e s)"
    using apply_entry_log by simp
  then have "wrote d (apply_entry d e s) (targets_log es) (fold (apply_entry d) es (apply_entry d e s))"
    using Cons wrote_dev [OF 1] by simp
  then show ?case using wrote_trans [OF 1] by (simp add: targets_log_def)
qed (simp add: targets_log_def wrote_refl)

text \<open>The two headers that a commit writes, and everything it writes, in order.\<close>

definition first_header :: "stack_bytes \<Rightarrow> journal \<Rightarrow> journal_entry list \<Rightarrow> journal_header" where
  "first_header sb j es =
     (let h = (sb_header sb)\<lparr>jh_magic := JNL_MAGIC, jh_seq := j_head j + 1, jh_count := of_nat (length es)\<rparr>
      in h\<lparr>jh_checksum := jnl_checksum h es, jh_commit := 0, jh_pad := 0\<rparr>)"

definition second_header :: "stack_bytes \<Rightarrow> journal \<Rightarrow> journal_entry list \<Rightarrow> journal_header" where
  "second_header sb j es =
     (let h = (first_header sb j es)\<lparr>jh_commit := 1\<rparr> in h\<lparr>jh_checksum := jnl_checksum h es\<rparr>)"

definition header_log :: "stack_bytes \<Rightarrow> journal \<Rightarrow> journal_header \<Rightarrow> (nat \<times> u8 list) list" where
  "header_log sb j h = W (unat (j_start_block j)) (take PAGE_SIZE (header_bytes h @ sb_after sb))"

definition commit_log :: "stack_bytes \<Rightarrow> journal \<Rightarrow> journal_entry list \<Rightarrow> (nat \<times> u8 list) list" where
  "commit_log sb j es =
     header_log sb j (first_header sb j es) @ entries_log (unat (j_start_block j)) 0 es @
     header_log sb j (second_header sb j es) @ targets_log es @ header_log sb j zero_header"

lemma journal_commit_log:
  assumes "txn_ok d s j es" and "dev_ok d s" and "g_jnl_crash_stage s = 0"
  shows "\<exists>j' s'. journal_commit sb (Some j) (Some \<lparr>jt_entries = es\<rparr>) s = (Some 0, Some j', s') \<and> wrote d s (commit_log sb j es) s'"
proof -
  have j: "j_dev j = d" "j_ready j" "es \<noteq> []" "0 + length es < unat (j_size_blocks j)"
    "8 * (unat (j_start_block j) + unat (j_size_blocks j)) \<le> unat (d_total_sectors (b_dev s d))"
    "\<forall>e \<in> set es. fits d s (unat (je_target_lba e))" using assms(1) by (auto simp: txn_ok_def)
  have hd: "fits d s (unat (j_start_block j))" using j(4,5) by (simp add: fits_def)
  let ?h1 = "first_header sb j es" and ?h2 = "second_header sb j es"
  obtain s1 where 1: "write_block d (j_start_block j) (header_bytes ?h1 @ sb_after sb) s = (0, s1)"
    and w1: "wrote d s (header_log sb j ?h1) s1"
    using write_block_ok [OF assms(2) hd] unfolding header_log_def by blast
  have ok1: "dev_ok d s1" "8 * (unat (j_start_block j) + unat (j_size_blocks j)) \<le> unat (d_total_sectors (b_dev s1 d))"
    using assms(2) j(5) w1 wrote_dev [OF w1] by (auto simp: wrote_def dw_def)
  obtain s2 where 2: "commit_entries j 0 es s1 = (0, s2)" and w2: "wrote d s1 (entries_log (unat (j_start_block j)) 0 es) s2"
    using commit_entries_log [OF ok1(1) j(1) ok1(2) j(4)] by blast
  have ok2: "dev_ok d s2" "fits d s2 (unat (j_start_block j))" using ok1(1) hd wrote_dev [OF w1] wrote_dev [OF w2] by auto
  obtain s3 where 3: "write_block d (j_start_block j) (header_bytes ?h2 @ sb_after sb) s2 = (0, s3)"
    and w3: "wrote d s2 (header_log sb j ?h2) s3"
    using write_block_ok [OF ok2] unfolding header_log_def by blast
  have ok3: "dev_ok d s3" "\<forall>e \<in> set es. fits d s3 (unat (je_target_lba e))" "fits d s3 (unat (j_start_block j))"
    using ok2 j(6) wrote_dev [OF w1] wrote_dev [OF w2] wrote_dev [OF w3] by auto
  define s4 where "s4 = fold (apply_entry d) es s3"
  have w4: "wrote d s3 (targets_log es) s4" unfolding s4_def by (rule apply_log [OF ok3(1,2)])
  have ok4: "dev_ok d s4" "fits d s4 (unat (j_start_block j))" using ok3 wrote_dev [OF w4] by auto
  obtain s5 where 5: "write_block d (j_start_block j) (header_bytes zero_header @ sb_after sb) s4 = (0, s5)"
    and w5: "wrote d s4 (header_log sb j zero_header) s5"
    using write_block_ok [OF ok4] unfolding header_log_def by blast
  have st: "g_jnl_crash_stage s1 = 0" "g_jnl_crash_stage s2 = 0" "g_jnl_crash_stage s3 = 0"
    using assms(3) w1 w2 w3 by (simp_all add: wrote_def)
  have "wrote d s3 (W (unat (je_target_lba (hd es))) (take PAGE_SIZE (je_data (hd es)))) (apply_entry d (hd es) s3)"
    using ok3 j(3) by (intro apply_entry_log) auto
  then have st4: "g_jnl_crash_stage (apply_entry d (hd es) s3) = 0" using st by (simp add: wrote_def)
  have s4: "fold (apply_entry d) (tl es) (apply_entry d (hd es) s3) = s4"
    unfolding s4_def using j(3) by (cases es) simp_all
  have h: "second_header sb j es = (let h = ?h1\<lparr>jh_commit := 1\<rparr> in h\<lparr>jh_checksum := jnl_checksum h es\<rparr>)" by (simp add: second_header_def)
  have "\<exists>j'. journal_commit sb (Some j) (Some \<lparr>jt_entries = es\<rparr>) s = (Some 0, Some j', s5)"
    using 1 2 3 5 j(1-3) st st4 s4 unfolding h first_header_def
    by (simp add: journal_commit_def crash_if_def Let_def)
  moreover have "wrote d s (commit_log sb j es) s5"
    using wrote_trans [OF w1 wrote_trans [OF w2 wrote_trans [OF w3 wrote_trans [OF w4 w5]]]] by (simp add: commit_log_def)
  ultimately show ?thesis by blast
qed

section \<open>The disk after a prefix of the log\<close>

definition ws_in :: "(nat \<times> u8 list) list \<Rightarrow> (nat \<Rightarrow> bool) \<Rightarrow> bool" where
  "ws_in ws P \<longleftrightarrow> (\<forall>w \<in> set ws. P (fst w div 8) \<and> length (snd w) \<le> 512)"

lemma ws_in_W: "P b \<Longrightarrow> ws_in (W b bs) P"
  by (auto simp: ws_in_def W_def sectors_of_def kernel_defs)

lemma ws_in_append [simp]: "ws_in (xs @ ys) P \<longleftrightarrow> ws_in xs P \<and> ws_in ys P" by (auto simp: ws_in_def)

lemma ws_in_take: "ws_in ws P \<Longrightarrow> ws_in (take k ws) P" using set_take_subset [of k ws] by (auto simp: ws_in_def)

lemma ws_in_mono: "ws_in ws P \<Longrightarrow> (\<And>b. P b \<Longrightarrow> Q b) \<Longrightarrow> ws_in ws Q" by (auto simp: ws_in_def)

lemma fold_outside: "ws_in ws P \<Longrightarrow> \<not> P (x div 4096) \<Longrightarrow> fold sector_put ws f x = f x"
proof (induction ws arbitrary: f)
  case (Cons w ws)
  have "sector_put w f x = f x"
  proof -
    have "\<not> (fst w * 512 \<le> x \<and> x < fst w * 512 + length (snd w))"
    proof
      assume "fst w * 512 \<le> x \<and> x < fst w * 512 + length (snd w)"
      then have "x div 512 = fst w" using Cons.prems(1) by (auto simp: ws_in_def intro!: div_nat_eqI)
      then have "x div 4096 = fst w div 8" using div_mult2_eq [of x 512 8] by simp
      with Cons.prems show False by (simp add: ws_in_def)
    qed
    then show ?thesis by (auto simp: sector_put_def bytes_put_def kernel_defs)
  qed
  with Cons show ?case by (simp add: ws_in_def)
qed simp

definition blk :: "nat \<Rightarrow> (nat \<Rightarrow> u8) \<Rightarrow> u8 list" where "blk b f = bytes_get (b * 4096) 4096 f"

lemma blk_length [simp]: "length (blk b f) = 4096" by (simp add: blk_def bytes_get_def)

lemma blk_outside: "ws_in ws P \<Longrightarrow> \<not> P b \<Longrightarrow> blk b (fold sector_put ws f) = blk b f"
proof -
  assume w: "ws_in ws P" and b: "\<not> P b"
  have "fold sector_put ws f x = f x" if "b * 4096 \<le> x" "x < b * 4096 + 4096" for x
  proof (rule fold_outside [OF w])
    have "x div 4096 = b" using that by (intro div_nat_eqI) simp_all
    then show "\<not> P (x div 4096)" using b by simp
  qed
  then show ?thesis unfolding blk_def by (rule bytes_get_cong)
qed

lemma blk_put: "length bs = 4096 \<Longrightarrow> blk b (bytes_put (b * 4096) bs f) = bs"
  by (simp add: blk_def bytes_get_put)

lemma header_of_take: "24 \<le> length b \<Longrightarrow> header_of (take 24 b) = header_of b"
  by (simp add: header_of_def un32_def)

text \<open>A header counts as soon as its first sector is on the disk.\<close>

lemma header_written:
  assumes "1 \<le> m" and "m \<le> 8" and "length bs = 4096" and "bs = header_bytes h @ r"
  shows "header_of (blk b (fold sector_put (take m (W b bs)) f)) = h"
proof -
  have "take 24 (blk b (bytes_put (b * 4096) (take (m * 512) bs) f)) = take 24 bs"
    using assms(1,3) by (intro nth_equalityI) (auto simp: blk_def bytes_get_def bytes_put_def)
  then have "header_of (blk b (bytes_put (b * 4096) (take (m * 512) bs) f)) = header_of (take 24 bs)"
    using header_of_take [of "blk b (bytes_put (b * 4096) (take (m * 512) bs) f)"] by simp
  also have "\<dots> = h" using assms(4) header_of_bytes [of h "[]"] by simp
  finally show ?thesis using fold_take_W [OF assms(3,2)] by simp
qed

section \<open>Writing a list of blocks to their places\<close>

definition tlog :: "(journal_entry \<Rightarrow> u8 list) \<Rightarrow> journal_entry list \<Rightarrow> (nat \<times> u8 list) list" where
  "tlog F es = concat (map (\<lambda>e. W (unat (je_target_lba e)) (F e)) es)"

definition put_all :: "(journal_entry \<Rightarrow> u8 list) \<Rightarrow> journal_entry list \<Rightarrow> (nat \<Rightarrow> u8) \<Rightarrow> nat \<Rightarrow> u8" where
  "put_all F es f = fold (\<lambda>e. bytes_put (unat (je_target_lba e) * 4096) (F e)) es f"

lemma fold_tlog: "\<forall>e \<in> set es. length (F e) = 4096 \<Longrightarrow> fold sector_put (tlog F es) f = put_all F es f"
proof (induction es arbitrary: f)
  case (Cons e es)
  then show ?case using fold_W [of "F e" "unat (je_target_lba e)" f] by (simp add: tlog_def put_all_def)
qed (simp add: tlog_def put_all_def)

lemma put_all_Cons: "put_all F (e # es) f = put_all F es (bytes_put (unat (je_target_lba e) * 4096) (F e) f)"
  by (simp add: put_all_def)

lemma put_all_cong: "f x = g x \<Longrightarrow> put_all F es f x = put_all F es g x"
proof (induction es arbitrary: f g)
  case (Cons e es)
  have "bytes_put a bs f x = bytes_put a bs g x" for a bs using Cons.prems by (simp add: bytes_put_def)
  then show ?case unfolding put_all_Cons by (rule Cons.IH)
qed (simp add: put_all_def)

lemma put_all_rewrites:
  "\<lbrakk>\<forall>e \<in> set es. length (F e) = 4096; (\<forall>e \<in> set es. \<not> in_block x (unat (je_target_lba e))) \<Longrightarrow> f x = g x\<rbrakk>
   \<Longrightarrow> put_all F es f x = put_all F es g x"
proof (induction es arbitrary: f g)
  case (Cons e es)
  let ?p = "bytes_put (unat (je_target_lba e) * 4096) (F e)"
  have "?p f x = ?p g x" if "\<forall>e \<in> set es. \<not> in_block x (unat (je_target_lba e))"
  proof (cases "in_block x (unat (je_target_lba e))")
    case True then show ?thesis using Cons.prems(1) by (intro bytes_put_inside) simp_all
  next
    case False then show ?thesis using Cons.prems that by (simp add: bytes_put_outside)
  qed
  then show ?case unfolding put_all_Cons using Cons.prems(1) by (intro Cons.IH) simp_all
qed (simp add: put_all_def)

lemma ws_in_tlog: "\<forall>e \<in> set es. P (unat (je_target_lba e)) \<Longrightarrow> ws_in (tlog F es) P"
  by (induction es) (auto simp: tlog_def ws_in_W, simp add: ws_in_def)

lemma ws_in_entries: "(\<And>k. k < length es \<Longrightarrow> P (st + 1 + i + k)) \<Longrightarrow> ws_in (entries_log st i es) P"
proof (induction es arbitrary: i)
  case (Cons e es)
  have "ws_in (entries_log st (Suc i) es) P"
    by (rule Cons.IH) (use Cons.prems [of "Suc k" for k] in simp)
  moreover have "P (st + 1 + i)" using Cons.prems [of 0] by simp
  ultimately show ?case by (simp add: entries_log_Cons ws_in_W)
qed (simp add: entries_log_def ws_in_def)

lemma entries_written:
  "\<lbrakk>\<forall>e \<in> set es. length (je_data e) = 4096; k < length es\<rbrakk>
   \<Longrightarrow> blk (st + 1 + i + k) (fold sector_put (entries_log st i es) f) = take 4096 (entry_bytes (es ! k))"
proof (induction es arbitrary: i k f)
  case (Cons e es)
  have l: "length (take 4096 (entry_bytes e)) = 4096" using Cons.prems(1) by (simp add: entry_length)
  let ?f = "bytes_put ((st + 1 + i) * 4096) (take 4096 (entry_bytes e)) f"
  have f: "fold sector_put (entries_log st i (e # es)) f = fold sector_put (entries_log st (Suc i) es) ?f"
    using fold_W [OF l, of "st + 1 + i" f] by (simp add: entries_log_Cons kernel_defs)
  show ?case
  proof (cases k)
    case 0
    have "ws_in (entries_log st (Suc i) es) (\<lambda>b. st + 1 + i < b)" by (rule ws_in_entries) simp
    then have "blk (st + 1 + i) (fold sector_put (entries_log st (Suc i) es) ?f) = blk (st + 1 + i) ?f" by (rule blk_outside) simp
    also have "\<dots> = take 4096 (entry_bytes e)" by (rule blk_put [OF l])
    finally show ?thesis using 0 f by simp
  next
    case (Suc k')
    then show ?thesis using Cons.IH [of k' "Suc i" ?f] Cons.prems f by simp
  qed
qed simp

section \<open>Recovery\<close>

text \<open>What a replay writes for an entry: its last 16 bytes are those of the stack.\<close>

definition replayed :: "stack_bytes \<Rightarrow> journal_entry \<Rightarrow> u8 list" where
  "replayed sb e = take 4080 (je_data e) @ sb_tail sb"

lemma recover_loop_log:
  assumes "dev_ok d s" and "j_dev j = d" and "length (sb_tail sb) = 16"
    and "8 * (unat (j_start_block j) + unat (j_size_blocks j)) \<le> unat (d_total_sectors (b_dev s d))"
    and "i + length es < unat (j_size_blocks j)"
    and "\<forall>e \<in> set es. length (je_data e) = 4096 \<and> fits d s (unat (je_target_lba e)) \<and>
        \<not> (unat (j_start_block j) \<le> unat (je_target_lba e) \<and> unat (je_target_lba e) < unat (j_start_block j) + unat (j_size_blocks j))"
    and "\<And>k. k < length es \<Longrightarrow> blk (unat (j_start_block j) + 1 + i + k) (d_bytes (b_dev s d)) = take 4096 (entry_bytes (es ! k))"
  shows "\<exists>s'. recover_loop sb j i (length es) s = (0, s') \<and> wrote d s (tlog (replayed sb) es) s'"
  using assms
proof (induction es arbitrary: i s)
  case Nil then show ?case by (simp add: tlog_def wrote_refl)
next
  case (Cons e es)
  have i: "i + 1 < unat (j_size_blocks j)" using Cons.prems(5) by simp
  note b = journal_block [OF Cons.prems(4) i]
  let ?b = "take 4096 (entry_bytes e)"
  obtain s1 where 1: "read_block d (j_start_block j + 1 + of_nat i) s = (0, ?b, s1)" and w1: "wrote d s [] s1"
    using read_block_ok [OF Cons.prems(1) b(2)] Cons.prems(7) [of 0] unfolding b(1) by (auto simp: blk_def)
  have e: "length (je_data e) = 4096" "fits d s (unat (je_target_lba e))" using Cons.prems(6) by auto
  have ok1: "dev_ok d s1" "fits d s1 (unat (je_target_lba e))" using Cons.prems(1) e(2) wrote_dev [OF w1] by auto
  have rl: "length (replayed sb e) = 4096" using e(1) Cons.prems(3) by (simp add: replayed_def)
  obtain s2 where 2: "write_block d (je_target_lba e) (replayed sb e) s1 = (0, s2)"
    and w2: "wrote d s1 (W (unat (je_target_lba e)) (replayed sb e)) s2"
    using write_block_ok [OF ok1, of "replayed sb e"] rl by (auto simp: kernel_defs)
  define s3 where "s3 = pcache_invalidate d (je_target_lba e) s2"
  have w3: "wrote d s (W (unat (je_target_lba e)) (replayed sb e)) s3"
    using wrote_trans [OF w1 w2] by (simp add: wrote_def s3_def)
  have bytes: "d_bytes (b_dev s3 d) = fold sector_put (W (unat (je_target_lba e)) (replayed sb e)) (d_bytes (b_dev s d))"
    using w3 by (simp add: wrote_def dw_def)
  have keep: "blk (unat (j_start_block j) + 1 + Suc i + k) (d_bytes (b_dev s3 d)) = take 4096 (entry_bytes (es ! k))" if "k < length es" for k
  proof -
    have "unat (j_start_block j) + 1 + Suc i + k \<noteq> unat (je_target_lba e)" using Cons.prems(5,6) that by auto
    then have "blk (unat (j_start_block j) + 1 + Suc i + k) (d_bytes (b_dev s3 d)) =
        blk (unat (j_start_block j) + 1 + Suc i + k) (d_bytes (b_dev s d))"
      unfolding bytes by (intro blk_outside [where P = "\<lambda>b. b = unat (je_target_lba e)"] ws_in_W) simp_all
    then show ?thesis using Cons.prems(7) [of "Suc k"] that by simp
  qed
  have "8 * (unat (j_start_block j) + unat (j_size_blocks j)) \<le> unat (d_total_sectors (b_dev s3 d))"
    using Cons.prems(4) w3 by (simp add: wrote_def dw_def)
  then obtain s4 where "recover_loop sb j (Suc i) (length es) s3 = (0, s4)" "wrote d s3 (tlog (replayed sb) es) s4"
    using Cons.IH [of s3 "Suc i"] Cons.prems keep wrote_dev [OF w3] by auto
  moreover have "un64 ?b = je_target_lba e" "drop 16 ?b @ sb_tail sb = replayed sb e"
    using entry_block [OF e(1)] by (simp_all add: replayed_def)
  ultimately show ?case using 1 2 Cons.prems(2) wrote_trans [OF w3]
    by (auto simp: Let_def s3_def tlog_def)
qed

text \<open>Recovery of a disk without a committed transaction changes nothing outside the journal's first block.\<close>

lemma recover_discards:
  assumes "dev_ok d s" and "j_dev j = d" and "j_ready j" and "fits d s (unat (j_start_block j))"
    and "h = header_of (blk (unat (j_start_block j)) (d_bytes (b_dev s d)))" and "jh_magic h \<noteq> JNL_MAGIC \<or> jh_commit h \<noteq> 1"
  shows "\<exists>s' ws. journal_recover sb (Some j) s = (0, s') \<and> wrote d s ws s' \<and> ws_in ws (\<lambda>b. b = unat (j_start_block j))"
proof -
  obtain s1 where 1: "read_block d (j_start_block j) s = (0, blk (unat (j_start_block j)) (d_bytes (b_dev s d)), s1)" and w1: "wrote d s [] s1"
    using read_block_ok [OF assms(1,4)] by (auto simp: blk_def)
  have ok1: "dev_ok d s1" "fits d s1 (unat (j_start_block j))" using assms(1,4) wrote_dev [OF w1] by auto
  obtain s2 ws where 2: "snd (write_block d (j_start_block j) (header_bytes zero_header @ sb_after sb) s1) = s2"
    and w2: "wrote d s1 ws s2" "ws_in ws (\<lambda>b. b = unat (j_start_block j))"
    using write_block_ok [OF ok1] by (metis snd_conv ws_in_W)
  have "ws_in [] (\<lambda>b. b = unat (j_start_block j))" by (simp add: ws_in_def)
  then show ?thesis
    using 1 2 w1 w2 wrote_trans [OF w1 w2(1)] assms(2,3,5,6)
    by (cases "jh_magic h \<noteq> JNL_MAGIC") (auto simp: journal_recover_def Let_def)
qed

lemma recover_replays:
  assumes "dev_ok d s" and "txn_ok d s j es" and "length (sb_tail sb) = 16"
    and "h = header_of (blk (unat (j_start_block j)) (d_bytes (b_dev s d)))"
    and "jh_magic h = JNL_MAGIC" and "jh_commit h = 1" and "jh_count h = of_nat (length es)"
    and "\<And>k. k < length es \<Longrightarrow> blk (unat (j_start_block j) + 1 + k) (d_bytes (b_dev s d)) = take 4096 (entry_bytes (es ! k))"
  shows "\<exists>s' ws. journal_recover sb (Some j) s = (0, s') \<and> wrote d s (tlog (replayed sb) es @ ws) s' \<and>
           ws_in ws (\<lambda>b. b = unat (j_start_block j))"
proof -
  have j: "j_dev j = d" "j_ready j" "es \<noteq> []" "length es \<le> 64" "0 + length es < unat (j_size_blocks j)"
    "8 * (unat (j_start_block j) + unat (j_size_blocks j)) \<le> unat (d_total_sectors (b_dev s d))"
    "\<forall>e \<in> set es. length (je_data e) = 4096 \<and> fits d s (unat (je_target_lba e)) \<and>
        \<not> (unat (j_start_block j) \<le> unat (je_target_lba e) \<and> unat (je_target_lba e) < unat (j_start_block j) + unat (j_size_blocks j))"
    using assms(2) by (auto simp: txn_ok_def kernel_defs)
  have hd: "fits d s (unat (j_start_block j))" using j(5,6) by (simp add: fits_def)
  obtain s1 where 1: "read_block d (j_start_block j) s = (0, blk (unat (j_start_block j)) (d_bytes (b_dev s d)), s1)" and w1: "wrote d s [] s1"
    using read_block_ok [OF assms(1) hd] by (auto simp: blk_def)
  have s1: "dev_ok d s1" "fits d s1 b = fits d s b" "d_total_sectors (b_dev s1 d) = d_total_sectors (b_dev s d)" "d_bytes (b_dev s1 d) = d_bytes (b_dev s d)" for b
    using assms(1) w1 wrote_dev [OF w1] by (auto simp: wrote_def dw_def)
  have "\<exists>s'. recover_loop sb j 0 (length es) s1 = (0, s') \<and> wrote d s1 (tlog (replayed sb) es) s'"
    by (rule recover_loop_log [OF s1(1) j(1) assms(3) _ j(5)]) (use j(6,7) s1 assms(8) in simp_all)
  then obtain s2 where 2: "recover_loop sb j 0 (length es) s1 = (0, s2)" and w2: "wrote d s1 (tlog (replayed sb) es) s2" by blast
  have ok2: "dev_ok d s2" "fits d s2 (unat (j_start_block j))" using s1 hd wrote_dev [OF w2] by auto
  obtain s3 ws where 3: "snd (write_block d (j_start_block j) (header_bytes zero_header @ sb_after sb) s2) = s3"
    and w3: "wrote d s2 ws s3" "ws_in ws (\<lambda>b. b = unat (j_start_block j))"
    using write_block_ok [OF ok2] by (metis snd_conv ws_in_W)
  have c: "unat (jh_count h) = length es" using assms(7) j(4) by (simp add: unat_of_nat)
  then have c': "\<not> (jh_count h = 0 \<or> jh_count h > of_nat JNL_MAX_TXN_BLOCKS)"
    using j(3,4) by (auto simp: word_less_nat_alt kernel_defs)
  have "journal_recover sb (Some j) s = (0, s3)"
    using 1 2 3 c c' j(1,2) assms(4-6) by (auto simp: journal_recover_def Let_def)
  moreover have "wrote d s (tlog (replayed sb) es @ ws) s3" using wrote_trans [OF w1 wrote_trans [OF w2 w3(1)]] by simp
  ultimately show ?thesis using w3(2) by blast
qed

section \<open>Crashes\<close>

definition in_journal :: "journal \<Rightarrow> nat \<Rightarrow> bool" where
  "in_journal j b \<longleftrightarrow> unat (j_start_block j) \<le> b \<and> b < unat (j_start_block j) + unat (j_size_blocks j)"

definition uncommitted :: "journal \<Rightarrow> (nat \<Rightarrow> u8) \<Rightarrow> bool" where
  "uncommitted j f \<longleftrightarrow> (let h = header_of (blk (unat (j_start_block j)) f) in jh_magic h \<noteq> JNL_MAGIC \<or> jh_commit h \<noteq> 1)"

lemma entries_log_length: "length (entries_log st i es) = 8 * length es"
  by (induction es arbitrary: i) (simp_all add: entries_log_Cons, simp add: entries_log_def)

lemma tlog_length: "length (tlog F es) = 8 * length es"
  by (induction es) (simp_all add: tlog_def)

lemma targets_tlog: "targets_log es = tlog (\<lambda>e. take PAGE_SIZE (je_data e)) es"
  by (simp add: targets_log_def tlog_def)

lemma header_log_written:
  assumes "length (sb_after sb) = 4072" and "1 \<le> m"
  shows "header_of (blk (unat (j_start_block j)) (fold sector_put (take m (header_log sb j h)) f)) = h"
proof -
  have l: "length (take PAGE_SIZE (header_bytes h @ sb_after sb)) = 4096" using assms(1) by (simp add: kernel_defs)
  have e: "take PAGE_SIZE (header_bytes h @ sb_after sb) = header_bytes h @ sb_after sb" using assms(1) by (simp add: kernel_defs)
  have t: "take m (header_log sb j h) = take (min m 8) (header_log sb j h)" by (simp add: header_log_def min_def)
  show ?thesis unfolding t unfolding header_log_def
    by (rule header_written [OF _ _ l e]) (use assms(2) in simp_all)
qed

lemma second_header_fields:
  "jh_magic (second_header sb j es) = JNL_MAGIC \<and> jh_commit (second_header sb j es) = 1 \<and> jh_count (second_header sb j es) = of_nat (length es)"
  by (simp add: second_header_def first_header_def Let_def)

lemma first_header_uncommitted: "jh_commit (first_header sb j es) = 0"
  by (simp add: first_header_def Let_def)

lemma ws_in_header: "P (unat (j_start_block j)) \<Longrightarrow> ws_in (header_log sb j h) P"
  by (simp add: header_log_def ws_in_W)

lemma take_append2: "length xs \<le> k \<Longrightarrow> take k (xs @ ys) = xs @ take (k - length xs) ys" by simp

text \<open>Before the commit header: the transaction is discarded.\<close>

lemma crash_early:
  assumes "txn_ok d s j es" and "dev_ok d s" and "length (sb_after sb) = 4072" and "uncommitted j (d_bytes (b_dev s d))"
    and "k \<le> 8 + 8 * length es" and "f = fold sector_put (take k (commit_log sb j es)) (d_bytes (b_dev s d))"
  shows "uncommitted j f \<and> (\<forall>x. \<not> in_journal j (x div 4096) \<longrightarrow> f x = d_bytes (b_dev s d) x)"
proof -
  let ?A = "header_log sb j (first_header sb j es)" and ?B = "entries_log (unat (j_start_block j)) 0 es" and ?D = "d_bytes (b_dev s d)"
  let ?st = "unat (j_start_block j)"
  have n: "length es < unat (j_size_blocks j)" using assms(1) by (simp add: txn_ok_def)
  have f: "f = fold sector_put (take k (?A @ ?B)) ?D"
    using assms(5,6) by (simp add: commit_log_def header_log_def entries_log_length)
  have inA: "ws_in ?A (in_journal j)" using n by (intro ws_in_header) (simp add: in_journal_def)
  have inB: "ws_in ?B (\<lambda>b. ?st < b \<and> in_journal j b)"
    by (rule ws_in_entries) (use n in \<open>simp add: in_journal_def\<close>)
  have "ws_in (take k (?A @ ?B)) (in_journal j)"
    using inA ws_in_mono [OF inB] by (intro ws_in_take) simp
  then have out: "\<forall>x. \<not> in_journal j (x div 4096) \<longrightarrow> f x = ?D x" using fold_outside f by blast
  have "uncommitted j f"
  proof (cases k)
    case 0 then show ?thesis using f assms(4) by simp
  next
    case (Suc k')
    have "f = fold sector_put (take (k - 8) ?B) (fold sector_put (take k ?A) ?D)"
      unfolding f by (simp add: header_log_def)
    moreover have "blk ?st (fold sector_put (take (k - 8) ?B) (fold sector_put (take k ?A) ?D)) = blk ?st (fold sector_put (take k ?A) ?D)"
      by (rule blk_outside [OF ws_in_take [OF inB]]) simp
    ultimately have "header_of (blk ?st f) = first_header sb j es"
      using header_log_written [OF assms(3), of k] Suc by simp
    then show ?thesis by (simp add: uncommitted_def first_header_uncommitted)
  qed
  with out show ?thesis by blast
qed

text \<open>Between the commit header and the final one: the journal holds the whole transaction.\<close>

lemma crash_committed:
  assumes "txn_ok d s j es" and "length (sb_after sb) = 4072"
    and "8 + 8 * length es < k" and "k \<le> 16 + 16 * length es" and "f = fold sector_put (take k (commit_log sb j es)) (d_bytes (b_dev s d))"
  shows "header_of (blk (unat (j_start_block j)) f) = second_header sb j es"
    and "\<And>i. i < length es \<Longrightarrow> blk (unat (j_start_block j) + 1 + i) f = take 4096 (entry_bytes (es ! i))"
    and "\<And>x. \<not> in_journal j (x div 4096) \<Longrightarrow> (\<forall>e \<in> set es. \<not> in_block x (unat (je_target_lba e))) \<Longrightarrow> f x = d_bytes (b_dev s d) x"
proof -
  let ?st = "unat (j_start_block j)" and ?D = "d_bytes (b_dev s d)"
  let ?A = "header_log sb j (first_header sb j es)" and ?B = "entries_log ?st 0 es" and ?C = "header_log sb j (second_header sb j es)"
    and ?E = "targets_log es"
  have n: "length es < unat (j_size_blocks j)" and de: "\<forall>e \<in> set es. length (je_data e) = 4096"
    and tg: "\<forall>e \<in> set es. \<not> in_journal j (unat (je_target_lba e))"
    using assms(1) by (auto simp: txn_ok_def in_journal_def kernel_defs)
  let ?m = "k - 8 - 8 * length es"
  have le: "length ?A = 8" "length ?B = 8 * length es" "length ?C = 8" "length ?E = 8 * length es"
    by (simp_all add: header_log_def entries_log_length targets_tlog tlog_length)
  have "take k (commit_log sb j es) = take k ((?A @ ?B) @ (?C @ ?E))"
    using assms(4) le by (simp add: commit_log_def)
  also have "\<dots> = (?A @ ?B) @ take ?m (?C @ ?E)" using assms(3) le by simp
  finally have f: "f = fold sector_put (take (?m - 8) ?E) (fold sector_put (take ?m ?C) (fold sector_put ?B (fold sector_put ?A ?D)))"
    using assms(5) le by simp
  have inE: "ws_in (take (?m - 8) ?E) (\<lambda>b. \<not> in_journal j b)" unfolding targets_tlog using tg by (intro ws_in_take ws_in_tlog) simp
  have inC: "ws_in (take ?m ?C) (\<lambda>b. b = ?st)" by (intro ws_in_take ws_in_header) simp
  have st: "in_journal j ?st" using n by (simp add: in_journal_def)
  show "header_of (blk ?st f) = second_header sb j es"
    unfolding f using blk_outside [OF inE, of ?st] st header_log_written [OF assms(2), of ?m] assms(3) by simp
  fix i assume i: "i < length es"
  have "in_journal j (?st + 1 + i)" using n i by (simp add: in_journal_def)
  then have "blk (?st + 1 + i) f = blk (?st + 1 + 0 + i) (fold sector_put ?B (fold sector_put ?A ?D))"
    unfolding f using blk_outside [OF inE, of "?st + 1 + i"] blk_outside [OF inC, of "?st + 1 + i"] by simp
  then show "blk (?st + 1 + i) f = take 4096 (entry_bytes (es ! i))" using entries_written [OF de i, of ?st 0] by simp
next
  fix x assume x: "\<not> in_journal j (x div 4096)" and nt: "\<forall>e \<in> set es. \<not> in_block x (unat (je_target_lba e))"
  let ?st = "unat (j_start_block j)"
  have n: "length es < unat (j_size_blocks j)" using assms(1) by (simp add: txn_ok_def)
  let ?P = "\<lambda>b. in_journal j b \<or> (\<exists>e \<in> set es. b = unat (je_target_lba e))"
  have "in_journal j ?st" using n by (simp add: in_journal_def)
  then have "ws_in (commit_log sb j es) ?P"
    unfolding commit_log_def targets_tlog using n
    by (auto intro!: ws_in_header ws_in_entries ws_in_tlog simp: in_journal_def)
  then have "ws_in (take k (commit_log sb j es)) ?P" by (rule ws_in_take)
  moreover have "\<not> ?P (x div 4096)" using x nt by (auto simp: in_block_def)
  ultimately show "f x = d_bytes (b_dev s d) x" unfolding assms(5) by (rule fold_outside)
qed

text \<open>From the first sector of the final header on: everything is in its place.\<close>

lemma crash_late:
  assumes "txn_ok d s j es" and "length (sb_after sb) = 4072"
    and "16 + 16 * length es < k" and "f = fold sector_put (take k (commit_log sb j es)) (d_bytes (b_dev s d))"
  shows "uncommitted j f \<and> (\<forall>x. \<not> in_journal j (x div 4096) \<longrightarrow> f x = put_all je_data es (d_bytes (b_dev s d)) x)"
proof -
  let ?st = "unat (j_start_block j)" and ?D = "d_bytes (b_dev s d)"
  let ?A = "header_log sb j (first_header sb j es)" and ?B = "entries_log ?st 0 es" and ?C = "header_log sb j (second_header sb j es)"
    and ?E = "targets_log es" and ?Z = "header_log sb j zero_header"
  have n: "length es < unat (j_size_blocks j)" and de: "\<forall>e \<in> set es. length (take PAGE_SIZE (je_data e)) = 4096"
    and de': "\<forall>e \<in> set es. take PAGE_SIZE (je_data e) = je_data e"
    using assms(1) by (auto simp: txn_ok_def kernel_defs)
  have le: "length ((?A @ ?B @ ?C) @ ?E) = 16 + 16 * length es"
    by (simp add: header_log_def entries_log_length targets_tlog tlog_length)
  have "take k (commit_log sb j es) = ((?A @ ?B @ ?C) @ ?E) @ take (k - (16 + 16 * length es)) ?Z"
    using take_append2 [of "(?A @ ?B @ ?C) @ ?E" k ?Z] assms(3) unfolding le by (simp add: commit_log_def)
  then have f: "f = fold sector_put (take (k - (16 + 16 * length es)) ?Z) (fold sector_put ?E (fold sector_put (?A @ ?B @ ?C) ?D))"
    using assms(4) by simp
  have "header_of (blk ?st f) = zero_header" unfolding f using header_log_written [OF assms(2)] assms(3) by simp
  then have u: "uncommitted j f" by (simp add: uncommitted_def zero_header_def)
  have st: "in_journal j ?st" using n by (simp add: in_journal_def)
  have inZ: "ws_in (take (k - (16 + 16 * length es)) ?Z) (in_journal j)" using st by (intro ws_in_take ws_in_header)
  have inABC: "ws_in (?A @ ?B @ ?C) (in_journal j)"
    using st n by (auto intro!: ws_in_header ws_in_entries simp: in_journal_def)
  have E: "fold sector_put ?E g = put_all je_data es g" for g
  proof -
    have "put_all (\<lambda>e. take PAGE_SIZE (je_data e)) es g = put_all je_data es g"
      using de' unfolding put_all_def by (intro fold_cong) simp_all
    then show ?thesis unfolding targets_tlog using fold_tlog [OF de] by simp
  qed
  have "f x = put_all je_data es ?D x" if "\<not> in_journal j (x div 4096)" for x
    unfolding f E using fold_outside [OF inZ that] put_all_cong [of "fold sector_put (?A @ ?B @ ?C) ?D" x ?D je_data es] fold_outside [OF inABC that, of ?D]
    by simp
  with u show ?thesis by blast
qed


definition wit_device :: block_device where
  "wit_device = \<lparr>d_name = ''vda'', d_sector_size = 512, d_total_sectors = 800, d_has_read = True, d_has_write = True,
     d_registered = True, d_index = 0, d_bytes = (\<lambda>_. 0), d_log = [], d_faults = []\<rparr>"

definition wit_storage :: "pmm_state \<Rightarrow> storage" where
  "wit_storage p = \<lparr>g_devices = [0], b_dev = (\<lambda>_. wit_device), g_device_count = 1, g_next_index = 1, g_block_inited = True,
     g_cache = replicate PCACHE_MAX_ENTRIES empty_slot, g_tick = 0, g_hits = 0, g_misses = 0, g_pc_inited = True, s_pmm = p,
     g_jnl_crash_stage = 0\<rparr>"

definition wit_journal :: journal where
  "wit_journal = \<lparr>j_dev = 0, j_start_block = 2, j_size_blocks = 4, j_head = 0, j_ready = True, j_active = True\<rparr>"

definition wit_entry :: journal_entry where
  "wit_entry = \<lparr>je_target_lba = 50, je_pad = 0, je_data = replicate 4096 7\<rparr>"

definition wit_stack_bytes :: stack_bytes where
  "wit_stack_bytes = \<lparr>sb_header = zero_header, sb_after = replicate 4072 0xAA, sb_tail = replicate 16 0xAA\<rparr>"

definition crash_after :: "nat \<Rightarrow> (nat \<times> u8 list) list \<Rightarrow> storage \<Rightarrow> storage" where
  "crash_after k ws s = upd_dev 0 (\<lambda>v. v\<lparr>d_bytes := fold sector_put (take k ws) (d_bytes v)\<rparr>) s"

lemma blk_zero: "blk b (\<lambda>_. 0) = replicate 4096 0"
  unfolding blk_def bytes_get_def by (simp add: map_replicate_const del: upt_rec_numeral)


end
