(* ===== verification/PageCacheProps.thy ===== *)
theory PageCacheProps
  imports JournalProps
begin

text \<open>
  The page cache is transparent: the blocks as the callers see them, in the cache or on the disk, are a map that only
  the callers' own writes change, whatever is evicted or written back in between.
\<close>

section \<open>The map of blocks\<close>

definition pc_abs :: "storage \<Rightarrow> nat \<Rightarrow> u64 \<Rightarrow> u8 list" where
  "pc_abs s d b =
     (case List.find (\<lambda>i. slot_holds d b (g_cache s ! i)) [0..<PCACHE_MAX_ENTRIES] of
        Some i \<Rightarrow> slot_bytes (g_cache s ! i)
      | None \<Rightarrow> blk (unat b) (d_bytes (b_dev s d)))"

text \<open>A valid slot holds a block of a working device; when it is clean it holds what the disk holds.\<close>

definition slot_ok :: "storage \<Rightarrow> pcache_slot \<Rightarrow> bool" where
  "slot_ok s c \<longleftrightarrow> (ps_valid c \<longrightarrow> (\<exists>d pg bs. ps_dev c = Some d \<and> ps_data c = Some (pg, bs) \<and> length bs = 4096 \<and> dev_ok d s \<and>
     fits d s (unat (ps_block_no c)) \<and> (\<not> ps_dirty c \<longrightarrow> bs = blk (unat (ps_block_no c)) (d_bytes (b_dev s d)))))"

definition pc_ok :: "storage \<Rightarrow> bool" where
  "pc_ok s \<longleftrightarrow> length (g_cache s) = PCACHE_MAX_ENTRIES \<and> (\<forall>i < PCACHE_MAX_ENTRIES. slot_ok s (g_cache s ! i)) \<and>
     (\<forall>i < PCACHE_MAX_ENTRIES. \<forall>k < PCACHE_MAX_ENTRIES. \<forall>d b.
        slot_holds d b (g_cache s ! i) \<and> slot_holds d b (g_cache s ! k) \<longrightarrow> i = k)"

lemma pc_abs_hit:
  assumes "pc_ok s" and "i < PCACHE_MAX_ENTRIES" and "slot_holds d b (g_cache s ! i)"
  shows "pc_abs s d b = slot_bytes (g_cache s ! i)"
proof (cases "List.find (\<lambda>i. slot_holds d b (g_cache s ! i)) [0..<PCACHE_MAX_ENTRIES]")
  case None
  then show ?thesis using assms by (auto simp: find_None_iff)
next
  case (Some k)
  then have "k < PCACHE_MAX_ENTRIES" "slot_holds d b (g_cache s ! k)" by (auto simp: find_Some_iff)
  with assms have "k = i" unfolding pc_ok_def by blast
  then show ?thesis using Some by (simp add: pc_abs_def)
qed

lemma pc_abs_miss:
  assumes "\<forall>i < PCACHE_MAX_ENTRIES. \<not> slot_holds d b (g_cache s ! i)"
  shows "pc_abs s d b = blk (unat b) (d_bytes (b_dev s d))"
proof -
  have "List.find (\<lambda>i. slot_holds d b (g_cache s ! i)) [0..<PCACHE_MAX_ENTRIES] = None"
    using assms by (auto simp: find_None_iff)
  then show ?thesis by (simp add: pc_abs_def)
qed

text \<open>The two cases as one rule: the states agree on a block when they agree on the slot that holds it, if there is one.\<close>

lemma pc_abs_eqI:
  assumes "pc_ok s" and "pc_ok s'"
    and "\<And>i. i < PCACHE_MAX_ENTRIES \<Longrightarrow> slot_holds d b (g_cache s ! i) \<Longrightarrow> x = slot_bytes (g_cache s ! i)"
    and "\<forall>i < PCACHE_MAX_ENTRIES. \<not> slot_holds d b (g_cache s ! i) \<Longrightarrow> x = blk (unat b) (d_bytes (b_dev s d))"
  shows "pc_abs s d b = x"
  using assms pc_abs_hit pc_abs_miss by metis

section \<open>Changing one slot\<close>

lemma slot_ok_dev: "b_dev s' = b_dev s \<Longrightarrow> slot_ok s' c = slot_ok s c"
  by (simp add: slot_ok_def dev_ok_def fits_def)

lemma upd_slot_cache: "length (g_cache s) = PCACHE_MAX_ENTRIES \<Longrightarrow> i < PCACHE_MAX_ENTRIES \<Longrightarrow>
    g_cache (upd_slot i f s) ! k = (if k = i then f (g_cache s ! i) else g_cache s ! k)"
  by (simp add: upd_slot_def nth_list_update)

text \<open>A change that keeps what the slot holds and may only make it dirty.\<close>

lemma touch_slot:
  assumes "pc_ok s" and "i < PCACHE_MAX_ENTRIES" and "g_cache s' = (g_cache s)[i := c']" and "b_dev s' = b_dev s"
    and "c = g_cache s ! i" and "ps_dev c' = ps_dev c" and "ps_block_no c' = ps_block_no c" and "ps_data c' = ps_data c"
    and "ps_valid c' = ps_valid c" and "ps_dirty c \<longrightarrow> ps_dirty c'"
  shows "pc_ok s' \<and> pc_abs s' = pc_abs s"
proof -
  have len: "length (g_cache s) = PCACHE_MAX_ENTRIES" using assms(1) by (simp add: pc_ok_def)
  have nth: "g_cache s' ! k = (if k = i then c' else g_cache s ! k)" for k using len assms(2,3) by (simp add: nth_list_update)
  have holds: "slot_holds d b (g_cache s' ! k) = slot_holds d b (g_cache s ! k)" for d b k
    using nth [of k] assms(5-9) by (simp add: slot_holds_def)
  have bytes: "slot_bytes (g_cache s' ! k) = slot_bytes (g_cache s ! k)" for k
    using nth [of k] assms(5,8) by (simp add: slot_bytes_def)
  have "slot_ok s' (g_cache s' ! k)" if "k < PCACHE_MAX_ENTRIES" for k
  proof -
    have "slot_ok s (g_cache s ! k)" using assms(1) that by (simp add: pc_ok_def)
    then show ?thesis using nth [of k] assms(5-10) slot_ok_dev [OF assms(4)] by (auto simp: slot_ok_def)
  qed
  then have "pc_ok s'" using assms(1,3) unfolding pc_ok_def holds by simp
  moreover have "pc_abs s' = pc_abs s" by (intro ext) (simp add: pc_abs_def holds bytes assms(4) split: option.split)
  ultimately show ?thesis by blast
qed

text \<open>A slot that is not dirty may be emptied or given to a block that no slot holds.\<close>

lemma replace_slot:
  assumes "pc_ok s" and "i < PCACHE_MAX_ENTRIES" and "g_cache s' = (g_cache s)[i := c']" and "b_dev s' = b_dev s"
    and "ps_valid (g_cache s ! i) \<longrightarrow> \<not> ps_dirty (g_cache s ! i)" and "slot_ok s c'"
    and "ps_valid c' \<longrightarrow> \<not> ps_dirty c' \<and> (\<forall>d k. ps_dev c' = Some d \<longrightarrow> k < PCACHE_MAX_ENTRIES \<longrightarrow> k \<noteq> i \<longrightarrow> \<not> slot_holds d (ps_block_no c') (g_cache s ! k))"
  shows "pc_ok s' \<and> pc_abs s' = pc_abs s"
proof -
  have len: "length (g_cache s) = PCACHE_MAX_ENTRIES" using assms(1) by (simp add: pc_ok_def)
  have nth: "g_cache s' ! k = (if k = i then c' else g_cache s ! k)" for k using len assms(2,3) by (simp add: nth_list_update)
  have ok: "\<forall>k < PCACHE_MAX_ENTRIES. slot_ok s' (g_cache s' ! k)"
    using nth assms(1,6) slot_ok_dev [OF assms(4)] by (simp add: pc_ok_def)
  have new: "\<not> slot_holds d b (g_cache s ! k)" if "slot_holds d b c'" "k < PCACHE_MAX_ENTRIES" "k \<noteq> i" for d b k
    using assms(7) that by (auto simp: slot_holds_def)
  have uniq: "n = k" if "n < PCACHE_MAX_ENTRIES" "k < PCACHE_MAX_ENTRIES" "slot_holds d b (g_cache s' ! n)" "slot_holds d b (g_cache s' ! k)" for n k d b
  proof -
    consider "n = i" "k = i" | "n = i" "k \<noteq> i" | "n \<noteq> i" "k = i" | "n \<noteq> i" "k \<noteq> i" by blast
    then show ?thesis
    proof cases
      case 2
      then have "slot_holds d b c'" "slot_holds d b (g_cache s ! k)" using that nth by simp_all
      then show ?thesis using new that(2) 2 by blast
    next
      case 3
      then have "slot_holds d b c'" "slot_holds d b (g_cache s ! n)" using that nth by simp_all
      then show ?thesis using new that(1) 3 by blast
    next
      case 4
      then have "slot_holds d b (g_cache s ! n)" "slot_holds d b (g_cache s ! k)" using that nth by simp_all
      then show ?thesis using assms(1) that(1,2) unfolding pc_ok_def by blast
    qed simp
  qed
  have "length (g_cache s') = PCACHE_MAX_ENTRIES" using len assms(3) by simp
  with ok uniq have pc': "pc_ok s'" unfolding pc_ok_def by blast
  have clean: "slot_bytes c = blk (unat b) (d_bytes (b_dev s d))" if "slot_ok s c" "slot_holds d b c" "\<not> ps_dirty c" for c d b
    using that by (auto simp: slot_ok_def slot_holds_def slot_bytes_def)
  have "pc_abs s' d b = pc_abs s d b" for d b
  proof (cases "\<exists>k < PCACHE_MAX_ENTRIES. k \<noteq> i \<and> slot_holds d b (g_cache s ! k)")
    case True
    then obtain k where k: "k < PCACHE_MAX_ENTRIES" "k \<noteq> i" "slot_holds d b (g_cache s ! k)" by blast
    then show ?thesis using pc_abs_hit [OF assms(1) k(1,3)] pc_abs_hit [OF pc' k(1)] nth [of k] by simp
  next
    case False
    have a: "pc_abs s d b = blk (unat b) (d_bytes (b_dev s d))"
    proof (cases "slot_holds d b (g_cache s ! i)")
      case True
      then show ?thesis using pc_abs_hit [OF assms(1,2) True] clean [OF _ True] assms(1,2,5) by (auto simp: pc_ok_def slot_holds_def)
    qed (use False in \<open>auto intro!: pc_abs_miss\<close>)
    have b: "pc_abs s' d b = blk (unat b) (d_bytes (b_dev s d))"
    proof (cases "slot_holds d b c'")
      case True
      then have "slot_holds d b (g_cache s' ! i)" using nth by simp
      then show ?thesis using pc_abs_hit [OF pc' assms(2)] clean [OF assms(6) True] assms(7) True nth by (auto simp: slot_holds_def)
    next
      case F: False
      have "\<forall>k < PCACHE_MAX_ENTRIES. \<not> slot_holds d b (g_cache s' ! k)" using False F nth by auto
      then show ?thesis using pc_abs_miss [of d b s'] assms(4) by simp
    qed
    show ?thesis using a b by simp
  qed
  with pc' show ?thesis by blast
qed

section \<open>The operations\<close>

lemma find_locked_hit:
  assumes "pc_ok s" and "pc_find_locked d b s = (Some i, s')"
  shows "i < PCACHE_MAX_ENTRIES \<and> slot_holds d b (g_cache s ! i) \<and> pc_ok s' \<and> pc_abs s' = pc_abs s \<and> b_dev s' = b_dev s \<and>
     g_cache s' = (g_cache s)[i := (g_cache s ! i)\<lparr>ps_last_used_tick := g_tick s + 1\<rparr>]"
proof -
  from assms(2) have i: "i < PCACHE_MAX_ENTRIES" "slot_holds d b (g_cache s ! i)"
    and s': "s' = upd_slot i (\<lambda>c. c\<lparr>ps_last_used_tick := g_tick s + 1\<rparr>) (s\<lparr>g_tick := g_tick s + 1\<rparr>)"
    by (auto simp: pc_find_locked_def find_Some_iff split: option.splits)
  have c: "g_cache s' = (g_cache s)[i := (g_cache s ! i)\<lparr>ps_last_used_tick := g_tick s + 1\<rparr>]" "b_dev s' = b_dev s"
    by (simp_all add: s' upd_slot_def)
  from touch_slot [OF assms(1) i(1) c refl] i c show ?thesis by simp
qed

lemma find_locked_miss:
  assumes "pc_find_locked d b s = (None, s')"
  shows "s' = s \<and> (\<forall>i < PCACHE_MAX_ENTRIES. \<not> slot_holds d b (g_cache s ! i))"
  using assms by (auto simp: pc_find_locked_def find_None_iff split: option.splits)

lemma evict_clean:
  "pc_evict_loop cs is best t = Some i \<Longrightarrow> (\<And>k. best = Some k \<Longrightarrow> k < n \<and> \<not> ps_dirty (cs ! k)) \<Longrightarrow> (\<And>k. k \<in> set is \<Longrightarrow> k < n) \<Longrightarrow>
   i < n \<and> (ps_valid (cs ! i) \<longrightarrow> \<not> ps_dirty (cs ! i))"
proof (induction cs "is" best t rule: pc_evict_loop.induct)
  case (2 cs k "is" best t)
  show ?case
  proof (cases "ps_valid (cs ! k)")
    case False then show ?thesis using 2(4,6) by simp
  next
    case v: True
    show ?thesis
    proof (cases "ps_dirty (cs ! k)")
      case True then show ?thesis using 2 v by simp
    next
      case nd: False
      show ?thesis
      proof (cases "ps_last_used_tick (cs ! k) < t")
        case True then show ?thesis using 2(2) [OF _ nd True] 2(4-6) v nd by simp
      next
        case False then show ?thesis using 2(3) [OF _ nd False] 2(4-6) v nd by simp
      qed
    qed
  qed
qed auto

lemma pc_evict_locked_clean:
  "pc_evict_locked s = Some i \<Longrightarrow> i < PCACHE_MAX_ENTRIES \<and> (ps_valid (g_cache s ! i) \<longrightarrow> \<not> ps_dirty (g_cache s ! i))"
  unfolding pc_evict_locked_def by (rule evict_clean) auto

lemma dma_cache [simp]: "g_cache (block_dma_free pg n s) = g_cache s"
  by (simp add: block_dma_free_def Let_def)

lemma dma_alloc_cache: "block_dma_alloc n s = (pg, s') \<Longrightarrow> g_cache s' = g_cache s \<and> b_dev s' = b_dev s \<and> g_tick s' = g_tick s"
  by (auto simp: block_dma_alloc_def Let_def split: if_splits prod.splits)

lemma read_block_same:
  assumes "dev_ok d s" and "fits d s (unat b)"
  shows "block_read (Some d) (b * of_nat JNL_BLOCK_SECTORS) (of_nat JNL_BLOCK_SECTORS) s =
         (0, blk (unat b) (d_bytes (b_dev s d)), upd_dev d (\<lambda>v. v) s)"
proof -
  have c: "(of_nat JNL_BLOCK_SECTORS :: u32) \<noteq> 0" "unat (of_nat JNL_BLOCK_SECTORS :: u32) = 8" by (simp_all add: kernel_defs)
  have "upd_dev d (\<lambda>v. v\<lparr>d_faults := tl (d_faults v)\<rparr>) s = upd_dev d (\<lambda>v. v) s"
    using assms(1) by (cases "b_dev s d") (simp add: upd_dev_def dev_ok_def)
  then show ?thesis
    using assms(1) block_lba [OF assms(2)] c
    by (simp add: block_read_def io_refused_def dev_ok_def driver_rc_def BLOCK_SECTOR_SIZE_def blk_def mult.commute)
qed

lemma upd_dev_id: "upd_dev d (\<lambda>v. v) s = s" by (simp add: upd_dev_def)

lemma pcache_get_coherent:
  assumes "pc_ok s" and "dev_ok d s" and "fits d s (unat b)" and "pcache_get (Some d) b w s = (rc, io, s')"
  shows "pc_ok s' \<and> pc_abs s' = pc_abs s \<and> b_dev s' = b_dev s \<and>
     (case io of None \<Rightarrow> rc = OB_ENOMEM
      | Some i \<Rightarrow> rc = 0 \<and> i < PCACHE_MAX_ENTRIES \<and> slot_holds d b (g_cache s' ! i) \<and> slot_bytes (g_cache s' ! i) = pc_abs s d b \<and>
          (w \<longrightarrow> ps_dirty (g_cache s' ! i)))"
proof (cases "pc_find_locked d b s")
  case (Pair f s0)
  show ?thesis
  proof (cases f)
    case (Some i)
    note h = find_locked_hit [OF assms(1) Pair [unfolded Some]]
    have "pc_ok s0" using h by blast
    then have len: "length (g_cache s0) = PCACHE_MAX_ENTRIES" by (simp add: pc_ok_def)
    define c' where "c' = (if w then (g_cache s0 ! i)\<lparr>ps_dirty := True\<rparr> else g_cache s0 ! i)"
    have s': "s' = upd_slot i (\<lambda>c. if w then c\<lparr>ps_dirty := True\<rparr> else c) (s0\<lparr>g_hits := g_hits s0 + 1\<rparr>)" and r: "rc = 0" "io = Some i"
      using assms(4) Pair Some by (auto simp: pcache_get_def)
    have g: "g_cache s' = (g_cache s0)[i := c']" "b_dev s' = b_dev s0" by (simp_all add: s' upd_slot_def c'_def)
    have t: "pc_ok s' \<and> pc_abs s' = pc_abs s0" by (rule touch_slot [OF _ _ g refl]) (use h in \<open>simp_all add: c'_def\<close>)
    have nth: "g_cache s' ! i = c'" using g h len by simp
    have held: "slot_holds d b c'" using h len by (simp add: c'_def slot_holds_def)
    have i: "i < PCACHE_MAX_ENTRIES" and abs: "pc_abs s' = pc_abs s" using h t by auto
    have "slot_bytes c' = pc_abs s d b"
      using pc_abs_hit [of s' i d b] t i held nth abs by simp
    moreover have "w \<longrightarrow> ps_dirty c'" by (simp add: c'_def)
    moreover have "b_dev s' = b_dev s" using g h by simp
    ultimately show ?thesis using t abs i held nth unfolding r by simp
  next
    case None
    note m = find_locked_miss [OF Pair [unfolded None]]
    let ?s = "s\<lparr>g_misses := g_misses s + 1\<rparr>"
    have ok1: "pc_ok ?s" "pc_abs ?s = pc_abs s" 
      using assms(1) by (simp add: pc_ok_def slot_ok_def dev_ok_def fits_def) (intro ext, simp add: pc_abs_def split: option.split)
    show ?thesis
    proof (cases "pc_evict_locked ?s")
      case n: None
      then have e: "s' = ?s" "rc = OB_ENOMEM" "io = None" using assms(4) Pair None m by (simp_all add: pcache_get_def)
      show ?thesis unfolding e using ok1 by simp
    next
      case (Some i)
      have i: "i < PCACHE_MAX_ENTRIES" "ps_valid (g_cache s ! i) \<longrightarrow> \<not> ps_dirty (g_cache s ! i)" using pc_evict_locked_clean [OF Some] by simp_all
      have len: "length (g_cache s) = PCACHE_MAX_ENTRIES" using assms(1) by (simp add: pc_ok_def)
      define s1 where "s1 = upd_slot i (\<lambda>c. c\<lparr>ps_data := None\<rparr>) (block_dma_free (slot_page (g_cache ?s ! i)) 1 ?s)"
      obtain pgo s2 where al: "block_dma_alloc 1 s1 = (pgo, s2)" by fastforce
      have s1: "g_cache s1 = (g_cache s)[i := (g_cache s ! i)\<lparr>ps_data := None\<rparr>]" "b_dev s1 = b_dev s" by (simp_all add: s1_def upd_slot_def)
      note s2 = dma_alloc_cache [OF al]
      show ?thesis
      proof (cases pgo)
        case n: None
        have s': "s' = upd_slot i (\<lambda>c. c\<lparr>ps_valid := False\<rparr>) s2" "rc = OB_ENOMEM" "io = None"
          using assms(4) Pair None m Some al n by (simp_all add: pcache_get_def s1_def Let_def)
        have g: "g_cache s' = (g_cache s)[i := (g_cache s ! i)\<lparr>ps_data := None, ps_valid := False\<rparr>]" "b_dev s' = b_dev s"
          using s1 s2 i len by (simp_all add: s' upd_slot_def)
        have "pc_ok s' \<and> pc_abs s' = pc_abs s"
          by (rule replace_slot [OF assms(1) i(1) g i(2)]) (simp_all add: slot_ok_def)
        then show ?thesis using g s' by simp
      next
        case pg: (Some pg)
        define c1 where "c1 = \<lparr>ps_dev = Some d, ps_block_no = b, ps_data = Some (pg, replicate PAGE_SIZE 0),
            ps_dirty = False, ps_valid = True, ps_last_used_tick = g_tick s2 + 1\<rparr>"
        define s3 where "s3 = upd_slot i (\<lambda>_. c1) (s2\<lparr>g_tick := g_tick s2 + 1\<rparr>)"
        have d3: "b_dev s3 = b_dev s" using s1 s2 by (simp add: s3_def upd_slot_def)
        then have "dev_ok d s3" "fits d s3 (unat b)" using assms(2,3) by (simp_all add: dev_ok_def fits_def)
        then have rd: "block_read (Some d) (b * of_nat JNL_BLOCK_SECTORS) (of_nat JNL_BLOCK_SECTORS) s3 = (0, blk (unat b) (d_bytes (b_dev s d)), s3)"
          using read_block_same upd_dev_id d3 by simp
        define c2 where "c2 = c1\<lparr>ps_data := Some (pg, blk (unat b) (d_bytes (b_dev s d))), ps_dirty := False\<rparr>"
        define c3 where "c3 = c2\<lparr>ps_dirty := w\<rparr>"
        have s': "s' = upd_slot i (\<lambda>c. c\<lparr>ps_data := Some (pg, blk (unat b) (d_bytes (b_dev s d))), ps_dirty := w\<rparr>) s3" "rc = 0" "io = Some i"
          using assms(4) Pair None m Some al pg rd by (simp_all add: pcache_get_def s1_def s3_def c1_def Let_def)
        define sm where "sm = s\<lparr>g_cache := (g_cache s)[i := c2]\<rparr>"
        have "pc_ok sm \<and> pc_abs sm = pc_abs s"
        proof (rule replace_slot [OF assms(1) i(1) _ _ i(2)])
          show "slot_ok s c2" using assms(2,3) by (simp add: slot_ok_def c2_def c1_def)
          show "ps_valid c2 \<longrightarrow> \<not> ps_dirty c2 \<and> (\<forall>d k. ps_dev c2 = Some d \<longrightarrow> k < PCACHE_MAX_ENTRIES \<longrightarrow> k \<noteq> i \<longrightarrow> \<not> slot_holds d (ps_block_no c2) (g_cache s ! k))"
            using m by (simp add: c2_def c1_def)
        qed (simp_all add: sm_def)
        moreover have g: "g_cache s' = (g_cache sm)[i := c3]" "b_dev s' = b_dev sm"
          using s1 s2 i len d3 by (simp_all add: s' s3_def upd_slot_def sm_def c3_def c2_def)
        ultimately have t: "pc_ok s' \<and> pc_abs s' = pc_abs s"
          using touch_slot [of sm i s' c3 "g_cache sm ! i"] i len by (simp add: sm_def c3_def c2_def)
        have nth: "g_cache s' ! i = c3" using g i len by (simp add: sm_def)
        have "slot_holds d b c3" "slot_bytes c3 = blk (unat b) (d_bytes (b_dev s d))" "ps_dirty c3 = w"
          by (simp_all add: c3_def c2_def c1_def slot_holds_def slot_bytes_def)
        moreover have "pc_abs s d b = blk (unat b) (d_bytes (b_dev s d))" using pc_abs_miss [of d b s] m by simp
        moreover have "b_dev s' = b_dev s" using g by (simp add: sm_def)
        ultimately show ?thesis using t i nth s'(2,3) by simp
      qed
    qed
  qed
qed

section \<open>Writing back\<close>

lemma block_write_other:
  "e \<noteq> d \<Longrightarrow> b_dev (snd (block_write (Some d) lba n bs s)) e = b_dev s e"
  "g_cache (snd (block_write (Some d) lba n bs s)) = g_cache s"
  by (simp_all add: block_write_def upd_dev_def Let_def)

lemma flush_slot:
  assumes "pc_ok s" and "i < PCACHE_MAX_ENTRIES" and "ps_valid (g_cache s ! i)"
  obtains s' where "block_write (ps_dev (g_cache s ! i)) (ps_block_no (g_cache s ! i) * of_nat JNL_BLOCK_SECTORS) (of_nat JNL_BLOCK_SECTORS)
         (slot_bytes (g_cache s ! i)) (upd_slot i (\<lambda>c. c\<lparr>ps_dirty := False\<rparr>) s) = (0, s')"
    and "pc_ok s'" and "pc_abs s' = pc_abs s" and "g_cache s' = (g_cache s)[i := (g_cache s ! i)\<lparr>ps_dirty := False\<rparr>]"
    and "\<And>d b. dev_ok d s' = dev_ok d s \<and> fits d s' b = fits d s b"
proof -
  let ?c = "g_cache s ! i" and ?s = "upd_slot i (\<lambda>c. c\<lparr>ps_dirty := False\<rparr>) s"
  have "slot_ok s ?c" using assms(1,2) by (simp add: pc_ok_def)
  then obtain d pg bs where c: "ps_dev ?c = Some d" "ps_data ?c = Some (pg, bs)" "length bs = 4096" and ok: "dev_ok d s" "fits d s (unat (ps_block_no ?c))"
    using assms(3) by (auto simp: slot_ok_def)
  define b where "b = ps_block_no ?c"
  have len: "length (g_cache s) = PCACHE_MAX_ENTRIES" using assms(1) by (simp add: pc_ok_def)
  have "dev_ok d ?s" "fits d ?s (unat b)" using ok by (simp_all add: upd_slot_def dev_ok_def fits_def b_def)
  then obtain s' where w: "write_block d b bs ?s = (0, s')" and wr: "wrote d ?s (W (unat b) (take PAGE_SIZE bs)) s'"
    by (rule write_block_ok)
  have t: "take PAGE_SIZE bs = bs" using c(3) by (simp add: kernel_defs)
  have bw: "block_write (Some d) (b * of_nat JNL_BLOCK_SECTORS) (of_nat JNL_BLOCK_SECTORS) bs ?s = (0, s')"
    using w t by (simp add: write_block_def)
  have dev: "b_dev s' d = dw (W (unat b) bs) (b_dev s d)" using wr t by (simp add: wrote_def upd_slot_def)
  have other: "b_dev s' e = b_dev s e" if "e \<noteq> d" for e
    using block_write_other(1) [OF that, of "b * of_nat JNL_BLOCK_SECTORS" "of_nat JNL_BLOCK_SECTORS" bs ?s] bw by (simp add: upd_slot_def)
  have cache: "g_cache s' = (g_cache s)[i := ?c\<lparr>ps_dirty := False\<rparr>]"
    using block_write_other(2) [of d "b * of_nat JNL_BLOCK_SECTORS" "of_nat JNL_BLOCK_SECTORS" bs ?s] bw by (simp add: upd_slot_def)
  have nth: "g_cache s' ! k = (if k = i then ?c\<lparr>ps_dirty := False\<rparr> else g_cache s ! k)" for k using len assms(2) cache by (simp add: nth_list_update)
  have devs: "dev_ok e s' = dev_ok e s \<and> fits e s' x = fits e s x" for e x
    using dev other [of e] by (cases "e = d") (auto simp: dev_ok_def fits_def dw_def)
  have same: "blk (unat b') (d_bytes (b_dev s' e)) = blk (unat b') (d_bytes (b_dev s e))" if "(e, b') \<noteq> (d, b)" for e b'
  proof (cases "e = d")
    case True
    then have "unat b' \<noteq> unat b" using that by (simp add: word_unat_eq_iff)
    then show ?thesis unfolding True dev dw_def using blk_outside [OF ws_in_W [of "\<lambda>c. c = unat b" "unat b" bs]] by simp
  qed (simp add: other)
  have this_blk: "blk (unat b) (d_bytes (b_dev s' d)) = bs"
    unfolding dev dw_def using fold_W [OF c(3)] blk_put [OF c(3)] by simp
  have holds: "slot_holds e x (g_cache s' ! k) = slot_holds e x (g_cache s ! k)" for e x k
    using nth [of k] by (simp add: slot_holds_def)
  have mine: "slot_holds d b ?c" using assms(3) c(1) by (simp add: slot_holds_def b_def)
  have "slot_ok s' (g_cache s' ! k)" if k: "k < PCACHE_MAX_ENTRIES" for k
  proof (cases "k = i")
    case True
    then show ?thesis using nth [of k] c ok devs this_blk by (simp add: slot_ok_def b_def)
  next
    case False
    have "slot_ok s (g_cache s ! k)" using assms(1) k by (simp add: pc_ok_def)
    moreover have "(e, ps_block_no (g_cache s ! k)) \<noteq> (d, b)" if "ps_valid (g_cache s ! k)" "ps_dev (g_cache s ! k) = Some e" for e
    proof
      assume "(e, ps_block_no (g_cache s ! k)) = (d, b)"
      then have "slot_holds d b (g_cache s ! k)" using that by (simp add: slot_holds_def)
      with mine assms(1,2) k False show False unfolding pc_ok_def by blast
    qed
    ultimately show ?thesis using nth [of k] False devs same by (auto simp: slot_ok_def)
  qed
  then have ok': "pc_ok s'" using assms(1) cache unfolding pc_ok_def holds by simp
  have "pc_abs s' e x = pc_abs s e x" for e x
  proof (cases "\<exists>k < PCACHE_MAX_ENTRIES. slot_holds e x (g_cache s ! k)")
    case True
    then obtain k where k: "k < PCACHE_MAX_ENTRIES" "slot_holds e x (g_cache s ! k)" by blast
    have "slot_bytes (g_cache s' ! k) = slot_bytes (g_cache s ! k)" using nth [of k] by (cases "k = i") (simp_all add: slot_bytes_def)
    then show ?thesis using pc_abs_hit [OF assms(1) k] pc_abs_hit [OF ok' k(1)] holds k(2) by simp
  next
    case False
    then have "(e, x) \<noteq> (d, b)" using mine assms(2) by blast
    then show ?thesis using False holds same pc_abs_miss [of e x s] pc_abs_miss [of e x s'] by simp
  qed
  then have "pc_abs s' = pc_abs s" by (intro ext)
  then show thesis using that [of s'] bw ok' cache devs c by (simp add: b_def slot_bytes_def)
qed

lemma sync_prefix:
  assumes "pc_ok s" and "n \<le> PCACHE_MAX_ENTRIES"
  shows "\<exists>s'. fold sync_slot [0..<n] (0, s) = (0, s') \<and> pc_ok s' \<and> pc_abs s' = pc_abs s \<and>
     (\<forall>k < n. ps_valid (g_cache s' ! k) \<longrightarrow> \<not> ps_dirty (g_cache s' ! k)) \<and> (\<forall>d b. dev_ok d s' = dev_ok d s \<and> fits d s' b = fits d s b)"
  using assms(2)
proof (induction n)
  case 0 then show ?case using assms(1) by simp
next
  case (Suc n)
  then obtain s1 where 1: "fold sync_slot [0..<n] (0, s) = (0, s1)" "pc_ok s1" "pc_abs s1 = pc_abs s"
    "\<forall>k < n. ps_valid (g_cache s1 ! k) \<longrightarrow> \<not> ps_dirty (g_cache s1 ! k)" "\<forall>d b. dev_ok d s1 = dev_ok d s \<and> fits d s1 b = fits d s b" by auto
  have f: "fold sync_slot [0..<Suc n] (0, s) = sync_slot n (0, s1)" using 1(1) by simp
  show ?case
  proof (cases "ps_valid (g_cache s1 ! n) \<and> ps_dirty (g_cache s1 ! n)")
    case False
    then have "sync_slot n (0, s1) = (0, s1)" by (auto simp: sync_slot_def Let_def)
    with False show ?thesis unfolding f using 1(2-5) by (intro exI [of _ s1]) (auto simp: less_Suc_eq)
  next
    case True
    have n: "n < PCACHE_MAX_ENTRIES" using Suc.prems by simp
    obtain s2 where 2: "block_write (ps_dev (g_cache s1 ! n)) (ps_block_no (g_cache s1 ! n) * of_nat JNL_BLOCK_SECTORS) (of_nat JNL_BLOCK_SECTORS)
         (slot_bytes (g_cache s1 ! n)) (upd_slot n (\<lambda>c. c\<lparr>ps_dirty := False\<rparr>) s1) = (0, s2)"
      "pc_ok s2" "pc_abs s2 = pc_abs s1" "g_cache s2 = (g_cache s1)[n := (g_cache s1 ! n)\<lparr>ps_dirty := False\<rparr>]"
      "\<And>d b. dev_ok d s2 = dev_ok d s1 \<and> fits d s2 b = fits d s1 b"
      by (rule flush_slot [OF 1(2) n]) (use True in simp_all)
    have "length (g_cache s1) = PCACHE_MAX_ENTRIES" using 1(2) by (simp add: pc_ok_def)
    then have "g_cache s2 ! k = (if k = n then (g_cache s1 ! n)\<lparr>ps_dirty := False\<rparr> else g_cache s1 ! k)" for k
      using 2(4) n by (simp add: nth_list_update)
    moreover have "sync_slot n (0, s1) = (0, s2)" using 2(1) True by (simp add: sync_slot_def Let_def)
    ultimately show ?thesis unfolding f using 1(3-5) 2(2,3,5) by (intro exI [of _ s2]) (simp add: less_Suc_eq)
  qed
qed

lemma all_clean_disk:
  assumes "pc_ok s" and "\<forall>k < PCACHE_MAX_ENTRIES. ps_valid (g_cache s ! k) \<longrightarrow> \<not> ps_dirty (g_cache s ! k)"
  shows "pc_abs s d b = blk (unat b) (d_bytes (b_dev s d))"
proof (cases "\<exists>k < PCACHE_MAX_ENTRIES. slot_holds d b (g_cache s ! k)")
  case True
  then obtain k where k: "k < PCACHE_MAX_ENTRIES" "slot_holds d b (g_cache s ! k)" by blast
  then have "slot_ok s (g_cache s ! k)" "ps_valid (g_cache s ! k)" "\<not> ps_dirty (g_cache s ! k)"
    using assms by (auto simp: pc_ok_def slot_holds_def)
  then show ?thesis using pc_abs_hit [OF assms(1) k] k(2) by (auto simp: slot_ok_def slot_holds_def slot_bytes_def)
qed (auto intro: pc_abs_miss)

lemma store_slot:
  assumes "pc_ok s" and "i < PCACHE_MAX_ENTRIES" and "slot_holds d b (g_cache s ! i)" and "ps_dirty (g_cache s ! i)" and "length bs = 4096"
  shows "pc_ok (pcache_store i bs s) \<and> pc_abs (pcache_store i bs s) = (pc_abs s)(d := (pc_abs s d)(b := bs))"
proof -
  let ?s' = "pcache_store i bs s"
  have len: "length (g_cache s) = PCACHE_MAX_ENTRIES" using assms(1) by (simp add: pc_ok_def)
  have "slot_ok s (g_cache s ! i)" using assms(1,2) by (simp add: pc_ok_def)
  then obtain pg bs0 where c: "ps_data (g_cache s ! i) = Some (pg, bs0)" using assms(3) by (auto simp: slot_ok_def slot_holds_def)
  have nth: "g_cache ?s' ! k = (if k = i then (g_cache s ! i)\<lparr>ps_data := Some (pg, bs)\<rparr> else g_cache s ! k)" for k
    using len assms(2) c by (simp add: pcache_store_def upd_slot_def nth_list_update)
  have dev: "b_dev ?s' = b_dev s" by (simp add: pcache_store_def upd_slot_def)
  have holds: "slot_holds e x (g_cache ?s' ! k) = slot_holds e x (g_cache s ! k)" for e x k using nth [of k] by (simp add: slot_holds_def)
  have "slot_ok ?s' (g_cache ?s' ! k)" if k: "k < PCACHE_MAX_ENTRIES" for k
  proof -
    have "slot_ok s (g_cache s ! k)" using assms(1) k by (simp add: pc_ok_def)
    then show ?thesis unfolding slot_ok_dev [OF dev] using nth [of k] assms(4,5) c by (cases "k = i") (simp add: slot_ok_def, force, simp)
  qed
  moreover have "length (g_cache ?s') = PCACHE_MAX_ENTRIES" using len by (simp add: pcache_store_def upd_slot_def)
  ultimately have ok: "pc_ok ?s'" using assms(1) unfolding pc_ok_def holds by blast
  have "pc_abs ?s' e x = ((pc_abs s)(d := (pc_abs s d)(b := bs))) e x" for e x
  proof (cases "\<exists>k < PCACHE_MAX_ENTRIES. slot_holds e x (g_cache s ! k)")
    case True
    then obtain k where k: "k < PCACHE_MAX_ENTRIES" "slot_holds e x (g_cache s ! k)" by blast
    have a: "pc_abs ?s' e x = slot_bytes (g_cache ?s' ! k)" using pc_abs_hit [OF ok k(1)] k(2) holds by simp
    show ?thesis
    proof (cases "k = i")
      case True
      then have "e = d \<and> x = b" using k(2) assms(3) by (auto simp: slot_holds_def)
      then show ?thesis using a nth [of k] True by (simp add: slot_bytes_def)
    next
      case False
      then have "\<not> (e = d \<and> x = b)" using k assms(1,2,3) unfolding pc_ok_def by blast
      then show ?thesis using a nth [of k] False pc_abs_hit [OF assms(1) k] by auto
    qed
  next
    case False
    then have "\<not> (e = d \<and> x = b)" using assms(2,3) by blast
    then show ?thesis using False holds pc_abs_miss [of e x s] pc_abs_miss [of e x ?s'] dev by auto
  qed
  with ok show ?thesis by (auto simp: fun_eq_iff)
qed

lemma writeback_coherent:
  assumes "pc_ok s" and "pcache_writeback (Some d) b s = (rc, s')"
  shows "rc = 0 \<and> pc_ok s' \<and> pc_abs s' = pc_abs s \<and> (\<forall>e x. dev_ok e s' = dev_ok e s \<and> fits e s' x = fits e s x)"
proof (cases "pc_find_locked d b s")
  case (Pair f s0)
  show ?thesis
  proof (cases f)
    case None
    then show ?thesis using assms Pair find_locked_miss by (auto simp: pcache_writeback_def)
  next
    case (Some i)
    note h = find_locked_hit [OF assms(1) Pair [unfolded Some]]
    have d0: "dev_ok e s0 = dev_ok e s \<and> fits e s0 x = fits e s x" for e x using h by (simp add: dev_ok_def fits_def)
    have len: "length (g_cache s) = PCACHE_MAX_ENTRIES" using assms(1) by (simp add: pc_ok_def)
    then have "g_cache s0 ! i = (g_cache s ! i)\<lparr>ps_last_used_tick := g_tick s + 1\<rparr>" using h by simp
    then have hd: "slot_holds d b (g_cache s0 ! i)" using h by (simp add: slot_holds_def)
    show ?thesis
    proof (cases "ps_dirty (g_cache s0 ! i)")
      case False
      then show ?thesis using assms(2) Pair Some h d0 by (simp add: pcache_writeback_def)
    next
      case True
      have i: "pc_ok s0" "i < PCACHE_MAX_ENTRIES" "ps_valid (g_cache s0 ! i)" using h hd by (auto simp: slot_holds_def)
      have k: "ps_dev (g_cache s0 ! i) = Some d" "ps_block_no (g_cache s0 ! i) = b" using hd by (auto simp: slot_holds_def)
      obtain s2 where 2: "block_write (Some d) (b * of_nat JNL_BLOCK_SECTORS) (of_nat JNL_BLOCK_SECTORS)
         (slot_bytes (g_cache s0 ! i)) (upd_slot i (\<lambda>c. c\<lparr>ps_dirty := False\<rparr>) s0) = (0, s2)" "pc_ok s2" "pc_abs s2 = pc_abs s0"
        "\<And>e x. dev_ok e s2 = dev_ok e s0 \<and> fits e s2 x = fits e s0 x"
        by (rule flush_slot [OF i, unfolded k]) blast
      then show ?thesis using assms(2) Pair Some True h d0 by (simp add: pcache_writeback_def)
    qed
  qed
qed

section \<open>Sequences of operations\<close>

datatype pc_op = PcRead nat u64 | PcWrite nat u64 "u8 list" | PcWriteback nat u64 | PcSync

text \<open>What a caller does: read a block, replace its contents, write it back. The result is the code and the bytes read.\<close>

fun pc_step :: "pc_op \<Rightarrow> storage \<Rightarrow> (int \<times> u8 list) \<times> storage" where
  "pc_step (PcRead d b) s =
     (case pcache_get (Some d) b False s of (rc, io, s) \<Rightarrow> ((rc, case io of None \<Rightarrow> [] | Some i \<Rightarrow> slot_bytes (g_cache s ! i)), s))"
| "pc_step (PcWrite d b bs) s =
     (case pcache_get (Some d) b True s of (rc, io, s) \<Rightarrow> ((rc, []), case io of None \<Rightarrow> s | Some i \<Rightarrow> pcache_store i bs s))"
| "pc_step (PcWriteback d b) s = (case pcache_writeback (Some d) b s of (rc, s) \<Rightarrow> ((rc, []), s))"
| "pc_step PcSync s = (case pcache_sync s of (rc, s) \<Rightarrow> ((rc, []), s))"

text \<open>The same on the map of blocks: only a write that does not fail changes it, and only its own block.\<close>

fun pc_spec :: "pc_op \<Rightarrow> (nat \<Rightarrow> u64 \<Rightarrow> u8 list) \<Rightarrow> int \<times> u8 list \<Rightarrow> (nat \<Rightarrow> u64 \<Rightarrow> u8 list) \<Rightarrow> bool" where
  "pc_spec (PcRead d b) A r A' = (A' = A \<and> (r = (0, A d b) \<or> fst r = OB_ENOMEM))"
| "pc_spec (PcWrite d b bs) A r A' = (fst r = 0 \<and> A' = A(d := (A d)(b := bs)) \<or> fst r = OB_ENOMEM \<and> A' = A)"
| "pc_spec (PcWriteback d b) A r A' = (fst r = 0 \<and> A' = A)"
| "pc_spec PcSync A r A' = (fst r = 0 \<and> A' = A)"

fun op_ok :: "storage \<Rightarrow> pc_op \<Rightarrow> bool" where
  "op_ok s (PcRead d b) = (dev_ok d s \<and> fits d s (unat b))"
| "op_ok s (PcWrite d b bs) = (dev_ok d s \<and> fits d s (unat b) \<and> length bs = 4096)"
| "op_ok s (PcWriteback d b) = True"
| "op_ok s PcSync = True"

fun pc_run :: "pc_op list \<Rightarrow> storage \<Rightarrow> (int \<times> u8 list) list \<times> storage" where
  "pc_run [] s = ([], s)"
| "pc_run (p # ops) s = (case pc_step p s of (r, s) \<Rightarrow> (case pc_run ops s of (rs, s) \<Rightarrow> (r # rs, s)))"

fun pc_spec_run :: "pc_op list \<Rightarrow> (nat \<Rightarrow> u64 \<Rightarrow> u8 list) \<Rightarrow> (int \<times> u8 list) list \<Rightarrow> (nat \<Rightarrow> u64 \<Rightarrow> u8 list) \<Rightarrow> bool" where
  "pc_spec_run [] A rs A' = (rs = [] \<and> A' = A)"
| "pc_spec_run (p # ops) A rs A' = (case rs of [] \<Rightarrow> False | r # rs \<Rightarrow> \<exists>B. pc_spec p A r B \<and> pc_spec_run ops B rs A')"

lemma pc_step_coherent:
  assumes "pc_ok s" and "op_ok s p" and "pc_step p s = (r, s')"
  shows "pc_ok s' \<and> pc_spec p (pc_abs s) r (pc_abs s') \<and> (\<forall>e x. dev_ok e s' = dev_ok e s \<and> fits e s' x = fits e s x)"
proof (cases p)
  case (PcRead d b)
  obtain rc io s1 where g: "pcache_get (Some d) b False s = (rc, io, s1)" by (cases "pcache_get (Some d) b False s") auto
  have "dev_ok d s" "fits d s (unat b)" using assms(2) PcRead by simp_all
  note c = pcache_get_coherent [OF assms(1) this g]
  then have "dev_ok e s1 = dev_ok e s \<and> fits e s1 x = fits e s x" for e x by (simp add: dev_ok_def fits_def)
  then show ?thesis using c assms(3) g PcRead by (cases io) auto
next
  case (PcWrite d b bs)
  obtain rc io s1 where g: "pcache_get (Some d) b True s = (rc, io, s1)" by (cases "pcache_get (Some d) b True s") auto
  have pre: "dev_ok d s" "fits d s (unat b)" "length bs = 4096" using assms(2) PcWrite by simp_all
  note c = pcache_get_coherent [OF assms(1) pre(1,2) g]
  have dv: "dev_ok e s1 = dev_ok e s \<and> fits e s1 x = fits e s x" for e x using c by (simp add: dev_ok_def fits_def)
  show ?thesis
  proof (cases io)
    case None
    then show ?thesis using c assms(3) g PcWrite dv by auto
  next
    case (Some i)
    then have i: "pc_ok s1" "i < PCACHE_MAX_ENTRIES" "slot_holds d b (g_cache s1 ! i)" "ps_dirty (g_cache s1 ! i)" using c by auto
    have "dev_ok e (pcache_store i bs s1) = dev_ok e s \<and> fits e (pcache_store i bs s1) x = fits e s x" for e x
      using dv by (simp add: pcache_store_def upd_slot_def dev_ok_def fits_def)
    then show ?thesis using c store_slot [OF i pre(3)] assms(3) g PcWrite Some by auto
  qed
next
  case (PcWriteback d b)
  then show ?thesis using assms(3) writeback_coherent [OF assms(1), of d b] by (auto split: prod.splits)
next
  case PcSync
  then show ?thesis using assms(3) sync_prefix [OF assms(1) order.refl] by (auto simp: pcache_sync_def)
qed

lemma op_ok_cong: "(\<forall>e x. dev_ok e s' = dev_ok e s \<and> fits e s' x = fits e s x) \<Longrightarrow> op_ok s' p = op_ok s p"
  by (cases p) simp_all

lemma pc_run_coherent:
  "pc_ok s \<Longrightarrow> \<forall>p \<in> set ops. op_ok s p \<Longrightarrow> pc_run ops s = (rs, s') \<Longrightarrow>
   pc_ok s' \<and> pc_spec_run ops (pc_abs s) rs (pc_abs s') \<and> (\<forall>e x. dev_ok e s' = dev_ok e s \<and> fits e s' x = fits e s x)"
proof (induction ops arbitrary: s rs s')
  case (Cons p ops)
  obtain r s1 where 1: "pc_step p s = (r, s1)" by fastforce
  obtain rs' s2 where 2: "pc_run ops s1 = (rs', s2)" by fastforce
  have c: "pc_ok s1" "pc_spec p (pc_abs s) r (pc_abs s1)" "\<forall>e x. dev_ok e s1 = dev_ok e s \<and> fits e s1 x = fits e s x"
    using pc_step_coherent [OF Cons.prems(1) _ 1] Cons.prems(2) by auto
  have "\<forall>p \<in> set ops. op_ok s1 p" using Cons.prems(2) op_ok_cong [OF c(3)] by simp
  from Cons.IH [OF c(1) this 2] c show ?case using Cons.prems(3) 1 2 by auto
qed simp



end
