(* ===== verification/PrivIso.thy ===== *)
theory PrivIso
  imports Permission Tmpfs Sha
begin

text \<open>
  The private directories of processes: the RAM file system of privilege 0 and the directory of
  privilege 1 (\<open>priv_iso.c\<close>), and the file system of a sandbox (the first part of \<open>sandbox.c\<close>). They are
  built with the VFS operations on tmpfs. The pointer to a super block is its \<open>sb_id\<close>. What \<open>rng_bytes\<close>
  returns (4 bytes of the hardware generator, or a failure) is an argument. Messages are left out.
\<close>

type_synonym fs_state = "tmpfs_state vfs_state"

section \<open>Hashes of paths\<close>

definition priv_iso_path_hash :: "string \<Rightarrow> u8 list" where
  "priv_iso_path_hash path = sha384_final (sha384_update sha384_init (map of_char path))"

section \<open>Privilege 0: a file system in RAM\<close>

text \<open>Steps that end the function unless the directory exists afterwards.\<close>

definition ensure_dir :: "string \<Rightarrow> u16 \<Rightarrow> fs_state \<Rightarrow> int \<times> fs_state" where
  "ensure_dir path mode s =
     (case vfs_mkdir tmpfs_env (Some path) mode s of (rc, s) \<Rightarrow> (if rc \<noteq> 0 \<and> rc \<noteq> OB_EEXIST then rc else 0, s))"

text \<open>The common tail of \<open>priv0_mount_vfs\<close> and \<open>sandbox_setup_fs\<close>: a new tmpfs at the path.\<close>

definition mount_tmpfs_at :: "string \<Rightarrow> u64 \<Rightarrow> fs_state \<Rightarrow> (int + nat) \<times> fs_state" where
  "mount_tmpfs_at path max_size s =
     (case tmpfs_mount max_size (v_fs s) of
        (None, w) \<Rightarrow> (Inl OB_ENOMEM, s\<lparr>v_fs := w\<rparr>)
      | (Some sb, w) \<Rightarrow>
          (case vfs_mount (Some path) (Some sb) (s\<lparr>v_fs := w\<rparr>) of
             (rc, s) \<Rightarrow>
               if rc \<noteq> 0 then (Inl rc, s\<lparr>v_fs := tmpfs_umount sb (v_fs s)\<rparr>) else (Inr (sb_id sb), s)))"

definition priv0_mount_vfs :: "task_t \<Rightarrow> fs_state \<Rightarrow> int \<times> task_t \<times> fs_state" where
  "priv0_mount_vfs t s =
     (if priv0_sb_ptr t \<noteq> None then (0, t, s)
      else case priv0_mount_path (t_pid t) 64 of
        Inl rc \<Rightarrow> (rc, t, s)
      | Inr path \<Rightarrow>
          (case ensure_dir ''/priv0'' 0x1ED s of (rc, s) \<Rightarrow>
             if rc \<noteq> 0 then (rc, t, s)
             else case ensure_dir path 0x1ED s of (rc, s) \<Rightarrow>
               if rc \<noteq> 0 then (rc, t, s)
               else case mount_tmpfs_at path (1024 * 1024) s of
                   (Inl rc, s) \<Rightarrow> (rc, t, s)
                 | (Inr sb, s) \<Rightarrow> (0, t\<lparr>priv0_sb_ptr := Some sb\<rparr>, s)))"

text \<open>The results of the three calls are only reported.\<close>

definition priv0_umount_vfs :: "task_t \<Rightarrow> fs_state \<Rightarrow> task_t \<times> fs_state" where
  "priv0_umount_vfs t s =
     (if priv0_sb_ptr t = None then (t, s)
      else
        (t\<lparr>priv0_sb_ptr := None\<rparr>,
         case priv0_mount_path (t_pid t) 64 of
           Inl _ \<Rightarrow> s
         | Inr path \<Rightarrow>
             let s = snd (vfs_umount tmpfs_env (Some path) s);
                 s = snd (vfs_rmdir tmpfs_env (Some path) s)
             in snd (vfs_rmdir tmpfs_env (Some ''/priv0'') s)))"

section \<open>Privilege 1: a directory with a random name\<close>

definition suffix_alphabet :: string where "suffix_alphabet = ''ABCDEFGHJKLMNPQRSTUVWXYZ23456789''"
definition hex_alphabet :: string where "hex_alphabet = ''0123456789abcdef''"

definition make_suffix :: "task_t \<Rightarrow> u8 list option \<Rightarrow> string" where
  "make_suffix t rnd =
     (case rnd of
        Some r \<Rightarrow> map (\<lambda>i. suffix_alphabet ! (unat (r ! (i mod 4)) mod 32)) [0..<8]
      | None \<Rightarrow>
          let v = (of_nat (t_pid t) * 2654435761 :: u32)
          in map (\<lambda>i. hex_alphabet ! unat (drop_bit (i * 4) v AND 0xF)) [0..<8])"

text \<open>The path as it is put together in the buffer, each part cut off at its limit.\<close>

definition priv1_make_path :: "task_t \<Rightarrow> u8 list option \<Rightarrow> string" where
  "priv1_make_path t rnd =
     (let p = take 100 ''/tmp/priv1_'';
          p = p @ take (110 - length p) (dec_string (t_pid t));
          p = (if length p < 111 then p @ ''_'' else p)
      in p @ take (120 - length p) (make_suffix t rnd))"

definition priv1_setup_tmpdir :: "u8 list option \<Rightarrow> task_t \<Rightarrow> fs_state \<Rightarrow> int \<times> task_t \<times> fs_state" where
  "priv1_setup_tmpdir rnd t s =
     (let path = priv1_make_path t rnd in
      case ensure_dir ''/tmp'' 0x1FF s of (rc, s) \<Rightarrow>
        if rc \<noteq> 0 then (rc, t, s)
        else case ensure_dir path 0x1C0 s of (rc, s) \<Rightarrow>
          if rc \<noteq> 0 then (rc, t, s)
          else
            let full = take 128 path @ ''/'';
                t = t\<lparr>priv1_dir_path := take 127 path\<rparr>
            in (0, t\<lparr>security_token := (security_token t)\<lparr>dir_whitelist_hash := take 32 (priv_iso_path_hash full)\<rparr>\<rparr>, s))"

definition priv1_cleanup_tmpdir :: "task_t \<Rightarrow> fs_state \<Rightarrow> task_t \<times> fs_state" where
  "priv1_cleanup_tmpdir t s =
     (if priv1_dir_path t = [] then (t, s)
      else (t\<lparr>priv1_dir_path := []\<rparr>, snd (vfs_rmdir tmpfs_env (Some (priv1_dir_path t)) s)))"

section \<open>The file system of a sandbox\<close>

fun put_sandbox_digits :: "nat \<Rightarrow> string \<Rightarrow> string \<Rightarrow> string option" where
  "put_sandbox_digits out_size out [] = Some out"
| "put_sandbox_digits out_size out (d # ds) =
     (if length out + 1 \<ge> out_size then None else put_sandbox_digits out_size (out @ [d]) ds)"

definition sandbox_mount_path :: "nat \<Rightarrow> nat \<Rightarrow> int + string" where
  "sandbox_mount_path pid out_size =
     (if out_size < 32 then Inl OB_EINVAL
      else case put_sandbox_digits out_size (take (out_size - 1) ''/sandbox/'') (dec_string pid) of
        None \<Rightarrow> Inl OB_EINVAL
      | Some out \<Rightarrow> Inr out)"

definition sandbox_setup_fs :: "task_t \<Rightarrow> fs_state \<Rightarrow> int \<times> task_t \<times> fs_state" where
  "sandbox_setup_fs t s =
     (if sandbox_sb_ptr t \<noteq> None then (0, t, s)
      else case ensure_dir ''/sandbox'' 0x1ED s of (rc, s) \<Rightarrow>
        if rc \<noteq> 0 then (rc, t, s)
        else case sandbox_mount_path (t_pid t) 128 of
          Inl rc \<Rightarrow> (rc, t, s)
        | Inr path \<Rightarrow>
            (case ensure_dir path 0x1ED s of (rc, s) \<Rightarrow>
               if rc \<noteq> 0 then (rc, t, s)
               else case mount_tmpfs_at path (512 * 1024 * 1024) s of
                   (Inl rc, s) \<Rightarrow> (rc, t, s)
                 | (Inr sb, s) \<Rightarrow> (0, t\<lparr>sandbox_sb_ptr := Some sb, sandbox_dir_path := take 127 path\<rparr>, s)))"

definition sandbox_cleanup_fs :: "task_t \<Rightarrow> fs_state \<Rightarrow> task_t \<times> fs_state" where
  "sandbox_cleanup_fs t s =
     (if sandbox_sb_ptr t = None then (t, s)
      else
        (t\<lparr>sandbox_sb_ptr := None, sandbox_dir_path := []\<rparr>,
         if sandbox_dir_path t \<noteq> [] then
           snd (vfs_rmdir tmpfs_env (Some (sandbox_dir_path t)) (snd (vfs_umount tmpfs_env (Some (sandbox_dir_path t)) s)))
         else s))"

end
