(* ===== verification/See.thy ===== *)
theory See
  imports Permission
begin

text \<open>
  The sandbox engine (\<open>see.c\<close>, \<open>see_policy.c\<close>, \<open>see_whitelist.c\<close>): a pool of instances, the list of
  those in use, and the rules of an instance. A pointer to an instance is its slot in the pool. What
  ends a task (\<open>see_cleanup_sandbox\<close>, \<open>see_kill_sandbox\<close>) is in the theory Task. Locks and messages are
  left out.
\<close>

section \<open>State\<close>

definition SEE_MAX_INSTANCES :: nat where [kernel_defs]: "SEE_MAX_INSTANCES = 32"
definition SEE_MAX_RULES :: nat where [kernel_defs]: "SEE_MAX_RULES = 32"

record see_rule =
  ru_syscall_nr :: u64
  ru_res_type :: u32
  ru_access_mask :: u32

text \<open>\<open>po_rules\<close> is the part of \<open>rules\<close> below \<open>rule_count\<close>.\<close>

record see_policy =
  po_rules :: "see_rule list"
  po_mem_limit :: u64
  po_cpu_quota :: u32
  po_timeout_ticks :: u32
  po_max_children :: u32

record see_instance =
  si_sandbox_id :: u32
  si_flags :: u32
  si_owner_pid :: nat
  si_mem_limit :: u64
  si_cpu_quota :: u32
  si_timeout_ticks :: u32
  si_whitelist_hash :: u64
  si_policy :: see_policy

definition zero_policy :: see_policy where
  "zero_policy = \<lparr>po_rules = [], po_mem_limit = 0, po_cpu_quota = 0, po_timeout_ticks = 0, po_max_children = 0\<rparr>"

definition zero_instance :: see_instance where
  "zero_instance =
     \<lparr>si_sandbox_id = 0, si_flags = 0, si_owner_pid = 0, si_mem_limit = 0, si_cpu_quota = 0, si_timeout_ticks = 0,
      si_whitelist_hash = 0, si_policy = zero_policy\<rparr>"

record see_state =
  g_pool :: "nat \<Rightarrow> see_instance"
  g_pool_used :: "nat \<Rightarrow> bool"
  cache_head :: "nat list"
  cache_count :: u32
  cache_generation :: u64
  g_next_sandbox_id :: u32
  g_total_intercepts :: u64
  g_kill_count :: u64
  g_cleanup_count :: u64

definition see_init :: "see_state \<Rightarrow> see_state" where
  "see_init s =
     s\<lparr>g_pool := (\<lambda>i. if i < SEE_MAX_INSTANCES then zero_instance else g_pool s i),
       g_pool_used := (\<lambda>i. if i < SEE_MAX_INSTANCES then False else g_pool_used s i),
       cache_head := [], cache_count := 0, cache_generation := 0, g_next_sandbox_id := 1, g_total_intercepts := 0,
       g_kill_count := 0, g_cleanup_count := 0\<rparr>"

section \<open>Policies\<close>

definition see_policy_copy_default :: see_policy where
  "see_policy_copy_default =
     \<lparr>po_rules = [], po_mem_limit = 512 * 1024 * 1024, po_cpu_quota = 20, po_timeout_ticks = 0, po_max_children = 3\<rparr>"

definition see_policy_add_rule :: "see_instance option \<Rightarrow> u64 \<Rightarrow> u32 \<Rightarrow> u32 \<Rightarrow> int \<times> see_instance option" where
  "see_policy_add_rule inst nr res_type acc =
     (case inst of
        None \<Rightarrow> (OB_EINVAL, None)
      | Some x \<Rightarrow>
          if length (po_rules (si_policy x)) \<ge> SEE_MAX_RULES then (OB_ENOMEM, Some x)
          else
            (0, Some (x\<lparr>si_policy := (si_policy x)\<lparr>po_rules := po_rules (si_policy x) @
               [\<lparr>ru_syscall_nr = nr, ru_res_type = res_type, ru_access_mask = acc\<rparr>]\<rparr>\<rparr>)))"

text \<open>The resource type and the mask of a rule are never looked at.\<close>

definition see_policy_check :: "see_instance option \<Rightarrow> u64 \<Rightarrow> bool" where
  "see_policy_check inst nr =
     (case inst of
        None \<Rightarrow> False
      | Some x \<Rightarrow> \<exists>r \<in> set (po_rules (si_policy x)). ru_syscall_nr r = 0 \<or> ru_syscall_nr r = nr)"

definition default_whitelist :: "(u64 \<times> u32 \<times> u32) list" where
  "default_whitelist =
     [(0x106, 0, OB_ACCESS_READ), (0x107, 0, OB_ACCESS_READ), (0x109, 0, OB_ACCESS_READ),
      (0x10A, 1, OB_ACCESS_WRITE), (0x10B, 1, OB_ACCESS_WRITE), (0x104, 0, OB_ACCESS_READ),
      (0x105, 0, OB_ACCESS_READ), (0x102, 2, OB_ACCESS_READ)]"

fun add_rules :: "(u64 \<times> u32 \<times> u32) list \<Rightarrow> see_instance option \<Rightarrow> int \<times> see_instance option" where
  "add_rules [] inst = (0, inst)"
| "add_rules ((nr, rt, acc) # wl) inst =
     (case see_policy_add_rule inst nr rt acc of
        (rc, inst) \<Rightarrow> if rc \<noteq> 0 then (rc, inst) else add_rules wl inst)"

definition see_whitelist_install_default :: "see_instance option \<Rightarrow> int \<times> see_instance option" where
  "see_whitelist_install_default inst =
     (case inst of None \<Rightarrow> (OB_EINVAL, None) | Some x \<Rightarrow> add_rules default_whitelist (Some x))"

section \<open>Instances\<close>

definition see_create_instance :: "nat \<Rightarrow> u32 \<Rightarrow> see_state \<Rightarrow> int \<times> nat option \<times> see_state" where
  "see_create_instance owner_pid flags s =
     (case List.find (\<lambda>i. \<not> g_pool_used s i) [0..<SEE_MAX_INSTANCES] of
        None \<Rightarrow> (-1, None, s)
      | Some i \<Rightarrow>
          (0, Some i,
           s\<lparr>g_pool_used := (g_pool_used s)(i := True),
             g_pool := (g_pool s)(i := (g_pool s i)\<lparr>si_sandbox_id := g_next_sandbox_id s, si_flags := flags,
               si_owner_pid := owner_pid, si_mem_limit := 512 * 1024 * 1024, si_cpu_quota := 20, si_timeout_ticks := 0,
               si_whitelist_hash := 0, si_policy := see_policy_copy_default\<rparr>),
             g_next_sandbox_id := g_next_sandbox_id s + 1, cache_head := i # cache_head s,
             cache_count := cache_count s + 1, cache_generation := cache_generation s + 1\<rparr>))"

definition see_destroy_instance :: "nat option \<Rightarrow> see_state \<Rightarrow> see_state" where
  "see_destroy_instance inst s =
     (case inst of
        None \<Rightarrow> s
      | Some i \<Rightarrow>
          let s = (if i \<in> set (cache_head s) then
                     s\<lparr>cache_head := remove1 i (cache_head s),
                       cache_count := (if cache_count s > 0 then cache_count s - 1 else cache_count s),
                       cache_generation := cache_generation s + 1\<rparr>
                   else s)
          in if i < SEE_MAX_INSTANCES then
               s\<lparr>g_pool_used := (g_pool_used s)(i := False), g_pool := (g_pool s)(i := zero_instance)\<rparr>
             else s)"

definition see_install_default_policy :: "nat option \<Rightarrow> see_state \<Rightarrow> int \<times> see_state" where
  "see_install_default_policy inst s =
     (case inst of
        None \<Rightarrow> (OB_EINVAL, s)
      | Some i \<Rightarrow>
          (case see_whitelist_install_default (Some (g_pool s i)) of
             (rc, x) \<Rightarrow> (rc, s\<lparr>g_pool := (g_pool s)(i := (case x of Some x \<Rightarrow> x | None \<Rightarrow> g_pool s i))\<rparr>)))"

definition see_is_sandbox :: "task_t option \<Rightarrow> bool" where
  "see_is_sandbox t = (case t of None \<Rightarrow> False | Some t \<Rightarrow> sandbox_flags t AND OBSANDBOX_ACTIVE \<noteq> 0)"

definition see_bind_task :: "task_t option \<Rightarrow> nat option \<Rightarrow> int \<times> task_t option" where
  "see_bind_task t inst =
     (case (t, inst) of
        (Some t, Some i) \<Rightarrow> (0, Some (t\<lparr>syscall_table_ptr := Some i\<rparr>))
      | _ \<Rightarrow> (OB_EINVAL, t))"

definition see_task_instance :: "task_t option \<Rightarrow> nat option" where
  "see_task_instance t = (case t of None \<Rightarrow> None | Some t \<Rightarrow> syscall_table_ptr t)"

definition see_active_count :: "see_state \<Rightarrow> u64" where
  "see_active_count s = ucast (cache_count s)"

section \<open>Intercepting system calls\<close>

text \<open>The kinds of resources are numbered as in \<open>check_permission\<close>: file, memory, process, IPC, configuration.\<close>

definition syscall_to_res_type :: "u64 \<Rightarrow> int" where
  "syscall_to_res_type nr =
     (if nr \<in> {0x106, 0x107, 0x108, 0x109, 0x10C, 0x10D, 0x113, 0x114} then 0
      else if nr \<in> {0x10A, 0x10B, 0x111, 0x112} then 1
      else if nr \<in> {0x100, 0x101, 0x102, 0x103, 0x10F} then 2
      else if nr = 0x110 then 4
      else -1)"

definition see_deny_handler :: "task_t option \<Rightarrow> u64 \<Rightarrow> string \<Rightarrow> task_t option \<times> audit_event list" where
  "see_deny_handler cur nr reason =
     (map_option (\<lambda>c. c\<lparr>exit_code := OB_EPERM, pending_kill := True\<rparr>) cur,
      [SandboxEscape (case cur of None \<Rightarrow> 0 | Some c \<Rightarrow> t_pid c) nr reason])"

text \<open>
  \<open>see_syscall_interceptor\<close> up to the end of the task: the return code, the task block, the events, and
  whether \<open>see_kill_sandbox(cur, cur)\<close> is called before the return.
\<close>

definition see_syscall_interceptor ::
    "(string \<Rightarrow> u8 list) \<Rightarrow> task_t list \<Rightarrow> u64 option \<Rightarrow> task_t option \<Rightarrow> see_state \<Rightarrow>
       int \<times> bool \<times> task_t option \<times> see_state \<times> audit_event list" where
  "see_syscall_interceptor sha384 tasks frame_rax cur s =
     (case (frame_rax, cur) of
        (Some nr, Some c) \<Rightarrow>
          let s = s\<lparr>g_total_intercepts := g_total_intercepts s + 1\<rparr>;
              rt = syscall_to_res_type nr;
              (rc, ev) = (if rt \<ge> 0 then check_permission sha384 tasks cur rt 0 OB_ACCESS_READ None else (0, []))
          in if rc \<noteq> 0 then (rc, False, cur, s, ev)
             else case see_task_instance cur of
                 None \<Rightarrow>
                   (case see_deny_handler cur nr ''sandbox instance missing'' of
                      (cur, ev') \<Rightarrow> (OB_EPERM, False, cur, s, ev @ ev'))
               | Some i \<Rightarrow>
                   if see_policy_check (Some (g_pool s i)) nr then (0, False, cur, s, ev)
                   else case see_deny_handler cur nr ''not in sandbox whitelist'' of
                       (cur, ev') \<Rightarrow> (OB_EPERM, True, cur, s, ev @ ev')
      | _ \<Rightarrow> (OB_EPERM, False, cur, s, []))"

end
