(* ===== verification/Shm.thy ===== *)
theory Shm
  imports UserMem Sched
begin

text \<open>
  Shared memory (\<open>shm.c\<close>) and the shared region of the compatibility layer (\<open>compat_preload.c\<close>, the part
  that tasks inherit and give back). A pointer to a region is the number of its allocation. The pages of
  a region are cleared through the direct map (\<open>zero_page\<close>); their later contents are user data and not
  in the state. Locks, messages and the TLB are left out.
\<close>

section \<open>State\<close>

definition SHM_MAX_REGIONS :: nat where [kernel_defs]: "SHM_MAX_REGIONS = 64"

record shm_region =
  sr_addr :: nat
  sr_size :: u64
  sr_order :: nat
  sr_refcount :: u32
  sr_id :: u32

record compat_preload_region =
  cp_shm :: "nat option"
  cp_size :: u64
  cp_refcount :: u32

record shm_state =
  sh_heap :: kheap
  sh_regions :: "nat \<Rightarrow> shm_region option"
  g_shm_table :: "nat option list"
  g_shm_next_id :: u32
  sh_preload :: "nat \<Rightarrow> compat_preload_region option"

section \<open>Regions\<close>

text \<open>The sum wraps around, so a size near \<open>2^64\<close> gives order 0.\<close>

definition shm_order :: "u64 \<Rightarrow> nat" where
  "shm_order sz = order_loop MAX_ORDER 0 (unat ((sz + of_nat PAGE_SIZE - 1) div of_nat PAGE_SIZE))"

text \<open>The first free slot of the table.\<close>

definition shm_slot :: "shm_state \<Rightarrow> nat option" where
  "shm_slot s = List.find (\<lambda>i. g_shm_table s ! i = None) [0..<SHM_MAX_REGIONS]"

definition shm_create :: "u64 \<Rightarrow> shm_state \<times> vmm_state \<Rightarrow> nat option \<times> shm_state \<times> vmm_state" where
  "shm_create sz sv =
     (case sv of (s, v) \<Rightarrow>
        if sz = 0 then (None, s, v)
        else let order = shm_order sz in
          if order \<ge> MAX_ORDER then (None, s, v)
          else case pmm_alloc_pages (int order) (v_pmm v) of
              (None, p) \<Rightarrow> (None, s, v\<lparr>v_pmm := p\<rparr>)
            | (Some pg, p) \<Rightarrow>
                let v = fold zero_page [pg..<pg + 2 ^ order] (v\<lparr>v_pmm := p\<rparr>)
                in case kzalloc_obj (sh_heap s) of
                    (None, h) \<Rightarrow> (None, s\<lparr>sh_heap := h\<rparr>, v\<lparr>v_pmm := pmm_free_pages (Some pg) (int order) (v_pmm v)\<rparr>)
                  | (Some a, h) \<Rightarrow>
                      let r = \<lparr>sr_addr = DIRECTMAP_BASE + page_to_phys pg, sr_size = push_bit order (of_nat PAGE_SIZE),
                               sr_order = order, sr_refcount = 1, sr_id = 0\<rparr>
                      in (Some a,
                          (case shm_slot s of
                             None \<Rightarrow> s\<lparr>sh_heap := h, sh_regions := (sh_regions s)(a \<mapsto> r)\<rparr>
                           | Some i \<Rightarrow>
                               s\<lparr>sh_heap := h, sh_regions := (sh_regions s)(a \<mapsto> r\<lparr>sr_id := g_shm_next_id s\<rparr>),
                                 g_shm_next_id := g_shm_next_id s + 1, g_shm_table := (g_shm_table s)[i := Some a]\<rparr>),
                          v))"

definition shm_retain :: "nat option \<Rightarrow> shm_state \<Rightarrow> shm_state" where
  "shm_retain ro s =
     (case ro of
        None \<Rightarrow> s
      | Some a \<Rightarrow> s\<lparr>sh_regions := (sh_regions s)(a := map_option (\<lambda>r. r\<lparr>sr_refcount := sr_refcount r + 1\<rparr>) (sh_regions s a))\<rparr>)"

text \<open>The first entry of the table that points to the region is cleared.\<close>

fun table_clear :: "nat \<Rightarrow> nat option list \<Rightarrow> nat option list" where
  "table_clear a [] = []"
| "table_clear a (x # xs) = (if x = Some a then None # xs else x # table_clear a xs)"

definition shm_release :: "nat option \<Rightarrow> shm_state \<times> vmm_state \<Rightarrow> shm_state \<times> vmm_state" where
  "shm_release ro sv =
     (case sv of (s, v) \<Rightarrow>
        (case (case ro of None \<Rightarrow> None | Some a \<Rightarrow> (case sh_regions s a of None \<Rightarrow> None | Some r \<Rightarrow> Some (a, r))) of
           None \<Rightarrow> (s, v)
         | Some (a, r) \<Rightarrow>
             if sr_refcount r = 0 then (s, v)
             else if sr_refcount r - 1 > 0 then
               (s\<lparr>sh_regions := (sh_regions s)(a \<mapsto> r\<lparr>sr_refcount := sr_refcount r - 1\<rparr>)\<rparr>, v)
             else
               (s\<lparr>sh_regions := (sh_regions s)(a := None), g_shm_table := table_clear a (g_shm_table s)\<rparr>,
                v\<lparr>v_pmm := pmm_free_pages (Some (phys_to_page (sr_addr r - DIRECTMAP_BASE))) (int (sr_order r)) (v_pmm v)\<rparr>)))"

definition shm_refcount :: "nat option \<Rightarrow> shm_state \<Rightarrow> u32" where
  "shm_refcount ro s =
     (case ro of None \<Rightarrow> 0 | Some a \<Rightarrow> (case sh_regions s a of None \<Rightarrow> 0 | Some r \<Rightarrow> sr_refcount r))"

definition shm_find_by_id :: "u32 \<Rightarrow> shm_state \<Rightarrow> nat option" where
  "shm_find_by_id n s =
     (case List.find (\<lambda>i. case g_shm_table s ! i of
                        None \<Rightarrow> False
                      | Some a \<Rightarrow> (case sh_regions s a of None \<Rightarrow> False | Some r \<Rightarrow> sr_id r = n)) [0..<SHM_MAX_REGIONS] of
        None \<Rightarrow> None
      | Some i \<Rightarrow> g_shm_table s ! i)"

section \<open>Mappings\<close>

text \<open>The page table that the mapping functions use.\<close>

definition shm_pml4 :: "task_t \<Rightarrow> user_mem \<Rightarrow> nat option" where
  "shm_pml4 t m =
     (if priv_iso_ready t \<and> pml4_self_ptr (mem_domain t) \<noteq> None then pml4_self_ptr (mem_domain t)
      else case user_get_ctx t m of None \<Rightarrow> None | Some c \<Rightarrow> c_pml4 c)"

text \<open>The loop: the result is the number of pages mapped.\<close>

fun shm_map_loop :: "nat \<Rightarrow> u64 \<Rightarrow> u64 \<Rightarrow> nat \<Rightarrow> nat \<Rightarrow> vmm_state \<Rightarrow> nat \<times> vmm_state" where
  "shm_map_loop pml4 uaddr phys 0 i v = (i, v)"
| "shm_map_loop pml4 uaddr phys (Suc k) i v =
     (case vmm_map_page pml4 (uaddr + of_nat i * of_nat PAGE_SIZE) (phys + of_nat i * of_nat PAGE_SIZE)
             (PTE_PRESENT OR PTE_WRITABLE OR PTE_USER OR PTE_NX) v of
        (rc, v) \<Rightarrow> if rc \<noteq> 0 then (i, v) else shm_map_loop pml4 uaddr phys k (Suc i) v)"

definition shm_unmap_pages :: "nat \<Rightarrow> u64 \<Rightarrow> nat \<Rightarrow> vmm_state \<Rightarrow> vmm_state" where
  "shm_unmap_pages pml4 uaddr n v =
     fold (\<lambda>i v. snd (vmm_unmap_page pml4 (uaddr + of_nat i * of_nat PAGE_SIZE) v)) [0..<n] v"

definition shm_map_into_task :: "task_t option \<Rightarrow> shm_region option \<Rightarrow> u64 \<Rightarrow> user_mem \<Rightarrow> int \<times> user_mem" where
  "shm_map_into_task to ro uaddr m =
     (case (to, ro) of
        (Some t, Some r) \<Rightarrow>
          (case shm_pml4 t m of
             None \<Rightarrow> (-1, m)
           | Some pml4 \<Rightarrow>
               let n = unat (sr_size r div of_nat PAGE_SIZE)
               in case shm_map_loop pml4 uaddr (of_nat (sr_addr r - DIRECTMAP_BASE)) n 0 (um_vmm m) of
                    (i, v) \<Rightarrow>
                      if i < n then (-5, m\<lparr>um_vmm := shm_unmap_pages pml4 uaddr i v\<rparr>)
                      else (0, m\<lparr>um_vmm := v\<rparr>))
      | _ \<Rightarrow> (-22, m))"

definition shm_sys_create :: "task_t option \<Rightarrow> u64 \<Rightarrow> shm_state \<times> vmm_state \<Rightarrow> int \<times> shm_state \<times> vmm_state" where
  "shm_sys_create cur sz sv =
     (case cur of
        None \<Rightarrow> (-1, sv)
      | Some _ \<Rightarrow>
          if sz = 0 \<or> sz > 64 * 1024 * 1024 then (-22, sv)
          else case shm_create sz sv of
              (None, sv) \<Rightarrow> (-12, sv)
            | (Some a, sv) \<Rightarrow>
                (case sh_regions (fst sv) a of None \<Rightarrow> (0, sv) | Some r \<Rightarrow> (uint (sr_id r), sv)))"

text \<open>
  The address chosen when the caller gives none. The heap has grown even when the call fails.
\<close>

definition shm_place :: "task_t \<Rightarrow> shm_region \<Rightarrow> u64 \<Rightarrow> user_mem \<Rightarrow> (int + u64) \<times> user_mem" where
  "shm_place cur r uaddr m =
     (if uaddr = 0 then
        (case user_get_ctx cur m of
           None \<Rightarrow> (Inl (-1), m)
         | Some c \<Rightarrow>
             let m = upd_ctx cur (\<lambda>c. c\<lparr>c_heap_cur := c_heap_cur c + sr_size r\<rparr>) m
             in if c_heap_cur c + sr_size r > c_heap_end c then (Inl (-12), m) else (Inr (c_heap_cur c), m))
      else (Inr uaddr, m))"

definition shm_sys_map :: "task_t option \<Rightarrow> u64 \<Rightarrow> u64 \<Rightarrow> shm_state \<times> user_mem \<Rightarrow> int \<times> task_t option \<times> shm_state \<times> user_mem" where
  "shm_sys_map cur shm_id uaddr sm =
     (case (cur, sm) of
        (None, s, m) \<Rightarrow> (-1, cur, s, m)
      | (Some t, s, m) \<Rightarrow>
          (case (case shm_find_by_id (ucast shm_id) s of None \<Rightarrow> None | Some a \<Rightarrow> (case sh_regions s a of None \<Rightarrow> None | Some r \<Rightarrow> Some (a, r))) of
             None \<Rightarrow> (-2, cur, s, m)
           | Some (a, r) \<Rightarrow>
               (case shm_place t r uaddr m of
                  (Inl rc, m) \<Rightarrow> (rc, cur, s, m)
                | (Inr uaddr, m) \<Rightarrow>
                    if \<not> user_range_ok uaddr (sr_size r) then (-14, cur, s, m)
                    else case shm_map_into_task cur (Some r) uaddr m of
                        (rc, m) \<Rightarrow>
                          if rc \<noteq> 0 then (rc, cur, s, m)
                          else case kzalloc_obj (sh_heap s) of
                              (None, h) \<Rightarrow> (-12, cur, s\<lparr>sh_heap := h\<rparr>, m)
                            | (Some _, h) \<Rightarrow>
                                let x = \<lparr>sm_region = a, sm_uaddr = uaddr, sm_size = sr_size r,
                                         sm_phys_base = of_nat (sr_addr r - DIRECTMAP_BASE)\<rparr>
                                in (sint uaddr, Some (t\<lparr>shm_list := x # shm_list t\<rparr>),
                                    shm_retain (Some a) (s\<lparr>sh_heap := h\<rparr>), m))))"

text \<open>The first mapping at the address, with the list without it.\<close>

fun take_mapping :: "u64 \<Rightarrow> shm_mapping list \<Rightarrow> (shm_mapping \<times> shm_mapping list) option" where
  "take_mapping uaddr [] = None"
| "take_mapping uaddr (x # xs) =
     (if sm_uaddr x = uaddr then Some (x, xs)
      else case take_mapping uaddr xs of None \<Rightarrow> None | Some (y, ys) \<Rightarrow> Some (y, x # ys))"

definition shm_release_in :: "nat option \<Rightarrow> shm_state \<times> user_mem \<Rightarrow> shm_state \<times> user_mem" where
  "shm_release_in ro sm = (case sm of (s, m) \<Rightarrow> case shm_release ro (s, um_vmm m) of (s, v) \<Rightarrow> (s, m\<lparr>um_vmm := v\<rparr>))"

definition shm_sys_unmap :: "task_t option \<Rightarrow> u64 \<Rightarrow> shm_state \<times> user_mem \<Rightarrow> int \<times> task_t option \<times> shm_state \<times> user_mem" where
  "shm_sys_unmap cur uaddr sm =
     (case cur of
        None \<Rightarrow> (-1, cur, sm)
      | Some t \<Rightarrow>
          (case take_mapping uaddr (shm_list t) of
             None \<Rightarrow> (-2, cur, sm)
           | Some (x, rest) \<Rightarrow>
               let m = (case shm_pml4 t (snd sm) of
                          None \<Rightarrow> snd sm
                        | Some pml4 \<Rightarrow>
                            (snd sm)\<lparr>um_vmm := shm_unmap_pages pml4 (sm_uaddr x) (unat (sm_size x div of_nat PAGE_SIZE)) (um_vmm (snd sm))\<rparr>)
               in (0, Some (t\<lparr>shm_list := rest\<rparr>), shm_release_in (Some (sm_region x)) (fst sm, m))))"

definition shm_release_mappings :: "task_t \<Rightarrow> shm_state \<times> user_mem \<Rightarrow> task_t \<times> shm_state \<times> user_mem" where
  "shm_release_mappings t sm =
     (t\<lparr>shm_list := []\<rparr>, fold (\<lambda>x. shm_release_in (Some (sm_region x))) (shm_list t) sm)"

section \<open>The preloaded region\<close>

definition preload_shm :: "nat option \<Rightarrow> shm_state \<Rightarrow> nat option" where
  "preload_shm ro s = (case ro of None \<Rightarrow> None | Some a \<Rightarrow> (case sh_preload s a of None \<Rightarrow> None | Some r \<Rightarrow> cp_shm r))"

definition compat_preload_inherit :: "task_t \<Rightarrow> task_t \<Rightarrow> shm_state \<Rightarrow> task_t \<times> shm_state" where
  "compat_preload_inherit child parent s =
     (case compat_region parent of
        None \<Rightarrow> (child\<lparr>compat_region := None\<rparr>, s)
      | Some r \<Rightarrow> (child\<lparr>compat_region := Some r\<rparr>, shm_retain (preload_shm (Some r) s) s))"

definition compat_preload_release :: "task_t \<Rightarrow> shm_state \<times> user_mem \<Rightarrow> task_t \<times> shm_state \<times> user_mem" where
  "compat_preload_release t sm =
     (case compat_region t of
        None \<Rightarrow> (t, sm)
      | Some r \<Rightarrow> (t\<lparr>compat_region := None\<rparr>, shm_release_in (preload_shm (Some r) (fst sm)) sm))"

end
