(* ===== verification/Namespace.thy ===== *)
theory Namespace
  imports TaskData Kheap
begin

text \<open>
  PID, mount and IPC namespaces (\<open>namespace.c\<close>): reference counted objects that the tasks point to, and
  the table of a PID namespace that renumbers PIDs. A pointer to a namespace is the number of its
  allocation. \<open>namespace_clone_child\<close>, which creates a task, is in the theory Task. Locks and messages are
  left out.
\<close>

section \<open>State\<close>

definition CLONE_NEWNS :: u64 where [kernel_defs]: "CLONE_NEWNS = 0x00020000"
definition CLONE_NEWPID :: u64 where [kernel_defs]: "CLONE_NEWPID = 0x20000000"
definition CLONE_NEWIPC :: u64 where [kernel_defs]: "CLONE_NEWIPC = 0x08000000"
definition CLONE_VM :: u64 where [kernel_defs]: "CLONE_VM = 0x00000100"
definition PIDNS_MAX_ENTRIES :: nat where [kernel_defs]: "PIDNS_MAX_ENTRIES = 64"

text \<open>\<open>pn_map\<close> is the part of \<open>map\<close> below \<open>map_count\<close>.\<close>

record pid_namespace =
  pn_id :: u32
  pn_refcount :: u32
  pn_parent :: "nat option"
  pn_map :: "(u64 \<times> u64) list"
  pn_next_local :: u64

record plain_namespace =
  ns_id :: u32
  ns_refcount :: u32

record ns_state =
  ns_heap :: kheap
  ns_pid :: "nat \<Rightarrow> pid_namespace option"
  ns_mnt :: "nat \<Rightarrow> plain_namespace option"
  ns_ipc :: "nat \<Rightarrow> plain_namespace option"
  g_root_pidns :: "nat option"
  g_root_mntns :: "nat option"
  g_root_ipcns :: "nat option"
  ns_next_id :: u32

definition namespace_root_pidns :: "ns_state \<Rightarrow> nat option" where "namespace_root_pidns s = g_root_pidns s"
definition namespace_root_mntns :: "ns_state \<Rightarrow> nat option" where "namespace_root_mntns s = g_root_mntns s"
definition namespace_root_ipcns :: "ns_state \<Rightarrow> nat option" where "namespace_root_ipcns s = g_root_ipcns s"

section \<open>Allocation and references\<close>

definition alloc_pidns :: "nat option \<Rightarrow> ns_state \<Rightarrow> nat option \<times> ns_state" where
  "alloc_pidns parent s =
     (case kzalloc_obj (ns_heap s) of
        (None, h) \<Rightarrow> (None, s\<lparr>ns_heap := h\<rparr>)
      | (Some n, h) \<Rightarrow>
          (Some n, s\<lparr>ns_heap := h, ns_next_id := ns_next_id s + 1,
             ns_pid := (ns_pid s)(n \<mapsto> \<lparr>pn_id = ns_next_id s, pn_refcount = 1, pn_parent = parent, pn_map = [],
                                       pn_next_local = 1\<rparr>)\<rparr>))"

definition alloc_mntns :: "ns_state \<Rightarrow> nat option \<times> ns_state" where
  "alloc_mntns s =
     (case kzalloc_obj (ns_heap s) of
        (None, h) \<Rightarrow> (None, s\<lparr>ns_heap := h\<rparr>)
      | (Some n, h) \<Rightarrow>
          (Some n, s\<lparr>ns_heap := h, ns_next_id := ns_next_id s + 1,
             ns_mnt := (ns_mnt s)(n \<mapsto> \<lparr>ns_id = ns_next_id s, ns_refcount = 1\<rparr>)\<rparr>))"

definition alloc_ipcns :: "ns_state \<Rightarrow> nat option \<times> ns_state" where
  "alloc_ipcns s =
     (case kzalloc_obj (ns_heap s) of
        (None, h) \<Rightarrow> (None, s\<lparr>ns_heap := h\<rparr>)
      | (Some n, h) \<Rightarrow>
          (Some n, s\<lparr>ns_heap := h, ns_next_id := ns_next_id s + 1,
             ns_ipc := (ns_ipc s)(n \<mapsto> \<lparr>ns_id = ns_next_id s, ns_refcount = 1\<rparr>)\<rparr>))"

text \<open>
  \<open>put_pidns\<close> goes on to the parent. A namespace is allocated after its parent, so its number is larger and
  \<open>n + 1\<close> steps from \<open>n\<close> are enough (\<open>put_pidns_fuel\<close> below).
\<close>

fun put_pidns_loop :: "nat \<Rightarrow> nat option \<Rightarrow> ns_state \<Rightarrow> ns_state" where
  "put_pidns_loop 0 no s = s"
| "put_pidns_loop (Suc fuel) no s =
     (case no of
        None \<Rightarrow> s
      | Some n \<Rightarrow>
          (case ns_pid s n of
             None \<Rightarrow> s
           | Some ns \<Rightarrow>
               let rc = (if pn_refcount ns > 0 then pn_refcount ns - 1 else pn_refcount ns);
                   s = s\<lparr>ns_pid := (ns_pid s)(n \<mapsto> ns\<lparr>pn_refcount := rc\<rparr>)\<rparr>
               in if rc = 0 \<and> pn_parent ns \<noteq> None then
                    let s = put_pidns_loop fuel (pn_parent ns) s in s\<lparr>ns_pid := (ns_pid s)(n := None)\<rparr>
                  else s))"

definition put_pidns :: "nat option \<Rightarrow> ns_state \<Rightarrow> ns_state" where
  "put_pidns no s = put_pidns_loop (case no of None \<Rightarrow> 1 | Some n \<Rightarrow> Suc n) no s"

definition parents_below :: "ns_state \<Rightarrow> bool" where
  "parents_below s \<longleftrightarrow> (\<forall>n ns p. ns_pid s n = Some ns \<and> pn_parent ns = Some p \<longrightarrow> p < n)"

lemma put_pidns_fuel: "parents_below s \<Longrightarrow> n < fuel \<Longrightarrow> put_pidns_loop fuel (Some n) s = put_pidns (Some n) s"
proof (induction n arbitrary: fuel s rule: less_induct)
  case (less n)
  obtain f where f: "fuel = Suc f" "n \<le> f" using less.prems(2) by (cases fuel) auto
  have step: "put_pidns_loop f (Some p) s' = put_pidns_loop n (Some p) s'" if "p < n" "parents_below s'" for p s'
    using less.IH [OF that(1) that(2), of f] less.IH [OF that(1) that(2), of n] that(1) f(2) by simp
  show ?case
  proof (cases "ns_pid s n")
    case (Some ns)
    have "put_pidns_loop f (pn_parent ns) (s\<lparr>ns_pid := (ns_pid s)(n \<mapsto> ns\<lparr>pn_refcount := rc\<rparr>)\<rparr>) =
        put_pidns_loop n (pn_parent ns) (s\<lparr>ns_pid := (ns_pid s)(n \<mapsto> ns\<lparr>pn_refcount := rc\<rparr>)\<rparr>)" if "pn_parent ns \<noteq> None" for rc
    proof -
      have "parents_below (s\<lparr>ns_pid := (ns_pid s)(n \<mapsto> ns\<lparr>pn_refcount := rc\<rparr>)\<rparr>)"
        using less.prems(1) Some by (auto simp: parents_below_def split: if_splits)
      then show ?thesis using that step less.prems(1) Some by (auto simp: parents_below_def)
    qed
    then show ?thesis using Some by (cases "pn_parent ns") (simp_all add: f(1) put_pidns_def Let_def)
  qed (simp add: f(1) put_pidns_def)
qed

text \<open>A name space whose parent is allocated gets a larger number than it.\<close>

lemma alloc_parents_below:
  assumes "parents_below s" "\<And>p. parent = Some p \<Longrightarrow> p < h_calls (ns_heap s)"
  shows "parents_below (snd (alloc_pidns parent s))"
  using assms by (auto simp: alloc_pidns_def kzalloc_obj_def parents_below_def split: prod.splits option.splits if_splits)

definition put_plain :: "plain_namespace \<Rightarrow> plain_namespace option" where
  "put_plain ns =
     (let rc = (if ns_refcount ns > 0 then ns_refcount ns - 1 else ns_refcount ns)
      in if rc = 0 then None else Some (ns\<lparr>ns_refcount := rc\<rparr>))"

definition put_mntns :: "nat option \<Rightarrow> ns_state \<Rightarrow> ns_state" where
  "put_mntns no s =
     (case no of None \<Rightarrow> s | Some n \<Rightarrow> s\<lparr>ns_mnt := (ns_mnt s)(n := Option.bind (ns_mnt s n) put_plain)\<rparr>)"

definition put_ipcns :: "nat option \<Rightarrow> ns_state \<Rightarrow> ns_state" where
  "put_ipcns no s =
     (case no of None \<Rightarrow> s | Some n \<Rightarrow> s\<lparr>ns_ipc := (ns_ipc s)(n := Option.bind (ns_ipc s n) put_plain)\<rparr>)"

text \<open>\<open>refcount++\<close> of what the pointer points to, if it is not NULL.\<close>

definition get_pidns :: "nat option \<Rightarrow> ns_state \<Rightarrow> ns_state" where
  "get_pidns no s =
     (case no of
        None \<Rightarrow> s
      | Some n \<Rightarrow> s\<lparr>ns_pid := (ns_pid s)(n := map_option (\<lambda>x. x\<lparr>pn_refcount := pn_refcount x + 1\<rparr>) (ns_pid s n))\<rparr>)"

definition get_mntns :: "nat option \<Rightarrow> ns_state \<Rightarrow> ns_state" where
  "get_mntns no s =
     (case no of
        None \<Rightarrow> s
      | Some n \<Rightarrow> s\<lparr>ns_mnt := (ns_mnt s)(n := map_option (\<lambda>x. x\<lparr>ns_refcount := ns_refcount x + 1\<rparr>) (ns_mnt s n))\<rparr>)"

definition get_ipcns :: "nat option \<Rightarrow> ns_state \<Rightarrow> ns_state" where
  "get_ipcns no s =
     (case no of
        None \<Rightarrow> s
      | Some n \<Rightarrow> s\<lparr>ns_ipc := (ns_ipc s)(n := map_option (\<lambda>x. x\<lparr>ns_refcount := ns_refcount x + 1\<rparr>) (ns_ipc s n))\<rparr>)"

definition namespace_init :: "ns_state \<Rightarrow> ns_state" where
  "namespace_init s =
     (case alloc_pidns None s of (p, s) \<Rightarrow>
        case alloc_mntns s of (m, s) \<Rightarrow>
        case alloc_ipcns s of (i, s) \<Rightarrow>
          s\<lparr>g_root_pidns := p, g_root_mntns := m, g_root_ipcns := i,
             ns_pid := (case p of None \<Rightarrow> ns_pid s | Some n \<Rightarrow> (ns_pid s)(n := map_option (\<lambda>x. x\<lparr>pn_refcount := 1000\<rparr>) (ns_pid s n))),
             ns_mnt := (case m of None \<Rightarrow> ns_mnt s | Some n \<Rightarrow> (ns_mnt s)(n := map_option (\<lambda>x. x\<lparr>ns_refcount := 1000\<rparr>) (ns_mnt s n))),
             ns_ipc := (case i of None \<Rightarrow> ns_ipc s | Some n \<Rightarrow> (ns_ipc s)(n := map_option (\<lambda>x. x\<lparr>ns_refcount := 1000\<rparr>) (ns_ipc s n)))\<rparr>)"

definition namespace_retain :: "task_t \<Rightarrow> ns_state \<Rightarrow> ns_state" where
  "namespace_retain t s = get_ipcns (t_ipcns t) (get_mntns (t_mntns t) (get_pidns (t_pidns t) s))"

definition namespace_release :: "task_t \<Rightarrow> ns_state \<Rightarrow> task_t \<times> ns_state" where
  "namespace_release t s =
     (t\<lparr>t_pidns := None, t_mntns := None, t_ipcns := None\<rparr>,
      put_ipcns (t_ipcns t) (put_mntns (t_mntns t) (put_pidns (t_pidns t) s)))"

section \<open>Renumbering\<close>

fun map_find :: "(u64 \<times> u64) list \<Rightarrow> u64 \<Rightarrow> u64 option" where
  "map_find [] g = None"
| "map_find ((g', l) # m) g = (if g' = g then Some l else map_find m g)"

definition pidns_to_local :: "nat option \<Rightarrow> u64 \<Rightarrow> ns_state \<Rightarrow> u64 \<times> ns_state" where
  "pidns_to_local no g s =
     (case (case no of None \<Rightarrow> None | Some n \<Rightarrow> (case ns_pid s n of None \<Rightarrow> None | Some ns \<Rightarrow> Some (n, ns))) of
        None \<Rightarrow> (g, s)
      | Some (n, ns) \<Rightarrow>
          (case map_find (pn_map ns) g of
             Some l \<Rightarrow> (l, s)
           | None \<Rightarrow>
               if length (pn_map ns) < PIDNS_MAX_ENTRIES then
                 let l = pn_next_local ns
                 in (l, s\<lparr>ns_pid := (ns_pid s)(n \<mapsto> ns\<lparr>pn_next_local := l + 1, pn_map := pn_map ns @ [(g, l)]\<rparr>)\<rparr>)
               else (g, s)))"

section \<open>Fork and unshare\<close>

text \<open>Each function fills in the pointers one after the other and stops at the first failure.\<close>

definition fork_pidns :: "u64 \<Rightarrow> task_t \<Rightarrow> task_t \<Rightarrow> ns_state \<Rightarrow> bool \<times> task_t \<times> ns_state" where
  "fork_pidns flags cur child s =
     (if flags AND CLONE_NEWPID \<noteq> 0 then
        (case alloc_pidns (t_pidns cur) s of (n, s) \<Rightarrow> (n \<noteq> None, child\<lparr>t_pidns := n\<rparr>, s))
      else (True, child\<lparr>t_pidns := t_pidns cur\<rparr>, get_pidns (t_pidns cur) s))"

definition fork_mntns :: "u64 \<Rightarrow> task_t \<Rightarrow> task_t \<Rightarrow> ns_state \<Rightarrow> bool \<times> task_t \<times> ns_state" where
  "fork_mntns flags cur child s =
     (if flags AND CLONE_NEWNS \<noteq> 0 then
        (case alloc_mntns s of (n, s) \<Rightarrow> (n \<noteq> None, child\<lparr>t_mntns := n\<rparr>, s))
      else (True, child\<lparr>t_mntns := t_mntns cur\<rparr>, get_mntns (t_mntns cur) s))"

definition fork_ipcns :: "u64 \<Rightarrow> task_t \<Rightarrow> task_t \<Rightarrow> ns_state \<Rightarrow> bool \<times> task_t \<times> ns_state" where
  "fork_ipcns flags cur child s =
     (if flags AND CLONE_NEWIPC \<noteq> 0 then
        (case alloc_ipcns s of (n, s) \<Rightarrow> (n \<noteq> None, child\<lparr>t_ipcns := n\<rparr>, s))
      else (True, child\<lparr>t_ipcns := t_ipcns cur\<rparr>, get_ipcns (t_ipcns cur) s))"

definition namespace_fork :: "task_t option \<Rightarrow> task_t option \<Rightarrow> u64 \<Rightarrow> ns_state \<Rightarrow> int \<times> task_t option \<times> ns_state" where
  "namespace_fork cur child flags s =
     (case (cur, child) of
        (Some cur, Some child) \<Rightarrow>
          (case fork_pidns flags cur child s of (ok, child, s) \<Rightarrow>
             if \<not> ok then (-12, Some child, s)
             else case fork_mntns flags cur child s of (ok, child, s) \<Rightarrow>
               if \<not> ok then (-12, Some child, s)
               else case fork_ipcns flags cur child s of (ok, child, s) \<Rightarrow>
                 if \<not> ok then (-12, Some child, s) else (0, Some child, s))
      | _ \<Rightarrow> (-22, child, s))"

definition unshare_pidns :: "u64 \<Rightarrow> task_t \<Rightarrow> ns_state \<Rightarrow> bool \<times> task_t \<times> ns_state" where
  "unshare_pidns flags cur s =
     (if flags AND CLONE_NEWPID \<noteq> 0 then
        (case alloc_pidns (t_pidns cur) s of
           (None, s) \<Rightarrow> (False, cur, s)
         | (Some n, s) \<Rightarrow> (True, cur\<lparr>t_pidns := Some n\<rparr>, put_pidns (t_pidns cur) s))
      else (True, cur, s))"

definition unshare_mntns :: "u64 \<Rightarrow> task_t \<Rightarrow> ns_state \<Rightarrow> bool \<times> task_t \<times> ns_state" where
  "unshare_mntns flags cur s =
     (if flags AND CLONE_NEWNS \<noteq> 0 then
        (case alloc_mntns s of
           (None, s) \<Rightarrow> (False, cur, s)
         | (Some n, s) \<Rightarrow> (True, cur\<lparr>t_mntns := Some n\<rparr>, put_mntns (t_mntns cur) s))
      else (True, cur, s))"

definition unshare_ipcns :: "u64 \<Rightarrow> task_t \<Rightarrow> ns_state \<Rightarrow> bool \<times> task_t \<times> ns_state" where
  "unshare_ipcns flags cur s =
     (if flags AND CLONE_NEWIPC \<noteq> 0 then
        (case alloc_ipcns s of
           (None, s) \<Rightarrow> (False, cur, s)
         | (Some n, s) \<Rightarrow> (True, cur\<lparr>t_ipcns := Some n\<rparr>, put_ipcns (t_ipcns cur) s))
      else (True, cur, s))"

definition namespace_unshare :: "task_t option \<Rightarrow> u64 \<Rightarrow> ns_state \<Rightarrow> int \<times> task_t option \<times> ns_state" where
  "namespace_unshare cur flags s =
     (case cur of
        None \<Rightarrow> (-1, None, s)
      | Some cur \<Rightarrow>
          if privilege_level cur < 2 then (-1, Some cur, s)
          else case unshare_pidns flags cur s of (ok, cur, s) \<Rightarrow>
            if \<not> ok then (-12, Some cur, s)
            else case unshare_mntns flags cur s of (ok, cur, s) \<Rightarrow>
              if \<not> ok then (-12, Some cur, s)
              else case unshare_ipcns flags cur s of (ok, cur, s) \<Rightarrow>
                if \<not> ok then (-12, Some cur, s) else (int (t_pid cur), Some cur, s))"

end
