(* ===== verification/Task.thy ===== *)
theory Task
  imports PrivIso See Shm Namespace MemDomain Futex CompatHandle
begin

text \<open>
  Tasks (\<open>task.c\<close>): creation, exit, joining and reaping, with what they do to every other component. The
  state is the kernel: the task table and the states of the components a task uses. A task is named by
  the address of its control block; \<open>k_tasks\<close> holds the blocks that are allocated, \<open>k_list\<close> is the chain
  from \<open>g_task_head\<close>. Each component draws its memory from a heap of its own, \<open>k_heap\<close> serves the control
  blocks, the threads and the page arrays; the outcomes of the heaps are arbitrary. The functions run
  with interrupts masked or under \<open>g_task_lock\<close> on one processor, so each is one step; \<open>task_join\<close>, which
  sleeps, is two. Messages are left out.
\<close>

section \<open>State\<close>

record kernel =
  k_pids :: pid_state
  k_heap :: kheap
  k_sched :: sched_state
  k_futex :: futex_state
  k_fs :: fs_state
  k_mem :: user_mem
  k_shm :: shm_state
  k_ns :: ns_state
  k_see :: see_state
  k_files :: "nat \<Rightarrow> vfs_file option"
  k_htabs :: "nat \<Rightarrow> compat_handle_table option"
  k_tasks :: "nat \<Rightarrow> task_t option"
  k_list :: "nat list"
  k_count :: u64
  k_audit :: "audit_event list"

text \<open>The static \<open>g_bootstrap_task_storage\<close> has an address no allocation returns; allocations start at 1.\<close>

definition bootstrap_task :: nat where "bootstrap_task = 0"

definition PID_RESERVED_MIN :: nat where [kernel_defs]: "PID_RESERVED_MIN = 1"
definition COMPAT_TYPE_NONE :: nat where [kernel_defs]: "COMPAT_TYPE_NONE = 0"

text \<open>Reading and writing through a task pointer. No correct state reads a block that is not allocated.\<close>

definition tsk :: "kernel \<Rightarrow> nat \<Rightarrow> task_t" where
  "tsk k a = (case k_tasks k a of Some t \<Rightarrow> t | None \<Rightarrow> zero_task)"

definition put_task :: "nat \<Rightarrow> task_t \<Rightarrow> kernel \<Rightarrow> kernel" where
  "put_task a t k = k\<lparr>k_tasks := (k_tasks k)(a \<mapsto> t)\<rparr>"

definition upd_task :: "nat \<Rightarrow> (task_t \<Rightarrow> task_t) \<Rightarrow> kernel \<Rightarrow> kernel" where
  "upd_task a f k = k\<lparr>k_tasks := (k_tasks k)(a := map_option f (k_tasks k a))\<rparr>"

text \<open>\<open>task_from_thread(sched_current())\<close>, and the first task of the chain with a PID.\<close>

definition self_task :: "kernel \<Rightarrow> nat option" where
  "self_task k = (case g_current (k_sched k) of None \<Rightarrow> None | Some c \<Rightarrow> th_task (thr (k_sched k) c))"

definition find_task :: "kernel \<Rightarrow> nat \<Rightarrow> nat option" where
  "find_task k pid = List.find (\<lambda>a. t_pid (tsk k a) = pid) (k_list k)"

definition find_alive_task :: "kernel \<Rightarrow> nat \<Rightarrow> nat option" where
  "find_alive_task k pid = List.find (\<lambda>a. t_pid (tsk k a) = pid \<and> \<not> is_zombie (tsk k a)) (k_list k)"

section \<open>Rules of creation\<close>

definition inherit_privilege :: "nat \<Rightarrow> nat" where
  "inherit_privilege p = (if p = 7 then 6 else if p = 9 then 6 else if p = 8 then 8 else p)"

definition default_child_limit :: "nat \<Rightarrow> nat" where
  "default_child_limit p =
     (if p = 0 then 0 else if p = 1 then 1 else if p \<le> 4 then 16 else if p \<le> 6 then 32
      else if p \<le> 8 then 128 else 0xFFFFFFFF)"

definition compute_is_critical :: "nat \<Rightarrow> nat \<Rightarrow> u8 \<Rightarrow> bool \<Rightarrow> bool" where
  "compute_is_critical pid p flags privileged =
     (if flags \<noteq> 0 then False
      else if pid \<ge> PID_RESERVED_MIN \<and> pid \<le> PID_RESERVED_MAX then True
      else if p = PRIV_KERNEL_MANAGER \<and> privileged then True
      else False)"

definition child_privilege :: "task_t option \<Rightarrow> nat \<Rightarrow> u8 \<Rightarrow> nat" where
  "child_privilege parent requested flags =
     (let p = (case parent of
                 Some par \<Rightarrow>
                   let p = inherit_privilege (privilege_level par) in if requested < p then requested else p
               | None \<Rightarrow> if requested > PRIV_MAX then PRIV_MAX else requested)
      in if flags \<noteq> 0 \<and> p = 9 then 6 else p)"

section \<open>Initialisation\<close>

definition boot_task :: task_t where
  "boot_task =
     zero_task\<lparr>t_pid := 0, parent_pid := 0, privilege_level := PRIV_KERNEL_MANAGER, isolation_mode := ISOLATION_NONE,
       cpu_usage_quota := 100, child_process_limit := 128, t_name := Some ''bootstrap'',
       security_token := no_token\<lparr>tok_level := PRIV_KERNEL_MANAGER\<rparr>, compat_type := COMPAT_TYPE_NONE, pgid := 0\<rparr>"

definition task_init :: "kernel \<Rightarrow> kernel" where
  "task_init k = put_task bootstrap_task boot_task (k\<lparr>k_list := [bootstrap_task], k_count := 1\<rparr>)"

definition task_18d_init :: "nat \<Rightarrow> kernel \<Rightarrow> kernel" where
  "task_18d_init a k =
     (let t = (tsk k a)\<lparr>is_zombie := False, join_waiter := None, shm_list := [], seccomp_mode := 0, seccomp_filter := None,
                ptrace_flags := 0, ptrace_tracer_pid := 0, win32_last_error := 0, fd_table := replicate 64 None,
                t_pidns := namespace_root_pidns (k_ns k), t_mntns := namespace_root_mntns (k_ns k),
                t_ipcns := namespace_root_ipcns (k_ns k)\<rparr>;
          k = k\<lparr>k_ns := namespace_retain t (k_ns k)\<rparr>
      in put_task a (t\<lparr>mem_quota_pages := (if privilege_level t = 0 then 16 else if privilege_level t = 1 then 64 else 0),
                      mem_pages_used := 0\<rparr>) k)"

section \<open>Giving back what a task holds\<close>

definition destroy_htab :: "task_t \<Rightarrow> kernel \<Rightarrow> task_t \<times> kernel" where
  "destroy_htab t k =
     (case htab t of
        None \<Rightarrow> (t, k)
      | Some pg \<Rightarrow>
          let v = um_vmm (k_mem k);
              ht = map_option (Pair pg) (k_htabs k pg)
          in (t\<lparr>htab := None\<rparr>,
              k\<lparr>k_htabs := (k_htabs k)(pg := None),
                k_mem := (k_mem k)\<lparr>um_vmm := v\<lparr>v_pmm := compat_handle_table_destroy ht (v_pmm v)\<rparr>\<rparr>\<rparr>))"

definition release_region :: "task_t \<Rightarrow> kernel \<Rightarrow> task_t \<times> kernel" where
  "release_region t k =
     (case compat_preload_release t (k_shm k, k_mem k) of (t, s, m) \<Rightarrow> (t, k\<lparr>k_shm := s, k_mem := m\<rparr>))"

definition destroy_domain :: "task_t \<Rightarrow> kernel \<Rightarrow> task_t \<times> kernel" where
  "destroy_domain t k =
     (case mem_domain_destroy (Some t) (um_vmm (k_mem k)) of
        (to, v) \<Rightarrow> ((case to of Some t \<Rightarrow> t | None \<Rightarrow> t), k\<lparr>k_mem := (k_mem k)\<lparr>um_vmm := v\<rparr>\<rparr>))"

definition release_directory :: "task_t \<Rightarrow> kernel \<Rightarrow> task_t \<times> kernel" where
  "release_directory t k =
     (if privilege_level t = 0 then (case priv0_umount_vfs t (k_fs k) of (t, s) \<Rightarrow> (t, k\<lparr>k_fs := s\<rparr>))
      else if privilege_level t = 1 then (case priv1_cleanup_tmpdir t (k_fs k) of (t, s) \<Rightarrow> (t, k\<lparr>k_fs := s\<rparr>))
      else (t, k))"

definition release_isolation :: "task_t \<Rightarrow> kernel \<Rightarrow> task_t \<times> kernel" where
  "release_isolation t k =
     (if priv_iso_ready t then
        (case release_directory t k of (t, k) \<Rightarrow>
         case destroy_domain t k of (t, k) \<Rightarrow> (t\<lparr>priv_iso_ready := False\<rparr>, k))
      else (t, k))"

text \<open>\<open>see_cleanup_sandbox\<close> of \<open>see.c\<close>.\<close>

definition see_cleanup_sandbox :: "task_t \<Rightarrow> kernel \<Rightarrow> task_t \<times> kernel" where
  "see_cleanup_sandbox t k =
     (if sandbox_flags t AND OBSANDBOX_ACTIVE = 0 \<and> sandbox_sb_ptr t = None then (t, k)
      else case sandbox_cleanup_fs t (k_fs k) of (t, s) \<Rightarrow>
        case release_isolation t (k\<lparr>k_fs := s\<rparr>) of (t, k) \<Rightarrow>
          (t, k\<lparr>k_see := (k_see k)\<lparr>g_cleanup_count := g_cleanup_count (k_see k) + 1\<rparr>\<rparr>))"

definition release_sandbox :: "task_t \<Rightarrow> kernel \<Rightarrow> task_t \<times> kernel" where
  "release_sandbox t k =
     (if sandbox_flags t AND OBSANDBOX_ACTIVE \<noteq> 0 then
        let inst = see_task_instance (Some t) in
        case see_cleanup_sandbox t k of (t, k) \<Rightarrow>
          (t\<lparr>syscall_table_ptr := None, sandbox_flags := 0\<rparr>, k\<lparr>k_see := see_destroy_instance inst (k_see k)\<rparr>)
      else (t, k))"

text \<open>Descriptors 0 to 2 are not closed.\<close>

definition close_fd :: "nat \<Rightarrow> task_t \<times> kernel \<Rightarrow> task_t \<times> kernel" where
  "close_fd i tk =
     (case tk of (t, k) \<Rightarrow>
        case fd_table t ! i of
          None \<Rightarrow> (t, k)
        | Some f \<Rightarrow>
            (t\<lparr>fd_table := (fd_table t)[i := None]\<rparr>,
             k\<lparr>k_fs := snd (vfs_close tmpfs_env (k_files k f) (k_fs k)), k_files := (k_files k)(f := None)\<rparr>))"

definition task_18d_cleanup :: "task_t \<Rightarrow> kernel \<Rightarrow> task_t \<times> kernel" where
  "task_18d_cleanup t k =
     (case fold close_fd [3..<64] (t, k) of (t, k) \<Rightarrow>
        case shm_release_mappings t (k_shm k, k_mem k) of (t, s, m) \<Rightarrow>
          case namespace_release t (k_ns k) of (t, n) \<Rightarrow> (t, k\<lparr>k_shm := s, k_mem := m, k_ns := n\<rparr>))"

definition teardown_user :: "task_t \<Rightarrow> kernel \<Rightarrow> task_t \<times> kernel" where
  "teardown_user t k =
     (case user_teardown (Some t) (k_mem k) of (to, m) \<Rightarrow> ((case to of Some t \<Rightarrow> t | None \<Rightarrow> t), k\<lparr>k_mem := m\<rparr>))"

text \<open>The sequence that \<open>task_exit\<close> and \<open>task_destroy\<close> have in common.\<close>

definition release_all :: "task_t \<Rightarrow> kernel \<Rightarrow> task_t \<times> kernel" where
  "release_all t k =
     (case teardown_user t k of (t, k) \<Rightarrow>
      case release_sandbox t k of (t, k) \<Rightarrow>
      case release_isolation t k of (t, k) \<Rightarrow>
      case release_region t k of (t, k) \<Rightarrow>
      case destroy_htab t k of (t, k) \<Rightarrow> task_18d_cleanup t k)"

section \<open>Creation\<close>

text \<open>What the failure paths undo: the handle table, the region, the block, the PID.\<close>

definition create_undo :: "task_t \<Rightarrow> kernel \<Rightarrow> kernel" where
  "create_undo t k =
     (case destroy_htab t k of (t, k) \<Rightarrow>
      case release_region t k of (t, k) \<Rightarrow> k\<lparr>k_pids := snd (free_pid (t_pid t) (k_pids k))\<rparr>)"

definition new_task :: "string option \<Rightarrow> nat \<Rightarrow> nat \<Rightarrow> u8 \<Rightarrow> bool \<Rightarrow> task_t \<Rightarrow> task_t" where
  "new_task name pid p flags privileged par =
     zero_task\<lparr>t_pid := pid, parent_pid := t_pid par, privilege_level := p, isolation_mode := ISOLATION_NONE,
       sandbox_flags := flags, is_critical := compute_is_critical pid p flags privileged, cpu_usage_quota := 100,
       child_process_limit := default_child_limit p, t_name := name, security_token := no_token\<lparr>tok_level := p\<rparr>,
       t_netns := t_netns par, pgid := pid\<rparr>"

text \<open>The loop over the parent's handles. The entries' old numbers are not kept.\<close>

definition copy_handles :: "compat_handle_table \<Rightarrow> compat_handle_table \<Rightarrow> compat_handle_table" where
  "copy_handles from ht =
     fold (\<lambda>i ht. let e = ch_entries from ! i in
             if ch_in_use e then
               (case compat_handle_alloc (Some ht) (ch_kernel_handle e) (ch_type e) (ch_flags e) of
                  (_, Some ht) \<Rightarrow> ht | (_, None) \<Rightarrow> ht)
             else ht) [0..<COMPAT_HANDLE_MAX] ht"

text \<open>The table of a child of a compatibility process; false when it cannot be allocated.\<close>

definition inherit_htab :: "task_t \<Rightarrow> task_t \<Rightarrow> kernel \<Rightarrow> bool \<times> task_t \<times> kernel" where
  "inherit_htab par t k =
     (if compat_type par = COMPAT_TYPE_NONE then (True, t, k)
      else
        let t = t\<lparr>compat_type := compat_type par\<rparr> in
        case (case htab par of None \<Rightarrow> None | Some pg \<Rightarrow> k_htabs k pg) of
          None \<Rightarrow> (True, t, k)
        | Some from \<Rightarrow>
            let v = um_vmm (k_mem k) in
            (case compat_handle_table_create (v_pmm v) of
               (r, p) \<Rightarrow>
                 let k = k\<lparr>k_mem := (k_mem k)\<lparr>um_vmm := v\<lparr>v_pmm := p\<rparr>\<rparr>\<rparr> in
                 (case r of
                    None \<Rightarrow> (False, t, k)
                  | Some (pg, ht) \<Rightarrow>
                      (True, t\<lparr>htab := Some pg\<rparr>, k\<lparr>k_htabs := (k_htabs k)(pg \<mapsto> copy_handles from ht)\<rparr>))))"

text \<open>The memory domain and the private directory of privilege 0 and 1. \<open>rnd\<close>: what the generator returns.\<close>

definition create_isolation :: "u8 list option \<Rightarrow> task_t \<Rightarrow> kernel \<Rightarrow> bool \<times> task_t \<times> kernel" where
  "create_isolation rnd t k =
     (if privilege_level t \<noteq> 0 \<and> privilege_level t \<noteq> 1 then (True, t, k)
      else case mem_domain_create (Some t) (k_heap k, um_vmm (k_mem k)) of
        (rc, to, h, v) \<Rightarrow>
          let t = (case to of Some t \<Rightarrow> t | None \<Rightarrow> t);
              k = k\<lparr>k_heap := h, k_mem := (k_mem k)\<lparr>um_vmm := v\<rparr>\<rparr>
          in if rc \<noteq> 0 then (False, t, k)
             else case (if privilege_level t = 0 then priv0_mount_vfs t (k_fs k) else priv1_setup_tmpdir rnd t (k_fs k)) of
               (rc, t, s) \<Rightarrow>
                 let k = k\<lparr>k_fs := s\<rparr> in
                 if rc \<noteq> 0 then (case destroy_domain t k of (t, k) \<Rightarrow> (False, t, k))
                 else (True, t\<lparr>priv_iso_ready := True\<rparr>, k))"

definition spawn_thread :: "string option \<Rightarrow> nat \<Rightarrow> kernel \<Rightarrow> nat option \<times> kernel" where
  "spawn_thread name p k =
     (let v = um_vmm (k_mem k) in
      case thread_create name True (int p) (k_heap k, v_pmm v, k_sched k) of
        (th, h, pm, s) \<Rightarrow> (th, k\<lparr>k_heap := h, k_sched := s, k_mem := (k_mem k)\<lparr>um_vmm := v\<lparr>v_pmm := pm\<rparr>\<rparr>\<rparr>))"

text \<open>A thread of privilege 1 starts with a quarter of its slice.\<close>

definition start_slice :: "nat \<Rightarrow> u64 \<Rightarrow> u64" where
  "start_slice p n =
     (if p = 1 then let n = (if n > 1 then n div 4 else n) in if n = 0 then 1 else n else n)"

text \<open>The block \<open>a\<close> with its thread goes to the head of both chains.\<close>

definition link_task :: "nat \<Rightarrow> task_t \<Rightarrow> nat \<Rightarrow> nat \<Rightarrow> kernel \<Rightarrow> kernel" where
  "link_task a t th par k =
     (let k = k\<lparr>k_sched := upd_thread th (\<lambda>x. x\<lparr>slice_remaining := start_slice (privilege_level t) (slice_remaining x),
                             th_task := Some a, tid := t_pid t\<rparr>) (k_sched k)\<rparr>;
          k = put_task a (t\<lparr>t_thread := Some th\<rparr>) k;
          k = k\<lparr>k_list := a # k_list k, k_count := k_count k + 1\<rparr>
      in upd_task par (\<lambda>p. p\<lparr>children := a # children p, children_count := children_count p + 1\<rparr>) k)"

definition create_pid :: "nat \<Rightarrow> bool \<Rightarrow> pid_state \<Rightarrow> int \<times> pid_state" where
  "create_pid requested privileged s =
     (if privileged \<and> requested \<ge> PID_RESERVED_MIN \<and> requested \<le> PID_RESERVED_MAX then alloc_pid_kernel requested s
      else alloc_pid requested s)"

text \<open>From the allocated block on: the parts of the task, then the links.\<close>

definition build_task :: "u8 list option \<Rightarrow> nat \<Rightarrow> task_t \<Rightarrow> nat \<Rightarrow> kernel \<Rightarrow> nat option \<times> kernel" where
  "build_task rnd a t par k =
     (case compat_preload_inherit t (tsk k par) (k_shm k) of (t, s) \<Rightarrow>
      case inherit_htab (tsk k par) t (k\<lparr>k_shm := s\<rparr>) of (ok, t, k) \<Rightarrow>
        if \<not> ok then (None, create_undo t k)
        else case create_isolation rnd t k of (ok, t, k) \<Rightarrow>
          if \<not> ok then (None, create_undo t k)
          else case spawn_thread (t_name t) (privilege_level t) k of
              (None, k) \<Rightarrow> (case release_isolation t k of (t, k) \<Rightarrow> (None, create_undo t k))
            | (Some th, k) \<Rightarrow> (Some a, task_18d_init a (link_task a t th par k)))"

definition task_create ::
    "u8 list option \<Rightarrow> string option \<Rightarrow> bool \<Rightarrow> nat option \<Rightarrow> nat \<Rightarrow> nat \<Rightarrow> u8 \<Rightarrow> bool \<Rightarrow> kernel \<Rightarrow> nat option \<times> kernel" where
  "task_create rnd name has_entry parent requested_pid requested_priv flags privileged k =
     (if \<not> has_entry then (None, k)
      else
        let par = (case parent of Some a \<Rightarrow> a | None \<Rightarrow> bootstrap_task);
            pt = tsk k par;
            p = child_privilege (if parent = None then None else Some pt) requested_priv flags
        in if parent \<noteq> None \<and> privilege_level pt = 0 then (None, k)
           else if children_count pt \<ge> child_process_limit pt then (None, k)
           else case create_pid requested_pid privileged (k_pids k) of
             (r, ps) \<Rightarrow>
               let k = k\<lparr>k_pids := ps\<rparr> in
               if r < 0 then (None, k)
               else case kzalloc_obj (k_heap k) of
                   (None, h) \<Rightarrow> (None, k\<lparr>k_heap := h, k_pids := snd (free_pid (nat r) (k_pids k))\<rparr>)
                 | (Some a, h) \<Rightarrow>
                     build_task rnd a (new_task name (nat r) p flags privileged pt) par (k\<lparr>k_heap := h\<rparr>))"

section \<open>Exit and destruction\<close>

text \<open>The block leaves its parent's chain. The parent is the first task with the parent's PID.\<close>

definition unlink_from_parent :: "nat \<Rightarrow> kernel \<Rightarrow> kernel" where
  "unlink_from_parent a k =
     (case find_task k (parent_pid (tsk k a)) of
        None \<Rightarrow> k
      | Some par \<Rightarrow>
          if par \<noteq> a \<and> a \<in> set (children (tsk k par)) then
            upd_task par (\<lambda>p. p\<lparr>children := remove1 a (children p),
                              children_count := (if children_count p > 0 then children_count p - 1 else children_count p)\<rparr>) k
          else k)"

definition unlink_global :: "nat \<Rightarrow> kernel \<Rightarrow> kernel" where
  "unlink_global a k =
     (if a \<in> set (k_list k) then
        k\<lparr>k_list := remove1 a (k_list k), k_count := (if k_count k > 0 then k_count k - 1 else k_count k)\<rparr>
      else k)"

text \<open>\<open>jw->woken = 1\<close> and the thread of the waiter runs again.\<close>

definition wake_joiner :: "nat option \<Rightarrow> kernel \<Rightarrow> kernel" where
  "wake_joiner jw k =
     (case jw of
        None \<Rightarrow> k
      | Some w \<Rightarrow>
          k\<lparr>k_futex := set_woken True w (k_futex k),
            k_sched := sched_enqueue_thread (w_th (wtr (k_futex k) w)) (k_sched k)\<rparr>)"

text \<open>\<open>task_exit\<close> up to the call of \<open>thread_exit\<close>.\<close>

definition exit_task :: "nat \<Rightarrow> int \<Rightarrow> kernel \<Rightarrow> kernel" where
  "exit_task a code k =
     (let fs = futex_wake_all_for_thread (g_current (k_sched k)) (k_futex k, k_sched k);
          k = k\<lparr>k_futex := fst fs, k_sched := snd fs\<rparr>;
          k = upd_task a (\<lambda>t. t\<lparr>exit_code := code\<rparr>) k;
          k = (if a \<noteq> bootstrap_task then unlink_from_parent a k else k);
          jw = join_waiter (tsk k a);
          k = upd_task a (\<lambda>t. t\<lparr>is_zombie := True, join_waiter := None\<rparr>) k;
          k = wake_joiner jw k
      in case release_all (tsk k a) k of (t, k) \<Rightarrow> put_task a t k)"

text \<open>The pair passed to \<open>context_switch\<close>, if the switch takes place; \<open>None\<close>: the call does not end.\<close>

type_synonym switch = "(nat option \<times> nat option) option"

definition on_sched :: "(sched_state \<Rightarrow> (sched_state \<times> switch) option) \<Rightarrow> kernel \<Rightarrow> (kernel \<times> switch) option" where
  "on_sched f k = map_option (\<lambda>(s, sw). (k\<lparr>k_sched := s\<rparr>, sw)) (f (k_sched k))"

definition task_exit :: "int \<Rightarrow> kernel \<Rightarrow> (kernel \<times> switch) option" where
  "task_exit code k =
     on_sched thread_exit (case self_task k of None \<Rightarrow> k | Some a \<Rightarrow> exit_task a code k)"

definition free_kstack :: "thread \<Rightarrow> kernel \<Rightarrow> kernel" where
  "free_kstack x k =
     (if kstack_base x \<noteq> 0 \<and> kstack_order x \<ge> 0 then
        let v = um_vmm (k_mem k) in
        k\<lparr>k_mem := (k_mem k)\<lparr>um_vmm := v\<lparr>v_pmm :=
           pmm_free_pages (Some (phys_to_page (kstack_base x - DIRECTMAP_BASE))) (kstack_order x) (v_pmm v)\<rparr>\<rparr>\<rparr>
      else k)"

definition task_destroy :: "nat \<Rightarrow> kernel \<Rightarrow> kernel" where
  "task_destroy a k =
     (if a = bootstrap_task then k
      else
        let th = t_thread (tsk k a); pid = t_pid (tsk k a);
            k = unlink_from_parent a k;
            k = unlink_global a k
        in case release_all (tsk k a) k of (t, k) \<Rightarrow>
          let k = (if pid \<noteq> 0 then k\<lparr>k_pids := snd (free_pid pid (k_pids k))\<rparr> else k);
              k = (case th of None \<Rightarrow> k | Some x \<Rightarrow> free_kstack (thr (k_sched k) x) k);
              k = (case th of None \<Rightarrow> k
                   | Some x \<Rightarrow> k\<lparr>k_sched := (k_sched k)\<lparr>threads := (threads (k_sched k))(x := None)\<rparr>\<rparr>)
          in k\<lparr>k_tasks := (k_tasks k)(a := None)\<rparr>)"

text \<open>Eight at a time; the list is collected before the first is destroyed.\<close>

definition task_reap_orphans :: "kernel \<Rightarrow> kernel" where
  "task_reap_orphans k =
     fold task_destroy
       (take 8 (filter (\<lambda>a. is_zombie (tsk k a) \<and> parent_pid (tsk k a) = 0 \<and> t_pid (tsk k a) \<noteq> 0) (k_list k))) k"

section \<open>Joining\<close>

text \<open>
  \<open>task_join\<close> up to the switch: a result with the exit code it stores, or the state in which the next
  thread runs. The waiter \<open>w\<close> is in the caller's frame. The second look at the target is one with the
  first here.
\<close>

definition task_join :: "nat \<Rightarrow> nat \<Rightarrow> kernel \<Rightarrow> (int \<times> int option \<times> kernel) + (kernel \<times> switch) option" where
  "task_join target w k =
     (case (self_task k, g_current (k_sched k)) of
        (Some self, Some cur) \<Rightarrow>
          if target = t_pid (tsk k self) then Inl (OB_EINVAL, None, k)
          else (case find_task k target of
              None \<Rightarrow> Inl (OB_ENOENT, Some 0, k)
            | Some a \<Rightarrow>
                if is_zombie (tsk k a) then Inl (0, Some (exit_code (tsk k a)), task_destroy a k)
                else if join_waiter (tsk k a) \<noteq> None then Inl (OB_EAGAIN, None, k)
                else
                  let x = \<lparr>w_th = Some cur, w_uaddr = of_nat a, w_pid = t_pid (tsk k self), wake_deadline = 0, woken = False\<rparr>;
                      k = k\<lparr>k_futex := (k_futex k)\<lparr>fx_waiters := (fx_waiters (k_futex k))(w \<mapsto> x)\<rparr>\<rparr>;
                      k = upd_task a (\<lambda>t. t\<lparr>join_waiter := Some w\<rparr>) k
                  in Inr (on_sched schedule (k\<lparr>k_sched := set_state THREAD_STATE_BLOCKED (Some cur) (k_sched k)\<rparr>)))
      | _ \<Rightarrow> Inl (OB_EPERM, None, k))"

text \<open>After the switch back; the frame ends with the call.\<close>

definition task_join_finish :: "nat \<Rightarrow> nat \<Rightarrow> kernel \<Rightarrow> int \<times> int option \<times> kernel" where
  "task_join_finish target w k =
     (let woke = woken (wtr (k_futex k) w);
          k = k\<lparr>k_futex := (k_futex k)\<lparr>fx_waiters := (fx_waiters (k_futex k))(w := None)\<rparr>\<rparr>
      in if woke then
           (case find_task k target of
              Some a \<Rightarrow>
                if is_zombie (tsk k a) then (0, Some (exit_code (tsk k a)), task_destroy a k)
                else (OB_ENOENT, Some 0, k)
            | None \<Rightarrow> (OB_ENOENT, Some 0, k))
         else (OB_EAGAIN, Some 0, k))"

end
