(* ===== verification/Sandbox.thy ===== *)
theory Sandbox
  imports Task
begin

text \<open>
  What ends or creates tasks from outside \<open>task.c\<close>: the OOM killer (\<open>oom.c\<close>), the sandbox engine's kill
  (\<open>see.c\<close>), sandboxed processes (\<open>sandbox.c\<close>) and \<open>clone\<close> (\<open>namespace.c\<close>). A call of \<open>task_exit\<close> for the
  running task does not return: its result is the state in which the next thread runs. Messages are left
  out.
\<close>

section \<open>The OOM killer\<close>

definition oom_score :: "task_t \<Rightarrow> nat" where
  "oom_score t = mem_domain_page_count t * 100 div (privilege_level t + 1)"

definition oom_skips :: "task_t \<Rightarrow> bool" where
  "oom_skips t \<longleftrightarrow> t_pid t = 0 \<or> t_pid t \<le> 99 \<or> is_critical t \<or> sandbox_flags t AND 2 \<noteq> 0 \<or>
     privilege_level t \<ge> 9 \<or> pending_kill t"

fun oom_pick_loop :: "kernel \<Rightarrow> nat option \<Rightarrow> nat list \<Rightarrow> nat option" where
  "oom_pick_loop k best [] = best"
| "oom_pick_loop k best (a # as) =
     (let t = tsk k a in
      if oom_skips t then oom_pick_loop k best as
      else case best of
          None \<Rightarrow> oom_pick_loop k (Some a) as
        | Some b \<Rightarrow>
            if oom_score t > oom_score (tsk k b) then oom_pick_loop k (Some a) as
            else if oom_score t = oom_score (tsk k b) \<and> t_pid t > t_pid (tsk k b) then oom_pick_loop k (Some a) as
            else oom_pick_loop k best as)"

definition oom_pick_victim :: "kernel \<Rightarrow> nat option" where
  "oom_pick_victim k = oom_pick_loop k None (k_list k)"

definition oom_mark_victim :: "kernel \<Rightarrow> int \<times> kernel" where
  "oom_mark_victim k =
     (case oom_pick_victim k of
        None \<Rightarrow> (-1, k)
      | Some v \<Rightarrow> (0, upd_task v (\<lambda>t. t\<lparr>pending_kill := True, exit_code := -9\<rparr>) k))"

text \<open>A victim that is not running: off the run queue, a zombie, its joiner woken, user memory and files freed.\<close>

definition reap_victim :: "nat \<Rightarrow> kernel \<Rightarrow> kernel" where
  "reap_victim a k =
     (let k = (case t_thread (tsk k a) of
                 None \<Rightarrow> k
               | Some th \<Rightarrow> k\<lparr>k_sched := snd (sched_remove_from_queue (Some th) (k_sched k))\<rparr>);
          jw = join_waiter (tsk k a);
          k = upd_task a (\<lambda>t. t\<lparr>is_zombie := True, join_waiter := None\<rparr>) k;
          k = wake_joiner jw k
      in case teardown_user (tsk k a) k of (t, k) \<Rightarrow>
         case task_18d_cleanup t k of (t, k) \<Rightarrow> put_task a (t\<lparr>pending_kill := False\<rparr>) k)"

text \<open>
  The result is the number of victims, or the switch of \<open>task_exit\<close> when the running task is one: then
  those behind it in the list wait for the next tick.
\<close>

fun reap_loop :: "nat list \<Rightarrow> kernel \<Rightarrow> kernel + (kernel \<times> switch) option" where
  "reap_loop [] k = Inl k"
| "reap_loop (a # as) k =
     (if self_task k = Some a then Inr (task_exit (exit_code (tsk k a)) k) else reap_loop as (reap_victim a k))"

definition oom_tick_reap :: "kernel \<Rightarrow> (nat \<times> kernel) + (kernel \<times> switch) option" where
  "oom_tick_reap k =
     (let vs = take 8 (filter (\<lambda>a. pending_kill (tsk k a) \<and> t_pid (tsk k a) > 99 \<and> \<not> is_critical (tsk k a)) (k_list k))
      in case reap_loop vs k of Inl k \<Rightarrow> Inl (length vs, k) | Inr r \<Rightarrow> Inr r)"

section \<open>Killing a sandbox\<close>

definition may_kill :: "task_t option \<Rightarrow> nat option \<Rightarrow> nat \<Rightarrow> task_t \<Rightarrow> bool" where
  "may_kill caller ca ta target \<longleftrightarrow>
     (case caller of
        None \<Rightarrow> True
      | Some c \<Rightarrow> ca = Some ta \<or> privilege_level c \<ge> 7 \<or> t_pid c = parent_pid target)"

definition see_kill_sandbox :: "nat option \<Rightarrow> nat option \<Rightarrow> kernel \<Rightarrow> (int \<times> kernel) + (kernel \<times> switch) option" where
  "see_kill_sandbox caller target k =
     (case target of
        None \<Rightarrow> Inl (OB_EINVAL, k)
      | Some a \<Rightarrow>
          if sandbox_flags (tsk k a) AND OBSANDBOX_ACTIVE = 0 then Inl (OB_EINVAL, k)
          else if \<not> may_kill (map_option (tsk k) caller) caller a (tsk k a) then
            Inl (OB_EPERM, k\<lparr>k_audit := k_audit k @
              [PidViolation (case caller of Some c \<Rightarrow> t_pid (tsk k c) | None \<Rightarrow> 0) (t_pid (tsk k a))]\<rparr>)
          else
            (case release_sandbox (tsk k a) k of (t, k) \<Rightarrow>
               let k = put_task a (t\<lparr>pending_kill := True, exit_code := OB_EPERM\<rparr>) k;
                   k = k\<lparr>k_see := (k_see k)\<lparr>g_kill_count := g_kill_count (k_see k) + 1\<rparr>\<rparr>
               in if self_task k = Some a then Inr (task_exit OB_EPERM k) else Inl (0, k)))"

definition sandbox_kill :: "nat option \<Rightarrow> nat \<Rightarrow> kernel \<Rightarrow> (int \<times> kernel) + (kernel \<times> switch) option" where
  "sandbox_kill caller pid k =
     (case find_task k pid of
        None \<Rightarrow> Inl (OB_ENOENT, k)
      | Some a \<Rightarrow>
          if sandbox_flags (tsk k a) AND OBSANDBOX_ACTIVE = 0 then Inl (OB_EINVAL, k)
          else if \<not> may_kill (map_option (tsk k) caller) caller a (tsk k a) then
            Inl (OB_EPERM, k\<lparr>k_audit := k_audit k @
              [PidViolation (case caller of Some c \<Rightarrow> t_pid (tsk k c) | None \<Rightarrow> 0) (t_pid (tsk k a))]\<rparr>)
          else see_kill_sandbox caller (Some a) k)"

section \<open>Sandboxed processes\<close>

text \<open>The failure paths clear the flag first, so that \<open>task_destroy\<close> does not run the sandbox's clean-up.\<close>

definition sandbox_undo :: "nat option \<Rightarrow> nat \<Rightarrow> kernel \<Rightarrow> kernel" where
  "sandbox_undo inst a k =
     task_destroy a (upd_task a (\<lambda>t. t\<lparr>sandbox_flags := 0, syscall_table_ptr := (if inst = None then syscall_table_ptr t else None)\<rparr>)
       (k\<lparr>k_see := see_destroy_instance inst (k_see k)\<rparr>))"

definition sandbox_create_process :: "nat option \<Rightarrow> nat \<Rightarrow> u8 list option \<Rightarrow> kernel \<Rightarrow> nat option \<times> kernel" where
  "sandbox_create_process parent level rnd k =
     (case parent of
        None \<Rightarrow> (None, k)
      | Some par \<Rightarrow>
          if privilege_level (tsk k par) = 0 then (None, k)
          else
            let level = (if level = 9 then 6 else level);
                p = privilege_level (tsk k par);
                p = (if level < p then level else p)
            in case task_create rnd (Some ''sandbox'') True (Some par) 0 p OBSANDBOX_ACTIVE False k of
                 (None, k) \<Rightarrow> (None, k)
               | (Some a, k) \<Rightarrow>
                   let k = upd_task a (\<lambda>t. t\<lparr>sandbox_flags := OBSANDBOX_ACTIVE, is_critical := False, pending_kill := False\<rparr>) k
                   in case see_create_instance (t_pid (tsk k a)) (ucast OBSANDBOX_ACTIVE) (k_see k) of
                        (rc, inst, se) \<Rightarrow>
                          let k = k\<lparr>k_see := se\<rparr> in
                          if rc \<noteq> 0 then (None, sandbox_undo None a k)
                          else case see_install_default_policy inst (k_see k) of
                            (rc, se) \<Rightarrow>
                              let k = k\<lparr>k_see := se\<rparr> in
                              if rc \<noteq> 0 then (None, sandbox_undo inst a k)
                              else
                                let k = upd_task a (\<lambda>t. t\<lparr>syscall_table_ptr := inst\<rparr>) k
                                in case sandbox_setup_fs (tsk k a) (k_fs k) of
                                     (rc, t, s) \<Rightarrow>
                                       let k = put_task a t (k\<lparr>k_fs := s\<rparr>) in
                                       if rc \<noteq> 0 then (None, sandbox_undo inst a k) else (Some a, k))"

section \<open>Clone\<close>

text \<open>
  \<open>task_create\<close> queues the thread of the child before its name spaces and its memory are set up; the
  failure paths destroy the task.
\<close>

definition namespace_clone_child :: "nat option \<Rightarrow> u64 \<Rightarrow> u8 list option \<Rightarrow> kernel \<Rightarrow> int \<times> kernel" where
  "namespace_clone_child cur flags rnd k =
     (case cur of
        None \<Rightarrow> (-1, k)
      | Some a \<Rightarrow>
          if privilege_level (tsk k a) < 2 then (-1, k)
          else case task_create rnd (Some ''clone-child'') True (Some a) 0 (privilege_level (tsk k a)) 0 False k of
              (None, k) \<Rightarrow> (OB_EAGAIN, k)
            | (Some c, k) \<Rightarrow>
                (case namespace_fork (Some (tsk k a)) (Some (tsk k c)) flags (k_ns k) of
                   (rc, to, n) \<Rightarrow>
                     let k = put_task c (case to of Some t \<Rightarrow> t | None \<Rightarrow> tsk k c) (k\<lparr>k_ns := n\<rparr>) in
                     if rc \<noteq> 0 then (rc, task_destroy c k)
                     else if user_ctx (tsk k a) = None then (int (t_pid (tsk k c)), k)
                     else if flags AND CLONE_VM \<noteq> 0 then
                       let k = upd_task c (\<lambda>t. t\<lparr>user_ctx := user_ctx (tsk k a)\<rparr>) k in (int (t_pid (tsk k c)), k)
                     else case user_fork_address_space (Some (tsk k a)) (Some (tsk k c)) (k_mem k) of
                       (rc, to, m) \<Rightarrow>
                         let k = put_task c (case to of Some t \<Rightarrow> t | None \<Rightarrow> tsk k c) (k\<lparr>k_mem := m\<rparr>) in
                         if rc \<noteq> 0 then (rc, task_destroy c k) else (int (t_pid (tsk k c)), k)))"

end
