(* ===== verification/TaskCorrect.thy ===== *)
theory TaskCorrect
  imports Sandbox SchedProps
begin

text \<open>
  What the parts of the task functions leave alone: the identity of a task and its place in the table
  (\<open>core\<close>), the table, the PIDs, the scheduler and the futexes (\<open>frame\<close>).
\<close>

section \<open>The core of a task, the frame of the kernel\<close>

definition core :: "task_t \<Rightarrow> nat \<times> nat \<times> nat \<times> nat \<times> nat \<times> nat list \<times> nat option \<times> bool \<times> int \<times> bool" where
  "core t = (t_pid t, parent_pid t, privilege_level t, child_process_limit t, children_count t, children t, t_thread t,
     is_zombie t, exit_code t, is_critical t)"

definition frame :: "kernel \<Rightarrow> pid_state \<times> kheap \<times> sched_state \<times> futex_state \<times> (nat \<Rightarrow> task_t option) \<times> nat list \<times> u64" where
  "frame k = (k_pids k, k_heap k, k_sched k, k_futex k, k_tasks k, k_list k, k_count k)"

text \<open>A step on a task and the kernel that respects both.\<close>

definition quiet :: "(task_t \<Rightarrow> kernel \<Rightarrow> task_t \<times> kernel) \<Rightarrow> bool" where
  "quiet f \<longleftrightarrow> (\<forall>t k. core (fst (f t k)) = core t \<and> frame (snd (f t k)) = frame k)"

lemma quietI: "(\<And>t k t' k'. f t k = (t', k') \<Longrightarrow> core t' = core t \<and> frame k' = frame k) \<Longrightarrow> quiet f"
  unfolding quiet_def by (metis prod.collapse)

lemma quietD: "quiet f \<Longrightarrow> f t k = (t', k') \<Longrightarrow> core t' = core t \<and> frame k' = frame k"
  unfolding quiet_def by (metis fst_conv snd_conv)

lemma frame_simps [simp]:
  "frame (k\<lparr>k_fs := a\<rparr>) = frame k" "frame (k\<lparr>k_mem := m\<rparr>) = frame k" "frame (k\<lparr>k_shm := s\<rparr>) = frame k"
  "frame (k\<lparr>k_ns := n\<rparr>) = frame k" "frame (k\<lparr>k_see := e\<rparr>) = frame k" "frame (k\<lparr>k_files := f\<rparr>) = frame k"
  "frame (k\<lparr>k_htabs := h\<rparr>) = frame k" "frame (k\<lparr>k_audit := au\<rparr>) = frame k"
  by (simp_all add: frame_def)

lemma core_simps [simp]:
  "core (t\<lparr>htab := h\<rparr>) = core t" "core (t\<lparr>compat_region := r\<rparr>) = core t" "core (t\<lparr>priv_iso_ready := b\<rparr>) = core t"
  "core (t\<lparr>syscall_table_ptr := p\<rparr>) = core t" "core (t\<lparr>sandbox_flags := f\<rparr>) = core t" "core (t\<lparr>fd_table := l\<rparr>) = core t"
  "core (t\<lparr>shm_list := sl\<rparr>) = core t" "core (t\<lparr>priv0_sb_ptr := sb\<rparr>) = core t" "core (t\<lparr>priv1_dir_path := d\<rparr>) = core t"
  "core (t\<lparr>sandbox_sb_ptr := sb\<rparr>) = core t" "core (t\<lparr>sandbox_dir_path := d\<rparr>) = core t" "core (t\<lparr>user_ctx := u\<rparr>) = core t"
  "core (t\<lparr>mem_pages_used := n\<rparr>) = core t" "core (t\<lparr>mem_domain_pages := mp\<rparr>) = core t"
  "core (t\<lparr>mem_domain_page_count := n\<rparr>) = core t" "core (t\<lparr>mem_domain := md\<rparr>) = core t" "core (t\<lparr>isolation_mode := n\<rparr>) = core t"
  "core (t\<lparr>security_token := st\<rparr>) = core t" "core (t\<lparr>t_pidns := o1\<rparr>) = core t" "core (t\<lparr>t_mntns := o1\<rparr>) = core t"
  "core (t\<lparr>t_ipcns := o1\<rparr>) = core t" "core (t\<lparr>compat_type := n\<rparr>) = core t" "core (t\<lparr>pending_kill := b\<rparr>) = core t"
  by (simp_all add: core_def)

lemma core_fst_fold:
  assumes "\<And>x tv. x \<in> set xs \<Longrightarrow> core (fst (f x tv)) = core (fst tv)"
  shows "core (fst (fold f xs tv)) = core (fst tv)"
  using assms by (induction xs arbitrary: tv) auto

section \<open>User memory\<close>

lemma core_free_user_pte: "core (fst (free_user_pte pt i tv)) = core (fst tv)"
  by (cases tv) (simp add: free_user_pte_def Let_def)

lemma core_free_user_pages: "core (fst (free_user_pages pml4 tv)) = core (fst tv)"
proof -
  have pde: "core (fst (free_user_pde pd i tv)) = core (fst tv)" for pd i tv
    by (simp add: free_user_pde_def Let_def core_fst_fold core_free_user_pte)
  have pdpte: "core (fst (free_user_pdpte pd i tv)) = core (fst tv)" for pd i tv
    by (simp add: free_user_pdpte_def Let_def core_fst_fold pde)
  have "core (fst (free_user_pml4e pd i tv)) = core (fst tv)" for pd i tv
    by (simp add: free_user_pml4e_def Let_def core_fst_fold pdpte)
  then show ?thesis by (simp add: free_user_pages_def core_fst_fold split: option.split)
qed

lemma core_free_own_page: "core (fst (free_own_page pa tv)) = core (fst tv)"
  by (cases tv) (simp add: free_own_page_def Let_def)

lemma core_free_thread: "core (fst (free_thread_tls pml4 c (free_thread_stack pml4 c tv))) = core (fst tv)"
proof -
  have "core (fst (free_thread_stack pml4 c tv)) = core (fst tv)"
    unfolding free_thread_stack_def by (rule core_fst_fold) (simp add: core_free_own_page)
  then show ?thesis by (simp add: free_thread_tls_def core_free_own_page)
qed

lemma core_ctx_free: "core (fst (ctx_free t m)) = core t"
  by (simp add: ctx_free_def split: option.split)

lemma core_user_teardown: "\<exists>t'. fst (user_teardown (Some t) m) = Some t' \<and> core t' = core t"
proof (cases "user_get_ctx t m")
  case None
  then show ?thesis by (simp add: user_teardown_def)
next
  case (Some c)
  define v where "v = (if vmm_kernel_pml4 (um_vmm m) \<noteq> None \<and> c_pml4 c \<noteq> None \<and> c_pml4 c \<noteq> vmm_kernel_pml4 (um_vmm m)
    then vmm_switch_address_space (vmm_kernel_pml4 (um_vmm m)) (um_vmm m) else um_vmm m)"
  define tv where "tv = (case c_pml4 c of
                       None \<Rightarrow> (t, v)
                     | Some pml4 \<Rightarrow>
                         if c_is_thread c then free_thread_tls pml4 c (free_thread_stack pml4 c (t, v))
                         else case free_user_pages (Some pml4) (t, v) of
                             (t, v) \<Rightarrow> (t, vmm_destroy_address_space (Some pml4) (vmm_free_user_pagetables (Some pml4) v)))"
  have c: "core (fst tv) = core t"
    unfolding tv_def by (auto simp: core_free_thread split: option.split prod.split)
      (metis core_free_user_pages fst_conv)
  have "\<exists>m'. fst (user_teardown (Some t) m) = Some (fst (ctx_free (fst tv) m'))"
    unfolding user_teardown_def Some option.case Let_def v_def [symmetric] tv_def [symmetric]
    by (auto split: prod.split) (metis fst_conv)+
  then show ?thesis using core_ctx_free c by metis
qed

lemma quiet_teardown: "quiet teardown_user"
proof (rule quietI)
  fix t k t' k'
  assume *: "teardown_user t k = (t', k')"
  obtain u m where u: "user_teardown (Some t) (k_mem k) = (Some u, m)" "core u = core t"
    using core_user_teardown [of t "k_mem k"] by (metis prod.collapse)
  show "core t' = core t \<and> frame k' = frame k" using * u by (auto simp: teardown_user_def)
qed

section \<open>The other parts\<close>

lemma quiet_htab: "quiet destroy_htab"
  by (rule quietI) (auto simp: destroy_htab_def Let_def split: option.splits)

lemma quiet_region: "quiet release_region"
  by (rule quietI) (auto simp: release_region_def compat_preload_release_def split: option.splits prod.splits)

lemma quiet_domain: "quiet destroy_domain"
  by (rule quietI) (auto simp: destroy_domain_def mem_domain_destroy_def Let_def split: option.splits prod.splits)

lemma quiet_directory: "quiet release_directory"
  by (rule quietI) (auto simp: release_directory_def priv0_umount_vfs_def priv1_cleanup_tmpdir_def Let_def
      split: if_splits prod.splits sum.splits)

lemma quiet_isolation: "quiet release_isolation"
  by (rule quietI) (auto simp: release_isolation_def split: if_splits prod.splits
      dest!: quietD [OF quiet_directory] quietD [OF quiet_domain])

lemma quiet_cleanup_sandbox: "quiet see_cleanup_sandbox"
  by (rule quietI) (auto simp: see_cleanup_sandbox_def sandbox_cleanup_fs_def split: if_splits prod.splits
      dest!: quietD [OF quiet_isolation])

lemma quiet_sandbox: "quiet release_sandbox"
  by (rule quietI) (auto simp: release_sandbox_def Let_def split: if_splits prod.splits
      dest!: quietD [OF quiet_cleanup_sandbox])

lemma quiet_close_fds: "core (fst (fold close_fd is tk)) = core (fst tk) \<and> frame (snd (fold close_fd is tk)) = frame (snd tk)"
proof (induction "is" arbitrary: tk)
  case (Cons i "is")
  have "core (fst (close_fd i tk)) = core (fst tk) \<and> frame (snd (close_fd i tk)) = frame (snd tk)"
    by (auto simp: close_fd_def split: prod.split option.split)
  then show ?case using Cons.IH [of "close_fd i tk"] by simp
qed simp

lemma quiet_18d_cleanup: "quiet task_18d_cleanup"
proof (rule quietI)
  fix t k t' k'
  assume *: "task_18d_cleanup t k = (t', k')"
  obtain u l where u: "fold close_fd [3..<64] (t, k) = (u, l)" by fastforce
  have "core u = core t \<and> frame l = frame k" using quiet_close_fds [of "[3..<64]" "(t, k)"] u by simp
  then show "core t' = core t \<and> frame k' = frame k"
    using * u by (auto simp: task_18d_cleanup_def shm_release_mappings_def namespace_release_def split: prod.splits)
qed

lemma quiet_release_all: "quiet release_all"
  by (rule quietI) (auto simp: release_all_def split: prod.splits dest!: quietD [OF quiet_teardown] quietD [OF quiet_sandbox]
      quietD [OF quiet_isolation] quietD [OF quiet_region] quietD [OF quiet_htab] quietD [OF quiet_18d_cleanup])

section \<open>The table\<close>

text \<open>
  The blocks that are allocated are exactly those of the chain, the idle task among them; PIDs are
  distinct and taken in the bitmap; the chain of children of a task holds tasks that name it as their
  parent, each once, as many as it counts, and no more than its limit. (A child that has exited has left
  the chain; one that the OOM killer has ended is still on it.)
\<close>

definition children_ok :: "kernel \<Rightarrow> nat \<Rightarrow> bool" where
  "children_ok k a \<longleftrightarrow> distinct (children (tsk k a)) \<and> children_count (tsk k a) = length (children (tsk k a)) \<and>
     (\<forall>c \<in> set (children (tsk k a)). c \<in> set (k_list k) \<and> c \<noteq> a \<and> c \<noteq> bootstrap_task \<and>
        parent_pid (tsk k c) = t_pid (tsk k a))"

definition limits_ok :: "kernel \<Rightarrow> nat \<Rightarrow> bool" where
  "limits_ok k a \<longleftrightarrow> privilege_level (tsk k a) \<le> 9 \<and> children_count (tsk k a) \<le> child_process_limit (tsk k a) \<and>
     (a \<noteq> bootstrap_task \<longrightarrow> child_process_limit (tsk k a) = default_child_limit (privilege_level (tsk k a)))"

definition table_ok :: "kernel \<Rightarrow> bool" where
  "table_ok k \<longleftrightarrow> distinct (k_list k) \<and> dom (k_tasks k) = set (k_list k) \<and> bootstrap_task \<in> set (k_list k) \<and>
     t_pid (tsk k bootstrap_task) = 0 \<and> k_count k = of_nat (length (k_list k)) \<and>
     0 < h_calls (k_heap k) \<and> (\<forall>a \<in> set (k_list k). a < h_calls (k_heap k)) \<and>
     inj_on (\<lambda>a. t_pid (tsk k a)) (set (k_list k)) \<and> 0 \<in> pid_used (k_pids k) \<and>
     (\<forall>a \<in> set (k_list k). t_pid (tsk k a) \<in> pid_used (k_pids k) \<and> t_pid (tsk k a) \<le> 65535) \<and>
     (\<forall>a \<in> set (k_list k). children_ok k a \<and> limits_ok k a)"

text \<open>Only the core of the tasks, their ends apart, and the rest of the frame count.\<close>

definition links :: "task_t \<Rightarrow> nat \<times> nat \<times> nat \<times> nat \<times> nat \<times> nat list \<times> nat option \<times> bool \<times> int \<times> bool" where
  "links t = core (t\<lparr>exit_code := 0, is_zombie := False, is_critical := False\<rparr>)"

definition cores_of :: "kernel \<Rightarrow> nat \<Rightarrow> _" where
  "cores_of k a = map_option links (k_tasks k a)"

lemma core_links: "core t = core u \<Longrightarrow> links t = links u"
  by (simp add: links_def core_def)

lemma core_tsk: "cores_of k' = cores_of k \<Longrightarrow> links (tsk k' a) = links (tsk k a)"
proof -
  assume "cores_of k' = cores_of k"
  then have "map_option links (k_tasks k' a) = map_option links (k_tasks k a)" unfolding cores_of_def by metis
  then show ?thesis by (auto simp: tsk_def split: option.splits)
qed

lemma table_ok_cong:
  assumes "cores_of k' = cores_of k" "k_list k' = k_list k" "k_count k' = k_count k"
    "\<And>p. p = 0 \<or> p \<in> (\<lambda>a. t_pid (tsk k a)) ` set (k_list k) \<Longrightarrow> p \<in> pid_used (k_pids k')"
    "h_calls (k_heap k) \<le> h_calls (k_heap k')" "table_ok k"
  shows "table_ok k'"
proof -
  have "k_tasks k' a = None \<longleftrightarrow> k_tasks k a = None" for a
    using assms(1) unfolding cores_of_def by (metis option.map_disc_iff)
  then have d: "dom (k_tasks k') = dom (k_tasks k)" by (auto simp: dom_def)
  have f: "t_pid (tsk k' a) = t_pid (tsk k a)" "parent_pid (tsk k' a) = parent_pid (tsk k a)"
    "privilege_level (tsk k' a) = privilege_level (tsk k a)" "child_process_limit (tsk k' a) = child_process_limit (tsk k a)"
    "children_count (tsk k' a) = children_count (tsk k a)" "children (tsk k' a) = children (tsk k a)" for a
    using core_tsk [OF assms(1), of a] by (auto simp: links_def core_def)
  have h: "0 < h_calls (k_heap k')" "\<forall>a \<in> set (k_list k). a < h_calls (k_heap k')"
    using assms(5,6) unfolding table_ok_def by auto
  have p: "0 \<in> pid_used (k_pids k')" "\<forall>a \<in> set (k_list k). t_pid (tsk k a) \<in> pid_used (k_pids k') \<and> t_pid (tsk k a) \<le> 65535"
    using assms(4,6) unfolding table_ok_def by blast+
  show ?thesis
    using assms(6) h p unfolding table_ok_def children_ok_def limits_ok_def f d assms(2,3) by argo
qed

lemma table_ok_frame: "frame k' = frame k \<Longrightarrow> table_ok k' \<longleftrightarrow> table_ok k"
  by (simp add: table_ok_def children_ok_def limits_ok_def tsk_def frame_def)

section \<open>Creation\<close>

text \<open>What a step of the creation keeps: the core of the new task, the table, the PIDs.\<close>

definition grows :: "task_t \<Rightarrow> kernel \<Rightarrow> task_t \<Rightarrow> kernel \<Rightarrow> bool" where
  "grows t k t' k' \<longleftrightarrow> core t' = core t \<and> t_name t' = t_name t \<and> k_pids k' = k_pids k \<and> k_tasks k' = k_tasks k \<and>
     k_list k' = k_list k \<and> k_count k' = k_count k \<and> h_calls (k_heap k) \<le> h_calls (k_heap k')"

lemma grows_refl: "grows t k t k"
  by (simp add: grows_def)

lemma grows_trans: "grows t k t' k' \<Longrightarrow> grows t' k' t'' k'' \<Longrightarrow> grows t k t'' k''"
  by (auto simp: grows_def)

lemma kzalloc_obj_calls: "kzalloc_obj h = (r, h') \<Longrightarrow> h_calls h' = Suc (h_calls h) \<and> (r = None \<or> r = Some (h_calls h))"
  by (auto simp: kzalloc_obj_def split: if_splits)

lemma grows_inherit: "compat_preload_inherit t par s = (t', s') \<Longrightarrow> grows t k t' (k\<lparr>k_shm := s'\<rparr>)"
  by (auto simp: compat_preload_inherit_def grows_def core_def split: option.splits)

lemma grows_htab: "inherit_htab par t k = (ok, t', k') \<Longrightarrow> grows t k t' k'"
  by (auto simp: inherit_htab_def grows_def core_def Let_def split: if_splits option.splits prod.splits)

lemma mem_domain_grow_core:
  "mem_domain_grow (Some t) n v = (rc, to, v') \<Longrightarrow> \<exists>t'. to = Some t' \<and> core t' = core t \<and> t_name t' = t_name t"
  by (auto simp: mem_domain_grow_def Let_def split: option.splits if_splits prod.splits)

lemma mem_domain_create_core:
  assumes "mem_domain_create (Some t) (h, v) = (rc, to, h', v')"
  shows "\<exists>t'. to = Some t' \<and> core t' = core t \<and> t_name t' = t_name t \<and> h_calls h \<le> h_calls h'"
  using assms
  by (auto simp: mem_domain_create_def Let_def domain_init_pages_def kernel_defs
      split: option.splits if_splits prod.splits dest!: mem_domain_grow_core kzalloc_obj_calls)

lemma quiet_grows: "quiet f \<Longrightarrow> f t k = (t', k') \<Longrightarrow> t_name t' = t_name t \<Longrightarrow> grows t k t' k'"
  by (drule (1) quietD) (simp add: grows_def frame_def)

lemma destroy_domain_name: "destroy_domain t k = (t', k') \<Longrightarrow> t_name t' = t_name t"
  by (auto simp: destroy_domain_def mem_domain_destroy_def Let_def split: option.splits prod.splits)

lemma grows_isolation:
  assumes "create_isolation rnd t k = (ok, t', k')"
  shows "grows t k t' k'"
proof (cases "privilege_level t = 0 \<or> privilege_level t = 1")
  case False
  then show ?thesis using assms by (auto simp: create_isolation_def grows_refl)
next
  case True
  obtain rc to h v where d: "mem_domain_create (Some t) (k_heap k, um_vmm (k_mem k)) = (rc, to, h, v)"
    by (metis prod_cases4)
  then obtain u where u: "to = Some u" "core u = core t" "t_name u = t_name t" "h_calls (k_heap k) \<le> h_calls h"
    using mem_domain_create_core by blast
  let ?k = "k\<lparr>k_heap := h, k_mem := (k_mem k)\<lparr>um_vmm := v\<rparr>\<rparr>"
  have g: "grows t k u ?k" using u by (simp add: grows_def)
  obtain rc2 w s where m: "(if privilege_level u = 0 then priv0_mount_vfs u (k_fs ?k) else priv1_setup_tmpdir rnd u (k_fs ?k)) =
      (rc2, w, s)" by (metis prod_cases3)
  have w: "core w = core u" "t_name w = t_name u"
    using m by (auto simp: priv0_mount_vfs_def priv1_setup_tmpdir_def Let_def split: if_splits sum.splits prod.splits)
  have g2: "grows t k w (?k\<lparr>k_fs := s\<rparr>)" using g w by (simp add: grows_def)
  obtain w' k2 where dd: "destroy_domain w (?k\<lparr>k_fs := s\<rparr>) = (w', k2)" by fastforce
  have g3: "grows t k w' k2"
    using g2 quiet_grows [OF quiet_domain dd destroy_domain_name [OF dd]] grows_trans by blast
  have g4: "grows t k (w\<lparr>priv_iso_ready := True\<rparr>) (?k\<lparr>k_fs := s\<rparr>)" using g2 by (simp add: grows_def)
  show ?thesis
    using assms True d u(1) m dd g g3 g4 by (auto simp: create_isolation_def Let_def split: if_splits)
qed

lemma thread_create_calls:
  assumes "thread_create nm b pr (h, p, s) = (th, h', p', s')"
  shows "h_calls h \<le> h_calls h' \<and> (\<forall>x. th = Some x \<longrightarrow> x = h_calls h)"
proof -
  obtain r h1 where z: "kzalloc_obj h = (r, h1)" by fastforce
  have "h' = h \<or> h' = h1" "\<forall>x. th = Some x \<longrightarrow> r = Some x"
    using assms unfolding thread_create_def prod.case z Let_def
    by (auto split: if_split_asm option.split_asm prod.split_asm)
  then show ?thesis using kzalloc_obj_calls [OF z] by auto
qed

lemma grows_spawn: "spawn_thread nm p k = (th, k') \<Longrightarrow> grows t k t k'"
  by (auto simp: spawn_thread_def grows_def Let_def split: prod.splits dest!: thread_create_calls)

lemma create_undo_frame:
  "k_tasks (create_undo t k) = k_tasks k \<and> k_list (create_undo t k) = k_list k \<and> k_count (create_undo t k) = k_count k \<and>
   k_heap (create_undo t k) = k_heap k \<and> k_pids (create_undo t k) = snd (free_pid (t_pid t) (k_pids k))"
proof -
  obtain t1 k1 where 1: "destroy_htab t k = (t1, k1)" by fastforce
  obtain t2 k2 where 2: "release_region t1 k1 = (t2, k2)" by fastforce
  have "core t2 = core t" "frame k2 = frame k" using quietD [OF quiet_htab 1] quietD [OF quiet_region 2] by simp_all
  then show ?thesis using 1 2 by (auto simp: create_undo_def core_def frame_def)
qed

lemma create_pid_new:
  assumes "create_pid r b s = (p, s')" "0 \<le> p"
  shows "nat p \<notin> pid_used s \<and> pid_used s' = insert (nat p) (pid_used s) \<and> nat p \<le> 65535"
  using assms pids.alloc_ok [of r s p s'] pids.kernel_ok [of r s p s'] by (auto simp: create_pid_def split: if_splits)

lemma create_pid_fail: "create_pid r b s = (p, s') \<Longrightarrow> p < 0 \<Longrightarrow> s' = s"
  using alloc_pid_result [of r s p s'] by (auto simp: create_pid_def alloc_pid_kernel_result split: if_splits)

lemma inherit_le: "inherit_privilege p \<le> p"
  by (simp add: inherit_privilege_def)

lemma child_privilege_le:
  "child_privilege par r fl \<le> (case par of Some t \<Rightarrow> min r (privilege_level t) | None \<Rightarrow> min r 9)"
proof (cases par)
  case None
  then show ?thesis by (simp add: child_privilege_def kernel_defs Let_def)
next
  case (Some t)
  have "inherit_privilege (privilege_level t) \<le> privilege_level t" by (rule inherit_le)
  then show ?thesis using Some by (simp add: child_privilege_def Let_def)
qed

section \<open>The links of a new task\<close>

text \<open>A block that is not in the table, with a fresh PID, becomes the first child of \<open>par\<close>.\<close>

lemma tsk_upd_task: "k_tasks k b \<noteq> None \<Longrightarrow> tsk (upd_task b f k) x = (if x = b then f (tsk k b) else tsk k x)"
  by (auto simp: tsk_def upd_task_def)

lemma tsk_put_task: "tsk (put_task b t k) x = (if x = b then t else tsk k x)"
  by (simp add: tsk_def put_task_def)

lemma k_upd_task [simp]:
  "k_list (upd_task b f k) = k_list k" "k_count (upd_task b f k) = k_count k" "k_heap (upd_task b f k) = k_heap k"
  "k_pids (upd_task b f k) = k_pids k" "k_sched (upd_task b f k) = k_sched k" "k_futex (upd_task b f k) = k_futex k"
  by (simp_all add: upd_task_def)

lemma k_put_task [simp]:
  "k_list (put_task b t k) = k_list k" "k_count (put_task b t k) = k_count k" "k_heap (put_task b t k) = k_heap k"
  "k_pids (put_task b t k) = k_pids k" "k_sched (put_task b t k) = k_sched k" "k_futex (put_task b t k) = k_futex k"
  by (simp_all add: put_task_def)

lemma dom_upd_task [simp]: "dom (k_tasks (upd_task b f k)) = dom (k_tasks k)"
  by (auto simp: upd_task_def)

lemma dom_put_task [simp]: "dom (k_tasks (put_task b t k)) = insert b (dom (k_tasks k))"
  by (auto simp: put_task_def)

text \<open>The table of \<open>k\<close> without the PID of the new task, which is already taken in \<open>k\<close>.\<close>

lemma table_ok_link:
  assumes ok: "table_ok k" and par: "par \<in> set (k_list k)" and a: "a \<notin> set (k_list k)" "a < h_calls (k_heap k)" "a \<noteq> bootstrap_task"
    and t: "t_pid t \<in> pid_used (k_pids k) \<and> t_pid t \<le> 65535" "t_pid t \<notin> (\<lambda>x. t_pid (tsk k x)) ` set (k_list k)" "parent_pid t = t_pid (tsk k par)"
      "children t = []" "children_count t = 0" "privilege_level t \<le> 9"
      "child_process_limit t = default_child_limit (privilege_level t)"
    and room: "children_count (tsk k par) < child_process_limit (tsk k par)"
  shows "table_ok (link_task a t th par k)"
proof -
  let ?k = "link_task a t th par k"
  have ne: "a \<noteq> par" using par a(1) by blast
  have T: "tsk ?k x = (if x = a then t\<lparr>t_thread := Some th\<rparr>
      else if x = par then (tsk k par)\<lparr>children := a # children (tsk k par), children_count := children_count (tsk k par) + 1\<rparr>
      else tsk k x)" for x
  proof -
    have "k_tasks k par \<noteq> None" using ok par unfolding table_ok_def by blast
    then show ?thesis using ne by (auto simp: link_task_def Let_def upd_task_def put_task_def tsk_def)
  qed
  have L: "k_list ?k = a # k_list k" "k_count ?k = k_count k + 1" "k_heap ?k = k_heap k" "k_pids ?k = k_pids k"
    by (simp_all add: link_task_def Let_def)
  have D: "dom (k_tasks ?k) = insert a (dom (k_tasks k))"
    using ok par unfolding table_ok_def by (auto simp: link_task_def Let_def put_task_def)
  have pid: "t_pid (tsk ?k x) = (if x = a then t_pid t else t_pid (tsk k x))" for x by (simp add: T)
  have kids: "children_ok k x" if "x \<in> set (k_list k)" for x using ok that unfolding table_ok_def by blast
  have "children_ok ?k x \<and> limits_ok ?k x" if x: "x \<in> set (k_list ?k)" for x
  proof (cases "x = a")
    case True
    then show ?thesis using t a(3) by (simp add: children_ok_def limits_ok_def T)
  next
    case False
    then have xl: "x \<in> set (k_list k)" using x L by simp
    have na: "c \<noteq> a" if "c \<in> set (children (tsk k x))" for c
      using kids [OF xl] a(1) that by (auto simp: children_ok_def)
    have same: "parent_pid (tsk ?k c) = parent_pid (tsk k c)" if "c \<noteq> a" for c
      using that by (simp add: T)
    have K: "distinct (children (tsk k x))" "children_count (tsk k x) = length (children (tsk k x))"
      "\<And>c. c \<in> set (children (tsk k x)) \<Longrightarrow> c \<in> set (k_list k) \<and> c \<noteq> x \<and> c \<noteq> bootstrap_task \<and>
        parent_pid (tsk k c) = t_pid (tsk k x)"
      using kids [OF xl] by (auto simp: children_ok_def)
    have old: "c \<in> set (k_list ?k) \<and> c \<noteq> x \<and> c \<noteq> bootstrap_task \<and> parent_pid (tsk ?k c) = t_pid (tsk ?k x)" if "c \<in> set (children (tsk k x))" for c
      using K(3) [OF that] same [OF na [OF that]] False pid L(1) by simp
    have new: "a \<in> set (k_list ?k) \<and> a \<noteq> x \<and> a \<noteq> bootstrap_task" "parent_pid (tsk ?k a) = t_pid (tsk k par)"
      using a(3) False t(3) L(1) by (simp_all add: T)
    have lim: "limits_ok k x" using ok xl unfolding table_ok_def by blast
    have ch: "children (tsk ?k x) = (if x = par then a # children (tsk k x) else children (tsk k x))"
      "children_count (tsk ?k x) = (if x = par then children_count (tsk k x) + 1 else children_count (tsk k x))"
      "privilege_level (tsk ?k x) = privilege_level (tsk k x)" "child_process_limit (tsk ?k x) = child_process_limit (tsk k x)"
      using False by (simp_all add: T)
    have "distinct (children (tsk ?k x))" "children_count (tsk ?k x) = length (children (tsk ?k x))"
      using K(1,2) na by (simp_all add: ch) (blast, metis)
    moreover have "\<forall>c \<in> set (children (tsk ?k x)). c \<in> set (k_list ?k) \<and> c \<noteq> x \<and> c \<noteq> bootstrap_task \<and>
        parent_pid (tsk ?k c) = t_pid (tsk ?k x)"
    proof
      fix c
      assume "c \<in> set (children (tsk ?k x))"
      then consider "c \<in> set (children (tsk k x))" | "x = par" "c = a" by (auto simp: ch split: if_splits)
      then show "c \<in> set (k_list ?k) \<and> c \<noteq> x \<and> c \<noteq> bootstrap_task \<and> parent_pid (tsk ?k c) = t_pid (tsk ?k x)"
      proof cases
        case 1
        then show ?thesis by (rule old)
      next
        case 2
        then show ?thesis using new pid [of x] False by simp
      qed
    qed
    ultimately have "children_ok ?k x" unfolding children_ok_def by blast
    moreover have "limits_ok ?k x" using lim room by (simp add: limits_ok_def ch)
    ultimately show ?thesis by blast
  qed
  then have C: "\<forall>x \<in> set (k_list ?k). children_ok ?k x \<and> limits_ok ?k x" by blast
  have B: "distinct (k_list k)" "dom (k_tasks k) = set (k_list k)" "bootstrap_task \<in> set (k_list k)"
    "t_pid (tsk k bootstrap_task) = 0" "k_count k = of_nat (length (k_list k))" "0 < h_calls (k_heap k)"
    "\<forall>a \<in> set (k_list k). a < h_calls (k_heap k)" "0 \<in> pid_used (k_pids k)" "\<forall>a \<in> set (k_list k). t_pid (tsk k a) \<in> pid_used (k_pids k) \<and> t_pid (tsk k a) \<le> 65535"
    "inj_on (\<lambda>a. t_pid (tsk k a)) (set (k_list k))"
    using ok unfolding table_ok_def by blast+
  have I: "inj_on (\<lambda>x. t_pid (tsk ?k x)) (set (k_list ?k))"
  proof (rule inj_onI)
    fix x y
    assume "x \<in> set (k_list ?k)" "y \<in> set (k_list ?k)" "t_pid (tsk ?k x) = t_pid (tsk ?k y)"
    then show "x = y" using inj_onD [OF B(10), of x y] t(2) by (auto simp: pid L image_iff split: if_splits)
  qed
  have P: "\<forall>x \<in> set (k_list ?k). t_pid (tsk ?k x) \<in> pid_used (k_pids ?k) \<and> t_pid (tsk ?k x) \<le> 65535"
    using B(9) t(1) by (simp add: pid L)
  have H: "\<forall>x \<in> set (k_list ?k). x < h_calls (k_heap ?k)" "dom (k_tasks ?k) = set (k_list ?k)" "distinct (k_list ?k)"
    "k_count ?k = of_nat (length (k_list ?k))"
    using B(1,2,5,7) a by (simp_all add: L D)
  have Z: "t_pid (tsk ?k bootstrap_task) = 0" "bootstrap_task \<in> set (k_list ?k)" "0 < h_calls (k_heap ?k)" "0 \<in> pid_used (k_pids ?k)"
    using B(3,4,6,8) a(3) by (simp_all add: L pid)
  show ?thesis unfolding table_ok_def using C I P H Z by blast
qed

end
