(* ===== verification/TaskProps.thy ===== *)
theory TaskProps
  imports TaskCorrect
begin

text \<open>
  Every operation on tasks keeps the task table: how a task leaves its parent, what creation can end in,
  and the step relation of the operations.
\<close>

section \<open>Leaving the parent\<close>

definition retired :: "kernel \<Rightarrow> nat \<Rightarrow> nat \<Rightarrow> task_t" where
  "retired k a x =
     (if a \<in> set (children (tsk k x)) then
        (tsk k x)\<lparr>children := remove1 a (children (tsk k x)), children_count := children_count (tsk k x) - 1\<rparr>
      else tsk k x)"

lemma table_okD:
  assumes "table_ok k"
  shows "distinct (k_list k)" "dom (k_tasks k) = set (k_list k)" "bootstrap_task \<in> set (k_list k)"
    "t_pid (tsk k bootstrap_task) = 0" "k_count k = of_nat (length (k_list k))" "0 < h_calls (k_heap k)"
    "\<And>a. a \<in> set (k_list k) \<Longrightarrow> a < h_calls (k_heap k)" "0 \<in> pid_used (k_pids k)"
    "\<And>a. a \<in> set (k_list k) \<Longrightarrow> t_pid (tsk k a) \<in> pid_used (k_pids k)"
    "inj_on (\<lambda>a. t_pid (tsk k a)) (set (k_list k))" "\<And>a. a \<in> set (k_list k) \<Longrightarrow> children_ok k a \<and> limits_ok k a"
    "\<And>a. a \<in> set (k_list k) \<Longrightarrow> t_pid (tsk k a) \<le> 65535"
  using assms unfolding table_ok_def by blast+

lemma not_listed: "table_ok k \<Longrightarrow> x \<notin> set (k_list k) \<Longrightarrow> tsk k x = zero_task"
  using table_okD(2) [of k] by (auto simp: tsk_def dom_def split: option.split)

lemma child_listed:
  assumes "table_ok k" "a \<in> set (children (tsk k x))"
  shows "x \<in> set (k_list k)" "a \<in> set (k_list k)" "a \<noteq> x" "a \<noteq> bootstrap_task" "parent_pid (tsk k a) = t_pid (tsk k x)"
proof -
  show x: "x \<in> set (k_list k)"
    using not_listed [OF assms(1)] assms(2) by (cases "x \<in> set (k_list k)") (auto simp: zero_task_def)
  show "a \<in> set (k_list k)" "a \<noteq> x" "a \<noteq> bootstrap_task" "parent_pid (tsk k a) = t_pid (tsk k x)"
    using table_okD(11) [OF assms(1) x] assms(2) by (auto simp: children_ok_def)
qed

lemma find_task_Some: "find_task k pid = Some a \<Longrightarrow> a \<in> set (k_list k) \<and> t_pid (tsk k a) = pid"
  unfolding find_task_def find_Some_iff by (auto simp: nth_mem)

lemma find_task_pid:
  assumes "table_ok k" "x \<in> set (k_list k)"
  shows "find_task k (t_pid (tsk k x)) = Some x"
proof -
  have "find_task k (t_pid (tsk k x)) \<noteq> None" using assms(2) unfolding find_task_def find_None_iff by blast
  then obtain y where y: "find_task k (t_pid (tsk k x)) = Some y" by blast
  have "y = x" using inj_onD [OF table_okD(10) [OF assms(1)], of y x] find_task_Some [OF y] assms(2) by blast
  then show ?thesis using y by simp
qed

lemma tsk_unlink:
  assumes ok: "table_ok k"
  shows "tsk (unlink_from_parent a k) x = retired k a x"
proof (cases "\<exists>p. a \<in> set (children (tsk k p))")
  case True
  then obtain p where p: "a \<in> set (children (tsk k p))" by blast
  note C = child_listed [OF ok p]
  have f: "find_task k (parent_pid (tsk k a)) = Some p" using find_task_pid [OF ok C(1)] C(5) by simp
  have only: "y = p" if "a \<in> set (children (tsk k y))" for y
    using child_listed [OF ok that] C(1,5) inj_onD [OF table_okD(10) [OF ok], of y p] by simp
  have "k_tasks k p \<noteq> None" using C(1) table_okD(2) [OF ok] by blast
  moreover have "children_count (tsk k p) > 0"
    using table_okD(11) [OF ok C(1)] p by (auto simp: children_ok_def)
  moreover have "unlink_from_parent a k = upd_task p (\<lambda>p. p\<lparr>children := remove1 a (children p),
      children_count := (if children_count p > 0 then children_count p - 1 else children_count p)\<rparr>) k"
    unfolding unlink_from_parent_def f option.case using p C(3) by presburger
  ultimately have T: "tsk (unlink_from_parent a k) x = (if x = p then (tsk k p)\<lparr>children := remove1 a (children (tsk k p)),
      children_count := children_count (tsk k p) - 1\<rparr> else tsk k x)"
    by (simp add: tsk_upd_task)
  show ?thesis
  proof (cases "x = p")
    case True
    then show ?thesis unfolding T retired_def using p by (simp only: if_True simp_thms)
  next
    case False
    then have "a \<notin> set (children (tsk k x))" using only by blast
    then show ?thesis unfolding T retired_def using False by (simp only: if_False)
  qed
next
  case False
  then show ?thesis by (simp add: unlink_from_parent_def retired_def split: option.split)
qed

lemma unlink_frame [simp]:
  "k_list (unlink_from_parent a k) = k_list k" "k_count (unlink_from_parent a k) = k_count k"
  "k_heap (unlink_from_parent a k) = k_heap k" "k_pids (unlink_from_parent a k) = k_pids k"
  "k_sched (unlink_from_parent a k) = k_sched k" "k_futex (unlink_from_parent a k) = k_futex k"
  "dom (k_tasks (unlink_from_parent a k)) = dom (k_tasks k)"
  by (simp_all add: unlink_from_parent_def split: option.split)

lemma retired_simps [simp]:
  "t_pid (retired k a x) = t_pid (tsk k x)" "parent_pid (retired k a x) = parent_pid (tsk k x)"
  "privilege_level (retired k a x) = privilege_level (tsk k x)"
  "child_process_limit (retired k a x) = child_process_limit (tsk k x)"
  "is_zombie (retired k a x) = is_zombie (tsk k x)"
  by (simp_all add: retired_def)

text \<open>
  The table after \<open>a\<close> has left its parent: with \<open>a\<close> kept as a zombie (\<open>ls\<close> the old chain), or gone
  (\<open>ls\<close> without it). Of the tasks that stay only the cores are given.
\<close>

lemma table_ok_retire:
  assumes ok: "table_ok k" and ls: "ls = k_list k \<or> ls = remove1 a (k_list k) \<and> a \<noteq> bootstrap_task"
    and k': "k_list k' = ls" "dom (k_tasks k') = set ls" "k_count k' = of_nat (length ls)" "h_calls (k_heap k) \<le> h_calls (k_heap k')"
    and keep: "\<And>x. x \<in> set ls \<Longrightarrow> x \<noteq> a \<Longrightarrow> links (tsk k' x) = links (retired k a x)"
    and self: "a \<in> set ls \<Longrightarrow> links (tsk k' a) = links ((tsk k a)\<lparr>is_zombie := True\<rparr>)"
    and used: "\<And>x. x \<in> set ls \<Longrightarrow> t_pid (tsk k x) \<in> pid_used (k_pids k')" "0 \<in> pid_used (k_pids k')"
  shows "table_ok k'"
proof -
  note D = table_okD [OF ok]
  have sub: "set ls \<subseteq> set (k_list k)" "distinct ls" "bootstrap_task \<in> set ls"
    using ls D(1,3) by (auto simp: set_remove1_eq)
  have F: "t_pid (tsk k' x) = t_pid (tsk k x)" "parent_pid (tsk k' x) = parent_pid (tsk k x)"
    "privilege_level (tsk k' x) = privilege_level (tsk k x)" "child_process_limit (tsk k' x) = child_process_limit (tsk k x)"
    "children (tsk k' x) = remove1 a (children (tsk k x))"
    "children_count (tsk k' x) = (if a \<in> set (children (tsk k x)) then children_count (tsk k x) - 1 else children_count (tsk k x))"
    if "x \<in> set ls" for x
  proof -
    have "x = a \<Longrightarrow> a \<notin> set (children (tsk k x))" using child_listed [OF ok, of a x] by blast
    then show "t_pid (tsk k' x) = t_pid (tsk k x)" "parent_pid (tsk k' x) = parent_pid (tsk k x)"
      "privilege_level (tsk k' x) = privilege_level (tsk k x)" "child_process_limit (tsk k' x) = child_process_limit (tsk k x)"
        "children (tsk k' x) = remove1 a (children (tsk k x))"
      "children_count (tsk k' x) = (if a \<in> set (children (tsk k x)) then children_count (tsk k x) - 1 else children_count (tsk k x))"
      using keep [OF that] self that by (cases "x = a"; auto simp: links_def core_def retired_def remove1_idem split: if_splits)+
  qed
  have "children_ok k' x \<and> limits_ok k' x" if x: "x \<in> set ls" for x
  proof -
    have xl: "x \<in> set (k_list k)" using x sub(1) by blast
    have K: "distinct (children (tsk k x))" "children_count (tsk k x) = length (children (tsk k x))"
      using D(11) [OF xl] by (auto simp: children_ok_def)
    have kid: "c \<in> set ls \<and> c \<noteq> a" if "c \<in> set (remove1 a (children (tsk k x)))" for c
    proof -
      have c: "c \<in> set (children (tsk k x))" "c \<noteq> a" using that K(1) by (auto simp: set_remove1_eq)
      then show ?thesis using child_listed(2) [OF ok c(1)] ls D(1) by (auto simp: set_remove1_eq)
    qed
    have "c \<in> set (k_list k') \<and> c \<noteq> x \<and> c \<noteq> bootstrap_task \<and> parent_pid (tsk k' c) = t_pid (tsk k' x)"
      if "c \<in> set (remove1 a (children (tsk k x)))" for c
    proof -
      have c: "c \<in> set (children (tsk k x))" using that by (meson notin_set_remove1)
      show ?thesis using child_listed [OF ok c] kid [OF that] F(2) [of c] F(1) [OF x] k'(1) by simp
    qed
    moreover have "children_count (tsk k' x) = length (children (tsk k' x))" "distinct (children (tsk k' x))"
      using K by (simp_all add: F [OF x] length_remove1)
    moreover have "limits_ok k' x"
      using D(11) [OF xl] by (auto simp: limits_ok_def F [OF x])
    ultimately show ?thesis by (simp add: children_ok_def F(5) [OF x])
  qed
  moreover have "inj_on (\<lambda>x. t_pid (tsk k' x)) (set ls)"
    using D(10) sub(1) F(1) by (metis (mono_tags, lifting) inj_on_cong inj_on_subset)
  moreover have "\<forall>x \<in> set ls. x < h_calls (k_heap k')" "0 < h_calls (k_heap k')"
    using D(6,7) sub(1) k'(4) by (meson le_trans not_le subsetD leD order_less_le_trans)+
  moreover have "t_pid (tsk k' bootstrap_task) = 0" using F(1) [OF sub(3)] D(4) by simp
  moreover have "\<forall>x \<in> set ls. t_pid (tsk k' x) \<in> pid_used (k_pids k') \<and> t_pid (tsk k' x) \<le> 65535"
    using used(1) F(1) D(12) sub(1) by (metis subsetD)
  ultimately show ?thesis
    unfolding table_ok_def k'(1-3) using sub(2,3) used(2) by blast
qed

section \<open>Every operation keeps the table\<close>

lemma table_ok_quiet:
  assumes "table_ok k" "quiet f" "f (tsk k a) k = (t, k')" "k_tasks k a \<noteq> None" "core u = core t"
  shows "table_ok (put_task a u k')"
proof -
  have q: "core u = core (tsk k a)" "frame k' = frame k" using quietD [OF assms(2,3)] assms(5) by simp_all
  then have "cores_of (put_task a u k') x = cores_of k x" for x
    using assms(4) core_links [OF q(1)] by (auto simp: cores_of_def put_task_def frame_def tsk_def)
  then show ?thesis
    using q(2) assms(1) table_okD(8,9) [OF assms(1)]
    by (intro table_ok_cong [of "put_task a u k'" k]) (auto simp: frame_def)
qed

lemma upd_noncore:
  assumes "table_ok k" "\<And>t. links (f t) = links t"
  shows "table_ok (upd_task a f k)"
proof -
  have "cores_of (upd_task a f k) = cores_of k"
    using assms(2) by (auto simp: cores_of_def upd_task_def option.map_comp comp_def)
  then show ?thesis using assms(1) table_okD(8,9) [OF assms(1)]
    by (intro table_ok_cong [of "upd_task a f k" k]) auto
qed

text \<open>Leaving the table to other components.\<close>

lemma table_ok_same:
  assumes "table_ok k" "k_tasks k' = k_tasks k" "k_list k' = k_list k" "k_count k' = k_count k" "k_pids k' = k_pids k"
    "h_calls (k_heap k) \<le> h_calls (k_heap k')"
  shows "table_ok k'"
  by (rule table_ok_cong [of k' k]) (use assms table_okD(8,9) [OF assms(1)] in \<open>auto simp: cores_of_def fun_eq_iff\<close>)

lemma wake_joiner_frame [simp]:
  "k_tasks (wake_joiner jw k) = k_tasks k" "k_list (wake_joiner jw k) = k_list k" "k_count (wake_joiner jw k) = k_count k"
  "k_pids (wake_joiner jw k) = k_pids k" "k_heap (wake_joiner jw k) = k_heap k"
  by (simp_all add: wake_joiner_def split: option.split)

lemma tsk_wake [simp]: "tsk (wake_joiner jw k) = tsk k"
  by (simp add: tsk_def fun_eq_iff)

lemma table_ok_exit:
  assumes ok: "table_ok k" and a: "a \<in> set (k_list k)"
  shows "table_ok (exit_task a code k)"
proof -
  let ?fs = "futex_wake_all_for_thread (g_current (k_sched k)) (k_futex k, k_sched k)"
  define k1 where "k1 = k\<lparr>k_futex := fst ?fs, k_sched := snd ?fs\<rparr>"
  define k2 where "k2 = upd_task a (\<lambda>t. t\<lparr>exit_code := code\<rparr>) k1"
  define k3 where "k3 = (if a \<noteq> bootstrap_task then unlink_from_parent a k2 else k2)"
  define k4 where "k4 = wake_joiner (join_waiter (tsk k3 a)) (upd_task a (\<lambda>t. t\<lparr>is_zombie := True, join_waiter := None\<rparr>) k3)"
  have ok1: "table_ok k1" by (rule table_ok_same [OF ok]) (simp_all add: k1_def)
  have a1: "k_tasks k1 a \<noteq> None" using table_okD(2) [OF ok] a by (auto simp: k1_def)
  have ok2: "table_ok k2" unfolding k2_def by (rule upd_noncore [OF ok1]) (simp add: links_def core_def)
  have r2: "a \<notin> set (children (tsk k2 bootstrap_task)) \<or> a \<noteq> bootstrap_task" using child_listed(4) [OF ok2] by blast
  have l3: "k_list k3 = k_list k" "k_count k3 = k_count k" "k_heap k3 = k_heap k" "k_pids k3 = k_pids k" "dom (k_tasks k3) = dom (k_tasks k)"
    by (simp_all add: k3_def k2_def k1_def)
  have t3: "tsk k3 x = retired k2 a x" for x
    using tsk_unlink [OF ok2] child_listed(4) [OF ok2, of a] by (auto simp: k3_def retired_def)
  have "k_tasks k3 a \<noteq> None" using l3(5) a1 by (auto simp: k1_def)
  then have t4: "tsk k4 x = (if x = a then (retired k2 a a)\<lparr>is_zombie := True, join_waiter := None\<rparr> else retired k2 a x)" for x
    by (simp add: k4_def tsk_upd_task t3)
  have na: "retired k2 a a = tsk k2 a" using child_listed(3) [OF ok2, of a a] by (auto simp: retired_def)
  have l2: "k_list k2 = k_list k" "k_count k2 = k_count k" "k_heap k2 = k_heap k" "k_pids k2 = k_pids k"
    by (simp_all add: k2_def k1_def)
  have d2: "dom (k_tasks k2) = set (k_list k2)" using table_okD(2) [OF ok2] .
  have l4: "k_pids k4 = k_pids k" "dom (k_tasks k4) = dom (k_tasks k)" by (simp_all add: k4_def l3)
  have ok4: "table_ok k4"
  proof (rule table_ok_retire [OF ok2, of "k_list k2" a k4])
    show "k_list k4 = k_list k2" "h_calls (k_heap k2) \<le> h_calls (k_heap k4)" by (simp_all add: k4_def l3 l2)
    show "dom (k_tasks k4) = set (k_list k2)" using d2 l3(5) table_okD(2) [OF ok] by (simp add: k4_def l2)
    show "k_count k4 = of_nat (length (k_list k2))" using table_okD(5) [OF ok2] by (simp add: k4_def l3 l2)
  qed (use table_okD(8,9) [OF ok2] in \<open>simp_all add: t4 na l4 l2 links_def core_def\<close>)
  obtain t k5 where r: "release_all (tsk k4 a) k4 = (t, k5)" by fastforce
  have "exit_task a code k = put_task a t k5"
    unfolding exit_task_def Let_def k1_def [symmetric] k2_def [symmetric] k3_def [symmetric] k4_def [symmetric] r by simp
  moreover have "k_tasks k4 a \<noteq> None"
    using table_okD(2) [OF ok] a l4(2) by blast
  ultimately show ?thesis using table_ok_quiet [OF ok4 quiet_release_all r] by simp
qed

lemma retired_list: "retired k a x = retired k' a x" if "tsk k' = tsk k"
  by (simp add: retired_def that)

lemma frameD:
  "frame k' = frame k \<Longrightarrow> k_pids k' = k_pids k \<and> k_heap k' = k_heap k \<and> k_sched k' = k_sched k \<and> k_futex k' = k_futex k \<and>
     k_tasks k' = k_tasks k \<and> k_list k' = k_list k \<and> k_count k' = k_count k"
  by (simp add: frame_def)

lemma frame_free_kstack: "frame (free_kstack x k) = frame k"
  by (simp add: free_kstack_def Let_def)

lemma table_small: "table_ok k \<Longrightarrow> length (k_list k) \<le> 65536"
proof -
  assume ok: "table_ok k"
  have "card ((\<lambda>a. t_pid (tsk k a)) ` set (k_list k)) \<le> card {..65535::nat}"
    by (rule card_mono) (use table_okD(12) [OF ok] in auto)
  then show ?thesis
    using card_image [OF table_okD(10) [OF ok]] distinct_card [OF table_okD(1) [OF ok]] by simp
qed

text \<open>Destroying takes the block out; a reserved PID stays taken.\<close>

lemma free_pid_keeps: "q \<in> pid_used s \<Longrightarrow> q \<noteq> p \<or> q = 0 \<Longrightarrow> q \<in> pid_used (snd (free_pid p s))"
  by (auto simp: free_pid_result)

lemma table_ok_destroy:
  assumes ok: "table_ok k" and a: "a \<in> set (k_list k)"
  shows "table_ok (task_destroy a k)"
proof (cases "a = bootstrap_task")
  case True
  then show ?thesis using ok by (simp add: task_destroy_def)
next
  case False
  define k1 where "k1 = unlink_global a (unlink_from_parent a k)"
  obtain t k2 where r: "release_all (tsk k1 a) k1 = (t, k2)" by fastforce
  define k3 where "k3 = (if t_pid (tsk k a) \<noteq> 0 then k2\<lparr>k_pids := snd (free_pid (t_pid (tsk k a)) (k_pids k2))\<rparr> else k2)"
  define k4 where "k4 = (case t_thread (tsk k a) of None \<Rightarrow> k3 | Some x \<Rightarrow> free_kstack (thr (k_sched k3) x) k3)"
  define k5 where "k5 = (case t_thread (tsk k a) of None \<Rightarrow> k4
    | Some x \<Rightarrow> k4\<lparr>k_sched := (k_sched k4)\<lparr>threads := (threads (k_sched k4))(x := None)\<rparr>\<rparr>)"
  have e: "task_destroy a k = k5\<lparr>k_tasks := (k_tasks k5)(a := None)\<rparr>"
    unfolding task_destroy_def Let_def k1_def [symmetric] r prod.case k3_def [symmetric] k4_def [symmetric] k5_def [symmetric]
    using False by simp
  have q: "frame k2 = frame k1" using quietD [OF quiet_release_all r] by simp
  have t1: "k_tasks k1 = k_tasks (unlink_from_parent a k)" "k_list k1 = remove1 a (k_list k)" "k_heap k1 = k_heap k" "k_pids k1 = k_pids k"
    using a by (simp_all add: k1_def unlink_global_def)
  have t5: "k_tasks k5 = k_tasks k1" "k_list k5 = k_list k1" "k_count k5 = k_count k1" "k_heap k5 = k_heap k1"
    "k_pids k5 = k_pids k3"
  proof -
    have f4: "frame k4 = frame k3" by (simp add: k4_def frame_free_kstack split: option.split)
    have f3: "k_tasks k3 = k_tasks k1 \<and> k_list k3 = k_list k1 \<and> k_count k3 = k_count k1 \<and> k_heap k3 = k_heap k1"
      using frameD [OF q] by (simp add: k3_def)
    have f5: "k_tasks k5 = k_tasks k4 \<and> k_list k5 = k_list k4 \<and> k_count k5 = k_count k4 \<and> k_heap k5 = k_heap k4 \<and> k_pids k5 = k_pids k4"
      by (simp add: k5_def split: option.split)
    show "k_tasks k5 = k_tasks k1" "k_list k5 = k_list k1" "k_count k5 = k_count k1" "k_heap k5 = k_heap k1" "k_pids k5 = k_pids k3"
      using f5 f3 frameD [OF f4] by simp_all
  qed
  have p3: "k_pids k3 = snd (free_pid (t_pid (tsk k a)) (k_pids k))"
    using q t1(4) by (simp add: k3_def frame_def free_pid_result)
  note D = table_okD [OF ok]
  have len: "length (k_list k) = Suc (length (remove1 a (k_list k)))"
    using length_pos_if_in_set [OF a] a by (simp add: length_remove1)
  have cnt: "k_count k1 = of_nat (length (remove1 a (k_list k)))"
  proof -
    have "k_count k = of_nat (length (remove1 a (k_list k))) + 1"
      unfolding D(5) len of_nat_Suc by (rule add.commute)
    moreover have "unat (k_count k) = length (k_list k)"
      unfolding D(5) using table_small [OF ok] by (simp add: unsigned_of_nat take_bit_nat_eq_self)
    then have n0: "k_count k \<noteq> 0" using length_pos_if_in_set [OF a] by (intro notI) simp
    have "k_count k1 = k_count k - 1"
      using a n0 by (simp add: k1_def unlink_global_def word_gt_0)
    then show ?thesis using calculation(1) by simp
  qed
  show ?thesis unfolding e
  proof (rule table_ok_retire [OF ok, of "remove1 a (k_list k)" a])
    show "dom (k_tasks (k5\<lparr>k_tasks := (k_tasks k5)(a := None)\<rparr>)) = set (remove1 a (k_list k))"
      using D(1,2) by (simp add: t5 t1 set_remove1_eq)
    show "h_calls (k_heap k) \<le> h_calls (k_heap (k5\<lparr>k_tasks := (k_tasks k5)(a := None)\<rparr>))" by (simp add: t5 t1)
    fix x
    assume "x \<in> set (remove1 a (k_list k))"
    then have x: "x \<in> set (k_list k)" "x \<noteq> a" using D(1) by (auto simp: set_remove1_eq)
    then have "tsk (k5\<lparr>k_tasks := (k_tasks k5)(a := None)\<rparr>) x = tsk (unlink_from_parent a k) x"
      by (simp add: tsk_def t5 t1)
    then show "links (tsk (k5\<lparr>k_tasks := (k_tasks k5)(a := None)\<rparr>) x) = links (retired k a x)" using tsk_unlink [OF ok] by simp
    have "t_pid (tsk k x) \<noteq> t_pid (tsk k a)" using inj_onD [OF D(10)] x a by blast
    then show "t_pid (tsk k x) \<in> pid_used (k_pids (k5\<lparr>k_tasks := (k_tasks k5)(a := None)\<rparr>))"
      using D(9) [OF x(1)] by (simp add: t5 p3 free_pid_keeps)
  qed (use False D(1,8) in \<open>simp_all add: t5 t1 cnt p3 free_pid_keeps\<close>)
qed

lemma task_destroy_gone:
  assumes ok: "table_ok k" and a: "a \<in> set (k_list k)" "a \<noteq> bootstrap_task"
  shows "k_tasks (task_destroy a k) a = None \<and>
    k_pids (task_destroy a k) = snd (free_pid (t_pid (tsk k a)) (k_pids k)) \<and>
    (\<forall>th. t_thread (tsk k a) = Some th \<longrightarrow> k_sched (task_destroy a k) = (k_sched k)\<lparr>threads := (threads (k_sched k))(th := None)\<rparr>)"
proof -
  define k1 where "k1 = unlink_global a (unlink_from_parent a k)"
  obtain t k2 where r: "release_all (tsk k1 a) k1 = (t, k2)" by fastforce
  have q: "frame k2 = frame k1" using quietD [OF quiet_release_all r] by simp
  have "k_pids k2 = k_pids k" "k_sched k2 = k_sched k" using frameD [OF q] by (simp_all add: k1_def unlink_global_def)
  then show ?thesis
    using a(2) frameD [OF frame_free_kstack]
    unfolding task_destroy_def Let_def k1_def [symmetric] r prod.case
    by (simp add: free_pid_result split: option.split)
qed

section \<open>Creation keeps the table\<close>

text \<open>Both outcomes of \<open>build_task\<close>, in terms of the state before it.\<close>

lemma build_task_cases:
  assumes "build_task rnd a t par k = (r, k')"
  obtains (undone) t1 k1 where "r = None" "grows t k t1 k1" "k' = create_undo t1 k1"
    | (built) t1 k1 th where "r = Some a" "grows t k t1 k1" "k' = task_18d_init a (link_task a t1 th par k1)"
proof -
  obtain t1 s where 1: "compat_preload_inherit t (tsk k par) (k_shm k) = (t1, s)" by fastforce
  obtain ok2 t2 k2 where 2: "inherit_htab (tsk k par) t1 (k\<lparr>k_shm := s\<rparr>) = (ok2, t2, k2)" by (metis prod_cases3)
  obtain ok3 t3 k3 where 3: "create_isolation rnd t2 k2 = (ok3, t3, k3)" by (metis prod_cases3)
  obtain th k4 where 4: "spawn_thread (t_name t3) (privilege_level t3) k3 = (th, k4)" by fastforce
  obtain t5 k5 where 5: "release_isolation t3 k4 = (t5, k5)" by fastforce
  have g2: "grows t k t2 k2" using grows_trans [OF grows_inherit [OF 1] grows_htab [OF 2]] .
  have g3: "grows t k t3 k3" using grows_trans [OF g2 grows_isolation [OF 3]] .
  have g4: "grows t k t3 k4" using grows_trans [OF g3 grows_spawn [OF 4]] .
  have g5: "grows t k (t5\<lparr>t_name := t_name t\<rparr>) k5"
    using g4 quietD [OF quiet_isolation 5] by (auto simp: grows_def core_def frame_def)
  have undo: "create_undo (t5\<lparr>t_name := t_name t\<rparr>) k5 = create_undo t5 k5"
    by (auto simp: create_undo_def destroy_htab_def release_region_def compat_preload_release_def Let_def
        split: option.split prod.split)
  consider "\<not> ok2" | "ok2" "\<not> ok3" | "ok2" "ok3" "th = None" | x where "ok2" "ok3" "th = Some x" by blast
  then show thesis
  proof cases
    case 1
    then show ?thesis using undone [of t2 k2] assms \<open>compat_preload_inherit t (tsk k par) (k_shm k) = (t1, s)\<close> 2 g2
      by (simp add: build_task_def)
  next
    case 2
    then show ?thesis using undone [of t3 k3] assms 1 \<open>inherit_htab (tsk k par) t1 (k\<lparr>k_shm := s\<rparr>) = (ok2, t2, k2)\<close> 3 g3
      by (simp add: build_task_def)
  next
    case 3
    then show ?thesis
      using undone [of "t5\<lparr>t_name := t_name t\<rparr>" k5] assms 1 2 \<open>create_isolation rnd t2 k2 = (ok3, t3, k3)\<close> 4 5 g5 undo
      by (simp add: build_task_def)
  next
    case (4 x)
    then show ?thesis
      using built [of t3 k4 x] assms 1 2 3 \<open>spawn_thread (t_name t3) (privilege_level t3) k3 = (th, k4)\<close> g4
      by (simp add: build_task_def)
  qed
qed

definition parent_ok :: "nat option \<Rightarrow> kernel \<Rightarrow> bool" where
  "parent_ok parent k \<longleftrightarrow> (case parent of None \<Rightarrow> True | Some a \<Rightarrow> a \<in> set (k_list k))"

text \<open>The refusals, the loss of a PID that cannot be given back, and success.\<close>

lemma task_create_cases:
  assumes "task_create rnd name b parent pid pr fl priv k = (r, k')"
  obtains (refused) "r = None" "frame k' = frame k"
    | (undone) p where "r = None" "k_tasks k' = k_tasks k" "k_list k' = k_list k" "k_count k' = k_count k"
        "h_calls (k_heap k) \<le> h_calls (k_heap k')" "p \<notin> pid_used (k_pids k)"
        "pid_used (k_pids k') = (if p \<le> 99 then insert p (pid_used (k_pids k)) else pid_used (k_pids k) - {p})"
    | (created) p t1 k1 th par where "par = (case parent of Some a \<Rightarrow> a | None \<Rightarrow> bootstrap_task)"
        "r = Some (h_calls (k_heap k))" "k' = task_18d_init (h_calls (k_heap k)) (link_task (h_calls (k_heap k)) t1 th par k1)"
        "core t1 = core (new_task name p (child_privilege (map_option (tsk k) parent) pr fl) fl priv (tsk k par))"
        "k_tasks k1 = k_tasks k" "k_list k1 = k_list k" "k_count k1 = k_count k" "h_calls (k_heap k) < h_calls (k_heap k1)"
        "p \<notin> pid_used (k_pids k)" "pid_used (k_pids k1) = insert p (pid_used (k_pids k))" "p \<le> 65535"
        "parent \<noteq> None \<Longrightarrow> privilege_level (tsk k par) \<noteq> 0"
        "children_count (tsk k par) < child_process_limit (tsk k par)"
proof -
  define par where "par = (case parent of Some a \<Rightarrow> a | None \<Rightarrow> bootstrap_task)"
  define c where "c = child_privilege (map_option (tsk k) parent) pr fl"
  have c: "child_privilege (if parent = None then None else Some (tsk k par)) pr fl = c"
    by (cases parent) (simp_all add: c_def par_def)
  obtain q ps where q: "create_pid pid priv (k_pids k) = (q, ps)" by fastforce
  obtain z h where z: "kzalloc_obj (k_heap k) = (z, h)" by fastforce
  have h: "h_calls h = Suc (h_calls (k_heap k))" "z = None \<or> z = Some (h_calls (k_heap k))"
    using kzalloc_obj_calls [OF z] by auto
  consider "\<not> b \<or> parent \<noteq> None \<and> privilege_level (tsk k par) = 0 \<or>
      children_count (tsk k par) \<ge> child_process_limit (tsk k par)" "(r, k') = (None, k)"
    | "q < 0" "(r, k') = (None, k\<lparr>k_pids := ps\<rparr>)"
    | "\<not> q < 0" "z = None" "(r, k') = (None, k\<lparr>k_heap := h, k_pids := snd (free_pid (nat q) ps)\<rparr>)"
    | "\<not> (parent \<noteq> None \<and> privilege_level (tsk k par) = 0)" "\<not> children_count (tsk k par) \<ge> child_process_limit (tsk k par)"
      "\<not> q < 0" "z = Some (h_calls (k_heap k))"
      "(r, k') = build_task rnd (h_calls (k_heap k)) (new_task name (nat q) c fl priv (tsk k par)) par (k\<lparr>k_pids := ps, k_heap := h\<rparr>)"
    using assms h(2) unfolding task_create_def Let_def par_def [symmetric] c q prod.case
    by (cases "b"; cases "parent \<noteq> None \<and> privilege_level (tsk k par) = 0";
        cases "children_count (tsk k par) \<ge> child_process_limit (tsk k par)"; cases "q < 0"; cases z) (auto simp: z)
  then show thesis
  proof cases
    case 1
    then show ?thesis using refused by simp
  next
    case 2
    then show ?thesis using refused create_pid_fail [OF q] by (simp add: frame_def)
  next
    case 3
    have n: "nat q \<notin> pid_used (k_pids k)" "pid_used ps = insert (nat q) (pid_used (k_pids k))"
      using create_pid_new [OF q] 3(1) by auto
    show ?thesis by (rule undone [of "nat q"]) (use 3 n h in \<open>auto simp: free_pid_result\<close>)
  next
    case 4
    have n: "nat q \<notin> pid_used (k_pids k)" "pid_used ps = insert (nat q) (pid_used (k_pids k))" "nat q \<le> 65535"
      using create_pid_new [OF q] 4(3) by auto
    from 4(5) [symmetric] show ?thesis
    proof (cases rule: build_task_cases)
      case (undone t1 k1)
      have "t_pid t1 = nat q" using undone(2) by (simp add: grows_def core_def new_task_def)
      then show ?thesis
        using that(2) [of "nat q"] undone n h(1) create_undo_frame [of t1 k1] by (auto simp: grows_def free_pid_result)
    next
      case (built t1 k1 th)
      show ?thesis
        by (rule created [of par t1 th k1 "nat q"]) (use built n h(1) 4 in \<open>auto simp: grows_def par_def c_def\<close>)
    qed
  qed
qed

lemma table_ok_18d_init:
  assumes "table_ok k" "a \<in> set (k_list k)"
  shows "table_ok (task_18d_init a k)"
proof -
  obtain t where t: "k_tasks k a = Some t" using table_okD(2) [OF assms(1)] assms(2) by blast
  then have "cores_of (task_18d_init a k) x = cores_of k x" for x
    by (simp add: cores_of_def task_18d_init_def put_task_def Let_def links_def core_def tsk_def)
  then show ?thesis
    using assms(1) table_okD(8,9) [OF assms(1)]
    by (intro table_ok_cong [of "task_18d_init a k" k]) (auto simp: task_18d_init_def Let_def)
qed

lemma parent_listed: "table_ok k \<Longrightarrow> parent_ok parent k \<Longrightarrow> (case parent of Some a \<Rightarrow> a | None \<Rightarrow> bootstrap_task) \<in> set (k_list k)"
  by (auto simp: parent_ok_def table_okD(3) split: option.splits)

lemma child_privilege_9: "table_ok k \<Longrightarrow> parent_ok parent k \<Longrightarrow> child_privilege (map_option (tsk k) parent) pr fl \<le> 9"
  using child_privilege_le [of "map_option (tsk k) parent" pr fl] table_okD(11) [of k]
  by (cases parent) (auto simp: parent_ok_def limits_ok_def le_trans)

text \<open>A new task is on the chain, its parent's first child, and never a zombie.\<close>

lemma table_ok_create:
  assumes ok: "table_ok k" and par: "parent_ok parent k" and c: "task_create rnd name b parent pid pr fl priv k = (r, k')"
  shows "table_ok k' \<and> (\<forall>a. r = Some a \<longrightarrow> a \<in> set (k_list k') \<and> a \<noteq> bootstrap_task)"
  using c
proof (cases rule: task_create_cases)
  case refused
  then show ?thesis using ok table_ok_frame [OF refused(2)] by blast
next
  case (undone p)
  have "q \<noteq> p" if "q = 0 \<or> q \<in> (\<lambda>a. t_pid (tsk k a)) ` set (k_list k)" for q
    using that table_okD(8,9) [OF ok] undone(6) by auto
  then have "table_ok k'"
    using undone ok table_okD(8,9) [OF ok]
    by (intro table_ok_cong [of k' k]) (auto simp: cores_of_def fun_eq_iff)
  then show ?thesis using undone(1) by simp
next
  case (created p t1 k1 th p')
  let ?a = "h_calls (k_heap k)"
  have pl: "p' \<in> set (k_list k)" using parent_listed [OF ok par] created(1) by simp
  have ok1: "table_ok k1"
    using created(5-8,10) ok table_okD(8,9) [OF ok]
    by (intro table_ok_cong [of k1 k]) (auto simp: cores_of_def fun_eq_iff)
  have tk: "tsk k1 = tsk k" using created(5) by (simp add: tsk_def fun_eq_iff)
  have fresh: "?a \<notin> set (k_list k1)" "?a \<noteq> bootstrap_task"
    using table_okD(3,7) [OF ok] created(6) by (auto simp: bootstrap_task_def)
  have t: "t_pid t1 = p" "parent_pid t1 = t_pid (tsk k p')" "children t1 = []" "children_count t1 = 0" "\<not> is_zombie t1"
    "privilege_level t1 = child_privilege (map_option (tsk k) parent) pr fl"
    "child_process_limit t1 = default_child_limit (child_privilege (map_option (tsk k) parent) pr fl)"
    using created(4) by (auto simp: core_def new_task_def zero_task_def)
  have L: "table_ok (link_task ?a t1 th p' k1)"
    by (rule table_ok_link [OF ok1])
      (use fresh created pl t tk child_privilege_9 [OF ok par] table_okD(9) [OF ok] in auto)
  have z: "?a \<in> set (k_list (link_task ?a t1 th p' k1))" by (simp add: link_task_def Let_def)
  have "k_list (task_18d_init ?a kk) = k_list kk" for kk by (simp add: task_18d_init_def Let_def)
  then show ?thesis
    using table_ok_18d_init [OF L z] created(2,3) z fresh(2) by simp
qed

section \<open>The step relation\<close>

text \<open>
  One operation. \<open>others\<close> is a step of another component: it does not touch the task table or the PIDs.
  The switch of \<open>task_exit\<close> and of \<open>task_join\<close> only changes the scheduler and is such a step.
\<close>

inductive task_step :: "kernel \<Rightarrow> kernel \<Rightarrow> bool" where
  create: "parent_ok parent k \<Longrightarrow> task_create rnd name b parent pid pr fl priv k = (r, k') \<Longrightarrow> task_step k k'"
| exit: "a \<in> set (k_list k) \<Longrightarrow> task_step k (exit_task a code k)"
| destroy: "a \<in> set (k_list k) \<Longrightarrow> task_step k (task_destroy a k)"
| reap: "task_step k (task_reap_orphans k)"
| join: "task_join target w k = Inl (rc, code, k') \<Longrightarrow> task_step k k'"
| join_wait: "task_join target w k = Inr (Some (k', sw)) \<Longrightarrow> task_step k k'"
| join_finish: "task_join_finish target w k = (rc, code, k') \<Longrightarrow> task_step k k'"
| oom_mark: "oom_mark_victim k = (rc, k') \<Longrightarrow> task_step k k'"
| oom_reap: "a \<in> set (k_list k) \<Longrightarrow> task_step k (reap_victim a k)"
| kill: "see_kill_sandbox caller (Some a) k = Inl (rc, k') \<Longrightarrow> a \<in> set (k_list k) \<Longrightarrow> task_step k k'"
| sandbox: "parent_ok parent k \<Longrightarrow> sandbox_create_process parent level rnd k = (r, k') \<Longrightarrow> task_step k k'"
| clone: "parent_ok cur k \<Longrightarrow> namespace_clone_child cur flags rnd k = (rc, k') \<Longrightarrow> task_step k k'"
| others: "k_tasks k' = k_tasks k \<Longrightarrow> k_list k' = k_list k \<Longrightarrow> k_count k' = k_count k \<Longrightarrow> k_pids k' = k_pids k \<Longrightarrow>
    h_calls (k_heap k) \<le> h_calls (k_heap k') \<Longrightarrow> task_step k k'"

lemma tsk_destroy_other:
  assumes "table_ok k" "x \<noteq> a" "a \<in> set (k_list k)" "a \<noteq> bootstrap_task"
  shows "k_list (task_destroy a k) = remove1 a (k_list k)"
proof -
  obtain t k2 where r: "release_all (tsk (unlink_global a (unlink_from_parent a k)) a) (unlink_global a (unlink_from_parent a k)) = (t, k2)"
    by fastforce
  have "k_list k2 = remove1 a (k_list k)"
    using frameD [OF conjunct2 [OF quietD [OF quiet_release_all r]]] assms(3) by (simp add: unlink_global_def)
  then show ?thesis
    using r assms(4) frameD [OF frame_free_kstack]
    by (simp add: task_destroy_def Let_def split: option.split)
qed

lemma table_ok_destroy_all:
  "table_ok k \<Longrightarrow> distinct as \<Longrightarrow> set as \<subseteq> set (k_list k) - {bootstrap_task} \<Longrightarrow> table_ok (fold task_destroy as k)"
proof (induction as arbitrary: k)
  case (Cons a as)
  have "k_list (task_destroy a k) = remove1 a (k_list k)"
    using tsk_destroy_other [OF Cons.prems(1), of "Suc a" a] Cons.prems(3) by auto
  then show ?case
    using Cons.IH [of "task_destroy a k"] table_ok_destroy [OF Cons.prems(1), of a] Cons.prems table_okD(1) [OF Cons.prems(1)]
    by (auto simp: set_remove1_eq)
qed simp

lemma table_ok_reap: "table_ok k \<Longrightarrow> table_ok (task_reap_orphans k)"
proof -
  assume ok: "table_ok k"
  let ?vs = "filter (\<lambda>a. is_zombie (tsk k a) \<and> parent_pid (tsk k a) = 0 \<and> t_pid (tsk k a) \<noteq> 0) (k_list k)"
  have "set (take 8 ?vs) \<subseteq> set (k_list k) - {bootstrap_task}"
    using set_take_subset [of 8 ?vs] table_okD(4) [OF ok] by auto
  moreover have "distinct (take 8 ?vs)" using table_okD(1) [OF ok] by simp
  ultimately show ?thesis unfolding task_reap_orphans_def by (rule table_ok_destroy_all [OF ok, rotated])
qed

lemma table_ok_put:
  assumes "table_ok k" "k_tasks k a \<noteq> None" "links t = links (tsk k a)"
  shows "table_ok (put_task a t k)"
proof -
  have "cores_of (put_task a t k) x = cores_of k x" for x
    using assms(2,3) by (auto simp: cores_of_def put_task_def tsk_def)
  then show ?thesis
    using assms(1) table_okD(8,9) [OF assms(1)] by (intro table_ok_cong [of "put_task a t k" k]) auto
qed

lemma listed_alloc: "table_ok k \<Longrightarrow> a \<in> set (k_list k) \<longleftrightarrow> k_tasks k a \<noteq> None"
  using table_okD(2) [of k] by blast

lemma zombie_not_boot: "table_ok k \<Longrightarrow> find_task k p = Some a \<Longrightarrow> a \<in> set (k_list k)"
  using find_task_Some by blast

lemma on_sched_frame:
  "on_sched f k = Some (k', sw) \<Longrightarrow> k_tasks k' = k_tasks k \<and> k_list k' = k_list k \<and> k_count k' = k_count k \<and> k_pids k' = k_pids k \<and>
     k_heap k' = k_heap k"
  by (auto simp: on_sched_def)

lemma table_ok_join:
  assumes ok: "table_ok k" and j: "task_join p w k = Inl (rc, code, k') \<or> task_join p w k = Inr (Some (k', sw))"
  shows "table_ok k'"
proof (cases "self_task k = None \<or> g_current (k_sched k) = None \<or> find_task k p = None")
  case True
  then have "k' = k" using j by (auto simp: task_join_def split: option.splits if_splits)
  then show ?thesis using ok by simp
next
  case False
  then obtain self cur a where sc: "self_task k = Some self" "g_current (k_sched k) = Some cur" "find_task k p = Some a" by auto
  have al: "a \<in> set (k_list k)" using find_task_Some [OF sc(3)] by simp
  let ?x = "\<lparr>w_th = Some cur, w_uaddr = of_nat a, w_pid = t_pid (tsk k self), wake_deadline = 0, woken = False\<rparr>"
  let ?k1 = "k\<lparr>k_futex := (k_futex k)\<lparr>fx_waiters := (fx_waiters (k_futex k))(w \<mapsto> ?x)\<rparr>\<rparr>"
  let ?k2 = "upd_task a (\<lambda>t. t\<lparr>join_waiter := Some w\<rparr>) ?k1"
  have "table_ok ?k1" by (rule table_ok_same [OF ok]) simp_all
  then have ok2: "table_ok ?k2" by (rule upd_noncore) (simp add: links_def core_def)
  have e: "task_join p w k =
     (if p = t_pid (tsk k self) then Inl (OB_EINVAL, None, k)
      else if is_zombie (tsk k a) then Inl (0, Some (exit_code (tsk k a)), task_destroy a k)
      else if join_waiter (tsk k a) \<noteq> None then Inl (OB_EAGAIN, None, k)
      else Inr (on_sched schedule (?k2\<lparr>k_sched := set_state THREAD_STATE_BLOCKED (Some cur) (k_sched ?k2)\<rparr>)))"
    unfolding task_join_def sc prod.case option.case Let_def by (rule refl)
  consider "k' = k" | "k' = task_destroy a k"
    | "on_sched schedule (?k2\<lparr>k_sched := set_state THREAD_STATE_BLOCKED (Some cur) (k_sched ?k2)\<rparr>) = Some (k', sw)"
    using j unfolding e by (simp split: if_splits)
  then show ?thesis
  proof cases
    case 3
    show ?thesis by (rule table_ok_same [OF ok2]) (use on_sched_frame [OF 3] in simp_all)
  qed (use ok table_ok_destroy [OF ok al] in simp_all)
qed

lemma table_ok_join_finish:
  assumes ok: "table_ok k" and j: "task_join_finish p w k = (rc, code, k')"
  shows "table_ok k'"
proof -
  let ?k = "k\<lparr>k_futex := (k_futex k)\<lparr>fx_waiters := (fx_waiters (k_futex k))(w := None)\<rparr>\<rparr>"
  have ok': "table_ok ?k" by (rule table_ok_same [OF ok]) simp_all
  have "k' = ?k \<or> (\<exists>a. find_task ?k p = Some a \<and> k' = task_destroy a ?k)"
    using j unfolding task_join_finish_def Let_def by (auto split: option.splits if_splits)
  then show ?thesis using ok' table_ok_destroy [OF ok'] find_task_Some by blast
qed

lemma table_ok_oom_reap:
  assumes ok: "table_ok k" and a: "a \<in> set (k_list k)"
  shows "table_ok (reap_victim a k)"
proof -
  define k1 where "k1 = (case t_thread (tsk k a) of None \<Rightarrow> k
    | Some th \<Rightarrow> k\<lparr>k_sched := snd (sched_remove_from_queue (Some th) (k_sched k))\<rparr>)"
  define k2 where "k2 = upd_task a (\<lambda>t. t\<lparr>is_zombie := True, join_waiter := None\<rparr>) k1"
  define k3 where "k3 = wake_joiner (join_waiter (tsk k1 a)) k2"
  obtain t4 k4 where 4: "teardown_user (tsk k3 a) k3 = (t4, k4)" by fastforce
  obtain t5 k5 where 5: "task_18d_cleanup t4 k4 = (t5, k5)" by fastforce
  have "table_ok k1" by (rule table_ok_same [OF ok]) (simp_all add: k1_def split: option.split)
  then have "table_ok k2" unfolding k2_def by (rule upd_noncore) (simp add: links_def core_def)
  then have ok3: "table_ok k3" unfolding k3_def by (rule table_ok_same) simp_all
  have l: "k_list k3 = k_list k" by (simp add: k3_def k2_def k1_def split: option.split)
  have q: "frame k5 = frame k3" "core t5 = core (tsk k3 a)"
    using quietD [OF quiet_teardown 4] quietD [OF quiet_18d_cleanup 5] by simp_all
  have f5: "table_ok k5" "k_tasks k5 = k_tasks k3" using table_ok_frame [OF q(1)] ok3 frameD [OF q(1)] by simp_all
  then have "tsk k5 a = tsk k3 a" by (simp add: tsk_def)
  then have c5: "links t5 = links (tsk k5 a)" using core_links [OF q(2)] by simp
  have "k_tasks k5 a \<noteq> None" using listed_alloc [OF ok3] l a f5(2) by simp
  moreover have "links (t5\<lparr>pending_kill := False\<rparr>) = links (tsk k5 a)" using c5 by (simp add: links_def core_def)
  ultimately have "table_ok (put_task a (t5\<lparr>pending_kill := False\<rparr>) k5)" by (rule table_ok_put [OF f5(1)])
  moreover have "reap_victim a k = put_task a (t5\<lparr>pending_kill := False\<rparr>) k5"
    unfolding reap_victim_def Let_def k1_def [symmetric] k2_def [symmetric] k3_def [symmetric] 4 prod.case 5 by simp
  ultimately show ?thesis by simp
qed

lemma table_ok_kill:
  assumes ok: "table_ok k" and a: "a \<in> set (k_list k)" and r: "see_kill_sandbox caller (Some a) k = Inl (rc, k')"
  shows "table_ok k'"
proof -
  obtain t k1 where 1: "release_sandbox (tsk k a) k = (t, k1)" by fastforce
  have q: "core t = core (tsk k a)" "frame k1 = frame k" using quietD [OF quiet_sandbox 1] by simp_all
  have "table_ok (put_task a (t\<lparr>pending_kill := True, exit_code := OB_EPERM\<rparr>) k1)"
  proof (rule table_ok_put)
    show "table_ok k1" using table_ok_frame [OF q(2)] ok by blast
    show "k_tasks k1 a \<noteq> None" using listed_alloc [OF ok] a q(2) by (simp add: frame_def)
    show "links (t\<lparr>pending_kill := True, exit_code := OB_EPERM\<rparr>) = links (tsk k1 a)"
      using core_links [OF q(1)] q(2) by (simp add: links_def core_def frame_def tsk_def)
  qed
  then have K: "table_ok (put_task a (t\<lparr>pending_kill := True, exit_code := OB_EPERM\<rparr>) k1
      \<lparr>k_see := se\<rparr>)" for se by (rule table_ok_same) simp_all
  have A: "table_ok (k\<lparr>k_audit := au\<rparr>)" for au by (rule table_ok_same [OF ok]) simp_all
  show ?thesis
    using r ok K A 1 unfolding see_kill_sandbox_def Let_def by (auto split: if_splits)
qed

lemma sandbox_setup_core: "sandbox_setup_fs t s = (rc, t', s') \<Longrightarrow> core t' = core t"
  by (auto simp: sandbox_setup_fs_def split: if_splits sum.splits prod.splits)

lemma table_ok_sandbox_undo:
  assumes "table_ok k" "a \<in> set (k_list k)"
  shows "table_ok (sandbox_undo inst a k)"
proof -
  have "table_ok (k\<lparr>k_see := see_destroy_instance inst (k_see k)\<rparr>)" by (rule table_ok_same [OF assms(1)]) simp_all
  then have "table_ok (upd_task a (\<lambda>t. t\<lparr>sandbox_flags := 0, syscall_table_ptr := (if inst = None then syscall_table_ptr t else None)\<rparr>)
       (k\<lparr>k_see := see_destroy_instance inst (k_see k)\<rparr>))"
    by (rule upd_noncore) (simp add: links_def core_def)
  then show ?thesis unfolding sandbox_undo_def by (rule table_ok_destroy) (simp add: assms(2))
qed

lemma table_ok_sandbox:
  assumes ok: "table_ok k" and par: "parent_ok parent k" and c: "sandbox_create_process parent level rnd k = (r, k')"
  shows "table_ok k'"
proof (cases parent)
  case None
  then show ?thesis using c ok by (simp add: sandbox_create_process_def)
next
  case (Some pa)
  show ?thesis
  proof (cases "privilege_level (tsk k pa) = 0")
    case True
    then show ?thesis using c ok Some by (simp add: sandbox_create_process_def)
  next
    case False
    define pv where "pv = (if (if level = 9 then 6 else level) < privilege_level (tsk k pa) then (if level = 9 then 6 else level)
      else privilege_level (tsk k pa))"
    obtain ro k1 where 1: "task_create rnd (Some ''sandbox'') True (Some pa) 0 pv OBSANDBOX_ACTIVE False k = (ro, k1)" by fastforce
    note T = table_ok_create [OF ok par [unfolded Some] 1]
    show ?thesis
    proof (cases ro)
      case None
      then show ?thesis using c T 1 Some False by (simp add: sandbox_create_process_def Let_def pv_def)
    next
      case (Some a)
      let ?k2 = "upd_task a (\<lambda>t. t\<lparr>sandbox_flags := OBSANDBOX_ACTIVE, is_critical := False, pending_kill := False\<rparr>) k1"
      obtain rc2 inst se where 2: "see_create_instance (t_pid (tsk ?k2 a)) (ucast OBSANDBOX_ACTIVE) (k_see ?k2) = (rc2, inst, se)"
        by (metis prod_cases3)
      obtain rc3 se3 where 3: "see_install_default_policy inst (k_see (?k2\<lparr>k_see := se\<rparr>)) = (rc3, se3)" by fastforce
      let ?k4 = "upd_task a (\<lambda>t. t\<lparr>syscall_table_ptr := inst\<rparr>) (?k2\<lparr>k_see := se, k_see := se3\<rparr>)"
      obtain rc4 t4 s4 where 4: "sandbox_setup_fs (tsk ?k4 a) (k_fs ?k4) = (rc4, t4, s4)" by (metis prod_cases3)
      have ok1: "table_ok k1" and a1: "a \<in> set (k_list k1)" using T \<open>ro = Some a\<close> by simp_all
      have ok2: "table_ok ?k2" by (rule upd_noncore [OF ok1]) (simp add: links_def core_def)
      have ok3: "table_ok (?k2\<lparr>k_see := se\<rparr>)" "table_ok (?k2\<lparr>k_see := se, k_see := se3\<rparr>)"
        by (rule table_ok_same [OF ok2]; simp)+
      have ok4: "table_ok ?k4" by (rule upd_noncore [OF ok3(2)]) (simp add: links_def core_def)
      have ok5: "table_ok (?k4\<lparr>k_fs := s4\<rparr>)" by (rule table_ok_same [OF ok4]) simp_all
      have "links t4 = links (tsk (?k4\<lparr>k_fs := s4\<rparr>) a)"
        using core_links [OF sandbox_setup_core [OF 4]] by (simp add: tsk_def)
      then have ok6: "table_ok (put_task a t4 (?k4\<lparr>k_fs := s4\<rparr>))"
        by (intro table_ok_put [OF ok5]) (use listed_alloc [OF ok5] a1 in auto)
      have "(r, k') = (if rc2 \<noteq> 0 then (None, sandbox_undo None a (?k2\<lparr>k_see := se\<rparr>))
         else if rc3 \<noteq> 0 then (None, sandbox_undo inst a (?k2\<lparr>k_see := se, k_see := se3\<rparr>))
         else if rc4 \<noteq> 0 then (None, sandbox_undo inst a (put_task a t4 (?k4\<lparr>k_fs := s4\<rparr>)))
         else (Some a, put_task a t4 (?k4\<lparr>k_fs := s4\<rparr>)))"
        using c unfolding sandbox_create_process_def Let_def \<open>parent = Some pa\<close> option.case pv_def [symmetric] 1 prod.case
          \<open>ro = Some a\<close> 2 3 4 using False by (simp only: if_False)
      then show ?thesis
        using ok6 table_ok_sandbox_undo [OF ok3(1)] table_ok_sandbox_undo [OF ok3(2)] table_ok_sandbox_undo [OF ok6] a1
        by (simp split: if_splits)
    qed
  qed
qed

lemma namespace_fork_core: "namespace_fork (Some p) (Some c) flags n = (rc, to, n') \<Longrightarrow> \<exists>c'. to = Some c' \<and> core c' = core c"
  by (auto simp: namespace_fork_def fork_pidns_def fork_mntns_def fork_ipcns_def split: if_splits prod.splits)

lemma user_fork_core: "user_fork_address_space (Some p) (Some c) m = (rc, to, m') \<Longrightarrow> \<exists>c'. to = Some c' \<and> core c' = core c"
  unfolding user_fork_address_space_def by (auto split: option.splits prod.splits if_splits)

lemma table_ok_clone:
  assumes ok: "table_ok k" and par: "parent_ok cur k" and c: "namespace_clone_child cur flags rnd k = (rc, k')"
  shows "table_ok k'"
proof (cases "\<exists>a. cur = Some a \<and> \<not> privilege_level (tsk k a) < 2")
  case False
  then show ?thesis using c ok by (auto simp: namespace_clone_child_def split: option.splits)
next
  case True
  then obtain a where a: "cur = Some a" "\<not> privilege_level (tsk k a) < 2" by blast
  obtain ro k1 where 1: "task_create rnd (Some ''clone-child'') True (Some a) 0 (privilege_level (tsk k a)) 0 False k = (ro, k1)"
    by fastforce
  note T = table_ok_create [OF ok par [unfolded a(1)] 1]
  show ?thesis
  proof (cases ro)
    case None
    then show ?thesis using c T 1 a by (simp add: namespace_clone_child_def)
  next
    case (Some ch)
    have ok1: "table_ok k1" and ch: "ch \<in> set (k_list k1)" using T Some by simp_all
    obtain rc2 to2 n where 2: "namespace_fork (Some (tsk k1 a)) (Some (tsk k1 ch)) flags (k_ns k1) = (rc2, to2, n)"
      by (metis prod_cases3)
    obtain c2 where c2: "to2 = Some c2" "core c2 = core (tsk k1 ch)" using namespace_fork_core [OF 2] by blast
    let ?k1 = "k1\<lparr>k_ns := n\<rparr>"
    let ?k2 = "put_task ch c2 ?k1"
    have okn: "table_ok ?k1" by (rule table_ok_same [OF ok1]) simp_all
    have "links c2 = links (tsk ?k1 ch)" using core_links [OF c2(2)] by (simp add: tsk_def)
    then have ok2: "table_ok ?k2" by (intro table_ok_put [OF okn]) (use listed_alloc [OF okn] ch in auto)
    let ?k3 = "upd_task ch (\<lambda>t. t\<lparr>user_ctx := user_ctx (tsk ?k2 a)\<rparr>) ?k2"
    have ok3: "table_ok ?k3" by (rule upd_noncore [OF ok2]) (simp add: links_def core_def)
    obtain rc4 to4 m where 4: "user_fork_address_space (Some (tsk ?k2 a)) (Some (tsk ?k2 ch)) (k_mem ?k2) = (rc4, to4, m)"
      by (metis prod_cases3)
    obtain c4 where c4: "to4 = Some c4" "core c4 = core (tsk ?k2 ch)" using user_fork_core [OF 4] by blast
    let ?k4 = "?k2\<lparr>k_mem := m\<rparr>"
    have okm: "table_ok ?k4" by (rule table_ok_same [OF ok2]) simp_all
    have "links c4 = links (tsk ?k4 ch)" using core_links [OF c4(2)] by (simp add: tsk_def)
    then have ok4: "table_ok (put_task ch c4 ?k4)" by (intro table_ok_put [OF okm]) (use listed_alloc [OF okm] ch in auto)
    have "k' = ?k2 \<or> k' = task_destroy ch ?k2 \<or> k' = ?k3 \<or> k' = put_task ch c4 ?k4 \<or> k' = task_destroy ch (put_task ch c4 ?k4)"
      using c unfolding namespace_clone_child_def a(1) option.case 1 prod.case Some Let_def 2 c2(1) 4 c4(1) using a(2)
      by (simp split: if_splits)
    then show ?thesis
      using ok2 ok3 ok4 table_ok_destroy [OF ok2] table_ok_destroy [OF ok4] ch by auto
  qed
qed

lemma table_ok_step: "task_step k k' \<Longrightarrow> table_ok k \<Longrightarrow> table_ok k'"
proof (induction rule: task_step.induct)
  case (oom_mark k rc k')
  then show ?case
    by (auto simp: oom_mark_victim_def links_def core_def split: option.splits intro!: upd_noncore)
qed (blast intro: table_ok_exit table_ok_destroy table_ok_reap table_ok_join table_ok_join_finish table_ok_oom_reap
    table_ok_kill table_ok_sandbox table_ok_clone table_ok_same dest: table_ok_create)+

lemma table_ok_init:
  assumes "k_tasks k = (\<lambda>_. None)" "0 < h_calls (k_heap k)" "0 \<in> pid_used (k_pids k)"
  shows "table_ok (task_init k)"
  using assms
  by (simp add: table_ok_def task_init_def put_task_def tsk_def children_ok_def limits_ok_def boot_task_def zero_task_def
      bootstrap_task_def kernel_defs dom_def)

end
