(* ===== verification/TaskLife.thy ===== *)
theory TaskLife
  imports TaskProps FutexProps TmpfsProps MemDomainProps
begin

text \<open>
  The life of a task: the invariant of the table over every run, what \<open>task_create\<close> gives, how
  \<open>task_exit\<close> ends, and what destroying a task that never ran leaves in the run queue.
\<close>

section \<open>A kernel for the witnesses\<close>

definition wit_base :: kernel where
  "wit_base =
     \<lparr>k_pids = \<lparr>g_pid_bitmap = (\<lambda>i. if i = 0 then 1 else 0), g_pid_inited = True\<rparr>, k_heap = wit_heap,
      k_sched = sched_init wit_sched0,
      k_futex = \<lparr>fx_waiters = (\<lambda>_. None), g_buckets = (\<lambda>_. []), g_futex_tick = 0, g_futex_inited = True\<rparr>,
      k_fs = wit_vfs,
      k_mem = \<lparr>um_heap = wit_heap, um_ctx = (\<lambda>_. None), um_vmm = wit_vmm\<lparr>v_pmm := wit_frames\<rparr>,
        g_sig = (\<lambda>_. \<lparr>sg_actions = (\<lambda>_. \<lparr>sa_handler = 0, sa_mask = 0, sa_flags = 0\<rparr>), sg_pending = 0, sg_blocked = 0,
                     sg_in_handler = 0, sg_fault_rip = 0, sg_fault_insn_len = 0, sg_resume = zero_regs, sg_handler_regs = zero_regs, sg_valid = False\<rparr>)\<rparr>,
      k_shm = \<lparr>sh_heap = wit_heap, sh_regions = (\<lambda>_. None), g_shm_table = replicate 64 None, g_shm_next_id = 1,
        sh_preload = (\<lambda>_. None)\<rparr>,
      k_ns = \<lparr>ns_heap = wit_heap, ns_pid = (\<lambda>_. None), ns_mnt = (\<lambda>_. None), ns_ipc = (\<lambda>_. None), g_root_pidns = None,
        g_root_mntns = None, g_root_ipcns = None, ns_next_id = 1\<rparr>,
      k_see = \<lparr>g_pool = (\<lambda>_. zero_instance), g_pool_used = (\<lambda>_. False), cache_head = [], cache_count = 0,
        cache_generation = 0, g_next_sandbox_id = 1, g_total_intercepts = 0, g_kill_count = 0, g_cleanup_count = 0\<rparr>,
      k_files = (\<lambda>_. None), k_htabs = (\<lambda>_. None), k_tasks = (\<lambda>_. None), k_list = [], k_count = 0, k_audit = []\<rparr>"

definition wit_boot :: kernel where "wit_boot = task_init wit_base"

lemma wit_base_used: "pid_used (k_pids wit_base) = {0}"
  by (auto simp: wit_base_def pid_used_def bit_test_iff bit_1_iff split: if_splits)

lemma wit_boot_ok: "table_ok wit_boot"
  unfolding wit_boot_def by (rule table_ok_init) (simp_all add: wit_base_used, simp_all add: wit_base_def wit_heap_def)

text \<open>A first process of privilege 9 with PID 1, and its child.\<close>

definition wit_init :: kernel where
  "wit_init = snd (task_create None (Some ''init'') True None 1 9 0 True wit_boot)"

lemma wit_base_fields:
  "k_heap wit_base = wit_heap" "k_list wit_base = []" "k_tasks wit_base = (\<lambda>_. None)" "um_vmm (k_mem wit_base) = wit_vmm\<lparr>v_pmm := wit_frames\<rparr>"
  "k_count wit_base = 0" "k_sched wit_base = sched_init wit_sched0" "g_root_pidns (k_ns wit_base) = None"
  by (simp_all add: wit_base_def)

lemma wit_create_init: "fst (task_create None (Some ''init'') True None 1 9 0 True wit_boot) = Some 1 \<and>
    k_list wit_init = [1, 0] \<and> privilege_level (tsk wit_init 1) = 9 \<and> t_pid (tsk wit_init 1) = 1"
proof -
  have order: "size_to_order 16384 = 2" by code_simp
  obtain p where p: "pmm_alloc_pages 2 wit_frames = (Some 4, p)" using wit_frames_alloc by blast
  have b: "\<not> bit_test (g_pid_bitmap (k_pids wit_base)) (Suc 0)"
    using wit_base_used by (auto simp: pid_used_def)
  have k: "kzalloc_obj wit_heap = (Some 1, wit_heap\<lparr>h_calls := 2\<rparr>)" "kzalloc_obj (wit_heap\<lparr>h_calls := 2\<rparr>) = (Some 2, wit_heap\<lparr>h_calls := 3\<rparr>)"
    by (simp_all add: kzalloc_obj_def wit_heap_def)
  show ?thesis
    unfolding wit_init_def wit_boot_def
    by (simp add: task_create_def Let_def task_init_def put_task_def tsk_def boot_task_def zero_task_def kernel_defs
        bootstrap_task_def child_privilege_def create_pid_def alloc_pid_kernel_def b k wit_base_fields
        build_task_def compat_preload_inherit_def new_task_def inherit_htab_def create_isolation_def spawn_thread_def
        thread_create_def order link_task_def upd_task_def task_18d_init_def p)
qed

section \<open>The task table\<close>

text \<open>
  C30. The task table over every run: from \<open>task_init\<close> on, whatever operations run (creation, exit,
  destruction, reaping, joining, the OOM killer, sandboxes, clone, steps of other components), the
  allocated control blocks are exactly those of the global chain, which counts them; PIDs are distinct,
  taken in the bitmap and lead back to their task; the chain of children of a task holds tasks that
  name it as their parent, each once, as many as it counts and no more than its limit; and no
  privilege is above 9.
\<close>

theorem task_table_invariant:
  assumes run: "task_step\<^sup>*\<^sup>* (task_init k0) k"
    and k0: "k_tasks k0 = (\<lambda>_. None)" "0 < h_calls (k_heap k0)" "0 \<in> pid_used (k_pids k0)"
  shows "distinct (k_list k) \<and> dom (k_tasks k) = set (k_list k) \<and> unat (k_count k) = length (k_list k) \<and>
    (\<forall>a \<in> set (k_list k).
       t_pid (tsk k a) \<in> pid_used (k_pids k) \<and> find_task k (t_pid (tsk k a)) = Some a \<and>
       privilege_level (tsk k a) \<le> 9 \<and> distinct (children (tsk k a)) \<and>
       children_count (tsk k a) = length (children (tsk k a)) \<and> children_count (tsk k a) \<le> child_process_limit (tsk k a) \<and>
       (\<forall>c \<in> set (children (tsk k a)). c \<in> set (k_list k) \<and> c \<noteq> a \<and> parent_pid (tsk k c) = t_pid (tsk k a)))"
proof -
  have "table_ok k"
    using run table_ok_init [OF k0] by (induction rule: rtranclp_induct) (auto intro: table_ok_step)
  note D = table_okD [OF this]
  have "unat (k_count k) = length (k_list k)"
    unfolding D(5) using table_small [OF \<open>table_ok k\<close>] by (simp add: unsigned_of_nat take_bit_nat_eq_self)
  moreover have "t_pid (tsk k a) \<in> pid_used (k_pids k) \<and> find_task k (t_pid (tsk k a)) = Some a \<and>
       privilege_level (tsk k a) \<le> 9 \<and> distinct (children (tsk k a)) \<and>
       children_count (tsk k a) = length (children (tsk k a)) \<and> children_count (tsk k a) \<le> child_process_limit (tsk k a) \<and>
       (\<forall>c \<in> set (children (tsk k a)). c \<in> set (k_list k) \<and> c \<noteq> a \<and> parent_pid (tsk k c) = t_pid (tsk k a))"
    if "a \<in> set (k_list k)" for a
    using D(9) [OF that] D(11) [OF that] find_task_pid [OF \<open>table_ok k\<close> that] unfolding children_ok_def limits_ok_def by blast
  ultimately show ?thesis using D(1,2) by blast
qed

lemma task_table_invariant_witness: "find_task wit_init 1 = Some 1 \<and> dom (k_tasks wit_init) = {0, 1}"
proof -
  obtain r where "task_create None (Some ''init'') True None 1 9 0 True (task_init wit_base) = (r, wit_init)"
    unfolding wit_init_def wit_boot_def by (metis prod.collapse)
  then have "task_step (task_init wit_base) wit_init" by (intro task_step.create) (auto simp: parent_ok_def)
  then have run: "task_step\<^sup>*\<^sup>* (task_init wit_base) wit_init" by (rule r_into_rtranclp)
  have "0 < h_calls (k_heap wit_base)" by (simp add: wit_base_fields wit_heap_def)
  from task_table_invariant [OF run wit_base_fields(3) this] wit_create_init show ?thesis
    by (auto simp: wit_base_used)
qed

section \<open>Creation\<close>

text \<open>
  C31. \<open>task_create\<close>, both results. A new task gets a control block and a PID that were free, at most the
  privilege of its parent and of the request, never 9 and never critical in a sandbox, the limits of
  its level, and becomes the first child of its parent; no other task changes. On failure no task
  changes and the PID is given back, except a reserved one, which stays taken for ever.
\<close>

theorem task_create_result:
  assumes ok: "table_ok k" and par: "parent_ok parent k"
    and c: "task_create rnd name b parent pid pr fl priv k = (r, k')"
  defines "p \<equiv> (case parent of Some a \<Rightarrow> a | None \<Rightarrow> bootstrap_task)"
  shows "(case r of
       None \<Rightarrow> k_tasks k' = k_tasks k \<and> k_list k' = k_list k \<and>
         (pid_used (k_pids k') = pid_used (k_pids k) \<or> (\<exists>q \<le> 99. pid_used (k_pids k') = insert q (pid_used (k_pids k))))
     | Some a \<Rightarrow>
         k_tasks k a = None \<and> t_pid (tsk k' a) \<notin> pid_used (k_pids k) \<and>
         pid_used (k_pids k') = insert (t_pid (tsk k' a)) (pid_used (k_pids k)) \<and>
         parent_pid (tsk k' a) = t_pid (tsk k p) \<and>
         privilege_level (tsk k' a) \<le> min pr 9 \<and> (parent \<noteq> None \<longrightarrow> privilege_level (tsk k' a) \<le> privilege_level (tsk k p)) \<and>
         (fl \<noteq> 0 \<longrightarrow> privilege_level (tsk k' a) \<noteq> 9 \<and> \<not> is_critical (tsk k' a)) \<and>
         child_process_limit (tsk k' a) = default_child_limit (privilege_level (tsk k' a)) \<and>
         k_list k' = a # k_list k \<and> children (tsk k' p) = a # children (tsk k p) \<and>
         (\<forall>x. x \<noteq> a \<longrightarrow> x \<noteq> p \<longrightarrow> tsk k' x = tsk k x))"
  using c
proof (cases rule: task_create_cases)
  case refused
  then show ?thesis using frameD [OF refused(2)] by simp
next
  case (undone q)
  then show ?thesis by (cases "q \<le> 99") auto
next
  case (created q t1 k1 th p')
  let ?a = "h_calls (k_heap k)"
  let ?l = "link_task ?a t1 th p k1"
  have p': "p' = p" using created(1) by (simp add: p_def)
  have pl: "p \<in> set (k_list k)" using parent_listed [OF ok par] by (simp add: p_def)
  have na: "?a \<notin> set (k_list k)" using table_okD(7) [OF ok] by blast
  then have ne: "?a \<noteq> p" using pl by blast
  have T: "tsk ?l x = (if x = ?a then t1\<lparr>t_thread := Some th\<rparr>
      else if x = p then (tsk k p)\<lparr>children := ?a # children (tsk k p), children_count := children_count (tsk k p) + 1\<rparr>
      else tsk k x)" for x
    using created(5) listed_alloc [OF ok, of p] pl ne by (auto simp: link_task_def Let_def upd_task_def put_task_def tsk_def)
  have I: "tsk (task_18d_init ?a kk) x = tsk kk x" if "x \<noteq> ?a" for kk x
    using that by (simp add: task_18d_init_def Let_def tsk_def put_task_def)
  have C: "core (tsk k' ?a) = core (t1\<lparr>t_thread := Some th\<rparr>)"
    using created(3,4) T [of ?a] p'
    by (simp add: task_18d_init_def Let_def tsk_put_task core_def new_task_def zero_task_def)
  have L: "k_list k' = ?a # k_list k" "k_pids k' = k_pids k1"
    using created(3,6) by (simp_all add: task_18d_init_def link_task_def Let_def)
  have F: "t_pid (tsk k' ?a) = q" "parent_pid (tsk k' ?a) = t_pid (tsk k p)"
    "privilege_level (tsk k' ?a) = child_privilege (map_option (tsk k) parent) pr fl"
    "child_process_limit (tsk k' ?a) = default_child_limit (child_privilege (map_option (tsk k) parent) pr fl)"
    "is_critical (tsk k' ?a) = compute_is_critical q (child_privilege (map_option (tsk k) parent) pr fl) fl priv"
    using C created(4) p' by (auto simp: core_def new_task_def)
  have P: "child_privilege (map_option (tsk k) parent) pr fl \<le> min pr 9"
    "parent \<noteq> None \<Longrightarrow> child_privilege (map_option (tsk k) parent) pr fl \<le> privilege_level (tsk k p)"
    "fl \<noteq> 0 \<Longrightarrow> child_privilege (map_option (tsk k) parent) pr fl \<noteq> 9"
    using child_privilege_le [of "map_option (tsk k) parent" pr fl] child_privilege_9 [OF ok par, of pr fl]
    by (auto simp: p_def child_privilege_def Let_def split: option.splits)
  have N: "k_tasks k ?a = None" using listed_alloc [OF ok] na by blast
  have K: "children (tsk k' p) = ?a # children (tsk k p)" "\<forall>x. x \<noteq> ?a \<longrightarrow> x \<noteq> p \<longrightarrow> tsk k' x = tsk k x"
    using created(3) p' I T ne by auto
  show ?thesis
    using N created(2,9,10) L F P K by (simp add: compute_is_critical_def)
qed

lemma task_create_result_witness:
  "privilege_level (tsk wit_init 1) \<le> 9 \<and> k_list wit_init = 1 # k_list wit_boot \<and> t_pid (tsk wit_init 1) \<notin> pid_used (k_pids wit_boot)"
proof -
  have "task_create None (Some ''init'') True None 1 9 0 True wit_boot = (Some 1, wit_init)"
    using wit_create_init unfolding wit_init_def by (metis prod.collapse)
  from task_create_result [OF wit_boot_ok _ this] show ?thesis by (auto simp: parent_ok_def)
qed

section \<open>Exit\<close>

text \<open>What a task still holds of the other components.\<close>

definition holdings :: "task_t \<Rightarrow> bool \<times> nat option \<times> nat option" where
  "holdings t = (priv_iso_ready t, compat_region t, htab t)"

lemma holdings_close_fds: "holdings (fst (fold close_fd is tk)) = holdings (fst tk)"
proof (induction "is" arbitrary: tk)
  case (Cons i "is")
  have "holdings (fst (close_fd i tk)) = holdings (fst tk)" by (auto simp: close_fd_def holdings_def split: prod.split option.split)
  then show ?case using Cons.IH [of "close_fd i tk"] by simp
qed simp

lemma release_all_holds:
  assumes "release_all t k = (t', k')"
  shows "\<not> priv_iso_ready t' \<and> compat_region t' = None \<and> htab t' = None \<and> shm_list t' = [] \<and> t_pidns t' = None \<and>
    t_mntns t' = None \<and> t_ipcns t' = None"
proof -
  obtain t1 k1 where 1: "teardown_user t k = (t1, k1)" by fastforce
  obtain t2 k2 where 2: "release_sandbox t1 k1 = (t2, k2)" by fastforce
  obtain t3 k3 where 3: "release_isolation t2 k2 = (t3, k3)" by fastforce
  obtain t4 k4 where 4: "release_region t3 k3 = (t4, k4)" by fastforce
  obtain t5 k5 where 5: "destroy_htab t4 k4 = (t5, k5)" by fastforce
  obtain t6 k6 where 6: "fold close_fd [3..<64] (t5, k5) = (t6, k6)" by fastforce
  have "\<not> priv_iso_ready t3" using 3 by (auto simp: release_isolation_def split: if_splits prod.splits)
  then have "\<not> priv_iso_ready t4 \<and> compat_region t4 = None"
    using 4 by (auto simp: release_region_def compat_preload_release_def split: option.splits prod.splits)
  then have "holdings t5 = (False, None, None)" using 5 by (auto simp: destroy_htab_def holdings_def Let_def split: option.splits)
  then have "holdings t6 = (False, None, None)" using holdings_close_fds [of "[3..<64]" "(t5, k5)"] 6 by simp
  moreover have "task_18d_cleanup t5 k5 = (t', k')" using assms 1 2 3 4 5 by (simp add: release_all_def)
  ultimately show ?thesis
    using 6 by (auto simp: task_18d_cleanup_def shm_release_mappings_def namespace_release_def holdings_def split: prod.splits)
qed

text \<open>Dropping the thread's futex waiters neither breaks the queues nor touches another waiter's thread.\<close>

definition same_threads :: "futex_state \<times> sched_state \<Rightarrow> futex_state \<times> sched_state \<Rightarrow> bool" where
  "same_threads k k' \<longleftrightarrow> (sched_ok (snd k) \<longrightarrow> sched_ok (snd k')) \<and> (\<forall>t. threads (snd k') t = None \<longleftrightarrow> threads (snd k) t = None) \<and>
     (\<forall>w. w_th (wtr (fst k') w) = w_th (wtr (fst k) w) \<and> (fx_waiters (fst k') w = None \<longleftrightarrow> fx_waiters (fst k) w = None)) \<and>
     g_current (snd k') = g_current (snd k)"

lemma same_threads_refl: "same_threads k k"
  by (simp add: same_threads_def)

lemma same_threads_trans: "same_threads k k' \<Longrightarrow> same_threads k' k'' \<Longrightarrow> same_threads k k''"
  by (auto simp: same_threads_def)

lemma same_threads_drop: "same_threads (fx, s) (set_woken b w fx, clear_waiter to s)"
proof -
  have "threads (clear_waiter to s) t = None \<longleftrightarrow> threads s t = None" "g_current (clear_waiter to s) = g_current s" for t
    by (auto simp: clear_waiter_def upd_thread_def split: option.split)
  moreover have "w_th (wtr (set_woken b w fx) u) = w_th (wtr fx u) \<and> (fx_waiters (set_woken b w fx) u = None \<longleftrightarrow> fx_waiters fx u = None)" for u
    by (auto simp: set_woken_def wtr_def split: option.split)
  ultimately show ?thesis by (simp add: same_threads_def sched_ok_clear)
qed

lemma same_threads_loop: "same_threads k (snd (drop_loop th ws k))"
proof (induction ws arbitrary: k)
  case (Cons w ws)
  show ?case
  proof (cases "w_th (wtr (fst k) w) = Some th")
    case True
    then show ?thesis
      using same_threads_trans [OF same_threads_drop [of "fst k" "snd k" False w "Some th"] Cons.IH] by simp
  next
    case False
    then show ?thesis using Cons.IH [of k] by (simp split: prod.split) (metis snd_conv)
  qed
qed (simp add: same_threads_refl)

lemma same_threads_wake_all: "same_threads k (futex_wake_all_for_thread to k)"
proof -
  have b: "same_threads k (drop_bucket t i k)" for t i k
  proof -
    obtain ws fx s where "drop_loop t (g_buckets (fst k) i) k = (ws, fx, s)" by (metis prod_cases3)
    then show ?thesis using same_threads_loop [of k t "g_buckets (fst k) i"]
      by (simp add: drop_bucket_def same_threads_def set_bucket_def wtr_def)
  qed
  have "same_threads k (fold (drop_bucket t) bs k)" for t bs
  proof (induction bs arbitrary: k)
    case (Cons i bs)
    show ?case using same_threads_trans [OF b Cons.IH] by simp
  qed (simp add: same_threads_refl)
  then show ?thesis by (simp add: futex_wake_all_for_thread_def same_threads_refl split: option.split)
qed

text \<open>The thread that waits in \<open>task_join\<close> for the task still exists.\<close>

definition joiner_live :: "nat \<Rightarrow> kernel \<Rightarrow> bool" where
  "joiner_live a k \<longleftrightarrow> (\<forall>w th. join_waiter (tsk k a) = Some w \<longrightarrow> w_th (wtr (k_futex k) w) = Some th \<longrightarrow>
     threads (k_sched k) th \<noteq> None)"

text \<open>The state just before \<open>thread_exit\<close>.\<close>

lemma exit_task_result:
  assumes ok: "table_ok k" and a: "a \<in> set (k_list k)" and so: "sched_ok (k_sched k)"
    and joiner: "joiner_live a k"
    and e: "exit_task a code k = k'"
  shows "sched_ok (k_sched k') \<and> k_tasks k' a \<noteq> None \<and> is_zombie (tsk k' a) \<and> exit_code (tsk k' a) = code \<and>
    t_pid (tsk k' a) = t_pid (tsk k a) \<and> k_list k' = k_list k \<and>
    (\<not> priv_iso_ready (tsk k' a) \<and> compat_region (tsk k' a) = None \<and> htab (tsk k' a) = None \<and> shm_list (tsk k' a) = [] \<and>
     t_pidns (tsk k' a) = None \<and> t_mntns (tsk k' a) = None \<and> t_ipcns (tsk k' a) = None) \<and>
    (\<forall>w. join_waiter (tsk k a) = Some w \<longrightarrow> fx_waiters (k_futex k) w \<noteq> None \<longrightarrow> woken (wtr (k_futex k') w))"
proof -
  let ?fs = "futex_wake_all_for_thread (g_current (k_sched k)) (k_futex k, k_sched k)"
  define k1 where "k1 = k\<lparr>k_futex := fst ?fs, k_sched := snd ?fs\<rparr>"
  define k2 where "k2 = upd_task a (\<lambda>t. t\<lparr>exit_code := code\<rparr>) k1"
  define k3 where "k3 = (if a \<noteq> bootstrap_task then unlink_from_parent a k2 else k2)"
  define kz where "kz = upd_task a (\<lambda>t. t\<lparr>is_zombie := True, join_waiter := None\<rparr>) k3"
  define k4 where "k4 = wake_joiner (join_waiter (tsk k3 a)) kz"
  obtain t k5 where r: "release_all (tsk k4 a) k4 = (t, k5)" by fastforce
  have k': "k' = put_task a t k5"
    using e unfolding exit_task_def Let_def k1_def [symmetric] k2_def [symmetric] k3_def [symmetric] kz_def [symmetric]
      k4_def [symmetric] r by simp
  have st: "same_threads (k_futex k, k_sched k) ?fs" by (rule same_threads_wake_all)
  have a1: "k_tasks k1 a \<noteq> None" using listed_alloc [OF ok] a by (simp add: k1_def)
  have ok1: "table_ok k1" by (rule table_ok_same [OF ok]) (simp_all add: k1_def)
  have ok2: "table_ok k2" unfolding k2_def by (rule upd_noncore [OF ok1]) (simp add: links_def core_def)
  have t2: "tsk k2 a = (tsk k a)\<lparr>exit_code := code\<rparr>" using a1 by (simp add: k2_def tsk_upd_task) (simp add: k1_def tsk_def)
  have t3: "tsk k3 a = tsk k2 a"
    using tsk_unlink [OF ok2, of a a] child_listed(3) [OF ok2, of a a] by (auto simp: k3_def retired_def)
  have f: "k_futex kz = fst ?fs" "k_sched kz = snd ?fs" "k_list kz = k_list k" by (simp_all add: kz_def k3_def k2_def k1_def)
  have "dom (k_tasks k3) = dom (k_tasks k1)" by (simp add: k3_def k2_def)
  then have d3: "k_tasks k3 a \<noteq> None" using a1 by blast
  have t4: "tsk k4 a = (tsk k2 a)\<lparr>is_zombie := True, join_waiter := None\<rparr>"
    using d3 by (simp add: k4_def kz_def tsk_upd_task t3)
  have jw: "join_waiter (tsk k3 a) = join_waiter (tsk k a)" by (simp add: t3 t2)
  have "sched_ok (k_sched k4) \<and> (\<forall>w. join_waiter (tsk k a) = Some w \<longrightarrow> fx_waiters (k_futex k) w \<noteq> None \<longrightarrow> woken (wtr (k_futex k4) w))"
  proof (cases "join_waiter (tsk k a)")
    case None
    then show ?thesis using so st f by (simp add: k4_def jw wake_joiner_def same_threads_def)
  next
    case (Some w)
    have "sched_ok (sched_enqueue_thread (w_th (wtr (fst ?fs) w)) (snd ?fs))"
      by (rule sched_ok_enqueue') (use so st joiner Some in \<open>auto simp: same_threads_def joiner_live_def\<close>)
    moreover have "woken (wtr (set_woken True w (fst ?fs)) w)" if "fx_waiters (k_futex k) w \<noteq> None"
    proof -
      have "fx_waiters (fst ?fs) w \<noteq> None" using st that unfolding same_threads_def by auto
      then show ?thesis by (auto simp: set_woken_def wtr_def)
    qed
    ultimately show ?thesis using Some f by (simp add: k4_def jw wake_joiner_def)
  qed
  moreover have q: "core t = core (tsk k4 a)" "frame k5 = frame k4" using quietD [OF quiet_release_all r] by simp_all
  moreover have "is_zombie t" "exit_code t = code" "t_pid t = t_pid (tsk k a)" using q(1) by (simp_all add: t4 t2 core_def)
  moreover have "k_list k5 = k_list k" using frameD [OF q(2)] f(3) by (simp add: k4_def)
  ultimately show ?thesis
    using release_all_holds [OF r] frameD [OF q(2)] unfolding k' by (simp add: tsk_put_task) (simp add: put_task_def)
qed


text \<open>The first process runs on the bootstrap thread while another thread waits for it.\<close>

definition wit_joined :: kernel where
  "wit_joined =
     upd_task 1 (\<lambda>t. t\<lparr>join_waiter := Some 5\<rparr>) (wit_init\<lparr>
       k_sched := upd_thread g_bootstrap (\<lambda>x. x\<lparr>th_task := Some 1\<rparr>)
         (sched_init wit_sched0\<lparr>threads := (threads (sched_init wit_sched0))(3 \<mapsto> zero_thread), g_next_tid := 2, g_all := Some 3\<rparr>),
       k_futex := (k_futex wit_init)\<lparr>fx_waiters := [5 \<mapsto> \<lparr>w_th = Some 3, w_uaddr = 0, w_pid = 0, wake_deadline = 0, woken = False\<rparr>]\<rparr>\<rparr>)"

lemma wit_init_ok: "table_ok wit_init"
proof -
  have "task_create None (Some ''init'') True None 1 9 0 True wit_boot = (Some 1, wit_init)"
    using wit_create_init unfolding wit_init_def by (metis prod.collapse)
  then have "task_step wit_boot wit_init" by (intro task_step.create) (auto simp: parent_ok_def)
  then show ?thesis by (rule table_ok_step [OF _ wit_boot_ok])
qed

lemma wit_joined_ok: "table_ok wit_joined"
  unfolding wit_joined_def
  by (rule upd_noncore, rule table_ok_same [OF wit_init_ok]) (simp_all add: links_def core_def)

lemma wit_joined_sched: "sched_ok (k_sched wit_joined)"
proof -
  have "sched_ok (sched_init wit_sched0)" by (rule sched_ok_init) (simp_all add: wit_sched0_def)
  then have "sched_ok (sched_init wit_sched0\<lparr>threads := (threads (sched_init wit_sched0))(3 \<mapsto> zero_thread), g_next_tid := 2, g_all := Some 3\<rparr>)"
    by (rule sched_ok_new) (simp_all add: zero_thread_def sched_init_def wit_sched0_def g_bootstrap_def)
  then show ?thesis by (simp add: wit_joined_def) (rule sched_ok_upd, simp_all)
qed


section \<open>A clone that fails\<close>

text \<open>A created task has a thread at the end of a run queue.\<close>

lemma spawn_thread_queued:
  assumes "spawn_thread n p k = (Some th, k')"
  shows "\<exists>q. rq_tail (k_sched k') q = Some th"
proof -
  have "\<exists>q. rq_tail (rq_push q' th (s\<lparr>threads := (threads s)(th \<mapsto> x), g_next_tid := i, g_all := g\<rparr>)) q = Some th"
    if "\<not> in_rq x" for s x i g q'
    using that by (intro exI [of _ q']) (simp add: rq_push_def Let_def thr_def)
  then show ?thesis
    using assms by (auto simp: spawn_thread_def thread_create_def Let_def zero_thread_def split: if_splits option.splits prod.splits)
qed

lemma task_create_queued:
  assumes "task_create rnd name b parent pid pr fl priv k = (Some c, k')"
  shows "\<exists>th q. t_thread (tsk k' c) = Some th \<and> rq_tail (k_sched k') q = Some th"
proof -
  have "\<exists>a t par k1. build_task rnd a t par k1 = (Some c, k')"
    using assms unfolding task_create_def Let_def by (simp split: if_splits option.splits prod.splits) blast+
  then obtain a t par k1 where B: "build_task rnd a t par k1 = (Some c, k')" by blast
  obtain t1 s1 where 1: "compat_preload_inherit t (tsk k1 par) (k_shm k1) = (t1, s1)" by fastforce
  obtain o2 t2 kk2 where 2: "inherit_htab (tsk k1 par) t1 (k1\<lparr>k_shm := s1\<rparr>) = (o2, t2, kk2)" by (metis prod_cases3)
  obtain o3 t' kk where 3: "create_isolation rnd t2 kk2 = (o3, t', kk)" by (metis prod_cases3)
  obtain r k2 where 4: "spawn_thread (t_name t') (privilege_level t') kk = (r, k2)" by fastforce
  obtain th where s: "spawn_thread (t_name t') (privilege_level t') kk = (Some th, k2)"
      and k': "k' = task_18d_init c (link_task c t' th par k2)"
    using B by (cases r) (auto simp: build_task_def 1 2 3 4 split: if_splits prod.splits)
  have "rq_tail (k_sched k') = rq_tail (k_sched k2)"
    by (simp add: k' task_18d_init_def link_task_def Let_def upd_thread_def)
  moreover have "t_thread (tsk (link_task c t' th par k2) c) = Some th"
    by (auto simp: link_task_def Let_def upd_task_def put_task_def tsk_def split: option.split)
  then have "t_thread (tsk k' c) = Some th"
    by (simp add: k' task_18d_init_def Let_def put_task_def tsk_def)
  ultimately show ?thesis using spawn_thread_queued [OF s] by auto
qed

text \<open>
  C33. \<open>namespace_clone_child\<close> when the child exists but its PID name space cannot be allocated: the call
  returns -ENOMEM after \<open>task_destroy\<close>, which frees the child and its thread without taking the thread
  out of the run queue. The tail of a run queue then points to freed memory.
\<close>

theorem clone_failure_dangles:
  assumes ok: "table_ok k" and a: "a \<in> set (k_list k)" "2 \<le> privilege_level (tsk k a)"
    and c: "task_create rnd (Some ''clone-child'') True (Some a) 0 (privilege_level (tsk k a)) 0 False k = (Some c, k1)"
    and f: "flags AND CLONE_NEWPID \<noteq> 0" "fst (kzalloc_obj (ns_heap (k_ns k1))) = None"
  shows "\<exists>k' q th. namespace_clone_child (Some a) flags rnd k = (-12, k') \<and> k_tasks k' c = None \<and>
    rq_tail (k_sched k') q = Some th \<and> threads (k_sched k') th = None"
proof -
  have par: "parent_ok (Some a) k" using a by (simp add: parent_ok_def)
  have ok1: "table_ok k1" using table_ok_step [OF task_step.create [OF par c] ok] .
  obtain th q where q: "t_thread (tsk k1 c) = Some th" "rq_tail (k_sched k1) q = Some th" using task_create_queued [OF c] by blast
  have cl: "k_list k1 = c # k_list k" and cf: "k_tasks k c = None"
    using task_create_result [OF ok par c] by auto
  obtain h where h: "kzalloc_obj (ns_heap (k_ns k1)) = (None, h)" using f(2) by (metis surj_pair fst_conv)
  let ?t = "(tsk k1 c)\<lparr>t_pidns := None\<rparr>"
  let ?k = "put_task c ?t (k1\<lparr>k_ns := (k_ns k1)\<lparr>ns_heap := h\<rparr>\<rparr>)"
  have nf: "namespace_fork (Some (tsk k1 a)) (Some (tsk k1 c)) flags (k_ns k1) = (-12, Some ?t, (k_ns k1)\<lparr>ns_heap := h\<rparr>)"
    using f(1) by (simp add: namespace_fork_def fork_pidns_def alloc_pidns_def h)
  have e: "namespace_clone_child (Some a) flags rnd k = (-12, task_destroy c ?k)"
    using a(2) by (simp add: namespace_clone_child_def c nf Let_def)
  have cn: "c \<in> set (k_list k1)" "c \<noteq> bootstrap_task"
    using cl cf table_okD(3) [OF ok] listed_alloc [OF ok, of bootstrap_task] by auto
  have "table_ok (k1\<lparr>k_ns := (k_ns k1)\<lparr>ns_heap := h\<rparr>\<rparr>)" by (rule table_ok_same [OF ok1]) simp_all
  then have okk: "table_ok ?k"
    by (rule table_ok_put) (use listed_alloc [OF ok1, of c] cn in \<open>simp_all add: links_def core_def tsk_def\<close>)
  have "t_thread (tsk ?k c) = Some th" using q(1) by (simp add: tsk_put_task)
  then have "k_tasks (task_destroy c ?k) c = None \<and>
      k_sched (task_destroy c ?k) = (k_sched ?k)\<lparr>threads := (threads (k_sched ?k))(th := None)\<rparr>"
    using task_destroy_gone [OF okk, of c] cn by simp
  then show ?thesis using e q(2) by (intro exI [of _ "task_destroy c ?k"] exI [of _ q] exI [of _ th]) simp
qed

text \<open>A clone by the bootstrap task with no memory left for name spaces.\<close>

definition wit_no_ns :: kernel where
  "wit_no_ns = wit_boot\<lparr>k_ns := (k_ns wit_boot)\<lparr>ns_heap := wit_heap\<lparr>h_outcome := (\<lambda>_. False)\<rparr>\<rparr>\<rparr>"

lemma wit_no_ns_fields:
  "tsk wit_no_ns 0 = boot_task" "k_pids wit_no_ns = k_pids wit_base" "k_heap wit_no_ns = wit_heap"
  "k_sched wit_no_ns = sched_init wit_sched0" "k_mem wit_no_ns = k_mem wit_base"
  by (simp_all add: wit_no_ns_def wit_boot_def task_init_def put_task_def tsk_def bootstrap_task_def wit_base_fields)

lemma boot_task_fields:
  "privilege_level boot_task = 9" "children_count boot_task = 0" "child_process_limit boot_task = 128"
  "compat_region boot_task = None" "htab boot_task = None" "compat_type boot_task = COMPAT_TYPE_NONE"
  by (simp_all add: boot_task_def zero_task_def kernel_defs)

lemma wit_kzalloc:
  "kzalloc_obj wit_heap = (Some 1, wit_heap\<lparr>h_calls := 2\<rparr>)" "kzalloc_obj (wit_heap\<lparr>h_calls := 2\<rparr>) = (Some 2, wit_heap\<lparr>h_calls := 3\<rparr>)"
  by (simp_all add: kzalloc_obj_def wit_heap_def)

lemma wit_create_pid:
  "create_pid 0 False (k_pids wit_base) =
      (1000, (k_pids wit_base)\<lparr>g_pid_bitmap := bit_set 1000 (g_pid_bitmap (k_pids wit_base))\<rparr>)"
proof -
  have "1000 \<notin> pid_used (k_pids wit_base)" by (simp add: wit_base_used)
  then have "\<not> bit_test (g_pid_bitmap (k_pids wit_base)) 1000" by (simp add: bit_test_used)
  then show ?thesis
    by (simp add: create_pid_def alloc_pid_def scan_and_claim_def scan_bits.simps [of _ 1000] kernel_defs)
qed

lemma wit_spawn:
  assumes "k_heap k = wit_heap\<lparr>h_calls := 2\<rparr>" "um_vmm (k_mem k) = wit_vmm\<lparr>v_pmm := wit_frames\<rparr>"
  shows "\<exists>k'. spawn_thread n pr k = (Some 2, k') \<and> k_ns k' = k_ns k"
proof -
  have order: "size_to_order 16384 = 2" by code_simp
  obtain p where p: "pmm_alloc_pages 2 wit_frames = (Some 4, p)" using wit_frames_alloc by blast
  show ?thesis
    by (simp add: spawn_thread_def thread_create_def assms wit_kzalloc Let_def THREAD_KSTACK_SIZE_def order p MAX_ORDER_def)
qed

lemma wit_no_ns_create:
  "\<exists>k1. task_create None (Some ''clone-child'') True (Some 0) 0 (privilege_level (tsk wit_no_ns 0)) 0 False wit_no_ns = (Some 1, k1) \<and>
     fst (kzalloc_obj (ns_heap (k_ns k1))) = None"
proof -
  let ?p = "(k_pids wit_base)\<lparr>g_pid_bitmap := bit_set 1000 (g_pid_bitmap (k_pids wit_base))\<rparr>"
  let ?n = "new_task (Some ''clone-child'') 1000 6 0 False boot_task"
  let ?k = "wit_no_ns\<lparr>k_pids := ?p, k_heap := wit_heap\<lparr>h_calls := 2\<rparr>\<rparr>"
  have c: "child_privilege (Some boot_task) 9 0 = 6" by (simp add: child_privilege_def boot_task_fields inherit_privilege_def)
  have t: "task_create None (Some ''clone-child'') True (Some 0) 0 9 0 False wit_no_ns = build_task None 1 ?n 0 ?k"
    by (simp add: task_create_def wit_no_ns_fields boot_task_fields c wit_create_pid wit_kzalloc)
  have tk: "tsk ?k 0 = boot_task" using wit_no_ns_fields(1) by (simp add: tsk_def)
  have n: "compat_region ?n = None" "privilege_level ?n = 6" by (simp_all add: new_task_def zero_task_def)
  obtain k' where s: "spawn_thread (t_name ?n) 6 ?k = (Some 2, k')" "k_ns k' = k_ns wit_no_ns"
    using wit_spawn [of ?k] by (auto simp: wit_no_ns_fields wit_base_fields)
  have h: "ns_heap (namespace_retain tt ss) = ns_heap ss" for tt ss
    by (simp add: namespace_retain_def get_ipcns_def get_mntns_def get_pidns_def split: option.split)
  have "compat_preload_inherit ?n boot_task sh = (?n, sh)" for sh
    by (simp add: compat_preload_inherit_def boot_task_fields new_task_def zero_task_def)
  then have b: "build_task None 1 ?n 0 ?k = (Some 1, task_18d_init 1 (link_task 1 ?n 2 0 k'))"
    using s n by (simp add: build_task_def tk inherit_htab_def boot_task_fields create_isolation_def)
  have "ns_heap (k_ns (task_18d_init 1 (link_task 1 ?n 2 0 k'))) = wit_heap\<lparr>h_outcome := (\<lambda>_. False)\<rparr>"
    using s(2) by (simp add: task_18d_init_def Let_def h link_task_def wit_no_ns_def put_task_def upd_task_def)
  then show ?thesis using t b by (simp add: wit_no_ns_fields boot_task_fields kzalloc_obj_def)
qed

lemma clone_failure_dangles_witness:
  "\<exists>k' q th. namespace_clone_child (Some 0) CLONE_NEWPID None wit_no_ns = (-12, k') \<and> rq_tail (k_sched k') q = Some th \<and>
     threads (k_sched k') th = None"
proof -
  have ok: "table_ok wit_no_ns" unfolding wit_no_ns_def by (rule table_ok_same [OF wit_boot_ok]) simp_all
  obtain k1 where k1: "task_create None (Some ''clone-child'') True (Some 0) 0 (privilege_level (tsk wit_no_ns 0)) 0 False wit_no_ns
      = (Some 1, k1)" "fst (kzalloc_obj (ns_heap (k_ns k1))) = None"
    using wit_no_ns_create by blast
  have "0 \<in> set (k_list wit_no_ns)" "2 \<le> privilege_level (tsk wit_no_ns 0)"
    by (simp_all add: wit_no_ns_def wit_boot_def task_init_def put_task_def tsk_def boot_task_def kernel_defs bootstrap_task_def)
  from clone_failure_dangles [OF ok this k1(1) _ k1(2), of CLONE_NEWPID] show ?thesis by (auto simp: CLONE_NEWPID_def)
qed

end
