(* ===== verification/Pipe.thy ===== *)
theory Pipe
  imports Task LinuxStack
begin

text \<open>
  Pipes (\<open>pipefs.c\<close>) and \<open>poll\<close> (\<open>select.c\<close>). A pipe is named by the number of its allocation, a thread
  that sleeps by its block. \<open>pipefs_read\<close> and \<open>pipefs_write\<close> are loops around \<open>schedule\<close>: a pass of the
  loop, up to the result or to the point where the thread sleeps, is one step; after the thread runs
  again the next pass starts. Locks and messages are left out.
\<close>

section \<open>State\<close>

definition PIPE_BUF_SIZE :: nat where [kernel_defs]: "PIPE_BUF_SIZE = 4096"
definition VFS_O_RDONLY :: u32 where [kernel_defs]: "VFS_O_RDONLY = 1"
definition VFS_O_RDWR :: u32 where [kernel_defs]: "VFS_O_RDWR = 3"
definition POLLIN :: u16 where [kernel_defs]: "POLLIN = 1"
definition POLLOUT :: u16 where [kernel_defs]: "POLLOUT = 2"
definition POLLERR :: u16 where [kernel_defs]: "POLLERR = 4"
definition POLLHUP :: u16 where [kernel_defs]: "POLLHUP = 0x10"

text \<open>The chain of wait nodes is the list of their threads, the newest first.\<close>

record pipe_inode =
  p_data :: "nat \<Rightarrow> u8"
  p_head :: nat
  p_tail :: nat
  p_len :: nat
  p_readers :: nat
  p_writers :: nat
  p_read_waiters :: "nat list"
  p_write_waiters :: "nat list"
  p_read_wait_count :: nat
  p_write_wait_count :: nat

text \<open>The open file of a pipe: its flags and \<open>private_data\<close>.\<close>

record pipe_file =
  pf_flags :: u32
  pf_private :: "nat option"

text \<open>
  \<open>g_poll_waiters\<close> is the list \<open>po_list\<close> of waiters; \<open>po_thread\<close> gives the thread of a waiter that is
  allocated. \<open>po_freed\<close> is the sequence of the waiters that \<open>kfree\<close> was called with.
\<close>

record pipe_state =
  pi_heap :: kheap
  pi_sched :: sched_state
  pi_pipes :: "nat \<Rightarrow> pipe_inode option"
  po_list :: "nat list"
  po_thread :: "nat \<Rightarrow> nat option"
  po_freed :: "nat list"

definition enqueue_all :: "nat list \<Rightarrow> sched_state \<Rightarrow> sched_state" where
  "enqueue_all ths s = fold (\<lambda>th. sched_enqueue_thread (Some th)) ths s"

section \<open>Waking those who poll\<close>

definition free_poll_waiter :: "nat \<Rightarrow> pipe_state \<Rightarrow> pipe_state" where
  "free_poll_waiter w st = st\<lparr>po_thread := (po_thread st)(w := None), po_freed := po_freed st @ [w]\<rparr>"

fun notify_loop :: "nat list \<Rightarrow> pipe_state \<Rightarrow> pipe_state" where
  "notify_loop [] st = st"
| "notify_loop (w # ws) st =
     notify_loop ws (free_poll_waiter w (st\<lparr>pi_sched := sched_enqueue_thread (po_thread st w) (pi_sched st)\<rparr>))"

definition select_notify_wakeup :: "pipe_state \<Rightarrow> pipe_state" where
  "select_notify_wakeup st = notify_loop (po_list st) (st\<lparr>po_list := []\<rparr>)"

section \<open>Wait chains\<close>

text \<open>When the node cannot be allocated the thread is not recorded; the caller blocks all the same.\<close>

definition wait_push :: "nat \<Rightarrow> nat list \<times> nat \<Rightarrow> kheap \<Rightarrow> (nat list \<times> nat) \<times> kheap" where
  "wait_push th wl h =
     (case kzalloc_obj h of
        (None, h) \<Rightarrow> (wl, h)
      | (Some _, h) \<Rightarrow> ((th # fst wl, snd wl + 1), h))"

definition wait_wake_all :: "nat list \<times> nat \<Rightarrow> sched_state \<Rightarrow> (nat list \<times> nat) \<times> sched_state" where
  "wait_wake_all wl s = (([], snd wl - length (fst wl)), enqueue_all (fst wl) s)"

definition put_pipe :: "nat \<Rightarrow> pipe_inode \<Rightarrow> pipe_state \<Rightarrow> pipe_state" where
  "put_pipe a p st = st\<lparr>pi_pipes := (pi_pipes st)(a \<mapsto> p)\<rparr>"

definition wake_readers :: "nat \<Rightarrow> pipe_inode \<Rightarrow> pipe_state \<Rightarrow> pipe_inode \<times> pipe_state" where
  "wake_readers a p st =
     (case wait_wake_all (p_read_waiters p, p_read_wait_count p) (pi_sched st) of
        ((ws, n), s) \<Rightarrow> (p\<lparr>p_read_waiters := ws, p_read_wait_count := n\<rparr>, st\<lparr>pi_sched := s\<rparr>))"

definition wake_writers :: "nat \<Rightarrow> pipe_inode \<Rightarrow> pipe_state \<Rightarrow> pipe_inode \<times> pipe_state" where
  "wake_writers a p st =
     (case wait_wake_all (p_write_waiters p, p_write_wait_count p) (pi_sched st) of
        ((ws, n), s) \<Rightarrow> (p\<lparr>p_write_waiters := ws, p_write_wait_count := n\<rparr>, st\<lparr>pi_sched := s\<rparr>))"

section \<open>Reading\<close>

text \<open>The two copy loops: \<open>n\<close> bytes at the head, \<open>n\<close> bytes at the tail.\<close>

fun ring_take :: "nat \<Rightarrow> pipe_inode \<Rightarrow> u8 list \<times> pipe_inode" where
  "ring_take 0 p = ([], p)"
| "ring_take (Suc n) p =
     (case ring_take n (p\<lparr>p_head := (p_head p + 1) mod PIPE_BUF_SIZE\<rparr>) of
        (bs, p') \<Rightarrow> (p_data p (p_head p) # bs, p'))"

fun ring_put :: "u8 list \<Rightarrow> pipe_inode \<Rightarrow> pipe_inode" where
  "ring_put [] p = p"
| "ring_put (b # bs) p =
     ring_put bs (p\<lparr>p_data := (p_data p)(p_tail p := b), p_tail := (p_tail p + 1) mod PIPE_BUF_SIZE\<rparr>)"

text \<open>A result with the bytes read, or none when the thread sleeps.\<close>

definition pipe_read_pass :: "pipe_file \<Rightarrow> bool \<Rightarrow> u64 \<Rightarrow> pipe_state \<Rightarrow> (int \<times> u8 list) option \<times> pipe_state" where
  "pipe_read_pass f has_buf count st =
     (if \<not> has_buf then (Some (-22, []), st)
      else case (case pf_private f of None \<Rightarrow> None | Some a \<Rightarrow> map_option (Pair a) (pi_pipes st a)) of
        None \<Rightarrow> (Some (-5, []), st)
      | Some (a, p) \<Rightarrow>
          if p_len p > 0 then
            let n = min (unat count) (p_len p);
                (bs, p) = ring_take n p;
                p = p\<lparr>p_len := p_len p - n\<rparr>;
                (p, st) = (if p_write_wait_count p > 0 then wake_writers a p st else (p, st))
            in (Some (int n, bs), select_notify_wakeup (put_pipe a p st))
          else if p_writers p = 0 then (Some (0, []), st)
          else case g_current (pi_sched st) of
              None \<Rightarrow> (Some (-1, []), st)
            | Some self \<Rightarrow>
                (case wait_push self (p_read_waiters p, p_read_wait_count p) (pi_heap st) of
                   ((ws, n), h) \<Rightarrow>
                     (None, put_pipe a (p\<lparr>p_read_waiters := ws, p_read_wait_count := n\<rparr>)
                        (st\<lparr>pi_heap := h, pi_sched := set_state THREAD_STATE_BLOCKED (Some self) (pi_sched st)\<rparr>))))"

section \<open>Writing\<close>

text \<open>One turn of the loop with room in the buffer: the bytes taken and the wake-ups.\<close>

definition pipe_write_some :: "nat \<Rightarrow> u8 list \<Rightarrow> pipe_inode \<Rightarrow> pipe_state \<Rightarrow> pipe_state" where
  "pipe_write_some a bs p st =
     (let p = ring_put bs p;
          p = p\<lparr>p_len := p_len p + length bs\<rparr>;
          (p, st) = (if p_read_wait_count p > 0 then wake_readers a p st else (p, st))
      in select_notify_wakeup (put_pipe a p st))"

text \<open>
  The loop from \<open>written\<close> on: \<open>Inl\<close> the result, \<open>Inr\<close> the count at which the thread sleeps. With room in the
  buffer it writes at least a byte, so it ends.
\<close>

function pipe_write_loop :: "nat \<Rightarrow> u8 list \<Rightarrow> nat \<Rightarrow> pipe_state \<Rightarrow> (int + nat) \<times> pipe_state" where
  "pipe_write_loop a buf written st =
     (if \<not> written < length buf then (Inl (int written), st)
      else case pi_pipes st a of
        None \<Rightarrow> (Inl (-5), st)
      | Some p \<Rightarrow>
          if p_readers p = 0 then (Inl (if written > 0 then int written else -32), st)
          else if p_len p < PIPE_BUF_SIZE then
            let n = min (length buf - written) (PIPE_BUF_SIZE - p_len p)
            in pipe_write_loop a buf (written + n) (pipe_write_some a (take n (drop written buf)) p st)
          else case g_current (pi_sched st) of
              None \<Rightarrow> (Inl (-1), st)
            | Some self \<Rightarrow>
                (case wait_push self (p_write_waiters p, p_write_wait_count p) (pi_heap st) of
                   ((ws, n), h) \<Rightarrow>
                     (Inr written, put_pipe a (p\<lparr>p_write_waiters := ws, p_write_wait_count := n\<rparr>)
                        (st\<lparr>pi_heap := h, pi_sched := set_state THREAD_STATE_BLOCKED (Some self) (pi_sched st)\<rparr>))))"
  by pat_completeness auto
termination
  by (relation "measure (\<lambda>(a, buf, written, st). length buf - written)") auto

declare pipe_write_loop.simps [simp del]

definition pipe_write_pass :: "pipe_file \<Rightarrow> bool \<Rightarrow> u8 list \<Rightarrow> nat \<Rightarrow> pipe_state \<Rightarrow> (int + nat) \<times> pipe_state" where
  "pipe_write_pass f has_buf buf written st =
     (if \<not> has_buf then (Inl (-22), st)
      else case (case pf_private f of None \<Rightarrow> None | Some a \<Rightarrow> map_option (Pair a) (pi_pipes st a)) of
        None \<Rightarrow> (Inl (-5), st)
      | Some (a, _) \<Rightarrow> pipe_write_loop a buf written st)"

section \<open>Closing, polling\<close>

definition pipe_is_reader :: "pipe_file \<Rightarrow> bool" where
  "pipe_is_reader f \<longleftrightarrow> pf_flags f AND VFS_O_WRONLY = 0"

definition pipefs_close :: "pipe_file option \<Rightarrow> pipe_state \<Rightarrow> int \<times> pipe_file option \<times> pipe_state" where
  "pipefs_close fo st =
     (case fo of
        None \<Rightarrow> (-22, None, st)
      | Some f \<Rightarrow>
          (case (case pf_private f of None \<Rightarrow> None | Some a \<Rightarrow> map_option (Pair a) (pi_pipes st a)) of
             None \<Rightarrow> (0, Some f, st)
           | Some (a, p) \<Rightarrow>
               let p = (if pipe_is_reader f then p\<lparr>p_readers := p_readers p - 1\<rparr> else p\<lparr>p_writers := p_writers p - 1\<rparr>);
                   (p, st) = (if p_readers p = 0 then wake_writers a p st else (p, st));
                   (p, st) = (if p_writers p = 0 then wake_readers a p st else (p, st));
                   st = select_notify_wakeup (put_pipe a p st);
                   st = (if p_readers p = 0 \<and> p_writers p = 0 then st\<lparr>pi_pipes := (pi_pipes st)(a := None)\<rparr> else st)
               in (0, Some (f\<lparr>pf_private := None\<rparr>), st)))"

definition pipefs_poll :: "pipe_file option \<Rightarrow> u16 \<Rightarrow> pipe_state \<Rightarrow> u16" where
  "pipefs_poll fo events st =
     (case (case fo of None \<Rightarrow> None | Some f \<Rightarrow>
              (case pf_private f of None \<Rightarrow> None | Some a \<Rightarrow> map_option (Pair f) (pi_pipes st a))) of
        None \<Rightarrow> 0
      | Some (f, p) \<Rightarrow>
          if pipe_is_reader f then
            (if p_len p > 0 then POLLIN else 0) OR (if p_writers p = 0 then POLLHUP else 0)
          else
            (if p_len p < PIPE_BUF_SIZE then POLLOUT else 0) OR (if p_readers p = 0 then POLLERR else 0))"

section \<open>Poll\<close>

text \<open>
  The physical address behind a user address, when the entry is present and a user's. Huge pages are not
  looked at.
\<close>

definition user_pa :: "nat \<Rightarrow> u64 \<Rightarrow> vmm_state \<Rightarrow> nat option" where
  "user_pa pml4 va v =
     (case vmm_get_pte pml4 va v of
        None \<Rightarrow> None
      | Some (pt, i) \<Rightarrow>
          if \<not> has_flag (pt_mem v pt i) PTE_PRESENT \<or> \<not> has_flag (pt_mem v pt i) PTE_USER then None
          else Some (unat ((pt_mem v pt i AND PTE_ADDR_MASK) + (va AND 0xFFF))))"

record pollfd =
  pl_fd :: u32
  pl_events :: u16
  pl_revents :: u16

text \<open>\<open>files\<close>: the open files that have a \<open>poll\<close> operation, which are those of pipes.\<close>

definition fd_ready :: "(nat \<Rightarrow> pipe_file option) \<Rightarrow> task_t \<Rightarrow> u32 \<Rightarrow> u16 \<Rightarrow> pipe_state \<Rightarrow> u16" where
  "fd_ready files cur fd events st =
     (if sint fd < 0 \<or> sint fd \<ge> 64 then POLLERR
      else if sint fd \<le> 2 then events AND (POLLIN OR POLLOUT)
      else case fd_table cur ! unat fd of
          None \<Rightarrow> POLLERR
        | Some f \<Rightarrow>
            (case files f of
               None \<Rightarrow> events AND (POLLIN OR POLLOUT)
             | Some pf \<Rightarrow> pipefs_poll (Some pf) events st))"

text \<open>\<open>task_user_pml4\<close> is \<open>shm_pml4\<close> of Shm.\<close>

definition mem_u16 :: "vmm_state \<Rightarrow> nat \<Rightarrow> u16" where
  "mem_u16 v a = ucast (mem_get v a) OR push_bit 8 (ucast (mem_get v (a + 1)))"

definition mem_i32 :: "vmm_state \<Rightarrow> nat \<Rightarrow> u32" where
  "mem_i32 v a =
     ucast (mem_get v a) OR push_bit 8 (ucast (mem_get v (a + 1))) OR push_bit 16 (ucast (mem_get v (a + 2))) OR
     push_bit 24 (ucast (mem_get v (a + 3)))"

definition copy_pollfd_from_user :: "nat \<Rightarrow> u64 \<Rightarrow> vmm_state \<Rightarrow> pollfd option" where
  "copy_pollfd_from_user pml4 uaddr v =
     (if unat (uaddr AND 0xFFF) + 8 > PAGE_SIZE then None
      else case user_pa pml4 uaddr v of
          None \<Rightarrow> None
        | Some pa \<Rightarrow> Some \<lparr>pl_fd = mem_i32 v pa, pl_events = mem_u16 v (pa + 4), pl_revents = mem_u16 v (pa + 6)\<rparr>)"

text \<open>
  The address is that of \<open>events\<close>, so the result overwrites the request and \<open>revents\<close> is never set.
\<close>

definition store_pollfd_revents :: "nat \<Rightarrow> u64 \<Rightarrow> u16 \<Rightarrow> vmm_state \<Rightarrow> vmm_state" where
  "store_pollfd_revents pml4 uaddr revents v =
     (let va = uaddr + 4 in
      if unat (va AND 0xFFF) + 2 > PAGE_SIZE then v
      else case user_pa pml4 va v of
          None \<Rightarrow> v
        | Some pa \<Rightarrow> mem_write pa [ucast revents, ucast (drop_bit 8 revents)] v)"

fun copy_pollfds :: "nat \<Rightarrow> u64 \<Rightarrow> nat \<Rightarrow> nat \<Rightarrow> vmm_state \<Rightarrow> pollfd list option" where
  "copy_pollfds pml4 uaddr i 0 v = Some []"
| "copy_pollfds pml4 uaddr i (Suc n) v =
     (case copy_pollfd_from_user pml4 (uaddr + of_nat i * 8) v of
        None \<Rightarrow> None
      | Some x \<Rightarrow> map_option ((#) x) (copy_pollfds pml4 uaddr (Suc i) n v))"

text \<open>The part of \<open>select_poll\<close> before the loop: an error, or the copies.\<close>

definition select_poll_start :: "task_t option \<Rightarrow> u64 \<Rightarrow> u32 \<Rightarrow> user_mem \<Rightarrow> int + pollfd list" where
  "select_poll_start cur fds_uaddr nfds m =
     (case cur of
        None \<Rightarrow> Inl (-1)
      | Some t \<Rightarrow>
          if nfds > 64 then Inl (-22)
          else if nfds = 0 then Inr []
          else if \<not> user_range_ok fds_uaddr (ucast nfds * 8) then Inl (-14)
          else case shm_pml4 t m of
              None \<Rightarrow> Inl (-1)
            | Some pml4 \<Rightarrow>
                (case copy_pollfds pml4 fds_uaddr 0 (unat nfds) (um_vmm m) of
                   None \<Rightarrow> Inl (-14)
                 | Some xs \<Rightarrow> Inr xs))"

definition poll_ticks :: "u32 \<Rightarrow> int" where
  "poll_ticks timeout_ms = (if sint timeout_ms < 0 then -1 else sint timeout_ms div 10)"

definition poll_scan :: "(nat \<Rightarrow> pipe_file option) \<Rightarrow> task_t \<Rightarrow> pipe_state \<Rightarrow> pollfd list \<Rightarrow> pollfd list" where
  "poll_scan files cur st =
     map (\<lambda>x. x\<lparr>pl_revents := fd_ready files cur (pl_fd x) (pl_events x) st AND (pl_events x OR POLLERR OR POLLHUP)\<rparr>)"

definition store_all :: "nat \<Rightarrow> u64 \<Rightarrow> pollfd list \<Rightarrow> vmm_state \<Rightarrow> vmm_state" where
  "store_all pml4 uaddr xs v =
     fold (\<lambda>i v. store_pollfd_revents pml4 (uaddr + of_nat i * 8) (pl_revents (xs ! i)) v) [0..<length xs] v"

text \<open>One turn of the loop.\<close>

datatype poll_result = PollDone int | PollYields | PollSleeps nat

definition poll_pass ::
    "(nat \<Rightarrow> pipe_file option) \<Rightarrow> task_t \<Rightarrow> u64 \<Rightarrow> int \<Rightarrow> int \<Rightarrow> pollfd list \<Rightarrow> pipe_state \<times> user_mem \<Rightarrow>
       poll_result \<times> pipe_state \<times> user_mem" where
  "poll_pass files cur fds_uaddr max_ticks elapsed xs sm =
     (case sm of (st, m) \<Rightarrow>
        let xs = poll_scan files cur st xs;
            nready = length (filter (\<lambda>x. pl_revents x \<noteq> 0) xs)
        in if nready > 0 then
             (case shm_pml4 cur m of
                None \<Rightarrow> (PollDone (-1), st, m)
              | Some pml4 \<Rightarrow> (PollDone (int nready), st, m\<lparr>um_vmm := store_all pml4 fds_uaddr xs (um_vmm m)\<rparr>))
           else if max_ticks = 0 \<or> (max_ticks > 0 \<and> elapsed \<ge> max_ticks) then (PollDone 0, st, m)
           else case kzalloc_obj (pi_heap st) of
               (None, h) \<Rightarrow> (PollYields, st\<lparr>pi_heap := h\<rparr>, m)
             | (Some w, h) \<Rightarrow>
                 (PollSleeps w,
                  st\<lparr>pi_heap := h, po_thread := (po_thread st)(w := g_current (pi_sched st)), po_list := w # po_list st,
                     pi_sched := set_state THREAD_STATE_BLOCKED (g_current (pi_sched st)) (pi_sched st)\<rparr>, m))"

text \<open>After the switch back from a sleep with the waiter \<open>w\<close>.\<close>

definition poll_resume :: "nat \<Rightarrow> pipe_state \<Rightarrow> pipe_state" where
  "poll_resume w st = free_poll_waiter w (st\<lparr>po_list := remove1 w (po_list st)\<rparr>)"

section \<open>Select\<close>

definition fd_bit :: "u64 \<Rightarrow> nat \<Rightarrow> nat \<Rightarrow> vmm_state \<Rightarrow> bool" where
  "fd_bit uaddr i pml4 v =
     (uaddr \<noteq> 0 \<and>
      (let va = uaddr + of_nat (i div 8) in
       user_range_ok va 1 \<and>
       (case user_pa pml4 va v of None \<Rightarrow> False | Some pa \<Rightarrow> mem_get v pa AND push_bit (i mod 8) 1 \<noteq> 0)))"

definition select_select ::
    "(nat \<Rightarrow> pipe_file option) \<Rightarrow> task_t option \<Rightarrow> u32 \<Rightarrow> u64 \<Rightarrow> u64 \<Rightarrow> pipe_state \<times> user_mem \<Rightarrow> int" where
  "select_select files cur nfds rfd wfd sm =
     (case cur of
        None \<Rightarrow> -1
      | Some t \<Rightarrow>
          if nfds = 0 then 0
          else if nfds > 64 then -22
          else case shm_pml4 t (snd sm) of
              None \<Rightarrow> -1
            | Some pml4 \<Rightarrow>
                int (length (filter (\<lambda>i.
                  let events = (if fd_bit rfd i pml4 (um_vmm (snd sm)) then POLLIN else 0) OR
                               (if fd_bit wfd i pml4 (um_vmm (snd sm)) then POLLOUT else 0)
                  in events \<noteq> 0 \<and> fd_ready files t (of_nat i) events (fst sm) AND (POLLIN OR POLLOUT) \<noteq> 0)
                  [0..<unat nfds])))"

section \<open>Creating a pipe\<close>

text \<open>The first two free descriptors from 3 on.\<close>

definition free_fds :: "task_t \<Rightarrow> nat list" where
  "free_fds t = filter (\<lambda>i. fd_table t ! i = None) [3..<64]"

text \<open>
  The descriptors and the files are in place before the address of the caller is looked up, and stay
  when that fails. The inode that both files share has no content but its mode and operations. The
  result: the code, the task, the two files with the numbers of their allocations.
\<close>

definition pipefs_create ::
    "task_t option \<Rightarrow> u64 \<Rightarrow> pipe_state \<times> user_mem \<Rightarrow> int \<times> task_t option \<times> (nat \<times> pipe_file) list \<times> pipe_state \<times> user_mem" where
  "pipefs_create cur uaddr sm =
     (case (cur, sm) of
        (None, st, m) \<Rightarrow> (-1, None, [], st, m)
      | (Some t, st, m) \<Rightarrow>
          (case kzalloc_obj (pi_heap st) of
             (None, h) \<Rightarrow> (-12, cur, [], st\<lparr>pi_heap := h\<rparr>, m)
           | (Some a, h) \<Rightarrow>
               (case kmalloc_buf (of_nat PIPE_BUF_SIZE) h of
                  (None, h) \<Rightarrow> (-12, cur, [], st\<lparr>pi_heap := h\<rparr>, m)
                | (Some d, h) \<Rightarrow>
                    (case kzalloc_obj h of (ro, h) \<Rightarrow>
                     case kzalloc_obj h of (wo, h) \<Rightarrow>
                       if ro = None \<or> wo = None then (-12, cur, [], st\<lparr>pi_heap := h\<rparr>, m)
                       else case kzalloc_obj h of
                           (None, h) \<Rightarrow> (-12, cur, [], st\<lparr>pi_heap := h\<rparr>, m)
                         | (Some _, h) \<Rightarrow>
                             (case free_fds t of
                                fr # fw # _ \<Rightarrow>
                                  let p = \<lparr>p_data = d, p_head = 0, p_tail = 0, p_len = 0, p_readers = 1, p_writers = 1,
                                           p_read_waiters = [], p_write_waiters = [], p_read_wait_count = 0,
                                           p_write_wait_count = 0\<rparr>;
                                      st = put_pipe a p (st\<lparr>pi_heap := h\<rparr>);
                                      t = t\<lparr>fd_table := (fd_table t)[fr := ro, fw := wo]\<rparr>;
                                      fs = [(the ro, \<lparr>pf_flags = VFS_O_RDONLY, pf_private = Some a\<rparr>),
                                            (the wo, \<lparr>pf_flags = VFS_O_WRONLY, pf_private = Some a\<rparr>)]
                                  in (case shm_pml4 t m of
                                        None \<Rightarrow> (-1, Some t, fs, st, m)
                                      | Some pml4 \<Rightarrow>
                                          (case user_pa pml4 uaddr (um_vmm m) of
                                             None \<Rightarrow> (-14, Some t, fs, st, m)
                                           | Some pa \<Rightarrow>
                                               (0, Some t, fs, st,
                                                m\<lparr>um_vmm := mem_write pa (take 4 (le_bytes (of_nat fr)) @ take 4 (le_bytes (of_nat fw))) (um_vmm m)\<rparr>)))
                              | _ \<Rightarrow> (-11, cur, [], st\<lparr>pi_heap := h\<rparr>, m))))))"

end
