(* ===== verification/PipeProps.thy ===== *)
theory PipeProps
  imports Pipe SchedProps
begin

text \<open>
  A pipe is a queue of at most 4096 bytes: the ring buffer against its contents, over every sequence of
  reads, writes and closes by any threads; who is woken; and what becomes of the waiters of \<open>poll\<close>.
\<close>

section \<open>The ring buffer\<close>

definition contents :: "pipe_inode \<Rightarrow> u8 list" where
  "contents p = map (\<lambda>i. p_data p ((p_head p + i) mod PIPE_BUF_SIZE)) [0..<p_len p]"

definition pipe_ok :: "pipe_inode \<Rightarrow> bool" where
  "pipe_ok p \<longleftrightarrow> p_head p < PIPE_BUF_SIZE \<and> p_len p \<le> PIPE_BUF_SIZE \<and>
     p_tail p = (p_head p + p_len p) mod PIPE_BUF_SIZE \<and>
     p_read_wait_count p = length (p_read_waiters p) \<and> p_write_wait_count p = length (p_write_waiters p)"

lemma length_contents [simp]: "length (contents p) = p_len p"
  by (simp add: contents_def)

lemma ring_take_spec:
  "p_head p < PIPE_BUF_SIZE \<Longrightarrow> ring_take n p =
     (map (\<lambda>i. p_data p ((p_head p + i) mod PIPE_BUF_SIZE)) [0..<n], p\<lparr>p_head := (p_head p + n) mod PIPE_BUF_SIZE\<rparr>)"
proof (induction n arbitrary: p)
  case (Suc n)
  have h: "p_head (p\<lparr>p_head := (p_head p + 1) mod PIPE_BUF_SIZE\<rparr>) < PIPE_BUF_SIZE" by (simp add: PIPE_BUF_SIZE_def)
  have m: "(Suc (p_head p) mod PIPE_BUF_SIZE + i) mod PIPE_BUF_SIZE = Suc (p_head p + i) mod PIPE_BUF_SIZE" for i
    by (simp add: mod_simps)
  have "p_data p (p_head p) # map (\<lambda>i. p_data p ((p_head p + Suc i) mod PIPE_BUF_SIZE)) [0..<n] =
      map (\<lambda>i. p_data p ((p_head p + i) mod PIPE_BUF_SIZE)) [0..<Suc n]"
    using Suc.prems by (simp add: upt_conv_Cons map_Suc_upt [symmetric] del: upt_Suc)
  then show ?case using Suc.IH [OF h] by (simp add: m del: upt_Suc)
qed simp

lemma ring_put_spec:
  "p_tail p < PIPE_BUF_SIZE \<Longrightarrow> length bs \<le> PIPE_BUF_SIZE \<Longrightarrow>
   (let p' = ring_put bs p in
      p' = p\<lparr>p_data := p_data p', p_tail := (p_tail p + length bs) mod PIPE_BUF_SIZE\<rparr> \<and>
      (\<forall>i < length bs. p_data p' ((p_tail p + i) mod PIPE_BUF_SIZE) = bs ! i) \<and>
      (\<forall>j. (\<forall>i < length bs. j \<noteq> (p_tail p + i) mod PIPE_BUF_SIZE) \<longrightarrow> p_data p' j = p_data p j))"
proof (induction bs arbitrary: p)
  case (Cons b bs)
  let ?q = "p\<lparr>p_data := (p_data p)(p_tail p := b), p_tail := (p_tail p + 1) mod PIPE_BUF_SIZE\<rparr>"
  have m: "(Suc (p_tail p) mod PIPE_BUF_SIZE + i) mod PIPE_BUF_SIZE = Suc (p_tail p + i) mod PIPE_BUF_SIZE" for i
    by (simp add: mod_simps)
  have "p_tail ?q < PIPE_BUF_SIZE" by (simp add: PIPE_BUF_SIZE_def)
  note IH = Cons.IH [OF this, unfolded Let_def]
  have l: "length bs \<le> PIPE_BUF_SIZE" using Cons.prems by simp
  let ?r = "ring_put bs ?q"
  have A: "?r = ?q\<lparr>p_data := p_data ?r, p_tail := (p_tail p + Suc (length bs)) mod PIPE_BUF_SIZE\<rparr>"
    using IH [OF l] by (simp add: m)
  have B: "p_data ?r ((p_tail p + Suc i) mod PIPE_BUF_SIZE) = bs ! i" if "i < length bs" for i
    using IH [OF l] that by (simp add: m)
  have D: "p_data ?r j = ((p_data p)(p_tail p := b)) j" if "\<forall>i < length bs. j \<noteq> (p_tail p + Suc i) mod PIPE_BUF_SIZE" for j
    using IH [OF l] that by (simp add: m)
  have far: "p_tail p \<noteq> (p_tail p + Suc i) mod PIPE_BUF_SIZE" if "i < length bs" for i
    using that Cons.prems by (auto simp: PIPE_BUF_SIZE_def mod_if split: if_splits)
  have "p_data ?r (p_tail p) = b" using D [of "p_tail p"] far by simp
  moreover have "p_data ?r ((p_tail p + i) mod PIPE_BUF_SIZE) = (b # bs) ! i" if "i < Suc (length bs)" for i
    using that B [of "i - 1"] calculation Cons.prems(1) by (cases i) auto
  moreover have "p_data ?r j = p_data p j" if "\<forall>i < Suc (length bs). j \<noteq> (p_tail p + i) mod PIPE_BUF_SIZE" for j
  proof -
    have "j \<noteq> p_tail p" using that [rule_format, of 0] Cons.prems(1) by simp
    moreover have "\<forall>i < length bs. j \<noteq> (p_tail p + Suc i) mod PIPE_BUF_SIZE" using that by auto
    ultimately show ?thesis using D by simp
  qed
  ultimately show ?case using A by (simp add: Let_def)
qed (simp add: Let_def)

lemma contents_take:
  assumes "pipe_ok p" "n \<le> p_len p"
  shows "fst (ring_take n p) = take n (contents p)"
    "contents ((snd (ring_take n p))\<lparr>p_len := p_len p - n\<rparr>) = drop n (contents p)"
proof -
  have r: "ring_take n p = (map (\<lambda>i. p_data p ((p_head p + i) mod PIPE_BUF_SIZE)) [0..<n], p\<lparr>p_head := (p_head p + n) mod PIPE_BUF_SIZE\<rparr>)"
    using assms(1) by (intro ring_take_spec) (simp add: pipe_ok_def)
  show "fst (ring_take n p) = take n (contents p)"
    using assms(2) by (simp add: r contents_def take_map)
  show "contents ((snd (ring_take n p))\<lparr>p_len := p_len p - n\<rparr>) = drop n (contents p)"
  proof (rule nth_equalityI)
    fix i assume "i < length (contents ((snd (ring_take n p))\<lparr>p_len := p_len p - n\<rparr>))"
    then have "n + i < p_len p" "i < p_len p - n" by simp_all
    then show "contents ((snd (ring_take n p))\<lparr>p_len := p_len p - n\<rparr>) ! i = drop n (contents p) ! i"
      by (simp add: r contents_def mod_simps add.assoc)
  qed (use assms(2) in simp)
qed

lemma contents_put:
  assumes "pipe_ok p" "p_len p + length bs \<le> PIPE_BUF_SIZE"
  shows "contents ((ring_put bs p)\<lparr>p_len := p_len p + length bs\<rparr>) = contents p @ bs"
proof -
  have t: "p_tail p < PIPE_BUF_SIZE" "length bs \<le> PIPE_BUF_SIZE" using assms by (simp_all add: pipe_ok_def PIPE_BUF_SIZE_def)
  note R = ring_put_spec [OF t, unfolded Let_def]
  have hd: "p_head (ring_put bs p) = p_head p" using R by (metis pipe_inode.select_convs(2) pipe_inode.surjective pipe_inode.update_convs(1,3))
  have tl: "(p_tail p + i) mod PIPE_BUF_SIZE = (p_head p + (p_len p + i)) mod PIPE_BUF_SIZE" for i
    using assms(1) by (simp add: pipe_ok_def mod_simps add.assoc)
  have old: "p_data (ring_put bs p) ((p_head p + i) mod PIPE_BUF_SIZE) = p_data p ((p_head p + i) mod PIPE_BUF_SIZE)"
    if "i < p_len p" for i
  proof -
    have "(p_head p + i) mod PIPE_BUF_SIZE \<noteq> (p_tail p + k) mod PIPE_BUF_SIZE" if "k < length bs" for k
      using that \<open>i < p_len p\<close> assms
      by (auto simp: tl pipe_ok_def PIPE_BUF_SIZE_def mod_if split: if_splits)
    then show ?thesis using R by blast
  qed
  have new: "p_data (ring_put bs p) ((p_head p + (p_len p + i)) mod PIPE_BUF_SIZE) = bs ! i" if "i < length bs" for i
    using R that by (simp add: tl [symmetric])
  show ?thesis
  proof (rule nth_equalityI)
    fix i assume "i < length (contents ((ring_put bs p)\<lparr>p_len := p_len p + length bs\<rparr>))"
    then have "i < p_len p + length bs" by simp
    then show "contents ((ring_put bs p)\<lparr>p_len := p_len p + length bs\<rparr>) ! i = (contents p @ bs) ! i"
      using old [of i] new [of "i - p_len p"] by (auto simp: contents_def hd nth_append)
  qed simp
qed

section \<open>One pass\<close>

lemma enqueue_current [simp]: "g_current (sched_enqueue_thread th s) = g_current s"
  by (auto simp: sched_enqueue_thread_def Let_def rq_push_frame split: option.split)

lemma enqueue_all_current [simp]: "g_current (enqueue_all ths s) = g_current s"
  unfolding enqueue_all_def by (induction ths arbitrary: s) simp_all

lemma notify_loop_frame [simp]:
  "pi_pipes (notify_loop ws st) = pi_pipes st" "g_current (pi_sched (notify_loop ws st)) = g_current (pi_sched st)"
  "pi_heap (notify_loop ws st) = pi_heap st"
  by (induction ws arbitrary: st) (simp_all add: free_poll_waiter_def)

lemma notify_frame [simp]:
  "pi_pipes (select_notify_wakeup st) = pi_pipes st"
  "g_current (pi_sched (select_notify_wakeup st)) = g_current (pi_sched st)"
  "pi_heap (select_notify_wakeup st) = pi_heap st"
  by (simp_all add: select_notify_wakeup_def)

lemma wake_frame:
  "contents (fst (wake_readers a p st)) = contents p" "contents (fst (wake_writers a p st)) = contents p"
  "pipe_ok p \<Longrightarrow> pipe_ok (fst (wake_readers a p st))" "pipe_ok p \<Longrightarrow> pipe_ok (fst (wake_writers a p st))"
  "pi_pipes (snd (wake_readers a p st)) = pi_pipes st" "pi_pipes (snd (wake_writers a p st)) = pi_pipes st"
  "g_current (pi_sched (snd (wake_readers a p st))) = g_current (pi_sched st)"
  "g_current (pi_sched (snd (wake_writers a p st))) = g_current (pi_sched st)"
  by (simp_all add: wake_readers_def wake_writers_def wait_wake_all_def contents_def pipe_ok_def)

lemma wait_push_count: "length (fst wl) = snd wl \<Longrightarrow> length (fst (fst (wait_push th wl h))) = snd (fst (wait_push th wl h))"
  by (simp add: wait_push_def split: option.split prod.split)

text \<open>The bytes sent are the bytes received and then those in the buffer.\<close>

definition fifo :: "nat \<Rightarrow> pipe_state \<times> u8 list \<times> u8 list \<Rightarrow> bool" where
  "fifo a x = (case x of (st, sent, got) \<Rightarrow> \<forall>p. pi_pipes st a = Some p \<longrightarrow> pipe_ok p \<and> sent = got @ contents p)"

lemma ring_take_ok:
  assumes "pipe_ok p" "n \<le> p_len p"
  shows "pipe_ok ((snd (ring_take n p))\<lparr>p_len := p_len p - n\<rparr>)" "p_len (snd (ring_take n p)) = p_len p"
    "p_write_waiters (snd (ring_take n p)) = p_write_waiters p"
proof -
  have "p_head p + n + (p_len p - n) = p_head p + p_len p" using assms(2) by simp
  then have "(p_head p + p_len p) mod PIPE_BUF_SIZE = ((p_head p + n) mod PIPE_BUF_SIZE + (p_len p - n)) mod PIPE_BUF_SIZE"
    by (metis mod_add_left_eq)
  moreover have "p_len p - n \<le> PIPE_BUF_SIZE" using assms(1) by (auto simp: pipe_ok_def)
  ultimately show "pipe_ok ((snd (ring_take n p))\<lparr>p_len := p_len p - n\<rparr>)" "p_len (snd (ring_take n p)) = p_len p"
    "p_write_waiters (snd (ring_take n p)) = p_write_waiters p"
    using assms ring_take_spec [of p n] by (simp_all add: pipe_ok_def PIPE_BUF_SIZE_def)
qed

lemma ring_put_ok:
  assumes "pipe_ok p" "p_len p + length bs \<le> PIPE_BUF_SIZE"
  shows "pipe_ok ((ring_put bs p)\<lparr>p_len := p_len p + length bs\<rparr>)" "p_len (ring_put bs p) = p_len p"
    "p_read_waiters (ring_put bs p) = p_read_waiters p" "p_read_wait_count (ring_put bs p) = p_read_wait_count p"
proof -
  have t: "p_tail p < PIPE_BUF_SIZE" "length bs \<le> PIPE_BUF_SIZE" using assms by (simp_all add: pipe_ok_def PIPE_BUF_SIZE_def)
  obtain d where d: "ring_put bs p = p\<lparr>p_data := d, p_tail := (p_tail p + length bs) mod PIPE_BUF_SIZE\<rparr>"
    using ring_put_spec [OF t] unfolding Let_def by blast
  show "pipe_ok ((ring_put bs p)\<lparr>p_len := p_len p + length bs\<rparr>)" "p_len (ring_put bs p) = p_len p"
    "p_read_waiters (ring_put bs p) = p_read_waiters p" "p_read_wait_count (ring_put bs p) = p_read_wait_count p"
    using assms by (simp_all add: d pipe_ok_def mod_simps add.assoc)
qed

lemma read_pass_spec:
  assumes "pf_private f = Some a" "pi_pipes st a = Some p" "pipe_ok p" "p_len p > 0"
  shows "\<exists>p' st'. pipe_read_pass f True count st =
      (Some (int (min (unat count) (p_len p)), take (unat count) (contents p)), st') \<and>
    pi_pipes st' = (pi_pipes st)(a \<mapsto> p') \<and> pipe_ok p' \<and> contents p' = drop (unat count) (contents p)"
proof -
  let ?n = "min (unat count) (p_len p)"
  obtain bs q where r: "ring_take ?n p = (bs, q)" by fastforce
  let ?q = "q\<lparr>p_len := p_len p - ?n\<rparr>"
  have n: "?n \<le> p_len p" by simp
  have q: "p_len q = p_len p" "pipe_ok ?q" "contents ?q = drop ?n (contents p)" "bs = take ?n (contents p)"
    using ring_take_ok [OF assms(3) n] contents_take [OF assms(3) n] r by simp_all
  have td: "take ?n (contents p) = take (unat count) (contents p)" "drop ?n (contents p) = drop (unat count) (contents p)"
    by (simp_all add: min_def)
  obtain q' st1 where w: "(if p_write_wait_count ?q > 0 then wake_writers a ?q st else (?q, st)) = (q', st1)" by fastforce
  have q': "pipe_ok q'" "contents q' = contents ?q" "pi_pipes st1 = pi_pipes st"
    using w q(2) wake_frame(2,6) [of a ?q st] wake_frame(4) [OF q(2), of a st] by (auto split: if_splits)
  have "pipe_read_pass f True count st = (Some (int ?n, bs), select_notify_wakeup (put_pipe a q' st1))"
    using assms w by (simp add: pipe_read_pass_def r q(1))
  then show ?thesis using q q' td by (intro exI [of _ q'] exI) (auto simp: put_pipe_def)
qed

lemma fifo_read:
  assumes "fifo a (st, sent, got)" "pf_private f = Some a" "pipe_read_pass f hb count st = (r, st')"
  shows "fifo a (st', sent, got @ (case r of None \<Rightarrow> [] | Some (rc, bs) \<Rightarrow> bs))"
proof (cases "\<exists>p. hb \<and> pi_pipes st a = Some p")
  case True
  then obtain p where hb: hb and p: "pi_pipes st a = Some p" by blast
  then have ok: "pipe_ok p" "sent = got @ contents p" using assms(1) by (simp_all add: fifo_def)
  show ?thesis
  proof (cases "p_len p > 0")
    case True
    obtain p' s where "pipe_read_pass f True count st =
          (Some (int (min (unat count) (p_len p)), take (unat count) (contents p)), s)"
        "pi_pipes s = (pi_pipes st)(a \<mapsto> p')" "pipe_ok p'" "contents p' = drop (unat count) (contents p)"
      using read_pass_spec [OF assms(2) p ok(1) True] by blast
    then show ?thesis using assms(3) hb ok(2) by (auto simp: fifo_def)
  next
    case False
    have c: "n = length ws" if "wait_push th (p_read_waiters p, length (p_read_waiters p)) h = ((ws, n), h')" for th h ws n h'
      using wait_push_count [of "(p_read_waiters p, length (p_read_waiters p))" th h] that by simp
    show ?thesis
      using assms(1,2,3) hb p False c
      by (auto simp: pipe_read_pass_def fifo_def put_pipe_def contents_def pipe_ok_def split: if_splits option.splits prod.splits)
  qed
next
  case False
  then show ?thesis using assms by (auto simp: pipe_read_pass_def fifo_def split: if_splits option.splits)
qed

lemma write_some_spec:
  assumes "pipe_ok p" "p_len p + length bs \<le> PIPE_BUF_SIZE"
  shows "\<exists>p'. pi_pipes (pipe_write_some a bs p st) = (pi_pipes st)(a \<mapsto> p') \<and> pipe_ok p' \<and> contents p' = contents p @ bs"
    "g_current (pi_sched (pipe_write_some a bs p st)) = g_current (pi_sched st)"
proof -
  let ?q = "(ring_put bs p)\<lparr>p_len := p_len (ring_put bs p) + length bs\<rparr>"
  have q: "pipe_ok ?q" "contents ?q = contents p @ bs" using ring_put_ok [OF assms] contents_put [OF assms] by simp_all
  obtain q' st1 where w: "(if p_read_wait_count ?q > 0 then wake_readers a ?q st else (?q, st)) = (q', st1)" by fastforce
  have q': "pipe_ok q'" "contents q' = contents ?q" "pi_pipes st1 = pi_pipes st" "g_current (pi_sched st1) = g_current (pi_sched st)"
    using w q(1) wake_frame(1,5,7) [of a ?q st] wake_frame(3) [OF q(1), of a st] by (auto split: if_splits)
  have e: "pipe_write_some a bs p st = select_notify_wakeup (put_pipe a q' st1)"
    using w by (simp add: pipe_write_some_def)
  show "\<exists>p'. pi_pipes (pipe_write_some a bs p st) = (pi_pipes st)(a \<mapsto> p') \<and> pipe_ok p' \<and> contents p' = contents p @ bs"
    using q q' by (intro exI [of _ q']) (simp add: e put_pipe_def)
  show "g_current (pi_sched (pipe_write_some a bs p st)) = g_current (pi_sched st)"
    using q'(4) by (simp add: e put_pipe_def)
qed

text \<open>How far the buffer of the caller has been written after a pass.\<close>

definition write_count :: "nat \<Rightarrow> int + nat \<Rightarrow> nat" where
  "write_count w r = (case r of Inl rc \<Rightarrow> if rc \<ge> 0 then nat rc else w | Inr n \<Rightarrow> n)"

lemma fifo_write_loop:
  "fifo a (st, sent, got) \<Longrightarrow> g_current (pi_sched st) \<noteq> None \<Longrightarrow> pi_pipes st a \<noteq> None \<Longrightarrow> w \<le> length buf \<Longrightarrow>
   pipe_write_loop a buf w st = (r, st') \<Longrightarrow>
   (0 < w \<longrightarrow> (\<forall>rc. r = Inl rc \<longrightarrow> 0 \<le> rc)) \<and>
   w \<le> write_count w r \<and> write_count w r \<le> length buf \<and> pi_pipes st' a \<noteq> None \<and>
   fifo a (st', sent @ drop w (take (write_count w r) buf), got)"
proof (induction a buf w st arbitrary: sent rule: pipe_write_loop.induct)
  case (1 a buf w st)
  obtain p where p: "pi_pipes st a = Some p" using "1.prems"(3) by blast
  have ok: "pipe_ok p" "sent = got @ contents p" using "1.prems"(1) p by (simp_all add: fifo_def)
  consider "\<not> w < length buf" | "w < length buf" "p_readers p = 0" | "w < length buf" "p_readers p \<noteq> 0" "p_len p < PIPE_BUF_SIZE"
    | "w < length buf" "p_readers p \<noteq> 0" "\<not> p_len p < PIPE_BUF_SIZE"
    by blast
  then show ?case
  proof cases
    case 1
    then have w: "w = length buf" using "1.prems"(4) by simp
    then have "r = Inl (int (length buf)) \<and> st' = st" using "1.prems"(5) unfolding w by (simp add: pipe_write_loop.simps [of a buf "length buf" st])
    then show ?thesis using "1.prems"(1,3) w by (simp add: write_count_def)
  next
    case 2
    then show ?thesis using "1.prems" p by (auto simp: pipe_write_loop.simps [of a buf w st] write_count_def split: if_splits)
  next
    case 3
    let ?n = "min (length buf - w) (PIPE_BUF_SIZE - p_len p)"
    let ?bs = "take ?n (drop w buf)"
    let ?st = "pipe_write_some a ?bs p st"
    have lb: "length ?bs = ?n" by simp
    have le: "p_len p + length ?bs \<le> PIPE_BUF_SIZE" using 3(3) by simp
    obtain p' where p': "pi_pipes ?st = (pi_pipes st)(a \<mapsto> p')" "pipe_ok p'" "contents p' = contents p @ ?bs"
      using write_some_spec(1) [OF ok(1) le] by blast
    have f: "fifo a (?st, sent @ ?bs, got)" using p' ok(2) by (simp add: fifo_def)
    have loop: "pipe_write_loop a buf (w + ?n) ?st = (r, st')"
      using "1.prems"(5) 3 p by (simp add: pipe_write_loop.simps [of a buf w st] Let_def)
    have n: "0 < ?n" "w + ?n \<le> length buf" using 3 by simp_all
    have IH: "(0 < w + ?n \<longrightarrow> (\<forall>rc. r = Inl rc \<longrightarrow> 0 \<le> rc)) \<and>
        w + ?n \<le> write_count (w + ?n) r \<and> write_count (w + ?n) r \<le> length buf \<and> pi_pipes st' a \<noteq> None \<and>
        fifo a (st', (sent @ ?bs) @ drop (w + ?n) (take (write_count (w + ?n) r) buf), got)"
    proof (rule "1.IH" [OF _ p 3(2,3) refl f _ _ n(2) loop])
      show "\<not> \<not> w < length buf" using 3(1) by simp
      show "g_current (pi_sched ?st) \<noteq> None" using write_some_spec(2) [OF ok(1) le] "1.prems"(2) by simp
      show "pi_pipes ?st a \<noteq> None" using p'(1) by simp
    qed
    then have c: "write_count (w + ?n) r = write_count w r" using n(1) by (auto simp: write_count_def split: sum.splits)
    have "?bs @ drop (w + ?n) (take m buf) = drop w (take m buf)" if "w + ?n \<le> m" for m
    proof -
      have "?bs = take ?n (drop w (take m buf))" using that by (simp add: drop_take min_def)
      moreover have "drop (w + ?n) (take m buf) = drop ?n (drop w (take m buf))" by (simp add: add.commute)
      ultimately show ?thesis by (metis append_take_drop_id)
    qed
    then show ?thesis using IH n c by auto
  next
    case 4
    obtain self where c: "g_current (pi_sched st) = Some self" using "1.prems"(2) by blast
    obtain ws m h where wp: "wait_push self (p_write_waiters p, p_write_wait_count p) (pi_heap st) = ((ws, m), h)" by (metis prod.collapse)
    have "m = length ws" using wait_push_count [of "(p_write_waiters p, p_write_wait_count p)" self "pi_heap st"] wp ok(1)
      by (simp add: pipe_ok_def)
    then show ?thesis
      using "1.prems" 4 p ok c wp
      by (auto simp: pipe_write_loop.simps [of a buf w st] write_count_def fifo_def put_pipe_def contents_def pipe_ok_def)
  qed
qed

section \<open>Runs\<close>

text \<open>
  A step of a run, for the pipe \<open>a\<close>: a pass of a read or of a write by any thread, a close of one of its
  files, or anything that leaves the pipe alone.
\<close>

inductive pipe_step :: "nat \<Rightarrow> pipe_state \<times> u8 list \<times> u8 list \<Rightarrow> pipe_state \<times> u8 list \<times> u8 list \<Rightarrow> bool" for a where
  reading: "pf_private f = Some a \<Longrightarrow> pipe_read_pass f hb count st = (r, st') \<Longrightarrow>
    pipe_step a (st, sent, got) (st', sent, got @ (case r of None \<Rightarrow> [] | Some (rc, bs) \<Rightarrow> bs))"
| writing: "pf_private f = Some a \<Longrightarrow> g_current (pi_sched st) \<noteq> None \<Longrightarrow> w \<le> length buf \<Longrightarrow>
    pipe_write_pass f hb buf w st = (r, st') \<Longrightarrow>
    pipe_step a (st, sent, got) (st', sent @ drop w (take (write_count w r) buf), got)"
| closing: "pf_private f = Some a \<Longrightarrow> pipefs_close (Some f) st = (rc, fo, st') \<Longrightarrow> pipe_step a (st, sent, got) (st', sent, got)"
| others: "pi_pipes st' a = pi_pipes st a \<Longrightarrow> pipe_step a (st, sent, got) (st', sent, got)"

lemma fifo_close:
  assumes "fifo a (st, sent, got)" "pf_private f = Some a" "pipefs_close (Some f) st = (rc, fo, st')"
  shows "fifo a (st', sent, got)"
proof (cases "pi_pipes st a")
  case None
  then show ?thesis using assms by (simp add: pipefs_close_def)
next
  case (Some p)
  let ?p = "if pipe_is_reader f then p\<lparr>p_readers := p_readers p - 1\<rparr> else p\<lparr>p_writers := p_writers p - 1\<rparr>"
  have p: "pipe_ok ?p" "contents ?p = contents p" "sent = got @ contents p"
    using assms(1) Some by (auto simp: fifo_def pipe_ok_def contents_def)
  obtain q st1 where q: "(if p_readers ?p = 0 then wake_writers a ?p st else (?p, st)) = (q, st1)" by fastforce
  have q1: "pipe_ok q" "contents q = contents p"
    using q p wake_frame(2) [of a ?p st] wake_frame(4) [OF p(1), of a st] by (auto split: if_splits)
  obtain q' st2 where q': "(if p_writers q = 0 then wake_readers a q st1 else (q, st1)) = (q', st2)" by fastforce
  have q2: "pipe_ok q'" "contents q' = contents p"
    using q' q1 wake_frame(1) [of a q st1] wake_frame(3) [OF q1(1), of a st1] by (auto split: if_splits)
  have "st' = (let st = select_notify_wakeup (put_pipe a q' st2)
      in if p_readers q' = 0 \<and> p_writers q' = 0 then st\<lparr>pi_pipes := (pi_pipes st)(a := None)\<rparr> else st)"
    using assms(2,3) Some q q' unfolding pipefs_close_def by (simp add: Let_def)
  then show ?thesis using q2 p(3) by (simp add: fifo_def Let_def put_pipe_def)
qed

lemma fifo_step: "pipe_step a x y \<Longrightarrow> fifo a x \<Longrightarrow> fifo a y"
proof (induction rule: pipe_step.induct)
  case (reading f hb count st r st' sent got)
  then show ?case using fifo_read by blast
next
  case (writing f st w buf hb r st' sent got)
  show ?case
  proof (cases "hb \<and> pi_pipes st a \<noteq> None")
    case True
    then have "pipe_write_loop a buf w st = (r, st')" using writing by (auto simp: pipe_write_pass_def)
    then show ?thesis using fifo_write_loop writing True by blast
  next
    case False
    then show ?thesis using writing by (auto simp: pipe_write_pass_def write_count_def fifo_def split: if_splits)
  qed
next
  case (closing f st rc fo st' sent got)
  then show ?case using fifo_close by blast
qed (simp add: fifo_def)

text \<open>
  C34. A pipe is a FIFO queue of at most 4096 bytes: from \<open>pipefs_create\<close> on, over every sequence of read
  and write passes, closes and steps of others, the bytes written are the bytes read followed by the
  contents of the buffer, so nothing is lost, doubled or reordered, however the writers block and go on.
  A read gets the oldest bytes, at most \<open>count\<close> of them, and end of file only when no writer is left.
\<close>

theorem pipe_fifo:
  assumes c: "pipefs_create cur uaddr (st, m) = (rc, t, [(r0, f0), (w0, f1)], st0, m')" "pf_private f0 = Some a"
    and run: "(pipe_step a)\<^sup>*\<^sup>* (st0, [], []) (st', sent, got)"
    and p: "pi_pipes st' a = Some p" and f: "pf_private f = Some a"
  shows "sent = got @ contents p \<and> length (contents p) \<le> 4096 \<and>
    (case fst (pipe_read_pass f True count st') of
       None \<Rightarrow> contents p = [] \<and> p_writers p \<noteq> 0
     | Some (n, bs) \<Rightarrow>
         (contents p \<noteq> [] \<longrightarrow> bs = take (unat count) (contents p) \<and> n = int (length bs)) \<and>
         (contents p = [] \<longrightarrow> bs = [] \<and> (n = 0 \<longleftrightarrow> p_writers p = 0)))"
proof -
  have "\<exists>d. pi_pipes st0 a = Some \<lparr>p_data = d, p_head = 0, p_tail = 0, p_len = 0, p_readers = 1, p_writers = 1,
      p_read_waiters = [], p_write_waiters = [], p_read_wait_count = 0, p_write_wait_count = 0\<rparr>"
    using c by (auto simp: pipefs_create_def put_pipe_def Let_def split: option.splits prod.splits list.splits if_splits)
  then have "fifo a (st0, [], [])" by (auto simp: fifo_def pipe_ok_def contents_def PIPE_BUF_SIZE_def)
  with run have "fifo a (st', sent, got)" by (induction rule: rtranclp_induct) (auto intro: fifo_step)
  then have ok: "pipe_ok p" "sent = got @ contents p" using p by (simp_all add: fifo_def)
  have e: "contents p = [] \<longleftrightarrow> p_len p = 0" by (simp add: contents_def)
  show ?thesis
  proof (cases "p_len p > 0")
    case True
    then obtain p' s where "pipe_read_pass f True count st' =
          (Some (int (min (unat count) (p_len p)), take (unat count) (contents p)), s)"
      using read_pass_spec [OF f p ok(1) True] by blast
    then show ?thesis using ok True e by (auto simp: pipe_ok_def PIPE_BUF_SIZE_def min.commute)
  next
    case False
    then show ?thesis
      using ok e f p by (auto simp: pipe_read_pass_def contents_def split: option.splits prod.splits)
  qed
qed

text \<open>Three bytes are written and two are read.\<close>

definition wit_pipes :: pipe_state where
  "wit_pipes = \<lparr>pi_heap = wit_heap, pi_sched = sched_init wit_sched0, pi_pipes = (\<lambda>_. None), po_list = [], po_thread = (\<lambda>_. None),
     po_freed = []\<rparr>"

definition wit_reader :: pipe_file where "wit_reader = \<lparr>pf_flags = 1, pf_private = Some 1\<rparr>"
definition wit_writer :: pipe_file where "wit_writer = \<lparr>pf_flags = 2, pf_private = Some 1\<rparr>"

definition wit_pipe :: pipe_inode where
  "wit_pipe = \<lparr>p_data = (\<lambda>_. 0), p_head = 0, p_tail = 0, p_len = 0, p_readers = 1, p_writers = 1,
      p_read_waiters = [], p_write_waiters = [], p_read_wait_count = 0, p_write_wait_count = 0\<rparr>"

definition wit_pipes1 :: pipe_state where
  "wit_pipes1 = wit_pipes\<lparr>pi_heap := wit_heap\<lparr>h_calls := 6\<rparr>, pi_pipes := [1 \<mapsto> wit_pipe]\<rparr>"

lemma wit_pipe_created:
  assumes "user_ctx t = None" "\<not> priv_iso_ready t" "fd_table t = replicate 64 None"
  shows "\<exists>t'. pipefs_create (Some t) 0 (wit_pipes, m) = (-1, t', [(3, wit_reader), (4, wit_writer)], wit_pipes1, m)"
proof -
  have "[3..<64] = 3 # 4 # [5..<64]" by (simp add: upt_conv_Cons)
  then have "free_fds t = 3 # 4 # [5..<64]" by (simp add: free_fds_def assms)
  then show ?thesis
    by (simp add: pipefs_create_def wit_pipes_def wit_pipes1_def wit_pipe_def wit_heap_def kzalloc_obj_def kmalloc_buf_def assms
        shm_pml4_def user_get_ctx_def put_pipe_def wit_reader_def wit_writer_def Let_def PIPE_BUF_SIZE_def PAGE_SIZE_def
        VFS_O_RDONLY_def VFS_O_WRONLY_def)
qed

lemma wit_pipe_run:
  "\<exists>st p. (pipe_step 1)\<^sup>*\<^sup>* (wit_pipes1, [], []) (st, [1, 2, 3], [1, 2]) \<and> pi_pipes st 1 = Some p \<and> p_len p = 1"
proof -
  let ?st = "pipe_write_some 1 [1, 2, 3] wit_pipe wit_pipes1"
  have f: "pf_private wit_writer = Some 1" "pf_private wit_reader = Some 1" by (simp_all add: wit_writer_def wit_reader_def)
  have w: "pipe_write_pass wit_writer True [1, 2, 3] 0 wit_pipes1 = (Inl 3, ?st)"
    by (simp add: pipe_write_pass_def wit_writer_def wit_pipes1_def wit_pipe_def PIPE_BUF_SIZE_def Let_def
        pipe_write_loop.simps [of _ _ 0] pipe_write_loop.simps [of _ _ "Suc (Suc (Suc 0))"])
  have ok: "pipe_ok wit_pipe" "p_len wit_pipe + length [1, 2, 3 :: u8] \<le> PIPE_BUF_SIZE" "contents wit_pipe = []"
    by (simp_all add: pipe_ok_def wit_pipe_def PIPE_BUF_SIZE_def contents_def)
  obtain p1 where p1: "pi_pipes ?st 1 = Some p1" "pipe_ok p1" "contents p1 = [1, 2, 3]"
    using write_some_spec(1) [OF ok(1,2), of 1 wit_pipes1] ok(3) by auto
  then have "p_len p1 > 0" by (metis length_contents length_greater_0_conv list.distinct(1))
  then obtain p2 st2 where r: "pipe_read_pass wit_reader True 2 ?st = (Some (int (min (unat (2 :: u64)) (p_len p1)), [1, 2]), st2)"
      "pi_pipes st2 = (pi_pipes ?st)(1 \<mapsto> p2)" "contents p2 = [3]"
    using read_pass_spec [OF f(2) p1(1,2), of 2] p1(3) by auto
  have "g_current (pi_sched wit_pipes1) \<noteq> None"
    by (simp add: wit_pipes1_def wit_pipes_def sched_init_def Let_def)
  then have "pipe_step 1 (wit_pipes1, [], []) (?st, [1, 2, 3], [])"
    using pipe_step.writing [OF f(1) _ _ w, of "[]" "[]"] by (simp add: write_count_def)
  moreover have "pipe_step 1 (?st, [1, 2, 3], []) (st2, [1, 2, 3], [1, 2])"
    using pipe_step.reading [OF f(2) r(1), of "[1, 2, 3]" "[]"] by simp
  ultimately have "(pipe_step 1)\<^sup>*\<^sup>* (wit_pipes1, [], []) (st2, [1, 2, 3], [1, 2])" by (meson converse_rtranclp_into_rtranclp r_into_rtranclp)
  moreover have "p_len p2 = 1" using r(3) by (metis length_contents One_nat_def length_Cons list.size(3))
  ultimately show ?thesis using r(2) by auto
qed

lemma pipe_fifo_witness:
  "\<exists>(st :: pipe_state) p. pi_pipes st 1 = Some p \<and> [1, 2, 3] = [1, 2] @ contents p"
proof -
  have t: "user_ctx zero_task = None" "\<not> priv_iso_ready zero_task" "fd_table zero_task = replicate 64 None"
    by (simp_all add: zero_task_def)
  obtain t' where c: "pipefs_create (Some zero_task) 0 (wit_pipes, undefined) = (-1, t', [(3, wit_reader), (4, wit_writer)], wit_pipes1, undefined)"
    using wit_pipe_created [OF t] by blast
  obtain st p where r: "(pipe_step 1)\<^sup>*\<^sup>* (wit_pipes1, [], []) (st, [1, 2, 3], [1, 2])" "pi_pipes st 1 = Some p"
    using wit_pipe_run by blast
  have "pf_private wit_reader = Some 1" by (simp add: wit_reader_def)
  from pipe_fifo [OF c this r this, of 0] r(2) show ?thesis by blast
qed

section \<open>Waking\<close>

lemma enqueue_in_rq:
  "th_state (thr s t) \<noteq> THREAD_STATE_DEAD \<Longrightarrow> threads s t \<noteq> None \<Longrightarrow> in_rq (thr (sched_enqueue_thread (Some t) s) t)"
  by (auto simp: sched_enqueue_thread_def Let_def rq_push_def thr_def upd_thread_def split: option.splits)

text \<open>
  C35. \<open>poll\<close> frees its waiter twice: a thread that sleeps in \<open>poll\<close> with the waiter \<open>w\<close> is woken by
  \<open>select_notify_wakeup\<close>, which frees every waiter of the list, and when it goes on it calls \<open>kfree\<close> for \<open>w\<close>
  again, although nothing was allocated in between.
\<close>

theorem poll_waiter_freed_twice:
  assumes "poll_pass files cur uaddr max_ticks elapsed xs (st, m) = (PollSleeps w, st1, m1)"
  defines "st2 \<equiv> select_notify_wakeup st1"
  defines "st3 \<equiv> poll_resume w st2"
  shows "po_freed st3 = po_freed st @ w # po_list st @ [w] \<and> po_thread st2 w = None \<and> h_calls (pi_heap st3) = h_calls (pi_heap st1)"
proof -
  have n: "po_freed (notify_loop ws s) = po_freed s @ ws" for ws s
    by (induction ws arbitrary: s) (simp_all add: free_poll_waiter_def)
  have l: "po_list (notify_loop ws s) = po_list s" for ws s
    by (induction ws arbitrary: s) (simp_all add: free_poll_waiter_def)
  have t: "po_thread (notify_loop ws s) v = (if v \<in> set ws then None else po_thread s v)" for ws s v
    by (induction ws arbitrary: s) (simp_all add: free_poll_waiter_def)
  have s1: "po_list st1 = w # po_list st" "po_freed st1 = po_freed st"
    using assms(1) by (auto simp: poll_pass_def Let_def split: if_splits option.splits prod.splits)
  then show ?thesis
    by (simp add: st2_def st3_def poll_resume_def free_poll_waiter_def select_notify_wakeup_def n t)
qed

lemma poll_waiter_freed_twice_witness:
  "\<exists>st :: pipe_state. po_freed st = [1, 1]"
proof -
  have "poll_pass (\<lambda>_. None) zero_task 0 (-1) 0 [] (wit_pipes, undefined) =
      (PollSleeps 1, wit_pipes\<lparr>pi_heap := wit_heap\<lparr>h_calls := 2\<rparr>, po_thread := [1 \<mapsto> g_bootstrap], po_list := [1],
         pi_sched := set_state THREAD_STATE_BLOCKED (Some g_bootstrap) (pi_sched wit_pipes)\<rparr>, undefined)"
    by (simp add: poll_pass_def poll_scan_def wit_pipes_def wit_heap_def kzalloc_obj_def Let_def sched_init_def)
  from conjunct1 [OF poll_waiter_freed_twice [OF this]] obtain st :: pipe_state where "po_freed st = po_freed wit_pipes @ 1 # po_list wit_pipes @ [1]"
    by blast
  then show ?thesis by (intro exI [of _ st]) (simp add: wit_pipes_def)
qed

end
