(* ===== verification/Signal.thy ===== *)
theory Signal
  imports Sandbox LinuxStack
begin

text \<open>
  Signals (\<open>user/signal.c\<close>), the core dump that the default action writes (\<open>ptrace.c\<close>) and the terminal's job
  control (\<open>user/tty.c\<close>). A process has the slot \<open>pid mod 256\<close> of \<open>g_sig\<close>. A call returns, leaves the processor
  (\<open>task_exit\<close>), or goes back to user mode with other registers. Messages are left out.
\<close>

section \<open>Outcomes\<close>

datatype outcome = Returns int kernel | Leaves "(kernel \<times> switch) option" | Resumes user_regs kernel

definition OB_SIGINT :: nat where [kernel_defs]: "OB_SIGINT = 2"
definition OB_SIGILL :: nat where [kernel_defs]: "OB_SIGILL = 4"
definition OB_SIGBUS :: nat where [kernel_defs]: "OB_SIGBUS = 7"
definition OB_SIGFPE :: nat where [kernel_defs]: "OB_SIGFPE = 8"
definition OB_SIGKILL :: nat where [kernel_defs]: "OB_SIGKILL = 9"
definition OB_SIGSEGV :: nat where [kernel_defs]: "OB_SIGSEGV = 11"
definition OB_SIGTERM :: nat where [kernel_defs]: "OB_SIGTERM = 15"
definition OB_SIGCONT :: nat where [kernel_defs]: "OB_SIGCONT = 18"
definition OB_SIGTSTP :: nat where [kernel_defs]: "OB_SIGTSTP = 20"
definition OB_SIG_DFL :: u64 where [kernel_defs]: "OB_SIG_DFL = 0"
definition OB_SIG_IGN :: u64 where [kernel_defs]: "OB_SIG_IGN = 1"
definition AUDIT_EV_COMPAT_EXCEPTION :: nat where [kernel_defs]: "AUDIT_EV_COMPAT_EXCEPTION = 8"

section \<open>The slot of a process\<close>

definition signal_init :: "bool \<Rightarrow> user_mem \<Rightarrow> user_mem" where
  "signal_init inited m =
     (if inited then m
      else m\<lparr>g_sig := (\<lambda>i. if i < SIG_TASK_MAX then
                (g_sig m i)\<lparr>sg_valid := False, sg_pending := 0, sg_blocked := 0, sg_in_handler := 0, sg_fault_rip := 0,
                  sg_fault_insn_len := 0,
                  sg_actions := (\<lambda>k. if k < OB_NSIG then \<lparr>sa_handler = 0, sa_mask = 0, sa_flags = 0\<rparr>
                                      else sg_actions (g_sig m i) k)\<rparr>
              else g_sig m i)\<rparr>)"

definition sig_slot :: "nat \<Rightarrow> kernel \<Rightarrow> nat" where
  "sig_slot a k = t_pid (tsk k a) mod SIG_TASK_MAX"

definition sig_of :: "nat \<Rightarrow> kernel \<Rightarrow> sig_state option" where
  "sig_of a k = (let s = g_sig (k_mem k) (sig_slot a k) in if sg_valid s then Some s else None)"

definition upd_sig :: "nat \<Rightarrow> (sig_state \<Rightarrow> sig_state) \<Rightarrow> kernel \<Rightarrow> kernel" where
  "upd_sig a f k =
     k\<lparr>k_mem := (k_mem k)\<lparr>g_sig := (g_sig (k_mem k))(sig_slot a k := f (g_sig (k_mem k) (sig_slot a k)))\<rparr>\<rparr>"

definition signal_resume_slot :: "nat \<Rightarrow> kernel \<Rightarrow> user_regs option" where
  "signal_resume_slot a k = map_option sg_resume (sig_of a k)"

definition signal_handler_slot :: "nat \<Rightarrow> kernel \<Rightarrow> user_regs option" where
  "signal_handler_slot a k = map_option sg_handler_regs (sig_of a k)"

section \<open>The length of a faulting division\<close>

definition read_user_byte :: "user_ctx option \<Rightarrow> u64 \<Rightarrow> vmm_state \<Rightarrow> u8 option" where
  "read_user_byte co va v =
     (case (case co of None \<Rightarrow> None | Some c \<Rightarrow> c_pml4 c) of
        None \<Rightarrow> None
      | Some pml4 \<Rightarrow>
          (case vmm_get_pte pml4 va v of
             None \<Rightarrow> None
           | Some (pt, i) \<Rightarrow>
               if \<not> has_flag (pt_mem v pt i) PTE_PRESENT \<or> \<not> has_flag (pt_mem v pt i) PTE_USER then None
               else Some (mem_get v (unat (pt_mem v pt i AND PTE_ADDR_MASK) + unat (va AND 0xFFF)))))"

definition is_prefix :: "u8 \<Rightarrow> bool" where
  "is_prefix b \<longleftrightarrow> b = 0x66 \<or> b = 0x67 \<or> (b \<ge> 0x40 \<and> b \<le> 0x4F)"

text \<open>The loop over at most four prefix bytes.\<close>

function skip_prefixes :: "u8 list \<Rightarrow> nat \<Rightarrow> nat" where
  "skip_prefixes buf p = (if p < 4 \<and> is_prefix (buf ! p) then skip_prefixes buf (p + 1) else p)"
  by pat_completeness auto
termination by (relation "measure (\<lambda>(buf, p). 4 - p)") auto

declare skip_prefixes.simps [simp del]

text \<open>Bytes after the ModRM byte: the SIB byte and the displacement.\<close>

definition modrm_tail :: "u8 \<Rightarrow> u8 \<Rightarrow> nat" where
  "modrm_tail modrm sib =
     (let md = drop_bit 6 modrm AND 3; rm = modrm AND 7 in
      if md = 0 then
        (if rm = 5 then 4 else if rm = 4 then (if sib AND 7 = 5 then 5 else 1) else 0)
      else if md = 1 then (if rm = 4 then 2 else 1)
      else if md = 2 then (if rm = 4 then 5 else 4)
      else 0)"

definition div_insn_len :: "u8 list \<Rightarrow> nat" where
  "div_insn_len buf =
     (let p = skip_prefixes buf 0 in
      if buf ! p \<noteq> 0xF6 \<and> buf ! p \<noteq> 0xF7 then 0
      else
        let modrm = buf ! (p + 1); reg = drop_bit 3 modrm AND 7
        in if reg \<noteq> 6 \<and> reg \<noteq> 7 then 0 else p + 2 + modrm_tail modrm (buf ! (p + 2)))"

definition decode_div_insn_len :: "user_ctx option \<Rightarrow> u64 \<Rightarrow> vmm_state \<Rightarrow> nat" where
  "decode_div_insn_len co rp v =
     (case those (map (\<lambda>i. read_user_byte co (rp + of_nat i) v) [0..<8]) of None \<Rightarrow> 0 | Some buf \<Rightarrow> div_insn_len buf)"

definition compute_fault_insn_len :: "nat \<Rightarrow> u64 \<Rightarrow> u64 \<Rightarrow> kernel \<Rightarrow> nat" where
  "compute_fault_insn_len a vector rp k =
     (case user_get_ctx (tsk k a) (k_mem k) of
        None \<Rightarrow> 0
      | Some c \<Rightarrow> if vector = 0 then decode_div_insn_len (Some c) rp (um_vmm (k_mem k)) else 0)"

section \<open>The core dump\<close>

definition core_path :: "nat \<Rightarrow> string" where
  "core_path pid = ''/tmp/core.'' @ dec_string pid"

definition core_regs :: "user_regs \<Rightarrow> u64 list" where
  "core_regs r =
     [u_r15 r, u_r14 r, u_r13 r, u_r12 r, u_r11 r, u_r10 r, u_r9 r, u_r8 r, u_rsi r, u_rdi r, u_rbp r, u_rdx r, u_rcx r,
      u_rbx r, u_rax r, u_rip r, u_cs r, u_rflags r, u_rsp r, u_ss r]"

text \<open>The header as it lies in memory: magic, PID, signal, padding, address, registers.\<close>

definition core_bytes :: "nat \<Rightarrow> nat \<Rightarrow> u64 \<Rightarrow> user_regs option \<Rightarrow> u8 list" where
  "core_bytes pid signum fault_addr ro =
     le_bytes 0x434F5245444D5000 @ le_bytes (of_nat pid) @ take 4 (le_bytes (of_nat signum)) @ [0, 0, 0, 0] @
     le_bytes fault_addr @ concat (map le_bytes (core_regs (case ro of Some r \<Rightarrow> r | None \<Rightarrow> zero_regs)))"

definition core_dump :: "nat \<Rightarrow> nat \<Rightarrow> u64 \<Rightarrow> kernel \<Rightarrow> kernel" where
  "core_dump a signum fault_addr k =
     (if t_pid (tsk k a) \<le> 99 then k
      else case vfs_open tmpfs_env (Some (core_path (t_pid (tsk k a)))) (VFS_O_CREAT OR 3) (k_fs k) of
        (rc, fo, s) \<Rightarrow>
          if rc \<noteq> 0 \<or> fo = None then k\<lparr>k_fs := s\<rparr>
          else case vfs_write tmpfs_env fo (core_bytes (t_pid (tsk k a)) signum fault_addr (signal_handler_slot a k)) s of
            (_, fo, s) \<Rightarrow> k\<lparr>k_fs := snd (vfs_close tmpfs_env fo s)\<rparr>)"

section \<open>Delivery\<close>

text \<open>The register context of the handler: its address, its stack, the signal in both argument registers.\<close>

definition handler_context :: "u64 \<Rightarrow> u64 \<Rightarrow> nat \<Rightarrow> user_regs \<Rightarrow> user_regs" where
  "handler_context h sp signum cur =
     cur\<lparr>u_rip := h, u_rsp := sp, u_rcx := of_nat signum, u_rdi := of_nat signum, u_rax := 0\<rparr>"

definition handler_sp :: "u64 \<Rightarrow> u64" where
  "handler_sp sp = ((sp - 48) AND NOT 0xF) - 8"

text \<open>For the current task \<open>a\<close>, whose slot is valid.\<close>

definition setup_user_handler :: "nat \<Rightarrow> nat \<Rightarrow> user_regs \<Rightarrow> kernel \<Rightarrow> outcome" where
  "setup_user_handler a signum cur k =
     (let s = g_sig (k_mem k) (sig_slot a k); h = sa_handler (sg_actions s signum) in
      if h = OB_SIG_IGN then Returns 0 k
      else if h = OB_SIG_DFL then
        (let k = (if signum \<in> {OB_SIGSEGV, OB_SIGFPE, OB_SIGILL, OB_SIGBUS} then core_dump a signum (sg_fault_rip s) k else k)
         in Leaves (task_exit (- int signum) k))
      else case user_get_ctx (tsk k a) (k_mem k) of
          None \<Rightarrow> Leaves (task_exit (- int signum) k)
        | Some c \<Rightarrow>
            let k = upd_sig a (\<lambda>s. s\<lparr>sg_resume := cur\<rparr>) k;
                sp = handler_sp (u_rsp cur)
            in case user_stack_write c sp (le_bytes USER_SIGTRAMP_ADDR) (um_vmm (k_mem k)) of
                 (rc, v) \<Rightarrow>
                   let k = k\<lparr>k_mem := (k_mem k)\<lparr>um_vmm := v\<rparr>\<rparr> in
                   if rc \<noteq> 0 then Leaves (task_exit (- int signum) k)
                   else Returns 1 (upd_sig a (\<lambda>s. s\<lparr>sg_handler_regs := handler_context h sp signum cur,
                                                     sg_in_handler := sg_in_handler s OR push_bit signum 1\<rparr>) k))"

definition signal_of_vector :: "u64 \<Rightarrow> nat" where
  "signal_of_vector vec =
     (if vec = 0 then OB_SIGFPE else if vec = 6 then OB_SIGILL else if vec = 13 then OB_SIGSEGV
      else if vec = 14 then OB_SIGSEGV else if vec = 17 then OB_SIGBUS else OB_SIGTERM)"

text \<open>The audit event, and the fault in the slot. \<open>r\<close>: the registers of the exception frame, with the user's
  stack pointer and segment.\<close>

definition note_fault :: "nat \<Rightarrow> u64 \<Rightarrow> user_regs \<Rightarrow> kernel \<Rightarrow> kernel" where
  "note_fault a vector r k =
     (let k = k\<lparr>k_audit := k_audit k @ [AuditEvent AUDIT_EV_COMPAT_EXCEPTION (t_pid (tsk k a)) vector (u_rip r) 0
                                         ''(user-exception)'']\<rparr>;
          n = compute_fault_insn_len a vector (u_rip r) k
      in upd_sig a (\<lambda>s. s\<lparr>sg_fault_rip := u_rip r, sg_fault_insn_len := of_nat n\<rparr>) k)"

definition signal_from_exception :: "nat \<Rightarrow> u64 \<Rightarrow> user_regs \<Rightarrow> kernel \<Rightarrow> outcome" where
  "signal_from_exception a vector r k =
     (if u_cs r AND 3 \<noteq> 3 then Returns 0 k
      else if sig_of a k = None then Returns 0 k
      else setup_user_handler a (signal_of_vector vector) r (note_fault a vector r k))"

definition deliver_context :: "user_ctx option \<Rightarrow> user_regs" where
  "deliver_context co =
     zero_regs\<lparr>u_rip := 0, u_cs := 0x23, u_ss := 0x1B, u_rflags := 0x202,
       u_rsp := (case co of Some c \<Rightarrow> c_stack_top c - 0x100 | None \<Rightarrow> 0)\<rparr>"

definition signal_deliver_if_pending :: "nat \<Rightarrow> kernel \<Rightarrow> outcome" where
  "signal_deliver_if_pending a k =
     (case sig_of a k of
        None \<Rightarrow> Returns 0 k
      | Some s \<Rightarrow>
          let todo = sg_pending s AND NOT (sg_blocked s) in
          (case List.find (\<lambda>i. bit todo i) [1..<OB_NSIG] of
             None \<Rightarrow> Returns 0 k
           | Some i \<Rightarrow>
               let k = upd_sig a (\<lambda>s. s\<lparr>sg_pending := sg_pending s AND NOT (push_bit i 1)\<rparr>) k
               in if i = OB_SIGKILL then Leaves (task_exit (- int i) k)
                  else setup_user_handler a i (deliver_context (user_get_ctx (tsk k a) (k_mem k))) k))"

section \<open>Return from a handler\<close>

definition signal_fixup_resume :: "nat \<Rightarrow> kernel \<Rightarrow> int \<times> kernel" where
  "signal_fixup_resume a k =
     (case sig_of a k of
        None \<Rightarrow> (0, k)
      | Some s \<Rightarrow>
          if sg_fault_insn_len s = 0 then (0, k)
          else if sg_fault_rip s = 0 then (0, k)
          else if u_rip (sg_resume s) \<noteq> sg_fault_rip s then (0, k)
          else (1, upd_sig a (\<lambda>s. s\<lparr>sg_resume := (sg_resume s)\<lparr>u_rip := u_rip (sg_resume s) + ucast (sg_fault_insn_len s)\<rparr>,
                                    sg_fault_rip := 0, sg_fault_insn_len := 0\<rparr>) k))"

text \<open>
  \<open>user_resume_ctx\<close> (\<open>user/user.c\<close>): without a context or an address space the task ends, otherwise the
  processor switches to the address space and the registers. The FS base and the kernel stack of the
  next system call are not modelled.
\<close>

definition user_resume_ctx :: "nat \<Rightarrow> user_regs option \<Rightarrow> kernel \<Rightarrow> outcome" where
  "user_resume_ctx a ro k =
     (case (ro, user_get_ctx (tsk k a) (k_mem k)) of
        (Some r, Some c) \<Rightarrow>
          Resumes r (k\<lparr>k_mem := (k_mem k)\<lparr>um_vmm := vmm_switch_address_space (c_pml4 c) (um_vmm (k_mem k))\<rparr>\<rparr>)
      | _ \<Rightarrow> Leaves (task_exit (-1) k))"

definition sys_sigreturn :: "nat \<Rightarrow> kernel \<Rightarrow> outcome" where
  "sys_sigreturn a k =
     (let k = snd (signal_fixup_resume a k) in user_resume_ctx a (signal_resume_slot a k) k)"

text \<open>
  The branch of \<open>exception_handler\<close> (\<open>idt.c\<close>) and of \<open>page_fault_handler\<close> for a process in user mode: \<open>code\<close> is
  what the task ends with when there is no handler to go to.
\<close>

definition exception_to_user :: "nat \<Rightarrow> u64 \<Rightarrow> user_regs \<Rightarrow> int \<Rightarrow> kernel \<Rightarrow> outcome" where
  "exception_to_user a vector r code k =
     (case signal_from_exception a vector r k of
        Returns rc k \<Rightarrow> if rc = 1 then user_resume_ctx a (signal_handler_slot a k) k else Leaves (task_exit code k)
      | out \<Rightarrow> out)"

section \<open>System calls\<close>

definition sys_signal :: "int \<Rightarrow> u64 \<Rightarrow> kernel \<Rightarrow> outcome" where
  "sys_signal signum handler k =
     (if signum \<le> 0 \<or> signum \<ge> int OB_NSIG then Returns OB_EINVAL k
      else if handler \<noteq> 0 \<and> handler \<noteq> 1 \<and> \<not> user_range_ok handler 1 then Returns OB_EFAULT k
      else case self_task k of
          None \<Rightarrow> Returns OB_EINVAL k
        | Some a \<Rightarrow>
            (case sig_of a k of
               None \<Rightarrow> Returns OB_EINVAL k
             | Some s \<Rightarrow>
                 Returns (sint (sa_handler (sg_actions s (nat signum))))
                   (upd_sig a (\<lambda>s. s\<lparr>sg_actions := (sg_actions s)(nat signum := (sg_actions s (nat signum))\<lparr>sa_handler := handler\<rparr>)\<rparr>) k)))"

text \<open>
  \<open>act\<close>, \<open>set\<close>: what the caller's memory holds at the (non-null) address, when the address is in the user
  half. The old value that is stored at \<open>old\<close> is the second component of the result.
\<close>

definition sys_sigaction ::
    "int \<Rightarrow> u64 \<Rightarrow> (u64 \<Rightarrow> ob_sigaction) \<Rightarrow> u64 \<Rightarrow> kernel \<Rightarrow> int \<times> ob_sigaction option \<times> kernel" where
  "sys_sigaction signum act action_at old k =
     (if signum \<le> 0 \<or> signum \<ge> int OB_NSIG then (OB_EINVAL, None, k)
      else case (case self_task k of None \<Rightarrow> None | Some a \<Rightarrow> map_option (Pair a) (sig_of a k)) of
          None \<Rightarrow> (OB_EINVAL, None, k)
        | Some (a, s) \<Rightarrow>
            if old \<noteq> 0 \<and> \<not> user_range_ok old 24 then (OB_EFAULT, None, k)
            else
              let prev = (if old \<noteq> 0 then Some (sg_actions s (nat signum)) else None)
              in if act = 0 then (0, prev, k)
                 else if \<not> user_range_ok act 24 then (OB_EFAULT, prev, k)
                 else let h = sa_handler (action_at act) in
                   if h \<noteq> 0 \<and> h \<noteq> 1 \<and> \<not> user_range_ok h 1 then (OB_EFAULT, prev, k)
                   else (0, prev, upd_sig a (\<lambda>s. s\<lparr>sg_actions := (sg_actions s)(nat signum := action_at act)\<rparr>) k))"

definition sys_sigprocmask :: "int \<Rightarrow> u64 \<Rightarrow> (u64 \<Rightarrow> u64) \<Rightarrow> u64 \<Rightarrow> kernel \<Rightarrow> int \<times> u64 option \<times> kernel" where
  "sys_sigprocmask how set_addr word_at old k =
     (case (case self_task k of None \<Rightarrow> None | Some a \<Rightarrow> map_option (Pair a) (sig_of a k)) of
        None \<Rightarrow> (OB_EINVAL, None, k)
      | Some (a, s) \<Rightarrow>
          if old \<noteq> 0 \<and> \<not> user_range_ok old 8 then (OB_EFAULT, None, k)
          else
            let prev = (if old \<noteq> 0 then Some (sg_blocked s) else None)
            in if set_addr = 0 then (0, prev, k)
               else if \<not> user_range_ok set_addr 8 then (OB_EFAULT, prev, k)
               else let w = word_at set_addr in
                 if how = 0 then (0, prev, upd_sig a (\<lambda>s. s\<lparr>sg_blocked := sg_blocked s OR w\<rparr>) k)
                 else if how = 1 then (0, prev, upd_sig a (\<lambda>s. s\<lparr>sg_blocked := sg_blocked s AND NOT w\<rparr>) k)
                 else if how = 2 then (0, prev, upd_sig a (\<lambda>s. s\<lparr>sg_blocked := w\<rparr>) k)
                 else (OB_EINVAL, prev, k))"

text \<open>Only a signal to the caller itself is delivered; what the delivery returns is dropped.\<close>

definition sys_kill :: "nat \<Rightarrow> int \<Rightarrow> kernel \<Rightarrow> outcome" where
  "sys_kill pid signum k =
     (case self_task k of
        None \<Rightarrow> Returns OB_EPERM k
      | Some a \<Rightarrow>
          if signum \<le> 0 \<or> signum \<ge> int OB_NSIG then Returns OB_EINVAL k
          else case find_task k pid of
              None \<Rightarrow> Returns OB_ENOENT k
            | Some target \<Rightarrow>
                (case check_pid_access (Some (tsk k a)) pid of
                   (rc, ev) \<Rightarrow>
                     let k = k\<lparr>k_audit := k_audit k @ ev\<rparr> in
                     if rc \<noteq> 0 then Returns rc k
                     else if sig_of target k = None then Returns OB_ENOENT k
                     else
                       let k = upd_sig target (\<lambda>s. s\<lparr>sg_pending := sg_pending s OR push_bit (nat signum) 1\<rparr>) k
                       in if target = a then
                            (case signal_deliver_if_pending a k of Returns _ k \<Rightarrow> Returns 0 k | out \<Rightarrow> out)
                          else Returns 0 k))"

definition sys_raise :: "int \<Rightarrow> kernel \<Rightarrow> outcome" where
  "sys_raise signum k =
     (case self_task k of None \<Rightarrow> Returns OB_EPERM k | Some a \<Rightarrow> sys_kill (t_pid (tsk k a)) signum k)"

section \<open>The terminal\<close>

definition TTY_MAX_JOBS :: nat where [kernel_defs]: "TTY_MAX_JOBS = 16"

record tty_job =
  jb_pgid :: nat
  jb_leader_pid :: nat
  jb_state :: nat
  jb_name :: string

text \<open>\<open>tt_jobs\<close> is the part of \<open>jobs\<close> below \<open>job_count\<close>.\<close>

record tty =
  tt_foreground_pgid :: nat
  tt_foreground_leader :: nat
  tt_my_pgid :: nat
  tt_jobs :: "tty_job list"
  tt_next_job_id :: nat

definition tty_init :: tty where
  "tty_init = \<lparr>tt_foreground_pgid = 0, tt_foreground_leader = 0, tt_my_pgid = 0, tt_jobs = [], tt_next_job_id = 1\<rparr>"

definition tty_getchar :: int where "tty_getchar = -1"

definition send_to_pgrp :: "nat \<Rightarrow> nat \<Rightarrow> kernel \<Rightarrow> outcome" where
  "send_to_pgrp pgrp_no signum k =
     (case find_task k pgrp_no of None \<Rightarrow> Returns 0 k | Some _ \<Rightarrow> sys_kill pgrp_no (int signum) k)"

text \<open>The first job of the group.\<close>

fun stop_job :: "nat \<Rightarrow> tty_job list \<Rightarrow> tty_job list" where
  "stop_job pgrp_no [] = []"
| "stop_job pgrp_no (j # js) = (if jb_pgid j = pgrp_no then j\<lparr>jb_state := 0\<rparr> # js else j # stop_job pgrp_no js)"

text \<open>When the signal ends the running task, the rest of the function is not reached.\<close>

definition tty_handle_char :: "int \<Rightarrow> tty \<Rightarrow> kernel \<Rightarrow> tty \<times> outcome" where
  "tty_handle_char c t k =
     (if c = 3 then
        (t, if tt_foreground_pgid t \<noteq> 0 then send_to_pgrp (tt_foreground_pgid t) OB_SIGINT k else Returns 0 k)
      else if c = 26 then
        (case (if tt_foreground_pgid t \<noteq> 0 then send_to_pgrp (tt_foreground_pgid t) OB_SIGTSTP k else Returns 0 k) of
           Returns rc k \<Rightarrow> (t\<lparr>tt_jobs := stop_job (tt_foreground_pgid t) (tt_jobs t)\<rparr>, Returns rc k)
         | out \<Rightarrow> (t, out))
      else (t, Returns 0 k))"

definition sys_tcsetpgrp :: "nat \<Rightarrow> tty \<Rightarrow> int \<times> tty" where
  "sys_tcsetpgrp pgrp_no t = (0, t\<lparr>tt_foreground_pgid := pgrp_no, tt_foreground_leader := pgrp_no\<rparr>)"

definition sys_tcgetpgrp :: "tty \<Rightarrow> int" where
  "sys_tcgetpgrp t = int (tt_foreground_pgid t)"

definition tty_add_job :: "string option \<Rightarrow> nat \<Rightarrow> nat \<Rightarrow> tty \<Rightarrow> int \<times> tty" where
  "tty_add_job name pgrp_no leader t =
     (if length (tt_jobs t) \<ge> TTY_MAX_JOBS then (-1, t)
      else (0, t\<lparr>tt_jobs := tt_jobs t @ [\<lparr>jb_pgid = pgrp_no, jb_leader_pid = leader, jb_state = 1,
              jb_name = take 63 (case name of None \<Rightarrow> [] | Some s \<Rightarrow> s)\<rparr>]\<rparr>))"

definition tty_resume :: "bool \<Rightarrow> int \<Rightarrow> tty \<Rightarrow> kernel \<Rightarrow> int \<times> tty \<times> outcome" where
  "tty_resume fg n t k =
     (if n < 1 \<or> n > int (length (tt_jobs t)) then (-1, t, Returns (-1) k)
      else
        let i = nat n - 1; j = tt_jobs t ! i;
            t = t\<lparr>tt_jobs := (tt_jobs t)[i := j\<lparr>jb_state := 1\<rparr>]\<rparr>;
            t = (if fg then t\<lparr>tt_foreground_pgid := jb_pgid j, tt_foreground_leader := jb_leader_pid j\<rparr> else t)
        in (0, t, sys_kill (jb_pgid j) (int OB_SIGCONT) k))"

definition tty_fg :: "int \<Rightarrow> tty \<Rightarrow> kernel \<Rightarrow> int \<times> tty \<times> outcome" where "tty_fg = tty_resume True"
definition tty_bg :: "int \<Rightarrow> tty \<Rightarrow> kernel \<Rightarrow> int \<times> tty \<times> outcome" where "tty_bg = tty_resume False"

end
