(* ===== verification/SignalProps.thy ===== *)
theory SignalProps
  imports Signal TaskLife LinuxStackProps
begin

text \<open>
  Properties of signals: a handler returns to the instruction after the fault, and a signal to another process
  does nothing but set a bit.
\<close>

section \<open>Lemmas\<close>

lemma skip_prefixes_le: "p \<le> 4 \<Longrightarrow> skip_prefixes buf p \<le> 4"
proof (induction buf p rule: skip_prefixes.induct)
  case (1 buf p)
  then show ?case using skip_prefixes.simps[of buf p] by (cases "p < 4 \<and> is_prefix (buf ! p)") simp_all
qed

lemma modrm_tail_le: "modrm_tail modrm sib \<le> 5"
  by (simp add: modrm_tail_def Let_def)

text \<open>No division is longer than eleven bytes; the decoder reads at most the first seven of its eight bytes.\<close>

lemma div_insn_len_le: "div_insn_len buf \<le> 11"
  using skip_prefixes_le[of 0 buf] modrm_tail_le by (auto simp: div_insn_len_def Let_def intro: order_trans[OF add_mono])

lemma compute_len_le: "compute_fault_insn_len a vec rp k \<le> 11"
  by (auto simp: compute_fault_insn_len_def decode_div_insn_len_def div_insn_len_le split: option.splits)

lemma ucast_small_len:
  assumes "n \<le> 11"
  shows "ucast (of_nat n :: u32) = (of_nat n :: u64)" "(of_nat n :: u32) = 0 \<longleftrightarrow> n = 0"
proof -
  have "n = 0 \<or> n = 1 \<or> n = 2 \<or> n = 3 \<or> n = 4 \<or> n = 5 \<or> n = 6 \<or> n = 7 \<or> n = 8 \<or> n = 9 \<or> n = 10 \<or> n = 11"
    using assms by (simp add: le_Suc_eq numeral_eq_Suc)
  then show "ucast (of_nat n :: u32) = (of_nat n :: u64)" "(of_nat n :: u32) = 0 \<longleftrightarrow> n = 0" by auto
qed

lemma upd_sig_simps [simp]:
  "g_sig (k_mem (upd_sig a f k)) (sig_slot a k) = f (g_sig (k_mem k) (sig_slot a k))"
  "sig_slot b (upd_sig a f k) = sig_slot b k" "tsk (upd_sig a f k) = tsk k"
  by (simp_all add: upd_sig_def sig_slot_def tsk_def fun_eq_iff)

lemma upd_sig_get_ctx [simp]: "user_get_ctx t (k_mem (upd_sig a f k)) = user_get_ctx t (k_mem k)"
  by (simp add: upd_sig_def user_get_ctx_def split: option.split)

lemma upd_sig_vmm [simp]: "um_vmm (k_mem (upd_sig a f k)) = um_vmm (k_mem k)"
  by (simp add: upd_sig_def)

lemma sig_of_upd [simp]:
  "sig_of a (upd_sig a f k) = (let s = f (g_sig (k_mem k) (sig_slot a k)) in if sg_valid s then Some s else None)"
  by (simp add: sig_of_def Let_def)

lemma compute_len_cong:
  "tsk k' = tsk k \<Longrightarrow> k_mem k' = k_mem k \<Longrightarrow> compute_fault_insn_len a vec rp k' = compute_fault_insn_len a vec rp k"
  by (simp add: compute_fault_insn_len_def split: option.split)

lemma tsk_update [simp]: "tsk (k\<lparr>k_audit := e\<rparr>) = tsk k" "tsk (k\<lparr>k_mem := m\<rparr>) = tsk k"
  by (auto simp: tsk_def fun_eq_iff)

text \<open>When the handler is set up, the slot holds the interrupted registers.\<close>

lemma setup_handler_slot:
  assumes "setup_user_handler a n cur k = Returns rc k'" "rc \<noteq> 0"
  shows "sg_resume (g_sig (k_mem k') (sig_slot a k')) = cur
     \<and> sg_fault_rip (g_sig (k_mem k') (sig_slot a k')) = sg_fault_rip (g_sig (k_mem k) (sig_slot a k))
     \<and> sg_fault_insn_len (g_sig (k_mem k') (sig_slot a k')) = sg_fault_insn_len (g_sig (k_mem k) (sig_slot a k))
     \<and> sg_valid (g_sig (k_mem k') (sig_slot a k')) = sg_valid (g_sig (k_mem k) (sig_slot a k))"
  using assms
  by (auto simp: setup_user_handler_def Let_def upd_sig_def sig_slot_def tsk_def split: if_splits option.splits prod.splits)

lemma note_fault_slot:
  "g_sig (k_mem (note_fault a vec r k)) (sig_slot a (note_fault a vec r k)) =
     (g_sig (k_mem k) (sig_slot a k))\<lparr>sg_fault_rip := u_rip r,
       sg_fault_insn_len := of_nat (compute_fault_insn_len a vec (u_rip r) k)\<rparr>"
proof -
  let ?k = "k\<lparr>k_audit := k_audit k @ [AuditEvent AUDIT_EV_COMPAT_EXCEPTION (t_pid (tsk k a)) vec (u_rip r) 0
                                         ''(user-exception)'']\<rparr>"
  have "compute_fault_insn_len a vec (u_rip r) ?k = compute_fault_insn_len a vec (u_rip r) k" "sig_slot a ?k = sig_slot a k"
    by (rule compute_len_cong, simp_all add: sig_slot_def)
  note eq = this
  show ?thesis unfolding note_fault_def Let_def upd_sig_simps(2) upd_sig_simps(1) unfolding eq by simp
qed

lemma exception_slot:
  assumes "signal_from_exception a vec r k = Returns rc k'" "rc \<noteq> 0"
  shows "sg_resume (g_sig (k_mem k') (sig_slot a k')) = r
     \<and> sg_fault_rip (g_sig (k_mem k') (sig_slot a k')) = u_rip r
     \<and> sg_fault_insn_len (g_sig (k_mem k') (sig_slot a k')) = of_nat (compute_fault_insn_len a vec (u_rip r) k)
     \<and> sg_valid (g_sig (k_mem k') (sig_slot a k'))"
proof -
  let ?k = "note_fault a vec r k"
  have known: "sig_of a k \<noteq> None" and run: "signal_from_exception a vec r k = setup_user_handler a (signal_of_vector vec) r ?k"
    using assms by (auto simp: signal_from_exception_def split: if_splits)
  have "sg_valid (g_sig (k_mem k) (sig_slot a k))"
    using known by (simp add: sig_of_def Let_def split: if_splits)
  moreover have "setup_user_handler a (signal_of_vector vec) r ?k = Returns rc k'" using assms(1) run by simp
  note setup_handler_slot[OF this assms(2)]
  ultimately show ?thesis by (simp add: note_fault_slot)
qed

section \<open>A kernel for the witnesses\<close>

text \<open>A process with PID 1 that has a handler at 4096 for \<open>SIGFPE\<close>, and one with PID 100.\<close>

definition wit_sig_ctx :: user_ctx where
  "wit_sig_ctx =
     \<lparr>c_entry = 0, c_stack_top = 0x10000, c_stack_bottom = 0, c_stack_phys = replicate 16 0, c_tls_base = 0, c_tls_phys = 0,
      c_pml4 = None, c_heap_cur = 0, c_heap_end = 0, c_heap_page_count = 0, c_owns_pml4 = False, c_is_thread = False,
      c_thread_stack_base = 0, c_thread_stack_pages = 0, c_thread_tls_phys = 0, c_thread_stack_owned_phys = []\<rparr>"

definition wit_regs :: user_regs where
  "wit_regs = zero_regs\<lparr>u_rip := 0x2000, u_rsp := 0x8000, u_cs := 0x23\<rparr>"

definition wit_signals :: kernel where
  "wit_signals =
     wit_base\<lparr>k_tasks := [0 \<mapsto> zero_task\<lparr>t_pid := 1, user_ctx := Some 7, privilege_level := 9\<rparr>, 1 \<mapsto> zero_task\<lparr>t_pid := 100\<rparr>], k_list := [1, 0],
       k_sched := (k_sched wit_base)\<lparr>g_current := Some 3, threads := [3 \<mapsto> zero_thread\<lparr>th_task := Some 0\<rparr>]\<rparr>,
       k_mem := (k_mem wit_base)\<lparr>um_ctx := [7 \<mapsto> wit_sig_ctx],
         g_sig := (\<lambda>_. \<lparr>sg_actions = (\<lambda>n. \<lparr>sa_handler = (if n = 8 then 4096 else 0), sa_mask = 0, sa_flags = 0\<rparr>),
           sg_pending = 0, sg_blocked = 0, sg_in_handler = 0, sg_fault_rip = 0, sg_fault_insn_len = 0,
           sg_resume = zero_regs, sg_handler_regs = zero_regs, sg_valid = True\<rparr>)\<rparr>\<rparr>"

section \<open>Properties\<close>


lemma wit_signal_run:
  "\<exists>k'. signal_from_exception 0 0 wit_regs wit_signals = Returns 1 k' \<and> tsk k' = tsk wit_signals \<and>
     um_ctx (k_mem k') = um_ctx (k_mem wit_signals)"
proof -
  let ?k = "note_fault 0 0 wit_regs wit_signals"
  have k: "tsk ?k = tsk wit_signals" "um_ctx (k_mem ?k) = um_ctx (k_mem wit_signals)"
    by (simp_all add: note_fault_def Let_def) (simp add: upd_sig_def)
  have t: "tsk wit_signals 0 = zero_task\<lparr>t_pid := 1, user_ctx := Some 7, privilege_level := 9\<rparr>"
    by (simp add: tsk_def wit_signals_def)
  have c: "user_get_ctx (tsk ?k 0) (k_mem ?k) = Some wit_sig_ctx"
    unfolding user_get_ctx_def k t by (simp add: wit_signals_def)
  have act: "sa_handler (sg_actions (g_sig (k_mem ?k) (sig_slot 0 ?k)) 8) = 4096"
    unfolding note_fault_slot by (simp add: wit_signals_def)
  have sig: "sig_of 0 wit_signals \<noteq> None" by (simp add: sig_of_def Let_def wit_signals_def)
  obtain v where w: "user_stack_write wit_sig_ctx (handler_sp (u_rsp wit_regs)) (le_bytes USER_SIGTRAMP_ADDR) (um_vmm (k_mem ?k)) = (0, v)"
  proof -
    have "handler_sp (u_rsp wit_regs) = 0x7FC8" by (simp add: handler_sp_def wit_regs_def)
    moreover have "\<exists>v'. user_stack_write wit_sig_ctx 0x7FC8 bs v = (0, v')" if "length bs = 8" for bs v
      using that by (auto simp: user_stack_write_def wit_sig_ctx_def stack_write_loop.simps[of _ _ bs] stack_write_loop.simps[of _ _ "[]"]
          Let_def kernel_defs)
    ultimately show thesis using that by (metis le_bytes_length)
  qed
  have run: "signal_from_exception 0 0 wit_regs wit_signals = setup_user_handler 0 8 wit_regs ?k"
    using sig by (auto simp: signal_from_exception_def wit_regs_def signal_of_vector_def kernel_defs)
  show ?thesis
    unfolding run setup_user_handler_def Let_def act c option.case upd_sig_vmm w
    by (simp add: OB_SIG_IGN_def OB_SIG_DFL_def k upd_sig_def)
qed


text \<open>
  C37. A signal to another process changes nothing but a bit. Whatever the signal, \<open>SIGKILL\<close> included, \<open>sys_kill\<close>
  on a process other than the caller returns; it may have written an audit event and, when it returns 0, it has
  set the signal's bit in the target's pending word. No run queue, task or other slot changes: nothing ever
  acts on the bit, as only \<open>sys_kill\<close> on the caller itself delivers.
\<close>

theorem kill_other_only_pends:
  assumes "self_task k = Some a" "find_task k pid = Some b" "b \<noteq> a"
  shows "\<exists>rc ev. sys_kill pid signum k =
      Returns rc (let k1 = k\<lparr>k_audit := k_audit k @ ev\<rparr> in
        if rc = 0 then upd_sig b (\<lambda>s. s\<lparr>sg_pending := sg_pending s OR push_bit (nat signum) 1\<rparr>) k1 else k1)"
proof -
  have none: "k\<lparr>k_audit := k_audit k @ []\<rparr> = k" by simp
  have audit: "OB_EINVAL \<noteq> 0" "OB_ENOENT \<noteq> 0" by (simp_all add: kernel_defs)
  obtain rc ev where chk: "check_pid_access (Some (tsk k a)) pid = (rc, ev)" by fastforce
  show ?thesis
  proof (cases "signum \<le> 0 \<or> signum \<ge> int OB_NSIG")
    case True
    then show ?thesis using assms audit by (intro exI[of _ OB_EINVAL] exI[of _ "[]"]) (simp add: sys_kill_def)
  next
    case False
    then have k: "sys_kill pid signum k =
        (let k = k\<lparr>k_audit := k_audit k @ ev\<rparr> in
         if rc \<noteq> 0 then Returns rc k
         else if sig_of b k = None then Returns OB_ENOENT k
         else Returns 0 (upd_sig b (\<lambda>s. s\<lparr>sg_pending := sg_pending s OR push_bit (nat signum) 1\<rparr>) k))"
      using assms by (simp add: sys_kill_def chk Let_def)
    let ?rc = "if rc \<noteq> 0 then rc else if sig_of b (k\<lparr>k_audit := k_audit k @ ev\<rparr>) = None then OB_ENOENT else 0"
    show ?thesis using audit by (intro exI[of _ ?rc] exI[of _ ev]) (simp add: k Let_def)
  qed
qed

theorem kill_other_only_pends_witness:
  "\<exists>k'. sys_kill 100 9 wit_signals = Returns 0 k' \<and> sg_pending (g_sig (k_mem k') 100) = 512 \<and> k_tasks k' = k_tasks wit_signals"
proof -
  have self: "self_task wit_signals = Some 0" "find_task wit_signals 100 = Some 1"
    by (simp_all add: self_task_def find_task_def wit_signals_def thr_def tsk_def zero_thread_def)
  obtain rc ev where k: "sys_kill 100 9 wit_signals = Returns rc (let k1 = wit_signals\<lparr>k_audit := k_audit wit_signals @ ev\<rparr> in
        if rc = 0 then upd_sig 1 (\<lambda>s. s\<lparr>sg_pending := sg_pending s OR push_bit (nat 9) 1\<rparr>) k1 else k1)"
    using kill_other_only_pends [OF self, of 9] by auto
  have self0: "tsk wit_signals 0 = zero_task\<lparr>t_pid := 1, user_ctx := Some 7, privilege_level := 9\<rparr>"
    and slot: "sig_slot 1 wit_signals = 100" and valid: "sig_of 1 (wit_signals\<lparr>k_audit := e\<rparr>) \<noteq> None" for e
    by (simp_all add: tsk_def wit_signals_def sig_slot_def sig_of_def Let_def kernel_defs)
  have "sys_kill 100 9 wit_signals = Returns 0 k1" if "k1 = upd_sig 1 (\<lambda>s. s\<lparr>sg_pending := sg_pending s OR push_bit (nat 9) 1\<rparr>)
      (wit_signals\<lparr>k_audit := k_audit wit_signals @ []\<rparr>)" for k1
    unfolding that sys_kill_def self option.case self0 using valid [of "k_audit wit_signals"]
    by (simp add: check_pid_access_def pid_is_reserved_def kernel_defs)
  then have "rc = 0" using k by simp
  with k slot show ?thesis by (simp add: Let_def upd_sig_def sig_slot_def) (simp add: wit_signals_def)
qed

end
