(* ===== verification/Seccomp.thy ===== *)
theory Seccomp
  imports Signal Pipe
begin

text \<open>
  System call filters (\<open>seccomp.c\<close>) and tracing (\<open>ptrace.c\<close>). The filters are objects of their own: the
  state adds them, and the terminal of Signal, to the kernel of Task. A filter is copied from the page of
  the caller that holds it.
\<close>

section \<open>State\<close>

definition SECCOMP_MODE_DISABLED :: nat where [kernel_defs]: "SECCOMP_MODE_DISABLED = 0"
definition SECCOMP_MODE_FILTER :: nat where [kernel_defs]: "SECCOMP_MODE_FILTER = 1"
definition SECCOMP_RET_ALLOW :: u32 where [kernel_defs]: "SECCOMP_RET_ALLOW = 0"
definition SECCOMP_RET_ERRNO :: u32 where [kernel_defs]: "SECCOMP_RET_ERRNO = 1"
definition SECCOMP_RET_KILL :: u32 where [kernel_defs]: "SECCOMP_RET_KILL = 2"

record seccomp_filter =
  sf_bitmap :: "u8 list"
  sf_default_action :: u32
  sf_errno_value :: u32

record sys_state =
  y_k :: kernel
  y_heap :: kheap
  y_filters :: "nat \<Rightarrow> seccomp_filter option"
  y_tty :: tty

section \<open>The check at the entry\<close>

text \<open>The result of the default action, and whether \<open>task_exit(-9)\<close> is called before the return.\<close>

definition default_result :: "seccomp_filter \<Rightarrow> int \<times> bool" where
  "default_result f =
     (if sf_default_action f = SECCOMP_RET_ERRNO then (sint (- sf_errno_value f), False)
      else if sf_default_action f = SECCOMP_RET_KILL then (-9, True)
      else (0, False))"

definition seccomp_check :: "task_t option \<Rightarrow> u64 \<Rightarrow> (nat \<Rightarrow> seccomp_filter option) \<Rightarrow> int \<times> bool" where
  "seccomp_check cur nr fs =
     (case cur of
        None \<Rightarrow> (-1, False)
      | Some t \<Rightarrow>
          if seccomp_mode t \<noteq> SECCOMP_MODE_FILTER then (0, False)
          else case (case seccomp_filter t of None \<Rightarrow> None | Some a \<Rightarrow> fs a) of
              None \<Rightarrow> (0, False)
            | Some f \<Rightarrow>
                if nr < 0x100 \<or> nr > 0x17F then default_result f
                else let i = unat (nr - 0x100) in
                  if bit (sf_bitmap f ! (i div 8)) (i mod 8) then (0, False) else default_result f)"

section \<open>Installing a filter\<close>

definition read_filter :: "vmm_state \<Rightarrow> nat \<Rightarrow> seccomp_filter" where
  "read_filter v pa =
     \<lparr>sf_bitmap = map (\<lambda>i. mem_get v (pa + i)) [0..<16], sf_default_action = mem_i32 v (pa + 16),
      sf_errno_value = mem_i32 v (pa + 20)\<rparr>"

definition free_filter :: "nat \<Rightarrow> sys_state \<Rightarrow> sys_state" where
  "free_filter a y =
     (case seccomp_filter (tsk (y_k y) a) of None \<Rightarrow> y | Some f \<Rightarrow> y\<lparr>y_filters := (y_filters y)(f := None)\<rparr>)"

definition set_filter :: "nat \<Rightarrow> nat option \<Rightarrow> nat \<Rightarrow> sys_state \<Rightarrow> sys_state" where
  "set_filter a fo m y = y\<lparr>y_k := upd_task a (\<lambda>t. t\<lparr>seccomp_filter := fo, seccomp_mode := m\<rparr>) (y_k y)\<rparr>"

definition seccomp_syscall :: "nat option \<Rightarrow> u64 \<Rightarrow> u64 \<Rightarrow> sys_state \<Rightarrow> int \<times> sys_state" where
  "seccomp_syscall cur m filt_uaddr y =
     (case cur of
        None \<Rightarrow> (-1, y)
      | Some a \<Rightarrow>
          if m = of_nat SECCOMP_MODE_DISABLED then (0, set_filter a None SECCOMP_MODE_DISABLED (free_filter a y))
          else if m \<noteq> of_nat SECCOMP_MODE_FILTER then (-22, y)
          else if \<not> user_range_ok filt_uaddr 24 then (-14, y)
          else case shm_pml4 (tsk (y_k y) a) (k_mem (y_k y)) of
              None \<Rightarrow> (-1, y)
            | Some pml4 \<Rightarrow>
                (case user_pa pml4 filt_uaddr (um_vmm (k_mem (y_k y))) of
                   None \<Rightarrow> (-14, y)
                 | Some pa \<Rightarrow>
                     if unat (filt_uaddr AND 0xFFF) + 24 > PAGE_SIZE then (-14, y)
                     else case kzalloc_obj (y_heap y) of
                         (None, h) \<Rightarrow> (-12, y\<lparr>y_heap := h\<rparr>)
                       | (Some f, h) \<Rightarrow>
                           let y = free_filter a (y\<lparr>y_heap := h\<rparr>);
                               y = y\<lparr>y_filters := (y_filters y)(f \<mapsto> read_filter (um_vmm (k_mem (y_k y))) pa)\<rparr>
                           in (0, set_filter a (Some f) SECCOMP_MODE_FILTER y)))"

section \<open>Tracing\<close>

definition PTRACE_TRACEME :: u64 where [kernel_defs]: "PTRACE_TRACEME = 0"
definition PTRACE_PEEKDATA :: u64 where [kernel_defs]: "PTRACE_PEEKDATA = 1"
definition PTRACE_POKEDATA :: u64 where [kernel_defs]: "PTRACE_POKEDATA = 2"
definition PTRACE_CONT :: u64 where [kernel_defs]: "PTRACE_CONT = 3"
definition PTRACE_ATTACH :: u64 where [kernel_defs]: "PTRACE_ATTACH = 4"
definition PTRACE_DETACH :: u64 where [kernel_defs]: "PTRACE_DETACH = 5"

text \<open>The physical address of eight bytes of the target, or the error. Any present page will do.\<close>

definition traced_word :: "task_t \<Rightarrow> task_t \<Rightarrow> u64 \<Rightarrow> user_mem \<Rightarrow> int + nat" where
  "traced_word cur target addr m =
     (if ptrace_tracer_pid target \<noteq> t_pid cur then Inl (-1)
      else case user_task_pml4 target m of
          None \<Rightarrow> Inl (-1)
        | Some pml4 \<Rightarrow>
            (case vmm_get_pte pml4 addr (um_vmm m) of
               None \<Rightarrow> Inl (-14)
             | Some (pt, i) \<Rightarrow>
                 let pte = pt_mem (um_vmm m) pt i in
                 if \<not> has_flag pte PTE_PRESENT then Inl (-14)
                 else if unat (addr AND 0xFFF) + 8 > PAGE_SIZE then Inl (-14)
                 else Inr (unat ((pte AND PTE_ADDR_MASK) + (addr AND 0xFFF)))))"

definition mem_word :: "vmm_state \<Rightarrow> nat \<Rightarrow> u64" where
  "mem_word v pa = le_word (map (\<lambda>i. mem_get v (pa + i)) [0..<8])"

text \<open>\<open>PTRACE_FLAG_TRACED\<close> is bit 0 of the flags, \<open>PTRACE_FLAG_ATTACHED\<close> bit 1.\<close>

definition ptrace_syscall :: "nat option \<Rightarrow> u64 \<Rightarrow> nat \<Rightarrow> u64 \<Rightarrow> u64 \<Rightarrow> kernel \<Rightarrow> int \<times> kernel" where
  "ptrace_syscall cur request pid addr w k =
     (case cur of
        None \<Rightarrow> (-1, k)
      | Some a \<Rightarrow>
          if request = PTRACE_TRACEME then (0, upd_task a (\<lambda>t. t\<lparr>ptrace_flags := set_bit 0 (ptrace_flags t)\<rparr>) k)
          else if request = PTRACE_CONT then (0, k)
          else if request \<notin> {PTRACE_ATTACH, PTRACE_DETACH, PTRACE_PEEKDATA, PTRACE_POKEDATA} then (-38, k)
          else case find_task k pid of
              None \<Rightarrow> (-2, k)
            | Some b \<Rightarrow>
                let cur = tsk k a; target = tsk k b in
                if request = PTRACE_ATTACH then
                  (if t_pid target \<le> 99 \<and> t_pid cur > 99 then (-1, k)
                   else if privilege_level cur < privilege_level target then (-1, k)
                   else (0, upd_task b (\<lambda>t. t\<lparr>ptrace_flags := set_bit 1 (ptrace_flags t), ptrace_tracer_pid := t_pid cur\<rparr>) k))
                else if request = PTRACE_DETACH then
                  (if ptrace_tracer_pid target \<noteq> t_pid cur then (-1, k)
                   else (0, upd_task b (\<lambda>t. t\<lparr>ptrace_flags := unset_bit 1 (ptrace_flags t), ptrace_tracer_pid := 0\<rparr>) k))
                else case traced_word cur target addr (k_mem k) of
                    Inl rc \<Rightarrow> (rc, k)
                  | Inr pa \<Rightarrow>
                      if request = PTRACE_PEEKDATA then (sint (mem_word (um_vmm (k_mem k)) pa), k)
                      else (0, k\<lparr>k_mem := (k_mem k)\<lparr>um_vmm := mem_write pa (le_bytes w) (um_vmm (k_mem k))\<rparr>\<rparr>))"

end
