(* ===== verification/Syscall.thy ===== *)
theory Syscall
  imports Seccomp Sandbox Futex
begin

text \<open>
  The system calls (\<open>syscall.c\<close>): the order in which a call meets the compatibility layers, the filter and the
  sandbox, and the calls themselves, over the states of the components they use. The kernel reads and writes
  the caller's memory through the caller's pointers: what is read there is an argument (\<open>e_str\<close>,
  \<open>e_bytes\<close>), what is stored is part of the result. Calls that are implemented in files not modelled (the
  network, the compatibility layers, threads) or over a state of their own (pipes and poll in Pipe) are the
  arguments \<open>e_linux\<close>, \<open>e_win32\<close> and \<open>e_other\<close>. Messages are left out.
\<close>

section \<open>Frames, results, environment\<close>

record syscall_frame =
  fr_rax :: u64
  fr_rdi :: u64
  fr_rsi :: u64
  fr_rdx :: u64
  fr_r10 :: u64

text \<open>The call returns a code and what it stored at a user address; another thread runs; user mode with new registers.\<close>

datatype sys_result = Done int "(u64 \<times> u8 list) option" sys_state | Switched "sys_state option" | ToUser user_regs sys_state

text \<open>\<open>e_token\<close>: the address of a task's token. \<open>e_frame\<close>: the futex waiter in the frame of the call.\<close>

record sys_env =
  e_sha384 :: "string \<Rightarrow> u8 list"
  e_str :: "u64 \<Rightarrow> string"
  e_bytes :: "u64 \<Rightarrow> u64 \<Rightarrow> u8 list"
  e_token :: "nat \<Rightarrow> int"
  e_frame :: nat
  e_tsc :: u64
  e_random :: "u8 list option"
  e_sign :: "(u8 list \<Rightarrow> int \<times> u8 list) option"
  e_linux :: "nat \<Rightarrow> syscall_frame \<Rightarrow> sys_state \<Rightarrow> sys_result"
  e_win32 :: "nat \<Rightarrow> syscall_frame \<Rightarrow> sys_state \<Rightarrow> sys_result"
  e_other :: "nat \<Rightarrow> syscall_frame \<Rightarrow> sys_state \<Rightarrow> sys_result"

definition COMPAT_TYPE_WIN32 :: nat where [kernel_defs]: "COMPAT_TYPE_WIN32 = 1"
definition COMPAT_TYPE_LINUX :: nat where [kernel_defs]: "COMPAT_TYPE_LINUX = 2"
definition UEL_MAX_IMAGE_SIZE :: nat where [kernel_defs]: "UEL_MAX_IMAGE_SIZE = 16777216"
definition AUDIT_EV_COMPAT_ACCESS_DENIED :: nat where [kernel_defs]: "AUDIT_EV_COMPAT_ACCESS_DENIED = 7"
definition AUDIT_EV_NET_DENIED :: nat where [kernel_defs]: "AUDIT_EV_NET_DENIED = 10"
definition AUDIT_EV_NET_SANDBOX_BLOCK :: nat where [kernel_defs]: "AUDIT_EV_NET_SANDBOX_BLOCK = 11"
definition VFS_MAX_FDS :: nat where [kernel_defs]: "VFS_MAX_FDS = 64"

abbreviation ret :: "int \<Rightarrow> sys_state \<Rightarrow> sys_result" where "ret rc y \<equiv> Done rc None y"

definition on_k :: "(kernel \<Rightarrow> kernel) \<Rightarrow> sys_state \<Rightarrow> sys_state" where
  "on_k f y = y\<lparr>y_k := f (y_k y)\<rparr>"

definition sys_log :: "audit_event list \<Rightarrow> sys_state \<Rightarrow> sys_state" where
  "sys_log ev = on_k (\<lambda>k. k\<lparr>k_audit := k_audit k @ ev\<rparr>)"

definition switched :: "(kernel \<times> switch) option \<Rightarrow> sys_state \<Rightarrow> sys_result" where
  "switched o1 y = Switched (map_option (\<lambda>r. y\<lparr>y_k := fst r\<rparr>) o1)"

definition of_outcome :: "outcome \<Rightarrow> sys_state \<Rightarrow> sys_result" where
  "of_outcome out y =
     (case out of
        Returns rc k \<Rightarrow> ret rc (y\<lparr>y_k := k\<rparr>)
      | Leaves o1 \<Rightarrow> switched o1 y
      | Resumes r k \<Rightarrow> ToUser r (y\<lparr>y_k := k\<rparr>))"

definition path_arg :: "sys_env \<Rightarrow> u64 \<Rightarrow> string option" where
  "path_arg env w = (if w = 0 then None else Some (e_str env w))"

definition int_arg :: "u64 \<Rightarrow> int" where "int_arg w = sint (ucast w :: u32)"

definition permit :: "sys_env \<Rightarrow> nat \<Rightarrow> int \<Rightarrow> u64 \<Rightarrow> u32 \<Rightarrow> string option \<Rightarrow> sys_state \<Rightarrow> int \<times> sys_state" where
  "permit env a res_type res_id mode path y =
     (case check_permission (e_sha384 env) (map (tsk (y_k y)) (k_list (y_k y))) (Some (tsk (y_k y) a)) res_type res_id mode path of
        (rc, ev) \<Rightarrow> (rc, sys_log ev y))"

text \<open>A call that only asks for permission and then goes on.\<close>

definition guarded :: "sys_env \<Rightarrow> nat \<Rightarrow> int \<Rightarrow> u64 \<Rightarrow> u32 \<Rightarrow> string option \<Rightarrow> (sys_state \<Rightarrow> sys_result) \<Rightarrow> sys_state \<Rightarrow> sys_result" where
  "guarded env a res_type res_id mode path f y =
     (case permit env a res_type res_id mode path y of (rc, y) \<Rightarrow> if rc \<noteq> 0 then ret rc y else f y)"

section \<open>Descriptors\<close>

definition fd_alloc :: "task_t option \<Rightarrow> nat option" where
  "fd_alloc cur = (case cur of None \<Rightarrow> None | Some t \<Rightarrow> List.find (\<lambda>i. fd_table t ! i = None) [3..<VFS_MAX_FDS])"

definition fd_get :: "task_t option \<Rightarrow> int \<Rightarrow> nat option" where
  "fd_get cur fd =
     (case cur of
        None \<Rightarrow> None
      | Some t \<Rightarrow> if fd < 0 \<or> fd \<ge> int VFS_MAX_FDS then None else fd_table t ! nat fd)"

definition fd_release :: "nat \<Rightarrow> int \<Rightarrow> kernel \<Rightarrow> kernel" where
  "fd_release a fd k =
     (if fd < 0 \<or> fd \<ge> int VFS_MAX_FDS then k else upd_task a (\<lambda>t. t\<lparr>fd_table := (fd_table t)[nat fd := None]\<rparr>) k)"

section \<open>Processes\<close>

text \<open>\<open>CreateProcess\<close> and \<open>CreateSandboxProcess\<close>: the checks; neither creates anything.\<close>

definition sys_create_process :: "sys_env \<Rightarrow> nat \<Rightarrow> string \<Rightarrow> syscall_frame \<Rightarrow> sys_state \<Rightarrow> sys_result" where
  "sys_create_process env a hint f y =
     (let t = tsk (y_k y) a; path = path_arg env (fr_rdi f) in
      if privilege_level t < 2 then
        ret OB_EPERM (sys_log [CriticalAccess (t_pid t) (case path of None \<Rightarrow> hint | Some p \<Rightarrow> p) OB_ACCESS_WRITE] y)
      else if children_count t \<ge> child_process_limit t then ret OB_EAGAIN y
      else if path = None then ret OB_ENOSYS y
      else guarded env a 0 0 OB_ACCESS_READ path (ret OB_ENOSYS) y)"

definition sys_process_stub :: "sys_env \<Rightarrow> nat \<Rightarrow> u32 \<Rightarrow> syscall_frame \<Rightarrow> sys_state \<Rightarrow> sys_result" where
  "sys_process_stub env a mode f y = guarded env a 2 (fr_rdi f) mode None (ret OB_ENOSYS) y"

definition sys_check_access :: "sys_env \<Rightarrow> nat \<Rightarrow> bool \<Rightarrow> syscall_frame \<Rightarrow> sys_state \<Rightarrow> sys_result" where
  "sys_check_access env a native f y =
     (let mode = ucast (fr_rdx f); path = path_arg env (fr_r10 f)
      in case permit env a (int_arg (fr_rdi f)) (fr_rsi f) mode path y of
           (rc, y) \<Rightarrow>
             let y = (if native \<and> rc \<noteq> 0 then
                        sys_log [AuditEvent AUDIT_EV_COMPAT_ACCESS_DENIED (t_pid (tsk (y_k y) a)) (of_int (int_arg (fr_rdi f))) (fr_rsi f)
                                  (ucast mode) (case path of None \<Rightarrow> ''(compat)'' | Some p \<Rightarrow> p)] y
                      else y)
             in ret (if rc = 0 then 1 else 0) y)"

section \<open>Files\<close>

definition open_modes :: "u64 \<Rightarrow> u32 \<times> u32" where
  "open_modes flags =
     (let acc = flags AND 3;
          (mode, fl) = (if acc = 2 then (OB_ACCESS_WRITE, VFS_O_WRONLY)
                        else if acc = 3 then (OB_ACCESS_READ OR OB_ACCESS_WRITE, VFS_O_RDWR)
                        else (OB_ACCESS_READ, VFS_O_RDONLY))
      in (mode, fl OR (if flags AND 0x10 \<noteq> 0 then VFS_O_CREAT else 0) OR (if flags AND 0x20 \<noteq> 0 then VFS_O_EXCL else 0) OR
                (if flags AND 0x40 \<noteq> 0 then 0x40 else 0) OR (if flags AND 0x80 \<noteq> 0 then 0x80 else 0)))"

text \<open>The number of the file object: that of the last allocation of the file system.\<close>

definition last_file :: "fs_state \<Rightarrow> nat" where
  "last_file s = h_calls (t_heap (v_fs s)) - 1"

definition sys_open_file :: "sys_env \<Rightarrow> nat \<Rightarrow> syscall_frame \<Rightarrow> sys_state \<Rightarrow> sys_result" where
  "sys_open_file env a f y =
     (if fr_rdi f = 0 then ret OB_EINVAL y
      else case open_modes (fr_rsi f) of (mode, fl) \<Rightarrow>
        guarded env a 0 0 mode (path_arg env (fr_rdi f))
          (\<lambda>y. case vfs_open tmpfs_env (path_arg env (fr_rdi f)) fl (k_fs (y_k y)) of
             (rc, fo, s) \<Rightarrow>
               let y = on_k (\<lambda>k. k\<lparr>k_fs := s\<rparr>) y in
               if rc \<noteq> 0 then ret rc y
               else case fd_alloc (Some (tsk (y_k y) a)) of
                   None \<Rightarrow> ret OB_EAGAIN (on_k (\<lambda>k. k\<lparr>k_fs := snd (vfs_close tmpfs_env fo (k_fs k))\<rparr>) y)
                 | Some fd \<Rightarrow>
                     let n = last_file s in
                     ret (int fd) (on_k (\<lambda>k. upd_task a (\<lambda>t. t\<lparr>fd_table := (fd_table t)[fd := map_option (\<lambda>_. n) fo]\<rparr>)
                                        (k\<lparr>k_files := (case fo of None \<Rightarrow> k_files k | Some x \<Rightarrow> (k_files k)(n \<mapsto> x))\<rparr>)) y)) y)"

definition sys_read_file :: "sys_env \<Rightarrow> nat \<Rightarrow> syscall_frame \<Rightarrow> sys_state \<Rightarrow> sys_result" where
  "sys_read_file env a f y =
     (let fd = int_arg (fr_rdi f) in
      if fd = 0 then ret 0 y
      else case fd_get (Some (tsk (y_k y) a)) fd of
          None \<Rightarrow> ret OB_EBADF y
        | Some n \<Rightarrow>
            guarded env a 1 (fr_rsi f) OB_ACCESS_WRITE None
              (\<lambda>y. case vfs_read tmpfs_env (k_files (y_k y) n) (fr_rdx f) (k_fs (y_k y)) of
                 (rc, bs, fo, s) \<Rightarrow>
                   Done rc (Some (fr_rsi f, bs)) (on_k (\<lambda>k. k\<lparr>k_fs := s, k_files := (k_files k)(n := fo)\<rparr>) y)) y)"

definition sys_write_file :: "sys_env \<Rightarrow> nat \<Rightarrow> syscall_frame \<Rightarrow> sys_state \<Rightarrow> sys_result" where
  "sys_write_file env a f y =
     (let fd = int_arg (fr_rdi f) in
      if fd = 1 \<or> fd = 2 then guarded env a 1 (fr_rsi f) OB_ACCESS_READ None (ret (sint (fr_rdx f))) y
      else case fd_get (Some (tsk (y_k y) a)) fd of
          None \<Rightarrow> ret OB_EBADF y
        | Some n \<Rightarrow>
            guarded env a 1 (fr_rsi f) OB_ACCESS_READ None
              (\<lambda>y. case vfs_write tmpfs_env (k_files (y_k y) n) (e_bytes env (fr_rsi f) (fr_rdx f)) (k_fs (y_k y)) of
                 (rc, fo, s) \<Rightarrow> ret rc (on_k (\<lambda>k. k\<lparr>k_fs := s, k_files := (k_files k)(n := fo)\<rparr>) y)) y)"

definition sys_close_handle :: "nat \<Rightarrow> syscall_frame \<Rightarrow> sys_state \<Rightarrow> sys_result" where
  "sys_close_handle a f y =
     (let fd = int_arg (fr_rdi f) in
      if fd \<ge> 0 \<and> fd \<le> 2 then ret 0 y
      else case fd_get (Some (tsk (y_k y) a)) fd of
          None \<Rightarrow> ret OB_EBADF y
        | Some n \<Rightarrow>
            ret 0 (on_k (\<lambda>k. fd_release a fd (k\<lparr>k_fs := snd (vfs_close tmpfs_env (k_files k n) (k_fs k)), k_files := (k_files k)(n := None)\<rparr>)) y))"

section \<open>Memory\<close>

text \<open>\<open>i\<close> pages are mapped, \<open>k\<close> to go. After a failure the pages mapped so far stay.\<close>

fun map_pages_loop :: "nat \<Rightarrow> u64 \<Rightarrow> u64 \<Rightarrow> nat \<Rightarrow> nat \<Rightarrow> vmm_state \<Rightarrow> int \<times> vmm_state" where
  "map_pages_loop pml4 va pte_flags 0 i v = (0, v)"
| "map_pages_loop pml4 va pte_flags (Suc k) i v =
     (case pmm_alloc_pages 0 (v_pmm v) of
        (None, p) \<Rightarrow> (OB_ENOMEM, v\<lparr>v_pmm := p\<rparr>)
      | (Some pg, p) \<Rightarrow>
          (case vmm_map_page pml4 (va + of_nat i * of_nat PAGE_SIZE) (frame_pa pg) pte_flags (v\<lparr>v_pmm := p\<rparr>) of
             (rc, v) \<Rightarrow>
               if rc \<noteq> 0 then (OB_EIO, v\<lparr>v_pmm := pmm_free_pages (Some pg) 0 (v_pmm v)\<rparr>)
               else map_pages_loop pml4 va pte_flags k (Suc i) v))"

definition quota_exceeded :: "task_t \<Rightarrow> u64 \<Rightarrow> bool" where
  "quota_exceeded t npages \<longleftrightarrow>
     mem_quota_pages t > 0 \<and> (of_nat (mem_pages_used t) :: u64) + npages > of_nat (mem_quota_pages t)"

definition user_map_pages :: "nat option \<Rightarrow> u64 \<Rightarrow> u64 \<Rightarrow> u64 \<Rightarrow> kernel \<Rightarrow> int \<times> kernel" where
  "user_map_pages cur va npages flags k =
     (case cur of
        None \<Rightarrow> (OB_EPERM, k)
      | Some a \<Rightarrow>
          if \<not> user_range_ok va (npages * of_nat PAGE_SIZE) then (OB_EFAULT, k)
          else if quota_exceeded (tsk k a) npages then (OB_ENOMEM, k)
          else case shm_pml4 (tsk k a) (k_mem k) of
              None \<Rightarrow> (OB_EPERM, k)
            | Some pml4 \<Rightarrow>
                let fl = PTE_PRESENT OR PTE_WRITABLE OR PTE_USER OR (if flags AND 4 = 0 then PTE_NX else 0)
                in case map_pages_loop pml4 va fl (unat npages) 0 (um_vmm (k_mem k)) of
                     (rc, v) \<Rightarrow>
                       let k = k\<lparr>k_mem := (k_mem k)\<lparr>um_vmm := v\<rparr>\<rparr> in
                       if rc \<noteq> 0 then (rc, k)
                       else (0, upd_task a (\<lambda>t. t\<lparr>mem_pages_used := (mem_pages_used t + unat npages) mod 2 ^ 32\<rparr>) k))"

definition set_heap_cur :: "nat \<Rightarrow> u64 \<Rightarrow> kernel \<Rightarrow> kernel" where
  "set_heap_cur a h k = k\<lparr>k_mem := upd_ctx (tsk k a) (\<lambda>c. c\<lparr>c_heap_cur := h\<rparr>) (k_mem k)\<rparr>"

definition sys_virtual_alloc :: "nat \<Rightarrow> syscall_frame \<Rightarrow> sys_state \<Rightarrow> sys_result" where
  "sys_virtual_alloc a f y =
     (let npages = (fr_rdi f + of_nat PAGE_SIZE - 1) div of_nat PAGE_SIZE;
          map_at = (\<lambda>hint y. case user_map_pages (Some a) hint npages (fr_rdx f) (y_k y) of
             (rc, k) \<Rightarrow> ret (if rc \<noteq> 0 then rc else sint hint) (y\<lparr>y_k := k\<rparr>))
      in if fr_rdi f = 0 then ret OB_EINVAL y
         else if npages > 256 then ret OB_EINVAL y
         else if fr_rsi f \<noteq> 0 then map_at (fr_rsi f) y
         else case user_get_ctx (tsk (y_k y) a) (k_mem (y_k y)) of
             None \<Rightarrow> ret OB_EPERM y
           | Some c \<Rightarrow>
               let y = on_k (set_heap_cur a (c_heap_cur c + npages * of_nat PAGE_SIZE)) y
               in if c_heap_cur c + npages * of_nat PAGE_SIZE > c_heap_end c then ret OB_ENOMEM y
                  else map_at (c_heap_cur c) y)"

definition sys_brk :: "nat \<Rightarrow> syscall_frame \<Rightarrow> sys_state \<Rightarrow> sys_result" where
  "sys_brk a f y =
     (case user_get_ctx (tsk (y_k y) a) (k_mem (y_k y)) of
        None \<Rightarrow> ret OB_EPERM y
      | Some c \<Rightarrow>
          let want = fr_rdi f; want_aligned = (want + of_nat PAGE_SIZE - 1) AND NOT (of_nat PAGE_SIZE - 1);
              npages = (want_aligned - c_heap_cur c) div of_nat PAGE_SIZE
          in if want = 0 then ret (sint (c_heap_cur c)) y
             else if want > c_heap_end c then ret OB_ENOMEM y
             else if want_aligned \<le> c_heap_cur c then ret (sint (c_heap_cur c)) y
             else if npages = 0 then ret (sint (c_heap_cur c)) y
             else case user_map_pages (Some a) (c_heap_cur c) npages 0 (y_k y) of
                 (rc, k) \<Rightarrow>
                   if rc \<noteq> 0 then ret rc (y\<lparr>y_k := k\<rparr>)
                   else ret (sint (c_heap_cur c)) (y\<lparr>y_k := set_heap_cur a want_aligned k\<rparr>))"

section \<open>Drivers, kernel memory, signing\<close>

definition sys_load_driver :: "sys_env \<Rightarrow> nat \<Rightarrow> syscall_frame \<Rightarrow> sys_state \<Rightarrow> sys_result" where
  "sys_load_driver env a f y =
     guarded env a 0 0 (OB_ACCESS_READ OR OB_ACCESS_EXEC) (path_arg env (fr_rdi f))
       (\<lambda>y. if privilege_level (tsk (y_k y) a) < 7 then ret OB_EPERM y else ret OB_ENOSYS y) y"

definition manager :: "task_t \<Rightarrow> bool" where
  "manager t \<longleftrightarrow> privilege_level t = 9 \<and> ui_token_valid t"

definition sys_kernel_memory :: "nat \<Rightarrow> u32 \<Rightarrow> syscall_frame \<Rightarrow> sys_state \<Rightarrow> sys_result" where
  "sys_kernel_memory a mode f y =
     (let t = tsk (y_k y) a in
      if \<not> manager t then ret OB_EPERM (sys_log [KernelMemViolation (t_pid t) (fr_rdi f) mode] y) else ret OB_ENOSYS y)"

definition sys_read_kernel_file :: "sys_env \<Rightarrow> nat \<Rightarrow> syscall_frame \<Rightarrow> sys_state \<Rightarrow> sys_result" where
  "sys_read_kernel_file env a f y =
     (let t = tsk (y_k y) a in
      if \<not> manager t then
        ret OB_EPERM (sys_log [CriticalAccess (t_pid t) (case path_arg env (fr_rdi f) of None \<Rightarrow> ''(null)'' | Some p \<Rightarrow> p) OB_ACCESS_READ] y)
      else ret OB_ENOSYS y)"

text \<open>A larger buffer when the old one is full; \<open>kmalloc\<close> gives at most a page.\<close>

definition grow_buffer :: "nat \<Rightarrow> nat \<Rightarrow> kernel \<Rightarrow> nat option \<times> kernel" where
  "grow_buffer cap n k =
     (if n < cap then (Some cap, k)
      else let ncap = min (cap * 2) UEL_MAX_IMAGE_SIZE
           in case kmalloc_buf (of_nat ncap) (k_heap k) of (b, h) \<Rightarrow> (map_option (\<lambda>_. ncap) b, k\<lparr>k_heap := h\<rparr>))"

text \<open>The loop; \<open>buf\<close> is what has been read. A positive count comes with as many bytes, so it ends.\<close>

function read_whole_loop :: "vfs_file option \<Rightarrow> nat \<Rightarrow> u8 list \<Rightarrow> kernel \<Rightarrow> (int + u8 list) \<times> vfs_file option \<times> kernel" where
  "read_whole_loop fo cap buf k =
     (if length buf \<ge> UEL_MAX_IMAGE_SIZE then (Inl OB_EINVAL, fo, k)
      else case grow_buffer cap (length buf) k of
          (None, k) \<Rightarrow> (Inl OB_ENOMEM, fo, k)
        | (Some cap, k) \<Rightarrow>
            (case vfs_read tmpfs_env fo (of_nat (cap - length buf)) (k_fs k) of
               (n, bs, fo, s) \<Rightarrow>
                 let k = k\<lparr>k_fs := s\<rparr> in
                 if n < 0 then (Inl n, fo, k)
                 else if n = 0 \<or> bs = [] then (Inr buf, fo, k)
                 else read_whole_loop fo cap (buf @ bs) k))"
  by pat_completeness auto
termination
  by (relation "measure (\<lambda>(fo, cap, buf, k). UEL_MAX_IMAGE_SIZE - length buf)") (auto intro!: diff_less_mono2)

declare read_whole_loop.simps [simp del]

definition read_whole_file :: "string \<Rightarrow> kernel \<Rightarrow> (int + u8 list) \<times> kernel" where
  "read_whole_file path k =
     (case vfs_open tmpfs_env (Some path) VFS_O_RDONLY (k_fs k) of
        (rc, fo, s) \<Rightarrow>
          let k = k\<lparr>k_fs := s\<rparr> in
          if rc \<noteq> 0 \<or> fo = None then (Inl (if rc \<noteq> 0 then rc else OB_ENOENT), k)
          else case (case kmalloc_buf 4096 (k_heap k) of
                       (None, h) \<Rightarrow> (Inl OB_ENOMEM, fo, k\<lparr>k_heap := h\<rparr>)
                     | (Some _, h) \<Rightarrow> read_whole_loop fo 4096 [] (k\<lparr>k_heap := h\<rparr>)) of
              (res, fo, k) \<Rightarrow> (res, k\<lparr>k_fs := snd (vfs_close tmpfs_env fo (k_fs k))\<rparr>))"

definition sys_internal_sign :: "sys_env \<Rightarrow> nat \<Rightarrow> syscall_frame \<Rightarrow> sys_state \<Rightarrow> sys_result" where
  "sys_internal_sign env a f y =
     (let t = tsk (y_k y) a; refused = (\<lambda>p mode. sys_log [CriticalAccess (t_pid t) p mode]) in
      if \<not> manager t then
        ret OB_EPERM (refused (case path_arg env (fr_rdi f) of None \<Rightarrow> ''(internal-sign)'' | Some p \<Rightarrow> p) OB_ACCESS_WRITE y)
      else case path_arg env (fr_rdi f) of
          None \<Rightarrow> ret OB_EINVAL y
        | Some p \<Rightarrow>
            if fr_rsi f = 0 then ret OB_EINVAL y
            else case e_sign env of
                None \<Rightarrow> ret OB_ENOSYS (refused p OB_ACCESS_WRITE y)
              | Some sign \<Rightarrow>
                  (case read_whole_file p (y_k y) of
                     (Inl rc, k) \<Rightarrow> ret (if rc \<noteq> 0 then rc else OB_EIO) (refused p OB_ACCESS_READ (y\<lparr>y_k := k\<rparr>))
                   | (Inr bs, k) \<Rightarrow>
                       (case sign bs of
                          (rc, sig) \<Rightarrow>
                            if rc \<noteq> 0 then ret OB_EIO (refused p OB_ACCESS_WRITE (y\<lparr>y_k := k\<rparr>))
                            else Done 0 (Some (fr_rsi f, take 64 sig)) (y\<lparr>y_k := k\<rparr>))))"

section \<open>Network\<close>

definition net_blocked :: "nat \<Rightarrow> u64 \<Rightarrow> u64 \<Rightarrow> string \<Rightarrow> sys_state \<Rightarrow> sys_state" where
  "net_blocked a x z hint y = sys_log [AuditEvent AUDIT_EV_NET_SANDBOX_BLOCK (t_pid (tsk (y_k y) a)) x z 0 hint] y"

text \<open>The checks of \<open>Socket\<close>, \<open>Bind\<close>, \<open>Listen\<close>, \<open>Connect\<close>, \<open>Send\<close> and \<open>Recv\<close>, by number; the call itself is \<open>e_other\<close>.\<close>

definition sys_network :: "sys_env \<Rightarrow> nat \<Rightarrow> syscall_frame \<Rightarrow> sys_state \<Rightarrow> sys_result" where
  "sys_network env a f y =
     (let boxed = (sandbox_flags (tsk (y_k y) a) \<noteq> 0); go = e_other env a f;
          dom = of_int (int_arg (fr_rdi f)); type = of_int (int_arg (fr_rsi f));
          ip = ucast (ucast (fr_rsi f) :: u32); port = ucast (ucast (fr_rdx f) :: u16); len = ucast (ucast (fr_rdx f) :: u32)
      in if fr_rax f = 0x120 then
           (if boxed then ret OB_ENETUNREACH (net_blocked a dom type ''(socket)'' y)
            else case permit env a 3 0 (OB_ACCESS_READ OR OB_ACCESS_WRITE) (Some ''(socket)'') y of
                (rc, y) \<Rightarrow>
                  if rc \<noteq> 0 then ret rc (sys_log [AuditEvent AUDIT_EV_NET_DENIED (t_pid (tsk (y_k y) a)) dom type 0 ''(socket)''] y)
                  else go y)
         else if fr_rax f = 0x121 then
           (if boxed then ret OB_ENETUNREACH (net_blocked a ip port ''(bind)'' y)
            else guarded env a 3 0 OB_ACCESS_WRITE (Some ''(bind)'') go y)
         else if fr_rax f = 0x122 then
           (if boxed then ret OB_ENETUNREACH y else guarded env a 3 0 OB_ACCESS_WRITE (Some ''(listen)'') go y)
         else if fr_rax f = 0x123 then
           (if boxed then ret OB_ENETUNREACH (net_blocked a ip port ''(connect)'' y)
            else guarded env a 3 0 OB_ACCESS_WRITE (Some ''(connect)'') go y)
         else if fr_rax f = 0x124 then
           (if boxed then ret OB_ENETUNREACH (net_blocked a (fr_rsi f) len ''(send)'' y)
            else guarded env a 1 (fr_rsi f) OB_ACCESS_READ None go y)
         else
           (if boxed then ret OB_ENETUNREACH y else guarded env a 1 (fr_rsi f) OB_ACCESS_WRITE None go y))"

section \<open>Threads, futexes, time\<close>

definition sys_thread_create :: "nat \<Rightarrow> syscall_frame \<Rightarrow> sys_state \<Rightarrow> sys_result" where
  "sys_thread_create a f y =
     (if \<not> user_range_ok (fr_rdi f) 1 then ret OB_EFAULT y
      else
        let y = on_k (upd_task a (\<lambda>t. t\<lparr>futex_wake_count := futex_wake_count t + 1\<rparr>)) y; t = tsk (y_k y) a
        in ret (int (t_pid t + futex_wake_count t)) y)"

definition sys_futex_wait :: "sys_env \<Rightarrow> syscall_frame \<Rightarrow> sys_state \<Rightarrow> sys_result" where
  "sys_futex_wait env f y =
     (if \<not> user_range_ok (fr_rdi f) 4 then ret OB_EFAULT y
      else
        let k = y_k y; v = um_vmm (k_mem k) in
        case futex_wait (k_tasks k) (\<lambda>u. case um_ctx (k_mem k) u of None \<Rightarrow> None | Some c \<Rightarrow> c_pml4 c) v (\<lambda>p. mem_i32 v (unat p))
               (e_frame env) (fr_rdi f) (ucast (fr_rsi f)) (fr_rdx f) (k_futex k, k_sched k) of
          Inl rc \<Rightarrow> ret rc y
        | Inr r \<Rightarrow> Switched (map_option (\<lambda>(fx, s). y\<lparr>y_k := k\<lparr>k_futex := fx, k_sched := s\<rparr>\<rparr>) r))"

definition sys_futex_wake :: "syscall_frame \<Rightarrow> sys_state \<Rightarrow> sys_result" where
  "sys_futex_wake f y =
     (if \<not> user_range_ok (fr_rdi f) 4 then ret OB_EFAULT y
      else case futex_wake (k_tasks (y_k y)) (fr_rdi f) (ucast (fr_rsi f)) (k_futex (y_k y), k_sched (y_k y)) of
          (n, fx, s) \<Rightarrow> ret (int n) (on_k (\<lambda>k. k\<lparr>k_futex := fx, k_sched := s\<rparr>) y))"

definition sys_thread_spawn :: "sys_env \<Rightarrow> nat \<Rightarrow> syscall_frame \<Rightarrow> sys_state \<Rightarrow> sys_result" where
  "sys_thread_spawn env a f y =
     (if \<not> user_range_ok (fr_rdi f) 1 then ret OB_EFAULT y
      else if fr_rdx f < 64 then ret OB_EFAULT y
      else if \<not> user_range_ok (fr_rdx f - 64) 64 then ret OB_EFAULT y
      else if user_get_ctx (tsk (y_k y) a) (k_mem (y_k y)) = None then ret OB_EPERM y
      else e_other env a f y)"

definition sys_thread_wait :: "sys_env \<Rightarrow> syscall_frame \<Rightarrow> sys_state \<Rightarrow> sys_result" where
  "sys_thread_wait env f y =
     (case task_join (unat (fr_rdi f)) (e_frame env) (y_k y) of
        Inl (rc, code, k) \<Rightarrow> ret (if rc \<noteq> 0 then rc else case code of None \<Rightarrow> 0 | Some c \<Rightarrow> c) (y\<lparr>y_k := k\<rparr>)
      | Inr o1 \<Rightarrow> switched o1 y)"

text \<open>\<open>Getpid\<close> and \<open>Getppid\<close>: the number in the caller's name space, which is made up when it has none.\<close>

definition sys_local_pid :: "nat \<Rightarrow> nat \<Rightarrow> sys_state \<Rightarrow> sys_result" where
  "sys_local_pid a pid y =
     (if t_pidns (tsk (y_k y) a) = None then ret (int pid) y
      else case pidns_to_local (t_pidns (tsk (y_k y) a)) (of_nat pid) (k_ns (y_k y)) of
          (l, n) \<Rightarrow> ret (sint l) (on_k (\<lambda>k. k\<lparr>k_ns := n\<rparr>) y))"

section \<open>Shared memory, quotas, name spaces\<close>

definition sys_shm_create :: "nat \<Rightarrow> syscall_frame \<Rightarrow> sys_state \<Rightarrow> sys_result" where
  "sys_shm_create a f y =
     (case shm_sys_create (Some (tsk (y_k y) a)) (fr_rdi f) (k_shm (y_k y), um_vmm (k_mem (y_k y))) of
        (rc, s, v) \<Rightarrow> ret rc (on_k (\<lambda>k. k\<lparr>k_shm := s, k_mem := (k_mem k)\<lparr>um_vmm := v\<rparr>\<rparr>) y))"

definition put_shm :: "nat \<Rightarrow> int \<times> task_t option \<times> shm_state \<times> user_mem \<Rightarrow> sys_state \<Rightarrow> sys_result" where
  "put_shm a r y =
     (case r of (rc, to, s, m) \<Rightarrow>
        ret rc (on_k (\<lambda>k. put_task a (case to of Some t \<Rightarrow> t | None \<Rightarrow> tsk k a) (k\<lparr>k_shm := s, k_mem := m\<rparr>)) y))"

definition sys_shm_map :: "nat \<Rightarrow> syscall_frame \<Rightarrow> sys_state \<Rightarrow> sys_result" where
  "sys_shm_map a f y =
     put_shm a (shm_sys_map (Some (tsk (y_k y) a)) (fr_rdi f) (fr_rsi f) (k_shm (y_k y), k_mem (y_k y))) y"

definition sys_shm_unmap :: "nat \<Rightarrow> syscall_frame \<Rightarrow> sys_state \<Rightarrow> sys_result" where
  "sys_shm_unmap a f y =
     put_shm a (shm_sys_unmap (Some (tsk (y_k y) a)) (fr_rdi f) (k_shm (y_k y), k_mem (y_k y))) y"

definition sys_set_cpu_quota :: "nat \<Rightarrow> syscall_frame \<Rightarrow> sys_state \<Rightarrow> sys_result" where
  "sys_set_cpu_quota a f y =
     (let t = tsk (y_k y) a; quota = (ucast (fr_rsi f) :: u32) in
      if privilege_level t < 6 \<and> unat (fr_rdi f) \<noteq> t_pid t then ret OB_EPERM y
      else if quota > 100 then ret OB_EINVAL y
      else case find_task (y_k y) (unat (fr_rdi f)) of
          None \<Rightarrow> ret OB_ENOENT y
        | Some b \<Rightarrow> ret 0 (on_k (upd_task b (\<lambda>t. t\<lparr>cpu_usage_quota := unat quota\<rparr>)) y))"

definition sys_set_mem_quota :: "nat \<Rightarrow> syscall_frame \<Rightarrow> sys_state \<Rightarrow> sys_result" where
  "sys_set_mem_quota a f y =
     (let t = tsk (y_k y) a; pages = (ucast (fr_rsi f) :: u32) in
      if privilege_level t < 6 \<and> unat (fr_rdi f) \<noteq> t_pid t then ret OB_EPERM y
      else case find_task (y_k y) (unat (fr_rdi f)) of
          None \<Rightarrow> ret OB_ENOENT y
        | Some b \<Rightarrow>
            ret 0 (if pages > 0 \<and> pages < 1000 then on_k (upd_task b (\<lambda>t. t\<lparr>mem_quota_pages := unat pages\<rparr>)) y else y))"

definition sys_clone :: "sys_env \<Rightarrow> nat \<Rightarrow> syscall_frame \<Rightarrow> sys_state \<Rightarrow> sys_result" where
  "sys_clone env a f y =
     (if privilege_level (tsk (y_k y) a) < 2 then ret OB_EPERM y
      else case namespace_clone_child (Some a) (fr_rdi f) (e_random env) (y_k y) of (rc, k) \<Rightarrow> ret rc (y\<lparr>y_k := k\<rparr>))"

definition sys_unshare :: "nat \<Rightarrow> syscall_frame \<Rightarrow> sys_state \<Rightarrow> sys_result" where
  "sys_unshare a f y =
     (case namespace_unshare (Some (tsk (y_k y) a)) (fr_rdi f) (k_ns (y_k y)) of
        (rc, to, n) \<Rightarrow> ret rc (on_k (\<lambda>k. put_task a (case to of Some t \<Rightarrow> t | None \<Rightarrow> tsk k a) (k\<lparr>k_ns := n\<rparr>)) y))"

section \<open>The dispatcher\<close>

text \<open>The \<open>switch\<close>, in two parts: the calls up to \<open>0x12F\<close> and the others.\<close>

definition switch_object :: "sys_env \<Rightarrow> nat \<Rightarrow> syscall_frame \<Rightarrow> sys_state \<Rightarrow> sys_result" where
  "switch_object env a f y =
     (let nr = fr_rax f; t = tsk (y_k y) a in
      if nr = 0x100 then sys_create_process env a ''(create)'' f y
      else if nr = 0x101 then sys_process_stub env a OB_ACCESS_WRITE f y
      else if nr = 0x102 then sys_process_stub env a OB_ACCESS_READ f y
      else if nr = 0x103 then sys_process_stub env a OB_ACCESS_WRITE f y
      else if nr = 0x104 then ret (e_token env a) y
      else if nr = 0x105 then sys_check_access env a False f y
      else if nr = 0x106 then sys_open_file env a f y
      else if nr = 0x107 then sys_read_file env a f y
      else if nr = 0x108 then sys_write_file env a f y
      else if nr = 0x109 then sys_close_handle a f y
      else if nr = 0x10A then sys_virtual_alloc a f y
      else if nr = 0x10B then ret 0 y
      else if nr = 0x10C then sys_load_driver env a f y
      else if nr = 0x10D then guarded env a 0 0 OB_ACCESS_READ (path_arg env (fr_rdi f)) (ret OB_ENOSYS) y
      else if nr = 0x10E then ret (if privilege_level t < 7 then OB_EPERM else OB_ENOSYS) y
      else if nr = 0x10F then sys_create_process env a ''(sandbox)'' f y
      else if nr = 0x110 then (if t_pid t \<noteq> 1 then ret OB_EPERM y else e_other env a f y)
      else if nr = 0x111 then sys_kernel_memory a OB_ACCESS_READ f y
      else if nr = 0x112 then sys_kernel_memory a OB_ACCESS_WRITE f y
      else if nr = 0x113 then sys_read_kernel_file env a f y
      else if nr = 0x114 then sys_internal_sign env a f y
      else if nr = 0x115 then sys_check_access env a True f y
      else if nr \<ge> 0x120 \<and> nr \<le> 0x125 then sys_network env a f y
      else if nr = 0x126 then e_other env a f y
      else ret OB_ENOSYS y)"

text \<open>The FS base, which \<open>SetFsBase\<close> loads, is not part of the state.\<close>

definition switch_process :: "sys_env \<Rightarrow> nat \<Rightarrow> syscall_frame \<Rightarrow> sys_state \<Rightarrow> sys_result" where
  "switch_process env a f y =
     (let nr = fr_rax f; t = tsk (y_k y) a in
      if nr = 0x130 then switched (task_exit (int_arg (fr_rdi f)) (y_k y)) y
      else if nr = 0x131 then sys_thread_create a f y
      else if nr = 0x132 then ret 0 y
      else if nr = 0x133 then of_outcome (sys_sigreturn a (y_k y)) y
      else if nr = 0x134 then sys_futex_wait env f y
      else if nr = 0x135 then sys_futex_wake f y
      else if nr = 0x136 then (case sys_tcsetpgrp (unat (fr_rdi f)) (y_tty y) of (rc, tt) \<Rightarrow> ret rc (y\<lparr>y_tty := tt\<rparr>))
      else if nr = 0x137 then ret (sys_tcgetpgrp (y_tty y)) y
      else if nr = 0x138 then ret 0 y
      else if nr = 0x139 then sys_local_pid a (t_pid t) y
      else if nr = 0x13A then sys_local_pid a (parent_pid t) y
      else if nr = 0x13B then ret 0 y
      else if nr = 0x13C then ret (sint (e_tsc env div 1000000000)) y
      else if nr = 0x13D then sys_brk a f y
      else if nr = 0x13E then of_outcome (sys_signal (int_arg (fr_rdi f)) (fr_rsi f) (y_k y)) y
      else if nr = 0x13F then of_outcome (sys_kill (unat (fr_rdi f)) (int_arg (fr_rsi f)) (y_k y)) y
      else if nr = 0x140 then sys_thread_spawn env a f y
      else if nr = 0x141 then sys_thread_wait env f y
      else if nr = 0x143 then
        ret (case g_current (k_sched (y_k y)) of None \<Rightarrow> 0 | Some c \<Rightarrow> int (tid (thr (k_sched (y_k y)) c))) y
      else if nr = 0x150 then (if \<not> user_range_ok (fr_rdi f) 8 then ret OB_EFAULT y else e_other env a f y)
      else if nr = 0x151 then sys_shm_create a f y
      else if nr = 0x152 then sys_shm_map a f y
      else if nr = 0x153 then sys_shm_unmap a f y
      else if nr = 0x154 \<or> nr = 0x155 then e_other env a f y
      else if nr = 0x159 then sys_set_cpu_quota a f y
      else if nr = 0x15A then sys_set_mem_quota a f y
      else if nr = 0x15B then (case seccomp_syscall (Some a) (fr_rdi f) (fr_rsi f) y of (rc, y) \<Rightarrow> ret rc y)
      else if nr = 0x15C then
        (case ptrace_syscall (Some a) (fr_rdi f) (unat (fr_rsi f)) (fr_rdx f) (fr_r10 f) (y_k y) of (rc, k) \<Rightarrow> ret rc (y\<lparr>y_k := k\<rparr>))
      else if nr = 0x15D then sys_clone env a f y
      else if nr = 0x15E then sys_unshare a f y
      else ret OB_ENOSYS y)"

text \<open>The interceptor of a sandboxed task, what it does to an escaping task, and the return with its code.\<close>

definition enter_sandbox :: "sys_env \<Rightarrow> nat \<Rightarrow> syscall_frame \<Rightarrow> sys_state \<Rightarrow> sys_result" where
  "enter_sandbox env a f y =
     (let k = y_k y in
      case see_syscall_interceptor (e_sha384 env) (map (tsk k) (k_list k)) (Some (fr_rax f)) (Some (tsk k a)) (k_see k) of
        (rc, kill, to, s, ev) \<Rightarrow>
          let y = sys_log ev (on_k (\<lambda>k. put_task a (case to of Some t \<Rightarrow> t | None \<Rightarrow> tsk k a) (k\<lparr>k_see := s\<rparr>)) y);
              after = (\<lambda>y. if pending_kill (tsk (y_k y) a) then
                              let y = on_k (upd_task a (\<lambda>t. t\<lparr>pending_kill := False\<rparr>)) y; c = exit_code (tsk (y_k y) a)
                              in switched (task_exit (if c \<noteq> 0 then c else -1) (y_k y)) y
                            else ret rc y)
          in if kill then
               (case see_kill_sandbox (Some a) (Some a) (y_k y) of
                  Inl (_, k) \<Rightarrow> after (y\<lparr>y_k := k\<rparr>)
                | Inr o1 \<Rightarrow> switched o1 y)
             else after y)"

definition syscall_dispatcher :: "sys_env \<Rightarrow> syscall_frame \<Rightarrow> sys_state \<Rightarrow> sys_result" where
  "syscall_dispatcher env f y =
     (case self_task (y_k y) of
        None \<Rightarrow> ret OB_EPERM y
      | Some a \<Rightarrow>
          let t = tsk (y_k y) a in
          if compat_type t = COMPAT_TYPE_LINUX then e_linux env a f y
          else if compat_type t = COMPAT_TYPE_WIN32 then e_win32 env a f y
          else case (if seccomp_mode t = SECCOMP_MODE_FILTER then seccomp_check (Some t) (fr_rax f) (y_filters y) else (0, False)) of
              (rc, kill) \<Rightarrow>
                if kill then switched (task_exit (-9) (y_k y)) y
                else if rc \<noteq> 0 then ret rc y
                else if sandbox_flags t AND OBSANDBOX_ACTIVE \<noteq> 0 then enter_sandbox env a f y
                else if fr_rax f < 0x130 then switch_object env a f y
                else switch_process env a f y)"

end
