(* ===== verification/SeccompProps.thy ===== *)
theory SeccompProps
  imports Seccomp SignalProps
begin

text \<open>
  Tracing and isolation: what a tracer may do to a process, whatever isolates it.
\<close>

lemma find_task_upd:
  assumes "k_tasks k b \<noteq> None" "t_pid (f (tsk k b)) = t_pid (tsk k b)"
  shows "find_task (upd_task b f k) pid = find_task k pid"
proof -
  have "(\<lambda>a. t_pid (tsk (upd_task b f k) a) = pid) = (\<lambda>a. t_pid (tsk k a) = pid)"
    using assms by (auto simp: tsk_upd_task fun_eq_iff)
  then show ?thesis by (simp add: find_task_def)
qed

lemma k_mem_upd_task [simp]: "k_mem (upd_task b f k) = k_mem k"
  by (simp add: upd_task_def)

lemma mem_word_write:
  "mem_word (mem_write pa (le_bytes w) v) pa = w"
proof -
  have "map (\<lambda>i. mem_get (mem_write pa (le_bytes w) v) (pa + i)) [0..<8] = le_bytes w"
    by (rule nth_equalityI) (simp_all add: mem_write_get del: upt_rec_numeral)
  then show ?thesis by (simp add: mem_word_def le_word_bytes del: upt_rec_numeral)
qed

section \<open>Properties\<close>

text \<open>
  C38. Tracing crosses every isolation. A process may attach to any process of no higher privilege (a user
  process not to a reserved PID), with no consent and whatever memory domain or sandbox the target has, and
  from then on \<open>PTRACE_POKEDATA\<close> stores its word at any present page of the target: those eight bytes of
  memory and no others change. So two isolated processes of privilege 0 can write each other's memory.
\<close>

theorem ptrace_crosses_isolation:
  assumes tasks: "find_task k pid = Some b" "k_tasks k b \<noteq> None" "k_tasks k a \<noteq> None"
    and rank: "privilege_level (tsk k b) \<le> privilege_level (tsk k a)" "t_pid (tsk k b) \<le> 99 \<longrightarrow> t_pid (tsk k a) \<le> 99"
    and page: "user_task_pml4 (tsk k b) (k_mem k) = Some pml4" "vmm_get_pte pml4 addr (um_vmm (k_mem k)) = Some (pt, i)"
      "has_flag (pt_mem (um_vmm (k_mem k)) pt i) PTE_PRESENT" "unat (addr AND 0xFFF) + 8 \<le> PAGE_SIZE"
  shows "\<exists>k1 v pa. ptrace_syscall (Some a) PTRACE_ATTACH pid x y k = (0, k1) \<and>
      ptrace_syscall (Some a) PTRACE_POKEDATA pid addr w k1 = (0, k1\<lparr>k_mem := (k_mem k1)\<lparr>um_vmm := v\<rparr>\<rparr>) \<and>
      pa = unat ((pt_mem (um_vmm (k_mem k)) pt i AND PTE_ADDR_MASK) + (addr AND 0xFFF)) \<and> mem_word v pa = w \<and>
      (\<forall>z. z < pa \<or> pa + 8 \<le> z \<longrightarrow> mem_get v z = mem_get (um_vmm (k_mem k)) z)"
proof -
  let ?f = "\<lambda>t. t\<lparr>ptrace_flags := set_bit 1 (ptrace_flags t), ptrace_tracer_pid := t_pid (tsk k a)\<rparr>"
  let ?k = "upd_task b ?f k"
  let ?pa = "unat ((pt_mem (um_vmm (k_mem k)) pt i AND PTE_ADDR_MASK) + (addr AND 0xFFF))"
  let ?v = "mem_write ?pa (le_bytes w) (um_vmm (k_mem k))"
  have attach: "ptrace_syscall (Some a) PTRACE_ATTACH pid x y k = (0, ?k)"
    using tasks rank by (auto simp: ptrace_syscall_def Let_def kernel_defs)
  have pid: "t_pid (tsk ?k a) = t_pid (tsk k a)" using tasks by (simp add: tsk_upd_task)
  have target: "tsk ?k b = ?f (tsk k b)" using tasks by (simp add: tsk_upd_task)
  have "traced_word (tsk ?k a) (tsk ?k b) addr (k_mem ?k) = Inr ?pa"
    unfolding traced_word_def pid target using page
    by (simp add: user_task_pml4_def user_get_ctx_def Let_def del: set_bit_Suc)
  then have "ptrace_syscall (Some a) PTRACE_POKEDATA pid addr w ?k = (0, ?k\<lparr>k_mem := (k_mem ?k)\<lparr>um_vmm := ?v\<rparr>\<rparr>)"
    using tasks by (simp add: ptrace_syscall_def Let_def kernel_defs find_task_upd)
  moreover have "mem_get ?v z = mem_get (um_vmm (k_mem k)) z" if "z < ?pa \<or> ?pa + 8 \<le> z" for z
    using that by (auto simp: mem_write_get)
  ultimately show ?thesis using attach mem_word_write by blast
qed

text \<open>Two isolated processes of privilege 0, with PIDs 100 and 101.\<close>

definition wit_traced :: kernel where
  "wit_traced =
     wit_signals\<lparr>k_tasks := [0 \<mapsto> zero_task\<lparr>t_pid := 101, isolation_mode := ISOLATION_MEM\<rparr>,
                           1 \<mapsto> zero_task\<lparr>t_pid := 100, user_ctx := Some 8, isolation_mode := ISOLATION_MEM\<rparr>],
       k_mem := (k_mem wit_signals)\<lparr>um_ctx := [8 \<mapsto> wit_sig_ctx\<lparr>c_pml4 := Some 0\<rparr>],
         um_vmm := (um_vmm (k_mem wit_signals))\<lparr>pt_mem := (\<lambda>_ _. PTE_PRESENT)\<rparr>\<rparr>\<rparr>"

theorem ptrace_crosses_isolation_witness:
  "\<exists>k1 v. ptrace_syscall (Some 0) PTRACE_ATTACH 100 0 0 wit_traced = (0, k1) \<and>
      ptrace_syscall (Some 0) PTRACE_POKEDATA 100 0x1000 7 k1 = (0, k1\<lparr>k_mem := (k_mem k1)\<lparr>um_vmm := v\<rparr>\<rparr>) \<and>
      isolation_mode (tsk wit_traced 1) = ISOLATION_MEM"
proof -
  have t: "tsk wit_traced 1 = zero_task\<lparr>t_pid := 100, user_ctx := Some 8, isolation_mode := ISOLATION_MEM\<rparr>"
    "tsk wit_traced 0 = zero_task\<lparr>t_pid := 101, isolation_mode := ISOLATION_MEM\<rparr>"
    and mem: "k_tasks wit_traced 1 \<noteq> None" "k_tasks wit_traced 0 \<noteq> None" "k_list wit_traced = [1, 0]"
    "um_ctx (k_mem wit_traced) 8 = Some (wit_sig_ctx\<lparr>c_pml4 := Some 0\<rparr>)" "pt_mem (um_vmm (k_mem wit_traced)) x y = PTE_PRESENT" for x y
    by (simp_all add: wit_traced_def tsk_def wit_signals_def)
  have find: "find_task wit_traced 100 = Some 1" using t by (simp add: find_task_def mem)
  have pml4: "user_task_pml4 (tsk wit_traced 1) (k_mem wit_traced) = Some 0"
    unfolding t by (simp add: user_task_pml4_def user_get_ctx_def mem)
  have pte: "vmm_get_pte 0 0x1000 (um_vmm (k_mem wit_traced)) = Some (entry_frame PTE_PRESENT, PT_INDEX 0x1000)"
    by (simp add: vmm_get_pte_def Let_def mem kernel_defs)
  have rank: "privilege_level (tsk wit_traced 1) \<le> privilege_level (tsk wit_traced 0)" "t_pid (tsk wit_traced 1) \<le> 99 \<longrightarrow> t_pid (tsk wit_traced 0) \<le> 99"
    unfolding t by (simp_all add: zero_task_def)
  have flag: "has_flag (pt_mem (um_vmm (k_mem wit_traced)) (entry_frame PTE_PRESENT) (PT_INDEX 0x1000)) PTE_PRESENT"
    "unat ((0x1000 :: u64) AND 0xFFF) + 8 \<le> PAGE_SIZE"
    by (simp_all add: mem kernel_defs)
  from ptrace_crosses_isolation [OF find mem(1,2) rank pml4 pte flag, of 0 0 7] show ?thesis using t(1) by auto
qed

end
