(* ===== verification/SyscallProps.thy ===== *)
theory SyscallProps
  imports Syscall SeccompProps
begin

text \<open>
  Properties of the dispatcher: what becomes of the calls of a sandboxed process, and how one failed
  allocation ends all allocations of a process.
\<close>

section \<open>Lemmas\<close>

lemma put_task_same: "k_tasks k a \<noteq> None \<Longrightarrow> put_task a (tsk k a) k = k"
proof -
  assume "k_tasks k a \<noteq> None"
  then have "(k_tasks k)(a \<mapsto> tsk k a) = k_tasks k" by (auto simp: tsk_def intro!: fun_upd_idem)
  then show ?thesis by (simp add: put_task_def)
qed

lemma tsk_see [simp]: "tsk (k\<lparr>k_see := s\<rparr>) = tsk k"
  by (auto simp: tsk_def fun_eq_iff)

lemma interceptor_allows:
  assumes "see_task_instance (Some t) = Some i" "see_policy_check (Some (g_pool s i)) nr"
    and "syscall_to_res_type nr \<ge> 0 \<longrightarrow>
      fst (check_permission sha tasks (Some t) (syscall_to_res_type nr) 0 OB_ACCESS_READ None) = 0"
  shows "\<exists>ev. see_syscall_interceptor sha tasks (Some nr) (Some t) s =
      (0, False, Some t, s\<lparr>g_total_intercepts := g_total_intercepts s + 1\<rparr>, ev)"
  using assms by (cases "check_permission sha tasks (Some t) (syscall_to_res_type nr) 0 OB_ACCESS_READ None")
    (auto simp: see_syscall_interceptor_def Let_def)

lemma alloc_pages:
  fixes sz :: u64
  assumes "sz \<le> 2 ^ 20"
  shows "(sz + 4095) div 4096 \<le> 256" "unat ((sz + 4095) div 4096 * 4096) \<le> 2 ^ 20"
proof -
  have s: "unat sz \<le> 2 ^ 20" using assms by (simp add: word_le_nat_alt)
  have a: "unat (sz + 4095) = unat sz + 4095" using s by (subst unat_add_lem [THEN iffD1]) auto
  have d: "unat ((sz + 4095) div 4096) = (unat sz + 4095) div 4096" by (simp add: unat_div a)
  have le: "(unat sz + 4095) div 4096 \<le> 256" using s by simp
  show "(sz + 4095) div 4096 \<le> 256" using le d by (simp add: word_le_nat_alt)
  have "unat ((sz + 4095) div 4096 * 4096) = unat ((sz + 4095) div 4096) * 4096"
    using le d by (subst unat_mult_lem [THEN iffD1]) auto
  then show "unat ((sz + 4095) div 4096 * 4096) \<le> 2 ^ 20" using le d by simp
qed

lemma align_le: "unat (w :: u64) + 4095 < 2 ^ 64 \<Longrightarrow> unat ((w + 4095) AND NOT 4095) \<le> unat w + 4095"
proof -
  assume a: "unat w + 4095 < 2 ^ 64"
  have "(w + 4095) AND NOT 4095 \<le> w + 4095" by (rule word_and_le2)
  also have "unat (w + 4095) = unat w + 4095" using a by (subst unat_add_lem [THEN iffD1]) auto
  ultimately show ?thesis by (simp add: word_le_nat_alt)
qed

lemma virtual_alloc_no_room:
  assumes "user_get_ctx (tsk (y_k y) a) (k_mem (y_k y)) = Some d" "fr_rsi f = 0" "fr_rdi f \<noteq> 0" "fr_rdi f \<le> 2 ^ 20"
    and "c_heap_cur d + (fr_rdi f + 4095) div 4096 * 4096 > c_heap_end d"
  shows "sys_virtual_alloc a f y =
      Done OB_ENOMEM None (on_k (set_heap_cur a (c_heap_cur d + (fr_rdi f + 4095) div 4096 * 4096)) y)"
proof -
  have p: "(of_nat PAGE_SIZE :: u64) = 4096" by (simp add: kernel_defs)
  have e: "fr_rdi f + 4096 - 1 = fr_rdi f + 4095" by simp
  have "\<not> (fr_rdi f + 4095) div 4096 > 256" using alloc_pages(1) [OF assms(4)] by simp
  then show ?thesis using assms unfolding sys_virtual_alloc_def Let_def p e by simp
qed

section \<open>Properties\<close>


text \<open>
  C40. One failed allocation spoils the heap. When \<open>VirtualAlloc\<close> is asked for more than is left of the heap, it
  returns -ENOMEM but has moved the pointer to the end of the heap past the limit. In the state after it every
  \<open>VirtualAlloc\<close> of up to 256 pages without an address, even of one byte that would have fitted before, fails in
  the same way, and \<open>Brk\<close> to any address up to a page below the limit returns a pointer beyond the limit as if
  it had succeeded and changes nothing.
\<close>

theorem failed_alloc_exhausts_heap:
  assumes "user_ctx (tsk (y_k y) a) = Some u" "um_ctx (k_mem (y_k y)) u = Some c"
    and "c_heap_end c \<le> 2 ^ 47" "c_heap_cur c \<le> c_heap_end c"
    and "fr_rsi f = 0" "fr_rdi f \<noteq> 0" "fr_rdi f \<le> 2 ^ 20"
    and "c_heap_cur c + (fr_rdi f + 4095) div 4096 * 4096 > c_heap_end c"
  shows "\<exists>y1 c1. sys_virtual_alloc a f y = Done OB_ENOMEM None y1 \<and> um_ctx (k_mem (y_k y1)) u = Some c1 \<and>
      c_heap_cur c1 > c_heap_end c1 \<and> c_heap_end c1 = c_heap_end c \<and>
      (\<forall>g. fr_rsi g = 0 \<and> fr_rdi g \<noteq> 0 \<and> fr_rdi g \<le> 2 ^ 20 \<longrightarrow> (\<exists>y2. sys_virtual_alloc a g y1 = Done OB_ENOMEM None y2)) \<and>
      (\<forall>g. fr_rdi g \<noteq> 0 \<and> unat (fr_rdi g) + 4095 \<le> unat (c_heap_end c) \<longrightarrow> sys_brk a g y1 = Done (sint (c_heap_cur c1)) None y1)"
proof -
  let ?n = "(fr_rdi f + 4095) div 4096" let ?h = "c_heap_cur c + (fr_rdi f + 4095) div 4096 * 4096"
  let ?c = "c\<lparr>c_heap_cur := ?h\<rparr>" let ?y = "on_k (set_heap_cur a ?h) y"
  have ctx: "user_get_ctx (tsk (y_k y) a) (k_mem (y_k y)) = Some c" using assms(1,2) by (simp add: user_get_ctx_def)
  have mem: "um_ctx (k_mem (y_k ?y)) u = Some ?c" and tsk: "tsk (y_k ?y) = tsk (y_k y)"
    using assms(1,2) by (simp_all add: on_k_def set_heap_cur_def upd_ctx_def)
  have ctx1: "user_get_ctx (tsk (y_k ?y) a) (k_mem (y_k ?y)) = Some ?c" using mem tsk assms(1) by (simp add: user_get_ctx_def)
  have n: "unat (?n * 4096) \<le> 2 ^ 20" using alloc_pages [OF assms(7)] by simp
  have "unat (c_heap_end c) \<le> 2 ^ 47" using assms(3) by (simp add: word_le_nat_alt)
  note top = this
  have cur: "unat (c_heap_cur c) \<le> unat (c_heap_end c)" using assms(4) by (simp add: word_le_nat_alt)
  with top have h: "unat ?h \<le> 2 ^ 47 + 2 ^ 20" using n by (subst unat_add_lem [THEN iffD1]) auto
  have again: "\<exists>y2. sys_virtual_alloc a g ?y = Done OB_ENOMEM None y2" if g: "fr_rsi g = 0" "fr_rdi g \<noteq> 0" "fr_rdi g \<le> 2 ^ 20" for g
  proof -
    have "unat (?h + (fr_rdi g + 4095) div 4096 * 4096) \<ge> unat ?h"
      using h alloc_pages(2) [OF g(3)] by (subst unat_add_lem [THEN iffD1]) auto
    then have "c_heap_end ?c < c_heap_cur ?c + (fr_rdi g + 4095) div 4096 * 4096"
      using assms(8) by (simp add: word_less_nat_alt)
    from virtual_alloc_no_room [OF ctx1 g this] show ?thesis by blast
  qed
  have brk: "sys_brk a g ?y = Done (sint (c_heap_cur ?c)) None ?y" if g: "fr_rdi g \<noteq> 0" "unat (fr_rdi g) + 4095 \<le> unat (c_heap_end c)" for g
  proof -
    have p: "(of_nat PAGE_SIZE :: u64) = 4096" by (simp add: kernel_defs)
    have e: "fr_rdi g + 4096 - 1 = fr_rdi g + 4095" "(4096 :: u64) - 1 = 4095" by simp_all
    have "unat (fr_rdi g) + 4095 < 2 ^ 64" using g(2) top by simp
    from align_le [OF this] have "(fr_rdi g + 4095) AND NOT 4095 \<le> c_heap_end c" using g(2) by (simp add: word_le_nat_alt)
    then have al: "(fr_rdi g + 4095) AND NOT 4095 \<le> ?h" using assms(8) by simp
    have "\<not> fr_rdi g > c_heap_end c" using g(2) by (simp add: word_less_nat_alt)
    then show ?thesis using g(1) al unfolding sys_brk_def ctx1 Let_def p option.case e by simp
  qed
  show ?thesis
    using virtual_alloc_no_room [OF ctx assms(5-8)] mem assms(8) again brk
    by (intro exI[of _ ?y] exI[of _ ?c]) simp
qed

section \<open>Witnesses\<close>

text \<open>A sandboxed process of privilege 2 with the default policy, and a process with two pages of heap.\<close>

definition wit_box :: sys_state where
  "wit_box =
     \<lparr>y_k = wit_signals\<lparr>
        k_tasks := [0 \<mapsto> zero_task\<lparr>t_pid := 100, privilege_level := 2, sandbox_flags := 1, syscall_table_ptr := Some 3, user_ctx := Some 7\<rparr>],
        k_list := [0],
        k_see := (k_see wit_signals)\<lparr>g_pool := (\<lambda>_. zero_instance\<lparr>si_policy :=
          zero_policy\<lparr>po_rules := [\<lparr>ru_syscall_nr = 0x10A, ru_res_type = 1, ru_access_mask = 2\<rparr>]\<rparr>\<rparr>)\<rparr>,
        k_mem := (k_mem wit_signals)\<lparr>um_ctx := [7 \<mapsto> wit_sig_ctx\<lparr>c_heap_cur := 0x4000, c_heap_end := 0x6000\<rparr>]\<rparr>\<rparr>,
      y_heap = wit_heap, y_filters = (\<lambda>_. None), y_tty = tty_init\<rparr>"

definition wit_env :: sys_env where
  "wit_env =
     \<lparr>e_sha384 = (\<lambda>_. []), e_str = (\<lambda>_. []), e_bytes = (\<lambda>_ _. []), e_token = (\<lambda>_. 0), e_frame = 0, e_tsc = 0, e_random = None,
      e_sign = None, e_linux = (\<lambda>_ _ y. ret 0 y), e_win32 = (\<lambda>_ _ y. ret 0 y), e_other = (\<lambda>_ _ y. ret 0 y)\<rparr>"

definition wit_frame :: syscall_frame where
  "wit_frame = \<lparr>fr_rax = 0x10A, fr_rdi = 0x3000, fr_rsi = 0, fr_rdx = 0, fr_r10 = 0\<rparr>"

lemma wit_box_facts:
  "self_task (y_k wit_box) = Some 0" "k_tasks (y_k wit_box) 0 \<noteq> None"
  "tsk (y_k wit_box) 0 = zero_task\<lparr>t_pid := 100, privilege_level := 2, sandbox_flags := 1, syscall_table_ptr := Some 3, user_ctx := Some 7\<rparr>"
  "um_ctx (k_mem (y_k wit_box)) 7 = Some (wit_sig_ctx\<lparr>c_heap_cur := 0x4000, c_heap_end := 0x6000\<rparr>)"
  by (simp_all add: wit_box_def wit_signals_def self_task_def tsk_def thr_def)

lemma wit_box_policy: "see_policy_check (Some (g_pool (k_see (y_k wit_box)) i)) 0x10A"
  by (simp add: wit_box_def see_policy_check_def)


theorem failed_alloc_exhausts_heap_witness:
  "\<exists>y1. sys_virtual_alloc 0 wit_frame wit_box = Done OB_ENOMEM None y1 \<and>
     (\<exists>y2. sys_virtual_alloc 0 (wit_frame\<lparr>fr_rdi := 1\<rparr>) y1 = Done OB_ENOMEM None y2)"
proof -
  have u: "user_ctx (tsk (y_k wit_box) 0) = Some 7" unfolding wit_box_facts(3) by simp
  have le: "c_heap_end (wit_sig_ctx\<lparr>c_heap_cur := 0x4000, c_heap_end := 0x6000\<rparr>) \<le> 2 ^ 47"
    "c_heap_cur (wit_sig_ctx\<lparr>c_heap_cur := 0x4000, c_heap_end := 0x6000\<rparr>) \<le> c_heap_end (wit_sig_ctx\<lparr>c_heap_cur := 0x4000, c_heap_end := 0x6000\<rparr>)"
    "fr_rsi wit_frame = 0" "fr_rdi wit_frame \<noteq> 0" "fr_rdi wit_frame \<le> 2 ^ 20"
    "c_heap_cur (wit_sig_ctx\<lparr>c_heap_cur := 0x4000, c_heap_end := 0x6000\<rparr>) + (fr_rdi wit_frame + 4095) div 4096 * 4096 >
      c_heap_end (wit_sig_ctx\<lparr>c_heap_cur := 0x4000, c_heap_end := 0x6000\<rparr>)"
    by (simp_all add: wit_frame_def)
  from failed_alloc_exhausts_heap [OF u wit_box_facts(4) le] show ?thesis
    by (elim exE conjE) (auto simp: wit_frame_def)
qed

end
